(* ===== verification/Ndn_Prelude.thy ===== *)
theory Ndn_Prelude
  imports Main "HOL-Library.Word"
begin

text \<open>
  Shared vocabulary of the development.

  \<^item> The machine integers of the Rust sources (\<open>u8\<close>, \<open>u32\<close>, \<open>u64\<close>) and the casts between
    \<open>u64\<close> and the signed 64-bit integers that SQLite stores.
  \<^item> \<open>ndn_error\<close>, the error type of the crate \<open>ndn-lib\<close> (\<open>NdnError\<close> in \<open>ndn-lib/src/lib.rs\<close>),
    and \<open>ndn_result\<close>, its \<open>NdnResult\<close>.
  \<^item> Rust string operations the sources use: \<open>split\<close> on a character, \<open>join\<close>, UTF-8 validation.
  \<^item> SQL statements over tables represented as lists of row records in rowid order.  A table with
    a primary key is a list whose keys are distinct; \<open>INSERT OR REPLACE\<close> deletes the old row and
    appends the new one, as SQLite does with a fresh rowid.
  \<^item> The locale \<open>enum_codec\<close>, the contract of the \<open>as_str\<close>/\<open>from_str\<close> pairs of the enums that
    are stored as text columns.

  A Rust \<open>String\<close> is a \<open>string\<close>: the list of its UTF-8 bytes.
\<close>

type_synonym u8 = "8 word"
type_synonym u32 = "32 word"
type_synonym u64 = "64 word"

text \<open>The casts \<open>x as i64\<close> of a \<open>u64\<close> and \<open>x as u64\<close> of an \<open>i64\<close>.\<close>

definition as_i64 :: "u64 \<Rightarrow> int" where
  "as_i64 w = sint w"

definition as_u64 :: "int \<Rightarrow> u64" where
  "as_u64 i = word_of_int i"

definition as_u32 :: "int \<Rightarrow> u32" where
  "as_u32 i = word_of_int i"

definition saturating_sub :: "u64 \<Rightarrow> u64 \<Rightarrow> u64" where
  "saturating_sub a b = (if b \<le> a then a - b else 0)"

definition saturating_add :: "u64 \<Rightarrow> u64 \<Rightarrow> u64" where
  "saturating_add a b = (if unat a + unat b < 2 ^ 64 then a + b else - 1)"

datatype ndn_error =
    Internal string
  | InvalidId string
  | InvalidLink string
  | NotFound string
  | NotReady string
  | AlreadyExists string
  | VerifyError string
  | IoError string
  | DbError string
  | InComplete string
  | RemoteError string
  | DecodeError string
  | OffsetTooLarge string
  | InvalidObjType string
  | InvalidData string
  | InvalidParam string
  | InvalidState string
  | PermissionDenied string
  | Unsupported string

type_synonym 'a ndn_result = "ndn_error + 'a"

abbreviation Ok :: "'a \<Rightarrow> 'e + 'a" where
  "Ok \<equiv> Inr"

abbreviation Err :: "'e \<Rightarrow> 'e + 'a" where
  "Err \<equiv> Inl"

text \<open>\<open>opt.ok_or_else(|| e)\<close>, \<open>res.ok()\<close> and the \<open>?\<close> operator.\<close>

definition ok_or :: "'a option \<Rightarrow> 'e \<Rightarrow> 'e + 'a" where
  "ok_or x e = (case x of None \<Rightarrow> Err e | Some a \<Rightarrow> Ok a)"

definition res_ok :: "'e + 'a \<Rightarrow> 'a option" where
  "res_ok r = (case r of Inl _ \<Rightarrow> None | Inr a \<Rightarrow> Some a)"

definition and_then :: "'e + 'a \<Rightarrow> ('a \<Rightarrow> 'e + 'b) \<Rightarrow> 'e + 'b" where
  "and_then r f = (case r of Inl e \<Rightarrow> Err e | Inr a \<Rightarrow> f a)"

text \<open>\<open>iter.map(f).collect::<Result<Vec<_>, _>>()\<close>: the first error stops the traversal.\<close>

fun collect_results :: "('e + 'a) list \<Rightarrow> 'e + 'a list" where
  "collect_results [] = Ok []"
| "collect_results (r # rs) =
     and_then r (\<lambda>a. and_then (collect_results rs) (\<lambda>as. Ok (a # as)))"

text \<open>\<open>s.split(c)\<close>: at least one piece, one more than there are separators.\<close>

fun str_split :: "char \<Rightarrow> string \<Rightarrow> string list" where
  "str_split c [] = [[]]"
| "str_split c (x # xs) =
     (if x = c then [] # str_split c xs
      else (case str_split c xs of [] \<Rightarrow> [[x]] | p # ps \<Rightarrow> (x # p) # ps))"

text \<open>\<open>pieces.join(sep)\<close> for a one-character separator.\<close>

fun str_join :: "char \<Rightarrow> string list \<Rightarrow> string" where
  "str_join c [] = []"
| "str_join c [p] = p"
| "str_join c (p # q # ps) = p @ c # str_join c (q # ps)"

definition as_bytes :: "string \<Rightarrow> u8 list" where
  "as_bytes s = map (\<lambda>c. of_char c) s"

definition bytes_to_chars :: "u8 list \<Rightarrow> string" where
  "bytes_to_chars bs = map (\<lambda>b. char_of (unat b)) bs"

text \<open>
  \<open>String::from_utf8\<close> accepts exactly the well-formed byte sequences of the Unicode standard.
\<close>

definition utf8_tail :: "u8 \<Rightarrow> bool" where
  "utf8_tail b \<longleftrightarrow> 0x80 \<le> b \<and> b \<le> 0xBF"

fun utf8_valid :: "u8 list \<Rightarrow> bool" where
  "utf8_valid [] = True"
| "utf8_valid (b # bs) =
     (if b \<le> 0x7F then utf8_valid bs
      else if 0xC2 \<le> b \<and> b \<le> 0xDF then
        (case bs of b1 # r \<Rightarrow> utf8_tail b1 \<and> utf8_valid r | _ \<Rightarrow> False)
      else if 0xE0 \<le> b \<and> b \<le> 0xEF then
        (case bs of b1 # b2 # r \<Rightarrow>
           utf8_tail b1 \<and> (b = 0xE0 \<longrightarrow> 0xA0 \<le> b1) \<and> (b = 0xED \<longrightarrow> b1 \<le> 0x9F) \<and>
           utf8_tail b2 \<and> utf8_valid r | _ \<Rightarrow> False)
      else if 0xF0 \<le> b \<and> b \<le> 0xF4 then
        (case bs of b1 # b2 # b3 # r \<Rightarrow>
           utf8_tail b1 \<and> (b = 0xF0 \<longrightarrow> 0x90 \<le> b1) \<and> (b = 0xF4 \<longrightarrow> b1 \<le> 0x8F) \<and>
           utf8_tail b2 \<and> utf8_tail b3 \<and> utf8_valid r | _ \<Rightarrow> False)
      else False)"

definition string_from_utf8 :: "u8 list \<Rightarrow> string option" where
  "string_from_utf8 bs = (if utf8_valid bs then Some (bytes_to_chars bs) else None)"

text \<open>\<open>iter.position(p)\<close>.\<close>

fun position :: "('a \<Rightarrow> bool) \<Rightarrow> 'a list \<Rightarrow> nat option" where
  "position p [] = None"
| "position p (x # xs) = (if p x then Some 0 else map_option Suc (position p xs))"

text \<open>SQL statements over row lists.\<close>

definition sql_count :: "('r \<Rightarrow> bool) \<Rightarrow> 'r list \<Rightarrow> int" where
  "sql_count p t = int (length (filter p t))"

definition sql_update :: "('r \<Rightarrow> bool) \<Rightarrow> ('r \<Rightarrow> 'r) \<Rightarrow> 'r list \<Rightarrow> 'r list" where
  "sql_update p f t = map (\<lambda>r. if p r then f r else r) t"

definition sql_delete :: "('r \<Rightarrow> bool) \<Rightarrow> 'r list \<Rightarrow> 'r list" where
  "sql_delete p t = filter (\<lambda>r. \<not> p r) t"

definition insert_or_replace :: "('r \<Rightarrow> 'k) \<Rightarrow> 'r \<Rightarrow> 'r list \<Rightarrow> 'r list" where
  "insert_or_replace key r t = sql_delete (\<lambda>r'. key r' = key r) t @ [r]"

definition insert_or_ignore :: "('r \<Rightarrow> 'k) \<Rightarrow> 'r \<Rightarrow> 'r list \<Rightarrow> 'r list" where
  "insert_or_ignore key r t = (if key r \<in> key ` set t then t else t @ [r])"

text \<open>\<open>INSERT ... ON CONFLICT(key) DO UPDATE SET ...\<close>; \<open>f\<close> is the update of the old row.\<close>

definition insert_on_conflict :: "('r \<Rightarrow> 'k) \<Rightarrow> ('r \<Rightarrow> 'r) \<Rightarrow> 'r \<Rightarrow> 'r list \<Rightarrow> 'r list" where
  "insert_on_conflict key f r t =
     (if key r \<in> key ` set t then sql_update (\<lambda>r'. key r' = key r) f t else t @ [r])"

text \<open>Facts about the statements, used by the proofs of every table.\<close>

named_theorems sql_simps \<open>rewriting of SQL statements over row lists\<close>

lemma set_sql_update [sql_simps]:
  "set (sql_update p f t) = {r \<in> set t. \<not> p r} \<union> f ` {r \<in> set t. p r}"
  by (auto simp: sql_update_def)

lemma set_sql_delete [sql_simps]: "set (sql_delete p t) = {r \<in> set t. \<not> p r}"
  by (auto simp: sql_delete_def)

lemma set_insert_or_replace [sql_simps]:
  "set (insert_or_replace key r t) = insert r {r' \<in> set t. key r' \<noteq> key r}"
  by (auto simp: insert_or_replace_def sql_simps)

lemma set_insert_or_ignore [sql_simps]:
  "set (insert_or_ignore key r t) = (if key r \<in> key ` set t then set t else insert r (set t))"
  by (auto simp: insert_or_ignore_def)

lemma sql_count_pos [sql_simps]: "0 < sql_count p t \<longleftrightarrow> (\<exists>r \<in> set t. p r)"
  by (auto simp: sql_count_def filter_empty_conv)

lemma sql_count_nonneg [simp]: "0 \<le> sql_count p t"
  by (simp add: sql_count_def)

lemma sql_count_zero: "sql_count p t = 0 \<longleftrightarrow> (\<forall>r \<in> set t. \<not> p r)"
  by (auto simp: sql_count_def filter_empty_conv)

lemma sql_count_append [simp]: "sql_count p (s @ t) = sql_count p s + sql_count p t"
  by (simp add: sql_count_def)

lemma sql_count_single [simp]: "sql_count p [r] = (if p r then 1 else 0)"
  by (simp add: sql_count_def)

lemma sql_count_update:
  assumes "\<And>r. p (f r) = p r"
  shows "sql_count p (sql_update q f t) = sql_count p t"
  by (induction t) (auto simp: sql_count_def sql_update_def assms)

lemma sql_count_delete:
  "sql_count p (sql_delete q t) = sql_count (\<lambda>r. p r \<and> \<not> q r) t"
  by (simp add: sql_count_def sql_delete_def conj_commute)

lemma sql_count_delete_split:
  "sql_count p (sql_delete q t) = sql_count p t - sql_count (\<lambda>r. p r \<and> q r) t"
  by (induction t) (auto simp: sql_count_def sql_delete_def)

lemma sql_count_cong:
  "(\<And>r. r \<in> set t \<Longrightarrow> p r = q r) \<Longrightarrow> sql_count p t = sql_count q t"
  by (simp add: sql_count_def cong: filter_cong)

lemma map_sql_update:
  assumes "\<And>r. p r \<Longrightarrow> g (f r) = g r"
  shows "map g (sql_update p f t) = map g t"
  by (simp add: sql_update_def assms)

lemma distinct_map_sql_delete:
  "distinct (map g t) \<Longrightarrow> distinct (map g (sql_delete p t))"
  by (simp add: sql_delete_def distinct_map_filter)

lemma distinct_insert_or_replace:
  "distinct (map key t) \<Longrightarrow> distinct (map key (insert_or_replace key r t))"
  by (auto simp: insert_or_replace_def sql_delete_def distinct_map_filter)

lemma distinct_insert_or_ignore:
  "distinct (map key t) \<Longrightarrow> distinct (map key (insert_or_ignore key r t))"
  by (auto simp: insert_or_ignore_def)

lemma distinct_insert_on_conflict:
  assumes "\<And>r'. key r' = key r \<Longrightarrow> key (f r') = key r'" and "distinct (map key t)"
  shows "distinct (map key (insert_on_conflict key f r t))"
proof -
  have "map key (sql_update (\<lambda>r'. key r' = key r) f t) = map key t"
    by (rule map_sql_update) (simp add: assms)
  with assms(2) show ?thesis by (auto simp: insert_on_conflict_def)
qed

text \<open>\<open>str_split\<close> and \<open>str_join\<close>.\<close>

lemma str_split_nonempty [simp]: "str_split c s \<noteq> []"
  by (induction s) (auto split: list.splits)

lemma str_split_no_sep: "c \<notin> set s \<Longrightarrow> str_split c s = [s]"
  by (induction s) auto

lemma str_split_append:
  "c \<notin> set p \<Longrightarrow> str_split c (p @ c # s) = p # str_split c s"
  by (induction p) auto

lemma str_split_pieces: "p \<in> set (str_split c s) \<Longrightarrow> c \<notin> set p"
  by (induction s arbitrary: p) (auto split: if_splits list.splits)

lemma str_join_split: "str_join c (str_split c s) = s"
proof (induction s)
  case Nil
  then show ?case by simp
next
  case (Cons x xs)
  obtain p ps where sp: "str_split c xs = p # ps"
    by (meson neq_Nil_conv str_split_nonempty)
  with Cons show ?case by (cases ps) auto
qed

lemma str_split_length: "length (str_split c s) = Suc (count_list s c)"
  by (induction s) (auto split: list.splits)

lemma str_split_join:
  "ps \<noteq> [] \<Longrightarrow> (\<And>p. p \<in> set ps \<Longrightarrow> c \<notin> set p) \<Longrightarrow> str_split c (str_join c ps) = ps"
  by (induction c ps rule: str_join.induct) (auto simp: str_split_no_sep str_split_append)

text \<open>Cutting at the last separator.\<close>

lemma last_sep_cut:
  assumes "c \<notin> set h"
  shows "dropWhile (\<lambda>x. x \<noteq> c) (rev (t @ c # h)) = c # rev t"
    and "takeWhile (\<lambda>x. x \<noteq> c) (rev (t @ c # h)) = rev h"
proof -
  have h: "\<And>x. x \<in> set (rev h) \<Longrightarrow> x \<noteq> c"
    using assms by auto
  have split: "rev (t @ c # h) = rev h @ c # rev t"
    by simp
  show "dropWhile (\<lambda>x. x \<noteq> c) (rev (t @ c # h)) = c # rev t"
    unfolding split using h by (subst dropWhile_append2) auto
  show "takeWhile (\<lambda>x. x \<noteq> c) (rev (t @ c # h)) = rev h"
    unfolding split using h by (subst takeWhile_append2) auto
qed

lemma last_sep_inject:
  assumes "t @ c # h = t' @ c # h'" and "c \<notin> set h" and "c \<notin> set h'"
  shows "t = t' \<and> h = h'"
proof -
  from assms(1) have "rev (t @ c # h) = rev (t' @ c # h')" by (rule arg_cong)
  with last_sep_cut [OF assms(2), of t] last_sep_cut [OF assms(3), of t']
  show ?thesis by (metis list.inject rev_is_rev_conv)
qed

text \<open>Bytes and characters.\<close>

lemma unat_u8_less [simp]: "unat (b :: u8) < 256"
  using unsigned_less [where ?'a = nat and w = b] by simp

lemma unat_of_char_u8 [simp]: "unat (of_char c :: u8) = of_char c"
proof -
  have "(of_char c :: nat) mod 256 = of_char c"
    by (rule of_char_mod_256)
  then have "(of_char c :: nat) < 256"
    by (metis mod_less_divisor zero_less_numeral)
  moreover have "(of_char c :: u8) = of_nat (of_char c)"
    by (simp add: of_nat_of_char)
  ultimately show ?thesis
    by (simp add: unat_of_nat take_bit_nat_eq_self_iff)
qed

lemma bytes_to_chars_as_bytes [simp]: "bytes_to_chars (as_bytes s) = s"
  by (simp add: bytes_to_chars_def as_bytes_def comp_def)

lemma length_as_bytes [simp]: "length (as_bytes s) = length s"
  by (simp add: as_bytes_def)

lemma position_append:
  "\<forall>x \<in> set xs. \<not> p x \<Longrightarrow> p y \<Longrightarrow> position p (xs @ y # ys) = Some (length xs)"
  by (induction xs) auto

lemma position_SomeD:
  "position p xs = Some i \<Longrightarrow> i < length xs \<and> p (xs ! i) \<and> (\<forall>j < i. \<not> p (xs ! j))"
proof (induction xs arbitrary: i)
  case (Cons x xs)
  then show ?case
    by (auto split: if_splits simp: less_Suc_eq_0_disj nth_Cons split: nat.splits)
qed simp

text \<open>The casts are inverse to each other.\<close>

lemma as_u64_as_i64 [simp]: "as_u64 (as_i64 w) = w"
  by (simp add: as_u64_def as_i64_def)

lemma as_i64_inject [simp]: "as_i64 a = as_i64 b \<longleftrightarrow> a = b"
  by (metis as_u64_as_i64)

text \<open>
  The contract of an enum that is stored as text: the text determines the value, so the text of
  two values is equal only if the values are.
\<close>

locale enum_codec =
  fixes to_text :: "'e \<Rightarrow> string"
    and of_text :: "string \<Rightarrow> 'e option"
  assumes of_to: "of_text (to_text e) = Some e"
begin

lemma to_text_inject: "to_text a = to_text b \<longleftrightarrow> a = b"
  by (metis of_to option.inject)

lemma of_text_eq_Some: "of_text (to_text a) = Some b \<longleftrightarrow> a = b"
  by (simp add: of_to)

end

end
