(* ===== verification/Ndn_Object.thy ===== *)
theory Ndn_Object
  imports Ndn_Prelude
begin

text \<open>
  The object identifiers and named objects of the crate \<open>ndn-lib\<close>: \<open>ObjId\<close>, its text, base32 and
  byte forms (\<open>object.rs\<close>), \<open>HashMethod\<close> (\<open>hash.rs\<close>), \<open>ChunkType\<close>, \<open>ChunkId\<close> and the mix encoding of
  a length in front of a hash (\<open>chunk/chunk.rs\<close>), \<open>ChunkList\<close> (\<open>chunk/chunk_list.rs\<close>), the items of a
  \<open>SimpleObjectMap\<close> and a \<open>DirObject\<close> (\<open>simple_object_map.rs\<close>, \<open>dirobj.rs\<close>), and
  \<open>KnownStandardObject\<close>, \<open>NfsPath\<close> and \<open>is_descendant_path\<close> (\<open>lib.rs\<close>).

  Third-party crates are not modelled: \<open>hex\<close>, \<open>base32\<close>, \<open>unsigned_varint\<close>, \<open>sha2\<close>, \<open>serde_json\<close>,
  \<open>serde_jcs\<close>, \<open>name_lib\<close>'s JWT decoder and the text of a \<open>rusqlite\<close> error are the fields of a record
  \<open>ext_crates\<close> that every definition using them takes as its argument.  What the sources rely on is
  stated by the predicates \<open>hex_laws\<close>, \<open>base32_laws\<close> and \<open>varint_laws\<close>.  The type variable \<open>'j\<close> stands
  for \<open>serde_json::Value\<close>.  Where an error message quotes the text of a third-party error, the
  model keeps the fixed part of the message.
\<close>

section \<open>Identifiers\<close>

record obj_id =
  obj_type :: string
  obj_hash :: "u8 list"

datatype hash_method = HSha256 | HSha512 | HQCID | HBlake2s256 | HKeccak256

datatype chunk_type =
    Sha256 | Mix256 | Sha512 | Mix512 | QCID | Blake2s256 | MixBlake2s256
  | Keccak256 | MixKeccak256 | UnknownChunkType string

record chunk_id =
  chunk_type :: chunk_type
  hash_result :: "u8 list"

record chunk_local_info =
  li_path :: string
  li_qcid :: string
  li_last_modify_time :: u64
  li_range :: "(u64 \<times> u64) option"

text \<open>\<open>FileObject\<close>; the flattened \<open>BaseContentObject\<close> and \<open>meta\<close> are JSON values here.\<close>

record 'j file_object =
  fo_content_obj :: 'j
  fo_size :: u64
  fo_content :: string
  fo_meta :: "(string \<times> 'j) list"

datatype 'j simple_map_item =
    ItemObject string 'j
  | ItemObjId obj_id
  | ItemObjectJwt string string

record 'j dir_object =
  dir_content_obj :: 'j
  dir_meta :: "(string \<times> 'j) list"
  dir_total_size :: u64
  dir_file_count :: u64
  dir_file_size :: u64
  dir_body :: "(string \<times> 'j simple_map_item) list"

text \<open>
  The third-party code.  \<open>de_dir_object\<close> is \<open>serde_json::from_str\<close> on \<open>DirObjectDe\<close> with the entries
  of \<open>body\<close> still JSON values, in the iteration order of the \<open>HashMap\<close>; \<open>de_str_array\<close> is
  \<open>serde_json::from_str\<close> on an array of strings.
\<close>

record 'j ext_crates =
  hex_encode :: "u8 list \<Rightarrow> string"
  hex_decode :: "string \<Rightarrow> u8 list option"
  base32_encode :: "u8 list \<Rightarrow> string"
  base32_decode :: "string \<Rightarrow> u8 list option"
  varint_encode :: "u64 \<Rightarrow> u8 list"
  varint_decode :: "u8 list \<Rightarrow> (u64 \<times> u8 list) option"
  hash_digest :: "hash_method \<Rightarrow> u8 list \<Rightarrow> u8 list"
  jcs_to_string :: "'j \<Rightarrow> string option"
  jwt_claims :: "string \<Rightarrow> 'j option"
  json_from_str :: "string \<Rightarrow> 'j option"
  json_to_str :: "'j \<Rightarrow> string option"
  json_as_str :: "'j \<Rightarrow> string option"
  json_as_object :: "'j \<Rightarrow> (string \<Rightarrow> 'j option) option"
  json_str_array :: "string list \<Rightarrow> 'j"
  de_file_object :: "string \<Rightarrow> 'j file_object option"
  de_dir_object :: "string \<Rightarrow> ('j \<times> (string \<times> 'j) list \<times> u64 \<times> u64 \<times> u64 \<times> (string \<times> 'j) list) option"
  de_str_array :: "string \<Rightarrow> string list option"
  ser_local_info :: "chunk_local_info \<Rightarrow> string"
  de_local_info :: "string \<Rightarrow> chunk_local_info option"
  no_rows_msg :: string

text \<open>Documented behaviour of the codecs that the sources rely on.\<close>

definition hex_laws :: "'j ext_crates \<Rightarrow> bool" where
  "hex_laws E \<longleftrightarrow> (\<forall>bs. hex_decode E (hex_encode E bs) = Some bs) \<and>
     (\<forall>bs. set (hex_encode E bs) \<subseteq> set ''0123456789abcdef'')"

definition base32_laws :: "'j ext_crates \<Rightarrow> bool" where
  "base32_laws E \<longleftrightarrow> (\<forall>bs. base32_decode E (base32_encode E bs) = Some bs) \<and>
     (\<forall>bs. set (base32_encode E bs) \<subseteq> set ''abcdefghijklmnopqrstuvwxyz234567'')"

definition varint_laws :: "'j ext_crates \<Rightarrow> bool" where
  "varint_laws E \<longleftrightarrow> (\<forall>n rest. varint_decode E (varint_encode E n @ rest) = Some (n, rest)) \<and>
     (\<forall>n. varint_encode E n \<noteq> [])"

text \<open>\<open>serde_json\<close> reads back what it wrote for a \<open>ChunkLocalInfo\<close>; its \<open>path\<close> is not serialized.\<close>

definition local_info_laws :: "'j ext_crates \<Rightarrow> bool" where
  "local_info_laws E \<longleftrightarrow>
     (\<forall>li. de_local_info E (ser_local_info E li) = Some (li\<lparr>li_path := []\<rparr>))"

subsection \<open>\<open>Base32Codec\<close>, \<open>ObjIdBytesCodec\<close>\<close>

definition to_base32 :: "'j ext_crates \<Rightarrow> u8 list \<Rightarrow> string" where
  "to_base32 E bs = base32_encode E bs"

definition from_base32 :: "'j ext_crates \<Rightarrow> string \<Rightarrow> u8 list ndn_result" where
  "from_base32 E s = ok_or (base32_decode E s) (InvalidId (''decode base32 failed:'' @ s))"

definition colon_byte :: u8 where
  "colon_byte = 0x3A"

definition codec_to_bytes :: "string \<Rightarrow> u8 list \<Rightarrow> u8 list" where
  "codec_to_bytes ty h = as_bytes ty @ colon_byte # h"

text \<open>The part shared by \<open>ObjIdBytesCodec::from_bytes\<close> and the base32 branch of \<open>ObjId::new\<close>.\<close>

definition split_type_hash :: "u8 list \<Rightarrow> (string \<times> u8 list) ndn_result" where
  "split_type_hash bs =
     and_then (ok_or (position (\<lambda>x. x = colon_byte) bs) (InvalidId (''separator '' @ [CHR 0x27, CHR '':'', CHR 0x27] @ '' not found'')))
       (\<lambda>pos. and_then (ok_or (string_from_utf8 (take pos bs)) (InvalidId ''invalid utf8 in obj_type''))
         (\<lambda>ty. Ok (ty, drop (Suc pos) bs)))"

definition codec_from_bytes :: "u8 list \<Rightarrow> (string \<times> u8 list) ndn_result" where
  "codec_from_bytes bs =
     (if length bs < 3 then Err (InvalidId ''objid bytes too short'') else split_type_hash bs)"

subsection \<open>\<open>ObjId\<close>\<close>

definition new_by_raw :: "string \<Rightarrow> u8 list \<Rightarrow> obj_id" where
  "new_by_raw ty h = \<lparr>obj_type = ty, obj_hash = h\<rparr>"

definition obj_id_new :: "'j ext_crates \<Rightarrow> string \<Rightarrow> obj_id ndn_result" where
  "obj_id_new E s =
     (case str_split (CHR '':'') s of
        [p] \<Rightarrow> and_then (from_base32 E p)
                 (\<lambda>bs. and_then (split_type_hash bs) (\<lambda>(ty, h). Ok (new_by_raw ty h)))
      | [ty, hx] \<Rightarrow> (case hex_decode E hx of
            None \<Rightarrow> Err (InvalidId ''decode hex failed:'')
          | Some h \<Rightarrow> Ok (new_by_raw ty h))
      | _ \<Rightarrow> Err (InvalidId s))"

definition obj_id_to_string :: "'j ext_crates \<Rightarrow> obj_id \<Rightarrow> string" where
  "obj_id_to_string E oid = obj_type oid @ CHR '':'' # hex_encode E (obj_hash oid)"

definition obj_id_to_filename :: "'j ext_crates \<Rightarrow> obj_id \<Rightarrow> string" where
  "obj_id_to_filename E oid = hex_encode E (obj_hash oid) @ CHR ''.'' # obj_type oid"

definition obj_id_to_base32 :: "'j ext_crates \<Rightarrow> obj_id \<Rightarrow> string" where
  "obj_id_to_base32 E oid = to_base32 E (as_bytes (obj_type oid) @ colon_byte # obj_hash oid)"

definition obj_id_to_bytes :: "obj_id \<Rightarrow> u8 list" where
  "obj_id_to_bytes oid = codec_to_bytes (obj_type oid) (obj_hash oid)"

definition obj_id_from_bytes :: "u8 list \<Rightarrow> obj_id ndn_result" where
  "obj_id_from_bytes bs = and_then (codec_from_bytes bs) (\<lambda>(ty, h). Ok (new_by_raw ty h))"

definition obj_id_from_value :: "'j ext_crates \<Rightarrow> 'j \<Rightarrow> obj_id ndn_result" where
  "obj_id_from_value E v =
     (case json_as_str E v of Some s \<Rightarrow> obj_id_new E s
      | None \<Rightarrow> Err (InvalidData ''ObjId MUST be string''))"

definition obj_id_from_hostname :: "'j ext_crates \<Rightarrow> string \<Rightarrow> obj_id ndn_result" where
  "obj_id_from_hostname E host = obj_id_new E (hd (str_split (CHR ''.'') host))"

text \<open>The loop of \<open>ObjId::from_path\<close> over the path parts: the first part that parses wins.\<close>

fun from_path_parts :: "'j ext_crates \<Rightarrow> string list \<Rightarrow> (obj_id \<times> string option) option" where
  "from_path_parts E [] = None"
| "from_path_parts E (p # ps) =
     (case obj_id_new E p of
        Inr oid \<Rightarrow> Some (oid, if ps = [] then None else Some (CHR ''/'' # str_join (CHR ''/'') ps))
      | Inl _ \<Rightarrow> from_path_parts E ps)"

definition obj_id_from_path ::
  "'j ext_crates \<Rightarrow> string \<Rightarrow> (obj_id \<times> string option) ndn_result" where
  "obj_id_from_path E path =
     ok_or (from_path_parts E (str_split (CHR ''/'') path))
       (InvalidId (''no objid found in path:'' @ path))"

definition OBJ_TYPE_FILE :: string where "OBJ_TYPE_FILE = ''cyfile''"
definition OBJ_TYPE_DIR :: string where "OBJ_TYPE_DIR = ''cydir''"
definition OBJ_TYPE_OBJMAP :: string where "OBJ_TYPE_OBJMAP = ''cymap''"
definition OBJ_TYPE_LIST :: string where "OBJ_TYPE_LIST = ''cylist''"
definition OBJ_TYPE_CHUNK_LIST :: string where "OBJ_TYPE_CHUNK_LIST = ''clist''"
definition OBJ_TYPE_PACK :: string where "OBJ_TYPE_PACK = ''cypack''"

lemmas obj_type_defs = OBJ_TYPE_FILE_def OBJ_TYPE_DIR_def OBJ_TYPE_OBJMAP_def OBJ_TYPE_LIST_def
  OBJ_TYPE_CHUNK_LIST_def OBJ_TYPE_PACK_def

definition is_chunk_type :: "string \<Rightarrow> bool" where
  "is_chunk_type s \<longleftrightarrow> s \<in> set [''sha256'', ''mix256'', ''sha512'', ''mix512'', ''qcid'',
     ''blake2s256'', ''mixblake2s256'', ''keccak256'', ''mixkeccak256'']"

definition is_chunk :: "obj_id \<Rightarrow> bool" where
  "is_chunk oid = is_chunk_type (obj_type oid)"

definition is_chunk_list :: "obj_id \<Rightarrow> bool" where
  "is_chunk_list oid \<longleftrightarrow> obj_type oid = OBJ_TYPE_CHUNK_LIST"

definition is_dir_object :: "obj_id \<Rightarrow> bool" where
  "is_dir_object oid \<longleftrightarrow> obj_type oid = OBJ_TYPE_DIR"

definition is_file_object :: "obj_id \<Rightarrow> bool" where
  "is_file_object oid \<longleftrightarrow> obj_type oid = OBJ_TYPE_FILE"

definition is_container :: "obj_id \<Rightarrow> bool" where
  "is_container oid \<longleftrightarrow>
     obj_type oid \<in> {OBJ_TYPE_DIR, OBJ_TYPE_OBJMAP, OBJ_TYPE_LIST, OBJ_TYPE_CHUNK_LIST}"

definition is_big_container :: "obj_id \<Rightarrow> bool" where
  "is_big_container oid \<longleftrightarrow> obj_type oid \<in> {OBJ_TYPE_OBJMAP, OBJ_TYPE_LIST, OBJ_TYPE_CHUNK_LIST}"

definition is_json :: "obj_id \<Rightarrow> bool" where
  "is_json oid \<longleftrightarrow> \<not> (is_chunk oid \<or> is_container oid) \<and> obj_type oid \<noteq> OBJ_TYPE_PACK"

section \<open>Hash methods and chunk identifiers\<close>

fun hash_method_as_str :: "hash_method \<Rightarrow> string" where
  "hash_method_as_str HSha256 = ''sha256''"
| "hash_method_as_str HSha512 = ''sha512''"
| "hash_method_as_str HQCID = ''qcid''"
| "hash_method_as_str HBlake2s256 = ''blake2s256''"
| "hash_method_as_str HKeccak256 = ''keccak256''"

fun hash_result_size :: "hash_method \<Rightarrow> nat" where
  "hash_result_size HSha256 = 32"
| "hash_result_size HSha512 = 64"
| "hash_result_size HQCID = 32"
| "hash_result_size HBlake2s256 = 32"
| "hash_result_size HKeccak256 = 32"

definition hash_method_from_str :: "string \<Rightarrow> hash_method ndn_result" where
  "hash_method_from_str s =
     (if s = ''sha256'' \<or> s = ''mix256'' then Ok HSha256
      else if s = ''sha512'' \<or> s = ''mix512'' then Ok HSha512
      else if s = ''qcid'' \<or> s = ''mixqcid'' then Ok HQCID
      else if s = ''blake2s256'' \<or> s = ''mixblake2s256'' then Ok HBlake2s256
      else if s = ''keccak256'' \<or> s = ''mixkeccak256'' then Ok HKeccak256
      else Err (InvalidData (''Invalid hash method: '' @ s)))"

definition hash_method_parse :: "string \<Rightarrow> (hash_method \<times> bool) ndn_result" where
  "hash_method_parse s =
     and_then (hash_method_from_str s) (\<lambda>m. Ok (m, take 3 s = ''mix''))"

fun chunk_type_is_mix :: "chunk_type \<Rightarrow> bool" where
  "chunk_type_is_mix Mix256 = True"
| "chunk_type_is_mix Mix512 = True"
| "chunk_type_is_mix MixBlake2s256 = True"
| "chunk_type_is_mix MixKeccak256 = True"
| "chunk_type_is_mix QCID = True"
| "chunk_type_is_mix _ = False"

fun from_hash_type :: "hash_method \<Rightarrow> bool \<Rightarrow> chunk_type ndn_result" where
  "from_hash_type HSha256 mix = Ok (if mix then Mix256 else Sha256)"
| "from_hash_type HSha512 mix = Ok (if mix then Mix512 else Sha512)"
| "from_hash_type HQCID mix =
     (if mix then Ok QCID else Err (InvalidObjType ''QCID must be mix hash''))"
| "from_hash_type HBlake2s256 mix = Ok (if mix then MixBlake2s256 else Blake2s256)"
| "from_hash_type HKeccak256 mix = Ok (if mix then MixKeccak256 else Keccak256)"

fun to_hash_method :: "chunk_type \<Rightarrow> hash_method ndn_result" where
  "to_hash_method Sha256 = Ok HSha256"
| "to_hash_method Mix256 = Ok HSha256"
| "to_hash_method Sha512 = Ok HSha512"
| "to_hash_method Mix512 = Ok HSha512"
| "to_hash_method QCID = Ok HQCID"
| "to_hash_method Blake2s256 = Ok HBlake2s256"
| "to_hash_method MixBlake2s256 = Ok HBlake2s256"
| "to_hash_method Keccak256 = Ok HKeccak256"
| "to_hash_method MixKeccak256 = Ok HKeccak256"
| "to_hash_method (UnknownChunkType s) = Err (InvalidObjType (''invalid chunk type:'' @ s))"

text \<open>\<open>ChunkType::from_str\<close> never fails, so the model returns the value itself.\<close>

definition chunk_type_from_str :: "string \<Rightarrow> chunk_type" where
  "chunk_type_from_str s =
     (if s = ''sha256'' then Sha256
      else if s = ''mix256'' then Mix256
      else if s = ''sha512'' then Sha512
      else if s = ''mix512'' then Mix512
      else if s = ''qcid'' then QCID
      else if s = ''blake2s256'' then Blake2s256
      else if s = ''mixblake2s256'' then MixBlake2s256
      else if s = ''keccak256'' then Keccak256
      else if s = ''mixkeccak256'' then MixKeccak256
      else UnknownChunkType s)"

fun chunk_type_to_string :: "chunk_type \<Rightarrow> string" where
  "chunk_type_to_string Sha256 = ''sha256''"
| "chunk_type_to_string Mix256 = ''mix256''"
| "chunk_type_to_string Sha512 = ''sha512''"
| "chunk_type_to_string Mix512 = ''mix512''"
| "chunk_type_to_string QCID = ''qcid''"
| "chunk_type_to_string Blake2s256 = ''blake2s256''"
| "chunk_type_to_string MixBlake2s256 = ''mixblake2s256''"
| "chunk_type_to_string Keccak256 = ''keccak256''"
| "chunk_type_to_string MixKeccak256 = ''mixkeccak256''"
| "chunk_type_to_string (UnknownChunkType s) = s"

text \<open>\<open>ChunkIdHashHelper\<close>\<close>

definition helper_get_length :: "'j ext_crates \<Rightarrow> string \<Rightarrow> u8 list \<Rightarrow> u64 option" where
  "helper_get_length E ty h =
     (if h = [] then None
      else case hash_method_parse ty of
          Inr (m, mix) \<Rightarrow> if mix then map_option fst (varint_decode E h) else None
        | Inl _ \<Rightarrow> None)"

definition helper_get_hash :: "'j ext_crates \<Rightarrow> string \<Rightarrow> u8 list \<Rightarrow> u8 list" where
  "helper_get_hash E ty h =
     (if h = [] then h
      else case hash_method_parse ty of
          Inr (m, mix) \<Rightarrow>
            if mix then (case varint_decode E h of Some (_, rest) \<Rightarrow> rest | None \<Rightarrow> h) else h
        | Inl _ \<Rightarrow> h)"

text \<open>\<open>ChunkId\<close>\<close>

definition chunk_to_obj_id :: "chunk_id \<Rightarrow> obj_id" where
  "chunk_to_obj_id c = \<lparr>obj_type = chunk_type_to_string (chunk_type c), obj_hash = hash_result c\<rparr>"

definition chunk_from_obj_id :: "obj_id \<Rightarrow> chunk_id" where
  "chunk_from_obj_id oid =
     \<lparr>chunk_type = chunk_type_from_str (obj_type oid), hash_result = obj_hash oid\<rparr>"

definition chunk_id_new :: "'j ext_crates \<Rightarrow> string \<Rightarrow> chunk_id ndn_result" where
  "chunk_id_new E s =
     and_then (obj_id_new E s)
       (\<lambda>oid. if \<not> is_chunk oid then Err (InvalidId (''invalid chunk id:'' @ s))
              else Ok \<lparr>chunk_type = chunk_type_from_str (obj_type oid), hash_result = obj_hash oid\<rparr>)"

definition mix_length_and_hash_result :: "'j ext_crates \<Rightarrow> u64 \<Rightarrow> u8 list \<Rightarrow> u8 list" where
  "mix_length_and_hash_result E n h = varint_encode E n @ h"

definition from_mix_hash_result ::
  "'j ext_crates \<Rightarrow> u64 \<Rightarrow> u8 list \<Rightarrow> chunk_type \<Rightarrow> chunk_id" where
  "from_mix_hash_result E n h ty =
     \<lparr>chunk_type = ty, hash_result = mix_length_and_hash_result E n h\<rparr>"

definition from_mix_hash_result_by_hash_method ::
  "'j ext_crates \<Rightarrow> u64 \<Rightarrow> u8 list \<Rightarrow> hash_method \<Rightarrow> chunk_id ndn_result" where
  "from_mix_hash_result_by_hash_method E n h m =
     and_then (from_hash_type m True)
       (\<lambda>ty. Ok \<lparr>chunk_type = ty, hash_result = mix_length_and_hash_result E n h\<rparr>)"

definition from_hash_result :: "u8 list \<Rightarrow> chunk_type \<Rightarrow> chunk_id" where
  "from_hash_result h ty = \<lparr>chunk_type = ty, hash_result = h\<rparr>"

definition from_sha256_result :: "u8 list \<Rightarrow> chunk_id" where
  "from_sha256_result h = \<lparr>chunk_type = Sha256, hash_result = h\<rparr>"

definition from_mix256_result :: "'j ext_crates \<Rightarrow> u64 \<Rightarrow> u8 list \<Rightarrow> chunk_id" where
  "from_mix256_result E n h =
     \<lparr>chunk_type = Mix256, hash_result = mix_length_and_hash_result E n h\<rparr>"

definition chunk_to_string :: "'j ext_crates \<Rightarrow> chunk_id \<Rightarrow> string" where
  "chunk_to_string E c =
     chunk_type_to_string (chunk_type c) @ CHR '':'' # hex_encode E (hash_result c)"

definition chunk_to_base32 :: "'j ext_crates \<Rightarrow> chunk_id \<Rightarrow> string" where
  "chunk_to_base32 E c =
     base32_encode E (as_bytes (chunk_type_to_string (chunk_type c)) @ colon_byte # hash_result c)"

definition chunk_to_bytes :: "chunk_id \<Rightarrow> u8 list" where
  "chunk_to_bytes c = codec_to_bytes (chunk_type_to_string (chunk_type c)) (hash_result c)"

definition chunk_from_bytes :: "u8 list \<Rightarrow> chunk_id ndn_result" where
  "chunk_from_bytes bs =
     and_then (codec_from_bytes bs)
       (\<lambda>(ty, h). Ok \<lparr>chunk_type = chunk_type_from_str ty, hash_result = h\<rparr>)"

definition chunk_get_length :: "'j ext_crates \<Rightarrow> chunk_id \<Rightarrow> u64 option" where
  "chunk_get_length E c =
     (if hash_result c = [] then None
      else if chunk_type_is_mix (chunk_type c) then map_option fst (varint_decode E (hash_result c))
      else None)"

text \<open>\<open>ChunkList\<close>; the sums wrap at 64 bits, as in a release build.\<close>

record chunk_list =
  cl_total_size :: u64
  cl_body :: "chunk_id list"

definition chunk_list_new :: chunk_list where
  "chunk_list_new = \<lparr>cl_total_size = 0, cl_body = []\<rparr>"

fun sum_chunk_lengths :: "'j ext_crates \<Rightarrow> chunk_id list \<Rightarrow> u64 ndn_result" where
  "sum_chunk_lengths E [] = Ok 0"
| "sum_chunk_lengths E (c # cs) =
     (case chunk_get_length E c of
        None \<Rightarrow> Err (InvalidParam ''get chunk length from chunkid failed'')
      | Some n \<Rightarrow> and_then (sum_chunk_lengths E cs) (\<lambda>m. Ok (n + m)))"

definition from_chunk_list :: "'j ext_crates \<Rightarrow> chunk_id list \<Rightarrow> chunk_list ndn_result" where
  "from_chunk_list E cs =
     and_then (sum_chunk_lengths E cs) (\<lambda>n. Ok \<lparr>cl_total_size = n, cl_body = cs\<rparr>)"

definition append_chunk :: "'j ext_crates \<Rightarrow> chunk_list \<Rightarrow> chunk_id \<Rightarrow> chunk_list ndn_result" where
  "append_chunk E cl c =
     (case chunk_get_length E c of
        None \<Rightarrow> Err (InvalidParam ''get chunk length from chunkid failed'')
      | Some n \<Rightarrow> Ok (cl\<lparr>cl_body := cl_body cl @ [c], cl_total_size := cl_total_size cl + n\<rparr>))"

definition chunk_list_from_json :: "'j ext_crates \<Rightarrow> string \<Rightarrow> chunk_list ndn_result" where
  "chunk_list_from_json E s =
     (case de_str_array E s of
        None \<Rightarrow> Err (InvalidParam ''parse chunk list from json failed: '')
      | Some ss \<Rightarrow>
          (case collect_results (map (chunk_id_new E) ss) of
             Inl _ \<Rightarrow> Err (InvalidParam ''parse chunk list from json failed: '')
           | Inr cs \<Rightarrow> from_chunk_list E cs))"

section \<open>Named objects\<close>

definition build_obj_id :: "'j ext_crates \<Rightarrow> string \<Rightarrow> string \<Rightarrow> obj_id" where
  "build_obj_id E ty js = new_by_raw ty (hash_digest E HSha256 (as_bytes js))"

definition build_named_object_by_json ::
  "'j ext_crates \<Rightarrow> string \<Rightarrow> 'j \<Rightarrow> obj_id \<times> string" where
  "build_named_object_by_json E ty v =
     (let js = (case jcs_to_string E v of Some s \<Rightarrow> s | None \<Rightarrow> ''{}'')
      in (build_obj_id E ty js, js))"

definition build_named_object_by_jwt ::
  "'j ext_crates \<Rightarrow> string \<Rightarrow> string \<Rightarrow> (obj_id \<times> string) ndn_result" where
  "build_named_object_by_jwt E ty jwt =
     (case jwt_claims E jwt of
        None \<Rightarrow> Err (DecodeError ''decode jwt failed:'')
      | Some claims \<Rightarrow> Ok (build_named_object_by_json E ty claims))"

definition verify_named_object :: "'j ext_crates \<Rightarrow> obj_id \<Rightarrow> 'j \<Rightarrow> bool" where
  "verify_named_object E oid v \<longleftrightarrow> fst (build_named_object_by_json E (obj_type oid) v) = oid"

definition verify_named_object_from_str :: "'j ext_crates \<Rightarrow> obj_id \<Rightarrow> string \<Rightarrow> 'j ndn_result" where
  "verify_named_object_from_str E oid s =
     (case json_from_str E s of
        None \<Rightarrow> Err (InvalidId ''failed to parse obj_str:'')
      | Some v \<Rightarrow> if verify_named_object E oid v then Ok v
                  else Err (InvalidId (''verify named object failed:'' @ s)))"

definition verify_named_object_from_jwt ::
  "'j ext_crates \<Rightarrow> obj_id \<Rightarrow> string \<Rightarrow> bool ndn_result" where
  "verify_named_object_from_jwt E oid jwt =
     (case jwt_claims E jwt of
        None \<Rightarrow> Err (DecodeError ''decode jwt failed:'')
      | Some claims \<Rightarrow> Ok (fst (build_named_object_by_json E (obj_type oid) claims) = oid))"

definition chunk_list_gen_obj_id :: "'j ext_crates \<Rightarrow> chunk_list \<Rightarrow> obj_id \<times> string" where
  "chunk_list_gen_obj_id E cl =
     (let (oid, s) = build_named_object_by_json E OBJ_TYPE_CHUNK_LIST
                       (json_str_array E (map (chunk_to_string E) (cl_body cl)))
      in (new_by_raw OBJ_TYPE_CHUNK_LIST
            (mix_length_and_hash_result E (cl_total_size cl) (obj_hash oid)), s))"

text \<open>\<open>SimpleMapItem\<close>: its deserializer and \<open>get_obj_id\<close>.\<close>

definition simple_map_item_deserialize :: "'j ext_crates \<Rightarrow> 'j \<Rightarrow> 'j simple_map_item ndn_result" where
  "simple_map_item_deserialize E v =
     (case json_as_str E v of
        Some s \<Rightarrow> (case obj_id_new E s of
            Inr oid \<Rightarrow> Ok (ItemObjId oid)
          | Inl _ \<Rightarrow> Err (InvalidParam ''Invalid ObjId format''))
      | None \<Rightarrow>
          (case json_as_object E v of
             None \<Rightarrow> Err (InvalidParam ''Unknown object item type (must be string or object)'')
           | Some m \<Rightarrow>
               (case m ''obj_type'' of
                  None \<Rightarrow> Err (InvalidParam ''Object must have obj_type field'')
                | Some t \<Rightarrow>
                    (case json_as_str E t of
                       None \<Rightarrow> Err (InvalidParam ''obj_type field must be a string'')
                     | Some ty \<Rightarrow>
                         (case m ''jwt'' of
                            Some w \<Rightarrow> (case json_as_str E w of
                                Some jwt \<Rightarrow> Ok (ItemObjectJwt ty jwt)
                              | None \<Rightarrow> Err (InvalidParam ''jwt field must be a string''))
                          | None \<Rightarrow> (case m ''body'' of
                                Some body \<Rightarrow> Ok (ItemObject ty body)
                              | None \<Rightarrow> Err (InvalidParam ''Object must have either body or jwt field'')))))))"

fun item_get_obj_type :: "'j simple_map_item \<Rightarrow> string" where
  "item_get_obj_type (ItemObject ty _) = ty"
| "item_get_obj_type (ItemObjId oid) = obj_type oid"
| "item_get_obj_type (ItemObjectJwt ty _) = ty"

fun item_get_obj_id :: "'j ext_crates \<Rightarrow> 'j simple_map_item \<Rightarrow> (obj_id \<times> string) ndn_result" where
  "item_get_obj_id E (ItemObjId oid) = Ok (oid, [])"
| "item_get_obj_id E (ItemObject ty v) = Ok (build_named_object_by_json E ty v)"
| "item_get_obj_id E (ItemObjectJwt ty jwt) = build_named_object_by_jwt E ty jwt"

text \<open>\<open>DirObject\<close>: insertion into the body map and the size counters.\<close>

definition body_insert ::
  "string \<Rightarrow> 'j simple_map_item \<Rightarrow> (string \<times> 'j simple_map_item) list \<Rightarrow>
   (string \<times> 'j simple_map_item) list" where
  "body_insert k v b = insert_or_replace fst (k, v) b"

definition dir_add_file :: "'j dir_object \<Rightarrow> string \<Rightarrow> 'j \<Rightarrow> u64 \<Rightarrow> 'j dir_object" where
  "dir_add_file d name file_obj sz =
     d\<lparr>dir_file_size := dir_file_size d + sz,
       dir_file_count := dir_file_count d + 1,
       dir_total_size := dir_total_size d + sz,
       dir_body := body_insert name (ItemObject OBJ_TYPE_FILE file_obj) (dir_body d)\<rparr>"

definition dir_add_directory ::
  "'j dir_object \<Rightarrow> string \<Rightarrow> obj_id \<Rightarrow> u64 \<Rightarrow> 'j dir_object ndn_result" where
  "dir_add_directory d name oid sz =
     (if obj_type oid \<noteq> OBJ_TYPE_DIR then Err (InvalidParam ''dir_obj_id is not a directory'')
      else Ok (d\<lparr>dir_total_size := dir_total_size d + sz,
                 dir_body := body_insert name (ItemObjId oid) (dir_body d)\<rparr>))"

definition dir_is_file :: "'j dir_object \<Rightarrow> string \<Rightarrow> bool" where
  "dir_is_file d name =
     (case map_of (dir_body d) name of
        Some (ItemObject ty _) \<Rightarrow> ty = OBJ_TYPE_FILE
      | _ \<Rightarrow> False)"

definition dir_is_directory :: "'j dir_object \<Rightarrow> string \<Rightarrow> bool" where
  "dir_is_directory d name =
     (case map_of (dir_body d) name of
        Some (ItemObjId oid) \<Rightarrow> obj_type oid = OBJ_TYPE_DIR
      | Some (ItemObjectJwt ty _) \<Rightarrow> ty = OBJ_TYPE_DIR
      | _ \<Rightarrow> False)"

definition dir_object_from_str :: "'j ext_crates \<Rightarrow> string \<Rightarrow> 'j dir_object ndn_result" where
  "dir_object_from_str E s =
     (case de_dir_object E s of
        None \<Rightarrow> Err (InvalidParam ''parse dir object from json failed: '')
      | Some (c, mt, tot, cnt, sz, body) \<Rightarrow>
          (case collect_results (map (\<lambda>(k, v). and_then (simple_map_item_deserialize E v)
                                        (\<lambda>it. Ok (k, it))) body) of
             Inl _ \<Rightarrow> Err (InvalidParam ''parse dir object from json failed: '')
           | Inr items \<Rightarrow> Ok \<lparr>dir_content_obj = c, dir_meta = mt, dir_total_size = tot, dir_file_count = cnt,
                               dir_file_size = sz, dir_body = items\<rparr>))"

text \<open>\<open>KnownStandardObject\<close>\<close>

datatype 'j known_standard_object =
    KDir "'j dir_object" string
  | KFile "'j file_object" string
  | KChunkList chunk_list string

definition from_obj_data ::
  "'j ext_crates \<Rightarrow> obj_id \<Rightarrow> string \<Rightarrow> 'j known_standard_object ndn_result" where
  "from_obj_data E oid obj_data =
     (if obj_type oid = OBJ_TYPE_DIR then
        and_then (dir_object_from_str E obj_data) (\<lambda>d. Ok (KDir d obj_data))
      else if obj_type oid = OBJ_TYPE_FILE then
        (case de_file_object E obj_data of
           None \<Rightarrow> Err (InvalidParam ''parse file object from json failed: '')
         | Some f \<Rightarrow> Ok (KFile f obj_data))
      else if obj_type oid = OBJ_TYPE_CHUNK_LIST then
        and_then (chunk_list_from_json E obj_data) (\<lambda>cl. Ok (KChunkList cl obj_data))
      else Err (InvalidParam (''Unknown object type: '' @ obj_type oid)))"

fun get_child_objs ::
  "'j ext_crates \<Rightarrow> 'j known_standard_object \<Rightarrow> (obj_id \<times> string option) list ndn_result" where
  "get_child_objs E (KDir d _) =
     collect_results (map (\<lambda>(_, it). and_then (item_get_obj_id E it)
       (\<lambda>(oid, s). Ok (oid, if s \<noteq> [] then Some s else None))) (dir_body d))"
| "get_child_objs E (KFile f _) =
     and_then (obj_id_new E (fo_content f)) (\<lambda>oid. Ok [(oid, None)])"
| "get_child_objs E (KChunkList cl _) =
     Ok (map (\<lambda>c. (chunk_to_obj_id c, None)) (cl_body cl))"

section \<open>Paths\<close>

definition trim_end_slash :: "string \<Rightarrow> string" where
  "trim_end_slash s = rev (dropWhile (\<lambda>c. c = CHR ''/'') (rev s))"

definition nfs_components :: "string \<Rightarrow> string list" where
  "nfs_components p = filter (\<lambda>s. s \<noteq> []) (str_split (CHR ''/'') p)"

text \<open>\<open>s.rfind('/')\<close>\<close>

definition rfind_slash :: "string \<Rightarrow> nat option" where
  "rfind_slash s = map_option (\<lambda>i. length s - 1 - i) (position (\<lambda>c. c = CHR ''/'') (rev s))"

definition split_parent_name :: "string \<Rightarrow> (string \<times> string) option" where
  "split_parent_name p =
     (let path = trim_end_slash p in
      if path = [] \<or> path = ''/'' then None
      else (case rfind_slash path of
              None \<Rightarrow> None
            | Some i \<Rightarrow>
                let parent = (if i = 0 then ''/'' else take i path);
                    name = drop (Suc i) path
                in if name = [] then None else Some (parent, name)))"

definition nfs_is_root :: "string \<Rightarrow> bool" where
  "nfs_is_root p = (let s = trim_end_slash p in s = [] \<or> s = ''/'')"

definition is_descendant_path :: "string \<Rightarrow> string \<Rightarrow> bool" where
  "is_descendant_path potential_child potential_parent =
     (let child = trim_end_slash potential_child; parent = trim_end_slash potential_parent
      in if length child \<le> length parent then False
         else take (length parent) child = parent \<and>
              (child ! length parent = CHR ''/'' \<or> parent = ''/''))"

section \<open>An instance of the third-party parameters\<close>

text \<open>
  A concrete \<open>ext_crates\<close> that satisfies the laws, used where a theorem is applied at a concrete
  input.  Its hexadecimal codec is the real lower-case one; its base32 codec uses sixteen letters of
  the alphabet; its varint is LEB128; JSON values are strings, arrays are comma separated.
\<close>

definition nib_encode :: "string \<Rightarrow> u8 list \<Rightarrow> string" where
  "nib_encode A bs = concat (map (\<lambda>b. [A ! (unat b div 16), A ! (unat b mod 16)]) bs)"

fun nib_decode :: "string \<Rightarrow> string \<Rightarrow> u8 list option" where
  "nib_decode A [] = Some []"
| "nib_decode A [x] = None"
| "nib_decode A (x # y # r) =
     (case (position (\<lambda>c. c = x) A, position (\<lambda>c. c = y) A, nib_decode A r) of
        (Some i, Some j, Some bs) \<Rightarrow> Some (of_nat (16 * i + j) # bs)
      | _ \<Rightarrow> None)"

fun leb_encode :: "nat \<Rightarrow> u8 list" where
  "leb_encode n = (if n < 128 then [of_nat n] else of_nat (n mod 128 + 128) # leb_encode (n div 128))"

declare leb_encode.simps [simp del]

fun leb_decode :: "u8 list \<Rightarrow> (nat \<times> u8 list) option" where
  "leb_decode [] = None"
| "leb_decode (b # bs) =
     (if unat b < 128 then Some (unat b, bs)
      else map_option (\<lambda>(m, r). (unat b - 128 + 128 * m, r)) (leb_decode bs))"

definition tally :: "nat \<Rightarrow> string" where
  "tally n = replicate n (CHR ''1'') @ ''0''"

fun untally :: "string \<Rightarrow> (nat \<times> string) option" where
  "untally [] = None"
| "untally (c # s) =
     (if c = CHR ''1'' then map_option (\<lambda>(n, r). (Suc n, r)) (untally s) else Some (0, s))"

definition inst_ser_local_info :: "chunk_local_info \<Rightarrow> string" where
  "inst_ser_local_info i =
     tally (unat (li_last_modify_time i)) @
     (case li_range i of None \<Rightarrow> ''n'' | Some (a, b) \<Rightarrow> ''r'' @ tally (unat a) @ tally (unat b)) @
     li_qcid i"

definition inst_de_local_info :: "string \<Rightarrow> chunk_local_info option" where
  "inst_de_local_info s =
     (case untally s of None \<Rightarrow> None
      | Some (t, r) \<Rightarrow>
          if take 1 r = ''n'' then
            Some \<lparr>li_path = [], li_qcid = drop 1 r, li_last_modify_time = of_nat t, li_range = None\<rparr>
          else (case untally (drop 1 r) of None \<Rightarrow> None
                | Some (a, r2) \<Rightarrow> (case untally r2 of None \<Rightarrow> None
                    | Some (b, q) \<Rightarrow>
                        Some \<lparr>li_path = [], li_qcid = q, li_last_modify_time = of_nat t,
                              li_range = Some (of_nat a, of_nat b)\<rparr>)))"

definition inst_crates :: "string ext_crates" where
  "inst_crates = \<lparr>
     hex_encode = nib_encode ''0123456789abcdef'',
     hex_decode = nib_decode ''0123456789abcdef'',
     base32_encode = nib_encode ''abcdefghijklmnop'',
     base32_decode = nib_decode ''abcdefghijklmnop'',
     varint_encode = (\<lambda>n. leb_encode (unat n)),
     varint_decode = (\<lambda>bs. map_option (\<lambda>(n, r). (of_nat n, r)) (leb_decode bs)),
     hash_digest = (\<lambda>m bs. bs),
     jcs_to_string = (\<lambda>v. Some v),
     jwt_claims = (\<lambda>s. Some s),
     json_from_str = (\<lambda>s. Some s),
     json_to_str = (\<lambda>v. Some v),
     json_as_str = (\<lambda>v. Some v),
     json_as_object = (\<lambda>v. None),
     json_str_array = str_join (CHR '',''),
     de_file_object = (\<lambda>s. Some \<lparr>fo_content_obj = [], fo_size = 0, fo_content = s, fo_meta = []\<rparr>),
     de_dir_object = (\<lambda>s. Some ([], [], 0, 0, 0, map (\<lambda>v. (v, v)) (str_split (CHR '','') s))),
     de_str_array = (\<lambda>s. Some (str_split (CHR '','') s)),
     ser_local_info = inst_ser_local_info,
     de_local_info = inst_de_local_info,
     no_rows_msg = ''Query returned no rows''\<rparr>"

section \<open>Properties of identifiers\<close>

lemma and_then_simps [simp]:
  "and_then (Ok a) f = f a" "and_then (Err e) f = Err e"
  by (simp_all add: and_then_def)

lemma and_then_eq_Ok: "and_then r f = Ok b \<longleftrightarrow> (\<exists>a. r = Ok a \<and> f a = Ok b)"
  by (cases r) simp_all

lemma ok_or_simps [simp]: "ok_or (Some a) e = Ok a" "ok_or None e = Err e"
  by (simp_all add: ok_or_def)

lemma ok_or_eq_Ok [simp]: "ok_or x e = Ok a \<longleftrightarrow> x = Some a"
  by (cases x) simp_all

lemma res_ok_simps [simp]: "res_ok (Ok a) = Some a" "res_ok (Err e) = None"
  by (simp_all add: res_ok_def)

interpretation hash_method_codec: enum_codec hash_method_as_str "\<lambda>s. res_ok (hash_method_from_str s)"
proof
  fix m
  show "res_ok (hash_method_from_str (hash_method_as_str m)) = Some m"
    by (cases m) (simp_all add: hash_method_from_str_def)
qed

text \<open>An identifier whose type is a Rust string without a colon.\<close>

definition wf_obj_id :: "obj_id \<Rightarrow> bool" where
  "wf_obj_id oid \<longleftrightarrow> CHR '':'' \<notin> set (obj_type oid) \<and> utf8_valid (as_bytes (obj_type oid))"

lemma hex_no_colon:
  assumes "hex_laws E"
  shows "CHR '':'' \<notin> set (hex_encode E bs)"
proof
  assume "CHR '':'' \<in> set (hex_encode E bs)"
  with assms have "CHR '':'' \<in> set ''0123456789abcdef''"
    unfolding hex_laws_def by blast
  then show False by simp
qed

lemma base32_no_colon:
  assumes "base32_laws E"
  shows "CHR '':'' \<notin> set (base32_encode E bs)"
proof
  assume "CHR '':'' \<in> set (base32_encode E bs)"
  with assms have "CHR '':'' \<in> set ''abcdefghijklmnopqrstuvwxyz234567''"
    unfolding base32_laws_def by blast
  then show False by simp
qed

lemma colon_byte_char: "(of_char c = colon_byte) = (c = CHR '':'')"
proof -
  have "colon_byte = of_char (CHR '':'')" by (simp add: colon_byte_def)
  then show ?thesis
    by (metis char_of_char unat_of_char_u8)
qed

lemma split_type_hash_codec:
  assumes "wf_obj_id oid"
  shows "split_type_hash (as_bytes (obj_type oid) @ colon_byte # obj_hash oid) =
           Ok (obj_type oid, obj_hash oid)"
proof -
  have "position (\<lambda>x. x = colon_byte) (as_bytes (obj_type oid) @ colon_byte # obj_hash oid) =
          Some (length (as_bytes (obj_type oid)))"
    by (rule position_append) (use assms in \<open>auto simp: as_bytes_def wf_obj_id_def colon_byte_char\<close>)
  with assms show ?thesis
    by (simp add: split_type_hash_def string_from_utf8_def wf_obj_id_def)
qed

lemma obj_id_new_to_string:
  assumes "hex_laws E" and "CHR '':'' \<notin> set (obj_type oid)"
  shows "obj_id_new E (obj_id_to_string E oid) = Ok oid"
proof -
  have "str_split (CHR '':'') (obj_id_to_string E oid) = [obj_type oid, hex_encode E (obj_hash oid)]"
    using assms by (simp add: obj_id_to_string_def str_split_append str_split_no_sep hex_no_colon)
  with assms(1) show ?thesis
    by (simp add: obj_id_new_def hex_laws_def new_by_raw_def)
qed

lemma obj_id_new_to_base32:
  assumes "base32_laws E" and "wf_obj_id oid"
  shows "obj_id_new E (obj_id_to_base32 E oid) = Ok oid"
proof -
  let ?b = "as_bytes (obj_type oid) @ colon_byte # obj_hash oid"
  have "str_split (CHR '':'') (base32_encode E ?b) = [base32_encode E ?b]"
    by (intro str_split_no_sep base32_no_colon assms)
  moreover have "base32_decode E (base32_encode E ?b) = Some ?b"
    using assms(1) by (simp add: base32_laws_def)
  ultimately show ?thesis
    using split_type_hash_codec [OF assms(2)]
    by (simp add: obj_id_new_def obj_id_to_base32_def to_base32_def from_base32_def new_by_raw_def)
qed

lemma obj_id_to_string_eq_iff:
  assumes "hex_laws E"
  shows "obj_id_to_string E a = obj_id_to_string E b \<longleftrightarrow> a = b"
proof
  assume eq: "obj_id_to_string E a = obj_id_to_string E b"
  then have "obj_type a = obj_type b" "hex_encode E (obj_hash a) = hex_encode E (obj_hash b)"
    using last_sep_inject [OF _ hex_no_colon [OF assms] hex_no_colon [OF assms]]
    by (auto simp: obj_id_to_string_def)
  moreover from this assms have "obj_hash a = obj_hash b"
    unfolding hex_laws_def by (metis option.inject)
  ultimately show "a = b" by simp
qed simp

lemma split_type_hash_no_colon:
  assumes "split_type_hash bs = Ok (ty, h)"
  shows "CHR '':'' \<notin> set ty"
proof -
  from assms obtain pos where pos: "position (\<lambda>x. x = colon_byte) bs = Some pos"
    and ty: "ty = bytes_to_chars (take pos bs)"
    by (auto simp: split_type_hash_def and_then_eq_Ok string_from_utf8_def split: if_splits)
  have "b \<noteq> colon_byte" if "b \<in> set (take pos bs)" for b
    using that position_SomeD [OF pos] by (auto simp: in_set_conv_nth)
  moreover have "char_of (unat b) \<noteq> CHR '':''" if "b \<noteq> colon_byte" for b :: u8
  proof
    assume "char_of (unat b) = CHR '':''"
    then have "of_char (char_of (unat b)) = (of_char (CHR '':'') :: nat)" by simp
    then have "unat b mod 256 = unat colon_byte"
      by (simp add: colon_byte_def)
    moreover have "unat b < 256" by simp
    ultimately show False using that by (simp add: word_unat_eq_iff)
  qed
  ultimately have "c \<noteq> CHR '':''" if "c \<in> set ty" for c
    using that unfolding ty bytes_to_chars_def by auto
  then show ?thesis by blast
qed

lemma obj_id_new_no_colon:
  assumes "obj_id_new E s = Ok oid"
  shows "CHR '':'' \<notin> set (obj_type oid)"
proof -
  obtain p ps where sp: "str_split (CHR '':'') s = p # ps"
    by (meson neq_Nil_conv str_split_nonempty)
  have np: "CHR '':'' \<notin> set p"
    using str_split_pieces [of p "CHR '':''" s] sp by simp
  show ?thesis
  proof (cases ps)
    case Nil
    with assms sp show ?thesis
      by (auto simp: obj_id_new_def and_then_eq_Ok new_by_raw_def dest: split_type_hash_no_colon)
  next
    case (Cons q qs)
    with assms sp np show ?thesis
      by (auto simp: obj_id_new_def new_by_raw_def split: list.splits option.splits)
  qed
qed

text \<open>\<^bold>\<open>C30.\<close> Every \<open>ObjId\<close> whose type is a string without a colon survives its two text forms:
  \<open>ObjId::new\<close> parses what \<open>to_string\<close> prints (type, colon, hex) and what \<open>to_base32\<close> prints, and
  \<open>from_bytes\<close> parses what \<open>to_bytes\<close> writes, except that an id of fewer than three bytes is rejected
  as too short.\<close>

theorem obj_id_codec_roundtrip:
  assumes "hex_laws E" and "base32_laws E" and "wf_obj_id oid"
  shows "obj_id_new E (obj_id_to_string E oid) = Ok oid \<and>
         obj_id_new E (obj_id_to_base32 E oid) = Ok oid \<and>
         obj_id_from_bytes (obj_id_to_bytes oid) =
           (if length (obj_type oid) + length (obj_hash oid) < 2
            then Err (InvalidId ''objid bytes too short'') else Ok oid)"
proof -
  have "obj_id_from_bytes (obj_id_to_bytes oid) =
          (if length (obj_type oid) + length (obj_hash oid) < 2
           then Err (InvalidId ''objid bytes too short'') else Ok oid)"
    using split_type_hash_codec [OF assms(3)]
    by (simp add: obj_id_from_bytes_def obj_id_to_bytes_def codec_to_bytes_def codec_from_bytes_def
        new_by_raw_def)
  with assms show ?thesis
    by (simp add: obj_id_new_to_string obj_id_new_to_base32 wf_obj_id_def)
qed

text \<open>The text form identifies an object: two ids print the same string only if they are equal,
  whatever their types contain, and every id that \<open>ObjId::new\<close> accepts, in either text form, prints to
  a string that parses back to it.\<close>

theorem obj_id_to_string_canonical:
  assumes "hex_laws E"
  shows "(obj_id_to_string E a = obj_id_to_string E b \<longleftrightarrow> a = b) \<and>
         (obj_id_new E s = Ok c \<longrightarrow> obj_id_new E (obj_id_to_string E c) = Ok c)"
  using obj_id_to_string_eq_iff [OF assms] obj_id_new_to_string [OF assms obj_id_new_no_colon]
  by blast

lemma position_nth:
  "distinct A \<Longrightarrow> i < length A \<Longrightarrow> position (\<lambda>c. c = A ! i) A = Some i"
proof (induction A arbitrary: i)
  case (Cons a A)
  then show ?case by (cases i) (auto simp: nth_eq_iff_index_eq)
qed simp

lemma nib_decode_encode:
  assumes "distinct A" and "length A = 16"
  shows "nib_decode A (nib_encode A bs) = Some bs"
proof (induction bs)
  case (Cons b bs)
  have "unat b div 16 < 16" "unat b mod 16 < 16"
    by (rule less_mult_imp_div_less) simp_all
  moreover have "(of_nat (16 * (unat b div 16) + unat b mod 16) :: u8) = b"
    by (simp only: mult_div_mod_eq) simp
  ultimately show ?case
    using Cons assms by (simp add: nib_encode_def position_nth)
qed (simp add: nib_encode_def)

lemma set_nib_encode:
  assumes "length A = 16"
  shows "set (nib_encode A bs) \<subseteq> set A"
proof -
  have "unat b div 16 < 16 \<and> unat b mod 16 < 16" for b :: u8
    by (simp add: less_mult_imp_div_less)
  with assms show ?thesis by (auto simp: nib_encode_def)
qed

lemma leb_decode_encode: "leb_decode (leb_encode n @ r) = Some (n, r)"
proof (induction n rule: leb_encode.induct)
  case (1 n)
  show ?case
  proof (cases "n < 128")
    case True
    then show ?thesis
      by (subst leb_encode.simps) (simp add: unat_of_nat take_bit_nat_eq_self_iff)
  next
    case False
    have "n mod 128 + 128 < 256" by simp
    then have "unat (of_nat (n mod 128 + 128) :: u8) = n mod 128 + 128"
      by (subst unat_of_nat) (simp add: take_bit_nat_eq_self_iff)
    with False 1 show ?thesis
      by (subst leb_encode.simps) (simp del: of_nat_add)
  qed
qed

lemma untally_tally [simp]: "untally (tally n @ r) = Some (n, r)"
  by (induction n) (simp_all add: tally_def)

lemma inst_hex_laws: "hex_laws inst_crates"
  using set_nib_encode [of "''0123456789abcdef''"]
  by (simp add: hex_laws_def inst_crates_def nib_decode_encode)

lemma inst_base32_laws: "base32_laws inst_crates"
  using set_nib_encode [of "''abcdefghijklmnop''"]
  by (fastforce simp: base32_laws_def inst_crates_def nib_decode_encode)

lemma inst_varint_laws: "varint_laws inst_crates"
proof -
  have "leb_encode n \<noteq> []" for n
    by (subst leb_encode.simps) simp
  then show ?thesis
    by (simp add: varint_laws_def inst_crates_def leb_decode_encode)
qed

lemma inst_local_info_laws: "local_info_laws inst_crates"
proof -
  have "inst_de_local_info (inst_ser_local_info li) = Some (li\<lparr>li_path := []\<rparr>)" for li
    by (cases "li_range li") (auto simp: inst_de_local_info_def inst_ser_local_info_def)
  then show ?thesis by (simp add: local_info_laws_def inst_crates_def)
qed

lemmas inst_laws = inst_local_info_laws inst_hex_laws inst_base32_laws inst_varint_laws

theorem obj_id_codec_roundtrip_witness:
  "obj_id_new inst_crates (obj_id_to_string inst_crates (new_by_raw ''sha256'' [2, 3])) =
     Ok (new_by_raw ''sha256'' [2, 3]) \<and>
   obj_id_from_bytes (obj_id_to_bytes (new_by_raw ''sha256'' [2, 3])) =
     Ok (new_by_raw ''sha256'' [2, 3])"
proof -
  have "wf_obj_id (new_by_raw ''sha256'' [2, 3])"
    by (simp add: wf_obj_id_def new_by_raw_def as_bytes_def)
  from obj_id_codec_roundtrip [OF inst_hex_laws inst_base32_laws this] show ?thesis
    by (simp add: new_by_raw_def)
qed

theorem obj_id_to_string_canonical_witness:
  "obj_id_to_string inst_crates (new_by_raw ''cyfile'' [1]) \<noteq>
     obj_id_to_string inst_crates (new_by_raw ''cyfile'' [2]) \<and>
   obj_id_new inst_crates (obj_id_to_string inst_crates (new_by_raw ''cyfile'' [1])) =
     Ok (new_by_raw ''cyfile'' [1])"
proof -
  have new: "obj_id_new inst_crates ''cyfile:01'' = Ok (new_by_raw ''cyfile'' [1])"
    by (simp add: obj_id_new_def inst_crates_def new_by_raw_def)
  show ?thesis
    using obj_id_to_string_canonical [OF inst_hex_laws, of "new_by_raw ''cyfile'' [1]"
        "new_by_raw ''cyfile'' [2]" "''cyfile:01''" "new_by_raw ''cyfile'' [1]"] new
    by (simp add: new_by_raw_def)
qed

end
