(* ===== verification/Gc_Types.thy ===== *)
theory Gc_Types
  imports Ndn_Object
begin

text \<open>
  The value types of the garbage collector (\<open>named_store/src/gc_types.rs\<close>): pin scopes, the
  per-anchor completeness state, edge messages and outbox entries, item states, and the two report
  records.  Enums that are stored as text interpret the locale \<open>enum_codec\<close>.
\<close>

datatype pin_scope = Recursive | Skeleton | Lease

fun pin_scope_as_str :: "pin_scope \<Rightarrow> string" where
  "pin_scope_as_str Recursive = ''recursive''"
| "pin_scope_as_str Skeleton = ''skeleton''"
| "pin_scope_as_str Lease = ''lease''"

definition pin_scope_from_str :: "string \<Rightarrow> pin_scope option" where
  "pin_scope_from_str s =
     (if s = ''recursive'' then Some Recursive
      else if s = ''skeleton'' then Some Skeleton
      else if s = ''lease'' then Some Lease
      else None)"

datatype cascade_state_p0 = Pending | Materializing

fun cascade_state_as_str :: "cascade_state_p0 \<Rightarrow> string" where
  "cascade_state_as_str Pending = ''Pending''"
| "cascade_state_as_str Materializing = ''Materializing''"

definition cascade_state_from_str :: "string \<Rightarrow> cascade_state_p0 option" where
  "cascade_state_from_str s =
     (if s = ''Pending'' then Some Pending
      else if s = ''Materializing'' then Some Materializing
      else None)"

datatype edge_op = EdgeAdd | EdgeRemove

fun edge_op_as_str :: "edge_op \<Rightarrow> string" where
  "edge_op_as_str EdgeAdd = ''add''"
| "edge_op_as_str EdgeRemove = ''remove''"

definition edge_op_from_str :: "string \<Rightarrow> edge_op option" where
  "edge_op_from_str s =
     (if s = ''add'' then Some EdgeAdd
      else if s = ''remove'' then Some EdgeRemove
      else None)"

record edge_msg =
  em_op :: edge_op
  em_referee :: obj_id
  em_referrer :: obj_id
  em_target_epoch :: u64

record outbox_entry =
  oe_seq :: int
  oe_msg :: edge_msg
  oe_attempts :: u32
  oe_next_try_at :: u64
  oe_created_at :: u64

datatype item_state = Present | Shadow | Incompleted

fun item_state_as_str :: "item_state \<Rightarrow> string" where
  "item_state_as_str Present = ''present''"
| "item_state_as_str Shadow = ''shadow''"
| "item_state_as_str Incompleted = ''incompleted''"

text \<open>An unknown state text reads as \<open>Present\<close>.\<close>

definition item_state_from_str :: "string \<Rightarrow> item_state" where
  "item_state_from_str s =
     (if s = ''present'' then Present
      else if s = ''shadow'' then Shadow
      else if s = ''incompleted'' then Incompleted
      else Present)"

definition item_is_present :: "item_state \<Rightarrow> bool" where
  "item_is_present st \<longleftrightarrow> st = Present"

record pin_request =
  pr_obj_id :: obj_id
  pr_owner :: string
  pr_scope :: pin_scope
  pr_ttl_secs :: "u64 option"

record expand_debug =
  ed_obj_id :: obj_id
  ed_state :: item_state
  ed_eviction_class :: u32
  ed_children_expanded :: bool
  ed_fs_anchor_count :: u32
  ed_incoming_refs_count :: u32
  ed_has_recursive_pin :: bool
  ed_has_skeleton_pin :: bool
  ed_has_lease_pin :: bool
  ed_owned_bytes :: u64
  ed_logical_size :: u64
  ed_last_access_time :: u64

record gc_report =
  freed_bytes :: u64
  evicted_objects :: u64
  evicted_chunks :: u64
  skipped_protected :: u64

definition gc_report_default :: gc_report where
  "gc_report_default = \<lparr>freed_bytes = 0, evicted_objects = 0, evicted_chunks = 0, skipped_protected = 0\<rparr>"

interpretation pin_scope_codec: enum_codec pin_scope_as_str pin_scope_from_str
proof
  show "pin_scope_from_str (pin_scope_as_str e) = Some e" for e
    by (cases e) (simp_all add: pin_scope_from_str_def)
qed

interpretation cascade_state_codec: enum_codec cascade_state_as_str cascade_state_from_str
proof
  show "cascade_state_from_str (cascade_state_as_str e) = Some e" for e
    by (cases e) (simp_all add: cascade_state_from_str_def)
qed

interpretation edge_op_codec: enum_codec edge_op_as_str edge_op_from_str
proof
  show "edge_op_from_str (edge_op_as_str e) = Some e" for e
    by (cases e) (simp_all add: edge_op_from_str_def)
qed

interpretation item_state_codec: enum_codec item_state_as_str "\<lambda>s. Some (item_state_from_str s)"
proof
  show "Some (item_state_from_str (item_state_as_str e)) = Some e" for e
    by (cases e) (simp_all add: item_state_from_str_def)
qed

end
