(* ===== verification/Store_Db.thy ===== *)
theory Store_Db
  imports Gc_Types
begin

text \<open>
  The SQLite database of a named store (\<open>named_store/src/store_db.rs\<close>).  The state is the record \<open>db\<close>
  with one list of row records per table; a text column that holds an \<open>ObjId\<close> holds what
  \<open>ObjId::to_string\<close> prints, an integer column is an \<open>int\<close> in the range of \<open>i64\<close>.  One definition per
  method of \<open>NamedLocalStoreDB\<close>, under the method's name; each takes the clock \<open>now\<close> that
  \<open>unix_timestamp\<close> returned (one reading per operation) and the record of third-party code \<open>E\<close>.
  A method runs in one transaction under the connection's mutex, so it is one atomic step here.
  Failures of the SQL engine itself (I/O errors, a full disk), which roll the transaction back, are
  not modelled: a method whose only error is such a failure returns the new database.
\<close>

section \<open>Chunk states and items\<close>

datatype chunk_store_state =
    New
  | Completed
  | Disabled
  | NotExist
  | LocalLink chunk_local_info
  | SameAs obj_id

definition chunk_local_info_default :: chunk_local_info where
  "chunk_local_info_default =
     \<lparr>li_path = [], li_qcid = [], li_last_modify_time = 0, li_range = None\<rparr>"

definition create_by_info_str ::
  "'j ext_crates \<Rightarrow> string \<Rightarrow> string \<Rightarrow> chunk_local_info ndn_result" where
  "create_by_info_str E path info_str =
     (case de_local_info E info_str of
        None \<Rightarrow> Err (InvalidParam [])
      | Some li \<Rightarrow> Ok (li\<lparr>li_path := path\<rparr>))"

definition chunk_state_from_str :: "string \<Rightarrow> chunk_store_state" where
  "chunk_state_from_str s =
     (if s = ''new'' then New
      else if s = ''completed'' then Completed
      else if s = ''incompleted'' then New
      else if s = ''disabled'' then Disabled
      else if s = ''not_exist'' then NotExist
      else if s = ''local_link'' then LocalLink chunk_local_info_default
      else if s = ''same_as'' then SameAs (new_by_raw [] [])
      else NotExist)"

fun chunk_state_to_str :: "chunk_store_state \<Rightarrow> string" where
  "chunk_state_to_str New = ''new''"
| "chunk_state_to_str Completed = ''completed''"
| "chunk_state_to_str Disabled = ''disabled''"
| "chunk_state_to_str NotExist = ''not_exist''"
| "chunk_state_to_str (LocalLink _) = ''local_link''"
| "chunk_state_to_str (SameAs _) = ''same_as''"

fun can_open_reader :: "chunk_store_state \<Rightarrow> bool" where
  "can_open_reader Completed = True"
| "can_open_reader (LocalLink _) = True"
| "can_open_reader (SameAs _) = True"
| "can_open_reader _ = False"

fun can_open_writer :: "chunk_store_state \<Rightarrow> bool" where
  "can_open_writer New = True"
| "can_open_writer NotExist = True"
| "can_open_writer _ = False"

fun is_local_link :: "chunk_store_state \<Rightarrow> bool" where
  "is_local_link (LocalLink _) = True"
| "is_local_link _ = False"

fun is_same_as :: "chunk_store_state \<Rightarrow> bool" where
  "is_same_as (SameAs _) = True"
| "is_same_as _ = False"

record chunk_item =
  ci_chunk_id :: chunk_id
  ci_chunk_size :: u64
  ci_chunk_state :: chunk_store_state
  ci_create_time :: u64
  ci_update_time :: u64

definition chunk_item_new :: "u64 \<Rightarrow> chunk_id \<Rightarrow> u64 \<Rightarrow> chunk_item" where
  "chunk_item_new now c sz =
     \<lparr>ci_chunk_id = c, ci_chunk_size = sz, ci_chunk_state = New,
      ci_create_time = now, ci_update_time = now\<rparr>"

definition chunk_item_new_completed :: "u64 \<Rightarrow> chunk_id \<Rightarrow> u64 \<Rightarrow> chunk_item" where
  "chunk_item_new_completed now c sz = (chunk_item_new now c sz)\<lparr>ci_chunk_state := Completed\<rparr>"

definition chunk_item_new_local_file ::
  "u64 \<Rightarrow> chunk_id \<Rightarrow> u64 \<Rightarrow> chunk_local_info \<Rightarrow> chunk_item" where
  "chunk_item_new_local_file now c sz li = (chunk_item_new now c sz)\<lparr>ci_chunk_state := LocalLink li\<rparr>"

section \<open>Tables\<close>

record object_row =
  o_id :: string
  o_type :: string
  o_data :: string
  o_create_time :: int
  o_access :: int
  o_state :: string
  o_class :: int
  o_fs_count :: int
  o_logical :: int
  o_owned :: int
  o_expanded :: int
  o_home_epoch :: "int option"

record chunk_row =
  c_id :: string
  c_size :: int
  c_chunk_state :: string
  c_local_path :: "string option"
  c_local_info :: "string option"
  c_progress :: string
  c_create_time :: int
  c_update_time :: int
  c_state :: string
  c_access :: int
  c_class :: int
  c_fs_count :: int
  c_logical :: int
  c_owned :: int
  c_expanded :: int
  c_home_epoch :: "int option"

record ref_row =
  r_referee :: string
  r_referrer :: string
  r_epoch :: int
  r_created :: int

record outbox_row =
  b_seq :: int
  b_op :: string
  b_referee :: string
  b_referrer :: string
  b_epoch :: int
  b_created :: int
  b_attempts :: int
  b_next_try :: int

record pin_row =
  p_obj :: string
  p_owner :: string
  p_scope :: string
  p_cascade :: string
  p_created :: int
  p_expires :: "int option"

record anchor_row =
  a_obj :: string
  a_inode :: int
  a_tag :: int
  a_cascade :: string
  a_created :: int

text \<open>\<open>outbox_last_seq\<close> is the counter that SQLite keeps for an \<open>AUTOINCREMENT\<close> key.\<close>

record db =
  objects :: "object_row list"
  chunk_items :: "chunk_row list"
  incoming_refs :: "ref_row list"
  edge_outbox :: "outbox_row list"
  outbox_last_seq :: int
  pins :: "pin_row list"
  fs_anchors :: "anchor_row list"

definition empty_db :: db where
  "empty_db = \<lparr>objects = [], chunk_items = [], incoming_refs = [], edge_outbox = [],
     outbox_last_seq = 0, pins = [], fs_anchors = []\<rparr>"

definition obj_row :: "string \<Rightarrow> db \<Rightarrow> object_row option" where
  "obj_row key s = find (\<lambda>r. o_id r = key) (objects s)"

definition upd_obj :: "string \<Rightarrow> (object_row \<Rightarrow> object_row) \<Rightarrow> db \<Rightarrow> db" where
  "upd_obj key f s = s\<lparr>objects := sql_update (\<lambda>r. o_id r = key) f (objects s)\<rparr>"

section \<open>Chunk items\<close>

definition chunk_row_of_item :: "'j ext_crates \<Rightarrow> chunk_item \<Rightarrow> chunk_row" where
  "chunk_row_of_item E it =
     (let base = \<lparr>c_id = chunk_to_string E (ci_chunk_id it), c_size = as_i64 (ci_chunk_size it),
                  c_chunk_state = chunk_state_to_str (ci_chunk_state it),
                  c_local_path = None, c_local_info = None, c_progress = [],
                  c_create_time = as_i64 (ci_create_time it),
                  c_update_time = as_i64 (ci_update_time it),
                  c_state = ''present'', c_access = 0, c_class = 0, c_fs_count = 0,
                  c_logical = as_i64 (ci_chunk_size it), c_owned = 0, c_expanded = 0,
                  c_home_epoch = None\<rparr>
      in case ci_chunk_state it of
           LocalLink li \<Rightarrow> base\<lparr>c_local_path := Some (li_path li),
                                 c_local_info := Some (ser_local_info E li)\<rparr>
         | SameAs oid \<Rightarrow> base\<lparr>c_local_info := Some (obj_id_to_string E oid)\<rparr>
         | st \<Rightarrow> base\<lparr>c_state := (if st = Completed then ''present'' else ''new''),
                        c_owned := (if st = Completed then as_i64 (ci_chunk_size it) else 0)\<rparr>)"

definition set_chunk_item :: "'j ext_crates \<Rightarrow> chunk_item \<Rightarrow> db \<Rightarrow> db" where
  "set_chunk_item E it s =
     s\<lparr>chunk_items := insert_or_replace c_id (chunk_row_of_item E it) (chunk_items s)\<rparr>"

definition get_chunk_item :: "'j ext_crates \<Rightarrow> chunk_id \<Rightarrow> db \<Rightarrow> chunk_item ndn_result" where
  "get_chunk_item E c s =
     (case find (\<lambda>r. c_id r = chunk_to_string E c) (chunk_items s) of
        None \<Rightarrow> Err (NotFound (''chunk not found: '' @ chunk_to_string E c))
      | Some r \<Rightarrow>
          (let item = (\<lambda>st. \<lparr>ci_chunk_id = c, ci_chunk_size = as_u64 (c_size r), ci_chunk_state = st,
                              ci_create_time = as_u64 (c_create_time r),
                              ci_update_time = as_u64 (c_update_time r)\<rparr>);
               st = chunk_state_from_str (c_chunk_state r)
           in if is_local_link st then
                (case (c_local_path r, c_local_info r) of
                   (Some path, Some info) \<Rightarrow>
                     (case create_by_info_str E path info of
                        Inl _ \<Rightarrow> Err (DbError ''invalid column'')
                      | Inr li \<Rightarrow> Ok (item (LocalLink li)))
                 | _ \<Rightarrow> Err (DbError ''invalid column''))
              else if is_same_as st then
                (case c_local_info r of
                   Some target \<Rightarrow>
                     (case obj_id_new E target of
                        Inl _ \<Rightarrow> Err (DbError ''invalid column'')
                      | Inr oid \<Rightarrow> Ok (item (SameAs oid)))
                 | None \<Rightarrow> Err (DbError ''invalid column''))
              else Ok (item st)))"

definition remove_chunk_db :: "'j ext_crates \<Rightarrow> chunk_id \<Rightarrow> db \<Rightarrow> db" where
  "remove_chunk_db E c s =
     s\<lparr>chunk_items := sql_delete (\<lambda>r. c_id r = chunk_to_string E c) (chunk_items s),
       incoming_refs := sql_delete (\<lambda>r. r_referee r = chunk_to_string E c) (incoming_refs s)\<rparr>"

section \<open>Shadow rows, eviction class and the reconcile step\<close>

definition shadow_row :: "u64 \<Rightarrow> string \<Rightarrow> object_row" where
  "shadow_row now key =
     \<lparr>o_id = key, o_type = [], o_data = [], o_create_time = as_i64 now, o_access = as_i64 now,
      o_state = ''shadow'', o_class = 0, o_fs_count = 0, o_logical = 0, o_owned = 0,
      o_expanded = 0, o_home_epoch = None\<rparr>"

definition upsert_shadow_if_absent :: "u64 \<Rightarrow> string \<Rightarrow> db \<Rightarrow> db" where
  "upsert_shadow_if_absent now key s =
     s\<lparr>objects := insert_or_ignore o_id (shadow_row now key) (objects s)\<rparr>"

definition pin_live :: "u64 \<Rightarrow> pin_row \<Rightarrow> bool" where
  "pin_live now p = (case p_expires p of None \<Rightarrow> True | Some e \<Rightarrow> as_i64 now < e)"

definition has_active_pin :: "u64 \<Rightarrow> string \<Rightarrow> db \<Rightarrow> bool" where
  "has_active_pin now key s \<longleftrightarrow> 0 < sql_count (\<lambda>p. p_obj p = key \<and> pin_live now p) (pins s)"

definition has_recursive_pin :: "u64 \<Rightarrow> string \<Rightarrow> db \<Rightarrow> bool" where
  "has_recursive_pin now key s \<longleftrightarrow>
     0 < sql_count (\<lambda>p. p_obj p = key \<and> p_scope p = ''recursive'' \<and> pin_live now p) (pins s)"

definition has_skeleton_pin :: "u64 \<Rightarrow> string \<Rightarrow> db \<Rightarrow> bool" where
  "has_skeleton_pin now key s \<longleftrightarrow>
     0 < sql_count (\<lambda>p. p_obj p = key \<and> p_scope p = ''skeleton'' \<and> pin_live now p) (pins s)"

definition has_incoming :: "string \<Rightarrow> db \<Rightarrow> bool" where
  "has_incoming key s \<longleftrightarrow> 0 < sql_count (\<lambda>r. r_referee r = key) (incoming_refs s)"

definition get_fs_anchor_count :: "string \<Rightarrow> db \<Rightarrow> int" where
  "get_fs_anchor_count key s = (case obj_row key s of None \<Rightarrow> 0 | Some r \<Rightarrow> o_fs_count r)"

definition get_item_state :: "string \<Rightarrow> db \<Rightarrow> string option" where
  "get_item_state key s = map_option o_state (obj_row key s)"

definition get_children_expanded :: "string \<Rightarrow> db \<Rightarrow> bool" where
  "get_children_expanded key s = (case obj_row key s of None \<Rightarrow> False | Some r \<Rightarrow> o_expanded r \<noteq> 0)"

definition recompute_eviction_class :: "u64 \<Rightarrow> string \<Rightarrow> db \<Rightarrow> db" where
  "recompute_eviction_class now key s =
     (let cls = (if has_active_pin now key s \<or> 0 < get_fs_anchor_count key s then 2
                 else if has_incoming key s then 1 else 0)
      in upd_obj key (\<lambda>r. r\<lparr>o_class := cls\<rparr>) s)"

text \<open>The children named by the stored content of an object, or the target of a \<open>SameAs\<close> chunk.\<close>

definition parse_obj_refs :: "'j ext_crates \<Rightarrow> obj_id \<Rightarrow> db \<Rightarrow> obj_id list" where
  "parse_obj_refs E oid s =
     (let key = obj_id_to_string E oid;
          from_chunk =
            (if is_chunk oid then
               (case find (\<lambda>r. c_id r = key \<and> c_chunk_state r = ''same_as'' \<and> c_state r = ''present'')
                       (chunk_items s) of
                  None \<Rightarrow> []
                | Some r \<Rightarrow> (case c_local_info r of
                      None \<Rightarrow> []
                    | Some t \<Rightarrow> (case obj_id_new E t of Inr tid \<Rightarrow> [tid] | Inl _ \<Rightarrow> [])))
             else [])
      in case find (\<lambda>r. o_id r = key \<and> o_state r = ''present'') (objects s) of
           None \<Rightarrow> from_chunk
         | Some r \<Rightarrow>
             if o_type r \<noteq> [] \<and> o_data r \<noteq> [] then
               (case from_obj_data E oid (o_data r) of
                  Inr known \<Rightarrow> (case get_child_objs E known of
                      Inr cs \<Rightarrow> map fst cs | Inl _ \<Rightarrow> [])
                | Inl _ \<Rightarrow> from_chunk)
             else from_chunk)"

text \<open>\<open>INSERT INTO edge_outbox\<close>, for each child in turn.\<close>

definition outbox_insert :: "u64 \<Rightarrow> string \<Rightarrow> string \<Rightarrow> string \<Rightarrow> db \<Rightarrow> db" where
  "outbox_insert now op child referrer s =
     s\<lparr>edge_outbox := edge_outbox s @
         [\<lparr>b_seq = outbox_last_seq s + 1, b_op = op, b_referee = child, b_referrer = referrer,
           b_epoch = 1, b_created = as_i64 now, b_attempts = 0, b_next_try = 0\<rparr>],
       outbox_last_seq := outbox_last_seq s + 1\<rparr>"

fun enqueue_edges :: "u64 \<Rightarrow> string \<Rightarrow> string list \<Rightarrow> string \<Rightarrow> db \<Rightarrow> db" where
  "enqueue_edges now op [] referrer s = s"
| "enqueue_edges now op (c # cs) referrer s =
     enqueue_edges now op cs referrer (outbox_insert now op c referrer s)"

definition want_expand :: "u64 \<Rightarrow> string \<Rightarrow> db \<Rightarrow> bool" where
  "want_expand now key s =
     (if get_item_state key s \<noteq> Some ''present'' then False
      else if has_skeleton_pin now key s then False
      else has_recursive_pin now key s \<or> 0 < get_fs_anchor_count key s \<or> has_incoming key s)"

definition set_expanded :: "string \<Rightarrow> int \<Rightarrow> db \<Rightarrow> db" where
  "set_expanded key v s = upd_obj key (\<lambda>r. r\<lparr>o_expanded := v\<rparr>) s"

definition reconcile_expand_state :: "'j ext_crates \<Rightarrow> u64 \<Rightarrow> obj_id \<Rightarrow> db \<Rightarrow> db" where
  "reconcile_expand_state E now oid s =
     (let key = obj_id_to_string E oid;
          want = want_expand now key s;
          have = get_children_expanded key s
      in if want \<and> \<not> have then
           (let s1 = set_expanded key 1 s
            in enqueue_edges now ''add'' (map (obj_id_to_string E) (parse_obj_refs E oid s1)) key s1)
         else if \<not> want \<and> have then
           (let s1 = set_expanded key 0 s
            in enqueue_edges now ''remove'' (map (obj_id_to_string E) (parse_obj_refs E oid s1)) key s1)
         else s)"

definition promote_anchor_cascade_state :: "'j ext_crates \<Rightarrow> obj_id \<Rightarrow> db \<Rightarrow> db" where
  "promote_anchor_cascade_state E oid s =
     (let key = obj_id_to_string E oid
      in s\<lparr>pins := sql_update (\<lambda>p. p_obj p = key \<and> p_scope p = ''recursive'' \<and> p_cascade p = ''Pending'')
                     (\<lambda>p. p\<lparr>p_cascade := ''Materializing''\<rparr>) (pins s),
           fs_anchors := sql_update (\<lambda>a. a_obj a = key \<and> a_cascade a = ''Pending'')
                     (\<lambda>a. a\<lparr>a_cascade := ''Materializing''\<rparr>) (fs_anchors s)\<rparr>)"

section \<open>Objects\<close>

definition present_row :: "u64 \<Rightarrow> string \<Rightarrow> string \<Rightarrow> string \<Rightarrow> int \<Rightarrow> int \<Rightarrow> object_row" where
  "present_row now key ty data logical owned =
     \<lparr>o_id = key, o_type = ty, o_data = data, o_create_time = as_i64 now, o_access = as_i64 now,
      o_state = ''present'', o_class = 0, o_fs_count = 0, o_logical = logical, o_owned = owned,
      o_expanded = 0, o_home_epoch = None\<rparr>"

definition put_object_in_tx ::
  "'j ext_crates \<Rightarrow> u64 \<Rightarrow> obj_id \<Rightarrow> string \<Rightarrow> string \<Rightarrow> int \<Rightarrow> int \<Rightarrow> db \<Rightarrow> bool \<times> db" where
  "put_object_in_tx E now oid ty data logical owned s =
     (let key = obj_id_to_string E oid
      in if get_item_state key s = Some ''present'' then
           (False, upd_obj key (\<lambda>r. r\<lparr>o_access := max (o_access r) (as_i64 now)\<rparr>) s)
         else if get_item_state key s = Some ''shadow'' then
           (let s1 = upd_obj key (\<lambda>r. r\<lparr>o_type := ty, o_data := data, o_state := ''present'',
                       o_access := as_i64 now, o_logical := logical, o_owned := owned\<rparr>) s;
                s2 = promote_anchor_cascade_state E oid s1;
                s3 = recompute_eviction_class now key s2
            in (True, reconcile_expand_state E now oid s3))
         else
           (True, s\<lparr>objects := insert_or_replace o_id (present_row now key ty data logical owned)
                                (objects s)\<rparr>))"

text \<open>A Rust string is at most \<open>isize::MAX\<close> bytes long, so \<open>len() as i64\<close> is its length.\<close>

definition set_object :: "'j ext_crates \<Rightarrow> u64 \<Rightarrow> obj_id \<Rightarrow> string \<Rightarrow> string \<Rightarrow> db \<Rightarrow> db" where
  "set_object E now oid ty data s =
     snd (put_object_in_tx E now oid ty data (int (length data)) (int (length data)) s)"

definition put_object_gc_aware :: "'j ext_crates \<Rightarrow> u64 \<Rightarrow> obj_id \<Rightarrow> string \<Rightarrow> string \<Rightarrow> db \<Rightarrow> db" where
  "put_object_gc_aware E now oid ty data s =
     snd (put_object_in_tx E now oid ty data (int (length data)) (int (length data)) s)"

definition get_object :: "'j ext_crates \<Rightarrow> obj_id \<Rightarrow> db \<Rightarrow> (string \<times> string) ndn_result" where
  "get_object E oid s =
     (case obj_row (obj_id_to_string E oid) s of
        None \<Rightarrow> Err (DbError (no_rows_msg E))
      | Some r \<Rightarrow>
          if o_state r = ''shadow'' then
            Err (NotFound (''object is shadow: '' @ obj_id_to_string E oid))
          else Ok (o_type r, o_data r))"

definition remove_object :: "'j ext_crates \<Rightarrow> obj_id \<Rightarrow> db \<Rightarrow> db" where
  "remove_object E oid s =
     s\<lparr>objects := sql_delete (\<lambda>r. o_id r = obj_id_to_string E oid) (objects s)\<rparr>"

definition has_object_row :: "string \<Rightarrow> db \<Rightarrow> bool" where
  "has_object_row key s \<longleftrightarrow> 0 < sql_count (\<lambda>r. o_id r = key) (objects s)"

definition get_object_state :: "string \<Rightarrow> db \<Rightarrow> string option" where
  "get_object_state key s = map_option o_state (obj_row key s)"

section \<open>Pins\<close>

text \<open>\<open>now + ttl\<close> is an addition of \<open>u64\<close> values that wraps in a release build.\<close>

definition pin :: "'j ext_crates \<Rightarrow> u64 \<Rightarrow> obj_id \<Rightarrow> string \<Rightarrow> pin_scope \<Rightarrow> u64 option \<Rightarrow> db \<Rightarrow> db" where
  "pin E now oid owner scope ttl s =
     (let key = obj_id_to_string E oid;
          s1 = upsert_shadow_if_absent now key s;
          expires_at = map_option (\<lambda>d. as_i64 (now + d)) ttl;
          is_present = (get_item_state key s1 = Some ''present'');
          cascade = (if scope \<noteq> Recursive \<or> is_present then ''Materializing'' else ''Pending'');
          row = \<lparr>p_obj = key, p_owner = owner, p_scope = pin_scope_as_str scope,
                 p_cascade = cascade, p_created = as_i64 now, p_expires = expires_at\<rparr>;
          s2 = s1\<lparr>pins := insert_on_conflict (\<lambda>p. (p_obj p, p_owner p))
                            (\<lambda>p. p\<lparr>p_scope := pin_scope_as_str scope, p_cascade := cascade,
                                   p_expires := expires_at\<rparr>) row (pins s1)\<rparr>;
          s3 = recompute_eviction_class now key s2
      in reconcile_expand_state E now oid s3)"

definition unpin :: "'j ext_crates \<Rightarrow> u64 \<Rightarrow> obj_id \<Rightarrow> string \<Rightarrow> db \<Rightarrow> db" where
  "unpin E now oid owner s =
     (let key = obj_id_to_string E oid;
          deleted = sql_count (\<lambda>p. p_obj p = key \<and> p_owner p = owner) (pins s);
          s1 = s\<lparr>pins := sql_delete (\<lambda>p. p_obj p = key \<and> p_owner p = owner) (pins s)\<rparr>
      in if 0 < deleted
         then reconcile_expand_state E now oid (recompute_eviction_class now key s1)
         else s1)"

text \<open>The loop body shared by \<open>unpin_owner\<close>, \<open>fs_release_inode\<close> and \<open>expire_pins\<close>.\<close>

definition refresh_key :: "'j ext_crates \<Rightarrow> u64 \<Rightarrow> string \<Rightarrow> db \<Rightarrow> db" where
  "refresh_key E now key s =
     (let s1 = recompute_eviction_class now key s
      in case obj_id_new E key of
           Inr oid \<Rightarrow> reconcile_expand_state E now oid s1
         | Inl _ \<Rightarrow> s1)"

definition unpin_owner :: "'j ext_crates \<Rightarrow> u64 \<Rightarrow> string \<Rightarrow> db \<Rightarrow> nat \<times> db" where
  "unpin_owner E now owner s =
     (let ids = remdups (map p_obj (filter (\<lambda>p. p_owner p = owner) (pins s)));
          s1 = s\<lparr>pins := sql_delete (\<lambda>p. p_owner p = owner) (pins s)\<rparr>
      in (length ids, fold (refresh_key E now) ids s1))"

definition pin_expired :: "u64 \<Rightarrow> pin_row \<Rightarrow> bool" where
  "pin_expired now p = (case p_expires p of None \<Rightarrow> False | Some e \<Rightarrow> e \<le> as_i64 now)"

definition expire_pins :: "'j ext_crates \<Rightarrow> u64 \<Rightarrow> db \<Rightarrow> nat \<times> db" where
  "expire_pins E now s =
     (let ids = remdups (map p_obj (filter (pin_expired now) (pins s)));
          s1 = s\<lparr>pins := sql_delete (pin_expired now) (pins s)\<rparr>
      in (length ids, fold (refresh_key E now) ids s1))"

section \<open>File-system anchors\<close>

definition fs_acquire :: "'j ext_crates \<Rightarrow> u64 \<Rightarrow> obj_id \<Rightarrow> u64 \<Rightarrow> u32 \<Rightarrow> db \<Rightarrow> db" where
  "fs_acquire E now oid inode tag s =
     (let key = obj_id_to_string E oid;
          s1 = upsert_shadow_if_absent now key s;
          is_present = (get_item_state key s1 = Some ''present'');
          row = \<lparr>a_obj = key, a_inode = as_i64 inode, a_tag = uint tag,
                 a_cascade = (if is_present then ''Materializing'' else ''Pending''),
                 a_created = as_i64 now\<rparr>;
          akey = (\<lambda>a. (a_obj a, a_inode a, a_tag a));
          inserted = (akey row \<notin> akey ` set (fs_anchors s1));
          s2 = s1\<lparr>fs_anchors := insert_or_ignore akey row (fs_anchors s1)\<rparr>;
          s3 = (if inserted then upd_obj key (\<lambda>r. r\<lparr>o_fs_count := o_fs_count r + 1\<rparr>) s2 else s2);
          s4 = recompute_eviction_class now key s3
      in reconcile_expand_state E now oid s4)"

definition fs_release :: "'j ext_crates \<Rightarrow> u64 \<Rightarrow> obj_id \<Rightarrow> u64 \<Rightarrow> u32 \<Rightarrow> db \<Rightarrow> db" where
  "fs_release E now oid inode tag s =
     (let key = obj_id_to_string E oid;
          p = (\<lambda>a. a_obj a = key \<and> a_inode a = as_i64 inode \<and> a_tag a = uint tag);
          deleted = sql_count p (fs_anchors s);
          s1 = s\<lparr>fs_anchors := sql_delete p (fs_anchors s)\<rparr>;
          s2 = (if 0 < deleted then upd_obj key (\<lambda>r. r\<lparr>o_fs_count := max 0 (o_fs_count r - 1)\<rparr>) s1 else s1);
          s3 = recompute_eviction_class now key s2
      in reconcile_expand_state E now oid s3)"

definition fs_release_inode :: "'j ext_crates \<Rightarrow> u64 \<Rightarrow> u64 \<Rightarrow> db \<Rightarrow> nat \<times> db" where
  "fs_release_inode E now inode s =
     (let ids = remdups (map a_obj (filter (\<lambda>a. a_inode a = as_i64 inode) (fs_anchors s)));
          s1 = fold (\<lambda>key t.
                 (let n = sql_count (\<lambda>a. a_obj a = key \<and> a_inode a = as_i64 inode) (fs_anchors t)
                  in upd_obj key (\<lambda>r. r\<lparr>o_fs_count := max 0 (o_fs_count r - n)\<rparr>) t)) ids s;
          s2 = s1\<lparr>fs_anchors := sql_delete (\<lambda>a. a_inode a = as_i64 inode) (fs_anchors s1)\<rparr>
      in (length ids, fold (refresh_key E now) ids s2))"

section \<open>Edges and the outbox\<close>

definition apply_edge :: "'j ext_crates \<Rightarrow> u64 \<Rightarrow> edge_msg \<Rightarrow> db \<Rightarrow> db" where
  "apply_edge E now msg s =
     (let key = obj_id_to_string E (em_referee msg);
          ref = obj_id_to_string E (em_referrer msg);
          s1 = upsert_shadow_if_absent now key s;
          s2 = (case em_op msg of
                  EdgeAdd \<Rightarrow> s1\<lparr>incoming_refs := insert_or_ignore (\<lambda>r. (r_referee r, r_referrer r))
                     \<lparr>r_referee = key, r_referrer = ref, r_epoch = as_i64 (em_target_epoch msg),
                      r_created = as_i64 now\<rparr> (incoming_refs s1)\<rparr>
                | EdgeRemove \<Rightarrow> s1\<lparr>incoming_refs :=
                     sql_delete (\<lambda>r. r_referee r = key \<and> r_referrer r = ref) (incoming_refs s1)\<rparr>);
          s3 = recompute_eviction_class now key s2
      in reconcile_expand_state E now (em_referee msg) s3)"

definition outbox_entry_of_row :: "'j ext_crates \<Rightarrow> outbox_row \<Rightarrow> outbox_entry option" where
  "outbox_entry_of_row E b =
     (case (edge_op_from_str (b_op b), obj_id_new E (b_referee b), obj_id_new E (b_referrer b)) of
        (Some op, Inr referee, Inr referrer) \<Rightarrow>
          Some \<lparr>oe_seq = b_seq b,
                oe_msg = \<lparr>em_op = op, em_referee = referee, em_referrer = referrer,
                          em_target_epoch = as_u64 (b_epoch b)\<rparr>,
                oe_attempts = as_u32 (b_attempts b), oe_next_try_at = as_u64 (b_next_try b),
                oe_created_at = as_u64 (b_created b)\<rparr>
      | _ \<Rightarrow> None)"

definition fetch_outbox_ready :: "'j ext_crates \<Rightarrow> u64 \<Rightarrow> nat \<Rightarrow> db \<Rightarrow> outbox_entry list" where
  "fetch_outbox_ready E now limit s =
     List.map_filter (outbox_entry_of_row E)
       (take limit (sort_key b_seq (filter (\<lambda>b. b_next_try b \<le> as_i64 now) (edge_outbox s))))"

definition complete_outbox_entry :: "int \<Rightarrow> db \<Rightarrow> db" where
  "complete_outbox_entry seq s = s\<lparr>edge_outbox := sql_delete (\<lambda>b. b_seq b = seq) (edge_outbox s)\<rparr>"

definition backoff :: "int \<Rightarrow> int" where
  "backoff attempts = min 300 (2 ^ nat (min attempts 8))"

definition retry_outbox_entry :: "u64 \<Rightarrow> int \<Rightarrow> db \<Rightarrow> db" where
  "retry_outbox_entry now seq s =
     s\<lparr>edge_outbox := sql_update (\<lambda>b. b_seq b = seq)
         (\<lambda>b. b\<lparr>b_attempts := b_attempts b + 1,
                b_next_try := as_i64 now + backoff (b_attempts b)\<rparr>) (edge_outbox s)\<rparr>"

definition outbox_count :: "db \<Rightarrow> u64" where
  "outbox_count s = as_u64 (sql_count (\<lambda>_. True) (edge_outbox s))"

section \<open>Eviction\<close>

definition gc_candidate :: "object_row \<Rightarrow> bool" where
  "gc_candidate r \<longleftrightarrow> o_class r = 0 \<and> o_state r = ''present'' \<and> 0 < o_owned r"

definition list_gc_candidates :: "nat \<Rightarrow> db \<Rightarrow> (string \<times> u64) list" where
  "list_gc_candidates limit s =
     map (\<lambda>r. (o_id r, as_u64 (o_owned r)))
       (take limit (sort_key o_access (filter gc_candidate (objects s))))"

definition try_evict_object :: "u64 \<Rightarrow> string \<Rightarrow> db \<Rightarrow> u64 \<times> db" where
  "try_evict_object now key s =
     (if has_active_pin now key s \<or> has_incoming key s \<or> 0 < get_fs_anchor_count key s
      then (0, recompute_eviction_class now key s)
      else (as_u64 (case obj_row key s of None \<Rightarrow> 0 | Some r \<Rightarrow> o_owned r),
            s\<lparr>objects := sql_delete (\<lambda>r. o_id r = key) (objects s),
              chunk_items := sql_delete (\<lambda>r. c_id r = key) (chunk_items s)\<rparr>))"

definition batch_touch_last_access_with_max :: "(string \<times> u64) list \<Rightarrow> db \<Rightarrow> db" where
  "batch_touch_last_access_with_max items s =
     fold (\<lambda>(key, ts). upd_obj key (\<lambda>r. r\<lparr>o_access := max (o_access r) (as_i64 ts)\<rparr>)) items s"

section \<open>Queries\<close>

definition anchor_state :: "'j ext_crates \<Rightarrow> obj_id \<Rightarrow> string \<Rightarrow> db \<Rightarrow> cascade_state_p0 ndn_result" where
  "anchor_state E oid owner s =
     (case find (\<lambda>p. p_obj p = obj_id_to_string E oid \<and> p_owner p = owner) (pins s) of
        None \<Rightarrow> Err (NotFound (''pin not found: '' @ obj_id_to_string E oid @ '' / '' @ owner))
      | Some p \<Rightarrow> ok_or (cascade_state_from_str (p_cascade p))
                    (InvalidData (''unknown cascade_state: '' @ p_cascade p)))"

definition fs_anchor_state ::
  "'j ext_crates \<Rightarrow> obj_id \<Rightarrow> u64 \<Rightarrow> u32 \<Rightarrow> db \<Rightarrow> cascade_state_p0 ndn_result" where
  "fs_anchor_state E oid inode tag s =
     (case find (\<lambda>a. a_obj a = obj_id_to_string E oid \<and> a_inode a = as_i64 inode \<and> a_tag a = uint tag)
             (fs_anchors s) of
        None \<Rightarrow> Err (NotFound ''fs_anchor not found: '')
      | Some a \<Rightarrow> ok_or (cascade_state_from_str (a_cascade a))
                    (InvalidData (''unknown cascade_state: '' @ a_cascade a)))"

definition debug_dump_expand_state ::
  "'j ext_crates \<Rightarrow> u64 \<Rightarrow> obj_id \<Rightarrow> db \<Rightarrow> expand_debug ndn_result" where
  "debug_dump_expand_state E now oid s =
     (let key = obj_id_to_string E oid
      in case obj_row key s of
           None \<Rightarrow> Err (NotFound (''object not found: '' @ key))
         | Some r \<Rightarrow> Ok \<lparr>ed_obj_id = oid, ed_state = item_state_from_str (o_state r),
               ed_eviction_class = as_u32 (o_class r), ed_children_expanded = (o_expanded r \<noteq> 0),
               ed_fs_anchor_count = as_u32 (o_fs_count r),
               ed_incoming_refs_count = as_u32 (sql_count (\<lambda>x. r_referee x = key) (incoming_refs s)),
               ed_has_recursive_pin = has_recursive_pin now key s,
               ed_has_skeleton_pin = has_skeleton_pin now key s,
               ed_has_lease_pin =
                 (0 < sql_count (\<lambda>p. p_obj p = key \<and> p_scope p = ''lease'' \<and> pin_live now p) (pins s)),
               ed_owned_bytes = as_u64 (o_owned r), ed_logical_size = as_u64 (o_logical r),
               ed_last_access_time = as_u64 (o_access r)\<rparr>)"

end
