(* ===== verification/Store_Db_Inv.thy ===== *)
theory Store_Db_Inv
  imports Store_Db
begin

text \<open>
  The invariant of the store database and its preservation by every method of
  \<open>NamedLocalStoreDB\<close>.  \<open>remove_object\<close> deletes the row of an object whatever protects it; it keeps the
  invariant, and is a step, for an object without a live pin, an incoming reference and an anchor only.

  What the invariant says of one key is \<open>key_ok\<close>; it depends only on the rows of the five tables that
  carry the key (\<open>same_key\<close> is the frame condition).  An operation on a key changes the rows of that
  key, leaves \<open>row_ok\<close> there, and ends in \<open>recompute_eviction_class\<close> and \<open>reconcile_expand_state\<close>,
  which turn \<open>row_ok\<close> into \<open>key_ok\<close> (\<open>refresh_key_ok\<close>).  \<open>db_step\<close> is the step relation over the
  clock and the database; \<open>reachable\<close> states satisfy \<open>db_inv\<close> by rule induction.
\<close>

section \<open>Rows of one key\<close>

definition anchor_rows :: "string \<Rightarrow> db \<Rightarrow> int" where
  "anchor_rows key s = sql_count (\<lambda>a. a_obj a = key) (fs_anchors s)"

definition protected :: "u64 \<Rightarrow> string \<Rightarrow> db \<Rightarrow> bool" where
  "protected now key s \<longleftrightarrow>
     has_active_pin now key s \<or> has_incoming key s \<or> 0 < get_fs_anchor_count key s"

definition no_skeleton_row :: "string \<Rightarrow> db \<Rightarrow> bool" where
  "no_skeleton_row key s \<longleftrightarrow> (\<forall>p \<in> set (pins s). p_obj p = key \<longrightarrow> p_scope p \<noteq> ''skeleton'')"

definition same_key :: "string \<Rightarrow> db \<Rightarrow> db \<Rightarrow> bool" where
  "same_key k s t \<longleftrightarrow> obj_row k t = obj_row k s \<and>
     filter (\<lambda>p. p_obj p = k) (pins t) = filter (\<lambda>p. p_obj p = k) (pins s) \<and>
     filter (\<lambda>r. r_referee r = k) (incoming_refs t) = filter (\<lambda>r. r_referee r = k) (incoming_refs s) \<and>
     filter (\<lambda>a. a_obj a = k) (fs_anchors t) = filter (\<lambda>a. a_obj a = k) (fs_anchors s)"

text \<open>What holds of a key even in the middle of a transaction.\<close>

definition row_ok :: "u64 \<Rightarrow> string \<Rightarrow> db \<Rightarrow> bool" where
  "row_ok now k s \<longleftrightarrow>
     (case obj_row k s of
        None \<Rightarrow> \<not> has_active_pin now k s \<and> \<not> has_incoming k s \<and> anchor_rows k s = 0
      | Some r \<Rightarrow> o_fs_count r = anchor_rows k s \<and>
          (o_state r = ''present'' \<or> o_state r = ''shadow'' \<and> o_expanded r = 0) \<and>
          (o_expanded r = 0 \<or> o_expanded r = 1))"

text \<open>What holds at the end of a transaction.\<close>

definition row_synced :: "u64 \<Rightarrow> string \<Rightarrow> db \<Rightarrow> bool" where
  "row_synced now k s \<longleftrightarrow>
     (case obj_row k s of
        None \<Rightarrow> True
      | Some r \<Rightarrow>
          (has_active_pin now k s \<or> 0 < o_fs_count r \<longrightarrow> o_class r = 2) \<and>
          (has_incoming k s \<longrightarrow> 1 \<le> o_class r) \<and> 0 \<le> o_class r \<and> o_class r \<le> 2 \<and>
          (o_class r = 0 \<longrightarrow> o_expanded r = 0) \<and>
          (o_state r = ''present'' \<and> no_skeleton_row k s \<and>
             (has_recursive_pin now k s \<or> 0 < o_fs_count r \<or> has_incoming k s) \<longrightarrow>
           o_expanded r = 1))"

definition key_ok :: "u64 \<Rightarrow> string \<Rightarrow> db \<Rightarrow> bool" where
  "key_ok now k s \<longleftrightarrow> row_ok now k s \<and> row_synced now k s"

text \<open>Text columns that hold an identifier hold what \<open>to_string\<close> prints for a colon-free type.\<close>

definition id_text :: "'j ext_crates \<Rightarrow> string \<Rightarrow> bool" where
  "id_text E k \<longleftrightarrow> (case obj_id_new E k of Inr oid \<Rightarrow> obj_id_to_string E oid = k | Inl _ \<Rightarrow> False)"

definition db_wf :: "'j ext_crates \<Rightarrow> db \<Rightarrow> bool" where
  "db_wf E s \<longleftrightarrow> distinct (map o_id (objects s)) \<and> distinct (map c_id (chunk_items s)) \<and>
     distinct (map (\<lambda>r. (r_referee r, r_referrer r)) (incoming_refs s)) \<and>
     distinct (map (\<lambda>p. (p_obj p, p_owner p)) (pins s)) \<and>
     distinct (map (\<lambda>a. (a_obj a, a_inode a, a_tag a)) (fs_anchors s)) \<and>
     sorted_wrt (<) (map b_seq (edge_outbox s)) \<and>
     (\<forall>b \<in> set (edge_outbox s). b_seq b \<le> outbox_last_seq s) \<and>
     (\<forall>p \<in> set (pins s). id_text E (p_obj p)) \<and>
     (\<forall>a \<in> set (fs_anchors s). id_text E (a_obj a))"

definition db_inv :: "'j ext_crates \<Rightarrow> u64 \<Rightarrow> db \<Rightarrow> bool" where
  "db_inv E now s \<longleftrightarrow> db_wf E s \<and> (\<forall>k. key_ok now k s)"

section \<open>Steps\<close>

text \<open>An identifier that an API caller passes: its type has no colon, as \<open>ObjId::new\<close> ensures.\<close>

definition api_id :: "obj_id \<Rightarrow> bool" where
  "api_id oid \<longleftrightarrow> CHR '':'' \<notin> set (obj_type oid)"

inductive db_step :: "'j ext_crates \<Rightarrow> u64 \<times> db \<Rightarrow> u64 \<times> db \<Rightarrow> bool" for E where
  tick: "as_i64 now \<le> as_i64 now' \<Longrightarrow> db_step E (now, s) (now', s)"
| put: "api_id oid \<Longrightarrow>
    db_step E (now, s) (now, snd (put_object_in_tx E now oid ty data logical owned s))"
| pin: "api_id oid \<Longrightarrow> db_step E (now, s) (now, pin E now oid owner scope ttl s)"
| unpin: "api_id oid \<Longrightarrow> db_step E (now, s) (now, unpin E now oid owner s)"
| unpin_owner: "db_step E (now, s) (now, snd (unpin_owner E now owner s))"
| expire_pins: "db_step E (now, s) (now, snd (expire_pins E now s))"
| fs_acquire: "api_id oid \<Longrightarrow> db_step E (now, s) (now, fs_acquire E now oid inode tag s)"
| fs_release: "api_id oid \<Longrightarrow> db_step E (now, s) (now, fs_release E now oid inode tag s)"
| fs_release_inode: "db_step E (now, s) (now, snd (fs_release_inode E now inode s))"
| apply_edge: "api_id (em_referee msg) \<Longrightarrow> db_step E (now, s) (now, apply_edge E now msg s)"
| complete: "db_step E (now, s) (now, complete_outbox_entry seq s)"
| retry: "db_step E (now, s) (now, retry_outbox_entry now seq s)"
| try_evict: "db_step E (now, s) (now, snd (try_evict_object now key s))"
| touch: "db_step E (now, s) (now, batch_touch_last_access_with_max items s)"
| set_chunk: "db_step E (now, s) (now, set_chunk_item E it s)"
| remove_chunk: "db_step E (now, s) (now, remove_chunk_db E c s)"
| remove_object: "\<not> protected now (obj_id_to_string E oid) s \<Longrightarrow> db_step E (now, s) (now, remove_object E oid s)"

inductive reachable :: "'j ext_crates \<Rightarrow> u64 \<times> db \<Rightarrow> bool" for E where
  init: "reachable E (now, empty_db)"
| step: "reachable E c \<Longrightarrow> db_step E c c' \<Longrightarrow> reachable E c'"

section \<open>Reading rows after an update\<close>

named_theorems row_simps \<open>rows of a key after an operation\<close>

text \<open>Statements that leave the rows selected by \<open>P\<close> alone.\<close>

lemma filter_sql_update [row_simps]:
  assumes "\<And>r. q r \<Longrightarrow> \<not> P r \<and> \<not> P (f r)"
  shows "filter P (sql_update q f t) = filter P t"
  using assms by (induction t) (auto simp: sql_update_def)

lemma filter_sql_delete [row_simps]:
  assumes "\<And>r. q r \<Longrightarrow> \<not> P r"
  shows "filter P (sql_delete q t) = filter P t"
  using assms by (induction t) (auto simp: sql_delete_def)

lemma filter_insert_or_ignore [row_simps]:
  "\<not> P r \<Longrightarrow> filter P (insert_or_ignore key r t) = filter P t"
  by (simp add: insert_or_ignore_def)

lemma filter_insert_on_conflict [row_simps]:
  assumes "\<not> P r" and "\<And>r'. key r' = key r \<Longrightarrow> \<not> P r' \<and> \<not> P (f r')"
  shows "filter P (insert_on_conflict key f r t) = filter P t"
proof -
  have "filter P (sql_update (\<lambda>r'. key r' = key r) f t) = filter P t"
    by (rule filter_sql_update) (rule assms(2))
  with assms(1) show ?thesis by (simp add: insert_on_conflict_def)
qed

lemma find_sql_update:
  assumes "\<And>r. o_id (f r) = o_id r"
  shows "find (\<lambda>r. o_id r = k) (sql_update (\<lambda>r. o_id r = key) f t) =
           map_option (\<lambda>r. if o_id r = key then f r else r) (find (\<lambda>r. o_id r = k) t)"
  by (induction t) (auto simp: sql_update_def assms)

lemma find_id: "find (\<lambda>r. o_id r = k) t = Some r \<Longrightarrow> o_id r = k"
  by (auto simp: find_Some_iff)

lemma obj_row_id: "obj_row k s = Some r \<Longrightarrow> o_id r = k"
  by (auto simp: obj_row_def dest: find_id)

lemma obj_row_upd_obj:
  assumes "\<And>r. o_id (f r) = o_id r"
  shows "obj_row k (upd_obj key f s) =
           (if k = key then map_option f (obj_row k s) else obj_row k s)"
proof -
  have "map_option (\<lambda>r. if o_id r = key then f r else r) (obj_row k s) =
          (if k = key then map_option f (obj_row k s) else obj_row k s)"
    by (cases "obj_row k s") (auto dest: obj_row_id)
  then show ?thesis
    by (simp add: obj_row_def upd_obj_def find_sql_update assms)
qed

lemma upd_obj_tables [simp]:
  "pins (upd_obj key f s) = pins s" "incoming_refs (upd_obj key f s) = incoming_refs s"
  "fs_anchors (upd_obj key f s) = fs_anchors s" "chunk_items (upd_obj key f s) = chunk_items s"
  "edge_outbox (upd_obj key f s) = edge_outbox s" "outbox_last_seq (upd_obj key f s) = outbox_last_seq s"
  by (simp_all add: upd_obj_def)

lemma obj_row_tables [simp]:
  "obj_row k (s\<lparr>pins := a\<rparr>) = obj_row k s" "obj_row k (s\<lparr>incoming_refs := b\<rparr>) = obj_row k s"
  "obj_row k (s\<lparr>fs_anchors := c\<rparr>) = obj_row k s" "obj_row k (s\<lparr>chunk_items := d\<rparr>) = obj_row k s"
  "obj_row k (s\<lparr>edge_outbox := e\<rparr>) = obj_row k s" "obj_row k (s\<lparr>outbox_last_seq := f\<rparr>) = obj_row k s"
  by (simp_all add: obj_row_def)

lemma find_append: "find P (xs @ ys) = (case find P xs of None \<Rightarrow> find P ys | Some x \<Rightarrow> Some x)"
  by (induction xs) auto

lemma find_sql_delete:
  "find (\<lambda>r. o_id r = k) (sql_delete (\<lambda>r. o_id r = key) t) =
     (if k = key then None else find (\<lambda>r. o_id r = k) t)"
  by (induction t) (auto simp: sql_delete_def)

lemma find_None_image: "find (\<lambda>r. g r = k) t = None \<longleftrightarrow> k \<notin> g ` set t"
  by (auto simp: find_None_iff)

lemma obj_row_insert_or_replace:
  "obj_row k (s\<lparr>objects := insert_or_replace o_id r (objects s)\<rparr>) =
     (if k = o_id r then Some r else obj_row k s)"
  by (auto simp: obj_row_def insert_or_replace_def find_append find_sql_delete split: option.splits)

lemma obj_row_insert_or_ignore:
  "obj_row k (s\<lparr>objects := insert_or_ignore o_id r (objects s)\<rparr>) =
     (if k = o_id r \<and> obj_row k s = None then Some r else obj_row k s)"
proof (cases "o_id r \<in> o_id ` set (objects s)")
  case True
  then have "find (\<lambda>x. o_id x = o_id r) (objects s) \<noteq> None"
    by (simp add: find_None_image)
  with True show ?thesis
    by (auto simp: obj_row_def insert_or_ignore_def)
next
  case False
  then have "find (\<lambda>x. o_id x = o_id r) (objects s) = None"
    by (simp add: find_None_image)
  with False show ?thesis
    by (cases "k = o_id r") (auto simp: obj_row_def insert_or_ignore_def find_append split: option.splits)
qed

lemma obj_row_delete:
  "obj_row k (s\<lparr>objects := sql_delete (\<lambda>r. o_id r = key) (objects s)\<rparr>) =
     (if k = key then None else obj_row k s)"
  by (simp add: obj_row_def find_sql_delete)

lemma obj_row_shadow:
  "obj_row k (upsert_shadow_if_absent now key s) =
     (if k = key \<and> obj_row k s = None then Some (shadow_row now key) else obj_row k s)"
  by (cases "k = key") (simp_all add: upsert_shadow_if_absent_def obj_row_insert_or_ignore shadow_row_def)

lemma shadow_tables [simp]:
  "pins (upsert_shadow_if_absent now key s) = pins s"
  "incoming_refs (upsert_shadow_if_absent now key s) = incoming_refs s"
  "fs_anchors (upsert_shadow_if_absent now key s) = fs_anchors s"
  "chunk_items (upsert_shadow_if_absent now key s) = chunk_items s"
  "edge_outbox (upsert_shadow_if_absent now key s) = edge_outbox s"
  "outbox_last_seq (upsert_shadow_if_absent now key s) = outbox_last_seq s"
  by (simp_all add: upsert_shadow_if_absent_def)

text \<open>The pin, edge and anchor queries as statements about rows.\<close>

lemma has_active_pin_iff:
  "has_active_pin now k s \<longleftrightarrow> (\<exists>p \<in> set (filter (\<lambda>p. p_obj p = k) (pins s)). pin_live now p)"
  by (auto simp: has_active_pin_def sql_simps)

lemma has_recursive_pin_iff:
  "has_recursive_pin now k s \<longleftrightarrow>
     (\<exists>p \<in> set (filter (\<lambda>p. p_obj p = k) (pins s)). p_scope p = ''recursive'' \<and> pin_live now p)"
  by (auto simp: has_recursive_pin_def sql_simps)

lemma has_skeleton_pin_iff:
  "has_skeleton_pin now k s \<longleftrightarrow>
     (\<exists>p \<in> set (filter (\<lambda>p. p_obj p = k) (pins s)). p_scope p = ''skeleton'' \<and> pin_live now p)"
  by (auto simp: has_skeleton_pin_def sql_simps)

lemma has_incoming_iff:
  "has_incoming k s \<longleftrightarrow> filter (\<lambda>r. r_referee r = k) (incoming_refs s) \<noteq> []"
  by (auto simp: has_incoming_def sql_simps filter_empty_conv)

lemma no_skeleton_row_iff:
  "no_skeleton_row k s \<longleftrightarrow>
     (\<forall>p \<in> set (filter (\<lambda>p. p_obj p = k) (pins s)). p_scope p \<noteq> ''skeleton'')"
  by (auto simp: no_skeleton_row_def)

lemma anchor_rows_iff: "anchor_rows k s = int (length (filter (\<lambda>a. a_obj a = k) (fs_anchors s)))"
  by (simp add: anchor_rows_def sql_count_def)

lemmas query_iffs = has_active_pin_iff has_recursive_pin_iff has_skeleton_pin_iff has_incoming_iff
  no_skeleton_row_iff anchor_rows_iff

lemma same_key_queries:
  assumes "same_key k s t"
  shows "obj_row k t = obj_row k s" "has_active_pin now k t = has_active_pin now k s"
    "has_recursive_pin now k t = has_recursive_pin now k s"
    "has_skeleton_pin now k t = has_skeleton_pin now k s" "has_incoming k t = has_incoming k s"
    "no_skeleton_row k t = no_skeleton_row k s" "anchor_rows k t = anchor_rows k s"
  using assms unfolding same_key_def query_iffs by simp_all

lemma key_ok_frame:
  assumes "same_key k s t"
  shows "key_ok now k t = key_ok now k s" and "row_ok now k t = row_ok now k s"
  unfolding key_ok_def row_ok_def row_synced_def same_key_queries [OF assms] by simp_all

lemma same_key_refl [simp]: "same_key k s s"
  by (simp add: same_key_def)

lemma same_key_trans [trans]: "same_key k s t \<Longrightarrow> same_key k t u \<Longrightarrow> same_key k s u"
  by (simp add: same_key_def)

section \<open>The end of a transaction\<close>

lemma recompute_tables [simp]:
  "pins (recompute_eviction_class now key s) = pins s"
  "incoming_refs (recompute_eviction_class now key s) = incoming_refs s"
  "fs_anchors (recompute_eviction_class now key s) = fs_anchors s"
  "chunk_items (recompute_eviction_class now key s) = chunk_items s"
  "edge_outbox (recompute_eviction_class now key s) = edge_outbox s"
  "outbox_last_seq (recompute_eviction_class now key s) = outbox_last_seq s"
  by (simp_all add: recompute_eviction_class_def Let_def)

lemma obj_row_recompute:
  "obj_row k (recompute_eviction_class now key s) =
     (if k = key then map_option (o_class_update (\<lambda>_.
        if has_active_pin now key s \<or> 0 < get_fs_anchor_count key s then 2
        else if has_incoming key s then 1 else 0)) (obj_row k s)
      else obj_row k s)"
  by (simp add: recompute_eviction_class_def Let_def obj_row_upd_obj)

lemma outbox_insert_tables [simp]:
  "pins (outbox_insert now op c ref s) = pins s" "objects (outbox_insert now op c ref s) = objects s"
  "incoming_refs (outbox_insert now op c ref s) = incoming_refs s"
  "fs_anchors (outbox_insert now op c ref s) = fs_anchors s"
  "chunk_items (outbox_insert now op c ref s) = chunk_items s"
  by (simp_all add: outbox_insert_def)

lemma enqueue_edges_tables [simp]:
  "pins (enqueue_edges now op cs ref s) = pins s"
  "objects (enqueue_edges now op cs ref s) = objects s"
  "incoming_refs (enqueue_edges now op cs ref s) = incoming_refs s"
  "fs_anchors (enqueue_edges now op cs ref s) = fs_anchors s"
  "chunk_items (enqueue_edges now op cs ref s) = chunk_items s"
  by (induction now op cs ref s rule: enqueue_edges.induct) simp_all

lemma obj_row_enqueue_edges [simp]: "obj_row k (enqueue_edges now op cs ref s) = obj_row k s"
  by (simp add: obj_row_def)

lemma set_expanded_tables [simp]:
  "pins (set_expanded key v s) = pins s" "incoming_refs (set_expanded key v s) = incoming_refs s"
  "fs_anchors (set_expanded key v s) = fs_anchors s"
  "chunk_items (set_expanded key v s) = chunk_items s"
  "edge_outbox (set_expanded key v s) = edge_outbox s"
  "outbox_last_seq (set_expanded key v s) = outbox_last_seq s"
  by (simp_all add: set_expanded_def)

lemma obj_row_set_expanded:
  "obj_row k (set_expanded key v s) =
     (if k = key then map_option (o_expanded_update (\<lambda>_. v)) (obj_row k s) else obj_row k s)"
  by (simp add: set_expanded_def obj_row_upd_obj)

lemma reconcile_tables [simp]:
  "pins (reconcile_expand_state E now oid s) = pins s"
  "incoming_refs (reconcile_expand_state E now oid s) = incoming_refs s"
  "fs_anchors (reconcile_expand_state E now oid s) = fs_anchors s"
  "chunk_items (reconcile_expand_state E now oid s) = chunk_items s"
  by (simp_all add: reconcile_expand_state_def Let_def)

lemma obj_row_reconcile_other:
  "k \<noteq> obj_id_to_string E oid \<Longrightarrow> obj_row k (reconcile_expand_state E now oid s) = obj_row k s"
  by (simp add: reconcile_expand_state_def Let_def obj_row_set_expanded)

lemma obj_row_reconcile:
  assumes "\<And>r. obj_row (obj_id_to_string E oid) s = Some r \<Longrightarrow> o_expanded r = 0 \<or> o_expanded r = 1"
  shows "obj_row (obj_id_to_string E oid) (reconcile_expand_state E now oid s) =
           map_option (o_expanded_update (\<lambda>_. if want_expand now (obj_id_to_string E oid) s then 1 else 0))
             (obj_row (obj_id_to_string E oid) s)"
proof (cases "obj_row (obj_id_to_string E oid) s")
  case None
  then show ?thesis
    by (simp add: reconcile_expand_state_def Let_def obj_row_set_expanded)
next
  case (Some r)
  have "r\<lparr>o_expanded := o_expanded r\<rparr> = r" by simp
  with assms [OF Some] Some show ?thesis
    by (auto simp: reconcile_expand_state_def Let_def obj_row_set_expanded get_children_expanded_def)
qed

lemma reconcile_absent:
  "obj_row (obj_id_to_string E oid) s = None \<Longrightarrow> reconcile_expand_state E now oid s = s"
  by (simp add: reconcile_expand_state_def Let_def want_expand_def get_item_state_def
      get_children_expanded_def)

text \<open>Recompute then reconcile: the tail of every transaction.\<close>

definition refresh :: "'j ext_crates \<Rightarrow> u64 \<Rightarrow> obj_id \<Rightarrow> db \<Rightarrow> db" where
  "refresh E now oid s =
     reconcile_expand_state E now oid (recompute_eviction_class now (obj_id_to_string E oid) s)"

lemma refresh_tables [simp]:
  "pins (refresh E now oid s) = pins s" "incoming_refs (refresh E now oid s) = incoming_refs s"
  "fs_anchors (refresh E now oid s) = fs_anchors s" "chunk_items (refresh E now oid s) = chunk_items s"
  by (simp_all add: refresh_def)

lemma refresh_other:
  "k \<noteq> obj_id_to_string E oid \<Longrightarrow> same_key k s (refresh E now oid s)"
  by (simp add: same_key_def refresh_def obj_row_reconcile_other obj_row_recompute)

lemma queries_by_tables:
  assumes "pins t = pins s" "incoming_refs t = incoming_refs s" "fs_anchors t = fs_anchors s"
  shows "has_active_pin now k t = has_active_pin now k s"
    "has_recursive_pin now k t = has_recursive_pin now k s"
    "has_skeleton_pin now k t = has_skeleton_pin now k s" "has_incoming k t = has_incoming k s"
    "no_skeleton_row k t = no_skeleton_row k s" "anchor_rows k t = anchor_rows k s"
  using assms unfolding query_iffs by simp_all

lemma refresh_key_ok:
  assumes ok: "row_ok now key s" and key: "key = obj_id_to_string E oid"
  shows "key_ok now key (refresh E now oid s)"
proof (cases "obj_row key s")
  case None
  then have "obj_row key (recompute_eviction_class now key s) = None"
    by (simp add: obj_row_recompute)
  with None key have "refresh E now oid s = recompute_eviction_class now key s"
    by (simp add: refresh_def reconcile_absent)
  with ok None show ?thesis
    by (simp add: key_ok_def row_ok_def row_synced_def obj_row_recompute
        queries_by_tables [of "recompute_eviction_class now key s" s])
next
  case (Some r)
  define cls :: int where "cls = (if has_active_pin now key s \<or> 0 < get_fs_anchor_count key s then 2
        else if has_incoming key s then 1 else 0)"
  define s1 where "s1 = recompute_eviction_class now key s"
  define want where "want = want_expand now key s1"
  have q: "has_active_pin now key s1 = has_active_pin now key s"
    "has_recursive_pin now key s1 = has_recursive_pin now key s"
    "has_skeleton_pin now key s1 = has_skeleton_pin now key s" "has_incoming key s1 = has_incoming key s"
    "no_skeleton_row key s1 = no_skeleton_row key s" "anchor_rows key s1 = anchor_rows key s"
    by (simp_all add: s1_def queries_by_tables [of "recompute_eviction_class now key s" s])
  have row1: "obj_row key s1 = Some (r\<lparr>o_class := cls\<rparr>)"
    by (simp add: s1_def obj_row_recompute Some cls_def)
  have fs: "get_fs_anchor_count key s = o_fs_count r"
    by (simp add: get_fs_anchor_count_def Some)
  have exp: "o_expanded r = 0 \<or> o_expanded r = 1" and cnt: "o_fs_count r = anchor_rows key s"
    and st: "o_state r = ''present'' \<or> o_state r = ''shadow'' \<and> o_expanded r = 0"
    using ok Some by (simp_all add: row_ok_def)
  define t where "t = refresh E now oid s"
  have qt: "has_active_pin now key t = has_active_pin now key s"
    "has_recursive_pin now key t = has_recursive_pin now key s"
    "has_skeleton_pin now key t = has_skeleton_pin now key s" "has_incoming key t = has_incoming key s"
    "no_skeleton_row key t = no_skeleton_row key s" "anchor_rows key t = anchor_rows key s"
    by (simp_all add: t_def queries_by_tables [of "refresh E now oid s" s])
  have "obj_row key (reconcile_expand_state E now oid s1) =
          Some (r\<lparr>o_class := cls, o_expanded := (if want then 1 else 0)\<rparr>)"
    unfolding key using obj_row_reconcile [of E oid s1 now] row1 exp
    by (simp add: key want_def)
  then have row: "obj_row key t = Some (r\<lparr>o_class := cls, o_expanded := (if want then 1 else 0)\<rparr>)"
    by (simp add: t_def refresh_def s1_def key)
  have want: "want \<longleftrightarrow> o_state r = ''present'' \<and> \<not> has_skeleton_pin now key s \<and>
      (has_recursive_pin now key s \<or> 0 < o_fs_count r \<or> has_incoming key s)"
    by (simp add: want_def want_expand_def get_item_state_def get_fs_anchor_count_def row1 q)
  have sk: "no_skeleton_row key s \<Longrightarrow> \<not> has_skeleton_pin now key s"
    and rec: "has_recursive_pin now key s \<Longrightarrow> has_active_pin now key s"
    unfolding query_iffs by auto
  have "row_ok now key t"
    using st cnt want by (auto simp: row_ok_def row qt)
  moreover have "row_synced now key t"
    using sk rec want unfolding row_synced_def row cls_def fs qt by auto
  ultimately show ?thesis
    by (simp add: key_ok_def t_def)
qed

lemma id_textI: "hex_laws E \<Longrightarrow> api_id oid \<Longrightarrow> id_text E (obj_id_to_string E oid)"
  by (simp add: id_text_def api_id_def obj_id_new_to_string)

lemma refresh_key_refresh:
  assumes "id_text E key"
  obtains oid where "key = obj_id_to_string E oid" and "refresh_key E now key s = refresh E now oid s"
  using assms by (auto simp: id_text_def refresh_key_def refresh_def Let_def split: sum.splits)

section \<open>Well-formedness is kept\<close>

lemma db_wf_upd_obj:
  assumes "\<And>r. o_id (f r) = o_id r"
  shows "db_wf E (upd_obj key f s) = db_wf E s"
proof -
  have "map o_id (objects (upd_obj key f s)) = map o_id (objects s)"
    by (simp add: upd_obj_def map_sql_update assms)
  then show ?thesis by (simp add: db_wf_def)
qed

lemma db_wf_outbox_insert: "db_wf E s \<Longrightarrow> db_wf E (outbox_insert now op c ref s)"
  by (auto simp: db_wf_def outbox_insert_def sorted_wrt_append)

lemma db_wf_enqueue_edges: "db_wf E s \<Longrightarrow> db_wf E (enqueue_edges now op cs ref s)"
  by (induction now op cs ref s rule: enqueue_edges.induct) (simp_all add: db_wf_outbox_insert)

lemma db_wf_recompute: "db_wf E (recompute_eviction_class now key s) = db_wf E s"
  by (simp add: recompute_eviction_class_def Let_def db_wf_upd_obj)

lemma db_wf_reconcile: "db_wf E s \<Longrightarrow> db_wf E (reconcile_expand_state F now oid s)"
  by (simp add: reconcile_expand_state_def Let_def set_expanded_def db_wf_enqueue_edges db_wf_upd_obj)

lemma db_wf_refresh: "db_wf E s \<Longrightarrow> db_wf E (refresh E now oid s)"
  by (simp add: refresh_def db_wf_reconcile db_wf_recompute)

lemma db_wf_shadow: "db_wf E s \<Longrightarrow> db_wf E (upsert_shadow_if_absent now key s)"
  by (simp add: db_wf_def upsert_shadow_if_absent_def distinct_insert_or_ignore)

lemmas db_wf_intros = db_wf_refresh db_wf_shadow

lemma db_wfD:
  assumes "db_wf E s"
  shows "distinct (map o_id (objects s))" "distinct (map (\<lambda>p. (p_obj p, p_owner p)) (pins s))"
    "distinct (map (\<lambda>a. (a_obj a, a_inode a, a_tag a)) (fs_anchors s))"
    "\<And>p. p \<in> set (pins s) \<Longrightarrow> id_text E (p_obj p)"
    "\<And>a. a \<in> set (fs_anchors s) \<Longrightarrow> id_text E (a_obj a)"
  using assms by (simp_all add: db_wf_def)

section \<open>Every operation keeps the invariant\<close>

lemma db_inv_refreshI:
  assumes inv: "db_inv E now s" and oth: "\<And>k. k \<noteq> obj_id_to_string E oid \<Longrightarrow> same_key k s t"
    and row: "row_ok now (obj_id_to_string E oid) t" and wf: "db_wf E t"
  shows "db_inv E now (refresh E now oid t)"
proof -
  have "key_ok now k (refresh E now oid t)" for k
  proof (cases "k = obj_id_to_string E oid")
    case True
    with row show ?thesis by (simp add: refresh_key_ok)
  next
    case False
    have "same_key k s (refresh E now oid t)"
      by (rule same_key_trans [OF oth [OF False] refresh_other [OF False]])
    from key_ok_frame(1) [OF this] inv show ?thesis
      by (simp add: db_inv_def)
  qed
  with wf show ?thesis by (simp add: db_inv_def db_wf_refresh)
qed

lemma db_invD:
  assumes "db_inv E now s"
  shows "db_wf E s" "key_ok now k s" "row_ok now k s" "row_synced now k s"
  using assms by (simp_all add: db_inv_def key_ok_def)

lemma db_inv_tick:
  assumes le: "as_i64 now \<le> as_i64 now'" and inv: "db_inv E now s"
  shows "db_inv E now' s"
proof -
  have "pin_live now' p \<Longrightarrow> pin_live now p" for p
    using le by (auto simp: pin_live_def split: option.splits)
  then have "has_active_pin now' k s \<Longrightarrow> has_active_pin now k s"
    and "has_recursive_pin now' k s \<Longrightarrow> has_recursive_pin now k s" for k
    unfolding query_iffs by auto
  then have "key_ok now' k s" if "key_ok now k s" for k
    using that by (auto simp: key_ok_def row_ok_def row_synced_def split: option.splits)
  with inv show ?thesis by (simp add: db_inv_def)
qed

lemma db_inv_empty: "db_inv E now empty_db"
proof -
  have "key_ok now k empty_db" for k
    by (simp add: key_ok_def row_ok_def row_synced_def obj_row_def query_iffs empty_db_def)
  then show ?thesis by (simp add: db_inv_def db_wf_def empty_db_def)
qed

lemma row_ok_shadow:
  assumes "row_ok now k s"
  shows "row_ok now k (upsert_shadow_if_absent now key s)"
    and "obj_row key (upsert_shadow_if_absent now key s) \<noteq> None"
proof -
  let ?t = "upsert_shadow_if_absent now key s"
  have q: "has_active_pin now k ?t = has_active_pin now k s" "has_incoming k ?t = has_incoming k s"
    "anchor_rows k ?t = anchor_rows k s"
    by (simp_all add: queries_by_tables [of ?t s])
  show "row_ok now k ?t"
    using assms unfolding row_ok_def q obj_row_shadow
    by (auto simp: shadow_row_def split: option.splits)
  show "obj_row key ?t \<noteq> None"
    by (simp add: obj_row_shadow)
qed

lemma same_key_shadow: "k \<noteq> key \<Longrightarrow> same_key k s (upsert_shadow_if_absent now key s)"
  by (simp add: same_key_def obj_row_shadow)

text \<open>Operations that touch neither rows of keys nor well-formedness.\<close>

lemma db_inv_same:
  assumes "db_inv E now s" and "\<And>k. same_key k s t" and "db_wf E t"
  shows "db_inv E now t"
  using assms(1,3) key_ok_frame(1) [OF assms(2)] by (simp add: db_inv_def)

lemma db_inv_complete: "db_inv E now s \<Longrightarrow> db_inv E now (complete_outbox_entry seq s)"
proof (rule db_inv_same)
  assume "db_inv E now s"
  then have "db_wf E s" by (rule db_invD)
  then show "db_wf E (complete_outbox_entry seq s)"
    by (auto simp: db_wf_def complete_outbox_entry_def sql_simps sql_delete_def
        sorted_wrt_map sorted_wrt_filter)
qed (simp_all add: complete_outbox_entry_def same_key_def)

lemma db_inv_retry: "db_inv E now s \<Longrightarrow> db_inv E now (retry_outbox_entry now seq s)"
proof (rule db_inv_same)
  assume "db_inv E now s"
  then have wf: "db_wf E s" by (rule db_invD)
  have "map b_seq (edge_outbox (retry_outbox_entry now seq s)) = map b_seq (edge_outbox s)"
    by (simp add: retry_outbox_entry_def map_sql_update)
  moreover from this have "b_seq ` set (edge_outbox (retry_outbox_entry now seq s)) = b_seq ` set (edge_outbox s)"
    by (metis list.set_map)
  ultimately show "db_wf E (retry_outbox_entry now seq s)"
    using wf unfolding db_wf_def
    by (auto simp: retry_outbox_entry_def sql_simps)
qed (simp_all add: retry_outbox_entry_def same_key_def)

lemma db_inv_set_chunk: "db_inv E now s \<Longrightarrow> db_inv E now (set_chunk_item E it s)"
proof (rule db_inv_same)
  assume "db_inv E now s"
  then have "db_wf E s" by (rule db_invD)
  then show "db_wf E (set_chunk_item E it s)"
    by (simp add: db_wf_def set_chunk_item_def distinct_insert_or_replace)
qed (simp_all add: set_chunk_item_def same_key_def)

text \<open>An update of columns that the invariant does not read.\<close>

lemma db_inv_upd_access:
  assumes "db_inv E now s"
  shows "db_inv E now (upd_obj key (\<lambda>r. r\<lparr>o_access := f r\<rparr>) s)" (is "db_inv E now ?t")
proof -
  have q: "has_active_pin now k ?t = has_active_pin now k s"
    "has_recursive_pin now k ?t = has_recursive_pin now k s" "has_incoming k ?t = has_incoming k s"
    "no_skeleton_row k ?t = no_skeleton_row k s" "anchor_rows k ?t = anchor_rows k s" for k
    by (simp_all add: queries_by_tables [of ?t s])
  have "key_ok now k ?t" for k
  proof (cases "obj_row k s")
    case None
    with db_invD(2) [OF assms, of k] show ?thesis
      unfolding key_ok_def row_ok_def row_synced_def q by (cases "k = key") (simp_all add: obj_row_upd_obj)
  next
    case (Some r)
    then have "obj_row k ?t = Some (if k = key then r\<lparr>o_access := f r\<rparr> else r)"
      by (cases "k = key") (simp_all add: obj_row_upd_obj)
    with Some db_invD(2) [OF assms, of k] show ?thesis
      unfolding key_ok_def row_ok_def row_synced_def q by (cases "k = key") simp_all
  qed
  with assms show ?thesis by (simp add: db_inv_def db_wf_upd_obj)
qed

lemma db_inv_touch: "db_inv E now s \<Longrightarrow> db_inv E now (batch_touch_last_access_with_max items s)"
  unfolding batch_touch_last_access_with_max_def
  by (induction items arbitrary: s) (auto simp: db_inv_upd_access split: prod.splits)

lemma db_wf_promote: "db_wf E s \<Longrightarrow> db_wf E (promote_anchor_cascade_state F oid s)"
  by (auto simp: db_wf_def promote_anchor_cascade_state_def Let_def map_sql_update sql_simps)

lemma has_recursive_active: "has_recursive_pin now k s \<Longrightarrow> has_active_pin now k s"
  unfolding query_iffs by auto

lemma db_inv_insert_present:
  assumes inv: "db_inv E now s" and absent: "obj_row key s = None"
  shows "db_inv E now (s\<lparr>objects := insert_or_replace o_id
           (present_row now key ty data logical owned) (objects s)\<rparr>)" (is "db_inv E now ?t")
proof -
  have rows: "obj_row k ?t = (if k = key then Some (present_row now key ty data logical owned)
      else obj_row k s)" for k
    by (simp add: obj_row_insert_or_replace present_row_def)
  have "key_ok now k ?t" for k
  proof (cases "k = key")
    case False
    then have "same_key k s ?t" using rows [of k] by (simp add: same_key_def)
    then show ?thesis using key_ok_frame(1) db_invD(2) [OF inv] by blast
  next
    case True
    have q: "has_active_pin now k ?t = has_active_pin now k s" "has_incoming k ?t = has_incoming k s"
      "has_recursive_pin now k ?t = has_recursive_pin now k s" "anchor_rows k ?t = anchor_rows k s"
      by (simp_all add: queries_by_tables [of ?t s])
    have "\<not> has_active_pin now k s" "\<not> has_incoming k s" "anchor_rows k s = 0"
      using db_invD(3) [OF inv, of k] absent True by (simp_all add: row_ok_def)
    with has_recursive_active [of now k s] True show ?thesis
      unfolding key_ok_def row_ok_def row_synced_def rows q
      by (auto simp: present_row_def)
  qed
  moreover have "db_wf E ?t"
    using db_invD(1) [OF inv] by (simp add: db_wf_def distinct_insert_or_replace)
  ultimately show ?thesis by (simp add: db_inv_def)
qed

lemma db_inv_put:
  assumes inv: "db_inv E now s"
  shows "db_inv E now (snd (put_object_in_tx E now oid ty data logical owned s))"
proof -
  let ?key = "obj_id_to_string E oid"
  note row = db_invD(3) [OF inv, of ?key]
  consider (present) "get_item_state ?key s = Some ''present''"
    | (shadow) "get_item_state ?key s = Some ''shadow''" | (absent) "obj_row ?key s = None"
    using row by (auto simp: get_item_state_def row_ok_def split: option.splits)
  then show ?thesis
  proof cases
    case present
    then show ?thesis by (simp add: put_object_in_tx_def db_inv_upd_access inv)
  next
    case shadow
    define s1 where "s1 = upd_obj ?key (\<lambda>r. r\<lparr>o_type := ty, o_data := data, o_state := ''present'',
                       o_access := as_i64 now, o_logical := logical, o_owned := owned\<rparr>) s"
    define s2 where "s2 = promote_anchor_cascade_state E oid s1"
    have "db_inv E now (refresh E now oid s2)"
    proof (rule db_inv_refreshI [OF inv])
      fix k assume "k \<noteq> ?key"
      then show "same_key k s s2"
        by (auto simp: same_key_def s2_def s1_def promote_anchor_cascade_state_def Let_def
            obj_row_upd_obj intro!: row_simps)
    next
      have "anchor_rows ?key s2 = anchor_rows ?key s"
        unfolding anchor_rows_def s2_def s1_def promote_anchor_cascade_state_def Let_def
        by (simp add: sql_count_update)
      with row shadow show "row_ok now ?key s2"
        by (auto simp: row_ok_def get_item_state_def s2_def s1_def promote_anchor_cascade_state_def
            Let_def obj_row_upd_obj split: option.splits)
      show "db_wf E s2"
        using db_invD(1) [OF inv] by (simp add: s2_def s1_def db_wf_promote db_wf_upd_obj)
    qed
    with shadow show ?thesis
      by (simp add: put_object_in_tx_def Let_def refresh_def s1_def s2_def)
  next
    case absent
    then show ?thesis
      by (simp add: put_object_in_tx_def get_item_state_def db_inv_insert_present inv)
  qed
qed

lemma row_ok_by:
  assumes "row_ok now k s" and "obj_row k t = obj_row k s" and "obj_row k s \<noteq> None"
    and "anchor_rows k t = anchor_rows k s"
  shows "row_ok now k t"
  using assms by (auto simp: row_ok_def)

lemma db_inv_pin:
  assumes inv: "db_inv E now s" and E: "hex_laws E" and oid: "api_id oid"
  shows "db_inv E now (pin E now oid owner scope ttl s)"
proof -
  let ?key = "obj_id_to_string E oid"
  define s1 where "s1 = upsert_shadow_if_absent now ?key s"
  define pr :: "string \<Rightarrow> pin_row" where "pr = (\<lambda>cascade. \<lparr>p_obj = ?key, p_owner = owner, p_scope = pin_scope_as_str scope,
                 p_cascade = cascade, p_created = as_i64 now,
                 p_expires = map_option (\<lambda>d. as_i64 (now + d)) ttl\<rparr>)"
  define f :: "string \<Rightarrow> pin_row \<Rightarrow> pin_row" where "f = (\<lambda>cascade p. p\<lparr>p_scope := pin_scope_as_str scope, p_cascade := cascade,
                 p_expires := map_option (\<lambda>d. as_i64 (now + d)) ttl\<rparr>)"
  obtain c where pin: "pin E now oid owner scope ttl s = refresh E now oid
      (s1\<lparr>pins := insert_on_conflict (\<lambda>p. (p_obj p, p_owner p)) (f c) (pr c) (pins s1)\<rparr>)"
    by (simp add: pin_def Let_def refresh_def s1_def f_def pr_def)
  let ?t = "s1\<lparr>pins := insert_on_conflict (\<lambda>p. (p_obj p, p_owner p)) (f c) (pr c) (pins s1)\<rparr>"
  have wf1: "db_wf E s1" and row1: "row_ok now ?key s1" "obj_row ?key s1 \<noteq> None"
    using db_invD(1,3) [OF inv] by (simp_all add: s1_def db_wf_shadow row_ok_shadow)
  show ?thesis
    unfolding pin
  proof (rule db_inv_refreshI [OF inv])
    fix k assume "k \<noteq> ?key"
    then show "same_key k s ?t"
      by (auto simp: same_key_def s1_def obj_row_shadow pr_def f_def intro!: row_simps)
  next
    show "row_ok now ?key ?t"
      by (rule row_ok_by [OF row1(1)]) (use row1(2) in \<open>simp_all add: anchor_rows_def\<close>)
  next
    show "db_wf E ?t"
      using wf1 id_textI [OF E oid]
      by (auto simp: db_wf_def pr_def f_def insert_on_conflict_def sql_simps map_sql_update)
  qed
qed

lemma same_key_delete_pins:
  assumes "\<And>p. q p \<Longrightarrow> p_obj p \<noteq> k"
  shows "same_key k s (s\<lparr>pins := sql_delete q (pins s)\<rparr>)"
  using assms by (auto simp: same_key_def intro!: row_simps)

lemma row_ok_delete_pins:
  "row_ok now k s \<Longrightarrow> row_ok now k (s\<lparr>pins := sql_delete q (pins s)\<rparr>)"
  by (auto simp: row_ok_def query_iffs sql_simps split: option.splits)

lemma db_wf_delete_pins:
  "db_wf E s \<Longrightarrow> db_wf E (s\<lparr>pins := sql_delete q (pins s)\<rparr>)"
  by (auto simp: db_wf_def sql_simps distinct_map_sql_delete)

lemma sql_delete_none: "sql_count q t = 0 \<Longrightarrow> sql_delete q t = t"
  by (simp add: sql_count_def sql_delete_def filter_id_conv filter_empty_conv)

lemma db_inv_unpin:
  assumes inv: "db_inv E now s"
  shows "db_inv E now (unpin E now oid owner s)"
proof -
  let ?key = "obj_id_to_string E oid"
  let ?q = "\<lambda>p. p_obj p = ?key \<and> p_owner p = owner"
  have "db_inv E now (refresh E now oid (s\<lparr>pins := sql_delete ?q (pins s)\<rparr>))"
    by (rule db_inv_refreshI [OF inv])
      (use db_invD [OF inv] in \<open>auto intro!: same_key_delete_pins row_ok_delete_pins db_wf_delete_pins\<close>)
  moreover have "sql_count ?q (pins s) = 0 \<Longrightarrow> s\<lparr>pins := sql_delete ?q (pins s)\<rparr> = s"
    by (simp add: sql_delete_none)
  moreover have "0 < sql_count ?q (pins s) \<or> sql_count ?q (pins s) = 0"
    using sql_count_nonneg [of ?q "pins s"] by linarith
  ultimately show ?thesis
    using inv by (auto simp: unpin_def Let_def refresh_def)
qed

text \<open>The loops of \<open>unpin_owner\<close>, \<open>expire_pins\<close> and \<open>fs_release_inode\<close>.\<close>

lemma refresh_key_step:
  assumes "id_text E key" and "db_wf E s"
  shows "db_wf E (refresh_key E now key s)"
    and "k \<noteq> key \<Longrightarrow> same_key k s (refresh_key E now key s)"
    and "row_ok now key s \<Longrightarrow> key_ok now key (refresh_key E now key s)"
proof -
  from assms(1) obtain oid where oid: "key = obj_id_to_string E oid"
    and eq: "refresh_key E now key s = refresh E now oid s"
    by (rule refresh_key_refresh)
  from assms(2) show "db_wf E (refresh_key E now key s)"
    unfolding eq by (rule db_wf_refresh)
  show "k \<noteq> key \<Longrightarrow> same_key k s (refresh_key E now key s)"
    unfolding eq by (rule refresh_other) (simp add: oid)
  show "row_ok now key s \<Longrightarrow> key_ok now key (refresh_key E now key s)"
    unfolding eq by (rule refresh_key_ok) (simp_all add: oid)
qed

lemma db_inv_refresh_keys:
  assumes "\<And>key. key \<in> set ids \<Longrightarrow> id_text E key" and "distinct ids" and "db_wf E t"
    and "\<And>k. k \<in> set ids \<Longrightarrow> row_ok now k t" and "\<And>k. k \<notin> set ids \<Longrightarrow> key_ok now k t"
  shows "db_inv E now (fold (refresh_key E now) ids t)"
  using assms
proof (induction ids arbitrary: t)
  case Nil
  then show ?case by (simp add: db_inv_def)
next
  case (Cons key ids)
  let ?t = "refresh_key E now key t"
  have idk: "id_text E key" using Cons.prems(1) by simp
  note step = refresh_key_step [OF idk Cons.prems(3)]
  have "db_inv E now (fold (refresh_key E now) ids ?t)"
  proof (rule Cons.IH)
    fix k assume k: "k \<in> set ids"
    with Cons.prems(2) have "k \<noteq> key" by auto
    with k Cons.prems(4) [of k] show "row_ok now k ?t"
      using key_ok_frame(2) [OF step(2)] by simp
  next
    fix k assume k: "k \<notin> set ids"
    show "key_ok now k ?t"
    proof (cases "k = key")
      case True
      with Cons.prems(4) show ?thesis by (simp add: step(3))
    next
      case False
      with k Cons.prems(5) [of k] show ?thesis
        using key_ok_frame(1) [OF step(2) [OF False]] by simp
    qed
  qed (use Cons.prems step(1) in auto)
  then show ?case by simp
qed

lemma db_inv_delete_pins:
  assumes inv: "db_inv E now s"
  shows "db_inv E now (fold (refresh_key E now) (remdups (map p_obj (filter q (pins s))))
           (s\<lparr>pins := sql_delete q (pins s)\<rparr>))"
proof (rule db_inv_refresh_keys)
  show "id_text E key" if "key \<in> set (remdups (map p_obj (filter q (pins s))))" for key
    using that db_invD(1) [OF inv] by (auto simp: db_wf_def)
  show "row_ok now k (s\<lparr>pins := sql_delete q (pins s)\<rparr>)" for k
    by (rule row_ok_delete_pins) (rule db_invD [OF inv])
  fix k assume "k \<notin> set (remdups (map p_obj (filter q (pins s))))"
  then have "filter (\<lambda>p. p_obj p = k) (sql_delete q (pins s)) = filter (\<lambda>p. p_obj p = k) (pins s)"
    by (auto simp: sql_delete_def intro!: filter_cong)
  then have "same_key k s (s\<lparr>pins := sql_delete q (pins s)\<rparr>)"
    by (simp add: same_key_def)
  then show "key_ok now k (s\<lparr>pins := sql_delete q (pins s)\<rparr>)"
    using key_ok_frame(1) db_invD(2) [OF inv] by blast
qed (use db_invD [OF inv] in \<open>simp_all add: db_wf_delete_pins\<close>)

lemma db_inv_unpin_owner: "db_inv E now s \<Longrightarrow> db_inv E now (snd (unpin_owner E now owner s))"
  using db_inv_delete_pins [of E now s "\<lambda>p. p_owner p = owner"] by (simp add: unpin_owner_def Let_def)

lemma db_inv_expire_pins: "db_inv E now s \<Longrightarrow> db_inv E now (snd (expire_pins E now s))"
  using db_inv_delete_pins [of E now s "pin_expired now"] by (simp add: expire_pins_def Let_def)

lemma row_ok_fs_count:
  assumes "obj_row k s = Some r" and "row_ok now k s" and "obj_row k t = Some (r\<lparr>o_fs_count := n\<rparr>)"
    and "anchor_rows k t = n"
  shows "row_ok now k t"
  using assms by (simp add: row_ok_def)

lemma db_inv_fs_acquire:
  assumes inv: "db_inv E now s" and E: "hex_laws E" and oid: "api_id oid"
  shows "db_inv E now (fs_acquire E now oid inode tag s)"
proof -
  let ?key = "obj_id_to_string E oid" and ?akey = "\<lambda>a. (a_obj a, a_inode a, a_tag a)"
  define s1 where "s1 = upsert_shadow_if_absent now ?key s"
  define ar :: anchor_row where "ar = \<lparr>a_obj = ?key, a_inode = as_i64 inode, a_tag = uint tag,
     a_cascade = (if get_item_state ?key s1 = Some ''present'' then ''Materializing'' else ''Pending''),
     a_created = as_i64 now\<rparr>"
  define s2 where "s2 = s1\<lparr>fs_anchors := insert_or_ignore ?akey ar (fs_anchors s1)\<rparr>"
  define t where "t = (if ?akey ar \<notin> ?akey ` set (fs_anchors s1)
      then upd_obj ?key (\<lambda>r. r\<lparr>o_fs_count := o_fs_count r + 1\<rparr>) s2 else s2)"
  have acq: "fs_acquire E now oid inode tag s = refresh E now oid t"
    unfolding fs_acquire_def Let_def refresh_def t_def s2_def ar_def s1_def by simp
  have wf1: "db_wf E s1" and row1: "row_ok now ?key s1" "obj_row ?key s1 \<noteq> None"
    using db_invD(1,3) [OF inv] by (simp_all add: s1_def db_wf_shadow row_ok_shadow)
  show ?thesis
    unfolding acq
  proof (rule db_inv_refreshI [OF inv])
    fix k assume "k \<noteq> ?key"
    then show "same_key k s t"
      by (auto simp: same_key_def t_def s2_def s1_def obj_row_shadow obj_row_upd_obj ar_def
          intro!: row_simps)
  next
    obtain r where r: "obj_row ?key s1 = Some r" using row1(2) by auto
    then have "o_fs_count r = anchor_rows ?key s1" using row1(1) by (simp add: row_ok_def)
    then show "row_ok now ?key t"
      by (intro row_ok_fs_count [OF r row1(1), where n = "anchor_rows ?key t"])
        (auto simp: t_def s2_def obj_row_upd_obj r anchor_rows_def insert_or_ignore_def ar_def)
  next
    have "db_wf E s2"
      using wf1 id_textI [OF E oid]
      by (auto simp: s2_def db_wf_def ar_def sql_simps distinct_insert_or_ignore)
    then show "db_wf E t"
      by (simp add: t_def db_wf_upd_obj)
  qed
qed

lemma db_wf_delete_anchors:
  "db_wf E s \<Longrightarrow> db_wf E (s\<lparr>fs_anchors := sql_delete q (fs_anchors s)\<rparr>)"
  by (auto simp: db_wf_def sql_simps distinct_map_sql_delete)

lemma same_key_delete_anchors:
  assumes "\<And>a. a \<in> set (fs_anchors s) \<Longrightarrow> q a \<Longrightarrow> a_obj a \<noteq> k"
  shows "same_key k s (s\<lparr>fs_anchors := sql_delete q (fs_anchors s)\<rparr>)"
  using assms by (auto simp: same_key_def sql_delete_def intro!: filter_cong)

lemma anchor_key_count:
  assumes "distinct (map (\<lambda>a. (a_obj a, a_inode a, a_tag a)) t)"
  shows "sql_count (\<lambda>a. a_obj a = k \<and> a_inode a = i \<and> a_tag a = g) t \<le> 1"
  using assms
proof (induction t)
  case (Cons a t)
  show ?case
  proof (cases "a_obj a = k \<and> a_inode a = i \<and> a_tag a = g")
    case True
    with Cons.prems have "sql_count (\<lambda>a. a_obj a = k \<and> a_inode a = i \<and> a_tag a = g) t = 0"
      by (auto simp: sql_count_zero image_iff)
    with True show ?thesis by (simp add: sql_count_def)
  next
    case False
    then have "sql_count (\<lambda>a. a_obj a = k \<and> a_inode a = i \<and> a_tag a = g) (a # t) =
        sql_count (\<lambda>a. a_obj a = k \<and> a_inode a = i \<and> a_tag a = g) t"
      unfolding sql_count_def by auto
    with Cons show ?thesis by simp
  qed
qed (simp add: sql_count_def)

lemma db_inv_fs_release:
  assumes inv: "db_inv E now s"
  shows "db_inv E now (fs_release E now oid inode tag s)"
proof -
  let ?key = "obj_id_to_string E oid"
  let ?p = "\<lambda>a. a_obj a = ?key \<and> a_inode a = as_i64 inode \<and> a_tag a = uint tag"
  let ?s1 = "s\<lparr>fs_anchors := sql_delete ?p (fs_anchors s)\<rparr>"
  define d where "d = sql_count ?p (fs_anchors s)"
  define t where "t = (if 0 < d then upd_obj ?key (\<lambda>r. r\<lparr>o_fs_count := max 0 (o_fs_count r - 1)\<rparr>) ?s1 else ?s1)"
  have rel: "fs_release E now oid inode tag s = refresh E now oid t"
    by (simp add: fs_release_def Let_def refresh_def t_def d_def)
  have rows: "anchor_rows ?key t = anchor_rows ?key s - d"
    by (simp add: t_def d_def anchor_rows_def sql_count_delete_split)
  have d: "0 \<le> d" "d \<le> 1" "d \<le> anchor_rows ?key s"
    using anchor_key_count [OF db_wfD(3) [OF db_invD(1) [OF inv]]] rows
      sql_count_nonneg [of "\<lambda>a. a_obj a = ?key" "fs_anchors t"]
    by (simp_all add: d_def anchor_rows_def)
  show ?thesis
    unfolding rel
  proof (rule db_inv_refreshI [OF inv])
    fix k assume "k \<noteq> ?key"
    then show "same_key k s t"
      by (auto simp: t_def same_key_def obj_row_upd_obj intro!: row_simps)
  next
    show "row_ok now ?key t"
    proof (cases "obj_row ?key s")
      case None
      with db_invD(3) [OF inv, of ?key] d have "d = 0" "t = ?s1"
        by (simp_all add: row_ok_def t_def)
      with None db_invD(3) [OF inv, of ?key] rows show ?thesis
        by (simp add: row_ok_def query_iffs)
    next
      case (Some r)
      with db_invD(3) [OF inv, of ?key] have "o_fs_count r = anchor_rows ?key s"
        by (simp add: row_ok_def)
      with Some d rows show ?thesis
        by (intro row_ok_fs_count [OF Some db_invD(3) [OF inv], where n = "anchor_rows ?key t"])
          (auto simp: t_def obj_row_upd_obj)
    qed
  next
    show "db_wf E t"
      using db_invD(1) [OF inv] by (simp add: t_def db_wf_upd_obj db_wf_delete_anchors)
  qed
qed

definition drop_counts :: "u64 \<Rightarrow> string \<Rightarrow> db \<Rightarrow> db" where
  "drop_counts inode key t =
     upd_obj key (\<lambda>r. r\<lparr>o_fs_count :=
       max 0 (o_fs_count r - sql_count (\<lambda>a. a_obj a = key \<and> a_inode a = as_i64 inode) (fs_anchors t))\<rparr>) t"

lemma fold_drop_counts:
  assumes "distinct ids"
  shows "fs_anchors (fold (drop_counts inode) ids s) = fs_anchors s"
    and "pins (fold (drop_counts inode) ids s) = pins s"
    and "incoming_refs (fold (drop_counts inode) ids s) = incoming_refs s"
    and "db_wf E (fold (drop_counts inode) ids s) = db_wf E s"
    and "obj_row k (fold (drop_counts inode) ids s) =
           (if k \<in> set ids then map_option (\<lambda>r. r\<lparr>o_fs_count := max 0 (o_fs_count r -
              sql_count (\<lambda>a. a_obj a = k \<and> a_inode a = as_i64 inode) (fs_anchors s))\<rparr>) (obj_row k s)
            else obj_row k s)"
proof -
  have tab: "fs_anchors (drop_counts inode key t) = fs_anchors t" "pins (drop_counts inode key t) = pins t"
    "incoming_refs (drop_counts inode key t) = incoming_refs t"
    "db_wf E (drop_counts inode key t) = db_wf E t" for key t
    by (simp_all add: drop_counts_def db_wf_upd_obj)
  show "fs_anchors (fold (drop_counts inode) ids s) = fs_anchors s"
    "pins (fold (drop_counts inode) ids s) = pins s"
    "incoming_refs (fold (drop_counts inode) ids s) = incoming_refs s"
    "db_wf E (fold (drop_counts inode) ids s) = db_wf E s"
    by (induction ids arbitrary: s) (simp_all add: tab)
  show "obj_row k (fold (drop_counts inode) ids s) =
           (if k \<in> set ids then map_option (\<lambda>r. r\<lparr>o_fs_count := max 0 (o_fs_count r -
              sql_count (\<lambda>a. a_obj a = k \<and> a_inode a = as_i64 inode) (fs_anchors s))\<rparr>) (obj_row k s)
            else obj_row k s)"
    using assms
    by (induction ids arbitrary: s) (auto simp: tab drop_counts_def obj_row_upd_obj)
qed

lemma db_inv_fs_release_inode:
  assumes inv: "db_inv E now s"
  shows "db_inv E now (snd (fs_release_inode E now inode s))"
proof -
  let ?q = "\<lambda>a. a_inode a = as_i64 inode"
  define ids where "ids = remdups (map a_obj (filter ?q (fs_anchors s)))"
  define s1 where "s1 = fold (drop_counts inode) ids s"
  define t where "t = s1\<lparr>fs_anchors := sql_delete ?q (fs_anchors s1)\<rparr>"
  have "distinct ids" by (simp add: ids_def)
  note cnt = fold_drop_counts [OF this, where inode = inode and s = s, folded s1_def]
  have op: "snd (fs_release_inode E now inode s) = fold (refresh_key E now) ids t"
    unfolding fs_release_inode_def Let_def t_def s1_def ids_def drop_counts_def by simp
  have tq: "has_active_pin now k t = has_active_pin now k s" "has_incoming k t = has_incoming k s" for k
    by (simp_all add: t_def query_iffs cnt)
  have rows: "anchor_rows k t = anchor_rows k s - sql_count (\<lambda>a. a_obj a = k \<and> ?q a) (fs_anchors s)" for k
    by (simp add: t_def cnt anchor_rows_def sql_count_delete_split)
  have pos: "0 \<le> anchor_rows k t" for k
    by (simp add: anchor_rows_def)
  show ?thesis
    unfolding op
  proof (rule db_inv_refresh_keys)
    fix k assume "k \<in> set ids"
    then show "id_text E k"
      using db_wfD(5) [OF db_invD(1) [OF inv]] by (auto simp: ids_def)
    show "row_ok now k t"
    proof (cases "obj_row k s")
      case None
      with db_invD(3) [OF inv, of k] have "anchor_rows k s = 0" by (simp add: row_ok_def)
      with pos [of k] rows [of k] have "anchor_rows k t = 0"
        using sql_count_nonneg [of "\<lambda>a. a_obj a = k \<and> ?q a" "fs_anchors s"] by linarith
      with None db_invD(3) [OF inv, of k] show ?thesis
        by (auto simp: row_ok_def t_def cnt query_iffs)
    next
      case (Some r)
      with db_invD(3) [OF inv, of k] have "o_fs_count r = anchor_rows k s" by (simp add: row_ok_def)
      with pos [of k] rows [of k] \<open>k \<in> set ids\<close> Some show ?thesis
        by (intro row_ok_fs_count [OF Some db_invD(3) [OF inv], where n = "anchor_rows k t"])
          (simp_all add: t_def cnt)
    qed
  next
    fix k assume k: "k \<notin> set ids"
    then have "same_key k s t"
      by (auto simp: same_key_def t_def cnt ids_def sql_delete_def intro!: filter_cong)
    then show "key_ok now k t"
      using key_ok_frame(1) db_invD(2) [OF inv] by blast
  next
    have "db_wf E s1" using db_invD(1) [OF inv] by (simp add: cnt)
    then show "db_wf E t" unfolding t_def by (rule db_wf_delete_anchors)
  qed (simp add: ids_def)
qed

lemma row_ok_incoming:
  assumes "row_ok now k s" and "obj_row k s \<noteq> None"
  shows "row_ok now k (s\<lparr>incoming_refs := x\<rparr>)"
  by (rule row_ok_by [OF assms(1)]) (use assms in \<open>simp_all add: anchor_rows_def\<close>)

lemma db_inv_apply_edge:
  assumes inv: "db_inv E now s"
  shows "db_inv E now (apply_edge E now msg s)"
proof -
  let ?key = "obj_id_to_string E (em_referee msg)"
  define s1 where "s1 = upsert_shadow_if_absent now ?key s"
  have wf1: "db_wf E s1" and row1: "row_ok now ?key s1" "obj_row ?key s1 \<noteq> None"
    using db_invD(1,3) [OF inv] by (simp_all add: s1_def db_wf_shadow row_ok_shadow)
  define refs where "refs = (case em_op msg of
      EdgeAdd \<Rightarrow> insert_or_ignore (\<lambda>r. (r_referee r, r_referrer r))
        \<lparr>r_referee = ?key, r_referrer = obj_id_to_string E (em_referrer msg),
         r_epoch = as_i64 (em_target_epoch msg), r_created = as_i64 now\<rparr> (incoming_refs s1)
    | EdgeRemove \<Rightarrow> sql_delete (\<lambda>r. r_referee r = ?key \<and>
        r_referrer r = obj_id_to_string E (em_referrer msg)) (incoming_refs s1))"
  have op: "apply_edge E now msg s = refresh E now (em_referee msg) (s1\<lparr>incoming_refs := refs\<rparr>)"
    unfolding apply_edge_def Let_def refresh_def refs_def s1_def by (cases "em_op msg") simp_all
  show ?thesis
    unfolding op
  proof (rule db_inv_refreshI [OF inv])
    fix k assume "k \<noteq> ?key"
    then show "same_key k s (s1\<lparr>incoming_refs := refs\<rparr>)"
      by (auto simp: same_key_def s1_def obj_row_shadow refs_def split: edge_op.splits intro!: row_simps)
  next
    show "row_ok now ?key (s1\<lparr>incoming_refs := refs\<rparr>)"
      using row1 by (rule row_ok_incoming)
  next
    have "distinct (map (\<lambda>r. (r_referee r, r_referrer r)) refs)"
      using wf1 by (simp add: refs_def db_wf_def distinct_map_sql_delete distinct_insert_or_ignore
          split: edge_op.splits)
    with wf1 show "db_wf E (s1\<lparr>incoming_refs := refs\<rparr>)" by (simp add: db_wf_def)
  qed
qed

lemma db_inv_remove_chunk:
  assumes inv: "db_inv E now s"
  shows "db_inv E now (remove_chunk_db E c s)" (is "db_inv E now ?t")
proof -
  let ?c = "chunk_to_string E c"
  have "has_incoming k ?t \<Longrightarrow> has_incoming k s" for k
    by (auto simp: has_incoming_iff remove_chunk_db_def sql_delete_def filter_empty_conv)
  moreover have "obj_row k ?t = obj_row k s" "has_active_pin now k ?t = has_active_pin now k s"
    "has_recursive_pin now k ?t = has_recursive_pin now k s" "anchor_rows k ?t = anchor_rows k s"
    "no_skeleton_row k ?t = no_skeleton_row k s" for k
    by (simp_all add: remove_chunk_db_def query_iffs obj_row_def)
  ultimately have "key_ok now k ?t" for k
    using db_invD(2) [OF inv, of k]
    by (auto simp: key_ok_def row_ok_def row_synced_def split: option.splits)
  moreover have "db_wf E ?t"
    using db_invD(1) [OF inv]
    by (simp add: db_wf_def remove_chunk_db_def distinct_map_sql_delete)
  ultimately show ?thesis by (simp add: db_inv_def)
qed

lemma protected_has_row:
  assumes "db_inv E now s" and "protected now key s"
  obtains r where "obj_row key s = Some r" and "1 \<le> o_class r"
proof -
  have row: "row_ok now key s" and sync: "row_synced now key s"
    using db_invD [OF assms(1)] by simp_all
  obtain r where r: "obj_row key s = Some r"
    using row assms(2)
    by (cases "obj_row key s") (auto simp: protected_def row_ok_def get_fs_anchor_count_def)
  with sync assms(2) have "1 \<le> o_class r"
    by (auto simp: protected_def row_synced_def get_fs_anchor_count_def)
  with r that show ?thesis by blast
qed

lemma db_inv_evict:
  assumes inv: "db_inv E now s" and np: "\<not> protected now key s"
    and cs: "distinct (map c_id cs)"
  shows "db_inv E now (s\<lparr>objects := sql_delete (\<lambda>r. o_id r = key) (objects s), chunk_items := cs\<rparr>)"
    (is "db_inv E now ?t")
proof -
  have rows: "obj_row k ?t = (if k = key then None else obj_row k s)" for k
    using obj_row_delete [of k key s] by (simp add: obj_row_def)
  have "key_ok now k ?t" for k
  proof (cases "k = key")
    case False
    then have "same_key k s ?t" using rows [of k] by (simp add: same_key_def)
    then show ?thesis using key_ok_frame(1) db_invD(2) [OF inv] by blast
  next
    case True
    have q: "has_active_pin now k ?t = has_active_pin now k s" "has_incoming k ?t = has_incoming k s"
      "anchor_rows k ?t = anchor_rows k s"
      by (simp_all add: queries_by_tables [of ?t s])
    have "get_fs_anchor_count k s = anchor_rows k s"
      using db_invD(3) [OF inv, of k]
      by (auto simp: row_ok_def get_fs_anchor_count_def split: option.splits)
    moreover have "0 \<le> anchor_rows k s" by (simp add: anchor_rows_def)
    ultimately have "anchor_rows k s = 0" using np True by (simp add: protected_def)
    with np True show ?thesis
      unfolding key_ok_def row_ok_def row_synced_def rows q by (simp add: protected_def)
  qed
  moreover have "db_wf E ?t"
    using db_invD(1) [OF inv] cs by (simp add: db_wf_def distinct_map_sql_delete)
  ultimately show ?thesis by (simp add: db_inv_def)
qed

lemma db_inv_remove_object:
  assumes "db_inv E now s" and "\<not> protected now (obj_id_to_string E oid) s"
  shows "db_inv E now (remove_object E oid s)"
  using db_inv_evict [OF assms, of "chunk_items s"] db_invD(1) [OF assms(1)]
  by (simp add: remove_object_def db_wf_def)

lemma db_inv_recompute_protected:
  assumes inv: "db_inv E now s" and pr: "protected now key s"
  shows "db_inv E now (recompute_eviction_class now key s)" (is "db_inv E now ?t")
proof -
  have "key_ok now k ?t" for k
  proof (cases "k = key")
    case False
    then have "same_key k s ?t" by (simp add: same_key_def obj_row_recompute)
    then show ?thesis using key_ok_frame(1) db_invD(2) [OF inv] by blast
  next
    case True
    from protected_has_row [OF inv pr] obtain r where r: "obj_row key s = Some r" .
    have q: "has_active_pin now k ?t = has_active_pin now k s" "has_incoming k ?t = has_incoming k s"
      "has_recursive_pin now k ?t = has_recursive_pin now k s"
      "no_skeleton_row k ?t = no_skeleton_row k s" "anchor_rows k ?t = anchor_rows k s"
      by (simp_all add: queries_by_tables [of ?t s])
    show ?thesis
      using db_invD(2) [OF inv, of k] pr True r
      unfolding key_ok_def row_ok_def row_synced_def q obj_row_recompute protected_def
      by (auto simp: get_fs_anchor_count_def)
  qed
  then show ?thesis
    using db_invD(1) [OF inv] by (simp add: db_inv_def db_wf_recompute)
qed

lemma try_evict_cases:
  "try_evict_object now key s =
     (if protected now key s then (0, recompute_eviction_class now key s)
      else (as_u64 (case obj_row key s of None \<Rightarrow> 0 | Some r \<Rightarrow> o_owned r),
            s\<lparr>objects := sql_delete (\<lambda>r. o_id r = key) (objects s),
              chunk_items := sql_delete (\<lambda>r. c_id r = key) (chunk_items s)\<rparr>))"
  by (simp add: try_evict_object_def protected_def)

lemma db_inv_try_evict:
  assumes "db_inv E now s"
  shows "db_inv E now (snd (try_evict_object now key s))"
  using db_inv_evict [OF assms] db_inv_recompute_protected [OF assms] db_invD(1) [OF assms]
  by (simp add: try_evict_cases db_wf_def distinct_map_sql_delete)

lemmas db_inv_ops = db_inv_tick db_inv_put db_inv_pin db_inv_unpin db_inv_unpin_owner
  db_inv_expire_pins db_inv_fs_acquire db_inv_fs_release db_inv_fs_release_inode db_inv_apply_edge
  db_inv_complete db_inv_retry db_inv_try_evict db_inv_touch db_inv_set_chunk db_inv_remove_chunk
  db_inv_remove_object

lemma db_step_inv:
  assumes "db_step E c c'" and "hex_laws E" and "db_inv E (fst c) (snd c)"
  shows "db_inv E (fst c') (snd c')"
  using assms(1,3)
  by cases (auto intro: db_inv_ops assms(2))

lemma reachable_db_inv:
  assumes "reachable E c" and "hex_laws E"
  shows "db_inv E (fst c) (snd c)"
  using assms(1)
  by induction (auto simp: db_inv_empty intro: db_step_inv [OF _ assms(2)])

end
