(* ===== verification/Store_Db_Props.thy ===== *)
theory Store_Db_Props
  imports Store_Db_Inv
begin

text \<open>
  What the methods of \<open>NamedLocalStoreDB\<close> promise to the garbage collector and to readers: the
  invariant of reachable states, eviction, the candidate list, object and chunk-item round trips,
  pins and file-system anchors, the outbox, and what \<open>remove_object\<close> breaks.
\<close>

section \<open>Sample states\<close>

text \<open>Two reachable states at which the properties are evaluated.\<close>

definition demo_id :: obj_id where
  "demo_id = new_by_raw ''cyfile'' [1]"

definition demo_anchored :: db where
  "demo_anchored = fs_acquire inst_crates 5 demo_id 7 0 empty_db"

definition demo_db :: db where
  "demo_db = snd (put_object_in_tx inst_crates 5 demo_id ''cyfile'' ''sha256:02'' 9 9 demo_anchored)"

definition demo_free :: db where
  "demo_free = snd (put_object_in_tx inst_crates 5 demo_id ''cyfile'' ''sha256:02'' 9 9 empty_db)"

lemma demo_api: "api_id demo_id"
  by (simp add: api_id_def demo_id_def new_by_raw_def)

lemma demo_anchored_reachable: "reachable inst_crates (5, demo_anchored)"
  unfolding demo_anchored_def
  by (rule reachable.step [OF reachable.init]) (rule db_step.fs_acquire, rule demo_api)

lemma demo_db_reachable: "reachable inst_crates (5, demo_db)"
  unfolding demo_db_def
  by (rule reachable.step [OF demo_anchored_reachable]) (rule db_step.put, rule demo_api)

lemma demo_free_reachable: "reachable inst_crates (5, demo_free)"
  unfolding demo_free_def
  by (rule reachable.step [OF reachable.init]) (rule db_step.put, rule demo_api)

section \<open>The invariant\<close>

text \<open>\<^bold>\<open>C21.\<close> In every state that the methods of the database can reach under a clock that does not go
  back, with \<open>remove_object\<close> called only for objects that have no live pin, no incoming reference and
  no anchor (for an anchored object it breaks the invariant, \<open>remove_object_loses_anchors\<close>): primary keys are unique and outbox numbers increase; an object's
  \<open>fs_anchor_count\<close> is the number of its rows in \<open>fs_anchors\<close>; an object with a live pin or an anchor
  has eviction class 2 and one with an incoming reference at least class 1; an object without a row
  has none of the three; an object of class 0 or in state shadow has no expanded children; and a
  present object that is anchored, referenced or recursively pinned, with no skeleton pin, has its
  children expanded.\<close>

theorem reachable_invariant:
  assumes "reachable E (now, s)" and "hex_laws E"
  shows "db_inv E now s"
  using reachable_db_inv [OF assms] by simp

theorem reachable_invariant_witness: "db_inv inst_crates 5 demo_db"
  by (rule reachable_invariant [OF demo_db_reachable inst_hex_laws])

section \<open>Eviction\<close>

lemma filter_delete_other:
  "find (\<lambda>r. c_id r = k) (sql_delete (\<lambda>r. c_id r = key) t) =
     (if k = key then None else find (\<lambda>r. c_id r = k) t)"
  by (induction t) (auto simp: sql_delete_def)

text \<open>\<^bold>\<open>C26.\<close> \<open>try_evict_object\<close> never removes a protected object and never touches any other: if the
  object has a live pin, an incoming reference or a positive anchor count it frees 0 bytes and only
  the eviction class in its row may change; otherwise its row and its chunk item are gone, the bytes
  reported are its \<open>owned_bytes\<close> (0 without a row), and the rows of all other keys stay.  Pins,
  anchors, references and the outbox are never changed.\<close>

theorem try_evict_object_spec:
  "case try_evict_object now key s of (freed, t) \<Rightarrow>
     pins t = pins s \<and> fs_anchors t = fs_anchors s \<and> incoming_refs t = incoming_refs s \<and>
     edge_outbox t = edge_outbox s \<and>
     (\<forall>k. k \<noteq> key \<longrightarrow> obj_row k t = obj_row k s \<and>
        find (\<lambda>r. c_id r = k) (chunk_items t) = find (\<lambda>r. c_id r = k) (chunk_items s)) \<and>
     (if has_active_pin now key s \<or> has_incoming key s \<or> 0 < get_fs_anchor_count key s
      then freed = 0 \<and> chunk_items t = chunk_items s \<and>
        (\<exists>c. obj_row key t = map_option (\<lambda>r. r\<lparr>o_class := c\<rparr>) (obj_row key s))
      else freed = as_u64 (case obj_row key s of None \<Rightarrow> 0 | Some r \<Rightarrow> o_owned r) \<and>
        obj_row key t = None \<and> find (\<lambda>r. c_id r = key) (chunk_items t) = None)"
proof (cases "protected now key s")
  case True
  then show ?thesis
    unfolding try_evict_cases protected_def
    by (auto simp: obj_row_recompute)
next
  case False
  have "obj_row k (s\<lparr>objects := sql_delete (\<lambda>r. o_id r = key) (objects s),
      chunk_items := x\<rparr>) = (if k = key then None else obj_row k s)" for k x
    using obj_row_delete [of k key s] by (simp add: obj_row_def)
  with False show ?thesis
    unfolding try_evict_cases protected_def
    by (simp add: filter_delete_other)
qed

theorem try_evict_object_spec_witness:
  "fst (try_evict_object 5 ''cyfile:01'' demo_free) = 9 \<and>
   obj_row ''cyfile:01'' (snd (try_evict_object 5 ''cyfile:01'' demo_free)) = None \<and>
   fst (try_evict_object 5 ''cyfile:01'' demo_db) = 0 \<and>
   obj_row ''cyfile:01'' (snd (try_evict_object 5 ''cyfile:01'' demo_db)) \<noteq> None"
proof -
  have f: "\<not> (has_active_pin 5 ''cyfile:01'' demo_free \<or> has_incoming ''cyfile:01'' demo_free \<or>
      0 < get_fs_anchor_count ''cyfile:01'' demo_free)"
    "as_u64 (case obj_row ''cyfile:01'' demo_free of None \<Rightarrow> 0 | Some r \<Rightarrow> o_owned r) = 9"
    by code_simp+
  have d: "0 < get_fs_anchor_count ''cyfile:01'' demo_db" "obj_row ''cyfile:01'' demo_db \<noteq> None"
    by code_simp+
  show ?thesis
    using try_evict_object_spec [where now = 5 and key = "''cyfile:01''" and s = demo_free]
      try_evict_object_spec [where now = 5 and key = "''cyfile:01''" and s = demo_db] f d
    by (auto split: prod.splits)
qed

text \<open>The candidate list.\<close>

lemma take_sort_key_sorted: "sorted (map f (take n (sort_key f xs)))"
  by (simp add: take_map [symmetric] sorted_wrt_take)

lemma table_row_obj_row:
  assumes "db_wf E s" and "r \<in> set (objects s)"
  shows "obj_row (o_id r) s = Some r"
proof -
  have "distinct (map o_id t) \<Longrightarrow> r \<in> set t \<Longrightarrow> find (\<lambda>x. o_id x = o_id r) t = Some r" for t
    by (induction t) (force simp: image_iff)+
  with assms show ?thesis by (simp add: obj_row_def db_wf_def)
qed

lemma obj_row_table: "obj_row k s = Some r \<Longrightarrow> r \<in> set (objects s) \<and> o_id r = k"
  by (auto simp: obj_row_def find_Some_iff)

lemma class0_unprotected:
  assumes "db_inv E now s" and "obj_row k s = Some r" and "o_class r = 0"
  shows "\<not> protected now k s" and "o_expanded r = 0"
  using protected_has_row [OF assms(1)] assms db_invD(4) [OF assms(1), of k]
  by (fastforce simp: row_synced_def)+

lemma candidate_rows:
  "\<exists>rs. list_gc_candidates limit s = map (\<lambda>r. (o_id r, as_u64 (o_owned r))) rs \<and>
     set rs \<subseteq> {r \<in> set (objects s). gc_candidate r} \<and> sorted (map o_access rs) \<and>
     length rs = min limit (length (filter gc_candidate (objects s)))"
  unfolding list_gc_candidates_def
  by (rule exI [where x = "take limit (sort_key o_access (filter gc_candidate (objects s)))"])
    (auto simp: take_sort_key_sorted dest: in_set_takeD)

text \<open>In every reachable state the list of eviction candidates is safe and ordered: it consists of
  rows of present objects that own bytes, in ascending order of last access, as many as there are up
  to the limit; each of them is unprotected at that moment and has no expanded children, so that
  evicting it frees its bytes and strands no reference on its children.\<close>

theorem list_gc_candidates_safe:
  assumes "reachable E (now, s)" and "hex_laws E"
  shows "\<exists>rs. list_gc_candidates limit s = map (\<lambda>r. (o_id r, as_u64 (o_owned r))) rs \<and>
           sorted (map o_access rs) \<and>
           length rs = min limit (length (filter gc_candidate (objects s))) \<and>
           (\<forall>r \<in> set rs. obj_row (o_id r) s = Some r \<and> o_state r = ''present'' \<and> 0 < o_owned r \<and>
              o_expanded r = 0 \<and> \<not> has_active_pin now (o_id r) s \<and> \<not> has_incoming (o_id r) s \<and>
              get_fs_anchor_count (o_id r) s \<le> 0)"
proof -
  have inv: "db_inv E now s" using reachable_db_inv [OF assms] by simp
  obtain rs where rs: "list_gc_candidates limit s = map (\<lambda>r. (o_id r, as_u64 (o_owned r))) rs"
    "sorted (map o_access rs)" "length rs = min limit (length (filter gc_candidate (objects s)))"
    "set rs \<subseteq> {r \<in> set (objects s). gc_candidate r}"
    using candidate_rows [of limit s] by (elim exE conjE) blast
  have "obj_row (o_id r) s = Some r \<and> o_state r = ''present'' \<and> 0 < o_owned r \<and>
      o_expanded r = 0 \<and> \<not> has_active_pin now (o_id r) s \<and> \<not> has_incoming (o_id r) s \<and>
      get_fs_anchor_count (o_id r) s \<le> 0" if "r \<in> set rs" for r
  proof -
    have r: "r \<in> set (objects s)" "gc_candidate r" using that rs(4) by auto
    have row: "obj_row (o_id r) s = Some r"
      using table_row_obj_row [OF db_invD(1) [OF inv] r(1)] .
    show ?thesis
      using row r(2) class0_unprotected [OF inv row] by (auto simp: gc_candidate_def protected_def)
  qed
  with rs show ?thesis by blast
qed

theorem list_gc_candidates_safe_witness:
  "list_gc_candidates 10 demo_free = [(''cyfile:01'', 9)] \<and> \<not> has_incoming ''cyfile:01'' demo_free"
proof -
  have c: "list_gc_candidates 10 demo_free = [(''cyfile:01'', 9)]" by code_simp
  obtain rs :: "object_row list" where rs: "list_gc_candidates 10 demo_free = map (\<lambda>r. (o_id r, as_u64 (o_owned r))) rs"
    and safe: "\<forall>r \<in> set rs. \<not> has_incoming (o_id r) demo_free"
    using list_gc_candidates_safe [OF demo_free_reachable inst_hex_laws, of 10] by blast
  from rs c obtain r where "rs = [r]" "o_id r = ''cyfile:01''" by auto
  with c safe show ?thesis by simp
qed

section \<open>Content of objects\<close>

text \<open>What a reader can get for a key.\<close>

definition content :: "string \<Rightarrow> db \<Rightarrow> (string \<times> string) option" where
  "content k s = (case obj_row k s of None \<Rightarrow> None
     | Some r \<Rightarrow> if o_state r = ''shadow'' then None else Some (o_type r, o_data r))"

lemma get_object_content: "get_object E oid s = Ok c \<longleftrightarrow> content (obj_id_to_string E oid) s = Some c"
  by (auto simp: get_object_def content_def split: option.splits)

lemma content_row:
  assumes "obj_row k t = map_option f (obj_row k s)"
    and "\<And>r. (o_type (f r), o_data (f r), o_state (f r)) = (o_type r, o_data r, o_state r)"
  shows "content k t = content k s"
  using assms by (auto simp: content_def split: option.splits)

lemma content_same: "obj_row k t = obj_row k s \<Longrightarrow> content k t = content k s"
  by (simp add: content_def)

lemma content_upd_obj:
  assumes "\<And>r. o_id (f r) = o_id r"
    and "\<And>r. (o_type (f r), o_data (f r), o_state (f r)) = (o_type r, o_data r, o_state r)"
  shows "content k (upd_obj key f s) = content k s"
  using content_row [OF _ assms(2), of k "upd_obj key f s" s] content_same [of k "upd_obj key f s" s]
  by (cases "k = key") (simp_all add: obj_row_upd_obj assms(1))

lemma content_tables [simp]:
  "content k (s\<lparr>pins := a\<rparr>) = content k s" "content k (s\<lparr>incoming_refs := b\<rparr>) = content k s"
  "content k (s\<lparr>fs_anchors := c\<rparr>) = content k s" "content k (s\<lparr>chunk_items := d\<rparr>) = content k s"
  "content k (s\<lparr>edge_outbox := e\<rparr>) = content k s"
  by (simp_all add: content_def)

lemma content_recompute [simp]: "content k (recompute_eviction_class now key s) = content k s"
  by (simp add: recompute_eviction_class_def Let_def content_upd_obj)

lemma content_enqueue [simp]: "content k (enqueue_edges now op cs ref s) = content k s"
  by (rule content_same) simp

lemma content_reconcile [simp]: "content k (reconcile_expand_state E now oid s) = content k s"
  by (simp add: reconcile_expand_state_def Let_def set_expanded_def content_upd_obj)

lemma content_shadow [simp]: "content k (upsert_shadow_if_absent now key s) = content k s"
  by (auto simp: content_def obj_row_shadow shadow_row_def)

lemma content_refresh_key [simp]: "content k (refresh_key E now key s) = content k s"
  by (simp add: refresh_key_def Let_def split: sum.split)

lemma content_fold:
  "(\<And>x t. content k (f x t) = content k t) \<Longrightarrow> content k (fold f xs s) = content k s"
  by (induction xs arbitrary: s) simp_all

lemma content_anchor_ops:
  "content k (pin E now oid owner scope ttl s) = content k s"
  "content k (unpin E now oid owner s) = content k s"
  "content k (snd (unpin_owner E now owner s)) = content k s"
  "content k (snd (expire_pins E now s)) = content k s"
  "content k (fs_acquire E now oid inode tag s) = content k s"
  "content k (fs_release E now oid inode tag s) = content k s"
  "content k (snd (fs_release_inode E now inode s)) = content k s"
  "content k (apply_edge E now msg s) = content k s"
  by (simp_all add: pin_def unpin_def unpin_owner_def expire_pins_def fs_acquire_def fs_release_def
      fs_release_inode_def apply_edge_def Let_def content_upd_obj content_fold split: edge_op.split)

lemma content_touch: "content k (batch_touch_last_access_with_max items s) = content k s"
  unfolding batch_touch_last_access_with_max_def
  by (rule content_fold) (auto simp: content_upd_obj split: prod.splits)

lemma content_other_ops:
  "content k (complete_outbox_entry seq s) = content k s"
  "content k (retry_outbox_entry now seq s) = content k s"
  "content k (set_chunk_item E it s) = content k s"
  "content k (remove_chunk_db E c s) = content k s"
  by (simp_all add: complete_outbox_entry_def retry_outbox_entry_def set_chunk_item_def
      remove_chunk_db_def content_def obj_row_def)

lemma put_other_row:
  assumes "k \<noteq> obj_id_to_string E oid"
  shows "obj_row k (snd (put_object_in_tx E now oid ty data logical owned s)) = obj_row k s"
  using assms
  by (simp add: put_object_in_tx_def Let_def obj_row_upd_obj obj_row_reconcile_other
      obj_row_recompute promote_anchor_cascade_state_def obj_row_insert_or_replace present_row_def)

lemma content_put_other:
  assumes "k \<noteq> obj_id_to_string E oid"
  shows "content k (snd (put_object_in_tx E now oid ty data logical owned s)) = content k s"
  by (rule content_same) (rule put_other_row [OF assms])

lemma content_put:
  "content (obj_id_to_string E oid) (snd (put_object_in_tx E now oid ty data logical owned s)) =
     (if get_item_state (obj_id_to_string E oid) s = Some ''present''
      then content (obj_id_to_string E oid) s else Some (ty, data))"
proof (cases "obj_row (obj_id_to_string E oid) s")
  case None
  then show ?thesis
    by (simp add: put_object_in_tx_def get_item_state_def)
      (simp add: content_def obj_row_insert_or_replace present_row_def)
next
  case (Some r)
  then show ?thesis
    by (simp add: put_object_in_tx_def get_item_state_def Let_def promote_anchor_cascade_state_def
        content_upd_obj)
      (simp add: content_def obj_row_upd_obj obj_row_insert_or_replace present_row_def)
qed

text \<open>Put and get: after \<open>put_object_gc_aware\<close> the object reads back with the type and text
  that were put, unless it was already present, in which case the first content stays (and
  \<open>put_object_in_tx\<close> reports that nothing changed); what any other identifier reads is unaffected.\<close>

theorem put_get_object:
  assumes "hex_laws E"
  shows "let t = put_object_gc_aware E now oid ty data s; key = obj_id_to_string E oid in
     (get_item_state key s \<noteq> Some ''present'' \<longrightarrow> get_object E oid t = Ok (ty, data)) \<and>
     (get_item_state key s = Some ''present'' \<longrightarrow> get_object E oid t = get_object E oid s \<and>
        fst (put_object_in_tx E now oid ty data logical owned s) = False) \<and>
     (\<forall>o'. o' \<noteq> oid \<longrightarrow> get_object E o' t = get_object E o' s)"
proof -
  let ?t = "put_object_gc_aware E now oid ty data s"
  have a: "get_item_state (obj_id_to_string E oid) s \<noteq> Some ''present'' \<longrightarrow>
      get_object E oid ?t = Ok (ty, data)"
    by (simp add: get_object_content put_object_gc_aware_def content_put)
  have b: "get_object E oid ?t = get_object E oid s"
    if "get_item_state (obj_id_to_string E oid) s = Some ''present''"
  proof -
    from that obtain r where "obj_row (obj_id_to_string E oid) s = Some r" "o_state r = ''present''"
      by (auto simp: get_item_state_def)
    with that show ?thesis
      by (simp add: put_object_gc_aware_def put_object_in_tx_def get_object_def obj_row_upd_obj)
  qed
  have c: "get_object E o' ?t = get_object E o' s" if "o' \<noteq> oid" for o'
  proof -
    have "obj_id_to_string E o' \<noteq> obj_id_to_string E oid"
      using that obj_id_to_string_eq_iff [OF assms] by blast
    then have "obj_row (obj_id_to_string E o') ?t = obj_row (obj_id_to_string E o') s"
      by (simp add: put_object_gc_aware_def put_other_row)
    then show ?thesis by (simp add: get_object_def)
  qed
  from a b c show ?thesis
    by (simp add: Let_def put_object_in_tx_def)
qed

theorem put_get_object_witness:
  "get_object inst_crates demo_id (put_object_gc_aware inst_crates 5 demo_id ''cyfile'' ''ab'' demo_anchored)
     = Ok (''cyfile'', ''ab'') \<and>
   get_object inst_crates demo_id (put_object_gc_aware inst_crates 5 demo_id ''cyfile'' ''ab'' demo_db)
     = Ok (''cyfile'', ''sha256:02'')"
proof -
  have "get_item_state ''cyfile:01'' demo_anchored \<noteq> Some ''present''"
    "get_item_state ''cyfile:01'' demo_db = Some ''present''"
    "get_object inst_crates demo_id demo_db = Ok (''cyfile'', ''sha256:02'')"
    "obj_id_to_string inst_crates demo_id = ''cyfile:01''"
    by code_simp+
  then show ?thesis
    using put_get_object [OF inst_hex_laws, where now = 5 and oid = demo_id and ty = "''cyfile''"
        and data = "''ab''" and s = demo_anchored]
      put_get_object [OF inst_hex_laws, where now = 5 and oid = demo_id and ty = "''cyfile''"
        and data = "''ab''" and s = demo_db]
    by (simp add: Let_def)
qed

lemma try_evict_other_rows:
  "k \<noteq> key \<Longrightarrow> obj_row k (snd (try_evict_object now key s)) = obj_row k s"
  using obj_row_delete [of k key s]
  by (cases "protected now key s") (simp_all add: try_evict_cases obj_row_recompute)

lemma content_remove_object:
  "obj_id_to_string E oid \<noteq> k \<Longrightarrow> content k (remove_object E oid s) = content k s"
  by (rule content_same) (simp add: remove_object_def obj_row_delete)

text \<open>\<^bold>\<open>C24.\<close> Stored content is immutable and is lost only by eviction or removal: from a reachable state (as
  in C21), any operation, \<open>remove_object\<close> of whatever object included, keeps what every readable
  identifier reads, with two exceptions: a \<open>try_evict_object\<close> of that very object at a time when it has
  no live pin, no incoming reference and no anchor, and a \<open>remove_object\<close> of that very object.\<close>

theorem content_stable:
  assumes "reachable E (now, s)" and "hex_laws E"
    and "db_step E (now, s) (now', t) \<or> (\<exists>oid'. t = remove_object E oid' s)"
    and "get_object E oid s = Ok c"
  shows "get_object E oid t = Ok c \<or>
           t = remove_object E oid s \<or>
           t = snd (try_evict_object now (obj_id_to_string E oid) s) \<and>
           \<not> has_active_pin now (obj_id_to_string E oid) s \<and>
           \<not> has_incoming (obj_id_to_string E oid) s \<and>
           get_fs_anchor_count (obj_id_to_string E oid) s \<le> 0"
proof -
  let ?k = "obj_id_to_string E oid"
  have inv: "db_inv E now s" using reachable_db_inv [OF assms(1,2)] by simp
  have c: "content ?k s = Some c" using assms(4) by (simp add: get_object_content)
  then have present: "get_item_state ?k s = Some ''present''"
    using db_invD(3) [OF inv, of ?k]
    by (auto simp: content_def row_ok_def get_item_state_def split: option.splits)
  have removal: ?thesis if "t = remove_object E oid' s" for oid'
  proof (cases "obj_id_to_string E oid' = ?k")
    case True
    with that show ?thesis by (simp add: remove_object_def)
  next
    case False
    with that c show ?thesis by (simp add: get_object_content content_remove_object)
  qed
  show ?thesis
  proof (cases "\<exists>oid'. t = remove_object E oid' s")
    case True
    then show ?thesis using removal by blast
  next
    case False
    with assms(3) have "db_step E (now, s) (now', t)" by blast
    then show ?thesis
    proof cases
      case (put oid' ty data logical owned)
      with c present show ?thesis
        by (cases "?k = obj_id_to_string E oid'") (simp_all add: get_object_content content_put content_put_other)
    next
      case (try_evict key)
      have rows: "obj_row ?k t = obj_row ?k s" if "?k \<noteq> key"
        using that try_evict_other_rows [of ?k key now s] try_evict by simp
      show ?thesis
      proof (cases "?k = key \<and> \<not> protected now key s")
        case True
        with try_evict show ?thesis by (auto simp: protected_def)
      next
        case False
        then have "content ?k t = content ?k s"
          using try_evict content_same [OF rows] by (cases "?k = key") (simp_all add: try_evict_cases)
        with c show ?thesis by (simp add: get_object_content)
      qed
    next
      case (remove_object oid')
      then show ?thesis using removal by blast
    qed (use c in \<open>simp_all add: get_object_content content_anchor_ops content_other_ops content_touch\<close>)
  qed
qed

theorem content_stable_witness:
  "get_object inst_crates demo_id (pin inst_crates 5 demo_id ''o'' Skeleton None demo_db) =
     Ok (''cyfile'', ''sha256:02'')"
proof -
  let ?t = "pin inst_crates 5 demo_id ''o'' Skeleton None demo_db"
  have "get_object inst_crates demo_id demo_db = Ok (''cyfile'', ''sha256:02'')"
    and a: "0 < get_fs_anchor_count (obj_id_to_string inst_crates demo_id) demo_db"
    and r: "objects ?t \<noteq> objects (remove_object inst_crates demo_id demo_db)"
    by code_simp+
  from content_stable [OF demo_db_reachable inst_hex_laws
      disjI1 [OF db_step.pin [OF demo_api, where owner = "''o''" and scope = Skeleton and ttl = None]] this(1)] a r
  show ?thesis by (metis not_le)
qed

section \<open>Chunk items\<close>

lemma chunk_state_from_to_str:
  "chunk_state_from_str (chunk_state_to_str st) =
     (case st of LocalLink _ \<Rightarrow> LocalLink chunk_local_info_default
      | SameAs _ \<Rightarrow> SameAs (new_by_raw [] []) | _ \<Rightarrow> st)"
  by (cases st) (simp_all add: chunk_state_from_str_def)

lemma find_insert_or_replace_chunk:
  "find (\<lambda>r. c_id r = k) (insert_or_replace c_id x t) =
     (if k = c_id x then Some x else find (\<lambda>r. c_id r = k) t)"
  by (auto simp: insert_or_replace_def find_append filter_delete_other split: option.splits)

lemma c_id_chunk_row [simp]: "c_id (chunk_row_of_item E it) = chunk_to_string E (ci_chunk_id it)"
  by (cases "ci_chunk_state it") (simp_all add: chunk_row_of_item_def)

lemma get_chunk_item_plain:
  assumes "find (\<lambda>r. c_id r = chunk_to_string E (ci_chunk_id it)) (chunk_items t) = Some (chunk_row_of_item E it)"
    and "\<not> is_local_link (ci_chunk_state it)" and "\<not> is_same_as (ci_chunk_state it)"
  shows "get_chunk_item E (ci_chunk_id it) t = Ok it"
  unfolding get_chunk_item_def assms(1) using assms(2,3)
  by (cases "ci_chunk_state it")
    (simp_all add: chunk_row_of_item_def chunk_state_from_str_def)

lemma chunk_item_reads_back:
  assumes "hex_laws E" and "local_info_laws E"
    and "\<And>oid. ci_chunk_state it = SameAs oid \<Longrightarrow> api_id oid"
  shows "get_chunk_item E (ci_chunk_id it) (set_chunk_item E it s) = Ok it \<and>
    (\<forall>c. chunk_to_string E c \<noteq> chunk_to_string E (ci_chunk_id it) \<longrightarrow>
         get_chunk_item E c (set_chunk_item E it s) = get_chunk_item E c s)"
proof
  have row: "find (\<lambda>r. c_id r = chunk_to_string E (ci_chunk_id it)) (chunk_items (set_chunk_item E it s)) =
      Some (chunk_row_of_item E it)"
    by (simp add: set_chunk_item_def find_insert_or_replace_chunk)
  show "get_chunk_item E (ci_chunk_id it) (set_chunk_item E it s) = Ok it"
  proof (cases "ci_chunk_state it")
    case (LocalLink li)
    have "li\<lparr>li_path := [], li_path := li_path li\<rparr> = li" by simp
    with LocalLink assms(2) show ?thesis
      unfolding get_chunk_item_def row
      by (cases it) (simp add: chunk_row_of_item_def chunk_state_from_str_def create_by_info_str_def
          local_info_laws_def)
  next
    case (SameAs oid)
    from assms(3) [OF this] have "obj_id_new E (obj_id_to_string E oid) = Ok oid"
      by (simp add: api_id_def obj_id_new_to_string assms(1))
    with SameAs show ?thesis
      unfolding get_chunk_item_def row
      by (cases it) (simp add: chunk_row_of_item_def chunk_state_from_str_def)
  qed (simp_all add: get_chunk_item_plain [OF row])
  show "\<forall>c. chunk_to_string E c \<noteq> chunk_to_string E (ci_chunk_id it) \<longrightarrow>
         get_chunk_item E c (set_chunk_item E it s) = get_chunk_item E c s"
    by (simp add: get_chunk_item_def set_chunk_item_def find_insert_or_replace_chunk)
qed

text \<open>A chunk item reads back exactly as it was written, in every state of a chunk: the payload of
  a local link and of a same-as record survives its text columns, sizes and times survive the cast
  to \<open>i64\<close> and back; the items of other chunks are unaffected.\<close>

theorem set_get_chunk_item:
  assumes "hex_laws E" and "local_info_laws E"
    and "\<And>oid. ci_chunk_state it = SameAs oid \<Longrightarrow> api_id oid"
  shows "get_chunk_item E (ci_chunk_id it) (set_chunk_item E it s) = Ok it \<and>
    (\<forall>c. chunk_to_string E c \<noteq> chunk_to_string E (ci_chunk_id it) \<longrightarrow>
         get_chunk_item E c (set_chunk_item E it s) = get_chunk_item E c s)"
  by (rule chunk_item_reads_back [OF assms])

theorem set_get_chunk_item_witness:
  "get_chunk_item inst_crates (from_sha256_result [1])
     (set_chunk_item inst_crates
        (chunk_item_new_local_file 5 (from_sha256_result [1]) 9
           \<lparr>li_path = ''/a'', li_qcid = ''q'', li_last_modify_time = 3, li_range = Some (1, 2)\<rparr>) empty_db) =
   Ok (chunk_item_new_local_file 5 (from_sha256_result [1]) 9
         \<lparr>li_path = ''/a'', li_qcid = ''q'', li_last_modify_time = 3, li_range = Some (1, 2)\<rparr>)"
  using set_get_chunk_item [OF inst_hex_laws inst_local_info_laws,
      of "chunk_item_new_local_file 5 (from_sha256_result [1]) 9
         \<lparr>li_path = ''/a'', li_qcid = ''q'', li_last_modify_time = 3, li_range = Some (1, 2)\<rparr>" empty_db]
  by (simp add: chunk_item_new_local_file_def chunk_item_new_def)

section \<open>Last access times\<close>

lemma Max_insert_max:
  "finite F \<Longrightarrow> Max (insert (max a b) F) = Max (insert a (insert b (F :: int set)))"
  by (cases "F = {}") (simp_all add: max.assoc)

text \<open>Flushing access times only moves them forward: after \<open>batch_touch_last_access_with_max\<close> every
  object row is the old one with its last access time set to the maximum of the old value and of all
  times flushed for it; no row appears or disappears.\<close>

theorem batch_touch_max:
  "obj_row k (batch_touch_last_access_with_max items s) =
     map_option (\<lambda>r. r\<lparr>o_access := Max (insert (o_access r) {as_i64 ts | ts. (k, ts) \<in> set items})\<rparr>)
       (obj_row k s)"
proof (induction items arbitrary: s)
  case Nil
  then show ?case by (simp add: batch_touch_last_access_with_max_def option.map_ident)
next
  case (Cons it items)
  obtain key ts where it: "it = (key, ts)" by (cases it)
  define S where "S = {as_i64 ts | ts. (k, ts) \<in> set items}"
  have fin: "finite S"
    unfolding S_def by (rule finite_surj [of "set items" _ "\<lambda>(_, ts). as_i64 ts"]) force+
  have step: "batch_touch_last_access_with_max (it # items) s =
      batch_touch_last_access_with_max items
        (upd_obj key (\<lambda>r. r\<lparr>o_access := max (o_access r) (as_i64 ts)\<rparr>) s)"
    by (simp add: batch_touch_last_access_with_max_def it)
  have ins: "{as_i64 u | u. (k, u) \<in> set (it # items)} =
      (if k = key then insert (as_i64 ts) S else S)"
    by (auto simp: it S_def)
  show ?case
    unfolding step Cons.IH ins S_def [symmetric]
    by (cases "k = key"; cases "obj_row k s")
      (simp_all add: obj_row_upd_obj Max_insert_max [OF fin] del: Max_insert)
qed

section \<open>Pins and anchors\<close>

lemma obj_row_refresh_ne: "obj_row k (refresh E now oid s) = None \<longleftrightarrow> obj_row k s = None"
  by (auto simp: refresh_def reconcile_expand_state_def Let_def obj_row_set_expanded obj_row_recompute)

lemma pin_refresh:
  "\<exists>c. pin E now oid owner scope ttl s = refresh E now oid
     ((upsert_shadow_if_absent now (obj_id_to_string E oid) s)\<lparr>pins := insert_on_conflict
        (\<lambda>p. (p_obj p, p_owner p))
        (\<lambda>p. p\<lparr>p_scope := pin_scope_as_str scope, p_cascade := c,
               p_expires := map_option (\<lambda>d. as_i64 (now + d)) ttl\<rparr>)
        \<lparr>p_obj = obj_id_to_string E oid, p_owner = owner, p_scope = pin_scope_as_str scope,
         p_cascade = c, p_created = as_i64 now,
         p_expires = map_option (\<lambda>d. as_i64 (now + d)) ttl\<rparr> (pins s)\<rparr>)"
  unfolding pin_def Let_def refresh_def shadow_tables by (rule exI) (rule refl)

lemma pin_row_exists:
  obtains p where "p \<in> set (pins (pin E now oid owner scope ttl s))"
    and "p_obj p = obj_id_to_string E oid" and "p_owner p = owner"
    and "p_expires p = map_option (\<lambda>d. as_i64 (now + d)) ttl"
proof -
  let ?key = "obj_id_to_string E oid"
  obtain c where c: "pins (pin E now oid owner scope ttl s) = insert_on_conflict
        (\<lambda>p. (p_obj p, p_owner p))
        (\<lambda>p. p\<lparr>p_scope := pin_scope_as_str scope, p_cascade := c,
               p_expires := map_option (\<lambda>d. as_i64 (now + d)) ttl\<rparr>)
        \<lparr>p_obj = ?key, p_owner = owner, p_scope = pin_scope_as_str scope,
         p_cascade = c, p_created = as_i64 now,
         p_expires = map_option (\<lambda>d. as_i64 (now + d)) ttl\<rparr> (pins s)"
    using pin_refresh [of E now oid owner scope ttl s] by (elim exE) simp
  show ?thesis
  proof (cases "(?key, owner) \<in> (\<lambda>p. (p_obj p, p_owner p)) ` set (pins s)")
    case True
    then obtain p where p: "p \<in> set (pins s)" "p_obj p = ?key" "p_owner p = owner" by auto
    from True p show ?thesis
      by (intro that [of "p\<lparr>p_scope := pin_scope_as_str scope, p_cascade := c,
               p_expires := map_option (\<lambda>d. as_i64 (now + d)) ttl\<rparr>"])
        (auto simp: c insert_on_conflict_def sql_simps)
  next
    case False
    then show ?thesis
      by (intro that [of "\<lparr>p_obj = ?key, p_owner = owner, p_scope = pin_scope_as_str scope,
         p_cascade = c, p_created = as_i64 now,
         p_expires = map_option (\<lambda>d. as_i64 (now + d)) ttl\<rparr>"])
        (auto simp: c insert_on_conflict_def)
  qed
qed

lemma pin_obj_row: "obj_row (obj_id_to_string E oid) (pin E now oid owner scope ttl s) \<noteq> None"
  using pin_refresh [of E now oid owner scope ttl s]
  by (elim exE) (simp add: obj_row_refresh_ne obj_row_shadow)

lemma as_i64_small: "unat w < 2 ^ 63 \<Longrightarrow> as_i64 w = int (unat w)"
proof -
  assume "unat w < 2 ^ 63"
  then have "int (unat w) < int (2 ^ 63)" by (simp only: of_nat_less_iff)
  moreover have "- (2 ^ 63) \<le> int (unat w)" by (rule order_trans [of _ 0]) simp_all
  ultimately have "signed_take_bit 63 (int (unat w)) = int (unat w)"
    by (intro signed_take_bit_int_eq_self) simp_all
  then show ?thesis by (simp add: as_i64_def sint_uint)
qed

lemma as_i64_big: "2 ^ 63 \<le> unat w \<Longrightarrow> as_i64 w < 0"
proof (rule ccontr)
  assume a: "2 ^ 63 \<le> unat w" and "\<not> as_i64 w < 0"
  then have pos: "0 \<le> sint w" by (simp add: as_i64_def)
  have less: "sint w < 2 ^ 63"
    using signed_take_bit_int_less_exp [of 63 "uint w"] by (simp add: sint_uint)
  have "int (unat w) = sint w mod 2 ^ 64"
    using arg_cong [OF as_u64_as_i64 [of w], of uint]
    unfolding as_u64_def as_i64_def uint_word_of_int by simp
  with pos less have "int (unat w) = sint w" by simp
  with less have "int (unat w) < int (2 ^ 63)" by simp
  then have "unat w < 2 ^ 63" by (simp only: of_nat_less_iff)
  with a show False by simp
qed

text \<open>A pin is live until its deadline, if the deadline fits a signed 64-bit integer.\<close>

definition pin_covers :: "u64 \<Rightarrow> u64 option \<Rightarrow> u64 \<Rightarrow> bool" where
  "pin_covers now ttl t \<longleftrightarrow>
     (case ttl of None \<Rightarrow> True
      | Some d \<Rightarrow> unat now + unat d < 2 ^ 63 \<and> unat t < unat now + unat d)"

lemma pin_live_covers:
  assumes "pin_covers now ttl t" and "p_expires p = map_option (\<lambda>d. as_i64 (now + d)) ttl"
  shows "pin_live t p"
proof (cases ttl)
  case None
  with assms show ?thesis by (simp add: pin_live_def)
next
  case (Some d)
  have "unat (now + d) = unat now + unat d"
    by (rule unat_add_lem [THEN iffD1]) (use assms Some in \<open>simp add: pin_covers_def\<close>)
  moreover have "int (unat t) < int (unat now + unat d)"
    using assms Some by (simp only: of_nat_less_iff) (simp add: pin_covers_def)
  ultimately show ?thesis
    using assms Some by (simp add: pin_live_def pin_covers_def as_i64_small)
qed

text \<open>A pin protects its object, present or not yet stored, until its deadline: at every time that
  the pin covers, the object has a live pin and a row, an eviction attempt frees nothing and leaves
  the row; when the pin is live at once the object gets eviction class 2.\<close>

theorem pin_protects:
  assumes "pin_covers now ttl t"
  shows "let db = pin E now oid owner scope ttl s; key = obj_id_to_string E oid in
     has_active_pin t key db \<and> fst (try_evict_object t key db) = 0 \<and>
     obj_row key (snd (try_evict_object t key db)) \<noteq> None \<and>
     (t = now \<longrightarrow> map_option o_class (obj_row key db) = Some 2)"
proof -
  let ?key = "obj_id_to_string E oid" and ?db = "pin E now oid owner scope ttl s"
  obtain p where p: "p \<in> set (pins ?db)" "p_obj p = ?key"
      "p_expires p = map_option (\<lambda>d. as_i64 (now + d)) ttl"
    by (rule pin_row_exists)
  have act: "has_active_pin t ?key ?db"
    unfolding has_active_pin_iff using p pin_live_covers [OF assms p(3)] by auto
  moreover have "map_option o_class (obj_row ?key ?db) = Some 2" if "t = now"
  proof -
    obtain u where u: "?db = refresh E now oid u"
      using pin_refresh [of E now oid owner scope ttl s] by blast
    have "has_active_pin now ?key u"
      using act that unfolding u by (simp add: has_active_pin_iff)
    moreover obtain r where "obj_row ?key u = Some r"
      using pin_obj_row [of E oid now owner scope ttl s] unfolding u
      by (auto simp: obj_row_refresh_ne)
    ultimately show ?thesis
      unfolding u by (auto simp: refresh_def reconcile_expand_state_def Let_def obj_row_set_expanded obj_row_recompute)
  qed
  moreover have "obj_row ?key (recompute_eviction_class t ?key ?db) \<noteq> None"
    using pin_obj_row [of E oid now owner scope ttl s] by (auto simp: obj_row_recompute)
  ultimately show ?thesis
    by (simp add: Let_def try_evict_cases protected_def)
qed

theorem pin_protects_witness:
  "fst (try_evict_object 99 ''cyfile:01'' (pin inst_crates 5 demo_id ''app'' Lease (Some 100) demo_free)) = 0"
proof -
  have "pin_covers 5 (Some 100) 99" by (simp add: pin_covers_def)
  moreover have "obj_id_to_string inst_crates demo_id = ''cyfile:01''" by code_simp
  ultimately show ?thesis
    using pin_protects [of 5 "Some 100" 99 inst_crates demo_id "''app''" Lease demo_free]
    by (simp add: Let_def)
qed

text \<open>A time to live that carries the deadline past the signed 64-bit range (or past the
  unsigned one, where the addition wraps) gives a pin that is expired from the start: when it is the
  only pin of the object, the object has no live pin right after the call.\<close>

theorem pin_ttl_overflow:
  assumes "unat now < 2 ^ 63" and "2 ^ 63 \<le> unat now + unat d"
    and "\<forall>p \<in> set (pins s). p_obj p \<noteq> obj_id_to_string E oid"
  shows "\<not> has_active_pin now (obj_id_to_string E oid) (pin E now oid owner scope (Some d) s)"
proof -
  let ?key = "obj_id_to_string E oid"
  have le: "as_i64 (now + d) \<le> as_i64 now"
  proof (cases "unat now + unat d < 2 ^ 64")
    case True
    then have sum: "unat (now + d) = unat now + unat d"
      by (intro unat_add_lem [THEN iffD1]) simp
    then have "as_i64 (now + d) < 0"
      using assms(2) as_i64_big [of "now + d"] by simp
    moreover have "0 \<le> as_i64 now" using assms(1) by (simp add: as_i64_small)
    ultimately show ?thesis by linarith
  next
    case False
    then have "unat (now + d) = unat now + unat d - 2 ^ 64"
      using unat_plus_if' [of now d] by (simp split: if_splits)
    moreover have "unat d < 2 ^ 64" using unsigned_less [where ?'a = nat and w = d] by simp
    ultimately have "unat (now + d) \<le> unat now" by linarith
    then have "int (unat (now + d)) \<le> int (unat now)" by (simp only: of_nat_le_iff)
    moreover have "unat (now + d) < 2 ^ 63"
      using \<open>unat (now + d) \<le> unat now\<close> assms(1) by linarith
    ultimately show ?thesis using assms(1) by (simp add: as_i64_small)
  qed
  have new: "(?key, owner) \<notin> (\<lambda>p. (p_obj p, p_owner p)) ` set (pins s)"
    using assms(3) by auto
  obtain c where "pins (pin E now oid owner scope (Some d) s) = pins s @
     [\<lparr>p_obj = ?key, p_owner = owner, p_scope = pin_scope_as_str scope,
       p_cascade = c, p_created = as_i64 now, p_expires = Some (as_i64 (now + d))\<rparr>]"
    using pin_refresh [of E now oid owner scope "Some d" s] new
    by (elim exE) (simp add: insert_on_conflict_def)
  then show ?thesis
    using le assms(3) by (auto simp: has_active_pin_iff pin_live_def)
qed

theorem pin_ttl_overflow_witness:
  "\<not> has_active_pin 5 (obj_id_to_string inst_crates demo_id)
       (pin inst_crates 5 demo_id ''app'' Recursive (Some 0xFFFFFFFFFFFFFFFF) demo_free)"
proof (rule pin_ttl_overflow)
  show "\<forall>p \<in> set (pins demo_free). p_obj p \<noteq> obj_id_to_string inst_crates demo_id"
    by code_simp
qed simp_all

text \<open>\<open>get_fs_anchor_count\<close> counts the anchor rows.\<close>

lemma anchor_count_rows:
  assumes "db_inv E now s"
  shows "get_fs_anchor_count k s = anchor_rows k s"
  using db_invD(3) [OF assms, of k]
  by (auto simp: row_ok_def get_fs_anchor_count_def split: option.splits)

lemma fs_acquire_anchors:
  "\<exists>c. fs_anchors (fs_acquire E now oid inode tag s) =
     insert_or_ignore (\<lambda>a. (a_obj a, a_inode a, a_tag a))
       \<lparr>a_obj = obj_id_to_string E oid, a_inode = as_i64 inode, a_tag = uint tag,
        a_cascade = c, a_created = as_i64 now\<rparr> (fs_anchors s)"
  unfolding fs_acquire_def Let_def by auto

lemma fs_release_anchors:
  "fs_anchors (fs_release E now oid inode tag s) =
     sql_delete (\<lambda>a. a_obj a = obj_id_to_string E oid \<and> a_inode a = as_i64 inode \<and> a_tag a = uint tag)
       (fs_anchors s)"
  unfolding fs_release_def Let_def by auto

text \<open>Anchors are counted exactly once: from a reachable state, acquiring an anchor that is not
  held yet raises the object's anchor count by one, acquiring it again changes neither the anchors
  nor the count, and releasing it restores both.\<close>

theorem fs_anchor_roundtrip:
  assumes "reachable E (now, s)" and "hex_laws E" and "api_id oid"
    and "\<forall>a \<in> set (fs_anchors s). (a_obj a, a_inode a, a_tag a) \<noteq>
           (obj_id_to_string E oid, as_i64 inode, uint tag)"
  shows "let key = obj_id_to_string E oid; t = fs_acquire E now oid inode tag s;
             t2 = fs_acquire E now oid inode tag t; u = fs_release E now oid inode tag t2 in
     get_fs_anchor_count key t = get_fs_anchor_count key s + 1 \<and>
     fs_anchors t2 = fs_anchors t \<and> get_fs_anchor_count key t2 = get_fs_anchor_count key t \<and>
     fs_anchors u = fs_anchors s \<and> get_fs_anchor_count key u = get_fs_anchor_count key s"
proof -
  let ?key = "obj_id_to_string E oid"
  define t where "t = fs_acquire E now oid inode tag s"
  define t2 where "t2 = fs_acquire E now oid inode tag t"
  define u where "u = fs_release E now oid inode tag t2"
  have inv: "db_inv E now s" using reachable_db_inv [OF assms(1,2)] by simp
  then have invt: "db_inv E now t" unfolding t_def by (rule db_inv_fs_acquire [OF _ assms(2,3)])
  then have invt2: "db_inv E now t2" unfolding t2_def by (rule db_inv_fs_acquire [OF _ assms(2,3)])
  then have invu: "db_inv E now u" unfolding u_def by (rule db_inv_fs_release)
  obtain c where t: "fs_anchors t = fs_anchors s @ [\<lparr>a_obj = ?key, a_inode = as_i64 inode,
      a_tag = uint tag, a_cascade = c, a_created = as_i64 now\<rparr>]"
    using fs_acquire_anchors [of E now oid inode tag s] assms(4)
    by (fastforce simp: t_def insert_or_ignore_def)
  have t2: "fs_anchors t2 = fs_anchors t"
    using fs_acquire_anchors [of E now oid inode tag t] by (auto simp: t2_def t insert_or_ignore_def)
  have "sql_delete (\<lambda>a. a_obj a = ?key \<and> a_inode a = as_i64 inode \<and> a_tag a = uint tag) (fs_anchors s) =
      fs_anchors s"
    unfolding sql_delete_def by (rule filter_True) (use assms(4) in auto)
  then have u: "fs_anchors u = fs_anchors s"
    unfolding u_def fs_release_anchors t2 t by (simp add: sql_delete_def)
  show ?thesis
    unfolding Let_def t_def [symmetric] t2_def [symmetric] u_def [symmetric]
      anchor_count_rows [OF inv] anchor_count_rows [OF invt] anchor_count_rows [OF invt2]
      anchor_count_rows [OF invu] anchor_rows_def u t2
    by (simp add: t)
qed

theorem fs_anchor_roundtrip_witness:
  "get_fs_anchor_count ''cyfile:01'' (fs_acquire inst_crates 5 demo_id 8 0 demo_db) =
     get_fs_anchor_count ''cyfile:01'' demo_db + 1"
proof -
  have k: "obj_id_to_string inst_crates demo_id = ''cyfile:01''"
    and f: "\<forall>a \<in> set (fs_anchors demo_db). (a_obj a, a_inode a, a_tag a) \<noteq>
        (obj_id_to_string inst_crates demo_id, as_i64 8, uint (0 :: u32))"
    by code_simp+
  show ?thesis
    using fs_anchor_roundtrip [OF demo_db_reachable inst_hex_laws demo_api f] by (simp add: Let_def k)
qed

section \<open>Expiry\<close>

definition exact_class :: "u64 \<Rightarrow> string \<Rightarrow> db \<Rightarrow> bool" where
  "exact_class now k s \<longleftrightarrow>
     (case obj_row k s of None \<Rightarrow> True
      | Some r \<Rightarrow> o_class r = (if has_active_pin now k s \<or> 0 < get_fs_anchor_count k s then 2
                             else if has_incoming k s then 1 else 0))"

lemma exact_class_frame:
  assumes "same_key k s t"
  shows "exact_class now k t = exact_class now k s"
  unfolding exact_class_def get_fs_anchor_count_def same_key_queries [OF assms] by (rule refl)

lemma exact_class_refresh: "exact_class now (obj_id_to_string E oid) (refresh E now oid s)"
proof -
  have q: "has_active_pin now k (refresh E now oid s) = has_active_pin now k s"
    "has_incoming k (refresh E now oid s) = has_incoming k s" for k
    by (simp_all add: queries_by_tables [of "refresh E now oid s" s])
  show ?thesis
    unfolding exact_class_def q
    by (auto simp: refresh_def reconcile_expand_state_def Let_def obj_row_set_expanded
        obj_row_recompute get_fs_anchor_count_def split: option.splits)
qed

lemma exact_class_refresh_keys:
  assumes "\<And>key. key \<in> set ids \<Longrightarrow> id_text E key" and "k \<in> set ids \<or> exact_class now k t"
  shows "exact_class now k (fold (refresh_key E now) ids t)"
  using assms
proof (induction ids arbitrary: t)
  case (Cons key ids)
  from Cons.prems(1) [of key] obtain oid where oid: "key = obj_id_to_string E oid"
    and eq: "refresh_key E now key t = refresh E now oid t"
    by (auto elim: refresh_key_refresh)
  have "exact_class now k (refresh E now oid t) = exact_class now k t" if "k \<noteq> key"
    by (rule exact_class_frame) (rule refresh_other, use that oid in simp)
  then have "k \<in> set ids \<or> exact_class now k (refresh_key E now key t)"
    using Cons.prems(2) exact_class_refresh [of now E oid t] unfolding eq by (cases "k = key") (auto simp: oid)
  with Cons show ?case by simp
qed simp

lemma fold_refresh_key_pins: "pins (fold (refresh_key E now) ids t) = pins t"
  by (induction ids arbitrary: t) (simp_all add: refresh_key_def Let_def split: sum.splits)

text \<open>\<open>expire_pins\<close> releases what expired: from a reachable state it removes exactly the pins whose
  deadline has passed, counts the objects concerned, and gives each of them the eviction class that
  its remaining pins, anchors and references justify, so that one with none of them becomes class 0.\<close>

theorem expire_pins_exact:
  assumes "reachable E (now, s)" and "hex_laws E"
  shows "case expire_pins E now s of (n, t) \<Rightarrow>
     pins t = filter (\<lambda>p. \<not> pin_expired now p) (pins s) \<and>
     n = card {p_obj p | p. p \<in> set (pins s) \<and> pin_expired now p} \<and>
     (\<forall>p \<in> set (pins s). pin_expired now p \<longrightarrow> exact_class now (p_obj p) t)"
proof -
  have wf: "db_wf E s" using reachable_db_inv [OF assms] by (simp add: db_inv_def)
  let ?ids = "remdups (map p_obj (filter (pin_expired now) (pins s)))"
  let ?s1 = "s\<lparr>pins := sql_delete (pin_expired now) (pins s)\<rparr>"
  have "id_text E key" if "key \<in> set ?ids" for key
    using that db_wfD(4) [OF wf] by auto
  then have "exact_class now (p_obj p) (fold (refresh_key E now) ?ids ?s1)"
    if "p \<in> set (pins s)" "pin_expired now p" for p
    by (rule exact_class_refresh_keys) (use that in auto)
  moreover have "length ?ids = card {p_obj p | p. p \<in> set (pins s) \<and> pin_expired now p}"
    unfolding length_remdups_card_conv by (rule arg_cong [of _ _ card]) auto
  ultimately show ?thesis
    by (simp add: expire_pins_def Let_def fold_refresh_key_pins sql_delete_def)
qed

theorem expire_pins_exact_witness:
  "exact_class 7 ''cyfile:01'' (snd (expire_pins inst_crates 7
     (pin inst_crates 5 demo_id ''app'' Lease (Some 1) demo_free)))"
proof -
  let ?s = "pin inst_crates 5 demo_id ''app'' Lease (Some 1) demo_free"
  have "reachable inst_crates (5, ?s)"
    by (rule reachable.step [OF demo_free_reachable]) (rule db_step.pin, rule demo_api)
  then have r: "reachable inst_crates (7, ?s)"
    by (rule reachable.step) (rule db_step.tick, simp add: as_i64_def)
  have "\<exists>p \<in> set (pins ?s). pin_expired 7 p \<and> p_obj p = ''cyfile:01''" by code_simp
  with expire_pins_exact [OF r inst_hex_laws] show ?thesis
    by (auto split: prod.splits)
qed

section \<open>The outbox\<close>

text \<open>The outbox is read in order: from a reachable state \<open>fetch_outbox_ready\<close> returns the entries
  of the first due rows, at most the limit, without a row that does not parse, in strictly ascending
  order of their sequence numbers.\<close>

theorem fetch_outbox_ready_fifo:
  assumes "reachable E (now, s)" and "hex_laws E"
  shows "fetch_outbox_ready E t limit s =
           List.map_filter (outbox_entry_of_row E)
             (take limit (filter (\<lambda>b. b_next_try b \<le> as_i64 t) (edge_outbox s))) \<and>
         length (fetch_outbox_ready E t limit s) \<le> limit \<and>
         sorted_wrt (<) (map oe_seq (fetch_outbox_ready E t limit s))"
proof -
  have sorted: "sorted_wrt (<) (map b_seq (edge_outbox s))"
    using reachable_db_inv [OF assms] by (simp add: db_inv_def db_wf_def)
  let ?due = "filter (\<lambda>b. b_next_try b \<le> as_i64 t) (edge_outbox s)"
  have due: "sorted_wrt (<) (map b_seq ?due)"
    using sorted by (simp add: sorted_wrt_map sorted_wrt_filter)
  then have "sort_key b_seq ?due = ?due"
    by (intro sort_key_id_if_sorted) (rule strict_sorted_imp_sorted)
  then have eq: "fetch_outbox_ready E t limit s = List.map_filter (outbox_entry_of_row E) (take limit ?due)"
    by (simp add: fetch_outbox_ready_def)
  have seq: "outbox_entry_of_row E b = Some e \<Longrightarrow> oe_seq e = b_seq b" for b e
    by (auto simp: outbox_entry_of_row_def split: option.splits sum.splits)
  have mem: "e \<in> set (List.map_filter (outbox_entry_of_row E) bs) \<Longrightarrow> \<exists>b \<in> set bs. oe_seq e = b_seq b" for e bs
    by (induction bs) (auto simp: map_filter_simps seq split: option.splits)
  have "length (List.map_filter (outbox_entry_of_row E) bs) \<le> length bs \<and>
      (sorted_wrt (<) (map b_seq bs) \<longrightarrow> sorted_wrt (<) (map oe_seq (List.map_filter (outbox_entry_of_row E) bs)))" for bs
    by (induction bs) (auto simp: map_filter_simps seq split: option.splits dest!: mem)
  moreover have "sorted_wrt (<) (map b_seq (take limit ?due))"
    using due by (simp add: sorted_wrt_take take_map [symmetric])
  ultimately show ?thesis
    unfolding eq by (metis (no_types, lifting) le_trans length_take min.cobounded2 min.commute)
qed

theorem fetch_outbox_ready_fifo_witness:
  "fetch_outbox_ready inst_crates 6 10 demo_db =
     List.map_filter (outbox_entry_of_row inst_crates)
       (take 10 (filter (\<lambda>b. b_next_try b \<le> as_i64 6) (edge_outbox demo_db))) \<and>
   length (fetch_outbox_ready inst_crates 6 10 demo_db) = 1"
proof -
  have "length (fetch_outbox_ready inst_crates 6 10 demo_db) = 1" by code_simp
  with fetch_outbox_ready_fifo [OF demo_db_reachable inst_hex_laws, of 6 10] show ?thesis by blast
qed

text \<open>The retry delay doubles and is bounded: for a non-negative number of attempts it is
  \<open>2 ^ min attempts 8\<close>, between 1 and 256 seconds, so that the cap of 300 seconds is never reached,
  and \<open>retry_outbox_entry\<close> moves exactly the named entry, to a time later than now.\<close>

theorem retry_outbox_backoff:
  assumes "0 \<le> n"
  shows "backoff n = 2 ^ nat (min n 8) \<and> 1 \<le> backoff n \<and> backoff n \<le> 256 \<and>
    edge_outbox (retry_outbox_entry now seq s) =
      map (\<lambda>b. if b_seq b = seq then b\<lparr>b_attempts := b_attempts b + 1,
                 b_next_try := as_i64 now + backoff (b_attempts b)\<rparr> else b) (edge_outbox s)"
proof -
  have "nat (min n 8) \<le> 8" by simp
  then have "(2 :: int) ^ nat (min n 8) \<le> 2 ^ 8" by (rule power_increasing) simp
  moreover have "(1 :: int) \<le> 2 ^ nat (min n 8)" by simp
  ultimately show ?thesis
    by (simp add: backoff_def retry_outbox_entry_def sql_update_def)
qed

theorem retry_outbox_backoff_witness: "backoff 3 = 8 \<and> backoff 100 = 256 \<and> 1 \<le> backoff 3"
  using retry_outbox_backoff [of 3] retry_outbox_backoff [of 100] by simp

section \<open>What \<open>remove_object\<close> breaks\<close>

text \<open>\<open>remove_object\<close> deletes the object's row and nothing else, so an object that is removed and
  put again loses its file-system protection: its anchor rows are all still there, but its anchor
  count is 0 and, with no live pin and no incoming reference, \<open>try_evict_object\<close> deletes it and
  reports its bytes as freed.\<close>

theorem remove_object_loses_anchors:
  assumes "reachable E (now, s)" and "hex_laws E"
    and "0 < get_fs_anchor_count (obj_id_to_string E oid) s"
    and "\<not> has_active_pin now (obj_id_to_string E oid) s" and "\<not> has_incoming (obj_id_to_string E oid) s"
  shows "let key = obj_id_to_string E oid; t = put_object_gc_aware E now oid ty data (remove_object E oid s) in
     fs_anchors t = fs_anchors s \<and> 0 < sql_count (\<lambda>a. a_obj a = key) (fs_anchors t) \<and>
     get_fs_anchor_count key t = 0 \<and>
     fst (try_evict_object now key t) = as_u64 (int (length data)) \<and>
     obj_row key (snd (try_evict_object now key t)) = None"
proof -
  let ?key = "obj_id_to_string E oid" and ?r = "remove_object E oid s"
  define t where "t = put_object_gc_aware E now oid ty data ?r"
  have inv: "db_inv E now s" using reachable_db_inv [OF assms(1,2)] by simp
  have "obj_row ?key ?r = None"
    by (simp add: remove_object_def obj_row_delete)
  then have t: "t = ?r\<lparr>objects := insert_or_replace o_id
      (present_row now ?key ty data (int (length data)) (int (length data))) (objects ?r)\<rparr>"
    by (simp add: t_def put_object_gc_aware_def put_object_in_tx_def get_item_state_def)
  have row: "obj_row ?key t = Some (present_row now ?key ty data (int (length data)) (int (length data)))"
    unfolding t by (simp add: obj_row_insert_or_replace present_row_def)
  have tabs: "fs_anchors t = fs_anchors s" "pins t = pins s" "incoming_refs t = incoming_refs s"
    by (simp_all add: t remove_object_def)
  have cnt: "get_fs_anchor_count ?key t = 0"
    by (simp add: get_fs_anchor_count_def row present_row_def)
  have "\<not> protected now ?key t"
    using assms(4,5) by (simp add: protected_def cnt queries_by_tables [OF tabs(2,3,1)])
  moreover have "0 < anchor_rows ?key s"
    using assms(3) by (simp add: anchor_count_rows [OF inv])
  moreover have "obj_row ?key (t\<lparr>objects := sql_delete (\<lambda>r. o_id r = ?key) (objects t), chunk_items := x\<rparr>) = None" for x
    using obj_row_delete [of ?key ?key t] by (simp add: obj_row_def)
  ultimately show ?thesis
    unfolding Let_def t_def [symmetric]
    by (simp add: tabs cnt try_evict_cases row anchor_rows_def) (simp add: present_row_def)
qed

theorem remove_object_loses_anchors_witness:
  "0 < sql_count (\<lambda>a. a_obj a = ''cyfile:01'')
         (fs_anchors (put_object_gc_aware inst_crates 5 demo_id ''cyfile'' ''ab'' (remove_object inst_crates demo_id demo_db))) \<and>
   fst (try_evict_object 5 ''cyfile:01''
          (put_object_gc_aware inst_crates 5 demo_id ''cyfile'' ''ab'' (remove_object inst_crates demo_id demo_db))) = 2"
proof -
  have k: "obj_id_to_string inst_crates demo_id = ''cyfile:01''" by code_simp
  have h: "0 < get_fs_anchor_count (obj_id_to_string inst_crates demo_id) demo_db"
    "\<not> has_active_pin 5 (obj_id_to_string inst_crates demo_id) demo_db"
    "\<not> has_incoming (obj_id_to_string inst_crates demo_id) demo_db"
    by code_simp+
  have "as_u64 (int (length ''ab'')) = 2" by code_simp
  then show ?thesis
    using remove_object_loses_anchors [OF demo_db_reachable inst_hex_laws h, of "''cyfile''" "''ab''"]
    unfolding Let_def k by metis
qed

end
