(* ===== verification/Edge_Cascade.thy ===== *)
theory Edge_Cascade
  imports Store_Db_Props
begin

text \<open>
  The anchored cascade of a single-bucket store: an object whose children are expanded sends \<open>add\<close>
  messages for them through the outbox, one that stops being expanded sends \<open>remove\<close> messages, and
  the sender delivers the outbox back to the same database with \<open>apply_edge\<close>.

  The abstract state is the set of edges (child, referrer).  The detailed state holds it in two
  places, the table \<open>incoming_refs\<close> and the messages still in \<open>edge_outbox\<close>; \<open>net_edges\<close> replays the
  one on the other.  The refinement invariant \<open>ledger\<close> says that the net edges are exactly the edges
  from expanded objects to the children that their stored content names.  It holds in every state
  that is reached with in-order delivery (\<open>sys_step\<close>), so that with an empty outbox everything below
  an anchored or recursively pinned object is protected from eviction.
\<close>

section \<open>The abstract edge set\<close>

definition apply_op :: "string \<times> string \<times> string \<Rightarrow> (string \<times> string) set \<Rightarrow> (string \<times> string) set" where
  "apply_op m S = (case m of (op, c, k) \<Rightarrow> if op = ''add'' then insert (c, k) S else S - {(c, k)})"

definition outbox_ops :: "db \<Rightarrow> (string \<times> string \<times> string) list" where
  "outbox_ops s = map (\<lambda>b. (b_op b, b_referee b, b_referrer b)) (edge_outbox s)"

definition ref_edges :: "db \<Rightarrow> (string \<times> string) set" where
  "ref_edges s = (\<lambda>r. (r_referee r, r_referrer r)) ` set (incoming_refs s)"

definition net_edges :: "db \<Rightarrow> (string \<times> string) set" where
  "net_edges s = fold apply_op (outbox_ops s) (ref_edges s)"

text \<open>The children that the content of a present object names.\<close>

definition content_children :: "'j ext_crates \<Rightarrow> obj_id \<Rightarrow> string \<Rightarrow> string \<Rightarrow> string list" where
  "content_children E oid ty data =
     (if ty \<noteq> [] \<and> data \<noteq> [] then
        (case from_obj_data E oid data of
           Inr known \<Rightarrow> (case get_child_objs E known of
               Inr cs \<Rightarrow> map (obj_id_to_string E \<circ> fst) cs | Inl _ \<Rightarrow> [])
         | Inl _ \<Rightarrow> [])
      else [])"

definition expanded_content :: "string \<Rightarrow> db \<Rightarrow> (string \<times> string) option" where
  "expanded_content k s = (case obj_row k s of None \<Rightarrow> None
     | Some r \<Rightarrow> if o_expanded r \<noteq> 0 then Some (o_type r, o_data r) else None)"

definition expanded_edges :: "'j ext_crates \<Rightarrow> db \<Rightarrow> (string \<times> string) set" where
  "expanded_edges E s = {(c, obj_id_to_string E oid) | c oid ty data.
     expanded_content (obj_id_to_string E oid) s = Some (ty, data) \<and> c \<in> set (content_children E oid ty data)}"

definition ledger :: "'j ext_crates \<Rightarrow> db \<Rightarrow> bool" where
  "ledger E s \<longleftrightarrow> net_edges s = expanded_edges E s"

text \<open>Objects in state present are not chunks, and outbox messages name printed identifiers.\<close>

definition no_chunk_rows :: "'j ext_crates \<Rightarrow> db \<Rightarrow> bool" where
  "no_chunk_rows E s \<longleftrightarrow> (\<forall>r \<in> set (objects s). o_state r = ''present'' \<longrightarrow>
     (\<forall>oid. o_id r = obj_id_to_string E oid \<longrightarrow> \<not> is_chunk oid))"

definition outbox_texts :: "'j ext_crates \<Rightarrow> db \<Rightarrow> bool" where
  "outbox_texts E s \<longleftrightarrow> (\<forall>b \<in> set (edge_outbox s). (b_op b = ''add'' \<or> b_op b = ''remove'') \<and>
     (\<exists>c. b_referee b = obj_id_to_string E c) \<and> (\<exists>k. b_referrer b = obj_id_to_string E k))"

definition expanded_present :: "db \<Rightarrow> bool" where
  "expanded_present s \<longleftrightarrow> (\<forall>r \<in> set (objects s). o_expanded r \<noteq> 0 \<longrightarrow> o_state r = ''present'')"

definition cascade_ok :: "'j ext_crates \<Rightarrow> db \<Rightarrow> bool" where
  "cascade_ok E s \<longleftrightarrow> distinct (map o_id (objects s)) \<and> expanded_present s \<and> no_chunk_rows E s \<and>
     outbox_texts E s \<and> ledger E s"

section \<open>Steps with in-order delivery\<close>

definition deliver_head :: "'j ext_crates \<Rightarrow> u64 \<Rightarrow> outbox_row \<Rightarrow> outbox_entry \<Rightarrow> db \<Rightarrow> db" where
  "deliver_head E now b e s = complete_outbox_entry (b_seq b) (apply_edge E now (oe_msg e) s)"

inductive sys_step :: "'j ext_crates \<Rightarrow> u64 \<times> db \<Rightarrow> u64 \<times> db \<Rightarrow> bool" for E where
  tick: "as_i64 now \<le> as_i64 now' \<Longrightarrow> sys_step E (now, s) (now', s)"
| put: "api_id oid \<Longrightarrow> \<not> is_chunk oid \<Longrightarrow>
    sys_step E (now, s) (now, put_object_gc_aware E now oid ty data s)"
| pin: "api_id oid \<Longrightarrow> sys_step E (now, s) (now, pin E now oid owner scope ttl s)"
| unpin: "api_id oid \<Longrightarrow> sys_step E (now, s) (now, unpin E now oid owner s)"
| unpin_owner: "sys_step E (now, s) (now, snd (unpin_owner E now owner s))"
| expire_pins: "sys_step E (now, s) (now, snd (expire_pins E now s))"
| fs_acquire: "api_id oid \<Longrightarrow> sys_step E (now, s) (now, fs_acquire E now oid inode tag s)"
| fs_release: "api_id oid \<Longrightarrow> sys_step E (now, s) (now, fs_release E now oid inode tag s)"
| fs_release_inode: "sys_step E (now, s) (now, snd (fs_release_inode E now inode s))"
| deliver: "edge_outbox s = b # bs \<Longrightarrow> outbox_entry_of_row E b = Some e \<Longrightarrow>
    sys_step E (now, s) (now, deliver_head E now b e s)"
| evict: "key \<in> fst ` set (list_gc_candidates limit s) \<Longrightarrow>
    sys_step E (now, s) (now, snd (try_evict_object now key s))"
| touch: "sys_step E (now, s) (now, batch_touch_last_access_with_max items s)"
| set_chunk: "sys_step E (now, s) (now, set_chunk_item E it s)"
| remove_object: "\<not> protected now (obj_id_to_string E oid) s \<Longrightarrow> \<not> get_children_expanded (obj_id_to_string E oid) s \<Longrightarrow>
    sys_step E (now, s) (now, remove_object E oid s)"

inductive sys_reachable :: "'j ext_crates \<Rightarrow> u64 \<times> db \<Rightarrow> bool" for E where
  init: "sys_reachable E (now, empty_db)"
| step: "sys_reachable E c \<Longrightarrow> sys_step E c c' \<Longrightarrow> sys_reachable E c'"

section \<open>Replaying messages\<close>

lemma fold_apply_add:
  "fold apply_op (map (\<lambda>c. (''add'', c, k)) cs) S = S \<union> {(c, k) | c. c \<in> set cs}"
  by (induction cs arbitrary: S) (auto simp: apply_op_def)

lemma fold_apply_remove:
  "fold apply_op (map (\<lambda>c. (''remove'', c, k)) cs) S = S - {(c, k) | c. c \<in> set cs}"
  by (induction cs arbitrary: S) (auto simp: apply_op_def)

lemma outbox_ops_insert [simp]:
  "outbox_ops (outbox_insert now op c k s) = outbox_ops s @ [(op, c, k)]"
  by (simp add: outbox_ops_def outbox_insert_def)

lemma outbox_ops_enqueue:
  "outbox_ops (enqueue_edges now op cs k s) = outbox_ops s @ map (\<lambda>c. (op, c, k)) cs"
  by (induction now op cs k s rule: enqueue_edges.induct) simp_all

lemma net_edges_cong:
  "edge_outbox t = edge_outbox s \<Longrightarrow> incoming_refs t = incoming_refs s \<Longrightarrow> net_edges t = net_edges s"
  by (simp add: net_edges_def outbox_ops_def ref_edges_def)

lemma ref_edges_enqueue [simp]: "ref_edges (enqueue_edges now op cs k s) = ref_edges s"
  by (simp add: ref_edges_def)

lemma net_edges_enqueue:
  "net_edges (enqueue_edges now ''add'' cs k s) = net_edges s \<union> {(c, k) | c. c \<in> set cs}"
  "net_edges (enqueue_edges now ''remove'' cs k s) = net_edges s - {(c, k) | c. c \<in> set cs}"
  by (simp_all add: net_edges_def outbox_ops_enqueue fold_apply_add fold_apply_remove)

section \<open>Children named by the stored content\<close>

lemma find_present:
  assumes "distinct (map o_id t)"
  shows "find (\<lambda>r. o_id r = k \<and> o_state r = ''present'') t =
           (case find (\<lambda>r. o_id r = k) t of None \<Rightarrow> None
            | Some r \<Rightarrow> if o_state r = ''present'' then Some r else None)"
  using assms
proof (induction t)
  case (Cons r t)
  have "find (\<lambda>r. o_id r = k \<and> o_state r = ''present'') t = None" if "o_id r = k"
    using Cons.prems that by (auto simp: find_None_iff image_iff)
  with Cons show ?case by (auto split: option.splits)
qed simp

lemma parse_obj_refs_row:
  assumes "distinct (map o_id (objects s))" and "obj_row (obj_id_to_string E oid) s = Some r"
    and "o_state r = ''present''" and "\<not> is_chunk oid"
  shows "map (obj_id_to_string E) (parse_obj_refs E oid s) = content_children E oid (o_type r) (o_data r)"
proof -
  have "find (\<lambda>r. o_id r = obj_id_to_string E oid \<and> o_state r = ''present'') (objects s) = Some r"
    using assms(2,3) find_present [OF assms(1)] by (simp add: obj_row_def)
  with assms(4) show ?thesis
    by (simp add: parse_obj_refs_def content_children_def Let_def split: sum.splits)
qed

lemma expanded_content_simps [simp]:
  "expanded_content k (s\<lparr>pins := a\<rparr>) = expanded_content k s"
  "expanded_content k (s\<lparr>incoming_refs := b\<rparr>) = expanded_content k s"
  "expanded_content k (s\<lparr>fs_anchors := c\<rparr>) = expanded_content k s"
  "expanded_content k (s\<lparr>chunk_items := d\<rparr>) = expanded_content k s"
  "expanded_content k (s\<lparr>edge_outbox := e\<rparr>) = expanded_content k s"
  by (simp_all add: expanded_content_def)

lemma expanded_content_upd_obj:
  assumes "\<And>r. o_id (f r) = o_id r"
    and "\<And>r. (o_type (f r), o_data (f r), o_expanded (f r)) = (o_type r, o_data r, o_expanded r)"
  shows "expanded_content k (upd_obj key f s) = expanded_content k s"
  using assms(2) by (cases "k = key") (auto simp: expanded_content_def obj_row_upd_obj assms(1) split: option.splits)

lemma expanded_content_shadow [simp]:
  "expanded_content k (upsert_shadow_if_absent now key s) = expanded_content k s"
  by (auto simp: expanded_content_def obj_row_shadow shadow_row_def)

lemma ledger_cong:
  assumes "edge_outbox t = edge_outbox s" and "incoming_refs t = incoming_refs s"
    and "\<And>k. expanded_content k t = expanded_content k s"
  shows "ledger E t = ledger E s"
  using net_edges_cong [OF assms(1,2)] by (simp add: ledger_def expanded_edges_def assms(3))

section \<open>The end of a transaction keeps the ledger\<close>

lemma row_unique:
  assumes "distinct (map o_id (objects s))" and "r \<in> set (objects s)"
  shows "obj_row (o_id r) s = Some r"
proof -
  have "distinct (map o_id t) \<Longrightarrow> r \<in> set t \<Longrightarrow> find (\<lambda>x. o_id x = o_id r) t = Some r" for t
    by (induction t) (force simp: image_iff)+
  with assms show ?thesis by (simp add: obj_row_def)
qed

lemma obj_row_present_not_chunk:
  assumes "no_chunk_rows E s" and "obj_row (obj_id_to_string E oid) s = Some r"
    and "o_state r = ''present''"
  shows "\<not> is_chunk oid"
  using assms obj_row_table [OF assms(2)] by (auto simp: no_chunk_rows_def)

lemma expanded_edges_iff:
  assumes "hex_laws E"
  shows "(c, obj_id_to_string E oid) \<in> expanded_edges E s \<longleftrightarrow>
     (\<exists>ty data. expanded_content (obj_id_to_string E oid) s = Some (ty, data) \<and>
        c \<in> set (content_children E oid ty data))"
  by (auto simp: expanded_edges_def obj_id_to_string_eq_iff [OF assms])

text \<open>Changing the expanded content of one key changes the edges of that referrer only.\<close>

lemma expanded_edges_split:
  assumes E: "hex_laws E" and oth: "\<And>k. k \<noteq> obj_id_to_string E oid \<Longrightarrow> expanded_content k t = expanded_content k s"
  shows "expanded_edges E t = {(c, k) \<in> expanded_edges E s. k \<noteq> obj_id_to_string E oid} \<union>
     (case expanded_content (obj_id_to_string E oid) t of None \<Rightarrow> {}
      | Some (ty, data) \<Rightarrow> {(c, obj_id_to_string E oid) | c. c \<in> set (content_children E oid ty data)})"
    (is "_ = ?R")
proof -
  have "(c, k) \<in> expanded_edges E t \<longleftrightarrow> (c, k) \<in> ?R" for c k
  proof (cases "k = obj_id_to_string E oid")
    case True
    then show ?thesis
      by (auto simp: expanded_edges_iff [OF E] split: option.splits)
  next
    case False
    then have "(c, k) \<in> expanded_edges E t \<longleftrightarrow> (c, k) \<in> expanded_edges E s"
      using oth by (auto simp: expanded_edges_def)
    with False show ?thesis by (auto split: option.splits)
  qed
  then show ?thesis by (auto simp: set_eq_iff)
qed

lemma ledger_reconcile:
  assumes wf: "distinct (map o_id (objects s))" and row: "expanded_present s"
    and nc: "no_chunk_rows E s" and E: "hex_laws E" and led: "ledger E s"
  shows "ledger E (reconcile_expand_state E now oid s)"
proof -
  let ?key = "obj_id_to_string E oid"
  let ?want = "want_expand now ?key s" and ?have = "get_children_expanded ?key s"
  show ?thesis
  proof (cases "?want = ?have")
    case True
    then show ?thesis using led by (simp add: reconcile_expand_state_def Let_def)
  next
    case False
    then obtain r where r: "obj_row ?key s = Some r"
      by (cases "obj_row ?key s") (auto simp: want_expand_def get_item_state_def get_children_expanded_def)
    have st: "o_state r = ''present''"
      using False row r obj_row_table [OF r]
      by (auto simp: want_expand_def get_item_state_def get_children_expanded_def expanded_present_def
          split: if_splits)
    have nchunk: "\<not> is_chunk oid" using nc r st by (rule obj_row_present_not_chunk)
    let ?cs = "content_children E oid (o_type r) (o_data r)"
    have ids: "map o_id (objects (set_expanded ?key v s)) = map o_id (objects s)" for v
      by (simp add: set_expanded_def upd_obj_def map_sql_update)
    have parse: "map (obj_id_to_string E) (parse_obj_refs E oid (set_expanded ?key v s)) = ?cs" for v
      using parse_obj_refs_row [where s = "set_expanded ?key v s" and r = "r\<lparr>o_expanded := v\<rparr>"
          and E = E and oid = oid] wf r st nchunk
      by (simp add: ids obj_row_set_expanded)
    have exp: "expanded_content k (set_expanded ?key v s) =
        (if k = ?key then (if v \<noteq> 0 then Some (o_type r, o_data r) else None) else expanded_content k s)" for k v
      using r by (auto simp: expanded_content_def obj_row_set_expanded)
    have net: "net_edges (set_expanded ?key v s) = net_edges s" for v
      by (rule net_edges_cong) simp_all
    have eq: "expanded_content k (enqueue_edges now op xs ref t) = expanded_content k t" for k op xs ref t
      by (simp add: expanded_content_def)
    have splitv: "expanded_edges E (enqueue_edges now op xs ?key (set_expanded ?key v s)) =
        {(c, k) \<in> expanded_edges E s. k \<noteq> ?key} \<union> (if v \<noteq> 0 then {(c, ?key) | c. c \<in> set ?cs} else {})" for op xs v
      by (subst expanded_edges_split [OF E, of oid _ s]) (simp_all add: eq exp)
    show ?thesis
    proof (cases ?want)
      case True
      with False r have "expanded_content ?key s = None"
        by (simp add: expanded_content_def get_children_expanded_def)
      then have "expanded_edges E s = {(c, k) \<in> expanded_edges E s. k \<noteq> ?key}"
        using expanded_edges_split [OF E, of oid s s] by simp
      with True False led show ?thesis
        unfolding reconcile_expand_state_def Let_def parse ledger_def
        by (simp add: net_edges_enqueue net splitv)
    next
      case no: False
      with False r have "expanded_content ?key s = Some (o_type r, o_data r)"
        by (simp add: expanded_content_def get_children_expanded_def)
      then have "expanded_edges E s = {(c, k) \<in> expanded_edges E s. k \<noteq> ?key} \<union> {(c, ?key) | c. c \<in> set ?cs}"
        using expanded_edges_split [OF E, of oid s s] by simp
      then have "expanded_edges E s - {(c, ?key) | c. c \<in> set ?cs} = {(c, k) \<in> expanded_edges E s. k \<noteq> ?key}"
        by auto
      with no False led show ?thesis
        unfolding reconcile_expand_state_def Let_def parse ledger_def
        by (simp add: net_edges_enqueue net splitv)
    qed
  qed
qed

lemma cascade_tables [simp]:
  "cascade_ok E (s\<lparr>pins := a\<rparr>) = cascade_ok E s"
  "cascade_ok E (s\<lparr>fs_anchors := c\<rparr>) = cascade_ok E s"
  "cascade_ok E (s\<lparr>chunk_items := d\<rparr>) = cascade_ok E s"
  by (simp_all add: cascade_ok_def expanded_present_def no_chunk_rows_def outbox_texts_def
      ledger_cong [of "s\<lparr>pins := a\<rparr>" s] ledger_cong [of "s\<lparr>fs_anchors := c\<rparr>" s]
      ledger_cong [of "s\<lparr>chunk_items := d\<rparr>" s])

lemma cascade_upd_obj:
  assumes "cascade_ok E s"
    and "\<And>r. (o_id (f r), o_type (f r), o_data (f r), o_state (f r), o_expanded (f r)) =
              (o_id r, o_type r, o_data r, o_state r, o_expanded r)"
  shows "cascade_ok E (upd_obj key f s)"
proof -
  have "ledger E (upd_obj key f s) = ledger E s"
    by (rule ledger_cong) (use assms(2) in \<open>simp_all add: expanded_content_upd_obj\<close>)
  moreover have "map o_id (objects (upd_obj key f s)) = map o_id (objects s)"
    using assms(2) by (simp add: upd_obj_def map_sql_update)
  ultimately show ?thesis
    using assms
    by (auto simp: cascade_ok_def expanded_present_def no_chunk_rows_def outbox_texts_def upd_obj_def sql_simps)
qed

lemma cascade_shadow: "cascade_ok E s \<Longrightarrow> cascade_ok E (upsert_shadow_if_absent now key s)"
proof -
  assume ok: "cascade_ok E s"
  have "ledger E (upsert_shadow_if_absent now key s) = ledger E s"
    by (rule ledger_cong) simp_all
  with ok show ?thesis
    by (auto simp: cascade_ok_def expanded_present_def no_chunk_rows_def outbox_texts_def
        upsert_shadow_if_absent_def sql_simps distinct_insert_or_ignore shadow_row_def)
qed

lemma cascade_recompute: "cascade_ok E s \<Longrightarrow> cascade_ok E (recompute_eviction_class now key s)"
  by (simp add: recompute_eviction_class_def Let_def cascade_upd_obj)

lemma outbox_texts_enqueue:
  assumes "outbox_texts E s" and "op = ''add'' \<or> op = ''remove''"
  shows "outbox_texts E (enqueue_edges now op (map (obj_id_to_string E) cs) (obj_id_to_string E oid) s)"
  using assms
proof (induction cs arbitrary: s)
  case (Cons c cs)
  have "outbox_texts E (outbox_insert now op (obj_id_to_string E c) (obj_id_to_string E oid) s)"
    using Cons.prems unfolding outbox_texts_def outbox_insert_def by fastforce
  from Cons.IH [OF this Cons.prems(2)] show ?case by simp
qed simp

lemma cascade_reconcile:
  assumes "cascade_ok E s" and "hex_laws E"
  shows "cascade_ok E (reconcile_expand_state E now oid s)"
proof -
  let ?key = "obj_id_to_string E oid"
  note ok = assms(1) [unfolded cascade_ok_def]
  have led: "ledger E (reconcile_expand_state E now oid s)"
    using ok assms(2) by (intro ledger_reconcile) simp_all
  have ids: "map o_id (objects (set_expanded ?key v s)) = map o_id (objects s)" for v
    by (simp add: set_expanded_def upd_obj_def map_sql_update)
  have nc: "no_chunk_rows E (set_expanded ?key v s)" and ot: "outbox_texts E (set_expanded ?key v s)" for v
    using ok by (auto simp: no_chunk_rows_def outbox_texts_def set_expanded_def upd_obj_def sql_simps)
  have ep: "expanded_present (set_expanded ?key v s)" if "v = 0 \<or> get_item_state ?key s = Some ''present''" for v
  proof -
    have "o_state r = ''present''" if "r \<in> set (objects s)" "o_id r = ?key" "get_item_state ?key s = Some ''present''" for r
      using that ok row_unique [of s r] by (auto simp: get_item_state_def)
    with that ok show ?thesis
      by (auto simp: expanded_present_def set_expanded_def upd_obj_def sql_simps)
  qed
  have want: "want_expand now ?key s \<Longrightarrow> get_item_state ?key s = Some ''present''"
    by (auto simp: want_expand_def split: if_splits)
  have enq: "expanded_present (enqueue_edges now op xs ref t) = expanded_present t"
    "no_chunk_rows E (enqueue_edges now op xs ref t) = no_chunk_rows E t" for op xs ref t
    by (simp_all add: expanded_present_def no_chunk_rows_def)
  have enq_ok: "cascade_ok E (reconcile_expand_state E now oid s)"
    if "v = 0 \<or> get_item_state ?key s = Some ''present''" and "op = ''add'' \<or> op = ''remove''"
      and eq: "reconcile_expand_state E now oid s =
             enqueue_edges now op (map (obj_id_to_string E) xs) ?key (set_expanded ?key v s)" for v op xs
    using led ok that(1,2) unfolding cascade_ok_def eq by (simp add: ids nc ot ep enq outbox_texts_enqueue)
  show ?thesis
  proof (cases "want_expand now ?key s = get_children_expanded ?key s")
    case True
    with assms(1) show ?thesis by (simp add: reconcile_expand_state_def Let_def)
  next
    case False
    then show ?thesis
      by (cases "want_expand now ?key s")
        (rule enq_ok; use want in \<open>simp add: reconcile_expand_state_def Let_def\<close>)+
  qed
qed

section \<open>Every step keeps the ledger\<close>

lemmas cascade_intros = cascade_reconcile cascade_recompute cascade_shadow cascade_upd_obj

lemma cascade_refresh_key:
  "cascade_ok E s \<Longrightarrow> hex_laws E \<Longrightarrow> cascade_ok E (refresh_key E now key s)"
  by (simp add: refresh_key_def Let_def cascade_intros split: sum.split)

lemma cascade_fold:
  "(\<And>x t. cascade_ok E t \<Longrightarrow> cascade_ok E (f x t)) \<Longrightarrow> cascade_ok E s \<Longrightarrow> cascade_ok E (fold f xs s)"
  by (induction xs arbitrary: s) simp_all

lemma cascade_anchor_ops:
  assumes "cascade_ok E s" and "hex_laws E"
  shows "cascade_ok E (pin E now oid owner scope ttl s)"
    and "cascade_ok E (unpin E now oid owner s)"
    and "cascade_ok E (snd (unpin_owner E now owner s))"
    and "cascade_ok E (snd (expire_pins E now s))"
    and "cascade_ok E (fs_acquire E now oid inode tag s)"
    and "cascade_ok E (fs_release E now oid inode tag s)"
    and "cascade_ok E (snd (fs_release_inode E now inode s))"
  using assms
  by (simp_all add: pin_def unpin_def unpin_owner_def expire_pins_def fs_acquire_def fs_release_def
      fs_release_inode_def Let_def cascade_intros cascade_refresh_key cascade_fold)

lemma cascade_touch:
  "cascade_ok E s \<Longrightarrow> cascade_ok E (batch_touch_last_access_with_max items s)"
  unfolding batch_touch_last_access_with_max_def
  by (rule cascade_fold) (auto simp: cascade_upd_obj split: prod.splits)

lemma cascade_insert_present:
  assumes "cascade_ok E s" and "obj_row (obj_id_to_string E oid) s = None" and "\<not> is_chunk oid" and "hex_laws E"
  shows "cascade_ok E (s\<lparr>objects := insert_or_replace o_id
           (present_row now (obj_id_to_string E oid) ty data l w) (objects s)\<rparr>)" (is "cascade_ok E ?t")
proof -
  have "expanded_content k ?t = expanded_content k s" for k
    using assms(2) by (auto simp: expanded_content_def obj_row_insert_or_replace present_row_def)
  then have "ledger E ?t = ledger E s" by (intro ledger_cong) simp_all
  with assms show ?thesis
    by (auto simp: cascade_ok_def expanded_present_def no_chunk_rows_def outbox_texts_def sql_simps
        distinct_insert_or_replace present_row_def obj_id_to_string_eq_iff)
qed

lemma cascade_fill_shadow:
  assumes ok: "cascade_ok E s" and sh: "get_item_state (obj_id_to_string E oid) s = Some ''shadow''"
    and nc: "\<not> is_chunk oid" and E: "hex_laws E"
  shows "cascade_ok E (upd_obj (obj_id_to_string E oid) (\<lambda>r. r\<lparr>o_type := ty, o_data := data,
           o_state := ''present'', o_access := a, o_logical := l, o_owned := w\<rparr>) s)" (is "cascade_ok E ?t")
proof -
  let ?key = "obj_id_to_string E oid"
  have unexp: "o_expanded r = 0" if "r \<in> set (objects s)" "o_id r = ?key" for r
    using that ok sh row_unique [of s r]
    by (auto simp: cascade_ok_def expanded_present_def get_item_state_def)
  have "expanded_content k ?t = expanded_content k s" for k
    using unexp obj_row_table [of k s]
    by (auto simp: expanded_content_def obj_row_upd_obj split: option.splits)
  then have "ledger E ?t = ledger E s" by (intro ledger_cong) simp_all
  moreover have "map o_id (objects ?t) = map o_id (objects s)"
    by (simp add: upd_obj_def map_sql_update)
  ultimately show ?thesis
    using ok nc E unexp
    by (auto simp: cascade_ok_def expanded_present_def no_chunk_rows_def outbox_texts_def upd_obj_def
        sql_simps obj_id_to_string_eq_iff)
qed

lemma cascade_put:
  assumes "db_inv E now s" and "cascade_ok E s" and "\<not> is_chunk oid" and "hex_laws E"
  shows "cascade_ok E (snd (put_object_in_tx E now oid ty data l w s))"
proof -
  let ?key = "obj_id_to_string E oid"
  consider "get_item_state ?key s = Some ''present''" | "get_item_state ?key s = Some ''shadow''"
    | "obj_row ?key s = None"
    using db_invD(3) [OF assms(1), of ?key]
    by (auto simp: get_item_state_def row_ok_def split: option.splits)
  then show ?thesis
  proof cases
    case 1
    with assms show ?thesis by (simp add: put_object_in_tx_def cascade_upd_obj)
  next
    case 2
    with assms show ?thesis
      by (simp add: put_object_in_tx_def Let_def promote_anchor_cascade_state_def cascade_intros(1,2)
          cascade_fill_shadow)
  next
    case 3
    with assms show ?thesis
      by (simp add: put_object_in_tx_def get_item_state_def cascade_insert_present)
  qed
qed

text \<open>Deleting the row of an object without expanded children.\<close>

lemma cascade_delete:
  assumes ok: "cascade_ok E s" and ex: "\<And>r. obj_row key s = Some r \<Longrightarrow> o_expanded r = 0"
  shows "cascade_ok E (s\<lparr>objects := sql_delete (\<lambda>r. o_id r = key) (objects s)\<rparr>)"
proof -
  have rows: "obj_row k (s\<lparr>objects := sql_delete (\<lambda>r. o_id r = key) (objects s)\<rparr>) = (if k = key then None else obj_row k s)" for k
    using obj_row_delete [of k key s] by (simp add: obj_row_def)
  then have "ledger E (s\<lparr>objects := sql_delete (\<lambda>r. o_id r = key) (objects s)\<rparr>) = ledger E s"
    using ex by (intro ledger_cong) (auto simp: expanded_content_def split: option.splits)
  with ok show ?thesis
    by (auto simp: cascade_ok_def expanded_present_def no_chunk_rows_def outbox_texts_def sql_simps
        distinct_map_sql_delete)
qed

lemma cascade_evict:
  assumes inv: "db_inv E now s" and ok: "cascade_ok E s"
    and cand: "key \<in> fst ` set (list_gc_candidates limit s)"
  shows "cascade_ok E (snd (try_evict_object now key s))"
proof -
  obtain r where r: "obj_row key s = Some r" "gc_candidate r"
    using cand candidate_rows [of limit s] table_row_obj_row [OF db_invD(1) [OF inv]] by fastforce
  then have "o_expanded r = 0"
    using class0_unprotected(2) [OF inv r(1)] by (simp add: gc_candidate_def)
  with r(1) have "cascade_ok E (s\<lparr>objects := sql_delete (\<lambda>r. o_id r = key) (objects s)\<rparr>)"
    by (intro cascade_delete [OF ok]) auto
  with ok show ?thesis by (simp add: try_evict_cases cascade_recompute)
qed

lemma cascade_remove_object:
  assumes "cascade_ok E s" and "\<not> get_children_expanded (obj_id_to_string E oid) s"
  shows "cascade_ok E (remove_object E oid s)"
  unfolding remove_object_def
  using assms(2) by (intro cascade_delete [OF assms(1)]) (simp add: get_children_expanded_def)

text \<open>Completing the head of the outbox commutes with the end of the transaction.\<close>

definition head_row :: "outbox_row \<Rightarrow> outbox_row list \<Rightarrow> db \<Rightarrow> bool" where
  "head_row b bs s \<longleftrightarrow> edge_outbox s = b # bs \<and> (\<forall>x \<in> set bs. b_seq x \<noteq> b_seq b) \<and>
     b_seq b \<le> outbox_last_seq s"

lemma complete_head: "head_row b bs s \<Longrightarrow> complete_outbox_entry (b_seq b) s = s\<lparr>edge_outbox := bs\<rparr>"
  by (auto simp: head_row_def complete_outbox_entry_def sql_delete_def filter_id_conv)

lemma enqueue_complete_head:
  "head_row b bs s \<Longrightarrow> enqueue_edges now op cs ref (s\<lparr>edge_outbox := bs\<rparr>) =
     complete_outbox_entry (b_seq b) (enqueue_edges now op cs ref s)"
proof (induction cs arbitrary: s bs)
  case Nil
  then show ?case by (simp add: complete_head)
next
  case (Cons c cs)
  let ?s = "outbox_insert now op c ref s"
  obtain new where new: "edge_outbox ?s = edge_outbox s @ [new]" "b_seq new = outbox_last_seq s + 1"
    "outbox_last_seq ?s = outbox_last_seq s + 1"
    by (simp add: outbox_insert_def)
  with Cons.prems have "head_row b (bs @ [new]) ?s"
    by (auto simp: head_row_def)
  moreover have "outbox_insert now op c ref (s\<lparr>edge_outbox := bs\<rparr>) = ?s\<lparr>edge_outbox := bs @ [new]\<rparr>"
    using Cons.prems new by (simp add: outbox_insert_def head_row_def)
  ultimately show ?case using Cons.IH by simp
qed

lemma reconcile_complete_head:
  assumes "head_row b bs s"
  shows "reconcile_expand_state E now oid (s\<lparr>edge_outbox := bs\<rparr>) =
     complete_outbox_entry (b_seq b) (reconcile_expand_state E now oid s)"
proof -
  have se: "set_expanded k v (s\<lparr>edge_outbox := bs\<rparr>) = (set_expanded k v s)\<lparr>edge_outbox := bs\<rparr>" for k v
    by (simp add: set_expanded_def upd_obj_def)
  have q: "want_expand now k (s\<lparr>edge_outbox := bs\<rparr>) = want_expand now k s"
    "get_children_expanded k (s\<lparr>edge_outbox := bs\<rparr>) = get_children_expanded k s" for k
    by (auto simp: want_expand_def get_item_state_def get_children_expanded_def
        has_skeleton_pin_def has_recursive_pin_def get_fs_anchor_count_def has_incoming_def)
  have refs: "parse_obj_refs E oid (t\<lparr>edge_outbox := bs\<rparr>) = parse_obj_refs E oid t" for t
  proof -
    have "objects (t\<lparr>edge_outbox := bs\<rparr>) = objects t" "chunk_items (t\<lparr>edge_outbox := bs\<rparr>) = chunk_items t"
      by simp_all
    then show ?thesis unfolding parse_obj_refs_def by (simp only:)
  qed
  have "head_row b bs (set_expanded k v s)" for k v
    using assms by (simp add: head_row_def)
  note enq = enqueue_complete_head [OF this]
  show ?thesis
    unfolding reconcile_expand_state_def Let_def q se refs
    by (simp add: enq complete_head [OF assms])
qed

lemma obj_id_new_text:
  assumes "hex_laws E" and "obj_id_new E (obj_id_to_string E o1) = Ok o2"
  shows "o2 = o1"
proof -
  have "CHR '':'' \<notin> set (obj_type o1)"
  proof
    assume colon: "CHR '':'' \<in> set (obj_type o1)"
    have "length (str_split (CHR '':'') (obj_id_to_string E o1)) \<ge> 3"
      using colon hex_no_colon [OF assms(1)]
      by (auto simp: str_split_length obj_id_to_string_def count_list_append dest: split_list)
    with assms(2) show False
      by (auto simp: obj_id_new_def split: list.splits)
  qed
  with obj_id_new_to_string [OF assms(1), of o1] assms(2) show ?thesis by simp
qed

lemma cascade_deliver:
  assumes inv: "db_inv E now s" and ok: "cascade_ok E s" and E: "hex_laws E"
    and ob: "edge_outbox s = b # bs" and e: "outbox_entry_of_row E b = Some e"
  shows "cascade_ok E (deliver_head E now b e s)"
proof -
  let ?m = "oe_msg e"
  let ?key = "obj_id_to_string E (em_referee ?m)" and ?ref = "obj_id_to_string E (em_referrer ?m)"
  have mtx: "b_referee b = ?key" "b_referrer b = ?ref" "b_op b = edge_op_as_str (em_op ?m)"
  proof -
    obtain c k where ck: "b_referee b = obj_id_to_string E c" "b_referrer b = obj_id_to_string E k"
      "b_op b = ''add'' \<or> b_op b = ''remove''"
      using ok ob by (auto simp: cascade_ok_def outbox_texts_def)
    show "b_referee b = ?key" "b_referrer b = ?ref" "b_op b = edge_op_as_str (em_op ?m)"
      using e ck
      by (auto simp: outbox_entry_of_row_def edge_op_from_str_def split: option.splits sum.splits if_splits
          dest!: obj_id_new_text [OF E])
  qed
  define s1 where "s1 = upsert_shadow_if_absent now ?key s"
  define refs where "refs = (case em_op ?m of
      EdgeAdd \<Rightarrow> insert_or_ignore (\<lambda>r. (r_referee r, r_referrer r))
        \<lparr>r_referee = ?key, r_referrer = ?ref, r_epoch = as_i64 (em_target_epoch ?m), r_created = as_i64 now\<rparr>
        (incoming_refs s1)
    | EdgeRemove \<Rightarrow> sql_delete (\<lambda>r. r_referee r = ?key \<and> r_referrer r = ?ref) (incoming_refs s1))"
  define u where "u = s1\<lparr>incoming_refs := refs\<rparr>"
  have ap: "apply_edge E now ?m s = reconcile_expand_state E now (em_referee ?m) (recompute_eviction_class now ?key u)"
    unfolding apply_edge_def Let_def refs_def s1_def u_def by (cases "em_op ?m") simp_all
  have head: "head_row b bs (recompute_eviction_class now ?key u)"
    using db_invD(1) [OF inv] ob by (auto simp: head_row_def db_wf_def u_def s1_def)
  have "ref_edges u = apply_op (b_op b, b_referee b, b_referrer b) (ref_edges s)"
    by (cases "em_op ?m") (auto simp: ref_edges_def u_def s1_def refs_def mtx apply_op_def sql_simps image_iff)
  then have net: "net_edges (u\<lparr>edge_outbox := bs\<rparr>) = net_edges s"
    by (simp add: net_edges_def outbox_ops_def ob ref_edges_def)
  have "ledger E (u\<lparr>edge_outbox := bs\<rparr>)"
    using ok net by (simp add: ledger_def cascade_ok_def expanded_edges_def u_def s1_def)
  then have "cascade_ok E (u\<lparr>edge_outbox := bs\<rparr>)"
    using cascade_shadow [OF ok, of now ?key] ob
    by (auto simp: cascade_ok_def u_def s1_def expanded_present_def no_chunk_rows_def outbox_texts_def)
  moreover have "(recompute_eviction_class now ?key u)\<lparr>edge_outbox := bs\<rparr> =
      recompute_eviction_class now ?key (u\<lparr>edge_outbox := bs\<rparr>)"
    by (simp add: recompute_eviction_class_def Let_def upd_obj_def has_active_pin_def
        get_fs_anchor_count_def has_incoming_def)
  ultimately show ?thesis
    unfolding deliver_head_def ap reconcile_complete_head [OF head, symmetric]
    by (simp add: cascade_reconcile cascade_recompute E)
qed

lemma db_inv_deliver:
  "db_inv E now s \<Longrightarrow> db_inv E now (deliver_head E now b e s)"
  by (simp add: deliver_head_def db_inv_complete db_inv_apply_edge)

lemma sys_step_inv:
  assumes "sys_step E c c'" and "hex_laws E" and "db_inv E (fst c) (snd c)" and "cascade_ok E (snd c)"
  shows "db_inv E (fst c') (snd c') \<and> cascade_ok E (snd c')"
  using assms(1)
proof cases
  case (put oid now s ty data)
  with assms show ?thesis
    by (simp add: put_object_gc_aware_def db_inv_put cascade_put)
next
  case (set_chunk now s it)
  with assms show ?thesis
    using db_inv_set_chunk [of E now s it] by (simp add: set_chunk_item_def)
qed (use assms in \<open>simp_all add: db_inv_ops db_inv_deliver cascade_anchor_ops cascade_touch cascade_deliver cascade_evict cascade_remove_object\<close>)

lemma cascade_ok_empty: "cascade_ok E empty_db"
  by (simp add: cascade_ok_def expanded_present_def no_chunk_rows_def outbox_texts_def ledger_def
      net_edges_def outbox_ops_def ref_edges_def expanded_edges_def expanded_content_def obj_row_def empty_db_def)

lemma sys_reachable_inv:
  assumes "sys_reachable E c" and "hex_laws E"
  shows "db_inv E (fst c) (snd c) \<and> cascade_ok E (snd c)"
  using assms(1)
proof induction
  case (init now)
  then show ?case by (simp add: db_inv_empty cascade_ok_empty)
next
  case (step c c')
  then show ?case using sys_step_inv [OF step.hyps(2) assms(2)] by blast
qed

section \<open>Properties of the cascade\<close>


text \<open>\<open>below E s k c\<close>: \<open>c\<close> is reached from \<open>k\<close> through present objects without a skeleton pin, each
  naming the next in its content.\<close>

inductive below :: "'j ext_crates \<Rightarrow> db \<Rightarrow> string \<Rightarrow> string \<Rightarrow> bool" for E s where
  child: "obj_row (obj_id_to_string E oid) s = Some r \<Longrightarrow> o_state r = ''present'' \<Longrightarrow>
    no_skeleton_row (obj_id_to_string E oid) s \<Longrightarrow> c \<in> set (content_children E oid (o_type r) (o_data r)) \<Longrightarrow>
    below E s (obj_id_to_string E oid) c"
| deeper: "below E s k c \<Longrightarrow> below E s c d \<Longrightarrow> below E s k d"

lemma below_has_incoming:
  assumes "below E s k c" and "hex_laws E" and "db_inv E now s" and "cascade_ok E s" and "edge_outbox s = []"
    and "has_recursive_pin now k s \<or> 0 < get_fs_anchor_count k s \<or> has_incoming k s"
  shows "has_incoming c s"
  using assms(1,6)
proof induction
  case (child oid r c)
  let ?k = "obj_id_to_string E oid"
  have "o_expanded r = 1"
    using child db_invD(4) [OF assms(3), of ?k] by (simp add: row_synced_def get_fs_anchor_count_def)
  with child have "(c, ?k) \<in> expanded_edges E s"
    by (auto simp: expanded_edges_iff [OF assms(2)] expanded_content_def)
  with assms(4,5) have "(c, ?k) \<in> ref_edges s"
    by (simp add: cascade_ok_def ledger_def net_edges_def outbox_ops_def)
  then show ?case
    by (auto simp: ref_edges_def has_incoming_def sql_simps)
next
  case (deeper k c d)
  then show ?case by blast
qed


text \<open>A file object anchored by inode 7 whose content is one chunk, before and after its message is
  delivered.\<close>

definition demo_entry :: outbox_entry where
  "demo_entry = the (outbox_entry_of_row inst_crates (hd (edge_outbox demo_db)))"

definition demo_delivered :: db where
  "demo_delivered = deliver_head inst_crates 5 (hd (edge_outbox demo_db)) demo_entry demo_db"

lemma demo_db_sys: "sys_reachable inst_crates (5, demo_db)"
proof -
  have "sys_reachable inst_crates (5, demo_anchored)"
    unfolding demo_anchored_def
    by (rule sys_reachable.step [OF sys_reachable.init]) (rule sys_step.fs_acquire, rule demo_api)
  moreover have "demo_db = put_object_gc_aware inst_crates 5 demo_id ''cyfile'' ''sha256:02'' demo_anchored"
    by (simp add: demo_db_def put_object_gc_aware_def)
  moreover have "\<not> is_chunk demo_id" by code_simp
  ultimately show ?thesis
    by (metis sys_reachable.step sys_step.put demo_api)
qed

lemma demo_delivered_sys: "sys_reachable inst_crates (5, demo_delivered)"
  unfolding demo_delivered_def
proof (rule sys_reachable.step [OF demo_db_sys], rule sys_step.deliver)
  show "edge_outbox demo_db = hd (edge_outbox demo_db) # []" by code_simp
  show "outbox_entry_of_row inst_crates (hd (edge_outbox demo_db)) = Some demo_entry" by code_simp
qed



lemma reconcile_fresh_outbox:
  assumes "distinct (map o_id (objects s))" and "obj_row (obj_id_to_string E oid) s = Some r"
    and "o_state r = ''present''" and "o_expanded r = 0" and "\<not> is_chunk oid"
  shows "outbox_ops (reconcile_expand_state E now oid s) = outbox_ops s @
    (if want_expand now (obj_id_to_string E oid) s
     then map (\<lambda>c. (''add'', c, obj_id_to_string E oid)) (content_children E oid (o_type r) (o_data r)) else [])"
proof -
  let ?t = "set_expanded (obj_id_to_string E oid) 1 s"
  have "map o_id (objects ?t) = map o_id (objects s)"
    by (simp add: set_expanded_def upd_obj_def map_sql_update)
  then have parse: "map (obj_id_to_string E) (parse_obj_refs E oid ?t) = content_children E oid (o_type r) (o_data r)"
    using parse_obj_refs_row [of ?t E oid "r\<lparr>o_expanded := 1\<rparr>"] assms by (simp add: obj_row_set_expanded)
  show ?thesis
    using assms(2,4) unfolding reconcile_expand_state_def Let_def parse
    by (simp add: get_children_expanded_def outbox_ops_enqueue) (simp add: outbox_ops_def)
qed

text \<open>Storing an object that was anchored before it arrived completes the anchors: from a reachable
  state in which the object is a shadow, \<open>put_object_gc_aware\<close> leaves no anchor row and no recursive
  pin of it in state \<open>Pending\<close>, and sends one \<open>add\<close> message per child named by the new content, in
  order, exactly when it is anchored, referenced or recursively pinned and not skeleton-pinned.\<close>

theorem put_completes_shadow:
  assumes "reachable E (now, s)" and "hex_laws E" and "\<not> is_chunk oid"
    and "get_item_state (obj_id_to_string E oid) s = Some ''shadow''"
  shows "let t = put_object_gc_aware E now oid ty data s; key = obj_id_to_string E oid in
    (\<forall>a \<in> set (fs_anchors t). a_obj a = key \<longrightarrow> a_cascade a \<noteq> ''Pending'') \<and>
    (\<forall>p \<in> set (pins t). p_obj p = key \<and> p_scope p = ''recursive'' \<longrightarrow> p_cascade p \<noteq> ''Pending'') \<and>
    outbox_ops t = outbox_ops s @
      (if \<not> has_skeleton_pin now key s \<and>
          (has_recursive_pin now key s \<or> 0 < get_fs_anchor_count key s \<or> has_incoming key s)
       then map (\<lambda>c. (''add'', c, key)) (content_children E oid ty data) else [])"
proof -
  let ?key = "obj_id_to_string E oid"
  define s1 where "s1 = upd_obj ?key (\<lambda>r. r\<lparr>o_type := ty, o_data := data, o_state := ''present'',
      o_access := as_i64 now, o_logical := int (length data), o_owned := int (length data)\<rparr>) s"
  define s2 where "s2 = promote_anchor_cascade_state E oid s1"
  define s3 where "s3 = recompute_eviction_class now ?key s2"
  have put: "put_object_gc_aware E now oid ty data s = reconcile_expand_state E now oid s3"
    using assms(4) by (simp add: put_object_gc_aware_def put_object_in_tx_def Let_def s1_def s2_def s3_def)
  have inv: "db_inv E now s" using reachable_db_inv [OF assms(1,2)] by simp
  obtain r where r: "obj_row ?key s = Some r" "o_state r = ''shadow''"
    using assms(4) by (auto simp: get_item_state_def)
  have "o_expanded r = 0" using db_invD(3) [OF inv, of ?key] r by (simp add: row_ok_def)
  then obtain r3 where r3: "obj_row ?key s3 = Some r3" "o_state r3 = ''present''" "o_type r3 = ty" "o_data r3 = data"
    "o_expanded r3 = 0" "o_fs_count r3 = o_fs_count r"
    using r by (simp add: s3_def s2_def s1_def obj_row_recompute obj_row_upd_obj promote_anchor_cascade_state_def Let_def)
  have cnt: "sql_count (\<lambda>p. p_obj p = ?key \<and> p_scope p = sc \<and> pin_live now p) (pins s3) =
      sql_count (\<lambda>p. p_obj p = ?key \<and> p_scope p = sc \<and> pin_live now p) (pins s)" for sc
    by (simp add: s3_def s2_def s1_def promote_anchor_cascade_state_def Let_def sql_count_update pin_live_def)
  have inc: "incoming_refs s3 = incoming_refs s" and ops: "outbox_ops s3 = outbox_ops s"
    by (simp_all add: outbox_ops_def s3_def s2_def s1_def promote_anchor_cascade_state_def Let_def)
  have want: "want_expand now ?key s3 \<longleftrightarrow> \<not> has_skeleton_pin now ?key s \<and>
      (has_recursive_pin now ?key s \<or> 0 < get_fs_anchor_count ?key s \<or> has_incoming ?key s)"
    unfolding want_expand_def has_skeleton_pin_def has_recursive_pin_def has_incoming_def cnt inc
    by (simp add: get_item_state_def get_fs_anchor_count_def r r3)
  have "distinct (map o_id (objects s3))"
    using db_wfD(1) [OF db_invD(1) [OF inv]]
    by (simp add: s3_def recompute_eviction_class_def Let_def s2_def promote_anchor_cascade_state_def s1_def
        upd_obj_def map_sql_update)
  from reconcile_fresh_outbox [OF this r3(1,2,5) assms(3), of now]
  have "outbox_ops (reconcile_expand_state E now oid s3) = outbox_ops s @
      (if \<not> has_skeleton_pin now ?key s \<and>
          (has_recursive_pin now ?key s \<or> 0 < get_fs_anchor_count ?key s \<or> has_incoming ?key s)
       then map (\<lambda>c. (''add'', c, ?key)) (content_children E oid ty data) else [])"
    unfolding want ops r3(3,4) .
  then show ?thesis
    unfolding Let_def put
    by (auto simp: s3_def s2_def s1_def promote_anchor_cascade_state_def Let_def sql_simps)
qed

theorem put_completes_shadow_witness:
  "outbox_ops (put_object_gc_aware inst_crates 5 demo_id ''cyfile'' ''sha256:02'' demo_anchored) =
     outbox_ops demo_anchored @ [(''add'', ''sha256:02'', ''cyfile:01'')]"
proof -
  have k: "obj_id_to_string inst_crates demo_id = ''cyfile:01''" by code_simp
  have h: "\<not> is_chunk demo_id" "get_item_state (obj_id_to_string inst_crates demo_id) demo_anchored = Some ''shadow''"
    by code_simp+
  have "\<not> has_skeleton_pin 5 ''cyfile:01'' demo_anchored" "0 < get_fs_anchor_count ''cyfile:01'' demo_anchored"
    "content_children inst_crates demo_id ''cyfile'' ''sha256:02'' = [''sha256:02'']"
    by code_simp+
  then show ?thesis
    using put_completes_shadow [OF demo_anchored_reachable inst_hex_laws h, of "''cyfile''" "''sha256:02''"]
    by (simp add: Let_def k)
qed

end
