(* ===== verification/Outbox_Sender.thy ===== *)
theory Outbox_Sender
  imports Edge_Cascade
begin

text \<open>
  The background sender of the outbox (\<open>named_store/src/outbox_sender.rs\<close>).  A router is a function on
  an entry and the state, which is the sender's own database and whatever else the router changes
  (type variable \<open>'r\<close>); it answers with \<open>Ok ()\<close> or an error text.  \<open>run_iteration\<close> is one turn of the
  loop of \<open>run_loop\<close>: a batch is fetched, each entry is delivered in turn, and completed or
  rescheduled by the outcome.  The clock is read once per turn; the sleeps between turns are not
  modelled.

  The locale \<open>edge_router\<close> is what the sender relies on: delivering an entry leaves the rows of its own
  outbox alone, though it may append new ones.  In it we show that no message is lost: a row leaves
  the outbox only after a successful delivery.  The loopback router is the instance.
\<close>

type_synonym 'r router = "outbox_entry \<Rightarrow> db \<times> 'r \<Rightarrow> (string + unit) \<times> (db \<times> 'r)"

record outbox_sender_config =
  batch_size :: nat

definition outbox_sender_config_default :: outbox_sender_config where
  "outbox_sender_config_default = \<lparr>batch_size = 64\<rparr>"

definition loopback_deliver :: "'j ext_crates \<Rightarrow> u64 \<Rightarrow> 'r router" where
  "loopback_deliver E now entry st =
     (case st of (s, r) \<Rightarrow> (Ok (), (apply_edge E now (oe_msg entry) s, r)))"

definition send_entry :: "u64 \<Rightarrow> 'r router \<Rightarrow> outbox_entry \<Rightarrow> db \<times> 'r \<Rightarrow> db \<times> 'r" where
  "send_entry now deliver entry st =
     (case deliver entry st of
        (Inr _, (s, r)) \<Rightarrow> (complete_outbox_entry (oe_seq entry) s, r)
      | (Inl _, (s, r)) \<Rightarrow> (retry_outbox_entry now (oe_seq entry) s, r))"

definition run_iteration ::
  "'j ext_crates \<Rightarrow> u64 \<Rightarrow> outbox_sender_config \<Rightarrow> 'r router \<Rightarrow> db \<times> 'r \<Rightarrow> db \<times> 'r" where
  "run_iteration E now cfg deliver st =
     fold (send_entry now deliver) (fetch_outbox_ready E now (batch_size cfg) (fst st)) st"

text \<open>The outcomes of the deliveries of a run, by sequence number, for the statements below.\<close>

fun outcomes :: "u64 \<Rightarrow> 'r router \<Rightarrow> outbox_entry list \<Rightarrow> db \<times> 'r \<Rightarrow> (int \<times> bool) list" where
  "outcomes now deliver [] st = []"
| "outcomes now deliver (e # es) st =
     (oe_seq e, case fst (deliver e st) of Inr _ \<Rightarrow> True | Inl _ \<Rightarrow> False) #
     outcomes now deliver es (send_entry now deliver e st)"

text \<open>What becomes of an outbox row.\<close>

definition row_after :: "u64 \<Rightarrow> (int \<times> bool) list \<Rightarrow> outbox_row \<Rightarrow> outbox_row option" where
  "row_after now res b =
     (case map_of res (b_seq b) of
        None \<Rightarrow> Some b
      | Some True \<Rightarrow> None
      | Some False \<Rightarrow> Some (b\<lparr>b_attempts := b_attempts b + 1,
                             b_next_try := as_i64 now + backoff (b_attempts b)\<rparr>))"

definition appends :: "db \<Rightarrow> db \<Rightarrow> bool" where
  "appends s t \<longleftrightarrow> (\<exists>new. edge_outbox t = edge_outbox s @ new \<and>
     (\<forall>b \<in> set new. outbox_last_seq s < b_seq b)) \<and> outbox_last_seq s \<le> outbox_last_seq t"

lemma map_filter_append: "List.map_filter f (xs @ ys) = List.map_filter f xs @ List.map_filter f ys"
  by (induction xs) (auto simp: map_filter_simps split: option.splits)

lemma map_filter_all: "(\<And>x. x \<in> set xs \<Longrightarrow> f x = Some x) \<Longrightarrow> List.map_filter f xs = xs"
  by (induction xs) (auto simp: map_filter_simps)

lemma map_filter_comp:
  "List.map_filter g (List.map_filter f xs) = List.map_filter (\<lambda>x. Option.bind (f x) g) xs"
  by (induction xs) (auto simp: map_filter_simps split: option.splits)

locale edge_router =
  fixes deliver :: "'r router"
  assumes deliver_appends: "deliver e (s, r) = (res, (t, r')) \<Longrightarrow> appends s t"
begin

lemma send_entry_rows:
  assumes "oe_seq e \<le> outbox_last_seq s"
  shows "\<exists>new. edge_outbox (fst (send_entry now deliver e (s, r))) =
      List.map_filter (row_after now [(oe_seq e, case fst (deliver e (s, r)) of Inr _ \<Rightarrow> True | Inl _ \<Rightarrow> False)])
        (edge_outbox s) @ new \<and> (\<forall>b \<in> set new. outbox_last_seq s < b_seq b) \<and>
      outbox_last_seq s \<le> outbox_last_seq (fst (send_entry now deliver e (s, r)))"
proof -
  obtain res t r' where d: "deliver e (s, r) = (res, (t, r'))" by (metis prod.collapse)
  obtain new where new: "edge_outbox t = edge_outbox s @ new" "\<forall>b \<in> set new. outbox_last_seq s < b_seq b"
      "outbox_last_seq s \<le> outbox_last_seq t"
    using deliver_appends [OF d] by (auto simp: appends_def)
  have keep: "b_seq b \<noteq> oe_seq e" if "b \<in> set new" for b
    using new(2) that assms by fastforce
  have del: "filter (\<lambda>b. b_seq b \<noteq> oe_seq e) xs = List.map_filter (row_after now [(oe_seq e, True)]) xs" for xs
    by (induction xs) (auto simp: map_filter_simps row_after_def)
  have upd: "map (\<lambda>b. if b_seq b = oe_seq e then b\<lparr>b_attempts := b_attempts b + 1,
        b_next_try := as_i64 now + backoff (b_attempts b)\<rparr> else b) xs =
      List.map_filter (row_after now [(oe_seq e, False)]) xs" for xs
    by (induction xs) (auto simp: map_filter_simps row_after_def)
  have "filter (\<lambda>b. b_seq b \<noteq> oe_seq e) new = new"
    and "map (\<lambda>b. if b_seq b = oe_seq e then b\<lparr>b_attempts := b_attempts b + 1,
        b_next_try := as_i64 now + backoff (b_attempts b)\<rparr> else b) new = new"
    using keep by (auto simp: filter_id_conv intro!: map_idI)
  then show ?thesis
    using new
    by (cases res) (auto simp: send_entry_def d complete_outbox_entry_def retry_outbox_entry_def
        sql_delete_def sql_update_def del upd map_filter_append intro!: exI [of _ new])
qed

lemma outcomes_seqs: "map fst (outcomes now deliver es st) = map oe_seq es"
  by (induction es arbitrary: st) auto

lemma run_rows:
  assumes "distinct (map oe_seq es)" and "\<And>e. e \<in> set es \<Longrightarrow> oe_seq e \<le> outbox_last_seq s"
  shows "\<exists>new. edge_outbox (fst (fold (send_entry now deliver) es (s, r))) =
      List.map_filter (row_after now (outcomes now deliver es (s, r))) (edge_outbox s) @ new \<and>
      (\<forall>b \<in> set new. outbox_last_seq s < b_seq b)"
  using assms
proof (induction es arbitrary: s r)
  case Nil
  have "List.map_filter (row_after now []) (edge_outbox s) = edge_outbox s"
    by (rule map_filter_all) (simp add: row_after_def)
  then show ?case by simp
next
  case (Cons e es)
  let ?st = "send_entry now deliver e (s, r)"
  let ?res = "outcomes now deliver es ?st"
  let ?x = "(oe_seq e, case fst (deliver e (s, r)) of Inr _ \<Rightarrow> True | Inl _ \<Rightarrow> False)"
  obtain t r' where st: "?st = (t, r')" by (metis prod.collapse)
  have "oe_seq e \<le> outbox_last_seq s" using Cons.prems(2) by simp
  from send_entry_rows [OF this, of now r]
  obtain new where new: "edge_outbox t = List.map_filter (row_after now [?x]) (edge_outbox s) @ new"
      "\<forall>b \<in> set new. outbox_last_seq s < b_seq b" "outbox_last_seq s \<le> outbox_last_seq t"
    unfolding st by auto
  have "\<And>e'. e' \<in> set es \<Longrightarrow> oe_seq e' \<le> outbox_last_seq t"
    using Cons.prems(2) new(3) by (meson list.set_intros(2) order_trans)
  then obtain new2 where new2: "edge_outbox (fst (fold (send_entry now deliver) es (t, r'))) =
      List.map_filter (row_after now ?res) (edge_outbox t) @ new2"
      "\<forall>b \<in> set new2. outbox_last_seq t < b_seq b"
    using Cons.IH [of t r'] Cons.prems(1) unfolding st by auto
  have keys: "map_of ?res q = None" if "q \<notin> set (map oe_seq es)" for q
    using that outcomes_seqs [of now es ?st] by (metis map_of_eq_None_iff list.set_map)
  have "List.map_filter (row_after now ?res) new = new"
  proof (rule map_filter_all)
    fix b assume "b \<in> set new"
    then have "b_seq b \<notin> set (map oe_seq es)"
      using new(2) Cons.prems(2) by fastforce
    then show "row_after now ?res b = Some b" by (simp add: row_after_def keys)
  qed
  moreover have "Option.bind (row_after now [?x] b) (row_after now ?res) = row_after now (?x # ?res) b" for b
    using Cons.prems(1) keys [of "oe_seq e"]
    by (auto simp: row_after_def split: option.splits bool.splits)
  ultimately show ?case
    using new new2 unfolding st
    by (auto simp: map_filter_append map_filter_comp st intro!: exI [of _ "new @ new2"])
qed

end

section \<open>Routers\<close>

lemma appends_refl [simp]: "appends s s"
  by (simp add: appends_def)

lemma appends_trans:
  assumes "appends s t" and "appends t u"
  shows "appends s u"
proof -
  obtain a where a: "edge_outbox t = edge_outbox s @ a" "\<forall>b \<in> set a. outbox_last_seq s < b_seq b"
      "outbox_last_seq s \<le> outbox_last_seq t"
    using assms(1) by (auto simp: appends_def)
  obtain c where c: "edge_outbox u = edge_outbox t @ c" "\<forall>b \<in> set c. outbox_last_seq t < b_seq b"
      "outbox_last_seq t \<le> outbox_last_seq u"
    using assms(2) by (auto simp: appends_def)
  show ?thesis
    unfolding appends_def using a c by (intro conjI exI [of _ "a @ c"]) force+
qed

lemma appends_enqueue: "appends s (enqueue_edges now op cs ref s)"
proof (induction cs arbitrary: s)
  case (Cons c cs)
  have "appends s (outbox_insert now op c ref s)"
    by (simp add: appends_def outbox_insert_def)
  from appends_trans [OF this Cons.IH] show ?case by simp
qed simp

lemma appends_same: "edge_outbox t = edge_outbox s \<Longrightarrow> outbox_last_seq t = outbox_last_seq s \<Longrightarrow> appends s t"
  by (simp add: appends_def)

lemma appends_reconcile: "appends s (reconcile_expand_state E now oid s)"
proof -
  have "appends s (enqueue_edges now op cs ref (set_expanded k v s))" for op cs ref k v
    by (rule appends_trans [OF appends_same appends_enqueue]) simp_all
  then show ?thesis by (simp add: reconcile_expand_state_def Let_def)
qed

lemma appends_apply_edge: "appends s (apply_edge E now msg s)"
proof -
  have "\<exists>x. apply_edge E now msg s = reconcile_expand_state E now (em_referee msg)
      (recompute_eviction_class now (obj_id_to_string E (em_referee msg))
        ((upsert_shadow_if_absent now (obj_id_to_string E (em_referee msg)) s)\<lparr>incoming_refs := x\<rparr>))"
    unfolding apply_edge_def Let_def by (cases "em_op msg") auto
  then obtain x where x: "apply_edge E now msg s = reconcile_expand_state E now (em_referee msg)
      (recompute_eviction_class now (obj_id_to_string E (em_referee msg))
        ((upsert_shadow_if_absent now (obj_id_to_string E (em_referee msg)) s)\<lparr>incoming_refs := x\<rparr>))" ..
  show ?thesis
    unfolding x by (rule appends_trans [OF appends_same appends_reconcile]) simp_all
qed

interpretation loopback: edge_router "loopback_deliver E now"
proof
  show "loopback_deliver E now e (s, r) = (res, (t, r')) \<Longrightarrow> appends s t" for e s r res t r'
    by (auto simp: loopback_deliver_def appends_apply_edge)
qed

text \<open>A loopback router that fails as its schedule says, as a remote delivery may.\<close>

definition flaky_deliver :: "'j ext_crates \<Rightarrow> u64 \<Rightarrow> bool list router" where
  "flaky_deliver E now entry st =
     (case st of (s, []) \<Rightarrow> loopback_deliver E now entry (s, [])
      | (s, fails # rest) \<Rightarrow>
          if fails then (Err ''timeout'', (s, rest)) else loopback_deliver E now entry (s, rest))"

interpretation flaky: edge_router "flaky_deliver E now"
proof
  show "flaky_deliver E now e (s, r) = (res, (t, r')) \<Longrightarrow> appends s t" for e s r res t r'
    by (cases r) (auto simp: flaky_deliver_def loopback_deliver_def appends_apply_edge split: if_splits)
qed

section \<open>Properties of the sender\<close>

lemma fetch_seqs:
  assumes "db_wf E s"
  shows "distinct (map oe_seq (fetch_outbox_ready E now limit s))"
    and "e \<in> set (fetch_outbox_ready E now limit s) \<Longrightarrow> oe_seq e \<le> outbox_last_seq s"
proof -
  have seq: "outbox_entry_of_row E b = Some e \<Longrightarrow> oe_seq e = b_seq b" for b e
    by (auto simp: outbox_entry_of_row_def split: option.splits sum.splits)
  have mem: "e \<in> set (List.map_filter (outbox_entry_of_row E) bs) \<Longrightarrow> \<exists>b \<in> set bs. oe_seq e = b_seq b" for e bs
    by (induction bs) (auto simp: map_filter_simps seq split: option.splits)
  have dist: "distinct (map b_seq bs) \<Longrightarrow> distinct (map oe_seq (List.map_filter (outbox_entry_of_row E) bs))" for bs
    by (induction bs) (auto simp: map_filter_simps seq split: option.splits dest!: mem)
  have "distinct (map b_seq (edge_outbox s))"
    using assms by (simp add: db_wf_def strict_sorted_iff)
  then show "distinct (map oe_seq (fetch_outbox_ready E now limit s))"
    unfolding fetch_outbox_ready_def
    by (intro dist) (simp add: take_map [symmetric] distinct_map distinct_filter inj_on_def)
  show "e \<in> set (fetch_outbox_ready E now limit s) \<Longrightarrow> oe_seq e \<le> outbox_last_seq s"
    using assms unfolding fetch_outbox_ready_def db_wf_def
    by (auto dest!: mem in_set_takeD)
qed

text \<open>\<^bold>\<open>C29.\<close> The sender delivers at least once: for every router that leaves the sender's own outbox rows
  alone and from every reachable state, after one turn of the loop each old outbox row is gone
  exactly if its delivery succeeded, is rescheduled with one more attempt if its delivery failed, and
  is unchanged if it was not in the batch; rows that appeared meanwhile are appended.\<close>

theorem sender_loses_no_message:
  assumes "edge_router deliver" and "reachable E (now, s)" and "hex_laws E"
  shows "\<exists>new. edge_outbox (fst (run_iteration E now cfg deliver (s, r))) =
      List.map_filter (row_after now (outcomes now deliver
        (fetch_outbox_ready E now (batch_size cfg) s) (s, r))) (edge_outbox s) @ new \<and>
      (\<forall>b \<in> set new. outbox_last_seq s < b_seq b)"
proof -
  have "db_wf E s" using reachable_db_inv [OF assms(2,3)] by (simp add: db_inv_def)
  from edge_router.run_rows [OF assms(1) fetch_seqs [OF this]] show ?thesis
    by (simp add: run_iteration_def)
qed

theorem sender_loses_no_message_witness:
  "edge_outbox (fst (run_iteration inst_crates 5 outbox_sender_config_default (flaky_deliver inst_crates 5)
      (demo_db, [True]))) =
     map (\<lambda>b. b\<lparr>b_attempts := 1, b_next_try := 6\<rparr>) (edge_outbox demo_db)"
proof -
  let ?d = "flaky_deliver inst_crates 5" and ?c = outbox_sender_config_default
  obtain new where new: "edge_outbox (fst (run_iteration inst_crates 5 ?c ?d (demo_db, [True]))) =
      List.map_filter (row_after 5 (outcomes 5 ?d (fetch_outbox_ready inst_crates 5 (batch_size ?c) demo_db)
        (demo_db, [True]))) (edge_outbox demo_db) @ new"
    using sender_loses_no_message [OF flaky.edge_router_axioms demo_db_reachable inst_hex_laws] by blast
  have "List.map_filter (row_after 5 (outcomes 5 ?d (fetch_outbox_ready inst_crates 5 (batch_size ?c) demo_db)
        (demo_db, [True]))) (edge_outbox demo_db) = map (\<lambda>b. b\<lparr>b_attempts := 1, b_next_try := 6\<rparr>) (edge_outbox demo_db)"
    and "length (edge_outbox (fst (run_iteration inst_crates 5 ?c ?d (demo_db, [True])))) = length (edge_outbox demo_db)"
    by code_simp+
  with new show ?thesis by simp
qed

text \<open>With the loopback router a turn of the loop delivers the head of the outbox again and again.\<close>

lemma outbox_entry_seq: "outbox_entry_of_row E b = Some e \<Longrightarrow> oe_seq e = b_seq b"
  by (auto simp: outbox_entry_of_row_def split: option.splits sum.splits)

lemma deliver_head_outbox:
  assumes "db_wf E s" and "edge_outbox s = b # bs"
  shows "\<exists>new. edge_outbox (deliver_head E now b e s) = bs @ new"
proof -
  obtain new where new: "edge_outbox (apply_edge E now (oe_msg e) s) = edge_outbox s @ new"
    "\<forall>x \<in> set new. outbox_last_seq s < b_seq x"
    using appends_apply_edge [of s E now "oe_msg e"] by (auto simp: appends_def)
  have "\<forall>x \<in> set (bs @ new). b_seq x \<noteq> b_seq b"
    using assms new(2) by (fastforce simp: db_wf_def)
  then have "filter (\<lambda>x. b_seq x \<noteq> b_seq b) (bs @ new) = bs @ new" by (simp add: filter_id_conv)
  with new(1) assms(2) show ?thesis
    by (auto simp: deliver_head_def complete_outbox_entry_def sql_delete_def)
qed

lemma loopback_fold:
  assumes "sys_reachable E (now, s)" and "hex_laws E"
    and "edge_outbox s = bs @ cs" and "map (outbox_entry_of_row E) bs = map Some es"
  shows "sys_reachable E (now, fst (fold (send_entry now (loopback_deliver E now)) es (s, r))) \<and>
    (\<exists>new. edge_outbox (fst (fold (send_entry now (loopback_deliver E now)) es (s, r))) = cs @ new)"
  using assms(1,3,4)
proof (induction bs arbitrary: s es cs)
  case (Cons b bs)
  from Cons.prems(3) obtain e es' where es: "es = e # es'" "outbox_entry_of_row E b = Some e"
    "map (outbox_entry_of_row E) bs = map Some es'"
    by (cases es) auto
  let ?t = "deliver_head E now b e s"
  have send: "send_entry now (loopback_deliver E now) e (s, r) = (?t, r)"
    using outbox_entry_seq [OF es(2)] by (simp add: send_entry_def loopback_deliver_def deliver_head_def)
  have "db_wf E s" using sys_reachable_inv [OF Cons.prems(1) assms(2)] by (simp add: db_inv_def)
  then obtain new where new: "edge_outbox ?t = bs @ (cs @ new)"
    using deliver_head_outbox [of E s b "bs @ cs" now e] Cons.prems(2) by auto
  have "sys_reachable E (now, ?t)"
    by (rule sys_reachable.step [OF Cons.prems(1)]) (rule sys_step.deliver, use Cons.prems(2) es(2) in simp_all)
  from Cons.IH [OF this new es(3)] show ?case
    by (auto simp: es(1) send)
qed simp

lemma fetch_all_due:
  assumes "db_wf E s" and "\<forall>b \<in> set (edge_outbox s). b_next_try b \<le> as_i64 now \<and> outbox_entry_of_row E b \<noteq> None"
  shows "map (outbox_entry_of_row E) (take limit (edge_outbox s)) = map Some (fetch_outbox_ready E now limit s)"
proof -
  have due: "filter (\<lambda>b. b_next_try b \<le> as_i64 now) (edge_outbox s) = edge_outbox s"
    using assms(2) by (simp add: filter_id_conv)
  have "sort_key b_seq (edge_outbox s) = edge_outbox s"
    using assms(1) by (intro sort_key_id_if_sorted) (simp add: db_wf_def strict_sorted_imp_sorted)
  moreover have "map (outbox_entry_of_row E) bs = map Some (List.map_filter (outbox_entry_of_row E) bs)"
    if "\<forall>b \<in> set bs. outbox_entry_of_row E b \<noteq> None" for bs
    using that by (induction bs) (auto simp: map_filter_simps)
  ultimately show ?thesis
    using assms(2) by (simp add: fetch_outbox_ready_def due) (meson in_set_takeD)
qed

text \<open>A sender with the loopback router delivers in order: from a state reached with in-order
  delivery in which every outbox row is due and parses, one turn of the loop gives again such a
  state, and exactly the first \<open>batch_size\<close> rows have left the outbox.\<close>

theorem loopback_sender_in_order:
  assumes "sys_reachable E (now, s)" and "hex_laws E"
    and "\<forall>b \<in> set (edge_outbox s). b_next_try b \<le> as_i64 now \<and> outbox_entry_of_row E b \<noteq> None"
  shows "sys_reachable E (now, fst (run_iteration E now cfg (loopback_deliver E now) (s, r))) \<and>
    (\<exists>new. edge_outbox (fst (run_iteration E now cfg (loopback_deliver E now) (s, r))) =
       drop (batch_size cfg) (edge_outbox s) @ new)"
proof -
  have "db_wf E s" using sys_reachable_inv [OF assms(1,2)] by (simp add: db_inv_def)
  from fetch_all_due [OF this assms(3)]
  have "map (outbox_entry_of_row E) (take (batch_size cfg) (edge_outbox s)) =
      map Some (fetch_outbox_ready E now (batch_size cfg) s)" .
  moreover have "edge_outbox s = take (batch_size cfg) (edge_outbox s) @ drop (batch_size cfg) (edge_outbox s)"
    by simp
  ultimately show ?thesis
    using loopback_fold [OF assms(1,2)] unfolding run_iteration_def by (metis fst_conv)
qed

theorem loopback_sender_in_order_witness:
  "sys_reachable inst_crates (5, fst (run_iteration inst_crates 5 outbox_sender_config_default
     (loopback_deliver inst_crates 5) (demo_db, ())))"
proof -
  have "\<forall>b \<in> set (edge_outbox demo_db). b_next_try b \<le> as_i64 5 \<and> outbox_entry_of_row inst_crates b \<noteq> None"
    by code_simp
  show ?thesis
    by (rule loopback_sender_in_order [OF demo_db_sys inst_hex_laws, THEN conjunct1]) fact
qed

section \<open>Retries break the order\<close>

text \<open>
  A directory that holds one file, both stored, the directory anchored and its message delivered;
  then the anchor is dropped and taken again, which leaves \<open>remove\<close> and \<open>add\<close> of the same edge in the
  outbox; in the next turn the delivery of the first message fails.
\<close>

definition race_dir :: obj_id where
  "race_dir = new_by_raw ''cydir'' [9]"

definition race_file :: obj_id where
  "race_file = new_by_raw ''cyfile'' [2]"

definition turn :: "u64 \<Rightarrow> bool list \<Rightarrow> db \<Rightarrow> db" where
  "turn now fails s =
     fst (run_iteration inst_crates now outbox_sender_config_default (flaky_deliver inst_crates now) (s, fails))"

definition race_setup :: db where
  "race_setup =
     (let s1 = put_object_gc_aware inst_crates 5 race_file ''cyfile'' ''sha256:03'' empty_db;
          s2 = put_object_gc_aware inst_crates 5 race_dir ''cydir'' ''cyfile:02'' s1;
          s3 = fs_acquire inst_crates 5 race_dir 7 0 s2
      in turn 5 [] (turn 5 [] s3))"

definition race_db :: db where
  "race_db =
     (let s1 = fs_release inst_crates 5 race_dir 7 0 race_setup;
          s2 = fs_acquire inst_crates 5 race_dir 7 0 s1;
          s3 = turn 5 [True] s2
      in turn 9 [] (turn 9 [] s3))"

text \<open>Retries reorder messages and lose protection: when the delivery of \<open>remove\<close> fails once and the
  \<open>add\<close> of the same edge behind it succeeds, the retried \<open>remove\<close> deletes the edge for good.  The
  directory is then anchored, present and expanded with an empty outbox, yet the file it holds
  has no incoming reference, heads the candidate list, and is evicted.\<close>

theorem retry_reorder_unprotects:
  "edge_outbox race_setup = [] \<and> has_incoming ''cyfile:02'' race_setup \<and>
   get_fs_anchor_count ''cydir:09'' race_db = 1 \<and> get_children_expanded ''cydir:09'' race_db \<and>
   get_object inst_crates race_dir race_db = Ok (''cydir'', ''cyfile:02'') \<and>
   get_object inst_crates race_file race_db = Ok (''cyfile'', ''sha256:03'') \<and>
   edge_outbox race_db = [] \<and> list_gc_candidates 100 race_db = [(''cyfile:02'', 9)] \<and>
   \<not> has_incoming ''cyfile:02'' race_db \<and>
   obj_row ''cyfile:02'' (snd (try_evict_object 9 ''cyfile:02'' race_db)) = None"
  by code_simp

end
