(* ===== verification/Fs_Meta_Types.thy ===== *)
theory Fs_Meta_Types
  imports Ndn_Object
begin

text \<open>
  The data of the file-system metadata service: inodes (\<open>NodeRecord\<close>, \<open>NodeState\<close>), directory entries
  (\<open>DentryRecord\<close>, \<open>DentryTarget\<close>) and reference counts of objects (\<open>ObjStat\<close>) from
  \<open>cyfs-lib/src/fsmeta_client.rs\<close>, and the rows that \<open>fs_meta/src/fs_meta_service.rs\<close> stores them in.
  A state is spread over ten columns (\<open>node_state_cols\<close>) and read back by \<open>parse_node_state\<close>; the
  theorems show that every record survives the trip, that the columns determine the state, and that
  reading is defined on exactly the rows whose columns fit their state.

  An integer column is an \<open>int\<close>.  SQLite turns a sum that leaves the range of \<open>i64\<close> into a
  floating-point number, which reads back as an error; such a value is represented by \<open>2 ^ 63\<close>.
  The text that \<open>rusqlite\<close> prints for an error is reduced to its cause.
\<close>

datatype rpc_error = ReasonError string

type_synonym 'a rpc_result = "rpc_error + 'a"

text \<open>\<open>map_db_err\<close>\<close>

definition map_db_err :: "string \<Rightarrow> rpc_error" where
  "map_db_err cause = ReasonError (''db error: '' @ cause)"

section \<open>Inodes\<close>

datatype node_kind = NodeFile | NodeDir | NodeObject

record file_working_state =
  ws_fb_handle :: string
  ws_last_write_at :: u64

record file_cooling_state =
  cs_fb_handle :: string
  cs_closed_at :: u64

record file_linked_state =
  ls_obj_id :: obj_id
  ls_qcid :: obj_id
  ls_filebuffer_id :: string
  ls_linked_at :: u64

record finalized_obj_state =
  fs_obj_id :: obj_id
  fs_finalized_at :: u64

record obj_stat =
  st_obj_id :: obj_id
  st_ref_count :: u64
  st_zero_since :: "u64 option"
  st_updated_at :: u64

type_synonym index_node_id = u64

datatype node_state =
    DirNormal
  | DirOverlay
  | FileNormal
  | Working file_working_state
  | Cooling file_cooling_state
  | Linked file_linked_state
  | Finalized finalized_obj_state

record 'j node_record =
  nd_inode_id :: index_node_id
  nd_ref_by :: "u64 option"
  nd_state :: node_state
  nd_read_only :: bool
  nd_base_obj_id :: "obj_id option"
  nd_rev :: "u64 option"
  nd_meta :: "'j option"
  nd_lease_session :: "string option"
  nd_lease_seq :: "u64 option"
  nd_lease_expire_at :: "u64 option"

definition obj_kind :: "obj_id \<Rightarrow> node_kind" where
  "obj_kind oid = (if is_dir_object oid then NodeDir else if is_file_object oid then NodeFile else NodeObject)"

fun state_kind :: "node_state \<Rightarrow> node_kind" where
  "state_kind DirNormal = NodeDir"
| "state_kind DirOverlay = NodeDir"
| "state_kind FileNormal = NodeFile"
| "state_kind (Working _) = NodeFile"
| "state_kind (Cooling _) = NodeFile"
| "state_kind (Linked s) = obj_kind (ls_obj_id s)"
| "state_kind (Finalized s) = obj_kind (fs_obj_id s)"

definition get_node_kind :: "'j node_record \<Rightarrow> node_kind" where
  "get_node_kind n = state_kind (nd_state n)"

section \<open>Directory entries\<close>

datatype dentry_target =
    TIndexNodeId index_node_id
  | TSymLink string
  | TObjId obj_id
  | Tombstone

record dentry_record =
  de_id :: u64
  de_parent :: index_node_id
  de_name :: string
  de_target :: dentry_target
  de_mtime :: "u64 option"

section \<open>Columns\<close>

definition NODE_STATE_DIR_NORMAL :: int where "NODE_STATE_DIR_NORMAL = 0"
definition NODE_STATE_DIR_OVERLAY :: int where "NODE_STATE_DIR_OVERLAY = 1"
definition NODE_STATE_WORKING :: int where "NODE_STATE_WORKING = 2"
definition NODE_STATE_COOLING :: int where "NODE_STATE_COOLING = 3"
definition NODE_STATE_LINKED :: int where "NODE_STATE_LINKED = 4"
definition NODE_STATE_FINALIZED :: int where "NODE_STATE_FINALIZED = 5"
definition NODE_STATE_FILE_NORMAL :: int where "NODE_STATE_FILE_NORMAL = 6"

lemmas node_state_consts [simp] = NODE_STATE_DIR_NORMAL_def NODE_STATE_DIR_OVERLAY_def
  NODE_STATE_WORKING_def NODE_STATE_COOLING_def NODE_STATE_LINKED_def NODE_STATE_FINALIZED_def
  NODE_STATE_FILE_NORMAL_def

definition DENTRY_TARGET_INODE :: int where "DENTRY_TARGET_INODE = 0"
definition DENTRY_TARGET_OBJ :: int where "DENTRY_TARGET_OBJ = 1"
definition DENTRY_TARGET_TOMBSTONE :: int where "DENTRY_TARGET_TOMBSTONE = 2"
definition DENTRY_TARGET_SYMLINK :: int where "DENTRY_TARGET_SYMLINK = 3"

lemmas dentry_target_consts [simp] = DENTRY_TARGET_INODE_def DENTRY_TARGET_OBJ_def
  DENTRY_TARGET_TOMBSTONE_def DENTRY_TARGET_SYMLINK_def

text \<open>\<open>NodeStateCols\<close>, with the \<open>as i64\<close> casts of the statements that bind it.\<close>

record node_state_cols =
  k_state :: int
  k_fb_handle :: "string option"
  k_last_write_at :: "int option"
  k_closed_at :: "int option"
  k_linked_obj_id :: "u8 list option"
  k_linked_qcid :: "u8 list option"
  k_linked_filebuffer_id :: "string option"
  k_linked_at :: "int option"
  k_finalized_obj_id :: "u8 list option"
  k_finalized_at :: "int option"

definition cols_default :: node_state_cols where
  "cols_default = \<lparr>k_state = 0, k_fb_handle = None, k_last_write_at = None, k_closed_at = None,
     k_linked_obj_id = None, k_linked_qcid = None, k_linked_filebuffer_id = None, k_linked_at = None,
     k_finalized_obj_id = None, k_finalized_at = None\<rparr>"

record node_row =
  n_inode_id :: int
  n_read_only :: int
  n_base_obj_id :: "u8 list option"
  n_cols :: node_state_cols
  n_rev :: "int option"
  n_meta_json :: "string option"
  n_lease_session :: "string option"
  n_lease_seq :: "int option"
  n_lease_expire_at :: "int option"
  n_updated_at :: int
  n_ref_by :: "int option"

record dentry_row =
  d_id :: int
  d_parent :: int
  d_name :: string
  d_target_type :: int
  d_target_inode :: "int option"
  d_target_obj :: "u8 list option"
  d_mtime :: "int option"

definition obj_id_to_blob :: "obj_id \<Rightarrow> u8 list" where
  "obj_id_to_blob oid = obj_id_to_bytes oid"

definition obj_id_from_blob :: "u8 list \<Rightarrow> obj_id rpc_result" where
  "obj_id_from_blob b = (case obj_id_from_bytes b of Inl _ \<Rightarrow> Err (ReasonError ''invalid obj_id bytes: '')
     | Inr oid \<Rightarrow> Ok oid)"

definition symlink_path_to_blob :: "string \<Rightarrow> u8 list" where
  "symlink_path_to_blob path = as_bytes path"

definition symlink_path_from_blob :: "u8 list \<Rightarrow> string rpc_result" where
  "symlink_path_from_blob b = ok_or (string_from_utf8 b) (ReasonError ''invalid symlink path bytes: '')"

fun node_state_cols_of :: "node_state \<Rightarrow> node_state_cols" where
  "node_state_cols_of DirNormal = cols_default\<lparr>k_state := NODE_STATE_DIR_NORMAL\<rparr>"
| "node_state_cols_of DirOverlay = cols_default\<lparr>k_state := NODE_STATE_DIR_OVERLAY\<rparr>"
| "node_state_cols_of FileNormal = cols_default\<lparr>k_state := NODE_STATE_FILE_NORMAL\<rparr>"
| "node_state_cols_of (Working s) = cols_default\<lparr>k_state := NODE_STATE_WORKING,
     k_fb_handle := Some (ws_fb_handle s), k_last_write_at := Some (as_i64 (ws_last_write_at s))\<rparr>"
| "node_state_cols_of (Cooling s) = cols_default\<lparr>k_state := NODE_STATE_COOLING,
     k_fb_handle := Some (cs_fb_handle s), k_closed_at := Some (as_i64 (cs_closed_at s))\<rparr>"
| "node_state_cols_of (Linked s) = cols_default\<lparr>k_state := NODE_STATE_LINKED,
     k_linked_obj_id := Some (obj_id_to_blob (ls_obj_id s)), k_linked_qcid := Some (obj_id_to_blob (ls_qcid s)),
     k_linked_filebuffer_id := Some (ls_filebuffer_id s), k_linked_at := Some (as_i64 (ls_linked_at s))\<rparr>"
| "node_state_cols_of (Finalized s) = cols_default\<lparr>k_state := NODE_STATE_FINALIZED,
     k_finalized_obj_id := Some (obj_id_to_blob (fs_obj_id s)),
     k_finalized_at := Some (as_i64 (fs_finalized_at s))\<rparr>"

text \<open>\<open>row.get\<close> of a value that must not be \<open>NULL\<close>, and of an \<open>i64\<close>.\<close>

definition col_get :: "'a option \<Rightarrow> 'a rpc_result" where
  "col_get c = ok_or c (map_db_err ''invalid column type'')"

definition col_i64 :: "int \<Rightarrow> int rpc_result" where
  "col_i64 v = (if v < 2 ^ 63 then Ok v else Err (map_db_err ''invalid column type''))"

definition col_i64_opt :: "int option \<Rightarrow> int option rpc_result" where
  "col_i64_opt c = (case c of None \<Rightarrow> Ok None | Some v \<Rightarrow> and_then (col_i64 v) (\<lambda>i. Ok (Some i)))"

definition parse_node_state :: "node_state_cols \<Rightarrow> node_state rpc_result" where
  "parse_node_state k =
     (if k_state k = NODE_STATE_DIR_NORMAL then Ok DirNormal
      else if k_state k = NODE_STATE_DIR_OVERLAY then Ok DirOverlay
      else if k_state k = NODE_STATE_FILE_NORMAL then Ok FileNormal
      else if k_state k = NODE_STATE_WORKING then
        and_then (col_get (k_fb_handle k)) (\<lambda>h.
        and_then (col_get (k_last_write_at k)) (\<lambda>t.
        Ok (Working \<lparr>ws_fb_handle = h, ws_last_write_at = as_u64 t\<rparr>)))
      else if k_state k = NODE_STATE_COOLING then
        and_then (col_get (k_fb_handle k)) (\<lambda>h.
        and_then (col_get (k_closed_at k)) (\<lambda>t.
        Ok (Cooling \<lparr>cs_fb_handle = h, cs_closed_at = as_u64 t\<rparr>)))
      else if k_state k = NODE_STATE_LINKED then
        and_then (col_get (k_linked_obj_id k)) (\<lambda>ob.
        and_then (col_get (k_linked_qcid k)) (\<lambda>qb.
        and_then (col_get (k_linked_filebuffer_id k)) (\<lambda>f.
        and_then (col_get (k_linked_at k)) (\<lambda>t.
        and_then (obj_id_from_blob ob) (\<lambda>oid.
        and_then (obj_id_from_blob qb) (\<lambda>q.
        Ok (Linked \<lparr>ls_obj_id = oid, ls_qcid = q, ls_filebuffer_id = f, ls_linked_at = as_u64 t\<rparr>)))))))
      else if k_state k = NODE_STATE_FINALIZED then
        and_then (col_get (k_finalized_obj_id k)) (\<lambda>ob.
        and_then (col_get (k_finalized_at k)) (\<lambda>t.
        and_then (obj_id_from_blob ob) (\<lambda>oid.
        Ok (Finalized \<lparr>fs_obj_id = oid, fs_finalized_at = as_u64 t\<rparr>))))
      else Err (ReasonError ''invalid node state''))"

definition parse_node :: "'j ext_crates \<Rightarrow> node_row \<Rightarrow> 'j node_record rpc_result" where
  "parse_node E r =
     and_then (col_i64_opt (n_rev r)) (\<lambda>rev.
     and_then (col_i64_opt (n_lease_seq r)) (\<lambda>seq.
     and_then (parse_node_state (n_cols r)) (\<lambda>st.
     and_then (case n_base_obj_id r of None \<Rightarrow> Ok None
               | Some b \<Rightarrow> and_then (obj_id_from_blob b) (\<lambda>oid. Ok (Some oid))) (\<lambda>base.
     and_then (case n_meta_json r of None \<Rightarrow> Ok None
               | Some t \<Rightarrow> and_then (ok_or (json_from_str E t) (ReasonError ''invalid meta json: ''))
                                 (\<lambda>v. Ok (Some v))) (\<lambda>meta.
     Ok \<lparr>nd_inode_id = as_u64 (n_inode_id r), nd_ref_by = map_option as_u64 (n_ref_by r), nd_state = st,
         nd_read_only = (n_read_only r \<noteq> 0), nd_base_obj_id = base, nd_rev = map_option as_u64 rev,
         nd_meta = meta, nd_lease_session = n_lease_session r, nd_lease_seq = map_option as_u64 seq,
         nd_lease_expire_at = map_option as_u64 (n_lease_expire_at r)\<rparr>)))))"

fun dentry_target_cols :: "dentry_target \<Rightarrow> int \<times> int option \<times> u8 list option" where
  "dentry_target_cols (TIndexNodeId i) = (DENTRY_TARGET_INODE, Some (as_i64 i), None)"
| "dentry_target_cols (TSymLink path) = (DENTRY_TARGET_SYMLINK, None, Some (symlink_path_to_blob path))"
| "dentry_target_cols (TObjId oid) = (DENTRY_TARGET_OBJ, None, Some (obj_id_to_blob oid))"
| "dentry_target_cols Tombstone = (DENTRY_TARGET_TOMBSTONE, None, None)"

text \<open>Decimal printing of an integer (\<open>format!("{}", n)\<close>).\<close>

fun dec_digits :: "nat \<Rightarrow> string" where
  "dec_digits n = (if n < 10 then [char_of (48 + n)] else dec_digits (n div 10) @ [char_of (48 + n mod 10)])"

declare dec_digits.simps [simp del]

definition fmt_u64 :: "u64 \<Rightarrow> string" where
  "fmt_u64 w = dec_digits (unat w)"

definition fmt_i64 :: "int \<Rightarrow> string" where
  "fmt_i64 i = (if i < 0 then CHR ''-'' # dec_digits (nat (- i)) else dec_digits (nat i))"

definition parse_dentry :: "dentry_row \<Rightarrow> dentry_record rpc_result" where
  "parse_dentry r =
     and_then
       (if d_target_type r = DENTRY_TARGET_INODE then
          and_then (ok_or (d_target_inode r) (ReasonError ''missing target_inode_id''))
            (\<lambda>i. Ok (TIndexNodeId (as_u64 i)))
        else if d_target_type r = DENTRY_TARGET_OBJ then
          and_then (ok_or (d_target_obj r) (ReasonError ''missing target_obj_id''))
            (\<lambda>b. and_then (obj_id_from_blob b) (\<lambda>oid. Ok (TObjId oid)))
        else if d_target_type r = DENTRY_TARGET_TOMBSTONE then Ok Tombstone
        else if d_target_type r = DENTRY_TARGET_SYMLINK then
          (case d_target_obj r of
             Some b \<Rightarrow> and_then (symlink_path_from_blob b) (\<lambda>p. Ok (TSymLink p))
           | None \<Rightarrow> (case d_target_inode r of
                 Some i \<Rightarrow> Ok (TSymLink (''legacy-inode:'' @ fmt_i64 i))
               | None \<Rightarrow> Err (ReasonError ''missing symlink target path'')))
        else Err (ReasonError ''invalid dentry target''))
       (\<lambda>t. Ok \<lparr>de_id = as_u64 (d_id r), de_parent = as_u64 (d_parent r), de_name = d_name r,
                de_target = t, de_mtime = map_option as_u64 (d_mtime r)\<rparr>)"

section \<open>Paths\<close>

definition join_components :: "string list \<Rightarrow> string option" where
  "join_components cs = (if cs = [] then None else Some (CHR ''/'' # str_join (CHR ''/'') cs))"

fun push_segments :: "string list \<Rightarrow> string list \<Rightarrow> string list" where
  "push_segments out [] = out"
| "push_segments out (seg # segs) =
     (if seg = [] \<or> seg = ''.'' then push_segments out segs
      else if seg = ''..'' then push_segments (butlast out) segs
      else push_segments (out @ [seg]) segs)"

definition normalize_symlink_target_path :: "string list \<Rightarrow> string \<Rightarrow> string list \<Rightarrow> string list" where
  "normalize_symlink_target_path parent_prefix target_path tail =
     push_segments (if take 1 target_path = ''/'' then [] else parent_prefix)
       (str_split (CHR ''/'') target_path) @ tail"

end
