(* ===== verification/Fs_Meta_Db.thy ===== *)
theory Fs_Meta_Db
  imports Fs_Meta_Types
begin

text \<open>
  The statements of \<open>FSMetaService\<close> on one database connection
  (\<open>fs_meta/src/fs_meta_service.rs\<close>): inodes, directory entries under optimistic concurrency control
  by the directory's revision, write leases and reference counts of objects.

  The state \<open>fs_conn\<close> holds the tables as the connection sees them and the directory edges that were
  changed through it (\<open>touched_edges\<close>).  One definition per handler, under its name; the argument \<open>txid\<close>
  is the choice of the connection.  A handler that the code runs between \<open>SAVEPOINT\<close> and
  \<open>RELEASE\<close> is under \<open>savepoint\<close>: an error undoes its statements.  The clock is read once per
  handler (\<open>fe_now\<close>).  \<open>fe_rowid\<close> is the rowid that SQLite picks at random when the largest rowid
  is in use.  Failures of the SQL engine other than violated constraints are not modelled.
\<close>

section \<open>Tables and statements\<close>

record stat_row =
  s_obj_id :: "u8 list"
  s_ref_count :: int
  s_zero_since :: "int option"
  s_updated_at :: int

record fs_conn =
  nodes :: "node_row list"
  dentries :: "dentry_row list"
  dentry_seq :: int
  obj_stats :: "stat_row list"
  kv_root :: "int option"
  touched :: "(index_node_id \<times> string) set"

record 'j fs_env =
  fe_crates :: "'j ext_crates"
  fe_now :: u64
  fe_rowid :: "int list \<Rightarrow> int option"

type_synonym 'a st = "fs_conn \<Rightarrow> 'a rpc_result \<times> fs_conn"

definition ret :: "'a \<Rightarrow> 'a st" where
  "ret a s = (Ok a, s)"

definition throw :: "string \<Rightarrow> 'a st" where
  "throw msg s = (Err (ReasonError msg), s)"

definition db_fail :: "string \<Rightarrow> 'a st" where
  "db_fail cause s = (Err (map_db_err cause), s)"

definition bind :: "'a st \<Rightarrow> ('a \<Rightarrow> 'b st) \<Rightarrow> 'b st" where
  "bind m f s = (case m s of (Inl e, s') \<Rightarrow> (Err e, s') | (Inr a, s') \<Rightarrow> f a s')"

definition query :: "(fs_conn \<Rightarrow> 'a rpc_result) \<Rightarrow> 'a st" where
  "query q s = (q s, s)"

definition savepoint :: "'a st \<Rightarrow> 'a st" where
  "savepoint m s = (case m s of (Inl e, _) \<Rightarrow> (Err e, s) | (Inr a, s') \<Rightarrow> (Ok a, s'))"

text \<open>\<open>UPDATE nodes SET ... WHERE ...\<close> returns the number of rows it changed.\<close>

definition update_nodes :: "(node_row \<Rightarrow> bool) \<Rightarrow> (node_row \<Rightarrow> node_row) \<Rightarrow> int st" where
  "update_nodes p f s = (Ok (sql_count p (nodes s)), s\<lparr>nodes := sql_update p f (nodes s)\<rparr>)"

definition node_of :: "int \<Rightarrow> fs_conn \<Rightarrow> node_row option" where
  "node_of i s = find (\<lambda>r. n_inode_id r = i) (nodes s)"

definition dentry_of :: "int \<Rightarrow> string \<Rightarrow> fs_conn \<Rightarrow> dentry_row option" where
  "dentry_of p name s = find (\<lambda>d. d_parent d = p \<and> d_name d = name) (dentries s)"

text \<open>\<open>COALESCE(c, 0)\<close> and \<open>COALESCE(c, 0) + 1\<close>.\<close>

definition coalesce :: "int option \<Rightarrow> int" where
  "coalesce c = (case c of None \<Rightarrow> 0 | Some v \<Rightarrow> v)"

definition coalesce_incr :: "int option \<Rightarrow> int" where
  "coalesce_incr c = min (coalesce c + 1) (2 ^ 63)"

definition now_i64 :: "'j fs_env \<Rightarrow> int" where
  "now_i64 V = as_i64 (fe_now V)"

section \<open>Schema\<close>

definition empty_conn :: fs_conn where
  "empty_conn = \<lparr>nodes = [], dentries = [], dentry_seq = 0, obj_stats = [], kv_root = None, touched = {}\<rparr>"

text \<open>The end of \<open>migrate_schema\<close> recomputes \<open>ref_by\<close> from the directory entries.\<close>

definition migrate_ref_by :: "fs_conn \<Rightarrow> fs_conn" where
  "migrate_ref_by s = s\<lparr>nodes := map (\<lambda>r. r\<lparr>n_ref_by :=
     map_option d_id (find (\<lambda>d. d_target_type d = DENTRY_TARGET_INODE \<and>
                                d_target_inode d = Some (n_inode_id r)) (dentries s))\<rparr>) (nodes s)\<rparr>"

definition root_row :: "int \<Rightarrow> node_row" where
  "root_row now = \<lparr>n_inode_id = 1, n_read_only = 0, n_base_obj_id = None,
     n_cols = cols_default\<lparr>k_state := NODE_STATE_DIR_NORMAL\<rparr>, n_rev = Some 0, n_meta_json = None,
     n_lease_session = None, n_lease_seq = None, n_lease_expire_at = None, n_updated_at = now,
     n_ref_by = None\<rparr>"

definition ensure_root_dir :: "'j fs_env \<Rightarrow> index_node_id st" where
  "ensure_root_dir V s =
     (case kv_root s of
        Some i \<Rightarrow> (Ok (as_u64 i), s)
      | None \<Rightarrow>
          if node_of 1 s \<noteq> None then (Err (ReasonError ''init root node failed: ''), s)
          else (Ok 1, s\<lparr>nodes := nodes s @ [root_row (now_i64 V)], kv_root := Some 1\<rparr>))"

section \<open>Inodes\<close>

definition handle_get_inode :: "'j fs_env \<Rightarrow> index_node_id \<Rightarrow> 'j node_record option st" where
  "handle_get_inode V i = query (\<lambda>s.
     (case node_of (as_i64 i) s of
        None \<Rightarrow> Ok None
      | Some r \<Rightarrow> and_then (parse_node (fe_crates V) r) (\<lambda>n. Ok (Some n))))"

definition node_row_of :: "'j fs_env \<Rightarrow> int \<Rightarrow> 'j node_record \<Rightarrow> node_row rpc_result" where
  "node_row_of V i n =
     and_then (case nd_meta n of None \<Rightarrow> Ok None
               | Some v \<Rightarrow> and_then (ok_or (json_to_str (fe_crates V) v) (ReasonError ''serialize meta failed: ''))
                                 (\<lambda>t. Ok (Some t))) (\<lambda>meta.
     Ok \<lparr>n_inode_id = i, n_read_only = (if nd_read_only n then 1 else 0),
         n_base_obj_id = map_option obj_id_to_blob (nd_base_obj_id n), n_cols = node_state_cols_of (nd_state n),
         n_rev = map_option as_i64 (nd_rev n), n_meta_json = meta, n_lease_session = nd_lease_session n,
         n_lease_seq = map_option as_i64 (nd_lease_seq n),
         n_lease_expire_at = map_option as_i64 (nd_lease_expire_at n), n_updated_at = now_i64 V,
         n_ref_by = map_option as_i64 (nd_ref_by n)\<rparr>)"

definition handle_set_inode :: "'j fs_env \<Rightarrow> 'j node_record \<Rightarrow> unit st" where
  "handle_set_inode V n =
     bind (query (\<lambda>s. node_row_of V (as_i64 (nd_inode_id n)) n)) (\<lambda>row s.
     (Ok (), s\<lparr>nodes := insert_on_conflict n_inode_id (\<lambda>_. row) row (nodes s)\<rparr>))"

definition handle_update_inode_state ::
  "'j fs_env \<Rightarrow> index_node_id \<Rightarrow> node_state \<Rightarrow> node_state \<Rightarrow> unit st" where
  "handle_update_inode_state V i new_state old_state =
     bind (update_nodes
            (\<lambda>r. n_inode_id r = as_i64 i \<and> n_cols r = node_state_cols_of old_state)
            (\<lambda>r. r\<lparr>n_cols := node_state_cols_of new_state, n_updated_at := now_i64 V\<rparr>)) (\<lambda>updated.
     if updated = 0 then
       bind (query (\<lambda>s. Ok (node_of (as_i64 i) s))) (\<lambda>x.
       if x = None then throw ''inode not found'' else throw ''inode state conflict'')
     else ret ())"

definition fresh_rowid :: "'j fs_env \<Rightarrow> int list \<Rightarrow> int option" where
  "fresh_rowid V ids =
     (if ids = [] then Some 1
      else if Max (set ids) < 2 ^ 63 - 1 then Some (Max (set ids) + 1)
      else fe_rowid V ids)"

definition handle_alloc_inode :: "'j fs_env \<Rightarrow> 'j node_record \<Rightarrow> index_node_id st" where
  "handle_alloc_inode V n =
     (if nd_inode_id n = 0 then
        bind (query (\<lambda>s. ok_or (fresh_rowid V (map n_inode_id (nodes s))) (map_db_err ''database or disk is full''))) (\<lambda>i.
        bind (query (\<lambda>s. node_row_of V i n)) (\<lambda>row s.
        (Ok (as_u64 i), s\<lparr>nodes := nodes s @ [row]\<rparr>)))
      else
        bind (query (\<lambda>s. node_row_of V (as_i64 (nd_inode_id n)) n)) (\<lambda>row s.
        if node_of (n_inode_id row) s \<noteq> None then
          (Err (map_db_err ''UNIQUE constraint failed: nodes.inode_id''), s)
        else (Ok (nd_inode_id n), s\<lparr>nodes := nodes s @ [row]\<rparr>)))"

definition get_inode_rev :: "'j fs_env \<Rightarrow> index_node_id \<Rightarrow> u64 st" where
  "get_inode_rev V i =
     bind (handle_get_inode V i) (\<lambda>x.
     case x of None \<Rightarrow> throw ''inode not found''
     | Some n \<Rightarrow> ret (case nd_rev n of None \<Rightarrow> 0 | Some v \<Rightarrow> v))"

definition handle_remove_inode :: "index_node_id \<Rightarrow> index_node_id \<Rightarrow> unit st" where
  "handle_remove_inode root i s =
     (if i = root then (Err (ReasonError ''cannot remove root inode''), s)
      else if node_of (as_i64 i) s = None then (Err (ReasonError ''inode not found''), s)
      else (Ok (), s\<lparr>nodes := sql_delete (\<lambda>r. n_inode_id r = as_i64 i) (nodes s)\<rparr>))"

section \<open>Directory entries\<close>

definition handle_get_dentry :: "index_node_id \<Rightarrow> string \<Rightarrow> dentry_record option st" where
  "handle_get_dentry parent name = query (\<lambda>s.
     (case dentry_of (as_i64 parent) name s of
        None \<Rightarrow> Ok None
      | Some d \<Rightarrow> and_then (parse_dentry d) (\<lambda>r. Ok (Some r))))"

definition handle_list_dentries :: "index_node_id \<Rightarrow> dentry_record list st" where
  "handle_list_dentries parent = query (\<lambda>s.
     collect_results (map parse_dentry (filter (\<lambda>d. d_parent d = as_i64 parent) (dentries s))))"

text \<open>The parts that \<open>create_dentry\<close>, \<open>delete_dentry\<close> and \<open>replace_target\<close> have in common.\<close>

definition check_parent_rev :: "index_node_id \<Rightarrow> u64 \<Rightarrow> unit st" where
  "check_parent_rev parent expected =
     bind (query (\<lambda>s. ok_or (node_of (as_i64 parent) s) (ReasonError ''parent inode not found''))) (\<lambda>r.
     bind (query (\<lambda>s. col_i64 (coalesce (n_rev r)))) (\<lambda>v.
     if as_u64 v \<noteq> expected then throw ''rev mismatch'' else ret ()))"

definition bump_parent_rev :: "'j fs_env \<Rightarrow> index_node_id \<Rightarrow> unit st" where
  "bump_parent_rev V parent =
     bind (update_nodes (\<lambda>r. n_inode_id r = as_i64 parent)
            (\<lambda>r. r\<lparr>n_rev := Some (coalesce_incr (n_rev r)), n_updated_at := now_i64 V\<rparr>)) (\<lambda>_. ret ())"

definition claim_inode :: "'j fs_env \<Rightarrow> int \<Rightarrow> int \<Rightarrow> unit st" where
  "claim_inode V i dentry_id =
     bind (update_nodes (\<lambda>r. n_inode_id r = i \<and> (n_ref_by r = None \<or> n_ref_by r = Some dentry_id))
            (\<lambda>r. r\<lparr>n_ref_by := Some dentry_id, n_updated_at := now_i64 V\<rparr>)) (\<lambda>updated.
     if updated = 0 then
       bind (query (\<lambda>s. Ok (node_of i s))) (\<lambda>x.
       case x of None \<Rightarrow> throw ''inode not found''
       | Some r \<Rightarrow> (case n_ref_by r of
             Some d \<Rightarrow> if d \<noteq> dentry_id then throw ''inode already referenced by another dentry'' else ret ()
           | None \<Rightarrow> ret ()))
     else ret ())"

definition unclaim_inode :: "'j fs_env \<Rightarrow> int \<Rightarrow> int \<Rightarrow> unit st" where
  "unclaim_inode V i dentry_id =
     bind (update_nodes (\<lambda>r. n_inode_id r = i \<and> n_ref_by r = Some dentry_id)
            (\<lambda>r. r\<lparr>n_ref_by := None, n_updated_at := now_i64 V\<rparr>)) (\<lambda>_. ret ())"

text \<open>The unique indexes of \<open>dentries\<close>: \<open>(parent_inode_id, name)\<close> and the inode of an inode target.\<close>

definition inode_target_taken :: "int \<Rightarrow> int \<Rightarrow> int option \<Rightarrow> fs_conn \<Rightarrow> bool" where
  "inode_target_taken self ty tgt s \<longleftrightarrow> ty = DENTRY_TARGET_INODE \<and>
     (\<exists>d \<in> set (dentries s). d_id d \<noteq> self \<and> d_target_type d = DENTRY_TARGET_INODE \<and> d_target_inode d = tgt)"

definition insert_dentry :: "'j fs_env \<Rightarrow> index_node_id \<Rightarrow> string \<Rightarrow> dentry_target \<Rightarrow> int st" where
  "insert_dentry V parent name target s =
     (let (ty, ti, tob) = dentry_target_cols target; i = dentry_seq s + 1
      in if dentry_of (as_i64 parent) name s \<noteq> None then
           (Err (map_db_err ''UNIQUE constraint failed: dentries.parent_inode_id, dentries.name''), s)
         else if inode_target_taken i ty ti s then
           (Err (map_db_err ''UNIQUE constraint failed: dentries.target_inode_id''), s)
         else if 2 ^ 63 - 1 < i then (Err (map_db_err ''database or disk is full''), s)
         else (Ok i, s\<lparr>dentries := dentries s @ [\<lparr>d_id = i, d_parent = as_i64 parent, d_name = name,
                         d_target_type = ty, d_target_inode = ti, d_target_obj = tob,
                         d_mtime = Some (now_i64 V)\<rparr>], dentry_seq := i\<rparr>))"

definition touch_edge :: "index_node_id \<Rightarrow> string \<Rightarrow> bool \<Rightarrow> unit st" where
  "touch_edge parent name changed s =
     (Ok (), if changed then s\<lparr>touched := insert (parent, name) (touched s)\<rparr> else s)"

definition handle_create_dentry ::
  "'j fs_env \<Rightarrow> index_node_id \<Rightarrow> string \<Rightarrow> dentry_target \<Rightarrow> u64 \<Rightarrow> unit st" where
  "handle_create_dentry V parent name target expected_parent_rev =
     bind (savepoint (
       bind (check_parent_rev parent expected_parent_rev) (\<lambda>_.
       bind (query (\<lambda>s. Ok (dentry_of (as_i64 parent) name s))) (\<lambda>x.
       if x \<noteq> None then throw ''dentry already exists''
       else
         bind (insert_dentry V parent name target) (\<lambda>dentry_id.
         bind (case fst (snd (dentry_target_cols target)) of
                 None \<Rightarrow> ret () | Some i \<Rightarrow> claim_inode V i dentry_id) (\<lambda>_.
         bind (bump_parent_rev V parent) (\<lambda>_. ret True))))))) (touch_edge parent name)"

definition handle_delete_dentry :: "'j fs_env \<Rightarrow> index_node_id \<Rightarrow> string \<Rightarrow> u64 \<Rightarrow> unit st" where
  "handle_delete_dentry V parent name expected_parent_rev =
     bind (savepoint (
       bind (check_parent_rev parent expected_parent_rev) (\<lambda>_.
       bind (query (\<lambda>s. Ok (dentry_of (as_i64 parent) name s))) (\<lambda>old.
       bind (\<lambda>s. (Ok (sql_count (\<lambda>d. d_parent d = as_i64 parent \<and> d_name d = name) (dentries s)),
                  s\<lparr>dentries := sql_delete (\<lambda>d. d_parent d = as_i64 parent \<and> d_name d = name) (dentries s)\<rparr>))
       (\<lambda>removed.
       if 0 < removed then
         bind (case old of None \<Rightarrow> ret ()
               | Some d \<Rightarrow> if d_target_type d = DENTRY_TARGET_INODE then
                     (case d_target_inode d of None \<Rightarrow> ret () | Some i \<Rightarrow> unclaim_inode V i (d_id d))
                   else ret ()) (\<lambda>_.
         bind (bump_parent_rev V parent) (\<lambda>_. ret True))
       else ret False))))) (touch_edge parent name)"

definition handle_replace_target ::
  "'j fs_env \<Rightarrow> index_node_id \<Rightarrow> string \<Rightarrow> dentry_target \<Rightarrow> dentry_target \<Rightarrow> u64 \<Rightarrow> unit st" where
  "handle_replace_target V parent name expected_old_target new_target expected_parent_rev =
     bind (savepoint (
       bind (check_parent_rev parent expected_parent_rev) (\<lambda>_.
       bind (query (\<lambda>s. ok_or (dentry_of (as_i64 parent) name s) (ReasonError ''dentry not found''))) (\<lambda>old.
       let old_cols = (d_target_type old, d_target_inode old, d_target_obj old);
           (ty, ti, tob) = dentry_target_cols new_target
       in if old_cols \<noteq> dentry_target_cols expected_old_target then throw ''dentry target mismatch''
          else if old_cols = (ty, ti, tob) then ret False
          else
            bind (\<lambda>s. if inode_target_taken (d_id old) ty ti s then
                    (Err (map_db_err ''UNIQUE constraint failed: dentries.target_inode_id''), s)
                  else (Ok (), s\<lparr>dentries := sql_update (\<lambda>d. d_id d = d_id old)
                          (\<lambda>d. d\<lparr>d_target_type := ty, d_target_inode := ti, d_target_obj := tob,
                                 d_mtime := Some (now_i64 V)\<rparr>) (dentries s)\<rparr>)) (\<lambda>_.
            bind (if d_target_type old = DENTRY_TARGET_INODE \<and> d_target_inode old \<noteq> ti then
                    (case d_target_inode old of None \<Rightarrow> ret () | Some i \<Rightarrow> unclaim_inode V i (d_id old))
                  else ret ()) (\<lambda>_.
            bind (case ti of None \<Rightarrow> ret () | Some i \<Rightarrow> claim_inode V i (d_id old)) (\<lambda>_.
            bind (bump_parent_rev V parent) (\<lambda>_. ret True)))))))) (touch_edge parent name)"

definition handle_bump_dir_rev :: "'j fs_env \<Rightarrow> index_node_id \<Rightarrow> u64 \<Rightarrow> u64 st" where
  "handle_bump_dir_rev V dir expected_rev =
     bind (update_nodes (\<lambda>r. n_inode_id r = as_i64 dir \<and> coalesce (n_rev r) = as_i64 expected_rev)
            (\<lambda>r. r\<lparr>n_rev := Some (coalesce_incr (n_rev r)), n_updated_at := now_i64 V\<rparr>)) (\<lambda>updated.
     if updated = 0 then throw ''rev mismatch or inode not found'' else ret (expected_rev + 1))"

definition upsert_dentry_with_parent_rev ::
  "'j fs_env \<Rightarrow> index_node_id \<Rightarrow> string \<Rightarrow> dentry_target \<Rightarrow> u64 \<Rightarrow> unit st" where
  "upsert_dentry_with_parent_rev V parent name target expected_parent_rev =
     bind (handle_get_dentry parent name) (\<lambda>x.
     case x of
       Some existing \<Rightarrow> handle_replace_target V parent name (de_target existing) target expected_parent_rev
     | None \<Rightarrow> handle_create_dentry V parent name target expected_parent_rev)"

definition set_tombstone_with_parent_rev ::
  "'j fs_env \<Rightarrow> index_node_id \<Rightarrow> string \<Rightarrow> u64 \<Rightarrow> unit st" where
  "set_tombstone_with_parent_rev V parent name expected_parent_rev =
     upsert_dentry_with_parent_rev V parent name Tombstone expected_parent_rev"

section \<open>Write leases\<close>

text \<open>\<open>now.saturating_add(ttl.as_secs() as i64)\<close>\<close>

definition i64_saturating_add :: "int \<Rightarrow> int \<Rightarrow> int" where
  "i64_saturating_add a b = max (- (2 ^ 63)) (min (a + b) (2 ^ 63 - 1))"

definition lease_expire :: "'j fs_env \<Rightarrow> u64 \<Rightarrow> int" where
  "lease_expire V ttl = i64_saturating_add (now_i64 V) (as_i64 ttl)"

definition lease_expired :: "int \<Rightarrow> node_row \<Rightarrow> bool" where
  "lease_expired now r = (case n_lease_expire_at r of None \<Rightarrow> True | Some e \<Rightarrow> e \<le> now)"

definition acquire_file_lease :: "'j fs_env \<Rightarrow> index_node_id \<Rightarrow> string \<Rightarrow> u64 \<Rightarrow> u64 st" where
  "acquire_file_lease V i session ttl =
     bind (update_nodes (\<lambda>r. n_inode_id r = as_i64 i \<and> n_lease_session r = Some session \<and>
                             (case n_lease_expire_at r of None \<Rightarrow> False | Some e \<Rightarrow> now_i64 V < e))
            (\<lambda>r. r\<lparr>n_lease_expire_at := Some (lease_expire V ttl)\<rparr>)) (\<lambda>renewed.
     if 0 < renewed then
       bind (query (\<lambda>s. ok_or (node_of (as_i64 i) s) (map_db_err ''Query returned no rows''))) (\<lambda>r.
       bind (query (\<lambda>s. col_i64 (coalesce (n_lease_seq r)))) (\<lambda>seq. ret (as_u64 seq)))
     else
       bind (update_nodes (\<lambda>r. n_inode_id r = as_i64 i \<and> lease_expired (now_i64 V) r)
              (\<lambda>r. r\<lparr>n_lease_session := Some session, n_lease_seq := Some (coalesce_incr (n_lease_seq r)),
                     n_lease_expire_at := Some (lease_expire V ttl)\<rparr>)) (\<lambda>acquired.
       if 0 < acquired then
         bind (query (\<lambda>s. ok_or (node_of (as_i64 i) s) (map_db_err ''Query returned no rows''))) (\<lambda>r.
         bind (query (\<lambda>s. col_get (n_lease_seq r))) (\<lambda>c.
         bind (query (\<lambda>s. col_i64 c)) (\<lambda>seq. ret (as_u64 seq))))
       else
         bind (query (\<lambda>s. Ok (node_of (as_i64 i) s))) (\<lambda>x.
         if x = None then throw ''inode not found'' else throw ''lease conflict'')))"

definition lease_of :: "index_node_id \<Rightarrow> string \<Rightarrow> u64 \<Rightarrow> node_row \<Rightarrow> bool" where
  "lease_of i session seq r \<longleftrightarrow>
     n_inode_id r = as_i64 i \<and> n_lease_session r = Some session \<and> n_lease_seq r = Some (as_i64 seq)"

definition lease_miss :: "index_node_id \<Rightarrow> unit st" where
  "lease_miss i =
     bind (query (\<lambda>s. Ok (node_of (as_i64 i) s))) (\<lambda>x.
     if x = None then throw ''inode not found'' else throw ''lease mismatch'')"

definition renew_file_lease :: "'j fs_env \<Rightarrow> index_node_id \<Rightarrow> string \<Rightarrow> u64 \<Rightarrow> u64 \<Rightarrow> unit st" where
  "renew_file_lease V i session seq ttl =
     bind (update_nodes (lease_of i session seq)
            (\<lambda>r. r\<lparr>n_lease_expire_at := Some (lease_expire V ttl)\<rparr>)) (\<lambda>updated.
     if updated = 0 then lease_miss i else ret ())"

definition release_file_lease :: "index_node_id \<Rightarrow> string \<Rightarrow> u64 \<Rightarrow> unit st" where
  "release_file_lease i session seq =
     bind (update_nodes (lease_of i session seq)
            (\<lambda>r. r\<lparr>n_lease_session := None, n_lease_expire_at := None\<rparr>)) (\<lambda>updated.
     if updated = 0 then lease_miss i else ret ())"

definition reclaim_expired_write_leases :: "'j fs_env \<Rightarrow> int st" where
  "reclaim_expired_write_leases V =
     update_nodes (\<lambda>r. case n_lease_expire_at r of None \<Rightarrow> False | Some e \<Rightarrow> e \<le> now_i64 V)
       (\<lambda>r. r\<lparr>n_lease_session := None, n_lease_expire_at := None,
              n_cols := (if k_state (n_cols r) = NODE_STATE_WORKING
                         then (n_cols r)\<lparr>k_state := NODE_STATE_COOLING, k_closed_at := Some (now_i64 V)\<rparr>
                         else n_cols r),
              n_updated_at := now_i64 V\<rparr>)"

section \<open>Reference counts of objects\<close>

definition stat_of :: "obj_id \<Rightarrow> fs_conn \<Rightarrow> stat_row option" where
  "stat_of oid s = find (\<lambda>r. s_obj_id r = obj_id_to_blob oid) (obj_stats s)"

definition handle_obj_stat_get :: "obj_id \<Rightarrow> obj_stat option st" where
  "handle_obj_stat_get oid = query (\<lambda>s.
     (case stat_of oid s of
        None \<Rightarrow> Ok None
      | Some r \<Rightarrow> and_then (col_i64 (s_ref_count r)) (\<lambda>c.
          Ok (Some \<lparr>st_obj_id = oid, st_ref_count = as_u64 c,
                    st_zero_since = map_option as_u64 (s_zero_since r), st_updated_at = as_u64 (s_updated_at r)\<rparr>))))"

definition handle_obj_stat_bump :: "'j fs_env \<Rightarrow> obj_id \<Rightarrow> int \<Rightarrow> u64 st" where
  "handle_obj_stat_bump V oid delta =
     (let key = obj_id_to_blob oid; now = now_i64 V
      in bind (if 0 < delta then
                 (\<lambda>s. (Ok (), s\<lparr>obj_stats := insert_on_conflict s_obj_id
                        (\<lambda>r. r\<lparr>s_ref_count := s_ref_count r + delta, s_zero_since := None, s_updated_at := now\<rparr>)
                        \<lparr>s_obj_id = key, s_ref_count = delta, s_zero_since = None, s_updated_at = now\<rparr>
                        (obj_stats s)\<rparr>))
               else
                 bind (\<lambda>s. (Ok (sql_count (\<lambda>r. s_obj_id r = key \<and> 0 \<le> s_ref_count r + delta) (obj_stats s)),
                        s\<lparr>obj_stats := sql_update (\<lambda>r. s_obj_id r = key \<and> 0 \<le> s_ref_count r + delta)
                          (\<lambda>r. r\<lparr>s_ref_count := s_ref_count r + delta,
                                 s_zero_since := (if s_ref_count r + delta = 0 then
                                    Some (case s_zero_since r of None \<Rightarrow> now | Some z \<Rightarrow> z) else None),
                                 s_updated_at := now\<rparr>) (obj_stats s)\<rparr>)) (\<lambda>updated.
                 if updated = 0 then throw ''ref_count would be negative'' else ret ())) (\<lambda>_.
         bind (query (\<lambda>s. ok_or (stat_of oid s) (map_db_err ''Query returned no rows''))) (\<lambda>r.
         bind (query (\<lambda>s. col_i64 (s_ref_count r))) (\<lambda>c. ret (as_u64 c)))))"

definition handle_obj_stat_list_zero :: "u64 \<Rightarrow> u32 \<Rightarrow> obj_id list st" where
  "handle_obj_stat_list_zero older_than limit = query (\<lambda>s.
     collect_results (map (\<lambda>r. obj_id_from_blob (s_obj_id r))
       (take (unat limit) (sort_key (\<lambda>r. the (s_zero_since r))
         (filter (\<lambda>r. s_ref_count r = 0 \<and>
            (case s_zero_since r of None \<Rightarrow> False | Some z \<Rightarrow> z \<le> as_i64 older_than)) (obj_stats s))))))"

definition handle_obj_stat_delete_if_zero :: "obj_id \<Rightarrow> bool st" where
  "handle_obj_stat_delete_if_zero oid s =
     (Ok (0 < sql_count (\<lambda>r. s_obj_id r = obj_id_to_blob oid \<and> s_ref_count r = 0) (obj_stats s)),
      s\<lparr>obj_stats := sql_delete (\<lambda>r. s_obj_id r = obj_id_to_blob oid \<and> s_ref_count r = 0) (obj_stats s)\<rparr>)"

end
