(* ===== verification/Fs_Meta_Inv.thy ===== *)
theory Fs_Meta_Inv
  imports Fs_Meta_Db
begin

text \<open>
  The invariant of the metadata tables and what the directory-entry handlers do on each branch.

  \<^item> \<open>fs_inv\<close>: keys are unique, each inode is the target of at most one entry, that entry's id is
    the inode's \<open>ref_by\<close>, and every inode target exists: the tables form a forest without hard links.
  \<^item> A handler that changes entries succeeds exactly under its guard and then performs one
    explicit update (\<open>created\<close>, \<open>deleted\<close>, \<open>replaced\<close>); an error leaves the connection unchanged.
  \<^item> \<open>db_step\<close> is the transition relation of all handlers on a connection; the invariant holds in
    every state reachable from an initialised database.
\<close>

named_theorems st_simps \<open>evaluation of the statements of a connection\<close>

lemmas [st_simps] = ret_def throw_def db_fail_def bind_def query_def savepoint_def update_nodes_def

lemma bind_eq_Ok [st_simps]:
  "bind m f s = (Ok b, s') \<longleftrightarrow> (\<exists>a s1. m s = (Ok a, s1) \<and> f a s1 = (Ok b, s'))"
  by (auto simp: bind_def split: prod.splits sum.splits)

lemma sql_update_none: "(\<And>r. r \<in> set t \<Longrightarrow> \<not> p r) \<Longrightarrow> sql_update p f t = t"
  by (auto simp: sql_update_def intro: map_idI)

section \<open>Keys\<close>

definition inode_entry :: "int \<Rightarrow> dentry_row \<Rightarrow> bool" where
  "inode_entry i d \<longleftrightarrow> d_target_type d = DENTRY_TARGET_INODE \<and> d_target_inode d = Some i"

definition ref_of :: "int \<Rightarrow> dentry_row list \<Rightarrow> int option" where
  "ref_of i ds = map_option d_id (find (inode_entry i) ds)"

text \<open>The \<open>CHECK\<close> constraint of the table \<open>dentries\<close>; its integer column holds an \<open>i64\<close>.\<close>

definition dentry_check :: "dentry_row \<Rightarrow> bool" where
  "dentry_check d \<longleftrightarrow> (\<forall>i. d_target_inode d = Some i \<longrightarrow> - (2 ^ 63) \<le> i \<and> i < 2 ^ 63) \<and>
    ((d_target_type d = 0 \<and> d_target_inode d \<noteq> None \<and> d_target_obj d = None) \<or>
     (d_target_type d = 1 \<and> d_target_inode d = None \<and> d_target_obj d \<noteq> None) \<or>
     (d_target_type d = 2 \<and> d_target_inode d = None \<and> d_target_obj d = None) \<or>
     (d_target_type d = 3 \<and> d_target_inode d = None \<and> d_target_obj d \<noteq> None))"

definition fs_inv :: "fs_conn \<Rightarrow> bool" where
  "fs_inv s \<longleftrightarrow>
     distinct (map n_inode_id (nodes s)) \<and>
     distinct (map d_id (dentries s)) \<and>
     (\<forall>d \<in> set (dentries s). d_id d \<le> dentry_seq s) \<and>
     distinct (map (\<lambda>d. (d_parent d, d_name d)) (dentries s)) \<and>
     (\<forall>d \<in> set (dentries s). dentry_check d) \<and>
     (\<forall>d \<in> set (dentries s). \<forall>d' \<in> set (dentries s). \<forall>i.
        inode_entry i d \<longrightarrow> inode_entry i d' \<longrightarrow> d = d') \<and>
     (\<forall>r \<in> set (nodes s). n_ref_by r = ref_of (n_inode_id r) (dentries s)) \<and>
     (\<forall>d \<in> set (dentries s). \<forall>i. inode_entry i d \<longrightarrow> i \<in> n_inode_id ` set (nodes s))"

text \<open>What the invariant depends on.\<close>

definition node_keys :: "fs_conn \<Rightarrow> (int \<times> int option) list" where
  "node_keys s = map (\<lambda>r. (n_inode_id r, n_ref_by r)) (nodes s)"

lemma node_keys_ids: "map n_inode_id (nodes s) = map fst (node_keys s)"
  by (simp add: node_keys_def comp_def)

lemma node_keys_refs:
  "(\<forall>r \<in> set (nodes s). n_ref_by r = ref_of (n_inode_id r) ds) \<longleftrightarrow>
     (\<forall>(i, x) \<in> set (node_keys s). x = ref_of i ds)"
  by (auto simp: node_keys_def)

lemma node_keys_dom: "n_inode_id ` set (nodes s) = fst ` set (node_keys s)"
  by (force simp: node_keys_def)

lemma fs_inv_cong:
  assumes "node_keys s = node_keys s'" and "dentries s = dentries s'" and "dentry_seq s = dentry_seq s'"
  shows "fs_inv s = fs_inv s'"
  unfolding fs_inv_def node_keys_ids node_keys_refs node_keys_dom assms ..

lemma node_keys_update_same [simp]:
  assumes "\<And>r. n_inode_id (f r) = n_inode_id r" and "\<And>r. n_ref_by (f r) = n_ref_by r"
  shows "node_keys (s\<lparr>nodes := sql_update p f (nodes s)\<rparr>) = node_keys s"
  by (auto simp: node_keys_def sql_update_def assms)

lemma find_unique:
  assumes "distinct (map key xs)" and "x \<in> set xs" and "key x = k"
  shows "find (\<lambda>y. key y = k) xs = Some x"
  using assms by (induction xs) force+

lemma find_Some_iff_mem:
  assumes "distinct (map key xs)"
  shows "find (\<lambda>y. key y = k) xs = Some x \<longleftrightarrow> x \<in> set xs \<and> key x = k"
  using find_unique [OF assms] by (auto simp: find_Some_iff in_set_conv_nth)

lemma find_key_update:
  assumes "\<And>r. key (f r) = key r"
  shows "find (\<lambda>y. key y = k) (sql_update p f xs) =
           map_option (\<lambda>r. if p r then f r else r) (find (\<lambda>y. key y = k) xs)"
  by (induction xs) (auto simp: sql_update_def assms)

lemma node_of_mem:
  "distinct (map n_inode_id (nodes s)) \<Longrightarrow> node_of i s = Some r \<longleftrightarrow> r \<in> set (nodes s) \<and> n_inode_id r = i"
  by (simp add: node_of_def find_Some_iff_mem)

lemma node_of_None: "node_of i s = None \<longleftrightarrow> i \<notin> n_inode_id ` set (nodes s)"
  by (auto simp: node_of_def find_None_iff)

lemma node_of_update [simp]:
  assumes "\<And>r. n_inode_id (f r) = n_inode_id r"
  shows "node_of i (s\<lparr>nodes := sql_update p f (nodes s)\<rparr>) =
           map_option (\<lambda>r. if p r then f r else r) (node_of i s)"
  using find_key_update [where key = n_inode_id and f = f and k = i, OF assms] by (simp add: node_of_def)

lemma dentry_of_mem:
  assumes "distinct (map (\<lambda>d. (d_parent d, d_name d)) (dentries s))"
  shows "dentry_of p name s = Some d \<longleftrightarrow> d \<in> set (dentries s) \<and> d_parent d = p \<and> d_name d = name"
  using find_Some_iff_mem [OF assms, where k = "(p, name)" and x = d] by (simp add: dentry_of_def)

lemma dentry_of_SomeD:
  "dentry_of p name s = Some d \<Longrightarrow> d \<in> set (dentries s) \<and> d_parent d = p \<and> d_name d = name"
  by (auto simp: dentry_of_def find_Some_iff)

lemma dentry_of_None:
  "dentry_of p name s = None \<longleftrightarrow> (\<forall>d \<in> set (dentries s). \<not> (d_parent d = p \<and> d_name d = name))"
  by (auto simp: dentry_of_def find_None_iff)

lemma ref_of_None: "ref_of i ds = None \<longleftrightarrow> (\<forall>d \<in> set ds. \<not> inode_entry i d)"
  by (auto simp: ref_of_def find_None_iff)

lemma ref_of_mem:
  assumes "\<And>d d'. d \<in> set ds \<Longrightarrow> d' \<in> set ds \<Longrightarrow> inode_entry i d \<Longrightarrow> inode_entry i d' \<Longrightarrow> d = d'"
    and "d \<in> set ds" and "inode_entry i d"
  shows "ref_of i ds = Some (d_id d)"
  using assms by (induction ds) (auto simp: ref_of_def)

lemma dentry_target_cols_inode:
  "dentry_target_cols t = (ty, ti, tob) \<Longrightarrow>
     (ty = DENTRY_TARGET_INODE \<longleftrightarrow> ti \<noteq> None) \<and> (\<forall>i. ti = Some i \<longrightarrow> tob = None)"
  by (cases t) auto

section \<open>The guard of the revision\<close>

definition parent_rev :: "index_node_id \<Rightarrow> fs_conn \<Rightarrow> u64 option" where
  "parent_rev p s = (case node_of (as_i64 p) s of None \<Rightarrow> None
     | Some r \<Rightarrow> if coalesce (n_rev r) < 2 ^ 63 then Some (as_u64 (coalesce (n_rev r))) else None)"

lemma check_parent_rev_Ok [st_simps]:
  "check_parent_rev p v s = (Ok a, s') \<longleftrightarrow> parent_rev p s = Some v \<and> s' = s"
  by (auto simp: check_parent_rev_def parent_rev_def st_simps col_i64_def ok_or_def
      split: option.splits if_splits)

lemma check_parent_rev_state: "check_parent_rev p v s = (r, s') \<Longrightarrow> s' = s"
  by (auto simp: check_parent_rev_def bind_def query_def throw_def ret_def col_i64_def ok_or_def
      split: option.splits if_splits)

definition rev_bumped :: "'j fs_env \<Rightarrow> index_node_id \<Rightarrow> fs_conn \<Rightarrow> fs_conn" where
  "rev_bumped V p s = s\<lparr>nodes := sql_update (\<lambda>r. n_inode_id r = as_i64 p)
     (\<lambda>r. r\<lparr>n_rev := Some (coalesce_incr (n_rev r)), n_updated_at := now_i64 V\<rparr>) (nodes s)\<rparr>"

lemma bump_parent_rev_eq [st_simps]: "bump_parent_rev V p s = (Ok (), rev_bumped V p s)"
  by (simp add: bump_parent_rev_def rev_bumped_def bind_def update_nodes_def ret_def)

definition claimed :: "'j fs_env \<Rightarrow> int \<Rightarrow> int \<Rightarrow> fs_conn \<Rightarrow> fs_conn" where
  "claimed V i d s = s\<lparr>nodes := sql_update
     (\<lambda>r. n_inode_id r = i \<and> (n_ref_by r = None \<or> n_ref_by r = Some d))
     (\<lambda>r. r\<lparr>n_ref_by := Some d, n_updated_at := now_i64 V\<rparr>) (nodes s)\<rparr>"

definition unclaimed :: "'j fs_env \<Rightarrow> int \<Rightarrow> int \<Rightarrow> fs_conn \<Rightarrow> fs_conn" where
  "unclaimed V i d s = s\<lparr>nodes := sql_update (\<lambda>r. n_inode_id r = i \<and> n_ref_by r = Some d)
     (\<lambda>r. r\<lparr>n_ref_by := None, n_updated_at := now_i64 V\<rparr>) (nodes s)\<rparr>"

lemma unclaim_inode_eq [st_simps]: "unclaim_inode V i d s = (Ok (), unclaimed V i d s)"
  by (simp add: unclaim_inode_def unclaimed_def bind_def update_nodes_def ret_def)

definition claimable :: "int \<Rightarrow> int \<Rightarrow> fs_conn \<Rightarrow> bool" where
  "claimable i d s \<longleftrightarrow> (\<exists>r. node_of i s = Some r \<and> (n_ref_by r = None \<or> n_ref_by r = Some d))"

lemma claim_inode_Ok:
  assumes "distinct (map n_inode_id (nodes s))"
  shows "claim_inode V i d s = (Ok a, s') \<longleftrightarrow> claimable i d s \<and> s' = claimed V i d s"
proof (cases "sql_count (\<lambda>r. n_inode_id r = i \<and> (n_ref_by r = None \<or> n_ref_by r = Some d)) (nodes s) = 0")
  case True
  let ?s1 = "claimed V i d s"
  have none: "\<And>r. r \<in> set (nodes s) \<Longrightarrow> \<not> (n_inode_id r = i \<and> (n_ref_by r = None \<or> n_ref_by r = Some d))"
    using True by (auto simp: sql_count_zero)
  then have "nodes ?s1 = nodes s"
    by (simp add: claimed_def sql_update_none)
  then have same: "node_of i ?s1 = node_of i s" by (simp add: node_of_def)
  have nc: "\<not> claimable i d s" using none assms by (auto simp: claimable_def node_of_mem)
  have "claim_inode V i d s = (case node_of i s of None \<Rightarrow> (Err (ReasonError ''inode not found''), ?s1)
      | Some r \<Rightarrow> (case n_ref_by r of Some x \<Rightarrow>
          if x \<noteq> d then (Err (ReasonError ''inode already referenced by another dentry''), ?s1) else (Ok (), ?s1)
        | None \<Rightarrow> (Ok (), ?s1)))"
    unfolding claim_inode_def bind_def update_nodes_def query_def claimed_def [symmetric] True
    using same by (auto simp: throw_def ret_def split: option.splits)
  with nc show ?thesis by (auto simp: claimable_def split: option.splits if_splits)
next
  case False
  then have "claimable i d s" using assms by (auto simp: sql_count_zero claimable_def node_of_mem)
  with False show ?thesis
    by (auto simp: claim_inode_def bind_def update_nodes_def ret_def claimed_def)
qed

section \<open>What the handlers do\<close>

definition new_dentry :: "'j fs_env \<Rightarrow> index_node_id \<Rightarrow> string \<Rightarrow> dentry_target \<Rightarrow> fs_conn \<Rightarrow> dentry_row" where
  "new_dentry V p name t s = (let (ty, ti, tob) = dentry_target_cols t in
     \<lparr>d_id = dentry_seq s + 1, d_parent = as_i64 p, d_name = name, d_target_type = ty, d_target_inode = ti,
      d_target_obj = tob, d_mtime = Some (now_i64 V)\<rparr>)"

definition inode_target :: "dentry_target \<Rightarrow> int option" where
  "inode_target t = fst (snd (dentry_target_cols t))"

definition claim_target :: "'j fs_env \<Rightarrow> dentry_target \<Rightarrow> int \<Rightarrow> fs_conn \<Rightarrow> fs_conn" where
  "claim_target V t d s = (case inode_target t of None \<Rightarrow> s | Some i \<Rightarrow> claimed V i d s)"

definition target_free :: "dentry_target \<Rightarrow> int \<Rightarrow> fs_conn \<Rightarrow> bool" where
  "target_free t d s \<longleftrightarrow> (\<forall>i. inode_target t = Some i \<longrightarrow> claimable i d s \<and>
     \<not> (\<exists>e \<in> set (dentries s). d_id e \<noteq> d \<and> inode_entry i e))"

definition created :: "'j fs_env \<Rightarrow> index_node_id \<Rightarrow> string \<Rightarrow> dentry_target \<Rightarrow> fs_conn \<Rightarrow> fs_conn" where
  "created V p name t s =
     (let d = new_dentry V p name t s;
          s1 = s\<lparr>dentries := dentries s @ [d], dentry_seq := dentry_seq s + 1\<rparr>
      in rev_bumped V p (claim_target V t (d_id d) s1))\<lparr>touched := insert (p, name) (touched s)\<rparr>"

definition create_guard :: "index_node_id \<Rightarrow> string \<Rightarrow> dentry_target \<Rightarrow> u64 \<Rightarrow> fs_conn \<Rightarrow> bool" where
  "create_guard p name t v s \<longleftrightarrow> parent_rev p s = Some v \<and> dentry_of (as_i64 p) name s = None \<and>
     dentry_seq s + 1 < 2 ^ 63 \<and> target_free t (dentry_seq s + 1) s"

lemma inode_target_taken_iff:
  "inode_target_taken d (fst (dentry_target_cols t)) (inode_target t) s \<longleftrightarrow>
     (\<exists>i. inode_target t = Some i \<and> (\<exists>e \<in> set (dentries s). d_id e \<noteq> d \<and> inode_entry i e))"
  by (cases t) (auto simp: inode_target_taken_def inode_target_def inode_entry_def)

lemma node_of_dentries [simp]:
  "node_of i (s\<lparr>dentries := ds, dentry_seq := q\<rparr>) = node_of i s" "node_of i (s\<lparr>dentries := ds\<rparr>) = node_of i s"
  by (simp_all add: node_of_def)

lemma insert_dentry_Ok:
  "insert_dentry V p name t s = (Ok a, s') \<longleftrightarrow>
     a = dentry_seq s + 1 \<and> dentry_of (as_i64 p) name s = None \<and>
     \<not> inode_target_taken a (fst (dentry_target_cols t)) (inode_target t) s \<and> dentry_seq s + 1 < 2 ^ 63 \<and>
     s' = s\<lparr>dentries := dentries s @ [new_dentry V p name t s], dentry_seq := dentry_seq s + 1\<rparr>"
  by (cases "dentry_target_cols t") (auto simp: insert_dentry_def new_dentry_def inode_target_def Let_def)

lemma touch_edge_eq [st_simps]:
  "touch_edge p name c s = (Ok (), if c then s\<lparr>touched := insert (p, name) (touched s)\<rparr> else s)"
  by (simp add: touch_edge_def)

lemma savepoint_Ok: "savepoint m s = (Ok a, s') \<longleftrightarrow> m s = (Ok a, s')"
  by (auto simp: savepoint_def split: prod.splits sum.splits)

lemma savepoint_Err: "savepoint m s = (Err e, s') \<longleftrightarrow> (\<exists>s1. m s = (Err e, s1)) \<and> s' = s"
  by (auto simp: savepoint_def split: prod.splits sum.splits)

lemma bind_savepoint_Err:
  assumes "bind (savepoint m) (touch_edge p name) s = (Err e, s')"
  shows "s' = s"
  using assms by (auto simp: bind_def touch_edge_def savepoint_def split: prod.splits sum.splits)

lemma touched_frame [simp]:
  "touched (rev_bumped V p s) = touched s" "touched (claimed V i d s) = touched s"
  "touched (unclaimed V i d s) = touched s"
  by (simp_all add: rev_bumped_def claimed_def unclaimed_def)

lemma touched_claim_target [simp]: "touched (claim_target V t d s) = touched s"
  by (simp add: claim_target_def split: option.splits)

lemma target_free_insert:
  assumes "\<not> inode_target_taken d (fst (dentry_target_cols t)) (inode_target t) s"
  shows "target_free t d s \<longleftrightarrow> (\<forall>i. inode_target t = Some i \<longrightarrow> claimable i d s)"
  using assms by (auto simp: target_free_def inode_target_taken_iff)

lemma handle_create_dentry_Ok:
  assumes "distinct (map n_inode_id (nodes s))"
  shows "handle_create_dentry V p name t v s = (Ok a, s') \<longleftrightarrow>
           create_guard p name t v s \<and> s' = created V p name t s"
proof -
  let ?d = "dentry_seq s + 1"
  let ?s1 = "s\<lparr>dentries := dentries s @ [new_dentry V p name t s], dentry_seq := ?d\<rparr>"
  have dist: "distinct (map n_inode_id (nodes ?s1))" using assms by simp
  have cl: "claimable i d ?s1 = claimable i d s" for i d by (simp add: claimable_def)
  have id: "d_id (new_dentry V p name t s) = ?d" by (cases "dentry_target_cols t") (simp add: new_dentry_def)
  have claim: "(case inode_target t of None \<Rightarrow> ret () | Some i \<Rightarrow> claim_inode V i ?d) ?s1 = (Ok b, s2) \<longleftrightarrow>
      (\<forall>i. inode_target t = Some i \<longrightarrow> claimable i ?d s) \<and> s2 = claim_target V t ?d ?s1" for b s2
    by (cases "inode_target t") (auto simp: claim_inode_Ok [OF dist] cl claim_target_def ret_def)
  have tf: "target_free t ?d s \<longleftrightarrow> (\<forall>i. inode_target t = Some i \<longrightarrow> claimable i ?d s) \<and>
      \<not> inode_target_taken ?d (fst (dentry_target_cols t)) (inode_target t) s"
    by (auto simp: target_free_def inode_target_taken_iff)
  have ins: "bind (insert_dentry V p name t) (\<lambda>d. bind (case inode_target t of None \<Rightarrow> ret () | Some i \<Rightarrow> claim_inode V i d)
      (\<lambda>_. bind (bump_parent_rev V p) (\<lambda>_. ret True))) s = (Ok c, s2) \<longleftrightarrow>
      dentry_of (as_i64 p) name s = None \<and> ?d < 2 ^ 63 \<and> target_free t ?d s \<and> c = True \<and>
      s2 = rev_bumped V p (claim_target V t ?d ?s1)" for c s2
    unfolding tf bind_eq_Ok insert_dentry_Ok bump_parent_rev_eq
    by (auto simp: claim ret_def)
  have sav: "savepoint (bind (check_parent_rev p v) (\<lambda>_. bind (query (\<lambda>s. Ok (dentry_of (as_i64 p) name s))) (\<lambda>x.
      if x \<noteq> None then throw ''dentry already exists'' else
      bind (insert_dentry V p name t) (\<lambda>d. bind (case inode_target t of None \<Rightarrow> ret () | Some i \<Rightarrow> claim_inode V i d)
      (\<lambda>_. bind (bump_parent_rev V p) (\<lambda>_. ret True)))))) s = (Ok c, s2) \<longleftrightarrow>
      create_guard p name t v s \<and> c = True \<and> s2 = rev_bumped V p (claim_target V t ?d ?s1)" for c s2
    unfolding savepoint_Ok bind_eq_Ok [of "check_parent_rev p v"] check_parent_rev_Ok bind_eq_Ok [of "query _"] query_def
    by (auto simp: throw_def ins create_guard_def)
  show ?thesis
    unfolding handle_create_dentry_def inode_target_def [symmetric] bind_eq_Ok [of "savepoint _"] sav
    by (auto simp: touch_edge_eq created_def Let_def id)
qed

section \<open>Preservation of the invariant\<close>

lemma node_keys_claimed:
  "node_keys (claimed V i d s) =
     map (\<lambda>(j, x). if j = i \<and> (x = None \<or> x = Some d) then (j, Some d) else (j, x)) (node_keys s)"
  by (auto simp: node_keys_def claimed_def sql_update_def)

lemma node_keys_unclaimed:
  "node_keys (unclaimed V i d s) =
     map (\<lambda>(j, x). if j = i \<and> x = Some d then (j, None) else (j, x)) (node_keys s)"
  by (auto simp: node_keys_def unclaimed_def sql_update_def)

lemma node_keys_rev_bumped [simp]: "node_keys (rev_bumped V p s) = node_keys s"
  by (simp add: rev_bumped_def)

lemma tables_frame [simp]:
  "dentries (rev_bumped V p s) = dentries s" "dentry_seq (rev_bumped V p s) = dentry_seq s"
  "dentries (claimed V i d s) = dentries s" "dentry_seq (claimed V i d s) = dentry_seq s"
  "dentries (unclaimed V i d s) = dentries s" "dentry_seq (unclaimed V i d s) = dentry_seq s"
  by (simp_all add: rev_bumped_def claimed_def unclaimed_def)

lemma tables_claim_target [simp]:
  "dentries (claim_target V t d s) = dentries s" "dentry_seq (claim_target V t d s) = dentry_seq s"
  by (simp_all add: claim_target_def split: option.splits)

lemma node_keys_dentries [simp]:
  "node_keys (s\<lparr>dentries := ds, dentry_seq := q\<rparr>) = node_keys s" "node_keys (s\<lparr>dentries := ds\<rparr>) = node_keys s"
  "node_keys (s\<lparr>touched := e\<rparr>) = node_keys s"
  by (simp_all add: node_keys_def)

text \<open>The invariant in terms of the keys of the inodes.\<close>

definition keys_ok :: "(int \<times> int option) list \<Rightarrow> dentry_row list \<Rightarrow> int \<Rightarrow> bool" where
  "keys_ok ks ds q \<longleftrightarrow>
     distinct (map fst ks) \<and> distinct (map d_id ds) \<and> (\<forall>d \<in> set ds. d_id d \<le> q) \<and>
     distinct (map (\<lambda>d. (d_parent d, d_name d)) ds) \<and> (\<forall>d \<in> set ds. dentry_check d) \<and>
     (\<forall>d \<in> set ds. \<forall>d' \<in> set ds. \<forall>i. inode_entry i d \<longrightarrow> inode_entry i d' \<longrightarrow> d = d') \<and>
     (\<forall>(i, x) \<in> set ks. x = ref_of i ds) \<and>
     (\<forall>d \<in> set ds. \<forall>i. inode_entry i d \<longrightarrow> i \<in> fst ` set ks)"

lemma fs_inv_keys: "fs_inv s \<longleftrightarrow> keys_ok (node_keys s) (dentries s) (dentry_seq s)"
  unfolding fs_inv_def keys_ok_def node_keys_ids node_keys_refs node_keys_dom ..

lemma ref_of_append:
  "ref_of i (ds @ [d]) = (case ref_of i ds of None \<Rightarrow> if inode_entry i d then Some (d_id d) else None
     | Some x \<Rightarrow> Some x)"
  by (induction ds) (auto simp: ref_of_def)

definition set_key :: "int option \<Rightarrow> int option \<Rightarrow> (int \<times> int option) list \<Rightarrow> (int \<times> int option) list" where
  "set_key i v ks = map (\<lambda>(j, x). if Some j = i then (j, v) else (j, x)) ks"

lemma fst_set_key [simp]: "map fst (set_key i v ks) = map fst ks" "fst ` set (set_key i v ks) = fst ` set ks"
proof -
  show m: "map fst (set_key i v ks) = map fst ks" by (auto simp: set_key_def)
  then show "fst ` set (set_key i v ks) = fst ` set ks" by (metis set_map)
qed

lemma set_key_None [simp]: "set_key None v ks = ks"
  by (simp add: set_key_def case_prod_unfold)

lemma set_key_mem: "(j, x) \<in> set (set_key i v ks) \<Longrightarrow>
    (Some j = i \<and> x = v \<and> j \<in> fst ` set ks) \<or> (Some j \<noteq> i \<and> (j, x) \<in> set ks)"
  by (force simp: set_key_def split: if_splits)

lemma claim_keys:
  assumes "\<forall>x. (i, x) \<in> set ks \<longrightarrow> x = None"
  shows "map (\<lambda>(j, x). if j = i \<and> (x = None \<or> x = Some d) then (j, Some d) else (j, x)) ks = set_key (Some i) (Some d) ks"
  using assms by (induction ks) (auto simp: set_key_def)

lemma keys_ok_append:
  assumes ok: "keys_ok ks ds q" and d: "d_id d = q + 1" "dentry_check d"
    and key: "\<forall>e \<in> set ds. \<not> (d_parent e = d_parent d \<and> d_name e = d_name d)"
    and tgt: "\<And>i. inode_entry i d \<Longrightarrow> i \<in> fst ` set ks \<and> (\<forall>e \<in> set ds. \<not> inode_entry i e)"
    and i: "\<And>j. inode_entry j d \<longleftrightarrow> i = Some j"
  shows "keys_ok (set_key i (Some (q + 1)) ks) (ds @ [d]) (q + 1)"
proof -
  have refs: "x = ref_of j (ds @ [d])" if m: "(j, x) \<in> set (set_key i (Some (q + 1)) ks)" for j x
  proof (cases "Some j = i")
    case True
    then have e: "inode_entry j d" using i by simp
    then have "ref_of j ds = None" using tgt [OF e] by (simp add: ref_of_None)
    with True e set_key_mem [OF m] d show ?thesis by (auto simp: ref_of_append)
  next
    case False
    then have ne: "\<not> inode_entry j d" using i by auto
    have "(j, x) \<in> set ks" using set_key_mem [OF m] False by simp
    then have "x = ref_of j ds" using ok by (auto simp: keys_ok_def)
    with ne show ?thesis by (simp add: ref_of_append split: option.splits)
  qed
  show ?thesis
    unfolding keys_ok_def
  proof (intro conjI)
    show "distinct (map d_id (ds @ [d]))" using ok d by (force simp: keys_ok_def)
    show "\<forall>e \<in> set (ds @ [d]). d_id e \<le> q + 1" using ok d by (force simp: keys_ok_def)
    show "distinct (map (\<lambda>d. (d_parent d, d_name d)) (ds @ [d]))" using ok key by (auto simp: keys_ok_def)
    show "\<forall>e \<in> set (ds @ [d]). \<forall>d' \<in> set (ds @ [d]). \<forall>i. inode_entry i e \<longrightarrow> inode_entry i d' \<longrightarrow> e = d'"
      using ok tgt by (auto simp: keys_ok_def)
    show "\<forall>(i, x) \<in> set (set_key i (Some (q + 1)) ks). x = ref_of i (ds @ [d])" using refs by auto
    show "\<forall>e \<in> set (ds @ [d]). \<forall>j. inode_entry j e \<longrightarrow> j \<in> fst ` set (set_key i (Some (q + 1)) ks)"
      using ok tgt by (auto simp: keys_ok_def)
  qed (use ok d in \<open>auto simp: keys_ok_def\<close>)
qed

lemma inode_entry_cols:
  assumes "dentry_target_cols t = (d_target_type d, d_target_inode d, d_target_obj d)"
  shows "inode_entry i d \<longleftrightarrow> inode_target t = Some i" and "dentry_check d"
proof -
  show "inode_entry i d \<longleftrightarrow> inode_target t = Some i"
    using assms by (cases t) (auto simp: inode_entry_def inode_target_def)
  have "- (2 ^ 63) \<le> as_i64 w" "as_i64 w < 2 ^ 63" for w
    using sint_ge [of w] sint_lt [of w] by (simp_all add: as_i64_def)
  then show "dentry_check d"
    using assms by (cases t; simp add: dentry_check_def; metis option.distinct(1) option.inject)
qed

lemma new_dentry_simps [simp]:
  "d_id (new_dentry V p name t s) = dentry_seq s + 1" "d_parent (new_dentry V p name t s) = as_i64 p"
  "d_name (new_dentry V p name t s) = name"
  "inode_entry i (new_dentry V p name t s) \<longleftrightarrow> inode_target t = Some i" "dentry_check (new_dentry V p name t s)"
  using inode_entry_cols [of t "new_dentry V p name t s"]
  by (cases "dentry_target_cols t"; simp add: new_dentry_def)+

lemma node_keys_claim_target:
  assumes "target_free t d s"
    and "\<And>i. inode_target t = Some i \<Longrightarrow> \<forall>x. (i, x) \<in> set (node_keys s) \<longrightarrow> x = None \<or> x = Some d"
  shows "node_keys (claim_target V t d s) = set_key (inode_target t) (Some d) (node_keys s)"
  using assms(2) by (cases "inode_target t") (auto simp: claim_target_def node_keys_claimed set_key_def)

lemma claimable_key: "claimable i d s \<Longrightarrow> i \<in> fst ` set (node_keys s)"
  unfolding node_keys_dom [symmetric] by (metis claimable_def node_of_None option.distinct(1))

lemma fs_inv_created:
  assumes "fs_inv s" and "create_guard p name t v s"
  shows "fs_inv (created V p name t s)"
proof -
  let ?d = "new_dentry V p name t s"
  let ?s1 = "s\<lparr>dentries := dentries s @ [?d], dentry_seq := dentry_seq s + 1\<rparr>"
  have tf: "target_free t (dentry_seq s + 1) s" and dn: "dentry_of (as_i64 p) name s = None"
    using assms(2) by (auto simp: create_guard_def)
  have none: "\<forall>e \<in> set (dentries s). \<not> inode_entry i e" if "inode_target t = Some i" for i
    using tf that assms(1) by (force simp: target_free_def fs_inv_def)
  have keys: "node_keys (claim_target V t (dentry_seq s + 1) ?s1) =
      set_key (inode_target t) (Some (dentry_seq s + 1)) (node_keys s)"
  proof -
    have "x = None" if "inode_target t = Some i" "(i, x) \<in> set (node_keys s)" for i x
      using none [OF that(1)] that(2) assms(1) by (auto simp: fs_inv_keys keys_ok_def ref_of_None [symmetric])
    then have "\<forall>i x. inode_target t = Some i \<longrightarrow> (i, x) \<in> set (node_keys s) \<longrightarrow> x = None" by blast
    then show ?thesis
      by (cases "inode_target t") (fastforce simp: claim_target_def node_keys_claimed set_key_def)+
  qed
  have "keys_ok (set_key (inode_target t) (Some (dentry_seq s + 1)) (node_keys s)) (dentries s @ [?d]) (dentry_seq s + 1)"
  proof (rule keys_ok_append)
    show "keys_ok (node_keys s) (dentries s) (dentry_seq s)" using assms(1) by (simp add: fs_inv_keys)
    show "\<forall>e \<in> set (dentries s). \<not> (d_parent e = d_parent ?d \<and> d_name e = d_name ?d)"
      using dn by (simp add: dentry_of_None)
    show "i \<in> fst ` set (node_keys s) \<and> (\<forall>e \<in> set (dentries s). \<not> inode_entry i e)" if "inode_entry i ?d" for i
      using that none tf claimable_key by (auto simp: target_free_def)
  qed auto
  then show ?thesis by (simp add: fs_inv_keys created_def Let_def keys)
qed

subsection \<open>Deleting an entry\<close>

definition entry_inode :: "dentry_row \<Rightarrow> int option" where
  "entry_inode d = (if d_target_type d = DENTRY_TARGET_INODE then d_target_inode d else None)"

lemma inode_entry_iff: "inode_entry i d \<longleftrightarrow> entry_inode d = Some i"
  by (simp add: inode_entry_def entry_inode_def)

definition release_entry :: "'j fs_env \<Rightarrow> dentry_row \<Rightarrow> fs_conn \<Rightarrow> fs_conn" where
  "release_entry V d s = (case entry_inode d of None \<Rightarrow> s | Some i \<Rightarrow> unclaimed V i (d_id d) s)"

lemma release_entry_frame [simp]:
  "dentries (release_entry V d s) = dentries s" "dentry_seq (release_entry V d s) = dentry_seq s"
  "touched (release_entry V d s) = touched s"
  by (simp_all add: release_entry_def split: option.splits)

definition deleted :: "'j fs_env \<Rightarrow> index_node_id \<Rightarrow> string \<Rightarrow> dentry_row \<Rightarrow> fs_conn \<Rightarrow> fs_conn" where
  "deleted V p name d s =
     (rev_bumped V p (release_entry V d
        (s\<lparr>dentries := sql_delete (\<lambda>e. d_parent e = as_i64 p \<and> d_name e = name) (dentries s)\<rparr>)))
     \<lparr>touched := insert (p, name) (touched s)\<rparr>"

lemma handle_delete_dentry_Ok:
  "handle_delete_dentry V p name v s = (Ok a, s') \<longleftrightarrow> parent_rev p s = Some v \<and>
     s' = (case dentry_of (as_i64 p) name s of None \<Rightarrow> s | Some d \<Rightarrow> deleted V p name d s)"
proof -
  let ?P = "\<lambda>e. d_parent e = as_i64 p \<and> d_name e = name"
  let ?s1 = "s\<lparr>dentries := sql_delete ?P (dentries s)\<rparr>"
  have rel: "(case dentry_of (as_i64 p) name s of None \<Rightarrow> ret ()
      | Some d \<Rightarrow> if d_target_type d = DENTRY_TARGET_INODE then
          (case d_target_inode d of None \<Rightarrow> ret () | Some i \<Rightarrow> unclaim_inode V i (d_id d)) else ret ()) ?s1 =
      (Ok (), case dentry_of (as_i64 p) name s of None \<Rightarrow> ?s1 | Some d \<Rightarrow> release_entry V d ?s1)"
    by (auto simp: ret_def unclaim_inode_eq release_entry_def entry_inode_def split: option.splits)
  show ?thesis
  proof (cases "dentry_of (as_i64 p) name s")
    case None
    then have z: "sql_count ?P (dentries s) = 0" "sql_delete ?P (dentries s) = dentries s"
      by (auto simp: dentry_of_None sql_count_zero sql_delete_def)
    show ?thesis
      unfolding handle_delete_dentry_def bind_eq_Ok savepoint_Ok check_parent_rev_Ok query_def
      by (auto simp: None z ret_def touch_edge_eq)
  next
    case (Some d)
    then have z: "0 < sql_count ?P (dentries s)" by (auto simp: sql_count_pos dest: dentry_of_SomeD)
    have body: "bind (check_parent_rev p v) (\<lambda>_. bind (\<lambda>s. (Ok (dentry_of (as_i64 p) name s), s)) (\<lambda>old.
        bind (\<lambda>s. (Ok (sql_count ?P (dentries s)), s\<lparr>dentries := sql_delete ?P (dentries s)\<rparr>)) (\<lambda>removed.
        if 0 < removed then bind (case old of None \<Rightarrow> ret ()
            | Some d \<Rightarrow> if d_target_type d = DENTRY_TARGET_INODE then
               (case d_target_inode d of None \<Rightarrow> ret () | Some i \<Rightarrow> unclaim_inode V i (d_id d)) else ret ())
          (\<lambda>_. bind (bump_parent_rev V p) (\<lambda>_. ret True)) else ret False))) s = (Ok c, s2) \<longleftrightarrow>
        parent_rev p s = Some v \<and> c = True \<and> s2 = rev_bumped V p (release_entry V d ?s1)" for c s2
      unfolding bind_eq_Ok [of "check_parent_rev p v"] check_parent_rev_Ok
      using z rel Some by (auto simp: bind_def bump_parent_rev_eq ret_def)
    show ?thesis
      unfolding handle_delete_dentry_def query_def bind_eq_Ok [of "savepoint _"] savepoint_Ok body
      by (auto simp: touch_edge_eq deleted_def Some)
  qed
qed

lemma keys_ok_unique:
  "keys_ok ks ds q \<Longrightarrow> e \<in> set ds \<Longrightarrow> e' \<in> set ds \<Longrightarrow> inode_entry i e \<Longrightarrow> inode_entry i e' \<Longrightarrow> e = e'"
  by (simp add: keys_ok_def)

lemma unique_ref:
  assumes "keys_ok ks ds q" and "d \<in> set ds" and "entry_inode d = Some i"
  shows "ref_of i ds = Some (d_id d)"
  using assms by (intro ref_of_mem) (auto simp: keys_ok_def inode_entry_iff)

lemma keys_ok_delete:
  assumes ok: "keys_ok ks ds q" and d: "d \<in> set ds"
  shows "keys_ok (set_key (entry_inode d) None ks) (filter (\<lambda>e. e \<noteq> d) ds) q"
proof -
  have refs: "x = ref_of j (filter (\<lambda>e. e \<noteq> d) ds)" if m: "(j, x) \<in> set (set_key (entry_inode d) None ks)" for j x
  proof (cases "Some j = entry_inode d")
    case True
    then have "inode_entry j d" by (simp add: inode_entry_iff)
    then have "\<forall>e \<in> set ds. inode_entry j e \<longrightarrow> e = d" using ok d by (auto simp: keys_ok_def)
    then have "ref_of j (filter (\<lambda>e. e \<noteq> d) ds) = None" by (auto simp: ref_of_None)
    with True set_key_mem [OF m] show ?thesis by simp
  next
    case False
    then have "x = ref_of j ds" using set_key_mem [OF m] ok by (auto simp: keys_ok_def)
    moreover have "\<not> inode_entry j d" using False by (auto simp: inode_entry_iff)
    then have "find (inode_entry j) (filter (\<lambda>e. e \<noteq> d) ds) = find (inode_entry j) ds"
      by (induction ds) auto
    ultimately show ?thesis by (simp add: ref_of_def)
  qed
  then have "\<forall>(i, x) \<in> set (set_key (entry_inode d) None ks). x = ref_of i (filter (\<lambda>e. e \<noteq> d) ds)" by auto
  with ok show ?thesis by (auto simp: keys_ok_def distinct_map_filter)
qed

lemma delete_unique:
  assumes "keys_ok ks ds q" and "d \<in> set ds" and "d_parent d = p" and "d_name d = name"
  shows "sql_delete (\<lambda>e. d_parent e = p \<and> d_name e = name) ds = filter (\<lambda>e. e \<noteq> d) ds"
proof -
  have "inj_on (\<lambda>e. (d_parent e, d_name e)) (set ds)" using assms(1) by (simp add: keys_ok_def distinct_map)
  then have "d_parent e = p \<and> d_name e = name \<longleftrightarrow> e = d" if "e \<in> set ds" for e
    using assms that by (auto dest: inj_onD)
  then show ?thesis by (simp add: sql_delete_def cong: filter_cong)
qed

lemma node_keys_release:
  assumes "keys_ok (node_keys s) ds q" and "d \<in> set ds"
  shows "node_keys (release_entry V d s) = set_key (entry_inode d) None (node_keys s)"
proof (cases "entry_inode d")
  case (Some i)
  then have "x = Some (d_id d)" if "(i, x) \<in> set (node_keys s)" for x
    using that unique_ref [OF assms Some] assms(1) by (auto simp: keys_ok_def)
  with Some show ?thesis by (auto simp: release_entry_def node_keys_unclaimed set_key_def)
qed (simp add: release_entry_def)

lemma fs_inv_deleted:
  assumes "fs_inv s" and "dentry_of (as_i64 p) name s = Some d"
  shows "fs_inv (deleted V p name d s)"
proof -
  have d: "d \<in> set (dentries s)" "d_parent d = as_i64 p" "d_name d = name" using dentry_of_SomeD [OF assms(2)] by auto
  have ok: "keys_ok (node_keys s) (dentries s) (dentry_seq s)" using assms(1) by (simp add: fs_inv_keys)
  let ?s1 = "s\<lparr>dentries := sql_delete (\<lambda>e. d_parent e = as_i64 p \<and> d_name e = name) (dentries s)\<rparr>"
  have "node_keys (release_entry V d ?s1) = set_key (entry_inode d) None (node_keys s)"
    using node_keys_release [of ?s1 "dentries s" _ d] ok d by simp
  then show ?thesis
    using keys_ok_delete [OF ok d(1)] delete_unique [OF ok d] by (simp add: fs_inv_keys deleted_def)
qed

subsection \<open>Replacing the target of an entry\<close>

definition retarget :: "'j fs_env \<Rightarrow> dentry_target \<Rightarrow> dentry_row \<Rightarrow> dentry_row" where
  "retarget V t d = (let (ty, ti, tob) = dentry_target_cols t in
     d\<lparr>d_target_type := ty, d_target_inode := ti, d_target_obj := tob, d_mtime := Some (now_i64 V)\<rparr>)"

definition entry_cols :: "dentry_row \<Rightarrow> int \<times> int option \<times> u8 list option" where
  "entry_cols d = (d_target_type d, d_target_inode d, d_target_obj d)"

definition replaced :: "'j fs_env \<Rightarrow> index_node_id \<Rightarrow> string \<Rightarrow> dentry_row \<Rightarrow> dentry_target \<Rightarrow> fs_conn \<Rightarrow> fs_conn" where
  "replaced V p name d t s =
     (rev_bumped V p (claim_target V t (d_id d) (release_entry V d
        (s\<lparr>dentries := sql_update (\<lambda>e. d_id e = d_id d) (retarget V t) (dentries s)\<rparr>))))
     \<lparr>touched := insert (p, name) (touched s)\<rparr>"

definition replace_guard ::
  "index_node_id \<Rightarrow> string \<Rightarrow> dentry_target \<Rightarrow> dentry_target \<Rightarrow> u64 \<Rightarrow> dentry_row \<Rightarrow> fs_conn \<Rightarrow> bool" where
  "replace_guard p name old t v d s \<longleftrightarrow> parent_rev p s = Some v \<and> dentry_of (as_i64 p) name s = Some d \<and>
     entry_cols d = dentry_target_cols old \<and> (entry_cols d \<noteq> dentry_target_cols t \<longrightarrow> target_free t (d_id d) s)"

lemma cols_inode_eq:
  assumes "dentry_check d" and "entry_cols d \<noteq> dentry_target_cols t" and "entry_inode d = Some i"
  shows "inode_target t \<noteq> Some i"
  using assms by (cases t) (auto simp: entry_cols_def inode_target_def dentry_check_def entry_inode_def split: if_splits)

lemma node_of_SomeD: "node_of i s = Some r \<Longrightarrow> r \<in> set (nodes s) \<and> n_inode_id r = i"
  by (auto simp: node_of_def find_Some_iff)

lemma node_of_release:
  assumes "entry_inode d \<noteq> Some i"
  shows "node_of i (release_entry V d s) = node_of i s"
  using assms by (cases "node_of i s"; cases "entry_inode d") (auto simp: release_entry_def unclaimed_def dest: node_of_SomeD)

lemma claimable_release:
  assumes "entry_inode d \<noteq> Some i"
  shows "claimable i x (release_entry V d s) = claimable i x s"
  by (simp add: claimable_def node_of_release [OF assms])

lemma distinct_release [simp]:
  "map n_inode_id (nodes (release_entry V d s)) = map n_inode_id (nodes s)"
  by (auto simp: release_entry_def unclaimed_def sql_update_def comp_def split: option.splits)

lemma handle_replace_target_Ok:
  assumes inv: "fs_inv s"
  shows "handle_replace_target V p name old t v s = (Ok a, s') \<longleftrightarrow>
     (\<exists>d. replace_guard p name old t v d s \<and>
        s' = (if entry_cols d = dentry_target_cols t then s else replaced V p name d t s))"
proof (cases "parent_rev p s = Some v \<and> dentry_of (as_i64 p) name s \<noteq> None")
  case False
  then show ?thesis
    unfolding handle_replace_target_def bind_eq_Ok savepoint_Ok check_parent_rev_Ok query_def
    by (auto simp: replace_guard_def)
next
  case True
  then obtain d where d: "dentry_of (as_i64 p) name s = Some d" by auto
  have ck: "dentry_check d" using inv dentry_of_SomeD [OF d] by (auto simp: fs_inv_def)
  let ?up = "\<lambda>s. if inode_target_taken (d_id d) (fst (dentry_target_cols t)) (inode_target t) s then
      (Err (map_db_err ''UNIQUE constraint failed: dentries.target_inode_id''), s)
    else (Ok (), s\<lparr>dentries := sql_update (\<lambda>e. d_id e = d_id d) (retarget V t) (dentries s)\<rparr>)"
  let ?rel = "if d_target_type d = DENTRY_TARGET_INODE \<and> d_target_inode d \<noteq> inode_target t then
      (case d_target_inode d of None \<Rightarrow> ret () | Some i \<Rightarrow> unclaim_inode V i (d_id d)) else ret ()"
  let ?cl = "case inode_target t of None \<Rightarrow> ret () | Some i \<Rightarrow> claim_inode V i (d_id d)"
  let ?change = "bind ?up (\<lambda>_. bind ?rel (\<lambda>_. bind ?cl (\<lambda>_. bind (bump_parent_rev V p) (\<lambda>_. ret True))))"
  let ?s1 = "s\<lparr>dentries := sql_update (\<lambda>e. d_id e = d_id d) (retarget V t) (dentries s)\<rparr>"
  have h: "handle_replace_target V p name old t v s =
      bind (savepoint (if entry_cols d \<noteq> dentry_target_cols old then throw ''dentry target mismatch''
        else if entry_cols d = dentry_target_cols t then ret False else ?change)) (touch_edge p name) s"
  proof -
    have chk: "check_parent_rev p v s = (Ok (), s)" using True by (simp add: check_parent_rev_Ok)
    obtain ty ti tob where c: "dentry_target_cols t = (ty, ti, tob)" by (cases "dentry_target_cols t")
    have rt: "retarget V t = (\<lambda>d. d\<lparr>d_target_type := ty, d_target_inode := ti, d_target_obj := tob,
        d_mtime := Some (now_i64 V)\<rparr>)" by (rule ext) (simp add: retarget_def c)
    show ?thesis
      unfolding handle_replace_target_def rt
      by (simp add: bind_def [of "savepoint _"] savepoint_def bind_def [of "check_parent_rev p v"] chk
          bind_def [of "query _"] query_def d c entry_cols_def inode_target_def Let_def)
  qed
  have rel: "?rel ?s1 = (Ok (), release_entry V d ?s1)" if "entry_cols d \<noteq> dentry_target_cols t"
    using cols_inode_eq [OF ck that]
    by (auto simp: ret_def unclaim_inode_eq release_entry_def entry_inode_def split: option.splits)
  have dist: "distinct (map n_inode_id (nodes (release_entry V d ?s1)))" using inv by (simp add: fs_inv_def)
  have cl: "?cl (release_entry V d ?s1) = (Ok b, s2) \<longleftrightarrow>
      (\<forall>i. inode_target t = Some i \<longrightarrow> claimable i (d_id d) s) \<and>
      s2 = claim_target V t (d_id d) (release_entry V d ?s1)" if ne: "entry_cols d \<noteq> dentry_target_cols t" for b s2
  proof (cases "inode_target t")
    case (Some i)
    then have "entry_inode d \<noteq> Some i" using cols_inode_eq [OF ck ne] by auto
    then have "claimable i (d_id d) (release_entry V d ?s1) = claimable i (d_id d) s"
      by (simp add: claimable_release) (simp add: claimable_def)
    with Some show ?thesis by (auto simp: claim_inode_Ok [OF dist] claim_target_def)
  qed (auto simp: ret_def claim_target_def)
  have change: "?change s = (Ok c, s2) \<longleftrightarrow> target_free t (d_id d) s \<and> c = True \<and>
      s2 = rev_bumped V p (claim_target V t (d_id d) (release_entry V d ?s1))"
    if "entry_cols d \<noteq> dentry_target_cols t" for c s2
  proof -
    define u where "u = ?up"
    define rl where "rl = ?rel"
    define cm where "cm = ?cl"
    have up: "u s = (Ok b, s1) \<longleftrightarrow> s1 = ?s1 \<and>
        (\<forall>i. inode_target t = Some i \<longrightarrow> \<not> (\<exists>e \<in> set (dentries s). d_id e \<noteq> d_id d \<and> inode_entry i e))" for b s1
      by (auto simp: u_def inode_target_taken_iff)
    have r: "rl ?s1 = (Ok (), release_entry V d ?s1)" unfolding rl_def by (rule rel [OF that])
    have c: "cm (release_entry V d ?s1) = (Ok b, s2) \<longleftrightarrow> (\<forall>i. inode_target t = Some i \<longrightarrow> claimable i (d_id d) s) \<and>
        s2 = claim_target V t (d_id d) (release_entry V d ?s1)" for b s2 unfolding cm_def by (rule cl [OF that])
    show ?thesis
      unfolding u_def [symmetric] rl_def [symmetric] cm_def [symmetric] bind_eq_Ok target_free_def
      by (auto simp: up r c bump_parent_rev_eq ret_def)
  qed
  define chg where "chg = ?change"
  have chg: "chg s = (Ok c, s2) \<longleftrightarrow> target_free t (d_id d) s \<and> c = True \<and>
      s2 = rev_bumped V p (claim_target V t (d_id d) (release_entry V d ?s1))"
    if "entry_cols d \<noteq> dentry_target_cols t" for c s2 unfolding chg_def by (rule change [OF that])
  show ?thesis
    unfolding h chg_def [symmetric] bind_eq_Ok [of "savepoint _"] savepoint_Ok
    using True d by (auto simp: chg touch_edge_eq replace_guard_def replaced_def throw_def ret_def)
qed

lemma retarget_simps [simp]:
  "d_id (retarget V t d) = d_id d" "d_parent (retarget V t d) = d_parent d" "d_name (retarget V t d) = d_name d"
  "inode_entry i (retarget V t d) \<longleftrightarrow> inode_target t = Some i" "dentry_check (retarget V t d)"
  "entry_cols (retarget V t d) = dentry_target_cols t"
  using inode_entry_cols [of t "retarget V t d"]
  by (cases "dentry_target_cols t"; simp add: retarget_def entry_cols_def)+

lemma keys_ok_replace:
  assumes ok: "keys_ok ks ds q" and d: "d \<in> set ds"
    and free: "\<And>i. inode_target t = Some i \<Longrightarrow> i \<in> fst ` set ks \<and> (\<forall>e \<in> set ds. d_id e \<noteq> d_id d \<longrightarrow> \<not> inode_entry i e)"
  shows "keys_ok (set_key (inode_target t) (Some (d_id d)) (set_key (entry_inode d) None ks))
           (sql_update (\<lambda>e. d_id e = d_id d) (retarget V t) ds) q"
    (is "keys_ok ?ks ?ds q")
proof -
  have injd: "inj_on d_id (set ds)" using ok by (simp add: keys_ok_def distinct_map)
  have inj: "e = d" if "e \<in> set ds" "d_id e = d_id d" for e
    using injd that(2, 1) d by (rule inj_onD)
  have "{e \<in> set ds. d_id e = d_id d} = {d}" "{e \<in> set ds. d_id e \<noteq> d_id d} = set ds - {d}"
    using inj d by blast+
  then have set: "set ?ds = insert (retarget V t d) (set ds - {d})"
    by (simp add: set_sql_update)
  have uniq: "e = e'" if "e \<in> set ?ds" "e' \<in> set ?ds" "inode_entry j e" "inode_entry j e'" for e e' j
  proof -
    have new: False if "a \<in> set ds" "a \<noteq> d" "inode_entry j a" "inode_entry j (retarget V t d)" for a
      using that free [of j] inj [of a] by auto
    have old: "e = e'" if "e \<in> set ds" "e' \<in> set ds" using ok that \<open>inode_entry j e\<close> \<open>inode_entry j e'\<close>
      by (simp add: keys_ok_def)
    from that show ?thesis unfolding set using new old by blast
  qed
  have refs: "x = ref_of j ?ds" if m: "(j, x) \<in> set ?ks" for j x
  proof (cases "Some j = inode_target t")
    case True
    then have "ref_of j ?ds = Some (d_id (retarget V t d))"
      by (intro ref_of_mem [OF uniq]) (simp_all add: set True [symmetric])
    with True set_key_mem [OF m] show ?thesis by simp
  next
    case nt: False
    then have m1: "(j, x) \<in> set (set_key (entry_inode d) None ks)" using set_key_mem [OF m] by simp
    show ?thesis
    proof (cases "Some j = entry_inode d")
      case True
      then have "inode_entry j d" by (simp add: inode_entry_iff)
      then have "\<forall>e \<in> set ds. inode_entry j e \<longrightarrow> e = d" using keys_ok_unique [OF ok _ d] by blast
      then have "ref_of j ?ds = None" using nt by (auto simp: ref_of_None set)
      with True set_key_mem [OF m1] show ?thesis by simp
    next
      case False
      then have x: "x = ref_of j ds" using set_key_mem [OF m1] ok by (auto simp: keys_ok_def)
      have nd: "\<not> inode_entry j d" using False by (auto simp: inode_entry_iff)
      show ?thesis
      proof (cases "\<exists>e \<in> set ds. inode_entry j e")
        case True
        then obtain e where e: "e \<in> set ds" "inode_entry j e" by blast
        then have "ref_of j ds = Some (d_id e)" using ok by (intro ref_of_mem) (auto simp: keys_ok_def)
        moreover have "ref_of j ?ds = Some (d_id e)"
          by (rule ref_of_mem [OF uniq]) (use e nd in \<open>auto simp: set\<close>)
        ultimately show ?thesis using x by simp
      next
        case False
        then have "ref_of j ds = None" "ref_of j ?ds = None" using nt by (auto simp: ref_of_None set)
        with x show ?thesis by simp
      qed
    qed
  qed
  have same: "map d_id ?ds = map d_id ds" "map (\<lambda>d. (d_parent d, d_name d)) ?ds = map (\<lambda>d. (d_parent d, d_name d)) ds"
    by (auto intro: map_sql_update)
  show ?thesis
    unfolding keys_ok_def same
  proof (intro conjI)
    show "\<forall>e \<in> set ?ds. \<forall>d' \<in> set ?ds. \<forall>i. inode_entry i e \<longrightarrow> inode_entry i d' \<longrightarrow> e = d'" using uniq by blast
    show "\<forall>(i, x) \<in> set ?ks. x = ref_of i ?ds" using refs by auto
    show "\<forall>e \<in> set ?ds. dentry_check e" "\<forall>e \<in> set ?ds. d_id e \<le> q"
      using ok d by (auto simp: keys_ok_def set)
    show "\<forall>e \<in> set ?ds. \<forall>i. inode_entry i e \<longrightarrow> i \<in> fst ` set ?ks"
      using ok free by (auto simp: keys_ok_def set)
  qed (use ok in \<open>auto simp: keys_ok_def\<close>)
qed

lemma fs_inv_replaced:
  assumes inv: "fs_inv s" and g: "replace_guard p name old t v d s" and ne: "entry_cols d \<noteq> dentry_target_cols t"
  shows "fs_inv (replaced V p name d t s)"
proof -
  have d: "d \<in> set (dentries s)" using g dentry_of_SomeD by (auto simp: replace_guard_def)
  have tf: "target_free t (d_id d) s" using g ne by (simp add: replace_guard_def)
  have ok: "keys_ok (node_keys s) (dentries s) (dentry_seq s)" using inv by (simp add: fs_inv_keys)
  let ?s1 = "s\<lparr>dentries := sql_update (\<lambda>e. d_id e = d_id d) (retarget V t) (dentries s)\<rparr>"
  have rel: "node_keys (release_entry V d ?s1) = set_key (entry_inode d) None (node_keys s)"
    using node_keys_release [of ?s1 "dentries s" _ d] ok d by simp
  have free: "i \<in> fst ` set (node_keys s) \<and> (\<forall>e \<in> set (dentries s). d_id e \<noteq> d_id d \<longrightarrow> \<not> inode_entry i e)"
    if "inode_target t = Some i" for i using tf that claimable_key by (auto simp: target_free_def)
  have old: "x = None" if t: "inode_target t = Some i" and m: "(i, x) \<in> set (set_key (entry_inode d) None (node_keys s))" for i x
  proof (cases "Some i = entry_inode d")
    case False
    have inj: "inj_on d_id (set (dentries s))" using ok by (simp add: keys_ok_def distinct_map)
    have "\<not> inode_entry i e" if "e \<in> set (dentries s)" for e
    proof (cases "d_id e = d_id d")
      case True
      then have "e = d" using inj that d by (simp add: inj_on_def)
      with False show ?thesis by (simp add: inode_entry_iff)
    qed (use free [OF t] that in simp)
    then have "ref_of i (dentries s) = None" by (simp add: ref_of_None)
    moreover have "x = ref_of i (dentries s)" using set_key_mem [OF m] False ok by (auto simp: keys_ok_def)
    ultimately show ?thesis by simp
  qed (use set_key_mem [OF m] in auto)
  have "node_keys (claim_target V t (d_id d) (release_entry V d ?s1)) =
      set_key (inode_target t) (Some (d_id d)) (set_key (entry_inode d) None (node_keys s))"
  proof (cases "inode_target t")
    case (Some i)
    have none: "\<forall>x. (i, x) \<in> set (set_key (entry_inode d) None (node_keys s)) \<longrightarrow> x = None" using old [OF Some] by blast
    show ?thesis
      using claim_keys [OF none] by (simp add: claim_target_def Some node_keys_claimed rel)
  qed (simp add: claim_target_def rel)
  then show ?thesis
    using keys_ok_replace [OF ok d, of t V] free by (simp add: fs_inv_keys replaced_def)
qed

end
