(* ===== verification/Fs_Meta_Steps.thy ===== *)
theory Fs_Meta_Steps
  imports Fs_Meta_Inv
begin

text \<open>
  The transition system of the metadata tables.  \<open>confined R m\<close> says that a handler changes the
  connection only as the preorder \<open>R\<close> allows, on every branch; its rules follow the structure of a
  handler, so a frame property of a handler is proved by applying them.  \<open>db_step\<close> has one rule per
  handler that changes the tables.
\<close>

section \<open>Frame rules\<close>

definition confined :: "(fs_conn \<Rightarrow> fs_conn \<Rightarrow> bool) \<Rightarrow> 'a st \<Rightarrow> bool" where
  "confined R m \<longleftrightarrow> (\<forall>s. R s (snd (m s)))"

locale frame =
  fixes R :: "fs_conn \<Rightarrow> fs_conn \<Rightarrow> bool"
  assumes refl: "R s s"
    and trans: "R s1 s2 \<Longrightarrow> R s2 s3 \<Longrightarrow> R s1 s3"
begin

lemma confined_ret [intro]: "confined R (ret a)"
  by (simp add: confined_def ret_def refl)

lemma confined_throw [intro]: "confined R (throw e)"
  by (simp add: confined_def throw_def refl)

lemma confined_query [intro]: "confined R (query q)"
  by (simp add: confined_def query_def refl)

lemma confined_bind [intro]:
  assumes "confined R m" and "\<And>a. confined R (f a)"
  shows "confined R (bind m f)"
  unfolding confined_def
proof
  fix s
  show "R s (snd (bind m f s))"
  proof (cases "m s")
    case (Pair r s1)
    then have "R s s1" using assms(1) unfolding confined_def by (metis snd_conv)
    with Pair show ?thesis
      using assms(2) trans unfolding confined_def bind_def by (cases r) auto
  qed
qed

lemma confined_savepoint [intro]:
  assumes "confined R m"
  shows "confined R (savepoint m)"
  unfolding confined_def
proof
  fix s
  obtain r s1 where m: "m s = (r, s1)" by (cases "m s")
  then have "R s s1" using assms unfolding confined_def by (metis snd_conv)
  with m show "R s (snd (savepoint m s))" by (cases r) (simp_all add: savepoint_def refl)
qed

lemma confined_option [intro]:
  assumes "confined R m" and "\<And>a. confined R (f a)"
  shows "confined R (case x of None \<Rightarrow> m | Some a \<Rightarrow> f a)"
  using assms by (cases x) auto

lemma confined_prod [intro]:
  assumes "\<And>a b. confined R (f a b)"
  shows "confined R (case x of (a, b) \<Rightarrow> f a b)"
  using assms by (cases x) simp

lemma confined_if [intro]:
  assumes "confined R m" and "confined R m'"
  shows "confined R (if b then m else m')"
  using assms by simp

end

section \<open>The invariant under every handler\<close>

definition same_keys :: "fs_conn \<Rightarrow> fs_conn \<Rightarrow> bool" where
  "same_keys s s' \<longleftrightarrow> node_keys s' = node_keys s \<and> dentries s' = dentries s \<and> dentry_seq s' = dentry_seq s"

interpretation same_keys: frame same_keys
  by unfold_locales (auto simp: same_keys_def)

lemma same_keys_inv: "same_keys s s' \<Longrightarrow> fs_inv s \<Longrightarrow> fs_inv s'"
  using fs_inv_cong [of s' s] by (simp add: same_keys_def)

lemma same_keys_update [intro]:
  assumes "\<And>r. n_inode_id (f r) = n_inode_id r" and "\<And>r. n_ref_by (f r) = n_ref_by r"
  shows "confined same_keys (update_nodes p f)"
  using assms by (simp add: confined_def update_nodes_def same_keys_def)

lemma same_keys_handlers:
  "confined same_keys (handle_update_inode_state V i new old)"
  "confined same_keys (handle_bump_dir_rev V p v)"
  "confined same_keys (acquire_file_lease V i sess ttl)"
  "confined same_keys (renew_file_lease V i sess sq ttl)"
  "confined same_keys (release_file_lease i sess sq)"
  "confined same_keys (reclaim_expired_write_leases V)"
  unfolding handle_update_inode_state_def handle_bump_dir_rev_def acquire_file_lease_def renew_file_lease_def
    release_file_lease_def reclaim_expired_write_leases_def lease_miss_def
  by (intro same_keys.confined_bind same_keys.confined_if same_keys.confined_ret same_keys.confined_throw
      same_keys.confined_query same_keys_update; simp)+

lemma same_keys_stats:
  "confined same_keys (handle_obj_stat_bump V oid delta)"
  "confined same_keys (handle_obj_stat_delete_if_zero oid)"
  unfolding handle_obj_stat_bump_def Let_def
  by (intro same_keys.confined_bind same_keys.confined_if same_keys.confined_ret same_keys.confined_throw
      same_keys.confined_query; simp add: confined_def same_keys_def node_keys_def)
    (simp add: confined_def same_keys_def node_keys_def handle_obj_stat_delete_if_zero_def)

lemma confinedD: "confined R m \<Longrightarrow> m s = (r, s') \<Longrightarrow> R s s'"
  unfolding confined_def by (metis snd_conv)

lemma create_inv: "fs_inv s \<Longrightarrow> handle_create_dentry V p name t v s = (r, s') \<Longrightarrow> fs_inv s'"
  using handle_create_dentry_Ok [of s V p name t v "()" s'] fs_inv_created [of s p name t v V]
  by (cases r) (auto simp: fs_inv_def [of s] handle_create_dentry_def dest: bind_savepoint_Err)

lemma delete_inv: "fs_inv s \<Longrightarrow> handle_delete_dentry V p name v s = (r, s') \<Longrightarrow> fs_inv s'"
proof (cases r)
  case (Inl e)
  assume "fs_inv s" "handle_delete_dentry V p name v s = (r, s')"
  with Inl show ?thesis by (auto simp: handle_delete_dentry_def dest: bind_savepoint_Err)
next
  case (Inr a)
  assume "fs_inv s" "handle_delete_dentry V p name v s = (r, s')"
  with Inr show ?thesis by (auto simp: handle_delete_dentry_Ok fs_inv_deleted split: option.splits)
qed

lemma replace_inv: "fs_inv s \<Longrightarrow> handle_replace_target V p name old t v s = (r, s') \<Longrightarrow> fs_inv s'"
proof (cases r)
  case (Inl e)
  assume "fs_inv s" "handle_replace_target V p name old t v s = (r, s')"
  with Inl show ?thesis by (auto simp: handle_replace_target_def dest: bind_savepoint_Err)
next
  case (Inr a)
  assume "fs_inv s" "handle_replace_target V p name old t v s = (r, s')"
  with Inr show ?thesis by (auto simp: handle_replace_target_Ok fs_inv_replaced split: if_splits)
qed

lemma get_dentry_state: "handle_get_dentry p name s = (r, s') \<Longrightarrow> s' = s"
  by (simp add: handle_get_dentry_def query_def)

lemma get_inode_state: "handle_get_inode V i s = (r, s') \<Longrightarrow> s' = s"
  by (simp add: handle_get_inode_def query_def)

lemma upsert_inv: "fs_inv s \<Longrightarrow> upsert_dentry_with_parent_rev V p name t v s = (r, s') \<Longrightarrow> fs_inv s'"
  by (auto simp: upsert_dentry_with_parent_rev_def bind_def dest!: get_dentry_state
      split: prod.splits sum.splits option.splits intro: create_inv replace_inv)

lemma node_row_of_keys:
  "node_row_of V i n = Ok row \<Longrightarrow> n_inode_id row = i \<and> n_ref_by row = map_option as_i64 (nd_ref_by n)"
  by (auto simp: node_row_of_def and_then_eq_Ok)

text \<open>A node that is written keeps the \<open>ref_by\<close> of the stored row; a new one has none.\<close>

definition keeps_ref :: "'j node_record \<Rightarrow> fs_conn \<Rightarrow> bool" where
  "keeps_ref n s \<longleftrightarrow> map_option as_i64 (nd_ref_by n) =
     (case node_of (as_i64 (nd_inode_id n)) s of None \<Rightarrow> None | Some r \<Rightarrow> n_ref_by r)"

lemma new_node_inv:
  assumes "fs_inv s" and "n_inode_id row \<notin> n_inode_id ` set (nodes s)" and "n_ref_by row = None"
  shows "fs_inv (s\<lparr>nodes := nodes s @ [row]\<rparr>)"
proof -
  have "ref_of (n_inode_id row) (dentries s) = None"
    using assms(1, 2) by (auto simp: fs_inv_def ref_of_None)
  with assms show ?thesis by (auto simp: fs_inv_def)
qed

lemma set_inode_inv:
  assumes inv: "fs_inv s" and k: "keeps_ref n s" and h: "handle_set_inode V n s = (r, s')"
  shows "fs_inv s'"
proof (cases r)
  case Inl
  with h show ?thesis using inv by (auto simp: handle_set_inode_def bind_def query_def split: sum.splits)
next
  case Inr
  with h obtain row where row: "node_row_of V (as_i64 (nd_inode_id n)) n = Ok row"
    and s': "s' = s\<lparr>nodes := insert_on_conflict n_inode_id (\<lambda>_. row) row (nodes s)\<rparr>"
    by (auto simp: handle_set_inode_def bind_def query_def split: sum.splits)
  have keys: "n_inode_id row = as_i64 (nd_inode_id n)" "n_ref_by row = map_option as_i64 (nd_ref_by n)"
    using node_row_of_keys [OF row] by auto
  show ?thesis
  proof (cases "n_inode_id row \<in> n_inode_id ` set (nodes s)")
    case True
    have dist: "distinct (map n_inode_id (nodes s))" using inv by (simp add: fs_inv_def)
    have "n_ref_by row = n_ref_by r'" if "r' \<in> set (nodes s)" "n_inode_id r' = n_inode_id row" for r'
    proof -
      have "node_of (as_i64 (nd_inode_id n)) s = Some r'" using that keys dist by (simp add: node_of_mem)
      with k keys show ?thesis by (simp add: keeps_ref_def)
    qed
    then have "same_keys s s'"
      using True by (auto simp: s' same_keys_def node_keys_def insert_on_conflict_def sql_update_def)
    then show ?thesis using inv by (rule same_keys_inv)
  next
    case False
    moreover have "node_of (as_i64 (nd_inode_id n)) s = None" using False keys by (simp add: node_of_None)
    then have "n_ref_by row = None" using k keys by (simp add: keeps_ref_def)
    ultimately show ?thesis using new_node_inv [OF inv] by (simp add: s' insert_on_conflict_def)
  qed
qed

lemma fresh_rowid_new:
  assumes "fresh_rowid V ids = Some i" and "\<And>js j. fe_rowid V js = Some j \<Longrightarrow> j \<notin> set js"
  shows "i \<notin> set ids"
proof (cases "ids \<noteq> [] \<and> Max (set ids) < 2 ^ 63 - 1")
  case True
  then have i: "i = Max (set ids) + 1" using assms(1) by (simp add: fresh_rowid_def)
  show ?thesis
  proof
    assume "i \<in> set ids"
    then have "i \<le> Max (set ids)" by (intro Max_ge) auto
    with i show False by simp
  qed
next
  case False
  then have "ids = [] \<or> fe_rowid V ids = Some i" using assms(1) by (metis fresh_rowid_def)
  with assms(2) show ?thesis by auto
qed

lemma alloc_inode_inv:
  assumes inv: "fs_inv s" and ref: "nd_ref_by n = None" and h: "handle_alloc_inode V n s = (r, s')"
    and pick: "\<And>js j. fe_rowid V js = Some j \<Longrightarrow> j \<notin> set js"
  shows "fs_inv s'"
proof (cases "s' = s")
  case False
  have "\<exists>i row. node_row_of V i n = Ok row \<and> s' = s\<lparr>nodes := nodes s @ [row]\<rparr> \<and>
      (fresh_rowid V (map n_inode_id (nodes s)) = Some i \<or> node_of i s = None)"
  proof (cases "nd_inode_id n = 0")
    case True
    with h False show ?thesis
      by (auto simp: handle_alloc_inode_def bind_def query_def ok_or_def split: sum.splits option.splits)
  next
    case ne: False
    then obtain row where row: "node_row_of V (as_i64 (nd_inode_id n)) n = Ok row"
      using h False by (auto simp: handle_alloc_inode_def bind_def query_def split: sum.splits)
    with h ne False node_row_of_keys [OF row] show ?thesis
      by (auto simp: handle_alloc_inode_def bind_def query_def split: if_splits)
  qed
  then obtain i row where row: "node_row_of V i n = Ok row" and s': "s' = s\<lparr>nodes := nodes s @ [row]\<rparr>"
    and i: "fresh_rowid V (map n_inode_id (nodes s)) = Some i \<or> node_of i s = None" by blast
  have "i \<notin> n_inode_id ` set (nodes s)"
    using i fresh_rowid_new [of V "map n_inode_id (nodes s)" i] pick by (auto simp: node_of_None)
  with node_row_of_keys [OF row] ref show ?thesis
    unfolding s' by (intro new_node_inv inv) auto
qed (use inv in simp)

lemma remove_inode_inv:
  assumes inv: "fs_inv s" and ref: "\<And>r. node_of (as_i64 i) s = Some r \<Longrightarrow> n_ref_by r = None"
    and h: "handle_remove_inode root i s = (r, s')"
  shows "fs_inv s'"
proof (cases "s' = s")
  case False
  with h obtain r0 where r0: "node_of (as_i64 i) s = Some r0"
    and s': "s' = s\<lparr>nodes := sql_delete (\<lambda>r. n_inode_id r = as_i64 i) (nodes s)\<rparr>"
    by (auto simp: handle_remove_inode_def split: if_splits)
  have "ref_of (as_i64 i) (dentries s) = None"
    using ref [OF r0] inv node_of_SomeD [OF r0] by (auto simp: fs_inv_def)
  then have "\<not> inode_entry (as_i64 i) d" if "d \<in> set (dentries s)" for d using that by (simp add: ref_of_None)
  then have "\<forall>d \<in> set (dentries s). \<forall>j. inode_entry j d \<longrightarrow>
      j \<in> n_inode_id ` {r \<in> set (nodes s). n_inode_id r \<noteq> as_i64 i}"
    using inv by (fastforce simp: fs_inv_def)
  with inv show ?thesis
    by (simp add: fs_inv_def s' set_sql_delete distinct_map_sql_delete)
qed (use inv in simp)

lemma migrate_ref_by_id: "fs_inv s \<Longrightarrow> migrate_ref_by s = s"
proof -
  assume inv: "fs_inv s"
  have "map_option d_id (find (\<lambda>d. d_target_type d = DENTRY_TARGET_INODE \<and> d_target_inode d = Some i) (dentries s)) =
      ref_of i (dentries s)" for i
    by (simp add: ref_of_def inode_entry_def [abs_def])
  then have "map (\<lambda>r. r\<lparr>n_ref_by := map_option d_id (find (\<lambda>d. d_target_type d = DENTRY_TARGET_INODE \<and>
      d_target_inode d = Some (n_inode_id r)) (dentries s))\<rparr>) (nodes s) = nodes s"
    using inv by (auto simp: fs_inv_def intro!: map_idI)
  then show ?thesis by (simp add: migrate_ref_by_def)
qed

section \<open>Steps\<close>

text \<open>
  A step is one handler on the connection with any arguments, clock and outcome.  The label
  separates the two handlers that write a whole inode row (\<open>set_inode\<close>) or remove it.  The RPC
  \<open>set_inode\<close> takes a record from the client: it is a step when the record keeps the \<open>ref_by\<close>
  of the row, as the service's own callers do.  \<open>remove_inode\<close> is a step on an unreferenced inode.
\<close>

datatype step_label = Overwrite index_node_id | Handler

inductive db_step :: "'j ext_crates \<Rightarrow> step_label \<Rightarrow> fs_conn \<Rightarrow> fs_conn \<Rightarrow> bool" for E where
  set_inode: "fe_crates V = E \<Longrightarrow> keeps_ref n s \<Longrightarrow> handle_set_inode V n s = (r, s') \<Longrightarrow>
     db_step E (Overwrite (nd_inode_id n)) s s'"
| alloc_inode: "fe_crates V = E \<Longrightarrow> nd_ref_by n = None \<Longrightarrow> (\<And>js j. fe_rowid V js = Some j \<Longrightarrow> j \<notin> set js) \<Longrightarrow>
     handle_alloc_inode V n s = (r, s') \<Longrightarrow> db_step E Handler s s'"
| remove_inode: "(\<And>r. node_of (as_i64 i) s = Some r \<Longrightarrow> n_ref_by r = None) \<Longrightarrow>
     handle_remove_inode root i s = (r, s') \<Longrightarrow> db_step E (Overwrite i) s s'"
| update_state: "fe_crates V = E \<Longrightarrow> handle_update_inode_state V i new old s = (r, s') \<Longrightarrow> db_step E Handler s s'"
| create_dentry: "fe_crates V = E \<Longrightarrow> handle_create_dentry V p name t v s = (r, s') \<Longrightarrow> db_step E Handler s s'"
| delete_dentry: "fe_crates V = E \<Longrightarrow> handle_delete_dentry V p name v s = (r, s') \<Longrightarrow> db_step E Handler s s'"
| replace_target: "fe_crates V = E \<Longrightarrow> handle_replace_target V p name old t v s = (r, s') \<Longrightarrow> db_step E Handler s s'"
| bump_dir_rev: "fe_crates V = E \<Longrightarrow> handle_bump_dir_rev V p v s = (r1, s') \<Longrightarrow> db_step E Handler s s'"
| acquire_lease: "fe_crates V = E \<Longrightarrow> acquire_file_lease V i sess ttl s = (r1, s') \<Longrightarrow> db_step E Handler s s'"
| renew_lease: "fe_crates V = E \<Longrightarrow> renew_file_lease V i sess sq ttl s = (r, s') \<Longrightarrow> db_step E Handler s s'"
| release_lease: "release_file_lease i sess sq s = (r, s') \<Longrightarrow> db_step E Handler s s'"
| reclaim_leases: "fe_crates V = E \<Longrightarrow> reclaim_expired_write_leases V s = (r2, s') \<Longrightarrow> db_step E Handler s s'"
| stat_bump: "fe_crates V = E \<Longrightarrow> handle_obj_stat_bump V oid delta s = (r1, s') \<Longrightarrow> db_step E Handler s s'"
| stat_delete: "handle_obj_stat_delete_if_zero oid s = (r3, s') \<Longrightarrow> db_step E Handler s s'"
| reopen: "db_step E Handler s (migrate_ref_by s)"

inductive fs_reach :: "'j ext_crates \<Rightarrow> fs_conn \<Rightarrow> bool" for E where
  init: "fe_crates V = E \<Longrightarrow> ensure_root_dir V empty_conn = (r, s) \<Longrightarrow> fs_reach E s"
| step: "fs_reach E s \<Longrightarrow> db_step E l s s' \<Longrightarrow> fs_reach E s'"

lemma step_inv: "db_step E l s s' \<Longrightarrow> fs_inv s \<Longrightarrow> fs_inv s'"
proof (induction rule: db_step.induct)
  case (update_state V i new old s r s')
  then show ?case by (meson confinedD same_keys_handlers(1) same_keys_inv)
next
  case (bump_dir_rev V p v s r1 s')
  then show ?case by (meson confinedD same_keys_handlers(2) same_keys_inv)
next
  case (acquire_lease V i sess ttl s r1 s')
  then show ?case by (meson confinedD same_keys_handlers(3) same_keys_inv)
next
  case (renew_lease V i sess sq ttl s r s')
  then show ?case by (meson confinedD same_keys_handlers(4) same_keys_inv)
next
  case (release_lease i sess sq s r s')
  then show ?case by (meson confinedD same_keys_handlers(5) same_keys_inv)
next
  case (reclaim_leases V s r2 s')
  then show ?case by (meson confinedD same_keys_handlers(6) same_keys_inv)
next
  case (stat_bump V oid delta s r1 s')
  then show ?case by (meson confinedD same_keys_stats(1) same_keys_inv)
next
  case (stat_delete oid s r3 s')
  then show ?case by (meson confinedD same_keys_stats(2) same_keys_inv)
next
  case (remove_inode i s root r s')
  from remove_inode_inv [OF remove_inode(3, 1, 2)] show ?case .
next
  case (alloc_inode V n s r s')
  from alloc_inode_inv [OF alloc_inode(5, 2, 4, 3)] show ?case .
qed (auto intro: set_inode_inv create_inv delete_inv replace_inv simp: migrate_ref_by_id)

lemma init_inv: "ensure_root_dir V empty_conn = (r, s) \<Longrightarrow> fs_inv s"
  by (auto simp: ensure_root_dir_def empty_conn_def node_of_def root_row_def fs_inv_def ref_of_def)

lemma reach_inv: "fs_reach E s \<Longrightarrow> fs_inv s"
  by (induction rule: fs_reach.induct) (auto intro: init_inv step_inv)

section \<open>Revisions never go back\<close>

definition rev_le :: "int \<Rightarrow> fs_conn \<Rightarrow> fs_conn \<Rightarrow> bool" where
  "rev_le i s s' \<longleftrightarrow> (\<forall>r. node_of i s = Some r \<longrightarrow> (\<exists>r'. node_of i s' = Some r' \<and>
     (coalesce (n_rev r) \<le> 2 ^ 63 \<longrightarrow> coalesce (n_rev r) \<le> coalesce (n_rev r') \<and> coalesce (n_rev r') \<le> 2 ^ 63)))"

lemma rev_le_trans:
  assumes "rev_le i s1 s2" and "rev_le i s2 s3"
  shows "rev_le i s1 s3"
  unfolding rev_le_def
proof (intro allI impI)
  fix r
  assume r: "node_of i s1 = Some r"
  obtain r2 where r2: "node_of i s2 = Some r2" "coalesce (n_rev r) \<le> 2 ^ 63 \<longrightarrow>
      coalesce (n_rev r) \<le> coalesce (n_rev r2) \<and> coalesce (n_rev r2) \<le> 2 ^ 63"
    using assms(1) r by (auto simp: rev_le_def)
  obtain r3 where "node_of i s3 = Some r3" "coalesce (n_rev r2) \<le> 2 ^ 63 \<longrightarrow>
      coalesce (n_rev r2) \<le> coalesce (n_rev r3) \<and> coalesce (n_rev r3) \<le> 2 ^ 63"
    using assms(2) r2(1) by (auto simp: rev_le_def)
  with r2(2) show "\<exists>r'. node_of i s3 = Some r' \<and> (coalesce (n_rev r) \<le> 2 ^ 63 \<longrightarrow>
      coalesce (n_rev r) \<le> coalesce (n_rev r') \<and> coalesce (n_rev r') \<le> 2 ^ 63)"
    by (intro exI [of _ r3]) auto
qed

interpretation rev_le: frame "rev_le i"
proof
  show "rev_le i s s" for s by (auto simp: rev_le_def)
qed (rule rev_le_trans)

lemma rev_le_update [intro]:
  assumes "\<And>r. n_inode_id (f r) = n_inode_id r"
    and "\<And>r. n_rev (f r) = n_rev r \<or> n_rev (f r) = Some (coalesce_incr (n_rev r))"
  shows "confined (rev_le i) (update_nodes p f)"
proof -
  have "coalesce (n_rev r) \<le> 2 ^ 63 \<longrightarrow> coalesce (n_rev r) \<le> coalesce (n_rev (f r)) \<and> coalesce (n_rev (f r)) \<le> 2 ^ 63" for r
    using assms(2) [of r] by (auto simp: coalesce_incr_def coalesce_def)
  then show ?thesis
    by (auto simp: confined_def update_nodes_def rev_le_def node_of_update [OF assms(1)])
qed

lemma rev_le_nodes: "nodes s' = nodes s \<Longrightarrow> rev_le i s s'"
  by (simp add: rev_le_def node_of_def)

lemmas rev_le_rules = rev_le.confined_bind rev_le.confined_if rev_le.confined_ret rev_le.confined_throw
  rev_le.confined_query rev_le.confined_option rev_le.confined_savepoint rev_le.confined_prod rev_le_update

lemma rev_le_handlers:
  "confined (rev_le j) (handle_update_inode_state V i new old)"
  "confined (rev_le j) (handle_bump_dir_rev V p v)"
  "confined (rev_le j) (acquire_file_lease V i sess ttl)"
  "confined (rev_le j) (renew_file_lease V i sess sq ttl)"
  "confined (rev_le j) (release_file_lease i sess sq)"
  "confined (rev_le j) (reclaim_expired_write_leases V)"
  unfolding handle_update_inode_state_def handle_bump_dir_rev_def acquire_file_lease_def renew_file_lease_def
    release_file_lease_def reclaim_expired_write_leases_def lease_miss_def
  by (intro rev_le_rules; simp)+

lemma rev_le_entries:
  "confined (rev_le j) (check_parent_rev p v)"
  "confined (rev_le j) (bump_parent_rev V p)"
  "confined (rev_le j) (claim_inode V i d)"
  "confined (rev_le j) (unclaim_inode V i d)"
  unfolding check_parent_rev_def bump_parent_rev_def claim_inode_def unclaim_inode_def
  by (intro rev_le_rules; simp)+

lemma rev_le_plain:
  assumes "\<And>s. nodes (snd (m s)) = nodes s"
  shows "confined (rev_le j) m"
  unfolding confined_def using rev_le_nodes [OF assms] by blast

lemma rev_le_insert: "confined (rev_le j) (insert_dentry V p name t)"
  by (rule rev_le_plain) (simp add: insert_dentry_def Let_def split: prod.splits)

lemma rev_le_touch: "confined (rev_le j) (touch_edge p name c)"
  by (rule rev_le_plain) (simp add: touch_edge_def)

lemma rev_le_dentry_handlers:
  "confined (rev_le j) (handle_create_dentry V p name t v)"
  "confined (rev_le j) (handle_delete_dentry V p name v)"
  "confined (rev_le j) (handle_replace_target V p name old t v)"
  unfolding handle_create_dentry_def handle_delete_dentry_def handle_replace_target_def Let_def
  by (intro rev_le_rules rev_le_entries rev_le_insert rev_le_touch; rule rev_le_plain; simp)+

lemma node_of_append: "node_of i (s\<lparr>nodes := nodes s @ [row]\<rparr>) =
    (case node_of i s of None \<Rightarrow> if n_inode_id row = i then Some row else None | Some r \<Rightarrow> Some r)"
proof -
  have "find P (xs @ [x]) = (case find P xs of None \<Rightarrow> if P x then Some x else None | Some r \<Rightarrow> Some r)"
    for P and xs :: "node_row list" and x by (induction xs) auto
  then show ?thesis by (simp add: node_of_def)
qed

lemma alloc_inode_cases:
  assumes "handle_alloc_inode V n s = (r, s')"
  shows "s' = s \<or> (\<exists>i row. node_row_of V i n = Ok row \<and> s' = s\<lparr>nodes := nodes s @ [row]\<rparr>)"
  using assms by (auto simp: handle_alloc_inode_def bind_def query_def ok_or_def split: sum.splits option.splits if_splits)

lemma set_inode_cases:
  assumes "handle_set_inode V n s = (r, s')"
  shows "s' = s \<or> (\<exists>row. node_row_of V (as_i64 (nd_inode_id n)) n = Ok row \<and>
    s' = s\<lparr>nodes := insert_on_conflict n_inode_id (\<lambda>_. row) row (nodes s)\<rparr>)"
  using assms by (auto simp: handle_set_inode_def bind_def query_def split: sum.splits)

lemma node_of_overwrite:
  assumes "n_inode_id row \<noteq> i"
  shows "node_of i (s\<lparr>nodes := insert_on_conflict n_inode_id (\<lambda>_. row) row (nodes s)\<rparr>) = node_of i s"
proof (cases "n_inode_id row \<in> n_inode_id ` set (nodes s)")
  case True
  have "find (\<lambda>y. n_inode_id y = i) (sql_update (\<lambda>r'. n_inode_id r' = n_inode_id row) (\<lambda>_. row) xs) =
      find (\<lambda>y. n_inode_id y = i) xs" for xs
    using assms by (induction xs) (auto simp: sql_update_def)
  with True show ?thesis by (simp add: node_of_def insert_on_conflict_def)
next
  case False
  then show ?thesis using assms node_of_append [of i s row]
    by (simp add: insert_on_conflict_def split: option.splits)
qed

lemma node_of_remove:
  "j \<noteq> i \<Longrightarrow> node_of i (s\<lparr>nodes := sql_delete (\<lambda>r. n_inode_id r = j) (nodes s)\<rparr>) = node_of i s"
proof -
  assume "j \<noteq> i"
  then have "find (\<lambda>y. n_inode_id y = i) (sql_delete (\<lambda>r. n_inode_id r = j) xs) = find (\<lambda>y. n_inode_id y = i) xs" for xs
    by (induction xs) (auto simp: sql_delete_def)
  then show ?thesis by (simp add: node_of_def)
qed

lemma node_of_migrate: "node_of i (migrate_ref_by s) = map_option (\<lambda>r. r\<lparr>n_ref_by := map_option d_id
    (find (\<lambda>d. d_target_type d = DENTRY_TARGET_INODE \<and> d_target_inode d = Some (n_inode_id r)) (dentries s))\<rparr>) (node_of i s)"
proof -
  have "find (\<lambda>y. n_inode_id y = i) (map (\<lambda>r. r\<lparr>n_ref_by := f r\<rparr>) xs) =
      map_option (\<lambda>r. r\<lparr>n_ref_by := f r\<rparr>) (find (\<lambda>y. n_inode_id y = i) xs)" for f xs
    by (induction xs) auto
  then show ?thesis by (simp add: node_of_def migrate_ref_by_def)
qed

lemma step_rev_le:
  assumes "db_step E l s s'" and "l \<noteq> Overwrite i"
  shows "rev_le (as_i64 i) s s'"
  using assms
proof (induction rule: db_step.induct)
  case (set_inode V n s r s')
  then have "nd_inode_id n \<noteq> i" by simp
  with set_inode_cases [OF set_inode(3)] show ?case
    by (auto simp: rev_le_def node_of_overwrite dest!: node_row_of_keys)
next
  case (alloc_inode V n s r s')
  with alloc_inode_cases [OF alloc_inode(4)] show ?case by (auto simp: rev_le_def node_of_append)
next
  case (remove_inode j s root r s')
  then have "as_i64 j \<noteq> as_i64 i" by simp
  with remove_inode show ?case
    by (auto simp: handle_remove_inode_def rev_le_def node_of_remove split: if_splits)
next
  case (reopen s)
  then show ?case by (auto simp: rev_le_def node_of_migrate)
next
  case (stat_bump V oid delta s r1 s')
  have "confined (rev_le (as_i64 i)) (handle_obj_stat_bump V oid delta)"
    unfolding handle_obj_stat_bump_def Let_def by (intro rev_le_rules; rule rev_le_plain; simp)
  then show ?case using stat_bump(2) by (rule confinedD)
next
  case (stat_delete oid s r3 s')
  then show ?case by (auto simp: handle_obj_stat_delete_if_zero_def intro: rev_le_nodes)
qed (meson confinedD rev_le_handlers rev_le_dentry_handlers)+

section \<open>Revisions stay in the range of the column\<close>

definition in_range :: "int option \<Rightarrow> bool" where
  "in_range c \<longleftrightarrow> - (2 ^ 63) \<le> coalesce c \<and> coalesce c \<le> 2 ^ 63"

definition rev_range :: "fs_conn \<Rightarrow> bool" where
  "rev_range s \<longleftrightarrow> (\<forall>r \<in> set (nodes s). in_range (n_rev r) \<and> in_range (n_lease_seq r))"

lemma in_range_incr: "in_range c \<Longrightarrow> in_range (Some (coalesce_incr c))"
  by (auto simp: in_range_def coalesce_incr_def coalesce_def)

definition keeps_range :: "fs_conn \<Rightarrow> fs_conn \<Rightarrow> bool" where
  "keeps_range s s' \<longleftrightarrow> (rev_range s \<longrightarrow> rev_range s')"

interpretation keeps_range: frame keeps_range
  by unfold_locales (auto simp: keeps_range_def)

lemma keeps_range_update [intro]:
  assumes "\<And>r. n_rev (f r) = n_rev r \<or> n_rev (f r) = Some (coalesce_incr (n_rev r))"
    and "\<And>r. n_lease_seq (f r) = n_lease_seq r \<or> n_lease_seq (f r) = Some (coalesce_incr (n_lease_seq r))"
  shows "confined keeps_range (update_nodes p f)"
proof -
  have "in_range (n_rev r) \<and> in_range (n_lease_seq r) \<Longrightarrow> in_range (n_rev (f r)) \<and> in_range (n_lease_seq (f r))" for r
    using assms(1) [of r] assms(2) [of r] by (auto simp: in_range_incr)
  then show ?thesis
    by (auto simp: confined_def update_nodes_def keeps_range_def rev_range_def set_sql_update)
qed

lemma keeps_range_plain:
  assumes "\<And>s. nodes (snd (m s)) = nodes s"
  shows "confined keeps_range m"
  using assms by (simp add: confined_def keeps_range_def rev_range_def)

lemmas keeps_range_rules = keeps_range.confined_bind keeps_range.confined_if keeps_range.confined_ret
  keeps_range.confined_throw keeps_range.confined_query keeps_range.confined_option
  keeps_range.confined_savepoint keeps_range.confined_prod keeps_range_update

lemma keeps_range_handlers:
  "confined keeps_range (handle_update_inode_state V i new old)"
  "confined keeps_range (handle_bump_dir_rev V p v)"
  "confined keeps_range (acquire_file_lease V i sess ttl)"
  "confined keeps_range (renew_file_lease V i sess sq ttl)"
  "confined keeps_range (release_file_lease i sess sq)"
  "confined keeps_range (reclaim_expired_write_leases V)"
  unfolding handle_update_inode_state_def handle_bump_dir_rev_def acquire_file_lease_def renew_file_lease_def
    release_file_lease_def reclaim_expired_write_leases_def lease_miss_def
  by (intro keeps_range_rules; simp)+

lemma keeps_range_entries:
  "confined keeps_range (check_parent_rev p v)"
  "confined keeps_range (bump_parent_rev V p)"
  "confined keeps_range (claim_inode V i d)"
  "confined keeps_range (unclaim_inode V i d)"
  unfolding check_parent_rev_def bump_parent_rev_def claim_inode_def unclaim_inode_def
  by (intro keeps_range_rules; simp)+

lemma keeps_range_dentry_handlers:
  "confined keeps_range (handle_create_dentry V p name t v)"
  "confined keeps_range (handle_delete_dentry V p name v)"
  "confined keeps_range (handle_replace_target V p name old t v)"
  unfolding handle_create_dentry_def handle_delete_dentry_def handle_replace_target_def Let_def
  by (intro keeps_range_rules keeps_range_entries; rule keeps_range_plain;
      simp add: insert_dentry_def touch_edge_def Let_def split: prod.splits)+

lemma node_row_of_range: "node_row_of V i n = Ok row \<Longrightarrow> in_range (n_rev row) \<and> in_range (n_lease_seq row)"
proof -
  assume "node_row_of V i n = Ok row"
  then have "n_rev row = map_option as_i64 (nd_rev n)" "n_lease_seq row = map_option as_i64 (nd_lease_seq n)"
    by (auto simp: node_row_of_def and_then_eq_Ok)
  moreover have "- (2 ^ 63) \<le> as_i64 w \<and> as_i64 w \<le> 2 ^ 63" for w
    using sint_ge [of w] sint_lt [of w] by (simp add: as_i64_def)
  then have "in_range (map_option as_i64 c)" for c by (cases c) (auto simp: in_range_def coalesce_def)
  ultimately show ?thesis by simp
qed

lemma step_range: "db_step E l s s' \<Longrightarrow> rev_range s \<Longrightarrow> rev_range s'"
proof (induction rule: db_step.induct)
  case (set_inode V n s r s')
  have "rev_range (s\<lparr>nodes := insert_on_conflict n_inode_id (\<lambda>_. row) row (nodes s)\<rparr>)"
    if "node_row_of V i n = Ok row" for row i
    using set_inode(4) node_row_of_range [OF that] by (auto simp: rev_range_def insert_on_conflict_def set_sql_update)
  with set_inode_cases [OF set_inode(3)] set_inode(4) show ?case by auto
next
  case (alloc_inode V n s r s')
  have "rev_range (s\<lparr>nodes := nodes s @ [row]\<rparr>)" if "node_row_of V i n = Ok row" for row i
    using alloc_inode(5) node_row_of_range [OF that] by (auto simp: rev_range_def)
  with alloc_inode_cases [OF alloc_inode(4)] alloc_inode(5) show ?case by auto
next
  case (remove_inode j s root r s')
  then show ?case by (auto simp: handle_remove_inode_def rev_range_def set_sql_delete split: if_splits)
next
  case (stat_bump V oid delta s r1 s')
  have "confined keeps_range (handle_obj_stat_bump V oid delta)"
    unfolding handle_obj_stat_bump_def Let_def by (intro keeps_range_rules; rule keeps_range_plain; simp)
  then have "keeps_range s s'" using stat_bump(2) by (rule confinedD)
  with stat_bump(3) show ?case by (simp add: keeps_range_def)
next
  case (stat_delete oid s r3 s')
  then show ?case by (auto simp: handle_obj_stat_delete_if_zero_def rev_range_def)
next
  case (reopen s)
  then show ?case by (auto simp: rev_range_def migrate_ref_by_def)
qed (meson confinedD keeps_range_def keeps_range_handlers keeps_range_dentry_handlers)+

lemma reach_range: "fs_reach E s \<Longrightarrow> rev_range s"
proof (induction rule: fs_reach.induct)
  case (init V r s)
  then show ?case
    by (auto simp: ensure_root_dir_def empty_conn_def node_of_def root_row_def rev_range_def in_range_def coalesce_def)
qed (rule step_range)

section \<open>Optimistic concurrency\<close>

definition rev_at :: "index_node_id \<Rightarrow> fs_conn \<Rightarrow> int option" where
  "rev_at p s = map_option (\<lambda>r. coalesce (n_rev r)) (node_of (as_i64 p) s)"

lemma rev_at_frame [simp]:
  "rev_at p (s\<lparr>dentries := ds, dentry_seq := q\<rparr>) = rev_at p s" "rev_at p (s\<lparr>dentries := ds\<rparr>) = rev_at p s"
  "rev_at p (s\<lparr>touched := e\<rparr>) = rev_at p s" "rev_at p (claimed V i d s) = rev_at p s"
  "rev_at p (unclaimed V i d s) = rev_at p s"
  by (simp_all add: rev_at_def claimed_def unclaimed_def option.map_comp comp_def)
    (auto simp: node_of_def intro!: map_option_cong)

lemma rev_at_entry [simp]:
  "rev_at p (claim_target V t d s) = rev_at p s" "rev_at p (release_entry V e s) = rev_at p s"
  by (simp_all add: claim_target_def release_entry_def split: option.splits)

lemma rev_at_bumped [simp]: "rev_at p (rev_bumped V p s) = map_option (\<lambda>v. min (v + 1) (2 ^ 63)) (rev_at p s)"
  by (cases "node_of (as_i64 p) s")
    (auto simp: rev_at_def rev_bumped_def coalesce_incr_def coalesce_def dest: node_of_SomeD)

lemma parent_rev_rev_at:
  "parent_rev p s = Some v \<longleftrightarrow> (\<exists>c. rev_at p s = Some c \<and> c < 2 ^ 63 \<and> v = as_u64 c)"
  by (auto simp: parent_rev_def rev_at_def split: option.splits)

lemma created_rev: "rev_at p (created V p name t s) = map_option (\<lambda>v. min (v + 1) (2 ^ 63)) (rev_at p s)"
  by (simp add: created_def Let_def)

lemma deleted_rev: "rev_at p (deleted V p name d s) = map_option (\<lambda>v. min (v + 1) (2 ^ 63)) (rev_at p s)"
  by (simp add: deleted_def)

lemma replaced_rev: "rev_at p (replaced V p name d t s) = map_option (\<lambda>v. min (v + 1) (2 ^ 63)) (rev_at p s)"
  by (simp add: replaced_def)

lemma bump_dir_rev_Ok:
  assumes "distinct (map n_inode_id (nodes s))" and "handle_bump_dir_rev V p v s = (Ok w, s')"
  shows "rev_at p s = Some (as_i64 v) \<and> rev_at p s' = Some (min (as_i64 v + 1) (2 ^ 63)) \<and> w = v + 1"
proof -
  let ?P = "\<lambda>r. n_inode_id r = as_i64 p \<and> coalesce (n_rev r) = as_i64 v"
  have c: "sql_count ?P (nodes s) \<noteq> 0" and w: "w = v + 1"
    and s': "s' = s\<lparr>nodes := sql_update ?P (\<lambda>r. r\<lparr>n_rev := Some (coalesce_incr (n_rev r)), n_updated_at := now_i64 V\<rparr>) (nodes s)\<rparr>"
    using assms(2) by (auto simp: handle_bump_dir_rev_def bind_def update_nodes_def throw_def ret_def split: if_splits)
  then obtain r where "r \<in> set (nodes s)" "?P r" by (auto simp: sql_count_zero)
  then have "node_of (as_i64 p) s = Some r" "?P r" using assms(1) by (auto simp: node_of_mem)
  then show ?thesis by (auto simp: rev_at_def s' w coalesce_incr_def coalesce_def)
qed

lemma rev_le_at:
  assumes "rev_le (as_i64 p) s s'" and "rev_at p s = Some c" and "c \<le> 2 ^ 63"
  shows "\<exists>c'. rev_at p s' = Some c' \<and> c \<le> c'"
  using assms by (auto simp: rev_le_def rev_at_def)

lemma sint_as_u64: "- (2 ^ 63) \<le> c \<Longrightarrow> c < 2 ^ 63 \<Longrightarrow> sint (as_u64 c) = c"
  unfolding as_u64_def sint_sbintrunc' by (intro signed_take_bit_int_eq_self) simp_all

lemma as_u64_inj: "- (2 ^ 63) \<le> a \<Longrightarrow> a < b \<Longrightarrow> b < 2 ^ 63 \<Longrightarrow> as_u64 a \<noteq> as_u64 b"
  using sint_as_u64 [of a] sint_as_u64 [of b] by auto

lemma stale_rev:
  assumes "- (2 ^ 63) \<le> c" and "c < 2 ^ 63" and "rev_at p s2 = Some c2" and "c < c2"
  shows "parent_rev p s2 \<noteq> Some (as_u64 c)" "c2 \<noteq> c"
  using assms as_u64_inj [of c c2] by (auto simp: parent_rev_rev_at)

lemma stale_fails:
  assumes "fs_inv s" and "parent_rev p s \<noteq> Some v" and "rev_at p s \<noteq> Some (as_i64 v)"
  shows "\<exists>e. handle_create_dentry V p name t v s = (Err e, s)"
    "\<exists>e. handle_delete_dentry V p name v s = (Err e, s)"
    "\<exists>e. handle_replace_target V p name old t v s = (Err e, s)"
    "\<exists>e. handle_bump_dir_rev V p v s = (Err e, s)"
proof -
  have dist: "distinct (map n_inode_id (nodes s))" using assms(1) by (simp add: fs_inv_def)
  obtain r s' where c: "handle_create_dentry V p name t v s = (r, s')" by fastforce
  then show "\<exists>e. handle_create_dentry V p name t v s = (Err e, s)"
    using assms(2) handle_create_dentry_Ok [OF dist, of V p name t v "()" s'] bind_savepoint_Err
    by (cases r) (auto simp: create_guard_def handle_create_dentry_def)
  obtain r s' where d: "handle_delete_dentry V p name v s = (r, s')" by fastforce
  then show "\<exists>e. handle_delete_dentry V p name v s = (Err e, s)"
    using assms(2) handle_delete_dentry_Ok [of V p name v s "()" s'] bind_savepoint_Err
    by (cases r) (auto simp: handle_delete_dentry_def)
  obtain r s' where d: "handle_replace_target V p name old t v s = (r, s')" by fastforce
  then show "\<exists>e. handle_replace_target V p name old t v s = (Err e, s)"
    using assms(2) handle_replace_target_Ok [OF assms(1), of V p name old t v "()" s'] bind_savepoint_Err
    by (cases r) (auto simp: replace_guard_def handle_replace_target_def)
  let ?P = "\<lambda>r. n_inode_id r = as_i64 p \<and> coalesce (n_rev r) = as_i64 v"
  have none: "\<And>r. r \<in> set (nodes s) \<Longrightarrow> \<not> ?P r"
    using assms(3) dist by (force simp: rev_at_def node_of_mem)
  then have "sql_count ?P (nodes s) = 0" by (simp add: sql_count_zero)
  then show "\<exists>e. handle_bump_dir_rev V p v s = (Err e, s)"
    by (simp add: handle_bump_dir_rev_def bind_def update_nodes_def throw_def sql_update_none [of _ ?P, OF none])
qed

end
