(* ===== verification/Fs_Meta_Props.thy ===== *)
theory Fs_Meta_Props
  imports Fs_Meta_Steps
begin

text \<open>
  Correctness of the metadata tables: the invariant of every reachable state, optimistic
  concurrency, the effect of entry changes on look-ups, round trips of inodes, leases with fencing
  tokens, reference counts, and the state change that the reclaiming of leases leaves half done.
\<close>

text \<open>A concrete database: the root directory and one sub-directory \<open>a\<close>.\<close>

definition demo_env :: "string fs_env" where
  "demo_env = \<lparr>fe_crates = inst_crates, fe_now = 100, fe_rowid = (\<lambda>_. None)\<rparr>"

definition demo_node :: "node_state \<Rightarrow> string node_record" where
  "demo_node st = \<lparr>nd_inode_id = 0, nd_ref_by = None, nd_state = st, nd_read_only = False, nd_base_obj_id = None,
     nd_rev = Some 0, nd_meta = None, nd_lease_session = None, nd_lease_seq = None, nd_lease_expire_at = None\<rparr>"

definition demo_root :: fs_conn where
  "demo_root = snd (ensure_root_dir demo_env empty_conn)"

definition demo_alloc :: fs_conn where
  "demo_alloc = snd (handle_alloc_inode demo_env (demo_node DirNormal) demo_root)"

definition demo_tree :: fs_conn where
  "demo_tree = snd (handle_create_dentry demo_env 1 ''a'' (TIndexNodeId 2) 0 demo_alloc)"

lemma demo_root_reach: "fs_reach inst_crates demo_root"
  by (rule fs_reach.init [where V = demo_env and r = "fst (ensure_root_dir demo_env empty_conn)"])
    (simp_all add: demo_root_def demo_env_def)

lemma demo_alloc_reach: "fs_reach inst_crates demo_alloc"
  by (rule fs_reach.step [OF demo_root_reach],
      rule db_step.alloc_inode [where V = demo_env and n = "demo_node DirNormal"
        and r = "fst (handle_alloc_inode demo_env (demo_node DirNormal) demo_root)"])
    (simp_all add: demo_alloc_def demo_env_def demo_node_def)

lemma demo_tree_reach: "fs_reach inst_crates demo_tree"
  by (rule fs_reach.step [OF demo_alloc_reach],
      rule db_step.create_dentry [where V = demo_env and p = 1 and name = "''a''" and t = "TIndexNodeId 2" and v = 0
        and r = "fst (handle_create_dentry demo_env 1 ''a'' (TIndexNodeId 2) 0 demo_alloc)"])
    (simp_all add: demo_tree_def demo_env_def)

lemma demo_tree_nodes: "map (\<lambda>r. (n_inode_id r, n_rev r, n_ref_by r)) (nodes demo_tree) =
    [(1, Some 1, None), (2, Some 0, Some 1)]"
  by code_simp

section \<open>The invariant\<close>

text \<open>\<^bold>\<open>C32.\<close> Whatever sequence of handlers runs on an initialised database, with whatever outcomes, as long as
  \<open>set_inode\<close> is given the \<open>ref_by\<close> that the row has, \<open>alloc_inode\<close> is given none, and \<open>remove_inode\<close> is
  called only for an inode that no entry names (conditions that the RPCs do not check, and that the
  finalisation of a directory, which is not modelled, does not keep):
  inode and entry ids and the names within a directory are unique, each inode is the target of at
  most one directory entry (there are no hard links), every inode target exists, and \<open>ref_by\<close> of
  each inode is the id of exactly that entry, so that recomputing it when the database is opened again
  changes nothing.\<close>

theorem fs_reachable_invariant:
  assumes "fs_reach E s"
  shows "fs_inv s \<and> migrate_ref_by s = s"
  using reach_inv [OF assms] migrate_ref_by_id by blast

theorem fs_reachable_invariant_witness:
  "fs_inv demo_tree \<and> migrate_ref_by demo_tree = demo_tree \<and> length (dentries demo_tree) = 1 \<and>
   map n_ref_by (nodes demo_tree) = [None, Some 1]"
proof -
  have "length (dentries demo_tree) = 1" by code_simp
  moreover have "map n_ref_by (nodes demo_tree) = [None, Some 1]" by code_simp
  ultimately show ?thesis using fs_reachable_invariant [OF demo_tree_reach] by simp
qed

section \<open>Optimistic concurrency\<close>

definition other_steps :: "'j ext_crates \<Rightarrow> index_node_id \<Rightarrow> fs_conn \<Rightarrow> fs_conn \<Rightarrow> bool" where
  "other_steps E p s s' \<longleftrightarrow> (\<lambda>a b. \<exists>l. db_step E l a b \<and> l \<noteq> Overwrite p)\<^sup>*\<^sup>* s s'"

lemma other_steps_reach: "other_steps E p s s' \<Longrightarrow> fs_reach E s \<Longrightarrow> fs_reach E s'"
  unfolding other_steps_def by (induction rule: rtranclp_induct) (auto intro: fs_reach.step)

lemma other_steps_rev: "other_steps E p s s' \<Longrightarrow> rev_le (as_i64 p) s s'"
  unfolding other_steps_def
  by (induction rule: rtranclp_induct) (auto intro: rev_le.refl rev_le_trans step_rev_le)

text \<open>A change of the directory \<open>p\<close> that was made with the expected revision \<open>v\<close>.\<close>

definition changes_dir :: "'j fs_env \<Rightarrow> index_node_id \<Rightarrow> u64 \<Rightarrow> fs_conn \<Rightarrow> fs_conn \<Rightarrow> bool" where
  "changes_dir V p v s s' \<longleftrightarrow> (\<exists>name t old w.
     handle_create_dentry V p name t v s = (Ok (), s') \<or>
     (handle_delete_dentry V p name v s = (Ok (), s') \<and> dentry_of (as_i64 p) name s \<noteq> None) \<or>
     (handle_replace_target V p name old t v s = (Ok (), s') \<and> dentry_target_cols old \<noteq> dentry_target_cols t) \<or>
     handle_bump_dir_rev V p v s = (Ok w, s'))"

lemma changes_dir_step: "changes_dir V p v s s' \<Longrightarrow> db_step (fe_crates V) Handler s s'"
  unfolding changes_dir_def
  by (auto intro: create_dentry delete_dentry replace_target bump_dir_rev [OF refl])

lemma changes_dir_rev:
  assumes "fs_inv s" and "rev_range s" and "changes_dir V p v s s'"
  shows "\<exists>c. - (2 ^ 63) \<le> c \<and> c < 2 ^ 63 \<and> v = as_u64 c \<and> rev_at p s' = Some (c + 1)"
proof -
  have dist: "distinct (map n_inode_id (nodes s))" using assms(1) by (simp add: fs_inv_def)
  have "\<exists>c. rev_at p s = Some c \<and> c < 2 ^ 63 \<and> v = as_u64 c \<and> rev_at p s' = Some (c + 1)"
  proof -
    have bump: "\<exists>c. rev_at p s = Some c \<and> c < 2 ^ 63 \<and> v = as_u64 c \<and> rev_at p s' = Some (c + 1)"
      if "parent_rev p s = Some v" "rev_at p s' = map_option (\<lambda>v. min (v + 1) (2 ^ 63)) (rev_at p s)"
      using that by (auto simp: parent_rev_rev_at)
    have i64: "as_i64 v < 2 ^ 63" using sint_lt [of v] by (simp add: as_i64_def)
    from assms(3) obtain name t old w where
      "handle_create_dentry V p name t v s = (Ok (), s') \<or>
       (handle_delete_dentry V p name v s = (Ok (), s') \<and> dentry_of (as_i64 p) name s \<noteq> None) \<or>
       (handle_replace_target V p name old t v s = (Ok (), s') \<and> dentry_target_cols old \<noteq> dentry_target_cols t) \<or>
       handle_bump_dir_rev V p v s = (Ok w, s')" unfolding changes_dir_def by blast
    then show ?thesis
    proof (elim disjE conjE)
      assume "handle_create_dentry V p name t v s = (Ok (), s')"
      then show ?thesis by (intro bump) (auto simp: handle_create_dentry_Ok [OF dist] create_guard_def created_rev)
    next
      assume "handle_delete_dentry V p name v s = (Ok (), s')" "dentry_of (as_i64 p) name s \<noteq> None"
      then show ?thesis by (intro bump) (auto simp: handle_delete_dentry_Ok deleted_rev)
    next
      assume "handle_replace_target V p name old t v s = (Ok (), s')" "dentry_target_cols old \<noteq> dentry_target_cols t"
      then show ?thesis
        by (intro bump) (auto simp: handle_replace_target_Ok [OF assms(1)] replace_guard_def replaced_rev)
    next
      assume "handle_bump_dir_rev V p v s = (Ok w, s')"
      from bump_dir_rev_Ok [OF dist this] i64 show ?thesis by (intro exI [of _ "as_i64 v"]) auto
    qed
  qed
  then obtain c where c: "rev_at p s = Some c" "c < 2 ^ 63" "v = as_u64 c" "rev_at p s' = Some (c + 1)" by blast
  then have "- (2 ^ 63) \<le> c" using assms(2) by (auto simp: rev_at_def rev_range_def in_range_def dest!: node_of_SomeD)
  with c show ?thesis by blast
qed

text \<open>\<^bold>\<open>C33.\<close> Of all the writers that read the same revision of a directory, one succeeds.  Once an
  entry of \<open>p\<close> was created, deleted or replaced (or the revision bumped) with the expected revision
  \<open>v\<close>, then after any further steps, other than overwriting or removing the inode \<open>p\<close> itself,
  every create, delete, replace and bump that still expects \<open>v\<close> fails and changes nothing.\<close>

theorem occ_single_winner:
  assumes "fs_reach (fe_crates V) s" and "changes_dir V p v s s1" and "other_steps (fe_crates V) p s1 s2"
  shows "(\<exists>e. handle_create_dentry V' p name t v s2 = (Err e, s2)) \<and>
    (\<exists>e. handle_delete_dentry V' p name v s2 = (Err e, s2)) \<and>
    (\<exists>e. handle_replace_target V' p name old t v s2 = (Err e, s2)) \<and>
    (\<exists>e. handle_bump_dir_rev V' p v s2 = (Err e, s2))"
proof -
  obtain c where c: "- (2 ^ 63) \<le> c" "c < 2 ^ 63" "v = as_u64 c" "rev_at p s1 = Some (c + 1)"
    using changes_dir_rev [OF reach_inv [OF assms(1)] reach_range [OF assms(1)] assms(2)] by blast
  obtain c2 where c2: "rev_at p s2 = Some c2" "c < c2"
    using rev_le_at [OF other_steps_rev [OF assms(3)] c(4)] c(2) by force
  have "fs_reach (fe_crates V) s1" using assms(1) changes_dir_step [OF assms(2)] by (rule fs_reach.step)
  then have inv: "fs_inv s2" using other_steps_reach [OF assms(3)] reach_inv by blast
  have "as_i64 v = c" using c unfolding as_i64_def by (simp add: sint_as_u64)
  then have "parent_rev p s2 \<noteq> Some v" "rev_at p s2 \<noteq> Some (as_i64 v)"
    using stale_rev [OF c(1, 2) c2] c2 c(3) by auto
  from stale_fails [OF inv this] show ?thesis by blast
qed

theorem occ_single_winner_witness:
  "changes_dir demo_env 1 0 demo_alloc demo_tree \<and>
   (\<exists>e. handle_create_dentry demo_env 1 ''b'' Tombstone 0 demo_tree = (Err e, demo_tree))"
proof -
  have "fst (handle_create_dentry demo_env 1 ''a'' (TIndexNodeId 2) 0 demo_alloc) = Ok ()" by code_simp
  then have ch: "changes_dir demo_env 1 0 demo_alloc demo_tree"
    unfolding changes_dir_def demo_tree_def by (metis prod.collapse)
  have reach: "fs_reach (fe_crates demo_env) demo_alloc" using demo_alloc_reach by (simp add: demo_env_def)
  have "other_steps (fe_crates demo_env) 1 demo_tree demo_tree" by (simp add: other_steps_def)
  from occ_single_winner [OF reach ch this] ch show ?thesis by blast
qed

section \<open>Round trips\<close>

text \<open>Identifiers that the byte codec accepts: it rejects those of fewer than three bytes.\<close>

definition blob_ok :: "obj_id \<Rightarrow> bool" where
  "blob_ok oid \<longleftrightarrow> wf_obj_id oid \<and> 2 \<le> length (obj_type oid) + length (obj_hash oid)"

lemma obj_id_from_blob_to_blob: "blob_ok oid \<Longrightarrow> obj_id_from_blob (obj_id_to_blob oid) = Ok oid"
  using split_type_hash_codec [of oid]
  by (simp add: blob_ok_def obj_id_from_blob_def obj_id_to_blob_def obj_id_from_bytes_def obj_id_to_bytes_def
      codec_from_bytes_def codec_to_bytes_def new_by_raw_def)

fun wf_node_state :: "node_state \<Rightarrow> bool" where
  "wf_node_state (Linked s) \<longleftrightarrow> blob_ok (ls_obj_id s) \<and> blob_ok (ls_qcid s)"
| "wf_node_state (Finalized s) \<longleftrightarrow> blob_ok (fs_obj_id s)"
| "wf_node_state _ \<longleftrightarrow> True"

lemma parse_node_state_cols: "wf_node_state st \<Longrightarrow> parse_node_state (node_state_cols_of st) = Ok st"
  by (cases st) (simp_all add: parse_node_state_def cols_default_def col_get_def obj_id_from_blob_to_blob)

lemma node_state_cols_inject:
  "wf_node_state a \<Longrightarrow> wf_node_state b \<Longrightarrow> node_state_cols_of a = node_state_cols_of b \<longleftrightarrow> a = b"
  using parse_node_state_cols [of a] parse_node_state_cols [of b] by (metis sum.inject(2))

text \<open>
  A record that Rust can hold: identifiers are well formed, and \<open>serde_json\<close> reads back the
  metadata it printed.
\<close>

definition wf_node :: "'j ext_crates \<Rightarrow> 'j node_record \<Rightarrow> bool" where
  "wf_node E n \<longleftrightarrow> wf_node_state (nd_state n) \<and> (\<forall>oid. nd_base_obj_id n = Some oid \<longrightarrow> blob_ok oid) \<and>
     (\<forall>v. nd_meta n = Some v \<longrightarrow> (\<exists>t. json_to_str E v = Some t \<and> json_from_str E t = Some v))"

lemma col_i64_opt_as_i64: "col_i64_opt (map_option as_i64 c) = Ok (map_option as_i64 c)"
  using sint_lt [where 'a = 64] by (cases c) (auto simp: col_i64_opt_def col_i64_def as_i64_def)

lemma map_as_u64_as_i64 [simp]: "map_option as_u64 (map_option as_i64 c) = c"
  by (cases c) simp_all

lemma parse_node_row:
  assumes "wf_node (fe_crates V) n"
  shows "\<exists>row. node_row_of V i n = Ok row \<and> parse_node (fe_crates V) row = Ok (n\<lparr>nd_inode_id := as_u64 i\<rparr>)"
proof -
  obtain meta where m: "(case nd_meta n of None \<Rightarrow> Ok None
      | Some v \<Rightarrow> and_then (ok_or (json_to_str (fe_crates V) v) (ReasonError ''serialize meta failed: '')) (\<lambda>t. Ok (Some t))) = Ok meta"
    "(case meta of None \<Rightarrow> Ok None | Some t \<Rightarrow> and_then (ok_or (json_from_str (fe_crates V) t)
      (ReasonError ''invalid meta json: '')) (\<lambda>v. Ok (Some v))) = Ok (nd_meta n)"
    using assms by (cases "nd_meta n") (auto simp: wf_node_def)
  have b: "(case map_option obj_id_to_blob (nd_base_obj_id n) of None \<Rightarrow> Ok None
      | Some b \<Rightarrow> and_then (obj_id_from_blob b) (\<lambda>oid. Ok (Some oid))) = Ok (nd_base_obj_id n)"
    using assms by (cases "nd_base_obj_id n") (simp_all add: wf_node_def obj_id_from_blob_to_blob)
  show ?thesis
    using assms m(2) b by (simp add: node_row_of_def m(1) parse_node_def col_i64_opt_as_i64 parse_node_state_cols wf_node_def)
qed

lemma node_of_set_self:
  "node_of (n_inode_id row) (s\<lparr>nodes := insert_on_conflict n_inode_id (\<lambda>_. row) row (nodes s)\<rparr>) = Some row"
proof (cases "n_inode_id row \<in> n_inode_id ` set (nodes s)")
  case True
  then have "find (\<lambda>y. n_inode_id y = n_inode_id row) (sql_update (\<lambda>r'. n_inode_id r' = n_inode_id row) (\<lambda>_. row) xs) = Some row"
    if "n_inode_id row \<in> n_inode_id ` set xs" for xs
    using that by (induction xs) (auto simp: sql_update_def)
  with True show ?thesis by (simp add: node_of_def insert_on_conflict_def)
next
  case False
  then have "node_of (n_inode_id row) s = None" by (simp add: node_of_None)
  with False show ?thesis by (simp add: insert_on_conflict_def node_of_append)
qed

lemma fresh_rowid_in_range:
  assumes "\<forall>r \<in> set (nodes s). 0 < n_inode_id r \<and> n_inode_id r < 2 ^ 63 - 1"
  shows "\<exists>i. fresh_rowid V (map n_inode_id (nodes s)) = Some i \<and> 0 < i \<and> i < 2 ^ 63 \<and> node_of i s = None"
proof (cases "nodes s = []")
  case False
  let ?ids = "n_inode_id ` set (nodes s)"
  have fin: "finite ?ids" "?ids \<noteq> {}" using False by auto
  then have "Max ?ids \<in> ?ids" by (rule Max_in)
  then have m: "0 < Max ?ids" "Max ?ids < 2 ^ 63 - 1" using assms by auto
  have "Max ?ids + 1 \<notin> ?ids"
  proof
    assume "Max ?ids + 1 \<in> ?ids"
    then have "Max ?ids + 1 \<le> Max ?ids" using fin(1) by (intro Max_ge)
    then show False by simp
  qed
  with m False show ?thesis by (auto simp: fresh_rowid_def node_of_None)
qed (simp add: fresh_rowid_def node_of_def)

text \<open>\<^bold>\<open>C35.\<close> An inode that is written reads back as the same record, whatever its state, revision,
  lease and metadata, over the full range of its \<open>u64\<close> fields, and no other inode changes; an inode that is
  allocated without a number gets an unused one under which it reads back.\<close>

theorem inode_roundtrip:
  assumes "wf_node (fe_crates V) n"
  shows "(\<exists>s'. handle_set_inode V n s = (Ok (), s') \<and>
       handle_get_inode V (nd_inode_id n) s' = (Ok (Some n), s') \<and>
       (\<forall>i. i \<noteq> nd_inode_id n \<longrightarrow> fst (handle_get_inode V i s') = fst (handle_get_inode V i s))) \<and>
    (nd_inode_id n = 0 \<and> (\<forall>r \<in> set (nodes s). 0 < n_inode_id r \<and> n_inode_id r < 2 ^ 63 - 1) \<longrightarrow>
       (\<exists>i s'. handle_alloc_inode V n s = (Ok i, s') \<and> i \<noteq> 0 \<and> node_of (as_i64 i) s = None \<and>
          handle_get_inode V i s' = (Ok (Some (n\<lparr>nd_inode_id := i\<rparr>)), s')))"
proof (intro conjI impI)
  obtain row where row: "node_row_of V (as_i64 (nd_inode_id n)) n = Ok row"
    "parse_node (fe_crates V) row = Ok n"
    using parse_node_row [OF assms, of "as_i64 (nd_inode_id n)"] by auto
  have id: "n_inode_id row = as_i64 (nd_inode_id n)" using node_row_of_keys [OF row(1)] by simp
  let ?s = "s\<lparr>nodes := insert_on_conflict n_inode_id (\<lambda>_. row) row (nodes s)\<rparr>"
  have self: "node_of (as_i64 (nd_inode_id n)) ?s = Some row"
    using node_of_set_self [of row s] id by simp
  have "handle_get_inode V i ?s = (fst (handle_get_inode V i s), ?s)" if "i \<noteq> nd_inode_id n" for i
    using that id by (simp add: handle_get_inode_def query_def node_of_overwrite)
  then show "\<exists>s'. handle_set_inode V n s = (Ok (), s') \<and> handle_get_inode V (nd_inode_id n) s' = (Ok (Some n), s') \<and>
      (\<forall>i. i \<noteq> nd_inode_id n \<longrightarrow> fst (handle_get_inode V i s') = fst (handle_get_inode V i s))"
    using row self by (intro exI [of _ ?s]) (simp add: handle_set_inode_def bind_def query_def handle_get_inode_def)
next
  assume a: "nd_inode_id n = 0 \<and> (\<forall>r \<in> set (nodes s). 0 < n_inode_id r \<and> n_inode_id r < 2 ^ 63 - 1)"
  obtain i where i: "fresh_rowid V (map n_inode_id (nodes s)) = Some i" "0 < i" "i < 2 ^ 63" "node_of i s = None"
    using fresh_rowid_in_range [of s V] a by blast
  obtain row where row: "node_row_of V i n = Ok row" "parse_node (fe_crates V) row = Ok (n\<lparr>nd_inode_id := as_u64 i\<rparr>)"
    using parse_node_row [OF assms] by blast
  have "n_inode_id row = i" using node_row_of_keys [OF row(1)] by simp
  then have "node_of i (s\<lparr>nodes := nodes s @ [row]\<rparr>) = Some row" using i by (simp add: node_of_append)
  moreover have "as_i64 (as_u64 i) = i" using i sint_as_u64 [of i] by (simp add: as_i64_def)
  moreover from this have "as_u64 i \<noteq> 0" using i(2) by (auto simp: as_i64_def)
  ultimately show "\<exists>i s'. handle_alloc_inode V n s = (Ok i, s') \<and> i \<noteq> 0 \<and> node_of (as_i64 i) s = None \<and>
      handle_get_inode V i s' = (Ok (Some (n\<lparr>nd_inode_id := i\<rparr>)), s')"
    using a i row by (intro exI [of _ "as_u64 i"] exI [of _ "s\<lparr>nodes := nodes s @ [row]\<rparr>"])
      (simp add: handle_alloc_inode_def bind_def query_def handle_get_inode_def)
qed

theorem inode_roundtrip_witness:
  "(\<exists>s'. handle_set_inode demo_env (demo_node (Working \<lparr>ws_fb_handle = ''h'', ws_last_write_at = - 1\<rparr>)) demo_tree = (Ok (), s') \<and>
      handle_get_inode demo_env 0 s' = (Ok (Some (demo_node (Working \<lparr>ws_fb_handle = ''h'', ws_last_write_at = - 1\<rparr>))), s')) \<and>
   (\<exists>i s'. handle_alloc_inode demo_env (demo_node FileNormal) demo_tree = (Ok i, s') \<and> i \<noteq> 0)"
proof -
  have w: "wf_node (fe_crates demo_env) (demo_node (Working \<lparr>ws_fb_handle = ''h'', ws_last_write_at = - 1\<rparr>))"
    "wf_node (fe_crates demo_env) (demo_node FileNormal)"
    by (simp_all add: wf_node_def demo_node_def)
  have "map n_inode_id (nodes demo_tree) = [1, 2]" by code_simp
  then have "set (map n_inode_id (nodes demo_tree)) = {1, 2}" by simp
  then have "n_inode_id ` set (nodes demo_tree) = {1, 2}" by (simp only: set_map)
  then have "n_inode_id r = 1 \<or> n_inode_id r = 2" if "r \<in> set (nodes demo_tree)" for r using that by blast
  then have "\<forall>r \<in> set (nodes demo_tree). 0 < n_inode_id r \<and> n_inode_id r < 2 ^ 63 - 1" by force
  then show ?thesis
    using inode_roundtrip [OF w(1), of demo_tree] inode_roundtrip [OF w(2), of demo_tree] by (auto simp: demo_node_def)
qed

section \<open>Entries as a map\<close>

text \<open>The abstract view of the entries: a finite map from directory and name to a target.\<close>

definition entries :: "fs_conn \<Rightarrow> int \<times> string \<rightharpoonup> int \<times> int option \<times> u8 list option" where
  "entries s = (\<lambda>(p, name). map_option entry_cols (dentry_of p name s))"

lemma entries_nodes [simp]:
  "entries (rev_bumped V p s) = entries s" "entries (claim_target V t d s) = entries s"
  "entries (release_entry V e s) = entries s" "entries (s\<lparr>touched := u\<rparr>) = entries s"
  by (auto simp: entries_def dentry_of_def fun_eq_iff)

lemma entries_append:
  assumes "dentry_of (d_parent d) (d_name d) s = None"
  shows "entries (s\<lparr>dentries := dentries s @ [d], dentry_seq := q\<rparr>) = (entries s)((d_parent d, d_name d) \<mapsto> entry_cols d)"
proof -
  have "find P (xs @ [d]) = (case find P xs of None \<Rightarrow> if P d then Some d else None | Some r \<Rightarrow> Some r)"
    for P and xs :: "dentry_row list" by (induction xs) auto
  with assms show ?thesis by (auto simp: entries_def dentry_of_def fun_eq_iff split: option.splits)
qed

lemma entries_delete:
  "entries (s\<lparr>dentries := sql_delete (\<lambda>e. d_parent e = p \<and> d_name e = name) (dentries s)\<rparr>) = (entries s)((p, name) := None)"
proof -
  have same: "find (\<lambda>d. d_parent d = q \<and> d_name d = m) (sql_delete (\<lambda>e. d_parent e = p \<and> d_name e = name) xs) =
      find (\<lambda>d. d_parent d = q \<and> d_name d = m) xs" if "(q, m) \<noteq> (p, name)" for q m and xs :: "dentry_row list"
    using that by (induction xs) (auto simp: sql_delete_def)
  have none: "find (\<lambda>d. d_parent d = p \<and> d_name d = name) (sql_delete (\<lambda>e. d_parent e = p \<and> d_name e = name) xs) = None" for xs :: "dentry_row list"
    by (simp add: find_None_iff sql_delete_def)
  show ?thesis
  proof
    fix x :: "int \<times> string"
    obtain q m where x: "x = (q, m)" by (cases x)
    show "entries (s\<lparr>dentries := sql_delete (\<lambda>e. d_parent e = p \<and> d_name e = name) (dentries s)\<rparr>) x = ((entries s)((p, name) := None)) x"
      using same [of q m] none by (cases "(q, m) = (p, name)") (auto simp: entries_def dentry_of_def x)
  qed
qed

lemma entries_retarget:
  assumes "keys_ok ks (dentries s) q" and "dentry_of p name s = Some d"
  shows "entries (s\<lparr>dentries := sql_update (\<lambda>e. d_id e = d_id d) (retarget V t) (dentries s)\<rparr>) =
    (entries s)((p, name) \<mapsto> dentry_target_cols t)"
proof -
  have d: "d \<in> set (dentries s)" "d_parent d = p" "d_name d = name" using dentry_of_SomeD [OF assms(2)] by auto
  have inj: "inj_on d_id (set (dentries s))" "distinct (map (\<lambda>d. (d_parent d, d_name d)) (dentries s))"
    using assms(1) by (simp_all add: keys_ok_def distinct_map)
  have "dentry_of a m (s\<lparr>dentries := sql_update (\<lambda>e. d_id e = d_id d) (retarget V t) (dentries s)\<rparr>) =
      map_option (\<lambda>e. if d_id e = d_id d then retarget V t e else e) (dentry_of a m s)" for a m
    using find_key_update [where key = "\<lambda>d. (d_parent d, d_name d)" and f = "retarget V t" and k = "(a, m)"
        and p = "\<lambda>e. d_id e = d_id d" and xs = "dentries s"] by (simp add: dentry_of_def)
  moreover have "d_id e = d_id d \<longleftrightarrow> (a, m) = (p, name)" if "dentry_of a m s = Some e" for a m e
  proof -
    have e: "e \<in> set (dentries s)" "d_parent e = a" "d_name e = m" using dentry_of_SomeD [OF that] by auto
    show ?thesis
    proof
      assume "d_id e = d_id d"
      then have "e = d" using inj(1) e(1) d(1) by (simp add: inj_on_def)
      with e d show "(a, m) = (p, name)" by simp
    next
      assume "(a, m) = (p, name)"
      with assms(2) that show "d_id e = d_id d" by simp
    qed
  qed
  ultimately have "entries (s\<lparr>dentries := sql_update (\<lambda>e. d_id e = d_id d) (retarget V t) (dentries s)\<rparr>) (a, m) =
      ((entries s)((p, name) \<mapsto> dentry_target_cols t)) (a, m)" for a m
    using assms(2) by (cases "dentry_of a m s") (auto simp: entries_def)
  then show ?thesis by (auto simp: fun_eq_iff)
qed

lemma of_char_char_of_u8: "(of_char (char_of (unat (b :: u8))) :: u8) = b"
proof -
  have "unat (of_char (char_of (unat b)) :: u8) = unat b" by (simp add: of_char_of)
  then show ?thesis by (simp only: word_unat_eq_iff)
qed

lemma as_bytes_bytes_to_chars: "as_bytes (bytes_to_chars bs) = bs"
  by (simp add: as_bytes_def bytes_to_chars_def comp_def of_char_char_of_u8 map_idI)

lemma obj_id_to_from_blob:
  assumes "obj_id_from_blob b = Ok oid"
  shows "obj_id_to_blob oid = b"
proof -
  from assms obtain ty h where s: "split_type_hash b = Ok (ty, h)" and o: "oid = new_by_raw ty h"
    by (auto simp: obj_id_from_blob_def obj_id_from_bytes_def codec_from_bytes_def and_then_eq_Ok split: sum.splits if_splits)
  then obtain pos where pos: "position (\<lambda>x. x = colon_byte) b = Some pos" "ty = bytes_to_chars (take pos b)" "h = drop (Suc pos) b"
    by (auto simp: split_type_hash_def and_then_eq_Ok string_from_utf8_def split: if_splits)
  have p: "pos < length b" "b ! pos = colon_byte" using position_SomeD [OF pos(1)] by auto
  show ?thesis
    using p id_take_nth_drop [of pos b]
    by (simp add: as_bytes_bytes_to_chars obj_id_to_blob_def obj_id_to_bytes_def codec_to_bytes_def o new_by_raw_def pos)
qed

lemma parse_dentry_cols:
  assumes "parse_dentry d = Ok e" and "dentry_check d"
  shows "dentry_target_cols (de_target e) = entry_cols d"
proof -
  have "as_i64 (as_u64 i) = i" if "d_target_inode d = Some i" for i
    using assms(2) that sint_as_u64 [of i] by (auto simp: dentry_check_def as_i64_def)
  then show ?thesis
    using assms
    by (auto simp: parse_dentry_def and_then_eq_Ok entry_cols_def dentry_check_def symlink_path_from_blob_def
        symlink_path_to_blob_def string_from_utf8_def obj_id_to_from_blob as_bytes_bytes_to_chars
        split: if_splits option.splits)
qed

lemma created_entries:
  "create_guard p name t v s \<Longrightarrow> entries (created V p name t s) = (entries s)((as_i64 p, name) \<mapsto> dentry_target_cols t)"
  using entries_append [of "new_dentry V p name t s" s "dentry_seq s + 1"]
  by (cases "dentry_target_cols t")
    (simp add: create_guard_def created_def Let_def entry_cols_def new_dentry_def)

lemma deleted_entries: "entries (deleted V p name d s) = (entries s)((as_i64 p, name) := None)"
  by (simp add: deleted_def entries_delete)

lemma replaced_entries:
  assumes "fs_inv s" and "dentry_of (as_i64 p) name s = Some d"
  shows "entries (replaced V p name d t s) = (entries s)((as_i64 p, name) \<mapsto> dentry_target_cols t)"
  using assms entries_retarget [of "node_keys s" s "dentry_seq s"] by (simp add: replaced_def fs_inv_keys)

lemma replace_Ok_entries:
  assumes inv: "fs_inv s" and h: "handle_replace_target V p name old t v s = (Ok a, s')"
  shows "parent_rev p s = Some v \<and> entries s (as_i64 p, name) = Some (dentry_target_cols old) \<and>
    entries s' = (entries s)((as_i64 p, name) \<mapsto> dentry_target_cols t)"
proof -
  from h obtain d where g: "replace_guard p name old t v d s"
    and s': "s' = (if entry_cols d = dentry_target_cols t then s else replaced V p name d t s)"
    by (auto simp: handle_replace_target_Ok [OF inv])
  then have d: "dentry_of (as_i64 p) name s = Some d" and old: "entry_cols d = dentry_target_cols old"
    and pr: "parent_rev p s = Some v" by (simp_all add: replace_guard_def)
  have "entries s (as_i64 p, name) = Some (entry_cols d)" using d by (simp add: entries_def)
  moreover from this have "entries s' = (entries s)((as_i64 p, name) \<mapsto> dentry_target_cols t)"
    using s' replaced_entries [OF inv d, of V t] by (cases "entry_cols d = dentry_target_cols t") auto
  ultimately show ?thesis using old pr by simp
qed

lemma entry_handlers_Err:
  "handle_create_dentry V p name t v s = (Err e, s') \<Longrightarrow> s' = s"
  "handle_delete_dentry V p name v s = (Err e, s') \<Longrightarrow> s' = s"
  "handle_replace_target V p name old t v s = (Err e, s') \<Longrightarrow> s' = s"
  "upsert_dentry_with_parent_rev V p name t v s = (Err e, s') \<Longrightarrow> s' = s"
proof -
  show c: "handle_create_dentry V p name t v s = (Err e, s') \<Longrightarrow> s' = s" for s'
    unfolding handle_create_dentry_def by (rule bind_savepoint_Err)
  show "handle_delete_dentry V p name v s = (Err e, s') \<Longrightarrow> s' = s"
    unfolding handle_delete_dentry_def by (rule bind_savepoint_Err)
  show r: "handle_replace_target V p name old t v s = (Err e, s') \<Longrightarrow> s' = s" for s' old
    unfolding handle_replace_target_def by (rule bind_savepoint_Err)
  show "upsert_dentry_with_parent_rev V p name t v s = (Err e, s') \<Longrightarrow> s' = s"
    unfolding upsert_dentry_with_parent_rev_def
    by (auto simp: bind_def dest!: get_dentry_state dest: c r split: prod.splits sum.splits option.splits)
qed

lemma upsert_Ok:
  assumes inv: "fs_inv s" and u: "upsert_dentry_with_parent_rev V p name t v s = (Ok a, s')"
  shows "parent_rev p s = Some v \<and> entries s' = (entries s)((as_i64 p, name) \<mapsto> dentry_target_cols t)"
proof -
  have dist: "distinct (map n_inode_id (nodes s))" using inv by (simp add: fs_inv_def)
  from u obtain x where x: "handle_get_dentry p name s = (Ok x, s)"
    and k: "(case x of Some e \<Rightarrow> handle_replace_target V p name (de_target e) t v
             | None \<Rightarrow> handle_create_dentry V p name t v) s = (Ok a, s')"
    by (auto simp: upsert_dentry_with_parent_rev_def bind_eq_Ok dest: get_dentry_state)
  show ?thesis
  proof (cases x)
    case None
    with k have g: "create_guard p name t v s" and s': "s' = created V p name t s"
      by (simp_all add: handle_create_dentry_Ok [OF dist])
    then show ?thesis using created_entries [OF g] by (simp add: create_guard_def)
  next
    case (Some e)
    with k show ?thesis using replace_Ok_entries [OF inv, of V p name "de_target e" t v a s'] by simp
  qed
qed

text \<open>\<^bold>\<open>C34.\<close> The handlers of directory entries implement updates of a map from directory and name to a
  target.  A create succeeds exactly when the directory exists with the expected revision, the name is
  free and the target inode exists and is unreferenced; it adds the entry.  A delete removes
  the entry, a replace exchanges the target only if the entry still has the expected one, and an upsert
  sets it.  No other entry changes, and on an error the whole database is as it was.\<close>

theorem entry_handlers_refine:
  assumes "fs_reach E s"
  shows "((\<exists>s'. handle_create_dentry V p name t v s = (Ok (), s')) \<longleftrightarrow> create_guard p name t v s) \<and>
    (handle_create_dentry V p name t v s = (Ok (), s1) \<longrightarrow> entries s (as_i64 p, name) = None \<and>
       entries s1 = (entries s)((as_i64 p, name) \<mapsto> dentry_target_cols t)) \<and>
    (handle_delete_dentry V p name v s = (Ok (), s2) \<longrightarrow> entries s2 = (entries s)((as_i64 p, name) := None)) \<and>
    (handle_replace_target V p name old t v s = (Ok (), s3) \<longrightarrow>
       entries s (as_i64 p, name) = Some (dentry_target_cols old) \<and>
       entries s3 = (entries s)((as_i64 p, name) \<mapsto> dentry_target_cols t)) \<and>
    (upsert_dentry_with_parent_rev V p name t v s = (Ok (), s4) \<longrightarrow>
       entries s4 = (entries s)((as_i64 p, name) \<mapsto> dentry_target_cols t)) \<and>
    (\<forall>m \<in> {handle_create_dentry V p name t v, handle_delete_dentry V p name v,
           handle_replace_target V p name old t v, upsert_dentry_with_parent_rev V p name t v}.
       \<forall>e s'. m s = (Err e, s') \<longrightarrow> s' = s)"
proof (intro conjI impI)
  have inv: "fs_inv s" by (rule reach_inv [OF assms])
  then have dist: "distinct (map n_inode_id (nodes s))" by (simp add: fs_inv_def)
  note create = handle_create_dentry_Ok [OF dist]
  show "(\<exists>s'. handle_create_dentry V p name t v s = (Ok (), s')) \<longleftrightarrow> create_guard p name t v s"
    by (simp add: create)
  assume "handle_create_dentry V p name t v s = (Ok (), s1)"
  then have g: "create_guard p name t v s" and s1: "s1 = created V p name t s" by (auto simp: create)
  show "entries s (as_i64 p, name) = None" using g by (simp add: create_guard_def entries_def)
  show "entries s1 = (entries s)((as_i64 p, name) \<mapsto> dentry_target_cols t)" using s1 created_entries [OF g] by simp
next
  assume d: "handle_delete_dentry V p name v s = (Ok (), s2)"
  show "entries s2 = (entries s)((as_i64 p, name) := None)"
  proof (cases "dentry_of (as_i64 p) name s")
    case None
    with d show ?thesis by (auto simp: handle_delete_dentry_Ok entries_def fun_eq_iff)
  next
    case (Some e)
    with d show ?thesis by (simp add: handle_delete_dentry_Ok deleted_entries)
  qed
next
  assume "handle_replace_target V p name old t v s = (Ok (), s3)"
  note r = replace_Ok_entries [OF reach_inv [OF assms] this]
  show "entries s (as_i64 p, name) = Some (dentry_target_cols old)" using r by simp
  show "entries s3 = (entries s)((as_i64 p, name) \<mapsto> dentry_target_cols t)" using r by simp
next
  assume "upsert_dentry_with_parent_rev V p name t v s = (Ok (), s4)"
  then show "entries s4 = (entries s)((as_i64 p, name) \<mapsto> dentry_target_cols t)"
    using upsert_Ok [OF reach_inv [OF assms]] by blast
next
  show "\<forall>m \<in> {handle_create_dentry V p name t v, handle_delete_dentry V p name v,
      handle_replace_target V p name old t v, upsert_dentry_with_parent_rev V p name t v}.
    \<forall>e s'. m s = (Err e, s') \<longrightarrow> s' = s"
    by (simp add: entry_handlers_Err)
qed

theorem entry_handlers_refine_witness:
  "entries (snd (upsert_dentry_with_parent_rev demo_env 1 ''a'' Tombstone 1 demo_tree)) =
     (entries demo_tree)((1, ''a'') \<mapsto> (2, None, None)) \<and>
   entries demo_tree (1, ''a'') = Some (0, Some 2, None)"
proof -
  have "fst (upsert_dentry_with_parent_rev demo_env 1 ''a'' Tombstone 1 demo_tree) = Ok ()" by code_simp
  then have "upsert_dentry_with_parent_rev demo_env 1 ''a'' Tombstone 1 demo_tree =
      (Ok (), snd (upsert_dentry_with_parent_rev demo_env 1 ''a'' Tombstone 1 demo_tree))" by (metis prod.collapse)
  moreover have "as_i64 1 = 1" "dentry_target_cols Tombstone = (2, None, None)" by code_simp+
  moreover have "entries demo_tree (1, ''a'') = Some (0, Some 2, None)" by code_simp
  ultimately show ?thesis
    using entry_handlers_refine [OF demo_tree_reach, of demo_env 1 "''a''" Tombstone 1] by metis
qed

end
