(* ===== verification/Fs_Meta_Lease.thy ===== *)
theory Fs_Meta_Lease
  imports Fs_Meta_Props
begin

text \<open>
  Write leases.  A lease is the triple of the session, the fencing number and the expiry in an
  inode row.  The theorems show exclusion while a lease is live, that the fencing number of a later
  session is larger whatever happened in between, and where the reclaiming of expired leases leaves a row
  that no state update can change any more.
\<close>

section \<open>Acquiring\<close>

definition lease_live :: "int \<Rightarrow> node_row \<Rightarrow> bool" where
  "lease_live now r \<longleftrightarrow> (\<exists>e. n_lease_expire_at r = Some e \<and> now < e)"

lemma lease_expired_live: "lease_expired now r \<longleftrightarrow> \<not> lease_live now r"
  by (auto simp: lease_expired_def lease_live_def split: option.splits)

definition set_node :: "int \<Rightarrow> (node_row \<Rightarrow> node_row) \<Rightarrow> fs_conn \<Rightarrow> fs_conn" where
  "set_node i f s = s\<lparr>nodes := sql_update (\<lambda>r. n_inode_id r = i) f (nodes s)\<rparr>"

lemma filter_key: "distinct (map g xs) \<Longrightarrow> r \<in> set xs \<Longrightarrow> filter (\<lambda>x. g x = g r) xs = [r]"
proof (induction xs)
  case (Cons a xs)
  show ?case
  proof (cases "a = r")
    case True
    have "g x \<noteq> g r" if "x \<in> set xs" for x using Cons.prems(1) True that by (metis distinct.simps(2) imageI list.map(2) set_map)
    then show ?thesis using True by (simp add: filter_empty_conv)
  next
    case False
    then have "r \<in> set xs" using Cons.prems(2) by simp
    moreover from this have "g a \<noteq> g r" using Cons.prems(1) by (metis distinct.simps(2) imageI list.map(2) set_map)
    ultimately show ?thesis using Cons by simp
  qed
qed simp

lemma update_one:
  assumes "distinct (map n_inode_id (nodes s))" and "node_of i s = Some r"
  shows "update_nodes (\<lambda>r. n_inode_id r = i \<and> P r) f s = (if P r then (Ok 1, set_node i f s) else (Ok 0, s))"
proof -
  have r: "r \<in> set (nodes s)" "n_inode_id r = i" using node_of_SomeD [OF assms(2)] by auto
  have only: "x = r" if "x \<in> set (nodes s)" "n_inode_id x = i" for x
    using assms(1) that r by (auto simp: distinct_map dest: inj_onD)
  have "filter (\<lambda>x. n_inode_id x = i) (nodes s) = [r]"
    using filter_key [OF assms(1) r(1)] r(2) by simp
  then have "filter (\<lambda>x. n_inode_id x = i \<and> P x) (nodes s) = (if P r then [r] else [])"
    by (metis (no_types, lifting) filter.simps filter_filter filter_cong)
  then have cnt: "sql_count (\<lambda>x. n_inode_id x = i \<and> P x) (nodes s) = (if P r then 1 else 0)"
    by (simp add: sql_count_def)
  have "sql_update (\<lambda>x. n_inode_id x = i \<and> P x) f (nodes s) =
      (if P r then sql_update (\<lambda>x. n_inode_id x = i) f (nodes s) else nodes s)"
    using only by (auto simp: sql_update_def intro!: map_idI)
  with cnt show ?thesis by (simp add: update_nodes_def set_node_def)
qed

lemma node_of_set_node:
  assumes "node_of i s = Some r" and "\<And>x. n_inode_id (f x) = n_inode_id x"
  shows "node_of i (set_node i f s) = Some (f r)"
  using assms node_of_SomeD [OF assms(1)] by (simp add: set_node_def)

definition renewed_row :: "int \<Rightarrow> node_row \<Rightarrow> node_row" where
  "renewed_row e r = r\<lparr>n_lease_expire_at := Some e\<rparr>"

definition leased_row :: "string \<Rightarrow> int \<Rightarrow> node_row \<Rightarrow> node_row" where
  "leased_row sess e r = r\<lparr>n_lease_session := Some sess, n_lease_seq := Some (coalesce_incr (n_lease_seq r)),
     n_lease_expire_at := Some e\<rparr>"

lemma lease_row_id [simp]: "n_inode_id (renewed_row e r) = n_inode_id r" "n_inode_id (leased_row sess e r) = n_inode_id r"
  by (simp_all add: renewed_row_def leased_row_def)

lemma acquire_eq:
  assumes dist: "distinct (map n_inode_id (nodes s))" and r: "node_of (as_i64 i) s = Some r"
  shows "acquire_file_lease V i sess ttl s =
    (if n_lease_session r = Some sess \<and> lease_live (now_i64 V) r then
       (and_then (col_i64 (coalesce (n_lease_seq r))) (\<lambda>q. Ok (as_u64 q)),
        set_node (as_i64 i) (renewed_row (lease_expire V ttl)) s)
     else if \<not> lease_live (now_i64 V) r then
       (and_then (col_i64 (coalesce_incr (n_lease_seq r))) (\<lambda>q. Ok (as_u64 q)),
        set_node (as_i64 i) (leased_row sess (lease_expire V ttl)) s)
     else (Err (ReasonError ''lease conflict''), s))"
proof -
  have live: "(case n_lease_expire_at r of None \<Rightarrow> False | Some e \<Rightarrow> now_i64 V < e) = lease_live (now_i64 V) r" for r
    by (auto simp: lease_live_def split: option.splits)
  have u1: "update_nodes (\<lambda>r. n_inode_id r = as_i64 i \<and> n_lease_session r = Some sess \<and>
        (case n_lease_expire_at r of None \<Rightarrow> False | Some e \<Rightarrow> now_i64 V < e))
      (\<lambda>r. r\<lparr>n_lease_expire_at := Some (lease_expire V ttl)\<rparr>) s =
      (if n_lease_session r = Some sess \<and> lease_live (now_i64 V) r
       then (Ok 1, set_node (as_i64 i) (renewed_row (lease_expire V ttl)) s) else (Ok 0, s))"
    unfolding live renewed_row_def [abs_def]
    by (rule update_one [OF dist r, where P = "\<lambda>r. n_lease_session r = Some sess \<and> lease_live (now_i64 V) r"])
  have u2: "update_nodes (\<lambda>r. n_inode_id r = as_i64 i \<and> lease_expired (now_i64 V) r)
      (\<lambda>r. r\<lparr>n_lease_session := Some sess, n_lease_seq := Some (coalesce_incr (n_lease_seq r)),
             n_lease_expire_at := Some (lease_expire V ttl)\<rparr>) s =
      (if \<not> lease_live (now_i64 V) r
       then (Ok 1, set_node (as_i64 i) (leased_row sess (lease_expire V ttl)) s) else (Ok 0, s))"
    unfolding lease_expired_live leased_row_def [abs_def] by (rule update_one [OF dist r])
  have n1: "node_of (as_i64 i) (set_node (as_i64 i) (renewed_row (lease_expire V ttl)) s) = Some (renewed_row (lease_expire V ttl) r)"
    and n2: "node_of (as_i64 i) (set_node (as_i64 i) (leased_row sess (lease_expire V ttl)) s) = Some (leased_row sess (lease_expire V ttl) r)"
    using node_of_set_node [OF r] by simp_all
  show ?thesis
  proof (cases "n_lease_session r = Some sess \<and> lease_live (now_i64 V) r")
    case True
    then show ?thesis
      unfolding acquire_file_lease_def bind_def [of "update_nodes _ _"] u1
      by (simp add: bind_def query_def ret_def n1 renewed_row_def and_then_def split: sum.split)
  next
    case False
    then show ?thesis
      unfolding acquire_file_lease_def bind_def [of "update_nodes _ _"] u1
      using r by (simp add: u2) (simp add: bind_def query_def ret_def throw_def n2 leased_row_def col_get_def and_then_def
          split: sum.split)
  qed
qed

definition holds_lease :: "index_node_id \<Rightarrow> string \<Rightarrow> u64 \<Rightarrow> int \<Rightarrow> fs_conn \<Rightarrow> bool" where
  "holds_lease i sess q e s \<longleftrightarrow> (\<exists>r. node_of (as_i64 i) s = Some r \<and> n_lease_session r = Some sess \<and>
     n_lease_seq r = Some (as_i64 q) \<and> n_lease_expire_at r = Some e)"

lemma lease_of_one:
  assumes "distinct (map n_inode_id (nodes s))" and "node_of (as_i64 i) s = Some r"
  shows "update_nodes (lease_of i sess q) f s =
    (if n_lease_session r = Some sess \<and> n_lease_seq r = Some (as_i64 q) then (Ok 1, set_node (as_i64 i) f s) else (Ok 0, s))"
  using update_one [OF assms, of "\<lambda>r. n_lease_session r = Some sess \<and> n_lease_seq r = Some (as_i64 q)" f]
  by (simp add: lease_of_def [abs_def])

text \<open>\<^bold>\<open>C36.\<close> While a lease is live it is exclusive: another session cannot acquire the inode, a
  renewal or release with another session or fencing number fails, reclaiming keeps the lease, and none of
  these changes the database; the holder can extend the lease and keeps its fencing number.\<close>

theorem lease_exclusive:
  assumes "fs_inv s" and "holds_lease i sess q e s" and "now_i64 V < e"
  shows "(sess' \<noteq> sess \<longrightarrow> acquire_file_lease V i sess' ttl s = (Err (ReasonError ''lease conflict''), s)) \<and>
    ((sess', q') \<noteq> (sess, q) \<longrightarrow>
       renew_file_lease V i sess' q' ttl s = (Err (ReasonError ''lease mismatch''), s) \<and>
       release_file_lease i sess' q' s = (Err (ReasonError ''lease mismatch''), s)) \<and>
    holds_lease i sess q e (snd (reclaim_expired_write_leases V s)) \<and>
    (\<exists>s'. acquire_file_lease V i sess ttl s = (Ok q, s') \<and> holds_lease i sess q (lease_expire V ttl) s') \<and>
    (\<exists>s'. renew_file_lease V i sess q ttl s = (Ok (), s') \<and> holds_lease i sess q (lease_expire V ttl) s')"
proof -
  have dist: "distinct (map n_inode_id (nodes s))" using assms(1) by (simp add: fs_inv_def)
  obtain r where r: "node_of (as_i64 i) s = Some r" "n_lease_session r = Some sess" "n_lease_seq r = Some (as_i64 q)"
    "n_lease_expire_at r = Some e" using assms(2) by (auto simp: holds_lease_def)
  have live: "lease_live (now_i64 V) r" using r assms(3) by (simp add: lease_live_def)
  have q: "col_i64 (as_i64 q) = Ok (as_i64 q)" using sint_lt [of q] by (simp add: col_i64_def as_i64_def)
  have renew: "renew_file_lease V i a b ttl s = (if (a, b) = (sess, q) then
      (Ok (), set_node (as_i64 i) (renewed_row (lease_expire V ttl)) s) else (Err (ReasonError ''lease mismatch''), s))" for a b
    using r lease_of_one [OF dist r(1), of a b] by (auto simp: renew_file_lease_def bind_def ret_def lease_miss_def
        query_def throw_def renewed_row_def [abs_def])
  have release: "release_file_lease i a b s = (Err (ReasonError ''lease mismatch''), s)" if "(a, b) \<noteq> (sess, q)" for a b
    using r that lease_of_one [OF dist r(1), of a b] by (auto simp: release_file_lease_def bind_def lease_miss_def
        query_def throw_def)
  have acq: "acquire_file_lease V i a ttl s = (if a = sess then
      (Ok q, set_node (as_i64 i) (renewed_row (lease_expire V ttl)) s) else (Err (ReasonError ''lease conflict''), s))" for a
    using acquire_eq [OF dist r(1), of V a ttl] r live q by (auto simp: coalesce_def)
  have held: "holds_lease i sess q (lease_expire V ttl) (set_node (as_i64 i) (renewed_row (lease_expire V ttl)) s)"
    using r node_of_set_node [OF r(1), of "renewed_row (lease_expire V ttl)"]
    by (simp add: holds_lease_def renewed_row_def)
  have "holds_lease i sess q e (snd (reclaim_expired_write_leases V s))"
    using r assms(3) by (simp add: reclaim_expired_write_leases_def update_nodes_def holds_lease_def)
  then show ?thesis using renew release acq held by auto
qed

text \<open>The inode \<open>2\<close> of the concrete database, leased by session \<open>A\<close> until second 160.\<close>

definition demo_leased :: fs_conn where
  "demo_leased = snd (acquire_file_lease demo_env 2 ''A'' 60 demo_tree)"

lemma demo_leased_reach: "fs_reach inst_crates demo_leased"
  by (rule fs_reach.step [OF demo_tree_reach],
      rule db_step.acquire_lease [where V = demo_env and i = 2 and sess = "''A''" and ttl = 60
        and ?r1.0 = "fst (acquire_file_lease demo_env 2 ''A'' 60 demo_tree)"])
    (simp_all add: demo_leased_def demo_env_def)

lemma demo_lease: "fst (acquire_file_lease demo_env 2 ''A'' 60 demo_tree) = Ok 1"
  "map_option (\<lambda>r. (n_lease_session r, n_lease_seq r, n_lease_expire_at r)) (node_of 2 demo_leased) =
     Some (Some ''A'', Some 1, Some 160)"
  by code_simp+

lemma demo_consts: "as_i64 2 = 2" "as_i64 1 = 1" "now_i64 demo_env = 100"
  by code_simp+

theorem lease_exclusive_witness:
  "holds_lease 2 ''A'' 1 160 demo_leased \<and>
   acquire_file_lease demo_env 2 ''B'' 60 demo_leased = (Err (ReasonError ''lease conflict''), demo_leased)"
proof -
  have h: "holds_lease 2 ''A'' 1 160 demo_leased"
    using demo_lease(2) by (auto simp: holds_lease_def demo_consts)
  have "now_i64 demo_env < 160" by (simp add: demo_consts)
  from lease_exclusive [OF reach_inv [OF demo_leased_reach] h this] h show ?thesis by simp
qed

section \<open>Fencing\<close>

definition fence_row :: "int \<Rightarrow> string \<Rightarrow> node_row \<Rightarrow> bool" where
  "fence_row q sess r \<longleftrightarrow> q \<le> coalesce (n_lease_seq r) \<and>
     (coalesce (n_lease_seq r) = q \<longrightarrow> n_lease_session r = None \<or> n_lease_session r = Some sess)"

definition fence :: "int \<Rightarrow> int \<Rightarrow> string \<Rightarrow> fs_conn \<Rightarrow> bool" where
  "fence i q sess s \<longleftrightarrow> (\<exists>r. node_of i s = Some r \<and> fence_row q sess r)"

definition keeps_fence :: "int \<Rightarrow> int \<Rightarrow> string \<Rightarrow> fs_conn \<Rightarrow> fs_conn \<Rightarrow> bool" where
  "keeps_fence i q sess s s' \<longleftrightarrow> (fence i q sess s \<longrightarrow> fence i q sess s')"

interpretation keeps_fence: frame "keeps_fence i q sess"
  by unfold_locales (auto simp: keeps_fence_def)

lemma fence_update:
  assumes "\<And>r. n_inode_id (f r) = n_inode_id r" and "\<And>r. fence_row q sess r \<Longrightarrow> fence_row q sess (f r)"
  shows "confined (keeps_fence i q sess) (update_nodes p f)"
  unfolding confined_def keeps_fence_def fence_def
proof (intro allI impI)
  fix s
  assume "\<exists>r. node_of i s = Some r \<and> fence_row q sess r"
  then obtain r where "node_of i s = Some r" "fence_row q sess r" by blast
  then have "node_of i (snd (update_nodes p f s)) = Some (if p r then f r else r)" "fence_row q sess (if p r then f r else r)"
    using assms(2) by (simp_all add: update_nodes_def node_of_update [OF assms(1)])
  then show "\<exists>r. node_of i (snd (update_nodes p f s)) = Some r \<and> fence_row q sess r" by blast
qed

lemma keeps_fence_update:
  assumes "\<And>r. n_inode_id (f r) = n_inode_id r"
    and "\<And>r. n_lease_seq (f r) = n_lease_seq r \<and> (n_lease_session (f r) = n_lease_session r \<or> n_lease_session (f r) = None)"
  shows "confined (keeps_fence i q sess) (update_nodes p f)"
proof (rule fence_update [OF assms(1)])
  show "fence_row q sess r \<Longrightarrow> fence_row q sess (f r)" for r using assms(2) [of r] by (auto simp: fence_row_def)
qed

lemma keeps_fence_lease:
  assumes "q < 2 ^ 63"
  shows "confined (keeps_fence i q sess) (update_nodes p (\<lambda>r. r\<lparr>n_lease_session := Some b,
     n_lease_seq := Some (coalesce_incr (n_lease_seq r)), n_lease_expire_at := e\<rparr>))"
  by (rule fence_update) (use assms in \<open>auto simp: fence_row_def coalesce_incr_def coalesce_def split: option.splits\<close>)

lemma keeps_fence_plain:
  assumes "\<And>s. nodes (snd (m s)) = nodes s"
  shows "confined (keeps_fence i q sess) m"
  using assms by (simp add: confined_def keeps_fence_def fence_def node_of_def)

lemmas keeps_fence_rules = keeps_fence.confined_bind keeps_fence.confined_if keeps_fence.confined_ret
  keeps_fence.confined_throw keeps_fence.confined_query keeps_fence.confined_option
  keeps_fence.confined_savepoint keeps_fence.confined_prod

lemma keeps_fence_handlers:
  "confined (keeps_fence j q sess) (handle_update_inode_state V i new old)"
  "confined (keeps_fence j q sess) (handle_bump_dir_rev V p v)"
  "confined (keeps_fence j q sess) (renew_file_lease V i sess' sq ttl)"
  "confined (keeps_fence j q sess) (release_file_lease i sess' sq)"
  "confined (keeps_fence j q sess) (reclaim_expired_write_leases V)"
  unfolding handle_update_inode_state_def handle_bump_dir_rev_def renew_file_lease_def
    release_file_lease_def reclaim_expired_write_leases_def lease_miss_def
  by (intro keeps_fence_rules keeps_fence_update; simp)+

lemma keeps_fence_acquire:
  "q < 2 ^ 63 \<Longrightarrow> confined (keeps_fence j q sess) (acquire_file_lease V i sess' ttl)"
  unfolding acquire_file_lease_def
  by (intro keeps_fence_rules keeps_fence_lease keeps_fence_update; simp)

lemma keeps_fence_entries:
  "confined (keeps_fence j q sess) (check_parent_rev p v)"
  "confined (keeps_fence j q sess) (bump_parent_rev V p)"
  "confined (keeps_fence j q sess) (claim_inode V i d)"
  "confined (keeps_fence j q sess) (unclaim_inode V i d)"
  unfolding check_parent_rev_def bump_parent_rev_def claim_inode_def unclaim_inode_def
  by (intro keeps_fence_rules keeps_fence_update; simp)+

lemma keeps_fence_dentry_handlers:
  "confined (keeps_fence j q sess) (handle_create_dentry V p name t v)"
  "confined (keeps_fence j q sess) (handle_delete_dentry V p name v)"
  "confined (keeps_fence j q sess) (handle_replace_target V p name old t v)"
  unfolding handle_create_dentry_def handle_delete_dentry_def handle_replace_target_def Let_def
  by (intro keeps_fence_rules keeps_fence_entries; rule keeps_fence_plain;
      simp add: insert_dentry_def touch_edge_def Let_def split: prod.splits)+

lemma step_fence:
  assumes "db_step E l s s'" and "l \<noteq> Overwrite i" and "q < 2 ^ 63"
  shows "keeps_fence (as_i64 i) q sess s s'"
  using assms
proof (induction rule: db_step.induct)
  case (set_inode V n s r s')
  then have "nd_inode_id n \<noteq> i" by simp
  with set_inode_cases [OF set_inode(3)] show ?case
    by (auto simp: keeps_fence_def fence_def node_of_overwrite dest!: node_row_of_keys)
next
  case (alloc_inode V n s r s')
  with alloc_inode_cases [OF alloc_inode(4)] show ?case by (auto simp: keeps_fence_def fence_def node_of_append)
next
  case (remove_inode j s root r s')
  then have "as_i64 j \<noteq> as_i64 i" by simp
  with remove_inode show ?case
    by (auto simp: handle_remove_inode_def keeps_fence_def fence_def node_of_remove split: if_splits)
next
  case (reopen s)
  then show ?case by (auto simp: keeps_fence_def fence_def node_of_migrate fence_row_def)
next
  case (stat_bump V oid delta s r1 s')
  have "confined (keeps_fence (as_i64 i) q sess) (handle_obj_stat_bump V oid delta)"
    unfolding handle_obj_stat_bump_def Let_def by (intro keeps_fence_rules; rule keeps_fence_plain; simp)
  then show ?case using stat_bump(2) by (rule confinedD)
next
  case (stat_delete oid s r3 s')
  then show ?case by (auto simp: handle_obj_stat_delete_if_zero_def keeps_fence_def fence_def node_of_def)
next
  case (acquire_lease V j sess' ttl s r1 s')
  then show ?case by (meson confinedD keeps_fence_acquire)
qed (meson confinedD keeps_fence_handlers keeps_fence_dentry_handlers)+

lemma other_steps_fence:
  assumes "other_steps E i s s'" and "q < 2 ^ 63" and "fence (as_i64 i) q sess s"
  shows "fence (as_i64 i) q sess s'"
  using assms(1) unfolding other_steps_def
proof (induction rule: rtranclp_induct)
  case (step y z)
  then obtain l where l: "db_step E l y z" "l \<noteq> Overwrite i" by blast
  with step_fence [OF l assms(2), of sess] step.IH show ?case by (simp add: keeps_fence_def)
qed (rule assms(3))

lemma acquire_fence:
  assumes inv: "fs_inv s" and rng: "rev_range s" and a: "acquire_file_lease V i sess ttl s = (Ok q, s')"
  shows "fence (as_i64 i) (as_i64 q) sess s'"
    and "\<exists>r c. node_of (as_i64 i) s = Some r \<and> as_i64 q = c \<and> coalesce (n_lease_seq r) \<le> c \<and>
      (c = coalesce (n_lease_seq r) \<longrightarrow> n_lease_session r = Some sess)"
proof -
  have dist: "distinct (map n_inode_id (nodes s))" using inv by (simp add: fs_inv_def)
  obtain r where r: "node_of (as_i64 i) s = Some r"
  proof (cases "node_of (as_i64 i) s")
    case None
    then have none: "\<And>r. r \<in> set (nodes s) \<Longrightarrow> n_inode_id r \<noteq> as_i64 i"
      unfolding node_of_None by (metis imageI)
    then have "sql_count (\<lambda>r. n_inode_id r = as_i64 i \<and> P r) (nodes s) = 0"
      "sql_update (\<lambda>r. n_inode_id r = as_i64 i \<and> P r) f (nodes s) = nodes s" for P f
      by (auto simp: sql_count_zero intro: sql_update_none)
    then have "acquire_file_lease V i sess ttl s = (Err (ReasonError ''inode not found''), s)"
      using None by (simp add: acquire_file_lease_def bind_def update_nodes_def query_def throw_def)
    with a show ?thesis by simp
  qed (rule that)
  have "in_range (n_lease_seq r)" using rng node_of_SomeD [OF r] by (auto simp: rev_range_def)
  then have i64: "as_i64 (as_u64 c) = c" if "coalesce (n_lease_seq r) \<le> c" "c < 2 ^ 63" for c
    using that sint_as_u64 [of c] by (simp add: in_range_def as_i64_def)
  have le: "coalesce (n_lease_seq r) < coalesce_incr (n_lease_seq r)" if "coalesce_incr (n_lease_seq r) < 2 ^ 63"
    using that by (auto simp: coalesce_incr_def)
  have "fence (as_i64 i) (as_i64 q) sess s' \<and> coalesce (n_lease_seq r) \<le> as_i64 q \<and>
      (as_i64 q = coalesce (n_lease_seq r) \<longrightarrow> n_lease_session r = Some sess)"
  proof (cases "n_lease_session r = Some sess \<and> lease_live (now_i64 V) r")
    case True
    with a acquire_eq [OF dist r, of V sess ttl] have q: "q = as_u64 (coalesce (n_lease_seq r))" "coalesce (n_lease_seq r) < 2 ^ 63"
      and s': "s' = set_node (as_i64 i) (renewed_row (lease_expire V ttl)) s"
      by (auto simp: col_i64_def and_then_def split: if_splits)
    have "node_of (as_i64 i) s' = Some (renewed_row (lease_expire V ttl) r)" using node_of_set_node [OF r] s' by simp
    then show ?thesis using True q i64 by (auto simp: fence_def fence_row_def renewed_row_def)
  next
    case False
    with a acquire_eq [OF dist r, of V sess ttl] have q: "q = as_u64 (coalesce_incr (n_lease_seq r))" "coalesce_incr (n_lease_seq r) < 2 ^ 63"
      and s': "s' = set_node (as_i64 i) (leased_row sess (lease_expire V ttl)) s"
      by (auto simp: col_i64_def and_then_def split: if_splits)
    have "node_of (as_i64 i) s' = Some (leased_row sess (lease_expire V ttl) r)" using node_of_set_node [OF r] s' by simp
    then show ?thesis using q i64 [of "coalesce_incr (n_lease_seq r)"] le [OF q(2)]
      by (auto simp: fence_def fence_row_def leased_row_def coalesce_def)
  qed
  with r show "fence (as_i64 i) (as_i64 q) sess s'"
    "\<exists>r c. node_of (as_i64 i) s = Some r \<and> as_i64 q = c \<and> coalesce (n_lease_seq r) \<le> c \<and>
      (c = coalesce (n_lease_seq r) \<longrightarrow> n_lease_session r = Some sess)" by auto
qed

text \<open>Fencing: after a session was given the number \<open>q\<close> for an inode, any other session
  that acquires it later, through expiry, release, reclaiming or any other steps in between, is
  given a larger number (as long as the inode row itself is not overwritten or removed).\<close>

theorem lease_fencing:
  assumes "fs_reach (fe_crates V) s" and "acquire_file_lease V i sess ttl s = (Ok q, s1)"
    and "other_steps (fe_crates V) i s1 s2"
    and "acquire_file_lease V' i sess' ttl' s2 = (Ok q', s3)" and "sess' \<noteq> sess"
  shows "as_i64 q < as_i64 q'"
proof -
  have reach1: "fs_reach (fe_crates V) s1"
    using assms(1) acquire_lease [OF refl assms(2)] by (rule fs_reach.step)
  have reach2: "fs_reach (fe_crates V) s2" using assms(3) reach1 by (rule other_steps_reach)
  have "fence (as_i64 i) (as_i64 q) sess s1"
    by (rule acquire_fence(1) [OF reach_inv reach_range assms(2), OF assms(1) assms(1)])
  then have f: "fence (as_i64 i) (as_i64 q) sess s2"
    using sint_lt [of q] by (intro other_steps_fence [OF assms(3)]) (simp_all add: as_i64_def)
  from acquire_fence(2) [OF reach_inv reach_range assms(4), OF reach2 reach2] f assms(5)
  show ?thesis by (force simp: fence_def fence_row_def)
qed

definition demo_released :: fs_conn where
  "demo_released = snd (release_file_lease 2 ''A'' 1 demo_leased)"

theorem lease_fencing_witness: "as_i64 1 < as_i64 2 \<and>
    fst (acquire_file_lease demo_env 2 ''B'' 60 demo_released) = Ok 2"
proof -
  have b: "fst (acquire_file_lease demo_env 2 ''B'' 60 demo_released) = Ok 2" by code_simp
  have a: "acquire_file_lease demo_env 2 ''A'' 60 demo_tree = (Ok 1, demo_leased)"
    using demo_lease(1) by (simp add: demo_leased_def prod_eq_iff)
  have "db_step (fe_crates demo_env) Handler demo_leased demo_released"
    unfolding demo_released_def by (rule release_lease [of _ _ _ _ "fst (release_file_lease 2 ''A'' 1 demo_leased)"]) simp
  then have o: "other_steps (fe_crates demo_env) 2 demo_leased demo_released" unfolding other_steps_def by auto
  have reach: "fs_reach (fe_crates demo_env) demo_tree" using demo_tree_reach by (simp add: demo_env_def)
  have "acquire_file_lease demo_env 2 ''B'' 60 demo_released =
      (Ok 2, snd (acquire_file_lease demo_env 2 ''B'' 60 demo_released))" using b by (simp add: prod_eq_iff)
  from lease_fencing [OF reach a o this] b show ?thesis by simp
qed

section \<open>Reclaiming expired leases\<close>

text \<open>Reclaiming the expired lease of a file that is being written turns its state into
  \<open>Cooling\<close> but leaves \<open>last_write_at\<close> in the row.  The file then reads as \<open>Cooling\<close>, and every
  update of its state that expects this state (or any other) fails with a conflict and changes nothing,
  so the writer can neither be closed nor continued.\<close>

theorem reclaim_blocks_state:
  assumes "fs_inv s" and "node_of (as_i64 i) s = Some r" and "n_cols r = node_state_cols_of (Working w)"
    and "n_lease_expire_at r = Some e" and "e \<le> now_i64 V"
  shows "\<exists>n s'. reclaim_expired_write_leases V s = (Ok n, s') \<and>
    (\<exists>r'. node_of (as_i64 i) s' = Some r' \<and> parse_node_state (n_cols r') =
       Ok (Cooling \<lparr>cs_fb_handle = ws_fb_handle w, cs_closed_at = fe_now V\<rparr>)) \<and>
    (\<forall>V' new old. handle_update_inode_state V' i new old s' = (Err (ReasonError ''inode state conflict''), s'))"
proof -
  let ?f = "\<lambda>r. r\<lparr>n_lease_session := None, n_lease_expire_at := None,
      n_cols := (if k_state (n_cols r) = NODE_STATE_WORKING
                 then (n_cols r)\<lparr>k_state := NODE_STATE_COOLING, k_closed_at := Some (now_i64 V)\<rparr>
                 else n_cols r), n_updated_at := now_i64 V\<rparr>"
  let ?s = "snd (reclaim_expired_write_leases V s)"
  have row: "node_of (as_i64 i) ?s = Some (?f r)"
    using assms by (simp add: reclaim_expired_write_leases_def update_nodes_def)
  have cols: "n_cols (?f r) = cols_default\<lparr>k_state := 3, k_fb_handle := Some (ws_fb_handle w),
      k_last_write_at := Some (as_i64 (ws_last_write_at w)), k_closed_at := Some (now_i64 V)\<rparr>"
    using assms(3) by (simp add: cols_default_def)
  have ne: "n_cols (?f r) \<noteq> node_state_cols_of st" for st
    unfolding cols by (cases st) (simp_all add: cols_default_def)
  have dist: "distinct (map n_inode_id (nodes ?s))"
    using assms(1) by (simp add: reclaim_expired_write_leases_def update_nodes_def fs_inv_def map_sql_update)
  have "handle_update_inode_state V' i new old ?s = (Err (ReasonError ''inode state conflict''), ?s)" for V' new old
    using update_one [OF dist row, of "\<lambda>r. n_cols r = node_state_cols_of old"
        "\<lambda>r. r\<lparr>n_cols := node_state_cols_of new, n_updated_at := now_i64 V'\<rparr>"] ne [of old] row
    by (simp add: handle_update_inode_state_def bind_def query_def throw_def del: node_of_update)
  moreover have "parse_node_state (n_cols (?f r)) = Ok (Cooling \<lparr>cs_fb_handle = ws_fb_handle w, cs_closed_at = fe_now V\<rparr>)"
    unfolding cols by (simp add: parse_node_state_def cols_default_def col_get_def now_i64_def)
  moreover have "reclaim_expired_write_leases V s =
      (Ok (sql_count (\<lambda>r. case n_lease_expire_at r of None \<Rightarrow> False | Some e \<Rightarrow> e \<le> now_i64 V) (nodes s)), ?s)"
    by (simp add: reclaim_expired_write_leases_def update_nodes_def)
  ultimately show ?thesis using row by blast
qed

definition demo_working :: fs_conn where
  "demo_working = snd (handle_update_inode_state demo_env 2 (Working \<lparr>ws_fb_handle = ''h'', ws_last_write_at = 7\<rparr>) DirNormal demo_leased)"

lemma demo_working_reach: "fs_reach inst_crates demo_working"
  by (rule fs_reach.step [OF demo_leased_reach],
      rule db_step.update_state [where V = demo_env and i = 2 and new = "Working \<lparr>ws_fb_handle = ''h'', ws_last_write_at = 7\<rparr>"
        and old = DirNormal and r = "fst (handle_update_inode_state demo_env 2
          (Working \<lparr>ws_fb_handle = ''h'', ws_last_write_at = 7\<rparr>) DirNormal demo_leased)"])
    (simp_all add: demo_working_def demo_env_def)

theorem reclaim_blocks_state_witness:
  "\<exists>n s'. reclaim_expired_write_leases (demo_env\<lparr>fe_now := 200\<rparr>) demo_working = (Ok n, s') \<and>
     handle_update_inode_state demo_env 2 FileNormal (Cooling \<lparr>cs_fb_handle = ''h'', cs_closed_at = 200\<rparr>) s' =
       (Err (ReasonError ''inode state conflict''), s')"
proof -
  have "map_option (\<lambda>r. (n_cols r, n_lease_expire_at r)) (node_of 2 demo_working) =
      Some (node_state_cols_of (Working \<lparr>ws_fb_handle = ''h'', ws_last_write_at = 7\<rparr>), Some 160)" by code_simp
  then obtain r where r: "node_of (as_i64 2) demo_working = Some r"
    "n_cols r = node_state_cols_of (Working \<lparr>ws_fb_handle = ''h'', ws_last_write_at = 7\<rparr>)" "n_lease_expire_at r = Some 160"
    unfolding demo_consts by blast
  have "160 \<le> now_i64 (demo_env\<lparr>fe_now := 200\<rparr>)" by code_simp
  from reclaim_blocks_state [OF reach_inv [OF demo_working_reach] r this] show ?thesis by blast
qed

end
