(* ===== verification/Fs_Meta_Stat.thy ===== *)
theory Fs_Meta_Stat
  imports Fs_Meta_Props
begin

text \<open>
  Reference counts of objects (\<open>obj_stat\<close>): no count is negative, exactly the rows with count zero carry
  the time since when, and a bump changes the count of one object by its delta or fails.
\<close>

definition stats_ok :: "fs_conn \<Rightarrow> bool" where
  "stats_ok s \<longleftrightarrow> distinct (map s_obj_id (obj_stats s)) \<and>
     (\<forall>r \<in> set (obj_stats s). 0 \<le> s_ref_count r \<and> (s_zero_since r \<noteq> None \<longleftrightarrow> s_ref_count r = 0))"

definition keeps_stats :: "fs_conn \<Rightarrow> fs_conn \<Rightarrow> bool" where
  "keeps_stats s s' \<longleftrightarrow> obj_stats s' = obj_stats s"

interpretation keeps_stats: frame keeps_stats
  by unfold_locales (auto simp: keeps_stats_def)

lemma keeps_stats_plain:
  assumes "\<And>s. obj_stats (snd (m s)) = obj_stats s"
  shows "confined keeps_stats m"
  using assms by (simp add: confined_def keeps_stats_def)

lemma keeps_stats_update: "confined keeps_stats (update_nodes p f)"
  by (rule keeps_stats_plain) (simp add: update_nodes_def)

lemmas keeps_stats_rules = keeps_stats.confined_bind keeps_stats.confined_if keeps_stats.confined_ret
  keeps_stats.confined_throw keeps_stats.confined_query keeps_stats.confined_option
  keeps_stats.confined_savepoint keeps_stats.confined_prod keeps_stats_update

lemma keeps_stats_handlers:
  "confined keeps_stats (handle_update_inode_state V i new old)"
  "confined keeps_stats (handle_bump_dir_rev V p v)"
  "confined keeps_stats (acquire_file_lease V i sess ttl)"
  "confined keeps_stats (renew_file_lease V i sess sq ttl)"
  "confined keeps_stats (release_file_lease i sess sq)"
  "confined keeps_stats (reclaim_expired_write_leases V)"
  unfolding handle_update_inode_state_def handle_bump_dir_rev_def acquire_file_lease_def renew_file_lease_def
    release_file_lease_def reclaim_expired_write_leases_def lease_miss_def
  by (intro keeps_stats_rules)+

lemma keeps_stats_entries:
  "confined keeps_stats (check_parent_rev p v)" "confined keeps_stats (bump_parent_rev V p)"
  "confined keeps_stats (claim_inode V i d)" "confined keeps_stats (unclaim_inode V i d)"
  unfolding check_parent_rev_def bump_parent_rev_def claim_inode_def unclaim_inode_def
  by (intro keeps_stats_rules)+

lemma keeps_stats_dentry_handlers:
  "confined keeps_stats (handle_create_dentry V p name t v)"
  "confined keeps_stats (handle_delete_dentry V p name v)"
  "confined keeps_stats (handle_replace_target V p name old t v)"
  unfolding handle_create_dentry_def handle_delete_dentry_def handle_replace_target_def Let_def
  by (intro keeps_stats_rules keeps_stats_entries; rule keeps_stats_plain;
      simp add: insert_dentry_def touch_edge_def Let_def split: prod.splits)+

section \<open>Bumping a count\<close>

definition bumped_up :: "int \<Rightarrow> int \<Rightarrow> u8 list \<Rightarrow> stat_row list \<Rightarrow> stat_row list" where
  "bumped_up now delta key = insert_on_conflict s_obj_id
     (\<lambda>r. r\<lparr>s_ref_count := s_ref_count r + delta, s_zero_since := None, s_updated_at := now\<rparr>)
     \<lparr>s_obj_id = key, s_ref_count = delta, s_zero_since = None, s_updated_at = now\<rparr>"

definition bumped_down :: "int \<Rightarrow> int \<Rightarrow> u8 list \<Rightarrow> stat_row list \<Rightarrow> stat_row list" where
  "bumped_down now delta key = sql_update (\<lambda>r. s_obj_id r = key \<and> 0 \<le> s_ref_count r + delta)
     (\<lambda>r. r\<lparr>s_ref_count := s_ref_count r + delta,
            s_zero_since := (if s_ref_count r + delta = 0 then
               Some (case s_zero_since r of None \<Rightarrow> now | Some z \<Rightarrow> z) else None),
            s_updated_at := now\<rparr>)"

definition ref_count :: "obj_id \<Rightarrow> fs_conn \<Rightarrow> int" where
  "ref_count oid s = (case stat_of oid s of None \<Rightarrow> 0 | Some r \<Rightarrow> s_ref_count r)"

lemma find_SomeD: "find P xs = Some x \<Longrightarrow> x \<in> set xs \<and> P x"
  by (auto simp: find_Some_iff)

lemma find_insert_on_conflict:
  assumes "\<And>r. key (f r) = key r"
  shows "find (\<lambda>y. key y = k) (insert_on_conflict key f row t) =
    (if k = key row then (case find (\<lambda>y. key y = k) t of None \<Rightarrow> Some row | Some r \<Rightarrow> Some (f r))
     else find (\<lambda>y. key y = k) t)"
proof -
  have app: "find P (xs @ [x]) = (case find P xs of None \<Rightarrow> if P x then Some x else None | Some r \<Rightarrow> Some r)"
    for P and xs :: "'a list" and x by (induction xs) auto
  show ?thesis
  proof (cases "key row \<in> key ` set t")
    case True
    then have ne: "find (\<lambda>y. key y = key row) t \<noteq> None" by (auto simp: find_None_iff)
    have "find (\<lambda>y. key y = k) (sql_update (\<lambda>r'. key r' = key row) f t) =
        map_option (\<lambda>r. if key r = key row then f r else r) (find (\<lambda>y. key y = k) t)"
      using assms by (rule find_key_update [where key = key])
    with True ne show ?thesis
      by (cases "find (\<lambda>y. key y = k) t") (auto simp: insert_on_conflict_def dest: find_SomeD)
  next
    case False
    then have "find (\<lambda>y. key y = key row) t = None" unfolding find_None_iff by (metis imageI)
    with False show ?thesis by (auto simp: insert_on_conflict_def app split: option.splits)
  qed
qed

lemma stat_of_up:
  "stat_of oid' (s\<lparr>obj_stats := bumped_up now delta (obj_id_to_blob oid) (obj_stats s)\<rparr>) =
     (if obj_id_to_blob oid' = obj_id_to_blob oid then
        Some (case stat_of oid s of None \<Rightarrow>
            \<lparr>s_obj_id = obj_id_to_blob oid, s_ref_count = delta, s_zero_since = None, s_updated_at = now\<rparr>
          | Some r \<Rightarrow> r\<lparr>s_ref_count := s_ref_count r + delta, s_zero_since := None, s_updated_at := now\<rparr>)
      else stat_of oid' s)"
  unfolding stat_of_def bumped_up_def
  using find_insert_on_conflict [where key = s_obj_id and k = "obj_id_to_blob oid'" and t = "obj_stats s"]
  by (auto split: option.splits)

lemma stat_of_down:
  "stat_of oid' (s\<lparr>obj_stats := bumped_down now delta (obj_id_to_blob oid) (obj_stats s)\<rparr>) =
     map_option (\<lambda>r. if s_obj_id r = obj_id_to_blob oid \<and> 0 \<le> s_ref_count r + delta
        then r\<lparr>s_ref_count := s_ref_count r + delta,
            s_zero_since := (if s_ref_count r + delta = 0 then
               Some (case s_zero_since r of None \<Rightarrow> now | Some z \<Rightarrow> z) else None),
            s_updated_at := now\<rparr> else r) (stat_of oid' s)"
  unfolding stat_of_def bumped_down_def
  using find_key_update [where key = s_obj_id and k = "obj_id_to_blob oid'" and xs = "obj_stats s"] by simp

lemma bump_up:
  assumes "0 < delta"
  shows "handle_obj_stat_bump V oid delta s =
    (and_then (col_i64 (ref_count oid s + delta)) (\<lambda>c. Ok (as_u64 c)),
     s\<lparr>obj_stats := bumped_up (now_i64 V) delta (obj_id_to_blob oid) (obj_stats s)\<rparr>)"
proof -
  let ?s = "s\<lparr>obj_stats := bumped_up (now_i64 V) delta (obj_id_to_blob oid) (obj_stats s)\<rparr>"
  obtain r where r: "stat_of oid ?s = Some r" "s_ref_count r = ref_count oid s + delta"
    by (simp add: stat_of_up ref_count_def split: option.splits)
  have "handle_obj_stat_bump V oid delta s = bind (query (\<lambda>s. ok_or (stat_of oid s) (map_db_err ''Query returned no rows'')))
      (\<lambda>r. bind (query (\<lambda>s. col_i64 (s_ref_count r))) (\<lambda>c. ret (as_u64 c))) ?s"
    using assms by (simp add: handle_obj_stat_bump_def Let_def bind_def [of "\<lambda>s. (Ok (), _ s)"] bumped_up_def)
  then show ?thesis using r by (simp add: bind_def query_def ret_def and_then_def split: sum.splits)
qed

lemma count_key:
  assumes "distinct (map s_obj_id (obj_stats s))"
  shows "sql_count (\<lambda>r. s_obj_id r = obj_id_to_blob oid \<and> P r) (obj_stats s) = 0 \<longleftrightarrow>
    (\<forall>r. stat_of oid s = Some r \<longrightarrow> \<not> P r)"
  using assms by (auto simp: sql_count_zero stat_of_def find_Some_iff_mem)

lemma bump_down:
  assumes "\<not> 0 < delta" and "distinct (map s_obj_id (obj_stats s))"
  shows "handle_obj_stat_bump V oid delta s =
    (if stat_of oid s \<noteq> None \<and> 0 \<le> ref_count oid s + delta then
       (and_then (col_i64 (ref_count oid s + delta)) (\<lambda>c. Ok (as_u64 c)),
        s\<lparr>obj_stats := bumped_down (now_i64 V) delta (obj_id_to_blob oid) (obj_stats s)\<rparr>)
     else (Err (ReasonError ''ref_count would be negative''), s))"
proof -
  let ?P = "\<lambda>r. s_obj_id r = obj_id_to_blob oid \<and> 0 \<le> s_ref_count r + delta"
  let ?s = "s\<lparr>obj_stats := bumped_down (now_i64 V) delta (obj_id_to_blob oid) (obj_stats s)\<rparr>"
  have z: "sql_count ?P (obj_stats s) = 0 \<longleftrightarrow> \<not> (stat_of oid s \<noteq> None \<and> 0 \<le> ref_count oid s + delta)"
    using count_key [OF assms(2), of oid "\<lambda>r. 0 \<le> s_ref_count r + delta"] by (auto simp: ref_count_def)
  have h: "handle_obj_stat_bump V oid delta s = bind (\<lambda>s. if sql_count ?P (obj_stats s) = 0
        then (Err (ReasonError ''ref_count would be negative''), s\<lparr>obj_stats := bumped_down (now_i64 V) delta (obj_id_to_blob oid) (obj_stats s)\<rparr>)
        else (Ok (), s\<lparr>obj_stats := bumped_down (now_i64 V) delta (obj_id_to_blob oid) (obj_stats s)\<rparr>))
      (\<lambda>_. bind (query (\<lambda>s. ok_or (stat_of oid s) (map_db_err ''Query returned no rows'')))
      (\<lambda>r. bind (query (\<lambda>s. col_i64 (s_ref_count r))) (\<lambda>c. ret (as_u64 c)))) s"
    using assms(1) by (simp add: handle_obj_stat_bump_def Let_def bumped_down_def bind_def ret_def throw_def)
  show ?thesis
  proof (cases "stat_of oid s \<noteq> None \<and> 0 \<le> ref_count oid s + delta")
    case False
    then have "sql_count ?P (obj_stats s) = 0" using z by simp
    moreover from this have "bumped_down (now_i64 V) delta (obj_id_to_blob oid) (obj_stats s) = obj_stats s"
      unfolding bumped_down_def by (intro sql_update_none) (auto simp: sql_count_zero)
    ultimately show ?thesis using False by (auto simp: h bind_def)
  next
    case True
    then obtain r where r: "stat_of oid s = Some r" "0 \<le> s_ref_count r + delta" by (auto simp: ref_count_def)
    then have k: "s_obj_id r = obj_id_to_blob oid" by (auto simp: stat_of_def dest: find_SomeD)
    obtain r' where "stat_of oid ?s = Some r'" "s_ref_count r' = ref_count oid s + delta"
      using r k by (simp add: stat_of_down ref_count_def)
    then show ?thesis using True z by (simp add: h bind_def query_def ret_def and_then_def split: sum.splits)
  qed
qed

lemma stats_ok_up:
  assumes "stats_ok s" and "0 < delta"
  shows "stats_ok (s\<lparr>obj_stats := bumped_up now delta key (obj_stats s)\<rparr>)"
  using assms unfolding stats_ok_def bumped_up_def
  by (auto simp: distinct_insert_on_conflict) (auto simp: insert_on_conflict_def set_sql_update split: if_splits)

lemma stats_ok_down:
  assumes "stats_ok s"
  shows "stats_ok (s\<lparr>obj_stats := bumped_down now delta key (obj_stats s)\<rparr>)"
  using assms unfolding stats_ok_def bumped_down_def
  by (auto simp: map_sql_update set_sql_update split: if_splits)

lemma bump_stats_ok:
  assumes "stats_ok s" and "handle_obj_stat_bump V oid delta s = (r, s')"
  shows "stats_ok s'"
proof (cases "0 < delta")
  case True
  then show ?thesis using assms bump_up [OF True, of V oid s] by (auto intro: stats_ok_up)
next
  case False
  have "distinct (map s_obj_id (obj_stats s))" using assms(1) by (simp add: stats_ok_def)
  from bump_down [OF False this, of V oid] show ?thesis
    using assms by (auto intro: stats_ok_down split: if_splits)
qed

lemma step_stats_ok: "db_step E l s s' \<Longrightarrow> stats_ok s \<Longrightarrow> stats_ok s'"
proof (induction rule: db_step.induct)
  case (stat_bump V oid delta s r1 s')
  then show ?case by (blast intro: bump_stats_ok)
next
  case (stat_delete oid s r3 s')
  then show ?case
    by (auto simp: handle_obj_stat_delete_if_zero_def stats_ok_def set_sql_delete distinct_map_sql_delete)
next
  case (set_inode V n s r s')
  then show ?case by (auto simp: stats_ok_def dest!: set_inode_cases)
next
  case (alloc_inode V n s r s')
  then show ?case by (auto simp: stats_ok_def dest!: alloc_inode_cases)
next
  case (remove_inode i s root r s')
  then show ?case by (auto simp: handle_remove_inode_def stats_ok_def split: if_splits)
next
  case (reopen s)
  then show ?case by (simp add: migrate_ref_by_def stats_ok_def)
qed (metis confinedD keeps_stats_def stats_ok_def keeps_stats_handlers keeps_stats_dentry_handlers)+

lemma reach_stats_ok: "fs_reach E s \<Longrightarrow> stats_ok s"
proof (induction rule: fs_reach.induct)
  case (init V r s)
  then show ?case by (auto simp: ensure_root_dir_def empty_conn_def node_of_def stats_ok_def)
qed (rule step_stats_ok)

lemma ref_count_up:
  "ref_count oid' (s\<lparr>obj_stats := bumped_up now delta (obj_id_to_blob oid) (obj_stats s)\<rparr>) =
     ref_count oid' s + (if obj_id_to_blob oid' = obj_id_to_blob oid then delta else 0)"
proof (cases "obj_id_to_blob oid' = obj_id_to_blob oid")
  case True
  then have "stat_of oid' s = stat_of oid s" by (simp add: stat_of_def)
  with True show ?thesis by (cases "stat_of oid s") (simp_all add: ref_count_def stat_of_up)
qed (simp add: ref_count_def stat_of_up)

lemma ref_count_down:
  assumes "stat_of oid s \<noteq> None" and "0 \<le> ref_count oid s + delta"
  shows "ref_count oid' (s\<lparr>obj_stats := bumped_down now delta (obj_id_to_blob oid) (obj_stats s)\<rparr>) =
     ref_count oid' s + (if obj_id_to_blob oid' = obj_id_to_blob oid then delta else 0)"
proof (cases "obj_id_to_blob oid' = obj_id_to_blob oid")
  case True
  then have "stat_of oid' s = stat_of oid s" by (simp add: stat_of_def)
  moreover obtain r where r: "stat_of oid s = Some r" using assms(1) by auto
  moreover from r have "s_obj_id r = obj_id_to_blob oid" by (auto simp: stat_of_def dest: find_SomeD)
  ultimately show ?thesis using True assms(2) by (simp add: ref_count_def stat_of_down)
next
  case False
  then show ?thesis
    by (cases "stat_of oid' s") (auto simp: ref_count_def stat_of_down, auto simp: stat_of_def dest!: find_SomeD)
qed

text \<open>Reference counts are a ledger.  In every reachable state no count is negative and a row
  carries \<open>zero_since\<close> exactly when its count is zero.  A bump by \<open>delta\<close> succeeds exactly when the
  count stays non-negative (a first reference needs a positive delta) and representable; it then
  returns the new count and changes the count of that object only; a bump that would make the count negative fails
  and changes nothing.\<close>

theorem obj_stat_ledger:
  assumes "fs_reach E s"
  shows "(\<forall>r \<in> set (obj_stats s). 0 \<le> s_ref_count r \<and> (s_zero_since r \<noteq> None \<longleftrightarrow> s_ref_count r = 0)) \<and>
    (if (0 < delta \<or> stat_of oid s \<noteq> None) \<and> 0 \<le> ref_count oid s + delta \<and> ref_count oid s + delta < 2 ^ 63
     then \<exists>s'. handle_obj_stat_bump V oid delta s = (Ok (as_u64 (ref_count oid s + delta)), s') \<and>
       (\<forall>oid'. ref_count oid' s' = ref_count oid' s +
          (if obj_id_to_blob oid' = obj_id_to_blob oid then delta else 0))
     else (\<exists>e s'. handle_obj_stat_bump V oid delta s = (Err e, s') \<and>
       (ref_count oid s + delta < 2 ^ 63 \<longrightarrow> s' = s)))"
proof -
  have ok: "stats_ok s" by (rule reach_stats_ok [OF assms])
  then have dist: "distinct (map s_obj_id (obj_stats s))" by (simp add: stats_ok_def)
  have nn: "0 \<le> ref_count oid s"
    using ok by (auto simp: ref_count_def stats_ok_def stat_of_def split: option.splits dest!: find_SomeD)
  show ?thesis
  proof (cases "0 < delta")
    case True
    then show ?thesis
      using ok nn by (auto simp: bump_up ref_count_up col_i64_def and_then_def stats_ok_def)
  next
    case False
    then show ?thesis
      using ok bump_down [OF False dist, of V oid] ref_count_down [of oid s delta]
      by (auto simp: col_i64_def and_then_def stats_ok_def)
  qed
qed

theorem obj_stat_ledger_witness:
  "ref_count \<lparr>obj_type = ''cyfile'', obj_hash = [1, 2]\<rparr> demo_tree = 0 \<and>
   (\<exists>s'. handle_obj_stat_bump demo_env \<lparr>obj_type = ''cyfile'', obj_hash = [1, 2]\<rparr> 2 demo_tree = (Ok 2, s') \<and>
      ref_count \<lparr>obj_type = ''cyfile'', obj_hash = [1, 2]\<rparr> s' = 2)"
proof -
  have z: "ref_count \<lparr>obj_type = ''cyfile'', obj_hash = [1, 2]\<rparr> demo_tree = 0" by code_simp
  have "as_u64 2 = 2" by code_simp
  with obj_stat_ledger [OF demo_tree_reach, of 2 "\<lparr>obj_type = ''cyfile'', obj_hash = [1, 2]\<rparr>" demo_env] z
  show ?thesis by auto
qed

end
