(* ===== verification/Lru_Hot_Table.thy ===== *)
theory Lru_Hot_Table
  imports Store_Db_Props
begin

text \<open>
  The in-memory access table (\<open>named_store/src/lru_hot_table.rs\<close>): reads touch it, a background flush
  collects the dirty entries and writes them to the database.  The \<open>HashMap\<close> is an association list
  with distinct keys; a batch lists its entries in the order of that list, which stands for the
  unspecified iteration order.
\<close>

record hot_table =
  relatime_threshold :: u64
  entries :: "(string \<times> u64 \<times> bool) list"

definition hot_new :: "u64 \<Rightarrow> hot_table" where
  "hot_new thr = \<lparr>relatime_threshold = thr, entries = []\<rparr>"

fun hot_insert :: "string \<Rightarrow> u64 \<times> bool \<Rightarrow> (string \<times> u64 \<times> bool) list \<Rightarrow> (string \<times> u64 \<times> bool) list" where
  "hot_insert k v [] = [(k, v)]"
| "hot_insert k v ((k', v') # es) = (if k' = k then (k, v) # es else (k', v') # hot_insert k v es)"

definition hot_touch :: "u64 \<Rightarrow> string \<Rightarrow> hot_table \<Rightarrow> hot_table" where
  "hot_touch now k t =
     (let prev = (case map_of (entries t) k of None \<Rightarrow> 0 | Some (ts, _) \<Rightarrow> ts)
      in if relatime_threshold t \<le> saturating_sub now prev
         then t\<lparr>entries := hot_insert k (now, True) (entries t)\<rparr> else t)"

definition collect_dirty_batch :: "hot_table \<Rightarrow> (string \<times> u64) list \<times> hot_table" where
  "collect_dirty_batch t =
     (map (\<lambda>(k, ts, _). (k, ts)) (filter (\<lambda>(k, ts, dirty). dirty) (entries t)),
      t\<lparr>entries := map (\<lambda>(k, ts, _). (k, ts, False)) (entries t)\<rparr>)"

definition hot_wf :: "hot_table \<Rightarrow> bool" where
  "hot_wf t \<longleftrightarrow> distinct (map fst (entries t))"

lemma map_of_hot_insert: "map_of (hot_insert k v es) = (map_of es)(k \<mapsto> v)"
  by (induction k v es rule: hot_insert.induct) auto

lemma keys_hot_insert: "fst ` set (hot_insert k v es) = insert k (fst ` set es)"
  by (induction k v es rule: hot_insert.induct) auto

lemma distinct_hot_insert: "distinct (map fst es) \<Longrightarrow> distinct (map fst (hot_insert k v es))"
  by (induction k v es rule: hot_insert.induct) (auto simp: keys_hot_insert)

lemma hot_wf_ops:
  "hot_wf (hot_new thr)"
  "hot_wf t \<Longrightarrow> hot_wf (hot_touch now k t)"
  "hot_wf t \<Longrightarrow> hot_wf (snd (collect_dirty_batch t))"
  by (auto simp: hot_wf_def hot_new_def hot_touch_def collect_dirty_batch_def distinct_hot_insert Let_def
      comp_def case_prod_beta)

lemma map_of_collected:
  "map_of (entries (snd (collect_dirty_batch t))) k = map_option (\<lambda>(ts, _). (ts, False)) (map_of (entries t) k)"
proof -
  have "map_of (map (\<lambda>(k, ts, _). (k, ts, False)) es) k = map_option (\<lambda>(ts, _). (ts, False)) (map_of es k)"
    for es :: "(string \<times> u64 \<times> bool) list" by (induction es) auto
  then show ?thesis by (simp add: collect_dirty_batch_def)
qed

lemma batch_entry:
  assumes "hot_wf t"
  shows "(k, ts) \<in> set (fst (collect_dirty_batch t)) \<longleftrightarrow> map_of (entries t) k = Some (ts, True)"
  using assms by (force simp: collect_dirty_batch_def hot_wf_def)

lemma batch_distinct: "hot_wf t \<Longrightarrow> distinct (map fst (fst (collect_dirty_batch t)))"
proof -
  have "distinct (map fst es) \<Longrightarrow>
      distinct (map fst (map (\<lambda>(k, ts, _). (k, ts)) (filter (\<lambda>(k, ts, dirty). dirty) es)))"
    for es :: "(string \<times> u64 \<times> bool) list"
    by (induction es) (auto simp: image_iff)
  then show "hot_wf t \<Longrightarrow> ?thesis" by (simp add: hot_wf_def collect_dirty_batch_def)
qed

text \<open>The table loses at most the threshold of precision and reports every change once: after a
  touch the recorded time of the key is the current one, or less than the threshold behind it; other
  keys are unaffected; the next batch holds the touched key with its time when the touch was
  recorded; and a batch collected right after another is empty.\<close>

theorem hot_touch_relatime:
  assumes "hot_wf t"
  shows "((\<exists>ts d. map_of (entries (hot_touch now k t)) k = Some (ts, d) \<and>
            (ts = now \<and> d \<or> saturating_sub now ts < relatime_threshold t)) \<or>
          map_of (entries t) k = None \<and> now < relatime_threshold t) \<and>
    (\<forall>k'. k' \<noteq> k \<longrightarrow> map_of (entries (hot_touch now k t)) k' = map_of (entries t) k') \<and>
    (relatime_threshold t \<le> saturating_sub now (case map_of (entries t) k of None \<Rightarrow> 0 | Some (ts, _) \<Rightarrow> ts) \<longrightarrow>
      (k, now) \<in> set (fst (collect_dirty_batch (hot_touch now k t)))) \<and>
    fst (collect_dirty_batch (snd (collect_dirty_batch t))) = []"
proof (intro conjI)
  show "fst (collect_dirty_batch (snd (collect_dirty_batch t))) = []"
    by (auto simp: collect_dirty_batch_def filter_empty_conv)
  show "relatime_threshold t \<le> saturating_sub now (case map_of (entries t) k of None \<Rightarrow> 0 | Some (ts, _) \<Rightarrow> ts) \<longrightarrow>
      (k, now) \<in> set (fst (collect_dirty_batch (hot_touch now k t)))"
    unfolding batch_entry [OF hot_wf_ops(2) [OF assms]]
    by (simp add: hot_touch_def map_of_hot_insert Let_def)
qed (auto simp: hot_touch_def map_of_hot_insert saturating_sub_def Let_def not_le split: option.splits)

theorem hot_touch_relatime_witness:
  "(''a'', 70) \<in> set (fst (collect_dirty_batch (hot_touch 70 ''a'' (hot_new 60))))"
  using hot_touch_relatime [OF hot_wf_ops(1) [of 60], where now = 70 and k = "''a''"]
  by (simp add: hot_new_def saturating_sub_def)

end
