(* ===== verification/Chunk_Hasher.thy ===== *)
theory Chunk_Hasher
  imports Ndn_Object
begin

text \<open>
  Hashing of chunk data: \<open>HashHelper\<close> (\<open>ndn-lib/src/hash.rs\<close>) and \<open>ChunkHasher\<close>
  (\<open>ndn-lib/src/chunk/hasher.rs\<close>), and the readers they are fed from.

  A streaming hasher holds the bytes it was given; the digest itself is the parameter \<open>hash_digest\<close>.
  A reader is the list of blocks that its source will yield: one call of \<open>read\<close> returns at most the
  length asked for, and possibly less, as \<open>AsyncRead::read\<close> may, and returns nothing only at the end of
  the stream.  Read errors are not modelled.
\<close>

type_synonym reader = "u8 list list"

fun reader_read :: "nat \<Rightarrow> reader \<Rightarrow> u8 list \<times> reader" where
  "reader_read n [] = ([], [])"
| "reader_read n (b # bs) =
     (if b = [] then reader_read n bs
      else (take n b, if length b \<le> n then bs else drop n b # bs))"

definition reader_bytes :: "reader \<Rightarrow> u8 list" where
  "reader_bytes r = concat r"

section \<open>\<open>HashHelper\<close>\<close>

definition create_hasher :: "hash_method \<Rightarrow> unit ndn_result" where
  "create_hasher m =
     (case m of HSha256 \<Rightarrow> Ok () | HSha512 \<Rightarrow> Ok ()
      | _ \<Rightarrow> Err (InvalidParam ''Unsupported hash method: ''))"

text \<open>\<open>calc_hash\<close>, \<open>calc_hash_list\<close> and \<open>calc_parent_hash\<close> panic for \<open>QCID\<close>: the value is \<open>None\<close>.\<close>

definition calc_hash :: "'j ext_crates \<Rightarrow> hash_method \<Rightarrow> u8 list \<Rightarrow> u8 list option" where
  "calc_hash E m data = (if m = HQCID then None else Some (hash_digest E m data))"

definition calc_hash_list :: "'j ext_crates \<Rightarrow> hash_method \<Rightarrow> u8 list list \<Rightarrow> u8 list option" where
  "calc_hash_list E m data =
     (if m = HQCID then None else Some (hash_digest E m (fold (\<lambda>item acc. acc @ item) data [])))"

definition calc_parent_hash :: "'j ext_crates \<Rightarrow> hash_method \<Rightarrow> u8 list \<Rightarrow> u8 list \<Rightarrow> u8 list option" where
  "calc_parent_hash E m left right =
     (if m = HQCID then None else Some (hash_digest E m (left @ right)))"

section \<open>\<open>ChunkHasher\<close>\<close>

record chunk_hasher =
  ch_method :: hash_method
  ch_length :: u64
  ch_input :: "u8 list"

definition new_with_hash_method :: "hash_method \<Rightarrow> chunk_hasher ndn_result" where
  "new_with_hash_method m =
     and_then (create_hasher m) (\<lambda>_. Ok \<lparr>ch_method = m, ch_length = 0, ch_input = []\<rparr>)"

definition chunk_hasher_new :: "string option \<Rightarrow> chunk_hasher ndn_result" where
  "chunk_hasher_new ht =
     and_then (case ht of Some s \<Rightarrow> hash_method_from_str s | None \<Rightarrow> Ok HSha256) new_with_hash_method"

definition update_from_bytes :: "u8 list \<Rightarrow> chunk_hasher \<Rightarrow> chunk_hasher" where
  "update_from_bytes bs h =
     h\<lparr>ch_length := ch_length h + of_nat (length bs), ch_input := ch_input h @ bs\<rparr>"

definition finalize :: "'j ext_crates \<Rightarrow> chunk_hasher \<Rightarrow> u8 list" where
  "finalize E h = hash_digest E (ch_method h) (ch_input h)"

text \<open>\<open>finalize_chunk_id\<close> unwraps the chunk type: the value is \<open>None\<close> where that panics.\<close>

definition finalize_chunk_id :: "'j ext_crates \<Rightarrow> chunk_hasher \<Rightarrow> chunk_id option" where
  "finalize_chunk_id E h =
     map_option (from_hash_result (finalize E h)) (res_ok (from_hash_type (ch_method h) False))"

definition finalize_mix_chunk_id :: "'j ext_crates \<Rightarrow> chunk_hasher \<Rightarrow> chunk_id ndn_result" where
  "finalize_mix_chunk_id E h =
     and_then (from_hash_type (ch_method h) True)
       (\<lambda>ty. Ok (from_mix_hash_result E (ch_length h) (finalize E h) ty))"

definition calc_from_bytes :: "'j ext_crates \<Rightarrow> chunk_hasher \<Rightarrow> u8 list \<Rightarrow> u8 list" where
  "calc_from_bytes E h bs = finalize E (update_from_bytes bs h)"

definition calc_chunk_id_from_bytes :: "'j ext_crates \<Rightarrow> chunk_hasher \<Rightarrow> u8 list \<Rightarrow> chunk_id option" where
  "calc_chunk_id_from_bytes E h bs = finalize_chunk_id E (update_from_bytes bs h)"

definition calc_mix_chunk_id_from_bytes ::
  "'j ext_crates \<Rightarrow> chunk_hasher \<Rightarrow> u8 list \<Rightarrow> chunk_id ndn_result" where
  "calc_mix_chunk_id_from_bytes E h bs = finalize_mix_chunk_id E (update_from_bytes bs h)"

text \<open>The loops of \<open>calc_from_reader\<close> and \<open>calc_from_reader_with_length\<close>; the first result is what the
  inner hasher was fed, the second the number of bytes read.\<close>

definition CALC_HASH_PIECE_SIZE :: nat where
  "CALC_HASH_PIECE_SIZE = 1024 * 1024 * 4"

lemma reader_read_size:
  "reader_read n r = (d, r') \<Longrightarrow> d \<noteq> [] \<Longrightarrow> length (reader_bytes r') < length (reader_bytes r)"
  by (induction n r rule: reader_read.induct)
    (auto simp: reader_bytes_def split: if_splits)

function read_all :: "nat \<Rightarrow> u8 list \<Rightarrow> reader \<Rightarrow> u8 list" where
  "read_all n acc r =
     (case reader_read n r of (d, r') \<Rightarrow> if d = [] then acc else read_all n (acc @ d) r')"
  by pat_completeness auto
termination
  by (relation "measure (\<lambda>(n, acc, r). length (reader_bytes r))") (auto dest: reader_read_size [OF sym])

function read_upto :: "nat \<Rightarrow> nat \<Rightarrow> u8 list \<Rightarrow> reader \<Rightarrow> u8 list" where
  "read_upto n len acc r =
     (case reader_read (min n (len - length acc)) r of
        (d, r') \<Rightarrow> if d = [] then acc else read_upto n len (acc @ d) r')"
  by pat_completeness auto
termination
  by (relation "measure (\<lambda>(n, len, acc, r). length (reader_bytes r))") (auto dest: reader_read_size [OF sym])

declare read_all.simps [simp del] read_upto.simps [simp del]

definition calc_from_reader :: "'j ext_crates \<Rightarrow> chunk_hasher \<Rightarrow> reader \<Rightarrow> u8 list \<times> u64" where
  "calc_from_reader E h r =
     (let d = read_all CALC_HASH_PIECE_SIZE [] r
      in (hash_digest E (ch_method h) (ch_input h @ d), of_nat (length d)))"

definition calc_from_reader_with_length ::
  "'j ext_crates \<Rightarrow> chunk_hasher \<Rightarrow> reader \<Rightarrow> nat \<Rightarrow> u8 list \<times> u64" where
  "calc_from_reader_with_length E h r len =
     (let d = read_upto CALC_HASH_PIECE_SIZE len [] r
      in (hash_digest E (ch_method h) (ch_input h @ d), of_nat (length d)))"

section \<open>Quick hashes\<close>

definition QCID_HASH_PIECE_SIZE :: nat where
  "QCID_HASH_PIECE_SIZE = 4096"

definition MIN_QCID_FILE_SIZE :: nat where
  "MIN_QCID_FILE_SIZE = QCID_HASH_PIECE_SIZE * 3"

text \<open>\<open>read_exact\<close> of \<open>n\<close> bytes at an offset of a seekable source that holds \<open>d\<close>.\<close>

definition read_exact_at :: "nat \<Rightarrow> nat \<Rightarrow> u8 list \<Rightarrow> u8 list ndn_result" where
  "read_exact_at off n d =
     (if n \<le> length d - off then Ok (take n (drop off d)) else Err (IoError ''early eof''))"

definition calc_quick_hash :: "'j ext_crates \<Rightarrow> u8 list \<Rightarrow> u64 option \<Rightarrow> chunk_id ndn_result" where
  "calc_quick_hash E d len_opt =
     (let len = (case len_opt of Some n \<Rightarrow> n | None \<Rightarrow> of_nat (length d))
      in if unat len < MIN_QCID_FILE_SIZE then
           Err (Internal ''quick hash error: item size is too small'')
         else
           and_then (read_exact_at 0 QCID_HASH_PIECE_SIZE d) (\<lambda>head.
           and_then (read_exact_at (unat (len div 2)) QCID_HASH_PIECE_SIZE d) (\<lambda>mid.
             Ok (from_mix_hash_result E len (hash_digest E HSha256 (head @ mid)) QCID))))"

definition calc_quick_hash_by_buffer ::
  "'j ext_crates \<Rightarrow> u8 list \<Rightarrow> u8 list \<Rightarrow> u8 list \<Rightarrow> u64 \<Rightarrow> chunk_id ndn_result" where
  "calc_quick_hash_by_buffer E bs ms es len =
     (if length bs \<noteq> QCID_HASH_PIECE_SIZE \<or> length ms \<noteq> QCID_HASH_PIECE_SIZE \<or>
         length es \<noteq> QCID_HASH_PIECE_SIZE then
        Err (Internal ''cacl quick hash buffer part length must be 4096'')
      else Ok (from_mix_hash_result E len (hash_digest E HSha256 (bs @ ms @ es)) QCID))"

section \<open>Files\<close>

text \<open>The host's files: path to contents, \<open>None\<close> where \<open>File::open\<close> fails.\<close>

type_synonym host_files = "string \<Rightarrow> u8 list option"

definition calculate_file_chunk_id ::
  "'j ext_crates \<Rightarrow> host_files \<Rightarrow> string \<Rightarrow> chunk_type \<Rightarrow> (chunk_id \<times> u64) ndn_result" where
  "calculate_file_chunk_id E fs path ty =
     and_then (to_hash_method ty) (\<lambda>m.
     and_then (ok_or (fs path) (IoError path)) (\<lambda>d.
     and_then (new_with_hash_method m) (\<lambda>h.
       case calc_from_reader E h [d] of (hash, file_size) \<Rightarrow>
         Ok (if chunk_type_is_mix ty then from_mix_hash_result E file_size hash ty
             else from_hash_result hash ty, file_size))))"

definition caculate_qcid_from_file :: "'j ext_crates \<Rightarrow> host_files \<Rightarrow> string \<Rightarrow> chunk_id ndn_result" where
  "caculate_qcid_from_file E fs path =
     and_then (ok_or (fs path) (IoError path)) (\<lambda>d. calc_quick_hash E d None)"

section \<open>\<open>copy_chunk\<close>\<close>

definition COPY_CHUNK_BUFFER_SIZE :: nat where
  "COPY_CHUNK_BUFFER_SIZE = CALC_HASH_PIECE_SIZE"

text \<open>
  The loop.  The callback is called with a total that grows from call to call, so what a given
  (stateful) callback answers in one run is a function of that total.  The last component of the
  result is what was written.
\<close>

function copy_chunk_loop ::
  "chunk_id \<Rightarrow> (u64 \<Rightarrow> unit ndn_result) option \<Rightarrow> reader \<Rightarrow> chunk_hasher option \<Rightarrow> u8 list \<Rightarrow>
   (u64 \<times> chunk_hasher option) ndn_result \<times> u8 list" where
  "copy_chunk_loop c cb r h out =
     (case reader_read COPY_CHUNK_BUFFER_SIZE r of (d, r') \<Rightarrow>
        if d = [] then (Ok (of_nat (length out), h), out)
        else
          (case (case h of None \<Rightarrow> Ok None
                 | Some hs \<Rightarrow> and_then (to_hash_method (chunk_type c)) (\<lambda>m.
                     if ch_method hs = m then Ok (Some (update_from_bytes d hs))
                     else Err (Internal (''hash type mismatch:'' @ hash_method_as_str (ch_method hs))))) of
             Inl e \<Rightarrow> (Err e, out)
           | Inr h' \<Rightarrow>
               (let out' = out @ d
                in case (case cb of None \<Rightarrow> Ok () | Some f \<Rightarrow> f (of_nat (length out'))) of
                     Inl e \<Rightarrow> (Err e, out')
                   | Inr _ \<Rightarrow> copy_chunk_loop c cb r' h' out')))"
  by pat_completeness auto
termination
  by (relation "measure (\<lambda>(c, cb, r, h, out). length (reader_bytes r))") (auto dest: reader_read_size [OF sym])

declare copy_chunk_loop.simps [simp del]

definition copy_chunk ::
  "'j ext_crates \<Rightarrow> chunk_id \<Rightarrow> reader \<Rightarrow> chunk_hasher option \<Rightarrow> (u64 \<Rightarrow> unit ndn_result) option \<Rightarrow>
   u64 ndn_result \<times> u8 list" where
  "copy_chunk E c r h cb =
     (case copy_chunk_loop c cb r h [] of
        (Inl e, out) \<Rightarrow> (Err e, out)
      | (Inr (total_copied, h'), out) \<Rightarrow>
          (and_then
             (case h' of None \<Rightarrow> Ok ()
              | Some hs \<Rightarrow>
                  and_then (if chunk_type_is_mix (chunk_type c) then finalize_mix_chunk_id E hs
                            else ok_or (finalize_chunk_id E hs) (Internal ''unwrap on Err''))
                    (\<lambda>got. if got \<noteq> c then Err (VerifyError (''copy chunk hash mismatch:'' @ chunk_to_string E got))
                            else Ok ()))
             (\<lambda>_. Ok total_copied), out))"

section \<open>Reading\<close>

lemma reader_read_take:
  "reader_read n r = (d, r') \<Longrightarrow> 0 < n \<Longrightarrow> d @ reader_bytes r' = reader_bytes r \<and> length d \<le> n \<and>
     (d = [] \<longrightarrow> reader_bytes r = [])"
  by (induction n r rule: reader_read.induct) (auto simp: reader_bytes_def split: if_splits)

lemma reader_read_zero: "reader_read 0 r = (d, r') \<Longrightarrow> d = []"
  by (induction "0 :: nat" r rule: reader_read.induct) (auto split: if_splits)

lemma read_all_bytes: "0 < n \<Longrightarrow> read_all n acc r = acc @ reader_bytes r"
proof (induction n acc r rule: read_all.induct)
  case (1 n acc r)
  obtain d r' where d: "reader_read n r = (d, r')" by (cases "reader_read n r")
  with 1 reader_read_take [OF d] show ?case
    by (subst read_all.simps) auto
qed

lemma read_upto_take:
  "0 < n \<Longrightarrow> length acc \<le> len \<Longrightarrow> read_upto n len acc r = acc @ take (len - length acc) (reader_bytes r)"
proof (induction n len acc r rule: read_upto.induct)
  case (1 n len acc r)
  let ?m = "min n (len - length acc)"
  obtain d r' where d: "reader_read ?m r = (d, r')" by (cases "reader_read ?m r")
  show ?case
  proof (cases "d = []")
    case True
    with d 1 have "len = length acc \<or> reader_bytes r = []"
      using reader_read_take [OF d] by (cases "?m = 0") auto
    with True d show ?thesis by (subst read_upto.simps) auto
  next
    case False
    then have pos: "0 < ?m" using d reader_read_zero [of r d r'] by (cases "?m = 0") auto
    from reader_read_take [OF d pos] have split: "reader_bytes r = d @ reader_bytes r'" "length d \<le> ?m" by auto
    with 1 False d have "read_upto n len (acc @ d) r' = (acc @ d) @ take (len - length (acc @ d)) (reader_bytes r')"
      by auto
    with False d split show ?thesis by (subst read_upto.simps) simp
  qed
qed

text \<open>How a reader splits its data does not matter: hashing from a reader gives the digest of all
  its bytes and their number, hashing with a length that of the first so many bytes, whatever the
  sizes of the blocks the reader yields.\<close>

theorem calc_from_reader_blocks:
  assumes "ch_input h = []"
  shows "calc_from_reader E h r = (hash_digest E (ch_method h) (concat r), of_nat (length (concat r))) \<and>
    calc_from_reader_with_length E h r len =
      (hash_digest E (ch_method h) (take len (concat r)), of_nat (min len (length (concat r))))"
  using assms
  by (simp add: calc_from_reader_def calc_from_reader_with_length_def read_all_bytes read_upto_take
      CALC_HASH_PIECE_SIZE_def reader_bytes_def min.commute Let_def)

theorem calc_from_reader_blocks_witness:
  "calc_from_reader inst_crates \<lparr>ch_method = HSha256, ch_length = 0, ch_input = []\<rparr> [[1], [], [2, 3]] = ([1, 2, 3], 3)"
  using calc_from_reader_blocks [of "\<lparr>ch_method = HSha256, ch_length = 0, ch_input = []\<rparr>" inst_crates "[[1], [], [2, 3]]"]
  by (simp add: inst_crates_def)

text \<open>Quick hashes are defined for every file that is large enough: the two reads never hit the
  end of the file, whatever its size, and the identifier depends on the length, the first 4096 bytes
  and the 4096 bytes from the middle only; smaller files are refused.\<close>

theorem calc_quick_hash_total:
  assumes "length d < 2 ^ 64"
  shows "calc_quick_hash E d None =
    (if length d < 3 * 4096 then Err (Internal ''quick hash error: item size is too small'')
     else Ok \<lparr>chunk_type = QCID, hash_result =
       varint_encode E (of_nat (length d)) @
       hash_digest E HSha256 (take 4096 d @ take 4096 (drop (length d div 2) d))\<rparr>)"
proof -
  have len: "unat (of_nat (length d) :: u64) = length d"
    using assms by (simp add: unat_of_nat take_bit_nat_eq_self_iff)
  then have "unat (of_nat (length d) div 2 :: u64) = length d div 2" by (simp add: unat_div)
  with len show ?thesis
    by (auto simp: calc_quick_hash_def read_exact_at_def MIN_QCID_FILE_SIZE_def QCID_HASH_PIECE_SIZE_def
        from_mix_hash_result_def mix_length_and_hash_result_def Let_def)
qed

theorem calc_quick_hash_total_witness:
  "calc_quick_hash inst_crates [1, 2] None = Err (Internal ''quick hash error: item size is too small'')"
  using calc_quick_hash_total [of "[1, 2]" inst_crates] by simp

lemma update_from_bytes_append:
  "update_from_bytes b (update_from_bytes a h) = update_from_bytes (a @ b) h"
  by (simp add: update_from_bytes_def)

lemma update_from_bytes_Nil [simp]: "update_from_bytes [] h = h"
  by (simp add: update_from_bytes_def)

lemma copy_chunk_loop_ok:
  assumes "\<And>t. (case cb of None \<Rightarrow> Ok () | Some f \<Rightarrow> f t) = Ok ()"
    and "h = None \<or> (\<exists>hs. h = Some hs \<and> to_hash_method (chunk_type c) = Ok (ch_method hs))"
  shows "copy_chunk_loop c cb r h out =
    (Ok (of_nat (length (out @ reader_bytes r)), map_option (update_from_bytes (reader_bytes r)) h), out @ reader_bytes r)"
  using assms
proof (induction c cb r h out rule: copy_chunk_loop.induct)
  case (1 c cb r h out)
  obtain d r' where d: "reader_read COPY_CHUNK_BUFFER_SIZE r = (d, r')" by (cases "reader_read COPY_CHUNK_BUFFER_SIZE r")
  have tk: "d @ reader_bytes r' = reader_bytes r" "d = [] \<Longrightarrow> reader_bytes r = []"
    using reader_read_take [OF d] by (simp_all add: COPY_CHUNK_BUFFER_SIZE_def CALC_HASH_PIECE_SIZE_def)
  show ?case
  proof (cases "d = []")
    case True
    with d tk show ?thesis
      by (subst copy_chunk_loop.simps) (auto simp: update_from_bytes_def option.map_ident cong: option.map_cong)
  next
    case False
    let ?h' = "map_option (update_from_bytes d) h"
    have h': "(case h of None \<Rightarrow> Ok None | Some hs \<Rightarrow> and_then (to_hash_method (chunk_type c)) (\<lambda>m.
        if ch_method hs = m then Ok (Some (update_from_bytes d hs))
        else Err (Internal (''hash type mismatch:'' @ hash_method_as_str (ch_method hs))))) = Ok ?h'"
      using 1(3) by auto
    have ok: "?h' = None \<or> (\<exists>hs. ?h' = Some hs \<and> to_hash_method (chunk_type c) = Ok (ch_method hs))"
      using 1(3) by (auto simp: update_from_bytes_def)
    have "copy_chunk_loop c cb r' ?h' (out @ d) =
        (Ok (of_nat (length ((out @ d) @ reader_bytes r')), map_option (update_from_bytes (reader_bytes r')) ?h'),
         (out @ d) @ reader_bytes r')"
      by (rule 1(1) [OF d [symmetric] False h' refl 1(2) 1(2) ok])
    with d False h' 1(2) [of "of_nat (length (out @ d))"] tk(1) [symmetric] show ?thesis
      by (subst copy_chunk_loop.simps)
        (simp add: option.map_comp comp_def update_from_bytes_append Let_def)
  qed
qed

section \<open>What an identifier says of the data\<close>

text \<open>The data of a chunk is what its identifier says.\<close>

definition chunk_id_matches :: "'j ext_crates \<Rightarrow> chunk_id \<Rightarrow> u8 list \<Rightarrow> bool" where
  "chunk_id_matches E c d =
     (case to_hash_method (chunk_type c) of Inl _ \<Rightarrow> False
      | Inr m \<Rightarrow> hash_result c =
          (if chunk_type_is_mix (chunk_type c)
           then mix_length_and_hash_result E (of_nat (length d)) (hash_digest E m d)
           else hash_digest E m d))"

lemma new_with_hash_method_ok:
  "new_with_hash_method m = Ok h \<longleftrightarrow>
     (m = HSha256 \<or> m = HSha512) \<and> h = \<lparr>ch_method = m, ch_length = 0, ch_input = []\<rparr>"
  by (cases m) (auto simp: new_with_hash_method_def create_hasher_def)

definition finalized_id :: "'j ext_crates \<Rightarrow> chunk_id \<Rightarrow> chunk_hasher \<Rightarrow> chunk_id ndn_result" where
  "finalized_id E c h =
     (if chunk_type_is_mix (chunk_type c) then finalize_mix_chunk_id E h
      else ok_or (finalize_chunk_id E h) (Internal ''unwrap on Err''))"

lemma finalized_id_matches:
  assumes "and_then (to_hash_method (chunk_type c)) new_with_hash_method = Ok h"
  shows "\<exists>got. finalized_id E c (update_from_bytes d h) = Ok got \<and> (got = c \<longleftrightarrow> chunk_id_matches E c d)"
proof -
  obtain m where m: "to_hash_method (chunk_type c) = Ok m" "m = HSha256 \<or> m = HSha512"
    "h = \<lparr>ch_method = m, ch_length = 0, ch_input = []\<rparr>"
    using assms by (auto simp: and_then_eq_Ok new_with_hash_method_ok)
  show ?thesis
    using m
    by (cases "chunk_type c"; cases c)
      (auto simp: finalized_id_def chunk_id_matches_def finalize_mix_chunk_id_def finalize_chunk_id_def
        finalize_def update_from_bytes_def from_mix_hash_result_def from_hash_result_def
        mix_length_and_hash_result_def)
qed

text \<open>\<open>copy_chunk\<close> with a fresh hasher of the chunk's method and a callback that does not abort
  writes every byte of the source, whatever its blocks, and returns their number exactly when they
  match the chunk identifier; otherwise it reports a verification error, the bytes being written by
  then.\<close>

theorem copy_chunk_verifies:
  assumes "and_then (to_hash_method (chunk_type c)) new_with_hash_method = Ok h"
    and "\<And>t. (case cb of None \<Rightarrow> Ok () | Some f \<Rightarrow> f t) = Ok ()"
  shows "snd (copy_chunk E c r (Some h) cb) = concat r \<and>
    (if chunk_id_matches E c (concat r)
     then fst (copy_chunk E c r (Some h) cb) = Ok (of_nat (length (concat r)))
     else \<exists>m. fst (copy_chunk E c r (Some h) cb) = Err (VerifyError m))"
proof -
  have "to_hash_method (chunk_type c) = Ok (ch_method h)"
    using assms(1) by (auto simp: and_then_eq_Ok new_with_hash_method_ok)
  then have loop: "copy_chunk_loop c cb r (Some h) [] =
      (Ok (of_nat (length (concat r)), Some (update_from_bytes (concat r) h)), concat r)"
    using copy_chunk_loop_ok [OF assms(2), of "Some h" c r "[]"] by (simp add: reader_bytes_def)
  obtain got where "finalized_id E c (update_from_bytes (concat r) h) = Ok got"
    "got = c \<longleftrightarrow> chunk_id_matches E c (concat r)"
    using finalized_id_matches [OF assms(1)] by blast
  with loop show ?thesis
    by (simp add: copy_chunk_def finalized_id_def)
qed

theorem copy_chunk_verifies_witness:
  "copy_chunk inst_crates \<lparr>chunk_type = Sha256, hash_result = [1, 2]\<rparr> [[1], [2]]
     (Some \<lparr>ch_method = HSha256, ch_length = 0, ch_input = []\<rparr>) None = (Ok 2, [1, 2])"
  using copy_chunk_verifies [of "\<lparr>chunk_type = Sha256, hash_result = [1, 2]\<rparr>"
      "\<lparr>ch_method = HSha256, ch_length = 0, ch_input = []\<rparr>" None inst_crates "[[1], [2]]"]
  by (auto simp: new_with_hash_method_ok chunk_id_matches_def inst_crates_def prod_eq_iff)

end
