(* ===== verification/Chunk_Backend.thy ===== *)
theory Chunk_Backend
  imports Chunk_Hasher
begin

text \<open>
  The storage backend of a named store: the interface \<open>NamedDataStoreBackend\<close>
  (\<open>named_store/src/backend.rs\<close>) and its local file-system implementation \<open>LocalFsBackend\<close>
  (\<open>named_store/src/local_fs_backend.rs\<close>).

  A trait object is the record \<open>backend_ops\<close> of its methods over a state \<open>'f\<close>; a reader that a method
  returns is the bytes it will yield.  The file system is a map from paths to contents.  The
  name of a temporary file ends in a text that \<open>chunk_tmp_path\<close> makes from the process id, the time
  and a counter; the model has the counter in its state and takes the text from a function \<open>sfx\<close>.
  I/O errors other than a missing or an existing file are not modelled, and a method runs without
  another writer in between.

  The locale \<open>chunk_backend\<close> is the contract that the trait documents: a chunk is absent or complete,
  a failed write leaves it absent, writes are idempotent.  It is interpreted on \<open>LocalFsBackend\<close>.
\<close>

section \<open>The interface\<close>

datatype chunk_presence = PNotExist | PCompleted

definition presence_exists :: "chunk_presence \<Rightarrow> bool" where
  "presence_exists p \<longleftrightarrow> p = PCompleted"

record chunk_state_info =
  csi_presence :: chunk_presence
  csi_chunk_size :: u64

definition csi_not_exist :: chunk_state_info where
  "csi_not_exist = \<lparr>csi_presence = PNotExist, csi_chunk_size = 0\<rparr>"

definition csi_completed :: "u64 \<Rightarrow> chunk_state_info" where
  "csi_completed n = \<lparr>csi_presence = PCompleted, csi_chunk_size = n\<rparr>"

datatype chunk_write_outcome = Written | AlreadyExisting

record 'f backend_ops =
  be_get_object :: "obj_id \<Rightarrow> 'f \<Rightarrow> string ndn_result"
  be_put_object :: "obj_id \<Rightarrow> string \<Rightarrow> 'f \<Rightarrow> unit ndn_result \<times> 'f"
  be_chunk_state :: "chunk_id \<Rightarrow> 'f \<Rightarrow> chunk_state_info ndn_result"
  be_open_reader :: "chunk_id \<Rightarrow> u64 \<Rightarrow> 'f \<Rightarrow> (u8 list \<times> u64) ndn_result"
  be_open_writer :: "chunk_id \<Rightarrow> u64 \<Rightarrow> reader \<Rightarrow> 'f \<Rightarrow> chunk_write_outcome ndn_result \<times> 'f"
  be_remove_object :: "obj_id \<Rightarrow> 'f \<Rightarrow> unit ndn_result \<times> 'f"
  be_remove_chunk :: "chunk_id \<Rightarrow> 'f \<Rightarrow> unit ndn_result \<times> 'f"
  be_is_read_only :: bool

text \<open>The extension methods of \<open>NamedDataStoreBackendExt\<close>.\<close>

definition ext_get_chunk_data :: "'f backend_ops \<Rightarrow> chunk_id \<Rightarrow> 'f \<Rightarrow> u8 list ndn_result" where
  "ext_get_chunk_data B c f = and_then (be_open_reader B c 0 f) (\<lambda>(d, total). Ok d)"

definition ext_put_chunk_bytes ::
  "'f backend_ops \<Rightarrow> chunk_id \<Rightarrow> u8 list \<Rightarrow> 'f \<Rightarrow> chunk_write_outcome ndn_result \<times> 'f" where
  "ext_put_chunk_bytes B c data f = be_open_writer B c (of_nat (length data)) [data] f"

definition ext_have_chunk :: "'f backend_ops \<Rightarrow> chunk_id \<Rightarrow> 'f \<Rightarrow> bool ndn_result" where
  "ext_have_chunk B c f =
     and_then (be_chunk_state B c f) (\<lambda>st. Ok (presence_exists (csi_presence st)))"

text \<open>
  The contract.  \<open>chunk_of\<close> is the abstract state: the bytes of each complete chunk.  It speaks of the
  identifiers in \<open>dom\<close>; \<open>same\<close> tells which of them name the same stored chunk.
\<close>

locale chunk_backend =
  fixes B :: "'f backend_ops"
    and chunk_of :: "'f \<Rightarrow> chunk_id \<Rightarrow> u8 list option"
    and dom :: "chunk_id \<Rightarrow> bool"
    and same :: "chunk_id \<Rightarrow> chunk_id \<Rightarrow> bool"
  assumes two_states: "be_chunk_state B c f =
      Ok (case chunk_of f c of None \<Rightarrow> csi_not_exist | Some d \<Rightarrow> csi_completed (of_nat (length d)))"
    and read_missing: "chunk_of f c = None \<Longrightarrow> \<exists>m. be_open_reader B c off f = Err (NotFound m)"
    and read_beyond: "chunk_of f c = Some d \<Longrightarrow> of_nat (length d) < off \<Longrightarrow>
      \<exists>m. be_open_reader B c off f = Err (OffsetTooLarge m)"
    and read_found: "chunk_of f c = Some d \<Longrightarrow> length d < 2 ^ 64 \<Longrightarrow> off \<le> of_nat (length d) \<Longrightarrow>
      be_open_reader B c off f = Ok (drop (unat off) d, of_nat (length d))"
    and write_written: "be_open_writer B c n rd f = (Ok Written, f') \<Longrightarrow>
      chunk_of f c = None \<and> length (reader_bytes rd) = unat n \<and> chunk_of f' c = Some (reader_bytes rd)"
    and write_existing: "be_open_writer B c n rd f = (Ok AlreadyExisting, f') \<Longrightarrow>
      chunk_of f c \<noteq> None \<and> chunk_of f' c = chunk_of f c"
    and write_failed: "be_open_writer B c n rd f = (Err e, f') \<Longrightarrow> dom c \<Longrightarrow> chunk_of f' c = chunk_of f c"
    and write_other: "be_open_writer B c n rd f = (res, f') \<Longrightarrow> dom c2 \<Longrightarrow> \<not> same c c2 \<Longrightarrow>
      chunk_of f' c2 = chunk_of f c2"
    and remove_ok: "be_remove_chunk B c f = (Ok (), f') \<Longrightarrow> chunk_of f' c = None"
    and remove_failed: "be_remove_chunk B c f = (Err e, f') \<Longrightarrow> f' = f"
    and remove_other: "be_remove_chunk B c f = (ures, f') \<Longrightarrow> \<not> same c c2 \<Longrightarrow> chunk_of f' c2 = chunk_of f c2"
begin

text \<open>A byte string that was written reads back, from any offset.\<close>

lemma written_reads_back:
  assumes "ext_put_chunk_bytes B c data f = (Ok Written, f')" and "unat off \<le> length data"
    and "length data < 2 ^ 64"
  shows "be_open_reader B c off f' = Ok (drop (unat off) data, of_nat (length data))"
    and "ext_get_chunk_data B c f' = Ok data" and "ext_have_chunk B c f' = Ok True"
proof -
  have d: "chunk_of f' c = Some data"
    using write_written [of c _ "[data]" f f'] assms(1)
    by (simp add: ext_put_chunk_bytes_def reader_bytes_def)
  have len: "unat (of_nat (length data) :: u64) = length data"
    using assms(3) by (simp add: unat_of_nat take_bit_nat_eq_self_iff)
  then have "off \<le> of_nat (length data)" using assms(2) by (simp add: word_le_nat_alt)
  from read_found [OF d assms(3) this] show "be_open_reader B c off f' = Ok (drop (unat off) data, of_nat (length data))" .
  from read_found [OF d assms(3), of 0] show "ext_get_chunk_data B c f' = Ok data"
    by (simp add: ext_get_chunk_data_def)
  show "ext_have_chunk B c f' = Ok True"
    by (simp add: ext_have_chunk_def two_states d csi_completed_def presence_exists_def)
qed

text \<open>Writing the same chunk again changes nothing, whatever the source yields.\<close>

lemma rewrite_idempotent:
  assumes "be_open_writer B c n rd f = (Ok Written, f1)" and "be_open_writer B c m rd' f1 = (Ok res, f2)"
  shows "res = AlreadyExisting" and "chunk_of f2 c = Some (reader_bytes rd)"
proof -
  have w: "chunk_of f1 c = Some (reader_bytes rd)" using write_written [OF assms(1)] by simp
  show "res = AlreadyExisting"
    using write_written [of c m rd' f1 f2] assms(2) w by (cases res) auto
  then show "chunk_of f2 c = Some (reader_bytes rd)"
    using write_existing [of c m rd' f1 f2] assms(2) w by simp
qed

lemma remove_then_missing:
  assumes "be_remove_chunk B c f = (Ok (), f')"
  shows "ext_have_chunk B c f' = Ok False" and "\<exists>m. be_open_reader B c off f' = Err (NotFound m)"
  using remove_ok [OF assms]
  by (simp_all add: ext_have_chunk_def two_states csi_not_exist_def presence_exists_def read_missing)

end

section \<open>\<open>LocalFsBackend\<close>\<close>

type_synonym files = "string \<rightharpoonup> u8 list"

record local_fs =
  lf_chunk_dir :: string
  lf_object_dir :: string
  lf_read_only :: bool

record lf_state =
  lf_files :: files
  lf_counter :: nat

definition local_fs_new :: "string \<Rightarrow> bool \<Rightarrow> local_fs" where
  "local_fs_new root ro =
     \<lparr>lf_chunk_dir = root @ ''/chunks'', lf_object_dir = root @ ''/objects'', lf_read_only = ro\<rparr>"

definition lf_ensure_writable :: "local_fs \<Rightarrow> unit ndn_result" where
  "lf_ensure_writable lf =
     (if lf_read_only lf then Err (PermissionDenied ''local fs backend is read-only'') else Ok ())"

definition path_in :: "string \<Rightarrow> string \<Rightarrow> string" where
  "path_in dir name = dir @ ''/'' @ take 2 name @ ''/'' @ name"

definition chunk_final_path :: "'j ext_crates \<Rightarrow> local_fs \<Rightarrow> chunk_id \<Rightarrow> string" where
  "chunk_final_path E lf c = path_in (lf_chunk_dir lf) (obj_id_to_filename E (chunk_to_obj_id c))"

definition chunk_tmp_path :: "'j ext_crates \<Rightarrow> (nat \<Rightarrow> string) \<Rightarrow> local_fs \<Rightarrow> chunk_id \<Rightarrow> nat \<Rightarrow> string" where
  "chunk_tmp_path E sfx lf c n = chunk_final_path E lf c @ ''.tmp.'' @ sfx n"

definition object_path :: "'j ext_crates \<Rightarrow> local_fs \<Rightarrow> obj_id \<Rightarrow> string" where
  "object_path E lf oid = path_in (lf_object_dir lf) (obj_id_to_filename E oid)"

text \<open>\<open>Path::file_stem\<close> of a name with a dot; a leading dot does not start an extension.\<close>

definition file_stem :: "string \<Rightarrow> string" where
  "file_stem name =
     (case rev (dropWhile (\<lambda>x. x \<noteq> CHR ''.'') (rev name)) of
        [] \<Rightarrow> name
      | pre \<Rightarrow> if length pre = 1 then name else butlast pre)"

definition object_tmp_path :: "'j ext_crates \<Rightarrow> (nat \<Rightarrow> string) \<Rightarrow> local_fs \<Rightarrow> obj_id \<Rightarrow> nat \<Rightarrow> string" where
  "object_tmp_path E sfx lf oid n =
     (let name = obj_id_to_filename E oid
      in lf_object_dir lf @ ''/'' @ take 2 name @ ''/'' @ file_stem name @ ''.tmp.'' @ sfx n)"

definition COPY_BUF_SIZE :: nat where
  "COPY_BUF_SIZE = 64 * 1024"

function copy_loop ::
  "nat \<Rightarrow> reader \<Rightarrow> chunk_hasher \<Rightarrow> u8 list \<Rightarrow> (reader \<times> chunk_hasher \<times> u8 list) ndn_result" where
  "copy_loop remaining rd h tmp =
     (if remaining = 0 then Ok (rd, h, tmp)
      else (case reader_read (min remaining COPY_BUF_SIZE) rd of (d, rd') \<Rightarrow>
              if d = [] then Err (IoError ''source EOF before '')
              else copy_loop (remaining - length d) rd' (update_from_bytes d h) (tmp @ d)))"
  by pat_completeness auto
termination
  by (relation "measure (\<lambda>(n, rd, h, tmp). length (reader_bytes rd))") (auto dest: reader_read_size [OF sym])

declare copy_loop.simps [simp del]

definition copy_and_hash ::
  "reader \<Rightarrow> chunk_hasher \<Rightarrow> u64 \<Rightarrow> (chunk_hasher \<times> u8 list) ndn_result" where
  "copy_and_hash rd h chunk_size =
     and_then (copy_loop (unat chunk_size) rd h [])
       (\<lambda>(rd', h', tmp).
          if fst (reader_read 1 rd') \<noteq> [] then Err (IoError ''source longer than declared chunk_size '')
          else Ok (h', tmp))"

definition verify_hash :: "'j ext_crates \<Rightarrow> chunk_hasher \<Rightarrow> chunk_id \<Rightarrow> unit ndn_result" where
  "verify_hash E h c =
     and_then (if chunk_type_is_mix (chunk_type c) then finalize_mix_chunk_id E h
               else ok_or (finalize_chunk_id E h) (Internal ''unwrap on Err''))
       (\<lambda>got. if got \<noteq> c then Err (VerifyError ''chunk hash mismatch: expected '') else Ok ())"

definition lf_get_object :: "'j ext_crates \<Rightarrow> local_fs \<Rightarrow> obj_id \<Rightarrow> lf_state \<Rightarrow> string ndn_result" where
  "lf_get_object E lf oid f =
     (if is_chunk oid then Err (InvalidObjType (obj_id_to_string E oid))
      else (case lf_files f (object_path E lf oid) of
              None \<Rightarrow> Err (NotFound (obj_id_to_string E oid))
            | Some bs \<Rightarrow> ok_or (string_from_utf8 bs) (IoError ''read object '')))"

definition lf_put_object ::
  "'j ext_crates \<Rightarrow> (nat \<Rightarrow> string) \<Rightarrow> local_fs \<Rightarrow> obj_id \<Rightarrow> string \<Rightarrow> lf_state \<Rightarrow> unit ndn_result \<times> lf_state" where
  "lf_put_object E sfx lf oid s f =
     (case lf_ensure_writable lf of Inl e \<Rightarrow> (Err e, f)
      | Inr _ \<Rightarrow>
          if is_chunk oid then (Err (InvalidObjType (obj_id_to_string E oid)), f)
          else (Ok (), f\<lparr>lf_files := (lf_files f)(object_tmp_path E sfx lf oid (lf_counter f) := None,
                                                   object_path E lf oid \<mapsto> as_bytes s),
                         lf_counter := Suc (lf_counter f)\<rparr>))"

definition lf_remove_object :: "'j ext_crates \<Rightarrow> local_fs \<Rightarrow> obj_id \<Rightarrow> lf_state \<Rightarrow> unit ndn_result \<times> lf_state" where
  "lf_remove_object E lf oid f =
     (case lf_ensure_writable lf of Inl e \<Rightarrow> (Err e, f)
      | Inr _ \<Rightarrow> (Ok (), f\<lparr>lf_files := (lf_files f)(object_path E lf oid := None)\<rparr>))"

definition lf_get_chunk_state :: "'j ext_crates \<Rightarrow> local_fs \<Rightarrow> chunk_id \<Rightarrow> lf_state \<Rightarrow> chunk_state_info ndn_result" where
  "lf_get_chunk_state E lf c f =
     (case lf_files f (chunk_final_path E lf c) of
        Some d \<Rightarrow> Ok \<lparr>csi_presence = PCompleted, csi_chunk_size = of_nat (length d)\<rparr>
      | None \<Rightarrow> Ok csi_not_exist)"

definition lf_open_chunk_reader ::
  "'j ext_crates \<Rightarrow> local_fs \<Rightarrow> chunk_id \<Rightarrow> u64 \<Rightarrow> lf_state \<Rightarrow> (u8 list \<times> u64) ndn_result" where
  "lf_open_chunk_reader E lf c off f =
     (case lf_files f (chunk_final_path E lf c) of
        None \<Rightarrow> Err (NotFound (chunk_to_string E c))
      | Some d \<Rightarrow>
          (let total = of_nat (length d)
           in if total < off then Err (OffsetTooLarge (chunk_to_string E c))
              else Ok (take (unat (total - off)) (drop (unat off) d), total)))"

definition lf_open_chunk_writer ::
  "'j ext_crates \<Rightarrow> (nat \<Rightarrow> string) \<Rightarrow> local_fs \<Rightarrow> chunk_id \<Rightarrow> u64 \<Rightarrow> reader \<Rightarrow> lf_state \<Rightarrow>
   chunk_write_outcome ndn_result \<times> lf_state" where
  "lf_open_chunk_writer E sfx lf c chunk_size source f =
     (case lf_ensure_writable lf of Inl e \<Rightarrow> (Err e, f)
      | Inr _ \<Rightarrow>
        (let final = chunk_final_path E lf c in
         if lf_files f final \<noteq> None then (Ok AlreadyExisting, f)
         else
           (let tmp = chunk_tmp_path E sfx lf c (lf_counter f);
                f1 = f\<lparr>lf_counter := Suc (lf_counter f)\<rparr>
            in if lf_files f1 tmp \<noteq> None then (Err (IoError ''create chunk tmp ''), f1)
               else
                 (let opened = f1\<lparr>lf_files := (lf_files f1)(tmp \<mapsto> [])\<rparr>;
                      cleaned = f1\<lparr>lf_files := (lf_files f1)(tmp := None)\<rparr>
                  in case and_then (to_hash_method (chunk_type c)) new_with_hash_method of
                       Inl e \<Rightarrow> (Err e, opened)
                     | Inr h \<Rightarrow>
                         (case copy_and_hash source h chunk_size of
                            Inl e \<Rightarrow> (Err e, cleaned)
                          | Inr (h', data) \<Rightarrow>
                              (case verify_hash E h' c of
                                 Inl e \<Rightarrow> (Err e, cleaned)
                               | Inr _ \<Rightarrow>
                                   if lf_files opened final \<noteq> None then (Ok AlreadyExisting, cleaned)
                                   else (Ok Written,
                                         f1\<lparr>lf_files := (lf_files f1)(tmp := None, final \<mapsto> data)\<rparr>)))))))"

definition lf_remove_chunk :: "'j ext_crates \<Rightarrow> local_fs \<Rightarrow> chunk_id \<Rightarrow> lf_state \<Rightarrow> unit ndn_result \<times> lf_state" where
  "lf_remove_chunk E lf c f =
     (case lf_ensure_writable lf of Inl e \<Rightarrow> (Err e, f)
      | Inr _ \<Rightarrow> (Ok (), f\<lparr>lf_files := (lf_files f)(chunk_final_path E lf c := None)\<rparr>))"

definition lf_is_read_only :: "local_fs \<Rightarrow> bool" where
  "lf_is_read_only lf = lf_read_only lf"

definition local_fs_ops :: "'j ext_crates \<Rightarrow> (nat \<Rightarrow> string) \<Rightarrow> local_fs \<Rightarrow> lf_state backend_ops" where
  "local_fs_ops E sfx lf = \<lparr>
     be_get_object = lf_get_object E lf,
     be_put_object = lf_put_object E sfx lf,
     be_chunk_state = lf_get_chunk_state E lf,
     be_open_reader = lf_open_chunk_reader E lf,
     be_open_writer = lf_open_chunk_writer E sfx lf,
     be_remove_object = lf_remove_object E lf,
     be_remove_chunk = lf_remove_chunk E lf,
     be_is_read_only = lf_is_read_only lf\<rparr>"

section \<open>The implementation meets the contract\<close>

lemma copy_loop_short:
  "length (reader_bytes rd) < n \<Longrightarrow> copy_loop n rd h tmp = Err (IoError ''source EOF before '')"
proof (induction n rd h tmp rule: copy_loop.induct)
  case (1 n rd h tmp)
  obtain d rd' where d: "reader_read (min n COPY_BUF_SIZE) rd = (d, rd')" by (cases "reader_read (min n COPY_BUF_SIZE) rd")
  have pos: "0 < min n COPY_BUF_SIZE" using 1 by (auto simp: COPY_BUF_SIZE_def)
  have "length (reader_bytes rd) = length d + length (reader_bytes rd')"
    using reader_read_take [OF d pos] by (metis length_append)
  with 1 d show ?case
    by (subst copy_loop.simps) auto
qed

lemma copy_loop_enough:
  "n \<le> length (reader_bytes rd) \<Longrightarrow> \<exists>rd'. reader_bytes rd' = drop n (reader_bytes rd) \<and>
     copy_loop n rd h tmp = Ok (rd', update_from_bytes (take n (reader_bytes rd)) h, tmp @ take n (reader_bytes rd))"
proof (induction n rd h tmp rule: copy_loop.induct)
  case (1 n rd h tmp)
  obtain d rd' where d: "reader_read (min n COPY_BUF_SIZE) rd = (d, rd')" by (cases "reader_read (min n COPY_BUF_SIZE) rd")
  show ?case
  proof (cases "n = 0")
    case True
    then show ?thesis by (subst copy_loop.simps) auto
  next
    case False
    then have pos: "0 < min n COPY_BUF_SIZE" by (simp add: COPY_BUF_SIZE_def)
    note tk = reader_read_take [OF d pos]
    have ne: "d \<noteq> []" using tk False 1(2) by auto
    have split: "reader_bytes rd = d @ reader_bytes rd'" "length d \<le> n" using tk by auto
    have "n - length d \<le> length (reader_bytes rd')" using 1(2) split by simp
    with 1(1) [OF False d [symmetric] ne] obtain rd2 where
      "reader_bytes rd2 = drop (n - length d) (reader_bytes rd')"
      "copy_loop (n - length d) rd' (update_from_bytes d h) (tmp @ d) =
         Ok (rd2, update_from_bytes (take (n - length d) (reader_bytes rd')) (update_from_bytes d h),
             (tmp @ d) @ take (n - length d) (reader_bytes rd'))" by blast
    with False d ne split show ?thesis
      by (subst copy_loop.simps) (auto simp: update_from_bytes_append)
  qed
qed

text \<open>Copying succeeds exactly for a source of the declared length.\<close>

lemma copy_and_hash_spec:
  "copy_and_hash rd h n =
     (if length (reader_bytes rd) < unat n then Err (IoError ''source EOF before '')
      else if unat n < length (reader_bytes rd) then Err (IoError ''source longer than declared chunk_size '')
      else Ok (update_from_bytes (reader_bytes rd) h, reader_bytes rd))"
proof (cases "length (reader_bytes rd) < unat n")
  case True
  then show ?thesis by (simp add: copy_and_hash_def copy_loop_short)
next
  case False
  then obtain rd' where rd': "reader_bytes rd' = drop (unat n) (reader_bytes rd)"
    "copy_loop (unat n) rd h [] = Ok (rd', update_from_bytes (take (unat n) (reader_bytes rd)) h, take (unat n) (reader_bytes rd))"
    using copy_loop_enough [of "unat n" rd h "[]"] by auto
  obtain d r where d: "reader_read 1 rd' = (d, r)" by (cases "reader_read 1 rd'")
  have "d = [] \<longleftrightarrow> reader_bytes rd' = []"
    using reader_read_take [OF d] by auto
  with False rd' d show ?thesis
    by (auto simp: copy_and_hash_def)
qed

text \<open>The name of a complete chunk is not the name of a temporary file.\<close>

definition not_tmp_name :: "'j ext_crates \<Rightarrow> (nat \<Rightarrow> string) \<Rightarrow> local_fs \<Rightarrow> chunk_id \<Rightarrow> bool" where
  "not_tmp_name E sfx lf c \<longleftrightarrow> (\<forall>c' n. chunk_final_path E lf c \<noteq> chunk_tmp_path E sfx lf c' n)"

lemma tmp_ne_final: "chunk_tmp_path E sfx lf c n \<noteq> chunk_final_path E lf c"
  by (simp add: chunk_tmp_path_def)

text \<open>All outcomes of a write.\<close>

lemma lf_writer_cases:
  assumes "lf_open_chunk_writer E sfx lf c n rd f = (res, f')"
  obtains (existing) "res = Ok AlreadyExisting" "f' = f" "lf_files f (chunk_final_path E lf c) \<noteq> None"
    | (failed) e where "res = Err e" "lf_files f' = lf_files f"
    | (leaked) e where "res = Err e" "and_then (to_hash_method (chunk_type c)) new_with_hash_method = Err e"
        "lf_files f' = (lf_files f)(chunk_tmp_path E sfx lf c (lf_counter f) \<mapsto> [])"
    | (written) "res = Ok Written" "lf_files f (chunk_final_path E lf c) = None"
        "length (reader_bytes rd) = unat n"
        "lf_files f' = (lf_files f)(chunk_final_path E lf c \<mapsto> reader_bytes rd)"
proof (cases "lf_read_only lf \<or> lf_files f (chunk_final_path E lf c) \<noteq> None \<or>
    lf_files f (chunk_tmp_path E sfx lf c (lf_counter f)) \<noteq> None")
  case True
  with assms existing failed show ?thesis
    by (auto simp: lf_open_chunk_writer_def lf_ensure_writable_def Let_def split: if_splits)
next
  case False
  let ?tmp = "chunk_tmp_path E sfx lf c (lf_counter f)" and ?final = "chunk_final_path E lf c"
  have clean: "(lf_files f)(?tmp := None) = lf_files f"
    using False by (auto simp: fun_eq_iff)
  note ne = tmp_ne_final [of E sfx lf c "lf_counter f"]
  show ?thesis
  proof (cases "and_then (to_hash_method (chunk_type c)) new_with_hash_method")
    case (Inl e)
    with False assms leaked show ?thesis
      by (auto simp: lf_open_chunk_writer_def lf_ensure_writable_def Let_def)
  next
    case (Inr h)
    show ?thesis
    proof (cases "copy_and_hash rd h n")
      case (Inl e)
      with Inr False assms failed clean show ?thesis
        by (auto simp: lf_open_chunk_writer_def lf_ensure_writable_def Let_def)
    next
      case copied: (Inr a)
      obtain h' data where a: "a = (h', data)" by (cases a)
      have data: "length (reader_bytes rd) = unat n" "data = reader_bytes rd"
        using copied by (auto simp: copy_and_hash_spec a split: if_splits)
      show ?thesis
      proof (cases "verify_hash E h' c")
        case (Inl e)
        with Inr copied a False assms failed clean show ?thesis
          by (auto simp: lf_open_chunk_writer_def lf_ensure_writable_def Let_def)
      next
        case verified: (Inr u)
        with Inr copied a False assms written data clean ne show ?thesis
          by (auto simp: lf_open_chunk_writer_def lf_ensure_writable_def Let_def split: if_splits)
      qed
    qed
  qed
qed

interpretation local_fs: chunk_backend "local_fs_ops E sfx lf" "\<lambda>f c. lf_files f (chunk_final_path E lf c)"
  "not_tmp_name E sfx lf" "\<lambda>c d. chunk_final_path E lf c = chunk_final_path E lf d" for E sfx lf
proof
  fix c f off d and n :: u64 and rd f' and e :: ndn_error and c2 res and ures :: "unit ndn_result"
  let ?of = "\<lambda>f c. lf_files f (chunk_final_path E lf c)" and ?B = "local_fs_ops E sfx lf"
  show "be_chunk_state ?B c f = Ok (case ?of f c of None \<Rightarrow> csi_not_exist | Some d \<Rightarrow> csi_completed (of_nat (length d)))"
    by (simp add: local_fs_ops_def lf_get_chunk_state_def csi_completed_def split: option.splits)
  show "?of f c = None \<Longrightarrow> \<exists>m. be_open_reader ?B c off f = Err (NotFound m)"
    by (simp add: local_fs_ops_def lf_open_chunk_reader_def)
  show "?of f c = Some d \<Longrightarrow> of_nat (length d) < off \<Longrightarrow> \<exists>m. be_open_reader ?B c off f = Err (OffsetTooLarge m)"
    by (simp add: local_fs_ops_def lf_open_chunk_reader_def Let_def)
  show "be_open_reader ?B c off f = Ok (drop (unat off) d, of_nat (length d))"
    if "?of f c = Some d" "length d < 2 ^ 64" "off \<le> of_nat (length d)"
  proof -
    have "unat (of_nat (length d) :: u64) = length d"
      using that(2) by (simp add: unat_of_nat take_bit_nat_eq_self_iff)
    then have "unat (of_nat (length d) - off) = length d - unat off"
      using that(3) by (simp add: unat_sub)
    with that show ?thesis
      by (auto simp: local_fs_ops_def lf_open_chunk_reader_def Let_def)
  qed
  show "be_remove_chunk ?B c f = (Ok (), f') \<Longrightarrow> ?of f' c = None"
    and "be_remove_chunk ?B c f = (Err e, f') \<Longrightarrow> f' = f"
    and "be_remove_chunk ?B c f = (ures, f') \<Longrightarrow> chunk_final_path E lf c \<noteq> chunk_final_path E lf c2 \<Longrightarrow> ?of f' c2 = ?of f c2"
    by (auto simp: local_fs_ops_def lf_remove_chunk_def split: sum.splits)
  have w: "be_open_writer ?B = lf_open_chunk_writer E sfx lf" by (simp add: local_fs_ops_def)
  show "be_open_writer ?B c n rd f = (Ok Written, f') \<Longrightarrow>
      ?of f c = None \<and> length (reader_bytes rd) = unat n \<and> ?of f' c = Some (reader_bytes rd)"
    unfolding w by (erule lf_writer_cases) auto
  show "be_open_writer ?B c n rd f = (Ok AlreadyExisting, f') \<Longrightarrow> ?of f c \<noteq> None \<and> ?of f' c = ?of f c"
    unfolding w by (erule lf_writer_cases) auto
  show "be_open_writer ?B c n rd f = (Err e, f') \<Longrightarrow> not_tmp_name E sfx lf c \<Longrightarrow> ?of f' c = ?of f c"
    unfolding w by (erule lf_writer_cases) (auto simp: not_tmp_name_def)
  show "be_open_writer ?B c n rd f = (res, f') \<Longrightarrow> not_tmp_name E sfx lf c2 \<Longrightarrow>
      chunk_final_path E lf c \<noteq> chunk_final_path E lf c2 \<Longrightarrow> ?of f' c2 = ?of f c2"
    unfolding w by (erule lf_writer_cases) (auto simp: not_tmp_name_def)
qed

section \<open>Integrity of stored chunks\<close>

lemma verify_hash_matches:
  assumes "and_then (to_hash_method (chunk_type c)) new_with_hash_method = Ok h"
  shows "verify_hash E (update_from_bytes d h) c = Ok () \<longleftrightarrow> chunk_id_matches E c d"
  using finalized_id_matches [OF assms, of E d]
  by (auto simp: verify_hash_def finalized_id_def and_then_eq_Ok split: if_splits)

lemma lf_write_atomic_aux:
  assumes "\<not> lf_read_only lf" and "lf_files f (chunk_final_path E lf c) = None"
    and "lf_files f (chunk_tmp_path E sfx lf c (lf_counter f)) = None"
    and "and_then (to_hash_method (chunk_type c)) new_with_hash_method = Ok h"
  shows "case lf_open_chunk_writer E sfx lf c n rd f of (res, f') \<Rightarrow>
    (res = Ok Written \<longleftrightarrow> length (concat rd) = unat n \<and> chunk_id_matches E c (concat rd)) \<and>
    lf_files f' = (if res = Ok Written then (lf_files f)(chunk_final_path E lf c \<mapsto> concat rd) else lf_files f)"
proof -
  let ?tmp = "chunk_tmp_path E sfx lf c (lf_counter f)"
  have clean: "(lf_files f)(?tmp := None) = lf_files f"
    using assms(3) by (auto simp: fun_eq_iff)
  have fin: "((lf_files f)(?tmp \<mapsto> [])) (chunk_final_path E lf c) = None"
    using assms(2) tmp_ne_final [of E sfx lf c "lf_counter f"] by simp
  have v: "verify_hash E (update_from_bytes (reader_bytes rd) h) c = Ok () \<longleftrightarrow> chunk_id_matches E c (reader_bytes rd)"
    by (rule verify_hash_matches [OF assms(4)])
  show ?thesis
  proof (cases "length (reader_bytes rd) = unat n")
    case True
    then have "copy_and_hash rd h n = Ok (update_from_bytes (reader_bytes rd) h, reader_bytes rd)"
      by (simp add: copy_and_hash_spec)
    with True assms v clean fin show ?thesis
      by (cases "verify_hash E (update_from_bytes (reader_bytes rd) h) c")
        (auto simp: lf_open_chunk_writer_def lf_ensure_writable_def Let_def reader_bytes_def)
  next
    case False
    then have "\<exists>e. copy_and_hash rd h n = Err e" by (simp add: copy_and_hash_spec)
    then obtain e where "copy_and_hash rd h n = Err e" ..
    with False assms clean show ?thesis
      by (auto simp: lf_open_chunk_writer_def lf_ensure_writable_def Let_def reader_bytes_def)
  qed
qed

text \<open>\<^bold>\<open>C28.\<close> Writing a chunk to the local file system, in every case.  A read-only backend refuses.  A
  chunk that is there is answered with \<open>AlreadyExisting\<close>, whatever the source holds, and nothing changes.
  A temporary name that is taken is an error and nothing changes.  Otherwise, for a hash method
  without a hasher, the answer is its error and an empty temporary file is left behind; for the other
  methods the write succeeds exactly when the source yields the declared number of bytes and they hash to
  the identifier, however the source is cut into blocks, and then the chunk's file holds these bytes; else
  it is an error and every file is as before.\<close>

theorem lf_write_atomic:
  "case lf_open_chunk_writer E sfx lf c n rd f of (res, f') \<Rightarrow>
    if lf_read_only lf then (\<exists>e. res = Err e) \<and> lf_files f' = lf_files f
    else if lf_files f (chunk_final_path E lf c) \<noteq> None then res = Ok AlreadyExisting \<and> lf_files f' = lf_files f
    else if lf_files f (chunk_tmp_path E sfx lf c (lf_counter f)) \<noteq> None
    then (\<exists>e. res = Err e) \<and> lf_files f' = lf_files f
    else (case and_then (to_hash_method (chunk_type c)) new_with_hash_method of
            Inl e \<Rightarrow> res = Err e \<and> lf_files f' = (lf_files f)(chunk_tmp_path E sfx lf c (lf_counter f) \<mapsto> [])
          | Inr h \<Rightarrow>
              if length (concat rd) = unat n \<and> chunk_id_matches E c (concat rd)
              then res = Ok Written \<and> lf_files f' = (lf_files f)(chunk_final_path E lf c \<mapsto> concat rd)
              else (\<exists>e. res = Err e) \<and> lf_files f' = lf_files f)"
proof -
  obtain res f' where w: "lf_open_chunk_writer E sfx lf c n rd f = (res, f')"
    by (cases "lf_open_chunk_writer E sfx lf c n rd f")
  show ?thesis
  proof (cases "lf_read_only lf \<or> lf_files f (chunk_final_path E lf c) \<noteq> None \<or>
      lf_files f (chunk_tmp_path E sfx lf c (lf_counter f)) \<noteq> None")
    case True
    then show ?thesis by (auto simp: lf_open_chunk_writer_def lf_ensure_writable_def Let_def)
  next
    case False
    show ?thesis
    proof (cases "and_then (to_hash_method (chunk_type c)) new_with_hash_method")
      case (Inl e)
      with False show ?thesis by (auto simp: lf_open_chunk_writer_def lf_ensure_writable_def Let_def)
    next
      case (Inr h)
      have "res \<noteq> Ok AlreadyExisting" using w False by (auto elim!: lf_writer_cases)
      then have "res = Ok Written \<or> (\<exists>e. res = Err e)"
        by (metis chunk_write_outcome.exhaust sum.exhaust)
      with lf_write_atomic_aux [OF _ _ _ Inr, where lf = lf and f = f and E = E and sfx = sfx and n = n and rd = rd]
        False w Inr show ?thesis by auto
    qed
  qed
qed

definition demo_lf :: local_fs where
  "demo_lf = local_fs_new ''/r'' False"

definition demo_chunk :: chunk_id where
  "demo_chunk = \<lparr>chunk_type = Sha256, hash_result = [1, 2]\<rparr>"

definition empty_lf :: lf_state where
  "empty_lf = \<lparr>lf_files = (\<lambda>_. None), lf_counter = 0\<rparr>"

theorem lf_write_atomic_witness:
  "fst (lf_open_chunk_writer inst_crates (\<lambda>_. ''1'') demo_lf demo_chunk 2 [[1], [2]] empty_lf) = Ok Written \<and>
   fst (lf_open_chunk_writer inst_crates (\<lambda>_. ''1'') demo_lf demo_chunk 2 [[1], [3]] empty_lf) \<noteq> Ok Written"
proof -
  have h: "and_then (to_hash_method (chunk_type demo_chunk)) new_with_hash_method =
      Ok \<lparr>ch_method = HSha256, ch_length = 0, ch_input = []\<rparr>"
    by (simp add: demo_chunk_def new_with_hash_method_def create_hasher_def)
  have m: "chunk_id_matches inst_crates demo_chunk [1, 2]" "\<not> chunk_id_matches inst_crates demo_chunk [1, 3]"
    by (simp_all add: chunk_id_matches_def demo_chunk_def inst_crates_def)
  note spec = lf_write_atomic [where lf = demo_lf and c = demo_chunk and f = empty_lf and E = inst_crates
      and sfx = "\<lambda>_. ''1''" and n = 2]
  show ?thesis
    using spec [where rd = "[[1], [2]]"] spec [where rd = "[[1], [3]]"] m h
    by (auto simp: demo_lf_def local_fs_new_def empty_lf_def split: prod.splits)
qed

section \<open>Every stored chunk matches its identifier\<close>

inductive lf_step :: "'j ext_crates \<Rightarrow> (nat \<Rightarrow> string) \<Rightarrow> local_fs \<Rightarrow> lf_state \<Rightarrow> lf_state \<Rightarrow> bool" for E sfx lf where
  chunk_written: "lf_step E sfx lf f (snd (lf_open_chunk_writer E sfx lf c n rd f))"
| chunk_removed: "lf_step E sfx lf f (snd (lf_remove_chunk E lf c f))"
| object_put: "lf_step E sfx lf f (snd (lf_put_object E sfx lf oid s f))"
| object_removed: "lf_step E sfx lf f (snd (lf_remove_object E lf oid f))"

inductive lf_reachable :: "'j ext_crates \<Rightarrow> (nat \<Rightarrow> string) \<Rightarrow> local_fs \<Rightarrow> lf_state \<Rightarrow> bool" for E sfx lf where
  init: "lf_reachable E sfx lf empty_lf"
| step: "lf_reachable E sfx lf f \<Longrightarrow> lf_step E sfx lf f f' \<Longrightarrow> lf_reachable E sfx lf f'"

definition known_chunk :: "chunk_id \<Rightarrow> bool" where
  "known_chunk c \<longleftrightarrow> (case chunk_type c of UnknownChunkType _ \<Rightarrow> False | _ \<Rightarrow> True)"

lemma path_in_inject:
  assumes "path_in dir n = path_in dir n'"
  shows "n = n'"
proof -
  have eq: "take 2 n @ ''/'' @ n = take 2 n' @ ''/'' @ n'" using assms by (simp add: path_in_def)
  have "length (take 2 n @ ''/'' @ n) = length (take 2 n' @ ''/'' @ n')" by (simp only: eq)
  then have "length n = length n'" by (auto simp: min_def split: if_splits)
  with eq show ?thesis by simp
qed

lemma hex_no_dot:
  assumes "hex_laws E"
  shows "CHR ''.'' \<notin> set (hex_encode E bs)"
proof
  assume "CHR ''.'' \<in> set (hex_encode E bs)"
  with assms have "CHR ''.'' \<in> set ''0123456789abcdef''" unfolding hex_laws_def by blast
  then show False by simp
qed

lemma filename_inject:
  assumes "hex_laws E" and "obj_id_to_filename E a = obj_id_to_filename E b"
  shows "a = b"
proof -
  have cut: "takeWhile (\<lambda>x. x \<noteq> CHR ''.'') (obj_id_to_filename E o') = hex_encode E (obj_hash o')" for o'
    unfolding obj_id_to_filename_def
    by (subst takeWhile_append2) (use hex_no_dot [OF assms(1)] in auto)
  have h: "hex_encode E (obj_hash a) = hex_encode E (obj_hash b)"
    using assms(2) cut by metis
  then have "obj_type a = obj_type b" using assms(2) by (simp add: obj_id_to_filename_def)
  moreover have "obj_hash a = obj_hash b"
    using h assms(1) unfolding hex_laws_def by (metis option.inject)
  ultimately show ?thesis by simp
qed

lemma known_type_inject:
  assumes "known_chunk c" and "known_chunk d" and "chunk_to_obj_id c = chunk_to_obj_id d"
  shows "c = d"
  using assms
  by (cases "chunk_type c"; cases "chunk_type d") (auto simp: chunk_to_obj_id_def known_chunk_def)

lemma known_type_no_dot: "known_chunk c \<Longrightarrow> CHR ''.'' \<notin> set (chunk_type_to_string (chunk_type c))"
  by (cases "chunk_type c") (auto simp: known_chunk_def)

lemma count_take_le: "count_list (take n xs) x \<le> count_list xs x"
  by (metis append_take_drop_id count_list_append le_add1)

lemma known_not_tmp:
  assumes "hex_laws E" and "known_chunk c"
  shows "not_tmp_name E sfx lf c"
  unfolding not_tmp_name_def
proof (intro allI notI)
  fix c' n
  let ?nm = "\<lambda>c. obj_id_to_filename E (chunk_to_obj_id c)" and ?dot = "CHR ''.''"
  assume "chunk_final_path E lf c = chunk_tmp_path E sfx lf c' n"
  then have "take 2 (?nm c) @ ''/'' @ ?nm c = take 2 (?nm c') @ ''/'' @ ?nm c' @ ''.tmp.'' @ sfx n"
    by (simp add: chunk_final_path_def chunk_tmp_path_def path_in_def)
  then have "count_list (take 2 (?nm c) @ ''/'' @ ?nm c) ?dot =
      count_list (take 2 (?nm c') @ ''/'' @ ?nm c' @ ''.tmp.'' @ sfx n) ?dot" by (rule arg_cong)
  moreover have "count_list (?nm c) ?dot = 1"
    using hex_no_dot [OF assms(1)] known_type_no_dot [OF assms(2)]
    by (simp add: obj_id_to_filename_def chunk_to_obj_id_def count_list_append)
  moreover have "1 \<le> count_list (?nm c') ?dot"
    by (simp add: obj_id_to_filename_def count_list_append)
  moreover have "count_list (take 2 (?nm c)) ?dot \<le> count_list (?nm c) ?dot" by (rule count_take_le)
  ultimately show False by (simp add: count_list_append)
qed

lemma final_path_inject:
  assumes "hex_laws E" and "known_chunk c" and "known_chunk d" and "chunk_final_path E lf c = chunk_final_path E lf d"
  shows "c = d"
  using assms path_in_inject filename_inject known_type_inject unfolding chunk_final_path_def by metis

lemma matches_known: "chunk_id_matches E c d \<Longrightarrow> known_chunk c"
  by (cases "chunk_type c") (auto simp: chunk_id_matches_def known_chunk_def)

lemma lf_written_matches:
  assumes "lf_open_chunk_writer E sfx lf c n rd f = (Ok Written, f')"
  shows "chunk_id_matches E c (reader_bytes rd)"
proof -
  let ?tmp = "chunk_tmp_path E sfx lf c (lf_counter f)"
  obtain h where h: "and_then (to_hash_method (chunk_type c)) new_with_hash_method = Ok h"
    and w: "\<not> lf_read_only lf" "lf_files f (chunk_final_path E lf c) = None" "lf_files f ?tmp = None"
    using assms
    by (auto simp: lf_open_chunk_writer_def lf_ensure_writable_def Let_def split: if_splits sum.splits)
  from lf_write_atomic_aux [OF w h, where n = n and rd = rd] assms show ?thesis by (simp add: reader_bytes_def)
qed

lemma object_path_ne_chunk_path:
  "object_path E (local_fs_new root ro) oid \<noteq> chunk_final_path E (local_fs_new root ro) c"
  and object_tmp_path_ne_chunk_path:
  "object_tmp_path E sfx (local_fs_new root ro) oid n \<noteq> chunk_final_path E (local_fs_new root ro) c"
  by (simp_all add: object_path_def object_tmp_path_def chunk_final_path_def path_in_def local_fs_new_def Let_def)

definition chunks_intact :: "'j ext_crates \<Rightarrow> local_fs \<Rightarrow> lf_state \<Rightarrow> bool" where
  "chunks_intact E lf f \<longleftrightarrow>
     (\<forall>c d. known_chunk c \<longrightarrow> lf_files f (chunk_final_path E lf c) = Some d \<longrightarrow> chunk_id_matches E c d)"

lemma write_keeps_intact:
  assumes "hex_laws E" and "chunks_intact E lf f"
  shows "chunks_intact E lf (snd (lf_open_chunk_writer E sfx lf c n rd f))"
proof -
  obtain res f' where w: "lf_open_chunk_writer E sfx lf c n rd f = (res, f')"
    by (cases "lf_open_chunk_writer E sfx lf c n rd f")
  from w show ?thesis
  proof (cases rule: lf_writer_cases)
    case (leaked e)
    with assms w known_not_tmp [OF assms(1), of _ sfx lf] show ?thesis
      by (auto simp: chunks_intact_def not_tmp_name_def)
  next
    case written
    have m: "chunk_id_matches E c (reader_bytes rd)" using lf_written_matches w written(1) by simp
    show ?thesis
      using written assms(2) m w final_path_inject [OF assms(1) _ matches_known [OF m]]
      by (auto simp: chunks_intact_def split: if_splits)
  qed (use assms w in \<open>auto simp: chunks_intact_def\<close>)
qed

text \<open>\<^bold>\<open>C23.\<close> The local file system is self-verifying: whatever chunks and objects are written and removed,
  with whatever declared sizes and contents (truncated, oversized and forged sources included), the
  bytes found under the file name of a chunk hash to its identifier.\<close>

theorem lf_chunks_intact:
  assumes "lf_reachable E sfx (local_fs_new root ro) f" and "hex_laws E" and "known_chunk c"
    and "lf_files f (chunk_final_path E (local_fs_new root ro) c) = Some d"
  shows "chunk_id_matches E c d"
proof -
  let ?lf = "local_fs_new root ro"
  from assms(1) have "chunks_intact E ?lf f"
  proof induction
    case init
    show ?case by (simp add: chunks_intact_def empty_lf_def)
  next
    case (step f f')
    from step.hyps(2) show ?case
    proof cases
      case (chunk_written c n rd)
      with write_keeps_intact [OF assms(2) step.IH] show ?thesis by simp
    next
      case (chunk_removed c)
      with step.IH show ?thesis
        by (auto simp: chunks_intact_def lf_remove_chunk_def split: sum.splits)
    next
      case (object_put oid s)
      with step.IH object_path_ne_chunk_path [of E root ro oid, symmetric]
        object_tmp_path_ne_chunk_path [of E sfx root ro oid, symmetric] show ?thesis
        by (auto simp: chunks_intact_def lf_put_object_def split: sum.splits)
    next
      case (object_removed oid)
      with step.IH object_path_ne_chunk_path [of E root ro oid, symmetric] show ?thesis
        by (auto simp: chunks_intact_def lf_remove_object_def split: sum.splits)
    qed
  qed
  with assms(3,4) show ?thesis by (simp add: chunks_intact_def)
qed

theorem lf_chunks_intact_witness:
  "\<exists>f. lf_reachable inst_crates (\<lambda>_. ''1'') demo_lf f \<and>
     lf_files f (chunk_final_path inst_crates demo_lf demo_chunk) = Some [1, 2] \<and>
     chunk_id_matches inst_crates demo_chunk [1, 2]"
proof -
  let ?f = "snd (lf_open_chunk_writer inst_crates (\<lambda>_. ''1'') demo_lf demo_chunk 2 [[1], [2]] empty_lf)"
  have r: "lf_reachable inst_crates (\<lambda>_. ''1'') (local_fs_new ''/r'' False) ?f"
    unfolding demo_lf_def by (rule lf_reachable.step [OF lf_reachable.init lf_step.chunk_written])
  have h: "and_then (to_hash_method (chunk_type demo_chunk)) new_with_hash_method =
      Ok \<lparr>ch_method = HSha256, ch_length = 0, ch_input = []\<rparr>"
    by (simp add: demo_chunk_def new_with_hash_method_def create_hasher_def)
  have s: "lf_files ?f (chunk_final_path inst_crates demo_lf demo_chunk) = Some [1, 2]"
    using lf_write_atomic_aux [OF _ _ _ h, where lf = demo_lf and f = empty_lf and E = inst_crates
        and sfx = "\<lambda>_. ''1''" and n = 2 and rd = "[[1], [2]]"]
    by (auto simp: demo_lf_def local_fs_new_def empty_lf_def chunk_id_matches_def demo_chunk_def
        inst_crates_def split: prod.splits)
  have k: "known_chunk demo_chunk" by (simp add: known_chunk_def demo_chunk_def)
  have "chunk_id_matches inst_crates demo_chunk [1, 2]"
    using s by (intro lf_chunks_intact [OF r inst_hex_laws k]) (simp add: demo_lf_def)
  with r s show ?thesis unfolding demo_lf_def by blast
qed

text \<open>The one failure that is not rolled back: for a chunk type without a supported hasher the
  error returns after the temporary file was created, and the empty file stays.\<close>

theorem lf_unsupported_leaks_tmp:
  assumes "\<not> lf_read_only lf" and "lf_files f (chunk_final_path E lf c) = None"
    and "lf_files f (chunk_tmp_path E sfx lf c (lf_counter f)) = None"
    and "and_then (to_hash_method (chunk_type c)) new_with_hash_method = Err e"
  shows "lf_open_chunk_writer E sfx lf c n rd f =
    (Err e, f\<lparr>lf_files := (lf_files f)(chunk_tmp_path E sfx lf c (lf_counter f) \<mapsto> []),
              lf_counter := Suc (lf_counter f)\<rparr>)"
  using assms by (simp add: lf_open_chunk_writer_def lf_ensure_writable_def Let_def)

theorem lf_unsupported_leaks_tmp_witness:
  "\<exists>e. fst (lf_open_chunk_writer inst_crates (\<lambda>_. ''1'') demo_lf
      \<lparr>chunk_type = Blake2s256, hash_result = [1]\<rparr> 1 [[1]] empty_lf) = Err e"
proof -
  obtain e where e: "and_then (to_hash_method Blake2s256) new_with_hash_method = Err e"
    by (simp add: new_with_hash_method_def create_hasher_def)
  show ?thesis
    using lf_unsupported_leaks_tmp [where lf = demo_lf and f = empty_lf and E = inst_crates and e = e
        and c = "\<lparr>chunk_type = Blake2s256, hash_result = [1]\<rparr>" and sfx = "\<lambda>_. ''1''" and n = 1 and rd = "[[1]]"] e
    by (simp add: demo_lf_def local_fs_new_def empty_lf_def)
qed

end
