(* ===== verification/Named_Store.thy ===== *)
theory Named_Store
  imports Lru_Hot_Table Chunk_Backend
begin

text \<open>
  \<open>NamedStore\<close> (\<open>named_store/src/named_store.rs\<close>): objects live in the database, chunk data in a
  backend, and the garbage collector runs over both.  The backend is the record of methods \<open>B\<close> over a
  backend state of any type; \<open>E\<close> is the third-party code, \<open>fs\<close> the host's files that local links point
  to.  A method that reads the clock takes the time as its argument; \<open>gc_round\<close>, which reads it once
  per candidate, takes the sequence \<open>clk\<close> of the times read.  Failures of SQLite are not modelled.
\<close>

section \<open>The store\<close>

record named_local_config =
  cfg_read_only :: bool
  cfg_db_path :: "string list option"
  cfg_chunk_dir :: "string list option"

definition named_local_config_default :: named_local_config where
  "named_local_config_default = \<lparr>cfg_read_only = False, cfg_db_path = None, cfg_chunk_dir = None\<rparr>"

datatype object_state = ObjNotExist | ObjData string

record 'f named_store =
  ns_base_dir :: "string list"
  ns_read_only :: bool
  ns_store_id :: string
  ns_db :: db
  ns_backend :: 'f
  ns_hot :: hot_table

definition LRU_RELATIME_THRESHOLD_SECS :: u64 where
  "LRU_RELATIME_THRESHOLD_SECS = 60"

definition CHUNK_DEFAULT_SIZE :: u64 where
  "CHUNK_DEFAULT_SIZE = 1024 * 1024 * 32"

text \<open>Absolute paths as lists of components.\<close>

definition path_str :: "string list \<Rightarrow> string" where
  "path_str p = concat (map (\<lambda>c. CHR ''/'' # c) p)"

definition path_parent :: "string list \<Rightarrow> string list option" where
  "path_parent p = (if p = [] then None else Some (butlast p))"

definition path_file_name :: "string list \<Rightarrow> string option" where
  "path_file_name p = (if p = [] then None else Some (last p))"

text \<open>\<open>from_config_with_backend\<close>; \<open>open_db\<close> is the content of the database file at a path.\<close>

definition from_config_with_backend ::
  "(string list \<Rightarrow> db) \<Rightarrow> string option \<Rightarrow> string list \<Rightarrow> named_local_config \<Rightarrow> 'f \<Rightarrow> 'f named_store" where
  "from_config_with_backend open_db sid root cfg f =
     (let db_path = (case cfg_db_path cfg of Some p \<Rightarrow> p | None \<Rightarrow> root @ [''named_store.db''])
      in \<lparr>ns_base_dir = root, ns_read_only = cfg_read_only cfg,
          ns_store_id = (case sid of Some s \<Rightarrow> s
                         | None \<Rightarrow> (case path_file_name root of Some s \<Rightarrow> s | None \<Rightarrow> ''default'')),
          ns_db = open_db db_path, ns_backend = f, ns_hot = hot_new LRU_RELATIME_THRESHOLD_SECS\<rparr>)"

text \<open>\<open>from_config\<close>: the store, and the \<open>LocalFsBackend\<close> it uses.\<close>

definition from_config ::
  "(string list \<Rightarrow> db) \<Rightarrow> string option \<Rightarrow> string list \<Rightarrow> named_local_config \<Rightarrow> lf_state \<Rightarrow>
   local_fs \<times> lf_state named_store" where
  "from_config open_db sid root cfg f =
     (let chunk_dir = (case cfg_chunk_dir cfg of Some p \<Rightarrow> p | None \<Rightarrow> root @ [''chunks'']);
          backend_root = (case path_parent chunk_dir of Some p \<Rightarrow> p | None \<Rightarrow> root)
      in (local_fs_new (path_str backend_root) (cfg_read_only cfg),
          from_config_with_backend open_db sid root cfg f))"

definition ensure_writable :: "'f named_store \<Rightarrow> unit ndn_result" where
  "ensure_writable st =
     (if ns_read_only st then Err (PermissionDenied ''named store is read-only'') else Ok ())"

section \<open>Objects\<close>

definition query_object_by_id :: "'j ext_crates \<Rightarrow> obj_id \<Rightarrow> 'f named_store \<Rightarrow> object_state ndn_result" where
  "query_object_by_id E oid st =
     (case get_object E oid (ns_db st) of
        Inr (ty, data) \<Rightarrow> Ok (ObjData data)
      | Inl _ \<Rightarrow> Ok ObjNotExist)"

definition is_object_exist :: "'j ext_crates \<Rightarrow> obj_id \<Rightarrow> 'f named_store \<Rightarrow> bool ndn_result" where
  "is_object_exist E oid st = and_then (query_object_by_id E oid st) (\<lambda>os. Ok (os \<noteq> ObjNotExist))"

fun str_contains :: "string \<Rightarrow> string \<Rightarrow> bool" where
  "str_contains p [] = (p = [])"
| "str_contains p (c # s) = (take (length p) (c # s) = p \<or> str_contains p s)"

definition ns_get_object :: "'j ext_crates \<Rightarrow> obj_id \<Rightarrow> 'f named_store \<Rightarrow> string ndn_result" where
  "ns_get_object E oid st =
     (if is_chunk oid then Err (InvalidObjType (obj_id_to_string E oid))
      else (case get_object E oid (ns_db st) of
              Inr (ty, data) \<Rightarrow> Ok data
            | Inl e \<Rightarrow> Err (case e of
                  DbError msg \<Rightarrow> if str_contains ''no rows'' msg then NotFound (obj_id_to_string E oid) else e
                | _ \<Rightarrow> e)))"

definition ns_put_object ::
  "'j ext_crates \<Rightarrow> u64 \<Rightarrow> obj_id \<Rightarrow> string \<Rightarrow> 'f named_store \<Rightarrow> unit ndn_result \<times> 'f named_store" where
  "ns_put_object E now oid data st =
     (case ensure_writable st of Inl e \<Rightarrow> (Err e, st)
      | Inr _ \<Rightarrow> (Ok (), st\<lparr>ns_db := set_object E now oid (obj_type oid) data (ns_db st)\<rparr>))"

definition ns_remove_chunk ::
  "'j ext_crates \<Rightarrow> 'f backend_ops \<Rightarrow> chunk_id \<Rightarrow> 'f named_store \<Rightarrow> unit ndn_result \<times> 'f named_store" where
  "ns_remove_chunk E B c st =
     (case ensure_writable st of Inl e \<Rightarrow> (Err e, st)
      | Inr _ \<Rightarrow>
          (case be_remove_chunk B c (ns_backend st) of
             (Inl e, f) \<Rightarrow> (Err e, st\<lparr>ns_backend := f\<rparr>)
           | (Inr _, f) \<Rightarrow> (Ok (), st\<lparr>ns_backend := f, ns_db := remove_chunk_db E c (ns_db st)\<rparr>)))"

definition ns_remove_object ::
  "'j ext_crates \<Rightarrow> 'f backend_ops \<Rightarrow> obj_id \<Rightarrow> 'f named_store \<Rightarrow> unit ndn_result \<times> 'f named_store" where
  "ns_remove_object E B oid st =
     (case ensure_writable st of Inl e \<Rightarrow> (Err e, st)
      | Inr _ \<Rightarrow>
          if is_chunk oid then ns_remove_chunk E B (chunk_from_obj_id oid) st
          else (Ok (), st\<lparr>ns_db := remove_object E oid (ns_db st)\<rparr>))"

section \<open>Chunks\<close>

definition query_chunk_state ::
  "'j ext_crates \<Rightarrow> chunk_id \<Rightarrow> 'f named_store \<Rightarrow> (chunk_store_state \<times> u64) ndn_result" where
  "query_chunk_state E c st =
     (case get_chunk_item E c (ns_db st) of
        Inr it \<Rightarrow> Ok (ci_chunk_state it, ci_chunk_size it)
      | Inl _ \<Rightarrow> Ok (NotExist, 0))"

definition have_chunk :: "'j ext_crates \<Rightarrow> chunk_id \<Rightarrow> 'f named_store \<Rightarrow> bool" where
  "have_chunk E c st =
     (case query_chunk_state E c st of Inr (cs, _) \<Rightarrow> can_open_reader cs | Inl _ \<Rightarrow> False)"

definition verify_local_link ::
  "'j ext_crates \<Rightarrow> host_files \<Rightarrow> chunk_id \<Rightarrow> chunk_local_info \<Rightarrow> unit ndn_result" where
  "verify_local_link E fs c li =
     (if li_qcid li = [] then Err (InvalidLink (''local link missing qcid for '' @ chunk_to_string E c))
      else (case fs (li_path li) of
              None \<Rightarrow> Err (IoError (li_path li))
            | Some d \<Rightarrow>
                if (case li_range li of Some (a, b) \<Rightarrow> length d < unat b | None \<Rightarrow> False)
                then Err (InvalidLink (''link range exceeds file length: '' @ chunk_to_string E c))
                else and_then (caculate_qcid_from_file E fs (li_path li)) (\<lambda>q.
                  if chunk_to_string E q \<noteq> li_qcid li
                  then Err (VerifyError (''qcid mismatch for '' @ chunk_to_string E c)) else Ok ())))"

text \<open>The reader is the bytes it will yield.  Seeking beyond the end of a file yields nothing.\<close>

definition open_local_link_reader ::
  "'j ext_crates \<Rightarrow> host_files \<Rightarrow> chunk_id \<Rightarrow> chunk_item \<Rightarrow> chunk_local_info \<Rightarrow> u64 \<Rightarrow>
   (u8 list \<times> u64) ndn_result" where
  "open_local_link_reader E fs c it li off =
     and_then (verify_local_link E fs c li) (\<lambda>_.
     and_then
       (case li_range li of
          None \<Rightarrow> Ok (0, ci_chunk_size it)
        | Some (a, b) \<Rightarrow>
            (let range_len = saturating_sub b a
             in if range_len \<noteq> ci_chunk_size it then Err (InvalidLink ''link range mismatch: expected '')
                else Ok (a, range_len)))
       (\<lambda>(start, limit_len).
          if limit_len < off then Err (OffsetTooLarge (chunk_to_string E c))
          else (let real_offset = start + off
                in case fs (li_path li) of
                     None \<Rightarrow> Err (IoError (li_path li))
                   | Some d \<Rightarrow> Ok (take (unat (limit_len - off)) (drop (unat real_offset) d), ci_chunk_size it))))"

definition ns_open_chunk_reader ::
  "'j ext_crates \<Rightarrow> 'f backend_ops \<Rightarrow> host_files \<Rightarrow> chunk_id \<Rightarrow> u64 \<Rightarrow> 'f named_store \<Rightarrow>
   (u8 list \<times> u64) ndn_result" where
  "ns_open_chunk_reader E B fs c off st =
     and_then (get_chunk_item E c (ns_db st)) (\<lambda>it.
       case ci_chunk_state it of
         Completed \<Rightarrow> be_open_reader B c off (ns_backend st)
       | LocalLink li \<Rightarrow> open_local_link_reader E fs c it li off
       | cs \<Rightarrow> Err (Internal (''chunk '' @ chunk_to_string E c @
                    '' state not support open reader! state:'' @ chunk_state_to_str cs)))"

definition add_chunk_by_link_to_local_file ::
  "'j ext_crates \<Rightarrow> u64 \<Rightarrow> chunk_id \<Rightarrow> u64 \<Rightarrow> chunk_local_info \<Rightarrow> 'f named_store \<Rightarrow>
   unit ndn_result \<times> 'f named_store" where
  "add_chunk_by_link_to_local_file E now c sz li st =
     (case ensure_writable st of Inl e \<Rightarrow> (Err e, st)
      | Inr _ \<Rightarrow>
          if (case li_range li of Some (a, b) \<Rightarrow> saturating_sub b a \<noteq> sz | None \<Rightarrow> False)
          then (Err (InvalidParam ''range size mismatch: expected ''), st)
          else (Ok (), st\<lparr>ns_db := set_chunk_item E (chunk_item_new_local_file now c sz li) (ns_db st)\<rparr>))"

definition ns_get_chunk_data ::
  "'j ext_crates \<Rightarrow> 'f backend_ops \<Rightarrow> host_files \<Rightarrow> chunk_id \<Rightarrow> 'f named_store \<Rightarrow> u8 list ndn_result" where
  "ns_get_chunk_data E B fs c st =
     and_then (ns_open_chunk_reader E B fs c 0 st) (\<lambda>(d, size). Ok d)"

definition get_chunk_piece ::
  "'j ext_crates \<Rightarrow> 'f backend_ops \<Rightarrow> host_files \<Rightarrow> chunk_id \<Rightarrow> u64 \<Rightarrow> u32 \<Rightarrow> 'f named_store \<Rightarrow>
   u8 list ndn_result" where
  "get_chunk_piece E B fs c off piece st =
     and_then (ns_open_chunk_reader E B fs c 0 st) (\<lambda>(d, chunk_size).
       if chunk_size < off then Err (OffsetTooLarge (chunk_to_string E c))
       else read_exact_at 0 (unat piece) d)"

definition put_chunk_by_reader ::
  "'j ext_crates \<Rightarrow> 'f backend_ops \<Rightarrow> u64 \<Rightarrow> chunk_id \<Rightarrow> u64 \<Rightarrow> reader \<Rightarrow> 'f named_store \<Rightarrow>
   chunk_write_outcome ndn_result \<times> 'f named_store" where
  "put_chunk_by_reader E B now c sz rd st =
     (case ensure_writable st of Inl e \<Rightarrow> (Err e, st)
      | Inr _ \<Rightarrow>
          if CHUNK_DEFAULT_SIZE < sz then (Err (InvalidParam (''chunk '' @ chunk_to_string E c)), st)
          else
            (case be_open_writer B c sz rd (ns_backend st) of
               (Inl e, f) \<Rightarrow> (Err e, st\<lparr>ns_backend := f\<rparr>)
             | (Inr outcome, f) \<Rightarrow>
                 (Ok outcome,
                  if outcome = Written
                  then st\<lparr>ns_backend := f, ns_db := set_chunk_item E (chunk_item_new_completed now c sz) (ns_db st)\<rparr>
                  else st\<lparr>ns_backend := f\<rparr>)))"

definition put_chunk ::
  "'j ext_crates \<Rightarrow> 'f backend_ops \<Rightarrow> u64 \<Rightarrow> chunk_id \<Rightarrow> u8 list \<Rightarrow> 'f named_store \<Rightarrow>
   unit ndn_result \<times> 'f named_store" where
  "put_chunk E B now c data st =
     (case put_chunk_by_reader E B now c (of_nat (length data)) [data] st of
        (r, st') \<Rightarrow> (and_then r (\<lambda>_. Ok ()), st'))"

definition add_chunk_by_same_as ::
  "'j ext_crates \<Rightarrow> u64 \<Rightarrow> chunk_id \<Rightarrow> u64 \<Rightarrow> obj_id \<Rightarrow> 'f named_store \<Rightarrow> unit ndn_result \<times> 'f named_store" where
  "add_chunk_by_same_as E now c sz oid st =
     (case ensure_writable st of Inl e \<Rightarrow> (Err e, st)
      | Inr _ \<Rightarrow>
          (Ok (), st\<lparr>ns_db := set_chunk_item E
             \<lparr>ci_chunk_id = c, ci_chunk_size = sz, ci_chunk_state = SameAs oid,
              ci_create_time = now, ci_update_time = now\<rparr> (ns_db st)\<rparr>))"

section \<open>Garbage collection\<close>

text \<open>The methods of the public API that only forward to the database.\<close>

definition on_db :: "(db \<Rightarrow> db) \<Rightarrow> 'f named_store \<Rightarrow> 'f named_store" where
  "on_db g st = st\<lparr>ns_db := g (ns_db st)\<rparr>"

definition ns_pin ::
  "'j ext_crates \<Rightarrow> u64 \<Rightarrow> obj_id \<Rightarrow> string \<Rightarrow> pin_scope \<Rightarrow> u64 option \<Rightarrow> 'f named_store \<Rightarrow> 'f named_store" where
  "ns_pin E now oid owner scope ttl = on_db (pin E now oid owner scope ttl)"

definition ns_unpin :: "'j ext_crates \<Rightarrow> u64 \<Rightarrow> obj_id \<Rightarrow> string \<Rightarrow> 'f named_store \<Rightarrow> 'f named_store" where
  "ns_unpin E now oid owner = on_db (unpin E now oid owner)"

definition ns_unpin_owner :: "'j ext_crates \<Rightarrow> u64 \<Rightarrow> string \<Rightarrow> 'f named_store \<Rightarrow> nat \<times> 'f named_store" where
  "ns_unpin_owner E now owner st =
     (case unpin_owner E now owner (ns_db st) of (n, s) \<Rightarrow> (n, st\<lparr>ns_db := s\<rparr>))"

definition ns_fs_acquire :: "'j ext_crates \<Rightarrow> u64 \<Rightarrow> obj_id \<Rightarrow> u64 \<Rightarrow> u32 \<Rightarrow> 'f named_store \<Rightarrow> 'f named_store" where
  "ns_fs_acquire E now oid inode tag = on_db (fs_acquire E now oid inode tag)"

definition ns_fs_release :: "'j ext_crates \<Rightarrow> u64 \<Rightarrow> obj_id \<Rightarrow> u64 \<Rightarrow> u32 \<Rightarrow> 'f named_store \<Rightarrow> 'f named_store" where
  "ns_fs_release E now oid inode tag = on_db (fs_release E now oid inode tag)"

definition ns_fs_release_inode :: "'j ext_crates \<Rightarrow> u64 \<Rightarrow> u64 \<Rightarrow> 'f named_store \<Rightarrow> nat \<times> 'f named_store" where
  "ns_fs_release_inode E now inode st =
     (case fs_release_inode E now inode (ns_db st) of (n, s) \<Rightarrow> (n, st\<lparr>ns_db := s\<rparr>))"

definition ns_apply_edge :: "'j ext_crates \<Rightarrow> u64 \<Rightarrow> edge_msg \<Rightarrow> 'f named_store \<Rightarrow> 'f named_store" where
  "ns_apply_edge E now msg = on_db (apply_edge E now msg)"

definition ns_touch :: "'j ext_crates \<Rightarrow> u64 \<Rightarrow> obj_id \<Rightarrow> 'f named_store \<Rightarrow> 'f named_store" where
  "ns_touch E now oid st = st\<lparr>ns_hot := hot_touch now (obj_id_to_string E oid) (ns_hot st)\<rparr>"

definition flush_lru :: "'f named_store \<Rightarrow> 'f named_store" where
  "flush_lru st =
     (case collect_dirty_batch (ns_hot st) of (batch, hot) \<Rightarrow>
        st\<lparr>ns_hot := hot,
           ns_db := (if batch \<noteq> [] then batch_touch_last_access_with_max batch (ns_db st) else ns_db st)\<rparr>)"

text \<open>
  One pass over a batch of candidates.  The first result tells that the target was reached, which
  returns from \<open>gc_round\<close>; \<open>i\<close> counts the reads of the clock.
\<close>

fun gc_batch ::
  "'j ext_crates \<Rightarrow> 'f backend_ops \<Rightarrow> (nat \<Rightarrow> u64) \<Rightarrow> u64 \<Rightarrow> (string \<times> u64) list \<Rightarrow> nat \<Rightarrow> gc_report \<Rightarrow>
   'f named_store \<Rightarrow> bool \<times> nat \<times> gc_report \<times> 'f named_store" where
  "gc_batch E B clk target [] i rep st = (False, i, rep, st)"
| "gc_batch E B clk target ((key, owned) # cs) i rep st =
     (case try_evict_object (clk i) key (ns_db st) of (freed, s) \<Rightarrow>
        (let st1 = st\<lparr>ns_db := s\<rparr>;
             (rep2, st2) =
               (if 0 < freed then
                  (let (rep1, st1') =
                     (case obj_id_new E key of
                        Inl _ \<Rightarrow> (rep, st1)
                      | Inr oid \<Rightarrow>
                          if is_chunk oid then
                            (rep\<lparr>evicted_chunks := evicted_chunks rep + 1\<rparr>,
                             st1\<lparr>ns_backend := snd (be_remove_chunk B (chunk_from_obj_id oid) (ns_backend st1))\<rparr>)
                          else (rep\<lparr>evicted_objects := evicted_objects rep + 1\<rparr>, st1))
                   in (rep1\<lparr>freed_bytes := freed_bytes rep1 + freed\<rparr>, st1'))
                else (rep\<lparr>skipped_protected := skipped_protected rep + 1\<rparr>, st1))
         in if 0 < target \<and> target \<le> freed_bytes rep2 then (True, Suc i, rep2, st2)
            else gc_batch E B clk target cs (Suc i) rep2 st2))"

text \<open>Every candidate that is tried stops being one: it is deleted, or its class is raised.\<close>

definition candidates :: "db \<Rightarrow> object_row list" where
  "candidates s = filter gc_candidate (objects s)"

lemma try_evict_candidates:
  "candidates (snd (try_evict_object now key s)) = filter (\<lambda>r. o_id r \<noteq> key) (candidates s)"
proof (cases "protected now key s")
  case True
  define c where "c = (if has_active_pin now key s \<or> 0 < get_fs_anchor_count key s then 2 else 1 :: int)"
  have c: "c \<noteq> 0" "snd (try_evict_object now key s) = upd_obj key (\<lambda>r. r\<lparr>o_class := c\<rparr>) s"
    using True by (auto simp: c_def try_evict_cases recompute_eviction_class_def protected_def Let_def)
  have "filter gc_candidate (sql_update (\<lambda>r. o_id r = key) (\<lambda>r. r\<lparr>o_class := c\<rparr>) t) =
      filter (\<lambda>r. o_id r \<noteq> key) (filter gc_candidate t)" for t
    using c(1) by (induction t) (auto simp: sql_update_def gc_candidate_def)
  with c(2) show ?thesis by (simp add: candidates_def upd_obj_def)
next
  case False
  then show ?thesis
    by (simp add: try_evict_cases candidates_def sql_delete_def conj_commute)
qed

lemma gc_batch_candidates:
  "gc_batch E B clk target cs i rep st = (False, i', rep', st') \<Longrightarrow>
     candidates (ns_db st') = filter (\<lambda>r. o_id r \<notin> fst ` set cs) (candidates (ns_db st))"
proof (induction E B clk target cs i rep st arbitrary: i' rep' st' rule: gc_batch.induct)
  case (2 E B clk target key owned cs i rep st)
  obtain freed s where ev: "try_evict_object (clk i) key (ns_db st) = (freed, s)"
    by (cases "try_evict_object (clk i) key (ns_db st)")
  have s: "candidates s = filter (\<lambda>r. o_id r \<noteq> key) (candidates (ns_db st))"
    using try_evict_candidates [of "clk i" key "ns_db st"] ev by simp
  from 2 ev s show ?case
    by (auto simp: Let_def split: if_splits sum.splits prod.splits)
qed simp

definition batch_size :: nat where
  "batch_size = 100"

lemma gc_batch_decreases:
  assumes "gc_batch E B clk target (list_gc_candidates batch_size (ns_db st)) i rep st = (False, i', rep', st')"
    and "list_gc_candidates batch_size (ns_db st) \<noteq> []"
  shows "length (candidates (ns_db st')) < length (candidates (ns_db st))"
proof -
  let ?cs = "list_gc_candidates batch_size (ns_db st)"
  have "fst ` set ?cs \<subseteq> o_id ` set (candidates (ns_db st))"
    by (auto simp: list_gc_candidates_def candidates_def dest!: in_set_takeD)
  with assms(2) obtain r where "r \<in> set (candidates (ns_db st))" "o_id r \<in> fst ` set ?cs"
    by (cases ?cs) auto
  then have "length (filter (\<lambda>r. o_id r \<notin> fst ` set ?cs) (candidates (ns_db st))) < length (candidates (ns_db st))"
    by (intro length_filter_less) auto
  with gc_batch_candidates [OF assms(1)] show ?thesis by simp
qed

function gc_loop ::
  "'j ext_crates \<Rightarrow> 'f backend_ops \<Rightarrow> (nat \<Rightarrow> u64) \<Rightarrow> u64 \<Rightarrow> nat \<Rightarrow> gc_report \<Rightarrow> 'f named_store \<Rightarrow>
   gc_report \<times> 'f named_store" where
  "gc_loop E B clk target i rep st =
     (let cs = list_gc_candidates batch_size (ns_db st)
      in if cs = [] then (rep, st)
         else (case gc_batch E B clk target cs i rep st of (reached, i', rep', st') \<Rightarrow>
                 if reached then (rep', st')
                 else if target = 0 then (rep', st')
                 else gc_loop E B clk target i' rep' st'))"
  by pat_completeness auto
termination
  by (relation "measure (\<lambda>(E, B, clk, target, i, rep, st). length (candidates (ns_db st)))")
    (auto intro: gc_batch_decreases [OF sym])

declare gc_loop.simps [simp del]

definition gc_round ::
  "'j ext_crates \<Rightarrow> 'f backend_ops \<Rightarrow> (nat \<Rightarrow> u64) \<Rightarrow> u64 \<Rightarrow> 'f named_store \<Rightarrow> gc_report \<times> 'f named_store" where
  "gc_round E B clk target st = gc_loop E B clk target 0 gc_report_default st"

definition run_background_gc ::
  "'j ext_crates \<Rightarrow> 'f backend_ops \<Rightarrow> u64 \<Rightarrow> (nat \<Rightarrow> u64) \<Rightarrow> 'f named_store \<Rightarrow> gc_report \<times> 'f named_store" where
  "run_background_gc E B now clk st =
     gc_round E B clk 0 (on_db (\<lambda>s. snd (expire_pins E now s)) (flush_lru st))"

definition forced_gc_until ::
  "'j ext_crates \<Rightarrow> 'f backend_ops \<Rightarrow> (nat \<Rightarrow> u64) \<Rightarrow> u64 \<Rightarrow> 'f named_store \<Rightarrow> u64 ndn_result \<times> 'f named_store" where
  "forced_gc_until E B clk target st =
     (case gc_round E B clk target st of (rep, st') \<Rightarrow>
        (if target \<le> freed_bytes rep then Ok (freed_bytes rep)
         else Err (IoError ''ENOSPC: freed ''), st'))"

end
