(* ===== verification/Ndm.thy ===== *)
theory Ndm
  imports Named_Store Store_Layout "HOL-Library.AList"
begin

text \<open>
  \<open>NamedDataMgr\<close> (\<open>named_store/src/ndm.rs\<close>): several stores under a short history of layouts.  Writes go
  to the store that the newest layout selects, reads try the layouts from the newest to the oldest.

  The \<open>HashMap\<close> of stores is an association list with distinct keys; its order stands for the iteration
  order, which the language leaves open, so whatever is proved holds for every order.  The locks serialise
  the methods of one store; a method is one transition of the manager.  A layout that \<open>StoreLayout::new\<close>
  has built selects without a panic (\<open>primary_no_panic\<close> in \<open>Ndm_Props\<close>), so \<open>primary_target\<close> leaves the panic of
  \<open>select_primary_target\<close> out.  Failures of SQLite are not modelled.
\<close>

section \<open>The manager\<close>

record layout_version =
  lv_epoch :: u64
  lv_layout :: store_layout

record 'f named_data_mgr =
  versions :: "layout_version list"
  stores :: "(string \<times> 'f named_store) list"
  max_versions :: nat

definition ndm_new :: "'f named_data_mgr" where
  "ndm_new = \<lparr>versions = [], stores = [], max_versions = 3\<rparr>"

definition with_max_versions :: "nat \<Rightarrow> 'f named_data_mgr" where
  "with_max_versions n = \<lparr>versions = [], stores = [], max_versions = max n 1\<rparr>"

definition register_store :: "'f named_store \<Rightarrow> 'f named_data_mgr \<Rightarrow> 'f named_data_mgr" where
  "register_store st m = m\<lparr>stores := AList.update (ns_store_id st) st (stores m)\<rparr>"

definition unregister_store :: "string \<Rightarrow> 'f named_data_mgr \<Rightarrow> 'f named_data_mgr" where
  "unregister_store sid m = m\<lparr>stores := AList.delete sid (stores m)\<rparr>"

section \<open>Layout versions\<close>

definition insert_at :: "nat \<Rightarrow> 'a \<Rightarrow> 'a list \<Rightarrow> 'a list" where
  "insert_at i x xs = take i xs @ x # drop i xs"

definition add_layout :: "store_layout \<Rightarrow> 'f named_data_mgr \<Rightarrow> 'f named_data_mgr" where
  "add_layout l m =
     (let epoch = sl_epoch l;
          version = \<lparr>lv_epoch = epoch, lv_layout = l\<rparr>;
          vs = versions m;
          pos = (case position (\<lambda>v. lv_epoch v < epoch) vs of Some i \<Rightarrow> i | None \<Rightarrow> length vs);
          vs' = (case position (\<lambda>v. lv_epoch v = epoch) vs of
                   Some idx \<Rightarrow> vs[idx := version]
                 | None \<Rightarrow> insert_at pos version vs)
      in m\<lparr>versions := take (max_versions m) vs'\<rparr>)"

definition current_layout :: "'f named_data_mgr \<Rightarrow> store_layout option" where
  "current_layout m = (case versions m of [] \<Rightarrow> None | v # _ \<Rightarrow> Some (lv_layout v))"

definition get_layout :: "u64 \<Rightarrow> 'f named_data_mgr \<Rightarrow> store_layout option" where
  "get_layout epoch m = map_option lv_layout (find (\<lambda>v. lv_epoch v = epoch) (versions m))"

definition version_count :: "'f named_data_mgr \<Rightarrow> nat" where
  "version_count m = length (versions m)"

definition current_epoch :: "'f named_data_mgr \<Rightarrow> u64 option" where
  "current_epoch m = (case versions m of [] \<Rightarrow> None | v # _ \<Rightarrow> Some (lv_epoch v))"

definition compact :: "'f named_data_mgr \<Rightarrow> 'f named_data_mgr" where
  "compact m = (if 1 < length (versions m) then m\<lparr>versions := take 1 (versions m)\<rparr> else m)"

section \<open>Selecting stores\<close>

definition primary_target :: "(u8 list \<Rightarrow> u64) \<Rightarrow> store_layout \<Rightarrow> obj_id \<Rightarrow> store_target option" where
  "primary_target ho l oid = (case select_primary_target ho l oid of Some t \<Rightarrow> t | None \<Rightarrow> None)"

definition get_store :: "string \<Rightarrow> 'f named_data_mgr \<Rightarrow> 'f named_store option" where
  "get_store sid m = map_of (stores m) sid"

definition get_store_ids :: "'f named_data_mgr \<Rightarrow> string list" where
  "get_store_ids m = map fst (stores m)"

text \<open>
  The loop over the layout versions that the reading methods share: a version without a target is
  skipped, and so is a store that was already tried.  The body returns from the method (\<open>Inl\<close>) or goes
  on with a new accumulator (\<open>Inr\<close>).
\<close>

fun each_version ::
  "(u8 list \<Rightarrow> u64) \<Rightarrow> obj_id \<Rightarrow> (string \<Rightarrow> 'acc \<Rightarrow> 'r + 'acc) \<Rightarrow> layout_version list \<Rightarrow> string list \<Rightarrow>
   'acc \<Rightarrow> 'r + 'acc" where
  "each_version ho oid body [] tried acc = Inr acc"
| "each_version ho oid body (v # vs) tried acc =
     (case primary_target ho (lv_layout v) oid of
        None \<Rightarrow> each_version ho oid body vs tried acc
      | Some t \<Rightarrow>
          if tg_store_id t \<in> set tried then each_version ho oid body vs tried acc
          else (case body (tg_store_id t) acc of
                  Inl r \<Rightarrow> Inl r
                | Inr acc' \<Rightarrow> each_version ho oid body vs (tried @ [tg_store_id t]) acc'))"

text \<open>\<open>select_store_for_write\<close>: the identifier of the store instance it returns.\<close>

definition select_store_for_write :: "(u8 list \<Rightarrow> u64) \<Rightarrow> obj_id \<Rightarrow> 'f named_data_mgr \<Rightarrow> string option" where
  "select_store_for_write ho oid m =
     (case versions m of [] \<Rightarrow> None
      | v # _ \<Rightarrow>
          (case primary_target ho (lv_layout v) oid of None \<Rightarrow> None
           | Some t \<Rightarrow> if get_store (tg_store_id t) m = None then None else Some (tg_store_id t)))"

definition put_store :: "string \<Rightarrow> 'f named_store \<Rightarrow> 'f named_data_mgr \<Rightarrow> 'f named_data_mgr" where
  "put_store sid st m = m\<lparr>stores := AList.update sid st (stores m)\<rparr>"

text \<open>Lock the store of the current layout and call one of its methods.\<close>

definition on_write_store ::
  "(u8 list \<Rightarrow> u64) \<Rightarrow> obj_id \<Rightarrow> string \<Rightarrow> ('f named_store \<Rightarrow> 'a ndn_result \<times> 'f named_store) \<Rightarrow>
   'f named_data_mgr \<Rightarrow> 'a ndn_result \<times> 'f named_data_mgr" where
  "on_write_store ho oid msg g m =
     (case select_store_for_write ho oid m of
        None \<Rightarrow> (Err (NotFound msg), m)
      | Some sid \<Rightarrow>
          (case get_store sid m of
             None \<Rightarrow> (Err (NotFound msg), m)
           | Some st \<Rightarrow> (case g st of (r, st') \<Rightarrow> (r, put_store sid st' m))))"

section \<open>Objects\<close>

definition get_object_body ::
  "'j ext_crates \<Rightarrow> obj_id \<Rightarrow> 'f named_data_mgr \<Rightarrow> string \<Rightarrow> ndn_error option \<Rightarrow> string + ndn_error option" where
  "get_object_body E oid m sid last_error =
     (case get_store sid m of
        None \<Rightarrow> Inr (Some (NotFound (''store '' @ sid @ '' not registered'')))
      | Some st \<Rightarrow>
          (case ns_get_object E oid st of
             Inr obj \<Rightarrow> Inl obj
           | Inl (NotFound _) \<Rightarrow> Inr (Some (NotFound (''object not found in store '' @ sid)))
           | Inl e \<Rightarrow> Inr (Some e)))"

definition ndm_get_object ::
  "'j ext_crates \<Rightarrow> (u8 list \<Rightarrow> u64) \<Rightarrow> obj_id \<Rightarrow> 'f named_data_mgr \<Rightarrow> string ndn_result" where
  "ndm_get_object E ho oid m =
     (if versions m = [] then Err (NotFound ''no layout versions available'')
      else (case each_version ho oid (get_object_body E oid m) (versions m) [] None of
              Inl obj \<Rightarrow> Ok obj
            | Inr (Some e) \<Rightarrow> Err e
            | Inr None \<Rightarrow> Err (NotFound (''object '' @ obj_id_to_string E oid @ '' not found in any layout version''))))"

definition ndm_query_object_by_id ::
  "'j ext_crates \<Rightarrow> (u8 list \<Rightarrow> u64) \<Rightarrow> obj_id \<Rightarrow> 'f named_data_mgr \<Rightarrow> object_state ndn_result" where
  "ndm_query_object_by_id E ho oid m =
     (case each_version ho oid
             (\<lambda>sid _. case get_store sid m of
                None \<Rightarrow> Inr ()
              | Some st \<Rightarrow>
                  (case query_object_by_id E oid st of
                     Inl e \<Rightarrow> Inl (Err e)
                   | Inr os \<Rightarrow> if os \<noteq> ObjNotExist then Inl (Ok os) else Inr ())) (versions m) [] () of
        Inl r \<Rightarrow> r
      | Inr _ \<Rightarrow> Ok ObjNotExist)"

definition ndm_is_object_exist ::
  "'j ext_crates \<Rightarrow> (u8 list \<Rightarrow> u64) \<Rightarrow> obj_id \<Rightarrow> 'f named_data_mgr \<Rightarrow> bool ndn_result" where
  "ndm_is_object_exist E ho oid m = and_then (ndm_query_object_by_id E ho oid m) (\<lambda>os. Ok (os \<noteq> ObjNotExist))"

definition ndm_put_object ::
  "'j ext_crates \<Rightarrow> (u8 list \<Rightarrow> u64) \<Rightarrow> u64 \<Rightarrow> obj_id \<Rightarrow> string \<Rightarrow> 'f named_data_mgr \<Rightarrow>
   unit ndn_result \<times> 'f named_data_mgr" where
  "ndm_put_object E ho now oid data m =
     on_write_store ho oid ''no available store for write'' (ns_put_object E now oid data) m"

text \<open>The best-effort removals visit the stores in the order of the versions and ignore errors.\<close>

definition remove_everywhere ::
  "(u8 list \<Rightarrow> u64) \<Rightarrow> obj_id \<Rightarrow> ('f named_store \<Rightarrow> unit ndn_result \<times> 'f named_store) \<Rightarrow>
   'f named_data_mgr \<Rightarrow> unit ndn_result \<times> 'f named_data_mgr" where
  "remove_everywhere ho oid rm m =
     (case each_version ho oid
             (\<lambda>sid m. case get_store sid m of
                None \<Rightarrow> Inr m | Some st \<Rightarrow> Inr (put_store sid (snd (rm st)) m)) (versions m) [] m of
        Inl r \<Rightarrow> r | Inr m' \<Rightarrow> (Ok (), m'))"

definition ndm_remove_object ::
  "'j ext_crates \<Rightarrow> 'f backend_ops \<Rightarrow> (u8 list \<Rightarrow> u64) \<Rightarrow> obj_id \<Rightarrow> 'f named_data_mgr \<Rightarrow>
   unit ndn_result \<times> 'f named_data_mgr" where
  "ndm_remove_object E B ho oid m = remove_everywhere ho oid (ns_remove_object E B oid) m"

definition select_store_for_read ::
  "'j ext_crates \<Rightarrow> (u8 list \<Rightarrow> u64) \<Rightarrow> obj_id \<Rightarrow> 'f named_data_mgr \<Rightarrow> string option" where
  "select_store_for_read E ho oid m =
     (case each_version ho oid
             (\<lambda>sid _. case get_store sid m of
                None \<Rightarrow> Inr ()
              | Some st \<Rightarrow>
                  (case query_object_by_id E oid st of
                     Inl e \<Rightarrow> Inl None
                   | Inr os \<Rightarrow> if os \<noteq> ObjNotExist then Inl (Some sid) else Inr ())) (versions m) [] () of
        Inl r \<Rightarrow> r
      | Inr _ \<Rightarrow> None)"

section \<open>Chunks\<close>

definition ndm_query_chunk_state ::
  "'j ext_crates \<Rightarrow> (u8 list \<Rightarrow> u64) \<Rightarrow> chunk_id \<Rightarrow> 'f named_data_mgr \<Rightarrow> (chunk_store_state \<times> u64) ndn_result" where
  "ndm_query_chunk_state E ho c m =
     (case each_version ho (chunk_to_obj_id c)
             (\<lambda>sid _. case get_store sid m of
                None \<Rightarrow> Inr ()
              | Some st \<Rightarrow>
                  (case query_chunk_state E c st of
                     Inl e \<Rightarrow> Inl (Err e)
                   | Inr (cs, sz) \<Rightarrow> if cs \<noteq> NotExist then Inl (Ok (cs, sz)) else Inr ())) (versions m) [] () of
        Inl r \<Rightarrow> r
      | Inr _ \<Rightarrow> Ok (NotExist, 0))"

definition open_chunk_reader_body ::
  "'j ext_crates \<Rightarrow> 'f backend_ops \<Rightarrow> host_files \<Rightarrow> chunk_id \<Rightarrow> u64 \<Rightarrow> 'f named_data_mgr \<Rightarrow> string \<Rightarrow>
   ndn_error option \<Rightarrow> (u8 list \<times> u64) + ndn_error option" where
  "open_chunk_reader_body E B fs c off m sid last_error =
     (case get_store sid m of
        None \<Rightarrow> Inr (Some (NotFound (''store '' @ sid @ '' not registered'')))
      | Some st \<Rightarrow>
          (case ns_open_chunk_reader E B fs c off st of
             Inr r \<Rightarrow> Inl r
           | Inl (NotFound _) \<Rightarrow> Inr (Some (NotFound (''chunk not found in store '' @ sid)))
           | Inl (InComplete _) \<Rightarrow> Inr (Some (NotFound (''chunk not found in store '' @ sid)))
           | Inl e \<Rightarrow> Inr (Some e)))"

definition ndm_open_chunk_reader ::
  "'j ext_crates \<Rightarrow> 'f backend_ops \<Rightarrow> (u8 list \<Rightarrow> u64) \<Rightarrow> host_files \<Rightarrow> chunk_id \<Rightarrow> u64 \<Rightarrow>
   'f named_data_mgr \<Rightarrow> (u8 list \<times> u64) ndn_result" where
  "ndm_open_chunk_reader E B ho fs c off m =
     (if versions m = [] then Err (NotFound ''no layout versions available'')
      else (case each_version ho (chunk_to_obj_id c) (open_chunk_reader_body E B fs c off m) (versions m) [] None of
              Inl r \<Rightarrow> Ok r
            | Inr (Some e) \<Rightarrow> Err e
            | Inr None \<Rightarrow> Err (NotFound (''chunk '' @ chunk_to_string E c @ '' not found in any store''))))"

definition ndm_remove_chunk ::
  "'j ext_crates \<Rightarrow> 'f backend_ops \<Rightarrow> (u8 list \<Rightarrow> u64) \<Rightarrow> chunk_id \<Rightarrow> 'f named_data_mgr \<Rightarrow>
   unit ndn_result \<times> 'f named_data_mgr" where
  "ndm_remove_chunk E B ho c m = remove_everywhere ho (chunk_to_obj_id c) (ns_remove_chunk E B c) m"

definition ndm_get_chunk_data ::
  "'j ext_crates \<Rightarrow> 'f backend_ops \<Rightarrow> (u8 list \<Rightarrow> u64) \<Rightarrow> host_files \<Rightarrow> chunk_id \<Rightarrow> 'f named_data_mgr \<Rightarrow>
   u8 list ndn_result" where
  "ndm_get_chunk_data E B ho fs c m = and_then (ndm_open_chunk_reader E B ho fs c 0 m) (\<lambda>(d, size). Ok d)"

definition ndm_get_chunk_piece ::
  "'j ext_crates \<Rightarrow> 'f backend_ops \<Rightarrow> (u8 list \<Rightarrow> u64) \<Rightarrow> host_files \<Rightarrow> chunk_id \<Rightarrow> u64 \<Rightarrow> u32 \<Rightarrow>
   'f named_data_mgr \<Rightarrow> u8 list ndn_result" where
  "ndm_get_chunk_piece E B ho fs c off piece m =
     and_then (ndm_open_chunk_reader E B ho fs c off m) (\<lambda>(d, chunk_size).
       if chunk_size < off then Err (OffsetTooLarge (chunk_to_string E c))
       else read_exact_at 0 (unat piece) d)"

definition ndm_put_chunk_by_reader ::
  "'j ext_crates \<Rightarrow> 'f backend_ops \<Rightarrow> (u8 list \<Rightarrow> u64) \<Rightarrow> u64 \<Rightarrow> chunk_id \<Rightarrow> u64 \<Rightarrow> reader \<Rightarrow>
   'f named_data_mgr \<Rightarrow> chunk_write_outcome ndn_result \<times> 'f named_data_mgr" where
  "ndm_put_chunk_by_reader E B ho now c sz rd m =
     on_write_store ho (chunk_to_obj_id c) ''no available store for write'' (put_chunk_by_reader E B now c sz rd) m"

definition ndm_put_chunk ::
  "'j ext_crates \<Rightarrow> 'f backend_ops \<Rightarrow> (u8 list \<Rightarrow> u64) \<Rightarrow> u64 \<Rightarrow> chunk_id \<Rightarrow> u8 list \<Rightarrow> 'f named_data_mgr \<Rightarrow>
   unit ndn_result \<times> 'f named_data_mgr" where
  "ndm_put_chunk E B ho now c data m =
     on_write_store ho (chunk_to_obj_id c) ''no available store for write'' (put_chunk E B now c data) m"

definition ndm_add_chunk_by_link_to_local_file ::
  "'j ext_crates \<Rightarrow> (u8 list \<Rightarrow> u64) \<Rightarrow> u64 \<Rightarrow> chunk_id \<Rightarrow> u64 \<Rightarrow> chunk_local_info \<Rightarrow> 'f named_data_mgr \<Rightarrow>
   unit ndn_result \<times> 'f named_data_mgr" where
  "ndm_add_chunk_by_link_to_local_file E ho now c sz li m =
     on_write_store ho (chunk_to_obj_id c) ''no available store for write''
       (add_chunk_by_link_to_local_file E now c sz li) m"

definition ndm_add_chunk_by_same_as ::
  "'j ext_crates \<Rightarrow> (u8 list \<Rightarrow> u64) \<Rightarrow> u64 \<Rightarrow> chunk_id \<Rightarrow> u64 \<Rightarrow> obj_id \<Rightarrow> 'f named_data_mgr \<Rightarrow>
   unit ndn_result \<times> 'f named_data_mgr" where
  "ndm_add_chunk_by_same_as E ho now c sz list_id m =
     on_write_store ho (chunk_to_obj_id c) ''no store for same_as'' (add_chunk_by_same_as E now c sz list_id) m"

section \<open>References, pins and anchors\<close>

definition ndm_apply_edge ::
  "'j ext_crates \<Rightarrow> (u8 list \<Rightarrow> u64) \<Rightarrow> u64 \<Rightarrow> edge_msg \<Rightarrow> 'f named_data_mgr \<Rightarrow>
   unit ndn_result \<times> 'f named_data_mgr" where
  "ndm_apply_edge E ho now msg m =
     on_write_store ho (em_referee msg) (''no store for referee '' @ obj_id_to_string E (em_referee msg))
       (\<lambda>st. (Ok (), ns_apply_edge E now msg st)) m"

definition ndm_pin ::
  "'j ext_crates \<Rightarrow> (u8 list \<Rightarrow> u64) \<Rightarrow> u64 \<Rightarrow> obj_id \<Rightarrow> string \<Rightarrow> pin_scope \<Rightarrow> u64 option \<Rightarrow>
   'f named_data_mgr \<Rightarrow> unit ndn_result \<times> 'f named_data_mgr" where
  "ndm_pin E ho now oid owner scope ttl m =
     on_write_store ho oid ''no store for pin'' (\<lambda>st. (Ok (), ns_pin E now oid owner scope ttl st)) m"

definition ndm_unpin ::
  "'j ext_crates \<Rightarrow> (u8 list \<Rightarrow> u64) \<Rightarrow> u64 \<Rightarrow> obj_id \<Rightarrow> string \<Rightarrow> 'f named_data_mgr \<Rightarrow>
   unit ndn_result \<times> 'f named_data_mgr" where
  "ndm_unpin E ho now oid owner m =
     on_write_store ho oid ''no store for unpin'' (\<lambda>st. (Ok (), ns_unpin E now oid owner st)) m"

text \<open>The methods that visit every registered store and add up the results.\<close>

fun each_store ::
  "('f named_store \<Rightarrow> nat \<times> 'f named_store) \<Rightarrow> (string \<times> 'f named_store) list \<Rightarrow>
   nat \<times> (string \<times> 'f named_store) list" where
  "each_store g [] = (0, [])"
| "each_store g ((sid, st) # sts) =
     (case g st of (n, st') \<Rightarrow> (case each_store g sts of (k, sts') \<Rightarrow> (n + k, (sid, st') # sts')))"

definition ndm_unpin_owner ::
  "'j ext_crates \<Rightarrow> u64 \<Rightarrow> string \<Rightarrow> 'f named_data_mgr \<Rightarrow> nat \<times> 'f named_data_mgr" where
  "ndm_unpin_owner E now owner m =
     (case each_store (ns_unpin_owner E now owner) (stores m) of (n, sts) \<Rightarrow> (n, m\<lparr>stores := sts\<rparr>))"

definition ndm_fs_acquire ::
  "'j ext_crates \<Rightarrow> (u8 list \<Rightarrow> u64) \<Rightarrow> u64 \<Rightarrow> obj_id \<Rightarrow> u64 \<Rightarrow> u32 \<Rightarrow> 'f named_data_mgr \<Rightarrow>
   unit ndn_result \<times> 'f named_data_mgr" where
  "ndm_fs_acquire E ho now oid inode tag m =
     on_write_store ho oid ''no store for fs_acquire'' (\<lambda>st. (Ok (), ns_fs_acquire E now oid inode tag st)) m"

definition ndm_fs_release ::
  "'j ext_crates \<Rightarrow> (u8 list \<Rightarrow> u64) \<Rightarrow> u64 \<Rightarrow> obj_id \<Rightarrow> u64 \<Rightarrow> u32 \<Rightarrow> 'f named_data_mgr \<Rightarrow>
   unit ndn_result \<times> 'f named_data_mgr" where
  "ndm_fs_release E ho now oid inode tag m =
     on_write_store ho oid ''no store for fs_release'' (\<lambda>st. (Ok (), ns_fs_release E now oid inode tag st)) m"

definition ndm_fs_release_inode ::
  "'j ext_crates \<Rightarrow> u64 \<Rightarrow> u64 \<Rightarrow> 'f named_data_mgr \<Rightarrow> nat \<times> 'f named_data_mgr" where
  "ndm_fs_release_inode E now inode m =
     (case each_store (ns_fs_release_inode E now inode) (stores m) of (n, sts) \<Rightarrow> (n, m\<lparr>stores := sts\<rparr>))"

definition ndm_fs_anchor_state ::
  "'j ext_crates \<Rightarrow> (u8 list \<Rightarrow> u64) \<Rightarrow> obj_id \<Rightarrow> u64 \<Rightarrow> u32 \<Rightarrow> 'f named_data_mgr \<Rightarrow> cascade_state_p0 ndn_result" where
  "ndm_fs_anchor_state E ho oid inode tag m =
     fst (on_write_store ho oid ''no store for fs_anchor_state''
            (\<lambda>st. (fs_anchor_state E oid inode tag (ns_db st), st)) m)"

definition ndm_anchor_state ::
  "'j ext_crates \<Rightarrow> (u8 list \<Rightarrow> u64) \<Rightarrow> obj_id \<Rightarrow> string \<Rightarrow> 'f named_data_mgr \<Rightarrow> cascade_state_p0 ndn_result" where
  "ndm_anchor_state E ho oid owner m =
     fst (on_write_store ho oid ''no store for anchor_state'' (\<lambda>st. (anchor_state E oid owner (ns_db st), st)) m)"

text \<open>
  \<open>forced_gc_until\<close> over the stores; the clock gives the times read in the first collection of a store
  (\<open>False\<close>) and in the second one (\<open>True\<close>).
\<close>

fun forced_gc_stores ::
  "'j ext_crates \<Rightarrow> 'f backend_ops \<Rightarrow> (string \<Rightarrow> bool \<Rightarrow> nat \<Rightarrow> u64) \<Rightarrow> u64 \<Rightarrow> (string \<times> 'f named_store) list \<Rightarrow>
   u64 \<Rightarrow> u64 \<times> (string \<times> 'f named_store) list" where
  "forced_gc_stores E B clk target [] total_freed = (total_freed, [])"
| "forced_gc_stores E B clk target ((sid, st) # sts) total_freed =
     (if target \<le> total_freed then (total_freed, (sid, st) # sts)
      else
        (let remaining = target - total_freed;
             (total_freed', st') =
               (case forced_gc_until E B (clk sid False) remaining st of
                  (Inr freed, st1) \<Rightarrow> (total_freed + freed, st1)
                | (Inl _, st1) \<Rightarrow>
                    (case gc_round E B (clk sid True) remaining st1 of
                       (report, st2) \<Rightarrow> (total_freed + freed_bytes report, st2)));
             (final_freed, sts') = forced_gc_stores E B clk target sts total_freed'
         in (final_freed, (sid, st') # sts')))"

definition ndm_forced_gc_until ::
  "'j ext_crates \<Rightarrow> 'f backend_ops \<Rightarrow> (string \<Rightarrow> bool \<Rightarrow> nat \<Rightarrow> u64) \<Rightarrow> u64 \<Rightarrow> 'f named_data_mgr \<Rightarrow>
   u64 ndn_result \<times> 'f named_data_mgr" where
  "ndm_forced_gc_until E B clk target m =
     (case forced_gc_stores E B clk target (stores m) 0 of
        (total_freed, sts) \<Rightarrow>
          (if target \<le> total_freed then Ok total_freed else Err (IoError ''ENOSPC: freed ''),
           m\<lparr>stores := sts\<rparr>))"

definition ndm_outbox_count :: "'f named_data_mgr \<Rightarrow> u64" where
  "ndm_outbox_count m = sum_list (map (\<lambda>(sid, st). outbox_count (ns_db st)) (stores m))"

section \<open>Opening the stores of a configuration\<close>

text \<open>
  A \<open>PathBuf\<close> is its components, absolute or relative.  The parsed configuration file, the directories
  that cannot be created, the database files and the two kinds of backend are parameters.
\<close>

datatype path_buf = AbsPath "string list" | RelPath "string list"

record store_config_entry =
  ce_store_id :: "string option"
  ce_path :: path_buf
  ce_device_did :: string
  ce_capacity :: "u64 option"
  ce_used :: "u64 option"
  ce_readonly :: bool
  ce_enabled :: bool
  ce_weight :: u32

record store_layout_config_file =
  lc_epoch :: u64
  lc_stores :: "store_config_entry list"
  lc_total_capacity :: "u64 option"
  lc_total_used :: "u64 option"

definition store_config_entry_default :: store_config_entry where
  "store_config_entry_default =
     \<lparr>ce_store_id = None, ce_path = RelPath [], ce_device_did = [], ce_capacity = None, ce_used = None,
      ce_readonly = False, ce_enabled = True, ce_weight = 1\<rparr>"

definition store_layout_config_file_default :: store_layout_config_file where
  "store_layout_config_file_default =
     \<lparr>lc_epoch = 1, lc_stores = [], lc_total_capacity = None, lc_total_used = None\<rparr>"

fun path_comps :: "path_buf \<Rightarrow> string list" where
  "path_comps (AbsPath cs) = cs"
| "path_comps (RelPath cs) = cs"

definition resolve_store_id :: "(nat \<Rightarrow> string) \<Rightarrow> store_config_entry \<Rightarrow> nat \<Rightarrow> string" where
  "resolve_store_id show_nat e index =
     (let by_path =
        (case path_file_name (path_comps (ce_path e)) of
           Some v \<Rightarrow> if v \<noteq> [] \<and> v \<noteq> ''..'' then v else ''store-'' @ show_nat (index + 1)
         | None \<Rightarrow> ''store-'' @ show_nat (index + 1))
      in case ce_store_id e of
           Some sid \<Rightarrow> if sid \<noteq> [] then sid else by_path
         | None \<Rightarrow> by_path)"

definition should_use_local_backend :: "store_config_entry \<Rightarrow> (string \<rightharpoonup> string) \<Rightarrow> bool" where
  "should_use_local_backend e links \<longleftrightarrow> links (ce_device_did e) = None"

text \<open>\<open>str::trim\<close> on ASCII text.\<close>

definition ascii_space :: "char \<Rightarrow> bool" where
  "ascii_space c \<longleftrightarrow> of_char c \<in> {9, 10, 11, 12, 13, 32 :: nat}"

definition str_trim :: "string \<Rightarrow> string" where
  "str_trim s = rev (dropWhile ascii_space (rev (dropWhile ascii_space s)))"

definition resolve_remote_store_base_url :: "store_config_entry \<Rightarrow> (string \<rightharpoonup> string) \<Rightarrow> string ndn_result" where
  "resolve_remote_store_base_url e links =
     and_then (ok_or (links (ce_device_did e)) (InvalidParam ''remote store missing http backend prefix''))
       (\<lambda>url. let url' = str_trim url
              in if url' = [] then Err (InvalidParam ''remote store has empty http backend prefix'') else Ok url')"

record 'f mgr_env =
  me_show_nat :: "nat \<Rightarrow> string"
  me_mkdir :: "string list \<Rightarrow> bool"
  me_open_db :: "string list \<Rightarrow> db"
  me_local_backend :: "string list \<Rightarrow> named_local_config \<Rightarrow> 'f"
  me_http_backend :: "string \<Rightarrow> 'f"

definition open_store_entry ::
  "'f mgr_env \<Rightarrow> string list \<Rightarrow> (string \<rightharpoonup> string) \<Rightarrow> nat \<Rightarrow> store_config_entry \<Rightarrow> 'f named_store ndn_result" where
  "open_store_entry V config_dir links index e =
     (if ce_path e = RelPath [] then Err (InvalidParam ''store config has empty path at index '')
      else
        (let store_path = (case ce_path e of AbsPath cs \<Rightarrow> cs | RelPath cs \<Rightarrow> config_dir @ cs)
         in if \<not> me_mkdir V store_path then Err (IoError ''create store dir failed: '')
            else
              (let store_id = resolve_store_id (me_show_nat V) e index;
                   config = named_local_config_default\<lparr>cfg_read_only := ce_readonly e\<rparr>
               in if should_use_local_backend e links then
                    Ok (from_config_with_backend (me_open_db V) (Some store_id) store_path config
                          (me_local_backend V store_path config))
                  else
                    and_then (resolve_remote_store_base_url e links) (\<lambda>base_url.
                      Ok (from_config_with_backend (me_open_db V) (Some store_id) store_path config
                            (me_http_backend V base_url))))))"

fun open_stores ::
  "'f mgr_env \<Rightarrow> string list \<Rightarrow> (string \<rightharpoonup> string) \<Rightarrow> nat \<Rightarrow> store_config_entry list \<Rightarrow>
   'f named_data_mgr \<times> store_target list \<times> u64 \<times> u64 \<times> string set \<Rightarrow>
   ('f named_data_mgr \<times> store_target list \<times> u64 \<times> u64) ndn_result" where
  "open_stores V dir links index [] (m, ts, cap, used, ids) = Ok (m, ts, cap, used)"
| "open_stores V dir links index (e # es) (m, ts, cap, used, ids) =
     and_then (open_store_entry V dir links index e) (\<lambda>st.
       let actual = ns_store_id st
       in if actual \<in> ids then Err (InvalidParam (''duplicate store_id '' @ actual))
          else open_stores V dir links (index + 1) es
                 (register_store st m,
                  ts @ [\<lparr>tg_store_id = actual, tg_device_did = ce_device_did e, tg_capacity = ce_capacity e,
                         tg_used = ce_used e, tg_readonly = ce_readonly e, tg_enabled = ce_enabled e,
                         tg_weight = ce_weight e\<rparr>],
                  cap + (case ce_capacity e of Some c \<Rightarrow> c | None \<Rightarrow> 0),
                  used + (case ce_used e of Some u \<Rightarrow> u | None \<Rightarrow> 0), insert actual ids))"

text \<open>The outer option is that of \<open>store_layout_new\<close>, which is never \<open>None\<close>.\<close>

definition get_store_mgr ::
  "'f mgr_env \<Rightarrow> (string \<Rightarrow> u64 \<Rightarrow> u64) \<Rightarrow> string list \<Rightarrow> (string \<rightharpoonup> string) \<Rightarrow>
   store_layout_config_file ndn_result \<Rightarrow> 'f named_data_mgr ndn_result option" where
  "get_store_mgr V hs config_dir links cfg_file =
     (case cfg_file of
        Inl e \<Rightarrow> Some (Err e)
      | Inr cfg \<Rightarrow>
          if length (lc_stores cfg) < 1 then Some (Err (InvalidParam ''store config must include at least 1 stores''))
          else
            (case open_stores V config_dir links 0 (lc_stores cfg) (ndm_new, [], 0, 0, {}) of
               Inl e \<Rightarrow> Some (Err e)
             | Inr (m, ts, cap, used) \<Rightarrow>
                 map_option (\<lambda>l. Ok (add_layout l m))
                   (store_layout_new hs (max (lc_epoch cfg) 1) ts
                      (case lc_total_capacity cfg of Some c \<Rightarrow> c | None \<Rightarrow> cap)
                      (case lc_total_used cfg of Some u \<Rightarrow> u | None \<Rightarrow> used))))"

end
