(* ===== verification/Ndm_Resolve.thy ===== *)
theory Ndm_Resolve
  imports Ndm
begin

text \<open>
  Following inner paths and the completeness check of \<open>NamedDataMgr\<close> (\<open>named_store/src/ndm.rs\<close>): the LRU
  cache of resolved paths, \<open>resolve_next_obj\<close>, \<open>open_object\<close>, \<open>get_dir_child\<close>, \<open>is_object_stored\<close>.

  Deserializing a JSON value and looking up a JSON path are third-party code, the record \<open>J\<close>.  A method
  that may panic or recurse forever has an option as its result, \<open>None\<close> when it does not return.
  \<open>is_object_fully_stored\<close> recurses over the stored objects without a bound of its own, so it is a partial
  function.
\<close>

section \<open>Loading objects\<close>

record 'j value_crates =
  dir_from_value :: "'j \<Rightarrow> ('j \<times> (string \<times> 'j) list \<times> u64 \<times> u64 \<times> u64 \<times> (string \<times> 'j) list) option"
  file_from_value :: "'j \<Rightarrow> 'j file_object option"
  get_by_json_path :: "'j \<Rightarrow> string \<Rightarrow> 'j option"

definition load_named_object_from_obj_str :: "'j ext_crates \<Rightarrow> string \<Rightarrow> 'j ndn_result" where
  "load_named_object_from_obj_str E s =
     (let head = dropWhile ascii_space s
      in if take 1 head = ''{'' \<or> take 1 head = ''['' then
           ok_or (json_from_str E s) (InvalidId ''failed to parse obj_str:'')
         else ok_or (jwt_claims E s) (DecodeError ''decode jwt failed:''))"

text \<open>\<open>load_named_obj\<close> at the types \<open>DirObject\<close> and \<open>FileObject\<close>.\<close>

definition load_dir_object :: "'j ext_crates \<Rightarrow> 'j value_crates \<Rightarrow> string \<Rightarrow> 'j dir_object ndn_result" where
  "load_dir_object E J s =
     and_then (load_named_object_from_obj_str E s) (\<lambda>v.
       case dir_from_value J v of
         None \<Rightarrow> Err (DecodeError ''deserialize object from obj_data_str failed: '')
       | Some (c, mt, tot, cnt, sz, body) \<Rightarrow>
           (case collect_results (map (\<lambda>(k, v). and_then (simple_map_item_deserialize E v) (\<lambda>it. Ok (k, it))) body) of
              Inl _ \<Rightarrow> Err (DecodeError ''deserialize object from obj_data_str failed: '')
            | Inr items \<Rightarrow> Ok \<lparr>dir_content_obj = c, dir_meta = mt, dir_total_size = tot, dir_file_count = cnt,
                                dir_file_size = sz, dir_body = items\<rparr>))"

definition load_file_object :: "'j ext_crates \<Rightarrow> 'j value_crates \<Rightarrow> string \<Rightarrow> 'j file_object ndn_result" where
  "load_file_object E J s =
     and_then (load_named_object_from_obj_str E s) (\<lambda>v.
       ok_or (file_from_value J v) (DecodeError ''deserialize object from obj_data_str failed: ''))"

definition extract_objid_by_path :: "'j ext_crates \<Rightarrow> 'j value_crates \<Rightarrow> 'j \<Rightarrow> string \<Rightarrow> obj_id ndn_result" where
  "extract_objid_by_path E J v path =
     and_then (ok_or (get_by_json_path J v path) (InvalidParam (''objid path not found: '' @ path))) (\<lambda>target.
       case obj_id_from_value E target of
         Inr oid \<Rightarrow> Ok oid
       | Inl _ \<Rightarrow> Err (InvalidData (''invalid objid at path '' @ path)))"

section \<open>The cache of resolved paths\<close>

type_synonym cache_key = "obj_id \<times> string"

type_synonym resolved = "obj_id \<times> string option \<times> string option"

text \<open>The \<open>BTreeMap\<close> of entry identifiers is an association list; its first element is the least key.\<close>

record resolve_cache =
  rc_entries :: "(cache_key \<times> (resolved \<times> u64)) list"
  rc_lru_order :: "(u64 \<times> cache_key) list"
  rc_next_entry_id :: u64
  rc_max_entries :: nat

definition DEFAULT_RESOLVE_NEXT_OBJ_CACHE_MAX_ENTRIES :: nat where
  "DEFAULT_RESOLVE_NEXT_OBJ_CACHE_MAX_ENTRIES = 10000"

definition cache_new :: "nat \<Rightarrow> resolve_cache" where
  "cache_new n = \<lparr>rc_entries = [], rc_lru_order = [], rc_next_entry_id = 0, rc_max_entries = n\<rparr>"

definition cache_get :: "obj_id \<Rightarrow> string \<Rightarrow> resolve_cache \<Rightarrow> resolved option \<times> resolve_cache" where
  "cache_get oid path c =
     (case map_of (rc_entries c) (oid, path) of
        None \<Rightarrow> (None, c)
      | Some (v, eid) \<Rightarrow>
          (let new_id = rc_next_entry_id c
           in (Some v, c\<lparr>rc_lru_order := AList.update new_id (oid, path) (AList.delete eid (rc_lru_order c)),
                         rc_next_entry_id := new_id + 1,
                         rc_entries := AList.update (oid, path) (v, new_id) (rc_entries c)\<rparr>)))"

definition lru_first :: "(u64 \<times> cache_key) list \<Rightarrow> (u64 \<times> cache_key) option" where
  "lru_first xs = (case xs of [] \<Rightarrow> None | _ \<Rightarrow> Some (hd (sort_key fst xs)))"

lemma lru_first_mem:
  assumes "lru_first xs = Some p"
  shows "p \<in> set xs"
proof -
  have "xs \<noteq> []" "p = hd (sort_key fst xs)" using assms by (auto simp: lru_first_def split: list.splits)
  then show ?thesis using hd_in_set [of "sort_key fst xs"] by (metis length_0_conv length_sort set_sort)
qed

function cache_evict :: "resolve_cache \<Rightarrow> resolve_cache" where
  "cache_evict c =
     (if rc_max_entries c < length (rc_entries c) then
        (case lru_first (rc_lru_order c) of
           None \<Rightarrow> c
         | Some (oldest_id, oldest_key) \<Rightarrow>
             cache_evict (c\<lparr>rc_lru_order := AList.delete oldest_id (rc_lru_order c),
                            rc_entries := AList.delete oldest_key (rc_entries c)\<rparr>))
      else c)"
  by pat_completeness auto
termination
proof (relation "measure (\<lambda>c. length (rc_lru_order c))")
  fix c p oldest_id oldest_key
  assume "lru_first (rc_lru_order c) = Some p" "(oldest_id, oldest_key) = p"
  then have "(oldest_id, oldest_key) \<in> set (rc_lru_order c)" by (auto dest: lru_first_mem)
  then have "length (AList.delete oldest_id (rc_lru_order c)) < length (rc_lru_order c)"
    by (auto simp: AList.delete_eq intro!: length_filter_less)
  then show "(c\<lparr>rc_lru_order := AList.delete oldest_id (rc_lru_order c),
                rc_entries := AList.delete oldest_key (rc_entries c)\<rparr>, c) \<in> measure (\<lambda>c. length (rc_lru_order c))"
    by simp
qed simp

declare cache_evict.simps [simp del]

definition cache_put :: "obj_id \<Rightarrow> string \<Rightarrow> resolved \<Rightarrow> resolve_cache \<Rightarrow> resolve_cache" where
  "cache_put oid path v c =
     (if rc_max_entries c = 0 then c
      else
        (let key = (oid, path);
             c1 = (case map_of (rc_entries c) key of
                     None \<Rightarrow> c
                   | Some (_, old) \<Rightarrow> c\<lparr>rc_entries := AList.delete key (rc_entries c),
                                       rc_lru_order := AList.delete old (rc_lru_order c)\<rparr>);
             entry_id = rc_next_entry_id c1
         in cache_evict
              (c1\<lparr>rc_next_entry_id := entry_id + 1,
                  rc_lru_order := AList.update entry_id key (rc_lru_order c1),
                  rc_entries := AList.update key (v, entry_id) (rc_entries c1)\<rparr>)))"

section \<open>Inner paths\<close>

definition normalize_inner_path :: "string option \<Rightarrow> string option" where
  "normalize_inner_path p =
     (case p of
        None \<Rightarrow> None
      | Some s \<Rightarrow>
          (let path = str_trim s
           in if path = [] \<or> path = ''/'' then None
              else if take 1 path = ''/'' then Some path else Some (CHR ''/'' # path)))"

text \<open>\<open>path.split('/').filter(|s| !s.is_empty())\<close>\<close>

definition segments :: "string \<Rightarrow> string list" where
  "segments path = filter (\<lambda>s. s \<noteq> []) (str_split (CHR ''/'') path)"

definition rest_path :: "string list \<Rightarrow> string option" where
  "rest_path segs = (if segs = [] then None else Some (CHR ''/'' # str_join (CHR ''/'') segs))"

definition split_first_segment :: "string \<Rightarrow> (string \<times> string option) ndn_result" where
  "split_first_segment path =
     (case segments path of
        [] \<Rightarrow> Err (InvalidParam ''empty inner path'')
      | first # others \<Rightarrow> Ok (first, rest_path others))"

text \<open>The candidate prefixes of a path, the longest first.\<close>

fun try_prefixes ::
  "'j ext_crates \<Rightarrow> 'j value_crates \<Rightarrow> 'j \<Rightarrow> string list \<Rightarrow> nat \<Rightarrow> ndn_error option \<Rightarrow> resolved ndn_result" where
  "try_prefixes E J v segs 0 last_err =
     Err (case last_err of Some e \<Rightarrow> e | None \<Rightarrow> NotFound ''objid path not found: '')"
| "try_prefixes E J v segs (Suc i) last_err =
     (case extract_objid_by_path E J v (CHR ''/'' # str_join (CHR ''/'') (take (Suc i) segs)) of
        Inr next \<Rightarrow> Ok (next, rest_path (drop (Suc i) segs), None)
      | Inl e \<Rightarrow> try_prefixes E J v segs i (Some e))"

text \<open>\<open>None\<close>: the branch for chunk lists is \<open>unimplemented!()\<close>.\<close>

definition resolve_next_obj_once ::
  "'j ext_crates \<Rightarrow> 'j value_crates \<Rightarrow> obj_id \<Rightarrow> string \<Rightarrow> string \<Rightarrow> resolved ndn_result option" where
  "resolve_next_obj_once E J oid obj_str path =
     (if is_dir_object oid then
        Some (and_then (load_dir_object E J obj_str) (\<lambda>d.
              and_then (split_first_segment path) (\<lambda>(segment, rest).
              and_then (ok_or (map_of (dir_body d) segment) (NotFound (''path not found: '' @ segment))) (\<lambda>item.
                case item of
                  ItemObjId next \<Rightarrow> Ok (next, rest, None)
                | _ \<Rightarrow> and_then (item_get_obj_id E item) (\<lambda>(next, s). Ok (next, rest, Some s))))))
      else if is_chunk_list oid then None
      else
        Some (and_then (load_named_object_from_obj_str E obj_str) (\<lambda>v.
              let segs = segments path
              in if segs = [] then Err (InvalidParam ''empty inner path'')
                 else try_prefixes E J v segs (length segs) None)))"

text \<open>Every step consumes a segment of the path.\<close>

lemma segments_props: "s \<in> set (segments path) \<Longrightarrow> s \<noteq> [] \<and> CHR ''/'' \<notin> set s"
  by (auto simp: segments_def dest: str_split_pieces)

lemma segments_rest:
  assumes "rest_path segs = Some path" and "\<forall>s \<in> set segs. s \<noteq> [] \<and> CHR ''/'' \<notin> set s"
  shows "segments path = segs"
proof -
  have p: "segs \<noteq> []" "path = CHR ''/'' # str_join (CHR ''/'') segs"
    using assms(1) by (auto simp: rest_path_def split: if_splits)
  with assms(2) have "str_split (CHR ''/'') (str_join (CHR ''/'') segs) = segs" by (intro str_split_join) auto
  with assms(2) p show ?thesis by (simp add: segments_def filter_id_conv)
qed

lemma try_prefixes_rest:
  assumes "try_prefixes E J v segs i e = Ok (next, rest, hint)" and "i \<le> length segs"
  shows "\<exists>k. 0 < k \<and> k \<le> length segs \<and> rest = rest_path (drop k segs)"
  using assms by (induction i arbitrary: e) (auto split: sum.splits)

lemma resolve_once_consumes:
  assumes "resolve_next_obj_once E J oid obj_str path = Some (Ok (next, Some rest, hint))"
  shows "length (segments rest) < length (segments path)"
proof -
  obtain k where k: "0 < k" "k \<le> length (segments path)" "rest_path (drop k (segments path)) = Some rest"
  proof (cases "is_dir_object oid")
    case True
    then obtain seg others where "segments path = seg # others" "rest_path others = Some rest"
      using assms by (auto simp: resolve_next_obj_once_def and_then_def split_first_segment_def ok_or_def
          split: sum.splits list.splits option.splits simple_map_item.splits prod.splits)
    with that [of 1] show ?thesis by simp
  next
    case False
    then show ?thesis
      using assms that
      by (auto simp: resolve_next_obj_once_def and_then_def Let_def split: sum.splits if_splits
          dest!: try_prefixes_rest)
  qed
  then have "segments rest = drop k (segments path)"
    by (intro segments_rest) (auto dest!: in_set_dropD segments_props)
  with k show ?thesis by simp
qed

definition put_all :: "cache_key list \<Rightarrow> resolved \<Rightarrow> resolve_cache \<Rightarrow> resolve_cache" where
  "put_all ks v c = fold (\<lambda>(oid, path). cache_put oid path v) ks c"

text \<open>\<open>G\<close> is \<open>get_object\<close> of the manager.\<close>

function resolve_next_obj ::
  "'j ext_crates \<Rightarrow> 'j value_crates \<Rightarrow> (obj_id \<Rightarrow> string ndn_result) \<Rightarrow> obj_id \<Rightarrow> string \<Rightarrow> string \<Rightarrow>
   cache_key list \<Rightarrow> resolve_cache \<Rightarrow> (resolved ndn_result \<times> resolve_cache) option" where
  "resolve_next_obj E J G oid obj_str path pending c =
     (case cache_get oid path c of
        (Some v, c1) \<Rightarrow> Some (Ok v, put_all pending v c1)
      | (None, c1) \<Rightarrow>
          if is_chunk oid then
            Some (Err (InvalidParam (''chunk '' @ obj_id_to_string E oid @ '' does not support inner path'')), c1)
          else
            (let pending1 = pending @ [(oid, path)]
             in case resolve_next_obj_once E J oid obj_str path of
                  None \<Rightarrow> None
                | Some (Inl e) \<Rightarrow> Some (Err e, c1)
                | Some (Inr (next, Some rest, hint)) \<Rightarrow>
                    (case (case hint of Some s \<Rightarrow> Ok s | None \<Rightarrow> G next) of
                       Inl e \<Rightarrow> Some (Err e, c1)
                     | Inr s \<Rightarrow> resolve_next_obj E J G next s rest pending1 c1)
                | Some (Inr (next, None, hint)) \<Rightarrow>
                    Some (Ok (next, None, hint), put_all pending1 (next, None, hint) c1)))"
  by pat_completeness auto
termination
  by (relation "measure (\<lambda>(E, J, G, oid, obj_str, path, pending, c). length (segments path))")
    (auto dest: resolve_once_consumes)

declare resolve_next_obj.simps [simp del]

text \<open>
  \<open>open_object\<close>: the loop ends when the path is used up.  What \<open>resolve_next_obj\<close> returns has no path left,
  but a cached value could have one, so the loop is a partial function.
\<close>

partial_function (option) open_loop ::
  "'j ext_crates \<Rightarrow> 'j value_crates \<Rightarrow> (obj_id \<Rightarrow> string ndn_result) \<Rightarrow> obj_id \<Rightarrow> string option \<Rightarrow> string option \<Rightarrow>
   resolve_cache \<Rightarrow> (string ndn_result \<times> resolve_cache) option" where
  "open_loop E J G oid path hint c =
     (if is_chunk oid then Some (Err (InvalidObjType (obj_id_to_string E oid @ '' is chunk'')), c)
      else
        (case (case hint of Some s \<Rightarrow> Ok s | None \<Rightarrow> G oid) of
           Inl e \<Rightarrow> Some (Err e, c)
         | Inr s \<Rightarrow>
             (case path of
                None \<Rightarrow> Some (Ok s, c)
              | Some p \<Rightarrow>
                  Option.bind (resolve_next_obj E J G oid s p [] c) (\<lambda>(r, c1).
                    case r of
                      Inl e \<Rightarrow> Some (Err e, c1)
                    | Inr (next, path', hint') \<Rightarrow> open_loop E J G next path' hint' c1))))"

definition open_object ::
  "'j ext_crates \<Rightarrow> 'j value_crates \<Rightarrow> (obj_id \<Rightarrow> string ndn_result) \<Rightarrow> obj_id \<Rightarrow> string option \<Rightarrow>
   resolve_cache \<Rightarrow> (string ndn_result \<times> resolve_cache) option" where
  "open_object E J G oid inner_path c = open_loop E J G oid (normalize_inner_path inner_path) None c"

text \<open>\<open>get_dir_child\<close> stores an embedded child, so that it can be read by its identifier.\<close>

definition ndm_get_dir_child ::
  "'j ext_crates \<Rightarrow> 'j value_crates \<Rightarrow> (u8 list \<Rightarrow> u64) \<Rightarrow> u64 \<Rightarrow> obj_id \<Rightarrow> string \<Rightarrow> 'f named_data_mgr \<Rightarrow>
   obj_id ndn_result \<times> 'f named_data_mgr" where
  "ndm_get_dir_child E J ho now dir_id item_name m =
     (if \<not> is_dir_object dir_id then (Err (InvalidObjType ''must be dirobject''), m)
      else
        (case and_then (ndm_get_object E ho dir_id m) (\<lambda>s.
              and_then (load_dir_object E J s) (\<lambda>d.
              and_then (ok_or (map_of (dir_body d) item_name) (NotFound (''child '' @ item_name @ '' not found in dir '')))
                (item_get_obj_id E))) of
           Inl e \<Rightarrow> (Err e, m)
         | Inr (oid, obj_str) \<Rightarrow>
             if obj_str \<noteq> [] then
               (case ndm_put_object E ho now oid obj_str m of
                  (Inl e, m1) \<Rightarrow> (Err e, m1)
                | (Inr _, m1) \<Rightarrow> (Ok oid, m1))
             else (Ok oid, m)))"

section \<open>Completeness of a stored object\<close>

text \<open>A loop over children: it stops at the first error and at the first child that is not stored.\<close>

fun all_stored :: "('a \<Rightarrow> bool ndn_result option) \<Rightarrow> 'a list \<Rightarrow> bool ndn_result option" where
  "all_stored f [] = Some (Ok True)"
| "all_stored f (x # xs) =
     Option.bind (f x) (\<lambda>r. case r of Inl e \<Rightarrow> Some (Err e) | Inr b \<Rightarrow> if b then all_stored f xs else Some (Ok False))"

lemma all_stored_mono [partial_function_mono]:
  assumes "\<And>y. mono_option (\<lambda>f. C y f)"
  shows "mono_option (\<lambda>f. all_stored (\<lambda>y. C y f) xs)"
proof (induction xs)
  case (Cons x xs)
  show ?case unfolding all_stored.simps
  proof (intro bind_mono assms)
    fix r :: "bool ndn_result"
    show "mono_option (\<lambda>f. case r of Inl e \<Rightarrow> Some (Err e) | Inr b \<Rightarrow> if b then all_stored (\<lambda>y. C y f) xs else Some (Ok False))"
      using Cons by (cases r; cases "projr r") (simp_all add: option.const_mono)
  qed
qed (simp add: option.const_mono)

partial_function (option) is_object_fully_stored ::
  "'j ext_crates \<Rightarrow> 'j value_crates \<Rightarrow> (u8 list \<Rightarrow> u64) \<Rightarrow> 'f named_data_mgr \<Rightarrow> obj_id \<Rightarrow> string option \<Rightarrow>
   bool ndn_result option" where
  "is_object_fully_stored E J ho m oid hint =
     (if is_chunk oid then
        (case ndm_query_chunk_state E ho (chunk_from_obj_id oid) m of
           Inl e \<Rightarrow> Some (Err e)
         | Inr (cs, sz) \<Rightarrow>
             (case cs of
                Completed \<Rightarrow> Some (Ok True)
              | LocalLink _ \<Rightarrow> Some (Ok True)
              | SameAs list_id \<Rightarrow> is_object_fully_stored E J ho m list_id None
              | _ \<Rightarrow> Some (Ok False)))
      else if is_chunk_list oid then
        (case and_then (case hint of Some s \<Rightarrow> Ok s | None \<Rightarrow> ndm_get_object E ho oid m) (chunk_list_from_json E) of
           Inl e \<Rightarrow> Some (Err e)
         | Inr cl \<Rightarrow> all_stored (\<lambda>c. is_object_fully_stored E J ho m (chunk_to_obj_id c) None) (cl_body cl))
      else
        (case (case hint of Some s \<Rightarrow> Ok (ObjData s) | None \<Rightarrow> ndm_query_object_by_id E ho oid m) of
           Inl e \<Rightarrow> Some (Err e)
         | Inr ObjNotExist \<Rightarrow> Some (Ok False)
         | Inr (ObjData s) \<Rightarrow>
             if is_file_object oid then
               (case load_file_object E J s of
                  Inl e \<Rightarrow> Some (Err e)
                | Inr f \<Rightarrow>
                    if fo_content f = [] then Some (Ok True)
                    else (case obj_id_new E (fo_content f) of
                            Inl e \<Rightarrow> Some (Err e)
                          | Inr content_id \<Rightarrow> is_object_fully_stored E J ho m content_id None))
             else if is_dir_object oid then
               (case load_dir_object E J s of
                  Inl e \<Rightarrow> Some (Err e)
                | Inr d \<Rightarrow>
                    all_stored (\<lambda>it. case item_get_obj_id E it of
                        Inl e \<Rightarrow> Some (Err e)
                      | Inr (child, child_str) \<Rightarrow>
                          is_object_fully_stored E J ho m child (if child_str = [] then None else Some child_str))
                      (map snd (dir_body d)))
             else Some (Ok True)))"

text \<open>\<open>is_object_stored\<close>: follow the path, then check what it leads to.\<close>

partial_function (option) stored_loop ::
  "'j ext_crates \<Rightarrow> 'j value_crates \<Rightarrow> (u8 list \<Rightarrow> u64) \<Rightarrow> 'f named_data_mgr \<Rightarrow> obj_id \<Rightarrow> string option \<Rightarrow> string option \<Rightarrow>
   resolve_cache \<Rightarrow> (bool ndn_result \<times> resolve_cache) option" where
  "stored_loop E J ho m oid path hint c =
     (case path of
        None \<Rightarrow> map_option (\<lambda>r. (r, c)) (is_object_fully_stored E J ho m oid hint)
      | Some p \<Rightarrow>
          if is_chunk oid then
            Some (Err (InvalidParam (''chunk '' @ obj_id_to_string E oid @ '' does not support inner path'')), c)
          else
            (case (case hint of Some s \<Rightarrow> Ok s | None \<Rightarrow> ndm_get_object E ho oid m) of
               Inl e \<Rightarrow> Some (Err e, c)
             | Inr s \<Rightarrow>
                 Option.bind (resolve_next_obj E J (\<lambda>i. ndm_get_object E ho i m) oid s p [] c) (\<lambda>(r, c1).
                   case r of
                     Inl e \<Rightarrow> Some (Err e, c1)
                   | Inr (next, path', hint') \<Rightarrow> stored_loop E J ho m next path' hint' c1)))"

definition is_object_stored ::
  "'j ext_crates \<Rightarrow> 'j value_crates \<Rightarrow> (u8 list \<Rightarrow> u64) \<Rightarrow> 'f named_data_mgr \<Rightarrow> obj_id \<Rightarrow> string option \<Rightarrow>
   resolve_cache \<Rightarrow> (bool ndn_result \<times> resolve_cache) option" where
  "is_object_stored E J ho m oid inner_path c = stored_loop E J ho m oid (normalize_inner_path inner_path) None c"

definition ndm_have_chunk ::
  "'j ext_crates \<Rightarrow> 'j value_crates \<Rightarrow> (u8 list \<Rightarrow> u64) \<Rightarrow> 'f named_data_mgr \<Rightarrow> chunk_id \<Rightarrow> resolve_cache \<Rightarrow> bool option" where
  "ndm_have_chunk E J ho m cid c =
     map_option (\<lambda>(r, c1). case r of Inr b \<Rightarrow> b | Inl _ \<Rightarrow> False) (is_object_stored E J ho m (chunk_to_obj_id cid) None c)"

end
