(* ===== verification/Named_Store_Props.thy ===== *)
theory Named_Store_Props
  imports Named_Store "HOL-Library.Multiset"
begin

text \<open>
  Correctness of \<open>NamedStore\<close>: the garbage collector refines a one-pass eviction in order of last
  access that never touches a protected object; chunk writes, reads and local links; what read-only
  stores refuse.
\<close>

section \<open>The reference collector\<close>

text \<open>Victims in order of last access, up to and including the one that reaches the target.\<close>

fun victims :: "u64 \<Rightarrow> u64 \<Rightarrow> object_row list \<Rightarrow> object_row list" where
  "victims target acc [] = []"
| "victims target acc (r # rs) =
     (let acc' = acc + as_u64 (o_owned r)
      in r # (if target \<le> acc' then [] else victims target acc' rs))"

definition lru_order :: "db \<Rightarrow> object_row list" where
  "lru_order s = sort_key o_access (candidates s)"

definition gc_victims :: "u64 \<Rightarrow> db \<Rightarrow> object_row list" where
  "gc_victims target s =
     (if target = 0 then take batch_size (lru_order s) else victims target 0 (lru_order s))"

definition evict_rows :: "object_row list \<Rightarrow> db \<Rightarrow> db" where
  "evict_rows vs s =
     s\<lparr>objects := filter (\<lambda>r. o_id r \<notin> o_id ` set vs) (objects s),
       chunk_items := filter (\<lambda>c. c_id c \<notin> o_id ` set vs) (chunk_items s)\<rparr>"

definition owned_sum :: "object_row list \<Rightarrow> u64" where
  "owned_sum vs = sum_list (map (\<lambda>r. as_u64 (o_owned r)) vs)"

definition victim_kind :: "'j ext_crates \<Rightarrow> bool \<Rightarrow> object_row \<Rightarrow> bool" where
  "victim_kind E chunk r \<longleftrightarrow> (case obj_id_new E (o_id r) of Inr oid \<Rightarrow> is_chunk oid = chunk | Inl _ \<Rightarrow> False)"

text \<open>Deletion of the victims that are chunks from the backend.\<close>

fun remove_victims :: "'j ext_crates \<Rightarrow> 'f backend_ops \<Rightarrow> object_row list \<Rightarrow> 'f \<Rightarrow> 'f" where
  "remove_victims E B [] f = f"
| "remove_victims E B (r # rs) f =
     remove_victims E B rs
       (case obj_id_new E (o_id r) of
          Inr oid \<Rightarrow> if is_chunk oid then snd (be_remove_chunk B (chunk_from_obj_id oid) f) else f
        | Inl _ \<Rightarrow> f)"

definition gc_tally :: "'j ext_crates \<Rightarrow> object_row list \<Rightarrow> gc_report \<Rightarrow> gc_report" where
  "gc_tally E vs rep =
     rep\<lparr>freed_bytes := freed_bytes rep + owned_sum vs,
         evicted_objects := evicted_objects rep + of_nat (length (filter (victim_kind E False) vs)),
         evicted_chunks := evicted_chunks rep + of_nat (length (filter (victim_kind E True) vs))\<rparr>"

definition after_gc :: "'j ext_crates \<Rightarrow> 'f backend_ops \<Rightarrow> object_row list \<Rightarrow> 'f named_store \<Rightarrow> 'f named_store" where
  "after_gc E B vs st =
     st\<lparr>ns_db := evict_rows vs (ns_db st), ns_backend := remove_victims E B vs (ns_backend st)\<rparr>"

lemma owned_sum_simps [simp]:
  "owned_sum [] = 0" "owned_sum (r # rs) = as_u64 (o_owned r) + owned_sum rs"
  by (simp_all add: owned_sum_def)

lemma owned_sum_append [simp]: "owned_sum (xs @ ys) = owned_sum xs + owned_sum ys"
  by (simp add: owned_sum_def)

lemma tally_Nil [simp]: "gc_tally E [] rep = rep"
  by (simp add: gc_tally_def)

lemma tally_append: "gc_tally E ys (gc_tally E xs rep) = gc_tally E (xs @ ys) rep"
  by (simp add: gc_tally_def add.assoc)

lemma freed_tally [simp]: "freed_bytes (gc_tally E vs rep) = freed_bytes rep + owned_sum vs"
  by (simp add: gc_tally_def)

lemma remove_victims_append: "remove_victims E B (xs @ ys) f = remove_victims E B ys (remove_victims E B xs f)"
  by (induction xs arbitrary: f) auto

lemma evict_rows_append: "evict_rows ys (evict_rows xs s) = evict_rows (xs @ ys) s"
  by (simp add: evict_rows_def image_Un conj_commute cong: filter_cong)

lemma evict_rows_Nil [simp]: "evict_rows [] s = s"
  by (simp add: evict_rows_def)

lemma after_gc_append: "after_gc E B ys (after_gc E B xs st) = after_gc E B (xs @ ys) st"
  by (simp add: after_gc_def evict_rows_append remove_victims_append)

lemma after_gc_Nil [simp]: "after_gc E B [] st = st"
  by (simp add: after_gc_def)

lemma candidates_evict_rows:
  "candidates (evict_rows vs s) = filter (\<lambda>r. o_id r \<notin> o_id ` set vs) (candidates s)"
  by (simp add: candidates_def evict_rows_def conj_commute)

lemma victims_append:
  "acc < target \<Longrightarrow> victims target acc (xs @ ys) =
     (if target \<le> acc + owned_sum (victims target acc xs) then victims target acc xs
      else xs @ victims target (acc + owned_sum xs) ys)"
  by (induction xs arbitrary: acc) (auto simp: Let_def add.assoc not_le)

lemma victims_unreached:
  "acc < target \<Longrightarrow> acc + owned_sum (victims target acc xs) < target \<Longrightarrow> victims target acc xs = xs"
  by (induction xs arbitrary: acc) (auto simp: Let_def add.assoc not_le split: if_splits)

lemma filter_drop_keys:
  assumes "distinct (map g L)"
  shows "filter (\<lambda>x. g x \<notin> g ` set (take n L)) L = drop n L"
proof -
  let ?P = "\<lambda>x. g x \<notin> g ` set (take n L)"
  have "distinct (map g (take n L) @ map g (drop n L))"
    using assms by (metis append_take_drop_id map_append)
  then have "filter ?P (drop n L) = drop n L" by (intro filter_True) auto
  moreover have "filter ?P (take n L) = []" by (intro filter_False) auto
  ultimately show ?thesis by (metis append_self_conv2 append_take_drop_id filter_append)
qed

section \<open>The loop refines the reference\<close>

definition clock_from :: "u64 \<Rightarrow> (nat \<Rightarrow> u64) \<Rightarrow> bool" where
  "clock_from now clk \<longleftrightarrow> (\<forall>i. as_i64 now \<le> as_i64 (clk i))"

definition owned_fit :: "db \<Rightarrow> bool" where
  "owned_fit s \<longleftrightarrow> (\<forall>r \<in> set (objects s). o_owned r < 2 ^ 63)"

lemma unprotected_later:
  assumes "\<not> protected now k s" and "as_i64 now \<le> as_i64 t"
  shows "\<not> protected t k s"
proof -
  have "pin_live t p \<Longrightarrow> pin_live now p" for p
    using assms(2) by (auto simp: pin_live_def split: option.splits)
  then have "has_active_pin t k s \<Longrightarrow> has_active_pin now k s"
    by (auto simp: has_active_pin_def sql_simps)
  with assms(1) show ?thesis by (auto simp: protected_def)
qed

lemma as_u64_pos: "0 < i \<Longrightarrow> i < 2 ^ 63 \<Longrightarrow> 0 < as_u64 i"
  by (simp add: as_u64_def word_less_def uint_word_of_int)

lemma candidate_evicted:
  assumes "db_inv E now s" and "r \<in> set (candidates s)" and "as_i64 now \<le> as_i64 t"
  shows "try_evict_object t (o_id r) s = (as_u64 (o_owned r), evict_rows [r] s)"
    and "db_inv E now (evict_rows [r] s)"
proof -
  have row: "obj_row (o_id r) s = Some r"
    using table_row_obj_row [OF db_invD(1) [OF assms(1)]] assms(2) by (simp add: candidates_def)
  then have np: "\<not> protected now (o_id r) s"
    using class0_unprotected [OF assms(1) row] assms(2) by (simp add: candidates_def gc_candidate_def)
  have del: "s\<lparr>objects := sql_delete (\<lambda>x. o_id x = o_id r) (objects s),
      chunk_items := sql_delete (\<lambda>c. c_id c = o_id r) (chunk_items s)\<rparr> = evict_rows [r] s"
    by (simp add: evict_rows_def sql_delete_def)
  show "try_evict_object t (o_id r) s = (as_u64 (o_owned r), evict_rows [r] s)"
    using unprotected_later [OF np assms(3)] row del by (simp add: try_evict_cases)
  show "db_inv E now (evict_rows [r] s)"
    using db_inv_try_evict [OF assms(1), of "o_id r"] np del by (simp add: try_evict_cases)
qed

lemma candidates_evict_one:
  assumes "distinct (map o_id (r # rs))" and "set (r # rs) \<subseteq> set (candidates s)"
  shows "set rs \<subseteq> set (candidates (evict_rows [r] s))"
proof
  fix x
  assume "x \<in> set rs"
  with assms(1) have "o_id x \<noteq> o_id r" by (auto simp: image_iff)
  with \<open>x \<in> set rs\<close> assms(2) show "x \<in> set (candidates (evict_rows [r] s))"
    by (auto simp: candidates_evict_rows)
qed

lemma tally_one:
  "gc_tally E [r] rep =
     (case obj_id_new E (o_id r) of Inl _ \<Rightarrow> rep
      | Inr oid \<Rightarrow> if is_chunk oid then rep\<lparr>evicted_chunks := evicted_chunks rep + 1\<rparr>
                   else rep\<lparr>evicted_objects := evicted_objects rep + 1\<rparr>)
     \<lparr>freed_bytes := freed_bytes rep + as_u64 (o_owned r)\<rparr>"
  by (auto simp: gc_tally_def victim_kind_def split: sum.splits)

lemma gc_batch_step:
  assumes "db_inv E now (ns_db st)" and "clock_from now clk" and "r \<in> set (candidates (ns_db st))"
    and "0 < as_u64 (o_owned r)"
  shows "gc_batch E B clk target ((o_id r, x) # cs) i rep st =
    (if 0 < target \<and> target \<le> freed_bytes (gc_tally E [r] rep)
     then (True, Suc i, gc_tally E [r] rep, after_gc E B [r] st)
     else gc_batch E B clk target cs (Suc i) (gc_tally E [r] rep) (after_gc E B [r] st))"
  using candidate_evicted(1) [OF assms(1,3), of "clk i"] assms(2,4)
  by (auto simp: gc_batch.simps(2) clock_from_def tally_one after_gc_def Let_def split: sum.splits)

declare gc_batch.simps(2) [simp del]

lemma gc_batch_spec:
  assumes "db_inv E now (ns_db st)" and "clock_from now clk" and "distinct (map o_id rs)"
    and "set rs \<subseteq> set (candidates (ns_db st))" and "\<forall>r \<in> set rs. 0 < as_u64 (o_owned r)"
    and "target = 0 \<or> freed_bytes rep < target"
  shows "\<exists>i'. gc_batch E B clk target (map (\<lambda>r. (o_id r, as_u64 (o_owned r))) rs) i rep st =
    (let vs = (if target = 0 then rs else victims target (freed_bytes rep) rs)
     in (0 < target \<and> target \<le> freed_bytes (gc_tally E vs rep), i', gc_tally E vs rep, after_gc E B vs st))"
  using assms
proof (induction rs arbitrary: i rep st)
  case Nil
  then show ?case by auto
next
  case (Cons r rs)
  note step = gc_batch_step [OF Cons.prems(1,2), of r]
  have r: "r \<in> set (candidates (ns_db st))" "0 < as_u64 (o_owned r)" using Cons.prems by auto
  show ?case
  proof (cases "0 < target \<and> target \<le> freed_bytes (gc_tally E [r] rep)")
    case True
    then have "target \<noteq> 0" by auto
    with True step [OF r] show ?thesis by (simp add: Let_def)
  next
    case False
    have inv: "db_inv E now (ns_db (after_gc E B [r] st))"
      using candidate_evicted(2) [OF Cons.prems(1) r(1), of now] by (simp add: after_gc_def)
    have sub: "set rs \<subseteq> set (candidates (ns_db (after_gc E B [r] st)))"
      using candidates_evict_one [OF Cons.prems(3,4)] by (simp add: after_gc_def)
    have tgt: "target = 0 \<or> freed_bytes (gc_tally E [r] rep) < target"
      using False word_neq_0_conv [of target] by (auto simp: not_le)
    obtain i' where "gc_batch E B clk target (map (\<lambda>r. (o_id r, as_u64 (o_owned r))) rs) (Suc i)
        (gc_tally E [r] rep) (after_gc E B [r] st) =
      (let vs = (if target = 0 then rs else victims target (freed_bytes (gc_tally E [r] rep)) rs)
       in (0 < target \<and> target \<le> freed_bytes (gc_tally E vs (gc_tally E [r] rep)), i', gc_tally E vs (gc_tally E [r] rep),
           after_gc E B vs (after_gc E B [r] st)))"
      using Cons.IH [OF inv Cons.prems(2) _ sub _ tgt, of "Suc i"] Cons.prems(3,5) by auto
    with False step [OF r] word_neq_0_conv [of target] show ?thesis
      by (auto simp: Let_def tally_append after_gc_append add.assoc)
  qed
qed

lemma lru_order_set: "set (lru_order s) = set (candidates s)"
  by (simp add: lru_order_def)

lemma lru_order_distinct: "db_wf E s \<Longrightarrow> distinct (map o_id (lru_order s))"
proof -
  assume "db_wf E s"
  then have d: "distinct (map o_id (candidates s))"
    by (simp add: db_wf_def candidates_def distinct_map inj_on_def)
  then have "distinct (candidates s)" "inj_on o_id (set (candidates s))" by (simp_all add: distinct_map)
  then show "distinct (map o_id (lru_order s))" by (simp add: lru_order_def distinct_map)
qed

lemma list_gc_candidates_lru:
  "list_gc_candidates n s = map (\<lambda>r. (o_id r, as_u64 (o_owned r))) (take n (lru_order s))"
  by (simp add: list_gc_candidates_def lru_order_def candidates_def)

lemma lru_order_after:
  assumes "db_wf E s"
  shows "lru_order (evict_rows (take n (lru_order s)) s) = drop n (lru_order s)"
  using filter_drop_keys [OF lru_order_distinct [OF assms], of n]
  by (simp add: lru_order_def candidates_evict_rows filter_sort)

lemma db_inv_evict_rows:
  "db_inv E now s \<Longrightarrow> distinct (map o_id vs) \<Longrightarrow> set vs \<subseteq> set (candidates s) \<Longrightarrow> db_inv E now (evict_rows vs s)"
proof (induction vs arbitrary: s)
  case (Cons r vs)
  have "db_inv E now (evict_rows vs (evict_rows [r] s))"
    using Cons candidates_evict_one [OF Cons.prems(2,3)] candidate_evicted(2) [OF Cons.prems(1), of r now]
    by auto
  then show ?case by (simp add: evict_rows_append)
qed simp

lemma owned_pos: "owned_fit s \<Longrightarrow> r \<in> set (candidates s) \<Longrightarrow> 0 < as_u64 (o_owned r)"
  by (auto simp: owned_fit_def candidates_def gc_candidate_def intro: as_u64_pos)

lemma owned_fit_evict: "owned_fit s \<Longrightarrow> owned_fit (evict_rows vs s)"
  by (simp add: owned_fit_def evict_rows_def)

lemma gc_page_spec:
  assumes "db_inv E now (ns_db st)" and "clock_from now clk" and "owned_fit (ns_db st)"
    and "target = 0 \<or> freed_bytes rep < target"
  shows "\<exists>i'. gc_batch E B clk target (list_gc_candidates n (ns_db st)) i rep st =
    (let L = take n (lru_order (ns_db st)); vs = (if target = 0 then L else victims target (freed_bytes rep) L)
     in (0 < target \<and> target \<le> freed_bytes (gc_tally E vs rep), i', gc_tally E vs rep, after_gc E B vs st))"
proof -
  have "distinct (map o_id (take n (lru_order (ns_db st))))"
    using lru_order_distinct [OF db_invD(1) [OF assms(1)]] by (metis distinct_take take_map)
  moreover have "set (take n (lru_order (ns_db st))) \<subseteq> set (candidates (ns_db st))"
    by (metis lru_order_set set_take_subset)
  ultimately show ?thesis
    using gc_batch_spec [OF assms(1,2) _ _ _ assms(4)] owned_pos [OF assms(3)]
    by (simp add: list_gc_candidates_lru Let_def subset_iff)
qed

lemma gc_loop_spec:
  "db_inv E now (ns_db st) \<Longrightarrow> clock_from now clk \<Longrightarrow> owned_fit (ns_db st) \<Longrightarrow> freed_bytes rep < target \<Longrightarrow>
   gc_loop E B clk target i rep st =
     (let vs = victims target (freed_bytes rep) (lru_order (ns_db st))
      in (gc_tally E vs rep, after_gc E B vs st))"
proof (induction E B clk target i rep st rule: gc_loop.induct)
  case (1 E B clk target i rep st)
  let ?L = "lru_order (ns_db st)" and ?a = "freed_bytes rep" and ?cs = "list_gc_candidates batch_size (ns_db st)"
  let ?vs = "victims target ?a (take batch_size ?L)"
  have pos: "target \<noteq> 0" using 1(5) by auto
  obtain i' where b: "gc_batch E B clk target ?cs i rep st =
      (target \<le> ?a + owned_sum ?vs, i', gc_tally E ?vs rep, after_gc E B ?vs st)"
    using gc_page_spec [OF 1(2-4), of target rep B batch_size i] 1(5) pos
    by (auto simp: Let_def word_neq_0_conv [of target])
  have app: "victims target ?a ?L = (if target \<le> ?a + owned_sum ?vs then ?vs
      else take batch_size ?L @ victims target (?a + owned_sum (take batch_size ?L)) (drop batch_size ?L))"
    using victims_append [OF 1(5), of "take batch_size ?L" "drop batch_size ?L"] by simp
  show ?case
  proof (cases "?cs = []")
    case True
    then have "?L = []" by (simp add: list_gc_candidates_lru batch_size_def)
    with True show ?thesis by (subst gc_loop.simps) (simp add: Let_def)
  next
    case nonempty: False
    show ?thesis
    proof (cases "target \<le> ?a + owned_sum ?vs")
      case True
      with nonempty b app show ?thesis by (subst gc_loop.simps) (simp add: Let_def)
    next
      case False
      then have vs: "?vs = take batch_size ?L"
        using victims_unreached [OF 1(5)] by simp
      let ?st = "after_gc E B ?vs st" and ?rep = "gc_tally E ?vs rep"
      have wf: "db_wf E (ns_db st)" using db_invD(1) [OF 1(2)] .
      have "distinct (map o_id ?vs)" unfolding vs using lru_order_distinct [OF wf] by (metis distinct_take take_map)
      moreover have "set ?vs \<subseteq> set (candidates (ns_db st))" unfolding vs by (metis lru_order_set set_take_subset)
      ultimately have inv: "db_inv E now (ns_db ?st)"
        using db_inv_evict_rows [OF 1(2)] by (simp add: after_gc_def)
      have fit: "owned_fit (ns_db ?st)" using owned_fit_evict [OF 1(4)] by (simp add: after_gc_def)
      have ord: "lru_order (ns_db ?st) = drop batch_size ?L"
        using lru_order_after [OF wf, of batch_size] vs by (simp add: after_gc_def)
      have "gc_loop E B clk target i' ?rep ?st =
          (let vs = victims target (freed_bytes ?rep) (lru_order (ns_db ?st))
           in (gc_tally E vs ?rep, after_gc E B vs ?st))"
        by (rule 1(1) [OF refl nonempty b [symmetric] refl refl _ pos inv 1(3) fit])
          (use False in \<open>simp_all add: not_le\<close>)
      with nonempty b app False pos vs ord show ?thesis
        by (subst gc_loop.simps) (simp add: Let_def after_gc_append tally_append)
    qed
  qed
qed

lemma gc_round_refines:
  assumes "db_inv E now (ns_db st)" and "clock_from now clk" and "owned_fit (ns_db st)"
  shows "gc_round E B clk target st =
    (gc_tally E (gc_victims target (ns_db st)) gc_report_default, after_gc E B (gc_victims target (ns_db st)) st)"
proof (cases "target = 0")
  case False
  then have "freed_bytes gc_report_default < target"
    using word_neq_0_conv [of target] by (simp add: gc_report_default_def)
  from gc_loop_spec [OF assms this] False show ?thesis
    by (simp add: gc_round_def gc_victims_def gc_report_default_def Let_def)
next
  case True
  obtain i' where "gc_batch E B clk 0 (list_gc_candidates batch_size (ns_db st)) 0 gc_report_default st =
      (False, i', gc_tally E (take batch_size (lru_order (ns_db st))) gc_report_default,
       after_gc E B (take batch_size (lru_order (ns_db st))) st)"
    using gc_page_spec [OF assms, of 0 gc_report_default B batch_size 0] by (auto simp: Let_def)
  with True show ?thesis
    by (auto simp: gc_round_def gc_loop.simps gc_victims_def Let_def list_gc_candidates_lru)
qed

lemma victims_prefix: "\<exists>n. victims target acc rs = take n rs"
proof (induction rs arbitrary: acc)
  case (Cons r rs)
  obtain n where "victims target (acc + as_u64 (o_owned r)) rs = take n rs" using Cons by blast
  then have "victims target acc (r # rs) = take (Suc n) (r # rs) \<or> victims target acc (r # rs) = take (Suc 0) (r # rs)"
    by (simp add: Let_def)
  then show ?case by blast
qed simp

lemma gc_victims_candidates: "set (gc_victims target s) \<subseteq> set (candidates s)"
proof -
  have "\<exists>n. gc_victims target s = take n (lru_order s)"
    using victims_prefix [of target 0 "lru_order s"] by (auto simp: gc_victims_def)
  then show ?thesis by (metis lru_order_set set_take_subset)
qed

lemma candidate_unprotected:
  assumes "db_inv E now s" and "r \<in> set (candidates s)"
  shows "\<not> protected now (o_id r) s"
proof -
  have "obj_row (o_id r) s = Some r" "o_class r = 0"
    using table_row_obj_row [OF db_invD(1) [OF assms(1)]] assms(2) by (auto simp: candidates_def gc_candidate_def)
  then show ?thesis using class0_unprotected(1) [OF assms(1)] by blast
qed

lemma obj_row_evict_rows:
  "obj_row k (evict_rows vs s) = (if k \<in> o_id ` set vs then None else obj_row k s)"
proof -
  have "find (\<lambda>r. o_id r = k) (filter (\<lambda>r. o_id r \<notin> K) t) = (if k \<in> K then None else find (\<lambda>r. o_id r = k) t)"
    for K and t :: "object_row list" by (induction t) auto
  then show ?thesis by (simp add: obj_row_def evict_rows_def)
qed

text \<open>\<^bold>\<open>C16.\<close> One round of garbage collection is exactly the reference collector: it deletes from
  the database, in order of last access, the shortest list of unprotected objects whose bytes reach
  the target (the first hundred when there is no target), however the candidates are paged and
  while the clock advances; it reports the bytes and numbers of what it deleted and skips nothing;
  pins, anchors, references and the outbox stay; and every protected object keeps its row.\<close>

theorem gc_round_spec:
  assumes "reachable E (now, ns_db st)" and "hex_laws E" and "clock_from now clk" and "owned_fit (ns_db st)"
  shows "case gc_round E B clk target st of (rep, st') \<Rightarrow>
    (let vs = gc_victims target (ns_db st)
     in ns_db st' = evict_rows vs (ns_db st) \<and>
        freed_bytes rep = owned_sum vs \<and> skipped_protected rep = 0 \<and>
        evicted_objects rep = of_nat (length (filter (victim_kind E False) vs)) \<and>
        evicted_chunks rep = of_nat (length (filter (victim_kind E True) vs)) \<and>
        (\<forall>r \<in> set vs. obj_row (o_id r) (ns_db st) = Some r \<and> gc_candidate r \<and> \<not> protected now (o_id r) (ns_db st)) \<and>
        (0 < target \<longrightarrow> target \<le> freed_bytes rep \<or> candidates (ns_db st') = []) \<and>
        (\<forall>k. protected now k (ns_db st) \<longrightarrow> obj_row k (ns_db st') = obj_row k (ns_db st)))"
proof -
  let ?s = "ns_db st" and ?vs = "gc_victims target (ns_db st)"
  have inv: "db_inv E now ?s" using reachable_db_inv [OF assms(1,2)] by simp
  have unp: "obj_row (o_id r) ?s = Some r \<and> gc_candidate r \<and> \<not> protected now (o_id r) ?s" if "r \<in> set ?vs" for r
    using that gc_victims_candidates candidate_unprotected [OF inv] table_row_obj_row [OF db_invD(1) [OF inv]]
    by (fastforce simp: candidates_def)
  have keep: "obj_row k (evict_rows ?vs ?s) = obj_row k ?s" if "protected now k ?s" for k
    using that unp by (auto simp: obj_row_evict_rows)
  have enough: "target \<le> owned_sum ?vs \<or> candidates (evict_rows ?vs ?s) = []" if "0 < target"
  proof (rule disjCI)
    assume "candidates (evict_rows ?vs ?s) \<noteq> []"
    then have "?vs \<noteq> lru_order ?s"
      by (auto simp: candidates_evict_rows filter_empty_conv lru_order_set)
    with that victims_unreached [of 0 target "lru_order ?s"] show "target \<le> owned_sum ?vs"
      by (intro leI notI) (auto simp: gc_victims_def split: if_splits)
  qed
  show ?thesis
    unfolding gc_round_refines [OF inv assms(3,4)] Let_def
    using unp keep enough
    by (simp add: after_gc_def gc_tally_def gc_report_default_def)
qed

definition demo_store :: "lf_state named_store" where
  "demo_store = \<lparr>ns_base_dir = [''r''], ns_read_only = False, ns_store_id = ''r'', ns_db = demo_free,
     ns_backend = empty_lf, ns_hot = hot_new 60\<rparr>"

lemma demo_free_objects: "objects demo_free = [present_row 5 (obj_id_to_string inst_crates demo_id) ''cyfile'' ''sha256:02'' 9 9]"
  by code_simp

theorem gc_round_spec_witness:
  "freed_bytes (fst (gc_round inst_crates (local_fs_ops inst_crates (\<lambda>_. []) demo_lf) (\<lambda>_. 5) 4 demo_store)) = 9"
proof -
  have f: "owned_fit (ns_db demo_store)"
    by (simp add: owned_fit_def demo_store_def demo_free_objects present_row_def)
  have v: "owned_sum (gc_victims 4 (ns_db demo_store)) = 9"
    by (simp add: demo_store_def gc_victims_def lru_order_def candidates_def demo_free_objects gc_candidate_def
        present_row_def as_u64_def)
  show ?thesis
    using gc_round_spec [OF _ inst_hex_laws _ f, where now = 5 and clk = "\<lambda>_. 5"
        and B = "local_fs_ops inst_crates (\<lambda>_. []) demo_lf" and target = 4]
      demo_free_reachable v
    by (auto simp: clock_from_def demo_store_def Let_def split: prod.splits)
qed

section \<open>Making room\<close>

definition evictable_bytes :: "db \<Rightarrow> nat" where
  "evictable_bytes s = sum_list (map (\<lambda>r. nat (o_owned r)) (candidates s))"

lemma unat_owned_sum:
  "(\<forall>r \<in> set vs. 0 < o_owned r) \<Longrightarrow> sum_list (map (\<lambda>r. nat (o_owned r)) vs) < 2 ^ 64 \<Longrightarrow>
     unat (owned_sum vs) = sum_list (map (\<lambda>r. nat (o_owned r)) vs)"
proof (induction vs)
  case (Cons r vs)
  have fit: "nat (o_owned r) < 2 ^ 64" using Cons.prems(2) by simp
  have "as_u64 (o_owned r) = of_nat (nat (o_owned r))" using Cons.prems(1) by (simp add: as_u64_def)
  then have "unat (as_u64 (o_owned r)) = nat (o_owned r)"
    using fit by (simp add: unat_of_nat take_bit_nat_eq_self_iff)
  with Cons show ?case by (simp add: unat_plus_if')
qed simp

lemma sum_list_sort: "sum_list (map f (sort_key g xs)) = sum_list (map (f :: 'a \<Rightarrow> nat) xs)"
  by (metis mset_map mset_sort sum_mset_sum_list)

lemma victims_total:
  assumes "evictable_bytes s < 2 ^ 64" and "0 < target"
  shows "target \<le> owned_sum (gc_victims target s) \<longleftrightarrow> unat target \<le> evictable_bytes s"
proof -
  let ?L = "lru_order s" and ?own = "\<lambda>vs. sum_list (map (\<lambda>r. nat (o_owned r)) vs)"
  have tot: "?own ?L = evictable_bytes s" by (simp add: evictable_bytes_def lru_order_def sum_list_sort)
  have pos: "\<forall>r \<in> set ?L. 0 < o_owned r" by (auto simp: lru_order_set candidates_def gc_candidate_def)
  have vs: "gc_victims target s = victims target 0 ?L" using assms(2) by (auto simp: gc_victims_def)
  obtain n where n: "victims target 0 ?L = take n ?L" using victims_prefix by blast
  have "?own (take n ?L @ drop n ?L) = ?own (take n ?L) + ?own (drop n ?L)" by (simp only: map_append sum_list_append)
  then have le: "?own (take n ?L) \<le> evictable_bytes s" using tot by simp
  have "unat (owned_sum (take n ?L)) = ?own (take n ?L)"
    using le assms(1) pos by (intro unat_owned_sum) (auto dest: in_set_takeD)
  with le have "target \<le> owned_sum (take n ?L) \<Longrightarrow> unat target \<le> evictable_bytes s"
    by (simp add: word_le_nat_alt)
  moreover have "target \<le> owned_sum (take n ?L)" if "unat target \<le> evictable_bytes s"
  proof (rule ccontr)
    assume "\<not> target \<le> owned_sum (take n ?L)"
    then have "victims target 0 ?L = ?L" using victims_unreached [OF assms(2), of ?L] n by (simp add: not_le)
    with n tot unat_owned_sum [OF pos] assms(1) that \<open>\<not> target \<le> owned_sum (take n ?L)\<close> show False
      by (simp add: word_le_nat_alt)
  qed
  ultimately show ?thesis unfolding vs n by blast
qed

text \<open>\<^bold>\<open>C27.\<close> \<open>forced_gc_until\<close> reports that there is no space exactly when the unprotected objects own
  fewer bytes than the target; otherwise it returns the bytes it freed, at least the target.  In both
  cases protected objects are untouched.\<close>

theorem forced_gc_exact:
  assumes "reachable E (now, ns_db st)" and "hex_laws E" and "clock_from now clk" and "owned_fit (ns_db st)"
    and "evictable_bytes (ns_db st) < 2 ^ 64" and "0 < target"
  shows "case forced_gc_until E B clk target st of (res, st') \<Rightarrow>
    (if unat target \<le> evictable_bytes (ns_db st)
     then \<exists>freed. res = Ok freed \<and> target \<le> freed
     else \<exists>m. res = Err (IoError m)) \<and>
    (\<forall>k. protected now k (ns_db st) \<longrightarrow> obj_row k (ns_db st') = obj_row k (ns_db st))"
proof -
  have inv: "db_inv E now (ns_db st)" using reachable_db_inv [OF assms(1,2)] by simp
  have "obj_row k (evict_rows (gc_victims target (ns_db st)) (ns_db st)) = obj_row k (ns_db st)"
    if "protected now k (ns_db st)" for k
    using that gc_victims_candidates candidate_unprotected [OF inv] by (fastforce simp: obj_row_evict_rows)
  then show ?thesis
    using victims_total [OF assms(5,6)]
    by (simp add: forced_gc_until_def gc_round_refines [OF inv assms(3,4)] after_gc_def gc_report_default_def)
qed

theorem forced_gc_exact_witness:
  "\<exists>m. fst (forced_gc_until inst_crates (local_fs_ops inst_crates (\<lambda>_. []) demo_lf) (\<lambda>_. 5) 10 demo_store) =
     Err (IoError m)"
proof -
  have f: "owned_fit (ns_db demo_store)" "evictable_bytes (ns_db demo_store) = 9"
    by (simp_all add: owned_fit_def evictable_bytes_def candidates_def gc_candidate_def demo_store_def
        demo_free_objects present_row_def)
  show ?thesis
    using forced_gc_exact [OF _ inst_hex_laws _ f(1), where now = 5 and clk = "\<lambda>_. 5"
        and B = "local_fs_ops inst_crates (\<lambda>_. []) demo_lf" and target = 10]
      demo_free_reachable f(2)
    by (auto simp: clock_from_def demo_store_def split: prod.splits)
qed

section \<open>Chunks\<close>

context chunk_backend
begin

text \<open>Over any backend that meets the contract, a chunk that was absent and is put reads back.\<close>

lemma store_put_get:
  assumes "put_chunk E B now c data st = (Ok (), st')" and "chunk_of (ns_backend st) c = None"
    and "length data < 2 ^ 64" and "hex_laws E" and "local_info_laws E"
  shows "ns_get_chunk_data E B fs c st' = Ok data" and "have_chunk E c st'"
    and "query_chunk_state E c st' = Ok (Completed, of_nat (length data))"
proof -
  let ?it = "chunk_item_new_completed now c (of_nat (length data))"
  have "\<exists>f. be_open_writer B c (of_nat (length data)) [data] (ns_backend st) = (Ok Written, f) \<and>
      st' = st\<lparr>ns_backend := f, ns_db := set_chunk_item E ?it (ns_db st)\<rparr>"
    using assms(1,2) write_existing [of c _ "[data]" "ns_backend st"]
    by (auto simp: put_chunk_def put_chunk_by_reader_def and_then_eq_Ok split: sum.splits prod.splits if_splits
        chunk_write_outcome.splits intro: chunk_write_outcome.exhaust)
  then obtain f where w: "be_open_writer B c (of_nat (length data)) [data] (ns_backend st) = (Ok Written, f)"
    and st': "st' = st\<lparr>ns_backend := f, ns_db := set_chunk_item E ?it (ns_db st)\<rparr>" by blast
  have d: "chunk_of f c = Some data" using write_written [OF w] by (simp add: reader_bytes_def)
  have it: "get_chunk_item E c (ns_db st') = Ok ?it"
    using chunk_item_reads_back [OF assms(4,5), of ?it "ns_db st"]
    by (simp add: st' chunk_item_new_completed_def chunk_item_new_def)
  show "ns_get_chunk_data E B fs c st' = Ok data"
    using read_found [OF d assms(3), of 0]
    by (simp add: ns_get_chunk_data_def ns_open_chunk_reader_def it) (simp add: st' chunk_item_new_completed_def)
  show q: "query_chunk_state E c st' = Ok (Completed, of_nat (length data))"
    by (simp add: query_chunk_state_def it) (simp add: chunk_item_new_completed_def chunk_item_new_def)
  show "have_chunk E c st'" by (simp add: have_chunk_def q)
qed

end

text \<open>In a store over the local file system, a chunk that was not there and is put successfully reads
  back byte for byte and is reported as complete with its size.\<close>

theorem store_put_get_chunk:
  assumes "put_chunk E (local_fs_ops E sfx lf) now c data st = (Ok (), st')"
    and "lf_files (ns_backend st) (chunk_final_path E lf c) = None"
    and "length data < 2 ^ 64" and "hex_laws E" and "local_info_laws E"
  shows "ns_get_chunk_data E (local_fs_ops E sfx lf) fs c st' = Ok data \<and> have_chunk E c st' \<and>
    query_chunk_state E c st' = Ok (Completed, of_nat (length data))"
  using local_fs.store_put_get [OF assms] by blast

theorem store_put_get_chunk_witness:
  "\<exists>st'. put_chunk inst_crates (local_fs_ops inst_crates (\<lambda>_. ''1'') demo_lf) 5 demo_chunk [1, 2] demo_store = (Ok (), st') \<and>
     ns_get_chunk_data inst_crates (local_fs_ops inst_crates (\<lambda>_. ''1'') demo_lf) (\<lambda>_. None) demo_chunk st' = Ok [1, 2]"
proof -
  let ?B = "local_fs_ops inst_crates (\<lambda>_. ''1'') demo_lf"
  have h: "and_then (to_hash_method (chunk_type demo_chunk)) new_with_hash_method =
      Ok \<lparr>ch_method = HSha256, ch_length = 0, ch_input = []\<rparr>"
    by (simp add: demo_chunk_def new_with_hash_method_def create_hasher_def)
  have "fst (lf_open_chunk_writer inst_crates (\<lambda>_. ''1'') demo_lf demo_chunk 2 [[1, 2]] empty_lf) = Ok Written"
    using lf_write_atomic_aux [OF _ _ _ h, where lf = demo_lf and f = empty_lf and E = inst_crates
        and sfx = "\<lambda>_. ''1''" and n = 2 and rd = "[[1, 2]]"]
    by (auto simp: demo_lf_def local_fs_new_def empty_lf_def chunk_id_matches_def demo_chunk_def
        inst_crates_def split: prod.splits)
  then obtain f where "lf_open_chunk_writer inst_crates (\<lambda>_. ''1'') demo_lf demo_chunk 2 [[1, 2]] empty_lf = (Ok Written, f)"
    by (cases "lf_open_chunk_writer inst_crates (\<lambda>_. ''1'') demo_lf demo_chunk 2 [[1, 2]] empty_lf") simp
  then have "\<exists>st'. put_chunk inst_crates ?B 5 demo_chunk [1, 2] demo_store = (Ok (), st')"
    by (simp add: put_chunk_def put_chunk_by_reader_def ensure_writable_def demo_store_def local_fs_ops_def
        CHUNK_DEFAULT_SIZE_def)
  then obtain st' where st': "put_chunk inst_crates ?B 5 demo_chunk [1, 2] demo_store = (Ok (), st')" ..
  have none: "lf_files (ns_backend demo_store) (chunk_final_path inst_crates demo_lf demo_chunk) = None"
    by (simp add: demo_store_def empty_lf_def)
  from store_put_get_chunk [OF st' none _ inst_hex_laws inst_local_info_laws, of "\<lambda>_. None"] st' show ?thesis
    by simp
qed

text \<open>A chunk whose file exists but whose database row does not, as after a crash between the two
  writes, cannot be repaired by putting it again: the put succeeds, whatever data it is given, and
  the store still reports the chunk as missing and refuses to read it.\<close>

theorem put_existing_stays_missing:
  assumes "lf_files (ns_backend st) (chunk_final_path E lf c) \<noteq> None" and "\<not> lf_read_only lf"
    and "\<not> ns_read_only st" and "find (\<lambda>r. c_id r = chunk_to_string E c) (chunk_items (ns_db st)) = None"
    and "of_nat (length data) \<le> CHUNK_DEFAULT_SIZE"
  shows "put_chunk E (local_fs_ops E sfx lf) now c data st = (Ok (), st) \<and> \<not> have_chunk E c st \<and>
    (\<exists>m. ns_get_chunk_data E (local_fs_ops E sfx lf) fs c st = Err (NotFound m))"
  using assms
  by (auto simp: put_chunk_def put_chunk_by_reader_def ensure_writable_def local_fs_ops_def
      lf_open_chunk_writer_def lf_ensure_writable_def have_chunk_def query_chunk_state_def get_chunk_item_def
      ns_get_chunk_data_def ns_open_chunk_reader_def Let_def not_le)

definition demo_orphan :: "lf_state named_store" where
  "demo_orphan = demo_store\<lparr>ns_backend := empty_lf\<lparr>lf_files :=
     (\<lambda>_. None)(chunk_final_path inst_crates demo_lf demo_chunk \<mapsto> [1, 2])\<rparr>\<rparr>"

theorem put_existing_stays_missing_witness:
  "put_chunk inst_crates (local_fs_ops inst_crates (\<lambda>_. ''1'') demo_lf) 5 demo_chunk [1, 2] demo_orphan = (Ok (), demo_orphan) \<and>
   \<not> have_chunk inst_crates demo_chunk demo_orphan"
proof -
  have "chunk_items demo_free = []" by code_simp
  then have "chunk_items (ns_db demo_orphan) = []" by (simp add: demo_orphan_def demo_store_def)
  then show ?thesis
    using put_existing_stays_missing [where st = demo_orphan and E = inst_crates and lf = demo_lf and c = demo_chunk
        and data = "[1, 2]" and sfx = "\<lambda>_. ''1''" and now = 5]
    by (simp add: demo_orphan_def demo_store_def demo_lf_def local_fs_new_def CHUNK_DEFAULT_SIZE_def)
qed

text \<open>\<open>get_chunk_piece\<close> checks its offset and then ignores it: every offset within the chunk yields
  the bytes from its beginning.\<close>

theorem get_chunk_piece_ignores_offset:
  assumes "ns_open_chunk_reader E B fs c 0 st = Ok (d, n)" and "off \<le> n"
  shows "get_chunk_piece E B fs c off piece st = read_exact_at 0 (unat piece) d"
  using assms(1) assms(2) [THEN leD] by (simp add: get_chunk_piece_def)

definition demo_linked :: "lf_state named_store" where
  "demo_linked = demo_orphan\<lparr>ns_db := set_chunk_item inst_crates (chunk_item_new_completed 5 demo_chunk 2) demo_free\<rparr>"

theorem get_chunk_piece_ignores_offset_witness:
  "get_chunk_piece inst_crates (local_fs_ops inst_crates (\<lambda>_. ''1'') demo_lf) (\<lambda>_. None) demo_chunk 1 1 demo_linked = Ok [1]"
proof -
  have it: "get_chunk_item inst_crates demo_chunk (ns_db demo_linked) = Ok (chunk_item_new_completed 5 demo_chunk 2)"
    using chunk_item_reads_back [OF inst_hex_laws inst_local_info_laws, of "chunk_item_new_completed 5 demo_chunk 2" demo_free]
    by (simp add: demo_linked_def chunk_item_new_completed_def chunk_item_new_def)
  have "ns_open_chunk_reader inst_crates (local_fs_ops inst_crates (\<lambda>_. ''1'') demo_lf) (\<lambda>_. None) demo_chunk 0 demo_linked = Ok ([1, 2], 2)"
    unfolding ns_open_chunk_reader_def it
    by (simp add: chunk_item_new_completed_def local_fs_ops_def lf_open_chunk_reader_def demo_linked_def demo_orphan_def Let_def)
  from get_chunk_piece_ignores_offset [OF this, of 1 1] show ?thesis
    by (simp add: read_exact_at_def)
qed

section \<open>Local links\<close>

text \<open>A reader of a chunk that links to a range of a local file yields exactly the bytes of that range
  from the offset on, as many as the chunk size promises: the range lies within the file, the file
  has the quick hash recorded in the link, and no offset computation wraps.\<close>

theorem local_link_reads_range:
  assumes "open_local_link_reader E fs c it li off = Ok (d, n)" and "li_range li = Some (a, b)"
  shows "\<exists>fd q. fs (li_path li) = Some fd \<and> calc_quick_hash E fd None = Ok q \<and>
    chunk_to_string E q = li_qcid li \<and> unat b \<le> length fd \<and> n = ci_chunk_size it \<and>
    unat n = unat b - unat a \<and> off \<le> n \<and>
    d = take (unat b - unat a - unat off) (drop (unat a + unat off) fd) \<and>
    length d + unat off = unat n"
proof -
  obtain fd q where f: "fs (li_path li) = Some fd" "calc_quick_hash E fd None = Ok q"
    "chunk_to_string E q = li_qcid li" "unat b \<le> length fd"
    using assms
    by (auto simp: open_local_link_reader_def verify_local_link_def caculate_qcid_from_file_def and_then_eq_Ok
        not_less split: if_splits option.splits)
  have r: "n = ci_chunk_size it" "saturating_sub b a = n" "off \<le> n"
    "d = take (unat (n - off)) (drop (unat (a + off)) fd)"
    using assms f(1)
    by (auto simp: open_local_link_reader_def and_then_eq_Ok Let_def not_less split: if_splits option.splits)
  have n: "unat n = unat b - unat a"
    using r(2) by (auto simp: saturating_sub_def unat_sub word_le_nat_alt split: if_splits)
  show ?thesis
  proof (cases "a \<le> b")
    case True
    have "unat off \<le> unat b - unat a" using r(3) n by (simp add: word_le_nat_alt)
    moreover have "unat a \<le> unat b" using True by (simp add: word_le_nat_alt)
    moreover have "unat b < 2 ^ 64" using unsigned_less [of b] by simp
    ultimately have "unat (a + off) = unat a + unat off" by (simp add: unat_plus_if')
    moreover have "unat (n - off) = unat b - unat a - unat off" using r(3) n by (simp add: unat_sub)
    ultimately show ?thesis using f r n \<open>unat off \<le> unat b - unat a\<close> \<open>unat a \<le> unat b\<close> by auto
  next
    case False
    then have "unat b - unat a = 0" by (simp add: word_le_nat_alt)
    then have "n = 0" using n by (simp add: unat_eq_zero)
    then have "off = 0" using r(3) by simp
    then show ?thesis using f r n \<open>n = 0\<close> by auto
  qed
qed

text \<open>A crate instance with a constant digest and an empty length prefix, to link a file of zeros.\<close>

definition link_crates :: "string ext_crates" where
  "link_crates = inst_crates\<lparr>hash_digest := (\<lambda>_ _. [7])\<rparr>"

theorem local_link_reads_range_witness:
  "\<exists>d. open_local_link_reader link_crates (\<lambda>_. Some (replicate 12288 0)) demo_chunk
      (chunk_item_new 5 demo_chunk 3)
      \<lparr>li_path = ''/f'', li_qcid = chunk_to_string link_crates (from_mix_hash_result link_crates 12288 [7] QCID),
       li_last_modify_time = 0, li_range = Some (2, 5)\<rparr> 1 = Ok (d, 3) \<and> length d + 1 = 3"
proof -
  let ?li = "\<lparr>li_path = ''/f'', li_qcid = chunk_to_string link_crates (from_mix_hash_result link_crates 12288 [7] QCID),
       li_last_modify_time = 0, li_range = Some (2, 5)\<rparr>"
  have q: "calc_quick_hash link_crates (replicate 12288 0) None = Ok (from_mix_hash_result link_crates 12288 [7] QCID)"
    by (simp add: calc_quick_hash_def MIN_QCID_FILE_SIZE_def QCID_HASH_PIECE_SIZE_def read_exact_at_def link_crates_def)
  have "chunk_to_string link_crates (from_mix_hash_result link_crates 12288 [7] QCID) \<noteq> []"
    by (simp add: chunk_to_string_def)
  with q obtain d where d: "open_local_link_reader link_crates (\<lambda>_. Some (replicate 12288 0)) demo_chunk
      (chunk_item_new 5 demo_chunk 3) ?li 1 = Ok (d, 3)"
    by (simp add: open_local_link_reader_def verify_local_link_def caculate_qcid_from_file_def chunk_item_new_def
        saturating_sub_def)
  from local_link_reads_range [OF d, of 2 5] d show ?thesis by auto
qed

section \<open>Read-only stores\<close>

text \<open>A read-only store refuses every write to objects and chunks, whatever the backend, and
  nothing changes.\<close>

theorem read_only_refuses:
  assumes "ns_read_only st"
  shows "let denied = PermissionDenied ''named store is read-only''
    in ns_put_object E now oid data st = (Err denied, st) \<and>
       ns_remove_object E B oid st = (Err denied, st) \<and>
       ns_remove_chunk E B c st = (Err denied, st) \<and>
       add_chunk_by_link_to_local_file E now c sz li st = (Err denied, st) \<and>
       put_chunk_by_reader E B now c sz rd st = (Err denied, st) \<and>
       put_chunk E B now c bytes st = (Err denied, st) \<and>
       add_chunk_by_same_as E now c sz oid st = (Err denied, st)"
  using assms
  by (simp add: ensure_writable_def ns_put_object_def ns_remove_object_def ns_remove_chunk_def
      add_chunk_by_link_to_local_file_def put_chunk_by_reader_def put_chunk_def add_chunk_by_same_as_def Let_def)

theorem read_only_refuses_witness:
  "fst (ns_put_object inst_crates 5 demo_id [] (demo_store\<lparr>ns_read_only := True\<rparr>)) =
     Err (PermissionDenied ''named store is read-only'')"
  using read_only_refuses [of "demo_store\<lparr>ns_read_only := True\<rparr>" inst_crates 5 demo_id "[]"
      "local_fs_ops inst_crates (\<lambda>_. []) demo_lf" demo_chunk 0
      "chunk_local_info_default" "[]" "[]"]
  by (simp add: Let_def)

text \<open>Garbage collection is not among the refused operations: a round on a read-only store deletes
  an object from its database.\<close>

theorem read_only_still_collects:
  "case gc_round inst_crates (local_fs_ops inst_crates (\<lambda>_. []) demo_lf) (\<lambda>_. 5) 0 (demo_store\<lparr>ns_read_only := True\<rparr>) of
     (rep, st') \<Rightarrow> evicted_objects rep = 1 \<and> ns_get_object inst_crates demo_id demo_store = Ok ''sha256:02'' \<and>
       (\<exists>e. ns_get_object inst_crates demo_id st' = Err e)"
proof -
  let ?st = "demo_store\<lparr>ns_read_only := True\<rparr>"
  have inv: "db_inv inst_crates 5 (ns_db ?st)"
    using reachable_db_inv [OF demo_free_reachable inst_hex_laws] by (simp add: demo_store_def)
  have fit: "owned_fit (ns_db ?st)"
    by (simp add: owned_fit_def demo_store_def demo_free_objects present_row_def)
  have db: "ns_db demo_store = demo_free" by (simp add: demo_store_def)
  have vs: "gc_victims 0 demo_free = objects demo_free"
    by (simp add: demo_store_def gc_victims_def lru_order_def candidates_def demo_free_objects gc_candidate_def
        present_row_def batch_size_def)
  have kind: "length (filter (victim_kind inst_crates False) (objects demo_free)) = 1"
    "ns_get_object inst_crates demo_id demo_store = Ok ''sha256:02''" "\<not> is_chunk demo_id"
    by code_simp+
  have gone: "obj_row (obj_id_to_string inst_crates demo_id) (evict_rows (objects demo_free) demo_free) = None"
    by (simp add: obj_row_evict_rows demo_free_objects present_row_def)
  show ?thesis
    unfolding gc_round_refines [OF inv _ fit, of "\<lambda>_. 5", unfolded clock_from_def, simplified]
    using kind gone
    by (simp add: gc_tally_def gc_report_default_def after_gc_def ns_get_object_def get_object_def db vs)
qed

section \<open>Configuration\<close>

text \<open>The configured chunk directory is not the one that is used: of \<open>chunk_dir\<close> only the parent
  counts, and chunks go to \<open>chunks\<close> below it.\<close>

theorem from_config_chunk_dir:
  "lf_chunk_dir (fst (from_config open_db sid root (cfg\<lparr>cfg_chunk_dir := Some (p @ [name])\<rparr>) f)) =
     path_str (p @ [''chunks''])"
  by (simp add: from_config_def path_parent_def local_fs_new_def path_str_def)

end
