(* ===== verification/Store_Layout_Props.thy ===== *)
theory Store_Layout_Props
  imports Store_Layout
begin

text \<open>
  Correctness of the Maglev table: construction terminates for the table sizes in use, every slot
  holds an active target, slots are distributed in proportion to the weights, and selection yields
  distinct active targets in an order that does not depend on how many are asked for.
\<close>

section \<open>The preference sequences are permutations\<close>

definition param_ok :: "nat \<Rightarrow> nat \<times> nat \<times> nat \<Rightarrow> bool" where
  "param_ok m p \<longleftrightarrow> (case p of (offset, skip, w) \<Rightarrow> 0 < skip \<and> skip < m \<and> 0 < w)"

lemma slot_less: "0 < m \<Longrightarrow> slot m p k < m"
  by (simp add: slot_def split: prod.splits)

lemma slot_inj:
  assumes "indivisible m" and "param_ok m p"
  shows "inj_on (slot m p) {..<m}"
proof (rule linorder_inj_onI')
  obtain off skip w where p: "p = (off, skip, w)" by (cases p)
  fix i j
  assume ij: "i \<in> {..<m}" "j \<in> {..<m}" "i < j"
  show "slot m p i \<noteq> slot m p j"
  proof
    assume "slot m p i = slot m p j"
    then have "(off + j * skip) mod m = (off + i * skip) mod m" by (simp add: slot_def p)
    then have "m dvd (off + j * skip) - (off + i * skip)"
      using ij(3) by (intro mod_eq_dvd_iff_nat [THEN iffD1]) simp_all
    then have "m dvd (j - i) * skip" by (simp add: diff_mult_distrib)
    moreover have "coprime m skip"
      using assms unfolding indivisible_def param_ok_def p by (auto simp: coprime_commute [of m])
    ultimately have "m dvd j - i" by (simp add: coprime_dvd_mult_left_iff)
    with ij show False by (auto dest: dvd_imp_le)
  qed
qed

lemma slot_surj:
  assumes "indivisible m" and "param_ok m p" and "pos < m"
  shows "\<exists>k<m. slot m p k = pos"
proof -
  have "slot m p ` {..<m} \<subseteq> {..<m}" using assms(3) by (auto simp: slot_less)
  then have "slot m p ` {..<m} = {..<m}"
    using slot_inj [OF assms(1,2)] by (intro endo_inj_surj) auto
  with assms(3) show ?thesis by (metis imageE lessThan_iff)
qed

text \<open>The inner loop finds an empty slot when there is one that the target has not visited.\<close>

lemma find_slot_ends:
  assumes "table ! slot m p k' = - 1" and "k \<le> k'"
  shows "\<exists>j. k \<le> j \<and> j \<le> k' \<and> find_slot table m p k = Some (slot m p j, j) \<and> table ! slot m p j = - 1 \<and>
    (\<forall>i. k \<le> i \<longrightarrow> i < j \<longrightarrow> table ! slot m p i \<noteq> - 1)"
  using assms(2)
proof (induction "k' - k" arbitrary: k)
  case 0
  with assms(1) show ?case by (subst find_slot.simps) auto
next
  case (Suc d)
  show ?case
  proof (cases "table ! slot m p k = - 1")
    case True
    with Suc show ?thesis by (subst find_slot.simps) auto
  next
    case False
    with assms(1) Suc(2,3) have "d = k' - (k + 1)" "k + 1 \<le> k'" by auto
    from Suc(1) [OF this] obtain j where j: "k + 1 \<le> j" "j \<le> k'"
      "find_slot table m p (k + 1) = Some (slot m p j, j)" "table ! slot m p j = - 1"
      "\<forall>i. k + 1 \<le> i \<longrightarrow> i < j \<longrightarrow> table ! slot m p i \<noteq> - 1" by blast
    have "table ! slot m p i \<noteq> - 1" if "k \<le> i" "i < j" for i
      using that j(5) False by (cases "i = k") auto
    with j False show ?thesis by (subst find_slot.simps) auto
  qed
qed

section \<open>The invariant of the filling loop\<close>

definition claimed :: "nat list \<Rightarrow> maglev \<Rightarrow> nat \<Rightarrow> nat" where
  "claimed act st i = count_list (mg_table st) (as_i32 (act ! i))"

definition weight_of :: "(nat \<times> nat \<times> nat) list \<Rightarrow> nat \<Rightarrow> nat" where
  "weight_of ps i = snd (snd (ps ! i))"

record maglev_env =
  me_size :: nat
  me_params :: "(nat \<times> nat \<times> nat) list"
  me_act :: "nat list"

definition env_ok :: "maglev_env \<Rightarrow> bool" where
  "env_ok e \<longleftrightarrow> indivisible (me_size e) \<and> list_all (param_ok (me_size e)) (me_params e) \<and>
     me_params e \<noteq> [] \<and> length (me_act e) = length (me_params e) \<and>
     distinct (map as_i32 (me_act e)) \<and> (\<forall>i \<in> set (me_act e). 0 \<le> as_i32 i)"

definition maglev_inv :: "maglev_env \<Rightarrow> maglev \<Rightarrow> bool" where
  "maglev_inv e st \<longleftrightarrow>
     length (mg_table st) = me_size e \<and> length (mg_next st) = length (me_params e) \<and>
     length (mg_weights st) = length (me_params e) \<and>
     mg_filled st + count_list (mg_table st) (- 1) = me_size e \<and>
     set (mg_table st) \<subseteq> insert (- 1) (as_i32 ` set (me_act e)) \<and>
     (\<forall>i < length (me_params e). \<forall>j < mg_next st ! i. mg_table st ! slot (me_size e) (me_params e ! i) j \<noteq> - 1) \<and>
     (\<forall>i < length (me_params e). mg_next st ! i \<le> me_size e)"

text \<open>All targets are in the same cycle \<open>c\<close> of the weights.\<close>

definition in_cycle :: "maglev_env \<Rightarrow> nat \<Rightarrow> maglev \<Rightarrow> bool" where
  "in_cycle e c st \<longleftrightarrow> (\<forall>i < length (me_params e).
     mg_weights st ! i \<le> weight_of (me_params e) i \<and>
     claimed (me_act e) st i + mg_weights st ! i = (c + 1) * weight_of (me_params e) i)"

lemma count_list_update:
  assumes "i < length xs"
  shows "count_list (xs[i := v]) x + (if xs ! i = x then 1 else 0) = count_list xs x + (if v = x then 1 else 0)"
proof -
  have "count_list xs x = count_list (take i xs @ xs ! i # drop (Suc i) xs) x"
    using id_take_nth_drop [OF assms] by simp
  moreover have "count_list (xs[i := v]) x = count_list (take i xs @ v # drop (Suc i) xs) x"
    using upd_conv_take_nth_drop [OF assms] by simp
  ultimately show ?thesis by (simp add: count_list_append)
qed

lemma filled_less: "maglev_inv e st \<Longrightarrow> mg_filled st < me_size e \<Longrightarrow> \<exists>pos < me_size e. mg_table st ! pos = - 1"
proof -
  assume a: "maglev_inv e st" "mg_filled st < me_size e"
  then have "count_list (mg_table st) (- 1) \<noteq> 0" unfolding maglev_inv_def by linarith
  then have "- 1 \<in> set (mg_table st)" by (metis count_notin)
  with a(1) show "\<exists>pos < me_size e. mg_table st ! pos = - 1" by (auto simp: maglev_inv_def in_set_conv_nth)
qed

lemma slot_found:
  assumes "env_ok e" and "maglev_inv e st" and "mg_filled st < me_size e" and "i < length (me_params e)"
  shows "\<exists>j < me_size e. mg_next st ! i \<le> j \<and>
    find_slot (mg_table st) (me_size e) (me_params e ! i) (mg_next st ! i) =
      Some (slot (me_size e) (me_params e ! i) j, j) \<and>
    mg_table st ! slot (me_size e) (me_params e ! i) j = - 1 \<and>
    (\<forall>k. k < j \<longrightarrow> mg_table st ! slot (me_size e) (me_params e ! i) k \<noteq> - 1)"
proof -
  let ?m = "me_size e" and ?p = "me_params e ! i"
  obtain pos where pos: "pos < ?m" "mg_table st ! pos = - 1" using filled_less [OF assms(2,3)] by blast
  have ok: "indivisible ?m" "param_ok ?m ?p"
    using assms(1,4) by (auto simp: env_ok_def list_all_length)
  obtain k where k: "k < ?m" "slot ?m ?p k = pos" using slot_surj [OF ok pos(1)] by blast
  have vis: "mg_table st ! slot ?m ?p j \<noteq> - 1" if "j < mg_next st ! i" for j
    using assms(2,4) that by (auto simp: maglev_inv_def)
  then have le: "mg_next st ! i \<le> k" using k(2) pos(2) by (metis not_le)
  from find_slot_ends [of "mg_table st" ?m ?p k, OF _ le] k pos obtain j where j:
    "mg_next st ! i \<le> j" "j \<le> k" "find_slot (mg_table st) ?m ?p (mg_next st ! i) = Some (slot ?m ?p j, j)"
    "mg_table st ! slot ?m ?p j = - 1"
    "\<forall>x. mg_next st ! i \<le> x \<longrightarrow> x < j \<longrightarrow> mg_table st ! slot ?m ?p x \<noteq> - 1" by blast
  have "mg_table st ! slot ?m ?p x \<noteq> - 1" if "x < j" for x
    using vis [of x] j(5) that by (cases "x < mg_next st ! i") auto
  with j k(1) show ?thesis by (intro exI [of _ j]) auto
qed

definition claim_slot :: "maglev_env \<Rightarrow> nat \<Rightarrow> nat \<Rightarrow> maglev \<Rightarrow> maglev" where
  "claim_slot e i j st =
     \<lparr>mg_table = (mg_table st)[slot (me_size e) (me_params e ! i) j := as_i32 (me_act e ! i)],
      mg_next = (mg_next st)[i := j + 1],
      mg_weights = (mg_weights st)[i := mg_weights st ! i - 1],
      mg_filled = mg_filled st + 1\<rparr>"

lemma env_slot_less: "env_ok e \<Longrightarrow> slot (me_size e) p k < me_size e"
  by (rule slot_less) (auto simp: env_ok_def indivisible_def)

lemma env_mark:
  assumes "env_ok e" and "i < length (me_params e)"
  shows "as_i32 (me_act e ! i) \<noteq> - 1" and "as_i32 (me_act e ! i) \<in> as_i32 ` set (me_act e)"
    and "i' < length (me_params e) \<Longrightarrow> as_i32 (me_act e ! i) = as_i32 (me_act e ! i') \<longleftrightarrow> i = i'"
proof -
  have len: "length (me_act e) = length (me_params e)" using assms(1) by (simp add: env_ok_def)
  then have "me_act e ! i \<in> set (me_act e)" using assms(2) by simp
  then have "0 \<le> as_i32 (me_act e ! i)" using assms(1) by (simp add: env_ok_def)
  then show "as_i32 (me_act e ! i) \<noteq> - 1" by simp
  show "as_i32 (me_act e ! i) \<in> as_i32 ` set (me_act e)" using assms(2) len by simp
  show "as_i32 (me_act e ! i) = as_i32 (me_act e ! i') \<longleftrightarrow> i = i'" if "i' < length (me_params e)"
  proof -
    have "distinct (map as_i32 (me_act e))" using assms(1) by (simp add: env_ok_def)
    from nth_eq_iff_index_eq [OF this, of i i'] show ?thesis using assms(2) that len by simp
  qed
qed

lemma claim_slot_inv:
  assumes "env_ok e" and "maglev_inv e st" and "i < length (me_params e)" and "j < me_size e"
    and "mg_table st ! slot (me_size e) (me_params e ! i) j = - 1"
    and "\<forall>k < j. mg_table st ! slot (me_size e) (me_params e ! i) k \<noteq> - 1"
  shows "maglev_inv e (claim_slot e i j st)"
proof -
  let ?m = "me_size e" and ?pos = "slot (me_size e) (me_params e ! i) j" and ?v = "as_i32 (me_act e ! i)"
  let ?t = "(mg_table st)[?pos := ?v]"
  note [simp] = env_slot_less [OF assms(1)] env_mark(1) [OF assms(1,3)]
  have len: "length (mg_table st) = ?m" using assms(2) by (simp add: maglev_inv_def)
  have filled: "?t ! p \<noteq> - 1" if "mg_table st ! p \<noteq> - 1" for p
    using that by (cases "p = ?pos") (simp_all add: len)
  have "count_list ?t (- 1) + 1 = count_list (mg_table st) (- 1)"
    using count_list_update [of ?pos "mg_table st" ?v "- 1"] len assms(5) by simp
  moreover have "set ?t \<subseteq> insert (- 1) (as_i32 ` set (me_act e))"
    using set_update_subset_insert [of "mg_table st" ?pos ?v] assms(2) env_mark(2) [OF assms(1,3)]
    unfolding maglev_inv_def by blast
  moreover have "?t ! slot ?m (me_params e ! i') k \<noteq> - 1"
    if "i' < length (me_params e)" "k < (mg_next st)[i := j + 1] ! i'" for i' k
  proof (cases "i' = i")
    case False
    with that assms(2) show ?thesis by (intro filled) (simp add: maglev_inv_def)
  next
    case True
    with that assms(2,3) have "k \<le> j" by (simp add: maglev_inv_def)
    then show ?thesis using assms(6) filled True by (cases "k = j") (auto simp: len)
  qed
  moreover have "(mg_next st)[i := j + 1] ! i' \<le> ?m" if "i' < length (me_params e)" for i'
    using that assms(2,4) by (cases "i' = i") (auto simp: maglev_inv_def nth_list_update)
  ultimately show ?thesis
    using assms(2) unfolding maglev_inv_def claim_slot_def by (simp add: assms(3))
qed

lemma claim_slot_cycle:
  assumes "env_ok e" and "maglev_inv e st" and "i < length (me_params e)" and "in_cycle e c st"
    and "mg_table st ! slot (me_size e) (me_params e ! i) j = - 1" and "mg_weights st ! i \<noteq> 0"
  shows "in_cycle e c (claim_slot e i j st)"
  unfolding in_cycle_def
proof (intro allI impI)
  fix i'
  assume i': "i' < length (me_params e)"
  let ?pos = "slot (me_size e) (me_params e ! i) j" and ?v = "as_i32 (me_act e ! i)" and ?x = "as_i32 (me_act e ! i')"
  have len: "length (mg_table st) = me_size e" "length (mg_weights st) = length (me_params e)"
    using assms(2) by (simp_all add: maglev_inv_def)
  have "claimed (me_act e) (claim_slot e i j st) i' = claimed (me_act e) st i' + (if i' = i then 1 else 0)"
    using count_list_update [of ?pos "mg_table st" ?v ?x] len assms(5) env_mark(1) [OF assms(1) i']
      env_mark(3) [OF assms(1,3) i'] env_slot_less [OF assms(1)]
    by (auto simp: claimed_def claim_slot_def)
  moreover have "mg_weights (claim_slot e i j st) ! i' = mg_weights st ! i' - (if i' = i then 1 else 0)"
    using len i' by (simp add: claim_slot_def nth_list_update)
  ultimately show "mg_weights (claim_slot e i j st) ! i' \<le> weight_of (me_params e) i' \<and>
      claimed (me_act e) (claim_slot e i j st) i' + mg_weights (claim_slot e i j st) ! i' = (c + 1) * weight_of (me_params e) i'"
    using assms(4,6) i' by (auto simp: in_cycle_def)
qed

lemma maglev_round_ends:
  assumes "env_ok e"
  shows "maglev_inv e st \<Longrightarrow> in_cycle e c st \<Longrightarrow> mg_filled st < me_size e \<Longrightarrow> set is \<subseteq> {..<length (me_params e)} \<Longrightarrow>
    \<exists>st'. maglev_round (me_size e) (me_params e) (me_act e) is st = Some st' \<and> maglev_inv e st' \<and> in_cycle e c st' \<and>
      mg_filled st \<le> mg_filled st' \<and> ((\<exists>i \<in> set is. mg_weights st ! i \<noteq> 0) \<longrightarrow> mg_filled st < mg_filled st')"
proof (induction "is" arbitrary: st)
  case (Cons i "is")
  show ?case
  proof (cases "mg_weights st ! i = 0")
    case True
    with Cons.IH [OF Cons.prems(1-3)] Cons.prems(4) show ?thesis by auto
  next
    case False
    have i: "i < length (me_params e)" using Cons.prems(4) by simp
    obtain j where j: "j < me_size e"
      "find_slot (mg_table st) (me_size e) (me_params e ! i) (mg_next st ! i) = Some (slot (me_size e) (me_params e ! i) j, j)"
      "mg_table st ! slot (me_size e) (me_params e ! i) j = - 1"
      "\<forall>k < j. mg_table st ! slot (me_size e) (me_params e ! i) k \<noteq> - 1"
      using slot_found [OF assms Cons.prems(1,3) i] by blast
    let ?st = "claim_slot e i j st"
    note inv = claim_slot_inv [OF assms Cons.prems(1) i j(1,3,4)]
    note cyc = claim_slot_cycle [OF assms Cons.prems(1) i Cons.prems(2) j(3) False]
    have eq: "maglev_round (me_size e) (me_params e) (me_act e) (i # is) st =
        (if mg_filled ?st = me_size e then Some ?st else maglev_round (me_size e) (me_params e) (me_act e) is ?st)"
      using False j(2) by (simp add: claim_slot_def Let_def)
    have f: "mg_filled ?st = mg_filled st + 1" by (simp add: claim_slot_def)
    show ?thesis
    proof (cases "mg_filled ?st = me_size e")
      case True
      with inv cyc f show ?thesis unfolding eq by auto
    next
      case False
      then have "mg_filled ?st < me_size e" using inv unfolding maglev_inv_def by linarith
      with Cons.IH [OF inv cyc] Cons.prems(4) obtain st' where
        "maglev_round (me_size e) (me_params e) (me_act e) is ?st = Some st'" "maglev_inv e st'" "in_cycle e c st'"
        "mg_filled ?st \<le> mg_filled st'" by auto
      with False f show ?thesis unfolding eq by auto
    qed
  qed
qed simp

lemma reset_weights_inv:
  assumes "env_ok e" and "maglev_inv e st" and "in_cycle e c st"
  shows "maglev_inv e (reset_weights (me_params e) st)" and "\<exists>c. in_cycle e c (reset_weights (me_params e) st)"
    and "\<exists>i < length (me_params e). mg_weights (reset_weights (me_params e) st) ! i \<noteq> 0"
    and "mg_filled (reset_weights (me_params e) st) = mg_filled st"
proof -
  let ?n = "length (me_params e)"
  show "maglev_inv e (reset_weights (me_params e) st)" using assms(2) by (simp add: reset_weights_def maglev_inv_def)
  show "mg_filled (reset_weights (me_params e) st) = mg_filled st" by (simp add: reset_weights_def)
  have len: "length (mg_weights st) = ?n" using assms(2) by (simp add: maglev_inv_def)
  have pos: "0 < ?n" "\<And>i. i < ?n \<Longrightarrow> 0 < weight_of (me_params e) i"
    using assms(1) by (auto simp: env_ok_def list_all_length param_ok_def weight_of_def case_prod_beta)
  show "\<exists>c. in_cycle e c (reset_weights (me_params e) st)"
  proof (cases "list_all (\<lambda>w. w = 0) (mg_weights st)")
    case True
    with assms(3) len have "in_cycle e (c + 1) (reset_weights (me_params e) st)"
      by (auto simp: in_cycle_def reset_weights_def claimed_def weight_of_def list_all_length)
    then show ?thesis by blast
  next
    case False
    with assms(3) show ?thesis by (auto simp: reset_weights_def)
  qed
  show "\<exists>i < ?n. mg_weights (reset_weights (me_params e) st) ! i \<noteq> 0"
  proof (cases "list_all (\<lambda>w. w = 0) (mg_weights st)")
    case True
    with pos show ?thesis by (auto simp: reset_weights_def weight_of_def intro!: exI [of _ 0])
  next
    case False
    with len show ?thesis by (auto simp: reset_weights_def list_all_length)
  qed
qed

lemma maglev_loop_ends:
  assumes "env_ok e"
  shows "maglev_inv e st \<Longrightarrow> in_cycle e c st \<Longrightarrow> (\<exists>i < length (me_params e). mg_weights st ! i \<noteq> 0) \<Longrightarrow>
    \<exists>st' c'. maglev_loop (me_size e) (me_params e) (me_act e) st = Some st' \<and> maglev_inv e st' \<and> in_cycle e c' st' \<and>
      mg_filled st' = me_size e"
proof (induction "me_size e - mg_filled st" arbitrary: st c rule: less_induct)
  case less
  show ?case
  proof (cases "mg_filled st < me_size e")
    case False
    then have "mg_filled st = me_size e" using less.prems(1) unfolding maglev_inv_def by linarith
    with less.prems show ?thesis by (subst maglev_loop.simps) auto
  next
    case True
    obtain st1 where r: "maglev_round (me_size e) (me_params e) (me_act e) [0..<length (me_params e)] st = Some st1"
      "maglev_inv e st1" "in_cycle e c st1" "mg_filled st < mg_filled st1"
      using maglev_round_ends [OF assms less.prems(1,2) True, of "[0..<length (me_params e)]"] less.prems(3)
      by (auto simp: atLeast0LessThan)
    let ?st = "reset_weights (me_params e) st1"
    note res = reset_weights_inv [OF assms r(2,3)]
    obtain c1 where c1: "in_cycle e c1 ?st" using res(2) by blast
    have "me_size e - mg_filled ?st < me_size e - mg_filled st" using r(4) True res(4) by simp
    from less.hyps [OF this res(1) c1 res(3)] True r(1) show ?thesis by (subst maglev_loop.simps) simp
  qed
qed

section \<open>The table of a new layout\<close>

lemma as_i32_small: "n < 2 ^ 31 \<Longrightarrow> as_i32 n = int n"
  unfolding as_i32_def
  by (simp add: signed_of_nat signed_take_bit_int_eq_self)

lemma active_indices_set: "set (active_indices ts) = {i. i < length ts \<and> is_active (ts ! i)}"
  by (auto simp: active_indices_def)

definition layout_env :: "(string \<Rightarrow> u64 \<Rightarrow> u64) \<Rightarrow> nat \<Rightarrow> store_target list \<Rightarrow> maglev_env" where
  "layout_env hs m ts =
     \<lparr>me_size = m, me_params = map (\<lambda>i. permutation_param hs m (ts ! i)) (active_indices ts),
      me_act = active_indices ts\<rparr>"

lemma layout_env_ok:
  assumes "indivisible m" and "length ts < 2 ^ 31" and "active_indices ts \<noteq> []"
  shows "env_ok (layout_env hs m ts)"
proof -
  have m: "1 < m" using assms(1) by (simp add: indivisible_def)
  have mark: "as_i32 i = int i" if "i \<in> set (active_indices ts)" for i
    using that assms(2) by (intro as_i32_small) (simp add: active_indices_set)
  have "param_ok m (permutation_param hs m (ts ! i))" if "i \<in> set (active_indices ts)" for i
  proof -
    have "unat (hs (tg_store_id (ts ! i)) 1) mod (m - 1) < m - 1" using m by simp
    moreover have "0 < unat (tg_weight (ts ! i))"
      using that by (simp add: active_indices_set is_active_def unat_gt_0 word_neq_0_conv)
    ultimately show ?thesis by (simp add: param_ok_def permutation_param_def)
  qed
  moreover have "distinct (map as_i32 (active_indices ts))"
    by (simp add: distinct_map inj_on_def mark) (simp add: active_indices_def)
  ultimately show ?thesis
    using assms(1,3) mark by (auto simp: env_ok_def layout_env_def list_all_iff)
qed

lemma maglev_init_inv:
  assumes "env_ok e"
  shows "maglev_inv e (maglev_init (me_size e) (me_params e))" and "in_cycle e 0 (maglev_init (me_size e) (me_params e))"
    and "\<exists>i < length (me_params e). mg_weights (maglev_init (me_size e) (me_params e)) ! i \<noteq> 0"
proof -
  have cnt: "count_list (replicate k (- 1 :: int)) (- 1) = k" for k by (induction k) simp_all
  have other: "count_list (replicate k (- 1 :: int)) v = 0" if "v \<noteq> - 1" for k v
    using that by (induction k) simp_all
  show "maglev_inv e (maglev_init (me_size e) (me_params e))"
    by (auto simp: maglev_inv_def maglev_init_def cnt)
  show "in_cycle e 0 (maglev_init (me_size e) (me_params e))"
    using env_mark(1) [OF assms] by (simp add: in_cycle_def maglev_init_def claimed_def weight_of_def other)
  have "me_params e \<noteq> []" "param_ok (me_size e) (me_params e ! 0)"
    using assms by (auto simp: env_ok_def list_all_length)
  then show "\<exists>i < length (me_params e). mg_weights (maglev_init (me_size e) (me_params e)) ! i \<noteq> 0"
    by (auto simp: maglev_init_def param_ok_def case_prod_beta intro!: exI [of _ 0])
qed

text \<open>What the table of a layout promises.\<close>

definition layout_ok :: "store_layout \<Rightarrow> bool" where
  "layout_ok l \<longleftrightarrow> sl_active l = active_indices (sl_targets l) \<and>
     (if sl_active l = [] then sl_lookup_table l = []
      else length (sl_lookup_table l) = sl_table_size l \<and> 0 < sl_table_size l \<and>
           set (sl_lookup_table l) \<subseteq> int ` set (sl_active l))"

definition slots_of :: "store_layout \<Rightarrow> nat \<Rightarrow> nat" where
  "slots_of l i = count_list (sl_lookup_table l) (int i)"

definition proportional :: "store_layout \<Rightarrow> nat \<Rightarrow> bool" where
  "proportional l c \<longleftrightarrow> (\<forall>i \<in> set (sl_active l).
     c * unat (tg_weight (sl_targets l ! i)) \<le> slots_of l i \<and>
     slots_of l i \<le> (c + 1) * unat (tg_weight (sl_targets l ! i)))"

lemma maglev_full_table:
  assumes "env_ok e" and "maglev_inv e st" and "mg_filled st = me_size e"
  shows "set (mg_table st) \<subseteq> as_i32 ` set (me_act e)"
proof -
  have "count_list (mg_table st) (- 1) = 0" using assms(2,3) by (simp add: maglev_inv_def)
  then have "- 1 \<notin> set (mg_table st)" by (simp add: count_list_0_iff)
  with assms(2) show ?thesis by (auto simp: maglev_inv_def)
qed

lemma rebuild_ok:
  assumes "indivisible (sl_table_size l)" and "length (sl_targets l) < 2 ^ 31"
  shows "\<exists>t c. rebuild_maglev hs l = Some (l\<lparr>sl_active := active_indices (sl_targets l), sl_lookup_table := t\<rparr>) \<and>
    layout_ok (l\<lparr>sl_active := active_indices (sl_targets l), sl_lookup_table := t\<rparr>) \<and>
    proportional (l\<lparr>sl_active := active_indices (sl_targets l), sl_lookup_table := t\<rparr>) c"
proof (cases "active_indices (sl_targets l) = []")
  case True
  then show ?thesis by (auto simp: rebuild_maglev_def layout_ok_def proportional_def)
next
  case False
  let ?ts = "sl_targets l" and ?m = "sl_table_size l"
  let ?e = "layout_env hs ?m ?ts"
  have ok: "env_ok ?e" by (rule layout_env_ok [OF assms False])
  note ini = maglev_init_inv [OF ok]
  obtain st c where st: "maglev_loop ?m (me_params ?e) (active_indices ?ts) (maglev_init ?m (me_params ?e)) = Some st"
    "maglev_inv ?e st" "in_cycle ?e c st" "mg_filled st = ?m"
    using maglev_loop_ends [OF ok ini] by (auto simp: layout_env_def)
  let ?l = "l\<lparr>sl_active := active_indices ?ts, sl_lookup_table := mg_table st\<rparr>"
  have mark: "as_i32 i = int i" if "i \<in> set (active_indices ?ts)" for i
    using that assms(2) by (intro as_i32_small) (simp add: active_indices_set)
  have "rebuild_maglev hs l = Some ?l"
    using False st(1) by (simp add: rebuild_maglev_def Let_def layout_env_def)
  moreover have "as_i32 ` set (active_indices ?ts) = int ` set (active_indices ?ts)"
    using mark by (rule image_cong [OF refl])
  then have "layout_ok ?l"
    using False st(2) maglev_full_table [OF ok st(2)] st(4) assms(1)
    by (simp add: layout_ok_def layout_env_def maglev_inv_def indivisible_def)
  moreover have "proportional ?l c"
    unfolding proportional_def
  proof
    fix i
    assume "i \<in> set (sl_active ?l)"
    then obtain j where j: "j < length (active_indices ?ts)" "active_indices ?ts ! j = i"
      by (auto simp: in_set_conv_nth)
    have "claimed (me_act ?e) st j = slots_of ?l i" using j mark [of i] nth_mem [OF j(1)]
      by (simp add: claimed_def slots_of_def layout_env_def)
    moreover have "weight_of (me_params ?e) j = unat (tg_weight (?ts ! i))"
      using j by (simp add: weight_of_def layout_env_def permutation_param_def)
    ultimately show "c * unat (tg_weight (sl_targets ?l ! i)) \<le> slots_of ?l i \<and>
        slots_of ?l i \<le> (c + 1) * unat (tg_weight (sl_targets ?l ! i))"
      using st(3) j(1) by (auto simp: in_cycle_def layout_env_def)
  qed
  ultimately show ?thesis by blast
qed

lemma store_layout_new_ok:
  assumes "length ts < 2 ^ 31"
  shows "\<exists>l c. store_layout_new hs epoch ts cap used = Some l \<and> sl_targets l = ts \<and> sl_epoch l = epoch \<and>
    layout_ok l \<and> proportional l c"
proof -
  let ?tw = "sum_list (map (\<lambda>t. of_nat (unat (tg_weight t))) (filter is_active ts)) :: u64"
  let ?l = "\<lparr>sl_epoch = epoch, sl_targets = ts, sl_total_capacity = cap, sl_total_used = used,
      sl_total_weight = ?tw, sl_lookup_table = [], sl_active = [], sl_table_size = choose_table_size ?tw\<rparr>"
  obtain t c where r: "rebuild_maglev hs ?l = Some (?l\<lparr>sl_active := active_indices ts, sl_lookup_table := t\<rparr>)"
    "layout_ok (?l\<lparr>sl_active := active_indices ts, sl_lookup_table := t\<rparr>)"
    "proportional (?l\<lparr>sl_active := active_indices ts, sl_lookup_table := t\<rparr>) c"
    using rebuild_ok [of ?l hs] assms indivisible_choose [of ?tw] by auto
  then show ?thesis
    by (intro exI [of _ "?l\<lparr>sl_active := active_indices ts, sl_lookup_table := t\<rparr>"] exI [of _ c])
      (simp add: store_layout_new_def Let_def)
qed

text \<open>\<^bold>\<open>C31.\<close> Building a layout terminates for every set of targets, whatever the hash function: the table
  size that is chosen is prime, so each target's preference sequence visits every slot.  The table is
  then full, each slot holds an enabled, writable target of positive weight, and slots are
  distributed in proportion to the weights: for some number of cycles \<open>c\<close>, every target has between
  \<open>c\<close> and \<open>c + 1\<close> times its weight.\<close>

theorem store_layout_new_full:
  assumes "length ts < 2 ^ 31"
  shows "\<exists>l c. store_layout_new hs epoch ts cap used = Some l \<and> sl_targets l = ts \<and> sl_epoch l = epoch \<and>
    layout_ok l \<and> proportional l c"
  using assms by (rule store_layout_new_ok)

definition demo_target :: store_target where
  "demo_target = \<lparr>tg_store_id = ''a'', tg_device_did = [], tg_capacity = None, tg_used = None,
     tg_readonly = False, tg_enabled = True, tg_weight = 2\<rparr>"

theorem store_layout_new_full_witness:
  "\<exists>l c. store_layout_new (\<lambda>s seed. seed) 1 [demo_target] 0 0 = Some l \<and> layout_ok l \<and> proportional l c"
  using store_layout_new_full [of "[demo_target]" "\<lambda>s seed. seed" 1 0 0] by auto

section \<open>Selection\<close>

lemma layout_target:
  assumes "layout_ok l" and "sl_lookup_table l \<noteq> []"
  shows "\<exists>i \<in> set (sl_active l). table_target l h = Some i \<and> i < length (sl_targets l) \<and> is_active (sl_targets l ! i)"
proof -
  have ne: "sl_active l \<noteq> []" using assms by (auto simp: layout_ok_def)
  then have l: "length (sl_lookup_table l) = sl_table_size l" "0 < sl_table_size l"
    "set (sl_lookup_table l) \<subseteq> int ` set (sl_active l)" using assms(1) by (auto simp: layout_ok_def)
  let ?k = "unat h mod sl_table_size l"
  have k: "?k < length (sl_lookup_table l)" using l by simp
  then obtain i where i: "i \<in> set (sl_active l)" "sl_lookup_table l ! ?k = int i" using l(3) nth_mem by blast
  have "i < length (sl_targets l) \<and> is_active (sl_targets l ! i)"
    using i(1) assms(1) by (auto simp: layout_ok_def active_indices_set)
  with i k show ?thesis by (auto simp: table_target_def nth_opt_def)
qed

text \<open>The loop never panics, extends what was selected, and keeps it distinct and active.\<close>

lemma select_loop_ok:
  assumes "layout_ok l" and "sl_lookup_table l \<noteq> []"
  shows "distinct sel \<Longrightarrow> set sel \<subseteq> set (sl_active l) \<Longrightarrow> length sel \<le> n \<Longrightarrow>
    \<exists>ys. select_loop l base n probe sel = Some (sel @ ys) \<and> distinct (sel @ ys) \<and>
      set ys \<subseteq> set (sl_active l) \<and> length (sel @ ys) \<le> n"
  using assms
proof (induction l base n probe sel rule: select_loop.induct)
  case (1 l base n probe sel)
  show ?case
  proof (cases "length sel < n")
    case False
    with 1(2,4) show ?thesis by (subst select_loop.simps) auto
  next
    case True
    obtain i where i: "table_target l (probe_hash base (of_nat probe)) = Some i" "i \<in> set (sl_active l)"
      using layout_target [OF 1(5,6)] by blast
    let ?sel = "if i \<in> set sel then sel else sel @ [i]"
    have sel: "distinct ?sel" "set ?sel \<subseteq> set (sl_active l)" "length ?sel \<le> n" using 1(2,3) True i(2) by auto
    show ?thesis
    proof (cases "sl_table_size l + 1000 < probe + 1")
      case stop: True
      with True i sel 1(2) show ?thesis by (subst select_loop.simps) auto
    next
      case go: False
      obtain ys where "select_loop l base n (probe + 1) ?sel = Some (?sel @ ys)" "distinct (?sel @ ys)"
        "set ys \<subseteq> set (sl_active l)" "length (?sel @ ys) \<le> n"
        using 1(1) [OF True i(1) refl go sel 1(5,6)] by blast
      with True go i show ?thesis by (subst select_loop.simps) (auto split: if_splits)
    qed
  qed
qed

lemma select_loop_prefix:
  assumes "layout_ok l" and "sl_lookup_table l \<noteq> []" and "n \<le> N"
  shows "distinct sel \<Longrightarrow> set sel \<subseteq> set (sl_active l) \<Longrightarrow> length sel \<le> n \<Longrightarrow>
    select_loop l base n probe sel = map_option (take n) (select_loop l base N probe sel)"
  using assms
proof (induction l base N probe sel rule: select_loop.induct)
  case (1 l base N probe sel)
  show ?case
  proof (cases "length sel < n")
    case False
    then have "select_loop l base n probe sel = Some sel" by (subst select_loop.simps) simp
    moreover obtain ys where "select_loop l base N probe sel = Some (sel @ ys)"
      using select_loop_ok [OF 1(5,6) 1(2,3), of N base probe] 1(4,7) by auto
    ultimately show ?thesis using False 1(4) by simp
  next
    case True
    then have TN: "length sel < N" using 1(7) by simp
    obtain i where i: "table_target l (probe_hash base (of_nat probe)) = Some i" "i \<in> set (sl_active l)"
      using layout_target [OF 1(5,6)] by blast
    let ?sel = "if i \<in> set sel then sel else sel @ [i]"
    have sel: "distinct ?sel" "set ?sel \<subseteq> set (sl_active l)" "length ?sel \<le> n" using 1(2,3) True i(2) by auto
    show ?thesis
    proof (cases "sl_table_size l + 1000 < probe + 1")
      case stop: True
      with True TN i sel(3) show ?thesis
        by (subst select_loop.simps, subst (2) select_loop.simps) auto
    next
      case go: False
      have "select_loop l base n (probe + 1) ?sel = map_option (take n) (select_loop l base N (probe + 1) ?sel)"
        by (rule 1(1) [OF TN i(1) refl go sel 1(5-7)])
      with True TN go i show ?thesis
        by (subst select_loop.simps, subst (2) select_loop.simps) simp
    qed
  qed
qed

lemma map_opt_some: "list_all (\<lambda>i. i < length ts) is \<Longrightarrow> map_opt (nth_opt ts) is = Some (map ((!) ts) is)"
  by (induction "is") (auto simp: nth_opt_def)

lemma select_loop_head:
  assumes "layout_ok l" and "sl_lookup_table l \<noteq> []" and "0 < n"
  shows "\<exists>i ys. table_target l base = Some i \<and> select_loop l base n 0 [] = Some (i # ys)"
proof -
  obtain i where i: "table_target l base = Some i" "i \<in> set (sl_active l)" using layout_target [OF assms(1,2)] by blast
  have "select_loop l base n 0 [] = select_loop l base n 1 [i]"
    using assms(3) i(1) by (subst select_loop.simps) (simp add: probe_hash_def)
  with select_loop_ok [OF assms(1,2), of "[i]" n base 1] i assms(3) show ?thesis by (auto simp: Suc_le_eq)
qed

text \<open>Selection on a layout never indexes out of range and answers only with enabled, writable
  targets: the primary target exists exactly when there is an active target; a selection of \<open>n\<close>
  targets consists of the targets of distinct active indices, at most \<open>n\<close>, starts with the primary
  target, and is the prefix of length \<open>n\<close> of the selection of all targets, so that asking for more
  replicas never moves the first ones.\<close>

theorem select_n_targets_prefix:
  assumes "layout_ok l"
  shows "\<exists>is. select_targets ho l oid = Some (map ((!) (sl_targets l)) is) \<and> distinct is \<and>
    set is \<subseteq> {i. i < length (sl_targets l) \<and> is_active (sl_targets l ! i)} \<and>
    select_n_targets ho l oid n = Some (map ((!) (sl_targets l)) (take n is)) \<and>
    (sl_active l = [] \<longleftrightarrow> is = []) \<and>
    select_primary_target ho l oid = Some (if is = [] then None else Some (sl_targets l ! hd is))"
proof (cases "sl_lookup_table l = []")
  case True
  then have "sl_active l = []" using assms by (auto simp: layout_ok_def split: if_splits)
  with True show ?thesis
    by (simp add: select_targets_def select_n_targets_def select_primary_target_def)
next
  case False
  let ?N = "length (sl_active l)" and ?b = "ho (obj_hash oid)"
  have act: "sl_active l \<noteq> []" using False assms by (auto simp: layout_ok_def)
  have sub: "set (sl_active l) = {i. i < length (sl_targets l) \<and> is_active (sl_targets l ! i)}"
    using assms by (simp add: layout_ok_def active_indices_set)
  obtain i ys where head: "table_target l ?b = Some i" "select_loop l ?b ?N 0 [] = Some (i # ys)"
    using select_loop_head [OF assms False, of ?N ?b] act by auto
  have all: "distinct (i # ys)" "set (i # ys) \<subseteq> set (sl_active l)" "length (i # ys) \<le> ?N"
    using select_loop_ok [OF assms False, of "[]" ?N ?b 0] head(2) by auto
  have idx: "list_all (\<lambda>i. i < length (sl_targets l)) xs" if "set xs \<subseteq> set (i # ys)" for xs
    using that all(2) sub by (auto simp: list_all_iff)
  have loop: "select_loop l ?b (min n ?N) 0 [] = Some (take n (i # ys))"
    using select_loop_prefix [OF assms False, of "min n ?N" ?N "[]" ?b 0] head(2) all(3) by (auto simp: min_def)
  have n: "select_n_targets ho l oid n = Some (map ((!) (sl_targets l)) (take n (i # ys)))"
    using False act loop map_opt_some [OF idx [OF set_take_subset, of n]]
    by (auto simp: select_n_targets_def min_def)
  have t: "select_targets ho l oid = Some (map ((!) (sl_targets l)) (i # ys))"
    using False act head(2) map_opt_some [OF idx [OF subset_refl]]
    by (simp add: select_targets_def select_n_targets_def)
  have "i < length (sl_targets l)" using all(2) sub by auto
  then have "select_primary_target ho l oid = Some (Some (sl_targets l ! i))"
    using False head(1) by (simp add: select_primary_target_def nth_opt_def)
  with n t all sub act show ?thesis by (intro exI [of _ "i # ys"]) auto
qed

theorem select_n_targets_prefix_witness:
  "\<exists>l is. store_layout_new (\<lambda>s seed. seed) 1 [demo_target] 0 0 = Some l \<and>
     select_targets (\<lambda>_. 7) l (new_by_raw ''cyfile'' [1]) = Some (map ((!) (sl_targets l)) is)"
proof -
  let ?l = "\<lparr>sl_epoch = 1, sl_targets = [demo_target], sl_total_capacity = 0, sl_total_used = 0,
      sl_total_weight = 2, sl_lookup_table = [], sl_active = [], sl_table_size = choose_table_size 2\<rparr>"
  obtain t where t: "rebuild_maglev (\<lambda>s seed. seed) ?l =
      Some (?l\<lparr>sl_active := active_indices [demo_target], sl_lookup_table := t\<rparr>)"
    "layout_ok (?l\<lparr>sl_active := active_indices [demo_target], sl_lookup_table := t\<rparr>)"
    using rebuild_ok [of ?l "\<lambda>s seed. seed"] indivisible_choose [of 2] by auto
  have "store_layout_new (\<lambda>s seed. seed) 1 [demo_target] 0 0 = rebuild_maglev (\<lambda>s seed. seed) ?l"
    by (simp add: store_layout_new_def is_active_def demo_target_def)
  with t select_n_targets_prefix [OF t(2), of "\<lambda>_. 7" "new_by_raw ''cyfile'' [1]" 1] show ?thesis by auto
qed

end
