(* ===== verification/Ndm_Props.thy ===== *)
theory Ndm_Props
  imports Ndm Named_Store_Props Store_Layout_Props
begin

text \<open>
  Properties of \<open>NamedDataMgr\<close>: the history of layouts, the order in which stores are searched, what a
  change of layout keeps readable, and forced collection over several stores.
\<close>

section \<open>The history of layouts\<close>

text \<open>Epochs strictly descend, the history is short, and keys of the store table are store identifiers.\<close>

definition mgr_wf :: "'f named_data_mgr \<Rightarrow> bool" where
  "mgr_wf m \<longleftrightarrow>
     sorted_wrt (\<lambda>v w. lv_epoch w < lv_epoch v) (versions m) \<and>
     length (versions m) \<le> max_versions m \<and> 0 < max_versions m \<and>
     (\<forall>v \<in> set (versions m). lv_epoch v = sl_epoch (lv_layout v) \<and> layout_ok (lv_layout v)) \<and>
     distinct (map fst (stores m)) \<and> (\<forall>(sid, st) \<in> set (stores m). ns_store_id st = sid)"

lemma position_None: "position P xs = None \<longleftrightarrow> (\<forall>x \<in> set xs. \<not> P x)"
  by (induction xs) auto

lemma position_Some: "position P xs = Some i \<Longrightarrow> i < length xs \<and> P (xs ! i) \<and> (\<forall>j < i. \<not> P (xs ! j))"
proof (induction xs arbitrary: i)
  case (Cons x xs)
  then show ?case by (auto split: if_splits simp: less_Suc_eq_0_disj)
qed simp

lemma sorted_wrt_update:
  assumes "sorted_wrt R xs" and "i < length xs"
    and "\<And>y. R (xs ! i) y \<Longrightarrow> R x y" and "\<And>y. R y (xs ! i) \<Longrightarrow> R y x"
  shows "sorted_wrt R (xs[i := x])"
  using assms by (auto simp: sorted_wrt_iff_nth_less nth_list_update)

lemma sorted_wrt_insert_at:
  assumes "sorted_wrt R xs" and "\<forall>y \<in> set (take i xs). R y x" and "\<forall>y \<in> set (drop i xs). R x y"
  shows "sorted_wrt R (insert_at i x xs)"
proof -
  have "sorted_wrt R (take i xs @ drop i xs)" using assms(1) by simp
  then have "sorted_wrt R (take i xs)" "sorted_wrt R (drop i xs)"
    "\<forall>a \<in> set (take i xs). \<forall>b \<in> set (drop i xs). R a b"
    unfolding sorted_wrt_append by blast+
  with assms(2,3) show ?thesis unfolding insert_at_def sorted_wrt_append by auto
qed

text \<open>The insertion of a new epoch: everything before it is newer, everything after it older.\<close>

definition layout_pos :: "u64 \<Rightarrow> layout_version list \<Rightarrow> nat" where
  "layout_pos epoch vs = (case position (\<lambda>v. lv_epoch v < epoch) vs of Some i \<Rightarrow> i | None \<Rightarrow> length vs)"

lemma layout_pos_simps [simp]:
  "layout_pos epoch [] = 0"
  "layout_pos epoch (v # vs) = (if lv_epoch v < epoch then 0 else Suc (layout_pos epoch vs))"
  by (simp_all add: layout_pos_def split: option.split)

lemma layout_pos_split:
  assumes "sorted_wrt (\<lambda>v w. lv_epoch w < lv_epoch v) vs" and "\<forall>v \<in> set vs. lv_epoch v \<noteq> epoch"
  shows "(\<forall>v \<in> set (take (layout_pos epoch vs) vs). epoch < lv_epoch v) \<and>
         (\<forall>v \<in> set (drop (layout_pos epoch vs) vs). lv_epoch v < epoch)"
  using assms
proof (induction vs)
  case (Cons v vs)
  show ?case
  proof (cases "lv_epoch v < epoch")
    case True
    have "lv_epoch w < epoch" if "w \<in> set vs" for w
      using Cons.prems(1) that True by (auto intro: less_trans)
    with True show ?thesis by simp
  next
    case False
    then have "epoch < lv_epoch v" using Cons.prems(2) by (metis linorder_neqE list.set_intros(1))
    with False Cons show ?thesis by simp
  qed
qed simp

lemma add_layout_versions:
  "versions (add_layout l m) =
     (let v = \<lparr>lv_epoch = sl_epoch l, lv_layout = l\<rparr>
      in take (max_versions m)
           (case position (\<lambda>v. lv_epoch v = sl_epoch l) (versions m) of
              Some i \<Rightarrow> (versions m)[i := v]
            | None \<Rightarrow> insert_at (layout_pos (sl_epoch l) (versions m)) v (versions m)))"
  "stores (add_layout l m) = stores m" "max_versions (add_layout l m) = max_versions m"
  by (simp_all add: add_layout_def layout_pos_def Let_def split: option.split)

lemma add_layout_wf:
  assumes "mgr_wf m" and "layout_ok l"
  shows "mgr_wf (add_layout l m)"
proof -
  let ?v = "\<lparr>lv_epoch = sl_epoch l, lv_layout = l\<rparr>" and ?R = "\<lambda>v w. lv_epoch w < lv_epoch v"
  define vs where "vs = (case position (\<lambda>v. lv_epoch v = sl_epoch l) (versions m) of
      Some i \<Rightarrow> (versions m)[i := ?v] | None \<Rightarrow> insert_at (layout_pos (sl_epoch l) (versions m)) ?v (versions m))"
  have srt: "sorted_wrt ?R (versions m)" using assms(1) by (simp add: mgr_wf_def)
  have "sorted_wrt ?R vs"
  proof (cases "position (\<lambda>v. lv_epoch v = sl_epoch l) (versions m)")
    case None
    then have "\<forall>v \<in> set (versions m). lv_epoch v \<noteq> sl_epoch l" by (simp add: position_None)
    from layout_pos_split [OF srt this] None show ?thesis
      unfolding vs_def by (auto intro!: sorted_wrt_insert_at srt)
  next
    case (Some i)
    with position_Some [OF Some] show ?thesis
      unfolding vs_def by (auto intro!: sorted_wrt_update srt)
  qed
  moreover have "set vs \<subseteq> insert ?v (set (versions m))"
    unfolding vs_def insert_at_def
    by (auto split: option.splits dest!: in_set_takeD in_set_dropD set_update_subset_insert [THEN subsetD])
  ultimately show ?thesis
    using assms unfolding mgr_wf_def add_layout_versions Let_def vs_def [symmetric]
    by (auto simp: sorted_wrt_take dest!: in_set_takeD)
qed

section \<open>The order of the search\<close>

text \<open>The identifiers of the stores that the versions select, each at its first occurrence.\<close>

definition targets :: "(u8 list \<Rightarrow> u64) \<Rightarrow> obj_id \<Rightarrow> layout_version list \<Rightarrow> string list" where
  "targets ho oid vs = List.map_filter (\<lambda>v. map_option tg_store_id (primary_target ho (lv_layout v) oid)) vs"

fun fresh :: "'a list \<Rightarrow> 'a list \<Rightarrow> 'a list" where
  "fresh tried [] = []"
| "fresh tried (x # xs) = (if x \<in> set tried then fresh tried xs else x # fresh (tried @ [x]) xs)"

definition route :: "(u8 list \<Rightarrow> u64) \<Rightarrow> obj_id \<Rightarrow> 'f named_data_mgr \<Rightarrow> string list" where
  "route ho oid m = fresh [] (targets ho oid (versions m))"

fun visit :: "(string \<Rightarrow> 'acc \<Rightarrow> 'r + 'acc) \<Rightarrow> string list \<Rightarrow> 'acc \<Rightarrow> 'r + 'acc" where
  "visit body [] acc = Inr acc"
| "visit body (x # xs) acc = (case body x acc of Inl r \<Rightarrow> Inl r | Inr acc' \<Rightarrow> visit body xs acc')"

lemma targets_simps [simp]:
  "targets ho oid [] = []"
  "targets ho oid (v # vs) = (case primary_target ho (lv_layout v) oid of
     None \<Rightarrow> targets ho oid vs | Some t \<Rightarrow> tg_store_id t # targets ho oid vs)"
  by (simp_all add: targets_def map_filter_simps split: option.split)

lemma each_version_visit:
  "each_version ho oid body vs tried acc = visit body (fresh tried (targets ho oid vs)) acc"
  by (induction vs arbitrary: tried acc) (simp_all split: option.split sum.split)

lemma set_fresh [simp]: "set (fresh tried xs) = set xs - set tried"
  by (induction tried xs rule: fresh.induct) auto

lemma fresh_distinct: "distinct (fresh tried xs)"
  by (induction tried xs rule: fresh.induct) auto

lemma set_route: "set (route ho oid m) = set (targets ho oid (versions m))"
  by (simp add: route_def)

text \<open>What a store of the manager answers for an object.\<close>

definition held :: "'j ext_crates \<Rightarrow> obj_id \<Rightarrow> 'f named_data_mgr \<Rightarrow> string \<Rightarrow> string option" where
  "held E oid m sid = (case get_store sid m of None \<Rightarrow> None | Some st \<Rightarrow> res_ok (ns_get_object E oid st))"

lemma get_object_body_held:
  "held E oid m sid = Some d \<Longrightarrow> get_object_body E oid m sid e = Inl d"
  "held E oid m sid = None \<Longrightarrow> \<exists>e'. get_object_body E oid m sid e = Inr (Some e')"
  by (auto simp: held_def get_object_body_def res_ok_def split: option.splits sum.splits ndn_error.splits)

fun first_some :: "('a \<Rightarrow> 'b option) \<Rightarrow> 'a list \<Rightarrow> 'b option" where
  "first_some f [] = None"
| "first_some f (x # xs) = (case f x of None \<Rightarrow> first_some f xs | Some d \<Rightarrow> Some d)"

lemma first_some_None: "first_some f xs = None \<longleftrightarrow> (\<forall>x \<in> set xs. f x = None)"
  by (induction xs) (auto split: option.split)

lemma first_some_SomeD: "first_some f xs = Some d \<Longrightarrow> \<exists>x \<in> set xs. f x = Some d"
  by (induction xs) (auto split: option.splits)

lemma first_some_cong: "(\<And>x. x \<in> set xs \<Longrightarrow> f x = g x) \<Longrightarrow> first_some f xs = first_some g xs"
  by (induction xs) (auto split: option.split)

lemma visit_first:
  assumes "\<And>x d acc. f x = Some d \<Longrightarrow> body x acc = Inl d" and "\<And>x acc. f x = None \<Longrightarrow> \<exists>e. body x acc = Inr (Some e)"
  shows "first_some f xs = Some d \<Longrightarrow> visit body xs acc = Inl d"
    and "first_some f xs = None \<Longrightarrow> \<exists>acc'. visit body xs acc = Inr acc'"
proof (induction xs arbitrary: acc)
  case (Cons x xs)
  { case 1 with Cons(1) assms(1) [of x] assms(2) [of x acc] show ?case by (auto split: option.splits) }
  { case 2 with Cons(2) assms(2) [of x acc] show ?case by (auto split: option.splits) }
qed simp_all

lemma fresh_cong: "set xs = set ys \<Longrightarrow> fresh xs zs = fresh ys zs"
proof (induction zs arbitrary: xs ys)
  case (Cons z zs)
  from Cons.prems have "fresh (xs @ [z]) zs = fresh (ys @ [z]) zs" "fresh xs zs = fresh ys zs"
    by (auto intro: Cons.IH)
  with Cons.prems show ?case by simp
qed simp

lemma first_some_skip: "f x = None \<Longrightarrow> first_some f (fresh (tried @ [x]) xs) = first_some f (fresh tried xs)"
proof (induction xs arbitrary: tried)
  case (Cons y ys)
  have "fresh ((tried @ [x]) @ [y]) ys = fresh ((tried @ [y]) @ [x]) ys" by (rule fresh_cong) auto
  with Cons.IH [of tried] Cons.IH [of "tried @ [y]"] Cons.prems show ?case by (simp split: option.split)
qed simp

text \<open>Reading is a search along the route.\<close>

lemma ndm_get_object_route:
  "res_ok (ndm_get_object E ho oid m) = first_some (held E oid m) (route ho oid m)"
proof (cases "versions m = []")
  case True
  then show ?thesis by (simp add: ndm_get_object_def route_def res_ok_def)
next
  case ne: False
  have V: "first_some (held E oid m) xs = Some d \<Longrightarrow> visit (get_object_body E oid m) xs None = Inl d"
    "first_some (held E oid m) xs = None \<Longrightarrow> \<exists>acc. visit (get_object_body E oid m) xs None = Inr acc" for xs d
    by (rule visit_first [where f = "held E oid m"], simp_all add: get_object_body_held)+
  show ?thesis
  proof (cases "first_some (held E oid m) (route ho oid m)")
    case None
    from V(2) [OF None] obtain acc where "visit (get_object_body E oid m) (route ho oid m) None = Inr acc" ..
    with ne None show ?thesis
      by (simp add: ndm_get_object_def each_version_visit route_def [symmetric] res_ok_def split: option.splits)
  next
    case (Some d)
    from V(1) [OF Some] Some ne show ?thesis
      by (simp add: ndm_get_object_def each_version_visit route_def [symmetric] res_ok_def)
  qed
qed

lemma res_ok_Some [simp]: "res_ok r = Some d \<longleftrightarrow> r = Ok d"
  by (simp add: res_ok_def split: sum.split)

lemma ndm_readable_iff:
  "(\<exists>d. ndm_get_object E ho oid m = Ok d) \<longleftrightarrow>
     (\<exists>sid \<in> set (targets ho oid (versions m)). held E oid m sid \<noteq> None)"
proof -
  have "(\<exists>d. ndm_get_object E ho oid m = Ok d) \<longleftrightarrow> first_some (held E oid m) (route ho oid m) \<noteq> None"
    unfolding ndm_get_object_route [symmetric] by (simp add: not_None_eq)
  then show ?thesis by (auto simp: first_some_None set_route)
qed

section \<open>Changing the layout\<close>

lemma held_add_layout [simp]: "held E oid (add_layout l m) = held E oid m"
  by (simp add: held_def get_store_def add_layout_versions fun_eq_iff)

lemma add_newest:
  assumes "mgr_wf m" and "\<forall>v \<in> set (versions m). lv_epoch v < sl_epoch l"
  shows "versions (add_layout l m) =
    \<lparr>lv_epoch = sl_epoch l, lv_layout = l\<rparr> # take (max_versions m - 1) (versions m)"
proof -
  have "position (\<lambda>v. lv_epoch v = sl_epoch l) (versions m) = None"
    using assms(2) by (auto simp: position_None)
  moreover have "layout_pos (sl_epoch l) (versions m) = 0"
    using assms(2) by (cases "versions m") simp_all
  moreover have "0 < max_versions m" using assms(1) by (simp add: mgr_wf_def)
  ultimately show ?thesis
    by (simp add: add_layout_versions insert_at_def take_Cons')
qed

text \<open>Two stores; the first layout puts everything on \<open>r\<close>, the second one on \<open>b\<close>.\<close>

definition one_layout :: "u64 \<Rightarrow> string \<Rightarrow> store_layout" where
  "one_layout epoch sid =
     \<lparr>sl_epoch = epoch, sl_targets = [demo_target\<lparr>tg_store_id := sid\<rparr>], sl_total_capacity = 0, sl_total_used = 0,
      sl_total_weight = 2, sl_lookup_table = [0], sl_active = [0], sl_table_size = 1\<rparr>"

definition demo_mgr :: "lf_state named_data_mgr" where
  "demo_mgr = \<lparr>versions = [\<lparr>lv_epoch = 1, lv_layout = one_layout 1 ''r''\<rparr>],
     stores = [(''r'', demo_store), (''b'', demo_store\<lparr>ns_store_id := ''b'', ns_db := empty_db\<rparr>)], max_versions = 3\<rparr>"

lemma one_layout_ok: "layout_ok (one_layout epoch sid)" "primary_target ho (one_layout epoch sid) oid = Some (demo_target\<lparr>tg_store_id := sid\<rparr>)"
  by (simp_all add: layout_ok_def one_layout_def active_indices_def is_active_def demo_target_def
      primary_target_def select_primary_target_def table_target_def nth_opt_def)

lemma demo_mgr_wf: "mgr_wf demo_mgr"
  by (simp add: mgr_wf_def demo_mgr_def one_layout_ok) (simp add: one_layout_def demo_store_def)

lemma demo_held:
  "held inst_crates demo_id demo_mgr ''r'' = Some ''sha256:02''" "held inst_crates demo_id demo_mgr ''b'' = None"
  by code_simp+

lemma demo_mgr_get: "ndm_get_object inst_crates (\<lambda>_. 0) demo_id demo_mgr = Ok ''sha256:02''"
  using ndm_get_object_route [of inst_crates "\<lambda>_. 0" demo_id demo_mgr] demo_held
  by (simp add: route_def demo_mgr_def one_layout_ok)

text \<open>\<^bold>\<open>C37.\<close> A new layout drops at most the oldest version of the history.  An object that can be read through
  the versions that stay can be read afterwards, with the same text unless the store that the new layout
  selects has a text of its own for it.\<close>

theorem add_layout_keeps_readable:
  assumes "mgr_wf m" and "\<forall>v \<in> set (versions m). lv_epoch v < sl_epoch l"
    and "ndm_get_object E ho oid (m\<lparr>versions := take (max_versions m - 1) (versions m)\<rparr>) = Ok d"
  shows "ndm_get_object E ho oid (add_layout l m) =
    Ok (case primary_target ho l oid of
          None \<Rightarrow> d
        | Some t \<Rightarrow> (case held E oid m (tg_store_id t) of None \<Rightarrow> d | Some d' \<Rightarrow> d'))"
proof -
  let ?vs = "take (max_versions m - 1) (versions m)"
  let ?T = "targets ho oid ?vs"
  have h: "held E oid (m\<lparr>versions := ?vs\<rparr>) = held E oid m" by (simp add: held_def get_store_def fun_eq_iff)
  have d: "first_some (held E oid m) (fresh [] ?T) = Some d"
    using assms(3) ndm_get_object_route [of E ho oid "m\<lparr>versions := ?vs\<rparr>"]
    unfolding h route_def by simp
  have "first_some (held E oid m) (route ho oid (add_layout l m)) =
      (case primary_target ho l oid of None \<Rightarrow> Some d
       | Some t \<Rightarrow> (case held E oid m (tg_store_id t) of None \<Rightarrow> Some d | Some d' \<Rightarrow> Some d'))"
    using d first_some_skip [of "held E oid m" _ "[]"]
    by (auto simp: route_def add_newest [OF assms(1,2)] split: option.split)
  then have "res_ok (ndm_get_object E ho oid (add_layout l m)) = Some
    (case primary_target ho l oid of None \<Rightarrow> d
     | Some t \<Rightarrow> (case held E oid m (tg_store_id t) of None \<Rightarrow> d | Some d' \<Rightarrow> d'))"
    by (simp add: ndm_get_object_route split: option.split)
  then show ?thesis by simp
qed

theorem add_layout_keeps_readable_witness:
  "ndm_get_object inst_crates (\<lambda>_. 0) demo_id (add_layout (one_layout 2 ''b'') demo_mgr) = Ok ''sha256:02''"
proof -
  have "take (max_versions demo_mgr - 1) (versions demo_mgr) = versions demo_mgr" by (simp add: demo_mgr_def)
  then have "ndm_get_object inst_crates (\<lambda>_. 0) demo_id
      (demo_mgr\<lparr>versions := take (max_versions demo_mgr - 1) (versions demo_mgr)\<rparr>) = Ok ''sha256:02''"
    using demo_mgr_get by simp
  moreover have "\<forall>v \<in> set (versions demo_mgr). lv_epoch v < sl_epoch (one_layout 2 ''b'')"
    by (simp add: demo_mgr_def one_layout_def)
  ultimately show ?thesis
    using add_layout_keeps_readable [OF demo_mgr_wf, of "one_layout 2 ''b''" inst_crates "\<lambda>_. 0" demo_id "''sha256:02''"]
      demo_held(2) by (simp add: one_layout_ok)
qed

section \<open>The contract of an object store\<close>

text \<open>
  What callers rely on when they put and get named objects: a put that succeeds can be read back, a put
  that fails changes nothing, and other objects are not affected.  Identifiers are content hashes, so a
  caller puts one text only under an identifier; inside the locale it follows that the text stays readable.
\<close>

locale object_store =
  fixes wf :: "'s \<Rightarrow> bool"
    and put :: "obj_id \<Rightarrow> string \<Rightarrow> 's \<Rightarrow> unit ndn_result \<times> 's"
    and get :: "obj_id \<Rightarrow> 's \<Rightarrow> string ndn_result"
  assumes put_wf: "wf s \<Longrightarrow> wf (snd (put i d s))"
    and put_get: "wf s \<Longrightarrow> \<not> is_chunk i \<Longrightarrow> put i d s = (Ok (), s') \<Longrightarrow>
      \<exists>d'. get i s' = Ok d' \<and> (d' = d \<or> get i s = Ok d')"
    and put_fails: "wf s \<Longrightarrow> put i d s = (Err e, s') \<Longrightarrow> s' = s"
    and put_other: "wf s \<Longrightarrow> j \<noteq> i \<Longrightarrow> get j (snd (put i d s)) = get j s"
begin

definition puts :: "(obj_id \<times> string) list \<Rightarrow> 's \<Rightarrow> 's" where
  "puts = fold (\<lambda>(i, d) s. snd (put i d s))"

lemma put_keeps:
  assumes "wf s" and "\<not> is_chunk i" and "get i s = Ok d" and "j = i \<longrightarrow> d' = d"
  shows "get i (snd (put j d' s)) = Ok d"
proof (cases "j = i")
  case True
  obtain r s' where p: "put i d s = (r, s')" by (cases "put i d s")
  show ?thesis
  proof (cases r)
    case (Inl e)
    then show ?thesis using put_fails [OF assms(1), of i d e s'] p assms(3,4) True by simp
  next
    case (Inr u)
    then show ?thesis using put_get [OF assms(1,2), of d s'] p assms(3,4) True by auto
  qed
next
  case False
  then show ?thesis using put_other [OF assms(1), of i j d'] assms(3) by simp
qed

lemma puts_keep:
  assumes "wf s" and "\<not> is_chunk i" and "get i s = Ok d" and "\<forall>(j, d') \<in> set ps. j = i \<longrightarrow> d' = d"
  shows "get i (puts ps s) = Ok d"
  using assms unfolding puts_def
proof (induction ps arbitrary: s)
  case (Cons p ps)
  obtain j d' where p: "p = (j, d')" by (cases p)
  have "get i (snd (put j d' s)) = Ok d" using Cons.prems p by (intro put_keeps) auto
  with Cons p put_wf [OF Cons.prems(1)] show ?case by simp
qed simp

lemma put_stays:
  assumes "wf s" and "\<not> is_chunk i" and "\<forall>d'. get i s = Ok d' \<longrightarrow> d' = d"
    and "put i d s = (Ok (), s')" and "\<forall>(j, d') \<in> set ps. j = i \<longrightarrow> d' = d"
  shows "get i (puts ps s') = Ok d"
proof (rule puts_keep)
  show "wf s'" using put_wf [OF assms(1), of i d] assms(4) by simp
  show "get i s' = Ok d" using put_get [OF assms(1,2,4)] assms(3) by auto
qed (rule assms)+

end

lemma ns_get_content:
  assumes "\<not> is_chunk oid" and "content (obj_id_to_string E oid) (ns_db st) = Some (ty, d)"
  shows "ns_get_object E oid st = Ok d"
proof -
  have "get_object E oid (ns_db st) = Ok (ty, d)" using assms(2) by (simp add: get_object_content)
  with assms(1) show ?thesis by (simp add: ns_get_object_def)
qed

lemma ns_get_put:
  assumes "\<not> is_chunk oid" and "ns_put_object E now oid d st = (Ok (), st')"
  shows "\<exists>d'. ns_get_object E oid st' = Ok d' \<and> (d' = d \<or> ns_get_object E oid st = Ok d')"
proof -
  let ?k = "obj_id_to_string E oid"
  have st': "ns_db st' = snd (put_object_in_tx E now oid (obj_type oid) d (int (length d)) (int (length d)) (ns_db st))"
    using assms(2) by (auto simp: ns_put_object_def set_object_def split: sum.splits)
  show ?thesis
  proof (cases "get_item_state ?k (ns_db st) = Some ''present''")
    case True
    then obtain ty x where "content ?k (ns_db st) = Some (ty, x)"
      by (auto simp: get_item_state_def content_def)
    with True show ?thesis using ns_get_content [OF assms(1)] by (metis st' content_put)
  next
    case False
    then show ?thesis using ns_get_content [OF assms(1)] by (metis st' content_put)
  qed
qed

lemma ns_get_other:
  assumes "hex_laws E" and "j \<noteq> oid"
  shows "ns_get_object E j (snd (ns_put_object E now oid d st)) = ns_get_object E j st"
proof -
  have "obj_id_to_string E j \<noteq> obj_id_to_string E oid" using assms obj_id_to_string_eq_iff by blast
  then have "get_object E j (ns_db (snd (ns_put_object E now oid d st))) = get_object E j (ns_db st)"
    by (simp add: get_object_def ns_put_object_def set_object_def put_other_row split: sum.split)
  then show ?thesis by (simp add: ns_get_object_def)
qed

interpretation named: object_store "\<lambda>st. hex_laws E" "ns_put_object E now" "ns_get_object E" for E now
proof (unfold_locales, goal_cases)
  case (2 s i d s')
  then show ?case by (intro ns_get_put)
qed (auto simp: ns_get_other, auto simp: ns_put_object_def split: sum.splits)

text \<open>The manager routes a put to the store where a later get looks first.\<close>

lemma get_put_store: "get_store sid' (put_store sid st m) = (if sid' = sid then Some st else get_store sid' m)"
  by (simp add: get_store_def put_store_def update_conv')

lemma AList_update_same: "map_of xs k = Some v \<Longrightarrow> AList.update k v xs = xs"
  by (induction xs) (auto split: if_splits)

lemma put_store_same: "get_store sid m = Some st \<Longrightarrow> put_store sid st m = m"
  by (simp add: put_store_def get_store_def AList_update_same)

lemma versions_put_store [simp]:
  "versions (put_store sid st m) = versions m" "max_versions (put_store sid st m) = max_versions m"
  by (simp_all add: put_store_def)

lemma put_store_wf:
  assumes "mgr_wf m" and "get_store sid m = Some st" and "ns_store_id st' = ns_store_id st"
  shows "mgr_wf (put_store sid st' m)"
proof -
  have sid: "ns_store_id st = sid" using assms(1,2) by (auto simp: mgr_wf_def get_store_def dest: map_of_SomeD)
  have "distinct (map fst (stores (put_store sid st' m)))"
    using assms(1) by (auto simp: mgr_wf_def put_store_def intro: distinct_update)
  moreover have "ns_store_id x = k" if "(k, x) \<in> set (stores (put_store sid st' m))" for k x
  proof -
    have "get_store k (put_store sid st' m) = Some x"
      using that calculation by (simp add: get_store_def)
    then have "(if k = sid then Some st' else get_store k m) = Some x" by (simp only: get_put_store)
    then have "x = st' \<and> k = sid \<or> (k, x) \<in> set (stores m)"
      by (auto simp: get_store_def split: if_splits dest: map_of_SomeD)
    then show ?thesis using assms(1,3) sid by (auto simp: mgr_wf_def)
  qed
  ultimately show ?thesis using assms(1) by (auto simp: mgr_wf_def)
qed

text \<open>A call that goes through \<open>on_write_store\<close> changes one store, that of the newest layout.\<close>

lemma on_write_store_cases:
  assumes "on_write_store ho oid msg g m = (r, m')"
  obtains "m' = m" "r = Err (NotFound msg)"
  | v vs t st st' where "versions m = v # vs" "primary_target ho (lv_layout v) oid = Some t"
      "get_store (tg_store_id t) m = Some st" "g st = (r, st')" "m' = put_store (tg_store_id t) st' m"
proof (cases "select_store_for_write ho oid m")
  case None
  with assms that(1) show ?thesis by (simp add: on_write_store_def)
next
  case (Some sid)
  then obtain v vs t where v: "versions m = v # vs" "primary_target ho (lv_layout v) oid = Some t"
    "get_store (tg_store_id t) m \<noteq> None" "sid = tg_store_id t"
    by (auto simp: select_store_for_write_def split: list.splits option.splits if_splits)
  then obtain st where st: "get_store (tg_store_id t) m = Some st" by blast
  obtain st' where "g st = (r, st')" "m' = put_store (tg_store_id t) st' m"
    using assms Some st v(4) by (auto simp: on_write_store_def split: prod.splits)
  with that(2) v(1,2) st show ?thesis by blast
qed

lemma ns_put_id: "ns_store_id (snd (ns_put_object E now oid d st)) = ns_store_id st"
  by (simp add: ns_put_object_def split: sum.split)

lemma ndm_get_cong:
  assumes "versions m' = versions m" and "\<And>sid. map_option (ns_get_object E oid) (get_store sid m') = map_option (ns_get_object E oid) (get_store sid m)"
  shows "ndm_get_object E ho oid m' = ndm_get_object E ho oid m"
proof -
  have "get_object_body E oid m' sid e = get_object_body E oid m sid e" for sid e
    using assms(2) [of sid] by (auto simp: get_object_body_def split: option.splits)
  then have "get_object_body E oid m' = get_object_body E oid m" by (simp add: fun_eq_iff)
  with assms(1) show ?thesis by (simp add: ndm_get_object_def)
qed

lemma route_head:
  "versions m = v # vs \<Longrightarrow> primary_target ho (lv_layout v) oid = Some t \<Longrightarrow>
     \<exists>sids. route ho oid m = tg_store_id t # sids"
  by (simp add: route_def)

interpretation ndm: object_store "\<lambda>m. hex_laws E \<and> mgr_wf m" "ndm_put_object E ho now" "ndm_get_object E ho" for E ho now
proof (unfold_locales, goal_cases)
  case (1 m i d)
  obtain r m' where p: "ndm_put_object E ho now i d m = (r, m')" by fastforce
  from p [unfolded ndm_put_object_def] show ?case
  proof (cases rule: on_write_store_cases)
    case (2 v vs t st st')
    with 1 p ns_put_id [of E now i d st] show ?thesis by (auto intro: put_store_wf)
  qed (use 1 p in simp)
next
  case (2 m i d m')
  from 2(3) [unfolded ndm_put_object_def] show ?case
  proof (cases rule: on_write_store_cases)
    case c: (2 v vs t st st')
    obtain d' where d': "ns_get_object E i st' = Ok d'" "d' = d \<or> ns_get_object E i st = Ok d'"
      using ns_get_put [OF 2(2) c(4)] by auto
    obtain sids where "route ho i m' = tg_store_id t # sids" "route ho i m = tg_store_id t # sids"
      using c by (auto simp: route_def)
    moreover have "held E i m' (tg_store_id t) = Some d'"
      using c d' by (simp add: held_def get_put_store)
    moreover have "held E i m (tg_store_id t) = res_ok (ns_get_object E i st)" using c by (simp add: held_def)
    ultimately have "res_ok (ndm_get_object E ho i m') = Some d'"
      "ns_get_object E i st = Ok d' \<Longrightarrow> res_ok (ndm_get_object E ho i m) = Some d'"
      by (simp_all add: ndm_get_object_route)
    with d' show ?thesis by auto
  qed simp
next
  case (3 m i d e m')
  from 3(2) [unfolded ndm_put_object_def] show ?case
  proof (cases rule: on_write_store_cases)
    case (2 v vs t st st')
    then have "st' = st" by (auto simp: ns_put_object_def split: sum.splits)
    with 2 show ?thesis by (simp add: put_store_same)
  qed
next
  case (4 m j i d)
  obtain r m' where p: "ndm_put_object E ho now i d m = (r, m')" by fastforce
  from p [unfolded ndm_put_object_def] show ?case
  proof (cases rule: on_write_store_cases)
    case (2 v vs t st st')
    then have "ns_get_object E j st' = ns_get_object E j st"
      using ns_get_other [of E j i now d st] 4 by simp
    with 2 p show ?thesis by (auto intro!: ndm_get_cong simp: get_put_store)
  qed (use p in simp)
qed

text \<open>A put through the manager that succeeds stays readable, with its text, across any later puts that
  respect content addressing, and even when each later put is routed by the same layouts to other stores.\<close>

theorem ndm_put_stays:
  assumes "hex_laws E" and "mgr_wf m" and "\<not> is_chunk oid"
    and "ndm_put_object E ho now oid d m = (Ok (), m')"
    and "\<forall>d'. ndm_get_object E ho oid m = Ok d' \<longrightarrow> d' = d"
    and "\<forall>(j, d') \<in> set ps. j = oid \<longrightarrow> d' = d"
  shows "ndm_get_object E ho oid (fold (\<lambda>(j, d') m. snd (ndm_put_object E ho now j d' m)) ps m') = Ok d"
  using ndm.put_stays [OF _ assms(3,5,4,6)] assms(1,2) by (simp add: ndm.puts_def)

theorem ndm_put_stays_witness:
  "\<exists>m'. ndm_put_object inst_crates (\<lambda>_. 0) 5 \<lparr>obj_type = ''cyfile'', obj_hash = [7]\<rparr> ''x'' demo_mgr = (Ok (), m') \<and>
     ndm_get_object inst_crates (\<lambda>_. 0) \<lparr>obj_type = ''cyfile'', obj_hash = [7]\<rparr>
       (snd (ndm_put_object inst_crates (\<lambda>_. 0) 5 demo_id ''y'' m')) = Ok ''x''"
proof -
  let ?i = "\<lparr>obj_type = ''cyfile'', obj_hash = [7]\<rparr>"
  have "held inst_crates ?i demo_mgr ''r'' = None" by code_simp
  then have none: "\<forall>d'. ndm_get_object inst_crates (\<lambda>_. 0) ?i demo_mgr = Ok d' \<longrightarrow> d' = ''x''"
    using ndm_get_object_route [of inst_crates "\<lambda>_. 0" ?i demo_mgr]
    by (auto simp: route_def demo_mgr_def one_layout_ok)
  have ne: "?i \<noteq> demo_id" by code_simp
  obtain m' where m': "ndm_put_object inst_crates (\<lambda>_. 0) 5 ?i ''x'' demo_mgr = (Ok (), m')"
    by (simp add: ndm_put_object_def on_write_store_def select_store_for_write_def demo_mgr_def one_layout_ok
        get_store_def ns_put_object_def ensure_writable_def demo_store_def)
  have "\<not> is_chunk ?i" by code_simp
  from ndm_put_stays [OF inst_hex_laws demo_mgr_wf this m' none, of "[(demo_id, ''y'')]"] m' ne
  show ?thesis by auto
qed

section \<open>Forced collection\<close>

text \<open>
  When a store cannot free what is asked for, \<open>forced_gc_until\<close> of the store has already evicted all its
  unprotected objects when it fails; the second collection that the manager then runs finds nothing.
\<close>

definition can_free :: "u64 \<Rightarrow> 'f named_store \<Rightarrow> bool" where
  "can_free target st \<longleftrightarrow> unat target \<le> evictable_bytes (ns_db st)"

lemma gc_nothing:
  assumes "candidates (ns_db st) = []"
  shows "gc_round E B clk target st = (gc_report_default, st)"
  using assms by (simp add: gc_round_def gc_loop.simps list_gc_candidates_lru lru_order_def)

lemma forced_gc_store:
  assumes "reachable E (now, ns_db st)" and "hex_laws E" and "clock_from now clk" and "owned_fit (ns_db st)"
    and "evictable_bytes (ns_db st) < 2 ^ 64" and "0 < target"
  shows "can_free target st \<Longrightarrow> \<exists>freed st'. forced_gc_until E B clk target st = (Ok freed, st') \<and> target \<le> freed"
    and "\<not> can_free target st \<Longrightarrow>
      \<exists>e st'. forced_gc_until E B clk target st = (Err e, st') \<and> candidates (ns_db st') = []"
proof -
  have inv: "db_inv E now (ns_db st)" using reachable_db_inv [OF assms(1,2)] by simp
  note spec = gc_round_refines [OF inv assms(3,4), of B target]
  show "\<exists>freed st'. forced_gc_until E B clk target st = (Ok freed, st') \<and> target \<le> freed" if "can_free target st"
    using that victims_total [OF assms(5,6)]
    by (simp add: can_free_def forced_gc_until_def spec gc_report_default_def)
  assume "\<not> can_free target st"
  then have less: "\<not> target \<le> owned_sum (gc_victims target (ns_db st))"
    using victims_total [OF assms(5,6)] by (simp add: can_free_def)
  then have "gc_victims target (ns_db st) = lru_order (ns_db st)"
    using assms(6) victims_unreached [OF assms(6), of "lru_order (ns_db st)"] by (auto simp: gc_victims_def not_le)
  then have "candidates (evict_rows (gc_victims target (ns_db st)) (ns_db st)) = []"
    by (simp add: candidates_evict_rows lru_order_set)
  with less show "\<exists>e st'. forced_gc_until E B clk target st = (Err e, st') \<and> candidates (ns_db st') = []"
    by (simp add: forced_gc_until_def spec gc_report_default_def after_gc_def)
qed

definition gc_ready :: "'j ext_crates \<Rightarrow> u64 \<Rightarrow> 'f named_store \<Rightarrow> bool" where
  "gc_ready E now st \<longleftrightarrow> reachable E (now, ns_db st) \<and> owned_fit (ns_db st) \<and> evictable_bytes (ns_db st) < 2 ^ 64"

lemma forced_gc_stores_exact:
  assumes "\<forall>(sid, st) \<in> set sts. gc_ready E now st" and "hex_laws E"
    and "\<And>sid again. clock_from now (clk sid again)" and "0 < target"
  shows "\<exists>total sts'. forced_gc_stores E B clk target sts 0 = (total, sts') \<and>
    (if \<exists>(sid, st) \<in> set sts. can_free target st then target \<le> total else total = 0)"
  using assms(1)
proof (induction sts)
  case (Cons p sts)
  obtain sid st where p: "p = (sid, st)" by (cases p)
  note F = forced_gc_store [where E = E and B = B and now = now and clk = "clk sid False" and target = target and st = st]
  have nz: "\<not> target \<le> 0" using assms(4) by (simp add: not_le)
  show ?case
  proof (cases "can_free target st")
    case True
    then obtain freed st' where "forced_gc_until E B (clk sid False) target st = (Ok freed, st')" "target \<le> freed"
      using F(1) Cons.prems p assms by (auto simp: gc_ready_def)
    moreover have "\<exists>y. forced_gc_stores E B clk target sts freed = (freed, y)"
      using calculation(2) by (cases sts) auto
    ultimately show ?thesis using p nz True by auto
  next
    case False
    then obtain e st' where "forced_gc_until E B (clk sid False) target st = (Err e, st')" "candidates (ns_db st') = []"
      using F(2) Cons.prems p assms by (auto simp: gc_ready_def)
    moreover obtain total sts' where "forced_gc_stores E B clk target sts 0 = (total, sts')"
      "if \<exists>(sid, st) \<in> set sts. can_free target st then target \<le> total else total = 0"
      using Cons by auto
    ultimately show ?thesis using p nz False by (simp add: gc_nothing gc_report_default_def)
  qed
qed simp

text \<open>The manager finds the space exactly when one of its stores alone has it: what a store frees before
  it reports that it has too little is not counted, so that stores with too little each make the manager
  fail with \<open>ENOSPC\<close> however much they free together.\<close>

theorem ndm_forced_gc_single_store:
  assumes "\<forall>(sid, st) \<in> set (stores m). gc_ready E now st" and "hex_laws E"
    and "\<forall>sid again. clock_from now (clk sid again)" and "0 < target"
  shows "case fst (ndm_forced_gc_until E B clk target m) of
      Inr freed \<Rightarrow> target \<le> freed \<and> (\<exists>(sid, st) \<in> set (stores m). unat target \<le> evictable_bytes (ns_db st))
    | Inl e \<Rightarrow> (\<forall>(sid, st) \<in> set (stores m). evictable_bytes (ns_db st) < unat target)"
proof -
  obtain total sts where t: "forced_gc_stores E B clk target (stores m) 0 = (total, sts)"
    "if \<exists>(sid, st) \<in> set (stores m). can_free target st then target \<le> total else total = 0"
    using forced_gc_stores_exact [OF assms(1,2) _ assms(4)] assms(3) by blast
  have nz: "\<not> target \<le> 0" using assms(4) by (simp add: not_le)
  show ?thesis
  proof (cases "\<exists>(sid, st) \<in> set (stores m). can_free target st")
    case True
    with t show ?thesis by (simp add: ndm_forced_gc_until_def can_free_def)
  next
    case False
    then have "evictable_bytes (ns_db st) < unat target" if "(sid, st) \<in> set (stores m)" for sid st
      using that by (auto simp: can_free_def)
    with False t nz show ?thesis by (auto simp: ndm_forced_gc_until_def)
  qed
qed

theorem ndm_forced_gc_single_store_witness:
  "\<exists>e. fst (ndm_forced_gc_until inst_crates (local_fs_ops inst_crates (\<lambda>_. []) demo_lf) (\<lambda>_ _ _. 5) 10
     (demo_mgr\<lparr>stores := [(''r'', demo_store), (''s'', demo_store\<lparr>ns_store_id := ''s''\<rparr>)]\<rparr>)) = Err e"
proof -
  have f: "owned_fit (ns_db demo_store)" "evictable_bytes (ns_db demo_store) = 9"
    by (simp_all add: owned_fit_def evictable_bytes_def candidates_def gc_candidate_def demo_store_def
        demo_free_objects present_row_def)
  have "gc_ready inst_crates 5 demo_store"
    using f demo_free_reachable by (simp add: gc_ready_def demo_store_def)
  then show ?thesis
    using ndm_forced_gc_single_store [OF _ inst_hex_laws, where now = 5 and clk = "\<lambda>_ _ _. 5" and target = 10
        and B = "local_fs_ops inst_crates (\<lambda>_. []) demo_lf"
        and m = "demo_mgr\<lparr>stores := [(''r'', demo_store), (''s'', demo_store\<lparr>ns_store_id := ''s''\<rparr>)]\<rparr>"] f
    by (auto simp: gc_ready_def clock_from_def split: sum.splits)
qed

section \<open>Pins after a change of layout\<close>

text \<open>Pins, anchors and references are routed by the newest layout only.  When it selects another store
  than the one that holds the object, the copy that is read stays without protection: the next
  collection may evict it.\<close>

theorem ndm_pin_misses_older_store:
  assumes "select_store_for_write ho oid m = Some sid" and "get_store sid' m = Some st" and "sid' \<noteq> sid"
    and "\<not> protected now (obj_id_to_string E oid) (ns_db st)"
  shows "\<exists>m'. ndm_pin E ho now oid owner scope ttl m = (Ok (), m') \<and> get_store sid' m' = Some st \<and>
    obj_row (obj_id_to_string E oid) (snd (try_evict_object now (obj_id_to_string E oid) (ns_db st))) = None"
proof -
  obtain st0 where st0: "get_store sid m = Some st0"
    using assms(1) by (auto simp: select_store_for_write_def split: list.splits option.splits if_splits)
  have "ndm_pin E ho now oid owner scope ttl m = (Ok (), put_store sid (ns_pin E now oid owner scope ttl st0) m)"
    using assms(1) st0 by (simp add: ndm_pin_def on_write_store_def)
  moreover have "obj_row (obj_id_to_string E oid) (snd (try_evict_object now (obj_id_to_string E oid) (ns_db st))) = None"
    using assms(4) by (simp add: try_evict_cases obj_row_def sql_delete_def find_None_iff)
  ultimately show ?thesis using assms(2,3) by (simp add: get_put_store)
qed

theorem ndm_pin_misses_older_store_witness:
  "\<exists>m'. ndm_pin inst_crates (\<lambda>_. 0) 5 demo_id ''o'' Recursive None (add_layout (one_layout 2 ''b'') demo_mgr) = (Ok (), m') \<and>
     get_store ''r'' m' = Some demo_store"
proof -
  let ?m = "add_layout (one_layout 2 ''b'') demo_mgr"
  have "versions ?m = \<lparr>lv_epoch = 2, lv_layout = one_layout 2 ''b''\<rparr> # versions demo_mgr"
    using add_newest [OF demo_mgr_wf, of "one_layout 2 ''b''"] by (simp add: demo_mgr_def one_layout_def)
  then have "select_store_for_write (\<lambda>_. 0) demo_id ?m = Some ''b''"
    by (simp add: select_store_for_write_def one_layout_ok get_store_def add_layout_versions demo_mgr_def)
  moreover have "get_store ''r'' ?m = Some demo_store"
    by (simp add: get_store_def add_layout_versions demo_mgr_def)
  moreover have "\<not> protected 5 (obj_id_to_string inst_crates demo_id) (ns_db demo_store)" by code_simp
  ultimately show ?thesis
    using ndm_pin_misses_older_store [where E = inst_crates and ho = "\<lambda>_. 0" and oid = demo_id and m = ?m
        and now = 5 and owner = "''o''" and scope = Recursive and ttl = None] by blast
qed

section \<open>Managers built from a configuration\<close>

lemma primary_no_panic: "layout_ok l \<Longrightarrow> select_primary_target ho l oid \<noteq> None"
  using layout_target [of l "ho (obj_hash oid)"] by (auto simp: select_primary_target_def nth_opt_def)

lemma primary_active:
  assumes "layout_ok l" and "active_indices (sl_targets l) \<noteq> []"
  shows "\<exists>t \<in> set (sl_targets l). primary_target ho l oid = Some t"
proof -
  have ne: "sl_lookup_table l \<noteq> []" using assms by (auto simp: layout_ok_def)
  with layout_target [OF assms(1) ne, of "ho (obj_hash oid)"] show ?thesis
    by (auto simp: primary_target_def select_primary_target_def nth_opt_def)
qed

lemma primary_inactive:
  "layout_ok l \<Longrightarrow> active_indices (sl_targets l) = [] \<Longrightarrow> primary_target ho l oid = None"
  by (auto simp: layout_ok_def primary_target_def select_primary_target_def)

text \<open>The state of the loop over the entries: stores and targets have the same distinct identifiers.\<close>

definition opened :: "'f named_data_mgr \<Rightarrow> store_target list \<Rightarrow> string set \<Rightarrow> bool" where
  "opened m ts ids \<longleftrightarrow> mgr_wf m \<and> versions m = [] \<and> map fst (stores m) = map tg_store_id ts \<and> ids = tg_store_id ` set ts"

lemma update_fresh: "k \<notin> set (map fst xs) \<Longrightarrow> AList.update k v xs = xs @ [(k, v)]"
  by (induction xs) auto

lemma opened_register:
  assumes "opened m ts ids" and "ns_store_id st \<notin> ids" and "tg_store_id t = ns_store_id st"
  shows "opened (register_store st m) (ts @ [t]) (insert (ns_store_id st) ids)"
proof -
  have "ns_store_id st \<notin> set (map fst (stores m))" using assms(1,2) by (auto simp: opened_def)
  then have "stores (register_store st m) = stores m @ [(ns_store_id st, st)]"
    by (simp add: register_store_def update_fresh)
  with assms \<open>ns_store_id st \<notin> set (map fst (stores m))\<close> show ?thesis
    by (auto simp: opened_def mgr_wf_def register_store_def)
qed

lemma open_stores_ok:
  assumes "open_stores V dir links index es (m, ts, cap, used, ids) = Ok (m', ts', cap', used')" and "opened m ts ids"
  shows "\<exists>ids'. opened m' ts' ids' \<and> max_versions m' = max_versions m \<and>
    map (\<lambda>t. (tg_enabled t, tg_readonly t, tg_weight t)) ts' =
    map (\<lambda>t. (tg_enabled t, tg_readonly t, tg_weight t)) ts @ map (\<lambda>e. (ce_enabled e, ce_readonly e, ce_weight e)) es"
  using assms
proof (induction es arbitrary: index m ts cap used ids)
  case (Cons e es)
  obtain st where st: "open_store_entry V dir links index e = Ok st" "ns_store_id st \<notin> ids"
    using Cons.prems(1) by (auto simp: and_then_def Let_def split: sum.splits if_splits)
  define t where "t = \<lparr>tg_store_id = ns_store_id st, tg_device_did = ce_device_did e, tg_capacity = ce_capacity e,
      tg_used = ce_used e, tg_readonly = ce_readonly e, tg_enabled = ce_enabled e, tg_weight = ce_weight e\<rparr>"
  have "open_stores V dir links (index + 1) es
      (register_store st m, ts @ [t], cap + (case ce_capacity e of Some c \<Rightarrow> c | None \<Rightarrow> 0),
       used + (case ce_used e of Some u \<Rightarrow> u | None \<Rightarrow> 0), insert (ns_store_id st) ids) = Ok (m', ts', cap', used')"
    using Cons.prems(1) st by (simp add: and_then_def t_def Let_def)
  from Cons.IH [OF this opened_register [OF Cons.prems(2) st(2)]] show ?case
    by (auto simp: t_def register_store_def)
qed auto

lemma active_entries:
  assumes "map (\<lambda>t. (tg_enabled t, tg_readonly t, tg_weight t)) ts = map (\<lambda>e. (ce_enabled e, ce_readonly e, ce_weight e)) es"
  shows "(\<exists>t \<in> set ts. is_active t) \<longleftrightarrow> (\<exists>e \<in> set es. ce_enabled e \<and> \<not> ce_readonly e \<and> 0 < ce_weight e)"
proof -
  let ?active = "\<lambda>(en, ro, w). en \<and> \<not> ro \<and> 0 < w"
  have "(\<exists>t \<in> set ts. is_active t) \<longleftrightarrow> list_ex ?active (map (\<lambda>t. (tg_enabled t, tg_readonly t, tg_weight t)) ts)"
    by (auto simp: list_ex_iff is_active_def)
  then show ?thesis unfolding assms by (auto simp: list_ex_iff)
qed

lemma write_store_iff:
  assumes "layout_ok l" and "sl_targets l = ts" and "map fst (stores m) = map tg_store_id ts"
    and "versions m = [\<lparr>lv_epoch = e, lv_layout = l\<rparr>]"
  shows "select_store_for_write ho oid m \<noteq> None \<longleftrightarrow> (\<exists>t \<in> set ts. is_active t)"
proof (cases "active_indices (sl_targets l) = []")
  case True
  then have "\<not> (\<exists>t \<in> set ts. is_active t)"
    by (auto simp: active_indices_def assms(2) filter_empty_conv in_set_conv_nth)
  with primary_inactive [OF assms(1) True] show ?thesis by (simp add: select_store_for_write_def assms(4))
next
  case False
  then have "\<exists>t \<in> set ts. is_active t"
    by (auto simp: active_indices_def assms(2) filter_empty_conv)
  moreover from primary_active [OF assms(1) False] obtain t where t: "t \<in> set ts" "primary_target ho l oid = Some t"
    unfolding assms(2) by blast
  moreover have "get_store (tg_store_id t) m \<noteq> None"
    using arg_cong [OF assms(3), of set] t(1) by (simp add: get_store_def map_of_eq_None_iff)
  ultimately show ?thesis by (simp add: select_store_for_write_def assms(4))
qed

text \<open>\<^bold>\<open>C38.\<close> Opening the stores of a configuration always ends.  A manager that is returned is well-formed with
  one layout.  Whatever the object, it has a store to be written to exactly when some entry of the configuration
  is enabled, writable and has a weight.\<close>

theorem get_store_mgr_ready:
  assumes "length (lc_stores cfg) < 2 ^ 31"
  shows "\<exists>r. get_store_mgr V hs dir links (Ok cfg) = Some r \<and>
    (\<forall>m. r = Ok m \<longrightarrow> mgr_wf m \<and> version_count m = 1 \<and> current_epoch m = Some (max (lc_epoch cfg) 1) \<and>
       (\<forall>oid. select_store_for_write ho oid m \<noteq> None \<longleftrightarrow>
          (\<exists>e \<in> set (lc_stores cfg). ce_enabled e \<and> \<not> ce_readonly e \<and> 0 < ce_weight e)))"
proof (cases "length (lc_stores cfg) < 1")
  case ne: False
  show ?thesis
  proof (cases "open_stores V dir links 0 (lc_stores cfg) (ndm_new, [], 0, 0, {})")
    case (Inl e)
    with ne show ?thesis by (simp add: get_store_mgr_def)
  next
    case (Inr x)
    obtain m ts cap used where x: "x = (m, ts, cap, used)" by (cases x)
    have "opened ndm_new [] {}" by (simp add: opened_def ndm_new_def mgr_wf_def)
    then obtain ids where o: "opened m ts ids" "max_versions m = 3" and
      f: "map (\<lambda>t. (tg_enabled t, tg_readonly t, tg_weight t)) ts =
        map (\<lambda>e. (ce_enabled e, ce_readonly e, ce_weight e)) (lc_stores cfg)"
      using open_stores_ok [OF Inr [unfolded x]] by (auto simp: ndm_new_def)
    have "length ts = length (lc_stores cfg)" using arg_cong [OF f, of length] by simp
    with assms obtain l where l: "store_layout_new hs (max (lc_epoch cfg) 1) ts
        (case lc_total_capacity cfg of Some c \<Rightarrow> c | None \<Rightarrow> cap) (case lc_total_used cfg of Some u \<Rightarrow> u | None \<Rightarrow> used) = Some l"
      "sl_targets l = ts" "sl_epoch l = max (lc_epoch cfg) 1" "layout_ok l"
      using store_layout_new_ok [of ts hs "max (lc_epoch cfg) 1"] by auto
    have vs: "versions (add_layout l m) = [\<lparr>lv_epoch = sl_epoch l, lv_layout = l\<rparr>]"
      using o by (simp add: add_layout_versions opened_def insert_at_def)
    have "select_store_for_write ho oid (add_layout l m) \<noteq> None \<longleftrightarrow>
        (\<exists>e \<in> set (lc_stores cfg). ce_enabled e \<and> \<not> ce_readonly e \<and> 0 < ce_weight e)" for oid
      using write_store_iff [OF l(4,2) _ vs] o(1) active_entries [OF f] by (simp add: opened_def add_layout_versions)
    moreover have "mgr_wf (add_layout l m)" using o l(4) by (auto simp: opened_def intro: add_layout_wf)
    moreover have "get_store_mgr V hs dir links (Ok cfg) = Some (Ok (add_layout l m))"
      using ne Inr x l(1) by (simp add: get_store_mgr_def)
    ultimately show ?thesis using vs l(3) by (auto simp: version_count_def current_epoch_def)
  qed
qed (simp add: get_store_mgr_def)

definition demo_cfg :: store_layout_config_file where
  "demo_cfg = store_layout_config_file_default\<lparr>lc_stores :=
     [store_config_entry_default\<lparr>ce_path := RelPath [''s1'']\<rparr>, store_config_entry_default\<lparr>ce_path := RelPath [''s2'']\<rparr>]\<rparr>"

definition demo_menv :: "lf_state mgr_env" where
  "demo_menv = \<lparr>me_show_nat = (\<lambda>_. []), me_mkdir = (\<lambda>_. True), me_open_db = (\<lambda>_. empty_db),
     me_local_backend = (\<lambda>_ _. empty_lf), me_http_backend = (\<lambda>_. empty_lf)\<rparr>"

theorem get_store_mgr_ready_witness:
  "\<exists>m. get_store_mgr demo_menv (\<lambda>s seed. seed) [''cfg''] Map.empty (Ok demo_cfg) = Some (Ok m) \<and> mgr_wf m \<and>
     version_count m = 1 \<and> (\<forall>oid. select_store_for_write (\<lambda>_. 0) oid m \<noteq> None)"
proof -
  have "\<exists>x. open_stores demo_menv [''cfg''] Map.empty 0 (lc_stores demo_cfg) (ndm_new, [], 0, 0, {}) = Ok x"
    by (simp add: demo_cfg_def demo_menv_def store_layout_config_file_default_def store_config_entry_default_def
        open_store_entry_def resolve_store_id_def path_file_name_def should_use_local_backend_def
        from_config_with_backend_def and_then_def Let_def)
  then obtain x where x: "open_stores demo_menv [''cfg''] Map.empty 0 (lc_stores demo_cfg) (ndm_new, [], 0, 0, {}) = Ok x" ..
  have c: "length (lc_stores demo_cfg) = 2" "\<exists>e \<in> set (lc_stores demo_cfg). ce_enabled e \<and> \<not> ce_readonly e \<and> 0 < ce_weight e"
    by (simp_all add: demo_cfg_def store_config_entry_default_def)
  obtain r where r: "get_store_mgr demo_menv (\<lambda>s seed. seed) [''cfg''] Map.empty (Ok demo_cfg) = Some r"
    "\<forall>m. r = Ok m \<longrightarrow> mgr_wf m \<and> version_count m = 1 \<and> (\<forall>oid. select_store_for_write (\<lambda>_. 0) oid m \<noteq> None)"
    using get_store_mgr_ready [of demo_cfg demo_menv "\<lambda>s seed. seed" "[''cfg'']" Map.empty "\<lambda>_. 0"] c by auto
  with x c(1) show ?thesis by (auto simp: get_store_mgr_def split: prod.splits)
qed

end
