(* ===== verification/Ndm_Resolve_Props.thy ===== *)
theory Ndm_Resolve_Props
  imports Ndm_Resolve Ndm_Props
begin

text \<open>
  Properties of path resolution and of the completeness check: the cache is transparent, \<open>open_object\<close>
  always returns unless it reaches the unimplemented branch, and \<open>is_object_fully_stored\<close> answers yes
  exactly for complete object trees, but does not return on a cycle of \<open>SameAs\<close> links.
\<close>

section \<open>Resolution without a cache\<close>

function plain_resolve ::
  "'j ext_crates \<Rightarrow> 'j value_crates \<Rightarrow> (obj_id \<Rightarrow> string ndn_result) \<Rightarrow> obj_id \<Rightarrow> string \<Rightarrow> string \<Rightarrow>
   resolved ndn_result option" where
  "plain_resolve E J G oid obj_str path =
     (if is_chunk oid then
        Some (Err (InvalidParam (''chunk '' @ obj_id_to_string E oid @ '' does not support inner path'')))
      else
        (case resolve_next_obj_once E J oid obj_str path of
           None \<Rightarrow> None
         | Some (Inl e) \<Rightarrow> Some (Err e)
         | Some (Inr (next, Some rest, hint)) \<Rightarrow>
             (case (case hint of Some s \<Rightarrow> Ok s | None \<Rightarrow> G next) of
                Inl e \<Rightarrow> Some (Err e)
              | Inr s \<Rightarrow> plain_resolve E J G next s rest)
         | Some (Inr (next, None, hint)) \<Rightarrow> Some (Ok (next, None, hint))))"
  by pat_completeness auto
termination
  by (relation "measure (\<lambda>(E, J, G, oid, obj_str, path). length (segments path))")
    (auto dest: resolve_once_consumes)

declare plain_resolve.simps [simp del]

lemma plain_resolve_no_rest: "plain_resolve E J G oid s path = Some (Ok (next, rest, hint)) \<Longrightarrow> rest = None"
proof (induction E J G oid s path rule: plain_resolve.induct)
  case (1 E J G oid s path)
  from 1(2) show ?case
    apply (subst (asm) plain_resolve.simps)
    using 1(1) by (auto split: if_splits option.splits sum.splits)
qed

section \<open>Values in the cache\<close>

definition cached :: "resolve_cache \<Rightarrow> cache_key \<Rightarrow> resolved option" where
  "cached c k = map_option fst (map_of (rc_entries c) k)"

lemma cache_get_value: "fst (cache_get oid path c) = cached c (oid, path)"
  by (simp add: cache_get_def cached_def Let_def split: option.split)

lemma cached_get [simp]: "cached (snd (cache_get oid path c)) k = cached c k"
  by (auto simp: cache_get_def cached_def Let_def update_conv' split: option.split)

lemma cached_evict: "cached (cache_evict c) k = Some v \<Longrightarrow> cached c k = Some v"
proof (induction c rule: cache_evict.induct)
  case (1 c)
  show ?case
  proof (cases "rc_max_entries c < length (rc_entries c)")
    case True
    show ?thesis
    proof (cases "lru_first (rc_lru_order c)")
      case None
      with 1(2) True show ?thesis by (subst (asm) cache_evict.simps) simp
    next
      case (Some p)
      let ?c = "c\<lparr>rc_lru_order := AList.delete (fst p) (rc_lru_order c), rc_entries := AList.delete (snd p) (rc_entries c)\<rparr>"
      have "cache_evict c = cache_evict ?c" using True Some by (subst cache_evict.simps) (simp split: prod.split)
      with 1(1) [OF True Some, of "fst p" "snd p"] 1(2) have "cached ?c k = Some v" by simp
      then show ?thesis by (auto simp: cached_def delete_conv' split: if_splits)
    qed
  next
    case False
    with 1(2) show ?thesis by (subst (asm) cache_evict.simps) simp
  qed
qed

lemma cached_put:
  assumes "cached (cache_put oid path v c) k = Some w"
  shows "(k = (oid, path) \<and> w = v) \<or> cached c k = Some w"
proof (cases "rc_max_entries c = 0")
  case True
  with assms show ?thesis by (simp add: cache_put_def)
next
  case False
  define c1 where "c1 = (case map_of (rc_entries c) (oid, path) of None \<Rightarrow> c
    | Some (_, old) \<Rightarrow> c\<lparr>rc_entries := AList.delete (oid, path) (rc_entries c),
                        rc_lru_order := AList.delete old (rc_lru_order c)\<rparr>)"
  define c2 where "c2 = c1\<lparr>rc_next_entry_id := rc_next_entry_id c1 + 1,
    rc_lru_order := AList.update (rc_next_entry_id c1) (oid, path) (rc_lru_order c1),
    rc_entries := AList.update (oid, path) (v, rc_next_entry_id c1) (rc_entries c1)\<rparr>"
  have eq: "cache_put oid path v c = cache_evict c2"
    using False by (simp add: cache_put_def Let_def c2_def c1_def)
  from assms have "cached c2 k = Some w" unfolding eq by (rule cached_evict)
  moreover have "cached c1 k = cached c k" if "k \<noteq> (oid, path)"
    using that by (simp add: c1_def cached_def delete_conv' split: option.split prod.split)
  moreover have "cached c2 k = (if k = (oid, path) then Some v else cached c1 k)"
    by (simp add: c2_def cached_def update_conv')
  ultimately show ?thesis by (metis option.inject)
qed

text \<open>
  Objects are named by their content: \<open>T\<close> is the text of each identifier.  A cache is valid when each
  entry is what the resolution of its key yields.
\<close>

definition content_addressed ::
  "'j ext_crates \<Rightarrow> 'j value_crates \<Rightarrow> (obj_id \<Rightarrow> string ndn_result) \<Rightarrow> (obj_id \<Rightarrow> string) \<Rightarrow> bool" where
  "content_addressed E J G T \<longleftrightarrow>
     (\<forall>oid s. G oid = Ok s \<longrightarrow> s = T oid) \<and>
     (\<forall>oid path next rest s. resolve_next_obj_once E J oid (T oid) path = Some (Ok (next, rest, Some s)) \<longrightarrow> s = T next)"

definition valid_cache ::
  "'j ext_crates \<Rightarrow> 'j value_crates \<Rightarrow> (obj_id \<Rightarrow> string ndn_result) \<Rightarrow> (obj_id \<Rightarrow> string) \<Rightarrow> resolve_cache \<Rightarrow> bool" where
  "valid_cache E J G T c \<longleftrightarrow>
     (\<forall>oid path v. cached c (oid, path) = Some v \<longrightarrow> plain_resolve E J G oid (T oid) path = Some (Ok v))"

lemma valid_cache_new: "valid_cache E J G T (cache_new n)"
  by (simp add: valid_cache_def cached_def cache_new_def)

lemma valid_put_all:
  assumes "valid_cache E J G T c" and "\<forall>(oid, path) \<in> set ks. plain_resolve E J G oid (T oid) path = Some (Ok v)"
  shows "valid_cache E J G T (put_all ks v c)"
  using assms unfolding put_all_def
proof (induction ks arbitrary: c)
  case (Cons k ks)
  obtain oid path where k: "k = (oid, path)" by (cases k)
  have "valid_cache E J G T (cache_put oid path v c)"
    using Cons.prems k unfolding valid_cache_def by (auto dest!: cached_put)
  with Cons k show ?case by simp
qed simp

lemma resolve_transparent:
  assumes "content_addressed E J G T" and "valid_cache E J G T c" and "s = T oid"
    and "\<forall>(i, p) \<in> set pending. plain_resolve E J G i (T i) p = plain_resolve E J G oid s path"
  shows "map_option fst (resolve_next_obj E J G oid s path pending c) = plain_resolve E J G oid s path \<and>
    (\<forall>r c'. resolve_next_obj E J G oid s path pending c = Some (r, c') \<longrightarrow> valid_cache E J G T c')"
  using assms
proof (induction E J G oid s path pending c rule: resolve_next_obj.induct)
  case (1 E J G oid s path pending c)
  obtain x c1 where g: "cache_get oid path c = (x, c1)" by fastforce
  have x: "x = cached c (oid, path)" using cache_get_value [of oid path c] g by simp
  have c1: "valid_cache E J G T c1" using 1(3) cached_get [of oid path c] g by (simp add: valid_cache_def)
  show ?case
  proof (cases x)
    case (Some v)
    then have v: "plain_resolve E J G oid s path = Some (Ok v)" using 1(3,4) x by (cases v) (simp add: valid_cache_def)
    then have "\<forall>(i, p) \<in> set pending. plain_resolve E J G i (T i) p = Some (Ok v)" using 1(5) by simp
    from valid_put_all [OF c1 this] v Some g show ?thesis by (subst resolve_next_obj.simps, subst resolve_next_obj.simps) simp
  next
    case None
    note R = resolve_next_obj.simps [of E J G oid s path pending c] plain_resolve.simps [of E J G oid s path]
    show ?thesis
    proof (cases "is_chunk oid")
      case True
      then show ?thesis using None g c1 unfolding R by simp
    next
      case nc: False
      show ?thesis
      proof (cases "resolve_next_obj_once E J oid s path")
        case N: None
        then show ?thesis using None g c1 nc unfolding R by simp
      next
        case S: (Some r)
        show ?thesis
        proof (cases r)
          case (Inl e)
          then show ?thesis using None g c1 nc S unfolding R by simp
        next
          case (Inr y)
          obtain n rest hint where y: "y = (n, rest, hint)" by (cases y)
          show ?thesis
          proof (cases rest)
            case Rn: None
            have p: "plain_resolve E J G oid s path = Some (Ok (n, None, hint))"
              unfolding R using nc S Inr y Rn by simp
            then have "\<forall>(i, q) \<in> set (pending @ [(oid, path)]). plain_resolve E J G i (T i) q = Some (Ok (n, None, hint))"
              using 1(4,5) by auto
            from valid_put_all [OF c1 this] p None g nc S Inr y Rn show ?thesis by (simp add: R(1))
          next
            case Rs: (Some rp)
            show ?thesis
            proof (cases "case hint of Some s \<Rightarrow> Ok s | None \<Rightarrow> G n")
              case I: (Inl e)
              then show ?thesis using None g c1 nc S Inr y Rs unfolding R by simp
            next
              case I: (Inr s')
              have s': "s' = T n"
                using I 1(2,4) S Inr y by (auto simp: content_addressed_def split: option.splits)
              have p: "plain_resolve E J G oid s path = plain_resolve E J G n s' rp"
                unfolding R(2) using nc S Inr y Rs I by simp
              have q: "resolve_next_obj E J G oid s path pending c = resolve_next_obj E J G n s' rp (pending @ [(oid, path)]) c1"
                unfolding R(1) using None g nc S Inr y Rs I by simp
              have "\<forall>(i, q) \<in> set (pending @ [(oid, path)]). plain_resolve E J G i (T i) q = plain_resolve E J G n s' rp"
                using 1(4,5) p by auto
              from 1(1) [OF g [symmetric] None nc refl S Inr y [symmetric] refl Rs I 1(2) c1 s' this] 
              show ?thesis unfolding p q .
            qed
          qed
        qed
      qed
    qed
  qed
qed

text \<open>The reference for \<open>open_object\<close>: resolve the whole path, then read the object it leads to.\<close>

definition plain_open ::
  "'j ext_crates \<Rightarrow> 'j value_crates \<Rightarrow> (obj_id \<Rightarrow> string ndn_result) \<Rightarrow> obj_id \<Rightarrow> string option \<Rightarrow> string ndn_result option" where
  "plain_open E J G oid inner_path =
     (if is_chunk oid then Some (Err (InvalidObjType (obj_id_to_string E oid @ '' is chunk'')))
      else (case G oid of
              Inl e \<Rightarrow> Some (Err e)
            | Inr s \<Rightarrow>
                (case normalize_inner_path inner_path of
                   None \<Rightarrow> Some (Ok s)
                 | Some p \<Rightarrow>
                     (case plain_resolve E J G oid s p of
                        None \<Rightarrow> None
                      | Some (Inl e) \<Rightarrow> Some (Err e)
                      | Some (Inr (next, _, hint)) \<Rightarrow>
                          Some (if is_chunk next then Err (InvalidObjType (obj_id_to_string E next @ '' is chunk''))
                                else (case hint of Some s \<Rightarrow> Ok s | None \<Rightarrow> G next))))))"

lemma open_loop_end:
  "map_option fst (open_loop E J G oid None hint c) =
     Some (if is_chunk oid then Err (InvalidObjType (obj_id_to_string E oid @ '' is chunk''))
           else (case hint of Some s \<Rightarrow> Ok s | None \<Rightarrow> G oid))"
  by (subst open_loop.simps) (simp split: sum.split)

text \<open>\<^bold>\<open>C39.\<close> Opening an object by an inner path gives the same result with every valid cache as without one,
  and keeps the cache valid; it fails to return only where the resolution reaches the branch for chunk
  lists that is not implemented.\<close>

theorem open_object_transparent:
  assumes "content_addressed E J G T" and "valid_cache E J G T c"
  shows "map_option fst (open_object E J G oid inner_path c) = plain_open E J G oid inner_path \<and>
    (\<forall>r c'. open_object E J G oid inner_path c = Some (r, c') \<longrightarrow> valid_cache E J G T c')"
proof (cases "\<not> is_chunk oid \<and> normalize_inner_path inner_path \<noteq> None \<and> (\<exists>s. G oid = Ok s)")
  case False
  then show ?thesis
    using assms(2) unfolding open_object_def plain_open_def
    by (subst (1 2) open_loop.simps) (auto split: sum.splits option.splits)
next
  case True
  then obtain p s where p: "normalize_inner_path inner_path = Some p" "G oid = Ok s" "\<not> is_chunk oid" by auto
  have s: "s = T oid" using p(2) assms(1) by (simp add: content_addressed_def)
  note R = resolve_transparent [OF assms s, of "[]" p]
  have step: "open_object E J G oid inner_path c =
      Option.bind (resolve_next_obj E J G oid s p [] c) (\<lambda>(r, c1).
        case r of Inl e \<Rightarrow> Some (Err e, c1) | Inr (next, path', hint') \<Rightarrow> open_loop E J G next path' hint' c1)"
    unfolding open_object_def using p by (subst open_loop.simps) simp
  show ?thesis
  proof (cases "resolve_next_obj E J G oid s p [] c")
    case None
    with R p step show ?thesis by (simp add: plain_open_def)
  next
    case (Some rc)
    obtain r c1 where rc: "rc = (r, c1)" by (cases rc)
    have pr: "plain_resolve E J G oid s p = Some r" "valid_cache E J G T c1" using R Some rc by auto
    show ?thesis
    proof (cases r)
      case (Inl e)
      with pr p Some rc show ?thesis by (simp add: plain_open_def step)
    next
      case (Inr y)
      obtain n hint where y: "y = (n, None, hint)"
        using pr(1) Inr plain_resolve_no_rest by (cases y) blast
      have e: "open_object E J G oid inner_path c = open_loop E J G n None hint c1"
        using Some rc Inr y by (simp add: step)
      have "valid_cache E J G T c'" if "open_loop E J G n None hint c1 = Some (r', c')" for r' c'
        using that pr(2) by (subst (asm) open_loop.simps) (auto split: if_splits sum.splits)
      moreover have "map_option fst (open_loop E J G n None hint c1) = plain_open E J G oid inner_path"
        unfolding open_loop_end using p pr(1) Inr y by (simp add: plain_open_def)
      ultimately show ?thesis unfolding e by blast
    qed
  qed
qed

text \<open>An object with one link, \<open>/a\<close>.\<close>

definition demo_json :: "string value_crates" where
  "demo_json = \<lparr>dir_from_value = (\<lambda>_. None), file_from_value = (\<lambda>_. None),
     get_by_json_path = (\<lambda>v path. if path = ''/a'' then Some (obj_id_to_string inst_crates demo_id) else None)\<rparr>"

lemma demo_content_addressed: "content_addressed inst_crates demo_json (\<lambda>_. Ok ''{}'') (\<lambda>_. ''{}'')"
proof -
  have "try_prefixes inst_crates demo_json v segs i e \<noteq> Ok (n, rest, Some s)" for v segs i e n rest s
    by (induction i arbitrary: e) (auto split: sum.split)
  then show ?thesis
    by (auto simp: content_addressed_def resolve_next_obj_once_def load_dir_object_def demo_json_def and_then_def Let_def
        split: sum.splits if_splits)
qed

theorem open_object_transparent_witness:
  "\<exists>c. open_object inst_crates demo_json (\<lambda>_. Ok ''{}'') \<lparr>obj_type = ''jobj'', obj_hash = [1]\<rparr> (Some ''a'') (cache_new 10) =
     Some (Ok ''{}'', c)"
proof -
  let ?i = "\<lparr>obj_type = ''jobj'', obj_hash = [1 :: u8]\<rparr>"
  have once: "resolve_next_obj_once inst_crates demo_json ?i ''{}'' ''/a'' = Some (Ok (demo_id, None, None))"
    by code_simp
  have "\<not> is_chunk ?i" "\<not> is_chunk demo_id" "normalize_inner_path (Some ''a'') = Some ''/a''" by code_simp+
  with once have "plain_open inst_crates demo_json (\<lambda>_. Ok ''{}'') ?i (Some ''a'') = Some (Ok ''{}'')"
    by (simp add: plain_open_def plain_resolve.simps)
  with open_object_transparent [OF demo_content_addressed valid_cache_new, of ?i "Some ''a''" 10]
  show ?thesis by auto
qed

section \<open>Complete objects\<close>

text \<open>What it means that an object and everything below it is stored.\<close>

inductive complete ::
  "'j ext_crates \<Rightarrow> 'j value_crates \<Rightarrow> (u8 list \<Rightarrow> u64) \<Rightarrow> 'f named_data_mgr \<Rightarrow> obj_id \<Rightarrow> string option \<Rightarrow> bool"
  for E J ho m where
  data: "is_chunk oid \<Longrightarrow> ndm_query_chunk_state E ho (chunk_from_obj_id oid) m = Ok (Completed, sz) \<Longrightarrow>
    complete E J ho m oid hint"
| link: "is_chunk oid \<Longrightarrow> ndm_query_chunk_state E ho (chunk_from_obj_id oid) m = Ok (LocalLink li, sz) \<Longrightarrow>
    complete E J ho m oid hint"
| same_as: "is_chunk oid \<Longrightarrow> ndm_query_chunk_state E ho (chunk_from_obj_id oid) m = Ok (SameAs list_id, sz) \<Longrightarrow>
    complete E J ho m list_id None \<Longrightarrow> complete E J ho m oid hint"
| chunk_list: "\<not> is_chunk oid \<Longrightarrow> is_chunk_list oid \<Longrightarrow>
    and_then (case hint of Some s \<Rightarrow> Ok s | None \<Rightarrow> ndm_get_object E ho oid m) (chunk_list_from_json E) = Ok cl \<Longrightarrow>
    (\<And>c. c \<in> set (cl_body cl) \<Longrightarrow> complete E J ho m (chunk_to_obj_id c) None) \<Longrightarrow> complete E J ho m oid hint"
| empty_file: "\<not> is_chunk oid \<Longrightarrow> \<not> is_chunk_list oid \<Longrightarrow> is_file_object oid \<Longrightarrow>
    (case hint of Some s \<Rightarrow> Ok (ObjData s) | None \<Rightarrow> ndm_query_object_by_id E ho oid m) = Ok (ObjData s) \<Longrightarrow>
    load_file_object E J s = Ok f \<Longrightarrow> fo_content f = [] \<Longrightarrow> complete E J ho m oid hint"
| file_object: "\<not> is_chunk oid \<Longrightarrow> \<not> is_chunk_list oid \<Longrightarrow> is_file_object oid \<Longrightarrow>
    (case hint of Some s \<Rightarrow> Ok (ObjData s) | None \<Rightarrow> ndm_query_object_by_id E ho oid m) = Ok (ObjData s) \<Longrightarrow>
    load_file_object E J s = Ok f \<Longrightarrow> fo_content f \<noteq> [] \<Longrightarrow> obj_id_new E (fo_content f) = Ok cid \<Longrightarrow>
    complete E J ho m cid None \<Longrightarrow> complete E J ho m oid hint"
| dir_object: "\<not> is_chunk oid \<Longrightarrow> \<not> is_chunk_list oid \<Longrightarrow> \<not> is_file_object oid \<Longrightarrow> is_dir_object oid \<Longrightarrow>
    (case hint of Some s \<Rightarrow> Ok (ObjData s) | None \<Rightarrow> ndm_query_object_by_id E ho oid m) = Ok (ObjData s) \<Longrightarrow>
    load_dir_object E J s = Ok d \<Longrightarrow>
    (\<And>it. it \<in> set (map snd (dir_body d)) \<Longrightarrow> \<exists>child cs. item_get_obj_id E it = Ok (child, cs) \<and>
       complete E J ho m child (if cs = [] then None else Some cs)) \<Longrightarrow> complete E J ho m oid hint"
| other: "\<not> is_chunk oid \<Longrightarrow> \<not> is_chunk_list oid \<Longrightarrow> \<not> is_file_object oid \<Longrightarrow> \<not> is_dir_object oid \<Longrightarrow>
    (case hint of Some s \<Rightarrow> Ok (ObjData s) | None \<Rightarrow> ndm_query_object_by_id E ho oid m) = Ok (ObjData s) \<Longrightarrow>
    complete E J ho m oid hint"

lemma all_stored_true: "all_stored f xs = Some (Ok True) \<longleftrightarrow> (\<forall>x \<in> set xs. f x = Some (Ok True))"
proof (induction xs)
  case (Cons x xs)
  consider "f x = None" | e where "f x = Some (Err e)" | "f x = Some (Ok True)" | "f x = Some (Ok False)"
    by (cases "f x"; cases "the (f x)") auto
  then show ?case using Cons by cases simp_all
qed simp

lemma stored_complete:
  assumes "is_object_fully_stored E J ho m oid hint = Some r"
  shows "r = Ok True \<longrightarrow> complete E J ho m oid hint"
proof (rule is_object_fully_stored.raw_induct
    [where P = "\<lambda>E J ho m oid hint r. r = Ok True \<longrightarrow> complete E J ho m oid hint", OF _ assms], rule impI, goal_cases)
  case (1 f E J ho m oid hint r)
  have IH: "f E J ho m i h = Some (Ok True) \<Longrightarrow> complete E J ho m i h" for i h using 1(1) by blast
  note body = 1(2) [unfolded 1(3)]
  consider (chunk) "is_chunk oid" | (list) "\<not> is_chunk oid" "is_chunk_list oid"
    | (object) "\<not> is_chunk oid" "\<not> is_chunk_list oid" by blast
  then show ?case
  proof cases
    case chunk
    then obtain cs sz where q: "ndm_query_chunk_state E ho (chunk_from_obj_id oid) m = Ok (cs, sz)"
      using body by (auto split: sum.splits)
    show ?thesis
    proof (cases cs)
      case (SameAs x)
      then show ?thesis using chunk q body IH by (auto intro: complete.same_as)
    qed (use chunk q body in \<open>auto intro: complete.data complete.link\<close>)
  next
    case list
    then obtain cl where cl: "and_then (case hint of Some s \<Rightarrow> Ok s | None \<Rightarrow> ndm_get_object E ho oid m) (chunk_list_from_json E) = Ok cl"
      using body by (auto split: sum.splits)
    then have "\<forall>c \<in> set (cl_body cl). f E J ho m (chunk_to_obj_id c) None = Some (Ok True)"
      using list body by (simp add: all_stored_true)
    with IH show ?thesis by (blast intro: complete.chunk_list [OF list cl])
  next
    case object
    then obtain s where s: "(case hint of Some s \<Rightarrow> Ok (ObjData s) | None \<Rightarrow> ndm_query_object_by_id E ho oid m) = Ok (ObjData s)"
      using body by (auto split: sum.splits object_state.splits)
    show ?thesis
    proof (cases "is_file_object oid")
      case True
      then obtain fo where fo: "load_file_object E J s = Ok fo" using object s body by (auto split: sum.splits)
      show ?thesis
      proof (cases "fo_content fo = []")
        case False
        then obtain cid where cid: "obj_id_new E (fo_content fo) = Ok cid" "f E J ho m cid None = Some (Ok True)"
          using True fo object s body by (auto split: sum.splits)
        show ?thesis by (rule complete.file_object [OF object True s fo False cid(1) IH [OF cid(2)]])
      qed (use True fo object s in \<open>auto intro: complete.empty_file\<close>)
    next
      case nf: False
      show ?thesis
      proof (cases "is_dir_object oid")
        case True
        then obtain d where d: "load_dir_object E J s = Ok d" using nf object s body by (auto split: sum.splits)
        let ?g = "\<lambda>it. case item_get_obj_id E it of Inl e \<Rightarrow> Some (Err e)
          | Inr (child, child_str) \<Rightarrow> f E J ho m child (if child_str = [] then None else Some child_str)"
        have all: "\<forall>it \<in> set (map snd (dir_body d)). ?g it = Some (Ok True)"
          using True nf object s d body unfolding all_stored_true [symmetric] by simp
        have kids: "\<exists>child cs. item_get_obj_id E it = Ok (child, cs) \<and>
            complete E J ho m child (if cs = [] then None else Some cs)" if "it \<in> set (map snd (dir_body d))" for it
        proof -
          note g = bspec [OF all that]
          then obtain child cs where "item_get_obj_id E it = Ok (child, cs)" by (auto split: sum.splits)
          moreover from this g have "f E J ho m child (if cs = [] then None else Some cs) = Some (Ok True)" by simp
          ultimately show ?thesis using IH by blast
        qed
        show ?thesis by (rule complete.dir_object [OF object nf True s d kids])
      qed (use nf object s in \<open>auto intro: complete.other\<close>)
    qed
  qed
qed

lemma complete_stored: "complete E J ho m oid hint \<Longrightarrow> is_object_fully_stored E J ho m oid hint = Some (Ok True)"
proof (induction rule: complete.induct)
  case (chunk_list oid hint cl)
  then show ?case by (subst is_object_fully_stored.simps) (simp add: all_stored_true)
next
  case (dir_object oid hint s d)
  then have "\<forall>it \<in> set (map snd (dir_body d)). (case item_get_obj_id E it of Inl e \<Rightarrow> Some (Err e)
      | Inr (child, cs) \<Rightarrow> is_object_fully_stored E J ho m child (if cs = [] then None else Some cs)) = Some (Ok True)"
    by (metis (no_types, lifting) case_prod_conv sum.case(2))
  then have "all_stored (\<lambda>it. case item_get_obj_id E it of Inl e \<Rightarrow> Some (Err e)
      | Inr (child, cs) \<Rightarrow> is_object_fully_stored E J ho m child (if cs = [] then None else Some cs)) (map snd (dir_body d)) = Some (Ok True)"
    unfolding all_stored_true .
  with dir_object(1-6) show ?case by (subst is_object_fully_stored.simps) simp
qed (subst is_object_fully_stored.simps, simp)+

text \<open>\<^bold>\<open>C40.\<close> \<open>is_object_fully_stored\<close> returns yes exactly for the objects that are complete.\<close>

theorem fully_stored_iff_complete:
  "is_object_fully_stored E J ho m oid hint = Some (Ok True) \<longleftrightarrow> complete E J ho m oid hint"
  using stored_complete complete_stored by blast

text \<open>A chunk can be registered as equal to a chunk list that contains it.  The check then recurses
  without end.\<close>

theorem same_as_cycle_diverges:
  assumes "is_chunk oid" and "ndm_query_chunk_state E ho (chunk_from_obj_id oid) m = Ok (SameAs list_id, sz)"
    and "\<not> is_chunk list_id" and "is_chunk_list list_id"
    and "and_then (ndm_get_object E ho list_id m) (chunk_list_from_json E) = Ok \<lparr>cl_total_size = n, cl_body = c # cs\<rparr>"
    and "chunk_to_obj_id c = oid"
  shows "is_object_fully_stored E J ho m oid None = None"
proof -
  have "(i = oid \<or> i = list_id) \<longrightarrow> m' \<noteq> m \<or> E' \<noteq> E \<or> ho' \<noteq> ho \<or> hint \<noteq> None"
    if "is_object_fully_stored E' J' ho' m' i hint = Some r" for E' J' ho' m' i hint r
  proof (rule is_object_fully_stored.raw_induct
      [where P = "\<lambda>E' J' ho' m' i hint r. (i = oid \<or> i = list_id) \<longrightarrow> m' \<noteq> m \<or> E' \<noteq> E \<or> ho' \<noteq> ho \<or> hint \<noteq> None", OF _ that],
      goal_cases)
    case (1 f E' J' ho' m' i hint r)
    have IH: "f E J' ho m oid None = None" "f E J' ho m list_id None = None"
      using 1(1) [of E J' ho m] by (metis not_None_eq)+
    show ?case
    proof (rule impI, rule ccontr)
      assume i: "i = oid \<or> i = list_id" and "\<not> (m' \<noteq> m \<or> E' \<noteq> E \<or> ho' \<noteq> ho \<or> hint \<noteq> None)"
      then have eq: "m' = m" "E' = E" "ho' = ho" "hint = None" by auto
      from i show False
        using 1(2) IH assms unfolding eq by (elim disjE) simp_all
    qed
  qed
  then show ?thesis by (metis not_None_eq)
qed

text \<open>A store in which a chunk is registered as equal to the list of itself.\<close>

definition loop_chunk :: chunk_id where
  "loop_chunk = chunk_from_obj_id \<lparr>obj_type = ''mix256'', obj_hash = [1, 2]\<rparr>"

definition loop_list :: obj_id where
  "loop_list = \<lparr>obj_type = ''clist'', obj_hash = [9]\<rparr>"

definition loop_mgr :: "lf_state named_data_mgr" where
  "loop_mgr = snd (ndm_add_chunk_by_same_as inst_crates (\<lambda>_. 0) 5 loop_chunk 1 loop_list
     (snd (ndm_put_object inst_crates (\<lambda>_. 0) 5 loop_list (chunk_to_string inst_crates loop_chunk) demo_mgr)))"

theorem same_as_cycle_diverges_witness:
  "is_object_fully_stored inst_crates demo_json (\<lambda>_. 0) loop_mgr (chunk_to_obj_id loop_chunk) None = None"
proof (rule same_as_cycle_diverges)
  show "is_chunk (chunk_to_obj_id loop_chunk)" "\<not> is_chunk loop_list" "is_chunk_list loop_list" by code_simp+
  show "ndm_query_chunk_state inst_crates (\<lambda>_. 0) (chunk_from_obj_id (chunk_to_obj_id loop_chunk)) loop_mgr =
      Ok (SameAs loop_list, 1)" by code_simp
  show "and_then (ndm_get_object inst_crates (\<lambda>_. 0) loop_list loop_mgr) (chunk_list_from_json inst_crates) =
      Ok \<lparr>cl_total_size = 1, cl_body = [loop_chunk]\<rparr>" by code_simp
qed simp

end
