(* ===== verification/Path_Cache.thy ===== *)
theory Path_Cache
  imports Fs_Meta_Types "HOL-Library.AList" "HOL-Library.Sublist"
begin

text \<open>
  The cache of path resolutions, \<open>fs_meta/src/path_resolve_cache.rs\<close>: a trie over path components whose
  nodes hold the inode ids along a path or the object or symbolic link that ends it, an index from
  directory edges to paths for invalidation, and an access order for eviction.

  A \<open>HashMap\<close> of children is an association list: the order of the list is the order in which the map
  is iterated, and no theorem depends on it.  \<open>EntryId\<close> and the \<open>usize\<close> counters are natural
  numbers.  The loops that walk down with raw pointers and recompute the nodes on the way back are
  the recursions \<open>walk_update\<close> (existing nodes only) and \<open>insert_update\<close> (missing nodes are created).
\<close>

section \<open>The trie\<close>

datatype path_resolve_terminal_value = PtObjId obj_id | PtSymLink string

record path_resolve_terminal_hit =
  hit_matched_len :: nat
  hit_value :: path_resolve_terminal_value

datatype path_resolve_cache_value =
    InodeIds "index_node_id list"
  | TerminalVal path_resolve_terminal_value

fun value_inode_ids :: "path_resolve_cache_value \<Rightarrow> index_node_id list option" where
  "value_inode_ids (InodeIds v) = Some v"
| "value_inode_ids (TerminalVal _) = None"

fun value_terminal :: "path_resolve_cache_value \<Rightarrow> path_resolve_terminal_value option" where
  "value_terminal (InodeIds _) = None"
| "value_terminal (TerminalVal v) = Some v"

datatype path_resolve_cache_node = CNode
  (cn_children: "(string \<times> path_resolve_cache_node) list")
  (cn_value: "path_resolve_cache_value option")
  (cn_deepest: "index_node_id list option")
  (cn_entry_id: "nat option")

definition cnode_default :: path_resolve_cache_node where
  "cnode_default = CNode [] None None None"

text \<open>One round of the loop of \<open>recompute_deepest_inode\<close>: a longer path wins.\<close>

definition better_inode ::
  "index_node_id list option \<Rightarrow> index_node_id list option \<Rightarrow> index_node_id list option" where
  "better_inode best d =
     (case d of None \<Rightarrow> best
      | Some v \<Rightarrow> (case best of None \<Rightarrow> Some v | Some cur \<Rightarrow> if length v > length cur then Some v else best))"

fun recompute_deepest_inode :: "path_resolve_cache_node \<Rightarrow> path_resolve_cache_node" where
  "recompute_deepest_inode (CNode ch v d e) =
     CNode ch v (foldl better_inode (Option.bind v value_inode_ids) (map (\<lambda>(_, m). cn_deepest m) ch)) e"

text \<open>\<open>value.and_then(inode_ids).or_else(deepest_inode)\<close>: the ids a node answers with.\<close>

definition node_ids :: "path_resolve_cache_node \<Rightarrow> index_node_id list option" where
  "node_ids n = (case Option.bind (cn_value n) value_inode_ids of Some v \<Rightarrow> Some v | None \<Rightarrow> cn_deepest n)"

definition child_of :: "path_resolve_cache_node \<Rightarrow> string \<Rightarrow> path_resolve_cache_node option" where
  "child_of n c = map_of (cn_children n) c"

definition set_child ::
  "string \<Rightarrow> path_resolve_cache_node \<Rightarrow> path_resolve_cache_node \<Rightarrow> path_resolve_cache_node" where
  "set_child c m n = CNode (AList.update c m (cn_children n)) (cn_value n) (cn_deepest n) (cn_entry_id n)"

fun node_at :: "string list \<Rightarrow> path_resolve_cache_node \<Rightarrow> path_resolve_cache_node option" where
  "node_at [] n = Some n"
| "node_at (c # cs) n = (case child_of n c of None \<Rightarrow> None | Some m \<Rightarrow> node_at cs m)"

text \<open>Change the node at a path with \<open>f\<close>, then every node above it with \<open>up\<close>.\<close>

fun walk_update ::
  "(path_resolve_cache_node \<Rightarrow> path_resolve_cache_node) \<Rightarrow> (path_resolve_cache_node \<Rightarrow> path_resolve_cache_node)
   \<Rightarrow> string list \<Rightarrow> path_resolve_cache_node \<Rightarrow> path_resolve_cache_node" where
  "walk_update up f [] n = f n"
| "walk_update up f (c # cs) n =
     (case child_of n c of None \<Rightarrow> n | Some m \<Rightarrow> up (set_child c (walk_update up f cs m) n))"

fun insert_update ::
  "(path_resolve_cache_node \<Rightarrow> path_resolve_cache_node) \<Rightarrow> (path_resolve_cache_node \<Rightarrow> path_resolve_cache_node)
   \<Rightarrow> string list \<Rightarrow> path_resolve_cache_node \<Rightarrow> path_resolve_cache_node" where
  "insert_update up f [] n = f n"
| "insert_update up f (c # cs) n =
     up (set_child c (insert_update up f cs (case child_of n c of None \<Rightarrow> cnode_default | Some m \<Rightarrow> m)) n)"

section \<open>The cache\<close>

record path_resolve_cache =
  pc_root :: path_resolve_cache_node
  pc_edge_index :: "index_node_id \<times> string \<Rightarrow> string list option"
  pc_max_entries :: nat
  pc_entry_count :: nat
  pc_next_entry_id :: nat
  pc_lru_map :: "(nat \<times> string list) list"

definition DEFAULT_MAX_ENTRIES :: nat where "DEFAULT_MAX_ENTRIES = 10000"

definition path_cache_new :: "nat \<Rightarrow> path_resolve_cache" where
  "path_cache_new mx = \<lparr>pc_root = cnode_default, pc_edge_index = (\<lambda>_. None), pc_max_entries = mx,
     pc_entry_count = 0, pc_next_entry_id = 0, pc_lru_map = []\<rparr>"

definition set_entry :: "nat option \<Rightarrow> path_resolve_cache_node \<Rightarrow> path_resolve_cache_node" where
  "set_entry e n = CNode (cn_children n) (cn_value n) (cn_deepest n) e"

definition refresh_lru_for_path :: "string list \<Rightarrow> nat \<Rightarrow> path_resolve_cache \<Rightarrow> path_resolve_cache" where
  "refresh_lru_for_path components old_id c =
     (case map_of (pc_lru_map c) old_id of
        None \<Rightarrow> c
      | Some p \<Rightarrow> c\<lparr>
          pc_next_entry_id := pc_next_entry_id c + 1,
          pc_lru_map := AList.update (pc_next_entry_id c) p (AList.delete old_id (pc_lru_map c)),
          pc_root := walk_update (\<lambda>n. n) (set_entry (Some (pc_next_entry_id c))) components (pc_root c)\<rparr>)"

definition get_ids_for_path ::
  "string list \<Rightarrow> path_resolve_cache \<Rightarrow> index_node_id list option \<times> path_resolve_cache" where
  "get_ids_for_path components c =
     (case node_at components (pc_root c) of
        None \<Rightarrow> (None, c)
      | Some n \<Rightarrow>
          (case node_ids n of
             None \<Rightarrow> (None, c)
           | Some v \<Rightarrow>
               if length v < length components + 1 then (None, c)
               else (Some (take (length components + 1) v),
                     (case cn_entry_id n of None \<Rightarrow> c | Some i \<Rightarrow> refresh_lru_for_path components i c))))"

text \<open>The loop of \<open>get_terminal_for_path\<close>: the components already matched, the node they lead to, the
  components that are left.\<close>

fun terminal_on_path ::
  "string list \<Rightarrow> path_resolve_cache_node \<Rightarrow> string list
   \<Rightarrow> (string list \<times> path_resolve_terminal_value \<times> nat option) option" where
  "terminal_on_path pre n [] = None"
| "terminal_on_path pre n (c # cs) =
     (case child_of n c of
        None \<Rightarrow> None
      | Some m \<Rightarrow>
          (case Option.bind (cn_value m) value_terminal of
             Some t \<Rightarrow> Some (pre @ [c], t, cn_entry_id m)
           | None \<Rightarrow> terminal_on_path (pre @ [c]) m cs))"

definition get_terminal_for_path ::
  "string list \<Rightarrow> path_resolve_cache \<Rightarrow> path_resolve_terminal_hit option \<times> path_resolve_cache" where
  "get_terminal_for_path components c =
     (case terminal_on_path [] (pc_root c) components of
        None \<Rightarrow> (None, c)
      | Some (matched, t, e) \<Rightarrow>
          (Some \<lparr>hit_matched_len = length matched, hit_value = t\<rparr>,
           (case e of None \<Rightarrow> c | Some i \<Rightarrow> refresh_lru_for_path matched i c)))"

fun longest_prefix ::
  "nat \<Rightarrow> (nat \<times> index_node_id list) option \<Rightarrow> path_resolve_cache_node \<Rightarrow> string list
   \<Rightarrow> (nat \<times> index_node_id list) option" where
  "longest_prefix depth best n [] = best"
| "longest_prefix depth best n (c # cs) =
     (case child_of n c of
        None \<Rightarrow> best
      | Some m \<Rightarrow>
          longest_prefix (depth + 1)
            (case node_ids m of
               Some v \<Rightarrow> if length v \<ge> depth + 1 + 1 then Some (depth + 1, v) else best
             | None \<Rightarrow> best) m cs)"

definition get_longest_prefix_ids_for_path ::
  "string list \<Rightarrow> path_resolve_cache \<Rightarrow> index_node_id list option" where
  "get_longest_prefix_ids_for_path components c =
     map_option (\<lambda>(d, v). take (d + 1) v)
       (longest_prefix 0
          (case node_ids (pc_root c) of Some v \<Rightarrow> if v \<noteq> [] then Some (0, v) else None | None \<Rightarrow> None)
          (pc_root c) components)"

section \<open>Insertion and eviction\<close>

text \<open>The nodes that \<open>clear_shallow_values_on_path\<close> empties, and the entry ids it takes from them.\<close>

fun clear_shallow :: "string list \<Rightarrow> path_resolve_cache_node \<Rightarrow> path_resolve_cache_node" where
  "clear_shallow [] n = n"
| "clear_shallow (c # cs) n =
     (let n' = CNode (cn_children n) None (cn_deepest n) None in
      case child_of n c of None \<Rightarrow> n' | Some m \<Rightarrow> set_child c (clear_shallow cs m) n')"

fun shallow_entry_ids :: "string list \<Rightarrow> path_resolve_cache_node \<Rightarrow> nat list" where
  "shallow_entry_ids [] n = []"
| "shallow_entry_ids (c # cs) n =
     (case cn_entry_id n of None \<Rightarrow> [] | Some i \<Rightarrow> [i]) @
     (case child_of n c of None \<Rightarrow> [] | Some m \<Rightarrow> shallow_entry_ids cs m)"

text \<open>\<open>lru_map.remove(&id); entry_count = entry_count.saturating_sub(1)\<close>\<close>

definition drop_lru :: "nat \<Rightarrow> path_resolve_cache \<Rightarrow> path_resolve_cache" where
  "drop_lru i c = c\<lparr>pc_lru_map := AList.delete i (pc_lru_map c), pc_entry_count := pc_entry_count c - 1\<rparr>"

definition clear_shallow_values_on_path :: "string list \<Rightarrow> path_resolve_cache \<Rightarrow> path_resolve_cache" where
  "clear_shallow_values_on_path components c =
     fold drop_lru (shallow_entry_ids components (pc_root c)) (c\<lparr>pc_root := clear_shallow components (pc_root c)\<rparr>)"

definition clear_value :: "path_resolve_cache_node \<Rightarrow> path_resolve_cache_node" where
  "clear_value n = CNode (cn_children n) None (cn_deepest n) None"

text \<open>\<open>edge_index.retain(...)\<close>\<close>

definition retain_edges ::
  "(string list \<Rightarrow> bool) \<Rightarrow> (index_node_id \<times> string \<Rightarrow> string list option)
   \<Rightarrow> index_node_id \<times> string \<Rightarrow> string list option" where
  "retain_edges keep ix k = (case ix k of Some p \<Rightarrow> if keep p then Some p else None | None \<Rightarrow> None)"

definition remove_single_entry :: "string list \<Rightarrow> path_resolve_cache \<Rightarrow> path_resolve_cache" where
  "remove_single_entry p c =
     (if p = [] then c\<lparr>pc_root := recompute_deepest_inode (clear_value (pc_root c))\<rparr>
      else if node_at p (pc_root c) = None then c
      else c\<lparr>pc_root := walk_update recompute_deepest_inode (\<lambda>n. recompute_deepest_inode (clear_value n)) p (pc_root c),
             pc_edge_index := retain_edges (\<lambda>comps. comps \<noteq> p) (pc_edge_index c)\<rparr>)"

definition evict_lru :: "path_resolve_cache \<Rightarrow> path_resolve_cache" where
  "evict_lru c =
     (if pc_lru_map c = [] then c
      else let oldest = Min (fst ` set (pc_lru_map c)) in
        (case map_of (pc_lru_map c) oldest of
           None \<Rightarrow> c
         | Some p \<Rightarrow> remove_single_entry p (drop_lru oldest c)))"

definition is_new_entry :: "string list \<Rightarrow> path_resolve_cache \<Rightarrow> bool" where
  "is_new_entry components c = (Option.bind (node_at components (pc_root c)) cn_value = None)"

definition make_room :: "string list \<Rightarrow> path_resolve_cache \<Rightarrow> path_resolve_cache" where
  "make_room components c =
     (if is_new_entry components c \<and> pc_entry_count c \<ge> pc_max_entries c then evict_lru c else c)"

definition raise_deepest :: "index_node_id list \<Rightarrow> path_resolve_cache_node \<Rightarrow> path_resolve_cache_node" where
  "raise_deepest ids n = CNode (cn_children n) (cn_value n)
     (case cn_deepest n of None \<Rightarrow> Some ids | Some cur \<Rightarrow> if length ids > length cur then Some ids else Some cur)
     (cn_entry_id n)"

definition index_edges ::
  "string list \<Rightarrow> index_node_id list \<Rightarrow> (index_node_id \<times> string \<Rightarrow> string list option)
   \<Rightarrow> index_node_id \<times> string \<Rightarrow> string list option" where
  "index_edges components parents ix =
     fold (\<lambda>i m. m((parents ! i, components ! i) \<mapsto> take (i + 1) components)) [0..<length components] ix"

text \<open>The part that the two insertions share: drop the old entry id of the node, register a new
  one, write the node and the nodes above it.\<close>

definition enter_path ::
  "string list \<Rightarrow> (nat \<Rightarrow> path_resolve_cache_node \<Rightarrow> path_resolve_cache_node)
   \<Rightarrow> (path_resolve_cache_node \<Rightarrow> path_resolve_cache_node) \<Rightarrow> path_resolve_cache \<Rightarrow> path_resolve_cache" where
  "enter_path components set_target up c =
     (let c1 = (case Option.bind (node_at components (pc_root c)) cn_entry_id of
                  Some old \<Rightarrow> drop_lru old c | None \<Rightarrow> c);
          entry = pc_next_entry_id c1
      in c1\<lparr>pc_root := insert_update up (\<lambda>n. up (set_target entry n)) components (pc_root c1),
            pc_next_entry_id := entry + 1,
            pc_lru_map := AList.update entry components (pc_lru_map c1),
            pc_entry_count := pc_entry_count c1 + 1\<rparr>)"

definition put_ids_for_path ::
  "string list \<Rightarrow> index_node_id list \<Rightarrow> path_resolve_cache \<Rightarrow> path_resolve_cache" where
  "put_ids_for_path components ids c =
     (if length ids \<noteq> length components + 1 then c
      else let c1 = clear_shallow_values_on_path components (make_room components c);
               c2 = enter_path components
                      (\<lambda>e n. CNode (cn_children n) (Some (InodeIds ids)) (Some ids) (Some e)) (raise_deepest ids) c1
           in c2\<lparr>pc_edge_index := index_edges components ids (pc_edge_index c2)\<rparr>)"

definition put_terminal_for_path ::
  "string list \<Rightarrow> index_node_id list \<Rightarrow> path_resolve_terminal_value \<Rightarrow> path_resolve_cache \<Rightarrow> path_resolve_cache" where
  "put_terminal_for_path components parent_ids t c =
     (if length parent_ids \<noteq> length components then c
      else let c1 = clear_shallow_values_on_path components (make_room components c);
               c2 = enter_path components
                      (\<lambda>e n. CNode (cn_children n) (Some (TerminalVal t)) (cn_deepest n) (Some e))
                      recompute_deepest_inode c1
           in c2\<lparr>pc_edge_index := index_edges components parent_ids (pc_edge_index c2)\<rparr>)"

section \<open>Invalidation\<close>

fun collect_entry_ids :: "path_resolve_cache_node \<Rightarrow> nat list" where
  "collect_entry_ids (CNode ch v d e) =
     (case e of None \<Rightarrow> [] | Some i \<Rightarrow> [i]) @ concat (map (\<lambda>(_, m). collect_entry_ids m) ch)"

definition remove_child :: "string \<Rightarrow> path_resolve_cache_node \<Rightarrow> path_resolve_cache_node" where
  "remove_child c n = CNode (AList.delete c (cn_children n)) (cn_value n) (cn_deepest n) (cn_entry_id n)"

text \<open>\<open>invalidate_prefix_internal\<close> with \<open>update_lru = true\<close>, its only use.\<close>

definition invalidate_prefix :: "string list \<Rightarrow> path_resolve_cache \<Rightarrow> path_resolve_cache" where
  "invalidate_prefix pre c =
     (if pre = [] then c\<lparr>pc_root := cnode_default, pc_edge_index := (\<lambda>_. None), pc_lru_map := [], pc_entry_count := 0\<rparr>
      else (case node_at (butlast pre) (pc_root c) of
          None \<Rightarrow> c
        | Some parent \<Rightarrow>
            let removed = (case child_of parent (last pre) of None \<Rightarrow> [] | Some sub \<Rightarrow> collect_entry_ids sub);
                c1 = fold drop_lru removed c
            in c1\<lparr>pc_root := walk_update recompute_deepest_inode
                               (\<lambda>n. recompute_deepest_inode (remove_child (last pre) n)) (butlast pre) (pc_root c1),
                  pc_edge_index := retain_edges (\<lambda>comps. take (length pre) comps \<noteq> pre) (pc_edge_index c1)\<rparr>))"

definition invalidate_by_edge :: "index_node_id \<Rightarrow> string \<Rightarrow> path_resolve_cache \<Rightarrow> path_resolve_cache" where
  "invalidate_by_edge parent name c =
     (case pc_edge_index c (parent, name) of None \<Rightarrow> c | Some pre \<Rightarrow> invalidate_prefix pre c)"

end
