(* ===== verification/Path_Cache_Props.thy ===== *)
theory Path_Cache_Props
  imports Path_Cache
begin

text \<open>
  Correctness of the path cache.  A \<open>world\<close> is the directory tree the cache describes: what a name in
  a directory leads to.  \<open>cache_run\<close> is every history of the cache in which no insertion evicts,
  resolutions are cached as the world has them, and a change of a directory edge is followed by
  \<open>invalidate_by_edge\<close>; its theorems say that every answer of the cache is then right in the current
  world.  The theorem on eviction shows why the restriction is needed.
\<close>

section \<open>What the nodes of a trie hold\<close>

text \<open>\<open>node_ok A p n\<close>: the children of a node have different names, every value below the node \<open>n\<close> at the path \<open>p\<close> satisfies \<open>A\<close> at its path, and
  every remembered deepest path satisfies it at some extension of the node's path.\<close>

type_synonym path_assertion = "string list \<Rightarrow> path_resolve_cache_value \<Rightarrow> bool"

definition deep_ok :: "path_assertion \<Rightarrow> string list \<Rightarrow> index_node_id list option \<Rightarrow> bool" where
  "deep_ok A p d \<longleftrightarrow> (\<forall>ids. d = Some ids \<longrightarrow> (\<exists>q. prefix p q \<and> A q (InodeIds ids)))"

fun node_ok :: "path_assertion \<Rightarrow> string list \<Rightarrow> path_resolve_cache_node \<Rightarrow> bool" where
  "node_ok A p (CNode ch v d e) =
     (distinct (map fst ch) \<and> (\<forall>x. v = Some x \<longrightarrow> A p x) \<and> deep_ok A p d \<and> (\<forall>(c, m) \<in> set ch. node_ok A (p @ [c]) m))"

definition body_ok :: "path_assertion \<Rightarrow> string list \<Rightarrow> path_resolve_cache_node \<Rightarrow> bool" where
  "body_ok A p n \<longleftrightarrow> distinct (map fst (cn_children n)) \<and> (\<forall>x. cn_value n = Some x \<longrightarrow> A p x) \<and>
     (\<forall>c m. (c, m) \<in> set (cn_children n) \<longrightarrow> node_ok A (p @ [c]) m)"

lemma node_ok_iff: "node_ok A p n \<longleftrightarrow> body_ok A p n \<and> deep_ok A p (cn_deepest n)"
  by (cases n) (auto simp: body_ok_def)

lemma node_ok_default [simp]: "node_ok A p cnode_default"
  by (simp add: cnode_default_def deep_ok_def)

lemma deep_ok_mono:
  "deep_ok A p d \<Longrightarrow> (\<And>q v. prefix p q \<Longrightarrow> A q v \<Longrightarrow> B q v) \<Longrightarrow> deep_ok B p d"
  unfolding deep_ok_def by blast

lemma node_ok_mono:
  "node_ok A p n \<Longrightarrow> (\<And>q v. prefix p q \<Longrightarrow> A q v \<Longrightarrow> B q v) \<Longrightarrow> node_ok B p n"
proof (induction A p n rule: node_ok.induct)
  case (1 A p ch v d e)
  have sub: "node_ok B (p @ [c]) m" if m: "(c, m) \<in> set ch" for c m
  proof (rule 1(1) [OF m refl])
    show "node_ok A (p @ [c]) m" using 1(2) m by auto
    show "B q v" if "prefix (p @ [c]) q" "A q v" for q v
      using that 1(3) append_prefixD by blast
  qed
  with 1(2,3) show ?case
    using deep_ok_mono [of A p d B] by auto
qed

lemma child_ofD: "child_of n c = Some m \<Longrightarrow> (c, m) \<in> set (cn_children n)"
  by (simp add: child_of_def map_of_SomeD)

lemma node_ok_child: "node_ok A p n \<Longrightarrow> child_of n c = Some m \<Longrightarrow> node_ok A (p @ [c]) m"
  by (auto simp: node_ok_iff [of A p] body_ok_def dest: child_ofD)

lemma node_ok_at: "node_ok A p n \<Longrightarrow> node_at q n = Some m \<Longrightarrow> node_ok A (p @ q) m"
proof (induction q arbitrary: p n)
  case (Cons c cs)
  from Cons.prems(2) obtain k where k: "child_of n c = Some k" "node_at cs k = Some m"
    by (auto split: option.splits)
  from Cons.IH [OF node_ok_child [OF Cons.prems(1) k(1)] k(2)] show ?case by simp
qed simp

lemma set_alist_update:
  "distinct (map fst al) \<Longrightarrow> (c, m) \<in> set (AList.update k v al) \<longleftrightarrow> (c, m) = (k, v) \<or> (c \<noteq> k \<and> (c, m) \<in> set al)"
  by (induction al) force+

lemma body_ok_set_child:
  assumes "distinct (map fst (cn_children n))" and "\<And>x. cn_value n = Some x \<Longrightarrow> A p x"
    and "\<And>c' m'. c' \<noteq> c \<Longrightarrow> (c', m') \<in> set (cn_children n) \<Longrightarrow> node_ok A (p @ [c']) m'"
    and "node_ok A (p @ [c]) m"
  shows "body_ok A p (set_child c m n)"
  using assms by (auto simp: body_ok_def set_child_def set_alist_update distinct_update)

lemma set_child_simps [simp]:
  "cn_value (set_child c m n) = cn_value n" "cn_deepest (set_child c m n) = cn_deepest n"
  "cn_entry_id (set_child c m n) = cn_entry_id n"
  "child_of (set_child c m n) d = (if d = c then Some m else child_of n d)"
  by (simp_all add: set_child_def child_of_def update_conv')

lemma node_ok_set_child:
  "node_ok A p n \<Longrightarrow> node_ok A (p @ [c]) m \<Longrightarrow> node_ok A p (set_child c m n)"
  unfolding node_ok_iff [of A p] by (auto simp: body_ok_def [of A p n] intro!: body_ok_set_child)

lemma node_ids_ok: "node_ok A p n \<Longrightarrow> node_ids n = Some ids \<Longrightarrow> \<exists>q. prefix p q \<and> A q (InodeIds ids)"
  by (cases n) (auto simp: node_ids_def deep_ok_def split: option.splits bind_splits
      elim!: value_inode_ids.elims)

section \<open>Keeping the nodes right\<close>

lemma better_inode_cases: "better_inode a b = a \<or> better_inode a b = b"
  by (auto simp: better_inode_def split: option.splits)

lemma foldl_better_cases: "foldl better_inode b ds = b \<or> foldl better_inode b ds \<in> set ds"
proof (induction ds arbitrary: b)
  case (Cons d ds)
  from Cons [of "better_inode b d"] better_inode_cases [of b d] show ?case by auto
qed simp

lemma deep_ok_child: "deep_ok A (p @ [c]) d \<Longrightarrow> deep_ok A p d"
  unfolding deep_ok_def using append_prefixD by blast

lemma recompute_simps [simp]:
  "cn_value (recompute_deepest_inode n) = cn_value n"
  "cn_children (recompute_deepest_inode n) = cn_children n"
  "cn_entry_id (recompute_deepest_inode n) = cn_entry_id n"
  "child_of (recompute_deepest_inode n) c = child_of n c"
  by (cases n; simp add: child_of_def)+

lemma recompute_ok: assumes "body_ok A p n" shows "node_ok A p (recompute_deepest_inode n)"
proof (cases n)
  case (CNode ch v d e)
  let ?d = "foldl better_inode (Option.bind v value_inode_ids) (map (\<lambda>(_, m). cn_deepest m) ch)"
  have own: "deep_ok A p (Option.bind v value_inode_ids)"
    using assms by (auto simp: CNode body_ok_def deep_ok_def elim!: value_inode_ids.elims split: bind_splits)
  have below: "deep_ok A p (cn_deepest m)" if "(c, m) \<in> set ch" for c m
  proof -
    from assms that have "node_ok A (p @ [c]) m" by (simp add: CNode body_ok_def)
    then show ?thesis by (auto simp: node_ok_iff intro: deep_ok_child)
  qed
  from foldl_better_cases [of "Option.bind v value_inode_ids" "map (\<lambda>(_, m). cn_deepest m) ch"]
  have "deep_ok A p ?d" using own below by auto
  with assms show ?thesis by (simp add: CNode body_ok_def) auto
qed

lemma recompute_keeps_ok: "node_ok A p n \<Longrightarrow> node_ok A p (recompute_deepest_inode n)"
  by (rule recompute_ok) (simp add: node_ok_iff [of A p n])

lemma raise_deepest_ok:
  assumes "node_ok A p n" and "prefix p q" and "A q (InodeIds ids)"
  shows "node_ok A p (raise_deepest ids n)"
  using assms by (cases n) (auto simp: raise_deepest_def deep_ok_def split: option.splits)

lemma raise_deepest_simps [simp]:
  "cn_children (raise_deepest ids n) = cn_children n"
  "cn_entry_id (raise_deepest ids n) = cn_entry_id n"
  "cn_value (raise_deepest ids n) = cn_value n"
  "child_of (raise_deepest ids n) c = child_of n c"
  by (simp_all add: raise_deepest_def child_of_def)

lemma set_entry_ok: "node_ok A p n \<Longrightarrow> node_ok A p (set_entry e n)"
  by (cases n) (simp add: set_entry_def)

lemma walk_keep_ok:
  assumes "\<And>p n. node_ok A p n \<Longrightarrow> node_ok A p (f n)" and "node_ok A p n"
  shows "node_ok A p (walk_update (\<lambda>n. n) f cs n)"
  using assms(2)
proof (induction cs arbitrary: p n)
  case (Cons c cs)
  then show ?case
    by (auto split: option.splits intro!: node_ok_set_child dest: node_ok_child)
qed (simp add: assms(1))

lemma clear_shallow_ok: "node_ok A p n \<Longrightarrow> node_ok A p (clear_shallow cs n)"
proof (induction cs arbitrary: p n)
  case (Cons c cs)
  have cl: "node_ok A p (CNode (cn_children n) None (cn_deepest n) None)"
    using Cons.prems by (cases n) simp
  show ?case
    using Cons.IH node_ok_child [OF Cons.prems] node_ok_set_child [OF cl] cl
    by (auto simp: Let_def simp del: node_ok.simps split: option.splits)
qed simp

lemma insert_ok:
  assumes up: "\<And>p n. prefix p (p0 @ cs0) \<Longrightarrow> node_ok A p n \<Longrightarrow> node_ok A p (up n)"
    and f: "\<And>n. node_ok A (p0 @ cs0) n \<Longrightarrow> node_ok A (p0 @ cs0) (f n)"
    and n: "node_ok A p0 n0"
  shows "node_ok A p0 (insert_update up f cs0 n0)"
proof -
  have "node_ok A p (insert_update up f cs n)" if "p @ cs = p0 @ cs0" "node_ok A p n" for p cs n
    using that
  proof (induction cs arbitrary: p n)
    case Nil
    then show ?case using f by simp
  next
    case (Cons c cs)
    let ?m = "case child_of n c of None \<Rightarrow> cnode_default | Some m \<Rightarrow> m"
    have "node_ok A (p @ [c]) ?m"
      using Cons.prems(2) by (auto split: option.splits intro: node_ok_child)
    then have "node_ok A (p @ [c]) (insert_update up f cs ?m)"
      using Cons.IH [of "p @ [c]"] Cons.prems(1) by simp
    then have "node_ok A p (set_child c (insert_update up f cs ?m) n)"
      using Cons.prems(2) by (rule node_ok_set_child [rotated])
    moreover have "prefix p (p0 @ cs0)" using Cons.prems(1) by (metis prefixI)
    ultimately show ?case using up by simp
  qed
  from this [OF refl n] show ?thesis .
qed

text \<open>Removing a subtree removes every value whose path goes through it, and no remembered
  deepest path goes through it either.\<close>

lemma not_through_sibling:
  "c' \<noteq> c \<Longrightarrow> prefix (p @ [c']) q \<Longrightarrow> \<not> prefix (p @ c # cs) q"
  by (auto simp: prefix_def)

lemma remove_prefix_ok:
  assumes "node_ok A p n" and "r \<noteq> []" and "node_at (butlast r) n \<noteq> None"
  shows "node_ok (\<lambda>q v. A q v \<and> \<not> prefix (p @ r) q) p
           (walk_update recompute_deepest_inode (\<lambda>n. recompute_deepest_inode (remove_child (last r) n)) (butlast r) n)"
  using assms
proof (induction r arbitrary: p n)
  case (Cons c cs)
  let ?B = "\<lambda>q v. A q v \<and> \<not> prefix (p @ c # cs) q"
  have own: "?B p v" if "cn_value n = Some v" for v
    using that Cons.prems(1) by (auto simp: node_ok_iff [of A p n] body_ok_def prefix_def)
  have sib: "node_ok ?B (p @ [c']) m" if "c' \<noteq> c" "(c', m) \<in> set (cn_children n)" for c' m
  proof (rule node_ok_mono)
    show "node_ok A (p @ [c']) m" using that Cons.prems(1) by (simp add: node_ok_iff [of A p] body_ok_def)
  qed (use not_through_sibling [OF that(1)] in blast)
  show ?case
  proof (cases "cs = []")
    case True
    have "body_ok ?B p (remove_child c n)"
      using own sib Cons.prems(1)
      by (auto simp: body_ok_def remove_child_def node_ok_iff [of A p] AList.delete_eq distinct_map_filter)
    then show ?thesis using True by (simp add: recompute_ok)
  next
    case False
    from Cons.prems(3) False obtain m where m: "child_of n c = Some m" "node_at (butlast cs) m \<noteq> None"
      by (auto split: option.splits)
    let ?w = "walk_update recompute_deepest_inode (\<lambda>n. recompute_deepest_inode (remove_child (last cs) n)) (butlast cs) m"
    have w: "node_ok ?B (p @ [c]) ?w"
      using Cons.IH [OF node_ok_child [OF Cons.prems(1) m(1)] False m(2)] by simp
    have "distinct (map fst (cn_children n))"
      using Cons.prems(1) by (simp add: node_ok_iff [of A p n] body_ok_def)
    from body_ok_set_child [of n ?B p c ?w, OF this own sib w]
    have "body_ok ?B p (set_child c ?w n)" .
    then show ?thesis using False m(1) by (simp add: recompute_ok)
  qed
qed simp

section \<open>Labels of paths\<close>

text \<open>The value and the entry id of a path; no path that is missing from the trie has a label.\<close>

definition node_label ::
  "path_resolve_cache_node \<Rightarrow> path_resolve_cache_value option \<times> nat option" where
  "node_label n = (cn_value n, cn_entry_id n)"

definition label_at ::
  "string list \<Rightarrow> path_resolve_cache_node \<Rightarrow> (path_resolve_cache_value option \<times> nat option) option" where
  "label_at q n = map_option node_label (node_at q n)"

lemma label_at_Nil [simp]: "label_at [] n = Some (node_label n)"
  by (simp add: label_at_def)

lemma label_at_Cons [simp]:
  "label_at (c # cs) n = (case child_of n c of None \<Rightarrow> None | Some m \<Rightarrow> label_at cs m)"
  by (simp add: label_at_def split: option.splits)

lemma node_label_simps [simp]:
  "node_label (recompute_deepest_inode n) = node_label n"
  "node_label (raise_deepest ids n) = node_label n"
  "node_label (set_child c m n) = node_label n"
  "node_label (CNode ch v d e) = (v, e)"
  "node_label (set_entry e' n) = (cn_value n, e')"
  "node_label (remove_child c n) = node_label n"
  "node_label cnode_default = (None, None)"
  by (simp_all add: node_label_def set_entry_def remove_child_def cnode_default_def)

lemma child_of_simps [simp]:
  "child_of (set_entry e n) c = child_of n c"
  "child_of (clear_value n) c = child_of n c"
  "child_of (CNode (cn_children n) v d e) c = child_of n c"
  "child_of cnode_default c = None"
  "child_of (remove_child c n) c' = (if c' = c then None else child_of n c')"
  by (simp_all add: set_entry_def clear_value_def child_of_def remove_child_def cnode_default_def delete_conv')

lemma label_walk:
  assumes "\<And>n c. child_of (up n) c = child_of n c" and "\<And>n. node_label (up n) = node_label n"
    and "\<And>n c. child_of (f n) c = child_of n c"
  shows "label_at q (walk_update up f p n) =
     (if q = p then map_option (\<lambda>m. node_label (f m)) (node_at p n) else label_at q n)"
proof (induction p arbitrary: q n)
  case Nil
  then show ?case by (cases q) (simp_all add: assms(3))
next
  case (Cons c cs)
  then show ?case by (cases q) (auto simp: assms split: option.splits)
qed

lemma label_walk_None:
  assumes "\<And>n c. child_of (up n) c = child_of n c" and "\<And>n. node_label (up n) = node_label n"
    and "\<And>n c. child_of (f n) c = child_of n c"
  shows "label_at q (walk_update up f p n) = None \<longleftrightarrow> label_at q n = None"
  using label_walk [of up f, OF assms, of q p n] by (auto simp: label_at_def)

lemma label_clear_shallow:
  "label_at q (clear_shallow cs n) =
     (if strict_prefix q cs then map_option (\<lambda>_. (None, None)) (label_at q n) else label_at q n)"
proof (induction cs arbitrary: q n)
  case (Cons c cs)
  then show ?case
    by (cases q) (auto simp: Let_def split: option.splits)
qed simp

lemma label_insert:
  assumes "\<And>n c. child_of (up n) c = child_of n c" and "\<And>n. node_label (up n) = node_label n"
    and "\<And>n c. child_of (f n) c = child_of n c"
  shows "label_at q (insert_update up f cs n) =
     (if q = cs then Some (node_label (f (case node_at cs n of None \<Rightarrow> cnode_default | Some m \<Rightarrow> m)))
      else if strict_prefix q cs then Some (case label_at q n of None \<Rightarrow> (None, None) | Some l \<Rightarrow> l)
      else label_at q n)"
proof (induction cs arbitrary: q n)
  case Nil
  then show ?case by (cases q) (simp_all add: assms(3))
next
  case (Cons c cs)
  have default: "node_at q cnode_default = (if q = [] then Some cnode_default else None)"
    "label_at q cnode_default = (if q = [] then Some (None, None) else None)" for q
    by (cases q; simp)+
  show ?case
    by (cases q) (auto simp: assms Cons default strict_prefix_def split: option.splits)
qed

lemma label_remove:
  "r \<noteq> [] \<Longrightarrow> label_at q (walk_update recompute_deepest_inode
      (\<lambda>n. recompute_deepest_inode (remove_child (last r) n)) (butlast r) n) =
     (if prefix r q then None else label_at q n)"
proof (induction r arbitrary: q n)
  case (Cons c cs)
  show ?case
  proof (cases "cs = []")
    case True
    then show ?thesis by (cases q) auto
  next
    case False
    with Cons.IH show ?thesis by (cases q) (auto split: option.splits)
  qed
qed simp

section \<open>The world the cache describes\<close>

datatype world_entry = EInode index_node_id | ETerminal path_resolve_terminal_value

type_synonym world = "index_node_id \<times> string \<Rightarrow> world_entry option"

text \<open>\<open>walk_to W root q ids\<close>: the inodes met on the path \<open>q\<close>, the root first.\<close>

definition walk_to :: "world \<Rightarrow> index_node_id \<Rightarrow> string list \<Rightarrow> index_node_id list \<Rightarrow> bool" where
  "walk_to W root q ids \<longleftrightarrow> length ids = length q + 1 \<and> ids ! 0 = root \<and>
     (\<forall>i < length q. W (ids ! i, q ! i) = Some (EInode (ids ! (i + 1))))"

text \<open>An inode is reached by one path only.\<close>

definition tree_world :: "world \<Rightarrow> index_node_id \<Rightarrow> bool" where
  "tree_world W root \<longleftrightarrow> (\<forall>q q' ids ids'. walk_to W root q ids \<longrightarrow> walk_to W root q' ids' \<longrightarrow>
     last ids = last ids' \<longrightarrow> q = q')"

type_synonym edge_index = "index_node_id \<times> string \<Rightarrow> string list option"

definition covered :: "edge_index \<Rightarrow> string list \<Rightarrow> index_node_id list \<Rightarrow> bool" where
  "covered ix q ids \<longleftrightarrow> (\<forall>i < length q. ix (ids ! i, q ! i) = Some (take (i + 1) q))"

fun right :: "world \<Rightarrow> index_node_id \<Rightarrow> edge_index \<Rightarrow> path_assertion" where
  "right W root ix q (InodeIds ids) \<longleftrightarrow> walk_to W root q ids \<and> covered ix q ids"
| "right W root ix q (TerminalVal t) \<longleftrightarrow> q \<noteq> [] \<and> (\<exists>ps. walk_to W root (butlast q) ps \<and>
     W (last ps, last q) = Some (ETerminal t) \<and> covered ix q ps)"

lemma walk_to_take:
  "walk_to W root q ids \<Longrightarrow> j \<le> length q \<Longrightarrow> walk_to W root (take j q) (take (j + 1) ids)"
  by (auto simp: walk_to_def)

lemma walk_to_last: "walk_to W root q ids \<Longrightarrow> last ids = ids ! length q"
  by (auto simp: walk_to_def last_conv_nth simp flip: length_greater_0_conv)

lemma walk_to_cong:
  assumes "walk_to W root q ids"
    and "\<And>j. j < length q \<Longrightarrow> walk_to W root (take j q) (take (j + 1) ids) \<Longrightarrow> W' (ids ! j, q ! j) = W (ids ! j, q ! j)"
  shows "walk_to W' root q ids"
proof -
  have "W' (ids ! j, q ! j) = W (ids ! j, q ! j)" if "j < length q" for j
    using assms(2) [OF that walk_to_take [OF assms(1)]] that by simp
  with assms(1) show ?thesis by (simp add: walk_to_def)
qed

text \<open>A resolution depends only on the edges it walks.\<close>

lemma right_cong:
  assumes r: "right W root ix q v"
    and same: "\<And>j ps. j < length q \<Longrightarrow> walk_to W root (take j q) (take (j + 1) ps) \<Longrightarrow>
       ix (ps ! j, q ! j) = Some (take (j + 1) q) \<Longrightarrow>
       W' (ps ! j, q ! j) = W (ps ! j, q ! j) \<and> ix' (ps ! j, q ! j) = Some (take (j + 1) q)"
  shows "right W' root ix' q v"
proof (cases v)
  case (InodeIds ids)
  with r have w: "walk_to W root q ids" and c: "covered ix q ids" by simp_all
  have "W' (ids ! j, q ! j) = W (ids ! j, q ! j) \<and> ix' (ids ! j, q ! j) = Some (take (j + 1) q)"
    if "j < length q" for j
    using same [OF that walk_to_take [OF w]] c that by (simp add: covered_def)
  with w c show ?thesis by (auto simp: InodeIds walk_to_def covered_def)
next
  case (TerminalVal t)
  with r obtain ps where q: "q \<noteq> []" and w: "walk_to W root (butlast q) ps"
    and t: "W (last ps, last q) = Some (ETerminal t)" and c: "covered ix q ps" by auto
  have len: "length ps = length q" using w q by (simp add: walk_to_def)
  have eq: "W' (ps ! j, q ! j) = W (ps ! j, q ! j) \<and> ix' (ps ! j, q ! j) = Some (take (j + 1) q)"
    if j: "j < length q" for j
  proof (rule same [OF j])
    have "walk_to W root (take j (butlast q)) (take (j + 1) ps)"
      by (rule walk_to_take [OF w]) (use j in simp)
    then show "walk_to W root (take j q) (take (j + 1) ps)"
      using j by (simp add: take_butlast)
  qed (use c j in \<open>simp add: covered_def\<close>)
  have "walk_to W' root (butlast q) ps"
    using w eq by (auto simp: walk_to_def nth_butlast)
  moreover have "W' (last ps, last q) = Some (ETerminal t)"
  proof -
    have "last ps = ps ! (length q - 1)" "last q = q ! (length q - 1)"
      using q len by (metis last_conv_nth list.size(3) length_0_conv, simp add: last_conv_nth)
    with eq [of "length q - 1"] t q show ?thesis by simp
  qed
  moreover have "covered ix' q ps" using eq by (simp add: covered_def)
  ultimately show ?thesis using q by (auto simp: TerminalVal)
qed

section \<open>Soundness of the cached paths\<close>

text \<open>Every cached path is right and indexed, and the index leads to existing nodes.\<close>

definition cache_sound :: "world \<Rightarrow> index_node_id \<Rightarrow> path_resolve_cache \<Rightarrow> bool" where
  "cache_sound W root c \<longleftrightarrow>
     node_ok (right W root (pc_edge_index c)) [] (pc_root c) \<and>
     (\<forall>k r. pc_edge_index c k = Some r \<longrightarrow> label_at r (pc_root c) \<noteq> None)"

lemma cache_soundI:
  assumes "node_ok (right W root (pc_edge_index c)) [] (pc_root c)"
    and "\<And>k r. pc_edge_index c k = Some r \<Longrightarrow> label_at r (pc_root c) \<noteq> None"
  shows "cache_sound W root c"
  using assms by (simp add: cache_sound_def)

lemma cache_sound_new: "cache_sound W root (path_cache_new mx)"
  by (simp add: cache_sound_def path_cache_new_def)

lemma drop_lru_simps [simp]:
  "pc_root (drop_lru i c) = pc_root c" "pc_edge_index (drop_lru i c) = pc_edge_index c"
  "pc_next_entry_id (drop_lru i c) = pc_next_entry_id c" "pc_max_entries (drop_lru i c) = pc_max_entries c"
  by (simp_all add: drop_lru_def)

lemma fold_drop_lru_simps [simp]:
  "pc_root (fold drop_lru is c) = pc_root c" "pc_edge_index (fold drop_lru is c) = pc_edge_index c"
  "pc_next_entry_id (fold drop_lru is c) = pc_next_entry_id c"
  "pc_max_entries (fold drop_lru is c) = pc_max_entries c"
  by (induction "is" arbitrary: c) simp_all

lemma refresh_sound: "cache_sound W root c \<Longrightarrow> cache_sound W root (refresh_lru_for_path p i c)"
  by (simp add: refresh_lru_for_path_def cache_sound_def label_walk_None walk_keep_ok set_entry_ok
      del: not_None_eq split: option.splits)

lemma clear_shallow_sound:
  "cache_sound W root c \<Longrightarrow> cache_sound W root (clear_shallow_values_on_path p c)"
  by (auto simp: clear_shallow_values_on_path_def cache_sound_def label_clear_shallow intro!: clear_shallow_ok)

text \<open>The index after an insertion.\<close>

lemma index_edges_cases:
  "(index_edges q ps ix k = ix k \<and> (\<forall>i < length q. k \<noteq> (ps ! i, q ! i))) \<or>
   (\<exists>i < length q. k = (ps ! i, q ! i) \<and> index_edges q ps ix k = Some (take (i + 1) q))"
proof -
  have "(fold (\<lambda>i m. m((ps ! i, q ! i) \<mapsto> take (i + 1) q)) is ix k = ix k \<and> (\<forall>i \<in> set is. k \<noteq> (ps ! i, q ! i))) \<or>
     (\<exists>i \<in> set is. k = (ps ! i, q ! i) \<and>
        fold (\<lambda>i m. m((ps ! i, q ! i) \<mapsto> take (i + 1) q)) is ix k = Some (take (i + 1) q))" for "is"
    by (induction "is" rule: rev_induct) auto
  from this [of "[0..<length q]"] show ?thesis
    unfolding index_edges_def by auto
qed

lemma index_edges_known:
  assumes tree: "tree_world W root"
    and new: "\<And>i. i < length comps \<Longrightarrow> walk_to W root (take i comps) (take (i + 1) ids)"
    and old: "walk_to W root (take j q) (take (j + 1) ps)" "j < length q"
    and known: "ix (ps ! j, q ! j) = Some (take (j + 1) q) \<or> (q = comps \<and> ps = ids)"
  shows "index_edges comps ids ix (ps ! j, q ! j) = Some (take (j + 1) q)"
  using index_edges_cases [of comps ids ix "(ps ! j, q ! j)"]
proof
  assume "index_edges comps ids ix (ps ! j, q ! j) = ix (ps ! j, q ! j) \<and>
    (\<forall>i < length comps. (ps ! j, q ! j) \<noteq> (ids ! i, comps ! i))"
  with known old(2) show ?thesis by auto
next
  assume "\<exists>i < length comps. (ps ! j, q ! j) = (ids ! i, comps ! i) \<and>
    index_edges comps ids ix (ps ! j, q ! j) = Some (take (i + 1) comps)"
  then obtain i where i: "i < length comps" "ps ! j = ids ! i" "q ! j = comps ! i"
    and ix: "index_edges comps ids ix (ps ! j, q ! j) = Some (take (i + 1) comps)" by auto
  have "last (take (j + 1) ps) = ps ! j"
    using walk_to_last [OF old(1)] old(2) by simp
  moreover have "last (take (i + 1) ids) = ids ! i"
    using walk_to_last [OF new [OF i(1)]] i(1) by simp
  ultimately have eq: "take j q = take i comps"
    using tree old(1) new [OF i(1)] i(2) unfolding tree_world_def by metis
  then have "j = i" using i(1) old(2) by (metis length_take min.absorb4 less_imp_le)
  with eq i old(2) have "take (i + 1) comps = take (j + 1) q"
    by (simp add: take_Suc_conv_app_nth)
  with ix show ?thesis by simp
qed

lemma right_index_edges:
  assumes "tree_world W root"
    and "\<And>i. i < length comps \<Longrightarrow> walk_to W root (take i comps) (take (i + 1) ids)"
    and "right W root ix q v"
  shows "right W root (index_edges comps ids ix) q v"
  by (rule right_cong [OF assms(3)]) (use index_edges_known [OF assms(1,2)] in blast)

lemma covered_index_edges:
  assumes "tree_world W root"
    and "\<And>i. i < length comps \<Longrightarrow> walk_to W root (take i comps) (take (i + 1) ids)"
  shows "covered (index_edges comps ids ix) comps ids"
  unfolding covered_def using index_edges_known [OF assms _ _ disjI2] assms(2) by blast

text \<open>Insertion without eviction.\<close>

definition has_room :: "string list \<Rightarrow> path_resolve_cache \<Rightarrow> bool" where
  "has_room components c \<longleftrightarrow> is_new_entry components c \<longrightarrow> pc_entry_count c < pc_max_entries c"

lemma make_room_id: "has_room components c \<Longrightarrow> make_room components c = c"
  by (auto simp: has_room_def make_room_def)

lemma enter_path_sound:
  assumes c: "cache_sound W root c" and tree: "tree_world W root"
    and new: "\<And>i. i < length comps \<Longrightarrow> walk_to W root (take i comps) (take (i + 1) ids)"
    and up: "\<And>p n A. prefix p comps \<Longrightarrow> A = right W root (index_edges comps ids (pc_edge_index c)) \<Longrightarrow>
               node_ok A p n \<Longrightarrow> node_ok A p (up n)"
      "\<And>n k. child_of (up n) k = child_of n k" "\<And>n. node_label (up n) = node_label n"
    and f: "\<And>e n A. A = right W root (index_edges comps ids (pc_edge_index c)) \<Longrightarrow>
               node_ok A comps n \<Longrightarrow> node_ok A comps (up (f e n))"
      "\<And>e n k. child_of (f e n) k = child_of n k"
    and c': "c' = enter_path comps f up c"
  shows "cache_sound W root (c'\<lparr>pc_edge_index := index_edges comps ids (pc_edge_index c')\<rparr>)"
proof (rule cache_soundI)
  let ?A = "right W root (index_edges comps ids (pc_edge_index c))"
  let ?f = "\<lambda>n. up (f (pc_next_entry_id c) n)"
  have ix: "pc_edge_index c' = pc_edge_index c"
    and root: "pc_root c' = insert_update up ?f comps (pc_root c)"
    by (auto simp: c' enter_path_def Let_def split: option.splits)
  have "node_ok ?A [] (pc_root c)"
    by (rule node_ok_mono [of "right W root (pc_edge_index c)"])
      (use c right_index_edges [OF tree new] in \<open>auto simp: cache_sound_def\<close>)
  then have "node_ok ?A [] (pc_root c')"
    unfolding root by (intro insert_ok) (use up(1) f(1) in auto)
  then show "node_ok (right W root (pc_edge_index (c'\<lparr>pc_edge_index := index_edges comps ids (pc_edge_index c')\<rparr>))) []
      (pc_root (c'\<lparr>pc_edge_index := index_edges comps ids (pc_edge_index c')\<rparr>))"
    by (simp add: ix)
  fix k r
  assume "pc_edge_index (c'\<lparr>pc_edge_index := index_edges comps ids (pc_edge_index c')\<rparr>) k = Some r"
  then have "index_edges comps ids (pc_edge_index c) k = Some r" by (simp add: ix)
  with index_edges_cases [of comps ids "pc_edge_index c" k]
  have "pc_edge_index c k = Some r \<or> prefix r comps" by (auto simp: take_is_prefix)
  then have "label_at r (pc_root c) \<noteq> None \<or> prefix r comps"
    using c unfolding cache_sound_def by blast
  moreover have "label_at r (pc_root c') = (if r = comps then Some (node_label (?f (case node_at comps (pc_root c) of None \<Rightarrow> cnode_default | Some m \<Rightarrow> m)))
      else if strict_prefix r comps then Some (case label_at r (pc_root c) of None \<Rightarrow> (None, None) | Some l \<Rightarrow> l)
      else label_at r (pc_root c))"
    unfolding root by (rule label_insert) (simp_all add: up f)
  ultimately show "label_at r (pc_root (c'\<lparr>pc_edge_index := index_edges comps ids (pc_edge_index c')\<rparr>)) \<noteq> None"
    by (auto simp: strict_prefix_def)
qed

lemma put_ids_sound:
  assumes c: "cache_sound W root c" and tree: "tree_world W root" and w: "walk_to W root comps ids"
    and room: "has_room comps c"
  shows "cache_sound W root (put_ids_for_path comps ids c)"
proof -
  let ?c = "clear_shallow_values_on_path comps c"
  let ?A = "right W root (index_edges comps ids (pc_edge_index ?c))"
  note new = walk_to_take [OF w less_imp_le]
  have A: "?A comps (InodeIds ids)"
    using w covered_index_edges [OF tree new] by simp
  have len: "length ids = length comps + 1" using w by (simp add: walk_to_def)
  have set: "node_ok ?A comps (CNode (cn_children n) (Some (InodeIds ids)) (Some ids) (Some e))"
    if "node_ok ?A comps n" for n e
    using that A by (cases n) (auto simp: deep_ok_def)
  from enter_path_sound [OF clear_shallow_sound [OF c] tree new, where up = "raise_deepest ids"
      and f = "\<lambda>e n. CNode (cn_children n) (Some (InodeIds ids)) (Some ids) (Some e)", OF _ _ _ _ _ _ refl]
  show ?thesis
    using raise_deepest_ok [where A = ?A and q = comps and ids = ids] set A
    by (simp add: put_ids_for_path_def len make_room_id [OF room] Let_def)
qed

lemma put_terminal_sound:
  assumes c: "cache_sound W root c" and tree: "tree_world W root"
    and q: "comps \<noteq> []" and w: "walk_to W root (butlast comps) ps"
    and t: "W (last ps, last comps) = Some (ETerminal t)"
    and room: "has_room comps c"
  shows "cache_sound W root (put_terminal_for_path comps ps t c)"
proof -
  let ?c = "clear_shallow_values_on_path comps c"
  let ?A = "right W root (index_edges comps ps (pc_edge_index ?c))"
  have new: "walk_to W root (take i comps) (take (i + 1) ps)" if "i < length comps" for i
    using walk_to_take [OF w, of i] that by (simp add: take_butlast)
  have A: "?A comps (TerminalVal t)"
    using w q t covered_index_edges [OF tree new] by auto
  have len: "length ps = length comps" using w q by (simp add: walk_to_def)
  have set: "body_ok ?A comps (CNode (cn_children n) (Some (TerminalVal t)) (cn_deepest n) (Some e))"
    if "node_ok ?A comps n" for n e
    using that A by (auto simp: node_ok_iff [of _ comps] body_ok_def)
  from enter_path_sound [OF clear_shallow_sound [OF c, of comps] tree new, where up = recompute_deepest_inode
      and f = "\<lambda>e n. CNode (cn_children n) (Some (TerminalVal t)) (cn_deepest n) (Some e)", OF _ _ _ _ _ _ refl]
  show ?thesis
    using recompute_keeps_ok recompute_ok [OF set]
    by (simp add: put_terminal_for_path_def len make_room_id [OF room] Let_def)
qed

text \<open>A change of one edge, followed by its invalidation.\<close>

lemma take_eq_prefix: "take (length r) q = r \<longleftrightarrow> prefix r q"
  by (metis append_eq_conv_conj prefix_def)

lemma invalidate_prefix_simps:
  assumes "r \<noteq> []" and "label_at r (pc_root c) \<noteq> None"
  shows "pc_root (invalidate_prefix r c) = walk_update recompute_deepest_inode
      (\<lambda>n. recompute_deepest_inode (remove_child (last r) n)) (butlast r) (pc_root c)"
    and "pc_edge_index (invalidate_prefix r c) = retain_edges (\<lambda>p. \<not> prefix r p) (pc_edge_index c)"
    and "node_at (butlast r) (pc_root c) \<noteq> None"
proof -
  have split: "node_at (p @ s) n = Option.bind (node_at p n) (node_at s)" for p s n
    by (induction p arbitrary: n) (auto split: option.splits)
  from assms(2) show parent: "node_at (butlast r) (pc_root c) \<noteq> None"
    using split [of "butlast r" "[last r]" "pc_root c"] assms(1)
    by (cases "node_at (butlast r) (pc_root c)") (simp_all add: label_at_def)
  then show "pc_root (invalidate_prefix r c) = walk_update recompute_deepest_inode
      (\<lambda>n. recompute_deepest_inode (remove_child (last r) n)) (butlast r) (pc_root c)"
    and "pc_edge_index (invalidate_prefix r c) = retain_edges (\<lambda>p. \<not> prefix r p) (pc_edge_index c)"
    using assms(1) by (auto simp: invalidate_prefix_def Let_def take_eq_prefix)
qed

lemma retain_edges_Some [simp]: "retain_edges keep ix k = Some r \<longleftrightarrow> ix k = Some r \<and> keep r"
  by (auto simp: retain_edges_def split: option.splits)

lemma invalidate_sound:
  assumes c: "cache_sound W root c" and same: "\<And>k. k \<noteq> (a, x) \<Longrightarrow> W' k = W k"
  shows "cache_sound W' root (invalidate_by_edge a x c)"
proof (cases "pc_edge_index c (a, x)")
  case None
  have "right W' root (pc_edge_index c) q v" if "right W root (pc_edge_index c) q v" for q v
    by (rule right_cong [OF that]) (use None same in \<open>metis option.distinct(1)\<close>)
  with c show ?thesis
    using node_ok_mono [of "right W root (pc_edge_index c)"] by (simp add: invalidate_by_edge_def None cache_sound_def)
next
  case (Some r)
  let ?c = "invalidate_prefix r c"
  show ?thesis
  proof (cases "r = []")
    case True
    then show ?thesis by (simp add: invalidate_by_edge_def Some cache_sound_def invalidate_prefix_def)
  next
    case False
    have lab: "label_at r (pc_root c) \<noteq> None"
      using c Some unfolding cache_sound_def by blast
    note inv = invalidate_prefix_simps [OF False lab]
    have keep: "right W' root (pc_edge_index ?c) q v"
      if "right W root (pc_edge_index c) q v" "\<not> prefix r q" for q v
    proof (rule right_cong [OF that(1)])
      fix j ps
      assume ix: "pc_edge_index c (ps ! j, q ! j) = Some (take (j + 1) q)"
      have "\<not> prefix r (take (j + 1) q)"
        using that(2) prefix_order.trans [OF _ take_is_prefix] by blast
      moreover have "(ps ! j, q ! j) \<noteq> (a, x)"
        using ix Some calculation by auto
      ultimately show "W' (ps ! j, q ! j) = W (ps ! j, q ! j) \<and>
          pc_edge_index ?c (ps ! j, q ! j) = Some (take (j + 1) q)"
        using ix same by (simp add: inv(2))
    qed
    have "node_ok (right W root (pc_edge_index c)) [] (pc_root c)"
      using c by (simp add: cache_sound_def)
    from remove_prefix_ok [OF this False inv(3)]
    have "node_ok (right W' root (pc_edge_index ?c)) [] (pc_root ?c)"
      unfolding inv(1) by (rule node_ok_mono) (use keep in auto)
    moreover have "label_at p (pc_root ?c) \<noteq> None" if "pc_edge_index ?c k = Some p" for k p
    proof -
      from that have p: "pc_edge_index c k = Some p" "\<not> prefix r p" by (simp_all add: inv(2))
      with c have "label_at p (pc_root c) \<noteq> None" unfolding cache_sound_def by blast
      with p(2) show ?thesis unfolding inv(1) label_remove [OF False] by simp
    qed
    ultimately show ?thesis by (simp add: invalidate_by_edge_def Some cache_soundI)
  qed
qed

text \<open>Edges that did not exist before are on no cached path, so they may appear without an invalidation.\<close>

lemma cache_sound_extend:
  assumes "cache_sound W root c" and "\<And>k. W k \<noteq> None \<Longrightarrow> W' k = W k"
  shows "cache_sound W' root c"
proof -
  have walk: "walk_to W' root q ids" if "walk_to W root q ids" for q ids
    using that assms(2) by (simp add: walk_to_def)
  have edge: "W' k = Some e" if "W k = Some e" for k e
    using that assms(2) by simp
  have "right W' root (pc_edge_index c) q v" if "right W root (pc_edge_index c) q v" for q v
    using that walk edge by (cases v) (simp, auto, metis)
  then show ?thesis
    using assms(1) node_ok_mono [of "right W root (pc_edge_index c)"] by (simp add: cache_sound_def)
qed

lemma invalidate_all_sound:
  assumes "cache_sound W root c" and "\<And>k. k \<notin> set es \<Longrightarrow> W k \<noteq> None \<Longrightarrow> W' k = W k"
  shows "cache_sound W' root (fold (\<lambda>(p, n). invalidate_by_edge p n) es c)"
  using assms
proof (induction es arbitrary: W c)
  case Nil
  then show ?case using cache_sound_extend [of W root c W'] by simp
next
  case (Cons e es)
  obtain p n where e: "e = (p, n)" by (cases e)
  have "cache_sound (W(e := W' e)) root (invalidate_by_edge p n c)"
    by (rule invalidate_sound [OF Cons.prems(1)]) (simp add: e)
  then have "cache_sound W' root (fold (\<lambda>(p, n). invalidate_by_edge p n) es (invalidate_by_edge p n c))"
  proof (rule Cons.IH)
    fix k
    assume "k \<notin> set es" and "(W(e := W' e)) k \<noteq> None"
    then show "W' k = (W(e := W' e)) k" using Cons.prems(2) [of k] by (cases "k = e") simp_all
  qed
  then show ?case by (simp add: e)
qed

section \<open>Histories of the cache\<close>

inductive cache_run :: "index_node_id \<Rightarrow> nat \<Rightarrow> world \<Rightarrow> path_resolve_cache \<Rightarrow> bool" for root mx where
  start: "cache_run root mx W (path_cache_new mx)"
| get_ids: "cache_run root mx W c \<Longrightarrow> cache_run root mx W (snd (get_ids_for_path comps c))"
| get_terminal: "cache_run root mx W c \<Longrightarrow> cache_run root mx W (snd (get_terminal_for_path comps c))"
| put_ids: "cache_run root mx W c \<Longrightarrow> tree_world W root \<Longrightarrow> walk_to W root comps ids \<Longrightarrow> has_room comps c \<Longrightarrow>
    cache_run root mx W (put_ids_for_path comps ids c)"
| put_terminal: "cache_run root mx W c \<Longrightarrow> tree_world W root \<Longrightarrow> walk_to W root (butlast comps) ps \<Longrightarrow> comps \<noteq> [] \<Longrightarrow>
    W (last ps, last comps) = Some (ETerminal t) \<Longrightarrow> has_room comps c \<Longrightarrow>
    cache_run root mx W (put_terminal_for_path comps ps t c)"
| change: "cache_run root mx W c \<Longrightarrow> cache_run root mx (W((parent, name) := e)) (invalidate_by_edge parent name c)"

lemma cache_run_sound: "cache_run root mx W c \<Longrightarrow> cache_sound W root c"
proof (induction rule: cache_run.induct)
  case (start W)
  show ?case by (rule cache_sound_new)
next
  case (get_ids W c comps)
  then show ?case
    by (auto simp: get_ids_for_path_def split: option.splits intro: refresh_sound)
next
  case (get_terminal W c comps)
  then show ?case
    by (auto simp: get_terminal_for_path_def split: option.splits intro: refresh_sound)
next
  case (put_ids W c comps ids)
  then show ?case by (simp add: put_ids_sound)
next
  case (put_terminal W c comps ps t)
  then show ?case by (simp add: put_terminal_sound)
next
  case (change W c parent name e)
  from change.IH show ?case by (rule invalidate_sound) simp
qed

section \<open>Answers that are right now\<close>

text \<open>What the answers of the cache need is less than what invalidation needs: every cached path is right in
  the world, whether or not the index still leads to it.  Eviction keeps this.\<close>

fun true_now :: "world \<Rightarrow> index_node_id \<Rightarrow> path_assertion" where
  "true_now W root q (InodeIds ids) \<longleftrightarrow> walk_to W root q ids"
| "true_now W root q (TerminalVal t) \<longleftrightarrow> q \<noteq> [] \<and> (\<exists>ps. walk_to W root (butlast q) ps \<and>
     W (last ps, last q) = Some (ETerminal t))"

definition cache_true :: "world \<Rightarrow> index_node_id \<Rightarrow> path_resolve_cache \<Rightarrow> bool" where
  "cache_true W root c \<longleftrightarrow> node_ok (true_now W root) [] (pc_root c)"

lemma right_true: "right W root ix q v \<Longrightarrow> true_now W root q v"
  by (cases v) auto

lemma cache_sound_true: "cache_sound W root c \<Longrightarrow> cache_true W root c"
  unfolding cache_sound_def cache_true_def using node_ok_mono right_true by blast

lemma true_prefix_ids:
  assumes "true_now W root q (InodeIds v)" and "prefix p q"
  shows "walk_to W root p (take (length p + 1) v)"
proof -
  from assms(2) obtain s where q: "q = p @ s" by (auto simp: prefix_def)
  from assms(1) have "walk_to W root q v" by simp
  from walk_to_take [OF this, of "length p"] show ?thesis by (simp add: q)
qed

lemma longest_prefix_true:
  assumes "node_ok (true_now W root) p n" and "length p = depth"
    and "\<And>d v. best = Some (d, v) \<Longrightarrow> d \<le> depth \<and> walk_to W root (take d p) (take (d + 1) v)"
    and "longest_prefix depth best n cs = Some (d, v)"
  shows "d \<le> depth + length cs \<and> walk_to W root (take d (p @ cs)) (take (d + 1) v)"
  using assms
proof (induction cs arbitrary: p depth best n)
  case Nil
  then show ?case by simp
next
  case (Cons c cs)
  show ?case
  proof (cases "child_of n c")
    case None
    with Cons.prems(3,4) Cons.prems(2) show ?thesis by fastforce
  next
    case (Some m)
    let ?best = "case node_ids m of Some v \<Rightarrow> if length v \<ge> depth + 1 + 1 then Some (depth + 1, v) else best | None \<Rightarrow> best"
    have m: "node_ok (true_now W root) (p @ [c]) m"
      by (rule node_ok_child [OF Cons.prems(1) Some])
    have best: "d \<le> depth + 1 \<and> walk_to W root (take d (p @ [c])) (take (d + 1) v)" if "?best = Some (d, v)" for d v
    proof (cases "best = Some (d, v)")
      case True
      from Cons.prems(3) [OF this] Cons.prems(2) show ?thesis by simp
    next
      case False
      with that have "node_ids m = Some v" "d = depth + 1" by (auto split: option.splits if_splits)
      with node_ids_ok [OF m] true_prefix_ids [of W root] Cons.prems(2) show ?thesis by fastforce
    qed
    have "longest_prefix (depth + 1) ?best m cs = Some (d, v)"
      using Cons.prems(4) by (simp add: Some)
    from Cons.IH [OF m _ best this] show ?thesis using Cons.prems(2) by simp
  qed
qed

lemma terminal_on_path_true:
  assumes "node_ok (true_now W root) p n" and "terminal_on_path p n cs = Some (q, t, e)"
  shows "prefix q (p @ cs) \<and> true_now W root q (TerminalVal t)"
  using assms
proof (induction cs arbitrary: p n)
  case (Cons c cs)
  from Cons.prems(2) obtain m where m: "child_of n c = Some m"
    by (auto split: option.splits)
  have ok: "node_ok (true_now W root) (p @ [c]) m"
    by (rule node_ok_child [OF Cons.prems(1) m])
  show ?case
  proof (cases "Option.bind (cn_value m) value_terminal")
    case None
    with Cons.prems(2) m Cons.IH [OF ok] show ?thesis by simp
  next
    case (Some t')
    with Cons.prems(2) m have "q = p @ [c]" "t = t'" by simp_all
    moreover from Some have "cn_value m = Some (TerminalVal t')"
      by (auto split: bind_splits elim!: value_terminal.elims)
    ultimately show ?thesis
      using ok by (auto simp: node_ok_iff [of _ "p @ [c]"] body_ok_def)
  qed
qed simp

lemma true_prefix:
  assumes "cache_true W root c" and "get_longest_prefix_ids_for_path comps c = Some ids"
  shows "walk_to W root (take (length ids - 1) comps) ids \<and> length ids \<le> length comps + 1"
proof -
  let ?best = "case node_ids (pc_root c) of Some v \<Rightarrow> if v \<noteq> [] then Some (0, v) else None | None \<Rightarrow> None"
  from assms(2) obtain d v where lp: "longest_prefix 0 ?best (pc_root c) comps = Some (d, v)"
    and ids: "ids = take (d + 1) v"
    by (auto simp: get_longest_prefix_ids_for_path_def)
  have ok: "node_ok (true_now W root) [] (pc_root c)"
    using assms(1) by (simp add: cache_true_def)
  have "d' \<le> 0 \<and> walk_to W root (take d' []) (take (d' + 1) v')" if "?best = Some (d', v')" for d' v'
    using that node_ids_ok [OF ok] true_prefix_ids [of W root _ v' "[]"]
    by (fastforce split: option.splits if_splits)
  from longest_prefix_true [OF ok _ this lp]
  have d: "d \<le> length comps" and w: "walk_to W root (take d comps) ids"
    by (simp_all add: ids)
  then have "length ids = d + 1" by (simp add: walk_to_def)
  with w d show ?thesis by simp
qed

lemma true_terminal:
  assumes "cache_true W root c" and "fst (get_terminal_for_path comps c) = Some hit"
  obtains ps where "0 < hit_matched_len hit" "hit_matched_len hit \<le> length comps"
    "walk_to W root (take (hit_matched_len hit - 1) comps) ps"
    "W (last ps, comps ! (hit_matched_len hit - 1)) = Some (ETerminal (hit_value hit))"
proof -
  from assms(2) obtain q e where tp: "terminal_on_path [] (pc_root c) comps = Some (q, hit_value hit, e)"
    and len: "hit_matched_len hit = length q"
    by (auto simp: get_terminal_for_path_def split: option.splits)
  have "node_ok (true_now W root) [] (pc_root c)" using assms(1) by (simp add: cache_true_def)
  from terminal_on_path_true [OF this tp] obtain ps where
    q: "prefix q comps" "q \<noteq> []" and w: "walk_to W root (butlast q) ps"
    and t: "W (last ps, last q) = Some (ETerminal (hit_value hit))" by auto
  from q obtain s where s: "comps = q @ s" by (auto simp: prefix_def)
  have "take (length q - 1) comps = butlast q" "comps ! (length q - 1) = last q"
    using q(2) by (simp_all add: s butlast_conv_take nth_append last_conv_nth)
  with that [of ps] w t len q s show ?thesis by simp
qed

text \<open>Every operation of the cache keeps its answers right, evicting or not.\<close>

lemma refresh_true: "cache_true W root c \<Longrightarrow> cache_true W root (refresh_lru_for_path p i c)"
  by (simp add: refresh_lru_for_path_def cache_true_def walk_keep_ok set_entry_ok split: option.splits)

lemma get_terminal_true: "cache_true W root c \<Longrightarrow> cache_true W root (snd (get_terminal_for_path comps c))"
  by (auto simp: get_terminal_for_path_def split: option.splits intro: refresh_true)

lemma clear_shallow_true: "cache_true W root c \<Longrightarrow> cache_true W root (clear_shallow_values_on_path p c)"
  by (auto simp: clear_shallow_values_on_path_def cache_true_def intro!: clear_shallow_ok)

lemma clear_value_ok: "node_ok A p n \<Longrightarrow> node_ok A p (recompute_deepest_inode (clear_value n))"
  by (rule recompute_keeps_ok) (cases n; simp add: clear_value_def)

lemma walk_recompute_ok:
  assumes "\<And>p n. node_ok A p n \<Longrightarrow> node_ok A p (f n)" and "node_ok A p n"
  shows "node_ok A p (walk_update recompute_deepest_inode f cs n)"
  using assms(2)
proof (induction cs arbitrary: p n)
  case (Cons c cs)
  then show ?case
    by (auto split: option.splits intro!: recompute_keeps_ok node_ok_set_child dest: node_ok_child)
qed (simp add: assms(1))

lemma make_room_true: "cache_true W root c \<Longrightarrow> cache_true W root (make_room p c)"
  by (auto simp: make_room_def evict_lru_def remove_single_entry_def cache_true_def Let_def
      intro!: clear_value_ok walk_recompute_ok split: option.splits)

lemma put_ids_true:
  assumes "cache_true W root c" and w: "walk_to W root comps ids"
  shows "cache_true W root (put_ids_for_path comps ids c)"
proof -
  let ?A = "true_now W root" and ?c = "clear_shallow_values_on_path comps (make_room comps c)"
  have "node_ok ?A [] (pc_root ?c)"
    using clear_shallow_true [OF make_room_true [OF assms(1)]] by (simp add: cache_true_def)
  moreover have "node_ok ?A comps (raise_deepest ids (CNode (cn_children n) (Some (InodeIds ids)) (Some ids) e))"
    if "node_ok ?A comps n" for n e
    by (rule raise_deepest_ok [of _ _ _ comps]) (use that w in \<open>cases n; auto simp: deep_ok_def\<close>)+
  moreover have "node_ok ?A p (raise_deepest ids n)" if "prefix p comps" "node_ok ?A p n" for p n
    using raise_deepest_ok [OF that(2,1)] w by simp
  ultimately show ?thesis
    using assms(1) by (auto simp: put_ids_for_path_def enter_path_def cache_true_def Let_def intro!: insert_ok
        split: option.splits)
qed

lemma put_terminal_true:
  assumes "cache_true W root c" and "comps \<noteq> []" and "walk_to W root (butlast comps) ps"
    and "W (last ps, last comps) = Some (ETerminal t)"
  shows "cache_true W root (put_terminal_for_path comps ps t c)"
proof -
  let ?A = "true_now W root" and ?c = "clear_shallow_values_on_path comps (make_room comps c)"
  have "node_ok ?A [] (pc_root ?c)"
    using clear_shallow_true [OF make_room_true [OF assms(1)]] by (simp add: cache_true_def)
  moreover have "node_ok ?A comps (recompute_deepest_inode (CNode (cn_children n) (Some (TerminalVal t)) (cn_deepest n) e))"
    if "node_ok ?A comps n" for n e
    by (rule recompute_ok) (use that assms in \<open>auto simp: node_ok_iff [of _ comps] body_ok_def\<close>)
  ultimately show ?thesis
    using assms(1) by (auto simp: put_terminal_for_path_def enter_path_def cache_true_def Let_def
        intro!: insert_ok recompute_keeps_ok split: option.splits)
qed

section \<open>The answers of the cache\<close>

text \<open>\<^bold>\<open>C8.\<close> 
  As long as no insertion evicts, the path cache is not stale: after any history of insertions of current paths
  into a cache with room for them, look-ups, and changes of the world followed by the invalidation of the changed
  edges, the ids that \<open>get_longest_prefix_ids_for_path\<close> returns are the inodes on the corresponding prefix
  of the queried path in the current world.  An eviction can break this (\<open>eviction_leaves_stale_path\<close>).
\<close>

theorem cached_prefix_is_current:
  assumes "cache_run root mx W c" and "get_longest_prefix_ids_for_path comps c = Some ids"
  shows "walk_to W root (take (length ids - 1) comps) ids"
  using true_prefix [OF cache_sound_true [OF cache_run_sound [OF assms(1)]] assms(2)] by blast

text \<open>
  The object or symbolic link that \<open>get_terminal_for_path\<close> returns is what the current world has at the
  matched prefix of the queried path.
\<close>

theorem cached_terminal_is_current:
  assumes "cache_run root mx W c" and "fst (get_terminal_for_path comps c) = Some hit"
  shows "\<exists>ps. walk_to W root (take (hit_matched_len hit - 1) comps) ps \<and>
    W (last ps, comps ! (hit_matched_len hit - 1)) = Some (ETerminal (hit_value hit))"
  using true_terminal [OF cache_sound_true [OF cache_run_sound [OF assms(1)]] assms(2)] by blast

text \<open>A world with one directory, and the cache of its resolutions.\<close>

definition demo_world :: world where
  "demo_world = (\<lambda>_. None)((1, ''a'') \<mapsto> EInode 2, (2, ''f'') \<mapsto> ETerminal (PtSymLink ''t''))"

lemma demo_walks: "walk_to demo_world 1 q ids \<Longrightarrow> (q = [] \<and> ids = [1]) \<or> (q = [''a''] \<and> ids = [1, 2])"
proof (induction q arbitrary: ids rule: rev_induct)
  case Nil
  then show ?case by (auto simp: walk_to_def length_Suc_conv)
next
  case (snoc x xs)
  from walk_to_take [OF snoc.prems, of "length xs"]
  have w: "walk_to demo_world 1 xs (take (length xs + 1) ids)" by simp
  from snoc.prems have "demo_world (ids ! length xs, x) = Some (EInode (ids ! (length xs + 1)))"
    and len: "length ids = length xs + 2"
    by (auto simp: walk_to_def)
  then have step: "ids ! length xs = 1" "x = ''a''" "ids ! (length xs + 1) = 2"
    by (auto simp: demo_world_def split: if_splits)
  from snoc.IH [OF w] step(1) have xs: "xs = []"
    by (auto simp: nth_append dest: arg_cong [where f = "\<lambda>l. l ! 1"])
  with step len show ?case by (auto simp: length_Suc_conv numeral_2_eq_2)
qed

lemma demo_tree: "tree_world demo_world 1"
  unfolding tree_world_def by (auto dest!: demo_walks)

definition demo_cache :: path_resolve_cache where
  "demo_cache = put_ids_for_path [''a''] [1, 2] (put_terminal_for_path [''a'', ''f''] [1, 2] (PtSymLink ''t'') (path_cache_new 2))"

lemma demo_run: "cache_run 1 2 demo_world demo_cache"
proof -
  let ?c = "put_terminal_for_path [''a'', ''f''] [1, 2] (PtSymLink ''t'') (path_cache_new 2)"
  have "cache_run 1 2 demo_world ?c"
  proof (rule cache_run.put_terminal [OF cache_run.start demo_tree])
    show "has_room [''a'', ''f''] (path_cache_new 2)" by code_simp
  qed (simp_all add: walk_to_def demo_world_def)
  then show ?thesis
    unfolding demo_cache_def
  proof (rule cache_run.put_ids [OF _ demo_tree])
    show "has_room [''a''] ?c" by code_simp
  qed (simp add: walk_to_def demo_world_def)
qed

theorem cached_prefix_is_current_witness:
  "cache_run 1 2 demo_world demo_cache \<and> get_longest_prefix_ids_for_path [''a'', ''g''] demo_cache = Some [1, 2] \<and>
   walk_to demo_world 1 [''a''] [1, 2]"
proof -
  have "get_longest_prefix_ids_for_path [''a'', ''g''] demo_cache = Some [1, 2]" by code_simp
  with cached_prefix_is_current [OF demo_run this] demo_run show ?thesis by simp
qed

theorem cached_terminal_is_current_witness:
  "fst (get_terminal_for_path [''a'', ''f'', ''x''] demo_cache) = Some \<lparr>hit_matched_len = 2, hit_value = PtSymLink ''t''\<rparr> \<and>
   (\<exists>ps. walk_to demo_world 1 [''a''] ps \<and> demo_world (last ps, ''f'') = Some (ETerminal (PtSymLink ''t'')))"
proof -
  have "fst (get_terminal_for_path [''a'', ''f'', ''x''] demo_cache) = Some \<lparr>hit_matched_len = 2, hit_value = PtSymLink ''t''\<rparr>"
    by code_simp
  with cached_terminal_is_current [OF demo_run this] show ?thesis by simp
qed

text \<open>
  Eviction breaks the correspondence.  The cache holds the symbolic link \<open>/a/f\<close> and, inserted
  later but used less recently, the directory \<open>/a\<close>.  When the insertion of \<open>/b\<close> evicts \<open>/a\<close>, the index entry of the
  edge from the root to \<open>a\<close> goes with it although \<open>/a/f\<close> stays: removing \<open>a\<close> from the root, followed by
  the invalidation of that edge, leaves \<open>/a/f\<close> in the cache.
\<close>

theorem eviction_leaves_stale_path:
  "fst (get_terminal_for_path [''a'', ''f'']
     (invalidate_by_edge 1 ''a''
       (put_ids_for_path [''b''] [1, 3]
         (snd (get_terminal_for_path [''a'', ''f''] demo_cache))))) =
   Some \<lparr>hit_matched_len = 2, hit_value = PtSymLink ''t''\<rparr>"
  by code_simp

end
