(* ===== verification/Path_Cache_Lru.thy ===== *)
theory Path_Cache_Lru
  imports Path_Cache_Props
begin

text \<open>
  The access order of the path cache agrees with its trie: every node with a value has an entry id,
  \<open>lru_map\<close> has exactly these ids, each with the path of its node, and \<open>entry_count\<close> is their
  number.  All operations keep this, eviction included, so the number of cached paths stays within
  the capacity after any sequence of operations.
\<close>

section \<open>Entry ids of paths\<close>

definition entry_at :: "path_resolve_cache_node \<Rightarrow> string list \<Rightarrow> nat option" where
  "entry_at n q = Option.bind (label_at q n) snd"

definition value_at :: "path_resolve_cache_node \<Rightarrow> string list \<Rightarrow> path_resolve_cache_value option" where
  "value_at n q = Option.bind (label_at q n) fst"

definition unique_ids :: "(string list \<Rightarrow> nat option) \<Rightarrow> bool" where
  "unique_ids E \<longleftrightarrow> (\<forall>p q i. E p = Some i \<longrightarrow> E q = Some i \<longrightarrow> p = q)"

lemma entry_at_Nil [simp]: "entry_at n [] = cn_entry_id n"
  by (simp add: entry_at_def node_label_def)

lemma entry_at_Cons [simp]:
  "entry_at n (c # q) = (case child_of n c of None \<Rightarrow> None | Some m \<Rightarrow> entry_at m q)"
  by (simp add: entry_at_def split: option.splits)

lemma unique_ids_child: "unique_ids (entry_at n) \<Longrightarrow> child_of n c = Some m \<Longrightarrow> unique_ids (entry_at m)"
proof -
  assume u: "unique_ids (entry_at n)" and m: "child_of n c = Some m"
  have "p = q" if "entry_at m p = Some i" "entry_at m q = Some i" for p q i
  proof -
    from that m have "entry_at n (c # p) = Some i" "entry_at n (c # q) = Some i" by simp_all
    with u have "c # p = c # q" unfolding unique_ids_def by blast
    then show ?thesis by simp
  qed
  then show ?thesis by (auto simp: unique_ids_def)
qed

lemma set_shallow_entry_ids:
  "set (shallow_entry_ids cs n) = {i. \<exists>q. strict_prefix q cs \<and> entry_at n q = Some i}"
proof (induction cs arbitrary: n)
  case (Cons c cs)
  have split: "(\<exists>q. strict_prefix q (c # cs) \<and> P q) \<longleftrightarrow> P [] \<or> (\<exists>q. strict_prefix q cs \<and> P (c # q))" for P
    by (metis (no_types, lifting) Nil_prefix list.distinct(1) strict_prefix_def prefix_Cons
        list.inject)
  show ?case
    unfolding split by (cases "child_of n c"; cases "cn_entry_id n") (auto simp: Cons)
qed simp

lemma distinct_shallow_entry_ids:
  "unique_ids (entry_at n) \<Longrightarrow> distinct (shallow_entry_ids cs n)"
proof (induction cs arbitrary: n)
  case (Cons c cs)
  have "i \<notin> set (shallow_entry_ids cs m)" if "child_of n c = Some m" "cn_entry_id n = Some i" for i m
  proof
    assume "i \<in> set (shallow_entry_ids cs m)"
    then obtain q where "entry_at m q = Some i" by (auto simp: set_shallow_entry_ids)
    then have "entry_at n (c # q) = Some i" by (simp add: that)
    moreover have "entry_at n [] = Some i" by (simp add: that)
    ultimately show False using Cons.prems unfolding unique_ids_def by blast
  qed
  with Cons show ?case by (auto split: option.splits dest: unique_ids_child)
qed simp

abbreviation wf_node :: "path_resolve_cache_node \<Rightarrow> bool" where
  "wf_node n \<equiv> node_ok (\<lambda>_ _. True) [] n"

lemma wf_node_any: "node_ok (\<lambda>_ _. True) p n = node_ok (\<lambda>_ _. True) q n"
proof (induction n arbitrary: p q)
  case (CNode ch v d e)
  have "node_ok (\<lambda>_ _. True) (p @ [c]) m = node_ok (\<lambda>_ _. True) (q @ [c]) m" if "(c, m) \<in> set ch" for c m
    using CNode [OF that] by auto
  then show ?case by (auto simp: deep_ok_def)
qed

lemma wf_node_children:
  assumes "wf_node n" and "(c, m) \<in> set (cn_children n)"
  shows "wf_node m" and "child_of n c = Some m"
proof -
  from assms have "node_ok (\<lambda>_ _. True) ([] @ [c]) m" "distinct (map fst (cn_children n))"
    by (auto simp: node_ok_iff [of _ "[]"] body_ok_def)
  then show "wf_node m" "child_of n c = Some m"
    using assms(2) wf_node_any by (auto simp: child_of_def)
qed

lemma set_collect_entry_ids:
  "wf_node n \<Longrightarrow> set (collect_entry_ids n) = {i. \<exists>q. entry_at n q = Some i}"
proof (induction n)
  case (CNode ch v d e)
  let ?n = "CNode ch v d e"
  have sub: "set (collect_entry_ids m) = {i. \<exists>q. entry_at m q = Some i}" "child_of ?n c = Some m" if "(c, m) \<in> set ch" for c m
    using CNode.IH [OF that] wf_node_children [OF CNode.prems, of c m] that by auto
  have "(\<exists>q. entry_at ?n q = Some i) \<longleftrightarrow> e = Some i \<or> (\<exists>(c, m) \<in> set ch. \<exists>q. entry_at m q = Some i)" for i
  proof
    assume "\<exists>q. entry_at ?n q = Some i"
    then obtain q where q: "entry_at ?n q = Some i" ..
    then show "e = Some i \<or> (\<exists>(c, m) \<in> set ch. \<exists>q. entry_at m q = Some i)"
      by (cases q) (force split: option.splits dest: child_ofD)+
  next
    assume "e = Some i \<or> (\<exists>(c, m) \<in> set ch. \<exists>q. entry_at m q = Some i)"
    then show "\<exists>q. entry_at ?n q = Some i"
    proof
      assume "e = Some i"
      then show ?thesis by (intro exI [of _ "[]"]) simp
    next
      assume "\<exists>(c, m) \<in> set ch. \<exists>q. entry_at m q = Some i"
      then obtain c m q where m: "(c, m) \<in> set ch" "entry_at m q = Some i" by auto
      then show ?thesis using sub(2) [OF m(1)] by (intro exI [of _ "c # q"]) simp
    qed
  qed
  then show ?case
    using sub(1) by (auto split: option.splits) blast+
qed

lemma distinct_concat_children:
  assumes "distinct (map fst ch)" and "\<And>c m. (c, m) \<in> set ch \<Longrightarrow> distinct (g m)"
    and "\<And>c m c' m' i. (c, m) \<in> set ch \<Longrightarrow> (c', m') \<in> set ch \<Longrightarrow> i \<in> set (g m) \<Longrightarrow> i \<in> set (g m') \<Longrightarrow> c = c'"
  shows "distinct (concat (map (\<lambda>(_, m). g m) ch))"
  using assms
proof (induction ch)
  case (Cons a ch)
  obtain c m where a: "a = (c, m)" by (cases a)
  have "i \<notin> set (g m')" if "(c', m') \<in> set ch" "i \<in> set (g m)" for c' m' i
  proof
    assume "i \<in> set (g m')"
    with Cons.prems(3) [of c m c' m' i] that have "c = c'" by (simp add: a)
    with Cons.prems(1) that(1) show False by (auto simp: a rev_image_eqI)
  qed
  moreover have "distinct (concat (map (\<lambda>(_, m). g m) ch))"
  proof (rule Cons.IH)
    show "distinct (map fst ch)" using Cons.prems(1) by simp
  qed (meson Cons.prems(2,3) list.set_intros(2))+
  moreover have "distinct (g m)" using Cons.prems(2) [of c m] by (simp add: a)
  ultimately show ?case by (auto simp: a)
qed simp

lemma distinct_collect_entry_ids:
  "wf_node n \<Longrightarrow> unique_ids (entry_at n) \<Longrightarrow> distinct (collect_entry_ids n)"
proof (induction n)
  case (CNode ch v d e)
  let ?n = "CNode ch v d e"
  have sub: "wf_node m" "child_of ?n c = Some m" "unique_ids (entry_at m)" if "(c, m) \<in> set ch" for c m
    using wf_node_children [OF CNode.prems(1), of c m] that unique_ids_child [OF CNode.prems(2)] by auto
  have path: "\<exists>q. entry_at ?n (c # q) = Some i" if "(c, m) \<in> set ch" "i \<in> set (collect_entry_ids m)" for c m i
    using that sub [OF that(1)] by (auto simp: set_collect_entry_ids)
  have uniq: "p = q" if "entry_at ?n p = Some i" "entry_at ?n q = Some i" for p q i
    using CNode.prems(2) that unfolding unique_ids_def by blast
  have "distinct (concat (map (\<lambda>(_, m). collect_entry_ids m) ch))"
  proof (rule distinct_concat_children)
    show "distinct (map fst ch)" using CNode.prems(1) by simp
    show "distinct (collect_entry_ids m)" if "(c, m) \<in> set ch" for c m
      using CNode.IH that sub [OF that] by auto
    show "c = c'" if m: "(c, m) \<in> set ch" "(c', m') \<in> set ch" "i \<in> set (collect_entry_ids m)" "i \<in> set (collect_entry_ids m')"
      for c m c' m' i
      using path [OF m(1,3)] path [OF m(2,4)] uniq by blast
  qed
  moreover have "i \<notin> set (collect_entry_ids m)" if "e = Some i" "(c, m) \<in> set ch" for i c m
  proof
    assume "i \<in> set (collect_entry_ids m)"
    from path [OF that(2) this] obtain q where "entry_at ?n (c # q) = Some i" ..
    moreover have "entry_at ?n [] = Some i" by (simp add: that(1))
    ultimately show False using uniq by blast
  qed
  ultimately show ?case by (cases e) auto
qed

section \<open>The access order\<close>

definition lru_sync :: "(nat \<times> string list) list \<Rightarrow> nat \<Rightarrow> (string list \<Rightarrow> nat option) \<Rightarrow> bool" where
  "lru_sync lru cnt E \<longleftrightarrow> distinct (map fst lru) \<and> cnt = length lru \<and> (\<forall>i p. map_of lru i = Some p \<longleftrightarrow> E p = Some i)"

lemma lru_sync_unique: "lru_sync lru cnt E \<Longrightarrow> unique_ids E"
  unfolding lru_sync_def unique_ids_def by (metis option.inject)

lemma lru_sync_ids: "lru_sync lru cnt E \<Longrightarrow> fst ` set lru = {i. \<exists>p. E p = Some i}"
  unfolding lru_sync_def dom_map_of_conv_image_fst [symmetric] dom_def by auto

lemma fold_delete_filter: "fold AList.delete is lru = filter (\<lambda>x. fst x \<notin> set is) lru"
  by (induction "is" arbitrary: lru) (auto simp: AList.delete_eq intro: filter_cong)

lemma lru_sync_drop:
  assumes s: "lru_sync lru cnt E" and d: "distinct is" and ids: "set is = {i. \<exists>p \<in> P. E p = Some i}"
  shows "lru_sync (fold AList.delete is lru) (cnt - length is) (\<lambda>p. if p \<in> P then None else E p)"
proof -
  have dl: "distinct (map fst lru)" and cnt: "cnt = length lru"
    and m: "\<And>i p. map_of lru i = Some p \<longleftrightarrow> E p = Some i" using s by (auto simp: lru_sync_def)
  have sub: "set is \<subseteq> fst ` set lru" using ids lru_sync_ids [OF s] by auto
  have mf: "map_of (filter (\<lambda>x. fst x \<notin> set is) lru) i = (if i \<in> set is then None else map_of lru i)" for i
    by (induction lru) auto
  have "length (filter (\<lambda>x. fst x \<notin> set is) lru) = card (fst ` set lru - set is)"
  proof -
    have "fst ` set (filter (\<lambda>x. fst x \<notin> set is) lru) = fst ` set lru - set is" by auto
    moreover have "distinct (map fst (filter (\<lambda>x. fst x \<notin> set is) lru))" using dl by (rule distinct_map_filter)
    ultimately show ?thesis by (metis distinct_card length_map set_map)
  qed
  also have "\<dots> = card (fst ` set lru) - card (set is)" using sub by (simp add: card_Diff_subset)
  also have "\<dots> = cnt - length is" using dl d cnt by (metis distinct_card length_map set_map)
  finally have len: "cnt - length is = length (filter (\<lambda>x. fst x \<notin> set is) lru)" ..
  have "(if i \<in> set is then None else map_of lru i) = Some p \<longleftrightarrow> (if p \<in> P then None else E p) = Some i" for i p
    using m [of i p] ids lru_sync_unique [OF s] unfolding unique_ids_def by auto
  with dl len show ?thesis
    by (simp add: lru_sync_def fold_delete_filter mf distinct_map_filter)
qed

lemma lru_sync_drop1:
  assumes "lru_sync lru cnt E" and "E p = Some i"
  shows "lru_sync (AList.delete i lru) (cnt - 1) (E(p := None))"
proof -
  have "lru_sync (fold AList.delete [i] lru) (cnt - length [i]) (\<lambda>q. if q \<in> {p} then None else E q)"
    by (rule lru_sync_drop [OF assms(1)]) (use assms(2) in auto)
  moreover have "(\<lambda>q. if q \<in> {p} then None else E q) = E(p := None)" by auto
  ultimately show ?thesis by simp
qed

lemma alist_update_keys: "fst ` set (AList.update k v al) = insert k (fst ` set al)"
  by (induction al) auto

lemma lru_sync_add:
  assumes "lru_sync lru cnt E" and "i \<notin> fst ` set lru" and "E p = None"
  shows "lru_sync (AList.update i p lru) (cnt + 1) (E(p \<mapsto> i))"
proof -
  have "E q \<noteq> Some i" for q
    using assms(1,2) lru_sync_ids by blast
  moreover have "length (AList.update i p lru) = length lru + 1"
    using assms(2) by (induction lru) auto
  ultimately show ?thesis
    using assms(1,3) by (auto simp: lru_sync_def update_conv' distinct_update)
qed

text \<open>The invariant of the cache.\<close>

definition lru_ok :: "path_resolve_cache \<Rightarrow> bool" where
  "lru_ok c \<longleftrightarrow> wf_node (pc_root c) \<and>
     lru_sync (pc_lru_map c) (pc_entry_count c) (entry_at (pc_root c)) \<and>
     (\<forall>i \<in> fst ` set (pc_lru_map c). i < pc_next_entry_id c) \<and>
     (\<forall>q. value_at (pc_root c) q = None \<longleftrightarrow> entry_at (pc_root c) q = None)"

lemma lru_ok_new: "lru_ok (path_cache_new mx)"
proof -
  have "label_at q cnode_default = (if q = [] then Some (None, None) else None)" for q
    by (cases q) simp_all
  then show ?thesis
    by (auto simp: lru_ok_def path_cache_new_def lru_sync_def entry_at_def value_at_def)
qed

lemma value_at_walk:
  assumes "\<And>n c. child_of (up n) c = child_of n c" and "\<And>n. node_label (up n) = node_label n"
    and "\<And>n c. child_of (f n) c = child_of n c" and "node_at p n = Some m"
  shows "entry_at (walk_update up f p n) = (entry_at n)(p := snd (node_label (f m)))"
    and "value_at (walk_update up f p n) = (value_at n)(p := fst (node_label (f m)))"
  using label_walk [of up f, OF assms(1-3), of _ p n] assms(4)
  by (auto simp: entry_at_def value_at_def fun_eq_iff)

lemma lru_ok_refresh:
  assumes c: "lru_ok c" and m: "node_at p (pc_root c) = Some m" and i: "cn_entry_id m = Some i"
  shows "lru_ok (refresh_lru_for_path p i c)" and "pc_entry_count (refresh_lru_for_path p i c) = pc_entry_count c"
proof -
  let ?E = "entry_at (pc_root c)" and ?j = "pc_next_entry_id c"
  have sync: "lru_sync (pc_lru_map c) (pc_entry_count c) ?E" and lt: "\<forall>i \<in> fst ` set (pc_lru_map c). i < ?j"
    using c by (simp_all add: lru_ok_def)
  have e: "?E p = Some i" using m i by (simp add: entry_at_def label_at_def node_label_def)
  then have lp: "map_of (pc_lru_map c) i = Some p" using sync by (simp add: lru_sync_def)
  then have pos: "0 < pc_entry_count c" using sync by (auto simp: lru_sync_def)
  have v: "value_at (pc_root c) p = cn_value m" using m by (simp add: value_at_def label_at_def node_label_def)
  have ne: "cn_value m \<noteq> None" using c e v unfolding lru_ok_def by (metis option.distinct(1))
  note w = value_at_walk [where up = "\<lambda>n. n" and f = "set_entry (Some ?j)", OF refl refl _ m]
  have fresh: "?j \<notin> fst ` set (AList.delete i (pc_lru_map c))"
    using lt by (auto simp: AList.delete_eq)
  have "lru_sync (AList.update ?j p (AList.delete i (pc_lru_map c))) (pc_entry_count c - 1 + 1) ((?E(p := None))(p \<mapsto> ?j))"
    by (rule lru_sync_add [OF lru_sync_drop1 [OF sync e] fresh]) simp
  then have "lru_sync (AList.update ?j p (AList.delete i (pc_lru_map c))) (pc_entry_count c) (?E(p \<mapsto> ?j))"
    using pos by simp
  moreover have "k < ?j + 1" if "k \<in> fst ` set (AList.update ?j p (AList.delete i (pc_lru_map c)))" for k
    using that lt by (auto simp: alist_update_keys AList.delete_eq)
  moreover have "wf_node (walk_update (\<lambda>n. n) (set_entry (Some ?j)) p (pc_root c))"
    using c by (intro walk_keep_ok set_entry_ok) (simp_all add: lru_ok_def)
  ultimately show "lru_ok (refresh_lru_for_path p i c)"
    using c ne v by (auto simp: lru_ok_def refresh_lru_for_path_def lp w)
  show "pc_entry_count (refresh_lru_for_path p i c) = pc_entry_count c"
    by (simp add: refresh_lru_for_path_def lp)
qed

text \<open>Dropping entries.\<close>

lemma fold_drop_lru:
  "pc_lru_map (fold drop_lru is c) = fold AList.delete is (pc_lru_map c)"
  "pc_entry_count (fold drop_lru is c) = pc_entry_count c - length is"
  by (induction "is" arbitrary: c) (simp_all add: drop_lru_def)

lemma fst_fold_delete: "fst ` set (fold AList.delete is lru) \<subseteq> fst ` set lru"
  by (auto simp: fold_delete_filter)

lemma lru_ok_dropped:
  assumes c: "lru_ok c" and d: "distinct is" and ids: "set is = {i. \<exists>p \<in> P. entry_at (pc_root c) p = Some i}"
    and E: "entry_at n = (\<lambda>p. if p \<in> P then None else entry_at (pc_root c) p)"
    and V: "value_at n = (\<lambda>p. if p \<in> P then None else value_at (pc_root c) p)" and wf: "wf_node n"
  shows "lru_ok ((fold drop_lru is c)\<lparr>pc_root := n\<rparr>)"
proof -
  have "lru_sync (fold AList.delete is (pc_lru_map c)) (pc_entry_count c - length is) (entry_at n)"
    unfolding E by (rule lru_sync_drop [OF _ d ids]) (use c in \<open>simp add: lru_ok_def\<close>)
  then show ?thesis
    using c wf V E by (auto simp: lru_ok_def fold_drop_lru dest!: subsetD [OF fst_fold_delete, OF imageI])
qed

lemma lru_ok_clear_shallow:
  assumes c: "lru_ok c"
  shows "lru_ok (clear_shallow_values_on_path p c)"
proof -
  let ?n = "clear_shallow p (pc_root c)"
  have u: "unique_ids (entry_at (pc_root c))" using c lru_sync_unique by (auto simp: lru_ok_def)
  have "lru_ok ((fold drop_lru (shallow_entry_ids p (pc_root c)) c)\<lparr>pc_root := ?n\<rparr>)"
  proof (rule lru_ok_dropped [OF c distinct_shallow_entry_ids [OF u], where P = "{q. strict_prefix q p}"])
    show "set (shallow_entry_ids p (pc_root c)) = {i. \<exists>q \<in> {q. strict_prefix q p}. entry_at (pc_root c) q = Some i}"
      by (simp add: set_shallow_entry_ids)
    show "entry_at ?n = (\<lambda>q. if q \<in> {q. strict_prefix q p} then None else entry_at (pc_root c) q)"
      and "value_at ?n = (\<lambda>q. if q \<in> {q. strict_prefix q p} then None else value_at (pc_root c) q)"
      by (auto simp: entry_at_def value_at_def label_clear_shallow fun_eq_iff map_option_case split: option.splits)
    show "wf_node ?n" by (rule clear_shallow_ok) (use c in \<open>simp add: lru_ok_def\<close>)
  qed
  moreover have "clear_shallow_values_on_path p c = (fold drop_lru (shallow_entry_ids p (pc_root c)) c)\<lparr>pc_root := ?n\<rparr>"
  proof -
    have "drop_lru i (c\<lparr>pc_root := n\<rparr>) = (drop_lru i c)\<lparr>pc_root := n\<rparr>" for i n c
      by (simp add: drop_lru_def)
    then have "fold drop_lru is (c\<lparr>pc_root := n\<rparr>) = (fold drop_lru is c)\<lparr>pc_root := n\<rparr>" for "is" n c
      by (induction "is" arbitrary: c) simp_all
    then show ?thesis by (simp add: clear_shallow_values_on_path_def)
  qed
  ultimately show ?thesis by simp
qed

lemma count_clear_shallow: "pc_entry_count (clear_shallow_values_on_path p c) \<le> pc_entry_count c"
  by (simp add: clear_shallow_values_on_path_def fold_drop_lru)

lemma walk_recompute_wf:
  assumes "\<And>n. wf_node n \<Longrightarrow> wf_node (f n)" and "wf_node n"
  shows "wf_node (walk_update recompute_deepest_inode f cs n)"
  using assms(2)
proof (induction cs arbitrary: n)
  case (Cons c cs)
  show ?case
  proof (cases "child_of n c")
    case (Some m)
    from Cons.prems Some have "wf_node m" by (blast intro: wf_node_children child_ofD)
    then have "node_ok (\<lambda>_ _. True) ([] @ [c]) (walk_update recompute_deepest_inode f cs m)"
      using Cons.IH wf_node_any by blast
    from recompute_keeps_ok [OF node_ok_set_child [OF Cons.prems this]] show ?thesis by (simp add: Some)
  qed (use Cons.prems in simp)
qed (simp add: assms(1))

lemma lru_ok_remove_single:
  assumes c: "lru_ok c" and e: "entry_at (pc_root c) p = Some i"
  shows "lru_ok (remove_single_entry p (drop_lru i c))"
proof -
  let ?f = "\<lambda>n. recompute_deepest_inode (clear_value n)"
  let ?n = "walk_update recompute_deepest_inode ?f p (pc_root c)"
  from e obtain m where m: "node_at p (pc_root c) = Some m"
    by (auto simp: entry_at_def label_at_def split: bind_splits)
  have w: "entry_at ?n = (entry_at (pc_root c))(p := None)" "value_at ?n = (value_at (pc_root c))(p := None)"
    using value_at_walk [where up = recompute_deepest_inode and f = ?f, OF _ _ _ m]
    by (simp_all add: clear_value_def)
  have "wf_node ?n"
  proof (rule walk_recompute_wf)
    show "wf_node (?f n)" if "wf_node n" for n
      using that by (intro recompute_ok) (simp add: node_ok_iff [of _ "[]" n] body_ok_def clear_value_def)
  qed (use c in \<open>simp add: lru_ok_def\<close>)
  then have ok: "lru_ok ((fold drop_lru [i] c)\<lparr>pc_root := ?n\<rparr>)"
    by (intro lru_ok_dropped [OF c, where P = "{p}"]) (use w e in \<open>auto simp: fun_eq_iff\<close>)
  have edges: "lru_ok (c\<lparr>pc_edge_index := x\<rparr>) = lru_ok c" for c x by (simp add: lru_ok_def)
  have "remove_single_entry p (drop_lru i c) =
      (if p = [] then (drop_lru i c)\<lparr>pc_root := ?n\<rparr>
       else ((drop_lru i c)\<lparr>pc_root := ?n\<rparr>)\<lparr>pc_edge_index := retain_edges (\<lambda>comps. comps \<noteq> p) (pc_edge_index c)\<rparr>)"
    by (simp add: remove_single_entry_def m)
  with ok show ?thesis by (cases p) (simp_all add: edges)
qed

lemma lru_ok_evict:
  assumes c: "lru_ok c" and ne: "0 < pc_entry_count c"
  shows "lru_ok (evict_lru c)" and "pc_entry_count (evict_lru c) = pc_entry_count c - 1"
    and "pc_max_entries (evict_lru c) = pc_max_entries c"
proof -
  let ?o = "Min (fst ` set (pc_lru_map c))"
  have sync: "lru_sync (pc_lru_map c) (pc_entry_count c) (entry_at (pc_root c))" using c by (simp add: lru_ok_def)
  with ne have nil: "pc_lru_map c \<noteq> []" by (auto simp: lru_sync_def)
  then have "?o \<in> fst ` set (pc_lru_map c)" by (intro Min_in) auto
  then obtain p where p: "map_of (pc_lru_map c) ?o = Some p"
    by (metis domD dom_map_of_conv_image_fst)
  with sync have e: "entry_at (pc_root c) p = Some ?o" by (simp add: lru_sync_def)
  have ev: "evict_lru c = remove_single_entry p (drop_lru ?o c)"
    using nil p by (simp add: evict_lru_def Let_def)
  show "lru_ok (evict_lru c)" unfolding ev by (rule lru_ok_remove_single [OF c e])
  show "pc_entry_count (evict_lru c) = pc_entry_count c - 1"
    and "pc_max_entries (evict_lru c) = pc_max_entries c"
    unfolding ev by (simp_all add: remove_single_entry_def drop_lru_def)
qed

text \<open>Insertion.\<close>

lemma insert_wf:
  assumes "\<And>p n. node_ok (\<lambda>_ _. True) p n \<Longrightarrow> node_ok (\<lambda>_ _. True) p (up n)"
    and "\<And>p n. node_ok (\<lambda>_ _. True) p n \<Longrightarrow> node_ok (\<lambda>_ _. True) p (f n)" and "wf_node n"
  shows "wf_node (insert_update up f cs n)"
  by (rule insert_ok) (use assms in auto)

lemma lru_ok_enter:
  assumes c: "lru_ok c"
    and up: "\<And>p n. node_ok (\<lambda>_ _. True) p n \<Longrightarrow> node_ok (\<lambda>_ _. True) p (up n)"
      "\<And>n k. child_of (up n) k = child_of n k" "\<And>n. node_label (up n) = node_label n"
    and f: "\<And>p n e. node_ok (\<lambda>_ _. True) p n \<Longrightarrow> node_ok (\<lambda>_ _. True) p (f e n)"
      "\<And>e n k. child_of (f e n) k = child_of n k" "\<And>e n. node_label (f e n) = (Some x, Some e)"
  shows "lru_ok (enter_path comps f up c)"
    and "pc_entry_count (enter_path comps f up c) =
      (if entry_at (pc_root c) comps = None then pc_entry_count c + 1 else pc_entry_count c)"
    and "pc_max_entries (enter_path comps f up c) = pc_max_entries c"
proof -
  let ?j = "pc_next_entry_id c" and ?E = "entry_at (pc_root c)"
  let ?f = "\<lambda>n. up (f ?j n)"
  let ?n = "insert_update up ?f comps (pc_root c)"
  let ?c1 = "case ?E comps of Some old \<Rightarrow> drop_lru old c | None \<Rightarrow> c"
  have sync: "lru_sync (pc_lru_map c) (pc_entry_count c) ?E" and lt: "\<forall>i \<in> fst ` set (pc_lru_map c). i < ?j"
    and vals: "\<And>q. value_at (pc_root c) q = None \<longleftrightarrow> ?E q = None"
    using c by (simp_all add: lru_ok_def)
  have eq: "enter_path comps f up c = ?c1\<lparr>pc_root := ?n, pc_next_entry_id := ?j + 1,
      pc_lru_map := AList.update ?j comps (pc_lru_map ?c1), pc_entry_count := pc_entry_count ?c1 + 1\<rparr>"
  proof -
    have "Option.bind (node_at comps (pc_root c)) cn_entry_id = ?E comps"
      by (cases "node_at comps (pc_root c)") (simp_all add: entry_at_def label_at_def node_label_def)
    then show ?thesis by (simp add: enter_path_def Let_def split: option.splits)
  qed
  have lab: "label_at q ?n = (if q = comps then Some (Some x, Some ?j)
      else if strict_prefix q comps then Some (case label_at q (pc_root c) of None \<Rightarrow> (None, None) | Some l \<Rightarrow> l)
      else label_at q (pc_root c))" for q
    using label_insert [of up ?f q comps "pc_root c"] up f by simp
  have E: "entry_at ?n = ?E(comps \<mapsto> ?j)" and V: "value_at ?n = (value_at (pc_root c))(comps \<mapsto> x)"
    by (auto simp: entry_at_def value_at_def lab fun_eq_iff split: option.splits)
  have c1: "lru_sync (pc_lru_map ?c1) (pc_entry_count ?c1) (?E(comps := None))"
  proof (cases "?E comps")
    case None
    then have "?E(comps := None) = ?E" by (simp add: fun_upd_idem)
    with None sync show ?thesis by simp
  next
    case (Some i)
    with lru_sync_drop1 [OF sync Some] show ?thesis by (simp add: drop_lru_def)
  qed
  have sub: "fst ` set (pc_lru_map ?c1) \<subseteq> fst ` set (pc_lru_map c)"
    by (auto simp: drop_lru_def AList.delete_eq split: option.splits)
  with lt have "?j \<notin> fst ` set (pc_lru_map ?c1)" by (meson less_irrefl subsetD)
  from lru_sync_add [OF c1 this, of comps] have
    "lru_sync (AList.update ?j comps (pc_lru_map ?c1)) (pc_entry_count ?c1 + 1) (entry_at ?n)" by (simp add: E)
  moreover have "wf_node ?n"
    by (rule insert_wf) (use c up(1) f(1) in \<open>auto simp: lru_ok_def\<close>)
  moreover have "\<forall>i \<in> fst ` set (AList.update ?j comps (pc_lru_map ?c1)). i < ?j + 1"
    unfolding alist_update_keys
  proof
    fix i
    assume "i \<in> insert ?j (fst ` set (pc_lru_map ?c1))"
    then consider "i = ?j" | "i \<in> fst ` set (pc_lru_map c)" using sub by blast
    then show "i < ?j + 1" using lt by cases (simp, fastforce)
  qed
  ultimately show "lru_ok (enter_path comps f up c)"
    unfolding eq using vals by (simp add: lru_ok_def E V)
  have "0 < pc_entry_count c" if "?E comps = Some i" for i
    using that sync by (auto simp: lru_sync_def)
  then show "pc_entry_count (enter_path comps f up c) =
      (if ?E comps = None then pc_entry_count c + 1 else pc_entry_count c)"
    unfolding eq by (auto simp: drop_lru_def split: option.splits)
  show "pc_max_entries (enter_path comps f up c) = pc_max_entries c"
    unfolding eq by (auto split: option.splits)
qed

text \<open>The invariant with the bound on the number of entries.\<close>

definition lru_bounded :: "nat \<Rightarrow> path_resolve_cache \<Rightarrow> bool" where
  "lru_bounded mx c \<longleftrightarrow> lru_ok c \<and> pc_max_entries c = mx \<and> pc_entry_count c \<le> max 1 mx"

lemma make_room_bounded:
  assumes "lru_bounded mx c"
  shows "lru_bounded mx (make_room comps c)"
    and "is_new_entry comps c \<Longrightarrow> pc_entry_count (make_room comps c) + 1 \<le> max 1 mx"
    and "\<not> is_new_entry comps c \<Longrightarrow> make_room comps c = c"
proof -
  have nil: "evict_lru c = c" if "pc_entry_count c = 0"
    using that assms by (auto simp: lru_bounded_def lru_ok_def lru_sync_def evict_lru_def)
  show "lru_bounded mx (make_room comps c)"
    using assms lru_ok_evict [of c] nil
    by (cases "pc_entry_count c = 0") (auto simp: lru_bounded_def make_room_def)
  show "pc_entry_count (make_room comps c) + 1 \<le> max 1 mx" if "is_new_entry comps c"
    using that assms lru_ok_evict [of c] nil
    by (cases "pc_entry_count c = 0") (auto simp: lru_bounded_def make_room_def)
qed (simp add: make_room_def)

lemma is_new_entry_value: "is_new_entry comps c \<longleftrightarrow> value_at (pc_root c) comps = None"
  by (cases "node_at comps (pc_root c)") (simp_all add: is_new_entry_def value_at_def label_at_def node_label_def)

lemma clear_shallow_max: "pc_max_entries (clear_shallow_values_on_path p c) = pc_max_entries c"
  by (simp add: clear_shallow_values_on_path_def)

lemma put_bounded:
  assumes c: "lru_bounded mx c"
    and up: "\<And>p n. node_ok (\<lambda>_ _. True) p n \<Longrightarrow> node_ok (\<lambda>_ _. True) p (up n)"
      "\<And>n k. child_of (up n) k = child_of n k" "\<And>n. node_label (up n) = node_label n"
    and f: "\<And>p n e. node_ok (\<lambda>_ _. True) p n \<Longrightarrow> node_ok (\<lambda>_ _. True) p (f e n)"
      "\<And>e n k. child_of (f e n) k = child_of n k" "\<And>e n. node_label (f e n) = (Some x, Some e)"
    and c': "c' = enter_path comps f up (clear_shallow_values_on_path comps (make_room comps c))"
  shows "lru_bounded mx (c'\<lparr>pc_edge_index := ix\<rparr>)"
proof -
  let ?c1 = "make_room comps c"
  let ?c2 = "clear_shallow_values_on_path comps ?c1"
  note room = make_room_bounded [OF c, of comps]
  have ok2: "lru_ok ?c2" using room(1) lru_ok_clear_shallow by (simp add: lru_bounded_def)
  note enter = lru_ok_enter [where up = up and f = f and comps = comps, OF ok2 up f]
  have "pc_entry_count c' \<le> max 1 mx"
  proof (cases "is_new_entry comps c")
    case True
    with room(2) count_clear_shallow [of comps ?c1] show ?thesis by (simp add: c' enter(2))
  next
    case False
    then have "entry_at (pc_root c) comps \<noteq> None"
      using c by (simp add: is_new_entry_value lru_bounded_def lru_ok_def del: not_None_eq)
    moreover have "entry_at (pc_root (clear_shallow_values_on_path comps c)) comps = entry_at (pc_root c) comps"
      by (simp add: clear_shallow_values_on_path_def entry_at_def label_clear_shallow)
    ultimately have "pc_entry_count c' \<le> pc_entry_count c"
      using count_clear_shallow [of comps c] enter(2) unfolding c' room(3) [OF False] by auto
    with c show ?thesis by (simp add: lru_bounded_def)
  qed
  moreover have "lru_ok (c'\<lparr>pc_edge_index := ix\<rparr>)" using enter(1) by (simp add: c' lru_ok_def)
  moreover have "pc_max_entries c' = mx"
    using room(1) by (simp add: c' enter(3) clear_shallow_max lru_bounded_def)
  ultimately show ?thesis by (simp add: lru_bounded_def)
qed

lemma put_ids_bounded: "lru_bounded mx c \<Longrightarrow> lru_bounded mx (put_ids_for_path comps ids c)"
proof -
  assume c: "lru_bounded mx c"
  have "node_ok (\<lambda>_ _. True) p (CNode (cn_children n) (Some (InodeIds ids)) (Some ids) (Some e))"
    if "node_ok (\<lambda>_ _. True) p n" for p n e
    using that by (cases n) (auto simp: deep_ok_def)
  note set = this
  have "lru_bounded mx (c'\<lparr>pc_edge_index := ix\<rparr>)"
    if "c' = enter_path comps (\<lambda>e n. CNode (cn_children n) (Some (InodeIds ids)) (Some ids) (Some e)) (raise_deepest ids)
      (clear_shallow_values_on_path comps (make_room comps c))" for c' ix
    by (rule put_bounded [OF c _ _ _ set _ _ that, where x = "InodeIds ids"]) (auto intro: raise_deepest_ok)
  then show ?thesis using c by (simp add: put_ids_for_path_def Let_def)
qed

lemma put_terminal_bounded: "lru_bounded mx c \<Longrightarrow> lru_bounded mx (put_terminal_for_path comps ps t c)"
proof -
  assume c: "lru_bounded mx c"
  have "node_ok (\<lambda>_ _. True) p (CNode (cn_children n) (Some (TerminalVal t)) (cn_deepest n) (Some e))"
    if "node_ok (\<lambda>_ _. True) p n" for p n e
    using that by (cases n) auto
  note set = this
  have "lru_bounded mx (c'\<lparr>pc_edge_index := ix\<rparr>)"
    if "c' = enter_path comps (\<lambda>e n. CNode (cn_children n) (Some (TerminalVal t)) (cn_deepest n) (Some e)) recompute_deepest_inode
      (clear_shallow_values_on_path comps (make_room comps c))" for c' ix
    by (rule put_bounded [OF c _ _ _ set _ _ that, where x = "TerminalVal t"]) (simp_all add: recompute_keeps_ok)
  then show ?thesis using c by (simp add: put_terminal_for_path_def Let_def)
qed

text \<open>Invalidation.\<close>

lemma invalidate_prefix_bounded:
  assumes c: "lru_bounded mx c"
  shows "lru_bounded mx (invalidate_prefix r c)"
proof (cases "r = []")
  case True
  have "lru_ok (c\<lparr>pc_root := cnode_default, pc_edge_index := ix, pc_lru_map := [], pc_entry_count := 0\<rparr>)" for ix
    using lru_ok_new [of mx] by (simp add: lru_ok_def path_cache_new_def)
  with c True show ?thesis by (simp add: lru_bounded_def invalidate_prefix_def)
next
  case False
  show ?thesis
  proof (cases "node_at (butlast r) (pc_root c)")
    case None
    with c False show ?thesis by (simp add: invalidate_prefix_def)
  next
    case (Some m)
    let ?ids = "case child_of m (last r) of None \<Rightarrow> [] | Some sub \<Rightarrow> collect_entry_ids sub"
    let ?n = "walk_update recompute_deepest_inode (\<lambda>n. recompute_deepest_inode (remove_child (last r) n)) (butlast r) (pc_root c)"
    have ok: "lru_ok c" and wf: "wf_node (pc_root c)" using c by (simp_all add: lru_bounded_def lru_ok_def)
    have u: "unique_ids (entry_at (pc_root c))" using ok lru_sync_unique by (auto simp: lru_ok_def)
    have at: "node_at (p @ q) n = Option.bind (node_at p n) (node_at q)" for p q n
      by (induction p arbitrary: n) (auto split: option.splits)
    have below: "node_at (r @ q) (pc_root c) = (case child_of m (last r) of None \<Rightarrow> None | Some k \<Rightarrow> node_at q k)" for q
    proof -
      have "r @ q = butlast r @ last r # q" using False by simp
      then have "node_at (r @ q) (pc_root c) = node_at (butlast r @ last r # q) (pc_root c)" by (rule arg_cong)
      also have "\<dots> = (case child_of m (last r) of None \<Rightarrow> None | Some k \<Rightarrow> node_at q k)"
        unfolding at by (simp add: Some)
      finally show ?thesis .
    qed
    then have E: "entry_at (pc_root c) (r @ q) = (case child_of m (last r) of None \<Rightarrow> None | Some k \<Rightarrow> entry_at k q)" for q
      by (simp add: entry_at_def label_at_def split: option.splits)
    have wfm: "wf_node m" using node_ok_at [OF wf Some] wf_node_any by blast
    have ids: "distinct ?ids" "set ?ids = {i. \<exists>p \<in> {p. prefix r p}. entry_at (pc_root c) p = Some i}"
    proof -
      have ids': "set ?ids = {i. \<exists>q. entry_at (pc_root c) (r @ q) = Some i} \<and> distinct ?ids"
      proof (cases "child_of m (last r)")
        case None
        then show ?thesis by (simp add: E)
      next
        case (Some k)
        have "wf_node k" using wf_node_children(1) [OF wfm child_ofD [OF Some]] .
        moreover have "unique_ids (entry_at k)"
          using u E Some unfolding unique_ids_def by (metis option.simps(5) same_append_eq)
        ultimately show ?thesis
          using Some by (simp add: E set_collect_entry_ids distinct_collect_entry_ids)
      qed
      then show "distinct ?ids" "set ?ids = {i. \<exists>p \<in> {p. prefix r p}. entry_at (pc_root c) p = Some i}"
        by (auto simp: prefix_def)
    qed
    have "wf_node ?n"
    proof (rule walk_recompute_wf [OF _ wf])
      show "wf_node (recompute_deepest_inode (remove_child (last r) n))" if "wf_node n" for n
        using that by (intro recompute_ok)
          (auto simp: node_ok_iff [of _ "[]" n] body_ok_def remove_child_def AList.delete_eq distinct_map_filter)
    qed
    then have "lru_ok ((fold drop_lru ?ids c)\<lparr>pc_root := ?n\<rparr>)"
      by (intro lru_ok_dropped [OF ok ids])
        (auto simp: entry_at_def value_at_def label_remove [OF False] fun_eq_iff)
    moreover have "invalidate_prefix r c = ((fold drop_lru ?ids c)\<lparr>pc_root := ?n\<rparr>)\<lparr>pc_edge_index :=
        retain_edges (\<lambda>comps. take (length r) comps \<noteq> r) (pc_edge_index c)\<rparr>"
      by (simp add: invalidate_prefix_def False Some Let_def)
    moreover have "pc_entry_count c - length ?ids \<le> max 1 mx"
      using c unfolding lru_bounded_def by (meson diff_le_self le_trans)
    ultimately show ?thesis using c by (simp add: lru_bounded_def lru_ok_def fold_drop_lru)
  qed
qed

section \<open>Every sequence of operations\<close>

datatype cache_op =
    OpGetIds "string list"
  | OpGetTerminal "string list"
  | OpPutIds "string list" "index_node_id list"
  | OpPutTerminal "string list" "index_node_id list" path_resolve_terminal_value
  | OpInvalidate index_node_id string

fun cache_apply :: "cache_op \<Rightarrow> path_resolve_cache \<Rightarrow> path_resolve_cache" where
  "cache_apply (OpGetIds p) c = snd (get_ids_for_path p c)"
| "cache_apply (OpGetTerminal p) c = snd (get_terminal_for_path p c)"
| "cache_apply (OpPutIds p ids) c = put_ids_for_path p ids c"
| "cache_apply (OpPutTerminal p ps t) c = put_terminal_for_path p ps t c"
| "cache_apply (OpInvalidate a x) c = invalidate_by_edge a x c"

text \<open>The number of nodes that hold a value.\<close>

fun value_count :: "path_resolve_cache_node \<Rightarrow> nat" where
  "value_count (CNode ch v d e) = (if v = None then 0 else 1) + sum_list (map (\<lambda>(_, m). value_count m) ch)"

lemma terminal_on_path_at:
  "terminal_on_path p n cs = Some (q, t, e) \<Longrightarrow> \<exists>r m. q = p @ r \<and> node_at r n = Some m \<and> e = cn_entry_id m"
proof (induction cs arbitrary: p n)
  case (Cons c cs)
  then obtain m where m: "child_of n c = Some m" by (auto split: option.splits)
  show ?case
  proof (cases "Option.bind (cn_value m) value_terminal")
    case None
    with Cons.prems m have "terminal_on_path (p @ [c]) m cs = Some (q, t, e)" by simp
    from Cons.IH [OF this] obtain r k where "q = p @ c # r" "node_at r m = Some k" "e = cn_entry_id k" by auto
    with m show ?thesis by (intro exI [of _ "c # r"] exI [of _ k]) simp
  next
    case (Some t')
    with Cons.prems m show ?thesis by (intro exI [of _ "[c]"] exI [of _ m]) auto
  qed
qed simp

lemma refresh_bounded:
  assumes "lru_bounded mx c" and "node_at p (pc_root c) = Some m" and "cn_entry_id m = Some i"
  shows "lru_bounded mx (refresh_lru_for_path p i c)"
  using assms lru_ok_refresh [of c p m i]
  by (simp add: lru_bounded_def refresh_lru_for_path_def split: option.splits)

lemma cache_apply_bounded: "lru_bounded mx c \<Longrightarrow> lru_bounded mx (cache_apply op c)"
proof (cases op)
  case (OpGetIds p)
  assume "lru_bounded mx c"
  then show ?thesis
    by (auto simp: OpGetIds get_ids_for_path_def split: option.splits intro: refresh_bounded)
next
  case (OpGetTerminal p)
  assume "lru_bounded mx c"
  then show ?thesis
    by (auto simp: OpGetTerminal get_terminal_for_path_def split: option.splits dest!: terminal_on_path_at intro: refresh_bounded)
next
  case (OpInvalidate a x)
  assume "lru_bounded mx c"
  then show ?thesis
    by (auto simp: OpInvalidate invalidate_by_edge_def split: option.splits intro: invalidate_prefix_bounded)
qed (simp_all add: put_ids_bounded put_terminal_bounded)

lemma cache_history_bounded: "lru_bounded mx (fold cache_apply ops (path_cache_new mx))"
proof (induction ops rule: rev_induct)
  case Nil
  show ?case using lru_ok_new [of mx] by (simp add: lru_bounded_def) (simp add: path_cache_new_def)
next
  case (snoc op ops)
  then show ?case by (simp add: cache_apply_bounded)
qed

lemma value_count_entries:
  "wf_node n \<Longrightarrow> (\<And>q. value_at n q = None \<longleftrightarrow> entry_at n q = None) \<Longrightarrow> value_count n = length (collect_entry_ids n)"
proof (induction n)
  case (CNode ch v d e)
  let ?n = "CNode ch v d e"
  have sub: "value_count m = length (collect_entry_ids m)" if "(c, m) \<in> set ch" for c m
  proof (rule CNode.IH [OF that])
    note m = wf_node_children [OF CNode.prems(1), of c m]
    show "wf_node m" using m that by simp
    show "value_at m q = None \<longleftrightarrow> entry_at m q = None" for q
      using CNode.prems(2) [of "c # q"] m that by (simp add: value_at_def entry_at_def)
  qed simp
  have "v = None \<longleftrightarrow> e = None" using CNode.prems(2) [of "[]"] by (simp add: value_at_def entry_at_def)
  moreover have "map (\<lambda>(_, m). value_count m) ch = map (\<lambda>(_, m). length (collect_entry_ids m)) ch"
    using sub by auto
  then have "sum_list (map (\<lambda>(_, m). value_count m) ch) = sum_list (map (\<lambda>(_, m). length (collect_entry_ids m)) ch)"
    by (rule arg_cong)
  moreover have "length (collect_entry_ids ?n) =
      (if e = None then 0 else 1) + sum_list (map (\<lambda>(_, m). length (collect_entry_ids m)) ch)"
    by (simp add: length_concat comp_def case_prod_unfold split: option.splits)
  ultimately show ?case by simp
qed

text \<open>\<^bold>\<open>C13.\<close> 
  After any sequence of operations on a cache of capacity \<open>mx\<close>, at most \<open>mx\<close> paths are cached (one, if the
  capacity is zero): \<open>value_count\<close> counts the nodes of the trie that hold a value.
\<close>

theorem path_cache_bounded:
  "value_count (pc_root (fold cache_apply ops (path_cache_new mx))) \<le> max 1 mx"
proof -
  let ?c = "fold cache_apply ops (path_cache_new mx)"
  have b: "lru_ok ?c" "pc_entry_count ?c \<le> max 1 mx"
    using cache_history_bounded [of mx ops] by (simp_all add: lru_bounded_def)
  have sync: "lru_sync (pc_lru_map ?c) (pc_entry_count ?c) (entry_at (pc_root ?c))"
    and wf: "wf_node (pc_root ?c)"
    and vals: "\<And>q. value_at (pc_root ?c) q = None \<longleftrightarrow> entry_at (pc_root ?c) q = None"
    using b(1) by (simp_all add: lru_ok_def)
  let ?ids = "collect_entry_ids (pc_root ?c)"
  have "length ?ids = card (set ?ids)"
    using distinct_collect_entry_ids [OF wf lru_sync_unique [OF sync]] by (simp add: distinct_card)
  also have "\<dots> = card (fst ` set (pc_lru_map ?c))"
    by (simp add: set_collect_entry_ids [OF wf] lru_sync_ids [OF sync])
  also have "\<dots> \<le> length (pc_lru_map ?c)"
    by (metis card_length length_map set_map)
  finally show ?thesis
    using b(2) sync by (simp add: value_count_entries [OF wf vals] lru_sync_def)
qed

end
