(* ===== verification/Background_Mgr.thy ===== *)
theory Background_Mgr
  imports Ndn_Prelude "HOL-Library.Monad_Syntax"
begin

text \<open>
  The background tasks of the metadata service, \<open>fs_meta/src/background.rs\<close>: one deduplicated queue per
  kind of task, and \<open>run_once\<close>, which empties the queues of the kinds that are due within a time budget.

  The task executor is a parameter: it may change the manager (it runs without its lock), so it maps the
  manager and a state \<open>'w\<close> of the rest of the program to a result and their new values.  The clock is
  a second parameter that reads the time from \<open>'w\<close>; a reading may advance it.  \<open>duration_since\<close>
  and \<open>elapsed\<close> saturate at zero, as natural subtraction does.  The loop of a sweep may run forever, when the
  executor keeps adding tasks and time stands still, so it is a partial function.  Poisoned locks are not
  modelled.
\<close>

section \<open>Task queues\<close>

datatype background_task_kind = FinalizeDir | LazyMigration

definition all_kinds :: "background_task_kind list" where
  "all_kinds = [FinalizeDir, LazyMigration]"

record background_task =
  bt_kind :: background_task_kind
  bt_path :: string

datatype queue_push_mode = PushFront | PushBack

record task_queue =
  tq_items :: "background_task list"
  tq_dedup :: "background_task set"

definition task_queue_default :: task_queue where
  "task_queue_default = \<lparr>tq_items = [], tq_dedup = {}\<rparr>"

definition queue_push :: "background_task \<Rightarrow> queue_push_mode \<Rightarrow> task_queue \<Rightarrow> task_queue" where
  "queue_push task mode q =
     (let q1 = (if task \<in> tq_dedup q
                then (case position (\<lambda>t. t = task) (tq_items q) of
                        Some pos \<Rightarrow> q\<lparr>tq_items := take pos (tq_items q) @ drop (pos + 1) (tq_items q)\<rparr>
                      | None \<Rightarrow> q)
                else q\<lparr>tq_dedup := insert task (tq_dedup q)\<rparr>)
      in case mode of
           PushFront \<Rightarrow> q1\<lparr>tq_items := task # tq_items q1\<rparr>
         | PushBack \<Rightarrow> q1\<lparr>tq_items := tq_items q1 @ [task]\<rparr>)"

definition queue_pop_front :: "task_queue \<Rightarrow> background_task option \<times> task_queue" where
  "queue_pop_front q =
     (case tq_items q of
        [] \<Rightarrow> (None, q)
      | task # rest \<Rightarrow> (Some task, q\<lparr>tq_items := rest, tq_dedup := tq_dedup q - {task}\<rparr>))"

section \<open>The manager\<close>

record background_task_policy =
  po_interval :: nat
  po_max_run_time :: nat

record background_mgr =
  bm_queues :: "background_task_kind \<rightharpoonup> task_queue"
  bm_policies :: "background_task_kind \<rightharpoonup> background_task_policy"
  bm_last_attempt_at :: "background_task_kind \<rightharpoonup> nat"

record background_run_stats =
  rs_executed :: nat
  rs_failed :: nat
  rs_skipped_due_to_budget :: nat

definition stats_default :: background_run_stats where
  "stats_default = \<lparr>rs_executed = 0, rs_failed = 0, rs_skipped_due_to_budget = 0\<rparr>"

text \<open>Durations are in seconds.\<close>

definition background_mgr_new :: "nat \<Rightarrow> background_mgr" where
  "background_mgr_new now =
     fold (\<lambda>kind m. m\<lparr>bm_queues := (bm_queues m)(kind \<mapsto> task_queue_default),
                      bm_policies := (bm_policies m)(kind \<mapsto> \<lparr>po_interval = 30, po_max_run_time = 5\<rparr>),
                      bm_last_attempt_at := (bm_last_attempt_at m)(kind \<mapsto> now)\<rparr>)
       all_kinds \<lparr>bm_queues = Map.empty, bm_policies = Map.empty, bm_last_attempt_at = Map.empty\<rparr>"

text \<open>\<open>queues.entry(kind).or_default()\<close>\<close>

definition queue_of :: "background_mgr \<Rightarrow> background_task_kind \<Rightarrow> task_queue" where
  "queue_of m kind = (case bm_queues m kind of None \<Rightarrow> task_queue_default | Some q \<Rightarrow> q)"

definition set_policy :: "background_task_kind \<Rightarrow> background_task_policy \<Rightarrow> background_mgr \<Rightarrow> background_mgr" where
  "set_policy kind policy m = m\<lparr>bm_policies := (bm_policies m)(kind \<mapsto> policy)\<rparr>"

definition push_task :: "background_task \<Rightarrow> queue_push_mode \<Rightarrow> background_mgr \<Rightarrow> background_mgr" where
  "push_task task mode m =
     m\<lparr>bm_queues := (bm_queues m)(bt_kind task \<mapsto> queue_push task mode (queue_of m (bt_kind task)))\<rparr>"

definition push_back :: "background_task_kind \<Rightarrow> string \<Rightarrow> background_mgr \<Rightarrow> background_mgr" where
  "push_back kind path = push_task \<lparr>bt_kind = kind, bt_path = path\<rparr> PushBack"

definition push_front :: "background_task_kind \<Rightarrow> string \<Rightarrow> background_mgr \<Rightarrow> background_mgr" where
  "push_front kind path = push_task \<lparr>bt_kind = kind, bt_path = path\<rparr> PushFront"

text \<open>\<open>staged_tasks\<close> and \<open>lazy_migration_tasks\<close>: a snapshot of a queue.\<close>

definition queued_tasks :: "background_mgr \<Rightarrow> background_task_kind \<Rightarrow> background_task list" where
  "queued_tasks m kind = (case bm_queues m kind of None \<Rightarrow> [] | Some q \<Rightarrow> tq_items q)"

definition has_pending_tasks :: "background_mgr \<Rightarrow> bool" where
  "has_pending_tasks m = list_ex (\<lambda>kind. queued_tasks m kind \<noteq> []) all_kinds"

definition take_due_kinds ::
  "nat \<Rightarrow> background_mgr \<Rightarrow> (background_task_kind \<times> background_task_policy) list \<times> background_mgr" where
  "take_due_kinds now m =
     fold (\<lambda>kind (due, m).
        case bm_policies m kind of
          None \<Rightarrow> (due, m)
        | Some policy \<Rightarrow>
            (case bm_last_attempt_at m kind of
               None \<Rightarrow> (due, m)
             | Some attempt \<Rightarrow>
                 if now - attempt < po_interval policy then (due, m)
                 else (due @ [(kind, policy)], m\<lparr>bm_last_attempt_at := (bm_last_attempt_at m)(kind \<mapsto> now)\<rparr>)))
       all_kinds ([], m)"

definition pop_task_for_kind ::
  "background_task_kind \<Rightarrow> background_mgr \<Rightarrow> background_task option \<times> background_mgr" where
  "pop_task_for_kind kind m =
     (let (task, q) = queue_pop_front (queue_of m kind) in (task, m\<lparr>bm_queues := (bm_queues m)(kind \<mapsto> q)\<rparr>))"

section \<open>Running tasks\<close>

type_synonym 'w executor = "background_task \<Rightarrow> background_mgr \<Rightarrow> 'w \<Rightarrow> (string + unit) \<times> background_mgr \<times> 'w"

type_synonym 'w clock = "'w \<Rightarrow> nat \<times> 'w"

definition count_result :: "string + unit \<Rightarrow> background_run_stats \<Rightarrow> background_run_stats" where
  "count_result r st =
     (case r of Inr _ \<Rightarrow> st\<lparr>rs_executed := rs_executed st + 1\<rparr> | Inl _ \<Rightarrow> st\<lparr>rs_failed := rs_failed st + 1\<rparr>)"

text \<open>The loop over one queue.\<close>

partial_function (option) sweep ::
  "'w clock \<Rightarrow> 'w executor \<Rightarrow> background_task_kind \<Rightarrow> nat \<Rightarrow> nat \<Rightarrow> background_run_stats \<Rightarrow> background_mgr \<Rightarrow> 'w
   \<Rightarrow> (background_run_stats \<times> background_mgr \<times> 'w) option" where
  "sweep clock exec kind max_run_time started st m w =
     (let (t1, w1) = clock w in
      if t1 - started \<ge> max_run_time then Some (st, m, w1)
      else case pop_task_for_kind kind m of
             (None, m1) \<Rightarrow> Some (st, m1, w1)
           | (Some task, m1) \<Rightarrow>
               let (r, m2, w2) = exec task m1 w1;
                   st1 = count_result r st;
                   (t2, w3) = clock w2
               in if t2 - started \<ge> max_run_time
                  then Some (st1\<lparr>rs_skipped_due_to_budget :=
                               rs_skipped_due_to_budget st1 + length (queued_tasks m2 kind)\<rparr>, m2, w3)
                  else sweep clock exec kind max_run_time started st1 m2 w3)"

fun sweep_all ::
  "'w clock \<Rightarrow> 'w executor \<Rightarrow> (background_task_kind \<times> background_task_policy) list \<Rightarrow> background_run_stats
   \<Rightarrow> background_mgr \<Rightarrow> 'w \<Rightarrow> (background_run_stats \<times> background_mgr \<times> 'w) option" where
  "sweep_all clock exec [] st m w = Some (st, m, w)"
| "sweep_all clock exec ((kind, policy) # due) st m w =
     (let (started, w1) = clock w in
      Option.bind (sweep clock exec kind (po_max_run_time policy) started st m w1)
        (\<lambda>(st1, m1, w2). sweep_all clock exec due st1 m1 w2))"

definition run_once ::
  "'w clock \<Rightarrow> 'w executor \<Rightarrow> background_mgr \<Rightarrow> 'w \<Rightarrow> (background_run_stats \<times> background_mgr \<times> 'w) option" where
  "run_once clock exec m w =
     (let (now, w1) = clock w; (due, m1) = take_due_kinds now m in sweep_all clock exec due stats_default m1 w1)"

section \<open>Correctness of the queues\<close>

text \<open>The contract of a queue without duplicates: a task that is pushed again moves.\<close>

locale dedup_queue =
  fixes items :: "'q \<Rightarrow> 't list"
    and push :: "'t \<Rightarrow> queue_push_mode \<Rightarrow> 'q \<Rightarrow> 'q"
    and pop :: "'q \<Rightarrow> 't option \<times> 'q"
    and inv :: "'q \<Rightarrow> bool"
  assumes push_inv: "inv q \<Longrightarrow> inv (push t mode q)"
    and push_items: "inv q \<Longrightarrow> items (push t mode q) =
          (case mode of PushFront \<Rightarrow> t # removeAll t (items q) | PushBack \<Rightarrow> removeAll t (items q) @ [t])"
    and pop_inv: "inv q \<Longrightarrow> inv (snd (pop q))"
    and pop_items: "inv q \<Longrightarrow> (fst (pop q), items (snd (pop q))) =
          (case items q of [] \<Rightarrow> (None, []) | t # ts \<Rightarrow> (Some t, ts))"
    and inv_distinct: "inv q \<Longrightarrow> distinct (items q)"
begin

lemma push_set: "inv q \<Longrightarrow> set (items (push t mode q)) = insert t (set (items q))"
  by (auto simp: push_items split: queue_push_mode.splits)

lemma push_length: "inv q \<Longrightarrow>
    length (items (push t mode q)) = (if t \<in> set (items q) then length (items q) else length (items q) + 1)"
  using inv_distinct [of q] inv_distinct [OF push_inv, of q t mode] push_set [of q t mode]
  by (metis card_insert_if distinct_card finite_set Suc_eq_plus1)

lemma push_idem: "inv q \<Longrightarrow> items (push t mode (push t mode' q)) = items (push t mode q)"
  by (simp add: push_items push_inv split: queue_push_mode.splits)

end

definition queue_wf :: "task_queue \<Rightarrow> bool" where
  "queue_wf q \<longleftrightarrow> distinct (tq_items q) \<and> tq_dedup q = set (tq_items q)"

lemma take_drop_removeAll:
  "distinct xs \<Longrightarrow> position (\<lambda>t. t = x) xs = Some i \<Longrightarrow> take i xs @ drop (i + 1) xs = removeAll x xs"
  by (induction xs arbitrary: i) (auto split: if_splits)

lemma queue_position_None: "position p xs = None \<longleftrightarrow> (\<forall>x \<in> set xs. \<not> p x)"
  by (induction xs) auto

lemma queue_push_items:
  assumes "queue_wf q"
  shows "tq_items (queue_push t mode q) =
    (case mode of PushFront \<Rightarrow> t # removeAll t (tq_items q) | PushBack \<Rightarrow> removeAll t (tq_items q) @ [t])"
  using assms take_drop_removeAll [of "tq_items q" t]
  by (auto simp: queue_wf_def queue_push_def Let_def queue_position_None split: option.splits queue_push_mode.splits)

lemma queue_push_dedup: "queue_wf q \<Longrightarrow> tq_dedup (queue_push t mode q) = insert t (tq_dedup q)"
  by (auto simp: queue_push_def Let_def queue_wf_def split: option.splits queue_push_mode.splits)

interpretation tq: dedup_queue tq_items queue_push queue_pop_front queue_wf
proof
  fix q :: task_queue and t mode
  assume wf: "queue_wf q"
  show "tq_items (queue_push t mode q) =
      (case mode of PushFront \<Rightarrow> t # removeAll t (tq_items q) | PushBack \<Rightarrow> removeAll t (tq_items q) @ [t])"
    by (rule queue_push_items [OF wf])
  show "queue_wf (queue_push t mode q)"
    using wf queue_push_items [OF wf] queue_push_dedup [OF wf]
    by (auto simp: queue_wf_def distinct_removeAll split: queue_push_mode.splits)
  show "queue_wf (snd (queue_pop_front q))"
    using wf by (auto simp: queue_wf_def queue_pop_front_def split: list.splits)
  show "(fst (queue_pop_front q), tq_items (snd (queue_pop_front q))) =
      (case tq_items q of [] \<Rightarrow> (None, []) | t # ts \<Rightarrow> (Some t, ts))"
    by (simp add: queue_pop_front_def split: list.splits)
  show "distinct (tq_items q)" using wf by (simp add: queue_wf_def)
qed

section \<open>Correctness of a run\<close>

lemma queued_tasks_queue_of: "queued_tasks m kind = tq_items (queue_of m kind)"
  by (simp add: queued_tasks_def queue_of_def task_queue_default_def split: option.splits)

lemma pop_task_for_kind_queued:
  "queued_tasks (snd (pop_task_for_kind kind m)) k =
     (if k = kind then tl (queued_tasks m kind) else queued_tasks m k)"
  "fst (pop_task_for_kind kind m) = (case queued_tasks m kind of [] \<Rightarrow> None | t # _ \<Rightarrow> Some t)"
  by (simp_all add: pop_task_for_kind_def queued_tasks_queue_of queue_pop_front_def Let_def queue_of_def
      case_prod_beta split: list.splits option.splits)

definition queued_total :: "background_mgr \<Rightarrow> nat" where
  "queued_total m = sum_list (map (\<lambda>k. length (queued_tasks m k)) all_kinds)"

lemma pop_total:
  assumes "pop_task_for_kind kind m = (Some t, m')"
  shows "queued_total m = queued_total m' + 1" and "length (queued_tasks m' kind) < length (queued_tasks m kind)"
proof -
  from assms pop_task_for_kind_queued [of kind m] have
    ne: "queued_tasks m kind \<noteq> []" and q: "\<And>k. queued_tasks m' k = (if k = kind then tl (queued_tasks m kind) else queued_tasks m k)"
    by (auto split: list.splits)
  then show "queued_total m = queued_total m' + 1" "length (queued_tasks m' kind) < length (queued_tasks m kind)"
    by (cases kind; auto simp: queued_total_def all_kinds_def q)+
qed

lemma pop_none_total: "pop_task_for_kind kind m = (None, m') \<Longrightarrow> queued_total m' = queued_total m"
  using pop_task_for_kind_queued [of kind m]
  by (cases kind) (auto simp: queued_total_def all_kinds_def split: list.splits)

text \<open>
  The ledger of a run: \<open>logged exec\<close> is the executor with a log of its calls, with the outcome of each and the
  number of tasks by which it lengthened the queues, since an executor may queue tasks itself.
\<close>

type_synonym call_log = "(background_task \<times> bool \<times> int) list"

definition logged :: "'w executor \<Rightarrow> (call_log \<times> 'w) executor" where
  "logged exec task m lw =
     (let (r, m', w') = exec task m (snd lw)
      in (r, m', fst lw @ [(task, (case r of Inl _ \<Rightarrow> False | Inr _ \<Rightarrow> True), int (queued_total m') - int (queued_total m))], w'))"

definition with_log :: "'w clock \<Rightarrow> (call_log \<times> 'w) clock" where
  "with_log clock lw = (let (t, w') = clock (snd lw) in (t, fst lw, w'))"

lemma with_log_read: "clock w = (t, w') \<Longrightarrow> with_log clock (l, w) = (t, l, w')"
  by (simp add: with_log_def)

definition successes :: "call_log \<Rightarrow> nat" where
  "successes log = length (filter (\<lambda>(_, ok, _). ok) log)"

definition failures :: "call_log \<Rightarrow> nat" where
  "failures log = length (filter (\<lambda>(_, ok, _). \<not> ok) log)"

definition growth :: "call_log \<Rightarrow> int" where
  "growth log = sum_list (map (\<lambda>(_, _, d). d) log)"

named_theorems log_simps \<open>counting the entries of a log\<close>

lemma log_counts [log_simps]:
  "successes [] = 0" "failures [] = 0" "growth [] = 0"
  "successes ((t, ok, d) # log) = (if ok then 1 else 0) + successes log"
  "failures ((t, ok, d) # log) = (if ok then 0 else 1) + failures log"
  "growth ((t, ok, d) # log) = d + growth log"
  "successes (log @ log') = successes log + successes log'"
  "failures (log @ log') = failures log + failures log'"
  "growth (log @ log') = growth log + growth log'"
  by (simp_all add: successes_def failures_def growth_def)

text \<open>What a part of a run did: \<open>log\<close> lists its calls.\<close>

definition accounts ::
  "background_run_stats \<Rightarrow> background_mgr \<Rightarrow> call_log \<Rightarrow> background_run_stats \<Rightarrow> background_mgr \<Rightarrow> bool" where
  "accounts st m log st' m' \<longleftrightarrow> rs_executed st' = rs_executed st + successes log \<and>
     rs_failed st' = rs_failed st + failures log \<and>
     int (queued_total m') = int (queued_total m) - int (length log) + growth log"

lemma accounts_trans:
  "accounts st m log st1 m1 \<Longrightarrow> accounts st1 m1 log' st' m' \<Longrightarrow> accounts st m (log @ log') st' m'"
  by (simp add: accounts_def log_simps)

lemma accounts_call:
  assumes "pop_task_for_kind kind m = (Some t, m1)" and "exec t m1 w = (r, m2, w2)"
  shows "accounts st m [(t, (case r of Inl _ \<Rightarrow> False | Inr _ \<Rightarrow> True), int (queued_total m2) - int (queued_total m1))]
    (count_result r st) m2"
  using pop_total(1) [OF assms(1)] by (cases r) (simp_all add: accounts_def count_result_def log_simps)

lemma accounts_skip [simp]: "accounts st m log (st'\<lparr>rs_skipped_due_to_budget := n\<rparr>) m' = accounts st m log st' m'"
  by (simp add: accounts_def)

lemma accounts_idle: "queued_total m' = queued_total m \<Longrightarrow> accounts st m [] st m'"
  by (simp add: accounts_def log_simps)

definition logs_run :: "'w clock \<Rightarrow> 'w executor \<Rightarrow> background_task_kind \<Rightarrow> nat \<Rightarrow> nat \<Rightarrow> background_run_stats \<Rightarrow> background_mgr \<Rightarrow> 'w
   \<Rightarrow> background_run_stats \<times> background_mgr \<times> 'w \<Rightarrow> bool" where
  "logs_run clock exec kind mx started st m w y \<longleftrightarrow>
     (\<forall>l. \<exists>es. sweep (with_log clock) (logged exec) kind mx started st m (l, w) = Some (fst y, fst (snd y), l @ es, snd (snd y)) \<and>
       accounts st m es (fst y) (fst (snd y)))"

lemma sweep_logs: "sweep clock exec kind mx started st m w = Some y \<Longrightarrow> logs_run clock exec kind mx started st m w y"
proof (rule sweep.raw_induct [where P = logs_run], goal_cases)
  case (1 rec clock exec kind mx started st m w y)
    obtain t1 w1 where c1: "clock w = (t1, w1)" by (cases "clock w")
    obtain p m1 where p: "pop_task_for_kind kind m = (p, m1)" by (cases "pop_task_for_kind kind m")
    show ?case unfolding logs_run_def
    proof
      fix l
      note unfold = sweep.simps [of "with_log clock" "logged exec" kind mx started st m "(l, w)"]
      show "\<exists>es. sweep (with_log clock) (logged exec) kind mx started st m (l, w) = Some (fst y, fst (snd y), l @ es, snd (snd y)) \<and>
          accounts st m es (fst y) (fst (snd y))"
      proof (cases "t1 - started \<ge> mx \<or> p = None")
        case True
        with 1(3) have "y = (st, if t1 - started \<ge> mx then m else m1, w1)" by (auto simp: c1 p)
        moreover have "queued_total (if t1 - started \<ge> mx then m else m1) = queued_total m"
          using True p pop_none_total [of kind m m1] by auto
        ultimately show ?thesis
          using True unfold by (intro exI [of _ "[]"]) (auto simp: c1 p with_log_def accounts_idle)
      next
        case False
        then obtain t where t: "p = Some t" and budget: "\<not> t1 - started \<ge> mx" by auto
        obtain r m2 w2 where x: "exec t m1 w1 = (r, m2, w2)" by (cases "exec t m1 w1")
        obtain t2 w3 where c2: "clock w2 = (t2, w3)" by (cases "clock w2")
        let ?e = "(t, (case r of Inl _ \<Rightarrow> False | Inr _ \<Rightarrow> True), int (queued_total m2) - int (queued_total m1))"
        note call = accounts_call [OF p [unfolded t], where exec = exec and st = st, OF x]
        show ?thesis
        proof (cases "t2 - started \<ge> mx")
          case True
          with 1(3) budget call show ?thesis
            unfolding unfold by (intro exI [of _ "[?e]"]) (auto simp: c1 p t x c2 with_log_def logged_def Let_def)
        next
          case False
          with 1(3) budget have "rec clock exec kind mx started (count_result r st) m2 w3 = Some y"
            by (simp add: c1 p t x c2 Let_def)
          from 1(2) [OF this, unfolded logs_run_def, rule_format, of "l @ [?e]"] obtain es where
            es: "sweep (with_log clock) (logged exec) kind mx started (count_result r st) m2 (l @ [?e], w3) =
              Some (fst y, fst (snd y), (l @ [?e]) @ es, snd (snd y))" "accounts (count_result r st) m2 es (fst y) (fst (snd y))"
            by blast
          from es(1) False budget accounts_trans [OF call es(2)] show ?thesis
            unfolding unfold by (intro exI [of _ "?e # es"]) (simp add: c1 p t x c2 with_log_def logged_def Let_def)
        qed
      qed
    qed
  qed
text \<open>The whole run, its log included.\<close>

lemma sweep_all_logs:
  "sweep_all clock exec due st m w = Some (st', m', w') \<Longrightarrow>
     \<exists>es. sweep_all (with_log clock) (logged exec) due st m (l, w) = Some (st', m', l @ es, w') \<and> accounts st m es st' m'"
proof (induction due arbitrary: st m w l)
  case Nil
  then show ?case by (intro exI [of _ "[]"]) (simp add: accounts_idle)
next
  case (Cons d due)
  obtain kind policy where d: "d = (kind, policy)" by (cases d)
  obtain t w1 where c: "clock w = (t, w1)" by (cases "clock w")
  from Cons.prems obtain st1 m1 w2 where
    s: "sweep clock exec kind (po_max_run_time policy) t st m w1 = Some (st1, m1, w2)"
    and rest: "sweep_all clock exec due st1 m1 w2 = Some (st', m', w')"
    by (auto simp: d c bind_eq_Some_conv)
  from sweep_logs [OF s] obtain es where
    es: "sweep (with_log clock) (logged exec) kind (po_max_run_time policy) t st m (l, w1) = Some (st1, m1, l @ es, w2)"
    "accounts st m es st1 m1"
    unfolding logs_run_def by force
  from Cons.IH [OF rest, of "l @ es"] obtain es' where
    es': "sweep_all (with_log clock) (logged exec) due st1 m1 (l @ es, w2) = Some (st', m', (l @ es) @ es', w')"
    "accounts st1 m1 es' st' m'"
    by blast
  from es(1) es'(1) accounts_trans [OF es(2) es'(2)] show ?case
    by (intro exI [of _ "es @ es'"]) (simp add: d with_log_read [where clock = clock, OF c])
qed

text \<open>
  Time passes: the clock reads \<open>\<tau>\<close> and never goes back, and a call of the executor that lengthens a queue
  takes time.
\<close>

definition time_passes :: "('w \<Rightarrow> nat) \<Rightarrow> 'w clock \<Rightarrow> 'w executor \<Rightarrow> bool" where
  "time_passes \<tau> clock exec \<longleftrightarrow>
     (\<forall>w. fst (clock w) = \<tau> w \<and> \<tau> w \<le> \<tau> (snd (clock w))) \<and>
     (\<forall>t m w. case exec t m w of (_, m', w') \<Rightarrow> \<tau> w < \<tau> w' \<or>
        \<tau> w = \<tau> w' \<and> (\<forall>k. length (queued_tasks m' k) \<le> length (queued_tasks m k)))"

lemma sweep_ends:
  assumes "time_passes \<tau> clock exec"
  shows "\<exists>y. sweep clock exec kind mx started st m w = Some y"
proof (induction "(started + mx - \<tau> w, length (queued_tasks m kind))" arbitrary: st m w
    rule: wf_induct_rule [OF wf_lex_prod [OF wf_less_than wf_less_than]])
  case (1 m w)
  have time: "fst (clock w) = \<tau> w" "\<tau> w \<le> \<tau> (snd (clock w))" for w
    using assms by (simp_all add: time_passes_def)
  show ?case
  proof (cases "\<tau> w - started \<ge> mx \<or> fst (pop_task_for_kind kind m) = None")
    case True
    then show ?thesis
      using time [of w] by (subst sweep.simps) (auto split: prod.splits)
  next
    case False
    then obtain t m1 where p: "pop_task_for_kind kind m = (Some t, m1)" by (cases "pop_task_for_kind kind m") auto
    obtain w1 where c1: "clock w = (\<tau> w, w1)" "\<tau> w \<le> \<tau> w1" using time [of w] by (cases "clock w") auto
    obtain r m2 w2 where x: "exec t m1 w1 = (r, m2, w2)" by (cases "exec t m1 w1")
    obtain w3 where c2: "clock w2 = (\<tau> w2, w3)" "\<tau> w2 \<le> \<tau> w3" using time [of w2] by (cases "clock w2") auto
    from assms have "case exec t m1 w1 of (_, m', w') \<Rightarrow> \<tau> w1 < \<tau> w' \<or>
        \<tau> w1 = \<tau> w' \<and> (\<forall>k. length (queued_tasks m' k) \<le> length (queued_tasks m1 k))"
      by (simp add: time_passes_def)
    then have "\<tau> w1 < \<tau> w2 \<or> \<tau> w1 = \<tau> w2 \<and> length (queued_tasks m2 kind) \<le> length (queued_tasks m1 kind)"
      by (auto simp: x)
    then have "((started + mx - \<tau> w3, length (queued_tasks m2 kind)), (started + mx - \<tau> w, length (queued_tasks m kind)))
        \<in> less_than <*lex*> less_than"
      using pop_total(2) [OF p] c1(2) c2(2) False by auto
    from 1 [OF this] obtain y where "sweep clock exec kind mx started (count_result r st) m2 w3 = Some y" by blast
    then show ?thesis
      using False by (cases y) (subst sweep.simps, simp add: c1(1) p x c2(1) Let_def)
  qed
qed

lemma sweep_all_ends: "time_passes \<tau> clock exec \<Longrightarrow> \<exists>y. sweep_all clock exec due st m w = Some y"
proof (induction due arbitrary: st m w)
  case (Cons d due)
  obtain kind policy where d: "d = (kind, policy)" by (cases d)
  obtain t w1 where c: "clock w = (t, w1)" by (cases "clock w")
  from sweep_ends [OF Cons.prems] obtain st1 m1 w2 where
    "sweep clock exec kind (po_max_run_time policy) t st m w1 = Some (st1, m1, w2)" by force
  with Cons show ?case by (simp add: d c)
qed simp

lemma take_due_total: "queued_total (snd (take_due_kinds now m)) = queued_total m"
  by (simp add: take_due_kinds_def all_kinds_def queued_total_def queued_tasks_def split: option.splits)

text \<open>\<^bold>\<open>C15.\<close> A run of the background manager accounts for every task and ends.  Let the executor do whatever it
  likes, changing the queues included.  When a run returns, there is a log of the executor's calls, the one that the
  run with the logging executor keeps, such that the statistics count the calls that succeeded and the
  calls that failed, and the number of queued tasks has changed by one less for each call and by
  what the calls themselves added or removed.  And the run does return when the clock never goes back
  and a call that lengthens a queue takes time.\<close>

theorem run_once_accounts:
  "(\<forall>st m' w'. run_once clock exec m w = Some (st, m', w') \<longrightarrow>
      (\<exists>log. run_once (with_log clock) (logged exec) m ([], w) = Some (st, m', log, w') \<and>
         rs_executed st = successes log \<and> rs_failed st = failures log \<and>
         int (queued_total m') = int (queued_total m) - int (length log) + growth log)) \<and>
   (time_passes \<tau> clock exec \<longrightarrow> (\<exists>st m' w'. run_once clock exec m w = Some (st, m', w')))"
proof -
  obtain now w1 where c: "clock w = (now, w1)" by (cases "clock w")
  obtain due m1 where d: "take_due_kinds now m = (due, m1)" by (cases "take_due_kinds now m")
  have total: "queued_total m1 = queued_total m" using take_due_total [of now m] d by simp
  have run: "run_once clock exec m w = sweep_all clock exec due stats_default m1 w1"
    "run_once (with_log clock) (logged exec) m ([], w) = sweep_all (with_log clock) (logged exec) due stats_default m1 ([], w1)"
    by (simp_all add: run_once_def c d with_log_def)
  have "\<exists>log. run_once (with_log clock) (logged exec) m ([], w) = Some (st, m', log, w') \<and>
      rs_executed st = successes log \<and> rs_failed st = failures log \<and>
      int (queued_total m') = int (queued_total m) - int (length log) + growth log"
    if "run_once clock exec m w = Some (st, m', w')" for st m' w'
    using sweep_all_logs [OF that [unfolded run(1)], of "[]"]
    by (auto simp: run(2) accounts_def stats_default_def total)
  moreover have "\<exists>st m' w'. run_once clock exec m w = Some (st, m', w')" if "time_passes \<tau> clock exec"
    using sweep_all_ends [OF that, of due stats_default m1 w1] by (simp add: run(1))
  ultimately show ?thesis by blast
qed

text \<open>An executor that queues its task again, and takes two seconds for it.\<close>

definition demo_tasks :: background_mgr where
  "demo_tasks = push_back FinalizeDir ''/a'' (push_front FinalizeDir ''/b'' (push_back FinalizeDir ''/a'' (background_mgr_new 0)))"

definition requeue :: "nat executor" where
  "requeue t m w = (Inr (), push_task t PushBack m, w + 2)"

theorem run_once_accounts_witness:
  "time_passes (\<lambda>w. w) (\<lambda>w. (w, w)) requeue \<and>
   (\<exists>st m' w' log. run_once (\<lambda>w. (w, w)) requeue demo_tasks 40 = Some (st, m', w') \<and>
     rs_executed st = successes log \<and> rs_failed st = failures log \<and>
     int (queued_total m') = 2 - int (length log) + growth log)"
proof -
  have tp: "time_passes (\<lambda>w. w) (\<lambda>w. (w, w)) requeue" by (simp add: time_passes_def requeue_def)
  have "queued_total demo_tasks = 2" by code_simp
  moreover note acc = run_once_accounts [of "\<lambda>w. (w, w)" requeue demo_tasks 40 "\<lambda>w. w"]
  from acc [THEN conjunct2] tp obtain st m' w' where run: "run_once (\<lambda>w. (w, w)) requeue demo_tasks 40 = Some (st, m', w')"
    by blast
  from acc [THEN conjunct1, rule_format, OF run] obtain log where "rs_executed st = successes log" "rs_failed st = failures log"
    "int (queued_total m') = int (queued_total demo_tasks) - int (length log) + growth log" by blast
  ultimately show ?thesis using tp run by auto
qed

text \<open>
  A task is queued once, after any sequence of pushes onto an empty queue and pops of it.
\<close>

fun queue_ops :: "(background_task \<times> queue_push_mode) option list \<Rightarrow> task_queue \<Rightarrow> task_queue" where
  "queue_ops [] q = q"
| "queue_ops (None # os) q = queue_ops os (snd (queue_pop_front q))"
| "queue_ops (Some (t, mode) # os) q = queue_ops os (queue_push t mode q)"

lemma queue_ops_wf: "queue_wf q \<Longrightarrow> queue_wf (queue_ops os q)"
  by (induction os q rule: queue_ops.induct) (simp_all add: tq.push_inv tq.pop_inv)

lemma queue_never_duplicates: "distinct (tq_items (queue_ops os task_queue_default))"
  by (intro tq.inv_distinct queue_ops_wf) (simp add: queue_wf_def task_queue_default_def)

end
