(* ===== verification/List_Cache.thy ===== *)
theory List_Cache
  imports Ndn_Prelude "HOL-Library.AList" "HOL-Library.List_Lexorder" "HOL-Library.Char_ord"
begin

text \<open>
  Paged directory listings, \<open>fs_meta/src/list_cache.rs\<close>.  A session holds the entries of a directory as
  they were when the listing started, and a cursor, the last name that was handed out.

  A \<open>BTreeMap\<close> with string keys is the list of its entries in ascending order of the keys
  (\<open>btree_ok\<close>); strings compare bytewise.
\<close>

section \<open>Sessions\<close>

type_synonym 'v btree = "(string \<times> 'v) list"

definition btree_ok :: "'v btree \<Rightarrow> bool" where
  "btree_ok m \<longleftrightarrow> sorted_wrt (<) (map fst m)"

text \<open>\<open>BTreeMap::insert\<close> and \<open>BTreeMap::remove\<close>.\<close>

definition btree_insert :: "string \<Rightarrow> 'v \<Rightarrow> 'v btree \<Rightarrow> 'v btree" where
  "btree_insert k v m = filter (\<lambda>(x, _). x < k) m @ (k, v) # filter (\<lambda>(x, _). k < x) m"

definition btree_remove :: "string \<Rightarrow> 'v btree \<Rightarrow> 'v btree" where
  "btree_remove k m = filter (\<lambda>(x, _). x \<noteq> k) m"

record 'v list_session =
  se_entries :: "'v btree"
  se_cursor :: "string option"

record 'v list_cache =
  lc_next_session_id :: u64
  lc_sessions :: "(u64 \<times> 'v list_session) list"

definition list_cache_new :: "'v list_cache" where
  "list_cache_new = \<lparr>lc_next_session_id = 1, lc_sessions = []\<rparr>"

definition start_session :: "'v btree \<Rightarrow> 'v list_cache \<Rightarrow> u64 \<times> 'v list_cache" where
  "start_session entries c =
     (let session_id = lc_next_session_id c in
      (session_id, c\<lparr>lc_next_session_id := saturating_add session_id 1,
        lc_sessions := AList.update session_id \<lparr>se_entries = entries, se_cursor = None\<rparr> (lc_sessions c)\<rparr>))"

text \<open>\<open>entries.range((start_bound, Unbounded))\<close>\<close>

definition range_after :: "string option \<Rightarrow> 'v btree \<Rightarrow> 'v btree" where
  "range_after cursor m = (case cursor of None \<Rightarrow> m | Some k \<Rightarrow> filter (\<lambda>(name, _). k < name) m)"

definition page_limit :: "u32 \<Rightarrow> nat" where
  "page_limit page_size = (if page_size = 0 then 2 ^ 64 - 1 else unat page_size)"

definition list_next :: "u64 \<Rightarrow> u32 \<Rightarrow> 'v list_cache \<Rightarrow> 'v btree option \<times> 'v list_cache" where
  "list_next sid page_size c =
     (case map_of (lc_sessions c) sid of
        None \<Rightarrow> (None, c)
      | Some s \<Rightarrow>
          let out = take (page_limit page_size) (range_after (se_cursor s) (se_entries s));
              cursor = (if out = [] then se_cursor s else Some (fst (last out)))
          in (Some out, c\<lparr>lc_sessions := AList.update sid (s\<lparr>se_cursor := cursor\<rparr>) (lc_sessions c)\<rparr>))"

definition stop_session :: "u64 \<Rightarrow> 'v list_cache \<Rightarrow> bool \<times> 'v list_cache" where
  "stop_session sid c =
     (map_of (lc_sessions c) sid \<noteq> None, c\<lparr>lc_sessions := AList.delete sid (lc_sessions c)\<rparr>)"

section \<open>Ordered maps\<close>

lemma sorted_wrt_map_filter: "sorted_wrt R (map g m) \<Longrightarrow> sorted_wrt R (map g (filter P m))"
  by (induction m) auto

lemma btree_insert_ok: "btree_ok m \<Longrightarrow> btree_ok (btree_insert k v m)"
  by (auto simp: btree_ok_def btree_insert_def sorted_wrt_append sorted_wrt_map_filter)

lemma btree_remove_ok: "btree_ok m \<Longrightarrow> btree_ok (btree_remove k m)"
  by (simp add: btree_ok_def btree_remove_def sorted_wrt_map_filter)

lemma map_of_filter_key: "map_of (filter (\<lambda>(x, _). P x) m) k = (if P k then map_of m k else None)"
  by (induction m) auto

lemma map_of_btree_insert [simp]: "map_of (btree_insert k v m) = (map_of m)(k \<mapsto> v)"
proof
  fix x
  show "map_of (btree_insert k v m) x = ((map_of m)(k \<mapsto> v)) x"
    using linorder_less_linear [of x k] order.asym [of x k]
    by (auto simp: btree_insert_def map_add_def map_of_filter_key split: option.splits)
qed

lemma map_of_btree_remove [simp]: "map_of (btree_remove k m) = (map_of m)(k := None)"
  by (auto simp: btree_remove_def map_of_filter_key fun_eq_iff)

lemma btree_distinct: "btree_ok m \<Longrightarrow> distinct (map fst m)"
  unfolding btree_ok_def using strict_sorted_iff by blast

section \<open>One session\<close>

text \<open>The cursor of a session from which \<open>n\<close> entries have been handed out.\<close>

definition cursor_at :: "'v btree \<Rightarrow> nat \<Rightarrow> string option" where
  "cursor_at m n = (if take n m = [] then None else Some (fst (last (take n m))))"

lemma range_after_cursor:
  assumes "btree_ok m"
  shows "range_after (cursor_at m n) m = drop n m"
proof (cases "take n m = []")
  case True
  then show ?thesis by (auto simp: cursor_at_def range_after_def)
next
  case False
  let ?k = "fst (last (take n m))"
  have parts: "sorted_wrt (<) (map fst (take n m) @ map fst (drop n m))"
    using assms by (simp add: btree_ok_def flip: map_append)
  have after: "?k < name" if "(name, v) \<in> set (drop n m)" for name v
  proof -
    from that have "name \<in> set (map fst (drop n m))" by force
    moreover have "?k \<in> set (map fst (take n m))" using False by simp
    ultimately show ?thesis using parts by (simp only: sorted_wrt_append)
  qed
  have before: "\<not> ?k < name" if "(name, v) \<in> set (take n m)" for name v
  proof -
    obtain xs where xs: "map fst (take n m) = xs @ [?k]"
      using False by (metis append_butlast_last_id last_map list.map_disc_iff)
    from that have "name \<in> set (map fst (take n m))" by force
    then have "name = ?k \<or> name \<in> set xs" by (auto simp only: xs set_append list.set)
    moreover have "\<forall>x \<in> set xs. x < ?k" using parts unfolding xs by (simp add: sorted_wrt_append)
    ultimately show ?thesis using order.asym by auto
  qed
  have "filter (\<lambda>(name, _). ?k < name) m =
      filter (\<lambda>(name, _). ?k < name) (take n m) @ filter (\<lambda>(name, _). ?k < name) (drop n m)"
    by (simp flip: filter_append)
  also have "filter (\<lambda>(name, _). ?k < name) (take n m) = []"
    using before by (auto simp: filter_empty_conv)
  also have "filter (\<lambda>(name, _). ?k < name) (drop n m) = drop n m"
    using after by (auto simp: filter_id_conv)
  finally show ?thesis using False by (simp add: cursor_at_def range_after_def)
qed

lemma cursor_advance:
  "(if take k (drop n m) = [] then cursor_at m n else Some (fst (last (take k (drop n m))))) = cursor_at m (n + k)"
proof -
  have "take (n + k) m = take n m @ take k (drop n m)" by (rule take_add)
  then show ?thesis by (simp add: cursor_at_def del: take_eq_Nil)
qed

definition session_at :: "u64 \<Rightarrow> 'v btree \<Rightarrow> nat \<Rightarrow> 'v list_cache \<Rightarrow> bool" where
  "session_at sid m n c \<longleftrightarrow> map_of (lc_sessions c) sid = Some \<lparr>se_entries = m, se_cursor = cursor_at m n\<rparr>"

lemma list_next_page:
  assumes "btree_ok m" and "session_at sid m n c"
  shows "fst (list_next sid page c) = Some (take (page_limit page) (drop n m))"
    and "session_at sid m (n + page_limit page) (snd (list_next sid page c))"
  using assms cursor_advance [where n = n and m = m and k = "page_limit page"]
  by (auto simp: session_at_def list_next_def Let_def range_after_cursor update_conv')

section \<open>Sessions side by side\<close>

datatype 'v list_event = Start "'v btree" | Next u64 u32 | Stop u64

fun apply_event :: "'v list_event \<Rightarrow> 'v list_cache \<Rightarrow> 'v list_cache" where
  "apply_event (Start m) c = snd (start_session m c)"
| "apply_event (Next sid page) c = snd (list_next sid page c)"
| "apply_event (Stop sid) c = snd (stop_session sid c)"

text \<open>The pages that the session \<open>sid\<close> receives, and the page sizes it asks for.\<close>

fun pages_of :: "u64 \<Rightarrow> 'v list_event list \<Rightarrow> 'v list_cache \<Rightarrow> 'v btree list" where
  "pages_of sid [] c = []"
| "pages_of sid (e # es) c =
     (case e of
        Next s page \<Rightarrow> if s = sid then (case fst (list_next sid page c) of None \<Rightarrow> [] | Some out \<Rightarrow> [out]) else []
      | _ \<Rightarrow> []) @ pages_of sid es (apply_event e c)"

fun limits_of :: "u64 \<Rightarrow> 'v list_event list \<Rightarrow> nat" where
  "limits_of sid [] = 0"
| "limits_of sid (e # es) = (case e of Next s page \<Rightarrow> if s = sid then page_limit page else 0 | _ \<Rightarrow> 0) + limits_of sid es"

lemma next_id_advances:
  assumes "unat (lc_next_session_id c) + 1 < 2 ^ 64"
  shows "unat (lc_next_session_id (snd (start_session m c))) = unat (lc_next_session_id c) + 1"
  using assms by (simp add: start_session_def Let_def saturating_add_def unat_word_ariths take_bit_nat_eq_self_iff)

lemma pages_from:
  assumes "btree_ok m" and "session_at sid m n c" and "unat sid < unat (lc_next_session_id c)"
    and "unat (lc_next_session_id c) + length es < 2 ^ 64" and "Stop sid \<notin> set es"
  shows "concat (pages_of sid es c) = take (limits_of sid es) (drop n m)"
  using assms(2-)
proof (induction es arbitrary: n c)
  case (Cons e es)
  show ?case
  proof (cases e)
    case (Start m')
    have id: "unat (lc_next_session_id (apply_event e c)) = unat (lc_next_session_id c) + 1"
      unfolding Start apply_event.simps by (rule next_id_advances) (use Cons.prems(3) in simp)
    have "session_at sid m n (apply_event e c)"
      using Cons.prems(1,2) by (auto simp: Start start_session_def session_at_def Let_def update_conv')
    from Cons.IH [OF this] Cons.prems id show ?thesis by (simp add: Start)
  next
    case (Next s page)
    show ?thesis
    proof (cases "s = sid")
      case True
      note step = list_next_page [OF assms(1) Cons.prems(1), of page]
      have "lc_next_session_id (snd (list_next sid page c)) = lc_next_session_id c"
        by (simp add: list_next_def Let_def split: option.splits)
      with Cons.IH [OF step(2)] Cons.prems step(1) show ?thesis
        by (simp add: Next True take_add add.commute [of n])
    next
      case False
      have "session_at sid m n (apply_event e c)"
        and "lc_next_session_id (apply_event e c) = lc_next_session_id c"
        using Cons.prems(1) False
        by (auto simp: Next session_at_def list_next_def Let_def update_conv' split: option.splits)
      with Cons.IH Cons.prems show ?thesis by (simp add: Next False)
    qed
  next
    case (Stop s)
    have "session_at sid m n (apply_event e c)"
      and "lc_next_session_id (apply_event e c) = lc_next_session_id c"
      using Cons.prems(1,4) by (auto simp: Stop session_at_def stop_session_def delete_conv')
    with Cons.IH Cons.prems show ?thesis by (simp add: Stop)
  qed
qed simp

text \<open>\<^bold>\<open>C14.\<close> 
  Paging is lossless: however the requests for pages of a session are interleaved with other sessions
  that start, read and stop, the pages that the session receives, put together, are an initial
  segment of the directory's entries in order, as long as the page sizes add up to (all of them, once
  the sizes reach their number): no entry is repeated, skipped or out of order.
\<close>

theorem pages_enumerate_entries:
  assumes "btree_ok m" and "start_session m c = (sid, c')" and "Stop sid \<notin> set es"
    and "unat (lc_next_session_id c) + length es + 1 < 2 ^ 64"
  shows "concat (pages_of sid es c') = take (limits_of sid es) m"
proof -
  from assms(2) have sid: "sid = lc_next_session_id c" and c': "c' = snd (start_session m c)"
    by (auto simp: start_session_def Let_def)
  have id: "unat (lc_next_session_id c') = unat (lc_next_session_id c) + 1"
    unfolding c' by (rule next_id_advances) (use assms(4) in simp)
  have "session_at sid m 0 c'"
    by (simp add: c' sid start_session_def Let_def session_at_def update_conv' cursor_at_def)
  from pages_from [OF assms(1) this] id assms(3,4) sid show ?thesis by simp
qed

theorem pages_enumerate_entries_witness:
  "concat (pages_of 1 [Start [], Next 1 1, Next 2 5, Stop 2, Next 1 2]
     (snd (start_session [(''a'', 1 :: nat), (''b'', 2), (''c'', 3), (''d'', 4)] list_cache_new))) =
   [(''a'', 1), (''b'', 2), (''c'', 3)]"
proof -
  let ?m = "[(''a'', 1 :: nat), (''b'', 2), (''c'', 3), (''d'', 4)]"
  let ?es = "[Start [], Next 1 1, Next 2 5, Stop 2, Next 1 2] :: nat list_event list"
  have "concat (pages_of 1 ?es (snd (start_session ?m list_cache_new))) = take (limits_of 1 ?es) ?m"
  proof (rule pages_enumerate_entries)
    show "btree_ok ?m" by code_simp
    show "start_session ?m list_cache_new = (1, snd (start_session ?m list_cache_new))"
      by (simp add: start_session_def list_cache_new_def Let_def)
    show "unat (lc_next_session_id (list_cache_new :: nat list_cache)) + length ?es + 1 < 2 ^ 64"
      by (simp add: list_cache_new_def)
  qed simp
  also have "\<dots> = [(''a'', 1), (''b'', 2), (''c'', 3)]" by (simp add: page_limit_def)
  finally show ?thesis .
qed

end
