(* ===== verification/Fs_Meta_Ops.thy ===== *)
theory Fs_Meta_Ops
  imports Fs_Meta_Db Ndm_Resolve Path_Cache List_Cache
begin

text \<open>
  The path operations of \<open>FSMetaService\<close> (\<open>fs_meta/src/fs_meta_service.rs\<close>): transactions, look-up in a
  directory that overlays a stored directory object, path resolution through the cache, and the
  operations that create, delete, move and list names.

  A service (\<open>fs_service\<close>) is the database, the manager of the named stores, the caches and the root
  inode.  \<open>transaction\<close> is a \<open>TxnGuard\<close>: when its body fails the database is what it was, when it commits, the edges
  it touched are invalidated in the path cache, in the order \<open>sv_iter\<close> in which the \<open>HashSet\<close> is iterated.
  \<open>autocommit\<close> is a handler without a transaction.  Objects that a look-up stores are kept even when the
  transaction around it fails, as in the code.  Operations run one after the other; an operation that
  races another between its statements is not modelled.  A message that quotes another error or an
  object keeps only its own text.
\<close>

section \<open>The service\<close>

record 'j svc_env =
  sv_fs :: "'j fs_env"
  sv_values :: "'j value_crates"
  sv_hash :: "u8 list \<Rightarrow> u64"
  sv_iter :: "(index_node_id \<times> string) set \<Rightarrow> (index_node_id \<times> string) list"

record 'j fs_meta_list_entry =
  fl_name :: string
  fl_target :: dentry_target
  fl_inode :: "'j node_record option"

record ('f, 'j) fs_service =
  sv_db :: fs_conn
  sv_store :: "'f named_data_mgr option"
  sv_cache :: path_resolve_cache
  sv_lists :: "'j fs_meta_list_entry list_cache"
  sv_root :: index_node_id

type_synonym ('f, 'j, 'e, 'a) svm = "('f, 'j) fs_service \<Rightarrow> ('e + 'a) \<times> ('f, 'j) fs_service"
type_synonym ('f, 'j, 'a) sv = "('f, 'j, rpc_error, 'a) svm"

definition sv_ret :: "'a \<Rightarrow> ('f, 'j, 'e, 'a) svm" where
  "sv_ret a S = (Ok a, S)"

definition sv_fail :: "'e \<Rightarrow> ('f, 'j, 'e, 'a) svm" where
  "sv_fail e S = (Err e, S)"

definition sv_bind ::
  "('f, 'j, 'e, 'a) svm \<Rightarrow> ('a \<Rightarrow> ('f, 'j, 'e, 'b) svm) \<Rightarrow> ('f, 'j, 'e, 'b) svm" where
  "sv_bind m f S = (case m S of (Inl e, S') \<Rightarrow> (Err e, S') | (Inr a, S') \<Rightarrow> f a S')"

definition sv_throw :: "string \<Rightarrow> ('f, 'j, 'a) sv" where
  "sv_throw msg = sv_fail (ReasonError msg)"

text \<open>\<open>res.map_err(f)\<close>\<close>

definition sv_map_err :: "('e \<Rightarrow> 'e2) \<Rightarrow> ('f, 'j, 'e, 'a) svm \<Rightarrow> ('f, 'j, 'e2, 'a) svm" where
  "sv_map_err h m S = (case m S of (Inl e, S') \<Rightarrow> (Err (h e), S') | (Inr a, S') \<Rightarrow> (Ok a, S'))"

definition sv_get :: "(('f, 'j) fs_service \<Rightarrow> 'a) \<Rightarrow> ('f, 'j, 'e, 'a) svm" where
  "sv_get f S = (Ok (f S), S)"

text \<open>A handler on the connection of the running transaction.\<close>

definition in_conn :: "'a st \<Rightarrow> ('f, 'j, 'a) sv" where
  "in_conn m S = (case m (sv_db S) of (r, s) \<Rightarrow> (r, S\<lparr>sv_db := s\<rparr>))"

definition invalidate_edges ::
  "'j svc_env \<Rightarrow> (index_node_id \<times> string) set \<Rightarrow> ('f, 'j) fs_service \<Rightarrow> ('f, 'j) fs_service" where
  "invalidate_edges V A S = S\<lparr>sv_cache := fold (\<lambda>(p, n). invalidate_by_edge p n) (sv_iter V A) (sv_cache S)\<rparr>"

definition autocommit :: "'j svc_env \<Rightarrow> 'a st \<Rightarrow> ('f, 'j, 'a) sv" where
  "autocommit V m S =
     (case m ((sv_db S)\<lparr>touched := {}\<rparr>) of
        (r, s) \<Rightarrow> (r, invalidate_edges V (touched s) (S\<lparr>sv_db := s\<lparr>touched := {}\<rparr>\<rparr>)))"

definition transaction :: "'j svc_env \<Rightarrow> ('f, 'j, 'a) sv \<Rightarrow> ('f, 'j, 'a) sv" where
  "transaction V m S =
     (case m (S\<lparr>sv_db := (sv_db S)\<lparr>touched := {}\<rparr>\<rparr>) of
        (Inl e, S') \<Rightarrow> (Err e, S'\<lparr>sv_db := sv_db S\<rparr>)
      | (Inr a, S') \<Rightarrow>
          (Ok a, invalidate_edges V (touched (sv_db S')) (S'\<lparr>sv_db := (sv_db S')\<lparr>touched := {}\<rparr>\<rparr>)))"

abbreviation crates_of :: "'j svc_env \<Rightarrow> 'j ext_crates" where
  "crates_of V \<equiv> fe_crates (sv_fs V)"

section \<open>The directory object below a directory\<close>

datatype base_child_lookup = BaseMissing | BaseDirObj obj_id | BaseNonDirObj obj_id

definition need_store :: "('f, 'j, 'f named_data_mgr) sv" where
  "need_store S =
     (case sv_store S of
        None \<Rightarrow> (Err (ReasonError ''named store manager not configured for DirObject traversal''), S)
      | Some m \<Rightarrow> (Ok m, S))"

text \<open>A method of the store manager that changes it.\<close>

definition on_store ::
  "('f named_data_mgr \<Rightarrow> 'a ndn_result \<times> 'f named_data_mgr) \<Rightarrow> ('f, 'j, 'a ndn_result) sv" where
  "on_store f = sv_bind need_store (\<lambda>m S. case f m of (r, m') \<Rightarrow> (Ok r, S\<lparr>sv_store := Some m'\<rparr>))"

definition lookup_base_dirobj_child ::
  "'j svc_env \<Rightarrow> 'j node_record \<Rightarrow> string \<Rightarrow> ('f, 'j, base_child_lookup) sv" where
  "lookup_base_dirobj_child V dir_node name =
     (case nd_base_obj_id dir_node of
        None \<Rightarrow> sv_ret BaseMissing
      | Some base \<Rightarrow>
          if \<not> is_dir_object base then sv_throw ''invalid base_obj_id type for directory inode: ''
          else
            sv_bind (on_store (ndm_get_dir_child (crates_of V) (sv_values V) (sv_hash V) (fe_now (sv_fs V)) base name))
              (\<lambda>r. case r of
                 Inl (NotFound _) \<Rightarrow> sv_ret BaseMissing
               | Inl _ \<Rightarrow> sv_throw ''failed to lookup base DirObject child: ''
               | Inr child \<Rightarrow> sv_ret (if is_dir_object child then BaseDirObj child else BaseNonDirObj child)))"

fun cache_children ::
  "'j svc_env \<Rightarrow> (string \<times> 'j simple_map_item) list \<Rightarrow> obj_id btree \<Rightarrow> ('f, 'j, obj_id btree) sv" where
  "cache_children V [] out = sv_ret out"
| "cache_children V ((name, item) # rest) out =
     (case item_get_obj_id (crates_of V) item of
        Inl _ \<Rightarrow> sv_throw ''invalid base child entry: ''
      | Inr (oid, obj_str) \<Rightarrow>
          sv_bind
            (if obj_str = [] then sv_ret ()
             else sv_bind (on_store (ndm_put_object (crates_of V) (sv_hash V) (fe_now (sv_fs V)) oid obj_str))
                    (\<lambda>r. case r of Inl _ \<Rightarrow> sv_throw ''failed to cache embedded child object: '' | Inr _ \<Rightarrow> sv_ret ()))
            (\<lambda>_. cache_children V rest (btree_insert name oid out)))"

definition load_base_dir_children :: "'j svc_env \<Rightarrow> 'j node_record \<Rightarrow> ('f, 'j, obj_id btree) sv" where
  "load_base_dir_children V dir_node =
     (case nd_base_obj_id dir_node of
        None \<Rightarrow> sv_ret []
      | Some base \<Rightarrow>
          if \<not> is_dir_object base then sv_throw ''invalid base_obj_id type for directory inode: ''
          else
            sv_bind need_store (\<lambda>m.
            case ndm_get_object (crates_of V) (sv_hash V) base m of
              Inl _ \<Rightarrow> sv_throw ''failed to load base DirObject: ''
            | Inr s \<Rightarrow>
                (case load_dir_object (crates_of V) (sv_values V) s of
                   Inl _ \<Rightarrow> sv_throw ''failed to parse base DirObject: ''
                 | Inr d \<Rightarrow> cache_children V (dir_body d) [])))"

section \<open>Listing\<close>

definition merge_dentry :: "dentry_record \<Rightarrow> dentry_record btree \<Rightarrow> dentry_record btree" where
  "merge_dentry d m =
     (if de_target d = Tombstone then btree_remove (de_name d) m else btree_insert (de_name d) d m)"

definition list_merged_dentries :: "'j svc_env \<Rightarrow> index_node_id \<Rightarrow> ('f, 'j, dentry_record list) sv" where
  "list_merged_dentries V parent =
     sv_bind (in_conn (handle_get_inode (sv_fs V) parent)) (\<lambda>x.
     case x of
       None \<Rightarrow> sv_throw ''parent inode not found''
     | Some parent_node \<Rightarrow>
         if get_node_kind parent_node \<noteq> NodeDir then sv_throw ''parent is not a directory''
         else
           sv_bind (load_base_dir_children V parent_node) (\<lambda>base.
           sv_bind (in_conn (handle_list_dentries parent)) (\<lambda>upper.
           sv_ret (map snd (fold merge_dentry upper
             (map (\<lambda>(name, oid). (name, \<lparr>de_id = 0, de_parent = parent, de_name = name,
                                         de_target = TObjId oid, de_mtime = None\<rparr>)) base))))))"

fun prefetch_entries ::
  "'j svc_env \<Rightarrow> dentry_record list \<Rightarrow> 'j fs_meta_list_entry btree \<Rightarrow> ('f, 'j, 'j fs_meta_list_entry btree) sv" where
  "prefetch_entries V [] out = sv_ret out"
| "prefetch_entries V (d # ds) out =
     sv_bind (case de_target d of
                TIndexNodeId i \<Rightarrow> in_conn (handle_get_inode (sv_fs V) i)
              | _ \<Rightarrow> sv_ret None)
       (\<lambda>inode. prefetch_entries V ds
          (btree_insert (de_name d) \<lparr>fl_name = de_name d, fl_target = de_target d, fl_inode = inode\<rparr> out))"

definition handle_start_list :: "'j svc_env \<Rightarrow> index_node_id \<Rightarrow> ('f, 'j, u64) sv" where
  "handle_start_list V parent =
     sv_bind (list_merged_dentries V parent) (\<lambda>ds.
     sv_bind (prefetch_entries V ds []) (\<lambda>entries S.
     case start_session entries (sv_lists S) of (sid, c) \<Rightarrow> (Ok sid, S\<lparr>sv_lists := c\<rparr>)))"

definition handle_list_next :: "u64 \<Rightarrow> u32 \<Rightarrow> ('f, 'j, 'j fs_meta_list_entry btree) sv" where
  "handle_list_next sid page_size S =
     (case list_next sid page_size (sv_lists S) of
        (Some page, c) \<Rightarrow> (Ok page, S\<lparr>sv_lists := c\<rparr>)
      | (None, c) \<Rightarrow> (Err (ReasonError ''list session not found''), S\<lparr>sv_lists := c\<rparr>))"

definition handle_stop_list :: "u64 \<Rightarrow> ('f, 'j, unit) sv" where
  "handle_stop_list sid S = (Ok (), S\<lparr>sv_lists := snd (stop_session sid (sv_lists S))\<rparr>)"

section \<open>Creating and deleting names\<close>

definition dir_node :: "obj_id option \<Rightarrow> node_state \<Rightarrow> 'j node_record" where
  "dir_node base st = \<lparr>nd_inode_id = 0, nd_ref_by = None, nd_state = st, nd_read_only = False,
     nd_base_obj_id = base, nd_rev = Some 0, nd_meta = None, nd_lease_session = None, nd_lease_seq = None,
     nd_lease_expire_at = None\<rparr>"

definition rev_of :: "'j node_record \<Rightarrow> u64" where
  "rev_of n = (case nd_rev n of None \<Rightarrow> 0 | Some v \<Rightarrow> v)"

definition materialize_dir_from_obj ::
  "'j svc_env \<Rightarrow> index_node_id \<Rightarrow> string \<Rightarrow> obj_id \<Rightarrow> ('f, 'j, index_node_id) sv" where
  "materialize_dir_from_obj V parent name dir_obj_id =
     transaction V (
       sv_bind (sv_map_err (\<lambda>_. ReasonError ''failed to alloc inode: '')
                 (in_conn (handle_alloc_inode (sv_fs V) (dir_node (Some dir_obj_id) DirOverlay)))) (\<lambda>new_id.
       sv_bind (in_conn (get_inode_rev (sv_fs V) parent)) (\<lambda>parent_rev.
       sv_bind (sv_map_err (\<lambda>_. ReasonError ''failed to upsert dentry target: '')
                 (in_conn (upsert_dentry_with_parent_rev (sv_fs V) parent name (TIndexNodeId new_id) parent_rev))) (\<lambda>_.
       sv_ret new_id))))"

definition create_dir_under_parent ::
  "'j svc_env \<Rightarrow> index_node_id \<Rightarrow> string \<Rightarrow> ('f, 'j, index_node_id) sv" where
  "create_dir_under_parent V parent name =
     transaction V (
       sv_bind (in_conn (handle_get_dentry parent name)) (\<lambda>existing.
       let create =
         sv_bind (in_conn (handle_alloc_inode (sv_fs V) (dir_node None DirNormal))) (\<lambda>new_id.
         sv_bind (in_conn (get_inode_rev (sv_fs V) parent)) (\<lambda>parent_rev.
         sv_bind (in_conn (upsert_dentry_with_parent_rev (sv_fs V) parent name (TIndexNodeId new_id) parent_rev)) (\<lambda>_.
         sv_ret new_id)))
       in case existing of
            None \<Rightarrow> create
          | Some d \<Rightarrow>
              (case de_target d of
                 TIndexNodeId i \<Rightarrow>
                   sv_bind (in_conn (handle_get_inode (sv_fs V) i)) (\<lambda>x.
                   case x of
                     None \<Rightarrow> sv_throw ''existing inode not found''
                   | Some node \<Rightarrow>
                       if get_node_kind node \<noteq> NodeDir then sv_throw (name @ '' exists and is not a directory'')
                       else sv_ret i)
               | Tombstone \<Rightarrow> create
               | _ \<Rightarrow> sv_throw (name @ '' exists and is not a directory''))))"

definition ensure_name_absent_for_create ::
  "'j svc_env \<Rightarrow> index_node_id \<Rightarrow> 'j node_record \<Rightarrow> string \<Rightarrow> string \<Rightarrow> ('f, 'j, unit) sv" where
  "ensure_name_absent_for_create V parent parent_node name path_desc =
     sv_bind (in_conn (handle_get_dentry parent name)) (\<lambda>upper.
     case upper of
       Some d \<Rightarrow> if de_target d = Tombstone then sv_ret () else sv_throw (''path '' @ path_desc @ '' already exists'')
     | None \<Rightarrow>
         sv_bind (lookup_base_dirobj_child V parent_node name) (\<lambda>b.
         case b of BaseMissing \<Rightarrow> sv_ret () | _ \<Rightarrow> sv_throw (''path '' @ path_desc @ '' already exists'')))"

text \<open>\<open>format!("#{}/{}", parent, name)\<close>\<close>

definition child_desc :: "index_node_id \<Rightarrow> string \<Rightarrow> string" where
  "child_desc parent name = CHR ''#'' # fmt_u64 parent @ CHR ''/'' # name"

text \<open>The checks on the parent that \<open>set_file\<close>, \<open>set_dir\<close>, \<open>symlink\<close> and \<open>create_dir\<close> begin with.\<close>

definition writable_parent :: "'j svc_env \<Rightarrow> index_node_id \<Rightarrow> ('f, 'j, 'j node_record) sv" where
  "writable_parent V parent =
     sv_bind (in_conn (handle_get_inode (sv_fs V) parent)) (\<lambda>x.
     case x of
       None \<Rightarrow> sv_throw ''parent directory not found''
     | Some parent_node \<Rightarrow>
         if get_node_kind parent_node \<noteq> NodeDir then sv_throw ''parent is not a directory''
         else if nd_read_only parent_node then sv_throw ''parent is read-only''
         else sv_ret parent_node)"

definition handle_set_file :: "'j svc_env \<Rightarrow> index_node_id \<Rightarrow> string \<Rightarrow> obj_id \<Rightarrow> ('f, 'j, string) sv" where
  "handle_set_file V parent name oid =
     (if name = [] then sv_throw ''invalid path''
      else transaction V (
        sv_bind (writable_parent V parent) (\<lambda>parent_node.
        sv_bind (ensure_name_absent_for_create V parent parent_node name (child_desc parent name)) (\<lambda>_.
        sv_bind (in_conn (upsert_dentry_with_parent_rev (sv_fs V) parent name (TObjId oid) (rev_of parent_node))) (\<lambda>_.
        sv_bind (in_conn (handle_obj_stat_bump (sv_fs V) oid 1)) (\<lambda>_.
        sv_ret []))))))"

definition handle_set_dir :: "'j svc_env \<Rightarrow> index_node_id \<Rightarrow> string \<Rightarrow> obj_id \<Rightarrow> ('f, 'j, string) sv" where
  "handle_set_dir V parent name dir_obj_id =
     (if name = [] then sv_throw ''invalid path''
      else if \<not> is_dir_object dir_obj_id then sv_throw ''set_dir requires a DirObject id''
      else transaction V (
        sv_bind (writable_parent V parent) (\<lambda>parent_node.
        sv_bind (ensure_name_absent_for_create V parent parent_node name (child_desc parent name)) (\<lambda>_.
        sv_bind (in_conn (upsert_dentry_with_parent_rev (sv_fs V) parent name (TObjId dir_obj_id) (rev_of parent_node))) (\<lambda>_.
        sv_ret [])))))"

definition handle_symlink :: "'j svc_env \<Rightarrow> index_node_id \<Rightarrow> string \<Rightarrow> string \<Rightarrow> ('f, 'j, unit) sv" where
  "handle_symlink V link_parent link_name target =
     (if link_name = [] then sv_throw ''invalid link path''
      else if target = [] then sv_throw ''invalid target path''
      else transaction V (
        sv_bind (writable_parent V link_parent) (\<lambda>parent_node.
        sv_bind (ensure_name_absent_for_create V link_parent parent_node link_name (child_desc link_parent link_name)) (\<lambda>_.
        in_conn (upsert_dentry_with_parent_rev (sv_fs V) link_parent link_name (TSymLink target) (rev_of parent_node))))))"

definition handle_create_dir :: "'j svc_env \<Rightarrow> index_node_id \<Rightarrow> string \<Rightarrow> ('f, 'j, unit) sv" where
  "handle_create_dir V parent name =
     (if name = [] then sv_throw ''invalid path''
      else transaction V (
        sv_bind (writable_parent V parent) (\<lambda>parent_node.
        sv_bind (ensure_name_absent_for_create V parent parent_node name (child_desc parent name)) (\<lambda>_.
        sv_bind (in_conn (handle_alloc_inode (sv_fs V) (dir_node None DirNormal))) (\<lambda>new_id.
        in_conn (upsert_dentry_with_parent_rev (sv_fs V) parent name (TIndexNodeId new_id) (rev_of parent_node)))))))"

definition handle_delete :: "'j svc_env \<Rightarrow> index_node_id \<Rightarrow> string \<Rightarrow> ('f, 'j, unit) sv" where
  "handle_delete V parent name =
     (if name = [] then sv_throw ''invalid path''
      else
        sv_bind (autocommit V (get_inode_rev (sv_fs V) parent)) (\<lambda>parent_rev.
        autocommit V (set_tombstone_with_parent_rev (sv_fs V) parent name parent_rev)))"

section \<open>Moving\<close>

text \<open>\<open>MoveSource\<close> has the single variant \<open>Upper\<close>, which is its target.\<close>

record move_plan =
  mp_src_parent :: index_node_id
  mp_src_name :: string
  mp_dst_parent :: index_node_id
  mp_dst_name :: string
  mp_src_rev0 :: u64
  mp_dst_rev0 :: u64
  mp_source :: dentry_target

definition plan_move_source :: "'j svc_env \<Rightarrow> index_node_id \<Rightarrow> string \<Rightarrow> ('f, 'j, dentry_target) sv" where
  "plan_move_source V src_parent src_name =
     sv_bind (autocommit V (handle_get_dentry src_parent src_name)) (\<lambda>dentry.
     case dentry of
       None \<Rightarrow> sv_throw ''not found''
     | Some d \<Rightarrow>
         (case de_target d of
            Tombstone \<Rightarrow> sv_throw ''not found''
          | TIndexNodeId i \<Rightarrow>
              sv_bind (autocommit V (handle_get_inode (sv_fs V) i)) (\<lambda>x.
              case x of None \<Rightarrow> sv_throw ''not found'' | Some _ \<Rightarrow> sv_ret (TIndexNodeId i))
          | t \<Rightarrow> sv_ret t))"

fun lock_parents :: "(index_node_id \<times> u64) list \<Rightarrow> unit st" where
  "lock_parents [] = ret ()"
| "lock_parents ((i, expected) # rest) =
     bind (update_nodes (\<lambda>r. n_inode_id r = as_i64 i \<and> coalesce (n_rev r) = as_i64 expected) (\<lambda>r. r)) (\<lambda>updated.
     if updated = 0 then
       bind (query (\<lambda>s. Ok (node_of (as_i64 i) s))) (\<lambda>x.
       if x = None then throw ''not found'' else throw ''conflict'')
     else lock_parents rest)"

definition lock_move_parents_in_order ::
  "index_node_id \<Rightarrow> u64 \<Rightarrow> index_node_id \<Rightarrow> u64 \<Rightarrow> unit st" where
  "lock_move_parents_in_order src_parent src_rev0 dst_parent dst_rev0 =
     lock_parents
       (if dst_parent = src_parent then [(src_parent, src_rev0)]
        else sort_key fst [(src_parent, src_rev0), (dst_parent, dst_rev0)])"

definition apply_move_plan_txn :: "'j svc_env \<Rightarrow> move_plan \<Rightarrow> ('f, 'j, unit) sv" where
  "apply_move_plan_txn V plan =
     transaction V (
       sv_bind (in_conn (handle_get_inode (sv_fs V) (mp_src_parent plan))) (\<lambda>x.
       sv_bind (case x of None \<Rightarrow> sv_throw ''not found'' | Some n \<Rightarrow> sv_ret n) (\<lambda>src_dir.
       sv_bind (in_conn (handle_get_inode (sv_fs V) (mp_dst_parent plan))) (\<lambda>y.
       sv_bind (case y of None \<Rightarrow> sv_throw ''not found'' | Some n \<Rightarrow> sv_ret n) (\<lambda>dst_dir.
       if rev_of src_dir \<noteq> mp_src_rev0 plan \<or> rev_of dst_dir \<noteq> mp_dst_rev0 plan then sv_throw ''conflict''
       else
         sv_bind (in_conn (lock_move_parents_in_order (mp_src_parent plan) (mp_src_rev0 plan)
                            (mp_dst_parent plan) (mp_dst_rev0 plan))) (\<lambda>_.
         sv_bind (in_conn (set_tombstone_with_parent_rev (sv_fs V) (mp_src_parent plan) (mp_src_name plan) (mp_src_rev0 plan))) (\<lambda>_.
         let dst_expected_rev = (if mp_src_parent plan = mp_dst_parent plan then mp_src_rev0 plan + 1 else mp_dst_rev0 plan)
         in in_conn (upsert_dentry_with_parent_rev (sv_fs V) (mp_dst_parent plan) (mp_dst_name plan)
                       (mp_source plan) dst_expected_rev))))))))"

definition handle_move_path ::
  "'j svc_env \<Rightarrow> index_node_id \<Rightarrow> string \<Rightarrow> index_node_id \<Rightarrow> string \<Rightarrow> ('f, 'j, unit) sv" where
  "handle_move_path V src_parent src_name dst_parent dst_name =
     (if src_name = [] \<or> dst_name = [] then sv_throw ''invalid name''
      else if src_parent = dst_parent \<and> src_name = dst_name then sv_ret ()
      else
        sv_bind (autocommit V (handle_get_inode (sv_fs V) src_parent)) (\<lambda>x.
        sv_bind (case x of None \<Rightarrow> sv_throw ''not found'' | Some n \<Rightarrow> sv_ret n) (\<lambda>src_dir.
        sv_bind (autocommit V (handle_get_inode (sv_fs V) dst_parent)) (\<lambda>y.
        sv_bind (case y of None \<Rightarrow> sv_throw ''not found'' | Some n \<Rightarrow> sv_ret n) (\<lambda>dst_dir.
        if get_node_kind src_dir \<noteq> NodeDir \<or> get_node_kind dst_dir \<noteq> NodeDir then sv_throw ''not found''
        else if nd_read_only src_dir \<or> nd_read_only dst_dir then sv_throw ''read only''
        else
          sv_bind (plan_move_source V src_parent src_name) (\<lambda>source.
          sv_bind (case source of
                     TIndexNodeId i \<Rightarrow>
                       sv_bind (autocommit V (handle_get_inode (sv_fs V) i)) (\<lambda>z.
                       case z of
                         None \<Rightarrow> sv_throw ''not found''
                       | Some node \<Rightarrow>
                           if get_node_kind node = NodeDir \<and> i = dst_parent then sv_throw ''invalid name''
                           else sv_ret ())
                   | _ \<Rightarrow> sv_ret ()) (\<lambda>_.
          apply_move_plan_txn V \<lparr>mp_src_parent = src_parent, mp_src_name = src_name, mp_dst_parent = dst_parent,
            mp_dst_name = dst_name, mp_src_rev0 = rev_of src_dir, mp_dst_rev0 = rev_of dst_dir,
            mp_source = source\<rparr>)))))))"

section \<open>Resolving paths\<close>

datatype 'j resolve_path_item =
    RInode index_node_id "'j node_record"
  | RObjId obj_id
  | RSymLink string

record 'j resolve_path_resp =
  rr_item :: "'j resolve_path_item"
  rr_inner_path :: "string option"

definition DEFAULT_SYMLINK_COUNT :: nat where "DEFAULT_SYMLINK_COUNT = 40"

definition internal :: "string \<Rightarrow> ('f, 'j, 'a) sv \<Rightarrow> ('f, 'j, ndn_error, 'a) svm" where
  "internal msg m = sv_map_err (\<lambda>_. Internal msg) m"

text \<open>What a name in a directory leads to: the upper entry, or the child of the base object.  \<open>None\<close> is the
  result \<open>Ok(None)\<close> of the resolution.\<close>

definition lookup_target ::
  "'j svc_env \<Rightarrow> index_node_id \<Rightarrow> string \<Rightarrow> ('f, 'j, ndn_error, dentry_target option) svm" where
  "lookup_target V current_id name =
     sv_bind (internal ''failed to get dentry: '' (autocommit V (handle_get_dentry current_id name))) (\<lambda>x.
     case x of
       Some d \<Rightarrow> sv_ret (Some (de_target d))
     | None \<Rightarrow>
         sv_bind (internal ''failed to get inode: '' (autocommit V (handle_get_inode (sv_fs V) current_id))) (\<lambda>y.
         case y of
           None \<Rightarrow> sv_fail (Internal ''parent inode not found'')
         | Some parent_node \<Rightarrow>
             if get_node_kind parent_node \<noteq> NodeDir then sv_ret None
             else
               sv_bind (internal ''failed to lookup base child: '' (lookup_base_dirobj_child V parent_node name)) (\<lambda>b.
               case b of
                 BaseMissing \<Rightarrow> sv_ret None
               | BaseDirObj oid \<Rightarrow> sv_ret (Some (TObjId oid))
               | BaseNonDirObj oid \<Rightarrow> sv_ret (Some (TObjId oid)))))"

definition inode_resp :: "index_node_id \<Rightarrow> 'j node_record option \<Rightarrow> 'j resolve_path_resp option" where
  "inode_resp i = map_option (\<lambda>inode. \<lparr>rr_item = RInode i inode, rr_inner_path = None\<rparr>)"

definition update_cache :: "(path_resolve_cache \<Rightarrow> path_resolve_cache) \<Rightarrow> ('f, 'j, 'e, unit) svm" where
  "update_cache f S = (Ok (), S\<lparr>sv_cache := f (sv_cache S)\<rparr>)"

text \<open>How the walk along the components ends: with the answer, or at a symbolic link whose target is
  to be followed by the rest of the path.\<close>

datatype 'j walk_outcome =
    WDone "'j resolve_path_resp option"
  | WLink "string list" string "string list"

fun walk_components ::
  "'j svc_env \<Rightarrow> index_node_id list \<Rightarrow> index_node_id \<Rightarrow> string list \<Rightarrow> string list
   \<Rightarrow> ('f, 'j, ndn_error, 'j walk_outcome) svm" where
  "walk_components V ids current_id before [] = sv_ret (WDone None)"
| "walk_components V ids current_id before (name # tail) =
     sv_bind (lookup_target V current_id name) (\<lambda>target.
     case target of
       None \<Rightarrow> sv_ret (WDone None)
     | Some Tombstone \<Rightarrow> sv_ret (WDone None)
     | Some (TIndexNodeId i) \<Rightarrow>
         if tail = [] then
           sv_bind (internal ''failed to get inode: '' (autocommit V (handle_get_inode (sv_fs V) i))) (\<lambda>node.
           sv_bind (if node = None then sv_ret ()
                    else update_cache (put_ids_for_path (before @ [name]) (ids @ [i]))) (\<lambda>_.
           sv_ret (WDone (inode_resp i node))))
         else walk_components V (ids @ [i]) i (before @ [name]) tail
     | Some (TObjId oid) \<Rightarrow>
         sv_bind (update_cache (put_terminal_for_path (before @ [name]) ids (PtObjId oid))) (\<lambda>_.
         sv_ret (WDone (Some \<lparr>rr_item = RObjId oid, rr_inner_path = join_components tail\<rparr>)))
     | Some (TSymLink target_path) \<Rightarrow>
         sv_bind (update_cache (put_terminal_for_path (before @ [name]) ids (PtSymLink target_path))) (\<lambda>_.
         sv_ret (WLink before target_path tail)))"

text \<open>The terminal that the cache has for a prefix of the path.\<close>

definition cached_terminal ::
  "string list \<Rightarrow> ('f, 'j, ndn_error, 'j walk_outcome option) svm" where
  "cached_terminal components S =
     (case get_terminal_for_path components (sv_cache S) of
        (hit, c) \<Rightarrow>
          (Ok (case hit of
                 None \<Rightarrow> None
               | Some h \<Rightarrow>
                   let tail = drop (hit_matched_len h) components
                   in (case hit_value h of
                         PtObjId oid \<Rightarrow> Some (WDone (Some \<lparr>rr_item = RObjId oid, rr_inner_path = join_components tail\<rparr>))
                       | PtSymLink target_path \<Rightarrow> Some (WLink (take (hit_matched_len h - 1) components) target_path tail))),
           S\<lparr>sv_cache := c\<rparr>))"

text \<open>One round of the loop.\<close>

definition resolve_round ::
  "'j svc_env \<Rightarrow> string list \<Rightarrow> ('f, 'j, ndn_error, 'j walk_outcome) svm" where
  "resolve_round V components =
     sv_bind (sv_get sv_root) (\<lambda>root_id.
     if components = [] then
       sv_bind (internal ''failed to get root inode: '' (autocommit V (handle_get_inode (sv_fs V) root_id))) (\<lambda>node.
       sv_ret (WDone (inode_resp root_id node)))
     else
       sv_bind (cached_terminal components) (\<lambda>hit.
       case hit of
         Some w \<Rightarrow> sv_ret w
       | None \<Rightarrow>
           sv_bind (sv_get (\<lambda>S. get_longest_prefix_ids_for_path components (sv_cache S))) (\<lambda>cached.
           let ids = (case cached of Some prefix_ids \<Rightarrow> prefix_ids | None \<Rightarrow> [root_id]);
               current_id = (if ids = [] then root_id else last ids);
               start_idx = length ids - 1
           in if start_idx = length components then
                sv_bind (internal ''failed to get inode: '' (autocommit V (handle_get_inode (sv_fs V) current_id))) (\<lambda>node.
                sv_ret (WDone (inode_resp current_id node)))
              else walk_components V ids current_id (take start_idx components) (drop start_idx components))))"

text \<open>The loop: every round that is not the last one follows a symbolic link and lowers \<open>sym_count\<close>.\<close>

fun resolve_loop ::
  "'j svc_env \<Rightarrow> nat \<Rightarrow> string list \<Rightarrow> ('f, 'j) fs_service
   \<Rightarrow> 'j resolve_path_resp option ndn_result \<times> ('f, 'j) fs_service" where
  "resolve_loop V sym_count components S =
     (case resolve_round V components S of
        (Inl e, S') \<Rightarrow> (Err e, S')
      | (Inr (WDone r), S') \<Rightarrow> (Ok r, S')
      | (Inr (WLink parent_prefix target_path tail), S') \<Rightarrow>
          if sym_count = 0 then
            (Ok (Some \<lparr>rr_item = RSymLink target_path, rr_inner_path = join_components tail\<rparr>), S')
          else resolve_loop V (sym_count - 1) (normalize_symlink_target_path parent_prefix target_path tail) S')"

declare resolve_loop.simps [simp del]

definition handle_resolve_path_ex ::
  "'j svc_env \<Rightarrow> string \<Rightarrow> nat \<Rightarrow> ('f, 'j, ndn_error, 'j resolve_path_resp option) svm" where
  "handle_resolve_path_ex V path sym_count = resolve_loop V sym_count (nfs_components path)"

section \<open>Creating the directories of a path\<close>

fun ensure_components ::
  "'j svc_env \<Rightarrow> string list \<Rightarrow> index_node_id \<Rightarrow> string list \<Rightarrow> ('f, 'j, index_node_id) sv" where
  "ensure_components V before current_id [] = sv_ret current_id"
| "ensure_components V before current_id (component # rest) =
     sv_bind (autocommit V (handle_get_dentry current_id component)) (\<lambda>dentry.
     let not_a_dir = (\<lambda>cs. sv_throw (str_join (CHR ''/'') cs @ '' is not a directory''))
     in sv_bind
       (case dentry of
          Some d \<Rightarrow>
            (case de_target d of
               TIndexNodeId i \<Rightarrow>
                 sv_bind (autocommit V (handle_get_inode (sv_fs V) i)) (\<lambda>x.
                 case x of
                   None \<Rightarrow> sv_throw ''inode not found''
                 | Some node \<Rightarrow>
                     if get_node_kind node \<noteq> NodeDir then not_a_dir (before @ [component]) else sv_ret i)
             | TObjId oid \<Rightarrow>
                 if \<not> is_dir_object oid then sv_throw (''path component '' @ component @ '' points to non-directory object'')
                 else materialize_dir_from_obj V current_id component oid
             | TSymLink _ \<Rightarrow> not_a_dir (before @ [component])
             | Tombstone \<Rightarrow> create_dir_under_parent V current_id component)
        | None \<Rightarrow>
            sv_bind (autocommit V (handle_get_inode (sv_fs V) current_id)) (\<lambda>x.
            case x of
              None \<Rightarrow> sv_throw ''parent inode not found''
            | Some parent_node \<Rightarrow>
                if get_node_kind parent_node \<noteq> NodeDir then not_a_dir before
                else
                  sv_bind (lookup_base_dirobj_child V parent_node component) (\<lambda>b.
                  case b of
                    BaseDirObj child \<Rightarrow> materialize_dir_from_obj V current_id component child
                  | BaseNonDirObj _ \<Rightarrow> not_a_dir (before @ [component])
                  | BaseMissing \<Rightarrow> create_dir_under_parent V current_id component)))
       (\<lambda>next_id. ensure_components V (before @ [component]) next_id rest))"

definition ensure_dir_inode :: "'j svc_env \<Rightarrow> string \<Rightarrow> ('f, 'j, index_node_id) sv" where
  "ensure_dir_inode V path =
     (if nfs_is_root path then sv_get sv_root
      else
        sv_bind (sv_map_err (\<lambda>_. ReasonError ''resolve failed'') (handle_resolve_path_ex V path DEFAULT_SYMLINK_COUNT)) (\<lambda>r.
        let walk = sv_bind (sv_get sv_root) (\<lambda>root. ensure_components V [] root (nfs_components path));
            not_dir = sv_throw (path @ '' is not a directory'')
        in case r of
             None \<Rightarrow> walk
           | Some resp \<Rightarrow>
               (case rr_item resp of
                  RInode i node \<Rightarrow> if get_node_kind node \<noteq> NodeDir then not_dir else sv_ret i
                | RSymLink _ \<Rightarrow> not_dir
                | RObjId oid \<Rightarrow> if \<not> is_dir_object oid then not_dir else walk)))"

end
