(* ===== verification/Fs_Meta_View.thy ===== *)
theory Fs_Meta_View
  imports Ndm_Props Fs_Meta_Ops Fs_Meta_Props "HOL-Library.Product_Lexorder"
begin

text \<open>
  What the path operations of the metadata service do to the directory tree.  \<open>look\<close> is the entry that a
  name has in a directory, the upper entry or else the child of the directory object below; \<open>quiet\<close> says
  that a change of the database is confined to the edges it reports as touched.  The theorems: an
  operation that fails changes nothing, one that creates a name makes exactly this name visible, and
  \<open>move\<close> transfers exactly one entry.
\<close>

section \<open>Changes confined to the touched edges\<close>

definition static_cols :: "node_row \<Rightarrow> int \<times> u8 list option \<times> node_state_cols \<times> string option \<times> int option" where
  "static_cols r = (n_read_only r, n_base_obj_id r, n_cols r, n_meta_json r, n_lease_seq r)"

definition node_static ::
  "int \<Rightarrow> fs_conn \<Rightarrow> (int \<times> u8 list option \<times> node_state_cols \<times> string option \<times> int option) option" where
  "node_static i s = map_option static_cols (node_of i s)"

definition quiet :: "fs_conn \<Rightarrow> fs_conn \<Rightarrow> bool" where
  "quiet s s' \<longleftrightarrow> touched s \<subseteq> touched s' \<and>
     (\<forall>p n. (p, n) \<in> touched s' \<or> entries s' (as_i64 p, n) = entries s (as_i64 p, n)) \<and>
     (\<forall>i x. node_static i s = Some x \<longrightarrow> node_static i s' = Some x)"

interpretation quiet: frame quiet
proof
  fix s s1 s2 s3 :: fs_conn
  show "quiet s s" by (simp add: quiet_def)
  assume a: "quiet s1 s2" and b: "quiet s2 s3"
  have "(p, n) \<in> touched s3 \<or> entries s3 (as_i64 p, n) = entries s1 (as_i64 p, n)" for p n
    using a b unfolding quiet_def by (cases "(p, n) \<in> touched s3") (blast, metis subsetD)
  with a b show "quiet s1 s3" unfolding quiet_def by blast
qed

lemma node_static_update:
  assumes "\<And>r. n_inode_id (f r) = n_inode_id r" and "\<And>r. static_cols (f r) = static_cols r"
  shows "node_static i (s\<lparr>nodes := sql_update p f (nodes s)\<rparr>) = node_static i s"
  by (cases "node_of i s") (simp_all add: node_static_def assms)

lemma node_static_frame [simp]:
  "node_static i (rev_bumped V p s) = node_static i s"
  "node_static i (Fs_Meta_Inv.claimed V j d s) = node_static i s"
  "node_static i (unclaimed V j d s) = node_static i s"
  unfolding rev_bumped_def Fs_Meta_Inv.claimed_def unclaimed_def
  by (rule node_static_update; simp add: static_cols_def)+

lemma node_static_targets [simp]:
  "node_static i (claim_target V t d s) = node_static i s"
  "node_static i (release_entry V e s) = node_static i s"
  by (simp_all add: claim_target_def release_entry_def split: option.splits)

lemma node_static_tables [simp]:
  "node_static i (s\<lparr>dentries := ds, dentry_seq := q\<rparr>) = node_static i s"
  "node_static i (s\<lparr>dentries := ds\<rparr>) = node_static i s"
  "node_static i (s\<lparr>touched := e\<rparr>) = node_static i s"
  "node_static i (s\<lparr>obj_stats := st\<rparr>) = node_static i s"
  by (simp_all add: node_static_def node_of_def)

lemma created_quiet: "create_guard p name t v s \<Longrightarrow> quiet s (created V p name t s)"
  using created_entries [of p name t v s V]
  by (auto simp: quiet_def created_def Let_def)

lemma replaced_quiet:
  assumes "fs_inv s" and "dentry_of (as_i64 p) name s = Some d"
  shows "quiet s (replaced V p name d t s)"
  using replaced_entries [OF assms, of V t] by (auto simp: quiet_def replaced_def)

lemma upsert_quiet:
  assumes inv: "fs_inv s" and u: "upsert_dentry_with_parent_rev V p name t v s = (r, s')"
  shows "quiet s s'"
proof (cases r)
  case (Inl e)
  with u have "s' = s" using entry_handlers_Err(4) by blast
  then show ?thesis by (simp add: quiet.refl)
next
  case (Inr a)
  have dist: "distinct (map n_inode_id (nodes s))" using inv by (simp add: fs_inv_def)
  from u Inr obtain x where x: "handle_get_dentry p name s = (Ok x, s)"
    and k: "(case x of Some e \<Rightarrow> handle_replace_target V p name (de_target e) t v
             | None \<Rightarrow> handle_create_dentry V p name t v) s = (Ok a, s')"
    by (auto simp: upsert_dentry_with_parent_rev_def bind_eq_Ok dest: get_dentry_state)
  show ?thesis
  proof (cases x)
    case None
    with k show ?thesis by (auto simp: handle_create_dentry_Ok [OF dist] created_quiet)
  next
    case (Some e)
    with k obtain d where "replace_guard p name (de_target e) t v d s"
      and "s' = (if entry_cols d = dentry_target_cols t then s else replaced V p name d t s)"
      by (auto simp: handle_replace_target_Ok [OF inv])
    then show ?thesis using replaced_quiet [OF inv] by (auto simp: replace_guard_def quiet.refl)
  qed
qed

lemma node_of_append_old: "node_of i s = Some r \<Longrightarrow> node_of i (s\<lparr>nodes := nodes s @ [row]\<rparr>) = Some r"
  by (auto simp: node_of_def find_Some_iff nth_append)

lemma alloc_quiet:
  assumes "handle_alloc_inode V n s = (r, s')"
  shows "quiet s s'"
proof -
  have "quiet s (s\<lparr>nodes := nodes s @ [row]\<rparr>)" for row
    by (auto simp: quiet_def entries_def dentry_of_def node_static_def node_of_append_old)
  with alloc_inode_cases [OF assms] show ?thesis by (auto simp: quiet.refl)
qed

lemma stat_bump_quiet: "confined quiet (handle_obj_stat_bump V oid delta)"
proof -
  have "quiet s (s\<lparr>obj_stats := st\<rparr>)" for s st
    by (simp add: quiet_def entries_def dentry_of_def)
  then show ?thesis
    unfolding handle_obj_stat_bump_def Let_def
    by (intro quiet.confined_bind quiet.confined_if quiet.confined_ret quiet.confined_throw quiet.confined_query;
        simp add: confined_def)
qed

section \<open>The entry of a name\<close>

definition target_at :: "index_node_id \<Rightarrow> string \<Rightarrow> fs_conn \<Rightarrow> dentry_target option rpc_result" where
  "target_at p name s = and_then (fst (handle_get_dentry p name s)) (\<lambda>x. Ok (map_option de_target x))"

text \<open>The target is read from the columns that \<open>entries\<close> shows.\<close>

definition target_of_cols :: "int \<times> int option \<times> u8 list option \<Rightarrow> dentry_target rpc_result" where
  "target_of_cols c = (case c of (ty, ti, tob) \<Rightarrow>
     and_then (parse_dentry \<lparr>d_id = 0, d_parent = 0, d_name = [], d_target_type = ty, d_target_inode = ti,
       d_target_obj = tob, d_mtime = None\<rparr>) (\<lambda>d. Ok (de_target d)))"

lemma and_then_Ok [simp]: "and_then (Ok a) f = f a" and and_then_Err [simp]: "and_then (Err e) f = Err e"
  by (simp_all add: and_then_def)

lemma and_then_assoc: "and_then (and_then r f) g = and_then r (\<lambda>a. and_then (f a) g)"
  by (cases r) simp_all

lemma target_at_entries:
  "target_at p name s = (case entries s (as_i64 p, name) of
     None \<Rightarrow> Ok None | Some c \<Rightarrow> and_then (target_of_cols c) (\<lambda>t. Ok (Some t)))"
proof (cases "dentry_of (as_i64 p) name s")
  case None
  then show ?thesis by (simp add: target_at_def handle_get_dentry_def query_def entries_def)
next
  case (Some d)
  have "and_then (parse_dentry d) (\<lambda>e. Ok (de_target e)) = target_of_cols (entry_cols d)"
    by (simp add: target_of_cols_def entry_cols_def parse_dentry_def and_then_assoc split: option.split)
  then have "and_then (target_of_cols (entry_cols d)) (\<lambda>t. Ok (Some t)) =
      and_then (parse_dentry d) (\<lambda>e. Ok (Some (de_target e)))"
    by (simp add: and_then_assoc flip: \<open>and_then (parse_dentry d) _ = _\<close>)
  with Some show ?thesis
    by (simp add: target_at_def handle_get_dentry_def query_def entries_def and_then_assoc)
qed

fun target_ok :: "dentry_target \<Rightarrow> bool" where
  "target_ok (TObjId oid) \<longleftrightarrow> blob_ok oid"
| "target_ok (TSymLink path) \<longleftrightarrow> utf8_valid (as_bytes path)"
| "target_ok _ \<longleftrightarrow> True"

lemma target_of_cols_ok: "target_ok t \<Longrightarrow> target_of_cols (dentry_target_cols t) = Ok t"
  by (cases t) (simp_all add: target_of_cols_def parse_dentry_def ok_or_def obj_id_from_blob_to_blob
      symlink_path_from_blob_def symlink_path_to_blob_def string_from_utf8_def)

section \<open>Running an operation\<close>

lemma sv_bind_Ok:
  "sv_bind m f S = (Ok b, S') \<longleftrightarrow> (\<exists>a S1. m S = (Ok a, S1) \<and> f a S1 = (Ok b, S'))"
  by (auto simp: sv_bind_def split: prod.splits sum.splits)

lemma sv_ret_Ok [simp]: "sv_ret a S = (r, S') \<longleftrightarrow> r = Ok a \<and> S' = S"
  by (auto simp: sv_ret_def)

lemma sv_throw_eq [simp]: "sv_throw msg S = (r, S') \<longleftrightarrow> r = Err (ReasonError msg) \<and> S' = S"
  by (auto simp: sv_throw_def sv_fail_def)

lemma in_conn_Ok: "in_conn m S = (Ok a, S') \<longleftrightarrow> (\<exists>s. m (sv_db S) = (Ok a, s) \<and> S' = S\<lparr>sv_db := s\<rparr>)"
  by (auto simp: in_conn_def split: prod.splits)

lemma transaction_Ok:
  "transaction V m S = (Ok a, S') \<longleftrightarrow> (\<exists>S1. m (S\<lparr>sv_db := (sv_db S)\<lparr>touched := {}\<rparr>\<rparr>) = (Ok a, S1) \<and>
     S' = invalidate_edges V (touched (sv_db S1)) (S1\<lparr>sv_db := (sv_db S1)\<lparr>touched := {}\<rparr>\<rparr>))"
  by (auto simp: transaction_def split: prod.splits sum.splits)

lemma transaction_Err: "transaction V m S = (Err e, S') \<Longrightarrow> sv_db S' = sv_db S"
  by (auto simp: transaction_def split: prod.splits sum.splits)

lemma invalidate_edges_simps [simp]:
  "sv_db (invalidate_edges V A S) = sv_db S" "sv_store (invalidate_edges V A S) = sv_store S"
  "sv_root (invalidate_edges V A S) = sv_root S" "sv_lists (invalidate_edges V A S) = sv_lists S"
  by (simp_all add: invalidate_edges_def)

text \<open>\<open>HashSet\<close> iteration visits exactly the elements.\<close>

definition iter_ok :: "'j svc_env \<Rightarrow> bool" where
  "iter_ok V \<longleftrightarrow> (\<forall>A. finite A \<longrightarrow> set (sv_iter V A) = A)"

lemma iter_empty [simp]: "iter_ok V \<Longrightarrow> sv_iter V {} = []"
  unfolding iter_ok_def by (metis finite.emptyI set_empty)

lemma touched_empty_id: "touched s = {} \<Longrightarrow> s\<lparr>touched := {}\<rparr> = s"
  by (cases s) simp

text \<open>A handler that only reads.\<close>

definition idle :: "('f, 'j) fs_service \<Rightarrow> bool" where
  "idle S \<longleftrightarrow> touched (sv_db S) = {}"

lemma autocommit_same:
  assumes "iter_ok V" and "idle S" and "m (sv_db S) = (r, sv_db S)"
  shows "autocommit V m S = (r, S)"
proof -
  have eq: "(sv_db S)\<lparr>touched := {}\<rparr> = sv_db S" using assms(2) by (simp add: idle_def touched_empty_id)
  have "invalidate_edges V {} S = S" using assms(1) by (simp add: invalidate_edges_def)
  then show ?thesis using assms(2,3) unfolding autocommit_def eq by (simp add: idle_def eq)
qed

lemma autocommit_get_inode [simp]:
  "iter_ok V \<Longrightarrow> idle S \<Longrightarrow> autocommit V (handle_get_inode W i) S = (fst (handle_get_inode W i (sv_db S)), S)"
  by (rule autocommit_same) (simp_all add: handle_get_inode_def query_def)

lemma autocommit_get_dentry [simp]:
  "iter_ok V \<Longrightarrow> idle S \<Longrightarrow> autocommit V (handle_get_dentry p n) S = (fst (handle_get_dentry p n (sv_db S)), S)"
  by (rule autocommit_same) (simp_all add: handle_get_dentry_def query_def)

lemma autocommit_get_rev [simp]:
  "iter_ok V \<Longrightarrow> idle S \<Longrightarrow> autocommit V (get_inode_rev W i) S = (fst (get_inode_rev W i (sv_db S)), S)"
  by (rule autocommit_same)
    (simp_all add: get_inode_rev_def handle_get_inode_def bind_def query_def ret_def throw_def split: sum.splits option.splits)

lemma in_conn_get_inode [simp]: "in_conn (handle_get_inode W i) S = (fst (handle_get_inode W i (sv_db S)), S)"
  by (simp add: in_conn_def handle_get_inode_def query_def)

lemma in_conn_get_dentry [simp]: "in_conn (handle_get_dentry p n) S = (fst (handle_get_dentry p n (sv_db S)), S)"
  by (simp add: in_conn_def handle_get_dentry_def query_def)

lemma autocommit_upsert_Err:
  assumes "idle S" and "autocommit V (upsert_dentry_with_parent_rev W p n t v) S = (Err e, S')"
  shows "sv_db S' = sv_db S"
proof -
  have id: "(sv_db S)\<lparr>touched := {}\<rparr> = sv_db S" using assms(1) by (simp add: idle_def touched_empty_id)
  from assms(2) obtain s where "upsert_dentry_with_parent_rev W p n t v (sv_db S) = (Err e, s)"
    and S': "sv_db S' = s\<lparr>touched := {}\<rparr>"
    by (auto simp: autocommit_def id split: prod.splits)
  then have "s = sv_db S" by (rule_tac entry_handlers_Err(4))
  with S' id show ?thesis by simp
qed

lemma sv_bind_ret [simp]: "sv_bind (sv_ret a) f S = f a S"
  by (simp add: sv_bind_def sv_ret_def)

lemma sv_bind_throw [simp]: "sv_bind (sv_throw msg) f S = (Err (ReasonError msg), S)"
  by (simp add: sv_bind_def sv_throw_def sv_fail_def)

lemma sv_bind_get_inode [simp]:
  "iter_ok V \<Longrightarrow> idle S \<Longrightarrow> sv_bind (autocommit V (handle_get_inode W i)) f S =
     (case fst (handle_get_inode W i (sv_db S)) of Inl e \<Rightarrow> (Err e, S) | Inr x \<Rightarrow> f x S)"
  by (simp add: sv_bind_def)

lemma sv_bind_get_dentry [simp]:
  "iter_ok V \<Longrightarrow> idle S \<Longrightarrow> sv_bind (autocommit V (handle_get_dentry p n)) f S =
     (case fst (handle_get_dentry p n (sv_db S)) of Inl e \<Rightarrow> (Err e, S) | Inr x \<Rightarrow> f x S)"
  by (simp add: sv_bind_def)

text \<open>The operations that change names.\<close>

datatype fs_op =
    FSetFile index_node_id string obj_id
  | FSetDir index_node_id string obj_id
  | FSymlink index_node_id string string
  | FCreateDir index_node_id string
  | FDelete index_node_id string
  | FMove index_node_id string index_node_id string

fun run_op :: "'j svc_env \<Rightarrow> fs_op \<Rightarrow> ('f, 'j, unit) sv" where
  "run_op V (FSetFile p n oid) = sv_bind (handle_set_file V p n oid) (\<lambda>_. sv_ret ())"
| "run_op V (FSetDir p n oid) = sv_bind (handle_set_dir V p n oid) (\<lambda>_. sv_ret ())"
| "run_op V (FSymlink p n t) = handle_symlink V p n t"
| "run_op V (FCreateDir p n) = handle_create_dir V p n"
| "run_op V (FDelete p n) = handle_delete V p n"
| "run_op V (FMove p n q m) = handle_move_path V p n q m"

lemma sv_bind_Err:
  "sv_bind m f S = (Err e, S') \<longleftrightarrow> m S = (Err e, S') \<or> (\<exists>a S1. m S = (Ok a, S1) \<and> f a S1 = (Err e, S'))"
  by (auto simp: sv_bind_def split: prod.splits sum.splits)

lemma plan_move_source_state:
  assumes "iter_ok V" and "idle S" and "plan_move_source V p n S = (r, S')"
  shows "S' = S"
  using assms
  by (auto simp: plan_move_source_def sv_bind_def split: prod.splits sum.splits option.splits dentry_target.splits)

definition plan_of :: "index_node_id \<Rightarrow> string \<Rightarrow> index_node_id \<Rightarrow> string \<Rightarrow> 'j node_record \<Rightarrow> 'j node_record \<Rightarrow> dentry_target \<Rightarrow> move_plan" where
  "plan_of sp sn dp dn src dst t = \<lparr>mp_src_parent = sp, mp_src_name = sn, mp_dst_parent = dp, mp_dst_name = dn,
     mp_src_rev0 = rev_of src, mp_dst_rev0 = rev_of dst, mp_source = t\<rparr>"

lemma move_cases:
  fixes S :: "('f, 'j) fs_service"
  assumes it: "iter_ok V" "idle S" and mv: "handle_move_path V sp sn dp dn S = (r, S')"
  obtains (same) "S' = S" "r = Ok () \<Longrightarrow> sp = dp \<and> sn = dn"
  | (plan) src dst t where "plan_move_source V sp sn S = (Ok t, S)" "\<not> nd_read_only src" "\<not> nd_read_only dst"
      "fst (handle_get_inode (sv_fs V) sp (sv_db S)) = Ok (Some src)" "fst (handle_get_inode (sv_fs V) dp (sv_db S)) = Ok (Some dst)"
      "(sp, sn) \<noteq> (dp, dn)" "apply_move_plan_txn V (plan_of sp sn dp dn src dst t) S = (r, S')"
proof -
  let ?g = "\<lambda>i. fst (handle_get_inode (sv_fs V) i (sv_db S))"
  consider (early) "S' = S \<and> (r = Ok () \<longrightarrow> sp = dp \<and> sn = dn)"
    | (both) src dst where "?g sp = Ok (Some src)" "?g dp = Ok (Some dst)" "\<not> nd_read_only src" "\<not> nd_read_only dst"
        "get_node_kind src = NodeDir" "get_node_kind dst = NodeDir" "sn \<noteq> []" "dn \<noteq> []" "(sp, sn) \<noteq> (dp, dn)"
    using mv it by (auto simp: handle_move_path_def split: if_splits sum.splits option.splits)
  then show thesis
  proof cases
    case early
    then show thesis using same by blast
  next
    case both
    obtain q S1 where q: "plan_move_source V sp sn S = (q, S1)" by (cases "plan_move_source V sp sn S")
    have S1: "S1 = S" by (rule plan_move_source_state [OF it q])
    have h: "handle_move_path V sp sn dp dn S =
        sv_bind (plan_move_source V sp sn) (\<lambda>source.
          sv_bind (case source of
                     TIndexNodeId i \<Rightarrow>
                       sv_bind (autocommit V (handle_get_inode (sv_fs V) i)) (\<lambda>z.
                       case z of
                         None \<Rightarrow> sv_throw ''not found''
                       | Some node \<Rightarrow>
                           if get_node_kind node = NodeDir \<and> i = dp then sv_throw ''invalid name''
                           else sv_ret ())
                   | _ \<Rightarrow> sv_ret ()) (\<lambda>_.
          apply_move_plan_txn V (plan_of sp sn dp dn src dst source))) S"
      using both it by (auto simp: handle_move_path_def plan_of_def)
    show thesis
    proof (cases q)
      case (Inl e)
      with mv h q S1 have "S' = S" "r = Err e" by (simp_all add: sv_bind_def)
      then show thesis using same by simp
    next
      case (Inr t)
      define guard :: "('f, 'j, unit) sv" where "guard = (case t of
                     TIndexNodeId i \<Rightarrow>
                       sv_bind (autocommit V (handle_get_inode (sv_fs V) i)) (\<lambda>z.
                       case z of
                         None \<Rightarrow> sv_throw ''not found''
                       | Some node \<Rightarrow>
                           if get_node_kind node = NodeDir \<and> i = dp then sv_throw ''invalid name''
                           else sv_ret ())
                   | _ \<Rightarrow> sv_ret ())"
      obtain g S2 where g: "guard S = (g, S2)" by (cases "guard S")
      have S2: "S2 = S" using g it unfolding guard_def
        by (auto simp: sv_bind_def split: dentry_target.splits sum.splits option.splits if_splits)
      have step: "sv_bind guard (\<lambda>_. apply_move_plan_txn V (plan_of sp sn dp dn src dst t)) S = (r, S')"
        using mv unfolding h guard_def by (subst (asm) sv_bind_def) (simp add: q S1 Inr)
      show thesis
      proof (cases g)
        case (Inl e)
        with step g S2 have "S' = S" "r = Err e" by (simp_all add: sv_bind_def)
        then show thesis using same by simp
      next
        case g': (Inr u)
        with step g S2 have "apply_move_plan_txn V (plan_of sp sn dp dn src dst t) S = (r, S')" by (simp add: sv_bind_def)
        then show thesis using plan [of t src dst] both q S1 Inr by blast
      qed
    qed
  qed
qed

text \<open>\<^bold>\<open>C4.\<close> 
  An operation that fails leaves the database as it was: nothing of its transaction remains, whether the
  name, the parent, the object below the directory, the revision or an index refused it.
\<close>

theorem failed_op_keeps_database:
  assumes "iter_ok V" and "idle S" and "run_op V op S = (Err e, S')"
  shows "sv_db S' = sv_db S"
proof (cases op)
  case (FSetFile p n oid)
  with assms(3) show ?thesis
    by (auto simp: sv_bind_Err handle_set_file_def dest: transaction_Err split: if_splits)
next
  case (FSetDir p n oid)
  with assms(3) show ?thesis
    by (auto simp: sv_bind_Err handle_set_dir_def dest: transaction_Err split: if_splits)
next
  case (FSymlink p n t)
  with assms(3) show ?thesis
    by (auto simp: handle_symlink_def dest: transaction_Err split: if_splits)
next
  case (FCreateDir p n)
  with assms(3) show ?thesis
    by (auto simp: handle_create_dir_def dest: transaction_Err split: if_splits)
next
  case (FDelete p n)
  with assms show ?thesis
    by (auto simp: handle_delete_def sv_bind_Err set_tombstone_with_parent_rev_def
        dest: autocommit_upsert_Err split: if_splits)
next
  case (FMove p n q m)
  with assms(3) have "handle_move_path V p n q m S = (Err e, S')" by simp
  with assms(1,2) show ?thesis
  proof (cases rule: move_cases)
    case (plan src dst t)
    then show ?thesis by (auto simp: apply_move_plan_txn_def dest: transaction_Err)
  qed simp
qed

section \<open>Moving a name\<close>

lemma sql_update_id [simp]: "sql_update p (\<lambda>r. r) t = t"
  by (simp add: sql_update_def)

lemma lock_parents_state: "lock_parents l s = (r, s') \<Longrightarrow> s' = s"
  by (induction l arbitrary: r) (auto simp: bind_def update_nodes_def query_def ret_def throw_def split: if_splits)

lemma lock_move_state: "lock_move_parents_in_order a v b w s = (r, s') \<Longrightarrow> s' = s"
  by (simp add: lock_move_parents_in_order_def lock_parents_state)

lemma plan_move_source_Ok:
  assumes it: "iter_ok V" "idle S" and inv: "fs_inv (sv_db S)" and p: "plan_move_source V p n S = (Ok t, S')"
  shows "t \<noteq> Tombstone \<and> entries (sv_db S) (as_i64 p, n) = Some (dentry_target_cols t)"
proof -
  from p it obtain d where g: "fst (handle_get_dentry p n (sv_db S)) = Ok (Some d)" and t: "t = de_target d" "t \<noteq> Tombstone"
    by (auto simp: plan_move_source_def split: sum.splits option.splits dentry_target.splits)
  from g obtain row where row: "dentry_of (as_i64 p) n (sv_db S) = Some row" "parse_dentry row = Ok d"
    by (auto simp: handle_get_dentry_def query_def and_then_eq_Ok split: option.splits)
  have "dentry_check row" using inv dentry_of_SomeD [OF row(1)] by (auto simp: fs_inv_def)
  from parse_dentry_cols [OF row(2) this] row t show ?thesis by (simp add: entries_def)
qed

lemma touched_frames [simp]: "entries (s\<lparr>touched := A\<rparr>) = entries s" "fs_inv (s\<lparr>touched := A\<rparr>) = fs_inv s"
  by (simp_all add: fs_inv_keys)

text \<open>\<^bold>\<open>C5.\<close> 
  A move between two different places that succeeds takes the entry from its old name, which gets a
  tombstone, and puts it, unchanged, at the new name; no other entry of any directory changes.
\<close>

theorem move_transfers_entry:
  assumes "iter_ok V" and "idle S" and "fs_inv (sv_db S)"
    and "handle_move_path V sp sn dp dn S = (Ok (), S')" and "(sp, sn) \<noteq> (dp, dn)"
  shows "\<exists>c. entries (sv_db S) (as_i64 sp, sn) = Some c \<and> c \<noteq> dentry_target_cols Tombstone \<and>
    entries (sv_db S') = (entries (sv_db S))((as_i64 sp, sn) \<mapsto> dentry_target_cols Tombstone, (as_i64 dp, dn) \<mapsto> c)"
  using assms(1,2,4)
proof (cases rule: move_cases)
  case same
  with assms(5) show ?thesis by simp
next
  case (plan src dst t)
  let ?s = "sv_db S"
  note source = plan_move_source_Ok [OF assms(1,2,3) plan(1)]
  have "dentry_target_cols t \<noteq> dentry_target_cols Tombstone" using source by (cases t) auto
  from plan(7) obtain s1 s2 where
    t1: "upsert_dentry_with_parent_rev (sv_fs V) sp sn Tombstone (rev_of src) (?s\<lparr>touched := {}\<rparr>) = (Ok (), s1)"
    and t2: "\<exists>v. upsert_dentry_with_parent_rev (sv_fs V) dp dn t v s1 = (Ok (), s2)"
    and S': "sv_db S' = s2\<lparr>touched := {}\<rparr>"
    by (auto simp: apply_move_plan_txn_def transaction_Ok sv_bind_Ok in_conn_Ok plan_of_def Let_def
        set_tombstone_with_parent_rev_def dest!: lock_move_state
        split: if_splits option.splits)
  have inv0: "fs_inv (?s\<lparr>touched := {}\<rparr>)" using assms(3) by simp
  from upsert_Ok [OF inv0 t1] have e1: "entries s1 = (entries ?s)((as_i64 sp, sn) \<mapsto> dentry_target_cols Tombstone)" by simp
  have inv1: "fs_inv s1" by (rule upsert_inv [OF inv0 t1])
  from t2 upsert_Ok [OF inv1] have "entries s2 = (entries s1)((as_i64 dp, dn) \<mapsto> dentry_target_cols t)" by blast
  with e1 S' source \<open>dentry_target_cols t \<noteq> _\<close> show ?thesis by auto
qed

section \<open>Creating a name\<close>

lemma on_store_frame:
  assumes "on_store f S = (r, S')"
  shows "\<exists>x. S' = S\<lparr>sv_store := x\<rparr>"
proof (cases "sv_store S")
  case None
  with assms have "S' = S\<lparr>sv_store := None\<rparr>" by (simp add: on_store_def sv_bind_def need_store_def)
  then show ?thesis by blast
next
  case (Some m)
  with assms have "S' = S\<lparr>sv_store := Some (snd (f m))\<rparr>"
    by (simp add: on_store_def sv_bind_def need_store_def case_prod_beta)
  then show ?thesis by blast
qed

lemma bind_on_store:
  "sv_store S = Some m \<Longrightarrow> sv_bind (on_store f) k S = k (fst (f m)) (S\<lparr>sv_store := Some (snd (f m))\<rparr>)"
  by (simp add: sv_bind_def on_store_def need_store_def case_prod_beta)

definition base_result :: "obj_id ndn_result \<Rightarrow> ('f, 'j, base_child_lookup) sv" where
  "base_result r =
     (case r of
        Inl (NotFound _) \<Rightarrow> sv_ret BaseMissing
      | Inl _ \<Rightarrow> sv_throw ''failed to lookup base DirObject child: ''
      | Inr child \<Rightarrow> sv_ret (if is_dir_object child then BaseDirObj child else BaseNonDirObj child))"

abbreviation base_child :: "'j svc_env \<Rightarrow> obj_id \<Rightarrow> string \<Rightarrow> 'f named_data_mgr \<Rightarrow> obj_id ndn_result \<times> 'f named_data_mgr" where
  "base_child V \<equiv> ndm_get_dir_child (crates_of V) (sv_values V) (sv_hash V) (fe_now (sv_fs V))"

lemma lookup_base_run:
  assumes "nd_base_obj_id node = Some bid" and "is_dir_object bid" and "sv_store S = Some m"
  shows "lookup_base_dirobj_child V node n S =
     base_result (fst (base_child V bid n m)) (S\<lparr>sv_store := Some (snd (base_child V bid n m))\<rparr>)"
  using assms by (simp add: lookup_base_dirobj_child_def bind_on_store base_result_def)

lemma lookup_base_frame:
  assumes "lookup_base_dirobj_child V n name S = (r, S')"
  shows "\<exists>x. S' = S\<lparr>sv_store := x\<rparr>"
proof (cases "\<exists>base. nd_base_obj_id n = Some base \<and> is_dir_object base")
  case False
  then have "S' = S" using assms by (auto simp: lookup_base_dirobj_child_def sv_ret_def split: option.splits)
  then show ?thesis by (metis fs_service.surjective fs_service.update_convs(2))
next
  case True
  then obtain base where "nd_base_obj_id n = Some base" "is_dir_object base" by blast
  then obtain q S1 where q: "on_store (ndm_get_dir_child (crates_of V) (sv_values V) (sv_hash V) (fe_now (sv_fs V)) base name) S = (q, S1)"
    and "S' = S1"
    using assms by (cases "on_store (ndm_get_dir_child (crates_of V) (sv_values V) (sv_hash V) (fe_now (sv_fs V)) base name) S")
      (auto simp: lookup_base_dirobj_child_def sv_bind_def sv_ret_def split: sum.splits ndn_error.splits)
  then show ?thesis using on_store_frame [OF q] by simp
qed

lemma absent_Ok:
  assumes "ensure_name_absent_for_create V p pn n desc S = (Ok (), S1)"
  shows "(\<exists>x. S1 = S\<lparr>sv_store := x\<rparr>) \<and> (target_at p n (sv_db S) = Ok (Some Tombstone) \<or>
     target_at p n (sv_db S) = Ok None \<and> fst (lookup_base_dirobj_child V pn n S) = Ok BaseMissing)"
proof -
  from assms obtain u where u: "fst (handle_get_dentry p n (sv_db S)) = Ok u"
    and rest: "(case u of
       Some d \<Rightarrow> if de_target d = Tombstone then sv_ret () else sv_throw (''path '' @ desc @ '' already exists'')
     | None \<Rightarrow> sv_bind (lookup_base_dirobj_child V pn n) (\<lambda>b.
         case b of BaseMissing \<Rightarrow> sv_ret () | _ \<Rightarrow> sv_throw (''path '' @ desc @ '' already exists''))) S = (Ok (), S1)"
    by (auto simp: ensure_name_absent_for_create_def sv_bind_Ok [of "in_conn _"])
  show ?thesis
  proof (cases u)
    case (Some d)
    with rest have "S1 = S" "de_target d = Tombstone" by (auto split: if_splits)
    with u Some show ?thesis
      by (auto simp: target_at_def) (metis fs_service.surjective fs_service.update_convs(2))
  next
    case None
    from rest [unfolded None] obtain b S2 where b: "lookup_base_dirobj_child V pn n S = (Ok b, S2)"
      and k: "(case b of BaseMissing \<Rightarrow> sv_ret () | _ \<Rightarrow> sv_throw (''path '' @ desc @ '' already exists'')) S2 = (Ok (), S1)"
      unfolding option.case(1) sv_bind_Ok by blast
    from k have "b = BaseMissing" "S2 = S1" by (cases b; simp)+
    with u None b lookup_base_frame [OF b] show ?thesis by (simp add: target_at_def)
  qed
qed

lemma writable_parent_Ok:
  assumes "writable_parent V p S = (Ok pn, S1)"
  shows "S1 = S \<and> fst (handle_get_inode (sv_fs V) p (sv_db S)) = Ok (Some pn) \<and> get_node_kind pn = NodeDir \<and> \<not> nd_read_only pn"
  using assms by (auto simp: writable_parent_def sv_bind_Ok split: option.splits if_splits)

text \<open>What a name shows in a directory: the result of \<open>lookup_target\<close>.\<close>

lemma lookup_target_upper:
  assumes "iter_ok V" and "idle S" and "target_at p n (sv_db S) = Ok (Some t)"
  shows "lookup_target V p n S = (Ok (Some t), S)"
proof -
  from assms(3) obtain d where "fst (handle_get_dentry p n (sv_db S)) = Ok (Some d)" "de_target d = t"
    by (auto simp: target_at_def and_then_eq_Ok)
  with assms(1,2) show ?thesis
    by (simp add: lookup_target_def internal_def sv_bind_def sv_map_err_def sv_ret_def)
qed

lemma lookup_target_base:
  assumes "iter_ok V" and "idle S" and "target_at p n (sv_db S) = Ok None"
    and "fst (handle_get_inode (sv_fs V) p (sv_db S)) = Ok (Some pn)" and "get_node_kind pn = NodeDir"
    and "fst (lookup_base_dirobj_child V pn n S) = Ok BaseMissing"
  shows "fst (lookup_target V p n S) = Ok None"
proof -
  from assms(3) have "fst (handle_get_dentry p n (sv_db S)) = Ok None"
    by (auto simp: target_at_def and_then_eq_Ok)
  moreover obtain S1 where "lookup_base_dirobj_child V pn n S = (Ok BaseMissing, S1)"
    using assms(6) by (metis prod.collapse)
  ultimately show ?thesis
    using assms by (simp add: lookup_target_def internal_def sv_bind_def sv_map_err_def sv_ret_def)
qed

text \<open>The entry that an operation creates, when it names it itself.\<close>

fun created_entry :: "fs_op \<Rightarrow> (index_node_id \<times> string \<times> dentry_target) option" where
  "created_entry (FSetFile p n oid) = Some (p, n, TObjId oid)"
| "created_entry (FSetDir p n oid) = Some (p, n, TObjId oid)"
| "created_entry (FSymlink p n target) = Some (p, n, TSymLink target)"
| "created_entry _ = None"

lemma stat_bump_entries: "handle_obj_stat_bump V oid delta s = (r, s') \<Longrightarrow> entries s' = entries s"
  by (auto simp: handle_obj_stat_bump_def Let_def bind_def query_def throw_def ret_def entries_def dentry_of_def
      split: if_splits sum.splits)

lemma create_prefix:
  assumes "sv_bind (writable_parent V p) (\<lambda>pn. sv_bind (ensure_name_absent_for_create V p pn n desc) (\<lambda>_. k pn)) S = (Ok b, S')"
  shows "\<exists>pn S2. writable_parent V p S = (Ok pn, S) \<and> ensure_name_absent_for_create V p pn n desc S = (Ok (), S2) \<and> k pn S2 = (Ok b, S')"
  using assms writable_parent_Ok unfolding sv_bind_Ok by (metis (full_types) old.unit.exhaust)

lemma created_core:
  assumes op: "created_entry op = Some (p, n, t)" and run: "run_op V op S = (Ok (), S')"
    and it: "iter_ok V" "idle S" and inv: "fs_inv (sv_db S)"
  obtains pn x s1 where "fst (handle_get_inode (sv_fs V) p (sv_db S)) = Ok (Some pn)" "get_node_kind pn = NodeDir"
    "target_at p n (sv_db S) = Ok (Some Tombstone) \<or>
     target_at p n (sv_db S) = Ok None \<and> fst (lookup_base_dirobj_child V pn n S) = Ok BaseMissing"
    "entries (sv_db S') = (entries (sv_db S))((as_i64 p, n) \<mapsto> dentry_target_cols t)" "idle S'"
proof -
  have S0: "S\<lparr>sv_db := (sv_db S)\<lparr>touched := {}\<rparr>\<rparr> = S"
    using it(2) by (simp add: idle_def touched_empty_id)
  have "\<exists>pn S2 desc s1. writable_parent V p S = (Ok pn, S) \<and> ensure_name_absent_for_create V p pn n desc S = (Ok (), S2) \<and>
      upsert_dentry_with_parent_rev (sv_fs V) p n t (rev_of pn) (sv_db S2) = (Ok (), s1) \<and>
      entries (sv_db S') = entries s1 \<and> idle S'"
  proof (cases op)
    case (FSetFile p' n' oid)
    with op have "p' = p" "n' = n" "t = TObjId oid" by simp_all
    with run FSetFile show ?thesis
      by (auto simp: handle_set_file_def sv_bind_Ok [of "transaction _ _"] transaction_Ok S0 idle_def
          dest!: create_prefix split: if_splits)
        (rule exI, rule conjI, rule exI, assumption, auto simp: sv_bind_Ok in_conn_Ok dest!: stat_bump_entries)
  next
    case (FSetDir p' n' oid)
    with op have "p' = p" "n' = n" "t = TObjId oid" by simp_all
    with run FSetDir show ?thesis
      by (auto simp: handle_set_dir_def sv_bind_Ok [of "transaction _ _"] transaction_Ok S0 idle_def
          dest!: create_prefix split: if_splits)
        (rule exI, rule conjI, rule exI, assumption, auto simp: sv_bind_Ok in_conn_Ok)
  next
    case (FSymlink p' n' target)
    with op have "p' = p" "n' = n" "t = TSymLink target" by simp_all
    with run FSymlink show ?thesis
      by (auto simp: handle_symlink_def transaction_Ok S0 idle_def dest!: create_prefix split: if_splits)
        (rule exI, rule conjI, rule exI, assumption, auto simp: in_conn_Ok)
  qed (use op in simp_all)
  then obtain pn S2 desc s1 where w: "writable_parent V p S = (Ok pn, S)"
    and a: "ensure_name_absent_for_create V p pn n desc S = (Ok (), S2)"
    and u: "upsert_dentry_with_parent_rev (sv_fs V) p n t (rev_of pn) (sv_db S2) = (Ok (), s1)"
    and S': "entries (sv_db S') = entries s1" "idle S'" by blast
  note wp = writable_parent_Ok [OF w]
  note ab = absent_Ok [OF a]
  then have "sv_db S2 = sv_db S" by auto
  with u have u': "upsert_dentry_with_parent_rev (sv_fs V) p n t (rev_of pn) (sv_db S) = (Ok (), s1)" by simp
  from upsert_Ok [OF inv u'] S' have "entries (sv_db S') = (entries (sv_db S))((as_i64 p, n) \<mapsto> dentry_target_cols t)" by auto
  with that wp ab S' show thesis by blast
qed

text \<open>\<^bold>\<open>C6.\<close> 
  A name that is created was not visible before and is afterwards, with exactly the target it was
  given: \<open>set_file\<close>, \<open>set_dir\<close> and \<open>symlink\<close> succeed only on a name that look-up does not find, neither in the
  upper layer nor in the directory object below, and change no other entry.
\<close>

theorem create_makes_visible:
  assumes "iter_ok V" and "idle S" and "fs_inv (sv_db S)" and "created_entry op = Some (p, n, t)" and "target_ok t"
    and "run_op V op S = (Ok (), S')"
  shows "fst (lookup_target V p n S) \<in> {Ok None, Ok (Some Tombstone)} \<and>
    fst (lookup_target V p n S') = Ok (Some t) \<and>
    entries (sv_db S') = (entries (sv_db S))((as_i64 p, n) \<mapsto> dentry_target_cols t)"
proof -
  obtain pn where pn: "fst (handle_get_inode (sv_fs V) p (sv_db S)) = Ok (Some pn)" "get_node_kind pn = NodeDir"
    and absent: "target_at p n (sv_db S) = Ok (Some Tombstone) \<or>
     target_at p n (sv_db S) = Ok None \<and> fst (lookup_base_dirobj_child V pn n S) = Ok BaseMissing"
    and e: "entries (sv_db S') = (entries (sv_db S))((as_i64 p, n) \<mapsto> dentry_target_cols t)" and i: "idle S'"
    using created_core [OF assms(4,6,1,2,3)] by metis
  have "target_at p n (sv_db S') = Ok (Some t)"
    using assms(5) by (simp add: target_at_entries e target_of_cols_ok)
  from lookup_target_upper [OF assms(1) i this] have "fst (lookup_target V p n S') = Ok (Some t)" by simp
  moreover have "fst (lookup_target V p n S) \<in> {Ok None, Ok (Some Tombstone)}"
    using absent lookup_target_upper [OF assms(1,2)] lookup_target_base [OF assms(1,2) _ pn] by auto
  ultimately show ?thesis using e by blast
qed

section \<open>A concrete service\<close>

definition demo_svc_env :: "string svc_env" where
  "demo_svc_env = \<lparr>sv_fs = demo_env,
     sv_values = \<lparr>dir_from_value = (\<lambda>_. None), file_from_value = (\<lambda>_. None), get_by_json_path = (\<lambda>_ _. None)\<rparr>,
     sv_hash = (\<lambda>_. 0), sv_iter = sorted_list_of_set\<rparr>"

definition demo_svc :: "(nat, string) fs_service" where
  "demo_svc = \<lparr>sv_db = demo_tree\<lparr>touched := {}\<rparr>, sv_store = None, sv_cache = path_cache_new 8, sv_lists = list_cache_new, sv_root = 1\<rparr>"

lemma demo_svc_ok: "iter_ok demo_svc_env" "idle demo_svc" "fs_inv (sv_db demo_svc)"
  using reach_inv [OF demo_tree_reach] by (simp_all add: iter_ok_def demo_svc_env_def idle_def demo_svc_def)

text \<open>A link is refused where the directory \<open>a\<close> stands, and made beside it.\<close>

theorem failed_op_keeps_database_witness:
  "fst (run_op demo_svc_env (FSymlink 1 ''a'' ''x'') demo_svc) \<noteq> Ok () \<and>
   sv_db (snd (run_op demo_svc_env (FSymlink 1 ''a'' ''x'') demo_svc)) = sv_db demo_svc"
proof -
  have f: "fst (run_op demo_svc_env (FSymlink 1 ''a'' ''x'') demo_svc) \<noteq> Ok ()" by code_simp
  obtain r S' where r: "run_op demo_svc_env (FSymlink 1 ''a'' ''x'') demo_svc = (r, S')" by fastforce
  with f obtain e where "r = Err e" by (cases r) auto
  with r failed_op_keeps_database [OF demo_svc_ok(1,2)] f show ?thesis by (metis snd_conv)
qed

theorem create_makes_visible_witness:
  "fst (lookup_target demo_svc_env 1 ''b'' (snd (run_op demo_svc_env (FSymlink 1 ''b'' ''x'') demo_svc))) = Ok (Some (TSymLink ''x''))"
proof -
  let ?op = "FSymlink 1 ''b'' ''x''"
  have f: "fst (run_op demo_svc_env ?op demo_svc) = Ok ()" by code_simp
  have u: "target_ok (TSymLink ''x'')" by code_simp
  have "fst (lookup_target demo_svc_env 1 ''b'' demo_svc) \<in> {Ok None, Ok (Some Tombstone)} \<and>
    fst (lookup_target demo_svc_env 1 ''b'' (snd (run_op demo_svc_env ?op demo_svc))) = Ok (Some (TSymLink ''x'')) \<and>
    entries (sv_db (snd (run_op demo_svc_env ?op demo_svc))) =
      (entries (sv_db demo_svc))((as_i64 1, ''b'') \<mapsto> dentry_target_cols (TSymLink ''x''))"
    by (rule create_makes_visible [OF demo_svc_ok, where op = ?op]) (simp_all add: f u prod_eq_iff del: run_op.simps target_ok.simps)
  then show ?thesis by blast
qed

theorem move_transfers_entry_witness:
  "\<exists>c. entries (sv_db (snd (handle_move_path demo_svc_env 1 ''a'' 1 ''b'' demo_svc))) =
    (entries (sv_db demo_svc))((as_i64 1, ''a'') \<mapsto> dentry_target_cols Tombstone, (as_i64 1, ''b'') \<mapsto> c)"
proof -
  have f: "fst (handle_move_path demo_svc_env 1 ''a'' 1 ''b'' demo_svc) = Ok ()" by code_simp
  have "\<exists>c. entries (sv_db demo_svc) (as_i64 1, ''a'') = Some c \<and> c \<noteq> dentry_target_cols Tombstone \<and>
    entries (sv_db (snd (handle_move_path demo_svc_env 1 ''a'' 1 ''b'' demo_svc))) =
      (entries (sv_db demo_svc))((as_i64 1, ''a'') \<mapsto> dentry_target_cols Tombstone, (as_i64 1, ''b'') \<mapsto> c)"
    by (rule move_transfers_entry [OF demo_svc_ok]) (simp_all add: f prod_eq_iff)
  then show ?thesis by blast
qed

end
