(* ===== verification/Fs_Meta_Listing.thy ===== *)
theory Fs_Meta_Listing
  imports Fs_Meta_View
begin

text \<open>
  Listing a directory of the metadata service.  A directory shows the entries of its directory object
  with its own entries on top.  The theorem says that \<open>list_merged_dentries\<close>, which reads and merges the whole
  directory, and \<open>lookup_target\<close>, which the path walk uses for one name, agree.
\<close>

section \<open>Listing a directory\<close>

definition child_id :: "'j ext_crates \<Rightarrow> 'j simple_map_item \<Rightarrow> obj_id option" where
  "child_id E item = (case item_get_obj_id E item of Inl _ \<Rightarrow> None | Inr (oid, _) \<Rightarrow> Some oid)"

lemma cache_children_Ok:
  assumes "cache_children V items out S = (Ok res, S')" and "distinct (map fst items)"
  shows "map_of res k = (case map_of items k of None \<Rightarrow> map_of out k | Some it \<Rightarrow> child_id (crates_of V) it) \<and>
    (btree_ok out \<longrightarrow> btree_ok res) \<and> (\<forall>it \<in> snd ` set items. child_id (crates_of V) it \<noteq> None)"
  using assms
proof (induction items arbitrary: out S)
  case (Cons a items)
  obtain name item where a: "a = (name, item)" by (cases a)
  from Cons.prems(1) obtain oid str where it: "item_get_obj_id (crates_of V) item = Ok (oid, str)"
    by (auto simp: a split: sum.splits)
  with Cons.prems(1) obtain S1 where rest: "cache_children V items (btree_insert name oid out) S1 = (Ok res, S')"
    by (auto simp: a sv_bind_Ok split: if_splits)
  from Cons.IH [OF rest] Cons.prems(2) it show ?case
    by (auto simp: a child_id_def btree_insert_ok map_of_eq_None_iff rev_image_eqI split: option.splits)
qed simp

text \<open>Whether a put is accepted depends only on the layouts and on which stores are read-only.\<close>

definition accepts :: "(u8 list \<Rightarrow> u64) \<Rightarrow> obj_id \<Rightarrow> 'f named_data_mgr \<Rightarrow> bool" where
  "accepts ho oid m = (case versions m of [] \<Rightarrow> False
     | v # _ \<Rightarrow> (case primary_target ho (lv_layout v) oid of None \<Rightarrow> False
        | Some t \<Rightarrow> (case get_store (tg_store_id t) m of None \<Rightarrow> False | Some st \<Rightarrow> \<not> ns_read_only st)))"

lemma put_accepts: "fst (ndm_put_object E ho now oid d m) = Ok () \<longleftrightarrow> accepts ho oid m"
  by (auto simp: ndm_put_object_def on_write_store_def select_store_for_write_def accepts_def ns_put_object_def
      ensure_writable_def split: list.splits option.splits if_splits)

lemma put_keeps_accepts: "accepts ho i (snd (ndm_put_object E ho now oid d m)) = accepts ho i m"
proof -
  obtain r m' where p: "ndm_put_object E ho now oid d m = (r, m')" by fastforce
  from p [unfolded ndm_put_object_def] show ?thesis
  proof (cases rule: on_write_store_cases)
    case (2 v vs t st st')
    then have "ns_read_only st' = ns_read_only st"
      by (auto simp: ns_put_object_def split: sum.splits)
    moreover have "versions m' = versions m" using 2 by (simp add: put_store_def)
    ultimately show ?thesis
      using 2 p by (auto simp: accepts_def get_put_store split: list.splits option.splits)
  qed (use p in simp)
qed

lemma cache_children_accepted:
  assumes "cache_children V items out S = (Ok res, S')" and "sv_store S = Some m"
    and "it \<in> snd ` set items" and "item_get_obj_id (crates_of V) it = Ok (oid, str)" and "str \<noteq> []"
  shows "accepts (sv_hash V) oid m"
  using assms(1-3)
proof (induction items arbitrary: out S m)
  case (Cons a items)
  obtain name item where a: "a = (name, item)" by (cases a)
  from Cons.prems(1) obtain i s where i: "item_get_obj_id (crates_of V) item = Ok (i, s)"
    by (auto simp: a split: sum.splits)
  let ?put = "ndm_put_object (crates_of V) (sv_hash V) (fe_now (sv_fs V)) i s m"
  from Cons.prems(1,2) i have step: "if s = [] then cache_children V items (btree_insert name i out) S = (Ok res, S')
      else fst ?put = Ok () \<and> cache_children V items (btree_insert name i out) (S\<lparr>sv_store := Some (snd ?put)\<rparr>) = (Ok res, S')"
    by (cases ?put) (auto simp: a sv_bind_Ok on_store_def need_store_def split: sum.splits if_splits)
  show ?case
  proof (cases "it = item")
    case True
    with i assms(4,5) have "i = oid" "s = str" by simp_all
    with step assms(5) have "fst ?put = Ok ()" by simp
    then show ?thesis unfolding put_accepts \<open>i = oid\<close> .
  next
    case False
    with Cons.prems(3) have it: "it \<in> snd ` set items" by (auto simp: a)
    show ?thesis
    proof (cases "s = []")
      case True
      with step Cons.IH [OF _ Cons.prems(2) it] show ?thesis by auto
    next
      case False
      with step have "cache_children V items (btree_insert name i out) (S\<lparr>sv_store := Some (snd ?put)\<rparr>) = (Ok res, S')" by simp
      from Cons.IH [OF this _ it] show ?thesis by (simp add: put_keeps_accepts)
    qed
  qed
qed simp

lemma merge_fold:
  assumes "distinct (map de_name ds)" and "\<forall>(k, e) \<in> set m. de_name e = k"
  shows "map_of (fold merge_dentry ds m) k =
      (case find (\<lambda>d. de_name d = k) ds of None \<Rightarrow> map_of m k
       | Some d \<Rightarrow> if de_target d = Tombstone then None else Some d) \<and>
    (\<forall>(k, e) \<in> set (fold merge_dentry ds m). de_name e = k) \<and>
    (btree_ok m \<longrightarrow> btree_ok (fold merge_dentry ds m))"
  using assms
proof (induction ds arbitrary: m)
  case (Cons d ds)
  let ?m = "merge_dentry d m"
  have names: "\<forall>(k, e) \<in> set ?m. de_name e = k"
    using Cons.prems(2) by (auto simp: merge_dentry_def btree_remove_def btree_insert_def)
  have ok: "btree_ok m \<longrightarrow> btree_ok ?m" by (simp add: merge_dentry_def btree_insert_ok btree_remove_ok)
  have m: "map_of ?m k = (if de_name d = k then (if de_target d = Tombstone then None else Some d) else map_of m k)"
    by (simp add: merge_dentry_def)
  have no: "find (\<lambda>e. de_name e = de_name d) ds = None"
    using Cons.prems(1) unfolding find_None_iff by (metis (no_types) distinct.simps(2) image_eqI list.simps(9) set_map)
  have ds: "distinct (map de_name ds)" using Cons.prems(1) by simp
  note IH = Cons.IH [OF ds names]
  have step: "fold merge_dentry (d # ds) m = fold merge_dentry ds ?m" by simp
  have "map_of (fold merge_dentry (d # ds) m) k = (case find (\<lambda>e. de_name e = k) (d # ds) of None \<Rightarrow> map_of m k
       | Some e \<Rightarrow> if de_target e = Tombstone then None else Some e)"
    unfolding step IH [THEN conjunct1] m using no by (cases "de_name d = k") auto
  moreover have "\<forall>(k, e) \<in> set (fold merge_dentry (d # ds) m). de_name e = k"
    unfolding step using IH by blast
  moreover have "btree_ok m \<longrightarrow> btree_ok (fold merge_dentry (d # ds) m)"
    unfolding step using IH ok by blast
  ultimately show ?case by blast
qed simp

lemma collect_parse:
  assumes "collect_results (map parse_dentry rows) = Ok ds"
  shows "map de_name ds = map d_name rows" and
    "find (\<lambda>d. de_name d = k) ds = (case find (\<lambda>r. d_name r = k) rows of None \<Rightarrow> None | Some r \<Rightarrow> res_ok (parse_dentry r))"
proof -
  have "map de_name ds = map d_name rows \<and>
    find (\<lambda>d. de_name d = k) ds = (case find (\<lambda>r. d_name r = k) rows of None \<Rightarrow> None | Some r \<Rightarrow> res_ok (parse_dentry r))"
    using assms
  proof (induction rows arbitrary: ds)
    case (Cons r rows)
    from Cons.prems obtain d ds' where d: "parse_dentry r = Ok d" "collect_results (map parse_dentry rows) = Ok ds'" "ds = d # ds'"
      by (auto simp: and_then_eq_Ok)
    have "de_name d = d_name r" using d(1) by (auto simp: parse_dentry_def and_then_eq_Ok)
    with Cons.IH [OF d(2)] d show ?case by (auto simp: res_ok_def)
  qed simp
  then show "map de_name ds = map d_name rows" and
    "find (\<lambda>d. de_name d = k) ds = (case find (\<lambda>r. d_name r = k) rows of None \<Rightarrow> None | Some r \<Rightarrow> res_ok (parse_dentry r))"
    by simp_all
qed

lemma list_dentries_find:
  assumes inv: "fs_inv s" and l: "fst (handle_list_dentries p s) = Ok ds"
  shows "distinct (map de_name ds)"
    and "target_at p n s = Ok (map_option de_target (find (\<lambda>d. de_name d = n) ds))"
proof -
  let ?rows = "filter (\<lambda>d. d_parent d = as_i64 p) (dentries s)"
  have c: "collect_results (map parse_dentry ?rows) = Ok ds"
    using l by (simp add: handle_list_dentries_def query_def)
  have "distinct (map (\<lambda>d. (d_parent d, d_name d)) (dentries s))" using inv by (simp add: fs_inv_def)
  then have "distinct (map d_name ?rows)"
    by (auto simp: distinct_map inj_on_def intro: distinct_filter)
  with collect_parse(1) [OF c] show "distinct (map de_name ds)" by simp
  have "find (\<lambda>r. d_name r = n) (filter (\<lambda>d. d_parent d = as_i64 p) xs) = find (\<lambda>d. d_parent d = as_i64 p \<and> d_name d = n) xs" for xs
    by (induction xs) auto
  then have f: "find (\<lambda>r. d_name r = n) ?rows = dentry_of (as_i64 p) n s" by (simp add: dentry_of_def)
  have ok: "\<exists>d. parse_dentry r = Ok d" if "collect_results (map parse_dentry rs) = Ok es" "r \<in> set rs" for r rs es
    using that by (induction rs arbitrary: es) (auto simp: and_then_eq_Ok)
  show "target_at p n s = Ok (map_option de_target (find (\<lambda>d. de_name d = n) ds))"
  proof (cases "dentry_of (as_i64 p) n s")
    case None
    then show ?thesis
      unfolding collect_parse(2) [OF c] f by (simp add: target_at_def handle_get_dentry_def query_def)
  next
    case (Some r)
    then have "r \<in> set ?rows" using dentry_of_SomeD by fastforce
    with ok [OF c] obtain d where "parse_dentry r = Ok d" by blast
    with Some show ?thesis
      unfolding collect_parse(2) [OF c] f by (simp add: target_at_def handle_get_dentry_def query_def res_ok_def)
  qed
qed

text \<open>A directory object that was read has every name once: its entries come from a map.\<close>

definition map_crates :: "'j value_crates \<Rightarrow> bool" where
  "map_crates J \<longleftrightarrow> (\<forall>v c mt tot cnt sz body. dir_from_value J v = Some (c, mt, tot, cnt, sz, body) \<longrightarrow> distinct (map fst body))"

lemma load_dir_distinct:
  assumes "map_crates J" and "load_dir_object E J s = Ok d"
  shows "distinct (map fst (dir_body d))"
proof -
  have keys: "map fst items = map fst body"
    if "collect_results (map (\<lambda>(k, v). and_then (f v) (\<lambda>it. Ok (k, it))) body) = Ok items"
    for body items and f :: "'a \<Rightarrow> 'e + 'b"
    using that by (induction body arbitrary: items) (auto simp: and_then_eq_Ok)
  from assms(2) obtain v where k: "(case dir_from_value J v of
         None \<Rightarrow> Err (DecodeError ''deserialize object from obj_data_str failed: '')
       | Some (c, mt, tot, cnt, sz, body) \<Rightarrow>
           (case collect_results (map (\<lambda>(k, v). and_then (simple_map_item_deserialize E v) (\<lambda>it. Ok (k, it))) body) of
              Inl _ \<Rightarrow> Err (DecodeError ''deserialize object from obj_data_str failed: '')
            | Inr items \<Rightarrow> Ok \<lparr>dir_content_obj = c, dir_meta = mt, dir_total_size = tot, dir_file_count = cnt,
                                dir_file_size = sz, dir_body = items\<rparr>)) = Ok d"
    unfolding load_dir_object_def and_then_eq_Ok by blast
  then obtain c mt tot cnt sz body where v: "dir_from_value J v = Some (c, mt, tot, cnt, sz, body)"
    by (cases "dir_from_value J v") auto
  with k have items: "collect_results (map (\<lambda>(k, v). and_then (simple_map_item_deserialize E v) (\<lambda>it. Ok (k, it))) body) = Ok (dir_body d)"
    by (auto split: sum.splits)
  from keys [OF items] v assms(1) show ?thesis by (auto simp: map_crates_def)
qed

lemma base_children_lookup:
  assumes J: "map_crates (sv_values V)"
    and l: "load_base_dir_children V node S = (Ok base, S1)"
    and c: "lookup_base_dirobj_child V node n S = (Ok b, S2)"
  shows "b = (case map_of base n of None \<Rightarrow> BaseMissing
       | Some oid \<Rightarrow> if is_dir_object oid then BaseDirObj oid else BaseNonDirObj oid)" and "btree_ok base"
proof -
  let ?E = "crates_of V"
  have "b = (case map_of base n of None \<Rightarrow> BaseMissing
       | Some oid \<Rightarrow> if is_dir_object oid then BaseDirObj oid else BaseNonDirObj oid) \<and> btree_ok base"
  proof (cases "nd_base_obj_id node")
    case None
    with l c show ?thesis
      by (auto simp: load_base_dir_children_def lookup_base_dirobj_child_def btree_ok_def)
  next
    case (Some bid)
    with l obtain m s d where bid: "is_dir_object bid" and m: "sv_store S = Some m"
      and s: "ndm_get_object ?E (sv_hash V) bid m = Ok s" and d: "load_dir_object ?E (sv_values V) s = Ok d"
      and ch: "cache_children V (dir_body d) [] S = (Ok base, S1)"
      by (auto simp: load_base_dir_children_def sv_bind_Ok need_store_def split: if_splits option.splits sum.splits)
    note children = cache_children_Ok [OF ch load_dir_distinct [OF J d], of n]
    obtain r m' where r: "base_child V bid n m = (r, m')" by fastforce
    with c lookup_base_run [OF Some bid m, of V n] have b: "base_result r (S\<lparr>sv_store := Some m'\<rparr>) = (Ok b, S2)"
      by simp
    show ?thesis
    proof (cases "map_of (dir_body d) n")
      case None
      with r bid s d have "\<exists>x. r = Err (NotFound x)" by (auto simp: ndm_get_dir_child_def ok_or_def)
      with b children None show ?thesis by (auto simp: base_result_def btree_ok_def)
    next
      case it: (Some item)
      then have "item \<in> snd ` set (dir_body d)" by (force dest: map_of_SomeD)
      with children obtain oid str where o: "item_get_obj_id ?E item = Ok (oid, str)"
        by (fastforce simp: child_id_def split: sum.splits)
      have mo: "map_of base n = Some oid" using children it o by (simp add: child_id_def)
      show ?thesis
      proof (cases r)
        case (Inr child)
        with r bid s d it o have "child = oid"
          by (auto simp: ndm_get_dir_child_def ok_or_def split: if_splits prod.splits sum.splits)
        with b Inr mo children show ?thesis by (auto simp: base_result_def btree_ok_def)
      next
        case (Inl e)
        let ?put = "ndm_put_object ?E (sv_hash V) (fe_now (sv_fs V)) oid str m"
        have "str \<noteq> []" and "fst ?put \<noteq> Ok ()"
          using r Inl bid s d it o by (auto simp: ndm_get_dir_child_def ok_or_def split: if_splits prod.splits sum.splits)
        moreover have "accepts (sv_hash V) oid m"
          using cache_children_accepted [OF ch m \<open>item \<in> _\<close> o] \<open>str \<noteq> []\<close> by simp
        ultimately show ?thesis using put_accepts by blast
      qed
    qed
  qed
  then show "b = (case map_of base n of None \<Rightarrow> BaseMissing
       | Some oid \<Rightarrow> if is_dir_object oid then BaseDirObj oid else BaseNonDirObj oid)" and "btree_ok base" by blast+
qed

lemma base_children_ok:
  assumes J: "map_crates (sv_values V)" and l: "load_base_dir_children V node S = (Ok base, S1)"
  shows "btree_ok base"
proof (cases "nd_base_obj_id node")
  case None
  with l show ?thesis by (simp add: load_base_dir_children_def btree_ok_def)
next
  case (Some bid)
  with l obtain m s d where d: "load_dir_object (crates_of V) (sv_values V) s = Ok d"
    and ch: "cache_children V (dir_body d) [] S = (Ok base, S1)"
    by (auto simp: load_base_dir_children_def sv_bind_Ok need_store_def split: if_splits option.splits sum.splits)
  from cache_children_Ok [OF ch load_dir_distinct [OF J d]] show ?thesis by (simp add: btree_ok_def)
qed

lemma lookup_target_below:
  assumes "iter_ok V" and "idle S" and "target_at p n (sv_db S) = Ok None"
    and "fst (handle_get_inode (sv_fs V) p (sv_db S)) = Ok (Some pn)" and "get_node_kind pn = NodeDir"
    and "lookup_target V p n S = (Ok x, S2)"
  shows "\<exists>b S4. lookup_base_dirobj_child V pn n S = (Ok b, S4) \<and>
    x = (case b of BaseMissing \<Rightarrow> None | BaseDirObj oid \<Rightarrow> Some (TObjId oid) | BaseNonDirObj oid \<Rightarrow> Some (TObjId oid))"
proof -
  from assms(3) have "fst (handle_get_dentry p n (sv_db S)) = Ok None"
    by (auto simp: target_at_def and_then_eq_Ok)
  moreover obtain q S4 where q: "lookup_base_dirobj_child V pn n S = (q, S4)" by fastforce
  ultimately have "sv_bind (sv_map_err (\<lambda>_. Internal ''failed to lookup base child: '') (\<lambda>_. (q, S4)))
      (\<lambda>b. case b of BaseMissing \<Rightarrow> sv_ret None | BaseDirObj oid \<Rightarrow> sv_ret (Some (TObjId oid))
          | BaseNonDirObj oid \<Rightarrow> sv_ret (Some (TObjId oid))) S = (Ok x, S2)"
    using assms by (simp add: lookup_target_def internal_def sv_bind_def sv_map_err_def sv_ret_def)
  then show ?thesis
    by (cases q) (auto simp: q sv_bind_def sv_map_err_def sv_ret_def split: base_child_lookup.splits)
qed

lemma cache_children_frame:
  "cache_children V items out S = (r, S') \<Longrightarrow> sv_db S' = sv_db S"
proof (induction items arbitrary: out S)
  case (Cons a items)
  obtain name item where a: "a = (name, item)" by (cases a)
  show ?case
  proof (cases "\<exists>oid str q S1. item_get_obj_id (crates_of V) item = Ok (oid, str) \<and> str \<noteq> [] \<and>
      on_store (ndm_put_object (crates_of V) (sv_hash V) (fe_now (sv_fs V)) oid str) S = (q, S1)")
    case True
    then obtain oid str q S1 where i: "item_get_obj_id (crates_of V) item = Ok (oid, str)" "str \<noteq> []"
      and q: "on_store (ndm_put_object (crates_of V) (sv_hash V) (fe_now (sv_fs V)) oid str) S = (q, S1)" by blast
    have db: "sv_db S1 = sv_db S" using on_store_frame [OF q] by auto
    from Cons.prems i q have "S' = S1 \<or> (\<exists>S2. S2 = S1 \<and> cache_children V items (btree_insert name oid out) S2 = (r, S'))"
      by (auto simp: a sv_bind_def sv_ret_def sv_throw_def sv_fail_def split: sum.splits)
    with db Cons.IH show ?thesis by auto
  next
    case False
    then have no: "\<forall>oid str. item_get_obj_id (crates_of V) item = Ok (oid, str) \<longrightarrow> str = []" by fastforce
    show ?thesis
    proof (cases "item_get_obj_id (crates_of V) item")
      case (Inl e)
      with Cons.prems show ?thesis by (simp add: a)
    next
      case (Inr b)
      obtain oid str where b: "b = (oid, str)" by (cases b)
      with no Inr have "str = []" by simp
      with Cons.prems b Inr have "cache_children V items (btree_insert name oid out) S = (r, S')" by (simp add: a)
      then show ?thesis by (rule Cons.IH)
    qed
  qed
qed simp

lemma load_base_frame: "load_base_dir_children V node S = (r, S') \<Longrightarrow> sv_db S' = sv_db S"
  by (auto simp: load_base_dir_children_def sv_bind_def need_store_def cache_children_frame
      split: option.splits if_splits sum.splits)

lemma list_merged_Ok:
  assumes "list_merged_dentries V p S = (Ok ds, S1)"
  obtains pn base up where "fst (handle_get_inode (sv_fs V) p (sv_db S)) = Ok (Some pn)" and "get_node_kind pn = NodeDir"
    and "\<exists>S2. load_base_dir_children V pn S = (Ok base, S2)" and "fst (handle_list_dentries p (sv_db S)) = Ok up"
    and "ds = map snd (fold merge_dentry up (map (\<lambda>(name, oid). (name, \<lparr>de_id = 0, de_parent = p, de_name = name,
                                         de_target = TObjId oid, de_mtime = None\<rparr>)) base))"
proof -
  from assms obtain pn where pn: "fst (handle_get_inode (sv_fs V) p (sv_db S)) = Ok (Some pn)" "get_node_kind pn = NodeDir"
    and k: "sv_bind (load_base_dir_children V pn) (\<lambda>base.
           sv_bind (in_conn (handle_list_dentries p)) (\<lambda>upper.
           sv_ret (map snd (fold merge_dentry upper
             (map (\<lambda>(name, oid). (name, \<lparr>de_id = 0, de_parent = p, de_name = name,
                                         de_target = TObjId oid, de_mtime = None\<rparr>)) base))))) S = (Ok ds, S1)"
    by (auto simp: list_merged_dentries_def sv_bind_Ok [of "in_conn (handle_get_inode _ _)"] split: option.splits if_splits)
  from k obtain base S2 where b: "load_base_dir_children V pn S = (Ok base, S2)"
    and k2: "sv_bind (in_conn (handle_list_dentries p)) (\<lambda>upper.
           sv_ret (map snd (fold merge_dentry upper
             (map (\<lambda>(name, oid). (name, \<lparr>de_id = 0, de_parent = p, de_name = name,
                                         de_target = TObjId oid, de_mtime = None\<rparr>)) base)))) S2 = (Ok ds, S1)"
    unfolding sv_bind_Ok [of "load_base_dir_children _ _"] by blast
  from k2 obtain up s where up: "handle_list_dentries p (sv_db S2) = (Ok up, s)"
    and ds: "ds = map snd (fold merge_dentry up (map (\<lambda>(name, oid). (name, \<lparr>de_id = 0, de_parent = p, de_name = name,
                                         de_target = TObjId oid, de_mtime = None\<rparr>)) base))"
    unfolding sv_bind_Ok in_conn_Ok by auto
  show thesis
    by (rule that [OF pn _ _ ds]) (use b up load_base_frame [OF b] in auto)
qed

text \<open>The merged listing, as a look-up: the entry above decides, and where there is none the child below.\<close>

definition merged :: "dentry_record list \<Rightarrow> obj_id btree \<Rightarrow> string \<Rightarrow> dentry_target option" where
  "merged up base n =
     (case find (\<lambda>d. de_name d = n) up of
        Some d \<Rightarrow> if de_target d = Tombstone then None else Some (de_target d)
      | None \<Rightarrow> map_option TObjId (map_of base n))"

lemma merged_listing:
  assumes "distinct (map de_name up)" and "btree_ok base"
    and ds: "ds = map snd (fold merge_dentry up (map (\<lambda>(name, oid). (name, \<lparr>de_id = 0, de_parent = p, de_name = name,
                                         de_target = TObjId oid, de_mtime = None\<rparr>)) base))"
  shows "(\<exists>d \<in> set ds. de_name d = n \<and> de_target d = t) \<longleftrightarrow> merged up base n = Some t"
proof -
  let ?e = "\<lambda>name oid. \<lparr>de_id = 0, de_parent = p, de_name = name, de_target = TObjId oid, de_mtime = None\<rparr>"
  let ?m = "map (\<lambda>(name, oid). (name, ?e name oid)) base"
  let ?f = "fold merge_dentry up ?m"
  have ok: "btree_ok ?m" using assms(2) by (simp add: btree_ok_def case_prod_beta o_def)
  have names: "\<forall>(k, e) \<in> set ?m. de_name e = k" by auto
  have mo: "map_of ?m n = map_option (?e n) (map_of base n)" by (induction base) auto
  note f = merge_fold [OF assms(1) names, of n]
  have dist: "distinct (map fst ?f)" using f ok by (simp add: btree_ok_def strict_sorted_iff)
  have fn: "de_name e = k" if "(k, e) \<in> set ?f" for k e
    using bspec [OF f [THEN conjunct2, THEN conjunct1] that] by simp
  have "set ds = snd ` set ?f" unfolding ds by simp
  then have "(\<exists>d \<in> set ds. de_name d = n \<and> de_target d = t) \<longleftrightarrow> (\<exists>(k, d) \<in> set ?f. de_name d = n \<and> de_target d = t)"
    by (simp add: case_prod_beta)
  also have "\<dots> \<longleftrightarrow> (\<exists>d. (n, d) \<in> set ?f \<and> de_target d = t)"
    using fn by blast
  also have "\<dots> \<longleftrightarrow> map_option de_target (map_of ?f n) = Some t"
    using dist by auto
  also have "map_option de_target (map_of ?f n) = merged up base n"
    unfolding f [THEN conjunct1] mo merged_def by (cases "map_of base n") (auto split: option.split)
  finally show ?thesis .
qed

text \<open>\<^bold>\<open>C7.\<close> 
  A listing and a look-up agree.  When the listing of a directory succeeds and the look-up of a name
  in it does too, the listing has an entry with this name and this target exactly if the look-up
  finds this target and it is not a tombstone.
\<close>

theorem list_agrees_with_lookup:
  assumes "iter_ok V" and "idle S" and "fs_inv (sv_db S)" and "map_crates (sv_values V)"
    and "list_merged_dentries V p S = (Ok ds, S1)" and "lookup_target V p n S = (Ok x, S2)"
  shows "(\<exists>d \<in> set ds. de_name d = n \<and> de_target d = t) \<longleftrightarrow> x = Some t \<and> t \<noteq> Tombstone"
proof -
  obtain pn base up where pn: "fst (handle_get_inode (sv_fs V) p (sv_db S)) = Ok (Some pn)" "get_node_kind pn = NodeDir"
    and base: "\<exists>S2. load_base_dir_children V pn S = (Ok base, S2)" and up: "fst (handle_list_dentries p (sv_db S)) = Ok up"
    and ds: "ds = map snd (fold merge_dentry up (map (\<lambda>(name, oid). (name, \<lparr>de_id = 0, de_parent = p, de_name = name,
                                         de_target = TObjId oid, de_mtime = None\<rparr>)) base))"
    using list_merged_Ok [OF assms(5)] by blast
  obtain S3 where base: "load_base_dir_children V pn S = (Ok base, S3)" using base by blast
  note u = list_dentries_find [OF assms(3) up]
  have "x = Some t \<and> t \<noteq> Tombstone \<longleftrightarrow> merged up base n = Some t"
  proof (cases "find (\<lambda>d. de_name d = n) up")
    case (Some d)
    with u(2) [of n] have "target_at p n (sv_db S) = Ok (Some (de_target d))" by simp
    from lookup_target_upper [OF assms(1,2) this] assms(6) have "x = Some (de_target d)" by simp
    with Some show ?thesis by (auto simp: merged_def)
  next
    case None
    with u(2) [of n] have "target_at p n (sv_db S) = Ok None" by simp
    then obtain b S4 where b: "lookup_base_dirobj_child V pn n S = (Ok b, S4)"
      and x: "x = (case b of BaseMissing \<Rightarrow> None | BaseDirObj oid \<Rightarrow> Some (TObjId oid) | BaseNonDirObj oid \<Rightarrow> Some (TObjId oid))"
      using lookup_target_below [OF assms(1,2) _ pn assms(6)] by metis
    note bb = base_children_lookup(1) [OF assms(4) base b]
    show ?thesis unfolding x bb merged_def None by (auto split: option.splits)
  qed
  with merged_listing [OF u(1) _ ds, of n t] base_children_ok [OF assms(4) base] show ?thesis by simp
qed

theorem list_agrees_with_lookup_witness:
  "\<exists>ds x. fst (list_merged_dentries demo_svc_env 1 demo_svc) = Ok ds \<and> ds \<noteq> [] \<and> fst (lookup_target demo_svc_env 1 ''a'' demo_svc) = Ok x \<and>
    ((\<exists>d \<in> set ds. de_name d = ''a'' \<and> de_target d = TIndexNodeId 2) \<longleftrightarrow> x = Some (TIndexNodeId 2))"
proof -
  let ?L = "list_merged_dentries demo_svc_env 1 demo_svc"
  let ?T = "lookup_target demo_svc_env 1 ''a'' demo_svc"
  have "(case fst ?L of Inl _ \<Rightarrow> False | Inr ds \<Rightarrow> ds \<noteq> [])" by code_simp
  then obtain ds S1 where l: "?L = (Ok ds, S1)" "ds \<noteq> []" by (cases ?L) (auto split: sum.splits)
  have "(case fst ?T of Inl _ \<Rightarrow> False | Inr ds \<Rightarrow> True)" by code_simp
  then obtain x S2 where t: "?T = (Ok x, S2)" by (cases ?T) (auto split: sum.splits)
  have m: "map_crates (sv_values demo_svc_env)" by (simp add: map_crates_def demo_svc_env_def)
  from list_agrees_with_lookup [OF demo_svc_ok m l(1) t, of "TIndexNodeId 2"] l t show ?thesis by simp
qed

end
