(* ===== verification/Fs_Meta_Resolve.thy ===== *)
theory Fs_Meta_Resolve
  imports Fs_Meta_View Path_Cache_Props
begin

text \<open>
  Path resolution through the cache against a walk of the tree.  \<open>tree_resolve\<close> is the reference: it asks
  for every component of the path what the name leads to and never uses a cache.  The locale
  \<open>resolve_cache\<close> states what resolution needs of an invariant of the cache, and derives that with such an
  invariant \<open>resolve_loop\<close> gives the answer of the reference.
\<close>

section \<open>The reference\<close>

fun tree_walk ::
  "(index_node_id \<Rightarrow> string \<Rightarrow> dentry_target option ndn_result) \<Rightarrow> (index_node_id \<Rightarrow> 'j node_record option ndn_result)
   \<Rightarrow> index_node_id \<Rightarrow> string list \<Rightarrow> string list \<Rightarrow> 'j walk_outcome ndn_result" where
  "tree_walk look node current before [] = Ok (WDone None)"
| "tree_walk look node current before (name # tail) =
     and_then (look current name) (\<lambda>target.
     case target of
       None \<Rightarrow> Ok (WDone None)
     | Some Tombstone \<Rightarrow> Ok (WDone None)
     | Some (TIndexNodeId i) \<Rightarrow>
         if tail = [] then and_then (node i) (\<lambda>nd. Ok (WDone (inode_resp i nd)))
         else tree_walk look node i (before @ [name]) tail
     | Some (TObjId oid) \<Rightarrow> Ok (WDone (Some \<lparr>rr_item = RObjId oid, rr_inner_path = join_components tail\<rparr>))
     | Some (TSymLink target_path) \<Rightarrow> Ok (WLink before target_path tail))"

fun tree_resolve ::
  "(index_node_id \<Rightarrow> string \<Rightarrow> dentry_target option ndn_result) \<Rightarrow> (index_node_id \<Rightarrow> 'j node_record option ndn_result)
   \<Rightarrow> 'j node_record option ndn_result \<Rightarrow> index_node_id \<Rightarrow> nat \<Rightarrow> string list \<Rightarrow> 'j resolve_path_resp option ndn_result" where
  "tree_resolve look node root_node root sym_count components =
     and_then (if components = [] then and_then root_node (\<lambda>nd. Ok (WDone (inode_resp root nd)))
               else tree_walk look node root [] components) (\<lambda>w.
     case w of
       WDone r \<Rightarrow> Ok r
     | WLink parent_prefix target_path tail \<Rightarrow>
         if sym_count = 0 then Ok (Some \<lparr>rr_item = RSymLink target_path, rr_inner_path = join_components tail\<rparr>)
         else tree_resolve look node root_node root (sym_count - 1) (normalize_symlink_target_path parent_prefix target_path tail))"

declare tree_resolve.simps [simp del]

section \<open>What a look-up sees\<close>

fun base_target :: "base_child_lookup \<Rightarrow> dentry_target option" where
  "base_target BaseMissing = None"
| "base_target (BaseDirObj oid) = Some (TObjId oid)"
| "base_target (BaseNonDirObj oid) = Some (TObjId oid)"

lemma lookup_target_run:
  assumes "iter_ok V" and "idle S"
  shows "lookup_target V p n S =
    (case fst (handle_get_dentry p n (sv_db S)) of
       Inl _ \<Rightarrow> (Err (Internal ''failed to get dentry: ''), S)
     | Inr (Some d) \<Rightarrow> (Ok (Some (de_target d)), S)
     | Inr None \<Rightarrow>
         (case fst (handle_get_inode (sv_fs V) p (sv_db S)) of
            Inl _ \<Rightarrow> (Err (Internal ''failed to get inode: ''), S)
          | Inr None \<Rightarrow> (Err (Internal ''parent inode not found''), S)
          | Inr (Some pn) \<Rightarrow>
              if get_node_kind pn \<noteq> NodeDir then (Ok None, S)
              else (case lookup_base_dirobj_child V pn n S of
                      (Inl _, S') \<Rightarrow> (Err (Internal ''failed to lookup base child: ''), S')
                    | (Inr b, S') \<Rightarrow> (Ok (base_target b), S'))))"
proof (cases "fst (handle_get_dentry p n (sv_db S))")
  case (Inl e)
  with assms show ?thesis by (simp add: lookup_target_def internal_def sv_bind_def sv_map_err_def)
next
  case (Inr x)
  show ?thesis
  proof (cases x)
    case None
    show ?thesis
    proof (cases "fst (handle_get_inode (sv_fs V) p (sv_db S))")
      case Inl': (Inl e)
      with assms Inr None show ?thesis by (simp add: lookup_target_def internal_def sv_bind_def sv_map_err_def)
    next
      case Inr': (Inr y)
      show ?thesis
      proof (cases y)
        case y: None
        with assms Inr None Inr' show ?thesis
          by (simp add: lookup_target_def internal_def sv_bind_def sv_map_err_def sv_fail_def)
      next
        case y: (Some pn)
        obtain q S' where q: "lookup_base_dirobj_child V pn n S = (q, S')" by fastforce
        with assms Inr None Inr' y show ?thesis
          by (auto simp: lookup_target_def internal_def sv_bind_def sv_map_err_def sv_ret_def
              split: sum.splits base_child_lookup.splits)
      qed
    qed
  next
    case (Some d)
    with assms Inr show ?thesis by (simp add: lookup_target_def internal_def sv_bind_def sv_map_err_def sv_ret_def)
  qed
qed

text \<open>Reading a child of a stored directory may store the child.  A set of store managers is settled when this
  never leads out of it and all of them give the same answers.\<close>

definition settled :: "'j svc_env \<Rightarrow> 'f named_data_mgr set \<Rightarrow> bool" where
  "settled V T \<longleftrightarrow> (\<forall>m \<in> T. \<forall>bid n. snd (base_child V bid n m) \<in> T \<and>
     (\<forall>m' \<in> T. fst (base_child V bid n m') = fst (base_child V bid n m)))"

definition store_in :: "'f named_data_mgr set \<Rightarrow> ('f, 'j) fs_service \<Rightarrow> bool" where
  "store_in T S \<longleftrightarrow> (\<forall>m. sv_store S = Some m \<longrightarrow> m \<in> T)"

text \<open>Two states between which only look-ups and the cache have done something.\<close>

definition same_view :: "'f named_data_mgr set \<Rightarrow> ('f, 'j) fs_service \<Rightarrow> ('f, 'j) fs_service \<Rightarrow> bool" where
  "same_view T S S' \<longleftrightarrow> sv_db S' = sv_db S \<and> sv_root S' = sv_root S \<and> store_in T S \<and> store_in T S' \<and>
     (sv_store S' = None \<longleftrightarrow> sv_store S = None)"

lemma base_result_fst: "fst (base_result r S) = fst (base_result r S')"
  by (auto simp: base_result_def sv_ret_def sv_throw_def sv_fail_def split: sum.splits ndn_error.splits)

lemma base_result_snd [simp]: "snd (base_result r S) = S"
  by (auto simp: base_result_def sv_ret_def sv_throw_def sv_fail_def split: sum.splits ndn_error.splits)

lemma lookup_base_view:
  assumes "settled V T" and "same_view T S S'"
  shows "fst (lookup_base_dirobj_child V pn n S') = fst (lookup_base_dirobj_child V pn n S)"
    and "same_view T S (snd (lookup_base_dirobj_child V pn n S'))"
    and "sv_cache (snd (lookup_base_dirobj_child V pn n S')) = sv_cache S'"
proof -
  have "fst (lookup_base_dirobj_child V pn n S') = fst (lookup_base_dirobj_child V pn n S) \<and>
    same_view T S (snd (lookup_base_dirobj_child V pn n S')) \<and> sv_cache (snd (lookup_base_dirobj_child V pn n S')) = sv_cache S'"
  proof (cases "\<exists>bid m'. nd_base_obj_id pn = Some bid \<and> is_dir_object bid \<and> sv_store S' = Some m'")
    case True
    then obtain bid m' where b: "nd_base_obj_id pn = Some bid" "is_dir_object bid" and m': "sv_store S' = Some m'" by blast
    with assms(2) obtain m where m: "sv_store S = Some m" "m \<in> T" "m' \<in> T"
      by (auto simp: same_view_def store_in_def)
    have eq: "fst (base_child V bid n m') = fst (base_child V bid n m)"
      using assms(1) m unfolding settled_def by blast
    have st: "snd (base_child V bid n m') \<in> T"
      using assms(1) m unfolding settled_def by blast
    show ?thesis
      unfolding lookup_base_run [OF b m'] lookup_base_run [OF b m(1)] eq
      using assms(2) m st by (auto simp: same_view_def store_in_def intro: base_result_fst)
  next
    case False
    then have "lookup_base_dirobj_child V pn n S' = (fst (lookup_base_dirobj_child V pn n S), S')"
      using assms(2) by (auto simp: lookup_base_dirobj_child_def same_view_def sv_ret_def sv_throw_def sv_fail_def
          sv_bind_def on_store_def need_store_def split: option.splits)
    with assms(2) show ?thesis by simp
  qed
  then show "fst (lookup_base_dirobj_child V pn n S') = fst (lookup_base_dirobj_child V pn n S)"
    and "same_view T S (snd (lookup_base_dirobj_child V pn n S'))"
    and "sv_cache (snd (lookup_base_dirobj_child V pn n S')) = sv_cache S'" by blast+
qed

definition look :: "'j svc_env \<Rightarrow> ('f, 'j) fs_service \<Rightarrow> index_node_id \<Rightarrow> string \<Rightarrow> dentry_target option ndn_result" where
  "look V S p n = fst (lookup_target V p n S)"

lemma same_view_idle: "same_view T S S' \<Longrightarrow> idle S \<Longrightarrow> idle S'"
  by (simp add: same_view_def idle_def)

lemma lookup_view:
  assumes "settled V T" and "same_view T S S'" and it: "iter_ok V" "idle S"
  shows "\<exists>S1. lookup_target V p n S' = (look V S p n, S1) \<and> same_view T S S1 \<and> sv_cache S1 = sv_cache S'"
proof -
  have i: "idle S'" using assms(2,4) by (rule same_view_idle)
  have db: "sv_db S' = sv_db S" using assms(2) by (simp add: same_view_def)
  let ?b = "\<lambda>pn. lookup_base_dirobj_child V pn n"
  have "lookup_target V p n S' = (look V S p n, snd (lookup_target V p n S')) \<and>
    same_view T S (snd (lookup_target V p n S')) \<and> sv_cache (snd (lookup_target V p n S')) = sv_cache S'"
    unfolding look_def lookup_target_run [OF it] lookup_target_run [OF it(1) i] db
    using assms(2) lookup_base_view [OF assms(1,2)]
    by (auto simp: split_beta prod_eq_iff split: sum.splits option.splits)
  then show ?thesis by blast
qed

section \<open>The world of the cache\<close>

fun entry_of_target :: "dentry_target \<Rightarrow> world_entry option" where
  "entry_of_target (TIndexNodeId i) = Some (EInode i)"
| "entry_of_target (TObjId oid) = Some (ETerminal (PtObjId oid))"
| "entry_of_target (TSymLink t) = Some (ETerminal (PtSymLink t))"
| "entry_of_target Tombstone = None"

definition world_of :: "(index_node_id \<Rightarrow> string \<Rightarrow> dentry_target option ndn_result) \<Rightarrow> world" where
  "world_of lk k = (case lk (fst k) (snd k) of Inr (Some t) \<Rightarrow> entry_of_target t | _ \<Rightarrow> None)"

lemma world_of_Some: "world_of lk (p, n) = Some e \<longleftrightarrow> (\<exists>t. lk p n = Ok (Some t) \<and> entry_of_target t = Some e)"
  by (auto simp: world_of_def split: sum.splits option.splits)

lemma entry_of_target_inv:
  "entry_of_target t = Some (EInode i) \<longleftrightarrow> t = TIndexNodeId i"
  "entry_of_target t = Some (ETerminal (PtObjId oid)) \<longleftrightarrow> t = TObjId oid"
  "entry_of_target t = Some (ETerminal (PtSymLink l)) \<longleftrightarrow> t = TSymLink l"
  by (cases t; simp)+

lemma walk_to_Nil [simp]: "walk_to W r [] ids \<longleftrightarrow> ids = [r]"
  by (auto simp: walk_to_def length_Suc_conv)

lemma walk_to_Cons:
  assumes "walk_to W r (x # q) ids"
  obtains i "is" where "ids = r # i # is" and "W (r, x) = Some (EInode i)" and "walk_to W i q (i # is)"
proof -
  from assms obtain i "is" where ids: "ids = r # i # is" by (cases ids; cases "tl ids") (auto simp: walk_to_def)
  from assms have all: "\<forall>j < Suc (length q). W (ids ! j, (x # q) ! j) = Some (EInode (ids ! (j + 1)))"
    and len: "length is = length q"
    by (simp_all add: walk_to_def ids)
  have "W ((i # is) ! j, q ! j) = Some (EInode ((i # is) ! (j + 1)))" if "j < length q" for j
    using spec [OF all, of "Suc j"] that by (simp add: ids)
  with that [OF ids] spec [OF all, of 0] len show ?thesis by (simp add: ids walk_to_def)
qed

lemma walk_to_snoc:
  assumes "walk_to W r q ids" and "W (last ids, x) = Some (EInode i)"
  shows "walk_to W r (q @ [x]) (ids @ [i])"
  using assms walk_to_last [OF assms(1)] by (auto simp: walk_to_def nth_append less_Suc_eq)

lemma walk_to_nonempty: "walk_to W r q ids \<Longrightarrow> ids \<noteq> []"
  by (auto simp: walk_to_def)

text \<open>The reference walk along directories that the world has.\<close>

lemma tree_walk_along:
  assumes "walk_to (world_of lk) r q ids" and "cs \<noteq> []"
  shows "tree_walk lk node r before (q @ cs) = tree_walk lk node (last ids) (before @ q) cs"
  using assms(1)
proof (induction q arbitrary: r before ids)
  case (Cons x q)
  from Cons.prems obtain i "is" where ids: "ids = r # i # is" and W: "world_of lk (r, x) = Some (EInode i)"
    and w: "walk_to (world_of lk) i q (i # is)" by (rule walk_to_Cons)
  from W have "lk r x = Ok (Some (TIndexNodeId i))" by (auto simp: world_of_Some entry_of_target_inv)
  with Cons.IH [OF w, of "before @ [x]"] assms(2) show ?case by (simp add: ids)
qed simp

lemma tree_walk_terminal:
  assumes "walk_to (world_of lk) r (take k comps) ids" and "k < length comps"
    and "world_of lk (last ids, comps ! k) = Some (ETerminal t)"
  shows "tree_walk lk node r [] comps = Ok (case t of
      PtObjId oid \<Rightarrow> WDone (Some \<lparr>rr_item = RObjId oid, rr_inner_path = join_components (drop (Suc k) comps)\<rparr>)
    | PtSymLink target \<Rightarrow> WLink (take k comps) target (drop (Suc k) comps))"
proof -
  have "comps = take k comps @ (comps ! k # drop (Suc k) comps)"
    using assms(2) by (simp add: Cons_nth_drop_Suc)
  then have "tree_walk lk node r [] comps = tree_walk lk node (last ids) (take k comps) (comps ! k # drop (Suc k) comps)"
    using tree_walk_along [OF assms(1), of "comps ! k # drop (Suc k) comps" node "[]"] by simp
  also obtain target where "lk (last ids) (comps ! k) = Ok (Some target)" "entry_of_target target = Some (ETerminal t)"
    using assms(3) by (auto simp: world_of_Some)
  ultimately show ?thesis
    by (cases t) (simp_all add: entry_of_target_inv)
qed

lemma tree_walk_dir:
  assumes "walk_to (world_of lk) r comps ids" and "comps \<noteq> []"
  shows "tree_walk lk node r [] comps = and_then (node (last ids)) (\<lambda>nd. Ok (WDone (inode_resp (last ids) nd)))"
proof -
  let ?k = "length comps - 1"
  have k: "?k < length comps" using assms(2) by simp
  have w: "walk_to (world_of lk) r (butlast comps) (take (?k + 1) ids)"
    using walk_to_take [OF assms(1), of ?k] by (simp add: butlast_conv_take)
  have l: "last (take (?k + 1) ids) = ids ! ?k"
    using walk_to_last [OF w] by simp
  have "world_of lk (ids ! ?k, comps ! ?k) = Some (EInode (ids ! (?k + 1)))"
    using assms(1) k by (simp add: walk_to_def)
  then have "lk (ids ! ?k) (last comps) = Ok (Some (TIndexNodeId (last ids)))"
    using walk_to_last [OF assms(1)] assms(2) k by (auto simp: world_of_Some entry_of_target_inv last_conv_nth)
  moreover have "tree_walk lk node r [] comps = tree_walk lk node (ids ! ?k) (butlast comps) [last comps]"
    using tree_walk_along [OF w, of "[last comps]" node "[]"] assms(2) l by simp
  ultimately show ?thesis by simp
qed

section \<open>Resolution with an invariant of the cache\<close>

definition node_read :: "'j svc_env \<Rightarrow> string \<Rightarrow> fs_conn \<Rightarrow> index_node_id \<Rightarrow> 'j node_record option ndn_result" where
  "node_read V msg s i = (case fst (handle_get_inode (sv_fs V) i s) of Inl _ \<Rightarrow> Err (Internal msg) | Inr x \<Rightarrow> Ok x)"

lemma node_read_run:
  "iter_ok V \<Longrightarrow> idle S \<Longrightarrow> internal msg (autocommit V (handle_get_inode (sv_fs V) i)) S = (node_read V msg (sv_db S) i, S)"
  by (simp add: internal_def sv_map_err_def node_read_def split: sum.split)

text \<open>\<open>I k\<close>: the cache is right and can take \<open>k\<close> more entries.\<close>

locale resolve_cache =
  fixes W :: world and root :: index_node_id and I :: "nat \<Rightarrow> path_resolve_cache \<Rightarrow> bool"
  assumes answers: "I k c \<Longrightarrow> cache_true W root c"
    and fewer: "I (Suc k) c \<Longrightarrow> I k c"
    and hit: "I k c \<Longrightarrow> I k (snd (get_terminal_for_path comps c))"
    and put_ids: "I (Suc k) c \<Longrightarrow> walk_to W root comps ids \<Longrightarrow> I k (put_ids_for_path comps ids c)"
    and put_terminal: "I (Suc k) c \<Longrightarrow> comps \<noteq> [] \<Longrightarrow> walk_to W root (butlast comps) ps \<Longrightarrow>
      W (last ps, last comps) = Some (ETerminal t) \<Longrightarrow> I k (put_terminal_for_path comps ps t c)"
begin

lemma walk_matches:
  assumes "settled V T" and "iter_ok V" and "idle S0" and "same_view T S0 S" and W: "W = world_of (look V S0)"
    and "walk_to W root before ids" and "I (Suc k) (sv_cache S)"
  shows "\<exists>S'. walk_components V ids (last ids) before cs S =
      (tree_walk (look V S0) (node_read V ''failed to get inode: '' (sv_db S0)) (last ids) before cs, S') \<and>
    same_view T S0 S' \<and> I k (sv_cache S')"
  using assms(4,6,7)
proof (induction cs arbitrary: before ids S)
  case Nil
  then show ?case by (auto simp: sv_ret_def fewer)
next
  case (Cons name tail)
  obtain S1 where l: "lookup_target V (last ids) name S = (look V S0 (last ids) name, S1)"
    and v: "same_view T S0 S1" and c: "sv_cache S1 = sv_cache S"
    using lookup_view [OF assms(1) Cons.prems(1) assms(2,3)] by blast
  have I1: "I (Suc k) (sv_cache S1)" using Cons.prems(3) c by simp
  have idle: "idle S1" and db: "sv_db S1 = sv_db S0"
    using same_view_idle [OF v assms(3)] v by (simp_all add: same_view_def)
  have upd: "same_view T S0 (S1\<lparr>sv_cache := x\<rparr>)" for x
    using v by (simp add: same_view_def store_in_def)
  show ?case
  proof (cases "look V S0 (last ids) name")
    case (Inl e)
    with l v I1 show ?thesis by (auto simp: sv_bind_def fewer)
  next
    case (Inr x)
    show ?thesis
    proof (cases "x = None \<or> x = Some Tombstone")
      case True
      with Inr l v I1 show ?thesis by (auto simp: sv_bind_def sv_ret_def fewer)
    next
      case False
      then obtain t where x: "x = Some t" and nt: "t \<noteq> Tombstone" by auto
      then have We: "W (last ids, name) = entry_of_target t" using Inr by (simp add: W world_of_def)
      show ?thesis
      proof (cases t)
        case (TIndexNodeId i)
        have w: "walk_to W root (before @ [name]) (ids @ [i])"
          by (rule walk_to_snoc [OF Cons.prems(2)]) (simp add: We TIndexNodeId)
        show ?thesis
        proof (cases "tail = []")
          case False
          with Cons.IH [OF v w I1] Inr x TIndexNodeId l show ?thesis by (simp add: sv_bind_def)
        next
          case True
          let ?r = "node_read V ''failed to get inode: '' (sv_db S0) i"
          show ?thesis
          proof (cases ?r)
            case r: (Inl e)
            with True Inr x TIndexNodeId l v I1 node_read_run [OF assms(2) idle, of _ i] db show ?thesis
              by (auto simp: sv_bind_def fewer)
          next
            case r: (Inr nd)
            with True Inr x TIndexNodeId l v I1 node_read_run [OF assms(2) idle, of _ i] db
              upd put_ids [OF I1 w] show ?thesis
              by (auto simp: sv_bind_def sv_ret_def update_cache_def fewer)
          qed
        qed
      next
        case (TObjId oid)
        have "I k (put_terminal_for_path (before @ [name]) ids (PtObjId oid) (sv_cache S1))"
          by (rule put_terminal [OF I1]) (use Cons.prems(2) We TObjId in simp_all)
        with Inr x TObjId l upd show ?thesis
          by (auto simp: sv_bind_def sv_ret_def update_cache_def)
      next
        case (TSymLink target)
        have "I k (put_terminal_for_path (before @ [name]) ids (PtSymLink target) (sv_cache S1))"
          by (rule put_terminal [OF I1]) (use Cons.prems(2) We TSymLink in simp_all)
        with Inr x TSymLink l upd show ?thesis
          by (auto simp: sv_bind_def sv_ret_def update_cache_def)
      qed (use nt in simp)
    qed
  qed
qed

lemma round_matches:
  assumes "settled V T" and "iter_ok V" and "idle S0" and "same_view T S0 S" and W: "W = world_of (look V S0)"
    and "sv_root S0 = root" and I: "I (Suc k) (sv_cache S)"
  shows "\<exists>S'. resolve_round V comps S =
      (if comps = [] then and_then (node_read V ''failed to get root inode: '' (sv_db S0) root) (\<lambda>nd. Ok (WDone (inode_resp root nd)))
       else tree_walk (look V S0) (node_read V ''failed to get inode: '' (sv_db S0)) root [] comps, S') \<and>
    same_view T S0 S' \<and> I k (sv_cache S')"
proof -
  let ?node = "node_read V ''failed to get inode: '' (sv_db S0)"
  have root: "sv_root S = root" and db: "sv_db S = sv_db S0" and idle: "idle S"
    using assms(4,6) same_view_idle [OF assms(4,3)] by (simp_all add: same_view_def)
  show ?thesis
  proof (cases "comps = []")
    case True
    then show ?thesis
      using assms(4) I node_read_run [OF assms(2) idle, of _ root] db
      by (cases "node_read V ''failed to get root inode: '' (sv_db S0) root")
        (auto simp: resolve_round_def sv_bind_def sv_get_def sv_ret_def root fewer)
  next
    case False
    obtain hit c where h: "get_terminal_for_path comps (sv_cache S) = (hit, c)" by fastforce
    let ?S = "S\<lparr>sv_cache := c\<rparr>"
    have v: "same_view T S0 ?S" using assms(4) by (simp add: same_view_def store_in_def)
    have I': "I (Suc k) (sv_cache ?S)" using hit [OF I, of comps] h by simp
    show ?thesis
    proof (cases hit)
      case (Some ht)
      obtain ps where len: "0 < hit_matched_len ht" "hit_matched_len ht \<le> length comps"
        and w: "walk_to W root (take (hit_matched_len ht - 1) comps) ps"
        and t: "W (last ps, comps ! (hit_matched_len ht - 1)) = Some (ETerminal (hit_value ht))"
        by (rule true_terminal [OF answers [OF I], of comps ht]) (use h Some in auto)
      from len have "hit_matched_len ht - 1 < length comps" "Suc (hit_matched_len ht - 1) = hit_matched_len ht" by simp_all
      with tree_walk_terminal [OF w [unfolded W] _ t [unfolded W], of ?node] False h Some v I'
      show ?thesis
        by (auto simp: resolve_round_def sv_bind_def sv_get_def sv_ret_def cached_terminal_def Let_def fewer
            split: path_resolve_terminal_value.splits)
    next
      case None
      define ids where "ids = (case get_longest_prefix_ids_for_path comps c of None \<Rightarrow> [root] | Some x \<Rightarrow> x)"
      have ids: "walk_to W root (take (length ids - 1) comps) ids \<and> length ids \<le> length comps + 1"
        using true_prefix [OF answers [OF I'], of comps] unfolding ids_def
        by (cases "get_longest_prefix_ids_for_path comps c") auto
      then have ne: "ids \<noteq> []" using walk_to_nonempty by blast
      let ?k = "length ids - 1"
      have run: "resolve_round V comps S =
        (if ?k = length comps then sv_bind (internal ''failed to get inode: '' (autocommit V (handle_get_inode (sv_fs V) (last ids))))
             (\<lambda>node. sv_ret (WDone (inode_resp (last ids) node))) ?S
         else walk_components V ids (last ids) (take ?k comps) (drop ?k comps) ?S)"
        using False h None ne root
        by (simp add: resolve_round_def sv_bind_def sv_get_def sv_ret_def cached_terminal_def ids_def [symmetric] Let_def)
      show ?thesis
      proof (cases "?k = length comps")
        case True
        with ids have w: "walk_to W root comps ids" by simp
        have "idle ?S" using idle by (simp add: idle_def)
        from node_read_run [OF assms(2) this, of _ "last ids"] True False run v I' tree_walk_dir [OF w [unfolded W], of ?node] db
        show ?thesis
          by (cases "?node (last ids)") (auto simp: sv_bind_def sv_ret_def fewer)
      next
        case neq: False
        with ids ne have lt: "?k < length comps" by (cases ids) auto
        have "tree_walk (look V S0) ?node root [] comps = tree_walk (look V S0) ?node (last ids) (take ?k comps) (drop ?k comps)"
          using tree_walk_along [of "look V S0" root "take ?k comps" ids "drop ?k comps" ?node "[]"] ids lt
          by (simp add: W)
        with walk_matches [OF assms(1,2,3) v W conjunct1 [OF ids] I', of "drop ?k comps"] neq False run
        show ?thesis by simp
      qed
    qed
  qed
qed

lemma loop_matches:
  assumes "settled V T" and "iter_ok V" and "idle S0" and "same_view T S0 S" and W: "W = world_of (look V S0)"
    and "sv_root S0 = root" and "I (k + Suc sym_count) (sv_cache S)"
  shows "\<exists>S'. resolve_loop V sym_count comps S =
      (tree_resolve (look V S0) (node_read V ''failed to get inode: '' (sv_db S0))
         (node_read V ''failed to get root inode: '' (sv_db S0) root) root sym_count comps, S') \<and>
    same_view T S0 S' \<and> I k (sv_cache S')"
  using assms(4,7)
proof (induction sym_count arbitrary: comps S)
  case 0
  from round_matches [OF assms(1,2,3) 0(1) W assms(6), of k comps] 0(2)
  obtain S1 where r: "resolve_round V comps S =
      (if comps = [] then and_then (node_read V ''failed to get root inode: '' (sv_db S0) root) (\<lambda>nd. Ok (WDone (inode_resp root nd)))
       else tree_walk (look V S0) (node_read V ''failed to get inode: '' (sv_db S0)) root [] comps, S1)"
    and v: "same_view T S0 S1" "I k (sv_cache S1)" by auto
  show ?case
    unfolding resolve_loop.simps [of V 0] tree_resolve.simps [of _ _ _ _ 0] r
    using v by (auto simp: and_then_def split: sum.splits walk_outcome.splits)
next
  case (Suc sym_count)
  from round_matches [OF assms(1,2,3) Suc.prems(1) W assms(6), of "k + Suc sym_count" comps] Suc.prems(2)
  obtain S1 where r: "resolve_round V comps S =
      (if comps = [] then and_then (node_read V ''failed to get root inode: '' (sv_db S0) root) (\<lambda>nd. Ok (WDone (inode_resp root nd)))
       else tree_walk (look V S0) (node_read V ''failed to get inode: '' (sv_db S0)) root [] comps, S1)"
    and v: "same_view T S0 S1" "I (k + Suc sym_count) (sv_cache S1)" by auto
  have fewer': "I k c" if "I (k + j) c" for j c
    using that by (induction j) (auto intro: fewer)
  show ?case
    unfolding resolve_loop.simps [of V "Suc sym_count"] tree_resolve.simps [of _ _ _ _ "Suc sym_count"] r
    using v fewer' [OF v(2)] Suc.IH [OF v]
    by (auto simp: and_then_def split: sum.splits walk_outcome.splits)
qed

end

text \<open>Whatever it evicts, a cache whose answers are right keeps them right.\<close>

interpretation any_cache: resolve_cache W root "\<lambda>_. cache_true W root" for W root
  by unfold_locales (auto intro: get_terminal_true put_ids_true put_terminal_true)

end
