(* ===== verification/Fs_Meta_Coherence.thy ===== *)
theory Fs_Meta_Coherence
  imports Fs_Meta_Resolve
begin

text \<open>
  The path cache stays coherent with the metadata database.  \<open>svc_run\<close> is every history of a service in
  which operations that change names and path resolutions follow each other; after each of them
  resolution through the cache gives what a walk of the current tree gives.
\<close>

section \<open>A tree under the root\<close>

definition tree_ok :: "index_node_id \<Rightarrow> fs_conn \<Rightarrow> bool" where
  "tree_ok root s \<longleftrightarrow> fs_inv s \<and> finite (touched s) \<and> node_of (as_i64 root) s \<noteq> None \<and>
     dentry_target_cols (TIndexNodeId root) \<notin> ran (entries s)"

lemma cols_inject: "dentry_target_cols t = dentry_target_cols (TIndexNodeId i) \<longleftrightarrow> t = TIndexNodeId i"
  by (cases t) simp_all

lemma inode_entry_unique:
  assumes "fs_inv s" and "entries s (p, n) = Some (dentry_target_cols (TIndexNodeId i))"
    and "entries s (q, m) = Some (dentry_target_cols (TIndexNodeId i))"
  shows "p = q \<and> n = m"
proof -
  from assms(2,3) obtain d e where d: "dentry_of p n s = Some d" and e: "dentry_of q m s = Some e"
    and cols: "entry_cols d = dentry_target_cols (TIndexNodeId i)" "entry_cols e = dentry_target_cols (TIndexNodeId i)"
    by (auto simp: entries_def)
  have "inode_entry (as_i64 i) d" "inode_entry (as_i64 i) e"
    using cols by (auto simp: entry_cols_def inode_entry_def)
  moreover have "d \<in> set (dentries s)" "e \<in> set (dentries s)"
    using dentry_of_SomeD [OF d] dentry_of_SomeD [OF e] by blast+
  ultimately have "d = e" using assms(1) unfolding fs_inv_def by blast
  then show ?thesis using dentry_of_SomeD [OF d] dentry_of_SomeD [OF e] by blast
qed

lemma look_inode:
  assumes "iter_ok V" and "idle S" and "fs_inv (sv_db S)" and "world_of (look V S) (p, n) = Some (EInode i)"
  shows "entries (sv_db S) (as_i64 p, n) = Some (dentry_target_cols (TIndexNodeId i))"
proof -
  from assms(4) have l: "fst (lookup_target V p n S) = Ok (Some (TIndexNodeId i))"
    by (simp add: world_of_Some entry_of_target_inv look_def)
  have b: "base_target b \<noteq> Some (TIndexNodeId i)" for b by (cases b) auto
  obtain d where g: "fst (handle_get_dentry p n (sv_db S)) = Ok (Some d)" and t: "de_target d = TIndexNodeId i"
    using l b unfolding lookup_target_run [OF assms(1,2)]
    by (auto split: sum.splits option.splits if_splits prod.splits)
  from g obtain row where row: "dentry_of (as_i64 p) n (sv_db S) = Some row" "parse_dentry row = Ok d"
    by (auto simp: handle_get_dentry_def query_def and_then_eq_Ok split: option.splits)
  have "dentry_check row" using assms(3) dentry_of_SomeD [OF row(1)] by (auto simp: fs_inv_def)
  from parse_dentry_cols [OF row(2) this] row t show ?thesis by (simp add: entries_def)
qed

text \<open>Every inode has one entry and the root has none: from the root an inode is reached by one path.\<close>

lemma tree_ok_world:
  assumes "iter_ok V" and "idle S" and "tree_ok root (sv_db S)"
  shows "tree_world (world_of (look V S)) root"
proof -
  let ?W = "world_of (look V S)"
  have inv: "fs_inv (sv_db S)" and free: "dentry_target_cols (TIndexNodeId root) \<notin> ran (entries (sv_db S))"
    using assms(3) by (simp_all add: tree_ok_def)
  note entry = look_inode [OF assms(1,2) inv]
  have edge: "ids \<noteq> [] \<and> entries (sv_db S) (as_i64 (ids ! length q), x) = Some (dentry_target_cols (TIndexNodeId (last ids)))
      \<and> walk_to ?W root q (take (length q + 1) ids)"
    if w: "walk_to ?W root (q @ [x]) ids" for q x ids
    using walk_to_take [OF w, of "length q"] walk_to_last [OF w] w entry [of "ids ! length q" x "last ids"]
    by (auto simp: walk_to_def nth_append)
  have "q = q'" if "walk_to ?W root q ids" "walk_to ?W root q' ids'" "last ids = last ids'" for q q' ids ids'
    using that
  proof (induction q arbitrary: q' ids ids' rule: rev_induct)
    case Nil
    show ?case
    proof (cases q' rule: rev_cases)
      case (snoc q1 x)
      with edge [OF Nil(2) [unfolded snoc]] Nil free show ?thesis by (auto simp: ran_def)
    qed simp
  next
    case (snoc x q)
    note e = edge [OF snoc.prems(1)]
    show ?case
    proof (cases q' rule: rev_cases)
      case Nil
      with e snoc.prems free show ?thesis by (auto simp: ran_def)
    next
      case q': (snoc q1 y)
      note e' = edge [OF snoc.prems(2) [unfolded q']]
      from inode_entry_unique [OF inv] e e' snoc.prems(3)
      have k: "ids ! length q = ids' ! length q1" "x = y" by (metis as_i64_inject)+
      have "last (take (length q + 1) ids) = ids ! length q" "last (take (length q1 + 1) ids') = ids' ! length q1"
        using walk_to_last [of ?W root] e e' by auto
      with snoc.IH [of "take (length q + 1) ids" q1 "take (length q1 + 1) ids'"] e e' k show ?thesis by (simp add: q')
    qed
  qed
  then show ?thesis unfolding tree_world_def by blast
qed

section \<open>Operations inside a transaction\<close>

definition sv_ok :: "'f named_data_mgr set \<Rightarrow> index_node_id \<Rightarrow> ('f, 'j) fs_service \<Rightarrow> bool" where
  "sv_ok T root S \<longleftrightarrow> sv_root S = root \<and> tree_ok root (sv_db S) \<and> store_in T S"

definition sv_step :: "'f named_data_mgr set \<Rightarrow> index_node_id \<Rightarrow> ('f, 'j) fs_service \<Rightarrow> ('f, 'j) fs_service \<Rightarrow> bool" where
  "sv_step T root S S' \<longleftrightarrow> sv_ok T root S' \<and> quiet (sv_db S) (sv_db S') \<and> sv_cache S' = sv_cache S \<and>
     (sv_store S' = None \<longleftrightarrow> sv_store S = None)"

text \<open>An action that keeps the tree, changes no entry it does not touch, and returns values with \<open>Q\<close>.\<close>

definition sv_spec :: "'f named_data_mgr set \<Rightarrow> index_node_id \<Rightarrow> ('f, 'j, 'a) sv \<Rightarrow> ('a \<Rightarrow> bool) \<Rightarrow> bool" where
  "sv_spec T root m Q \<longleftrightarrow>
     (\<forall>S r S'. sv_ok T root S \<longrightarrow> m S = (r, S') \<longrightarrow> sv_step T root S S' \<and> (\<forall>a. r = Ok a \<longrightarrow> Q a))"

lemma sv_step_refl: "sv_ok T root S \<Longrightarrow> sv_step T root S S"
  by (simp add: sv_step_def quiet.refl)

lemma spec_ret: "Q a \<Longrightarrow> sv_spec T root (sv_ret a) Q"
  by (simp add: sv_spec_def sv_step_refl)

lemma spec_throw: "sv_spec T root (sv_throw e) Q"
  by (simp add: sv_spec_def sv_step_refl)

lemma spec_bind:
  assumes "sv_spec T root m Q" and "\<And>a. Q a \<Longrightarrow> sv_spec T root (f a) R"
  shows "sv_spec T root (sv_bind m f) R"
  unfolding sv_spec_def
proof (intro allI impI)
  fix S r S'
  assume S: "sv_ok T root S" and run: "sv_bind m f S = (r, S')"
  obtain r1 S1 where m: "m S = (r1, S1)" by fastforce
  with assms(1) S have s1: "sv_step T root S S1" and Q: "\<forall>a. r1 = Ok a \<longrightarrow> Q a" unfolding sv_spec_def by blast+
  show "sv_step T root S S' \<and> (\<forall>a. r = Ok a \<longrightarrow> R a)"
  proof (cases r1)
    case (Inl e)
    with run m s1 show ?thesis by (auto simp: sv_bind_def)
  next
    case (Inr a)
    with run m have "f a S1 = (r, S')" by (simp add: sv_bind_def)
    moreover have "sv_ok T root S1" using s1 by (simp add: sv_step_def)
    ultimately have "sv_step T root S1 S' \<and> (\<forall>a. r = Ok a \<longrightarrow> R a)"
      using assms(2) Q Inr unfolding sv_spec_def by blast
    with s1 show ?thesis using quiet.trans unfolding sv_step_def by metis
  qed
qed

lemma spec_conn:
  assumes "\<And>s r s'. tree_ok root s \<Longrightarrow> m s = (r, s') \<Longrightarrow> tree_ok root s' \<and> quiet s s' \<and> (\<forall>a. r = Ok a \<longrightarrow> Q a)"
  shows "sv_spec T root (in_conn m) Q"
  unfolding sv_spec_def
proof (intro allI impI)
  fix S r S'
  assume S: "sv_ok T root S" and run: "in_conn m S = (r, S')"
  then obtain s' where m: "m (sv_db S) = (r, s')" and S': "S' = S\<lparr>sv_db := s'\<rparr>"
    by (auto simp: in_conn_def split: prod.splits)
  from assms [OF _ m] S S' show "sv_step T root S S' \<and> (\<forall>a. r = Ok a \<longrightarrow> Q a)"
    by (auto simp: sv_step_def sv_ok_def store_in_def)
qed

lemma spec_read:
  assumes "\<And>s r s'. m s = (r, s') \<Longrightarrow> s' = s"
  shows "sv_spec T root (in_conn m) (\<lambda>_. True)"
  by (rule spec_conn) (use assms quiet.refl in metis)

lemma spec_get_inode: "sv_spec T root (in_conn (handle_get_inode W i)) (\<lambda>_. True)"
  by (rule spec_read) (simp add: handle_get_inode_def query_def)

lemma spec_get_dentry: "sv_spec T root (in_conn (handle_get_dentry p n)) (\<lambda>_. True)"
  by (rule spec_read) (simp add: handle_get_dentry_def query_def)

lemma spec_lock: "sv_spec T root (in_conn (lock_move_parents_in_order a v b w)) (\<lambda>_. True)"
  by (rule spec_read) (rule lock_move_state)

lemma quiet_node: "quiet s s' \<Longrightarrow> node_of i s \<noteq> None \<Longrightarrow> node_of i s' \<noteq> None"
proof -
  assume q: "quiet s s'" and "node_of i s \<noteq> None"
  then obtain r where "node_static i s = Some (static_cols r)" by (auto simp: node_static_def)
  with q have "node_static i s' = Some (static_cols r)" unfolding quiet_def by blast
  then show ?thesis by (auto simp: node_static_def)
qed

lemma upsert_touched: "upsert_dentry_with_parent_rev W p n t v s = (r, s') \<Longrightarrow> fs_inv s \<Longrightarrow> touched s' \<subseteq> insert (p, n) (touched s)"
proof (cases r)
  case (Inl e)
  assume "upsert_dentry_with_parent_rev W p n t v s = (r, s')"
  with Inl have "s' = s" using entry_handlers_Err(4) by blast
  then show ?thesis by auto
next
  case (Inr a)
  assume u: "upsert_dentry_with_parent_rev W p n t v s = (r, s')" and inv: "fs_inv s"
  have dist: "distinct (map n_inode_id (nodes s))" using inv by (simp add: fs_inv_def)
  from u Inr obtain x s1 where x: "handle_get_dentry p n s = (Ok x, s1)"
    and k: "(case x of Some e \<Rightarrow> handle_replace_target W p n (de_target e) t v
             | None \<Rightarrow> handle_create_dentry W p n t v) s1 = (Ok a, s')"
    by (auto simp: upsert_dentry_with_parent_rev_def bind_eq_Ok)
  from get_dentry_state [OF x] k show ?thesis
    by (cases x) (auto simp: handle_create_dentry_Ok [OF dist] handle_replace_target_Ok [OF inv] created_def replaced_def
        Let_def split: if_splits)
qed

lemma spec_upsert:
  assumes "t \<noteq> TIndexNodeId root"
  shows "sv_spec T root (in_conn (upsert_dentry_with_parent_rev W p n t v)) (\<lambda>_. True)"
proof (rule spec_conn)
  fix s r s'
  assume ok: "tree_ok root s" and u: "upsert_dentry_with_parent_rev W p n t v s = (r, s')"
  have inv: "fs_inv s" using ok by (simp add: tree_ok_def)
  have q: "quiet s s'" by (rule upsert_quiet [OF inv u])
  have "entries s' = entries s \<or> entries s' = (entries s)((as_i64 p, n) \<mapsto> dentry_target_cols t)"
  proof (cases r)
    case (Inl e)
    with u show ?thesis using entry_handlers_Err(4) by blast
  next
    case (Inr a)
    with u upsert_Ok [OF inv, of W p n t v a s'] show ?thesis by simp
  qed
  then have "ran (entries s') \<subseteq> insert (dentry_target_cols t) (ran (entries s))"
    unfolding ran_def by (fastforce split: if_splits)
  then have "dentry_target_cols (TIndexNodeId root) \<notin> ran (entries s')"
    using ok assms cols_inject [of t root] unfolding tree_ok_def by auto
  moreover have "finite (touched s')"
    using upsert_touched [OF u inv] ok unfolding tree_ok_def by (meson finite_insert finite_subset)
  moreover have "node_of (as_i64 root) s' \<noteq> None"
    using quiet_node [OF q] ok unfolding tree_ok_def by blast
  ultimately show "tree_ok root s' \<and> quiet s s' \<and> (\<forall>a. r = Ok a \<longrightarrow> True)"
    using q upsert_inv [OF inv u] by (simp add: tree_ok_def)
qed

text \<open>SQLite picks a row number that is not in use, a signed 64-bit integer.\<close>

definition rowid_ok :: "'j fs_env \<Rightarrow> bool" where
  "rowid_ok W \<longleftrightarrow> (\<forall>js j. fe_rowid W js = Some j \<longrightarrow> j \<notin> set js \<and> - (2 ^ 63) \<le> j \<and> j < 2 ^ 63)"

lemma as_i64_as_u64: "- (2 ^ 63) \<le> i \<Longrightarrow> i < 2 ^ 63 \<Longrightarrow> as_i64 (as_u64 i) = i"
  unfolding as_i64_def as_u64_def by (simp add: int_word_sint)

lemma as_i64_range: "- (2 ^ 63) \<le> as_i64 w" "as_i64 w < 2 ^ 63"
  using sint_range_size [of w] by (simp_all add: as_i64_def word_size)

lemma fresh_rowid_root:
  assumes "rowid_ok W" and "fresh_rowid W ids = Some i" and "as_i64 root \<in> set ids"
  shows "as_u64 i \<noteq> root"
proof -
  have new: "i \<notin> set ids"
    using fresh_rowid_new [OF assms(2)] assms(1) unfolding rowid_ok_def by blast
  have m: "as_i64 root \<le> Max (set ids)" using assms(3) by (intro Max_ge) auto
  have "ids \<noteq> []" using assms(3) by auto
  with assms(2) have "Max (set ids) < 2 ^ 63 - 1 \<and> i = Max (set ids) + 1 \<or> fe_rowid W ids = Some i"
    unfolding fresh_rowid_def by (metis option.inject)
  then have "- (2 ^ 63) \<le> i \<and> i < 2 ^ 63"
  proof
    assume "fe_rowid W ids = Some i"
    with assms(1) show ?thesis unfolding rowid_ok_def by blast
  qed (use m as_i64_range [of root] in linarith)
  then have "as_i64 (as_u64 i) = i" using as_i64_as_u64 by blast
  with new assms(3) show ?thesis by metis
qed

lemma spec_alloc:
  assumes "rowid_ok W" and "nd_inode_id n = 0" and "nd_ref_by n = None"
  shows "sv_spec T root (in_conn (handle_alloc_inode W n)) (\<lambda>i. TIndexNodeId i \<noteq> TIndexNodeId root)"
proof (rule spec_conn)
  fix s r s'
  assume ok: "tree_ok root s" and a: "handle_alloc_inode W n s = (r, s')"
  have inv: "fs_inv s'"
    by (rule alloc_inode_inv [OF _ assms(3) a]) (use ok assms(1) in \<open>auto simp: tree_ok_def rowid_ok_def\<close>)
  have q: "quiet s s'" by (rule alloc_quiet [OF a])
  have "entries s' = entries s" "touched s' = touched s"
    using alloc_inode_cases [OF a] by (auto simp: entries_def dentry_of_def)
  moreover have "node_of (as_i64 root) s' \<noteq> None"
    using quiet_node [OF q] ok unfolding tree_ok_def by blast
  moreover have "as_u64 i \<noteq> root" if "fresh_rowid W (map n_inode_id (nodes s)) = Some i" for i
  proof (rule fresh_rowid_root [OF assms(1) that])
    obtain row where "node_of (as_i64 root) s = Some row" using ok by (auto simp: tree_ok_def)
    from node_of_SomeD [OF this] show "as_i64 root \<in> set (map n_inode_id (nodes s))" by force
  qed
  ultimately show "tree_ok root s' \<and> quiet s s' \<and> (\<forall>i. r = Ok i \<longrightarrow> TIndexNodeId i \<noteq> TIndexNodeId root)"
    using q inv ok a assms(2)
    by (auto simp: tree_ok_def handle_alloc_inode_def bind_def query_def ok_or_def split: sum.splits option.splits)
qed

lemma spec_stat_bump: "sv_spec T root (in_conn (handle_obj_stat_bump W oid delta)) (\<lambda>_. True)"
proof (rule spec_conn)
  fix s r s'
  assume ok: "tree_ok root s" and b: "handle_obj_stat_bump W oid delta s = (r, s')"
  have "s' = s \<or> (\<exists>st. s' = s\<lparr>obj_stats := st\<rparr>)"
    using b by (auto simp: handle_obj_stat_bump_def Let_def bind_def query_def throw_def ret_def split: if_splits sum.splits)
  moreover have "fs_inv (s\<lparr>obj_stats := st\<rparr>) = fs_inv s" for st by (simp add: fs_inv_def)
  moreover have "quiet s s'" using stat_bump_quiet [of W oid delta] b unfolding confined_def by (metis snd_conv)
  ultimately show "tree_ok root s' \<and> quiet s s' \<and> (\<forall>a. r = Ok a \<longrightarrow> True)"
    using ok by (auto simp: tree_ok_def entries_def dentry_of_def node_of_def)
qed

lemma spec_lookup_base:
  fixes T :: "'f named_data_mgr set" and V :: "'j svc_env"
  assumes "settled V T"
  shows "sv_spec T root (lookup_base_dirobj_child V pn n) (\<lambda>_. True)"
  unfolding sv_spec_def
proof (intro allI impI)
  fix S :: "('f, 'j) fs_service" and r S'
  assume S: "sv_ok T root S" and run: "lookup_base_dirobj_child V pn n S = (r, S')"
  then have "same_view T S S" by (simp add: same_view_def sv_ok_def)
  from lookup_base_view(2,3) [OF assms this, of pn n] S run
  show "sv_step T root S S' \<and> (\<forall>a. r = Ok a \<longrightarrow> True)"
    by (auto simp: sv_step_def sv_ok_def same_view_def quiet.refl)
qed

section \<open>Operations\<close>

text \<open>An operation on an idle service: the tree is kept, the store moves inside the settled set, and the database either
  stays or changes quietly, with the touched edges invalidated in the cache.\<close>

definition committed ::
  "'j svc_env \<Rightarrow> 'f named_data_mgr set \<Rightarrow> index_node_id \<Rightarrow> ('f, 'j) fs_service \<Rightarrow> ('f, 'j) fs_service \<Rightarrow> bool" where
  "committed V T root S S' \<longleftrightarrow> sv_ok T root S' \<and> idle S' \<and> (sv_store S' = None \<longleftrightarrow> sv_store S = None) \<and>
     (sv_db S' = sv_db S \<and> sv_cache S' = sv_cache S \<or>
      (\<exists>s. tree_ok root s \<and> quiet (sv_db S) s \<and> sv_db S' = s\<lparr>touched := {}\<rparr> \<and>
         sv_cache S' = fold (\<lambda>(p, n). invalidate_by_edge p n) (sv_iter V (touched s)) (sv_cache S)))"

lemma tree_ok_touched [simp]: "tree_ok root s \<Longrightarrow> tree_ok root (s\<lparr>touched := {}\<rparr>)"
  by (simp add: tree_ok_def node_of_def)

lemma committed_refl: "sv_ok T root S \<Longrightarrow> idle S \<Longrightarrow> committed V T root S S"
  by (simp add: committed_def)

lemma transaction_committed:
  assumes spec: "sv_spec T root m Q" and S: "sv_ok T root S" "idle S" and run: "transaction V m S = (r, S')"
  shows "committed V T root S S'"
proof -
  have S0: "S\<lparr>sv_db := (sv_db S)\<lparr>touched := {}\<rparr>\<rparr> = S"
    using S(2) by (simp add: idle_def touched_empty_id)
  obtain r1 S1 where m: "m S = (r1, S1)" by fastforce
  with spec S have st: "sv_step T root S S1" unfolding sv_spec_def by blast
  show ?thesis
  proof (cases r1)
    case (Inl e)
    with run m S0 have "S' = S1\<lparr>sv_db := sv_db S\<rparr>" by (simp add: transaction_def)
    with st S show ?thesis by (auto simp: committed_def sv_step_def sv_ok_def store_in_def idle_def)
  next
    case (Inr a)
    with run m S0 have "S' = invalidate_edges V (touched (sv_db S1)) (S1\<lparr>sv_db := (sv_db S1)\<lparr>touched := {}\<rparr>\<rparr>)"
      by (simp add: transaction_def)
    with st show ?thesis
      by (auto simp: committed_def sv_step_def sv_ok_def store_in_def idle_def invalidate_edges_def)
  qed
qed

lemma spec_bind_any:
  "sv_spec T root m (\<lambda>_. True) \<Longrightarrow> (\<And>a. sv_spec T root (f a) Q) \<Longrightarrow> sv_spec T root (sv_bind m f) Q"
  by (rule spec_bind)

lemma spec_map_err: "sv_spec T root m Q \<Longrightarrow> sv_spec T root (sv_map_err h m) Q"
  unfolding sv_spec_def sv_map_err_def by (auto split: prod.splits sum.splits)

lemma spec_get_rev: "sv_spec T root (in_conn (get_inode_rev W i)) (\<lambda>_. True)"
  by (rule spec_read) (auto simp: get_inode_rev_def handle_get_inode_def bind_def query_def throw_def ret_def
      split: sum.splits option.splits)

lemma spec_writable: "sv_spec T root (writable_parent V p) (\<lambda>_. True)"
  unfolding writable_parent_def
  by (intro spec_bind_any [OF spec_get_inode]) (auto split: option.split intro!: spec_ret spec_throw)

lemma spec_absent: "settled V T \<Longrightarrow> sv_spec T root (ensure_name_absent_for_create V p pn n d) (\<lambda>_. True)"
  unfolding ensure_name_absent_for_create_def
  by (intro spec_bind_any [OF spec_get_dentry])
    (auto split: option.split base_child_lookup.split intro!: spec_ret spec_throw spec_bind_any [OF spec_lookup_base])

lemma spec_tombstone: "sv_spec T root (in_conn (set_tombstone_with_parent_rev W p n v)) (\<lambda>_. True)"
  unfolding set_tombstone_with_parent_rev_def by (rule spec_upsert) simp

lemma spec_found: "sv_spec T root (case x of None \<Rightarrow> sv_throw e | Some n \<Rightarrow> sv_ret n) (\<lambda>_. True)"
  by (auto split: option.split intro!: spec_ret spec_throw)

lemma dir_node_simps [simp]: "nd_inode_id (dir_node b st) = 0" "nd_ref_by (dir_node b st) = None"
  by (simp_all add: dir_node_def)

lemma autocommit_committed:
  fixes S :: "('f, 'j) fs_service"
  assumes spec: "sv_spec T root (in_conn m :: ('f, 'j, 'a) sv) Q" and S: "sv_ok T root S" "idle S" and run: "autocommit V m S = (r, S')"
  shows "committed V T root S S'"
proof -
  have S0: "(sv_db S)\<lparr>touched := {}\<rparr> = sv_db S" using S(2) by (simp add: idle_def touched_empty_id)
  obtain r1 s1 where m: "m (sv_db S) = (r1, s1)" by fastforce
  then have "in_conn m S = (r1, S\<lparr>sv_db := s1\<rparr>)" by (simp add: in_conn_def)
  with spec S have "sv_step T root S (S\<lparr>sv_db := s1\<rparr>)" unfolding sv_spec_def by blast
  moreover have "S' = invalidate_edges V (touched s1) (S\<lparr>sv_db := s1\<lparr>touched := {}\<rparr>\<rparr>)"
    using run m S0 by (simp add: autocommit_def)
  ultimately show ?thesis
    using S by (auto simp: committed_def sv_step_def sv_ok_def store_in_def idle_def invalidate_edges_def)
qed

lemma move_committed:
  assumes "iter_ok V" and S: "sv_ok T root S" "idle S" and run: "handle_move_path V sp sn dp dn S = (r, S')"
  shows "committed V T root S S'"
  using assms(1) S(2) run
proof (cases rule: move_cases)
  case same
  with S show ?thesis by (simp add: committed_refl)
next
  case (plan src dst t)
  have inv: "fs_inv (sv_db S)" and free: "dentry_target_cols (TIndexNodeId root) \<notin> ran (entries (sv_db S))"
    using S(1) by (simp_all add: sv_ok_def tree_ok_def)
  have t: "t \<noteq> TIndexNodeId root"
    using plan_move_source_Ok [OF assms(1) S(2) inv plan(1)] free by (auto simp: ran_def)
  show ?thesis
    using plan(7) unfolding apply_move_plan_txn_def
    by (rule transaction_committed [OF _ S, rotated])
      (intro spec_bind_any [OF spec_get_inode] spec_bind_any [OF spec_found] spec_bind_any [OF spec_lock]
        spec_bind_any [OF spec_tombstone],
       auto simp: plan_of_def Let_def t intro!: spec_throw spec_bind_any [OF spec_lock] spec_bind_any [OF spec_tombstone] spec_upsert)
qed

lemma run_op_committed:
  fixes S :: "('f, 'j) fs_service"
  assumes "settled V T" and "iter_ok V" and "rowid_ok (sv_fs V)" and S: "sv_ok T root S" "idle S"
    and run: "run_op V op S = (r, S')"
  shows "committed V T root S S'"
proof -
  note intros = spec_bind_any [OF spec_writable] spec_bind_any [OF spec_absent [OF assms(1)]] spec_bind_any [OF spec_upsert]
    spec_bind_any [OF spec_stat_bump] spec_bind [OF spec_alloc [OF assms(3)]] spec_upsert spec_ret
  note refl = committed_refl [OF S]
  have unit: "committed V T root S S'" if "sv_bind m (\<lambda>_. sv_ret ()) S = (r, S')" "\<And>r1 S1. m S = (r1, S1) \<Longrightarrow> committed V T root S S1"
    for m :: "('f, 'j, string) sv"
    using that by (cases "m S") (auto simp: sv_bind_def sv_ret_def split: sum.splits)
  show ?thesis
  proof (cases op)
    case (FSetFile p n oid)
    show ?thesis
      by (rule unit [OF run [unfolded FSetFile run_op.simps]])
        (auto simp: handle_set_file_def refl split: if_splits elim!: transaction_committed [OF _ S, rotated] intro!: intros)
  next
    case (FSetDir p n oid)
    show ?thesis
      by (rule unit [OF run [unfolded FSetDir run_op.simps]])
        (auto simp: handle_set_dir_def refl split: if_splits elim!: transaction_committed [OF _ S, rotated] intro!: intros)
  next
    case (FSymlink p n t)
    with run show ?thesis
      by (auto simp: handle_symlink_def refl split: if_splits elim!: transaction_committed [OF _ S, rotated] intro!: intros)
  next
    case (FCreateDir p n)
    with run show ?thesis
      by (auto simp: handle_create_dir_def refl split: if_splits elim!: transaction_committed [OF _ S, rotated] intro!: intros)
  next
    case (FMove p n q m)
    with run show ?thesis using move_committed [OF assms(2) S] by simp
  next
    case (FDelete p n)
    show ?thesis
    proof (cases "n = []")
      case True
      with run FDelete show ?thesis by (simp add: handle_delete_def refl)
    next
      case False
      then show ?thesis
        using run FDelete assms(2) S autocommit_committed [OF spec_tombstone S]
        by (auto simp: handle_delete_def sv_bind_def split: sum.splits intro: committed_refl)
    qed
  qed
qed

section \<open>What an operation changes in the world\<close>

text \<open>No revision counter has run out of its 64 bits, so every inode can be read.\<close>

definition revs_fit :: "fs_conn \<Rightarrow> bool" where
  "revs_fit s \<longleftrightarrow> (\<forall>r \<in> set (nodes s). \<forall>v. n_rev r = Some v \<longrightarrow> v < 2 ^ 63)"

lemma node_static_read:
  assumes "node_static (as_i64 p) s' = node_static (as_i64 p) s" and fit: "revs_fit s'"
    and "fst (handle_get_inode W p s) = Ok (Some n)"
  shows "\<exists>n'. fst (handle_get_inode W p s') = Ok (Some n') \<and> get_node_kind n' = get_node_kind n \<and> nd_base_obj_id n' = nd_base_obj_id n"
proof -
  from assms(3) obtain r where r: "node_of (as_i64 p) s = Some r" and pn: "parse_node (fe_crates W) r = Ok n"
    by (auto simp: handle_get_inode_def query_def and_then_eq_Ok split: option.splits)
  with assms(1) obtain r' where r': "node_of (as_i64 p) s' = Some r'" and st: "static_cols r' = static_cols r"
    by (auto simp: node_static_def)
  have "col_i64_opt (n_rev r') = Ok (n_rev r')"
    using fit node_of_SomeD [OF r'] by (auto simp: revs_fit_def col_i64_opt_def col_i64_def split: option.split)
  with pn st have "\<exists>n'. parse_node (fe_crates W) r' = Ok n' \<and> nd_state n' = nd_state n \<and> nd_base_obj_id n' = nd_base_obj_id n"
    by (auto simp: parse_node_def and_then_eq_Ok static_cols_def)
  with r' show ?thesis
    by (auto simp: handle_get_inode_def query_def get_node_kind_def)
qed

lemma lookup_base_cong:
  assumes "nd_base_obj_id n' = nd_base_obj_id n"
  shows "lookup_base_dirobj_child V n' name = lookup_base_dirobj_child V n name"
  by (simp add: lookup_base_dirobj_child_def assms)

lemma lookup_base_store:
  "sv_store S' = sv_store S \<Longrightarrow> fst (lookup_base_dirobj_child V pn n S') = fst (lookup_base_dirobj_child V pn n S)"
proof (cases "\<exists>bid m. nd_base_obj_id pn = Some bid \<and> is_dir_object bid \<and> sv_store S = Some m")
  case True
  assume eq: "sv_store S' = sv_store S"
  from True obtain bid m where b: "nd_base_obj_id pn = Some bid" "is_dir_object bid" and m: "sv_store S = Some m" by blast
  show ?thesis
    unfolding lookup_base_run [OF b m] lookup_base_run [OF b trans [OF eq m]] by (rule base_result_fst)
next
  case False
  assume "sv_store S' = sv_store S"
  with False show ?thesis
    by (auto simp: lookup_base_dirobj_child_def sv_ret_def sv_throw_def sv_fail_def sv_bind_def on_store_def need_store_def
        split: option.splits)
qed

lemma quiet_world:
  assumes V: "settled V T" "iter_ok V" and idle: "idle S" "idle S'"
    and st: "store_in T S" "store_in T S'" "sv_store S' = None \<longleftrightarrow> sv_store S = None"
    and q: "quiet (sv_db S) s" "sv_db S' = s\<lparr>touched := {}\<rparr>" and fit: "revs_fit (sv_db S')"
    and k: "(p, n) \<notin> touched s" and W: "world_of (look V S) (p, n) \<noteq> None"
  shows "world_of (look V S') (p, n) = world_of (look V S) (p, n)"
proof -
  have e: "entries (sv_db S') (as_i64 p, n) = entries (sv_db S) (as_i64 p, n)"
    using q k unfolding quiet_def by auto
  then have t: "target_at p n (sv_db S') = target_at p n (sv_db S)" by (simp add: target_at_entries)
  obtain tg where l: "look V S p n = Ok (Some tg)"
    using W by (auto simp: world_of_def split: sum.splits option.splits)
  show ?thesis
  proof (cases "target_at p n (sv_db S) = Ok None")
    case False
    then obtain t0 where t0: "target_at p n (sv_db S) = Ok (Some t0)"
      using l unfolding look_def lookup_target_run [OF V(2) idle(1)]
      by (cases "fst (handle_get_dentry p n (sv_db S))") (auto simp: target_at_def split: option.splits)
    from lookup_target_upper [OF V(2) idle(1) t0] lookup_target_upper [OF V(2) idle(2)] t t0
    show ?thesis by (simp add: world_of_def look_def)
  next
    case True
    then have g: "fst (handle_get_dentry p n (sv_db S)) = Ok None" "fst (handle_get_dentry p n (sv_db S')) = Ok None"
      using t by (auto simp: target_at_def and_then_eq_Ok)
    obtain pn where pn: "fst (handle_get_inode (sv_fs V) p (sv_db S)) = Ok (Some pn)"
      using l g unfolding look_def lookup_target_run [OF V(2) idle(1)] by (auto split: sum.splits option.splits)
    have "node_static (as_i64 p) (sv_db S) \<noteq> None"
      using pn by (auto simp: handle_get_inode_def query_def node_static_def split: option.splits)
    then have "node_static (as_i64 p) (sv_db S') = node_static (as_i64 p) (sv_db S)"
      using q unfolding quiet_def by auto
    from node_static_read [OF this fit pn] obtain pn' where
      pn': "fst (handle_get_inode (sv_fs V) p (sv_db S')) = Ok (Some pn')" "get_node_kind pn' = get_node_kind pn"
        "nd_base_obj_id pn' = nd_base_obj_id pn" by blast
    have v: "same_view T S (S\<lparr>sv_store := sv_store S'\<rparr>)"
      using st by (simp add: same_view_def store_in_def)
    have "fst (lookup_base_dirobj_child V pn n S') = fst (lookup_base_dirobj_child V pn n (S\<lparr>sv_store := sv_store S'\<rparr>))"
      by (rule lookup_base_store)  simp
    also have "\<dots> = fst (lookup_base_dirobj_child V pn n S)" by (rule lookup_base_view(1) [OF V(1) v])
    finally have "fst (lookup_base_dirobj_child V pn' n S') = fst (lookup_base_dirobj_child V pn n S)"
      by (simp add: lookup_base_cong [OF pn'(3)])
    with g pn pn' have "look V S' p n = look V S p n"
      unfolding look_def lookup_target_run [OF V(2) idle(1)] lookup_target_run [OF V(2) idle(2)]
      by (auto simp: split_beta split: sum.splits)
    then show ?thesis by (simp add: world_of_def)
  qed
qed

lemma committed_sound:
  assumes V: "settled V T" "iter_ok V" and S: "sv_ok T root S" "idle S" and c: "committed V T root S S'"
    and fit: "revs_fit (sv_db S')" and sound: "cache_sound (world_of (look V S)) root (sv_cache S)"
  shows "cache_sound (world_of (look V S')) root (sv_cache S')"
proof -
  have idle: "idle S'" and st: "store_in T S" "store_in T S'" "sv_store S' = None \<longleftrightarrow> sv_store S = None"
    using S c by (auto simp: committed_def sv_ok_def)
  from c consider (same) "sv_db S' = sv_db S" "sv_cache S' = sv_cache S"
    | (changed) s where "tree_ok root s" "quiet (sv_db S) s" "sv_db S' = s\<lparr>touched := {}\<rparr>"
        "sv_cache S' = fold (\<lambda>(p, n). invalidate_by_edge p n) (sv_iter V (touched s)) (sv_cache S)"
    unfolding committed_def by blast
  then show ?thesis
  proof cases
    case same
    have "sv_db S' = (sv_db S)\<lparr>touched := {}\<rparr>" using same(1) S(2) by (simp add: idle_def touched_empty_id)
    from quiet_world [OF V S(2) idle st quiet.refl this fit] S(2)
    have "world_of (look V S') k = world_of (look V S) k" if "world_of (look V S) k \<noteq> None" for k
      using that by (cases k) (auto simp: idle_def)
    with cache_sound_extend [OF sound] same(2) show ?thesis by simp
  next
    case (changed s)
    have set: "set (sv_iter V (touched s)) = touched s"
      using V(2) changed(1) by (simp add: iter_ok_def tree_ok_def)
    show ?thesis
      unfolding changed(4)
    proof (rule invalidate_all_sound [OF sound])
      fix k
      assume "k \<notin> set (sv_iter V (touched s))" and W: "world_of (look V S) k \<noteq> None"
      then have "k \<notin> touched s" by (simp add: set)
      with quiet_world [OF V S(2) idle st changed(2,3) fit] W
      show "world_of (look V S') k = world_of (look V S) k" by (cases k) blast
    qed
  qed
qed

section \<open>Histories of a service\<close>

inductive svc_run :: "'j svc_env \<Rightarrow> 'f named_data_mgr set \<Rightarrow> ('f, 'j) fs_service \<Rightarrow> bool" for V T where
  start: "sv_ok T (sv_root S) S \<Longrightarrow> idle S \<Longrightarrow> sv_cache S = path_cache_new mx \<Longrightarrow> svc_run V T S"
| operation: "svc_run V T S \<Longrightarrow> run_op V op S = (r, S') \<Longrightarrow> revs_fit (sv_db S') \<Longrightarrow> svc_run V T S'"
| materialize: "svc_run V T S \<Longrightarrow> materialize_dir_from_obj V p n oid S = (r', S') \<Longrightarrow> revs_fit (sv_db S') \<Longrightarrow> svc_run V T S'"
| make_dir: "svc_run V T S \<Longrightarrow> create_dir_under_parent V p n S = (r', S') \<Longrightarrow> revs_fit (sv_db S') \<Longrightarrow> svc_run V T S'"
| resolve: "svc_run V T S \<Longrightarrow> handle_resolve_path_ex V path k S = (r'', S') \<Longrightarrow>
    pc_entry_count (sv_cache S) + k < pc_max_entries (sv_cache S) \<Longrightarrow> svc_run V T S'"

lemma count_put:
  assumes "has_room comps c"
  shows "pc_entry_count (put_ids_for_path comps ids c) \<le> pc_entry_count c + 1"
    and "pc_entry_count (put_terminal_for_path comps ids t c) \<le> pc_entry_count c + 1"
    and "pc_max_entries (put_ids_for_path comps ids c) = pc_max_entries c"
    and "pc_max_entries (put_terminal_for_path comps ids t c) = pc_max_entries c"
proof -
  have fold_count: "pc_entry_count (fold drop_lru is c) \<le> pc_entry_count c" for "is" and c
  proof (induction "is" arbitrary: c)
    case (Cons i "is")
    from Cons [of "drop_lru i c"] show ?case by (simp add: drop_lru_def)
  qed simp
  have shallow: "pc_entry_count (clear_shallow_values_on_path comps c) \<le> pc_entry_count c"
    unfolding clear_shallow_values_on_path_def
    using fold_count [of "shallow_entry_ids comps (pc_root c)" "c\<lparr>pc_root := clear_shallow comps (pc_root c)\<rparr>"] by simp
  have enter: "pc_entry_count (enter_path comps f up d) \<le> pc_entry_count d + 1" "pc_max_entries (enter_path comps f up d) = pc_max_entries d"
    for f up d by (auto simp: enter_path_def Let_def drop_lru_def split: option.splits)
  have mx: "pc_max_entries (clear_shallow_values_on_path comps c) = pc_max_entries c"
    by (simp add: clear_shallow_values_on_path_def)
  note simps = put_ids_for_path_def put_terminal_for_path_def make_room_id [OF assms] Let_def enter mx
  show "pc_entry_count (put_ids_for_path comps ids c) \<le> pc_entry_count c + 1"
    "pc_entry_count (put_terminal_for_path comps ids t c) \<le> pc_entry_count c + 1"
    using order_trans [OF enter(1) add_right_mono [OF shallow]] by (simp_all add: simps)
  show "pc_max_entries (put_ids_for_path comps ids c) = pc_max_entries c"
    "pc_max_entries (put_terminal_for_path comps ids t c) = pc_max_entries c"
    by (simp_all add: simps)
qed

lemma count_refresh:
  "pc_entry_count (refresh_lru_for_path p i c) = pc_entry_count c" "pc_max_entries (refresh_lru_for_path p i c) = pc_max_entries c"
  by (auto simp: refresh_lru_for_path_def split: option.splits)

definition roomy :: "world \<Rightarrow> index_node_id \<Rightarrow> nat \<Rightarrow> path_resolve_cache \<Rightarrow> bool" where
  "roomy W root k c \<longleftrightarrow> tree_world W root \<and> cache_sound W root c \<and> pc_entry_count c + k \<le> pc_max_entries c"

text \<open>A cache with room stays sound, so that it can also be invalidated later.\<close>

interpretation room_cache: resolve_cache W root "roomy W root" for W root
proof unfold_locales
  fix k c comps ids ps t
  show "roomy W root k c \<Longrightarrow> cache_true W root c"
    by (simp add: roomy_def cache_sound_true)
  show "roomy W root (Suc k) c \<Longrightarrow> roomy W root k c"
    by (simp add: roomy_def)
  show "roomy W root k c \<Longrightarrow> roomy W root k (snd (get_terminal_for_path comps c))"
    by (auto simp: roomy_def get_terminal_for_path_def refresh_sound count_refresh split: option.splits)
  have room: "has_room comps c" if "roomy W root (Suc k) c"
    using that by (simp add: roomy_def has_room_def)
  show "roomy W root k (put_ids_for_path comps ids c)" if "roomy W root (Suc k) c" "walk_to W root comps ids"
    using that put_ids_sound [of W root c comps ids] count_put(1,3) [OF room [OF that(1)], of ids] room [OF that(1)]
    by (simp add: roomy_def)
  show "roomy W root k (put_terminal_for_path comps ps t c)"
    if "roomy W root (Suc k) c" "comps \<noteq> []" "walk_to W root (butlast comps) ps" "W (last ps, last comps) = Some (ETerminal t)"
    using that put_terminal_sound [of W root c comps ps t] count_put(2,4) [OF room [OF that(1)], of ps t] room [OF that(1)]
    by (simp add: roomy_def)
qed

lemma same_view_look:
  assumes "settled V T" and "iter_ok V" and "idle S" and "same_view T S S'"
  shows "look V S' = look V S"
proof (intro ext)
  fix p n
  from lookup_view [OF assms(1,4,2,3), of p n] show "look V S' p n = look V S p n"
    unfolding look_def [of V S'] by (metis fst_conv)
qed

lemma spec_new_dir:
  assumes "rowid_ok (sv_fs V)"
  shows "sv_spec T root (sv_bind (in_conn (handle_alloc_inode (sv_fs V) (dir_node b st))) (\<lambda>new_id.
         sv_bind (in_conn (get_inode_rev (sv_fs V) p)) (\<lambda>parent_rev.
         sv_bind (in_conn (upsert_dentry_with_parent_rev (sv_fs V) p n (TIndexNodeId new_id) parent_rev)) (\<lambda>_.
         sv_ret new_id)))) (\<lambda>_. True)"
  by (rule spec_bind [OF spec_alloc [OF assms]])
    (auto intro!: spec_bind_any [OF spec_get_rev] spec_bind_any [OF spec_upsert] spec_ret)

lemma materialize_committed:
  assumes "rowid_ok (sv_fs V)" and S: "sv_ok T root S" "idle S" and run: "materialize_dir_from_obj V p n oid S = (r, S')"
  shows "committed V T root S S'"
  using run unfolding materialize_dir_from_obj_def
  by (rule transaction_committed [OF _ S, rotated])
    (rule spec_bind [OF spec_map_err [OF spec_alloc [OF assms(1)]]],
     auto intro!: spec_bind_any [OF spec_get_rev] spec_bind_any [OF spec_map_err [OF spec_upsert]] spec_ret)

lemma make_dir_committed:
  assumes "rowid_ok (sv_fs V)" and S: "sv_ok T root S" "idle S" and run: "create_dir_under_parent V p n S = (r, S')"
  shows "committed V T root S S'"
  using run unfolding create_dir_under_parent_def
  by (rule transaction_committed [OF _ S, rotated])
    (rule spec_bind_any [OF spec_get_dentry],
     auto simp: Let_def split: option.split dentry_target.split
       intro!: spec_new_dir [OF assms(1)] spec_bind_any [OF spec_get_inode] spec_throw spec_ret)

lemma svc_run_ok:
  assumes "svc_run V T S" and V: "settled V T" "iter_ok V" "rowid_ok (sv_fs V)"
  shows "sv_ok T (sv_root S) S \<and> idle S \<and> cache_sound (world_of (look V S)) (sv_root S) (sv_cache S)"
proof -
  have commit: "sv_ok T (sv_root S') S' \<and> idle S' \<and> cache_sound (world_of (look V S')) (sv_root S') (sv_cache S')"
    if "sv_ok T (sv_root S) S \<and> idle S \<and> cache_sound (world_of (look V S)) (sv_root S) (sv_cache S)"
      "committed V T (sv_root S) S S'" "revs_fit (sv_db S')" for S S'
  proof -
    have "sv_root S' = sv_root S" using that(2) by (simp add: committed_def sv_ok_def)
    with committed_sound [OF V(1,2) _ _ that(2,3)] that show ?thesis by (simp add: committed_def)
  qed
  from assms(1) show ?thesis
  proof (induction rule: svc_run.induct)
    case (start S mx)
    then show ?case by (simp add: cache_sound_new)
  next
    case (operation S op r S')
    have "committed V T (sv_root S) S S'" by (rule run_op_committed [OF V _ _ operation.hyps(2)]) (use operation.IH in blast)+
    from commit [OF operation.IH this operation.hyps(3)] show ?case .
  next
    case (materialize S p n oid r' S')
    have "committed V T (sv_root S) S S'" by (rule materialize_committed [OF V(3) _ _ materialize.hyps(2)]) (use materialize.IH in blast)+
    from commit [OF materialize.IH this materialize.hyps(3)] show ?case .
  next
    case (make_dir S p n r' S')
    have "committed V T (sv_root S) S S'" by (rule make_dir_committed [OF V(3) _ _ make_dir.hyps(2)]) (use make_dir.IH in blast)+
    from commit [OF make_dir.IH this make_dir.hyps(3)] show ?case .
  next
    case (resolve S path k r'' S')
    let ?W = "world_of (look V S)"
    have S: "sv_ok T (sv_root S) S" "idle S" "cache_sound ?W (sv_root S) (sv_cache S)" using resolve.IH by blast+
    have v: "same_view T S S" using S by (simp add: same_view_def sv_ok_def)
    have "tree_world ?W (sv_root S)" using S by (intro tree_ok_world [OF V(2)]) (simp_all add: sv_ok_def)
    then have "roomy ?W (sv_root S) (0 + Suc k) (sv_cache S)" using S resolve.hyps(3) by (simp add: roomy_def)
    from room_cache.loop_matches [OF V(1,2) S(2) v refl refl this, of "nfs_components path"] resolve.hyps(2)
    have v': "same_view T S S'" and r: "roomy ?W (sv_root S) 0 (sv_cache S')"
      unfolding handle_resolve_path_ex_def by (metis snd_conv)+
    have "sv_root S' = sv_root S" and "sv_ok T (sv_root S) S'" and "idle S'"
      using v' S by (auto simp: same_view_def sv_ok_def idle_def)
    with r same_view_look [OF V(1,2) S(2) v'] show ?case by (simp add: roomy_def)
  qed
qed

text \<open>\<^bold>\<open>C1.\<close> 
  Path resolution is coherent as long as the cache has not evicted.  After any history of creating, deleting and
  moving names, of materialising and making directories and of resolutions that did not overflow the cache (their
  steps fit into the entries that were left), the answer for any path, which may come from the cache, is what a walk of
  the current tree from the root gives; this last resolution may find the cache full and evict.  A
  history with an eviction is excluded, since it can leave a stale path (\<open>eviction_leaves_stale_path\<close>); so are
  revision counters beyond 63 bits and stores whose answers change while they are read (\<open>settled\<close>).
\<close>

theorem resolve_matches_tree:
  assumes "svc_run V T S" and "settled V T" and "iter_ok V" and "rowid_ok (sv_fs V)"
  shows "fst (handle_resolve_path_ex V path k S) =
    tree_resolve (look V S) (node_read V ''failed to get inode: '' (sv_db S))
      (node_read V ''failed to get root inode: '' (sv_db S) (sv_root S)) (sv_root S) k (nfs_components path)"
proof -
  note ok = svc_run_ok [OF assms]
  have "same_view T S S" using ok by (simp add: same_view_def sv_ok_def)
  from any_cache.loop_matches [OF assms(2,3) _ this refl refl, of k "nfs_components path"] ok cache_sound_true
  obtain S' where "resolve_loop V k (nfs_components path) S =
    (tree_resolve (look V S) (node_read V ''failed to get inode: '' (sv_db S))
      (node_read V ''failed to get root inode: '' (sv_db S) (sv_root S)) (sv_root S) k (nfs_components path), S')" by blast
  then show ?thesis by (simp add: handle_resolve_path_ex_def)
qed

lemma settled_empty: "settled V {}"
  by (simp add: settled_def)

text \<open>A manager whose directories hold their children by identifier is settled: reading a child stores nothing.\<close>

lemma settled_by_reference:
  assumes "\<And>bid s d n item oid str. ndm_get_object (crates_of V) (sv_hash V) bid m = Ok s \<Longrightarrow>
      load_dir_object (crates_of V) (sv_values V) s = Ok d \<Longrightarrow> map_of (dir_body d) n = Some item \<Longrightarrow>
      item_get_obj_id (crates_of V) item = Ok (oid, str) \<Longrightarrow> str = []"
  shows "settled V {m}"
proof -
  have "snd (base_child V bid n m) = m" for bid n
    using assms by (auto simp: ndm_get_dir_child_def ok_or_def and_then_def split: sum.splits option.splits prod.splits)
  then show ?thesis by (simp add: settled_def)
qed

lemma demo_svc_run: "svc_run demo_svc_env {} demo_svc"
proof (rule svc_run.start)
  have "node_of (as_i64 1) demo_tree \<noteq> None" by code_simp
  moreover have "\<forall>d \<in> set (dentries demo_tree). entry_cols d \<noteq> dentry_target_cols (TIndexNodeId 1)" by code_simp
  then have "dentry_target_cols (TIndexNodeId 1) \<notin> ran (entries demo_tree)"
    by (auto simp: ran_def entries_def dest: dentry_of_SomeD)
  ultimately show "sv_ok {} (sv_root demo_svc) demo_svc"
    using demo_svc_ok(3) by (simp add: sv_ok_def tree_ok_def store_in_def demo_svc_def node_of_def)
qed (simp_all add: demo_svc_def idle_def)

text \<open>The directory \<open>a\<close> is resolved, then moved to \<open>b\<close>: the old path is gone for the cache as well.\<close>

definition demo_moved :: "(nat, string) fs_service" where
  "demo_moved = snd (run_op demo_svc_env (FMove 1 ''a'' 1 ''b'') (snd (handle_resolve_path_ex demo_svc_env ''/a'' 0 demo_svc)))"

theorem resolve_matches_tree_witness:
  "svc_run demo_svc_env {} demo_moved \<and>
   fst (handle_resolve_path_ex demo_svc_env ''/a'' 0 demo_moved) = Ok None \<and>
   tree_resolve (look demo_svc_env demo_moved) (node_read demo_svc_env ''failed to get inode: '' (sv_db demo_moved))
      (node_read demo_svc_env ''failed to get root inode: '' (sv_db demo_moved) (sv_root demo_moved)) (sv_root demo_moved) 0
      (nfs_components ''/a'') = Ok None"
proof -
  let ?S = "snd (handle_resolve_path_ex demo_svc_env ''/a'' 0 demo_svc)"
  have "svc_run demo_svc_env {} ?S"
  proof (rule svc_run.resolve [OF demo_svc_run])
    show "handle_resolve_path_ex demo_svc_env ''/a'' 0 demo_svc = (fst (handle_resolve_path_ex demo_svc_env ''/a'' 0 demo_svc), ?S)"
      by simp
    show "pc_entry_count (sv_cache demo_svc) + 0 < pc_max_entries (sv_cache demo_svc)" by code_simp
  qed
  then have run: "svc_run demo_svc_env {} demo_moved"
  proof (rule svc_run.operation)
    show "run_op demo_svc_env (FMove 1 ''a'' 1 ''b'') ?S = (fst (run_op demo_svc_env (FMove 1 ''a'' 1 ''b'') ?S), demo_moved)"
      by (simp add: demo_moved_def)
    have "list_all (\<lambda>r. case n_rev r of None \<Rightarrow> True | Some v \<Rightarrow> v < 2 ^ 63) (nodes (sv_db demo_moved))" by code_simp
    then show "revs_fit (sv_db demo_moved)" by (auto simp: revs_fit_def list_all_iff split: option.splits)
  qed
  have "rowid_ok (sv_fs demo_svc_env)" by (simp add: rowid_ok_def demo_svc_env_def demo_env_def)
  note eq = resolve_matches_tree [OF run settled_empty demo_svc_ok(1) this, of "''/a''" 0]
  have "fst (handle_resolve_path_ex demo_svc_env ''/a'' 0 demo_moved) = Ok None" by code_simp
  with run eq show ?thesis by simp
qed

end
