(* ===== verification/Diff_Chunk_List.thy ===== *)
theory Diff_Chunk_List
  imports Ndm List_Cache
begin

text \<open>
  Copy-on-write editing of a chunk list, \<open>named_store/src/diff_chunk_list.rs\<close>: a writer over the chunks
  of a base list that keeps the chunks it changed, the diff file it saves them to, and a reader of
  the base list with a diff file on top.

  Sizes and positions are natural numbers below $2^{64}$; \<open>saturating_add\<close>, \<open>checked_add\<close> and the
  wrap-around of \<open>iter().sum()\<close> in a release build are written out.  The disk maps paths of diff files to
  bytes and paths of state files to the state that \<open>serde_json\<close> writes and reads back.  A reader is
  the bytes it is going to deliver; a read that fails in the middle and \<open>Poll::Pending\<close> are not
  modelled, so a future that loads a chunk is ready when it is polled.
\<close>

section \<open>Arithmetic of \<open>u64\<close>\<close>

definition sat_add :: "nat \<Rightarrow> nat \<Rightarrow> nat" where
  "sat_add a b = min (a + b) (2 ^ 64 - 1)"

definition checked_add :: "nat \<Rightarrow> nat \<Rightarrow> nat option" where
  "checked_add a b = (if a + b < 2 ^ 64 then Some (a + b) else None)"

definition sum_u64 :: "nat list \<Rightarrow> nat" where
  "sum_u64 xs = sum_list xs mod 2 ^ 64"

section \<open>Data\<close>

record diff_chunk_list =
  dl_base_chunk_list :: obj_id
  dl_diff_file_path :: string
  dl_chunk_indices :: "nat list"
  dl_chunk_ids :: "chunk_id list option"

definition dl_validate :: "diff_chunk_list \<Rightarrow> unit ndn_result" where
  "dl_validate d =
     (if (case dl_chunk_ids d of Some ids \<Rightarrow> length ids \<noteq> length (dl_chunk_indices d) | None \<Rightarrow> False) then
        Err (InvalidParam ''chunk_ids length does not match chunk_indices length '')
      else if distinct (dl_chunk_indices d) then Ok ()
      else Err (InvalidParam ''duplicate diff chunk index ''))"

type_synonym open_chunk_reader = "chunk_id \<Rightarrow> nat \<Rightarrow> bool \<Rightarrow> (u8 list \<times> u64) ndn_result"

record diff_reader_options =
  ro_auto_cache :: bool
  ro_local_mode :: bool
  ro_fixed_chunk_size :: "nat option"
  ro_base_chunk_sizes :: "nat list option"
  ro_diff_chunk_sizes :: "nat list option"
  ro_open_chunk_reader :: "open_chunk_reader option"

record diff_entry_meta =
  de_chunk_index :: nat
  de_file_offset :: nat
  de_size :: nat
  de_chunk_id :: "chunk_id option"

datatype merged_chunk_source = FromBase chunk_id | FromDiff nat

record merged_chunk_meta =
  mc_size :: nat
  mc_start :: nat
  mc_source :: merged_chunk_source

record diff_writer_options =
  wo_auto_cache :: bool
  wo_local_mode :: bool
  wo_fixed_chunk_size :: "nat option"
  wo_base_chunk_sizes :: "nat list option"
  wo_open_chunk_reader :: "open_chunk_reader option"
  wo_append_merge_last_chunk :: bool

definition diff_writer_options_default :: diff_writer_options where
  "diff_writer_options_default = \<lparr>wo_auto_cache = False, wo_local_mode = False, wo_fixed_chunk_size = None,
     wo_base_chunk_sizes = None, wo_open_chunk_reader = None, wo_append_merge_last_chunk = True\<rparr>"

record diff_writer_state =
  ws_base_chunk_list :: obj_id
  ws_diff_file_path :: string
  ws_chunk_indices :: "nat list"
  ws_diff_chunk_sizes :: "nat list"
  ws_base_chunk_sizes :: "nat list"
  ws_merged_chunk_sizes :: "nat list"
  ws_position :: nat
  ws_total_size :: nat
  ws_auto_cache :: bool
  ws_local_mode :: bool
  ws_fixed_chunk_size :: "nat option"
  ws_append_merge_last_chunk :: bool

record dirty_chunk_info =
  dc_chunk_index :: nat
  dc_diff_file_offset :: nat
  dc_chunk_size :: nat
  dc_chunk_id :: chunk_id

record diff_merged_state =
  ms_merged_chunk_list :: chunk_list
  ms_merged_chunk_sizes :: "nat list"
  ms_dirty_chunks :: "dirty_chunk_info list"

record persisted_dirty_chunks =
  pd_chunk_indices :: "nat list"
  pd_diff_chunk_sizes :: "nat list"
  pd_dirty_chunk_id_map :: "nat \<Rightarrow> chunk_id option"
  pd_diff_chunk_ids :: "chunk_id list"

text \<open>\<open>BTreeMap<usize, Vec<u8>>\<close> as an ordered association list.\<close>

type_synonym dirty_map = "(nat \<times> u8 list) list"

record diff_writer =
  dw_base_chunk_list_id :: obj_id
  dw_base_chunk_ids :: "chunk_id list"
  dw_base_chunk_sizes :: "nat list"
  dw_auto_cache :: bool
  dw_local_mode :: bool
  dw_open_chunk_reader :: "open_chunk_reader option"
  dw_fixed_chunk_size :: "nat option"
  dw_append_merge_last_chunk :: bool
  dw_diff_file_path :: string
  dw_merged_chunk_sizes :: "nat list"
  dw_dirty_chunks :: dirty_map
  dw_position :: nat
  dw_total_size :: nat

record disk =
  dk_files :: "string \<Rightarrow> u8 list option"
  dk_states :: "string \<Rightarrow> diff_writer_state option"

text \<open>What the manager of the stores is called with.\<close>

record ('j, 'f) diff_env =
  dv_crates :: "'j ext_crates"
  dv_backend :: "'f backend_ops"
  dv_hash :: "u8 list \<Rightarrow> u64"
  dv_host :: host_files
  dv_now :: u64

section \<open>Chunks of the base list\<close>

definition open_store_chunk_reader_with_fallback ::
  "('j, 'f) diff_env \<Rightarrow> 'f named_data_mgr \<Rightarrow> chunk_id \<Rightarrow> nat \<Rightarrow> bool \<Rightarrow> bool \<Rightarrow> open_chunk_reader option \<Rightarrow> u8 list ndn_result" where
  "open_store_chunk_reader_with_fallback D m c off auto_cache local_mode custom =
     (case ndm_open_chunk_reader (dv_crates D) (dv_backend D) (dv_hash D) (dv_host D) c (of_nat off) m of
        Inr (r, _) \<Rightarrow> Ok r
      | Inl open_err \<Rightarrow>
          if local_mode then Err open_err
          else (case custom of
                  None \<Rightarrow> Err open_err
                | Some f \<Rightarrow> and_then (f c off auto_cache) (\<lambda>(r, _). Ok r)))"

fun ensure_chunks_available_in_local ::
  "('j, 'f) diff_env \<Rightarrow> 'f named_data_mgr \<Rightarrow> chunk_id list \<Rightarrow> nat list option \<Rightarrow> nat list ndn_result" where
  "ensure_chunks_available_in_local D m [] expected = Ok []"
| "ensure_chunks_available_in_local D m (c # cs) expected =
     and_then (ndm_query_chunk_state (dv_crates D) (dv_hash D) c m) (\<lambda>(state, chunk_size).
       if \<not> can_open_reader state then Err (NotFound ''chunk missing in NamedStoreMgr local mode'')
       else if (case expected of Some sizes \<Rightarrow> hd sizes \<noteq> unat chunk_size | None \<Rightarrow> False) then
         Err (InvalidData ''chunk size mismatch'')
       else and_then (ensure_chunks_available_in_local D m cs (map_option tl expected)) (\<lambda>rest. Ok (unat chunk_size # rest)))"

fun resolve_mix_chunk_sizes :: "'j ext_crates \<Rightarrow> chunk_id list \<Rightarrow> nat list option" where
  "resolve_mix_chunk_sizes E [] = Some []"
| "resolve_mix_chunk_sizes E (c # cs) =
     (case chunk_get_length E c of
        None \<Rightarrow> None
      | Some n \<Rightarrow> map_option (\<lambda>ns. unat n # ns) (resolve_mix_chunk_sizes E cs))"

text \<open>The loop of \<open>resolve_fixed_chunk_sizes\<close> over the number of chunks that are left.\<close>

fun fixed_sizes :: "nat \<Rightarrow> nat \<Rightarrow> nat \<Rightarrow> nat list ndn_result" where
  "fixed_sizes fixed remaining 0 =
     (if remaining \<noteq> 0 then Err (InvalidParam ''resolve fixed chunk size failed'') else Ok [])"
| "fixed_sizes fixed remaining (Suc k) =
     (if remaining = 0 then Err (InvalidParam ''fixed chunk size cannot fit total size'')
      else let size = (if k = 0 then remaining else min fixed remaining)
           in and_then (fixed_sizes fixed (remaining - size) k) (\<lambda>rest. Ok (size # rest)))"

definition resolve_fixed_chunk_sizes :: "chunk_list \<Rightarrow> nat \<Rightarrow> nat list ndn_result" where
  "resolve_fixed_chunk_sizes cl fixed =
     (if cl_body cl = [] then Ok []
      else if fixed = 0 then Err (InvalidParam ''fixed_chunk_size cannot be zero'')
      else if cl_total_size cl = 0 then Ok (replicate (length (cl_body cl)) fixed)
      else fixed_sizes fixed (unat (cl_total_size cl)) (length (cl_body cl)))"

definition resolve_chunk_sizes_for_list ::
  "('j, 'f) diff_env \<Rightarrow> 'f named_data_mgr \<Rightarrow> chunk_list \<Rightarrow> bool \<Rightarrow> nat option \<Rightarrow> nat list option \<Rightarrow> nat list ndn_result" where
  "resolve_chunk_sizes_for_list D m cl local_mode fixed explicit =
     (case explicit of
        Some sizes \<Rightarrow>
          if length sizes \<noteq> length (cl_body cl) then Err (InvalidParam ''chunk_sizes length mismatch'')
          else if local_mode then
            and_then (ensure_chunks_available_in_local D m (cl_body cl) (Some sizes)) (\<lambda>_. Ok sizes)
          else Ok sizes
      | None \<Rightarrow>
          if local_mode then ensure_chunks_available_in_local D m (cl_body cl) None
          else (case resolve_mix_chunk_sizes (dv_crates D) (cl_body cl) of
                  Some sizes \<Rightarrow> Ok sizes
                | None \<Rightarrow>
                    (case fixed of
                       Some f \<Rightarrow> resolve_fixed_chunk_sizes cl f
                     | None \<Rightarrow> Err (Unsupported ''cannot resolve chunk sizes''))))"

section \<open>The writer\<close>

definition diff_writer_new ::
  "('j, 'f) diff_env \<Rightarrow> 'f named_data_mgr \<Rightarrow> obj_id \<Rightarrow> chunk_list \<Rightarrow> string \<Rightarrow> diff_writer_options \<Rightarrow> diff_writer ndn_result" where
  "diff_writer_new D m base_id base path opts =
     and_then (resolve_chunk_sizes_for_list D m base (wo_local_mode opts) (wo_fixed_chunk_size opts) (wo_base_chunk_sizes opts))
       (\<lambda>sizes. Ok \<lparr>dw_base_chunk_list_id = base_id, dw_base_chunk_ids = cl_body base, dw_base_chunk_sizes = sizes,
          dw_auto_cache = wo_auto_cache opts, dw_local_mode = wo_local_mode opts,
          dw_open_chunk_reader = wo_open_chunk_reader opts, dw_fixed_chunk_size = wo_fixed_chunk_size opts,
          dw_append_merge_last_chunk = wo_append_merge_last_chunk opts, dw_diff_file_path = path,
          dw_merged_chunk_sizes = sizes, dw_dirty_chunks = [], dw_position = 0, dw_total_size = sum_u64 sizes\<rparr>)"

datatype seek_from = SeekStart nat | SeekCurrent int | SeekEnd int

definition seek_target :: "nat \<Rightarrow> nat \<Rightarrow> seek_from \<Rightarrow> nat ndn_result" where
  "seek_target pos end_pos s =
     (let target = (case s of SeekStart off \<Rightarrow> int off
                    | SeekCurrent delta \<Rightarrow> int pos + delta
                    | SeekEnd delta \<Rightarrow> int end_pos + delta)
      in if target < 0 \<or> target > int end_pos then Err (OffsetTooLarge ''seek target out of range'')
         else Ok (nat target))"

definition dw_seek :: "seek_from \<Rightarrow> diff_writer \<Rightarrow> nat ndn_result \<times> diff_writer" where
  "dw_seek s w =
     (case seek_target (dw_position w) (dw_total_size w) s of
        Inl e \<Rightarrow> (Err e, w)
      | Inr p \<Rightarrow> (Ok p, w\<lparr>dw_position := p\<rparr>))"

definition preferred_chunk_size :: "nat \<Rightarrow> diff_writer \<Rightarrow> nat" where
  "preferred_chunk_size remaining w =
     (let last_or = (case dw_base_chunk_sizes w of
            [] \<Rightarrow> max remaining 1
          | sizes \<Rightarrow> if last sizes > 0 then last sizes else max remaining 1);
          by_base = (if length (dw_base_chunk_sizes w) > 1
                     then let mx = foldl max 0 (butlast (dw_base_chunk_sizes w)) in if mx > 0 then mx else last_or
                     else last_or)
      in case dw_fixed_chunk_size w of
           Some f \<Rightarrow> if f > 0 then f else by_base
         | None \<Rightarrow> by_base)"

text \<open>\<open>Vec::resize(n, 0)\<close>\<close>

definition resize :: "nat \<Rightarrow> u8 list \<Rightarrow> u8 list" where
  "resize n bs = take n bs @ replicate (n - length bs) 0"

fun dirty_insert :: "nat \<Rightarrow> u8 list \<Rightarrow> dirty_map \<Rightarrow> dirty_map" where
  "dirty_insert k v [] = [(k, v)]"
| "dirty_insert k v ((j, u) # m) =
     (if k < j then (k, v) # (j, u) # m else if k = j then (k, v) # m else (j, u) # dirty_insert k v m)"

definition extend_for_append :: "nat \<Rightarrow> diff_writer \<Rightarrow> diff_writer" where
  "extend_for_append remaining w =
     (if remaining = 0 then w
      else
        let preferred = preferred_chunk_size remaining w;
            sizes = dw_merged_chunk_sizes w;
            push = (let added = min remaining preferred
                    in w\<lparr>dw_merged_chunk_sizes := sizes @ [added], dw_total_size := sat_add (dw_total_size w) added\<rparr>)
        in if sizes = [] then push
           else
             let last_index = length sizes - 1; last_size = sizes ! last_index
             in if dw_append_merge_last_chunk w \<and> last_size < preferred then
                  let grow = min (preferred - last_size) remaining;
                      new_size = sat_add last_size grow
                  in w\<lparr>dw_merged_chunk_sizes := sizes[last_index := new_size],
                       dw_total_size := sat_add (dw_total_size w) grow,
                       dw_dirty_chunks := (case map_of (dw_dirty_chunks w) last_index of
                           Some chunk \<Rightarrow> dirty_insert last_index (resize new_size chunk) (dw_dirty_chunks w)
                         | None \<Rightarrow> dw_dirty_chunks w)\<rparr>
                else push)"

text \<open>The loop of \<open>locate_position\<close>: the index, the start of the chunk, the sizes that are left.\<close>

fun locate_in :: "nat \<Rightarrow> nat \<Rightarrow> nat \<Rightarrow> nat list \<Rightarrow> (nat \<times> nat) option" where
  "locate_in pos index start [] = None"
| "locate_in pos index start (sz # sizes) =
     (let e = sat_add start sz
      in if pos < e then Some (index, pos - start) else locate_in pos (index + 1) e sizes)"

definition dw_locate_position :: "nat \<Rightarrow> diff_writer \<Rightarrow> (nat \<times> nat) option" where
  "dw_locate_position pos w =
     (if dw_merged_chunk_sizes w = [] \<or> pos \<ge> dw_total_size w then None
      else locate_in pos 0 0 (dw_merged_chunk_sizes w))"

definition ensure_dirty_chunk ::
  "('j, 'f) diff_env \<Rightarrow> 'f named_data_mgr \<Rightarrow> nat \<Rightarrow> diff_writer \<Rightarrow> unit ndn_result \<times> diff_writer" where
  "ensure_dirty_chunk D m i w =
     (if i \<ge> length (dw_merged_chunk_sizes w) then (Err (InvalidParam ''invalid chunk index ''), w)
      else
        let expected = dw_merged_chunk_sizes w ! i
        in case map_of (dw_dirty_chunks w) i of
             Some chunk \<Rightarrow>
               (Ok (), if length chunk \<noteq> expected
                       then w\<lparr>dw_dirty_chunks := dirty_insert i (resize expected chunk) (dw_dirty_chunks w)\<rparr> else w)
           | None \<Rightarrow>
               (case (if i < length (dw_base_chunk_ids w) then
                        and_then (open_store_chunk_reader_with_fallback D m (dw_base_chunk_ids w ! i) 0
                                    (dw_auto_cache w) (dw_local_mode w) (dw_open_chunk_reader w))
                          (\<lambda>base_data. Ok (take expected base_data @ replicate (expected - length base_data) 0))
                      else Ok (replicate expected 0)) of
                  Inl e \<Rightarrow> (Err e, w)
                | Inr chunk \<Rightarrow> (Ok (), w\<lparr>dw_dirty_chunks := dirty_insert i chunk (dw_dirty_chunks w)\<rparr>)))"

text \<open>The end of the loop body of \<open>write\<close>: copy bytes into the dirty chunk and advance.  A range that is not inside
  the chunk panics (\<open>None\<close>).\<close>

definition write_in_chunk :: "nat \<Rightarrow> nat \<Rightarrow> u8 list \<Rightarrow> diff_writer \<Rightarrow> diff_writer ndn_result option" where
  "write_in_chunk i off bs w =
     (case map_of (dw_dirty_chunks w) i of
        None \<Rightarrow> Some (Err (Internal ''dirty chunk missing''))
      | Some chunk \<Rightarrow>
          if off + length bs > length chunk then None
          else
            let pos = sat_add (dw_position w) (length bs)
            in Some (Ok (w\<lparr>dw_dirty_chunks := dirty_insert i (take off chunk @ bs @ drop (off + length bs) chunk) (dw_dirty_chunks w),
                          dw_position := pos, dw_total_size := max (dw_total_size w) pos\<rparr>)))"

lemma locate_in_bounds:
  "locate_in pos k start sizes = Some (i, off) \<Longrightarrow> start \<le> pos \<Longrightarrow> k \<le> i \<and> i < k + length sizes \<and> off < sizes ! (i - k)"
proof (induction sizes arbitrary: k start)
  case (Cons sz sizes)
  show ?case
  proof (cases "pos < sat_add start sz")
    case True
    with Cons.prems show ?thesis by (auto simp: sat_add_def Let_def)
  next
    case False
    with Cons.prems Cons.IH [of "k + 1" "sat_add start sz"] show ?thesis
      by (auto simp: Let_def nth_Cons' not_less)
  qed
qed simp

lemma dw_locate_bounds:
  "dw_locate_position pos w = Some (i, off) \<Longrightarrow> i < length (dw_merged_chunk_sizes w) \<and> off < dw_merged_chunk_sizes w ! i"
  using locate_in_bounds [of pos 0 0 "dw_merged_chunk_sizes w" i off] by (auto simp: dw_locate_position_def split: if_splits)

text \<open>The loop of \<open>write\<close>; the branch \<open>writable == 0\<close>, which would repeat without end, is never taken.\<close>

function write_loop ::
  "('j, 'f) diff_env \<Rightarrow> 'f named_data_mgr \<Rightarrow> u8 list \<Rightarrow> nat \<Rightarrow> diff_writer \<Rightarrow> (nat ndn_result \<times> diff_writer) option" where
  "write_loop D m buf written w =
     (if buf = [] then Some (Ok written, w)
      else
        let w1 = (if dw_position w = dw_total_size w then extend_for_append (length buf) w else w)
        in case dw_locate_position (dw_position w1) w1 of
             None \<Rightarrow> Some (Err (Internal ''failed to locate write position''), w1)
           | Some (i, off) \<Rightarrow>
               let writable = dw_merged_chunk_sizes w1 ! i - off
               in if writable = 0 then write_loop D m buf written w1
                  else
                    let write_len = min writable (length buf)
                    in case ensure_dirty_chunk D m i w1 of
                         (Inl e, w2) \<Rightarrow> Some (Err e, w2)
                       | (Inr _, w2) \<Rightarrow>
                           (case write_in_chunk i off (take write_len buf) w2 of
                              None \<Rightarrow> None
                            | Some (Inl e) \<Rightarrow> Some (Err e, w2)
                            | Some (Inr w3) \<Rightarrow> write_loop D m (drop write_len buf) (written + write_len) w3))"
  by pat_completeness auto
termination
proof (relation "measure (\<lambda>(D, m, buf, written, w). length buf)", goal_cases)
  case (2 D m buf written w w1 x i off writable)
  with dw_locate_bounds [of "dw_position w1" w1 i off] show ?case by simp
qed auto

declare write_loop.simps [simp del]

definition dw_write ::
  "('j, 'f) diff_env \<Rightarrow> 'f named_data_mgr \<Rightarrow> u8 list \<Rightarrow> diff_writer \<Rightarrow> (nat ndn_result \<times> diff_writer) option" where
  "dw_write D m buf w = (if buf = [] then Some (Ok 0, w) else write_loop D m buf 0 w)"

definition dw_write_all ::
  "('j, 'f) diff_env \<Rightarrow> 'f named_data_mgr \<Rightarrow> u8 list \<Rightarrow> diff_writer \<Rightarrow> (unit ndn_result \<times> diff_writer) option" where
  "dw_write_all D m buf w =
     map_option (\<lambda>(r, w'). (and_then r (\<lambda>n. if n \<noteq> length buf then Err (IoError ''write truncated'') else Ok ()), w'))
       (dw_write D m buf w)"

section \<open>Saving\<close>

definition diff_chunk_id :: "'j ext_crates \<Rightarrow> u8 list \<Rightarrow> chunk_id ndn_result" where
  "diff_chunk_id E data =
     (case chunk_hasher_new None of
        Inl _ \<Rightarrow> Err (InvalidParam ''hasher'')
      | Inr h \<Rightarrow> calc_mix_chunk_id_from_bytes E h data)"

fun persist_loop ::
  "('j, 'f) diff_env \<Rightarrow> bool \<Rightarrow> nat list \<Rightarrow> dirty_map \<Rightarrow> u8 list \<Rightarrow> persisted_dirty_chunks \<Rightarrow> 'f named_data_mgr
   \<Rightarrow> persisted_dirty_chunks ndn_result \<times> u8 list \<times> 'f named_data_mgr" where
  "persist_loop D named sizes [] file_bytes acc m = (Ok acc, file_bytes, m)"
| "persist_loop D named sizes ((i, data) # rest) file_bytes acc m =
     (if i \<ge> length sizes then (Err (InvalidParam ''dirty chunk index out of range''), file_bytes, m)
      else if length data \<noteq> sizes ! i then (Err (InvalidData ''dirty chunk size mismatch''), file_bytes, m)
      else
        (case diff_chunk_id (dv_crates D) data of
           Inl e \<Rightarrow> (Err e, file_bytes @ data, m)
         | Inr cid \<Rightarrow>
             (case (if named then ndm_put_chunk (dv_crates D) (dv_backend D) (dv_hash D) (dv_now D) cid data m
                    else (Ok (), m)) of
                (Inl e, m') \<Rightarrow> (Err e, file_bytes @ data, m')
              | (Inr _, m') \<Rightarrow>
                  persist_loop D named sizes rest (file_bytes @ data)
                    (acc\<lparr>pd_diff_chunk_ids := (if named then pd_diff_chunk_ids acc @ [cid] else pd_diff_chunk_ids acc),
                         pd_dirty_chunk_id_map := (pd_dirty_chunk_id_map acc)(i \<mapsto> cid),
                         pd_chunk_indices := pd_chunk_indices acc @ [i],
                         pd_diff_chunk_sizes := pd_diff_chunk_sizes acc @ [length data]\<rparr>) m')))"

definition persist_dirty_chunks_to_diff_file ::
  "('j, 'f) diff_env \<Rightarrow> bool \<Rightarrow> diff_writer \<Rightarrow> disk \<Rightarrow> 'f named_data_mgr
   \<Rightarrow> persisted_dirty_chunks ndn_result \<times> disk \<times> 'f named_data_mgr" where
  "persist_dirty_chunks_to_diff_file D named w dk m =
     (case persist_loop D named (dw_merged_chunk_sizes w) (dw_dirty_chunks w) []
             \<lparr>pd_chunk_indices = [], pd_diff_chunk_sizes = [], pd_dirty_chunk_id_map = (\<lambda>_. None), pd_diff_chunk_ids = []\<rparr> m of
        (r, file_bytes, m') \<Rightarrow> (r, dk\<lparr>dk_files := (dk_files dk)(dw_diff_file_path w \<mapsto> file_bytes)\<rparr>, m'))"

text \<open>For a path that ends in a file name.\<close>

definition state_file_path_for :: "string \<Rightarrow> string" where
  "state_file_path_for path = path @ ''.state.json''"

definition dw_close ::
  "('j, 'f) diff_env \<Rightarrow> diff_writer \<Rightarrow> disk \<Rightarrow> 'f named_data_mgr \<Rightarrow> diff_writer_state ndn_result \<times> disk \<times> 'f named_data_mgr" where
  "dw_close D w dk m =
     (case persist_dirty_chunks_to_diff_file D False w dk m of
        (Inl e, dk1, m1) \<Rightarrow> (Err e, dk1, m1)
      | (Inr p, dk1, m1) \<Rightarrow>
          let st = \<lparr>ws_base_chunk_list = dw_base_chunk_list_id w, ws_diff_file_path = dw_diff_file_path w,
                ws_chunk_indices = pd_chunk_indices p, ws_diff_chunk_sizes = pd_diff_chunk_sizes p,
                ws_base_chunk_sizes = dw_base_chunk_sizes w, ws_merged_chunk_sizes = dw_merged_chunk_sizes w,
                ws_position = dw_position w, ws_total_size = dw_total_size w, ws_auto_cache = dw_auto_cache w,
                ws_local_mode = dw_local_mode w, ws_fixed_chunk_size = dw_fixed_chunk_size w,
                ws_append_merge_last_chunk = dw_append_merge_last_chunk w\<rparr>
          in (Ok st, dk1\<lparr>dk_states := (dk_states dk1)(state_file_path_for (dw_diff_file_path w) \<mapsto> st)\<rparr>, m1))"

definition load_state :: "string \<Rightarrow> disk \<Rightarrow> diff_writer_state ndn_result" where
  "load_state path dk = ok_or (dk_states dk (state_file_path_for path)) (IoError ''read writer state failed: '')"

fun build_merged_chunk_ids :: "chunk_id list \<Rightarrow> (nat \<Rightarrow> chunk_id option) \<Rightarrow> nat list \<Rightarrow> chunk_id list ndn_result" where
  "build_merged_chunk_ids base ids [] = Ok []"
| "build_merged_chunk_ids base ids (i # is) =
     (case ids i of
        Some c \<Rightarrow> and_then (build_merged_chunk_ids base ids is) (\<lambda>cs. Ok (c # cs))
      | None \<Rightarrow>
          if i < length base then and_then (build_merged_chunk_ids base ids is) (\<lambda>cs. Ok (base ! i # cs))
          else Err (InvalidData ''chunk index has no chunk id (not in base and not dirty)''))"

definition build_simple_chunk_list_from_ids :: "'j ext_crates \<Rightarrow> chunk_id list \<Rightarrow> nat list \<Rightarrow> chunk_list ndn_result" where
  "build_simple_chunk_list_from_ids E ids sizes =
     (case from_chunk_list E ids of
        Inr cl \<Rightarrow>
          if unat (cl_total_size cl) \<noteq> sum_u64 sizes then Err (InvalidData ''merged chunk total size mismatch'') else Ok cl
      | Inl _ \<Rightarrow> Ok \<lparr>cl_total_size = of_nat (sum_u64 sizes), cl_body = ids\<rparr>)"

definition dw_finalize ::
  "('j, 'f) diff_env \<Rightarrow> bool \<Rightarrow> diff_writer \<Rightarrow> disk \<Rightarrow> 'f named_data_mgr
   \<Rightarrow> (diff_chunk_list \<times> chunk_list) ndn_result \<times> disk \<times> 'f named_data_mgr" where
  "dw_finalize D named w dk m =
     (case persist_dirty_chunks_to_diff_file D named w dk m of
        (Inl e, dk1, m1) \<Rightarrow> (Err e, dk1, m1)
      | (Inr p, dk1, m1) \<Rightarrow>
          (case and_then (build_merged_chunk_ids (dw_base_chunk_ids w) (pd_dirty_chunk_id_map p)
                            [0..<length (dw_merged_chunk_sizes w)])
                  (\<lambda>ids. build_simple_chunk_list_from_ids (dv_crates D) ids (dw_merged_chunk_sizes w)) of
             Inl e \<Rightarrow> (Err e, dk1, m1)
           | Inr merged \<Rightarrow>
               (Ok (\<lparr>dl_base_chunk_list = dw_base_chunk_list_id w, dl_diff_file_path = dw_diff_file_path w,
                     dl_chunk_indices = pd_chunk_indices p,
                     dl_chunk_ids = (if named then Some (pd_diff_chunk_ids p) else None)\<rparr>, merged),
                dk1\<lparr>dk_states := (dk_states dk1)(state_file_path_for (dw_diff_file_path w) := None)\<rparr>, m1)))"

section \<open>Reopening\<close>

definition check_writer_state :: "diff_writer_state \<Rightarrow> unit ndn_result" where
  "check_writer_state st =
     (if ws_position st > ws_total_size st then Err (InvalidData ''writer state position exceeds total_size'')
      else if sum_u64 (ws_merged_chunk_sizes st) \<noteq> ws_total_size st then Err (InvalidData ''writer state total_size mismatch'')
      else if length (ws_chunk_indices st) \<noteq> length (ws_diff_chunk_sizes st) then
        Err (InvalidData ''writer state diff size count mismatch index count'')
      else Ok ())"

definition file_data :: "string \<Rightarrow> disk \<Rightarrow> u8 list" where
  "file_data path dk = (case dk_files dk path of Some bs \<Rightarrow> bs | None \<Rightarrow> [])"

text \<open>The loop over the saved chunks; a slice outside of the file panics (\<open>None\<close>).\<close>

fun reopen_chunks ::
  "nat list \<Rightarrow> u8 list \<Rightarrow> (nat \<times> nat) list \<Rightarrow> nat set \<Rightarrow> nat \<Rightarrow> dirty_map \<Rightarrow> dirty_map ndn_result option" where
  "reopen_chunks sizes bytes [] seen cursor acc = Some (Ok acc)"
| "reopen_chunks sizes bytes ((i, sz) # rest) seen cursor acc =
     (if i \<in> seen then Some (Err (InvalidData ''duplicate dirty chunk index in writer state''))
      else if i \<ge> length sizes then Some (Err (InvalidData ''dirty chunk index out of merged chunk range''))
      else if sz \<noteq> sizes ! i then Some (Err (InvalidData ''dirty chunk size mismatch''))
      else
        let e = sat_add cursor sz
        in if e > length bytes then None
           else reopen_chunks sizes bytes rest (insert i seen) e (dirty_insert i (take (e - cursor) (drop cursor bytes)) acc))"

definition open_from_state ::
  "chunk_list \<Rightarrow> diff_writer_state \<Rightarrow> open_chunk_reader option \<Rightarrow> disk \<Rightarrow> diff_writer ndn_result option" where
  "open_from_state base st custom dk =
     (if length (ws_base_chunk_sizes st) \<noteq> length (cl_body base) then
        Some (Err (InvalidData ''base chunk size count mismatch base chunk id count''))
      else
        (case check_writer_state st of
           Inl e \<Rightarrow> Some (Err e)
         | Inr _ \<Rightarrow>
             let bytes = file_data (ws_diff_file_path st) dk
             in if sum_u64 (ws_diff_chunk_sizes st) \<noteq> length bytes then Some (Err (InvalidData ''diff file size mismatch''))
                else
                  map_option (\<lambda>r. and_then r (\<lambda>dirty. Ok
                    \<lparr>dw_base_chunk_list_id = ws_base_chunk_list st, dw_base_chunk_ids = cl_body base,
                     dw_base_chunk_sizes = ws_base_chunk_sizes st, dw_auto_cache = ws_auto_cache st,
                     dw_local_mode = ws_local_mode st, dw_open_chunk_reader = custom,
                     dw_fixed_chunk_size = ws_fixed_chunk_size st,
                     dw_append_merge_last_chunk = ws_append_merge_last_chunk st, dw_diff_file_path = ws_diff_file_path st,
                     dw_merged_chunk_sizes = ws_merged_chunk_sizes st, dw_dirty_chunks = dirty,
                     dw_position = ws_position st, dw_total_size = ws_total_size st\<rparr>))
                    (reopen_chunks (ws_merged_chunk_sizes st) bytes (zip (ws_chunk_indices st) (ws_diff_chunk_sizes st)) {} 0 [])))"

fun rebuild_chunks ::
  "'j ext_crates \<Rightarrow> nat list \<Rightarrow> u8 list \<Rightarrow> (nat \<times> nat) list \<Rightarrow> nat set \<Rightarrow> nat \<Rightarrow> (nat \<Rightarrow> chunk_id option) \<Rightarrow> dirty_chunk_info list
   \<Rightarrow> ((nat \<Rightarrow> chunk_id option) \<times> dirty_chunk_info list) ndn_result" where
  "rebuild_chunks E sizes bytes [] seen cursor ids infos =
     (if cursor \<noteq> length bytes then Err (InvalidData ''diff chunk bytes not fully consumed'') else Ok (ids, infos))"
| "rebuild_chunks E sizes bytes ((i, sz) # rest) seen cursor ids infos =
     (if i \<in> seen then Err (InvalidData ''duplicate dirty chunk index in writer state'')
      else if i \<ge> length sizes then Err (InvalidData ''dirty chunk index out of merged chunk range'')
      else if sz \<noteq> sizes ! i then Err (InvalidData ''dirty chunk size mismatch'')
      else
        (case checked_add cursor sz of
           None \<Rightarrow> Err (InvalidData ''dirty chunk cursor overflow'')
         | Some e \<Rightarrow>
             if e > length bytes then Err (InvalidData ''dirty chunk bytes out of range'')
             else and_then (diff_chunk_id E (take (e - cursor) (drop cursor bytes))) (\<lambda>cid.
               rebuild_chunks E sizes bytes rest (insert i seen) e (ids(i \<mapsto> cid))
                 (infos @ [\<lparr>dc_chunk_index = i, dc_diff_file_offset = cursor, dc_chunk_size = sz, dc_chunk_id = cid\<rparr>]))))"

definition rebuild_merged_state_from_writer_state ::
  "'j ext_crates \<Rightarrow> chunk_id list \<Rightarrow> diff_writer_state \<Rightarrow> disk \<Rightarrow> diff_merged_state ndn_result" where
  "rebuild_merged_state_from_writer_state E base st dk =
     and_then (check_writer_state st) (\<lambda>_.
     and_then (case dk_files dk (ws_diff_file_path st) of
                 Some bs \<Rightarrow> Ok bs
               | None \<Rightarrow> if sum_u64 (ws_diff_chunk_sizes st) = 0 then Ok [] else Err (NotFound ''diff file not found: '')) (\<lambda>bytes.
     if sum_u64 (ws_diff_chunk_sizes st) \<noteq> length bytes then Err (InvalidData ''diff file size mismatch'')
     else
       and_then (rebuild_chunks E (ws_merged_chunk_sizes st) bytes (zip (ws_chunk_indices st) (ws_diff_chunk_sizes st))
                   {} 0 (\<lambda>_. None) []) (\<lambda>(ids, infos).
       and_then (build_merged_chunk_ids base ids [0..<length (ws_merged_chunk_sizes st)]) (\<lambda>merged.
       and_then (build_simple_chunk_list_from_ids E merged (ws_merged_chunk_sizes st)) (\<lambda>cl.
       Ok \<lparr>ms_merged_chunk_list = cl, ms_merged_chunk_sizes = ws_merged_chunk_sizes st, ms_dirty_chunks = infos\<rparr>)))))"

end
