(* ===== verification/Diff_Reader.thy ===== *)
theory Diff_Reader
  imports Diff_Chunk_List
begin

text \<open>
  The reader of \<open>diff_chunk_list.rs\<close>: the chunks of a base list with those of a diff file on top, as one stream
  that can be read and repositioned.

  An opened chunk is the list of the bytes it still has; how many of them one \<open>poll_read\<close> hands over is
  an argument, so that short reads are covered.  A future that opens a chunk is the chunk and the offset it
  was made for and is ready when it is polled.
\<close>

section \<open>Opening\<close>

datatype io_error = IoNdn ndn_error | IoInvalidInput string | IoInvalidData string | IoOther string | IoOs string

definition to_io_error :: "ndn_error \<Rightarrow> io_error" where
  "to_io_error e = IoNdn e"

record diff_reader =
  dr_auto_cache :: bool
  dr_local_mode :: bool
  dr_open_chunk_reader :: "open_chunk_reader option"
  dr_diff_file_path :: string
  dr_diff_entries :: "diff_entry_meta list"
  dr_merged_chunks :: "merged_chunk_meta list"
  dr_total_size :: nat
  dr_position :: nat
  dr_next_chunk_index :: nat
  dr_next_chunk_offset :: nat
  dr_active_chunk_index :: "nat option"
  dr_pending_seek :: "nat option"
  dr_loading_chunk_index :: "nat option"
  dr_loading_future :: "(merged_chunk_source \<times> diff_entry_meta option \<times> nat) option"
  dr_current_reader :: "u8 list option"

fun id_sizes :: "'j ext_crates \<Rightarrow> chunk_id list \<Rightarrow> nat list ndn_result" where
  "id_sizes E [] = Ok []"
| "id_sizes E (c # cs) =
     (case chunk_get_length E c of
        None \<Rightarrow> Err (Unsupported ''chunk id has no embedded length'')
      | Some n \<Rightarrow> and_then (id_sizes E cs) (\<lambda>ns. Ok (unat n # ns)))"

fun inferred_sizes :: "nat list \<Rightarrow> nat option \<Rightarrow> nat \<Rightarrow> nat \<Rightarrow> nat list \<Rightarrow> nat list ndn_result" where
  "inferred_sizes base_sizes fixed file_size consumed [] = Ok []"
| "inferred_sizes base_sizes fixed file_size consumed (i # rest) =
     (if rest = [] then Ok [file_size - consumed]
      else
        and_then (if i < length base_sizes then Ok (base_sizes ! i)
                  else (case fixed of
                          Some f \<Rightarrow> Ok f
                        | None \<Rightarrow> Err (Unsupported ''cannot infer size for appended diff chunk index''))) (\<lambda>sz.
        and_then (inferred_sizes base_sizes fixed file_size (sat_add consumed sz) rest) (\<lambda>ns. Ok (sz # ns))))"

definition resolve_diff_chunk_sizes ::
  "'j ext_crates \<Rightarrow> diff_chunk_list \<Rightarrow> nat list \<Rightarrow> nat option \<Rightarrow> nat list option \<Rightarrow> nat \<Rightarrow> nat list ndn_result" where
  "resolve_diff_chunk_sizes E d base_sizes fixed explicit file_size =
     (case dl_chunk_ids d of
        Some ids \<Rightarrow> id_sizes E ids
      | None \<Rightarrow>
          (case explicit of
             Some sizes \<Rightarrow> Ok sizes
           | None \<Rightarrow> inferred_sizes base_sizes fixed file_size 0 (dl_chunk_indices d)))"

text \<open>The loop of \<open>build_diff_entries\<close> over the indices and the sizes; \<open>k\<close> counts the entries.\<close>

fun diff_entries_from :: "chunk_id list option \<Rightarrow> nat \<Rightarrow> nat \<Rightarrow> (nat \<times> nat) list \<Rightarrow> diff_entry_meta list ndn_result" where
  "diff_entries_from ids k off [] = Ok []"
| "diff_entries_from ids k off ((i, sz) # rest) =
     (case checked_add off sz of
        None \<Rightarrow> Err (InvalidData ''diff file size overflow'')
      | Some off' \<Rightarrow>
          and_then (diff_entries_from ids (k + 1) off' rest) (\<lambda>es.
            Ok (\<lparr>de_chunk_index = i, de_file_offset = off, de_size = sz,
                 de_chunk_id = (case ids of None \<Rightarrow> None | Some l \<Rightarrow> if k < length l then Some (l ! k) else None)\<rparr> # es)))"

definition build_diff_entries :: "diff_chunk_list \<Rightarrow> nat list \<Rightarrow> diff_entry_meta list ndn_result" where
  "build_diff_entries d sizes =
     (if length sizes \<noteq> length (dl_chunk_indices d) then
        Err (InvalidParam ''diff chunk size count does not match chunk index count'')
      else diff_entries_from (dl_chunk_ids d) 0 0 (zip (dl_chunk_indices d) sizes))"

definition validate_diff_file_len :: "diff_entry_meta list \<Rightarrow> nat \<Rightarrow> unit ndn_result" where
  "validate_diff_file_len des file_size =
     (if (case des of [] \<Rightarrow> 0 | _ \<Rightarrow> sat_add (de_file_offset (last des)) (de_size (last des))) \<noteq> file_size
      then Err (InvalidData ''diff file size mismatch'') else Ok ())"

fun overlay_entries ::
  "nat \<Rightarrow> diff_entry_meta list \<Rightarrow> merged_chunk_meta list \<Rightarrow> merged_chunk_meta list ndn_result" where
  "overlay_entries k [] chunks = Ok chunks"
| "overlay_entries k (e # es) chunks =
     (if de_chunk_index e > length chunks then Err (InvalidParam ''diff chunk index leaves gap'')
      else
        let new_chunk = \<lparr>mc_size = de_size e, mc_start = 0, mc_source = FromDiff k\<rparr>
        in overlay_entries (k + 1) es
             (if de_chunk_index e = length chunks then chunks @ [new_chunk] else chunks[de_chunk_index e := new_chunk]))"

fun set_starts :: "nat \<Rightarrow> merged_chunk_meta list \<Rightarrow> merged_chunk_meta list ndn_result" where
  "set_starts start [] = Ok []"
| "set_starts start (c # cs) =
     (case checked_add start (mc_size c) of
        None \<Rightarrow> Err (InvalidData ''merged chunk size overflow'')
      | Some start' \<Rightarrow> and_then (set_starts start' cs) (\<lambda>ds. Ok (c\<lparr>mc_start := start\<rparr> # ds)))"

definition build_merged_chunks :: "chunk_list \<Rightarrow> nat list \<Rightarrow> diff_entry_meta list \<Rightarrow> merged_chunk_meta list ndn_result" where
  "build_merged_chunks base base_sizes des =
     (if length (cl_body base) \<noteq> length base_sizes then
        Err (InvalidParam ''base chunk id count does not match chunk size count'')
      else
        and_then (overlay_entries 0 des
                    (map (\<lambda>(c, sz). \<lparr>mc_size = sz, mc_start = 0, mc_source = FromBase c\<rparr>) (zip (cl_body base) base_sizes)))
          (set_starts 0))"

section \<open>Positions\<close>

definition calc_seek_target :: "seek_from \<Rightarrow> diff_reader \<Rightarrow> nat ndn_result" where
  "calc_seek_target s r =
     (let target = (case s of SeekStart off \<Rightarrow> int off
                    | SeekCurrent delta \<Rightarrow> int (dr_position r) + delta
                    | SeekEnd delta \<Rightarrow> int (dr_total_size r) + delta)
      in if target < 0 \<or> target > int (dr_total_size r) then Err (OffsetTooLarge ''seek target out of range'')
         else Ok (nat target))"

function bisect :: "merged_chunk_meta list \<Rightarrow> nat \<Rightarrow> nat \<Rightarrow> nat \<Rightarrow> nat" where
  "bisect chunks pos left right =
     (if left < right then
        let mid = left + (right - left) div 2;
            chunk = chunks ! mid
        in if sat_add (mc_start chunk) (mc_size chunk) \<le> pos then bisect chunks pos (mid + 1) right
           else bisect chunks pos left mid
      else left)"
  by pat_completeness auto
termination by (relation "measure (\<lambda>(chunks, pos, left, right). right - left)") auto

declare bisect.simps [simp del]

text \<open>An index outside of the list would panic (\<open>None\<close>).\<close>

definition dr_locate_position :: "nat \<Rightarrow> diff_reader \<Rightarrow> (nat \<times> nat) option" where
  "dr_locate_position pos r =
     (let chunks = dr_merged_chunks r
      in if pos \<ge> dr_total_size r \<or> chunks = [] then Some (length chunks, 0)
         else
           let index = bisect chunks pos 0 (length chunks)
           in if index < length chunks then Some (index, pos - mc_start (chunks ! index)) else None)"

definition apply_seek_target :: "nat \<Rightarrow> diff_reader \<Rightarrow> diff_reader option" where
  "apply_seek_target pos r =
     map_option (\<lambda>(index, off). r\<lparr>dr_position := pos, dr_next_chunk_index := index, dr_next_chunk_offset := off,
         dr_active_chunk_index := None, dr_pending_seek := None, dr_current_reader := None,
         dr_loading_future := None, dr_loading_chunk_index := None\<rparr>)
       (dr_locate_position pos r)"

definition start_seek :: "seek_from \<Rightarrow> diff_reader \<Rightarrow> (io_error + unit) \<times> diff_reader" where
  "start_seek s r =
     (case calc_seek_target s r of
        Inl e \<Rightarrow> (Inl (to_io_error e), r)
      | Inr target \<Rightarrow> (Inr (), r\<lparr>dr_pending_seek := Some target\<rparr>))"

definition poll_complete :: "diff_reader \<Rightarrow> (nat \<times> diff_reader) option" where
  "poll_complete r =
     map_option (\<lambda>r'. (dr_position r', r'))
       (case dr_pending_seek r of
          None \<Rightarrow> Some r
        | Some target \<Rightarrow> apply_seek_target target (r\<lparr>dr_pending_seek := None\<rparr>))"

definition dr_with_options ::
  "('j, 'f) diff_env \<Rightarrow> 'f named_data_mgr \<Rightarrow> disk \<Rightarrow> chunk_list \<Rightarrow> diff_chunk_list \<Rightarrow> seek_from \<Rightarrow> diff_reader_options
   \<Rightarrow> diff_reader ndn_result option" where
  "dr_with_options D m dk base d seek opts =
     (case
        (and_then (dl_validate d) (\<lambda>_.
         and_then (resolve_chunk_sizes_for_list D m base (ro_local_mode opts) (ro_fixed_chunk_size opts) (ro_base_chunk_sizes opts))
           (\<lambda>base_sizes.
         let file_size = length (file_data (dl_diff_file_path d) dk)
         in and_then (resolve_diff_chunk_sizes (dv_crates D) d base_sizes (ro_fixed_chunk_size opts) (ro_diff_chunk_sizes opts) file_size)
           (\<lambda>diff_sizes.
         and_then (build_diff_entries d diff_sizes) (\<lambda>des.
         and_then (validate_diff_file_len des file_size) (\<lambda>_.
         and_then (build_merged_chunks base base_sizes des) (\<lambda>chunks.
         let r = \<lparr>dr_auto_cache = ro_auto_cache opts, dr_local_mode = ro_local_mode opts,
               dr_open_chunk_reader = ro_open_chunk_reader opts, dr_diff_file_path = dl_diff_file_path d,
               dr_diff_entries = des, dr_merged_chunks = chunks,
               dr_total_size = (case chunks of [] \<Rightarrow> 0 | _ \<Rightarrow> sat_add (mc_start (last chunks)) (mc_size (last chunks))),
               dr_position = 0, dr_next_chunk_index = 0, dr_next_chunk_offset = 0, dr_active_chunk_index = None,
               dr_pending_seek = None, dr_loading_chunk_index = None, dr_loading_future = None, dr_current_reader = None\<rparr>
         in and_then (calc_seek_target seek r) (\<lambda>target. Ok (target, r))))))))) of
        Inl e \<Rightarrow> Some (Err e)
      | Inr (target, r) \<Rightarrow> map_option Ok (apply_seek_target target r))"

definition dr_from_writer_state ::
  "('j, 'f) diff_env \<Rightarrow> 'f named_data_mgr \<Rightarrow> disk \<Rightarrow> chunk_list \<Rightarrow> diff_writer_state \<Rightarrow> seek_from \<Rightarrow> open_chunk_reader option
   \<Rightarrow> diff_reader ndn_result option" where
  "dr_from_writer_state D m dk base st seek custom =
     dr_with_options D m dk base
       \<lparr>dl_base_chunk_list = ws_base_chunk_list st, dl_diff_file_path = ws_diff_file_path st,
        dl_chunk_indices = ws_chunk_indices st, dl_chunk_ids = None\<rparr> seek
       \<lparr>ro_auto_cache = ws_auto_cache st, ro_local_mode = ws_local_mode st, ro_fixed_chunk_size = ws_fixed_chunk_size st,
        ro_base_chunk_sizes = Some (ws_base_chunk_sizes st), ro_diff_chunk_sizes = Some (ws_diff_chunk_sizes st),
        ro_open_chunk_reader = custom\<rparr>"

definition dr_from_writer_state_file ::
  "('j, 'f) diff_env \<Rightarrow> 'f named_data_mgr \<Rightarrow> disk \<Rightarrow> chunk_list \<Rightarrow> string \<Rightarrow> seek_from \<Rightarrow> open_chunk_reader option
   \<Rightarrow> diff_reader ndn_result option" where
  "dr_from_writer_state_file D m dk base path seek custom =
     (case load_state path dk of
        Inl e \<Rightarrow> Some (Err e)
      | Inr st \<Rightarrow> dr_from_writer_state D m dk base st seek custom)"

section \<open>Reading\<close>

text \<open>Behind the end of the file a read delivers nothing.\<close>

definition open_diff_file_reader :: "disk \<Rightarrow> string \<Rightarrow> nat \<Rightarrow> nat \<Rightarrow> nat \<Rightarrow> io_error + u8 list" where
  "open_diff_file_reader dk path file_offset chunk_offset chunk_size =
     (case dk_files dk path of
        None \<Rightarrow> Inl (IoOs ''not found'')
      | Some bytes \<Rightarrow>
          (case checked_add file_offset chunk_offset of
             None \<Rightarrow> Inl (IoInvalidInput ''offset overflow'')
           | Some start \<Rightarrow> Inr (take (chunk_size - chunk_offset) (drop start bytes))))"

text \<open>The closure that \<open>start_loading_current_chunk\<close> makes, when it is run.\<close>

definition run_loading ::
  "('j, 'f) diff_env \<Rightarrow> 'f named_data_mgr \<Rightarrow> disk \<Rightarrow> diff_reader \<Rightarrow> merged_chunk_source \<times> diff_entry_meta option \<times> nat
   \<Rightarrow> io_error + u8 list" where
  "run_loading D m dk r fut =
     (case fut of (source, diff_entry, read_offset) \<Rightarrow>
        (case source of
           FromBase c \<Rightarrow>
             (case open_store_chunk_reader_with_fallback D m c read_offset (dr_auto_cache r) (dr_local_mode r) (dr_open_chunk_reader r) of
                Inl e \<Rightarrow> Inl (to_io_error e)
              | Inr bs \<Rightarrow> Inr bs)
         | FromDiff _ \<Rightarrow>
             (case diff_entry of
                None \<Rightarrow> Inl (IoInvalidData ''diff entry missing for diff source'')
              | Some e \<Rightarrow> open_diff_file_reader dk (dr_diff_file_path r) (de_file_offset e) read_offset (de_size e))))"

text \<open>\<open>None\<close> is the panic of an index outside of \<open>diff_entries\<close>.\<close>

definition start_loading_current_chunk :: "diff_reader \<Rightarrow> (io_error + diff_reader) option" where
  "start_loading_current_chunk r =
     (let i = dr_next_chunk_index r
      in if i \<ge> length (dr_merged_chunks r) then Some (Inr r)
         else
           let chunk = dr_merged_chunks r ! i
           in if dr_next_chunk_offset r > mc_size chunk then Some (Inl (IoInvalidInput ''chunk offset exceeds chunk size''))
              else
                let load = (\<lambda>entry. Some (Inr (r\<lparr>dr_loading_chunk_index := Some i,
                      dr_loading_future := Some (mc_source chunk, entry, dr_next_chunk_offset r)\<rparr>)))
                in case mc_source chunk of
                     FromBase _ \<Rightarrow> load None
                   | FromDiff k \<Rightarrow> if k < length (dr_diff_entries r) then load (Some (dr_diff_entries r ! k)) else None)"

definition advance_after_chunk_eof :: "diff_reader \<Rightarrow> diff_reader" where
  "advance_after_chunk_eof r =
     (case dr_active_chunk_index r of
        None \<Rightarrow> r\<lparr>dr_current_reader := None\<rparr>
      | Some i \<Rightarrow> r\<lparr>dr_active_chunk_index := None, dr_next_chunk_index := sat_add i 1, dr_next_chunk_offset := 0,
                     dr_current_reader := None\<rparr>)"

text \<open>The loop of \<open>poll_read\<close>: \<open>n\<close> bytes of the buffer are free and the opened chunk hands over at most
  \<open>grant\<close> of its bytes.  \<open>None\<close> is a panic or a loop without end.\<close>

partial_function (option) poll_read_loop ::
  "('j, 'f) diff_env \<Rightarrow> 'f named_data_mgr \<Rightarrow> disk \<Rightarrow> nat \<Rightarrow> nat \<Rightarrow> diff_reader \<Rightarrow> ((io_error + u8 list) \<times> diff_reader) option" where
  "poll_read_loop D m dk n grant r =
     (case dr_current_reader r of
        Some bs \<Rightarrow>
          (let got = take (min n grant) bs
           in if got \<noteq> [] then
                Some (Inr got, r\<lparr>dr_current_reader := Some (drop (length got) bs), dr_position := sat_add (dr_position r) (length got)\<rparr>)
              else poll_read_loop D m dk n grant (advance_after_chunk_eof r))
      | None \<Rightarrow>
          (case dr_loading_future r of
             Some fut \<Rightarrow>
               (case run_loading D m dk r fut of
                  Inr reader \<Rightarrow>
                    (case dr_loading_chunk_index r of
                       None \<Rightarrow> Some (Inl (IoOther ''loading chunk index missing''), r)
                     | Some i \<Rightarrow>
                         poll_read_loop D m dk n grant
                           (r\<lparr>dr_loading_chunk_index := None, dr_loading_future := None, dr_active_chunk_index := Some i,
                              dr_current_reader := Some reader\<rparr>))
                | Inl e \<Rightarrow> Some (Inl e, r\<lparr>dr_loading_future := None, dr_loading_chunk_index := None\<rparr>))
           | None \<Rightarrow>
               (if dr_position r \<ge> dr_total_size r \<or> dr_next_chunk_index r \<ge> length (dr_merged_chunks r) then Some (Inr [], r)
                else
                  (case start_loading_current_chunk r of
                     None \<Rightarrow> None
                   | Some (Inl e) \<Rightarrow> Some (Inl e, r)
                   | Some (Inr r') \<Rightarrow> poll_read_loop D m dk n grant r'))))"

definition dr_poll_read ::
  "('j, 'f) diff_env \<Rightarrow> 'f named_data_mgr \<Rightarrow> disk \<Rightarrow> nat \<Rightarrow> nat \<Rightarrow> diff_reader \<Rightarrow> ((io_error + u8 list) \<times> diff_reader) option" where
  "dr_poll_read D m dk n grant r =
     (if dr_pending_seek r \<noteq> None then Some (Inl (IoOther ''seek in progress, call poll_complete before read''), r)
      else if n = 0 then Some (Inr [], r)
      else poll_read_loop D m dk n grant r)"

section \<open>The merged chunk list\<close>

definition read_diff_chunk_bytes :: "disk \<Rightarrow> diff_reader \<Rightarrow> diff_entry_meta \<Rightarrow> u8 list ndn_result" where
  "read_diff_chunk_bytes dk r e =
     (case dk_files dk (dr_diff_file_path r) of
        None \<Rightarrow> Err (IoError ''not found'')
      | Some bytes \<Rightarrow>
          let data = take (de_size e) (drop (de_file_offset e) bytes)
          in if length data < de_size e then Err (IoError ''early eof'') else Ok data)"

fun simple_chunk_ids ::
  "('j, 'f) diff_env \<Rightarrow> disk \<Rightarrow> diff_reader \<Rightarrow> bool \<Rightarrow> merged_chunk_meta list \<Rightarrow> 'f named_data_mgr
   \<Rightarrow> (chunk_id list ndn_result \<times> 'f named_data_mgr) option" where
  "simple_chunk_ids D dk r to_store [] m = Some (Ok [], m)"
| "simple_chunk_ids D dk r to_store (c # cs) m =
     (let continue = (\<lambda>cid m1. map_option (\<lambda>(res, m2). (and_then res (\<lambda>ids. Ok (cid # ids)), m2)) (simple_chunk_ids D dk r to_store cs m1))
      in case mc_source c of
           FromBase cid \<Rightarrow> continue cid m
         | FromDiff k \<Rightarrow>
             if k \<ge> length (dr_diff_entries r) then None
             else
               let entry = dr_diff_entries r ! k
               in case and_then (read_diff_chunk_bytes dk r entry) (\<lambda>data.
                         and_then (case de_chunk_id entry of Some cid \<Rightarrow> Ok cid | None \<Rightarrow> diff_chunk_id (dv_crates D) data)
                           (\<lambda>cid. Ok (cid, data))) of
                    Inl e \<Rightarrow> Some (Err e, m)
                  | Inr (cid, data) \<Rightarrow>
                      (case (if to_store then ndm_put_chunk (dv_crates D) (dv_backend D) (dv_hash D) (dv_now D) cid data m
                             else (Ok (), m)) of
                         (Inl e, m1) \<Rightarrow> Some (Err e, m1)
                       | (Inr _, m1) \<Rightarrow> continue cid m1))"

definition build_simple_chunk_list ::
  "('j, 'f) diff_env \<Rightarrow> disk \<Rightarrow> bool \<Rightarrow> diff_reader \<Rightarrow> 'f named_data_mgr \<Rightarrow> (chunk_list ndn_result \<times> 'f named_data_mgr) option" where
  "build_simple_chunk_list D dk to_store r m =
     map_option (\<lambda>(res, m'). (and_then res (\<lambda>ids. from_chunk_list (dv_crates D) ids), m'))
       (simple_chunk_ids D dk r to_store (dr_merged_chunks r) m)"

end
