(* ===== verification/Diff_Writer_Props.thy ===== *)
theory Diff_Writer_Props
  imports Diff_Chunk_List Ndm_Props
begin

text \<open>
  The writer of \<open>diff_chunk_list.rs\<close> against an array of bytes.  \<open>dw_content\<close> is the file that a writer stands for:
  the chunks it changed, the chunks of the base list elsewhere.  Writing overwrites and extends this file at the
  position of the writer; closing and reopening a writer loses nothing; the chunk list that is rebuilt from a saved
  state is the one that \<open>finalize\<close> makes.
\<close>

section \<open>The bytes of a writer\<close>

definition chunk_bytes :: "u8 list list \<Rightarrow> diff_writer \<Rightarrow> nat \<Rightarrow> u8 list" where
  "chunk_bytes data w i =
     resize (dw_merged_chunk_sizes w ! i)
       (case map_of (dw_dirty_chunks w) i of Some d \<Rightarrow> d | None \<Rightarrow> if i < length data then data ! i else [])"

definition pieces :: "nat \<Rightarrow> (nat \<Rightarrow> u8 list) \<Rightarrow> u8 list" where
  "pieces n f = concat (map f [0..<n])"

definition dw_content :: "u8 list list \<Rightarrow> diff_writer \<Rightarrow> u8 list" where
  "dw_content data w = pieces (length (dw_merged_chunk_sizes w)) (chunk_bytes data w)"

definition overwrite :: "nat \<Rightarrow> u8 list \<Rightarrow> u8 list \<Rightarrow> u8 list" where
  "overwrite p bs c = take p c @ bs @ drop (p + length bs) c"

text \<open>The invariant, except for the chunk \<open>x\<close>, which may be larger than the base chunk it comes from.\<close>

definition ok_except :: "nat \<Rightarrow> u8 list list \<Rightarrow> diff_writer \<Rightarrow> bool" where
  "ok_except x data w \<longleftrightarrow>
     sorted_wrt (<) (map fst (dw_dirty_chunks w)) \<and>
     (\<forall>(i, d) \<in> set (dw_dirty_chunks w). i < length (dw_merged_chunk_sizes w) \<and> length d = dw_merged_chunk_sizes w ! i) \<and>
     length (dw_base_chunk_ids w) = length data \<and> dw_base_chunk_sizes w = map length data \<and>
     length data \<le> length (dw_merged_chunk_sizes w) \<and>
     (\<forall>i < length (dw_merged_chunk_sizes w). i \<noteq> x \<longrightarrow> i \<notin> fst ` set (dw_dirty_chunks w) \<longrightarrow>
        i < length data \<and> dw_merged_chunk_sizes w ! i = length (data ! i)) \<and>
     dw_total_size w = sum_list (dw_merged_chunk_sizes w) \<and> dw_total_size w < 2 ^ 64 \<and>
     dw_position w \<le> dw_total_size w"

definition writer_ok :: "u8 list list \<Rightarrow> diff_writer \<Rightarrow> bool" where
  "writer_ok data w \<longleftrightarrow> ok_except (length (dw_merged_chunk_sizes w)) data w"

text \<open>Every chunk of the base list can be opened and delivers these bytes.\<close>

definition readable :: "('j, 'f) diff_env \<Rightarrow> 'f named_data_mgr \<Rightarrow> u8 list list \<Rightarrow> diff_writer \<Rightarrow> bool" where
  "readable D m data w \<longleftrightarrow>
     (\<forall>i < length data. open_store_chunk_reader_with_fallback D m (dw_base_chunk_ids w ! i) 0 (dw_auto_cache w)
        (dw_local_mode w) (dw_open_chunk_reader w) = Ok (data ! i))"

definition same_setup :: "diff_writer \<Rightarrow> diff_writer \<Rightarrow> bool" where
  "same_setup w w' \<longleftrightarrow> dw_base_chunk_list_id w' = dw_base_chunk_list_id w \<and> dw_base_chunk_ids w' = dw_base_chunk_ids w \<and>
     dw_base_chunk_sizes w' = dw_base_chunk_sizes w \<and> dw_auto_cache w' = dw_auto_cache w \<and> dw_local_mode w' = dw_local_mode w \<and>
     dw_open_chunk_reader w' = dw_open_chunk_reader w \<and> dw_fixed_chunk_size w' = dw_fixed_chunk_size w \<and>
     dw_append_merge_last_chunk w' = dw_append_merge_last_chunk w \<and> dw_diff_file_path w' = dw_diff_file_path w"

lemma same_setup_trans: "same_setup a b \<Longrightarrow> same_setup b c \<Longrightarrow> same_setup a c"
  by (simp add: same_setup_def)

lemma readable_setup: "same_setup w w' \<Longrightarrow> readable D m data w' = readable D m data w"
  by (simp add: same_setup_def readable_def)

section \<open>Lists of chunks\<close>

lemma length_resize [simp]: "length (resize n bs) = n"
  by (simp add: resize_def)

lemma resize_id [simp]: "length bs = n \<Longrightarrow> resize n bs = bs"
  by (auto simp: resize_def)

lemma length_chunk_bytes [simp]: "length (chunk_bytes data w i) = dw_merged_chunk_sizes w ! i"
  by (simp add: chunk_bytes_def)

lemma pieces_Suc: "pieces (Suc n) f = pieces n f @ f n"
  by (simp add: pieces_def)

lemma pieces_cong: "(\<And>i. i < n \<Longrightarrow> f i = g i) \<Longrightarrow> pieces n f = pieces n g"
  by (auto simp: pieces_def intro!: arg_cong [where f = concat])

lemma length_pieces: "length (pieces n f) = (\<Sum>i < n. length (f i))"
  by (induction n) (simp_all add: pieces_Suc, simp add: pieces_def)

lemma length_pieces_chunks:
  "n \<le> length (dw_merged_chunk_sizes w) \<Longrightarrow> length (pieces n (chunk_bytes data w)) = sum_list (take n (dw_merged_chunk_sizes w))"
  by (induction n) (simp_all add: pieces_def take_Suc_conv_app_nth)

lemma length_content: "length (dw_content data w) = sum_list (dw_merged_chunk_sizes w)"
  by (simp add: dw_content_def length_pieces_chunks)

lemma pieces_split: "i < n \<Longrightarrow> pieces n f = pieces i f @ f i @ concat (map f [Suc i..<n])"
proof -
  assume "i < n"
  then have "[0..<n] = [0..<i] @ i # [Suc i..<n]"
    by (metis upt_conv_Cons upt_add_eq_append le0 less_imp_le le_add_diff_inverse)
  then show ?thesis by (simp add: pieces_def)
qed

lemma pieces_update:
  assumes "i < n" and "\<And>j. j < n \<Longrightarrow> j \<noteq> i \<Longrightarrow> g j = f j"
    and "g i = overwrite off bs (f i)" and "off + length bs \<le> length (f i)"
  shows "pieces n g = overwrite (length (pieces i f) + off) bs (pieces n f)"
proof -
  have "pieces i g = pieces i f" using assms(1,2) by (intro pieces_cong) auto
  moreover have "map g [Suc i..<n] = map f [Suc i..<n]" using assms(2) by auto
  ultimately have "pieces n g = pieces i f @ overwrite off bs (f i) @ concat (map f [Suc i..<n])"
    unfolding pieces_split [OF assms(1), of g] assms(3) by metis
  then show ?thesis
    using pieces_split [OF assms(1), of f] assms(4) by (simp add: overwrite_def add.assoc)
qed

lemma overwrite_append:
  "p \<le> length c \<Longrightarrow> overwrite (p + length a) b (overwrite p a c) = overwrite p (a @ b) c"
  by (simp add: overwrite_def ac_simps min_def)

lemma overwrite_Nil [simp]: "overwrite p [] c = c"
  by (simp add: overwrite_def)

section \<open>The map of changed chunks\<close>

lemma dirty_insert_keys: "set (map fst (dirty_insert k v m)) = insert k (fst ` set m)"
  by (induction k v m rule: dirty_insert.induct) auto

lemma dirty_insert_sorted: "sorted_wrt (<) (map fst m) \<Longrightarrow> sorted_wrt (<) (map fst (dirty_insert k v m))"
proof (induction k v m rule: dirty_insert.induct)
  case (2 k v j u m)
  then show ?case using dirty_insert_keys [of k v m] by (auto simp del: set_map simp: set_map [symmetric]) 
qed simp

lemma map_of_dirty_insert: "sorted_wrt (<) (map fst m) \<Longrightarrow> map_of (dirty_insert k v m) i = (if i = k then Some v else map_of m i)"
  by (induction k v m rule: dirty_insert.induct) (auto dest: order.strict_trans simp: map_of_eq_None_iff split: if_splits)

lemma sorted_map_of:
  assumes "sorted_wrt (<) (map fst (m :: (nat \<times> 'a) list))"
  shows "(i, d) \<in> set m \<longleftrightarrow> map_of m i = Some d"
  using assms by (simp add: strict_sorted_iff)

section \<open>Locating a position\<close>

lemma locate_in_Some:
  assumes "start \<le> pos" and "pos < start + sum_list sizes" and "start + sum_list sizes < 2 ^ 64"
  shows "\<exists>i off. locate_in pos k start sizes = Some (k + i, off) \<and> i < length sizes \<and> off < sizes ! i \<and>
    pos = start + sum_list (take i sizes) + off"
  using assms
proof (induction sizes arbitrary: k start)
  case (Cons sz sizes)
  have e: "sat_add start sz = start + sz" using Cons.prems(3) by (simp add: sat_add_def)
  show ?case
  proof (cases "pos < start + sz")
    case True
    then show ?thesis
    proof (intro exI conjI)
      show "locate_in pos k start (sz # sizes) = Some (k + 0, pos - start)" using True e by (simp add: Let_def)
      show "pos - start < (sz # sizes) ! 0" using True Cons.prems(1) by auto
      show "pos = start + sum_list (take 0 (sz # sizes)) + (pos - start)" using Cons.prems(1) by simp
    qed simp
  next
    case False
    with Cons.IH [of "start + sz" "k + 1"] Cons.prems obtain i off where
      "locate_in pos (k + 1) (start + sz) sizes = Some (k + 1 + i, off)" "i < length sizes" "off < sizes ! i"
      "pos = start + sz + sum_list (take i sizes) + off" by auto
    with False e show ?thesis by (intro exI [of _ "Suc i"] exI [of _ off]) (simp add: Let_def)
  qed
qed simp

lemma dw_locate_Some:
  assumes "dw_total_size w = sum_list (dw_merged_chunk_sizes w)" and "dw_total_size w < 2 ^ 64" and "pos < dw_total_size w"
  obtains i off where "dw_locate_position pos w = Some (i, off)" "i < length (dw_merged_chunk_sizes w)"
    "off < dw_merged_chunk_sizes w ! i" "pos = sum_list (take i (dw_merged_chunk_sizes w)) + off"
proof -
  have "dw_merged_chunk_sizes w \<noteq> []" using assms(1,3) by auto
  with locate_in_Some [of 0 pos "dw_merged_chunk_sizes w" 0] assms that show thesis
    by (auto simp: dw_locate_position_def)
qed

section \<open>One step of the loop\<close>

text \<open>Replacing the bytes of one chunk.\<close>

lemma set_chunk:
  assumes ok: "ok_except i data w" and i: "i < length (dw_merged_chunk_sizes w)" and d: "length d = dw_merged_chunk_sizes w ! i"
    and w': "w' = w\<lparr>dw_dirty_chunks := dirty_insert i d (dw_dirty_chunks w)\<rparr>"
  shows "writer_ok data w'" and "chunk_bytes data w' j = (if j = i then d else chunk_bytes data w j)"
proof -
  let ?m = "dw_dirty_chunks w"
  have srt: "sorted_wrt (<) (map fst ?m)" using ok by (simp add: ok_except_def)
  have srt': "sorted_wrt (<) (map fst (dirty_insert i d ?m))" by (rule dirty_insert_sorted [OF srt])
  show "chunk_bytes data w' j = (if j = i then d else chunk_bytes data w j)"
    using d by (simp add: chunk_bytes_def w' map_of_dirty_insert [OF srt])
  have "j < length (dw_merged_chunk_sizes w) \<and> length e = dw_merged_chunk_sizes w ! j" if "(j, e) \<in> set (dirty_insert i d ?m)" for j e
  proof (cases "j = i")
    case True
    with that i d show ?thesis by (simp add: sorted_map_of [OF srt'] map_of_dirty_insert [OF srt])
  next
    case False
    with that have "(j, e) \<in> set ?m"
      by (simp add: sorted_map_of [OF srt'] sorted_map_of [OF srt] map_of_dirty_insert [OF srt])
    with ok show ?thesis by (auto simp: ok_except_def)
  qed
  moreover have "fst ` set (dirty_insert i d ?m) = insert i (fst ` set ?m)"
    using dirty_insert_keys [of i d ?m] by simp
  ultimately show "writer_ok data w'"
    using ok srt' by (auto simp: writer_ok_def ok_except_def w')
qed

lemma ensure_dirty_ok:
  assumes ok: "ok_except i data w" and i: "i < length (dw_merged_chunk_sizes w)" and r: "readable D m data w"
  obtains w' where "ensure_dirty_chunk D m i w = (Ok (), w')" "writer_ok data w'"
    "\<And>j. chunk_bytes data w' j = chunk_bytes data w j" "map_of (dw_dirty_chunks w') i = Some (chunk_bytes data w i)"
    "same_setup w w'" "dw_merged_chunk_sizes w' = dw_merged_chunk_sizes w" "dw_position w' = dw_position w"
proof (cases "map_of (dw_dirty_chunks w) i")
  case (Some d)
  then have "(i, d) \<in> set (dw_dirty_chunks w)" by (rule map_of_SomeD)
  with ok have d: "length d = dw_merged_chunk_sizes w ! i" and "i \<in> fst ` set (dw_dirty_chunks w)"
    by (auto simp: ok_except_def rev_image_eqI)
  then have "writer_ok data w" using ok by (auto simp: writer_ok_def ok_except_def)
  moreover have "ensure_dirty_chunk D m i w = (Ok (), w)" using i Some d by (simp add: ensure_dirty_chunk_def)
  moreover have "same_setup w w" by (simp add: same_setup_def)
  moreover have "map_of (dw_dirty_chunks w) i = Some (chunk_bytes data w i)" using Some d by (simp add: chunk_bytes_def)
  ultimately show thesis using that by blast
next
  case None
  let ?d = "chunk_bytes data w i" and ?w = "w\<lparr>dw_dirty_chunks := dirty_insert i (chunk_bytes data w i) (dw_dirty_chunks w)\<rparr>"
  have len: "length (dw_base_chunk_ids w) = length data" and srt: "sorted_wrt (<) (map fst (dw_dirty_chunks w))"
    using ok by (simp_all add: ok_except_def)
  have "ensure_dirty_chunk D m i w = (Ok (), ?w)"
    using i None r len by (auto simp: ensure_dirty_chunk_def readable_def chunk_bytes_def resize_def Let_def)
  moreover note set_chunk [OF ok i length_chunk_bytes refl, of data]
  moreover have "map_of (dw_dirty_chunks ?w) i = Some ?d" by (simp add: map_of_dirty_insert [OF srt])
  moreover have "same_setup w ?w" by (simp add: same_setup_def)
  ultimately show thesis using that [of ?w] by auto
qed

lemma write_in_chunk_ok:
  assumes ok: "writer_ok data w" and i: "i < length (dw_merged_chunk_sizes w)"
    and d: "map_of (dw_dirty_chunks w) i = Some (chunk_bytes data w i)"
    and b: "off + length bs \<le> dw_merged_chunk_sizes w ! i"
    and pos: "dw_position w = sum_list (take i (dw_merged_chunk_sizes w)) + off"
  obtains w' where "write_in_chunk i off bs w = Some (Ok w')" "writer_ok data w'"
    "dw_content data w' = overwrite (dw_position w) bs (dw_content data w)" "dw_position w' = dw_position w + length bs"
    "same_setup w w'"
proof -
  let ?d = "overwrite off bs (chunk_bytes data w i)"
  let ?w1 = "w\<lparr>dw_dirty_chunks := dirty_insert i ?d (dw_dirty_chunks w)\<rparr>"
  let ?p = "dw_position w + length bs"
  let ?w = "?w1\<lparr>dw_position := ?p, dw_total_size := dw_total_size w\<rparr>"
  have ok': "ok_except i data w" using ok by (auto simp: writer_ok_def ok_except_def)
  have len: "length ?d = dw_merged_chunk_sizes w ! i" using b by (simp add: overwrite_def)
  note set = set_chunk [OF ok' i len refl]
  have "sum_list (take (Suc i) (dw_merged_chunk_sizes w)) \<le> sum_list (dw_merged_chunk_sizes w)"
    by (metis append_take_drop_id sum_list_append le_add1)
  then have fit: "?p \<le> dw_total_size w"
    using b pos i ok by (simp add: take_Suc_conv_app_nth writer_ok_def ok_except_def)
  then have sat: "sat_add (dw_position w) (length bs) = ?p" and mx: "max (dw_total_size w) ?p = dw_total_size w"
    using ok by (auto simp: writer_ok_def ok_except_def sat_add_def)
  have run: "write_in_chunk i off bs w = Some (Ok ?w)"
    using d b by (simp add: write_in_chunk_def sat mx Let_def overwrite_def)
  have wok: "writer_ok data ?w" using set(1) fit by (simp add: writer_ok_def ok_except_def)
  have "chunk_bytes data ?w j = chunk_bytes data ?w1 j" for j by (simp add: chunk_bytes_def)
  then have "dw_content data ?w = overwrite (length (pieces i (chunk_bytes data w)) + off) bs (dw_content data w)"
    unfolding dw_content_def using i b set(2)
    by (subst pieces_update [of i _ _ "chunk_bytes data w" off bs]) auto
  then have "dw_content data ?w = overwrite (dw_position w) bs (dw_content data w)"
    using i pos by (simp add: length_pieces_chunks)
  from that [OF run wok this] show thesis by (simp add: same_setup_def)
qed

lemma write_located:
  assumes ok: "ok_except i data w" and r: "readable D m data w"
    and i: "i < length (dw_merged_chunk_sizes w)" and off: "off < dw_merged_chunk_sizes w ! i"
    and pos: "dw_position w = sum_list (take i (dw_merged_chunk_sizes w)) + off"
    and k: "k = min (dw_merged_chunk_sizes w ! i - off) (length buf)"
  obtains w2 w' where "ensure_dirty_chunk D m i w = (Ok (), w2)" "write_in_chunk i off (take k buf) w2 = Some (Ok w')"
    "writer_ok data w'" "dw_content data w' = overwrite (dw_position w) (take k buf) (dw_content data w)"
    "dw_position w' = dw_position w + k" "same_setup w w'"
proof -
  obtain w2 where e: "ensure_dirty_chunk D m i w = (Ok (), w2)" and ok2: "writer_ok data w2"
    and same: "\<And>j. chunk_bytes data w2 j = chunk_bytes data w j" and d: "map_of (dw_dirty_chunks w2) i = Some (chunk_bytes data w i)"
    and st: "same_setup w w2" and sz: "dw_merged_chunk_sizes w2 = dw_merged_chunk_sizes w" and p2: "dw_position w2 = dw_position w"
    using ensure_dirty_ok [OF ok i r] by metis
  have "chunk_bytes data w2 = chunk_bytes data w" using same by (rule ext)
  then have c: "dw_content data w2 = dw_content data w" by (simp add: dw_content_def sz)
  have len: "length (take k buf) = k" using k by simp
  obtain w' where "write_in_chunk i off (take k buf) w2 = Some (Ok w')" "writer_ok data w'"
    "dw_content data w' = overwrite (dw_position w2) (take k buf) (dw_content data w2)"
    "dw_position w' = dw_position w2 + length (take k buf)" "same_setup w2 w'"
    by (rule write_in_chunk_ok [OF ok2, of i off "take k buf"]) (use i d k off pos len in \<open>auto simp: sz same p2\<close>)
  with e same_setup_trans [OF st] show thesis by (intro that [of w2 w']) (simp_all only: c p2 len)
qed

lemma preferred_pos: "0 < n \<Longrightarrow> 0 < preferred_chunk_size n w"
  by (auto simp: preferred_chunk_size_def Let_def split: option.split list.split)

lemma resize_grow: "length bs \<le> n \<Longrightarrow> resize (n + g) (resize n bs) = resize n bs @ replicate g 0" "resize g [] = replicate g 0"
  by (simp_all add: resize_def)

lemma extend_push:
  assumes ok: "writer_ok data w" and g: "dw_total_size w + g < 2 ^ 64"
    and w1: "w1 = w\<lparr>dw_merged_chunk_sizes := dw_merged_chunk_sizes w @ [g], dw_total_size := dw_total_size w + g\<rparr>"
  shows "ok_except (length (dw_merged_chunk_sizes w)) data w1" and "dw_content data w1 = dw_content data w @ replicate g 0"
proof -
  let ?n = "length (dw_merged_chunk_sizes w)"
  show "ok_except ?n data w1" using ok g by (auto simp: writer_ok_def ok_except_def w1 nth_append less_Suc_eq)
  have keys: "\<forall>(i, d) \<in> set (dw_dirty_chunks w). i < ?n" and len: "length data \<le> ?n"
    using ok by (auto simp: writer_ok_def ok_except_def)
  then have "map_of (dw_dirty_chunks w) ?n = None" by (auto simp: map_of_eq_None_iff)
  with len have "chunk_bytes data w1 ?n = replicate g 0" by (simp add: chunk_bytes_def w1 resize_grow)
  moreover have "chunk_bytes data w1 j = chunk_bytes data w j" if "j < ?n" for j
    using that by (simp add: chunk_bytes_def w1 nth_append)
  moreover have "length (dw_merged_chunk_sizes w1) = Suc ?n" by (simp add: w1)
  ultimately show "dw_content data w1 = dw_content data w @ replicate g 0"
    using pieces_cong [of ?n "chunk_bytes data w1" "chunk_bytes data w"] by (simp add: dw_content_def pieces_Suc)
qed

lemma extend_grow:
  assumes ok: "writer_ok data w" and ne: "dw_merged_chunk_sizes w \<noteq> []" and g: "dw_total_size w + g < 2 ^ 64"
    and n: "n = length (dw_merged_chunk_sizes w) - 1"
    and w1: "w1 = w\<lparr>dw_merged_chunk_sizes := (dw_merged_chunk_sizes w)[n := dw_merged_chunk_sizes w ! n + g],
       dw_total_size := dw_total_size w + g,
       dw_dirty_chunks := (case map_of (dw_dirty_chunks w) n of
           Some chunk \<Rightarrow> dirty_insert n (resize (dw_merged_chunk_sizes w ! n + g) chunk) (dw_dirty_chunks w)
         | None \<Rightarrow> dw_dirty_chunks w)\<rparr>"
  shows "ok_except n data w1" and "dw_content data w1 = dw_content data w @ replicate g 0"
proof -
  let ?s = "dw_merged_chunk_sizes w" and ?m = "dw_dirty_chunks w"
  have n': "Suc n = length ?s" using ne n by simp
  have srt: "sorted_wrt (<) (map fst ?m)" using ok by (simp add: writer_ok_def ok_except_def)
  have srt': "sorted_wrt (<) (map fst (dw_dirty_chunks w1))"
    using srt by (auto simp: w1 dirty_insert_sorted split: option.split)
  have map: "map_of (dw_dirty_chunks w1) j = (if j = n then map_option (resize (?s ! n + g)) (map_of ?m n) else map_of ?m j)" for j
    by (auto simp: w1 map_of_dirty_insert [OF srt] split: option.split)
  have dirty: "i < length ?s \<and> length d = ?s ! i" if "map_of ?m i = Some d" for i d
    using ok map_of_SomeD [OF that] by (auto simp: writer_ok_def ok_except_def)
  have keys: "fst ` set (dw_dirty_chunks w1) = fst ` set ?m"
    by (auto simp: w1 dest!: map_of_SomeD split: option.splits simp del: set_map
        simp: dirty_insert_keys [unfolded set_map] rev_image_eqI)
  have sum: "sum_list (?s[n := ?s ! n + g]) = sum_list ?s + g"
    using n' by (simp add: sum_list_update member_le_sum_list)
  have "i < length ?s \<and> length d = ?s[n := ?s ! n + g] ! i" if "(i, d) \<in> set (dw_dirty_chunks w1)" for i d
    using that dirty n' unfolding sorted_map_of [OF srt'] map by (auto split: if_splits)
  with ok srt' keys sum g show "ok_except n data w1"
    by (fastforce simp: writer_ok_def ok_except_def w1)
  have clean: "n < length data \<and> ?s ! n = length (data ! n)" if "map_of ?m n = None"
    using ok that n' by (auto simp: writer_ok_def ok_except_def map_of_eq_None_iff)
  have m1: "dw_merged_chunk_sizes w1 = ?s[n := ?s ! n + g]" by (simp add: w1)
  have "chunk_bytes data w1 n = chunk_bytes data w n @ replicate g 0"
  proof (cases "map_of ?m n")
    case None
    with clean n' show ?thesis by (simp add: chunk_bytes_def map m1) (simp add: resize_def)
  next
    case (Some d)
    with dirty [OF Some] n' show ?thesis by (simp add: chunk_bytes_def map m1) (simp add: resize_def)
  qed
  moreover have "chunk_bytes data w1 j = chunk_bytes data w j" if "j < n" for j
    using that n' by (simp add: chunk_bytes_def map m1)
  moreover have "length (dw_merged_chunk_sizes w1) = Suc n" using n' by (simp add: w1)
  ultimately show "dw_content data w1 = dw_content data w @ replicate g 0"
    using pieces_cong [of n "chunk_bytes data w1" "chunk_bytes data w"] by (simp add: dw_content_def n' [symmetric] pieces_Suc)
qed

lemma extend_ok:
  assumes ok: "writer_ok data w" and k: "0 < k" and room: "dw_total_size w + k < 2 ^ 64" and w1: "w1 = extend_for_append k w"
  obtains g i where "0 < g" "g \<le> k" "ok_except i data w1" "dw_content data w1 = dw_content data w @ replicate g 0"
    "Suc i = length (dw_merged_chunk_sizes w1)" "g \<le> dw_merged_chunk_sizes w1 ! i" "dw_total_size w1 = dw_total_size w + g"
    "dw_position w1 = dw_position w" "same_setup w w1"
proof -
  let ?s = "dw_merged_chunk_sizes w" and ?p = "preferred_chunk_size k w"
  let ?n = "length ?s - 1"
  have pp: "0 < ?p" by (rule preferred_pos [OF k])
  show thesis
  proof (cases "?s \<noteq> [] \<and> dw_append_merge_last_chunk w \<and> ?s ! ?n < ?p")
    case True
    define g where "g = min (?p - ?s ! ?n) k"
    have g: "0 < g" "g \<le> k" using True k by (auto simp: g_def)
    then have fit: "dw_total_size w + g < 2 ^ 64" using room by simp
    have "?s ! ?n \<le> dw_total_size w"
      using ok True by (simp add: writer_ok_def ok_except_def member_le_sum_list)
    then have sat: "sat_add (?s ! ?n) g = ?s ! ?n + g" "sat_add (dw_total_size w) g = dw_total_size w + g"
      using fit by (simp_all add: sat_add_def)
    have eq: "w1 = w\<lparr>dw_merged_chunk_sizes := ?s[?n := ?s ! ?n + g], dw_total_size := dw_total_size w + g,
       dw_dirty_chunks := (case map_of (dw_dirty_chunks w) ?n of
           Some chunk \<Rightarrow> dirty_insert ?n (resize (?s ! ?n + g) chunk) (dw_dirty_chunks w)
         | None \<Rightarrow> dw_dirty_chunks w)\<rparr>"
      using True k unfolding w1 extend_for_append_def Let_def g_def [symmetric] sat by simp
    have "Suc ?n = length (dw_merged_chunk_sizes w1)" "g \<le> dw_merged_chunk_sizes w1 ! ?n"
      "dw_total_size w1 = dw_total_size w + g" "dw_position w1 = dw_position w" "same_setup w w1"
      using True by (auto simp: eq same_setup_def)
    from that [OF g extend_grow [OF ok _ fit refl eq] this] True show thesis by blast
  next
    case False
    define g where "g = min k ?p"
    have g: "0 < g" "g \<le> k" using pp k by (auto simp: g_def)
    then have fit: "dw_total_size w + g < 2 ^ 64" using room by simp
    then have sat: "sat_add (dw_total_size w) g = dw_total_size w + g" by (simp add: sat_add_def)
    have eq: "w1 = w\<lparr>dw_merged_chunk_sizes := ?s @ [g], dw_total_size := dw_total_size w + g\<rparr>"
      using False k sat by (auto simp: w1 extend_for_append_def Let_def g_def [symmetric])
    have "Suc (length ?s) = length (dw_merged_chunk_sizes w1)" "g \<le> dw_merged_chunk_sizes w1 ! length ?s"
      "dw_total_size w1 = dw_total_size w + g" "dw_position w1 = dw_position w" "same_setup w w1"
      by (auto simp: eq same_setup_def)
    from that [OF g extend_push [OF ok fit eq] this] show thesis .
  qed
qed

lemma write_step:
  assumes ok: "writer_ok data w" and r: "readable D m data w" and ne: "buf \<noteq> []" and room: "dw_position w + length buf < 2 ^ 64"
  obtains k w' where "0 < k" "k \<le> length buf" "\<And>n. write_loop D m buf n w = write_loop D m (drop k buf) (n + k) w'"
    "writer_ok data w'" "dw_content data w' = overwrite (dw_position w) (take k buf) (dw_content data w)"
    "dw_position w' = dw_position w + k" "same_setup w w'"
proof -
  define w1 where "w1 = (if dw_position w = dw_total_size w then extend_for_append (length buf) w else w)"
  have total: "dw_total_size w = sum_list (dw_merged_chunk_sizes w)" and pt: "dw_position w \<le> dw_total_size w"
    using ok by (simp_all add: writer_ok_def ok_except_def)
  have "\<exists>i off. dw_locate_position (dw_position w1) w1 = Some (i, off) \<and> ok_except i data w1 \<and>
      dw_position w1 = sum_list (take i (dw_merged_chunk_sizes w1)) + off \<and> dw_position w1 = dw_position w \<and> same_setup w w1 \<and>
      (\<forall>k. k = min (dw_merged_chunk_sizes w1 ! i - off) (length buf) \<longrightarrow>
         overwrite (dw_position w) (take k buf) (dw_content data w1) = overwrite (dw_position w) (take k buf) (dw_content data w))"
  proof (cases "dw_position w = dw_total_size w")
    case False
    then have w1: "w1 = w" by (simp add: w1_def)
    have "dw_total_size w < 2 ^ 64" "dw_position w < dw_total_size w"
      using ok False pt by (auto simp: writer_ok_def ok_except_def)
    from dw_locate_Some [OF total this] obtain i off where l: "dw_locate_position (dw_position w) w = Some (i, off)"
      and p: "dw_position w = sum_list (take i (dw_merged_chunk_sizes w)) + off" by metis
    have "ok_except i data w" using ok by (auto simp: writer_ok_def ok_except_def)
    with l p show ?thesis by (intro exI [of _ i] exI [of _ off]) (simp add: w1 same_setup_def)
  next
    case True
    then have w1: "w1 = extend_for_append (length buf) w" by (simp add: w1_def)
    have "0 < length buf" "dw_total_size w + length buf < 2 ^ 64" using ne room True by simp_all
    from extend_ok [OF ok this w1] obtain g i where g: "0 < g" "g \<le> length buf" and ok1: "ok_except i data w1"
      and c: "dw_content data w1 = dw_content data w @ replicate g 0" and i: "Suc i = length (dw_merged_chunk_sizes w1)"
      and gi: "g \<le> dw_merged_chunk_sizes w1 ! i" and t1: "dw_total_size w1 = dw_total_size w + g"
      and p1: "dw_position w1 = dw_position w" and st: "same_setup w w1" by metis
    have t1': "dw_total_size w1 = sum_list (dw_merged_chunk_sizes w1)" "dw_total_size w1 < 2 ^ 64"
      using ok1 by (simp_all add: ok_except_def)
    have "dw_position w1 < dw_total_size w1" using p1 t1 True g by simp
    from dw_locate_Some [OF t1' this] obtain j off where l: "dw_locate_position (dw_position w1) w1 = Some (j, off)"
      and j: "j < length (dw_merged_chunk_sizes w1)" "off < dw_merged_chunk_sizes w1 ! j"
      and p: "dw_position w1 = sum_list (take j (dw_merged_chunk_sizes w1)) + off" by metis
    have all: "sum_list (take (Suc i) (dw_merged_chunk_sizes w1)) = dw_total_size w1" using i t1' by simp
    have before: "sum_list (take i (dw_merged_chunk_sizes w1)) + dw_merged_chunk_sizes w1 ! i = dw_total_size w1"
      unfolding all [symmetric] by (subst take_Suc_conv_app_nth) (use i in simp_all)
    have "j = i"
    proof (rule ccontr)
      assume "j \<noteq> i"
      with j i have "Suc j \<le> i" by simp
      then have "sum_list (take (Suc j) (dw_merged_chunk_sizes w1)) \<le> sum_list (take i (dw_merged_chunk_sizes w1))"
        by (metis le_add1 le_add_diff_inverse sum_list_append take_add)
      then show False using j before p p1 t1 True gi g by (simp add: take_Suc_conv_app_nth)
    qed
    have "dw_merged_chunk_sizes w1 ! i - off = g" using before p p1 t1 True \<open>j = i\<close> by simp
    moreover have "length (dw_content data w) = dw_position w" by (simp add: length_content total True)
    ultimately show ?thesis
      using l p p1 st ok1 g \<open>j = i\<close> by (intro exI [of _ i] exI [of _ off]) (simp add: c overwrite_def)
  qed
  then obtain i off where l: "dw_locate_position (dw_position w1) w1 = Some (i, off)" and ok1: "ok_except i data w1"
    and p: "dw_position w1 = sum_list (take i (dw_merged_chunk_sizes w1)) + off" and p1: "dw_position w1 = dw_position w"
    and st: "same_setup w w1"
    and eq: "\<And>k. k = min (dw_merged_chunk_sizes w1 ! i - off) (length buf) \<Longrightarrow>
         overwrite (dw_position w) (take k buf) (dw_content data w1) = overwrite (dw_position w) (take k buf) (dw_content data w)"
    by blast
  have b: "i < length (dw_merged_chunk_sizes w1)" "off < dw_merged_chunk_sizes w1 ! i" using dw_locate_bounds [OF l] by blast+
  define k where "k = min (dw_merged_chunk_sizes w1 ! i - off) (length buf)"
  obtain w2 w' where run: "ensure_dirty_chunk D m i w1 = (Ok (), w2)" "write_in_chunk i off (take k buf) w2 = Some (Ok w')"
    and w': "writer_ok data w'" "dw_content data w' = overwrite (dw_position w1) (take k buf) (dw_content data w1)"
      "dw_position w' = dw_position w1 + k" "same_setup w1 w'"
    using write_located [OF ok1 r [folded readable_setup [OF st]] b p k_def] by metis
  have "write_loop D m buf n w = write_loop D m (drop k buf) (n + k) w'" for n
    using ne l b run unfolding write_loop.simps [of D m buf n w] w1_def [symmetric] Let_def
    by (simp add: k_def [symmetric])
  moreover have "0 < k" "k \<le> length buf" using b ne by (simp_all add: k_def)
  ultimately show thesis using that w' eq [OF k_def] p1 same_setup_trans [OF st] by metis
qed

lemma write_loop_ok:
  assumes "writer_ok data w" and "readable D m data w" and "dw_position w + length buf < 2 ^ 64"
  shows "\<exists>w'. write_loop D m buf n w = Some (Ok (n + length buf), w') \<and> writer_ok data w' \<and> readable D m data w' \<and>
    dw_content data w' = overwrite (dw_position w) buf (dw_content data w) \<and> dw_position w' = dw_position w + length buf \<and> same_setup w w'"
  using assms
proof (induction buf arbitrary: n w rule: length_induct)
  case (1 buf)
  show ?case
  proof (cases "buf = []")
    case True
    with 1 show ?thesis by (simp add: write_loop.simps same_setup_def)
  next
    case False
    from write_step [OF 1(2,3) False 1(4)] obtain k w1 where k: "0 < k" "k \<le> length buf"
      and run: "\<And>n. write_loop D m buf n w = write_loop D m (drop k buf) (n + k) w1"
      and w1: "writer_ok data w1" "dw_content data w1 = overwrite (dw_position w) (take k buf) (dw_content data w)"
        "dw_position w1 = dw_position w + k" "same_setup w w1" by metis
    have r1: "readable D m data w1" unfolding readable_setup [OF w1(4)] by (rule 1(3))
    have "length (drop k buf) < length buf" "dw_position w1 + length (drop k buf) < 2 ^ 64" using k 1(4) w1(3) by simp_all
    with 1(1) w1(1) r1 obtain w' where w': "write_loop D m (drop k buf) (n + k) w1 = Some (Ok (n + k + length (drop k buf)), w')"
        "writer_ok data w'" "readable D m data w'" "dw_content data w' = overwrite (dw_position w1) (drop k buf) (dw_content data w1)"
        "dw_position w' = dw_position w1 + length (drop k buf)" "same_setup w1 w'"
      by blast
    have "dw_position w \<le> length (dw_content data w)"
      using 1(2) by (simp add: length_content writer_ok_def ok_except_def)
    from overwrite_append [OF this, of "take k buf" "drop k buf"] k
    have "dw_content data w' = overwrite (dw_position w) buf (dw_content data w)"
      by (simp add: w'(4) w1(2,3) min_absorb2)
    with w' run w1 k show ?thesis using same_setup_trans by (intro exI [of _ w']) auto
  qed
qed

section \<open>A writer is an array of bytes with a position\<close>

lemma dw_write_ok:
  assumes "writer_ok data w" and "readable D m data w" and "dw_position w + length buf < 2 ^ 64"
  obtains w' where "dw_write D m buf w = Some (Ok (length buf), w')" "writer_ok data w'" "readable D m data w'"
    "dw_content data w' = overwrite (dw_position w) buf (dw_content data w)" "dw_position w' = dw_position w + length buf"
    "same_setup w w'"
proof (cases "buf = []")
  case True
  with assms show thesis by (intro that [of w]) (simp_all add: dw_write_def same_setup_def)
next
  case False
  from write_loop_ok [OF assms, of 0] obtain w' where
    "write_loop D m buf 0 w = Some (Ok (0 + length buf), w')" and rest: "writer_ok data w'" "readable D m data w'"
    "dw_content data w' = overwrite (dw_position w) buf (dw_content data w)" "dw_position w' = dw_position w + length buf"
    "same_setup w w'" by blast
  with False have "dw_write D m buf w = Some (Ok (length buf), w')" by (simp add: dw_write_def)
  from that [OF this rest] show thesis .
qed

text \<open>Operations of a session, on the writer and on an array.\<close>

datatype writer_op = WriteOp "u8 list" | SeekOp seek_from

fun dw_op :: "('j, 'f) diff_env \<Rightarrow> 'f named_data_mgr \<Rightarrow> writer_op \<Rightarrow> diff_writer \<Rightarrow> (nat ndn_result \<times> diff_writer) option" where
  "dw_op D m (WriteOp bs) w = dw_write D m bs w"
| "dw_op D m (SeekOp s) w = Some (dw_seek s w)"

fun dw_ops :: "('j, 'f) diff_env \<Rightarrow> 'f named_data_mgr \<Rightarrow> writer_op list \<Rightarrow> diff_writer \<Rightarrow> (nat ndn_result list \<times> diff_writer) option" where
  "dw_ops D m [] w = Some ([], w)"
| "dw_ops D m (x # xs) w =
     (case dw_op D m x w of
        None \<Rightarrow> None
      | Some (r, w') \<Rightarrow> map_option (\<lambda>(rs, w''). (r # rs, w'')) (dw_ops D m xs w'))"

fun array_op :: "writer_op \<Rightarrow> nat \<times> u8 list \<Rightarrow> nat ndn_result \<times> nat \<times> u8 list" where
  "array_op (WriteOp bs) (p, c) = (Ok (length bs), p + length bs, overwrite p bs c)"
| "array_op (SeekOp s) (p, c) =
     (case seek_target p (length c) s of Inl e \<Rightarrow> (Err e, p, c) | Inr q \<Rightarrow> (Ok q, q, c))"

fun array_ops :: "writer_op list \<Rightarrow> nat \<times> u8 list \<Rightarrow> nat ndn_result list \<times> nat \<times> u8 list" where
  "array_ops [] a = ([], a)"
| "array_ops (x # xs) a = (case array_op x a of (r, a') \<Rightarrow> case array_ops xs a' of (rs, a'') \<Rightarrow> (r # rs, a''))"

fun op_bytes :: "writer_op \<Rightarrow> nat" where
  "op_bytes (WriteOp bs) = length bs"
| "op_bytes (SeekOp s) = 0"

definition dw_abs :: "u8 list list \<Rightarrow> diff_writer \<Rightarrow> nat \<times> u8 list" where
  "dw_abs data w = (dw_position w, dw_content data w)"

lemma length_overwrite: "p \<le> length c \<Longrightarrow> length (overwrite p bs c) \<le> length c + length bs"
  by (simp add: overwrite_def)

lemma writer_ok_position: "writer_ok data w \<Longrightarrow> dw_position w \<le> length (dw_content data w)"
  by (simp add: length_content writer_ok_def ok_except_def)

lemma dw_op_refines:
  assumes ok: "writer_ok data w" and r: "readable D m data w" and room: "length (dw_content data w) + op_bytes x < 2 ^ 64"
  obtains res w' where "dw_op D m x w = Some (res, w')" "array_op x (dw_abs data w) = (res, dw_abs data w')"
    "writer_ok data w'" "readable D m data w'" "same_setup w w'"
    "length (dw_content data w') \<le> length (dw_content data w) + op_bytes x"
proof (cases x)
  case (WriteOp bs)
  have p: "dw_position w \<le> length (dw_content data w)" by (rule writer_ok_position [OF ok])
  with room WriteOp have "dw_position w + length bs < 2 ^ 64" by simp
  from dw_write_ok [OF ok r this] obtain w' where w': "dw_write D m bs w = Some (Ok (length bs), w')" "writer_ok data w'"
    "readable D m data w'" "dw_content data w' = overwrite (dw_position w) bs (dw_content data w)"
    "dw_position w' = dw_position w + length bs" "same_setup w w'" by metis
  show thesis
    by (rule that [of "Ok (length bs)" w'])
      (use w' WriteOp length_overwrite [OF p] in \<open>simp_all add: dw_abs_def\<close>)
next
  case (SeekOp s)
  have t: "length (dw_content data w) = dw_total_size w" using ok by (simp add: length_content writer_ok_def ok_except_def)
  show thesis
  proof (cases "seek_target (dw_position w) (dw_total_size w) s")
    case (Inl e)
    with SeekOp ok r t show thesis by (intro that [of "Err e" w]) (simp_all add: dw_seek_def dw_abs_def same_setup_def)
  next
    case (Inr q)
    let ?w = "w\<lparr>dw_position := q\<rparr>"
    have q: "q \<le> dw_total_size w" using Inr by (auto simp: seek_target_def Let_def split: if_splits)
    have st: "same_setup w ?w" by (simp add: same_setup_def)
    have c: "dw_content data ?w = dw_content data w" by (simp add: dw_content_def chunk_bytes_def [abs_def])
    have "writer_ok data ?w" using ok q by (simp add: writer_ok_def ok_except_def)
    moreover have "readable D m data ?w" unfolding readable_setup [OF st] by (rule r)
    ultimately show thesis using SeekOp Inr t st c by (intro that [of "Ok q" ?w]) (simp_all add: dw_seek_def dw_abs_def)
  qed
qed

lemma dw_ops_refine:
  assumes "writer_ok data w" and "readable D m data w" and "length (dw_content data w) + sum_list (map op_bytes xs) < 2 ^ 64"
  shows "\<exists>rs w'. dw_ops D m xs w = Some (rs, w') \<and> array_ops xs (dw_abs data w) = (rs, dw_abs data w') \<and>
    writer_ok data w' \<and> readable D m data w' \<and> same_setup w w'"
  using assms
proof (induction xs arbitrary: w)
  case Nil
  then show ?case by (simp add: same_setup_def)
next
  case (Cons x xs)
  have "length (dw_content data w) + op_bytes x < 2 ^ 64" using Cons.prems(3) by simp
  from dw_op_refines [OF Cons.prems(1,2) this] obtain res w1 where w1: "dw_op D m x w = Some (res, w1)"
    "array_op x (dw_abs data w) = (res, dw_abs data w1)" "writer_ok data w1" "readable D m data w1" "same_setup w w1"
    "length (dw_content data w1) \<le> length (dw_content data w) + op_bytes x" by metis
  have "length (dw_content data w1) + sum_list (map op_bytes xs) < 2 ^ 64" using w1(6) Cons.prems(3) by simp
  from Cons.IH [OF w1(3,4) this] obtain rs w' where "dw_ops D m xs w1 = Some (rs, w')"
    "array_ops xs (dw_abs data w1) = (rs, dw_abs data w')" "writer_ok data w'" "readable D m data w'" "same_setup w1 w'"
    by blast
  with w1(1,2) same_setup_trans [OF w1(5)] show ?case by (intro exI [of _ "res # rs"] exI [of _ w']) simp
qed

text \<open>The data that a new writer finds behind its base list.\<close>

lemma new_writer_ok:
  assumes new: "diff_writer_new D m bid base path opts = Ok w"
    and sizes: "resolve_chunk_sizes_for_list D m base (wo_local_mode opts) (wo_fixed_chunk_size opts) (wo_base_chunk_sizes opts) = Ok (map length data)"
    and len: "length (cl_body base) = length data" and fit: "length (concat data) < 2 ^ 64"
  shows "writer_ok data w" and "dw_abs data w = (0, concat data)"
proof -
  have w: "dw_base_chunk_ids w = cl_body base" "dw_base_chunk_sizes w = map length data" "dw_merged_chunk_sizes w = map length data"
    "dw_dirty_chunks w = []" "dw_position w = 0" "dw_total_size w = sum_list (map length data)"
    using new fit by (auto simp: diff_writer_new_def sizes sum_u64_def length_concat)
  show "writer_ok data w" using w len fit by (simp add: writer_ok_def ok_except_def length_concat)
  have "map (chunk_bytes data w) [0..<length data] = data"
    by (rule nth_equalityI) (simp_all add: chunk_bytes_def w)
  then show "dw_abs data w = (0, concat data)" by (simp add: dw_abs_def dw_content_def pieces_def w)
qed

section \<open>Properties\<close>

text \<open>\<^bold>\<open>C3.\<close> A session of a new writer over a base list is a session on the array of the bytes of that list:
  every sequence of writes and seeks returns what the array returns, and afterwards the changed chunks laid over the
  base chunks are the bytes of the array, at the same position.  No write is lost or splits at the wrong place where it
  crosses chunks, fills up the last chunk or appends new ones.\<close>

theorem writer_refines_array:
  assumes "diff_writer_new D m bid base path opts = Ok w"
    and "resolve_chunk_sizes_for_list D m base (wo_local_mode opts) (wo_fixed_chunk_size opts) (wo_base_chunk_sizes opts) = Ok (map length data)"
    and "length (cl_body base) = length data" and "readable D m data w"
    and "length (concat data) + sum_list (map op_bytes xs) < 2 ^ 64"
  shows "\<exists>rs w'. dw_ops D m xs w = Some (rs, w') \<and> writer_ok data w' \<and>
    array_ops xs (0, concat data) = (rs, dw_position w', dw_content data w')"
proof -
  have fit: "length (concat data) < 2 ^ 64" using assms(5) by simp
  note new = new_writer_ok [OF assms(1-3) fit]
  then have "length (dw_content data w) + sum_list (map op_bytes xs) < 2 ^ 64" using assms(5) by (simp add: dw_abs_def)
  from dw_ops_refine [OF new(1) assms(4) this] new(2) show ?thesis by (auto simp: dw_abs_def)
qed

text \<open>A base list of one chunk of two bytes that is fetched through the reader of remote chunks.\<close>

definition demo_remote :: open_chunk_reader where
  "demo_remote c off auto_cache = Ok (drop off [1, 2], of_nat 2)"

definition demo_base :: chunk_list where
  "demo_base = \<lparr>cl_total_size = 2, cl_body = [demo_chunk]\<rparr>"

definition demo_denv :: "(string, lf_state) diff_env" where
  "demo_denv = \<lparr>dv_crates = inst_crates, dv_backend = local_fs_ops inst_crates (\<lambda>_. []) demo_lf, dv_hash = (\<lambda>_. 0),
     dv_host = (\<lambda>_. None), dv_now = 5\<rparr>"

definition demo_dopts :: diff_writer_options where
  "demo_dopts = diff_writer_options_default\<lparr>wo_fixed_chunk_size := Some 2, wo_open_chunk_reader := Some demo_remote\<rparr>"

lemma demo_remote_reads: "open_store_chunk_reader_with_fallback demo_denv ndm_new c off auto False (Some demo_remote) = Ok (drop off [1, 2])"
  by (simp add: open_store_chunk_reader_with_fallback_def ndm_open_chunk_reader_def ndm_new_def demo_remote_def)

theorem writer_refines_array_witness:
  "\<exists>w rs w'. diff_writer_new demo_denv ndm_new demo_id demo_base ''/d'' demo_dopts = Ok w \<and>
    dw_ops demo_denv ndm_new [SeekOp (SeekEnd (-1)), WriteOp [7, 8, 9]] w = Some (rs, w') \<and> rs = [Ok 1, Ok 3] \<and>
    dw_content [[1, 2]] w' = [1, 7, 8, 9]"
proof -
  let ?xs = "[SeekOp (SeekEnd (-1)), WriteOp [7, 8, 9]]"
  have sizes: "resolve_chunk_sizes_for_list demo_denv ndm_new demo_base (wo_local_mode demo_dopts) (wo_fixed_chunk_size demo_dopts) (wo_base_chunk_sizes demo_dopts) =
      Ok (map length [[1, 2 :: u8]])" by code_simp
  then obtain w where w: "diff_writer_new demo_denv ndm_new demo_id demo_base ''/d'' demo_dopts = Ok w" 
    by (simp add: diff_writer_new_def)
  then have sel: "dw_base_chunk_ids w = [demo_chunk]" "dw_local_mode w = False" "dw_open_chunk_reader w = Some demo_remote"
    unfolding diff_writer_new_def sizes by (auto simp: demo_base_def demo_dopts_def diff_writer_options_default_def)
  have "readable demo_denv ndm_new [[1, 2]] w" by (simp add: readable_def sel demo_remote_reads)
  from writer_refines_array [OF w sizes _ this, of ?xs] obtain rs w' where
    "dw_ops demo_denv ndm_new ?xs w = Some (rs, w')" "array_ops ?xs (0, [1, 2]) = (rs, dw_position w', dw_content [[1, 2]] w')"
    by (auto simp: demo_base_def)
  moreover have "array_ops ?xs (0, [1, 2]) = ([Ok 1, Ok 3], 4, [1, 7, 8, 9])" by code_simp
  ultimately show ?thesis using w by auto
qed

end
