(* ===== verification/Diff_Save_Props.thy ===== *)
theory Diff_Save_Props
  imports Diff_Writer_Props
begin

text \<open>
  What \<open>close\<close> saves: the changed chunks one after the other in the diff file and their indices and sizes
  in the state file.  A writer that is opened from them is the writer that was closed, and the chunk list that
  \<open>rebuild_merged_state_from_writer_state\<close> computes from them is the one of \<open>finalize\<close>.
\<close>

section \<open>What is saved\<close>

definition mix_id :: "'j ext_crates \<Rightarrow> u8 list \<Rightarrow> chunk_id" where
  "mix_id E data = from_mix_hash_result E (of_nat (length data)) (hash_digest E HSha256 data) Mix256"

lemma diff_chunk_id_Ok: "diff_chunk_id E data = Ok (mix_id E data)"
  by (simp add: diff_chunk_id_def chunk_hasher_new_def new_with_hash_method_def create_hasher_def
      calc_mix_chunk_id_from_bytes_def finalize_mix_chunk_id_def update_from_bytes_def finalize_def mix_id_def)

definition dirty_bytes :: "diff_writer \<Rightarrow> u8 list" where
  "dirty_bytes w = concat (map snd (dw_dirty_chunks w))"

definition dirty_sizes :: "diff_writer \<Rightarrow> nat list" where
  "dirty_sizes w = map (\<lambda>x. length (snd x)) (dw_dirty_chunks w)"

definition dirty_ids :: "'j ext_crates \<Rightarrow> dirty_map \<Rightarrow> nat \<Rightarrow> chunk_id option" where
  "dirty_ids E ds = map_of (map (\<lambda>(i, d). (i, mix_id E d)) ds)"

definition saved_state :: "diff_writer \<Rightarrow> diff_writer_state" where
  "saved_state w = \<lparr>ws_base_chunk_list = dw_base_chunk_list_id w, ws_diff_file_path = dw_diff_file_path w,
     ws_chunk_indices = map fst (dw_dirty_chunks w), ws_diff_chunk_sizes = dirty_sizes w,
     ws_base_chunk_sizes = dw_base_chunk_sizes w, ws_merged_chunk_sizes = dw_merged_chunk_sizes w,
     ws_position = dw_position w, ws_total_size = dw_total_size w, ws_auto_cache = dw_auto_cache w,
     ws_local_mode = dw_local_mode w, ws_fixed_chunk_size = dw_fixed_chunk_size w,
     ws_append_merge_last_chunk = dw_append_merge_last_chunk w\<rparr>"

lemma dirty_ids_Cons:
  assumes "i \<notin> fst ` set ds"
  shows "f ++ dirty_ids E ((i, d) # ds) = f(i \<mapsto> mix_id E d) ++ dirty_ids E ds"
proof -
  have "map_of (map (\<lambda>(i, d). (i, mix_id E d)) ds) i = None" using assms by (auto simp: map_of_eq_None_iff image_iff)
  then show ?thesis by (auto simp: dirty_ids_def map_add_def fun_eq_iff split: option.split)
qed

lemma persist_loop_ok:
  assumes "\<forall>(i, d) \<in> set ds. i < length sizes \<and> length d = sizes ! i" and "distinct (map fst ds)"
  shows "persist_loop D False sizes ds bs acc m =
    (Ok (acc\<lparr>pd_dirty_chunk_id_map := pd_dirty_chunk_id_map acc ++ dirty_ids (dv_crates D) ds,
             pd_chunk_indices := pd_chunk_indices acc @ map fst ds,
             pd_diff_chunk_sizes := pd_diff_chunk_sizes acc @ map (\<lambda>x. length (snd x)) ds\<rparr>), bs @ concat (map snd ds), m)"
  using assms
proof (induction ds arbitrary: bs acc)
  case Nil
  then show ?case by (simp add: dirty_ids_def)
next
  case (Cons x ds)
  obtain i d where x: "x = (i, d)" by fastforce
  have "i \<notin> fst ` set ds" using Cons.prems(2) x by simp
  note ids = dirty_ids_Cons [OF this]
  show ?case using Cons x by (simp add: diff_chunk_id_Ok ids)
qed

lemma writer_ok_dirty:
  assumes "writer_ok data w"
  shows "\<forall>(i, d) \<in> set (dw_dirty_chunks w). i < length (dw_merged_chunk_sizes w) \<and> length d = dw_merged_chunk_sizes w ! i"
    and "sorted_wrt (<) (map fst (dw_dirty_chunks w))" and "distinct (map fst (dw_dirty_chunks w))"
  using assms by (simp_all add: writer_ok_def ok_except_def strict_sorted_iff)

lemma length_dirty_bytes: "length (dirty_bytes w) = sum_list (dirty_sizes w)"
  by (simp add: dirty_bytes_def dirty_sizes_def length_concat comp_def)

lemma dirty_bytes_fit:
  assumes "writer_ok data w"
  shows "length (dirty_bytes w) \<le> dw_total_size w" and "length (dirty_bytes w) < 2 ^ 64"
proof -
  let ?s = "dw_merged_chunk_sizes w" and ?ds = "dw_dirty_chunks w"
  note d = writer_ok_dirty [OF assms]
  have "dirty_sizes w = map (\<lambda>i. ?s ! i) (map fst ?ds)" using d(1) by (auto simp: dirty_sizes_def)
  then have "length (dirty_bytes w) = sum (\<lambda>i. ?s ! i) (set (map fst ?ds))"
    unfolding length_dirty_bytes using sum_list_distinct_conv_sum_set [OF d(3)] by simp
  also have "\<dots> \<le> sum (\<lambda>i. ?s ! i) {0..<length ?s}" using d(1) by (intro sum_mono2) auto
  also have "\<dots> = dw_total_size w" using assms by (simp add: sum_list_sum_nth writer_ok_def ok_except_def)
  finally show "length (dirty_bytes w) \<le> dw_total_size w" .
  with assms show "length (dirty_bytes w) < 2 ^ 64" by (simp add: writer_ok_def ok_except_def)
qed

definition saved_disk :: "diff_writer \<Rightarrow> disk \<Rightarrow> disk" where
  "saved_disk w dk = dk\<lparr>dk_files := (dk_files dk)(dw_diff_file_path w \<mapsto> dirty_bytes w),
     dk_states := (dk_states dk)(state_file_path_for (dw_diff_file_path w) \<mapsto> saved_state w)\<rparr>"

lemma persist_ok:
  assumes "writer_ok data w"
  shows "persist_dirty_chunks_to_diff_file D False w dk m =
    (Ok \<lparr>pd_chunk_indices = map fst (dw_dirty_chunks w), pd_diff_chunk_sizes = dirty_sizes w,
         pd_dirty_chunk_id_map = dirty_ids (dv_crates D) (dw_dirty_chunks w), pd_diff_chunk_ids = []\<rparr>,
     dk\<lparr>dk_files := (dk_files dk)(dw_diff_file_path w \<mapsto> dirty_bytes w)\<rparr>, m)"
  unfolding persist_dirty_chunks_to_diff_file_def persist_loop_ok [OF writer_ok_dirty(1,3) [OF assms]]
  by (simp add: dirty_sizes_def dirty_bytes_def map_add_def fun_eq_iff split: option.split)

lemma close_saves:
  assumes "writer_ok data w"
  shows "dw_close D w dk m = (Ok (saved_state w), saved_disk w dk, m)"
  unfolding dw_close_def persist_ok [OF assms] by (simp add: saved_state_def saved_disk_def Let_def)

lemma check_saved_state: "writer_ok data w \<Longrightarrow> check_writer_state (saved_state w) = Ok ()"
  by (simp add: check_writer_state_def saved_state_def dirty_sizes_def sum_u64_def writer_ok_def ok_except_def)

lemma sum_dirty_sizes: "writer_ok data w \<Longrightarrow> sum_u64 (dirty_sizes w) = length (dirty_bytes w)"
  using dirty_bytes_fit(2) [of data w] by (simp add: sum_u64_def length_dirty_bytes)

section \<open>Opening a saved writer\<close>

lemma dirty_insert_end: "\<forall>(j, u) \<in> set m. j < i \<Longrightarrow> dirty_insert i d m = m @ [(i, d)]"
  by (induction i d m rule: dirty_insert.induct) auto

lemma reopen_chunks_ok:
  assumes "\<forall>(i, d) \<in> set ds. i < length sizes \<and> length d = sizes ! i" and "sorted_wrt (<) (map fst (acc @ ds))"
    and "length pre + length (concat (map snd ds)) < 2 ^ 64"
  shows "reopen_chunks sizes (pre @ concat (map snd ds)) (zip (map fst ds) (map (\<lambda>x. length (snd x)) ds)) (fst ` set acc) (length pre) acc = Some (Ok (acc @ ds))"
  using assms
proof (induction ds arbitrary: acc pre)
  case (Cons x ds)
  obtain i d where x: "x = (i, d)" by fastforce
  have lt: "\<forall>(j, u) \<in> set acc. j < i" using Cons.prems(2) x by (auto simp: sorted_wrt_append)
  have e: "sat_add (length pre) (length d) = length pre + length d" using Cons.prems(3) x by (simp add: sat_add_def)
  have ins: "dirty_insert i d acc = acc @ [(i, d)]" by (rule dirty_insert_end [OF lt])
  have "reopen_chunks sizes ((pre @ d) @ concat (map snd ds)) (zip (map fst ds) (map (\<lambda>x. length (snd x)) ds))
      (fst ` set (acc @ [(i, d)])) (length (pre @ d)) (acc @ [(i, d)]) = Some (Ok ((acc @ [(i, d)]) @ ds))"
    using Cons.prems x by (intro Cons.IH) simp_all
  moreover have "i \<notin> fst ` set acc" using lt by auto
  ultimately show ?case using Cons.prems(1) x e ins by simp
qed simp

lemma open_saved:
  assumes ok: "writer_ok data w" and base: "cl_body base = dw_base_chunk_ids w"
  shows "open_from_state base (saved_state w) custom (saved_disk w dk) = Some (Ok (w\<lparr>dw_open_chunk_reader := custom\<rparr>))"
proof -
  have len: "length (dw_base_chunk_sizes w) = length (cl_body base)" using ok base by (simp add: writer_ok_def ok_except_def)
  have re: "reopen_chunks (dw_merged_chunk_sizes w) (dirty_bytes w) (zip (map fst (dw_dirty_chunks w)) (dirty_sizes w)) {} 0 [] =
      Some (Ok (dw_dirty_chunks w))"
    using reopen_chunks_ok [of "dw_dirty_chunks w" "dw_merged_chunk_sizes w" "[]" "[]"] writer_ok_dirty [OF ok] dirty_bytes_fit(2) [OF ok]
    by (simp add: dirty_bytes_def dirty_sizes_def)
  have sel: "ws_base_chunk_sizes (saved_state w) = dw_base_chunk_sizes w" "ws_diff_file_path (saved_state w) = dw_diff_file_path w"
    "ws_diff_chunk_sizes (saved_state w) = dirty_sizes w" "ws_merged_chunk_sizes (saved_state w) = dw_merged_chunk_sizes w"
    "ws_chunk_indices (saved_state w) = map fst (dw_dirty_chunks w)" by (simp_all add: saved_state_def)
  have bytes: "file_data (dw_diff_file_path w) (saved_disk w dk) = dirty_bytes w" by (simp add: file_data_def saved_disk_def)
  show ?thesis
    unfolding open_from_state_def check_saved_state [OF ok] sel bytes Let_def sum_dirty_sizes [OF ok] re
    using len base by (simp add: saved_state_def)
qed

section \<open>Rebuilding the chunk list\<close>

lemma rebuild_chunks_ok:
  assumes "\<forall>(i, d) \<in> set ds. i < length sizes \<and> length d = sizes ! i" and "distinct (map fst ds)" and "seen \<inter> fst ` set ds = {}"
    and "length pre + length (concat (map snd ds)) < 2 ^ 64"
  shows "\<exists>more. rebuild_chunks E sizes (pre @ concat (map snd ds)) (zip (map fst ds) (map (\<lambda>x. length (snd x)) ds)) seen (length pre) ids infos =
    Ok (ids ++ dirty_ids E ds, infos @ more)"
  using assms
proof (induction ds arbitrary: seen pre ids infos)
  case Nil
  then show ?case by (simp add: dirty_ids_def)
next
  case (Cons x ds)
  obtain i d where x: "x = (i, d)" by fastforce
  let ?info = "\<lparr>dc_chunk_index = i, dc_diff_file_offset = length pre, dc_chunk_size = length d, dc_chunk_id = mix_id E d\<rparr>"
  have i: "i \<notin> fst ` set ds" "i \<notin> seen" using Cons.prems(2,3) x by auto
  have e: "checked_add (length pre) (length d) = Some (length pre + length d)" using Cons.prems(4) x by (simp add: checked_add_def)
  have "\<forall>(i, d) \<in> set ds. i < length sizes \<and> length d = sizes ! i" "distinct (map fst ds)" "insert i seen \<inter> fst ` set ds = {}"
    "length (pre @ d) + length (concat (map snd ds)) < 2 ^ 64" using Cons.prems x i by auto
  from Cons.IH [OF this] obtain more where "rebuild_chunks E sizes ((pre @ d) @ concat (map snd ds)) (zip (map fst ds) (map (\<lambda>x. length (snd x)) ds))
      (insert i seen) (length (pre @ d)) (ids(i \<mapsto> mix_id E d)) (infos @ [?info]) =
      Ok (ids(i \<mapsto> mix_id E d) ++ dirty_ids E ds, (infos @ [?info]) @ more)"
    by blast
  with Cons.prems(1) x i e show ?case
    by (intro exI [of _ "?info # more"]) (simp add: diff_chunk_id_Ok dirty_ids_Cons [OF i(1)])
qed

lemma rebuild_saved:
  assumes ok: "writer_ok data w"
  shows "and_then (rebuild_merged_state_from_writer_state E (dw_base_chunk_ids w) (saved_state w) (saved_disk w dk)) (\<lambda>ms. Ok (ms_merged_chunk_list ms)) =
    and_then (build_merged_chunk_ids (dw_base_chunk_ids w) (dirty_ids E (dw_dirty_chunks w)) [0..<length (dw_merged_chunk_sizes w)])
      (\<lambda>ids. build_simple_chunk_list_from_ids E ids (dw_merged_chunk_sizes w))"
proof -
  obtain infos where re: "rebuild_chunks E (dw_merged_chunk_sizes w) (dirty_bytes w) (zip (map fst (dw_dirty_chunks w)) (dirty_sizes w)) {} 0 (\<lambda>_. None) [] =
      Ok (dirty_ids E (dw_dirty_chunks w), infos)"
    using rebuild_chunks_ok [of "dw_dirty_chunks w" "dw_merged_chunk_sizes w" "{}" "[]" E "\<lambda>_. None" "[]"]
      writer_ok_dirty [OF ok] dirty_bytes_fit(2) [OF ok]
    by (auto simp: dirty_bytes_def dirty_sizes_def)
  have sel: "ws_diff_file_path (saved_state w) = dw_diff_file_path w"
    "ws_diff_chunk_sizes (saved_state w) = dirty_sizes w" "ws_merged_chunk_sizes (saved_state w) = dw_merged_chunk_sizes w"
    "ws_chunk_indices (saved_state w) = map fst (dw_dirty_chunks w)" by (simp_all add: saved_state_def)
  have bytes: "dk_files (saved_disk w dk) (dw_diff_file_path w) = Some (dirty_bytes w)" by (simp add: saved_disk_def)
  show ?thesis
    unfolding rebuild_merged_state_from_writer_state_def check_saved_state [OF ok] sel bytes sum_dirty_sizes [OF ok]
    by (simp add: re and_then_def split: sum.split)
qed

lemma finalize_list:
  assumes "writer_ok data w"
  shows "and_then (fst (dw_finalize D False w dk m)) (\<lambda>(_, cl). Ok cl) =
    and_then (build_merged_chunk_ids (dw_base_chunk_ids w) (dirty_ids (dv_crates D) (dw_dirty_chunks w)) [0..<length (dw_merged_chunk_sizes w)])
      (\<lambda>ids. build_simple_chunk_list_from_ids (dv_crates D) ids (dw_merged_chunk_sizes w))"
  unfolding dw_finalize_def persist_ok [OF assms] by (simp split: sum.split)

section \<open>Properties\<close>

text \<open>\<^bold>\<open>C11.\<close> Closing a writer and opening it again loses nothing: \<open>close\<close> succeeds, the state file holds the
  state that it returns, and \<open>open_from_state\<close> gives back the same writer, with its changed chunks, its sizes and
  its position, and the reader of remote chunks that it is given.\<close>

theorem reopen_roundtrip:
  assumes "writer_ok data w" and "cl_body base = dw_base_chunk_ids w"
  shows "\<exists>st dk'. dw_close D w dk m = (Ok st, dk', m) \<and> load_state (dw_diff_file_path w) dk' = Ok st \<and>
    open_from_state base st custom dk' = Some (Ok (w\<lparr>dw_open_chunk_reader := custom\<rparr>))"
proof -
  have "load_state (dw_diff_file_path w) (saved_disk w dk) = Ok (saved_state w)"
    by (simp add: load_state_def saved_disk_def ok_or_def)
  with close_saves [OF assms(1)] open_saved [OF assms] show ?thesis by blast
qed

text \<open>\<^bold>\<open>C12.\<close> The chunk list that \<open>rebuild_merged_state_from_writer_state\<close> computes from what \<open>close\<close> saved is the
  chunk list that \<open>finalize\<close> returns for the writer, errors included.\<close>

theorem rebuild_matches_finalize:
  assumes "writer_ok data w" and "dw_close D w dk m = (Ok st, dk', m')"
  shows "and_then (rebuild_merged_state_from_writer_state (dv_crates D) (dw_base_chunk_ids w) st dk') (\<lambda>ms. Ok (ms_merged_chunk_list ms)) =
    and_then (fst (dw_finalize D False w dk m)) (\<lambda>(_, cl). Ok cl)"
proof -
  have "st = saved_state w" "dk' = saved_disk w dk" using assms(2) close_saves [OF assms(1), of D dk m] by simp_all
  then show ?thesis by (simp only: rebuild_saved [OF assms(1)] finalize_list [OF assms(1)])
qed

text \<open>A writer that has replaced the first byte of the base list and appended another chunk.\<close>

definition demo_dw :: diff_writer where
  "demo_dw = \<lparr>dw_base_chunk_list_id = demo_id, dw_base_chunk_ids = [demo_chunk], dw_base_chunk_sizes = [2],
     dw_auto_cache = False, dw_local_mode = False, dw_open_chunk_reader = Some demo_remote, dw_fixed_chunk_size = Some 2,
     dw_append_merge_last_chunk = True, dw_diff_file_path = ''/d'', dw_merged_chunk_sizes = [2, 1],
     dw_dirty_chunks = [(0, [7, 2]), (1, [9])], dw_position = 3, dw_total_size = 3\<rparr>"

definition demo_disk :: disk where
  "demo_disk = \<lparr>dk_files = (\<lambda>_. None), dk_states = (\<lambda>_. None)\<rparr>"

lemma demo_dw_ok: "writer_ok [[1, 2]] demo_dw"
  by (simp add: writer_ok_def ok_except_def demo_dw_def less_Suc_eq)

theorem reopen_roundtrip_witness:
  "\<exists>st dk'. dw_close demo_denv demo_dw demo_disk ndm_new = (Ok st, dk', ndm_new) \<and> load_state ''/d'' dk' = Ok st \<and>
    open_from_state demo_base st None dk' = Some (Ok (demo_dw\<lparr>dw_open_chunk_reader := None\<rparr>))"
  using reopen_roundtrip [OF demo_dw_ok, of demo_base demo_denv demo_disk ndm_new None]
  by (simp add: demo_base_def demo_dw_def)

theorem rebuild_matches_finalize_witness:
  "\<exists>st dk' m'. dw_close demo_denv demo_dw demo_disk ndm_new = (Ok st, dk', m') \<and>
    and_then (rebuild_merged_state_from_writer_state inst_crates [demo_chunk] st dk') (\<lambda>ms. Ok (ms_merged_chunk_list ms)) =
    and_then (fst (dw_finalize demo_denv False demo_dw demo_disk ndm_new)) (\<lambda>(_, cl). Ok cl)"
proof -
  note close = close_saves [OF demo_dw_ok, of demo_denv demo_disk ndm_new]
  have "dv_crates demo_denv = inst_crates" "dw_base_chunk_ids demo_dw = [demo_chunk]" by (simp_all add: demo_denv_def demo_dw_def)
  with rebuild_matches_finalize [OF demo_dw_ok close] close show ?thesis by auto
qed

end
