(* ===== verification/Diff_Reader_Props.thy ===== *)
theory Diff_Reader_Props
  imports Diff_Reader Diff_Save_Props
begin

text \<open>
  The reader of \<open>diff_chunk_list.rs\<close> delivers the file that the writer stands for.  The binary search of the
  reader finds the chunk that the scan of the writer finds; every poll hands over the next bytes of the
  merged chunks and an empty answer means the end; opened on the state that a writer saved, the reader
  delivers the bytes of that writer from any position.
\<close>

section \<open>The search for a position\<close>

definition laid_out :: "merged_chunk_meta list \<Rightarrow> bool" where
  "laid_out chunks \<longleftrightarrow>
     (\<forall>j < length chunks. mc_start (chunks ! j) = sum_list (take j (map mc_size chunks))) \<and>
     sum_list (map mc_size chunks) < 2 ^ 64"

lemma sum_take_Suc: "j < length xs \<Longrightarrow> sum_list (take (Suc j) xs) = sum_list (take j xs) + (xs ! j :: nat)"
  by (simp add: take_Suc_conv_app_nth)

lemma sum_take_mono: "i \<le> j \<Longrightarrow> sum_list (take i xs) \<le> sum_list (take j (xs :: nat list))"
  by (metis le_add1 le_add_diff_inverse sum_list_append take_add)

lemma sum_take_le: "sum_list (take j xs) \<le> sum_list (xs :: nat list)"
  by (metis append_take_drop_id sum_list_append le_add1)

lemma laid_out_end:
  assumes "laid_out chunks" and "j < length chunks"
  shows "sat_add (mc_start (chunks ! j)) (mc_size (chunks ! j)) = sum_list (take (Suc j) (map mc_size chunks))"
proof -
  have "sum_list (take (Suc j) (map mc_size chunks)) < 2 ^ 64"
    using assms(1) sum_take_le [of "Suc j" "map mc_size chunks"] by (auto simp: laid_out_def)
  with assms show ?thesis by (simp add: laid_out_def sat_add_def sum_take_Suc)
qed

lemma bisect_finds:
  assumes "laid_out chunks" and "left \<le> k" and "k \<le> right" and "right \<le> length chunks"
    and "\<And>j. j < k \<Longrightarrow> sum_list (take (Suc j) (map mc_size chunks)) \<le> pos"
    and "\<And>j. k \<le> j \<Longrightarrow> j < length chunks \<Longrightarrow> pos < sum_list (take (Suc j) (map mc_size chunks))"
  shows "bisect chunks pos left right = k"
  using assms
proof (induction chunks pos left right rule: bisect.induct)
  case (1 chunks pos left right)
  show ?case
  proof (cases "left < right")
    case False
    with 1 show ?thesis by (simp add: bisect.simps)
  next
    case True
    let ?mid = "left + (right - left) div 2"
    have mid: "?mid < length chunks" "left \<le> ?mid" "?mid < right" using True 1(6) by auto
    note e = laid_out_end [OF 1(3) mid(1)]
    show ?thesis
    proof (cases "?mid < k")
      case True
      have here: "sat_add (mc_start (chunks ! ?mid)) (mc_size (chunks ! ?mid)) \<le> pos" unfolding e by (rule 1(7) [OF True])
      then have "bisect chunks pos left right = bisect chunks pos (?mid + 1) right"
        using \<open>left < right\<close> by (simp add: bisect.simps [of chunks pos left])
      also have "\<dots> = k"
        by (rule 1(1) [OF \<open>left < right\<close> refl refl here 1(3) _ 1(5,6,7,8)]) (use True in simp)
      finally show ?thesis .
    next
      case False
      then have k: "k \<le> ?mid" by simp
      have here: "\<not> sat_add (mc_start (chunks ! ?mid)) (mc_size (chunks ! ?mid)) \<le> pos"
        unfolding e not_le by (rule 1(8) [OF k mid(1)])
      then have "bisect chunks pos left right = bisect chunks pos left ?mid"
        using \<open>left < right\<close> by (simp add: bisect.simps [of chunks pos left])
      also have "\<dots> = k"
        by (rule 1(2) [OF \<open>left < right\<close> refl refl here 1(3,4) k _ 1(7,8)]) (use mid in simp)
      finally show ?thesis .
    qed
  qed
qed

lemma dr_locate_Some:
  assumes lay: "laid_out (dr_merged_chunks r)" and t: "dr_total_size r = sum_list (map mc_size (dr_merged_chunks r))"
    and p: "pos < dr_total_size r"
  obtains i off where "dr_locate_position pos r = Some (i, off)" "locate_in pos 0 0 (map mc_size (dr_merged_chunks r)) = Some (i, off)"
    "i < length (dr_merged_chunks r)" "off < mc_size (dr_merged_chunks r ! i)"
    "pos = sum_list (take i (map mc_size (dr_merged_chunks r))) + off"
proof -
  let ?c = "dr_merged_chunks r" and ?s = "map mc_size (dr_merged_chunks r)"
  have "sum_list ?s < 2 ^ 64" using lay by (simp add: laid_out_def)
  with locate_in_Some [of 0 pos ?s 0] t p obtain i off where l: "locate_in pos 0 0 ?s = Some (i, off)"
    and i: "i < length ?c" "off < ?s ! i" and pos: "pos = sum_list (take i ?s) + off" by auto
  have "bisect ?c pos 0 (length ?c) = i"
  proof (rule bisect_finds [OF lay])
    show "sum_list (take (Suc j) ?s) \<le> pos" if "j < i" for j
      using sum_take_mono [of "Suc j" i ?s] that pos by simp
    show "pos < sum_list (take (Suc j) ?s)" if "i \<le> j" "j < length ?c" for j
      using sum_take_mono [of "Suc i" "Suc j" ?s] sum_take_Suc [of i ?s] that pos i by simp
  qed (use i in auto)
  with i p pos lay have "dr_locate_position pos r = Some (i, off)"
    by (auto simp: dr_locate_position_def laid_out_def Let_def)
  with that l i pos show thesis by simp
qed

section \<open>The stream of a reader\<close>

definition entry_of :: "diff_reader \<Rightarrow> merged_chunk_source \<Rightarrow> diff_entry_meta option" where
  "entry_of r s = (case s of FromBase _ \<Rightarrow> None | FromDiff k \<Rightarrow> Some (dr_diff_entries r ! k))"

text \<open>Every chunk can be opened and delivers these bytes.\<close>

definition serves :: "('j, 'f) diff_env \<Rightarrow> 'f named_data_mgr \<Rightarrow> disk \<Rightarrow> (nat \<Rightarrow> u8 list) \<Rightarrow> diff_reader \<Rightarrow> bool" where
  "serves D m dk f r \<longleftrightarrow>
     (\<forall>j < length (dr_merged_chunks r). let c = dr_merged_chunks r ! j in
        length (f j) = mc_size c \<and>
        (\<forall>k. mc_source c = FromDiff k \<longrightarrow> k < length (dr_diff_entries r)) \<and>
        (\<forall>off. off < mc_size c \<or> off = 0 \<longrightarrow>
           run_loading D m dk r (mc_source c, entry_of r (mc_source c), off) = Inr (drop off (f j))))"

definition same_source :: "diff_reader \<Rightarrow> diff_reader \<Rightarrow> bool" where
  "same_source r r' \<longleftrightarrow> dr_auto_cache r' = dr_auto_cache r \<and> dr_local_mode r' = dr_local_mode r \<and>
     dr_open_chunk_reader r' = dr_open_chunk_reader r \<and> dr_diff_file_path r' = dr_diff_file_path r \<and>
     dr_diff_entries r' = dr_diff_entries r \<and> dr_merged_chunks r' = dr_merged_chunks r \<and> dr_total_size r' = dr_total_size r"

definition rd_content :: "(nat \<Rightarrow> u8 list) \<Rightarrow> diff_reader \<Rightarrow> u8 list" where
  "rd_content f r = pieces (length (dr_merged_chunks r)) f"

definition chunk_start :: "diff_reader \<Rightarrow> nat \<Rightarrow> nat" where
  "chunk_start r i = sum_list (take i (map mc_size (dr_merged_chunks r)))"

text \<open>The fields that stay, and where the reader stands.\<close>

definition reader_fixed :: "diff_reader \<Rightarrow> bool" where
  "reader_fixed r \<longleftrightarrow> laid_out (dr_merged_chunks r) \<and> length (dr_merged_chunks r) < 2 ^ 64 \<and>
     dr_total_size r = sum_list (map mc_size (dr_merged_chunks r)) \<and>
     dr_pending_seek r = None \<and> dr_loading_future r = None \<and> dr_loading_chunk_index r = None"

definition stands_in :: "(nat \<Rightarrow> u8 list) \<Rightarrow> nat \<Rightarrow> nat \<Rightarrow> diff_reader \<Rightarrow> bool" where
  "stands_in f i off r \<longleftrightarrow> dr_current_reader r = Some (drop off (f i)) \<and> dr_active_chunk_index r = Some i \<and>
     i < length (dr_merged_chunks r) \<and> off \<le> mc_size (dr_merged_chunks r ! i) \<and> dr_position r = chunk_start r i + off"

definition stands_before :: "diff_reader \<Rightarrow> bool" where
  "stands_before r \<longleftrightarrow> dr_current_reader r = None \<and> dr_position r \<le> dr_total_size r \<and>
     (dr_position r < dr_total_size r \<longrightarrow>
        dr_next_chunk_index r < length (dr_merged_chunks r) \<and>
        (dr_next_chunk_offset r < mc_size (dr_merged_chunks r ! dr_next_chunk_index r) \<or> dr_next_chunk_offset r = 0) \<and>
        dr_position r = chunk_start r (dr_next_chunk_index r) + dr_next_chunk_offset r)"

definition reader_ok :: "(nat \<Rightarrow> u8 list) \<Rightarrow> diff_reader \<Rightarrow> bool" where
  "reader_ok f r \<longleftrightarrow> reader_fixed r \<and> ((\<exists>i off. stands_in f i off r) \<or> stands_before r)"

lemma same_source_refl [simp]: "same_source r r"
  by (simp add: same_source_def)

lemma same_source_trans: "same_source a b \<Longrightarrow> same_source b c \<Longrightarrow> same_source a c"
  by (simp add: same_source_def)

lemma run_loading_same: "same_source r r' \<Longrightarrow> run_loading D m dk r' fut = run_loading D m dk r fut"
  by (auto simp: same_source_def run_loading_def split: prod.split merged_chunk_source.split option.split)

lemma same_source_facts:
  assumes "same_source r r'"
  shows "serves D m dk f r' = serves D m dk f r" and "rd_content f r' = rd_content f r" and "chunk_start r' i = chunk_start r i"
  using assms by (simp_all add: same_source_def serves_def rd_content_def chunk_start_def entry_of_def run_loading_def Let_def cong: merged_chunk_source.case_cong)

lemma chunk_start_Suc: "i < length (dr_merged_chunks r) \<Longrightarrow> chunk_start r (Suc i) = chunk_start r i + mc_size (dr_merged_chunks r ! i)"
  by (simp add: chunk_start_def sum_take_Suc)

lemma chunk_start_le: "chunk_start r i \<le> sum_list (map mc_size (dr_merged_chunks r))"
  by (simp add: chunk_start_def sum_take_le del: map_eq_conv)

lemma chunk_start_end: "length (dr_merged_chunks r) \<le> i \<Longrightarrow> chunk_start r i = sum_list (map mc_size (dr_merged_chunks r))"
  by (simp add: chunk_start_def)

lemma length_pieces_start:
  assumes "serves D m dk f r"
  shows "i \<le> length (dr_merged_chunks r) \<Longrightarrow> length (pieces i f) = chunk_start r i"
proof (induction i)
  case 0
  then show ?case by (simp add: pieces_def chunk_start_def)
next
  case (Suc i)
  then have "length (f i) = mc_size (dr_merged_chunks r ! i)" using assms by (simp add: serves_def Let_def)
  with Suc show ?case by (simp add: pieces_Suc chunk_start_Suc)
qed

lemma content_from:
  assumes "serves D m dk f r" and "i < length (dr_merged_chunks r)" and "off \<le> mc_size (dr_merged_chunks r ! i)"
  shows "\<exists>rest. drop (chunk_start r i + off) (rd_content f r) = drop off (f i) @ rest"
proof -
  have len: "length (pieces i f) = chunk_start r i" using length_pieces_start [OF assms(1), of i] assms(2) by simp
  have "length (f i) = mc_size (dr_merged_chunks r ! i)" using assms(1,2) by (simp add: serves_def Let_def)
  with assms(3) show ?thesis
    by (simp add: rd_content_def pieces_split [OF assms(2)] len [symmetric])
qed

text \<open>Opening the next chunk.\<close>

definition opened :: "(nat \<Rightarrow> u8 list) \<Rightarrow> diff_reader \<Rightarrow> diff_reader" where
  "opened f r = r\<lparr>dr_loading_chunk_index := None, dr_loading_future := None,
     dr_active_chunk_index := Some (dr_next_chunk_index r),
     dr_current_reader := Some (drop (dr_next_chunk_offset r) (f (dr_next_chunk_index r)))\<rparr>"

lemma poll_opens:
  assumes fx: "reader_fixed r" and b: "stands_before r" and s: "serves D m dk f r" and lt: "dr_position r < dr_total_size r"
  shows "poll_read_loop D m dk n g r = poll_read_loop D m dk n g (opened f r)"
    and "stands_in f (dr_next_chunk_index r) (dr_next_chunk_offset r) (opened f r)"
    and "reader_fixed (opened f r)" and "same_source r (opened f r)" and "dr_position (opened f r) = dr_position r"
proof -
  let ?i = "dr_next_chunk_index r" and ?off = "dr_next_chunk_offset r"
  let ?c = "dr_merged_chunks r ! ?i"
  let ?r = "r\<lparr>dr_loading_chunk_index := Some ?i, dr_loading_future := Some (mc_source ?c, entry_of r (mc_source ?c), ?off)\<rparr>"
  have at: "?i < length (dr_merged_chunks r)" "?off < mc_size ?c \<or> ?off = 0" "dr_position r = chunk_start r ?i + ?off"
    using b lt by (simp_all add: stands_before_def)
  have load: "run_loading D m dk r (mc_source ?c, entry_of r (mc_source ?c), ?off) = Inr (drop ?off (f ?i))"
    and k: "\<And>k. mc_source ?c = FromDiff k \<Longrightarrow> k < length (dr_diff_entries r)"
    using s at(1,2) unfolding serves_def Let_def by blast+
  have idle: "dr_current_reader r = None" "dr_loading_future r = None" using fx b by (simp_all add: reader_fixed_def stands_before_def)
  have "start_loading_current_chunk r = Some (Inr ?r)"
    using at(1,2) k by (auto simp: start_loading_current_chunk_def entry_of_def Let_def split: merged_chunk_source.split)
  then have "poll_read_loop D m dk n g r = poll_read_loop D m dk n g ?r"
    using idle lt at(1) by (subst poll_read_loop.simps) simp
  moreover have "run_loading D m dk ?r (mc_source ?c, entry_of r (mc_source ?c), ?off) = Inr (drop ?off (f ?i))"
    by (subst run_loading_same [of r]) (simp_all add: same_source_def load)
  then have "poll_read_loop D m dk n g ?r = poll_read_loop D m dk n g (opened f r)"
    using idle by (subst poll_read_loop.simps) (simp add: opened_def)
  ultimately show "poll_read_loop D m dk n g r = poll_read_loop D m dk n g (opened f r)" by simp
  show "stands_in f ?i ?off (opened f r)" using at by (auto simp: stands_in_def opened_def chunk_start_def)
  show "reader_fixed (opened f r)" using fx by (simp add: reader_fixed_def opened_def)
qed (simp_all add: same_source_def opened_def)

definition delivers :: "('j, 'f) diff_env \<Rightarrow> 'f named_data_mgr \<Rightarrow> disk \<Rightarrow> (nat \<Rightarrow> u8 list) \<Rightarrow> nat \<Rightarrow> nat \<Rightarrow> diff_reader \<Rightarrow> bool" where
  "delivers D m dk f n g r \<longleftrightarrow> (\<exists>got r'. poll_read_loop D m dk n g r = Some (Inr got, r') \<and> reader_ok f r' \<and> same_source r r' \<and>
     got = take (length got) (drop (dr_position r) (rd_content f r)) \<and> length got \<le> n \<and>
     (got = [] \<longrightarrow> dr_position r = dr_total_size r) \<and> dr_position r' = dr_position r + length got)"

lemma take_prefix: "take k xs = take (length (take k xs)) xs"
  by (cases "k \<le> length xs") simp_all

lemma poll_in:
  assumes "stands_in f i off r" and "reader_fixed r" and "serves D m dk f r" and "0 < n" and "0 < g"
  shows "delivers D m dk f n g r"
  using assms
proof (induction "length (dr_merged_chunks r) - i" arbitrary: r i off rule: less_induct)
  case less
  note in_r = less.prems(1)[unfolded stands_in_def] and fx = less.prems(2) and s = less.prems(3)
  define got where "got = take (min n g) (drop off (f i))"
  have len: "length (f i) = mc_size (dr_merged_chunks r ! i)" using s in_r by (simp add: serves_def Let_def)
  obtain rest where rest: "drop (dr_position r) (rd_content f r) = drop off (f i) @ rest"
    using content_from [OF s, of i off] in_r by auto
  show ?case
  proof (cases "got = []")
    case False
    let ?r = "r\<lparr>dr_current_reader := Some (drop (length got) (drop off (f i))), dr_position := sat_add (dr_position r) (length got)\<rparr>"
    have run: "poll_read_loop D m dk n g r = Some (Inr got, ?r)"
      using False in_r by (subst poll_read_loop.simps) (simp add: got_def [symmetric] Let_def)
    have gl: "off + length got \<le> mc_size (dr_merged_chunks r ! i)" using len in_r by (auto simp: got_def)
    have "chunk_start r (Suc i) < 2 ^ 64"
      using chunk_start_le [of r "Suc i"] fx by (simp add: reader_fixed_def laid_out_def)
    then have pos: "sat_add (dr_position r) (length got) = dr_position r + length got"
      using gl in_r by (simp add: sat_add_def chunk_start_Suc)
    have "stands_in f i (off + length got) ?r"
      using in_r gl pos by (simp add: stands_in_def chunk_start_def add.commute)
    moreover have "reader_fixed ?r" using fx by (simp add: reader_fixed_def)
    ultimately have ok: "reader_ok f ?r" unfolding reader_ok_def by blast
    have "length got \<le> length (drop off (f i))" "length got \<le> n" by (simp_all add: got_def)
    then have "got = take (length got) (drop (dr_position r) (rd_content f r))"
      unfolding rest using take_prefix [of "min n g" "drop off (f i)", folded got_def] by simp
    moreover have "same_source r ?r" by (simp add: same_source_def)
    ultimately show ?thesis unfolding delivers_def using run False pos ok \<open>length got \<le> n\<close>
      by (intro exI [of _ got] exI [of _ ?r]) simp
  next
    case True
    let ?r = "r\<lparr>dr_active_chunk_index := None, dr_next_chunk_index := Suc i, dr_next_chunk_offset := 0, dr_current_reader := None\<rparr>"
    have off: "off = mc_size (dr_merged_chunks r ! i)" using True len in_r less.prems(4,5) by (auto simp: got_def)
    have pos: "dr_position r = chunk_start r (Suc i)" using in_r off by (simp add: chunk_start_Suc)
    have "sat_add i 1 = Suc i" using fx in_r by (simp add: reader_fixed_def sat_add_def)
    then have run: "poll_read_loop D m dk n g r = poll_read_loop D m dk n g ?r"
      using True in_r by (subst poll_read_loop.simps) (simp add: got_def [symmetric] Let_def advance_after_chunk_eof_def)
    have fx1: "reader_fixed ?r" using fx by (simp add: reader_fixed_def)
    have src1: "same_source r ?r" by (simp add: same_source_def)
    have s1: "serves D m dk f ?r" unfolding same_source_facts(1) [OF src1] by (rule s)
    have tot: "dr_total_size r = sum_list (map mc_size (dr_merged_chunks r))" using fx by (simp add: reader_fixed_def)
    have inside: "Suc i < length (dr_merged_chunks r)" if "dr_position r < dr_total_size r"
      using that pos tot chunk_start_end [of r "Suc i"] by (cases "Suc i < length (dr_merged_chunks r)") auto
    have b1: "stands_before ?r"
      using pos inside chunk_start_le [of r "Suc i"] tot by (auto simp: stands_before_def chunk_start_def)
    show ?thesis
    proof (cases "dr_position r < dr_total_size r")
      case False
      have "poll_read_loop D m dk n g ?r = Some (Inr [], ?r)"
        using fx False by (subst poll_read_loop.simps) (simp add: reader_fixed_def)
      moreover have "reader_ok f ?r" using fx1 b1 by (simp add: reader_ok_def)
      moreover have "dr_position r = dr_total_size r" using False pos tot chunk_start_le [of r "Suc i"] by simp
      ultimately show ?thesis using run src1 by (auto simp: delivers_def)
    next
      case True
      then have lt: "dr_position ?r < dr_total_size ?r" by simp
      note op = poll_opens [OF fx1 b1 s1 lt]
      have s2: "serves D m dk f (opened f ?r)" unfolding same_source_facts(1) [OF op(4)] by (rule s1)
      have src2: "same_source r (opened f ?r)" by (rule same_source_trans [OF src1 op(4)])
      have "delivers D m dk f n g (opened f ?r)"
        by (rule less.hyps [OF _ op(2,3) s2 less.prems(4,5)])
          (use inside [OF True] src2 in \<open>simp add: same_source_def diff_less_mono2\<close>)
      then obtain got r' where "poll_read_loop D m dk n g (opened f ?r) = Some (Inr got, r')" "reader_ok f r'" "same_source (opened f ?r) r'"
        "got = take (length got) (drop (dr_position (opened f ?r)) (rd_content f (opened f ?r)))" "length got \<le> n"
        "got = [] \<longrightarrow> dr_position (opened f ?r) = dr_total_size (opened f ?r)" "dr_position r' = dr_position (opened f ?r) + length got"
        unfolding delivers_def by blast
      moreover have "dr_position (opened f ?r) = dr_position r" using op(5) by simp
      moreover have "dr_total_size (opened f ?r) = dr_total_size r" using src2 by (simp add: same_source_def)
      ultimately show ?thesis
        unfolding delivers_def run op(1) same_source_facts(2) [OF src2]
        using same_source_trans [OF src2] by metis
    qed
  qed
qed

lemma poll_ok:
  assumes "reader_ok f r" and "serves D m dk f r" and "0 < n" and "0 < g"
  obtains got r' where "dr_poll_read D m dk n g r = Some (Inr got, r')" "reader_ok f r'" "same_source r r'"
    "got = take (length got) (drop (dr_position r) (rd_content f r))" "length got \<le> n"
    "got = [] \<longrightarrow> dr_position r = dr_total_size r" "dr_position r' = dr_position r + length got"
proof -
  have fx: "reader_fixed r" using assms(1) by (simp add: reader_ok_def)
  then have eq: "dr_poll_read D m dk n g r = poll_read_loop D m dk n g r"
    using assms(3) by (simp add: dr_poll_read_def reader_fixed_def)
  have "delivers D m dk f n g r"
  proof (cases "\<exists>i off. stands_in f i off r")
    case True
    with poll_in [OF _ fx assms(2-4)] show ?thesis by blast
  next
    case False
    then have b: "stands_before r" using assms(1) by (simp add: reader_ok_def)
    show ?thesis
    proof (cases "dr_position r < dr_total_size r")
      case True
      note op = poll_opens [OF fx b assms(2) True]
      have "serves D m dk f (opened f r)" unfolding same_source_facts(1) [OF op(4)] by (rule assms(2))
      from poll_in [OF op(2,3) this assms(3,4)] show ?thesis
        unfolding delivers_def op(1) op(5) same_source_facts(2) [OF op(4)]
        using op(4) same_source_trans [OF op(4)] by (fastforce simp: same_source_def)
    next
      case False
      have "poll_read_loop D m dk n g r = Some (Inr [], r)"
        using fx b False by (subst poll_read_loop.simps) (simp add: reader_fixed_def stands_before_def)
      with assms(1) b False show ?thesis by (auto simp: delivers_def stands_before_def)
    qed
  qed
  with that eq show thesis unfolding delivers_def by auto
qed

text \<open>A client that polls with these buffers.\<close>

fun dr_reads ::
  "('j, 'f) diff_env \<Rightarrow> 'f named_data_mgr \<Rightarrow> disk \<Rightarrow> (nat \<times> nat) list \<Rightarrow> diff_reader \<Rightarrow> (u8 list \<times> diff_reader) option" where
  "dr_reads D m dk [] r = Some ([], r)"
| "dr_reads D m dk ((n, g) # reqs) r =
     (case dr_poll_read D m dk n g r of
        Some (Inr got, r') \<Rightarrow> map_option (\<lambda>(rest, r''). (got @ rest, r'')) (dr_reads D m dk reqs r')
      | _ \<Rightarrow> None)"

lemma take_drop_append:
  assumes "a = take (length a) (drop p c)" and "b = take (length b) (drop (p + length a) c)"
  shows "a @ b = take (length (a @ b)) (drop p c)"
  using assms by (metis add.commute drop_drop length_append take_add)

lemma length_rd_content: "reader_ok f r \<Longrightarrow> serves D m dk f r \<Longrightarrow> length (rd_content f r) = dr_total_size r"
  using length_pieces_start [of D m dk f r "length (dr_merged_chunks r)"]
  by (simp add: rd_content_def reader_ok_def reader_fixed_def chunk_start_def)

lemma reads_ok:
  assumes "reader_ok f r" and "serves D m dk f r" and "\<forall>(n, g) \<in> set reqs. 0 < n \<and> 0 < g"
  shows "\<exists>out r'. dr_reads D m dk reqs r = Some (out, r') \<and> out = take (length out) (drop (dr_position r) (rd_content f r)) \<and>
    (length out < length reqs \<longrightarrow> out = drop (dr_position r) (rd_content f r))"
  using assms
proof (induction reqs arbitrary: r)
  case (Cons x reqs)
  obtain n g where x: "x = (n, g)" by fastforce
  then have "0 < n" "0 < g" using Cons.prems(3) by auto
  then obtain got r1 where
    r1: "dr_poll_read D m dk n g r = Some (Inr got, r1)" "reader_ok f r1" "same_source r r1"
      "got = take (length got) (drop (dr_position r) (rd_content f r))"
      "length got \<le> n" "got = [] \<longrightarrow> dr_position r = dr_total_size r" "dr_position r1 = dr_position r + length got"
    by (rule poll_ok [OF Cons.prems(1,2)])
  have s1: "serves D m dk f r1" unfolding same_source_facts(1) [OF r1(3)] by (rule Cons.prems(2))
  from Cons.IH [OF r1(2) s1] Cons.prems(3) obtain rest r' where
    r': "dr_reads D m dk reqs r1 = Some (rest, r')" "rest = take (length rest) (drop (dr_position r + length got) (rd_content f r))"
      "length rest < length reqs \<longrightarrow> rest = drop (dr_position r + length got) (rd_content f r)"
    unfolding r1(7) same_source_facts(2) [OF r1(3)] by auto
  note app = take_drop_append [OF r1(4) r'(2)]
  have full: "got @ rest = drop (dr_position r) (rd_content f r)" if "length (got @ rest) < length (x # reqs)"
  proof (cases "got = []")
    case True
    then have "drop (dr_position r) (rd_content f r) = []"
      using r1(6) length_rd_content [OF Cons.prems(1,2)] by simp
    with app show ?thesis by simp
  next
    case False
    with that have "length rest < length reqs" by (cases got) auto
    with r'(3) r1(4) show ?thesis by (metis add.commute append_take_drop_id drop_drop)
  qed
  have "dr_reads D m dk (x # reqs) r = Some (got @ rest, r')" using r1(1) r'(1) x by simp
  with app full show ?case by blast
qed simp

lemma all_read:
  assumes "out = take (length out) (drop p c)" and "length out < length reqs \<longrightarrow> out = drop p c" and "length c - p \<le> length reqs"
  shows "out = drop p c"
  using assms by (metis length_drop not_less order_trans take_all)

section \<open>A reader of a saved writer\<close>

lemma diff_entries_ok:
  assumes "off + sum_list (map snd xs) < 2 ^ 64"
  shows "\<exists>es. diff_entries_from ids k off xs = Ok es \<and> length es = length xs \<and>
    (\<forall>q < length xs. de_chunk_index (es ! q) = fst (xs ! q) \<and> de_size (es ! q) = snd (xs ! q) \<and>
       de_file_offset (es ! q) = off + sum_list (take q (map snd xs)))"
  using assms
proof (induction xs arbitrary: k off)
  case (Cons x xs)
  obtain i sz where x: "x = (i, sz)" by fastforce
  have c: "checked_add off sz = Some (off + sz)" using Cons.prems x by (simp add: checked_add_def)
  from Cons.IH [of "off + sz" "k + 1"] Cons.prems x obtain es where es: "diff_entries_from ids (k + 1) (off + sz) xs = Ok es"
    "length es = length xs" "\<forall>q < length xs. de_chunk_index (es ! q) = fst (xs ! q) \<and> de_size (es ! q) = snd (xs ! q) \<and>
       de_file_offset (es ! q) = off + sz + sum_list (take q (map snd xs))" by auto
  let ?e = "\<lparr>de_chunk_index = i, de_file_offset = off, de_size = sz,
       de_chunk_id = (case ids of None \<Rightarrow> None | Some l \<Rightarrow> if k < length l then Some (l ! k) else None)\<rparr>"
  have "diff_entries_from ids k off (x # xs) = Ok (?e # es)" using es(1) c x by simp
  with es(2,3) x show ?case by (intro exI [of _ "?e # es"]) (auto simp: nth_Cons' take_Cons')
qed simp

lemma overlay_ok:
  assumes "sorted_wrt (<) (map de_chunk_index es)" and "\<forall>e \<in> set es. de_chunk_index e < n" and "length chunks \<le> n"
    and "{length chunks..<n} \<subseteq> de_chunk_index ` set es"
  shows "\<exists>cs. overlay_entries k es chunks = Ok cs \<and> length cs = n \<and>
    (\<forall>q < length es. cs ! de_chunk_index (es ! q) = \<lparr>mc_size = de_size (es ! q), mc_start = 0, mc_source = FromDiff (k + q)\<rparr>) \<and>
    (\<forall>j < length chunks. j \<notin> de_chunk_index ` set es \<longrightarrow> cs ! j = chunks ! j)"
  using assms
proof (induction es arbitrary: k chunks)
  case Nil
  then have "length chunks = n" by (metis atLeastLessThan_empty_iff2 image_empty list.set(1) not_less subset_empty order_antisym)
  then show ?case by simp
next
  case (Cons e es)
  let ?i = "de_chunk_index e" and ?new = "\<lparr>mc_size = de_size e, mc_start = 0, mc_source = FromDiff k\<rparr>"
  have later: "\<forall>e' \<in> set es. ?i < de_chunk_index e'" using Cons.prems(1) by simp
  then have notin: "?i \<notin> de_chunk_index ` set es" by auto
  have i: "?i \<le> length chunks"
  proof (rule ccontr)
    assume gap: "\<not> ?i \<le> length chunks"
    with Cons.prems(2) have "length chunks \<in> {length chunks..<n}" by auto
    with Cons.prems(4) obtain e' where "e' \<in> set (e # es)" "de_chunk_index e' = length chunks" by (metis imageE subsetD)
    with later gap show False by fastforce
  qed
  define cs1 where "cs1 = (if ?i = length chunks then chunks @ [?new] else chunks[?i := ?new])"
  have l1: "length cs1 \<le> n" "?i < length cs1" "length chunks \<le> length cs1"
    using i Cons.prems(2,3) by (auto simp: cs1_def)
  have rest: "{length cs1..<n} \<subseteq> de_chunk_index ` set es"
  proof
    fix x
    assume "x \<in> {length cs1..<n}"
    with l1 have "x \<in> {length chunks..<n}" "x \<noteq> ?i" by auto
    with Cons.prems(4) show "x \<in> de_chunk_index ` set es" by auto
  qed
  have n1: "cs1 ! ?i = ?new" "\<And>j. j < length chunks \<Longrightarrow> j \<noteq> ?i \<Longrightarrow> cs1 ! j = chunks ! j"
    using i by (auto simp: cs1_def nth_append)
  from Cons.IH [OF _ _ l1(1) rest, of "k + 1"] Cons.prems(1,2) obtain cs where cs: "overlay_entries (k + 1) es cs1 = Ok cs" "length cs = n"
    "\<forall>q < length es. cs ! de_chunk_index (es ! q) = \<lparr>mc_size = de_size (es ! q), mc_start = 0, mc_source = FromDiff (k + 1 + q)\<rparr>"
    "\<forall>j < length cs1. j \<notin> de_chunk_index ` set es \<longrightarrow> cs ! j = cs1 ! j" by auto
  have "overlay_entries k (e # es) chunks = Ok cs" using i cs(1) by (simp add: cs1_def Let_def)
  moreover have "cs ! de_chunk_index ((e # es) ! q) = \<lparr>mc_size = de_size ((e # es) ! q), mc_start = 0, mc_source = FromDiff (k + q)\<rparr>"
    if "q < length (e # es)" for q
    using that cs(3,4) n1(1) notin l1(2) by (cases q) auto
  moreover have "cs ! j = chunks ! j" if "j < length chunks" "j \<notin> de_chunk_index ` set (e # es)" for j
    using that cs(4) n1(2) [of j] l1(3) by auto
  ultimately show ?case using cs(2) by blast
qed

lemma set_starts_ok:
  assumes "start + sum_list (map mc_size cs) < 2 ^ 64"
  shows "\<exists>ds. set_starts start cs = Ok ds \<and> length ds = length cs \<and> map mc_size ds = map mc_size cs \<and>
    (\<forall>j < length cs. mc_source (ds ! j) = mc_source (cs ! j) \<and> mc_start (ds ! j) = start + sum_list (take j (map mc_size cs)))"
  using assms
proof (induction cs arbitrary: start)
  case (Cons c cs)
  have e: "checked_add start (mc_size c) = Some (start + mc_size c)" using Cons.prems by (simp add: checked_add_def)
  from Cons.IH [of "start + mc_size c"] Cons.prems obtain ds where ds: "set_starts (start + mc_size c) cs = Ok ds" "length ds = length cs"
    "map mc_size ds = map mc_size cs"
    "\<forall>j < length cs. mc_source (ds ! j) = mc_source (cs ! j) \<and> mc_start (ds ! j) = start + mc_size c + sum_list (take j (map mc_size cs))"
    by auto
  have "set_starts start (c # cs) = Ok (c\<lparr>mc_start := start\<rparr> # ds)" using ds(1) e by simp
  with ds(2-4) show ?case by (intro exI [of _ "c\<lparr>mc_start := start\<rparr> # ds"]) (auto simp: nth_Cons' take_Cons')
qed simp

text \<open>The chunks that the reader puts together from what a writer saved.\<close>

definition merges :: "diff_writer \<Rightarrow> diff_entry_meta list \<Rightarrow> merged_chunk_meta list \<Rightarrow> bool" where
  "merges w es cs \<longleftrightarrow> laid_out cs \<and> map mc_size cs = dw_merged_chunk_sizes w \<and> length es = length (dw_dirty_chunks w) \<and>
     (\<forall>q < length es. de_size (es ! q) = length (snd (dw_dirty_chunks w ! q)) \<and>
        de_file_offset (es ! q) = length (concat (map snd (take q (dw_dirty_chunks w)))) \<and>
        mc_source (cs ! fst (dw_dirty_chunks w ! q)) = FromDiff q) \<and>
     (\<forall>j < length cs. j \<notin> fst ` set (dw_dirty_chunks w) \<longrightarrow> mc_source (cs ! j) = FromBase (dw_base_chunk_ids w ! j))"

lemma laid_out_total:
  assumes "laid_out cs"
  shows "(case cs of [] \<Rightarrow> 0 | _ \<Rightarrow> sat_add (mc_start (last cs)) (mc_size (last cs))) = sum_list (map mc_size cs)"
proof (cases "cs = []")
  case False
  then have "sat_add (mc_start (last cs)) (mc_size (last cs)) = sum_list (take (Suc (length cs - 1)) (map mc_size cs))"
    using laid_out_end [OF assms, of "length cs - 1"] by (simp add: last_conv_nth)
  with False show ?thesis by (cases cs) simp_all
qed simp

lemma saved_entries:
  assumes ok: "writer_ok data w"
  obtains es where "diff_entries_from None 0 0 (zip (map fst (dw_dirty_chunks w)) (dirty_sizes w)) = Ok es"
    "length es = length (dw_dirty_chunks w)" "map de_chunk_index es = map fst (dw_dirty_chunks w)"
    "\<And>q. q < length es \<Longrightarrow> de_size (es ! q) = length (snd (dw_dirty_chunks w ! q)) \<and>
       de_file_offset (es ! q) = length (concat (map snd (take q (dw_dirty_chunks w))))"
    "validate_diff_file_len es (length (dirty_bytes w)) = Ok ()"
proof -
  let ?ds = "dw_dirty_chunks w"
  let ?xs = "zip (map fst ?ds) (dirty_sizes w)"
  have len: "length ?xs = length ?ds" "map snd ?xs = dirty_sizes w" by (simp_all add: dirty_sizes_def)
  have "0 + sum_list (map snd ?xs) < 2 ^ 64" unfolding len using dirty_bytes_fit(2) [OF ok] by (simp add: length_dirty_bytes)
  from diff_entries_ok [OF this, of None 0] obtain es where es: "diff_entries_from None 0 0 ?xs = Ok es" "length es = length ?ds"
    "\<And>q. q < length ?ds \<Longrightarrow> de_chunk_index (es ! q) = fst (?ds ! q) \<and> de_size (es ! q) = length (snd (?ds ! q)) \<and>
       de_file_offset (es ! q) = sum_list (take q (dirty_sizes w))"
    unfolding len by (auto simp: dirty_sizes_def)
  have off: "sum_list (take q (dirty_sizes w)) = length (concat (map snd (take q ?ds)))" for q
    by (simp add: dirty_sizes_def length_concat take_map comp_def)
  have "map de_chunk_index es = map fst ?ds" using es(2,3) by (intro nth_equalityI) simp_all
  moreover have "validate_diff_file_len es (length (dirty_bytes w)) = Ok ()"
  proof (cases "es = []")
    case True
    with es(2) show ?thesis by (simp add: validate_diff_file_len_def dirty_bytes_def)
  next
    case False
    let ?q = "length ?ds - 1"
    have q: "?q < length ?ds" "Suc ?q = length ?ds" using False es(2) by (cases ?ds, auto)+
    have "de_file_offset (last es) + de_size (last es) = sum_list (take (Suc ?q) (dirty_sizes w))"
      using es(2,3) q False by (subst sum_take_Suc) (auto simp: last_conv_nth dirty_sizes_def)
    also have "\<dots> = length (dirty_bytes w)" unfolding q(2) by (simp add: length_dirty_bytes dirty_sizes_def)
    finally have "sat_add (de_file_offset (last es)) (de_size (last es)) = length (dirty_bytes w)"
      using dirty_bytes_fit(2) [OF ok] by (simp add: sat_add_def)
    with False show ?thesis by (cases es) (simp_all add: validate_diff_file_len_def)
  qed
  ultimately show thesis using that es off by simp
qed

lemma saved_chunks:
  assumes ok: "writer_ok data w" and base: "cl_body base = dw_base_chunk_ids w"
  obtains es cs where "diff_entries_from None 0 0 (zip (map fst (dw_dirty_chunks w)) (dirty_sizes w)) = Ok es"
    "validate_diff_file_len es (length (dirty_bytes w)) = Ok ()"
    "build_merged_chunks base (dw_base_chunk_sizes w) es = Ok cs" "merges w es cs"
proof -
  let ?ds = "dw_dirty_chunks w" and ?n = "length (dw_merged_chunk_sizes w)" and ?s = "dw_merged_chunk_sizes w"
  let ?b = "map (\<lambda>(c, sz). \<lparr>mc_size = sz, mc_start = 0, mc_source = FromBase c\<rparr>) (zip (cl_body base) (dw_base_chunk_sizes w))"
  obtain es where es: "diff_entries_from None 0 0 (zip (map fst ?ds) (dirty_sizes w)) = Ok es"
    "length es = length ?ds" "map de_chunk_index es = map fst ?ds"
    "\<And>q. q < length es \<Longrightarrow> de_size (es ! q) = length (snd (?ds ! q)) \<and> de_file_offset (es ! q) = length (concat (map snd (take q ?ds)))"
    "validate_diff_file_len es (length (dirty_bytes w)) = Ok ()" using saved_entries [OF ok] by blast
  have len: "length ?b = length data" "length (cl_body base) = length (dw_base_chunk_sizes w)" "length data \<le> ?n"
    using ok base by (simp_all add: writer_ok_def ok_except_def)
  have keys: "de_chunk_index ` set es = fst ` set ?ds" using arg_cong [OF es(3), of set] by simp
  have idx: "de_chunk_index (es ! q) = fst (?ds ! q)" if "q < length es" for q
    using arg_cong [OF es(3), of "\<lambda>l. l ! q"] that es(2) by simp
  note d = writer_ok_dirty [OF ok]
  have clean: "j < length data \<and> ?s ! j = length (data ! j)" if "j < ?n" "j \<notin> fst ` set ?ds" for j
    using ok that by (simp add: writer_ok_def ok_except_def)
  have "\<forall>e \<in> set es. de_chunk_index e < ?n" 
  proof
    fix e
    assume "e \<in> set es"
    then have "de_chunk_index e \<in> fst ` set ?ds" using keys by blast
    with d(1) show "de_chunk_index e < ?n" by auto
  qed
  moreover have "{length ?b..<?n} \<subseteq> de_chunk_index ` set es" unfolding keys len(1) using clean by fastforce
  ultimately obtain cs where cs: "overlay_entries 0 es ?b = Ok cs" "length cs = ?n"
    "\<forall>q < length es. cs ! de_chunk_index (es ! q) = \<lparr>mc_size = de_size (es ! q), mc_start = 0, mc_source = FromDiff (0 + q)\<rparr>"
    "\<forall>j < length ?b. j \<notin> de_chunk_index ` set es \<longrightarrow> cs ! j = ?b ! j"
    using overlay_ok [of es ?n ?b 0] d(2) es(3) len(1,3) by auto
  have dirty: "cs ! fst (?ds ! q) = \<lparr>mc_size = length (snd (?ds ! q)), mc_start = 0, mc_source = FromDiff q\<rparr>" if "q < length es" for q
    using cs(3) es(4) idx that by simp
  have rest: "cs ! j = \<lparr>mc_size = ?s ! j, mc_start = 0, mc_source = FromBase (dw_base_chunk_ids w ! j)\<rparr>"
    if "j < ?n" "j \<notin> fst ` set ?ds" for j
    using cs(4) clean [OF that] that(2) len ok base unfolding keys by (auto simp: writer_ok_def ok_except_def)
  have sz: "map mc_size cs = ?s"
  proof (rule nth_equalityI)
    fix j
    assume "j < length (map mc_size cs)"
    then have j: "j < ?n" using cs(2) by simp
    show "map mc_size cs ! j = ?s ! j"
    proof (cases "j \<in> fst ` set ?ds")
      case True
      then obtain q where "q < length ?ds" "fst (?ds ! q) = j" by (metis imageE in_set_conv_nth)
      with dirty [of q] d(1) es(2) j cs(2) show ?thesis by (auto simp: nth_mem case_prod_beta)
    next
      case False
      with rest [OF j] j cs(2) show ?thesis by simp
    qed
  qed (simp add: cs(2))
  have fit: "0 + sum_list (map mc_size cs) < 2 ^ 64" unfolding sz using ok by (simp add: writer_ok_def ok_except_def)
  from set_starts_ok [OF fit] obtain cs' where cs': "set_starts 0 cs = Ok cs'" "length cs' = length cs" "map mc_size cs' = map mc_size cs"
    "\<forall>j < length cs. mc_source (cs' ! j) = mc_source (cs ! j) \<and> mc_start (cs' ! j) = 0 + sum_list (take j (map mc_size cs))" by blast
  have "build_merged_chunks base (dw_base_chunk_sizes w) es = Ok cs'" using cs(1) cs'(1) len by (simp add: build_merged_chunks_def)
  moreover have "laid_out cs'" using cs'(2-4) fit unfolding laid_out_def by simp
  moreover have "fst (?ds ! q) < length cs" if "q < length es" for q
    using d(1) nth_mem [of q ?ds] that es(2) cs(2) by (auto simp: case_prod_beta)
  ultimately have "merges w es cs'"
    unfolding merges_def using cs'(2-4) es(2,4) dirty rest cs(2) sz by auto
  with that es(1,5) \<open>build_merged_chunks base (dw_base_chunk_sizes w) es = Ok cs'\<close> show thesis by blast
qed

text \<open>Every chunk of the base list can be opened where the reader opens it.\<close>

definition readable_at :: "('j, 'f) diff_env \<Rightarrow> 'f named_data_mgr \<Rightarrow> u8 list list \<Rightarrow> diff_writer \<Rightarrow> bool" where
  "readable_at D m data w \<longleftrightarrow>
     (\<forall>i < length data. \<forall>off. off < length (data ! i) \<or> off = 0 \<longrightarrow>
        open_store_chunk_reader_with_fallback D m (dw_base_chunk_ids w ! i) off (dw_auto_cache w) (dw_local_mode w)
          (dw_open_chunk_reader w) = Ok (drop off (data ! i)))"

lemma diff_chunk_loads:
  assumes q: "q < length ds" and fil: "dk_files dk path = Some (concat (map snd ds))" and fit: "length (concat (map snd ds)) < 2 ^ 64"
    and off: "off < length (snd (ds ! q)) \<or> off = 0"
  shows "open_diff_file_reader dk path (length (concat (map snd (take q ds)))) off (length (snd (ds ! q))) = Inr (drop off (snd (ds ! q)))"
proof -
  let ?pre = "concat (map snd (take q ds))" and ?d = "snd (ds ! q)"
  have split: "concat (map snd ds) = ?pre @ ?d @ concat (map snd (drop (Suc q) ds))"
    by (subst id_take_nth_drop [OF q]) simp
  then have "length ?pre + length ?d < 2 ^ 64" using fit by simp
  then have "checked_add (length ?pre) off = Some (length ?pre + off)" using off by (auto simp: checked_add_def)
  then show ?thesis using off by (auto simp: open_diff_file_reader_def fil split)
qed

lemma merged_serves:
  assumes ok: "writer_ok data w" and mg: "merges w (dr_diff_entries r) (dr_merged_chunks r)" and ra: "readable_at D m data w"
    and fil: "dk_files dk (dw_diff_file_path w) = Some (dirty_bytes w)"
    and opts: "dr_auto_cache r = dw_auto_cache w" "dr_local_mode r = dw_local_mode w" "dr_open_chunk_reader r = dw_open_chunk_reader w"
      "dr_diff_file_path r = dw_diff_file_path w"
  shows "serves D m dk (chunk_bytes data w) r"
proof -
  let ?ds = "dw_dirty_chunks w" and ?cs = "dr_merged_chunks r" and ?es = "dr_diff_entries r"
  note d = writer_ok_dirty [OF ok]
  have sz: "mc_size (?cs ! j) = dw_merged_chunk_sizes w ! j" "j < length (dw_merged_chunk_sizes w)" if "j < length ?cs" for j
    using mg that by (metis (no_types) merges_def nth_map length_map)+
  have "(\<forall>k. mc_source (?cs ! j) = FromDiff k \<longrightarrow> k < length ?es) \<and>
      (\<forall>off. off < mc_size (?cs ! j) \<or> off = 0 \<longrightarrow>
        run_loading D m dk r (mc_source (?cs ! j), entry_of r (mc_source (?cs ! j)), off) = Inr (drop off (chunk_bytes data w j)))"
    if j: "j < length ?cs" for j
  proof (cases "j \<in> fst ` set ?ds")
    case True
    then obtain q where q: "q < length ?ds" "fst (?ds ! q) = j" by (metis imageE in_set_conv_nth)
    have len: "length (snd (?ds ! q)) = dw_merged_chunk_sizes w ! j" using d(1) nth_mem [OF q(1)] q(2) by (auto simp: case_prod_beta)
    have "map_of ?ds j = Some (snd (?ds ! q))" using map_of_is_SomeI [OF d(3)] nth_mem [OF q(1)] q(2) by (metis prod.collapse)
    then have cb: "chunk_bytes data w j = snd (?ds ! q)" using len by (simp add: chunk_bytes_def)
    have e: "mc_source (?cs ! j) = FromDiff q" "q < length ?es" "de_size (?es ! q) = length (snd (?ds ! q))"
      "de_file_offset (?es ! q) = length (concat (map snd (take q ?ds)))" using mg q by (auto simp: merges_def)
    have "run_loading D m dk r (FromDiff q, Some (?es ! q), off) = Inr (drop off (snd (?ds ! q)))"
      if "off < length (snd (?ds ! q)) \<or> off = 0" for off
      using diff_chunk_loads [OF q(1) _ _ that, of dk "dw_diff_file_path w"] fil dirty_bytes_fit(2) [OF ok] e
      by (simp add: run_loading_def opts(4) dirty_bytes_def)
    then show ?thesis using e(1,2) sz(1) [OF j] len cb by (auto simp: entry_of_def)
  next
    case False
    have j': "j < length data" "dw_merged_chunk_sizes w ! j = length (data ! j)"
      using ok sz(2) [OF j] False by (simp_all add: writer_ok_def ok_except_def)
    have "map_of ?ds j = None" using False by (simp add: map_of_eq_None_iff)
    with j' have cb: "chunk_bytes data w j = data ! j" by (simp add: chunk_bytes_def)
    have src: "mc_source (?cs ! j) = FromBase (dw_base_chunk_ids w ! j)" using mg j False by (simp add: merges_def)
    have "run_loading D m dk r (FromBase (dw_base_chunk_ids w ! j), entry, off) = Inr (drop off (data ! j))"
      if "off < length (data ! j) \<or> off = 0" for entry off
    proof -
      have "open_store_chunk_reader_with_fallback D m (dw_base_chunk_ids w ! j) off (dw_auto_cache w) (dw_local_mode w)
          (dw_open_chunk_reader w) = Ok (drop off (data ! j))" using ra j'(1) that unfolding readable_at_def by blast
      then show ?thesis by (simp add: run_loading_def opts)
    qed
    then show ?thesis using sz(1) [OF j] j' cb unfolding src by auto
  qed
  then show ?thesis using sz unfolding serves_def Let_def by auto
qed

lemma seek_ok:
  assumes fx: "reader_fixed r" and p: "p \<le> dr_total_size r"
  obtains r' where "apply_seek_target p r = Some r'" "reader_ok f r'" "same_source r r'" "dr_position r' = p"
proof (cases "p < dr_total_size r")
  case True
  have "laid_out (dr_merged_chunks r)" "dr_total_size r = sum_list (map mc_size (dr_merged_chunks r))"
    using fx by (simp_all add: reader_fixed_def)
  from dr_locate_Some [OF this True] obtain i off where l: "dr_locate_position p r = Some (i, off)"
    "i < length (dr_merged_chunks r)" "off < mc_size (dr_merged_chunks r ! i)"
    "p = sum_list (take i (map mc_size (dr_merged_chunks r))) + off" by metis
  obtain r' where r': "apply_seek_target p r = Some r'"
    and eq: "r' = r\<lparr>dr_position := p, dr_next_chunk_index := i, dr_next_chunk_offset := off, dr_active_chunk_index := None,
      dr_pending_seek := None, dr_current_reader := None, dr_loading_future := None, dr_loading_chunk_index := None\<rparr>"
    using l(1) by (simp add: apply_seek_target_def)
  have "stands_before r'" using l True by (simp add: stands_before_def eq chunk_start_def)
  moreover have "reader_fixed r'" using fx by (simp add: reader_fixed_def eq)
  ultimately have "reader_ok f r'" by (simp add: reader_ok_def)
  with that r' show thesis by (simp add: eq same_source_def)
next
  case False
  with p have "p = dr_total_size r" by simp
  then show thesis
    using that fx by (simp add: apply_seek_target_def dr_locate_position_def reader_ok_def reader_fixed_def stands_before_def same_source_def)
qed

lemma saved_reader:
  assumes ok: "writer_ok data w" and base: "cl_body base = dw_base_chunk_ids w" and ra: "readable_at D m data w"
    and n: "length (dw_merged_chunk_sizes w) < 2 ^ 64" and p: "p \<le> dw_total_size w"
    and loc: "dw_local_mode w \<longrightarrow> (\<exists>x. ensure_chunks_available_in_local D m (dw_base_chunk_ids w) (Some (dw_base_chunk_sizes w)) = Ok x)"
  obtains r where
    "dr_from_writer_state D m (saved_disk w dk) base (saved_state w) (SeekStart p) (dw_open_chunk_reader w) = Some (Ok r)"
    "reader_ok (chunk_bytes data w) r" "serves D m (saved_disk w dk) (chunk_bytes data w) r" "dr_position r = p"
    "rd_content (chunk_bytes data w) r = dw_content data w"
proof -
  obtain es cs where es: "diff_entries_from None 0 0 (zip (map fst (dw_dirty_chunks w)) (dirty_sizes w)) = Ok es"
    "validate_diff_file_len es (length (dirty_bytes w)) = Ok ()"
    "build_merged_chunks base (dw_base_chunk_sizes w) es = Ok cs" and mg: "merges w es cs" by (rule saved_chunks [OF ok base])
  let ?d = "\<lparr>dl_base_chunk_list = dw_base_chunk_list_id w, dl_diff_file_path = dw_diff_file_path w,
    dl_chunk_indices = map fst (dw_dirty_chunks w), dl_chunk_ids = None\<rparr>"
  let ?r = "\<lparr>dr_auto_cache = dw_auto_cache w, dr_local_mode = dw_local_mode w,
     dr_open_chunk_reader = dw_open_chunk_reader w, dr_diff_file_path = dw_diff_file_path w,
     dr_diff_entries = es, dr_merged_chunks = cs,
     dr_total_size = (case cs of [] \<Rightarrow> 0 | _ \<Rightarrow> sat_add (mc_start (last cs)) (mc_size (last cs))),
     dr_position = 0, dr_next_chunk_index = 0, dr_next_chunk_offset = 0, dr_active_chunk_index = None,
     dr_pending_seek = None, dr_loading_chunk_index = None, dr_loading_future = None, dr_current_reader = None\<rparr>"
  have lay: "laid_out cs" and sz: "map mc_size cs = dw_merged_chunk_sizes w" using mg by (simp_all add: merges_def)
  have tot: "dr_total_size ?r = dw_total_size w" using laid_out_total [OF lay] sz ok by (simp add: writer_ok_def ok_except_def)
  have len: "length cs = length (dw_merged_chunk_sizes w)" using sz by (metis length_map)
  have fx: "reader_fixed ?r" using lay sz n len tot ok by (simp add: reader_fixed_def writer_ok_def ok_except_def)
  obtain r where r: "apply_seek_target p ?r = Some r" "reader_ok (chunk_bytes data w) r" "same_source ?r r" "dr_position r = p"
    using seek_ok [OF fx] p tot by metis
  have val: "dl_validate ?d = Ok ()" using writer_ok_dirty(3) [OF ok] by (simp add: dl_validate_def)
  have res: "resolve_chunk_sizes_for_list D m base (dw_local_mode w) (dw_fixed_chunk_size w) (Some (dw_base_chunk_sizes w)) = Ok (dw_base_chunk_sizes w)"
    using ok base loc by (auto simp: resolve_chunk_sizes_for_list_def writer_ok_def ok_except_def)
  have fil: "file_data (dw_diff_file_path w) (saved_disk w dk) = dirty_bytes w" by (simp add: file_data_def saved_disk_def)
  have ent: "build_diff_entries ?d (dirty_sizes w) = Ok es" using es(1) by (simp add: build_diff_entries_def dirty_sizes_def)
  have seek: "calc_seek_target (SeekStart p) ?r = Ok p" using p tot by (simp add: calc_seek_target_def)
  have "dr_from_writer_state D m (saved_disk w dk) base (saved_state w) (SeekStart p) (dw_open_chunk_reader w) = Some (Ok r)"
    unfolding dr_from_writer_state_def dr_with_options_def
    by (simp add: saved_state_def val res fil resolve_diff_chunk_sizes_def ent es(2,3) seek r(1) Let_def)
  moreover have "serves D m (saved_disk w dk) (chunk_bytes data w) r"
    unfolding same_source_facts(1) [OF r(3)]
    by (rule merged_serves [OF ok _ ra]) (simp_all add: mg saved_disk_def)
  moreover have "rd_content (chunk_bytes data w) r = dw_content data w"
    unfolding same_source_facts(2) [OF r(3)] by (simp add: rd_content_def dw_content_def len)
  ultimately show thesis using that r(2,4) by blast
qed

section \<open>Properties\<close>

text \<open>\<^bold>\<open>C2.\<close> What a writer saves can be read back: after \<open>close\<close>, a reader that is opened from the state file at
  a position inside of the file delivers the bytes of the writer from there, changed chunks from the diff file and
  the others from the base list, whatever the sizes of the buffers and of the short reads, and once as many
  polls are made as bytes are left it has delivered all of them.\<close>

theorem close_then_read:
  assumes "writer_ok data w" and "cl_body base = dw_base_chunk_ids w" and "readable_at D m data w"
    and "length (dw_merged_chunk_sizes w) < 2 ^ 64" and "p \<le> length (dw_content data w)"
    and "dw_local_mode w \<longrightarrow> (\<exists>x. ensure_chunks_available_in_local D m (dw_base_chunk_ids w) (Some (dw_base_chunk_sizes w)) = Ok x)"
    and "dw_close D w dk m = (Ok st, dk', m')" and "\<forall>(n, g) \<in> set reqs. 0 < n \<and> 0 < g"
  shows "\<exists>r out r'. dr_from_writer_state_file D m' dk' base (dw_diff_file_path w) (SeekStart p) (dw_open_chunk_reader w) = Some (Ok r) \<and>
    dr_reads D m' dk' reqs r = Some (out, r') \<and> out = take (length out) (drop p (dw_content data w)) \<and>
    (length (dw_content data w) - p \<le> length reqs \<longrightarrow> out = drop p (dw_content data w))"
proof -
  have eq: "st = saved_state w" "dk' = saved_disk w dk" "m' = m" using assms(7) close_saves [OF assms(1), of D dk m] by simp_all
  have "p \<le> dw_total_size w" using assms(1,5) by (simp add: length_content writer_ok_def ok_except_def)
  from saved_reader [OF assms(1-4) this assms(6)] obtain r where
    r: "dr_from_writer_state D m (saved_disk w dk) base (saved_state w) (SeekStart p) (dw_open_chunk_reader w) = Some (Ok r)"
      "reader_ok (chunk_bytes data w) r" "serves D m (saved_disk w dk) (chunk_bytes data w) r" "dr_position r = p"
      "rd_content (chunk_bytes data w) r = dw_content data w" by metis
  have "load_state (dw_diff_file_path w) (saved_disk w dk) = Ok (saved_state w)"
    by (simp add: load_state_def saved_disk_def ok_or_def)
  then have opened: "dr_from_writer_state_file D m' dk' base (dw_diff_file_path w) (SeekStart p) (dw_open_chunk_reader w) = Some (Ok r)"
    using r(1) by (simp add: dr_from_writer_state_file_def eq)
  from reads_ok [OF r(2,3) assms(8)] obtain out r' where out: "dr_reads D m (saved_disk w dk) reqs r = Some (out, r')"
    "out = take (length out) (drop p (dw_content data w))" "length out < length reqs \<longrightarrow> out = drop p (dw_content data w)"
    unfolding r(4,5) by blast
  have "out = drop p (dw_content data w)" if "length (dw_content data w) - p \<le> length reqs"
    by (rule all_read [OF out(2,3) that])
  with opened out(1,2) show ?thesis by (auto simp: eq)
qed

theorem close_then_read_witness:
  "\<exists>st dk' m' r r'. dw_close demo_denv demo_dw demo_disk ndm_new = (Ok st, dk', m') \<and>
    dr_from_writer_state_file demo_denv m' dk' demo_base ''/d'' (SeekStart 1) (Some demo_remote) = Some (Ok r) \<and>
    dr_reads demo_denv m' dk' [(5, 1), (5, 4)] r = Some ([2, 9], r')"
proof -
  note close = close_saves [OF demo_dw_ok, of demo_denv demo_disk ndm_new]
  have sel: "dw_base_chunk_ids demo_dw = [demo_chunk]" "dw_local_mode demo_dw = False" "dw_open_chunk_reader demo_dw = Some demo_remote"
    "dw_diff_file_path demo_dw = ''/d''" "dw_merged_chunk_sizes demo_dw = [2, 1]" by (simp_all add: demo_dw_def)
  have ra: "readable_at demo_denv ndm_new [[1, 2]] demo_dw" by (simp add: readable_at_def sel demo_remote_reads)
  have c: "dw_content [[1, 2]] demo_dw = [7, 2, 9]" by code_simp
  have base: "cl_body demo_base = dw_base_chunk_ids demo_dw" by (simp add: sel demo_base_def)
  from close_then_read [OF demo_dw_ok base ra _ _ _ close, of 1 "[(5, 1), (5, 4)]"] obtain r out r' where
    "dr_from_writer_state_file demo_denv ndm_new (saved_disk demo_dw demo_disk) demo_base ''/d'' (SeekStart 1) (Some demo_remote) = Some (Ok r)"
    "dr_reads demo_denv ndm_new (saved_disk demo_dw demo_disk) [(5, 1), (5, 4)] r = Some (out, r')" "out = drop 1 [7, 2, 9]"
    unfolding c sel by auto
  with close show ?thesis by auto
qed

text \<open>The binary search of the reader and the scan of the writer find the same chunk and the same offset in
  it, for every position inside of the file; chunks of size zero are passed over by both.\<close>

theorem bisect_matches_scan:
  assumes "laid_out (dr_merged_chunks r)" and "dr_total_size r = sum_list (map mc_size (dr_merged_chunks r))"
    and "map mc_size (dr_merged_chunks r) = dw_merged_chunk_sizes w" and "dw_total_size w = dr_total_size r" and "pos < dr_total_size r"
  shows "dr_locate_position pos r = dw_locate_position pos w"
proof -
  obtain i off where "dr_locate_position pos r = Some (i, off)" "locate_in pos 0 0 (map mc_size (dr_merged_chunks r)) = Some (i, off)"
    "i < length (dr_merged_chunks r)" using dr_locate_Some [OF assms(1,2,5)] by metis
  moreover from this have "dw_merged_chunk_sizes w \<noteq> []" using assms(3) by auto
  ultimately show ?thesis using assms(3-5) by (simp add: dw_locate_position_def)
qed

definition demo_dr :: diff_reader where
  "demo_dr = \<lparr>dr_auto_cache = False, dr_local_mode = False, dr_open_chunk_reader = Some demo_remote, dr_diff_file_path = ''/d'',
     dr_diff_entries = [], dr_merged_chunks = [\<lparr>mc_size = 2, mc_start = 0, mc_source = FromBase demo_chunk\<rparr>,
       \<lparr>mc_size = 1, mc_start = 2, mc_source = FromBase demo_chunk\<rparr>],
     dr_total_size = 3, dr_position = 0, dr_next_chunk_index = 0, dr_next_chunk_offset = 0, dr_active_chunk_index = None,
     dr_pending_seek = None, dr_loading_chunk_index = None, dr_loading_future = None, dr_current_reader = None\<rparr>"

theorem bisect_matches_scan_witness: "dr_locate_position 2 demo_dr = dw_locate_position 2 demo_dw \<and> dw_locate_position 2 demo_dw = Some (1, 0)"
proof -
  have "laid_out (dr_merged_chunks demo_dr)" by (auto simp: laid_out_def demo_dr_def less_Suc_eq)
  then have "dr_locate_position 2 demo_dr = dw_locate_position 2 demo_dw"
    by (rule bisect_matches_scan) (simp_all add: demo_dr_def demo_dw_def)
  moreover have "dw_locate_position 2 demo_dw = Some (1, 0)" by (simp add: dw_locate_position_def demo_dw_def sat_add_def Let_def)
  ultimately show ?thesis by simp
qed

end
