(* ===== verification/Chunk_List_Reader.thy ===== *)
theory Chunk_List_Reader
  imports Diff_Reader Ndm_Resolve
begin

text \<open>
  Reading a chunk list as one stream (\<open>named_store/src/chunk_list_reader.rs\<close>) and the readers that
  \<open>NamedDataMgr\<close> opens for a chunk, a chunk list or a file object (\<open>named_store/src/ndm.rs\<close>).  Opened chunks and
  futures are those of the theory of the diff reader.
\<close>

section \<open>Opening a chunk list\<close>

record clr_options =
  co_local_mode :: bool
  co_fixed_chunk_size :: "nat option"
  co_chunk_sizes :: "nat list option"
  co_open_chunk_reader :: "open_chunk_reader option"

definition clr_options_default :: clr_options where
  "clr_options_default = \<lparr>co_local_mode = False, co_fixed_chunk_size = None, co_chunk_sizes = None, co_open_chunk_reader = None\<rparr>"

record chunk_meta =
  cm_chunk_id :: chunk_id
  cm_size :: nat
  cm_start :: nat

record chunk_list_reader =
  cr_local_mode :: bool
  cr_open_chunk_reader :: "open_chunk_reader option"
  cr_chunks :: "chunk_meta list"
  cr_total_size :: nat
  cr_position :: nat
  cr_next_chunk_index :: nat
  cr_next_chunk_offset :: nat
  cr_active_chunk_index :: "nat option"
  cr_pending_seek :: "nat option"
  cr_loading_chunk_index :: "nat option"
  cr_loading_future :: "(chunk_id \<times> nat) option"
  cr_current_reader :: "u8 list option"

fun clr_mix_sizes :: "'j ext_crates \<Rightarrow> chunk_id list \<Rightarrow> nat list option" where
  "clr_mix_sizes E [] = Some []"
| "clr_mix_sizes E (c # cs) =
     (case chunk_get_length E c of None \<Rightarrow> None | Some n \<Rightarrow> map_option (\<lambda>ns. unat n # ns) (clr_mix_sizes E cs))"

fun clr_fixed_loop :: "nat \<Rightarrow> nat \<Rightarrow> nat \<Rightarrow> nat list ndn_result" where
  "clr_fixed_loop fixed remaining 0 =
     (if remaining \<noteq> 0 then Err (InvalidParam ''resolved fixed chunk sizes do not cover total size'') else Ok [])"
| "clr_fixed_loop fixed remaining (Suc k) =
     (if remaining = 0 then Err (InvalidParam ''fixed chunk size cannot fit list total size'')
      else let sz = (if k = 0 then remaining else min fixed remaining)
           in and_then (clr_fixed_loop fixed (remaining - sz) k) (\<lambda>rest. Ok (sz # rest)))"

definition clr_fixed_sizes :: "chunk_list \<Rightarrow> nat \<Rightarrow> nat list ndn_result" where
  "clr_fixed_sizes cl fixed =
     (if cl_body cl = [] then Ok []
      else if fixed = 0 then Err (InvalidParam ''fixed_chunk_size cannot be zero'')
      else if cl_total_size cl = 0 then Ok (replicate (length (cl_body cl)) fixed)
      else clr_fixed_loop fixed (unat (cl_total_size cl)) (length (cl_body cl)))"

fun clr_ensure_local ::
  "('j, 'f) diff_env \<Rightarrow> 'f named_data_mgr \<Rightarrow> chunk_id list \<Rightarrow> nat list option \<Rightarrow> nat list ndn_result" where
  "clr_ensure_local D m [] expected = Ok []"
| "clr_ensure_local D m (c # cs) expected =
     and_then (ndm_query_chunk_state (dv_crates D) (dv_hash D) c m) (\<lambda>(state, chunk_size).
       if \<not> can_open_reader state then Err (NotFound ''chunk missing in local NamedStoreMgr'')
       else if (case expected of Some sizes \<Rightarrow> hd sizes \<noteq> unat chunk_size | None \<Rightarrow> False) then
         Err (InvalidData ''chunk size mismatch'')
       else and_then (clr_ensure_local D m cs (map_option tl expected)) (\<lambda>rest. Ok (unat chunk_size # rest)))"

definition clr_resolve_sizes ::
  "('j, 'f) diff_env \<Rightarrow> 'f named_data_mgr \<Rightarrow> chunk_list \<Rightarrow> clr_options \<Rightarrow> nat list ndn_result" where
  "clr_resolve_sizes D m cl opts =
     (case co_chunk_sizes opts of
        Some sizes \<Rightarrow>
          if length sizes \<noteq> length (cl_body cl) then Err (InvalidParam ''chunk_sizes length mismatch'')
          else if co_local_mode opts then and_then (clr_ensure_local D m (cl_body cl) (Some sizes)) (\<lambda>_. Ok sizes)
          else Ok sizes
      | None \<Rightarrow>
          if co_local_mode opts then clr_ensure_local D m (cl_body cl) None
          else (case clr_mix_sizes (dv_crates D) (cl_body cl) of
                  Some sizes \<Rightarrow> Ok sizes
                | None \<Rightarrow>
                    (case co_fixed_chunk_size opts of
                       Some f \<Rightarrow> clr_fixed_sizes cl f
                     | None \<Rightarrow> Err (Unsupported ''cannot resolve chunk sizes for seek''))))"

fun build_chunks_from :: "nat \<Rightarrow> (chunk_id \<times> nat) list \<Rightarrow> (chunk_meta list \<times> nat) ndn_result" where
  "build_chunks_from start [] = Ok ([], start)"
| "build_chunks_from start ((c, sz) # rest) =
     (case checked_add start sz of
        None \<Rightarrow> Err (InvalidData ''chunk list total size overflow'')
      | Some start' \<Rightarrow>
          and_then (build_chunks_from start' rest) (\<lambda>(ms, e). Ok (\<lparr>cm_chunk_id = c, cm_size = sz, cm_start = start\<rparr> # ms, e)))"

definition build_chunks :: "chunk_id list \<Rightarrow> nat list \<Rightarrow> (chunk_meta list \<times> nat) ndn_result" where
  "build_chunks ids sizes =
     (if length ids \<noteq> length sizes then Err (InvalidParam ''chunk count does not match chunk size count'')
      else build_chunks_from 0 (zip ids sizes))"

section \<open>Positions\<close>

definition clr_calc_seek_target :: "seek_from \<Rightarrow> chunk_list_reader \<Rightarrow> nat ndn_result" where
  "clr_calc_seek_target s r =
     (let target = (case s of SeekStart off \<Rightarrow> int off
                    | SeekCurrent delta \<Rightarrow> int (cr_position r) + delta
                    | SeekEnd delta \<Rightarrow> int (cr_total_size r) + delta)
      in if target < 0 \<or> target > int (cr_total_size r) then Err (OffsetTooLarge ''seek target out of range'')
         else Ok (nat target))"

function clr_bisect :: "chunk_meta list \<Rightarrow> nat \<Rightarrow> nat \<Rightarrow> nat \<Rightarrow> nat" where
  "clr_bisect chunks pos left right =
     (if left < right then
        let mid = left + (right - left) div 2;
            chunk = chunks ! mid
        in if sat_add (cm_start chunk) (cm_size chunk) \<le> pos then clr_bisect chunks pos (mid + 1) right
           else clr_bisect chunks pos left mid
      else left)"
  by pat_completeness auto
termination by (relation "measure (\<lambda>(chunks, pos, left, right). right - left)") auto

declare clr_bisect.simps [simp del]

definition clr_locate_position :: "nat \<Rightarrow> chunk_list_reader \<Rightarrow> (nat \<times> nat) option" where
  "clr_locate_position pos r =
     (let chunks = cr_chunks r
      in if pos \<ge> cr_total_size r \<or> chunks = [] then Some (length chunks, 0)
         else
           let index = clr_bisect chunks pos 0 (length chunks)
           in if index < length chunks then Some (index, pos - cm_start (chunks ! index)) else None)"

definition clr_apply_seek_target :: "nat \<Rightarrow> chunk_list_reader \<Rightarrow> chunk_list_reader option" where
  "clr_apply_seek_target pos r =
     map_option (\<lambda>(index, off). r\<lparr>cr_position := pos, cr_next_chunk_index := index, cr_next_chunk_offset := off,
         cr_active_chunk_index := None, cr_pending_seek := None, cr_current_reader := None,
         cr_loading_future := None, cr_loading_chunk_index := None\<rparr>)
       (clr_locate_position pos r)"

definition clr_start_seek :: "seek_from \<Rightarrow> chunk_list_reader \<Rightarrow> (io_error + unit) \<times> chunk_list_reader" where
  "clr_start_seek s r =
     (case clr_calc_seek_target s r of
        Inl e \<Rightarrow> (Inl (to_io_error e), r)
      | Inr target \<Rightarrow> (Inr (), r\<lparr>cr_pending_seek := Some target\<rparr>))"

definition clr_poll_complete :: "chunk_list_reader \<Rightarrow> (nat \<times> chunk_list_reader) option" where
  "clr_poll_complete r =
     map_option (\<lambda>r'. (cr_position r', r'))
       (case cr_pending_seek r of
          None \<Rightarrow> Some r
        | Some target \<Rightarrow> clr_apply_seek_target target (r\<lparr>cr_pending_seek := None\<rparr>))"

definition clr_with_options ::
  "('j, 'f) diff_env \<Rightarrow> 'f named_data_mgr \<Rightarrow> chunk_list \<Rightarrow> seek_from \<Rightarrow> clr_options \<Rightarrow> chunk_list_reader ndn_result option" where
  "clr_with_options D m cl seek opts =
     (case
        (and_then (clr_resolve_sizes D m cl opts) (\<lambda>sizes.
         if length sizes \<noteq> length (cl_body cl) then Err (InvalidParam ''chunk size count mismatch'')
         else
           and_then (build_chunks (cl_body cl) sizes) (\<lambda>(chunks, total_size).
           let r = \<lparr>cr_local_mode = co_local_mode opts, cr_open_chunk_reader = co_open_chunk_reader opts, cr_chunks = chunks,
                 cr_total_size = total_size, cr_position = 0, cr_next_chunk_index = 0, cr_next_chunk_offset = 0,
                 cr_active_chunk_index = None, cr_pending_seek = None, cr_loading_chunk_index = None,
                 cr_loading_future = None, cr_current_reader = None\<rparr>
           in and_then (clr_calc_seek_target seek r) (\<lambda>target. Ok (target, r))))) of
        Inl e \<Rightarrow> Some (Err e)
      | Inr (target, r) \<Rightarrow> map_option Ok (clr_apply_seek_target target r))"

definition clr_new ::
  "('j, 'f) diff_env \<Rightarrow> 'f named_data_mgr \<Rightarrow> chunk_list \<Rightarrow> seek_from \<Rightarrow> chunk_list_reader ndn_result option" where
  "clr_new D m cl seek = clr_with_options D m cl seek clr_options_default"

section \<open>Reading\<close>

definition load_chunk_reader ::
  "('j, 'f) diff_env \<Rightarrow> 'f named_data_mgr \<Rightarrow> chunk_id \<Rightarrow> nat \<Rightarrow> bool \<Rightarrow> open_chunk_reader option \<Rightarrow> io_error + u8 list" where
  "load_chunk_reader D m c off local_mode custom =
     (case ndm_open_chunk_reader (dv_crates D) (dv_backend D) (dv_hash D) (dv_host D) c (of_nat off) m of
        Inr (r, _) \<Rightarrow> Inr r
      | Inl open_err \<Rightarrow>
          if local_mode then Inl (to_io_error open_err)
          else (case custom of
                  None \<Rightarrow> Inl (to_io_error open_err)
                | Some f \<Rightarrow> (case f c off False of Inl e \<Rightarrow> Inl (to_io_error e) | Inr (r, _) \<Rightarrow> Inr r)))"

definition clr_start_loading :: "chunk_list_reader \<Rightarrow> io_error + chunk_list_reader" where
  "clr_start_loading r =
     (let i = cr_next_chunk_index r
      in if i \<ge> length (cr_chunks r) then Inr r
         else
           let chunk = cr_chunks r ! i
           in if cr_next_chunk_offset r > cm_size chunk then Inl (IoInvalidInput ''chunk offset exceeds chunk size'')
              else Inr (r\<lparr>cr_loading_chunk_index := Some i,
                          cr_loading_future := Some (cm_chunk_id chunk, cr_next_chunk_offset r)\<rparr>))"

definition clr_advance :: "chunk_list_reader \<Rightarrow> chunk_list_reader" where
  "clr_advance r =
     (case cr_active_chunk_index r of
        None \<Rightarrow> r\<lparr>cr_current_reader := None\<rparr>
      | Some i \<Rightarrow> r\<lparr>cr_active_chunk_index := None, cr_next_chunk_index := sat_add i 1, cr_next_chunk_offset := 0,
                     cr_current_reader := None\<rparr>)"

partial_function (option) clr_poll_loop ::
  "('j, 'f) diff_env \<Rightarrow> 'f named_data_mgr \<Rightarrow> nat \<Rightarrow> nat \<Rightarrow> chunk_list_reader \<Rightarrow> ((io_error + u8 list) \<times> chunk_list_reader) option" where
  "clr_poll_loop D m n grant r =
     (case cr_current_reader r of
        Some bs \<Rightarrow>
          (let got = take (min n grant) bs
           in if got \<noteq> [] then
                Some (Inr got, r\<lparr>cr_current_reader := Some (drop (length got) bs), cr_position := sat_add (cr_position r) (length got)\<rparr>)
              else clr_poll_loop D m n grant (clr_advance r))
      | None \<Rightarrow>
          (case cr_loading_future r of
             Some (c, off) \<Rightarrow>
               (case load_chunk_reader D m c off (cr_local_mode r) (cr_open_chunk_reader r) of
                  Inr reader \<Rightarrow>
                    (case cr_loading_chunk_index r of
                       None \<Rightarrow> Some (Inl (IoOther ''loading chunk index missing''), r)
                     | Some i \<Rightarrow>
                         clr_poll_loop D m n grant
                           (r\<lparr>cr_loading_chunk_index := None, cr_loading_future := None, cr_active_chunk_index := Some i,
                              cr_current_reader := Some reader\<rparr>))
                | Inl e \<Rightarrow> Some (Inl e, r\<lparr>cr_loading_future := None, cr_loading_chunk_index := None\<rparr>))
           | None \<Rightarrow>
               (if cr_position r \<ge> cr_total_size r \<or> cr_next_chunk_index r \<ge> length (cr_chunks r) then Some (Inr [], r)
                else
                  (case clr_start_loading r of
                     Inl e \<Rightarrow> Some (Inl e, r)
                   | Inr r' \<Rightarrow> clr_poll_loop D m n grant r'))))"

definition clr_poll_read ::
  "('j, 'f) diff_env \<Rightarrow> 'f named_data_mgr \<Rightarrow> nat \<Rightarrow> nat \<Rightarrow> chunk_list_reader \<Rightarrow> ((io_error + u8 list) \<times> chunk_list_reader) option" where
  "clr_poll_read D m n grant r =
     (if cr_pending_seek r \<noteq> None then Some (Inl (IoOther ''seek in progress, call poll_complete before read''), r)
      else if n = 0 then Some (Inr [], r)
      else clr_poll_loop D m n grant r)"

section \<open>Readers of the store manager\<close>

text \<open>\<open>load_named_obj\<close> at the type \<open>Vec<ChunkId>\<close>; \<open>A\<close> is the deserializer of an array of strings.\<close>

definition load_chunk_ids :: "'j ext_crates \<Rightarrow> ('j \<Rightarrow> string list option) \<Rightarrow> string \<Rightarrow> chunk_id list ndn_result" where
  "load_chunk_ids E A s =
     and_then (load_named_object_from_obj_str E s) (\<lambda>v.
       case A v of
         None \<Rightarrow> Err (DecodeError ''deserialize object from obj_data_str failed: '')
       | Some ss \<Rightarrow>
           (case collect_results (map (chunk_id_new E) ss) of
              Inl _ \<Rightarrow> Err (DecodeError ''deserialize object from obj_data_str failed: '')
            | Inr cs \<Rightarrow> Ok cs))"

datatype opened_reader = ChunkBytes "u8 list" | ListReader chunk_list_reader

definition open_chunklist_reader_by_obj_str ::
  "('j, 'f) diff_env \<Rightarrow> ('j \<Rightarrow> string list option) \<Rightarrow> 'f named_data_mgr \<Rightarrow> string \<Rightarrow> nat \<Rightarrow> (opened_reader \<times> u64) ndn_result option" where
  "open_chunklist_reader_by_obj_str D A m s off =
     (case and_then (load_chunk_ids (dv_crates D) A s) (from_chunk_list (dv_crates D)) of
        Inl e \<Rightarrow> Some (Err e)
      | Inr cl \<Rightarrow> map_option (\<lambda>res. and_then res (\<lambda>r. Ok (ListReader r, cl_total_size cl))) (clr_new D m cl (SeekStart off)))"

definition open_chunklist_reader ::
  "('j, 'f) diff_env \<Rightarrow> ('j \<Rightarrow> string list option) \<Rightarrow> 'f named_data_mgr \<Rightarrow> obj_id \<Rightarrow> nat \<Rightarrow> (opened_reader \<times> u64) ndn_result option" where
  "open_chunklist_reader D A m oid off =
     (if \<not> is_chunk_list oid then Some (Err (InvalidObjType (obj_id_to_string (dv_crates D) oid @ '' is not chunklist'')))
      else
        (case and_then (ndm_get_object (dv_crates D) (dv_hash D) oid m) (\<lambda>s.
              and_then (load_chunk_ids (dv_crates D) A s) (from_chunk_list (dv_crates D))) of
           Inl e \<Rightarrow> Some (Err e)
         | Inr cl \<Rightarrow> map_option (\<lambda>res. and_then res (\<lambda>r. Ok (ListReader r, cl_total_size cl))) (clr_new D m cl (SeekStart off))))"

definition chunk_bytes_reader ::
  "('j, 'f) diff_env \<Rightarrow> 'f named_data_mgr \<Rightarrow> obj_id \<Rightarrow> (opened_reader \<times> u64 \<times> obj_id) ndn_result" where
  "chunk_bytes_reader D m oid =
     and_then (ndm_open_chunk_reader (dv_crates D) (dv_backend D) (dv_hash D) (dv_host D) (chunk_from_obj_id oid) 0 m)
       (\<lambda>(bs, total_size). Ok (ChunkBytes bs, total_size, oid))"

definition with_resolved :: "obj_id \<Rightarrow> (opened_reader \<times> u64) ndn_result option \<Rightarrow> (opened_reader \<times> u64 \<times> obj_id) ndn_result option" where
  "with_resolved oid = map_option (\<lambda>res. and_then res (\<lambda>(r, total_size). Ok (r, total_size, oid)))"

text \<open>The branch of the loop for a path that is used up.\<close>

definition open_terminal ::
  "('j, 'f) diff_env \<Rightarrow> 'j value_crates \<Rightarrow> ('j \<Rightarrow> string list option) \<Rightarrow> 'f named_data_mgr \<Rightarrow> obj_id \<Rightarrow> string option
   \<Rightarrow> (opened_reader \<times> u64 \<times> obj_id) ndn_result option" where
  "open_terminal D J A m oid hint =
     (if is_chunk oid then Some (chunk_bytes_reader D m oid)
      else if is_chunk_list oid then
        with_resolved oid (case hint of
             Some s \<Rightarrow> open_chunklist_reader_by_obj_str D A m s 0
           | None \<Rightarrow> open_chunklist_reader D A m oid 0)
      else if is_file_object oid then
        (case and_then (case hint of Some s \<Rightarrow> Ok s | None \<Rightarrow> ndm_get_object (dv_crates D) (dv_hash D) oid m) (\<lambda>s.
              and_then (load_file_object (dv_crates D) J s) (\<lambda>f. obj_id_new (dv_crates D) (fo_content f))) of
           Inl e \<Rightarrow> Some (Err e)
         | Inr content_id \<Rightarrow>
             if is_chunk content_id then Some (chunk_bytes_reader D m content_id)
             else if is_chunk_list content_id then with_resolved content_id (open_chunklist_reader D A m content_id 0)
             else Some (Err (InvalidObjType ''file object content is not chunk or chunklist'')))
      else Some (Err (InvalidObjType (obj_id_to_string (dv_crates D) oid @ '' does not support open_reader''))))"

partial_function (option) open_reader_loop ::
  "('j, 'f) diff_env \<Rightarrow> 'j value_crates \<Rightarrow> ('j \<Rightarrow> string list option) \<Rightarrow> 'f named_data_mgr \<Rightarrow> obj_id \<Rightarrow> string option \<Rightarrow> string option \<Rightarrow>
   resolve_cache \<Rightarrow> ((opened_reader \<times> u64 \<times> obj_id) ndn_result \<times> resolve_cache) option" where
  "open_reader_loop D J A m oid path hint c =
     (case path of
        None \<Rightarrow> map_option (\<lambda>res. (res, c)) (open_terminal D J A m oid hint)
      | Some p \<Rightarrow>
          if is_chunk oid then
            Some (Err (InvalidParam (''chunk '' @ obj_id_to_string (dv_crates D) oid @ '' does not support inner path'')), c)
          else
            (case (case hint of Some s \<Rightarrow> Ok s | None \<Rightarrow> ndm_get_object (dv_crates D) (dv_hash D) oid m) of
               Inl e \<Rightarrow> Some (Err e, c)
             | Inr s \<Rightarrow>
                 Option.bind (resolve_next_obj (dv_crates D) J (\<lambda>i. ndm_get_object (dv_crates D) (dv_hash D) i m) oid s p [] c) (\<lambda>(res, c1).
                   case res of
                     Inl e \<Rightarrow> Some (Err e, c1)
                   | Inr (next, path', hint') \<Rightarrow> open_reader_loop D J A m next path' hint' c1)))"

definition open_reader_with_resolved ::
  "('j, 'f) diff_env \<Rightarrow> 'j value_crates \<Rightarrow> ('j \<Rightarrow> string list option) \<Rightarrow> 'f named_data_mgr \<Rightarrow> obj_id \<Rightarrow> string option \<Rightarrow>
   resolve_cache \<Rightarrow> ((opened_reader \<times> u64 \<times> obj_id) ndn_result \<times> resolve_cache) option" where
  "open_reader_with_resolved D J A m oid inner_path c = open_reader_loop D J A m oid (normalize_inner_path inner_path) None c"

definition ndm_open_reader ::
  "('j, 'f) diff_env \<Rightarrow> 'j value_crates \<Rightarrow> ('j \<Rightarrow> string list option) \<Rightarrow> 'f named_data_mgr \<Rightarrow> obj_id \<Rightarrow> string option \<Rightarrow>
   resolve_cache \<Rightarrow> ((opened_reader \<times> u64) ndn_result \<times> resolve_cache) option" where
  "ndm_open_reader D J A m oid inner_path c =
     map_option (\<lambda>(res, c1). (and_then res (\<lambda>(r, total_size, _). Ok (r, total_size)), c1))
       (open_reader_with_resolved D J A m oid inner_path c)"

end
