(* ===== verification/Chunk_List_Reader_Props.thy ===== *)
theory Chunk_List_Reader_Props
  imports Chunk_List_Reader Diff_Reader_Props
begin

text \<open>
  The reader of a chunk list is the reader of a diff chunk list whose diff is empty: every operation of the one is
  the operation of the other under the map \<open>as_diff\<close>.  With that, what is known about the stream of the
  diff reader holds for chunk lists, and reading a file object delivers the bytes of its chunks in order.
\<close>

section \<open>Simulation by the diff reader\<close>

definition as_merged :: "chunk_meta \<Rightarrow> merged_chunk_meta" where
  "as_merged c = \<lparr>mc_size = cm_size c, mc_start = cm_start c, mc_source = FromBase (cm_chunk_id c)\<rparr>"

definition as_diff :: "chunk_list_reader \<Rightarrow> diff_reader" where
  "as_diff r = \<lparr>dr_auto_cache = False, dr_local_mode = cr_local_mode r, dr_open_chunk_reader = cr_open_chunk_reader r,
     dr_diff_file_path = [], dr_diff_entries = [], dr_merged_chunks = map as_merged (cr_chunks r),
     dr_total_size = cr_total_size r, dr_position = cr_position r, dr_next_chunk_index = cr_next_chunk_index r,
     dr_next_chunk_offset = cr_next_chunk_offset r, dr_active_chunk_index = cr_active_chunk_index r,
     dr_pending_seek = cr_pending_seek r, dr_loading_chunk_index = cr_loading_chunk_index r,
     dr_loading_future = map_option (\<lambda>(c, off). (FromBase c, None, off)) (cr_loading_future r),
     dr_current_reader = cr_current_reader r\<rparr>"

lemma as_diff_sel [simp]:
  "dr_local_mode (as_diff r) = cr_local_mode r" "dr_open_chunk_reader (as_diff r) = cr_open_chunk_reader r" "dr_auto_cache (as_diff r) = False"
  "dr_merged_chunks (as_diff r) = map as_merged (cr_chunks r)" "dr_total_size (as_diff r) = cr_total_size r"
  "dr_position (as_diff r) = cr_position r" "dr_next_chunk_index (as_diff r) = cr_next_chunk_index r"
  "dr_next_chunk_offset (as_diff r) = cr_next_chunk_offset r" "dr_active_chunk_index (as_diff r) = cr_active_chunk_index r"
  "dr_pending_seek (as_diff r) = cr_pending_seek r" "dr_loading_chunk_index (as_diff r) = cr_loading_chunk_index r"
  "dr_loading_future (as_diff r) = map_option (\<lambda>(c, off). (FromBase c, None, off)) (cr_loading_future r)"
  "dr_current_reader (as_diff r) = cr_current_reader r" "dr_diff_entries (as_diff r) = []"
  by (simp_all add: as_diff_def)

lemma as_merged_sel [simp]: "mc_size (as_merged c) = cm_size c" "mc_start (as_merged c) = cm_start c"
  "mc_source (as_merged c) = FromBase (cm_chunk_id c)" "mc_size \<circ> as_merged = cm_size"
  by (simp_all add: as_merged_def fun_eq_iff)

lemma clr_bisect_sim: "right \<le> length chunks \<Longrightarrow> bisect (map as_merged chunks) pos left right = clr_bisect chunks pos left right"
proof (induction chunks pos left right rule: clr_bisect.induct)
  case (1 chunks pos left right)
  show ?case
  proof (cases "left < right")
    case True
    let ?mid = "left + (right - left) div 2"
    have "?mid < length chunks" using True 1(3) by auto
    with 1(1,2) [OF True refl refl] 1(3) True show ?thesis
      by (simp add: bisect.simps [of _ _ left] clr_bisect.simps [of _ _ left] Let_def)
  qed (simp add: bisect.simps clr_bisect.simps)
qed

lemma clr_locate_sim: "dr_locate_position pos (as_diff r) = clr_locate_position pos r"
  by (simp add: dr_locate_position_def clr_locate_position_def clr_bisect_sim Let_def)

lemma clr_seek_sim: "apply_seek_target p (as_diff r) = map_option as_diff (clr_apply_seek_target p r)"
  unfolding apply_seek_target_def clr_apply_seek_target_def clr_locate_sim
  by (cases "clr_locate_position p r") (auto simp: as_diff_def)

lemma clr_calc_sim: "calc_seek_target s (as_diff r) = clr_calc_seek_target s r"
  by (cases s) (simp_all add: calc_seek_target_def clr_calc_seek_target_def)

lemma clr_advance_sim: "advance_after_chunk_eof (as_diff r) = as_diff (clr_advance r)"
  by (simp add: advance_after_chunk_eof_def clr_advance_def as_diff_def split: option.split)

lemma clr_start_loading_sim:
  "start_loading_current_chunk (as_diff r) = Some (map_sum id as_diff (clr_start_loading r))"
  by (simp add: start_loading_current_chunk_def clr_start_loading_def Let_def) (simp add: as_diff_def as_merged_def)

lemma clr_load_sim:
  "run_loading D m dk (as_diff r) (FromBase c, None, off) = load_chunk_reader D m c off (cr_local_mode r) (cr_open_chunk_reader r)"
  by (simp add: run_loading_def load_chunk_reader_def open_store_chunk_reader_with_fallback_def and_then_def
      split: sum.split prod.split option.split)

lemma clr_update_sim:
  "(as_diff r)\<lparr>dr_current_reader := b, dr_position := p\<rparr> = as_diff (r\<lparr>cr_current_reader := b, cr_position := p\<rparr>)"
  "(as_diff r)\<lparr>dr_loading_chunk_index := None, dr_loading_future := None, dr_active_chunk_index := i, dr_current_reader := b\<rparr> =
     as_diff (r\<lparr>cr_loading_chunk_index := None, cr_loading_future := None, cr_active_chunk_index := i, cr_current_reader := b\<rparr>)"
  "(as_diff r)\<lparr>dr_loading_future := None, dr_loading_chunk_index := None\<rparr> = as_diff (r\<lparr>cr_loading_future := None, cr_loading_chunk_index := None\<rparr>)"
  by (simp_all add: as_diff_def)

lemma clr_poll_sim:
  assumes "poll_read_loop D m dk n g R = Some y" and "R = as_diff r"
  shows "\<exists>r'. clr_poll_loop D m n g r = Some (fst y, r') \<and> snd y = as_diff r'"
  using assms
proof (induction arbitrary: r rule: poll_read_loop.raw_induct [rotated, consumes 1, case_names step])
  case (step loop D m dk n g R y)
  note run = step(2)[unfolded step(3)] and IH = step(1)
  show ?case
  proof (cases "cr_current_reader r")
    case (Some bs)
    then show ?thesis
      using run IH [of D m dk n g "as_diff (clr_advance r)" y "clr_advance r"]
      by (subst clr_poll_loop.simps) (auto simp: Let_def clr_advance_sim clr_update_sim split: if_splits)
  next
    case none: None
    show ?thesis
    proof (cases "cr_loading_future r")
      case (Some fut)
      obtain c off where fut: "fut = (c, off)" by fastforce
      show ?thesis
      proof (cases "load_chunk_reader D m c off (cr_local_mode r) (cr_open_chunk_reader r)")
        case (Inl e)
        with run none Some fut show ?thesis
          by (subst clr_poll_loop.simps) (auto simp: clr_load_sim clr_update_sim)
      next
        case (Inr reader)
        let ?r = "\<lambda>i. r\<lparr>cr_loading_chunk_index := None, cr_loading_future := None, cr_active_chunk_index := Some i, cr_current_reader := Some reader\<rparr>"
        from Inr run none Some fut IH [of D m dk n g "as_diff (?r i)" y "?r i" for i] show ?thesis
          by (subst clr_poll_loop.simps) (auto simp: clr_load_sim clr_update_sim split: option.splits)
      qed
    next
      case None
      show ?thesis
      proof (cases "cr_position r \<ge> cr_total_size r \<or> cr_next_chunk_index r \<ge> length (cr_chunks r)")
        case True
        with run none None show ?thesis by (subst clr_poll_loop.simps) auto
      next
        case False
        show ?thesis
        proof (cases "clr_start_loading r")
          case (Inl e)
          with run none None False show ?thesis by (subst clr_poll_loop.simps) (auto simp: clr_start_loading_sim)
        next
          case (Inr r1)
          with run none None False IH [of D m dk n g "as_diff r1" y r1] show ?thesis
            by (subst clr_poll_loop.simps) (auto simp: clr_start_loading_sim)
        qed
      qed
    qed
  qed
qed

fun clr_reads ::
  "('j, 'f) diff_env \<Rightarrow> 'f named_data_mgr \<Rightarrow> (nat \<times> nat) list \<Rightarrow> chunk_list_reader \<Rightarrow> (u8 list \<times> chunk_list_reader) option" where
  "clr_reads D m [] r = Some ([], r)"
| "clr_reads D m ((n, g) # reqs) r =
     (case clr_poll_read D m n g r of
        Some (Inr got, r') \<Rightarrow> map_option (\<lambda>(rest, r''). (got @ rest, r'')) (clr_reads D m reqs r')
      | _ \<Rightarrow> None)"

lemma clr_reads_sim:
  "dr_reads D m dk reqs (as_diff r) = Some (out, R) \<Longrightarrow> \<exists>r'. clr_reads D m reqs r = Some (out, r')"
proof (induction reqs arbitrary: r out R)
  case (Cons x reqs)
  obtain n g where x: "x = (n, g)" by fastforce
  from Cons.prems x obtain got R1 rest where poll: "dr_poll_read D m dk n g (as_diff r) = Some (Inr got, R1)"
    and rest: "dr_reads D m dk reqs R1 = Some (rest, R)" and out: "out = got @ rest"
    by (auto split: option.splits prod.splits sum.splits)
  obtain r1 where r1: "clr_poll_read D m n g r = Some (Inr got, r1)" "R1 = as_diff r1"
    using poll clr_poll_sim [of D m dk n g "as_diff r" _ r] by (fastforce simp: dr_poll_read_def clr_poll_read_def split: if_splits)
  from Cons.IH rest [unfolded r1(2)] obtain r' where "clr_reads D m reqs r1 = Some (rest, r')" by blast
  with r1(1) x out show ?case by simp
qed simp

section \<open>The stream of a chunk list\<close>

lemma build_chunks_ok:
  assumes "length ids = length data" and "start + sum_list (map length data) < 2 ^ 64"
  shows "\<exists>ms. build_chunks_from start (zip ids (map length data)) = Ok (ms, start + sum_list (map length data)) \<and>
    map cm_chunk_id ms = ids \<and> map cm_size ms = map length data \<and>
    (\<forall>j < length ms. cm_start (ms ! j) = start + sum_list (take j (map cm_size ms)))"
  using assms
proof (induction ids data arbitrary: start rule: list_induct2')
  case (4 c ids d data)
  have e: "checked_add start (length d) = Some (start + length d)" using 4(3) by (simp add: checked_add_def)
  from 4(1) [of "start + length d"] 4(2,3) obtain ms where ms: "build_chunks_from (start + length d) (zip ids (map length data)) = Ok (ms, start + length d + sum_list (map length data))"
    "map cm_chunk_id ms = ids" "map cm_size ms = map length data"
    "\<forall>j < length ms. cm_start (ms ! j) = start + length d + sum_list (take j (map cm_size ms))" by auto
  let ?c = "\<lparr>cm_chunk_id = c, cm_size = length d, cm_start = start\<rparr>"
  have "build_chunks_from start (zip (c # ids) (map length (d # data))) = Ok (?c # ms, start + sum_list (map length (d # data)))"
    using ms(1) e by simp
  with ms(2-4) show ?case by (intro exI [of _ "?c # ms"]) (auto simp: nth_Cons' take_Cons')
qed simp_all

text \<open>The chunks of these identifiers are stored and deliver these bytes.\<close>

definition chunks_stored :: "('j, 'f) diff_env \<Rightarrow> 'f named_data_mgr \<Rightarrow> chunk_id list \<Rightarrow> u8 list list \<Rightarrow> bool" where
  "chunks_stored D m ids data \<longleftrightarrow> clr_mix_sizes (dv_crates D) ids = Some (map length data) \<and>
     (\<forall>i < length data. \<forall>off. off < length (data ! i) \<or> off = 0 \<longrightarrow>
        (\<exists>sz. ndm_open_chunk_reader (dv_crates D) (dv_backend D) (dv_hash D) (dv_host D) (ids ! i) (of_nat off) m = Ok (drop off (data ! i), sz)))"

lemma clr_mix_sizes_length: "clr_mix_sizes E ids = Some sizes \<Longrightarrow> length sizes = length ids"
  by (induction ids arbitrary: sizes) (auto split: option.splits)

lemma mix_sizes_sum: "clr_mix_sizes E ids = Some sizes \<Longrightarrow> sum_chunk_lengths E ids = Ok (of_nat (sum_list sizes))"
  by (induction ids arbitrary: sizes) (auto split: option.splits simp: and_then_def)

lemma chunk_list_stream:
  assumes st: "chunks_stored D m (cl_body cl) data" and fit: "length (concat data) < 2 ^ 64" and n: "length data < 2 ^ 64"
    and p: "p \<le> length (concat data)"
  obtains r where "clr_new D m cl (SeekStart p) = Some (Ok r)" "reader_ok (\<lambda>i. data ! i) (as_diff r)"
    "serves D m dk (\<lambda>i. data ! i) (as_diff r)" "cr_position r = p" "rd_content (\<lambda>i. data ! i) (as_diff r) = concat data"
proof -
  have mix: "clr_mix_sizes (dv_crates D) (cl_body cl) = Some (map length data)" using st by (simp add: chunks_stored_def)
  then have len: "length (cl_body cl) = length data" using clr_mix_sizes_length by fastforce
  have fit': "0 + sum_list (map length data) < 2 ^ 64" using fit by (simp add: length_concat)
  from build_chunks_ok [OF len fit'] obtain ms where ms: "build_chunks_from 0 (zip (cl_body cl) (map length data)) = Ok (ms, sum_list (map length data))"
    "map cm_chunk_id ms = cl_body cl" "map cm_size ms = map length data"
    "\<forall>j < length ms. cm_start (ms ! j) = sum_list (take j (map cm_size ms))" by auto
  let ?r = "\<lparr>cr_local_mode = False, cr_open_chunk_reader = None, cr_chunks = ms,
     cr_total_size = sum_list (map length data), cr_position = 0, cr_next_chunk_index = 0, cr_next_chunk_offset = 0,
     cr_active_chunk_index = None, cr_pending_seek = None, cr_loading_chunk_index = None,
     cr_loading_future = None, cr_current_reader = None\<rparr>"
  have lms: "length ms = length data" using ms(3) by (metis length_map)
  have "map mc_size (map as_merged ms) = map length data" using ms(3) by simp
  moreover have "laid_out (map as_merged ms)" using ms(3,4) fit' by (simp add: laid_out_def)
  ultimately have fx: "reader_fixed (as_diff ?r)" using n lms by (simp add: reader_fixed_def)
  have cm: "cm_chunk_id (ms ! j) = cl_body cl ! j" "cm_size (ms ! j) = length (data ! j)" if "j < length data" for j
    using ms(2,3) that lms by (metis nth_map)+
  have "run_loading D m dk (as_diff ?r) (FromBase (cl_body cl ! j), None, off) = Inr (drop off (data ! j))"
    if j: "j < length data" and off: "off < length (data ! j) \<or> off = 0" for j off
  proof -
    obtain sz where "ndm_open_chunk_reader (dv_crates D) (dv_backend D) (dv_hash D) (dv_host D) (cl_body cl ! j) (of_nat off) m = Ok (drop off (data ! j), sz)"
      using st j off unfolding chunks_stored_def by blast
    then show ?thesis unfolding clr_load_sim load_chunk_reader_def by simp
  qed
  then have sv: "serves D m dk (\<lambda>i. data ! i) (as_diff ?r)"
    using cm lms unfolding serves_def by (auto simp: entry_of_def)
  have "p \<le> dr_total_size (as_diff ?r)" using p by (simp add: length_concat)
  then obtain R where R: "apply_seek_target p (as_diff ?r) = Some R" "reader_ok (\<lambda>i. data ! i) R" "same_source (as_diff ?r) R" "dr_position R = p"
    by (rule seek_ok [OF fx])
  then obtain r where r: "clr_apply_seek_target p ?r = Some r" "R = as_diff r" unfolding clr_seek_sim by auto
  have "clr_calc_seek_target (SeekStart p) ?r = Ok p" using p by (simp add: clr_calc_seek_target_def length_concat)
  then have "clr_new D m cl (SeekStart p) = Some (Ok r)"
    using mix ms(1) r(1) len by (simp add: clr_new_def clr_with_options_def clr_resolve_sizes_def clr_options_default_def build_chunks_def)
  moreover have "serves D m dk (\<lambda>i. data ! i) (as_diff r)" using sv unfolding r(2) [symmetric] same_source_facts(1) [OF R(3)] .
  moreover have "rd_content (\<lambda>i. data ! i) (as_diff r) = concat data"
    unfolding r(2) [symmetric] same_source_facts(2) [OF R(3)] by (simp add: rd_content_def pieces_def lms map_nth)
  ultimately show thesis using that R(2,4) r(2) by simp
qed

lemma chunk_list_reads:
  assumes "chunks_stored D m (cl_body cl) data" and "length (concat data) < 2 ^ 64" and "length data < 2 ^ 64"
    and "p \<le> length (concat data)" and "\<forall>(n, g) \<in> set reqs. 0 < n \<and> 0 < g"
  shows "\<exists>r out r'. clr_new D m cl (SeekStart p) = Some (Ok r) \<and> clr_reads D m reqs r = Some (out, r') \<and>
    out = take (length out) (drop p (concat data)) \<and> (length (concat data) - p \<le> length reqs \<longrightarrow> out = drop p (concat data))"
proof -
  obtain r where r: "clr_new D m cl (SeekStart p) = Some (Ok r)" "reader_ok (\<lambda>i. data ! i) (as_diff r)"
    "serves D m demo_disk (\<lambda>i. data ! i) (as_diff r)" "cr_position r = p" "rd_content (\<lambda>i. data ! i) (as_diff r) = concat data"
    using chunk_list_stream [OF assms(1-4)] by metis
  from reads_ok [OF r(2,3) assms(5)] r(4) obtain out R where out: "dr_reads D m demo_disk reqs (as_diff r) = Some (out, R)"
    "out = take (length out) (drop p (concat data))" "length out < length reqs \<longrightarrow> out = drop p (concat data)"
    unfolding r(5) by auto
  from clr_reads_sim [OF out(1)] obtain r' where "clr_reads D m reqs r = Some (out, r')" by blast
  moreover have "out = drop p (concat data)" if "length (concat data) - p \<le> length reqs"
    by (rule all_read [OF out(2,3) that])
  ultimately show ?thesis using r(1) out(2) by blast
qed

lemma chunk_list_opens:
  assumes st: "chunks_stored D m ids data" and fit: "length (concat data) < 2 ^ 64" and n: "length data < 2 ^ 64"
    and reqs: "\<forall>(n, g) \<in> set reqs. 0 < n \<and> 0 < g"
    and lid: "is_chunk_list lid" "ndm_get_object (dv_crates D) (dv_hash D) lid m = Ok ls" "load_chunk_ids (dv_crates D) A ls = Ok ids"
  shows "\<exists>r out r'. open_chunklist_reader D A m lid 0 = Some (Ok (ListReader r, of_nat (length (concat data)))) \<and>
    clr_reads D m reqs r = Some (out, r') \<and> out = take (length out) (concat data) \<and>
    (length (concat data) \<le> length reqs \<longrightarrow> out = concat data)"
proof -
  let ?cl = "\<lparr>cl_total_size = of_nat (length (concat data)), cl_body = ids\<rparr>"
  have "sum_chunk_lengths (dv_crates D) ids = Ok (of_nat (length (concat data)))"
    using mix_sizes_sum [of "dv_crates D" ids "map length data"] st by (simp add: chunks_stored_def length_concat)
  then have cl: "from_chunk_list (dv_crates D) ids = Ok ?cl" by (simp add: from_chunk_list_def)
  from chunk_list_reads [of D m ?cl data 0 reqs] st fit n reqs obtain r out r' where
    r: "clr_new D m ?cl (SeekStart 0) = Some (Ok r)" "clr_reads D m reqs r = Some (out, r')"
      "out = take (length out) (concat data)" "length (concat data) \<le> length reqs \<longrightarrow> out = concat data" by auto
  have "open_chunklist_reader D A m lid 0 = Some (Ok (ListReader r, of_nat (length (concat data))))"
    unfolding open_chunklist_reader_def using lid cl r(1) by simp
  with r(2-4) show ?thesis by blast
qed

section \<open>Properties\<close>

text \<open>\<^bold>\<open>C10.\<close> Reading a file: when a file object is stored and its content is a chunk list whose chunks are stored, the
  reader that the manager opens for the file reports the sum of the sizes and delivers the bytes of the chunks in
  the order of the list, whatever the sizes of the buffers and of the short reads, until all of them are delivered.\<close>

theorem file_reader_delivers_chunks:
  assumes "is_file_object fid" and "ndm_get_object (dv_crates D) (dv_hash D) fid m = Ok s"
    and "load_file_object (dv_crates D) J s = Ok f" and "obj_id_new (dv_crates D) (fo_content f) = Ok lid"
    and "is_chunk_list lid" and "ndm_get_object (dv_crates D) (dv_hash D) lid m = Ok ls" and "load_chunk_ids (dv_crates D) A ls = Ok ids"
    and "chunks_stored D m ids data" and "length (concat data) < 2 ^ 64" and "length data < 2 ^ 64"
    and "\<forall>(n, g) \<in> set reqs. 0 < n \<and> 0 < g"
  shows "\<exists>r out r'. open_reader_with_resolved D J A m fid None c = Some (Ok (ListReader r, of_nat (length (concat data)), lid), c) \<and>
    clr_reads D m reqs r = Some (out, r') \<and> out = take (length out) (concat data) \<and>
    (length (concat data) \<le> length reqs \<longrightarrow> out = concat data)"
proof -
  from chunk_list_opens [OF assms(8-11,5-7)] obtain r out r' where
    r: "open_chunklist_reader D A m lid 0 = Some (Ok (ListReader r, of_nat (length (concat data))))"
      "clr_reads D m reqs r = Some (out, r')" "out = take (length out) (concat data)"
      "length (concat data) \<le> length reqs \<longrightarrow> out = concat data" by blast
  have kinds: "\<not> is_chunk fid" "\<not> is_chunk_list fid" "\<not> is_chunk lid"
    using assms(1,5) by (auto simp: is_file_object_def is_chunk_list_def is_chunk_def is_chunk_type_def OBJ_TYPE_FILE_def OBJ_TYPE_CHUNK_LIST_def)
  have "open_terminal D J A m fid None = Some (Ok (ListReader r, of_nat (length (concat data)), lid))"
    unfolding open_terminal_def using kinds assms(1-5) r(1) by (simp add: with_resolved_def)
  then have "open_reader_with_resolved D J A m fid None c = Some (Ok (ListReader r, of_nat (length (concat data)), lid), c)"
    unfolding open_reader_with_resolved_def by (subst open_reader_loop.simps) (simp add: normalize_inner_path_def)
  with r(2-4) show ?thesis by blast
qed

text \<open>A store with a file object, the chunk list that is its content, and the only chunk of that list.\<close>

definition demo_mix :: chunk_id where
  "demo_mix = from_mix_hash_result inst_crates 2 [1, 2] Mix256"

definition demo_file_id :: obj_id where
  "demo_file_id = \<lparr>obj_type = ''cyfile'', obj_hash = [3]\<rparr>"

definition demo_list_id :: obj_id where
  "demo_list_id = \<lparr>obj_type = ''clist'', obj_hash = [4]\<rparr>"

definition demo_file_store :: "lf_state named_store" where
  "demo_file_store = demo_store\<lparr>
     ns_db := set_chunk_item inst_crates ((chunk_item_new 5 demo_mix 2)\<lparr>ci_chunk_state := Completed\<rparr>)
       (empty_db\<lparr>objects := [present_row 5 (obj_id_to_string inst_crates demo_file_id) ''cyfile'' ''{f}'' 3 3,
                             present_row 5 (obj_id_to_string inst_crates demo_list_id) ''clist'' ''[c]'' 3 3]\<rparr>),
     ns_backend := empty_lf\<lparr>lf_files := [chunk_final_path inst_crates demo_lf demo_mix \<mapsto> [1, 2]]\<rparr>\<rparr>"

definition demo_file_mgr :: "lf_state named_data_mgr" where
  "demo_file_mgr = demo_mgr\<lparr>stores := [(''r'', demo_file_store)]\<rparr>"

definition demo_file_json :: "string value_crates" where
  "demo_file_json = \<lparr>dir_from_value = (\<lambda>_. None),
     file_from_value = (\<lambda>_. Some \<lparr>fo_content_obj = [], fo_size = 2, fo_content = obj_id_to_string inst_crates demo_list_id, fo_meta = []\<rparr>),
     get_by_json_path = (\<lambda>_ _. None)\<rparr>"

definition demo_ids :: "string \<Rightarrow> string list option" where
  "demo_ids _ = Some [chunk_to_string inst_crates demo_mix]"

lemma demo_file_objects:
  "ndm_get_object inst_crates (\<lambda>_. 0) demo_file_id demo_file_mgr = Ok ''{f}''"
  "ndm_get_object inst_crates (\<lambda>_. 0) demo_list_id demo_file_mgr = Ok ''[c]''"
  "and_then (load_file_object inst_crates demo_file_json ''{f}'') (\<lambda>f. obj_id_new inst_crates (fo_content f)) = Ok demo_list_id"
  "load_chunk_ids inst_crates demo_ids ''[c]'' = Ok [demo_mix]"
  by code_simp+

lemma demo_chunk_stored: "chunks_stored demo_denv demo_file_mgr [demo_mix] [[1, 2]]"
proof -
  have mix: "clr_mix_sizes inst_crates [demo_mix] = Some [2]" by code_simp
  have open0: "ndm_open_chunk_reader inst_crates (local_fs_ops inst_crates (\<lambda>_. []) demo_lf) (\<lambda>_. 0) (\<lambda>_. None) demo_mix 0 demo_file_mgr = Ok ([1, 2], 2)"
    by code_simp
  have open1: "ndm_open_chunk_reader inst_crates (local_fs_ops inst_crates (\<lambda>_. []) demo_lf) (\<lambda>_. 0) (\<lambda>_. None) demo_mix 1 demo_file_mgr = Ok ([2], 2)"
    by code_simp
  have "\<exists>sz. ndm_open_chunk_reader inst_crates (local_fs_ops inst_crates (\<lambda>_. []) demo_lf) (\<lambda>_. 0) (\<lambda>_. None) demo_mix (of_nat off) demo_file_mgr =
      Ok (drop off [1, 2], sz)" if "off < 2 \<or> off = 0" for off :: nat
  proof -
    from that consider "off = 0" | "off = 1" by linarith
    then show ?thesis by cases (use open0 open1 in auto)
  qed
  with mix open0 show ?thesis by (auto simp: chunks_stored_def demo_denv_def)
qed

theorem file_reader_delivers_chunks_witness:
  "\<exists>r r'. open_reader_with_resolved demo_denv demo_file_json demo_ids demo_file_mgr demo_file_id None (cache_new 10) =
      Some (Ok (ListReader r, 2, demo_list_id), cache_new 10) \<and>
    clr_reads demo_denv demo_file_mgr [(1, 1), (8, 8)] r = Some ([1, 2], r')"
proof -
  have env: "dv_crates demo_denv = inst_crates" "dv_hash demo_denv = (\<lambda>_. 0)" by (simp_all add: demo_denv_def)
  obtain f where f: "load_file_object inst_crates demo_file_json ''{f}'' = Ok f" "obj_id_new inst_crates (fo_content f) = Ok demo_list_id"
    using demo_file_objects(3) by (auto simp: and_then_def split: sum.splits)
  have kinds: "is_file_object demo_file_id" "is_chunk_list demo_list_id" by code_simp+
  from file_reader_delivers_chunks [of demo_file_id demo_denv demo_file_mgr "''{f}''" demo_file_json f demo_list_id "''[c]''" demo_ids
      "[demo_mix]" "[[1, 2]]" "[(1, 1), (8, 8)]" "cache_new 10"] show ?thesis
    using kinds demo_file_objects f demo_chunk_stored unfolding env by auto
qed

end
