(* ===== verification/Package_Id.thy ===== *)
theory Package_Id
  imports Ndn_Object
begin

unbundle bit_operations_syntax

text \<open>
  Package names with versions, \<open>package-lib/src/package_id.rs\<close>: version expressions, their integer form and
  order, package identifiers and their text.

  The crate \<open>semver\<close> is third-party code, the record \<open>S\<close>; \<open>semver_laws\<close> is what its documentation says of
  parsing and printing.  The type \<open>DID\<close> of the crate \<open>name_lib\<close> is a method and an identifier, its parser an argument.
\<close>

section \<open>Errors\<close>

datatype pkg_error =
    DownloadError string string
  | InstallError string string
  | PackageAlreadyInstalled string
  | PkgLoadError string string
  | PkgParseError string string
  | ExecuteError string string
  | ParserConfigError string
  | NetworkError string
  | VersionNotFoundError string
  | VersionError string
  | UpdateError string
  | PkgVerifyError string
  | FileNotFoundError string
  | UnknownError string
  | PkgIOError string
  | PkgJsonError string
  | SqlError string
  | AccessDeniedError string
  | LockError string

type_synonym 'a pkg_result = "pkg_error + 'a"

section \<open>The crate \<open>semver\<close>\<close>

datatype cmp_op = OpExact | OpGreater | OpGreaterEq | OpLess | OpLessEq | OpTilde | OpCaret | OpWildcard

record comparator =
  cp_op :: cmp_op
  cp_major :: u64
  cp_minor :: "u64 option"
  cp_patch :: "u64 option"
  cp_pre :: string

datatype ordering = IsLess | IsEqual | IsGreater

record ('v, 'r) semver =
  version_parse :: "string \<Rightarrow> 'v option"
  version_show :: "'v \<Rightarrow> string"
  version_cmp :: "'v \<Rightarrow> 'v \<Rightarrow> ordering"
  req_parse :: "string \<Rightarrow> 'r option"
  req_show :: "'r \<Rightarrow> string"
  req_comparators :: "'r \<Rightarrow> comparator list"
  req_matches :: "'r \<Rightarrow> 'v \<Rightarrow> bool"

text \<open>What is printed is not empty, can be parsed again and has neither a colon nor a hash sign; the text of a
  requirement begins with an operator or a star and is never a version.\<close>

definition semver_laws :: "('v, 'r) semver \<Rightarrow> bool" where
  "semver_laws S \<longleftrightarrow>
     (\<forall>v. version_parse S (version_show S v) = Some v \<and> version_show S v \<noteq> [] \<and> set (version_show S v) \<inter> {CHR '':'', CHR ''#''} = {}) \<and>
     (\<forall>r. req_parse S (req_show S r) = Some r \<and> version_parse S (req_show S r) = None \<and> req_show S r \<noteq> [] \<and>
        set (req_show S r) \<inter> {CHR '':'', CHR ''#''} = {})"

section \<open>Version expressions\<close>

datatype ('v, 'r) version_exp_type = VNone | VReq 'r | VVersion 'v

fun version_exp_type_to_string :: "('v, 'r) semver \<Rightarrow> ('v, 'r) version_exp_type \<Rightarrow> string" where
  "version_exp_type_to_string S (VReq r) = req_show S r"
| "version_exp_type_to_string S (VVersion v) = version_show S v"
| "version_exp_type_to_string S VNone = []"

definition version_exp_type_from_str :: "('v, 'r) semver \<Rightarrow> string \<Rightarrow> ('v, 'r) version_exp_type pkg_result" where
  "version_exp_type_from_str S s =
     (if s = [] then Ok VNone
      else (case version_parse S s of
              Some v \<Rightarrow> Ok (VVersion v)
            | None \<Rightarrow>
                (case req_parse S s of
                   Some r \<Rightarrow> Ok (VReq r)
                 | None \<Rightarrow> Err (PkgParseError s ''Invalid version expression''))))"

record ('v, 'r) version_exp =
  ve_tag :: "string option"
  ve_exp :: "('v, 'r) version_exp_type"

definition version_exp_default :: "('v, 'r) version_exp" where
  "version_exp_default = \<lparr>ve_tag = None, ve_exp = VNone\<rparr>"

definition version_exp_from_str :: "('v, 'r) semver \<Rightarrow> string \<Rightarrow> ('v, 'r) version_exp pkg_result" where
  "version_exp_from_str S s =
     (case str_split (CHR '':'') s of
        [p] \<Rightarrow> and_then (version_exp_type_from_str S p) (\<lambda>e. Ok \<lparr>ve_tag = None, ve_exp = e\<rparr>)
      | [p, tag] \<Rightarrow> and_then (version_exp_type_from_str S p) (\<lambda>e. Ok \<lparr>ve_tag = Some tag, ve_exp = e\<rparr>)
      | _ \<Rightarrow> Err (PkgParseError s ''Invalid version expression''))"

definition version_exp_to_string :: "('v, 'r) semver \<Rightarrow> ('v, 'r) version_exp \<Rightarrow> string" where
  "version_exp_to_string S e =
     (case ve_tag e of
        Some tag \<Rightarrow> version_exp_type_to_string S (ve_exp e) @ CHR '':'' # tag
      | None \<Rightarrow> version_exp_type_to_string S (ve_exp e))"

definition is_version :: "('v, 'r) version_exp \<Rightarrow> bool" where
  "is_version e = (case ve_exp e of VVersion _ \<Rightarrow> True | _ \<Rightarrow> False)"

section \<open>Versions as integers\<close>

definition is_digit :: "char \<Rightarrow> bool" where
  "is_digit c \<longleftrightarrow> 48 \<le> (of_char c :: nat) \<and> (of_char c :: nat) \<le> 57"

definition digits_value :: "string \<Rightarrow> nat" where
  "digits_value s = foldl (\<lambda>n c. 10 * n + (of_char c - 48)) 0 s"

text \<open>\<open>str::parse::<u64>\<close>: an optional plus sign and digits, the value within 64 bits.\<close>

definition parse_u64 :: "string \<Rightarrow> nat option" where
  "parse_u64 s =
     (let d = (case s of c # r \<Rightarrow> if c = CHR ''+'' then r else s | [] \<Rightarrow> s)
      in if d \<noteq> [] \<and> list_all is_digit d \<and> digits_value d < 2 ^ 64 then Some (digits_value d) else None)"

definition pack_version :: "u64 \<Rightarrow> u64 \<Rightarrow> u64 \<Rightarrow> u64 \<Rightarrow> u64" where
  "pack_version major minor patch build =
     push_bit 56 major OR push_bit 40 minor OR push_bit 24 patch OR build"

definition number_after :: "string \<Rightarrow> nat" where
  "number_after s = (case parse_u64 (dropWhile (\<lambda>c. \<not> is_digit c) s) of Some n \<Rightarrow> n | None \<Rightarrow> 0)"

definition comparator_to_int :: "comparator \<Rightarrow> u64 pkg_result" where
  "comparator_to_int c =
     Ok (pack_version (cp_major c) (case cp_minor c of Some n \<Rightarrow> n | None \<Rightarrow> 0) (case cp_patch c of Some n \<Rightarrow> n | None \<Rightarrow> 0)
           (of_nat (number_after (cp_pre c))))"

definition to_range_int :: "('v, 'r) semver \<Rightarrow> ('v, 'r) version_exp \<Rightarrow> (u64 \<times> u64) pkg_result" where
  "to_range_int S e =
     (let fail = Err (PkgParseError (version_exp_to_string S e) ''VersionExp can not be converted to range int'')
      in case ve_exp e of
           VReq r \<Rightarrow>
             (case req_comparators S r of
                [c] \<Rightarrow>
                  if cp_op c = OpGreater \<or> cp_op c = OpGreaterEq then
                    and_then (comparator_to_int c) (\<lambda>mn. Ok (mn, as_u64 (2 ^ 63 - 1)))
                  else if cp_op c = OpLess \<or> cp_op c = OpLessEq then
                    and_then (comparator_to_int c) (\<lambda>mx. Ok (as_u64 (- (2 ^ 63)), mx))
                  else fail
              | [c1, c2] \<Rightarrow>
                  and_then (comparator_to_int c1) (\<lambda>mn.
                  and_then (comparator_to_int c2) (\<lambda>mx. if mx < mn then Ok (mx, mn) else Ok (mn, mx)))
              | _ \<Rightarrow> fail)
         | _ \<Rightarrow> fail)"

text \<open>The fields of a version text and their bounds.\<close>

definition version_parts :: "string \<Rightarrow> string list" where
  "version_parts s =
     (let core = takeWhile (\<lambda>c. c \<noteq> CHR ''-'' \<and> c \<noteq> CHR ''+'') s;
          parts = str_split (CHR ''.'') core
      in if length parts = 3 \<and> core \<noteq> s then parts @ [drop (length core) s] else parts)"

definition field :: "nat \<Rightarrow> string list \<Rightarrow> nat" where
  "field i parts = (if i < length parts then (case parse_u64 (parts ! i) of Some n \<Rightarrow> n | None \<Rightarrow> 0) else 0)"

definition field_after :: "nat \<Rightarrow> string list \<Rightarrow> nat" where
  "field_after i parts = (if i < length parts then number_after (parts ! i) else 0)"

definition version_fields :: "string \<Rightarrow> (nat \<times> nat \<times> nat \<times> nat) pkg_result" where
  "version_fields s =
     (let core = takeWhile (\<lambda>c. c \<noteq> CHR ''-'' \<and> c \<noteq> CHR ''+'') s; parts = version_parts s
      in if length (str_split (CHR ''.'') core) < 1 \<or> length (str_split (CHR ''.'') core) > 4 then
           Err (VersionError ''invalid version format'')
         else if field_after 0 parts > 0xff then Err (VersionError ''major out of range'')
         else if field 1 parts > 0xffff then Err (VersionError ''minor out of range'')
         else if field 2 parts > 0xffff then Err (VersionError ''patch out of range'')
         else if field_after 3 parts > 0xffffff then Err (VersionError ''build out of range'')
         else Ok (field_after 0 parts, field 1 parts, field 2 parts, field_after 3 parts))"

definition version_to_int :: "string \<Rightarrow> u64 pkg_result" where
  "version_to_int s =
     and_then (version_fields s) (\<lambda>(a, b, c, d). Ok (pack_version (of_nat a) (of_nat b) (of_nat c) (of_nat d)))"

text \<open>Strings compare by their bytes.\<close>

fun str_cmp :: "string \<Rightarrow> string \<Rightarrow> ordering" where
  "str_cmp [] [] = IsEqual"
| "str_cmp [] (y # ys) = IsLess"
| "str_cmp (x # xs) [] = IsGreater"
| "str_cmp (x # xs) (y # ys) =
     (if (of_char x :: nat) < of_char y then IsLess else if (of_char y :: nat) < of_char x then IsGreater else str_cmp xs ys)"

definition word_cmp :: "u64 \<Rightarrow> u64 \<Rightarrow> ordering" where
  "word_cmp a b = (if a < b then IsLess else if a = b then IsEqual else IsGreater)"

definition compare_versions :: "('v, 'r) semver \<Rightarrow> string \<Rightarrow> string \<Rightarrow> ordering" where
  "compare_versions S v1 v2 =
     (case (version_parse S v1, version_parse S v2) of
        (Some a, Some b) \<Rightarrow> version_cmp S a b
      | _ \<Rightarrow>
          (case (version_to_int v1, version_to_int v2) of
             (Inr a, Inr b) \<Rightarrow> word_cmp a b
           | _ \<Rightarrow> str_cmp v1 v2))"

section \<open>Package identifiers\<close>

record ('v, 'r) package_id =
  pk_name :: string
  pk_version_exp :: "('v, 'r) version_exp option"
  pk_objid :: "string option"

definition package_id_to_string :: "('v, 'r) semver \<Rightarrow> ('v, 'r) package_id \<Rightarrow> string" where
  "package_id_to_string S p =
     pk_name p @ (case pk_version_exp p of Some e \<Rightarrow> CHR ''#'' # version_exp_to_string S e | None \<Rightarrow> [])
     @ (case pk_objid p of Some o' \<Rightarrow> CHR ''#'' # o' | None \<Rightarrow> [])"

definition is_alnum :: "char \<Rightarrow> bool" where
  "is_alnum c \<longleftrightarrow> is_digit c \<or> (let n = (of_char c :: nat) in (65 \<le> n \<and> n \<le> 90) \<or> (97 \<le> n \<and> n \<le> 122))"

definition exact_part :: "'j ext_crates \<Rightarrow> string \<Rightarrow> bool" where
  "exact_part E s \<longleftrightarrow> (case obj_id_new E s of Inr _ \<Rightarrow> True | Inl _ \<Rightarrow> False) \<or> (s \<noteq> [] \<and> list_all is_alnum s)"

definition package_id_parse :: "('v, 'r) semver \<Rightarrow> 'j ext_crates \<Rightarrow> string \<Rightarrow> ('v, 'r) package_id pkg_result" where
  "package_id_parse S E s =
     (case str_split (CHR ''#'') s of
        [name] \<Rightarrow> Ok \<lparr>pk_name = name, pk_version_exp = None, pk_objid = None\<rparr>
      | [name, part] \<Rightarrow>
          if exact_part E part then Ok \<lparr>pk_name = name, pk_version_exp = None, pk_objid = Some part\<rparr>
          else and_then (version_exp_from_str S part)
                 (\<lambda>e. Ok \<lparr>pk_name = name, pk_version_exp = Some e, pk_objid = None\<rparr>)
      | [name, part, objid] \<Rightarrow>
          and_then (version_exp_from_str S part)
            (\<lambda>e. Ok \<lparr>pk_name = name, pk_version_exp = Some e, pk_objid = Some objid\<rparr>)
      | _ \<Rightarrow> Err (PkgParseError s ''Invalid package id''))"

definition get_author_from_unique_name :: "string \<Rightarrow> string option" where
  "get_author_from_unique_name n =
     (if CHR ''-'' \<in> set n then Some (takeWhile (\<lambda>c. c \<noteq> CHR ''-'') n) else None)"

definition get_unique_name :: "('v, 'r) package_id \<Rightarrow> string" where
  "get_unique_name p =
     (if CHR ''.'' \<in> set (pk_name p) then drop 1 (dropWhile (\<lambda>c. c \<noteq> CHR ''.'') (pk_name p)) else pk_name p)"

record did =
  did_method :: string
  did_id :: string

text \<open>\<open>unwrap\<close> of a text that is not a DID panics (\<open>None\<close>).\<close>

definition unique_name_to_did :: "(string \<Rightarrow> did option) \<Rightarrow> string \<Rightarrow> did option" where
  "unique_name_to_did parse n =
     (case str_split (CHR ''_'') n of
        [a, b] \<Rightarrow> parse (''did:bns:'' @ b @ CHR ''.'' # a)
      | _ \<Rightarrow> parse (''did:bns:'' @ n))"

definition to_did :: "(string \<Rightarrow> did option) \<Rightarrow> ('v, 'r) package_id \<Rightarrow> did option" where
  "to_did parse p = unique_name_to_did parse (get_unique_name p)"

definition from_did :: "did \<Rightarrow> ('v, 'r) package_id pkg_result" where
  "from_did d =
     (if did_method d \<noteq> ''bns'' then Err (PkgParseError (did_id d) ''Invalid did method'')
      else Ok \<lparr>pk_name = (case str_split (CHR ''.'') (did_id d) of [m, a] \<Rightarrow> a @ CHR ''_'' # m | _ \<Rightarrow> did_id d),
               pk_version_exp = None, pk_objid = None\<rparr>)"

definition get_pkg_id_unique_name :: "('v, 'r) semver \<Rightarrow> 'j ext_crates \<Rightarrow> string \<Rightarrow> string" where
  "get_pkg_id_unique_name S E s =
     (case package_id_parse S E s of Inl _ \<Rightarrow> s | Inr p \<Rightarrow> get_unique_name p)"

definition get_pkgid_with_objid ::
  "('v, 'r) semver \<Rightarrow> 'j ext_crates \<Rightarrow> string \<Rightarrow> obj_id option \<Rightarrow> string pkg_result" where
  "get_pkgid_with_objid S E s oid =
     (case oid of
        None \<Rightarrow>
          (case package_id_parse S E s of
             Inr p \<Rightarrow> Ok (package_id_to_string S (p\<lparr>pk_version_exp := None\<rparr>))
           | Inl _ \<Rightarrow> Ok s)
      | Some o' \<Rightarrow>
          let normalized = obj_id_to_string E o'
          in case package_id_parse S E s of
               Inr p \<Rightarrow>
                 if (case pk_objid p of
                       Some existing \<Rightarrow> \<not> (case obj_id_new E existing of Inr x \<Rightarrow> x = o' | Inl _ \<Rightarrow> existing = normalized)
                     | None \<Rightarrow> False)
                 then Err (PkgParseError s ''pkg obj id mismatch'')
                 else Ok (package_id_to_string S (p\<lparr>pk_version_exp := None, pk_objid := Some normalized\<rparr>))
             | Inl _ \<Rightarrow> if s = [] then Ok (CHR ''#'' # normalized) else Ok (s @ CHR ''#'' # normalized))"

end
