(* ===== verification/Package_Index.thy ===== *)
theory Package_Index
  imports Package_Id "HOL-Library.AList"
begin

text \<open>
  The index of package metadata, \<open>package-lib/src/meta_index_db.rs\<close> and \<open>meta.rs\<close>: three SQLite tables as lists of
  rows, the queries by version, by requirement and by object identifier, and the collection of the
  dependencies of a package.

  Parsing a metadata document (crates \<open>name_lib\<close> and \<open>serde_json\<close>) is the argument \<open>ix_meta_parse\<close>; the dependencies of a
  package are listed in the order in which its hash map is traversed.  \<open>unwrap\<close> of an error panics (\<open>None\<close>).
  Errors of SQLite other than a violated key and a missing row are not modelled.
\<close>

section \<open>Tables\<close>

record pkg_meta_row =
  pm_metaobjid :: string
  pm_pkg_meta :: string
  pm_author :: string
  pm_author_pk :: string
  pm_update_time :: int

record pkg_version_row =
  pv_pkg_name :: string
  pv_author :: string
  pv_version :: string
  pv_version_int :: int
  pv_metaobjid :: string
  pv_tag :: "string option"
  pv_update_time :: int

record author_row =
  au_name :: string
  au_owner_config :: "string option"
  au_zone_config :: "string option"

record meta_index_db =
  mi_metas :: "pkg_meta_row list"
  mi_versions :: "pkg_version_row list"
  mi_authors :: "author_row list"

definition meta_index_new :: meta_index_db where
  "meta_index_new = \<lparr>mi_metas = [], mi_versions = [], mi_authors = []\<rparr>"

record package_meta =
  pmeta_name :: string
  pmeta_version :: string
  pmeta_version_tag :: "string option"
  pmeta_deps :: "(string \<times> string) list"

record pkg_meta_node =
  nd_meta_jwt :: string
  nd_pkg_name :: string
  nd_version :: string
  nd_tag :: "string option"
  nd_author :: string
  nd_author_pk :: string

record ('v, 'r, 'j) index_env =
  ix_semver :: "('v, 'r) semver"
  ix_crates :: "'j ext_crates"
  ix_meta_parse :: "string \<Rightarrow> package_meta option"

definition meta_from_str :: "('v, 'r, 'j) index_env \<Rightarrow> string \<Rightarrow> package_meta pkg_result" where
  "meta_from_str X s = ok_or (ix_meta_parse X s) (PkgParseError s ''parse pkg meta failed'')"

definition get_package_id :: "('v, 'r, 'j) index_env \<Rightarrow> package_meta \<Rightarrow> ('v, 'r) package_id option" where
  "get_package_id X pm =
     res_ok (package_id_parse (ix_semver X) (ix_crates X)
       (pmeta_name pm @ CHR ''#'' # pmeta_version pm
        @ (case pmeta_version_tag pm of Some t \<Rightarrow> CHR '':'' # t | None \<Rightarrow> [])))"

section \<open>Queries\<close>

text \<open>A condition that is added to a query only when an argument is given.\<close>

definition opt_is :: "'a option \<Rightarrow> ('a \<Rightarrow> bool) \<Rightarrow> bool" where
  "opt_is x p = (case x of None \<Rightarrow> True | Some a \<Rightarrow> p a)"

definition meta_row :: "string \<Rightarrow> meta_index_db \<Rightarrow> pkg_meta_row option" where
  "meta_row key db = find (\<lambda>r. pm_metaobjid r = key) (mi_metas db)"

definition metaobjid_candidates :: "'j ext_crates \<Rightarrow> string \<Rightarrow> string list" where
  "metaobjid_candidates E s =
     (case obj_id_new E s of
        Inl _ \<Rightarrow> [s]
      | Inr oid \<Rightarrow>
          let hx = obj_id_to_string E oid;
              c1 = (if hx \<in> set [s] then [s] else [s] @ [hx]);
              b32 = obj_id_to_base32 E oid
          in if b32 \<in> set c1 then c1 else c1 @ [b32])"

definition pkg_meta_matches_package_id :: "('v, 'r, 'j) index_env \<Rightarrow> ('v, 'r) package_id \<Rightarrow> package_meta \<Rightarrow> bool" where
  "pkg_meta_matches_package_id X p pm =
     (if pmeta_name pm \<noteq> pk_name p then False
      else
        (case pk_version_exp p of
           None \<Rightarrow> True
         | Some e \<Rightarrow>
             if (case ve_tag e of Some t \<Rightarrow> pmeta_version_tag pm \<noteq> Some t | None \<Rightarrow> False) then False
             else
               (case ve_exp e of
                  VNone \<Rightarrow> True
                | VVersion v \<Rightarrow> compare_versions (ix_semver X) (pmeta_version pm) (version_show (ix_semver X) v) = IsEqual
                | VReq r \<Rightarrow>
                    (case version_parse (ix_semver X) (pmeta_version pm) of
                       Some v \<Rightarrow> req_matches (ix_semver X) r v
                     | None \<Rightarrow> False))))"

fun first_candidate ::
  "('v, 'r, 'j) index_env \<Rightarrow> ('v, 'r) package_id \<Rightarrow> meta_index_db \<Rightarrow> string list \<Rightarrow> (string \<times> package_meta) option pkg_result" where
  "first_candidate X p db [] = Ok None"
| "first_candidate X p db (c # cs) =
     (case meta_row c db of
        None \<Rightarrow> first_candidate X p db cs
      | Some row \<Rightarrow>
          and_then (meta_from_str X (pm_pkg_meta row)) (\<lambda>pm.
            if \<not> pkg_meta_matches_package_id X p pm then Ok None else Ok (Some (c, pm))))"

definition get_pkg_meta_by_objid ::
  "('v, 'r, 'j) index_env \<Rightarrow> meta_index_db \<Rightarrow> ('v, 'r) package_id \<Rightarrow> string \<Rightarrow> (string \<times> package_meta) option pkg_result" where
  "get_pkg_meta_by_objid X db p objid = first_candidate X p db (metaobjid_candidates (ix_crates X) objid)"

definition get_pkg_meta_by_version ::
  "('v, 'r, 'j) index_env \<Rightarrow> meta_index_db \<Rightarrow> string \<Rightarrow> string option \<Rightarrow> 'v \<Rightarrow> string option
   \<Rightarrow> (string \<times> package_meta) option pkg_result" where
  "get_pkg_meta_by_version X db name author v tag =
     (case find (\<lambda>r. pv_pkg_name r = name \<and> pv_version r = version_show (ix_semver X) v \<and>
              opt_is author (\<lambda>a. pv_author r = a) \<and> opt_is tag (\<lambda>t. pv_tag r = Some t) \<and>
              meta_row (pv_metaobjid r) db \<noteq> None) (mi_versions db) of
        None \<Rightarrow> Ok None
      | Some r \<Rightarrow>
          (case meta_row (pv_metaobjid r) db of
             None \<Rightarrow> Ok None
           | Some row \<Rightarrow>
               (case ix_meta_parse X (pm_pkg_meta row) of
                  None \<Rightarrow> Err (SqlError ''Invalid column type'')
                | Some pm \<Rightarrow> Ok (Some (pv_metaobjid r, pm)))))"

text \<open>Rows in descending order of \<open>version_int\<close>; rows with the same number keep their order.\<close>

definition get_versions_in_range :: "meta_index_db \<Rightarrow> string \<Rightarrow> u64 \<Rightarrow> u64 \<Rightarrow> string option \<Rightarrow> pkg_version_row list" where
  "get_versions_in_range db name mn mx tag =
     sort_key (\<lambda>r. - pv_version_int r)
       (filter (\<lambda>r. pv_pkg_name r = name \<and> as_i64 mn \<le> pv_version_int r \<and> pv_version_int r \<le> as_i64 mx \<and>
                    opt_is tag (\<lambda>t. pv_tag r = Some t)) (mi_versions db))"

definition get_all_versions :: "meta_index_db \<Rightarrow> string \<Rightarrow> string option \<Rightarrow> string option \<Rightarrow> pkg_version_row list" where
  "get_all_versions db name author tag =
     sort_key (\<lambda>r. - pv_version_int r)
       (filter (\<lambda>r. pv_pkg_name r = name \<and> opt_is author (\<lambda>a. pv_author r = a) \<and>
                    opt_is tag (\<lambda>t. pv_tag r = Some t)) (mi_versions db))"

definition later_row :: "('v, 'r, 'j) index_env \<Rightarrow> 'r \<Rightarrow> pkg_version_row option \<Rightarrow> pkg_version_row \<Rightarrow> pkg_version_row option" where
  "later_row X req best r =
     (case version_parse (ix_semver X) (pv_version r) of
        None \<Rightarrow> best
      | Some v \<Rightarrow>
          if req_matches (ix_semver X) req v then
            (case best of
               None \<Rightarrow> Some r
             | Some b \<Rightarrow> if compare_versions (ix_semver X) (pv_version r) (pv_version b) = IsGreater then Some r else best)
          else best)"

definition candidate_rows ::
  "('v, 'r, 'j) index_env \<Rightarrow> meta_index_db \<Rightarrow> string \<Rightarrow> string option \<Rightarrow> 'r \<Rightarrow> string option \<Rightarrow> pkg_version_row list" where
  "candidate_rows X db name author req tag =
     (case to_range_int (ix_semver X) \<lparr>ve_tag = None, ve_exp = VReq req\<rparr> of
        Inr (mn, mx) \<Rightarrow> get_versions_in_range db name mn mx tag
      | Inl _ \<Rightarrow> get_all_versions db name author tag)"

definition get_pkg_meta_by_version_expr ::
  "('v, 'r, 'j) index_env \<Rightarrow> meta_index_db \<Rightarrow> string \<Rightarrow> string option \<Rightarrow> 'r \<Rightarrow> string option
   \<Rightarrow> (string \<times> package_meta) option pkg_result" where
  "get_pkg_meta_by_version_expr X db name author req tag =
     (case foldl (later_row X req) None (candidate_rows X db name author req tag) of
        None \<Rightarrow> Ok None
      | Some r \<Rightarrow>
          (case meta_row (pv_metaobjid r) db of
             None \<Rightarrow> Err (SqlError ''Query returned no rows'')
           | Some row \<Rightarrow> and_then (meta_from_str X (pm_pkg_meta row)) (\<lambda>pm. Ok (Some (pv_metaobjid r, pm)))))"

definition get_pkg_meta ::
  "('v, 'r, 'j) index_env \<Rightarrow> meta_index_db \<Rightarrow> string \<Rightarrow> (string \<times> package_meta) option pkg_result option" where
  "get_pkg_meta X db s =
     (case package_id_parse (ix_semver X) (ix_crates X) s of
        Inl e \<Rightarrow> Some (Err e)
      | Inr p \<Rightarrow>
          (case pk_objid p of
             Some objid \<Rightarrow> Some (get_pkg_meta_by_objid X db p objid)
           | None \<Rightarrow>
               let e = (case pk_version_exp p of Some e \<Rightarrow> e | None \<Rightarrow> version_exp_default)
               in case ve_exp e of
                    VVersion v \<Rightarrow> Some (get_pkg_meta_by_version X db (pk_name p) None v (ve_tag e))
                  | VReq r \<Rightarrow> Some (get_pkg_meta_by_version_expr X db (pk_name p) None r (ve_tag e))
                  | VNone \<Rightarrow>
                      map_option (\<lambda>r. get_pkg_meta_by_version_expr X db (pk_name p) None r (ve_tag e))
                        (req_parse (ix_semver X) ''*'')))"

definition is_latest_version :: "('v, 'r, 'j) index_env \<Rightarrow> meta_index_db \<Rightarrow> ('v, 'r) package_id \<Rightarrow> bool pkg_result option" where
  "is_latest_version X db p =
     (case get_pkg_meta X db (pk_name p @ ''#*:latest'') of
        None \<Rightarrow> None
      | Some (Inl e) \<Rightarrow> Some (Err e)
      | Some (Inr (Some (_, pm))) \<Rightarrow> map_option (\<lambda>q. Ok (p = q)) (get_package_id X pm)
      | Some (Inr None) \<Rightarrow>
          (case get_pkg_meta X db (pk_name p @ ''#*'') of
             None \<Rightarrow> None
           | Some (Inl e) \<Rightarrow> Some (Err e)
           | Some (Inr (Some (_, pm))) \<Rightarrow> map_option (\<lambda>q. Ok (p = q)) (get_package_id X pm)
           | Some (Inr None) \<Rightarrow> Some (Ok False)))"

definition list_all_pkg_versions :: "meta_index_db \<Rightarrow> string \<Rightarrow> (string \<times> string \<times> string option) list" where
  "list_all_pkg_versions db name =
     map (\<lambda>r. (pv_version r, pv_metaobjid r, pv_tag r))
       (sort_key (\<lambda>r. - pv_update_time r) (filter (\<lambda>r. pv_pkg_name r = name) (mi_versions db)))"

definition get_author_info :: "meta_index_db \<Rightarrow> string \<Rightarrow> (string \<times> string option \<times> string option) option" where
  "get_author_info db name =
     map_option (\<lambda>r. (au_name r, au_owner_config r, au_zone_config r)) (find (\<lambda>r. au_name r = name) (mi_authors db))"

section \<open>Updates\<close>

definition version_key :: "pkg_version_row \<Rightarrow> string \<times> string" where
  "version_key r = (pv_pkg_name r, pv_version r)"

definition add_pkg_meta :: "int \<Rightarrow> string \<Rightarrow> string \<Rightarrow> string \<Rightarrow> string option \<Rightarrow> meta_index_db \<Rightarrow> meta_index_db" where
  "add_pkg_meta now objid meta author author_pk db =
     db\<lparr>mi_metas := insert_or_replace pm_metaobjid
          \<lparr>pm_metaobjid = objid, pm_pkg_meta = meta, pm_author = author,
           pm_author_pk = (case author_pk of Some k \<Rightarrow> k | None \<Rightarrow> []), pm_update_time = now\<rparr> (mi_metas db)\<rparr>"

text \<open>The update or insertion of a row of \<open>pkg_versions\<close>; the key is the name and the version, without the author.\<close>

definition write_version ::
  "int \<Rightarrow> string \<Rightarrow> string \<Rightarrow> string \<Rightarrow> u64 \<Rightarrow> string \<Rightarrow> string option \<Rightarrow> meta_index_db \<Rightarrow> meta_index_db pkg_result" where
  "write_version now name author version vint objid tag db =
     (let same = (\<lambda>r. pv_pkg_name r = name \<and> pv_author r = author \<and> pv_version r = version)
      in if \<exists>r \<in> set (mi_versions db). same r then
           Ok (db\<lparr>mi_versions := sql_update same (\<lambda>r. r\<lparr>pv_metaobjid := objid, pv_tag := tag, pv_update_time := now\<rparr>) (mi_versions db)\<rparr>)
         else if (name, version) \<in> version_key ` set (mi_versions db) then Err (SqlError ''UNIQUE constraint failed'')
         else Ok (db\<lparr>mi_versions := mi_versions db @ [\<lparr>pv_pkg_name = name, pv_author = author, pv_version = version,
                 pv_version_int = as_i64 vint, pv_metaobjid = objid, pv_tag = tag, pv_update_time = now\<rparr>]\<rparr>))"

definition set_pkg_version ::
  "('v, 'r) semver \<Rightarrow> int \<Rightarrow> string \<Rightarrow> string \<Rightarrow> string \<Rightarrow> string \<Rightarrow> string option \<Rightarrow> meta_index_db \<Rightarrow> meta_index_db pkg_result" where
  "set_pkg_version S now name author version objid tag db =
     and_then (version_exp_from_str S version) (\<lambda>e.
       if \<not> is_version e then Err (PkgParseError version ''VersionExp is not a version'')
       else and_then (version_to_int version) (\<lambda>vint. write_version now name author version vint objid tag db))"

text \<open>A transaction: an error leaves the tables as they were, since only the result of a success is kept.\<close>

fun add_nodes :: "int \<Rightarrow> (string \<times> pkg_meta_node) list \<Rightarrow> meta_index_db \<Rightarrow> meta_index_db pkg_result" where
  "add_nodes now [] db = Ok db"
| "add_nodes now ((objid, nd) # rest) db =
     (let db1 = db\<lparr>mi_metas := insert_or_replace pm_metaobjid
            \<lparr>pm_metaobjid = objid, pm_pkg_meta = nd_meta_jwt nd, pm_author = nd_author nd,
             pm_author_pk = nd_author_pk nd, pm_update_time = now\<rparr> (mi_metas db)\<rparr>
      in and_then (version_to_int (nd_version nd)) (\<lambda>vint.
         and_then (write_version now (nd_pkg_name nd) (nd_author nd) (nd_version nd) vint objid (nd_tag nd) db1)
           (add_nodes now rest)))"

definition add_pkg_meta_batch :: "int \<Rightarrow> (string \<times> pkg_meta_node) list \<Rightarrow> meta_index_db \<Rightarrow> unit pkg_result \<times> meta_index_db" where
  "add_pkg_meta_batch now nodes db = (case add_nodes now nodes db of Inl e \<Rightarrow> (Err e, db) | Inr db' \<Rightarrow> (Ok (), db'))"

definition set_author_info :: "string \<Rightarrow> string option \<Rightarrow> string option \<Rightarrow> meta_index_db \<Rightarrow> meta_index_db" where
  "set_author_info name owner zone db =
     db\<lparr>mi_authors := insert_on_conflict au_name (\<lambda>r. r\<lparr>au_owner_config := owner, au_zone_config := zone\<rparr>)
          \<lparr>au_name = name, au_owner_config = owner, au_zone_config = zone\<rparr> (mi_authors db)\<rparr>"

definition merge_meta_index_db :: "meta_index_db \<Rightarrow> meta_index_db \<Rightarrow> meta_index_db" where
  "merge_meta_index_db other db =
     \<lparr>mi_metas = fold (insert_or_replace pm_metaobjid) (mi_metas other) (mi_metas db),
      mi_versions = fold (insert_or_replace version_key) (mi_versions other) (mi_versions db),
      mi_authors = fold (insert_or_replace au_name) (mi_authors other) (mi_authors db)\<rparr>"

section \<open>Dependencies\<close>

text \<open>Everything that a query can return is parsed from a row of \<open>pkg_metas\<close>.\<close>

definition stored_metas :: "('v, 'r, 'j) index_env \<Rightarrow> meta_index_db \<Rightarrow> package_meta set" where
  "stored_metas X db = {pm. \<exists>row \<in> set (mi_metas db). ix_meta_parse X (pm_pkg_meta row) = Some pm}"

definition meta_at :: "('v, 'r, 'j) index_env \<Rightarrow> meta_index_db \<Rightarrow> string \<Rightarrow> package_meta option" where
  "meta_at X db key = Option.bind (meta_row key db) (\<lambda>row. ix_meta_parse X (pm_pkg_meta row))"

lemma first_candidate_meta: "first_candidate X p db cs = Ok (Some (c, pm)) \<Longrightarrow> meta_at X db c = Some pm"
  by (induction cs) (auto simp: meta_at_def meta_from_str_def ok_or_def and_then_def split: option.splits if_splits)

lemma by_version_meta: "get_pkg_meta_by_version X db name author v tag = Ok (Some (c, pm)) \<Longrightarrow> meta_at X db c = Some pm"
  by (auto simp: get_pkg_meta_by_version_def meta_at_def split: option.splits)

lemma by_version_expr_meta: "get_pkg_meta_by_version_expr X db name author req tag = Ok (Some (c, pm)) \<Longrightarrow> meta_at X db c = Some pm"
  by (auto simp: get_pkg_meta_by_version_expr_def meta_at_def meta_from_str_def ok_or_def and_then_def split: option.splits)

lemma get_pkg_meta_meta: "get_pkg_meta X db s = Some (Ok (Some (c, pm))) \<Longrightarrow> meta_at X db c = Some pm"
  by (auto simp: get_pkg_meta_def get_pkg_meta_by_objid_def Let_def
      dest: first_candidate_meta by_version_meta by_version_expr_meta split: sum.splits option.splits version_exp_type.splits)

lemma meta_at_stored: "meta_at X db c = Some pm \<Longrightarrow> pm \<in> stored_metas X db"
  by (auto simp: meta_at_def meta_row_def stored_metas_def bind_eq_Some_conv find_Some_iff)

lemma finite_stored_metas: "finite (stored_metas X db)"
proof -
  have "stored_metas X db = {pm. Some pm \<in> (\<lambda>row. ix_meta_parse X (pm_pkg_meta row)) ` set (mi_metas db)}"
    by (auto simp: stored_metas_def image_iff) metis
  also have "finite \<dots>" by (rule finite_vimageI [of _ Some, unfolded vimage_def]) simp_all
  finally show ?thesis .
qed

definition id_text :: "('v, 'r, 'j) index_env \<Rightarrow> package_meta \<Rightarrow> string option" where
  "id_text X pm = map_option (package_id_to_string (ix_semver X)) (get_package_id X pm)"

definition stored_ids :: "('v, 'r, 'j) index_env \<Rightarrow> meta_index_db \<Rightarrow> string set" where
  "stored_ids X db = {t. Some t \<in> id_text X ` stored_metas X db}"

lemma finite_stored_ids: "finite (stored_ids X db)"
  unfolding stored_ids_def by (rule finite_vimageI [of _ Some, unfolded vimage_def]) (simp_all add: finite_stored_metas)

lemma id_text_stored: "get_pkg_meta X db s = Some (Ok (Some (c, pm))) \<Longrightarrow> id_text X pm = Some t \<Longrightarrow> t \<in> stored_ids X db"
  using get_pkg_meta_meta meta_at_stored unfolding stored_ids_def by (metis (mono_tags, lifting) image_eqI mem_Collect_eq)

lemma visiting_grows:
  assumes "get_pkg_meta X db s = Some (Ok (Some (c, pm)))" and "id_text X pm = Some t" and "t \<notin> visiting"
  shows "card (stored_ids X db - insert t visiting) < card (stored_ids X db - visiting)"
proof (rule psubset_card_mono)
  show "stored_ids X db - insert t visiting \<subset> stored_ids X db - visiting"
    using id_text_stored [OF assms(1,2)] assms(3) by auto
qed (simp add: finite_stored_ids)

text \<open>\<open>cacl_pkg_deps_metas_impl\<close>: the map of packages in the order of insertion; \<open>visiting\<close> is restored when a call
  returns.  A package that is being visited is not entered again, so the recursion ends for every index.\<close>

type_synonym dep_map = "(string \<times> package_meta) list"

function deps_loop ::
  "('v, 'r, 'j) index_env \<Rightarrow> meta_index_db \<Rightarrow> (string \<times> string) list \<Rightarrow> dep_map \<Rightarrow> string set \<Rightarrow> (unit pkg_result \<times> dep_map) option" where
  "deps_loop X db [] deps visiting = Some (Ok (), deps)"
| "deps_loop X db ((n, v) # rest) deps visiting =
     (let dep_id = n @ CHR ''#'' # v
      in case get_pkg_meta X db dep_id of
           None \<Rightarrow> None
         | Some (Inl e) \<Rightarrow> Some (Err e, deps)
         | Some (Inr None) \<Rightarrow> Some (Err (FileNotFoundError (''cacl_pkg_deps_metas:pkg_meta '' @ dep_id @ '' not found'')), deps)
         | Some (Inr (Some (objid, pm))) \<Rightarrow>
             (case id_text X pm of
                None \<Rightarrow> None
              | Some pid \<Rightarrow>
                  if pid \<in> visiting then Some (Err (PkgLoadError pid ''Package dependency cycle detected''), deps)
                  else if objid \<in> fst ` set deps then deps_loop X db rest deps visiting
                  else
                    (case deps_loop X db (pmeta_deps pm) deps (insert pid visiting) of
                       None \<Rightarrow> None
                     | Some (Inl e, deps1) \<Rightarrow> Some (Err e, deps1)
                     | Some (Inr _, deps1) \<Rightarrow> deps_loop X db rest (AList.update objid pm deps1) visiting)))"
  by pat_completeness auto
termination
  by (relation "measures [\<lambda>(X, db, ds, deps, vis). card (stored_ids X db - vis), \<lambda>(X, db, ds, deps, vis). length ds]")
    (auto dest: visiting_grows)

declare deps_loop.simps(2) [simp del]

definition cacl_pkg_deps_metas ::
  "('v, 'r, 'j) index_env \<Rightarrow> meta_index_db \<Rightarrow> package_meta \<Rightarrow> dep_map \<Rightarrow> (unit pkg_result \<times> dep_map) option" where
  "cacl_pkg_deps_metas X db pm deps =
     (case id_text X pm of None \<Rightarrow> None | Some pid \<Rightarrow> deps_loop X db (pmeta_deps pm) deps {pid})"

end
