(* ===== verification/Package_Id_Props.thy ===== *)
theory Package_Id_Props
  imports Package_Id Fs_Meta_Types
begin

text \<open>
  Properties of package identifiers: the text of an identifier parses back, and the integer form of
  versions orders them as their fields.
\<close>

section \<open>Splitting\<close>

lemma split_plain: "c \<notin> set s \<Longrightarrow> str_split c s = [s]"
  by (induction s) auto

lemma split_app: "c \<notin> set s \<Longrightarrow> str_split c (s @ c # t) = s # str_split c t"
  by (induction s) auto

section \<open>The text of a package identifier\<close>

lemma version_exp_type_roundtrip: "semver_laws S \<Longrightarrow> version_exp_type_from_str S (version_exp_type_to_string S e) = Ok e"
  by (cases e) (auto simp: version_exp_type_from_str_def semver_laws_def)

lemma version_exp_type_chars:
  "semver_laws S \<Longrightarrow> CHR '':'' \<notin> set (version_exp_type_to_string S e) \<and> CHR ''#'' \<notin> set (version_exp_type_to_string S e)"
  by (cases e) (auto simp: semver_laws_def)

definition tag_ok :: "('v, 'r) version_exp \<Rightarrow> bool" where
  "tag_ok e \<longleftrightarrow> (case ve_tag e of None \<Rightarrow> True | Some t \<Rightarrow> CHR '':'' \<notin> set t \<and> CHR ''#'' \<notin> set t)"

lemma version_exp_roundtrip:
  assumes "semver_laws S" and "tag_ok e"
  shows "version_exp_from_str S (version_exp_to_string S e) = Ok e"
proof (cases "ve_tag e")
  case None
  then show ?thesis
    using assms version_exp_type_chars [OF assms(1), of "ve_exp e"]
    by (simp add: version_exp_from_str_def version_exp_to_string_def split_plain version_exp_type_roundtrip [OF assms(1)])
next
  case (Some t)
  then show ?thesis
    using assms version_exp_type_chars [OF assms(1), of "ve_exp e"]
    by (simp add: version_exp_from_str_def version_exp_to_string_def tag_ok_def split_app split_plain version_exp_type_roundtrip [OF assms(1)])
qed

lemma version_exp_no_hash: "semver_laws S \<Longrightarrow> tag_ok e \<Longrightarrow> CHR ''#'' \<notin> set (version_exp_to_string S e)"
  using version_exp_type_chars [of S "ve_exp e"] by (auto simp: version_exp_to_string_def tag_ok_def split: option.split)

text \<open>Identifiers whose parts cannot be mistaken for one another.\<close>

definition package_id_ok :: "('v, 'r) semver \<Rightarrow> 'j ext_crates \<Rightarrow> ('v, 'r) package_id \<Rightarrow> bool" where
  "package_id_ok S E p \<longleftrightarrow> CHR ''#'' \<notin> set (pk_name p) \<and>
     (case (pk_version_exp p, pk_objid p) of
        (None, None) \<Rightarrow> True
      | (None, Some o') \<Rightarrow> CHR ''#'' \<notin> set o' \<and> exact_part E o'
      | (Some e, None) \<Rightarrow> tag_ok e \<and> \<not> exact_part E (version_exp_to_string S e)
      | (Some e, Some o') \<Rightarrow> tag_ok e \<and> CHR ''#'' \<notin> set o')"

lemma package_id_roundtrip_aux:
  assumes "semver_laws S" and "package_id_ok S E p"
  shows "package_id_parse S E (package_id_to_string S p) = Ok p"
  using assms version_exp_roundtrip [OF assms(1)] version_exp_no_hash [OF assms(1)]
  by (cases "pk_version_exp p"; cases "pk_objid p")
    (simp_all add: package_id_parse_def package_id_to_string_def package_id_ok_def split_app split_plain)

text \<open>A tag that is a hexadecimal number turns a version into an object identifier.\<close>

lemma hex_tag_becomes_objid:
  assumes "CHR ''#'' \<notin> set name" and "CHR ''#'' \<notin> set (v @ tag)" and "CHR '':'' \<notin> set (v @ tag)" and "hex_decode E tag = Some h"
  shows "package_id_parse S E (name @ CHR ''#'' # v @ CHR '':'' # tag) =
    Ok \<lparr>pk_name = name, pk_version_exp = None, pk_objid = Some (v @ CHR '':'' # tag)\<rparr>"
proof -
  have "obj_id_new E (v @ CHR '':'' # tag) = Ok (new_by_raw v h)"
    using assms(3,4) by (simp add: obj_id_new_def split_app split_plain)
  then show ?thesis using assms(1,2) by (simp add: package_id_parse_def exact_part_def split_app split_plain)
qed

section \<open>The order of versions\<close>

lemma bit_below: "x < 2 ^ k \<Longrightarrow> bit (of_nat x :: u64) n \<Longrightarrow> n < k"
proof (rule ccontr)
  assume x: "x < 2 ^ k" and b: "bit (of_nat x :: u64) n" and "\<not> n < k"
  then have "(2 :: nat) ^ k \<le> 2 ^ n" by (intro power_increasing) simp_all
  with x have "x < 2 ^ n" by linarith
  moreover have "bit x n" using b by (simp add: bit_simps)
  ultimately show False by (simp add: bit_iff_odd)
qed

lemma unat_below: "x < 2 ^ 64 \<Longrightarrow> unat (of_nat x :: u64) = x"
  by (simp add: unat_of_nat take_bit_nat_eq_self)

lemma or_disjoint:
  assumes "x < 2 ^ k" and "y * 2 ^ k + x < 2 ^ 64"
  shows "push_bit k (of_nat y) OR (of_nat x :: u64) = of_nat (y * 2 ^ k + x)"
proof -
  have b: "n < k" if "bit x n" "n < 64" for n using bit_below [OF assms(1), of n] that by (simp add: bit_simps)
  have "push_bit k (of_nat y) AND (of_nat x :: u64) = 0"
    by (intro bit_word_eqI) (auto simp: bit_simps dest: b)
  then have "push_bit k (of_nat y) OR (of_nat x :: u64) = push_bit k (of_nat y) + of_nat x"
    by (simp add: disjunctive_add_eq_or)
  then show ?thesis by (simp add: push_bit_eq_mult)
qed

lemma pack_version_value:
  assumes "a < 2 ^ 8" and "b < 2 ^ 16" and "c < 2 ^ 16" and "d < 2 ^ 24"
  shows "unat (pack_version (of_nat a) (of_nat b) (of_nat c) (of_nat d)) = ((a * 2 ^ 16 + b) * 2 ^ 16 + c) * 2 ^ 24 + d"
proof -
  have 1: "push_bit 24 (of_nat c) OR (of_nat d :: u64) = of_nat (c * 2 ^ 24 + d)"
    by (rule or_disjoint) (use assms in simp_all)
  have 2: "push_bit 40 (of_nat b) OR (of_nat (c * 2 ^ 24 + d) :: u64) = of_nat (b * 2 ^ 40 + (c * 2 ^ 24 + d))"
    by (rule or_disjoint) (use assms in simp_all)
  have 3: "push_bit 56 (of_nat a) OR (of_nat (b * 2 ^ 40 + (c * 2 ^ 24 + d)) :: u64) = of_nat (a * 2 ^ 56 + (b * 2 ^ 40 + (c * 2 ^ 24 + d)))"
    by (rule or_disjoint) (use assms in simp_all)
  have "pack_version (of_nat a) (of_nat b) (of_nat c) (of_nat d) = of_nat (a * 2 ^ 56 + (b * 2 ^ 40 + (c * 2 ^ 24 + d)))"
    unfolding pack_version_def or.assoc 1 2 3 ..
  then show ?thesis using assms by (simp only:) (subst unat_below, simp_all)
qed

lemma digit_order: "x < n \<Longrightarrow> y < n \<Longrightarrow> a * n + x < b * n + (y :: nat) \<longleftrightarrow> a < b \<or> a = b \<and> x < y"
proof -
  assume "x < n" "y < n"
  then have *: "a * n + x < Suc a * n" "b * n + y < Suc b * n" by simp_all
  consider "a < b" | "a = b" | "b < a" by linarith
  then show ?thesis
  proof cases
    case 1
    then have "Suc a * n \<le> b * n" by (intro mult_le_mono1) simp
    with * 1 show ?thesis by linarith
  next
    case 3
    then have "Suc b * n \<le> a * n" by (intro mult_le_mono1) simp
    with * 3 show ?thesis by linarith
  qed simp
qed

definition fields_less :: "nat \<times> nat \<times> nat \<times> nat \<Rightarrow> nat \<times> nat \<times> nat \<times> nat \<Rightarrow> bool" where
  "fields_less x y = (case (x, y) of ((a, b, c, d), (a', b', c', d')) \<Rightarrow>
     a < a' \<or> a = a' \<and> (b < b' \<or> b = b' \<and> (c < c' \<or> c = c' \<and> d < d')))"

lemma digit_eq: "x < n \<Longrightarrow> y < n \<Longrightarrow> a * n + x = b * n + (y :: nat) \<longleftrightarrow> a = b \<and> x = y"
  using digit_order [of x n y a b] digit_order [of y n x b a] by (metis less_irrefl linorder_neqE_nat)

lemma pack_less:
  assumes "b < 2 ^ 16" "c < 2 ^ 16" "d < 2 ^ 24" "b' < 2 ^ 16" "c' < 2 ^ 16" "d' < 2 ^ 24"
  shows "((a * 2 ^ 16 + b) * 2 ^ 16 + c) * 2 ^ 24 + d < ((a' * 2 ^ 16 + b') * 2 ^ 16 + c') * 2 ^ 24 + d' \<longleftrightarrow>
    fields_less (a, b, c, d) (a', b', c', d')"
  unfolding fields_less_def prod.case digit_order [OF assms(3,6)] digit_order [OF assms(2,5)] digit_order [OF assms(1,4)]
    digit_eq [OF assms(2,5)] digit_eq [OF assms(1,4)] by blast

lemma version_fields_bounds:
  "version_fields s = Ok (a, b, c, d) \<Longrightarrow> a < 2 ^ 8 \<and> b < 2 ^ 16 \<and> c < 2 ^ 16 \<and> d < 2 ^ 24"
  by (auto simp: version_fields_def Let_def split: if_splits)

lemma version_int_value:
  assumes "version_fields s = Ok (a, b, c, d)"
  shows "\<exists>w. version_to_int s = Ok w \<and> unat w = ((a * 2 ^ 16 + b) * 2 ^ 16 + c) * 2 ^ 24 + d"
  using pack_version_value version_fields_bounds [OF assms] assms by (simp add: version_to_int_def)

section \<open>Decimal versions\<close>

lemma dec_digits_props:
  "dec_digits n \<noteq> [] \<and> list_all is_digit (dec_digits n) \<and> digits_value (dec_digits n) = n"
proof (induction n rule: dec_digits.induct)
  case (1 n)
  have c: "of_char (char_of (48 + k) :: char) = 48 + k" if "k < 10" for k :: nat using that by simp
  show ?case
  proof (cases "n < 10")
    case True
    then show ?thesis using c [of n] by (simp add: dec_digits.simps [of n] is_digit_def digits_value_def)
  next
    case False
    with 1 show ?thesis using c [of "n mod 10"]
      by (simp add: dec_digits.simps [of n] is_digit_def digits_value_def)
  qed
qed

lemma digit_not: "is_digit c \<Longrightarrow> c \<noteq> CHR ''.'' \<and> c \<noteq> CHR ''-'' \<and> c \<noteq> CHR ''+''"
  by (auto simp: is_digit_def)

lemma parse_dec: "n < 2 ^ 64 \<Longrightarrow> parse_u64 (dec_digits n) = Some n"
proof -
  assume n: "n < 2 ^ 64"
  have d: "dec_digits n \<noteq> []" "list_all is_digit (dec_digits n)" "digits_value (dec_digits n) = n" using dec_digits_props by auto
  then obtain c r where s: "dec_digits n = c # r" "c \<noteq> CHR ''+''" by (cases "dec_digits n") (auto dest: digit_not)
  then show ?thesis using n d by (simp add: parse_u64_def Let_def)
qed

lemma number_after_dec: "n < 2 ^ 64 \<Longrightarrow> number_after (dec_digits n) = n"
proof -
  assume n: "n < 2 ^ 64"
  have "dropWhile (\<lambda>c. \<not> is_digit c) (dec_digits n) = dec_digits n"
    using dec_digits_props [of n] by (cases "dec_digits n") auto
  with n show ?thesis by (simp add: number_after_def parse_dec)
qed

definition dotted :: "nat \<Rightarrow> nat \<Rightarrow> nat \<Rightarrow> string" where
  "dotted a b c = dec_digits a @ CHR ''.'' # dec_digits b @ CHR ''.'' # dec_digits c"

lemma dotted_fields:
  assumes "a < 2 ^ 8" and "b < 2 ^ 16" and "c < 2 ^ 16"
  shows "version_fields (dotted a b c) = Ok (a, b, c, 0)"
proof -
  have no: "c \<notin> {CHR ''-'', CHR ''+'', CHR ''.''}" if "c \<in> set (dec_digits n)" for c n
    using dec_digits_props [of n] that digit_not [of c] by (auto simp: list_all_iff)
  then have core: "takeWhile (\<lambda>c. c \<noteq> CHR ''-'' \<and> c \<noteq> CHR ''+'') (dotted a b c) = dotted a b c"
    by (fastforce simp: dotted_def takeWhile_eq_all_conv)
  have dot: "CHR ''.'' \<notin> set (dec_digits n)" for n using no [of "CHR ''.''" n] by auto
  have parts: "str_split (CHR ''.'') (dotted a b c) = [dec_digits a, dec_digits b, dec_digits c]"
    by (simp add: dotted_def split_app split_plain dot)
  have "version_parts (dotted a b c) = [dec_digits a, dec_digits b, dec_digits c]"
    by (simp add: version_parts_def core parts)
  moreover have "parse_u64 (dec_digits b) = Some b" "parse_u64 (dec_digits c) = Some c" "number_after (dec_digits a) = a"
    using assms by (simp_all add: parse_dec number_after_dec)
  ultimately show ?thesis using assms by (simp add: version_fields_def core parts field_def field_after_def)
qed

section \<open>Properties\<close>

text \<open>\<^bold>\<open>C19.\<close> The text of a package identifier parses back to it, with its name, its version expression and tag and its
  object identifier, if \<open>package_id_ok\<close> holds: no part contains the separator of the parts; without an
  object identifier, the text of the version expression and tag cannot itself be read as one (as it can for a
  hexadecimal tag, \<open>hex_tag_becomes_objid\<close>); and an object identifier without a version expression can be.\<close>

theorem package_id_roundtrip:
  assumes "semver_laws S" and "package_id_ok S E p"
  shows "package_id_parse S E (package_id_to_string S p) = Ok p"
  by (rule package_id_roundtrip_aux [OF assms])

text \<open>A \<open>semver\<close> with the single version \<open>1.0.0\<close> and the single requirement \<open>*\<close>.\<close>

definition tiny_semver :: "(unit, bool) semver" where
  "tiny_semver = \<lparr>version_parse = (\<lambda>s. if s = ''1.0.0'' then Some () else None), version_show = (\<lambda>_. ''1.0.0''),
     version_cmp = (\<lambda>_ _. IsEqual), req_parse = (\<lambda>s. if s = ''*'' then Some True else if s = ''>1'' then Some False else None),
     req_show = (\<lambda>b. if b then ''*'' else ''>1''), req_comparators = (\<lambda>_. []), req_matches = (\<lambda>b _. b)\<rparr>"

lemma tiny_semver_laws: "semver_laws tiny_semver"
  by (simp add: semver_laws_def tiny_semver_def)

theorem package_id_roundtrip_witness:
  "package_id_parse tiny_semver inst_crates ''a#1.0.0:stable'' =
     Ok \<lparr>pk_name = ''a'', pk_version_exp = Some \<lparr>ve_tag = Some ''stable'', ve_exp = VVersion ()\<rparr>, pk_objid = None\<rparr>"
proof -
  let ?p = "\<lparr>pk_name = ''a'', pk_version_exp = Some \<lparr>ve_tag = Some ''stable'', ve_exp = VVersion ()\<rparr>, pk_objid = None\<rparr>"
  have "package_id_ok tiny_semver inst_crates ?p" by code_simp
  moreover have "package_id_to_string tiny_semver ?p = ''a#1.0.0:stable''" by code_simp
  ultimately show ?thesis using package_id_roundtrip [OF tiny_semver_laws, of inst_crates ?p] by simp
qed

text \<open>\<^bold>\<open>C20.\<close> The integer form of a version is below $2^{64}$ without loss: two versions compare as integers
  as their fields compare one after the other, and a version that is written \<open>a.b.c\<close> within the bounds of the fields has
  an integer form with these fields.\<close>

theorem version_int_order:
  assumes "version_fields s = Ok x" and "version_fields t = Ok y"
  shows "\<exists>v w. version_to_int s = Ok v \<and> version_to_int t = Ok w \<and> (v < w \<longleftrightarrow> fields_less x y) \<and> (v = w \<longleftrightarrow> x = y) \<and>
    (\<forall>a b c. a < 2 ^ 8 \<longrightarrow> b < 2 ^ 16 \<longrightarrow> c < 2 ^ 16 \<longrightarrow> version_fields (dotted a b c) = Ok (a, b, c, 0))"
proof -
  obtain a b c d where x: "x = (a, b, c, d)" by (cases x) auto
  obtain a' b' c' d' where y: "y = (a', b', c', d')" by (cases y) auto
  from version_int_value [OF assms(1) [unfolded x]] obtain v where
    v: "version_to_int s = Ok v" "unat v = ((a * 2 ^ 16 + b) * 2 ^ 16 + c) * 2 ^ 24 + d" by blast
  from version_int_value [OF assms(2) [unfolded y]] obtain w where
    w: "version_to_int t = Ok w" "unat w = ((a' * 2 ^ 16 + b') * 2 ^ 16 + c') * 2 ^ 24 + d'" by blast
  have bx: "b < 2 ^ 16" "c < 2 ^ 16" "d < 2 ^ 24" and by': "b' < 2 ^ 16" "c' < 2 ^ 16" "d' < 2 ^ 24"
    using version_fields_bounds [OF assms(1) [unfolded x]] version_fields_bounds [OF assms(2) [unfolded y]] by auto
  have less: "v < w \<longleftrightarrow> fields_less x y" "w < v \<longleftrightarrow> fields_less y x"
    unfolding word_less_nat_alt v(2) w(2) x y by (rule pack_less [OF bx by'], rule pack_less [OF by' bx])
  moreover have "\<not> fields_less x y \<and> \<not> fields_less y x \<longleftrightarrow> x = y" by (auto simp: fields_less_def x y)
  ultimately have "v = w \<longleftrightarrow> x = y" by (metis less_irrefl linorder_neqE)
  with v(1) w(1) less(1) dotted_fields show ?thesis by blast
qed

theorem version_int_order_witness:
  "\<exists>v w. version_to_int ''1.2.9'' = Ok v \<and> version_to_int ''1.10.0'' = Ok w \<and> v < w"
proof -
  have "dotted 1 2 9 = ''1.2.9''" "dotted 1 10 0 = ''1.10.0''" by code_simp+
  then have "version_fields ''1.2.9'' = Ok (1, 2, 9, 0)" "version_fields ''1.10.0'' = Ok (1, 10, 0, 0)"
    using dotted_fields [of 1 2 9] dotted_fields [of 1 10 0] by simp_all
  from version_int_order [OF this] show ?thesis by (auto simp: fields_less_def)
qed

end
