(* ===== verification/Package_Index_Props.thy ===== *)
theory Package_Index_Props
  imports Package_Index Package_Id_Props
begin

text \<open>
  Properties of the package index: its tables stay well-formed, a query by requirement finds the latest
  version that matches, and the collected dependencies of a package are complete and in an order in which every
  package comes after the packages that it needs.
\<close>

section \<open>Dependencies\<close>

definition resolves :: "('v, 'r, 'j) index_env \<Rightarrow> meta_index_db \<Rightarrow> string \<times> string \<Rightarrow> string \<times> package_meta \<Rightarrow> bool" where
  "resolves X db d e \<longleftrightarrow> get_pkg_meta X db (fst d @ CHR ''#'' # snd d) = Some (Ok (Some e))"

definition after_deps :: "('v, 'r, 'j) index_env \<Rightarrow> meta_index_db \<Rightarrow> dep_map \<Rightarrow> bool" where
  "after_deps X db deps \<longleftrightarrow>
     (\<forall>i < length deps. \<forall>d \<in> set (pmeta_deps (snd (deps ! i))). \<exists>j < i. resolves X db d (deps ! j))"

definition deps_inv :: "('v, 'r, 'j) index_env \<Rightarrow> meta_index_db \<Rightarrow> dep_map \<Rightarrow> bool" where
  "deps_inv X db deps \<longleftrightarrow> after_deps X db deps \<and> distinct (map fst deps) \<and> (\<forall>(c, pm) \<in> set deps. meta_at X db c = Some pm)"

lemma after_deps_snoc:
  assumes "after_deps X db deps" and "\<forall>d \<in> set (pmeta_deps pm). \<exists>e \<in> set deps. resolves X db d e"
  shows "after_deps X db (deps @ [(c, pm)])"
  unfolding after_deps_def
proof (intro allI impI ballI)
  fix i d
  assume i: "i < length (deps @ [(c, pm)])" and d: "d \<in> set (pmeta_deps (snd ((deps @ [(c, pm)]) ! i)))"
  show "\<exists>j < i. resolves X db d ((deps @ [(c, pm)]) ! j)"
  proof (cases "i < length deps")
    case True
    with d have "d \<in> set (pmeta_deps (snd (deps ! i)))" by (simp add: nth_append)
    with True assms(1) obtain j where "j < i" "resolves X db d (deps ! j)" unfolding after_deps_def by blast
    with True show ?thesis by (intro exI [of _ j]) (simp add: nth_append)
  next
    case False
    with i d have "i = length deps" "d \<in> set (pmeta_deps pm)" by (auto simp: nth_append)
    moreover from this(2) assms(2) obtain e where "e \<in> set deps" "resolves X db d e" by blast
    then obtain j where "j < length deps" "resolves X db d (deps ! j)" by (metis in_set_conv_nth)
    ultimately show ?thesis by (intro exI [of _ j]) (simp add: nth_append)
  qed
qed

text \<open>What a call adds: packages that are not being visited.\<close>

definition adds :: "('v, 'r, 'j) index_env \<Rightarrow> meta_index_db \<Rightarrow> (string \<times> string) list \<Rightarrow> dep_map \<Rightarrow> string set \<Rightarrow> dep_map \<Rightarrow> bool" where
  "adds X db ds deps visiting deps' \<longleftrightarrow> deps_inv X db deps' \<and>
     (\<exists>new. deps' = deps @ new \<and> (\<forall>(c, pm) \<in> set new. \<exists>t. id_text X pm = Some t \<and> t \<notin> visiting)) \<and>
     (\<forall>d \<in> set ds. \<exists>e \<in> set deps'. resolves X db d e)"

lemma update_new_key: "c \<notin> fst ` set xs \<Longrightarrow> AList.update c v xs = xs @ [(c, v)]"
  by (induction xs) auto

lemma deps_loop_adds:
  "deps_loop X db ds deps visiting = Some (Ok (), deps') \<Longrightarrow> deps_inv X db deps \<Longrightarrow> adds X db ds deps visiting deps'"
proof (induction X db ds deps visiting arbitrary: deps' rule: deps_loop.induct)
  case (1 X db deps visiting)
  then show ?case by (simp add: adds_def)
next
  case (2 X db n v rest deps visiting)
  from 2(4) obtain c pm pid where q: "get_pkg_meta X db (n @ CHR ''#'' # v) = Some (Ok (Some (c, pm)))"
    and pid: "id_text X pm = Some pid" "pid \<notin> visiting"
    by (auto simp: deps_loop.simps(2) Let_def split: option.splits sum.splits prod.splits if_splits)
  have here: "resolves X db (n, v) (c, pm)" using q by (simp add: resolves_def)
  have at: "meta_at X db c = Some pm" by (rule get_pkg_meta_meta [OF q])
  show ?case
  proof (cases "c \<in> fst ` set deps")
    case True
    then obtain pm' where "(c, pm') \<in> set deps" by auto
    with 2(5) at have mem: "(c, pm) \<in> set deps" by (auto simp: deps_inv_def)
    from 2(4) q pid True have "deps_loop X db rest deps visiting = Some (Ok (), deps')"
      by (simp add: deps_loop.simps(2) Let_def)
    with 2(1) [OF refl q refl refl refl pid True] 2(5) have "adds X db rest deps visiting deps'" by blast
    with here mem show ?thesis unfolding adds_def by fastforce
  next
    case False
    from 2(4) q pid False obtain deps1 where one: "deps_loop X db (pmeta_deps pm) deps (insert pid visiting) = Some (Ok (), deps1)"
      and two: "deps_loop X db rest (AList.update c pm deps1) visiting = Some (Ok (), deps')"
      by (auto simp: deps_loop.simps(2) Let_def split: option.splits sum.splits prod.splits)
    have a1: "adds X db (pmeta_deps pm) deps (insert pid visiting) deps1"
      using 2(2) [OF refl q refl refl refl pid False] one 2(5) by blast
    then obtain new where new: "deps1 = deps @ new" "\<forall>(c, pm) \<in> set new. \<exists>t. id_text X pm = Some t \<and> t \<notin> insert pid visiting"
      and i1: "deps_inv X db deps1" unfolding adds_def by blast
    have "c \<notin> fst ` set deps1"
    proof
      assume "c \<in> fst ` set deps1"
      then obtain pm' where m: "(c, pm') \<in> set deps1" by auto
      with i1 at have "pm' = pm" by (auto simp: deps_inv_def)
      with m new False pid show False by (auto simp: image_iff)
    qed
    then have upd: "AList.update c pm deps1 = deps1 @ [(c, pm)]" by (rule update_new_key)
    have i2: "deps_inv X db (deps1 @ [(c, pm)])"
      using i1 at \<open>c \<notin> fst ` set deps1\<close> after_deps_snoc [of X db deps1 pm c] a1 by (auto simp: deps_inv_def adds_def)
    have "adds X db rest (deps1 @ [(c, pm)]) visiting deps'"
      using 2(3) [OF refl q refl refl refl pid False one refl] two i2 unfolding upd by blast
    then show ?thesis using new pid here by (fastforce simp: adds_def)
  qed
qed

section \<open>The latest version\<close>

definition matching :: "('v, 'r, 'j) index_env \<Rightarrow> 'r \<Rightarrow> pkg_version_row \<Rightarrow> bool" where
  "matching X req r \<longleftrightarrow> (case version_parse (ix_semver X) (pv_version r) of None \<Rightarrow> False | Some v \<Rightarrow> req_matches (ix_semver X) req v)"

definition newer :: "('v, 'r, 'j) index_env \<Rightarrow> pkg_version_row \<Rightarrow> pkg_version_row \<Rightarrow> bool" where
  "newer X r r' \<longleftrightarrow> compare_versions (ix_semver X) (pv_version r) (pv_version r') = IsGreater"

definition strict_order :: "('v, 'r) semver \<Rightarrow> bool" where
  "strict_order S \<longleftrightarrow> (\<forall>a. version_cmp S a a \<noteq> IsGreater) \<and>
     (\<forall>a b c. version_cmp S a b = IsGreater \<longrightarrow> version_cmp S b c = IsGreater \<longrightarrow> version_cmp S a c = IsGreater)"

lemma newer_trans:
  "strict_order (ix_semver X) \<Longrightarrow> matching X req a \<Longrightarrow> matching X req b \<Longrightarrow> matching X req c \<Longrightarrow> newer X a b \<Longrightarrow> newer X b c \<Longrightarrow> newer X a c"
  by (auto simp: newer_def matching_def compare_versions_def strict_order_def split: option.splits)

lemma newer_irrefl: "strict_order (ix_semver X) \<Longrightarrow> matching X req a \<Longrightarrow> \<not> newer X a a"
  by (auto simp: newer_def matching_def compare_versions_def strict_order_def split: option.splits)

definition latest_of :: "('v, 'r, 'j) index_env \<Rightarrow> 'r \<Rightarrow> pkg_version_row set \<Rightarrow> pkg_version_row option \<Rightarrow> bool" where
  "latest_of X req rows best \<longleftrightarrow>
     (case best of
        None \<Rightarrow> \<forall>r \<in> rows. \<not> matching X req r
      | Some b \<Rightarrow> b \<in> rows \<and> matching X req b \<and> (\<forall>r \<in> rows. matching X req r \<longrightarrow> \<not> newer X r b))"

lemma later_row_step:
  assumes so: "strict_order (ix_semver X)" and l: "latest_of X req rows best"
  shows "latest_of X req (insert r rows) (later_row X req best r)"
proof (cases "matching X req r")
  case False
  then have "later_row X req best r = best" by (auto simp: later_row_def matching_def split: option.splits)
  with l False show ?thesis by (auto simp: latest_of_def split: option.splits)
next
  case m: True
  show ?thesis
  proof (cases best)
    case None
    with m have "later_row X req best r = Some r" by (auto simp: later_row_def matching_def split: option.splits)
    with l None m newer_irrefl [OF so m] show ?thesis by (auto simp: latest_of_def)
  next
    case (Some b)
    then have b: "b \<in> rows" "matching X req b" "\<forall>r \<in> rows. matching X req r \<longrightarrow> \<not> newer X r b" using l by (simp_all add: latest_of_def)
    have "later_row X req best r = (if newer X r b then Some r else Some b)"
      using m Some by (auto simp: later_row_def matching_def newer_def split: option.splits)
    with b m newer_trans [OF so _ m b(2)] newer_irrefl [OF so m] show ?thesis by (auto simp: latest_of_def)
  qed
qed

lemma fold_later_rows:
  assumes "strict_order (ix_semver X)"
  shows "latest_of X req seen best \<Longrightarrow> latest_of X req (seen \<union> set rows) (foldl (later_row X req) best rows)"
proof (induction rows arbitrary: seen best)
  case (Cons r rows)
  from Cons.IH [OF later_row_step [OF assms Cons.prems]] show ?case by simp
qed simp

lemma all_versions_set:
  "set (get_all_versions db name author tag) =
     {r \<in> set (mi_versions db). pv_pkg_name r = name \<and> opt_is author (\<lambda>a. pv_author r = a) \<and> opt_is tag (\<lambda>t. pv_tag r = Some t)}"
  by (auto simp: get_all_versions_def)

lemma latest_of_candidates:
  assumes "strict_order (ix_semver X)"
  shows "latest_of X req (set (candidate_rows X db name author req tag)) (foldl (later_row X req) None (candidate_rows X db name author req tag))"
  using fold_later_rows [OF assms, of req "{}" None] by (simp add: latest_of_def)

section \<open>Well-formed tables\<close>

definition index_wf :: "meta_index_db \<Rightarrow> bool" where
  "index_wf db \<longleftrightarrow> distinct (map pm_metaobjid (mi_metas db)) \<and> distinct (map version_key (mi_versions db)) \<and>
     distinct (map au_name (mi_authors db)) \<and>
     (\<forall>r \<in> set (mi_versions db). \<exists>w. version_to_int (pv_version r) = Ok w \<and> pv_version_int r = as_i64 w)"

lemma wf_add_meta: "index_wf db \<Longrightarrow> index_wf (db\<lparr>mi_metas := insert_or_replace pm_metaobjid r (mi_metas db)\<rparr>)"
  by (simp add: index_wf_def distinct_insert_or_replace)

lemma wf_write_version:
  assumes wf: "index_wf db" and v: "version_to_int version = Ok vint"
    and run: "write_version now name author version vint objid tag db = Ok db'"
  shows "index_wf db'"
proof -
  let ?f = "\<lambda>r. r\<lparr>pv_metaobjid := objid, pv_tag := tag, pv_update_time := now\<rparr>"
  have keys: "map version_key (sql_update p ?f t) = map version_key t" for p t
    by (rule map_sql_update) (simp add: version_key_def)
  have ints: "\<exists>w. version_to_int (pv_version r) = Ok w \<and> pv_version_int r = as_i64 w" if "r \<in> set (sql_update p ?f (mi_versions db))" for p r
    using that wf by (auto simp: set_sql_update index_wf_def)
  show ?thesis
  proof (cases "\<exists>r \<in> set (mi_versions db). pv_pkg_name r = name \<and> pv_author r = author \<and> pv_version r = version")
    case True
    then have "db' = db\<lparr>mi_versions := sql_update (\<lambda>r. pv_pkg_name r = name \<and> pv_author r = author \<and> pv_version r = version) ?f (mi_versions db)\<rparr>"
      using run by (simp add: write_version_def)
    with wf ints show ?thesis by (simp add: index_wf_def keys)
  next
    case False
    with run wf v show ?thesis by (auto simp: write_version_def Let_def index_wf_def version_key_def split: if_splits)
  qed
qed

lemma wf_add_nodes: "index_wf db \<Longrightarrow> add_nodes now nodes db = Ok db' \<Longrightarrow> index_wf db'"
proof (induction nodes arbitrary: db)
  case (Cons x nodes)
  obtain objid nd where x: "x = (objid, nd)" by fastforce
  let ?db = "db\<lparr>mi_metas := insert_or_replace pm_metaobjid \<lparr>pm_metaobjid = objid, pm_pkg_meta = nd_meta_jwt nd, pm_author = nd_author nd,
    pm_author_pk = nd_author_pk nd, pm_update_time = now\<rparr> (mi_metas db)\<rparr>"
  from Cons.prems(2) x obtain vint db1 where v: "version_to_int (nd_version nd) = Ok vint"
    and w: "write_version now (nd_pkg_name nd) (nd_author nd) (nd_version nd) vint objid (nd_tag nd) ?db = Ok db1"
    and rest: "add_nodes now nodes db1 = Ok db'"
    by (auto simp: Let_def and_then_def split: sum.splits)
  from Cons.IH [OF wf_write_version [OF wf_add_meta [OF Cons.prems(1)] v w] rest] show ?case .
qed simp

lemma wf_fold_replace:
  "distinct (map key t) \<Longrightarrow> distinct (map key (fold (insert_or_replace key) rs t)) \<and> set (fold (insert_or_replace key) rs t) \<subseteq> set rs \<union> set t"
proof (induction rs arbitrary: t)
  case (Cons r rs)
  from Cons.IH [OF distinct_insert_or_replace [OF Cons.prems]] show ?case by (auto simp: set_insert_or_replace)
qed simp

lemma wf_merge:
  assumes "index_wf db" and "index_wf other"
  shows "index_wf (merge_meta_index_db other db)"
proof -
  have "set (mi_versions (merge_meta_index_db other db)) \<subseteq> set (mi_versions other) \<union> set (mi_versions db)"
    using wf_fold_replace [of version_key "mi_versions db" "mi_versions other"] assms(1) by (simp add: merge_meta_index_db_def index_wf_def)
  with assms wf_fold_replace [of version_key "mi_versions db" "mi_versions other"] wf_fold_replace [of pm_metaobjid "mi_metas db" "mi_metas other"]
    wf_fold_replace [of au_name "mi_authors db" "mi_authors other"]
  show ?thesis by (auto simp: index_wf_def merge_meta_index_db_def)
qed

text \<open>The indexes that the operations can make.\<close>

inductive index_made :: "('v, 'r) semver \<Rightarrow> meta_index_db \<Rightarrow> bool" for S :: "('v, 'r) semver" where
  made_new: "index_made S meta_index_new"
| made_meta: "index_made S db \<Longrightarrow> index_made S (add_pkg_meta now objid meta author author_pk db)"
| made_version: "index_made S db \<Longrightarrow> set_pkg_version S now name author version objid tag db = Ok db' \<Longrightarrow> index_made S db'"
| made_batch: "index_made S db \<Longrightarrow> index_made S (snd (add_pkg_meta_batch now nodes db))"
| made_author: "index_made S db \<Longrightarrow> index_made S (set_author_info name owner zone db)"
| made_merge: "index_made S db \<Longrightarrow> index_made S other \<Longrightarrow> index_made S (merge_meta_index_db other db)"

lemma index_made_wf: "index_made S db \<Longrightarrow> index_wf db"
proof (induction rule: index_made.induct)
  case made_new
  then show ?case by (simp add: index_wf_def meta_index_new_def)
next
  case (made_meta db now objid meta author author_pk)
  then show ?case unfolding add_pkg_meta_def by (intro wf_add_meta)
next
  case (made_version db now name author version objid tag db')
  then show ?case by (auto simp: set_pkg_version_def and_then_def split: sum.splits if_splits intro: wf_write_version)
next
  case (made_batch db now nodes)
  then show ?case by (auto simp: add_pkg_meta_batch_def split: sum.split intro: wf_add_nodes)
next
  case (made_author db name owner zone)
  have "distinct (map au_name (mi_authors db))" using made_author by (simp add: index_wf_def)
  then have "distinct (map au_name (mi_authors (set_author_info name owner zone db)))"
    unfolding set_author_info_def by (simp add: distinct_insert_on_conflict)
  with made_author show ?case by (simp add: index_wf_def set_author_info_def)
next
  case (made_merge db other)
  then show ?case by (intro wf_merge)
qed

section \<open>Properties\<close>

text \<open>\<^bold>\<open>C9.\<close> The dependencies that are collected for a package are complete and ordered: when the collection succeeds, every
  dependency of the package and of every collected package resolves to a collected package, which comes before
  the package that needs it; no package is collected twice.  In particular the dependencies have no cycle.  The
  collection ends for every index, its recursion is bounded by the packages that are not yet visited.\<close>

theorem deps_in_order:
  assumes "cacl_pkg_deps_metas X db pm [] = Some (Ok (), deps)"
  shows "(\<forall>d \<in> set (pmeta_deps pm). \<exists>e \<in> set deps. resolves X db d e) \<and>
    (\<forall>i < length deps. \<forall>d \<in> set (pmeta_deps (snd (deps ! i))). \<exists>j < i. resolves X db d (deps ! j)) \<and> distinct (map fst deps)"
proof -
  from assms obtain pid where run: "deps_loop X db (pmeta_deps pm) [] {pid} = Some (Ok (), deps)"
    by (auto simp: cacl_pkg_deps_metas_def split: option.splits)
  have "deps_inv X db []" by (simp add: deps_inv_def after_deps_def)
  from deps_loop_adds [OF run this] show ?thesis by (auto simp: adds_def deps_inv_def after_deps_def)
qed

definition demo_meta_parse :: "string \<Rightarrow> package_meta option" where
  "demo_meta_parse s =
     (if s = ''A'' then Some \<lparr>pmeta_name = ''a'', pmeta_version = ''1.0.0'', pmeta_version_tag = None, pmeta_deps = [(''b'', ''1.0.0''), (''c'', ''*'')]\<rparr>
      else if s = ''B'' then Some \<lparr>pmeta_name = ''b'', pmeta_version = ''1.0.0'', pmeta_version_tag = None, pmeta_deps = [(''c'', ''*'')]\<rparr>
      else if s = ''C'' then Some \<lparr>pmeta_name = ''c'', pmeta_version = ''1.0.0'', pmeta_version_tag = None, pmeta_deps = []\<rparr>
      else None)"

definition demo_ix :: "(unit, bool, string) index_env" where
  "demo_ix = \<lparr>ix_semver = tiny_semver, ix_crates = inst_crates, ix_meta_parse = demo_meta_parse\<rparr>"

definition demo_vrow :: "string \<Rightarrow> string \<Rightarrow> pkg_version_row" where
  "demo_vrow name objid = \<lparr>pv_pkg_name = name, pv_author = ''x'', pv_version = ''1.0.0'', pv_version_int = 2 ^ 56,
     pv_metaobjid = objid, pv_tag = None, pv_update_time = 7\<rparr>"

definition demo_mrow :: "string \<Rightarrow> string \<Rightarrow> pkg_meta_row" where
  "demo_mrow objid meta = \<lparr>pm_metaobjid = objid, pm_pkg_meta = meta, pm_author = ''x'', pm_author_pk = [], pm_update_time = 7\<rparr>"

definition demo_pkgs :: meta_index_db where
  "demo_pkgs = \<lparr>mi_metas = [demo_mrow ''mb'' ''B'', demo_mrow ''mc'' ''C''],
     mi_versions = [demo_vrow ''b'' ''mb'', demo_vrow ''c'' ''mc''], mi_authors = []\<rparr>"

theorem deps_in_order_witness:
  "\<exists>pm deps. demo_meta_parse ''A'' = Some pm \<and> cacl_pkg_deps_metas demo_ix demo_pkgs pm [] = Some (Ok (), deps) \<and>
    map fst deps = [''mc'', ''mb''] \<and> (\<forall>d \<in> set (pmeta_deps pm). \<exists>e \<in> set deps. resolves demo_ix demo_pkgs d e)"
proof -
  have parse: "demo_meta_parse ''A'' = Some (the (demo_meta_parse ''A''))" by code_simp
  have run: "map_option (\<lambda>(r, deps). (r, map fst deps)) (cacl_pkg_deps_metas demo_ix demo_pkgs (the (demo_meta_parse ''A'')) []) =
      Some (Ok (), [''mc'', ''mb''])" by code_simp
  then obtain deps where deps: "cacl_pkg_deps_metas demo_ix demo_pkgs (the (demo_meta_parse ''A'')) [] = Some (Ok (), deps)"
    "map fst deps = [''mc'', ''mb'']" by (auto split: prod.splits)
  from deps_in_order [OF deps(1)] deps parse show ?thesis
    by (intro exI [of _ "the (demo_meta_parse ''A'')"] exI [of _ deps]) simp
qed

text \<open>The rows a requirement selects from: those inside the range of integers that \<open>to_range_int\<close> makes of it,
  by whichever author; and all rows, of the author if one is given, when there is no range.\<close>

definition searched_rows ::
  "('v, 'r, 'j) index_env \<Rightarrow> meta_index_db \<Rightarrow> string \<Rightarrow> string option \<Rightarrow> 'r \<Rightarrow> string option \<Rightarrow> pkg_version_row set" where
  "searched_rows X db name author req tag =
     {r \<in> set (mi_versions db). pv_pkg_name r = name \<and> opt_is tag (\<lambda>t. pv_tag r = Some t) \<and>
        (case to_range_int (ix_semver X) \<lparr>ve_tag = None, ve_exp = VReq req\<rparr> of
           Inr (mn, mx) \<Rightarrow> as_i64 mn \<le> pv_version_int r \<and> pv_version_int r \<le> as_i64 mx
         | Inl _ \<Rightarrow> opt_is author (\<lambda>a. pv_author r = a))}"

lemma set_candidate_rows: "set (candidate_rows X db name author req tag) = searched_rows X db name author req tag"
  by (auto simp: candidate_rows_def searched_rows_def get_all_versions_def get_versions_in_range_def
      split: sum.splits prod.splits)

text \<open>\<^bold>\<open>C17.\<close> A query by a requirement selects the latest of the versions it searches: of the rows of the package
  (with the tag, when one is given) that lie in the range of integers the requirement is translated to, or, when
  it has no such range, of all rows (of the author, when one is given), that satisfy the requirement, the
  answer is the metadata of one that no other one is newer than; it is empty exactly when none of
  these rows satisfies the requirement, and an error only when the metadata of the selected row is missing or
  cannot be parsed.  A range may leave out versions that satisfy the requirement; these are not considered.\<close>

theorem latest_matching_version:
  assumes "strict_order (ix_semver X)" and "rows = {r \<in> searched_rows X db name author req tag. matching X req r}"
  shows "case get_pkg_meta_by_version_expr X db name author req tag of
      Inr None \<Rightarrow> rows = {}
    | Inr (Some (objid, pm)) \<Rightarrow> \<exists>r \<in> rows. (\<forall>r' \<in> rows. \<not> newer X r' r) \<and> pv_metaobjid r = objid \<and> meta_at X db objid = Some pm
    | Inl _ \<Rightarrow> \<exists>r \<in> rows. (\<forall>r' \<in> rows. \<not> newer X r' r) \<and> meta_at X db (pv_metaobjid r) = None"
proof -
  let ?c = "candidate_rows X db name author req tag"
  have rows: "rows = {r \<in> set ?c. matching X req r}" unfolding assms(2) set_candidate_rows ..
  have l: "latest_of X req (set ?c) (foldl (later_row X req) None ?c)" by (rule latest_of_candidates [OF assms(1)])
  show ?thesis
  proof (cases "foldl (later_row X req) None ?c")
    case None
    with l rows show ?thesis by (simp add: get_pkg_meta_by_version_expr_def latest_of_def)
  next
    case (Some r)
    then have r: "r \<in> rows" "\<forall>r' \<in> rows. \<not> newer X r' r" using l rows by (auto simp: latest_of_def)
    show ?thesis
    proof (cases "meta_at X db (pv_metaobjid r)")
      case None
      have "\<exists>e. get_pkg_meta_by_version_expr X db name author req tag = Err e"
      proof (cases "meta_row (pv_metaobjid r) db")
        case (Some row)
        with None have "ix_meta_parse X (pm_pkg_meta row) = None" by (simp add: meta_at_def)
        with Some \<open>foldl (later_row X req) None ?c = Some r\<close> show ?thesis
          by (simp add: get_pkg_meta_by_version_expr_def meta_from_str_def ok_or_def)
      qed (use \<open>foldl (later_row X req) None ?c = Some r\<close> in \<open>simp add: get_pkg_meta_by_version_expr_def\<close>)
      then obtain e where e: "get_pkg_meta_by_version_expr X db name author req tag = Err e" ..
      show ?thesis unfolding e sum.case using r None by blast
    next
      case (Some pm)
      then have "get_pkg_meta_by_version_expr X db name author req tag = Ok (Some (pv_metaobjid r, pm))"
        using \<open>foldl (later_row X req) None ?c = Some r\<close>
        by (auto simp: get_pkg_meta_by_version_expr_def meta_at_def meta_from_str_def ok_or_def bind_eq_Some_conv split: option.splits)
      with r Some show ?thesis by auto
    qed
  qed
qed

text \<open>A requirement without a range, and one with the range from \<open>0.1.0\<close> upwards.\<close>

definition range_semver :: "(unit, bool) semver" where
  "range_semver = tiny_semver\<lparr>req_comparators := (\<lambda>b. if b then [] else
     [\<lparr>cp_op = OpGreaterEq, cp_major = 0, cp_minor = Some 1, cp_patch = Some 0, cp_pre = []\<rparr>]),
     req_matches := (\<lambda>_ _. True)\<rparr>"

definition range_ix :: "(unit, bool, string) index_env" where
  "range_ix = demo_ix\<lparr>ix_semver := range_semver\<rparr>"

theorem latest_matching_version_witness:
  "(\<exists>pm. get_pkg_meta_by_version_expr demo_ix demo_pkgs ''b'' None True None = Ok (Some (''mb'', pm)) \<and> meta_at demo_ix demo_pkgs ''mb'' = Some pm) \<and>
   (\<exists>pm. get_pkg_meta_by_version_expr range_ix demo_pkgs ''c'' (Some ''y'') False None = Ok (Some (''mc'', pm)) \<and> meta_at range_ix demo_pkgs ''mc'' = Some pm)"
proof -
  have so: "strict_order (ix_semver demo_ix)" "strict_order (ix_semver range_ix)"
    by (simp_all add: strict_order_def demo_ix_def tiny_semver_def range_ix_def range_semver_def)
  have "map_option fst (case get_pkg_meta_by_version_expr demo_ix demo_pkgs ''b'' None True None of Inr x \<Rightarrow> x | Inl _ \<Rightarrow> None) = Some ''mb''"
    "map_option fst (case get_pkg_meta_by_version_expr range_ix demo_pkgs ''c'' (Some ''y'') False None of Inr x \<Rightarrow> x | Inl _ \<Rightarrow> None) = Some ''mc''"
    by code_simp+
  then obtain pm pm' where g: "get_pkg_meta_by_version_expr demo_ix demo_pkgs ''b'' None True None = Ok (Some (''mb'', pm))"
    "get_pkg_meta_by_version_expr range_ix demo_pkgs ''c'' (Some ''y'') False None = Ok (Some (''mc'', pm'))"
    by (auto split: sum.splits)
  from latest_matching_version [OF so(1) refl, of demo_pkgs "''b''" None True None]
    latest_matching_version [OF so(2) refl, of demo_pkgs "''c''" "Some ''y''" False None] g
  show ?thesis by auto
qed

text \<open>\<^bold>\<open>C18.\<close> The tables of an index keep their shape through every operation, merging of another index included: the keys are
  unique and the integer column of a version is the integer form of its text.\<close>

theorem index_tables_wf:
  assumes "index_made S db"
  shows "distinct (map pm_metaobjid (mi_metas db)) \<and> distinct (map version_key (mi_versions db)) \<and> distinct (map au_name (mi_authors db)) \<and>
    (\<forall>r \<in> set (mi_versions db). \<exists>w. version_to_int (pv_version r) = Ok w \<and> pv_version_int r = as_i64 w)"
  using index_made_wf [OF assms] by (simp add: index_wf_def)

theorem index_tables_wf_witness:
  "distinct (map pm_metaobjid (mi_metas (add_pkg_meta 7 ''m'' ''A'' ''x'' None (add_pkg_meta 6 ''m'' ''B'' ''x'' None meta_index_new))))"
proof -
  have "index_made tiny_semver (add_pkg_meta 7 ''m'' ''A'' ''x'' None (add_pkg_meta 6 ''m'' ''B'' ''x'' None meta_index_new))"
    by (intro made_meta made_new)
  from index_tables_wf [OF this] show ?thesis by simp
qed

end
