(* ===== verification/Spec2Isabelle.thy ===== *)
theory Spec2Isabelle
  imports Outbox_Sender Fs_Meta_Lease Fs_Meta_Stat Ndm_Resolve_Props Path_Cache_Lru Background_Mgr
    Fs_Meta_Listing Fs_Meta_Coherence Diff_Reader_Props Chunk_List_Reader_Props Package_Index_Props
begin

text \<open>
  A verification library for cyfs-ndn, a content network with a file system on top (Rust, \<open>src/src\<close>).

  \<^bold>\<open>The program.\<close>  Data is cut into chunks, and chunks, chunk lists, files and directories are named by the hash of their
  content (crate \<open>ndn-lib\<close>).  A named store keeps objects in an SQLite database and chunk data in a backend
  (\<open>named_store\<close>); its database counts the references from pins, anchors of the file system and parent objects, sends the edges
  of a parent to the stores of its children through an outbox, and evicts what nothing protects.  A store
  manager spreads objects over several stores by a layout and opens streams over their chunks.  A diff chunk list
  edits a stored file copy-on-write.  The metadata service (\<open>fs_meta\<close>) keeps inodes and directory entries in its own database, on
  top of stored directory objects, and resolves paths through a cache.  \<open>package-lib\<close> finds versioned packages
  and their dependencies in an index.

  \<^bold>\<open>Conventions.\<close>  A struct is a record, an enum a datatype, a \<open>Result\<close> a sum with the error on the left (\<open>Ok\<close>, \<open>Err\<close>), a method that
  changes its object takes and returns it.  A \<open>u64\<close> is a 64-bit word, an SQLite integer an \<open>int\<close> that is
  reached through \<open>as_i64\<close>; file offsets inside of a reader or writer are natural numbers with the bound $2^{64}$ as a condition where
  the code adds to them.  A table is a list of rows in the order of their row ids, and each SQL statement is
  a function on it.  A panic is \<open>None\<close>.  Third-party code is an argument: the record of hash functions and of the text codecs
  (\<open>ext_crates\<close>), JSON (\<open>value_crates\<close>), \<open>semver\<close>, random numbers and the clock; what is assumed of it is a named predicate
  (\<open>hex_laws\<close>, \<open>semver_laws\<close> and others) that a concrete instance satisfies.  Rust's hash maps are
  association lists in an arbitrary order.

  \<^bold>\<open>Objects\<close> (\<open>ndn-lib/src\<close>).
  \<^item> \<open>Ndn_Prelude\<close>: integers, errors (\<open>lib.rs\<close>), text, SQL statements on lists of rows, the locale \<open>enum_codec\<close>.
  \<^item> \<open>Ndn_Object\<close>: \<open>object.rs\<close>, \<open>chunk/chunk.rs\<close>, \<open>chunk/chunk_list.rs\<close>, \<open>fileobj.rs\<close>, \<open>dirobj.rs\<close>, \<open>simple_object_map.rs\<close>; the codecs of identifiers are
    inverse to each other.
  \<^item> \<open>Chunk_Hasher\<close>: \<open>hash.rs\<close>, \<open>chunk/hasher.rs\<close>; copying a chunk verifies it, quick hashes.

  \<^bold>\<open>One store\<close> (\<open>named_store/src\<close>).
  \<^item> \<open>Gc_Types\<close>: \<open>gc_types.rs\<close>.  \<open>Store_Db\<close>: \<open>store_db.rs\<close>.  \<open>Store_Db_Inv\<close>: the invariant \<open>db_inv\<close> of the tables and its preservation.
    \<open>Store_Db_Props\<close>: reachable states, contents, eviction, pins, anchors, the outbox as a queue.
  \<^item> \<open>Edge_Cascade\<close>: the cascade of reference edges as a transition system; with in-order delivery, what was sent and what is queued
    account for the children of expanded objects, and a drained outbox leaves everything below an anchored object protected.
  \<^item> \<open>Outbox_Sender\<close>: \<open>outbox_sender.rs\<close> over the interface \<open>edge_router\<close>, interpreted by the loopback router and by one that can fail.
  \<^item> \<open>Chunk_Backend\<close>: \<open>backend.rs\<close> as the locale \<open>chunk_backend\<close>, \<open>local_fs_backend.rs\<close> as its interpretation; a written file matches its name.
  \<^item> \<open>Lru_Hot_Table\<close>: \<open>lru_hot_table.rs\<close>.  \<open>Named_Store\<close>: \<open>named_store.rs\<close>.  \<open>Named_Store_Props\<close>: the collector refines a one-pass
    collector, forced collection is exact, reads and writes of chunks.

  \<^bold>\<open>Many stores\<close> (\<open>named_store/src\<close>).
  \<^item> \<open>Store_Layout\<close>: \<open>store_layout.rs\<close>, the Maglev table.  \<open>Store_Layout_Props\<close>: construction ends with a full, weighted table.
  \<^item> \<open>Ndm\<close>: \<open>ndm.rs\<close>, routing and the operations of \<open>NamedDataMgr\<close>.  \<open>Ndm_Props\<close>: the locale \<open>object_store\<close>, interpreted for a store and
    for the manager; changes of layout, forced collection, opening a configuration.
  \<^item> \<open>Ndm_Resolve\<close>: inner paths with their cache and the completeness check of \<open>ndm.rs\<close>.  \<open>Ndm_Resolve_Props\<close>: the cache is
    transparent, the check is exact for object trees and diverges on a cycle.
  \<^item> \<open>Diff_Chunk_List\<close>: the writer of \<open>diff_chunk_list.rs\<close>.  \<open>Diff_Writer_Props\<close>: it refines an array of bytes.  \<open>Diff_Save_Props\<close>: closing and
    opening it again, the rebuilt list.  \<open>Diff_Reader\<close>, \<open>Diff_Reader_Props\<close>: the reader of what was saved delivers the array.
  \<^item> \<open>Chunk_List_Reader\<close>: \<open>chunk_list_reader.rs\<close> and the readers of \<open>ndm.rs\<close>.  \<open>Chunk_List_Reader_Props\<close>: it simulates the reader of an
    empty diff, so a file that is opened delivers its chunks in order.

  \<^bold>\<open>The file system\<close> (\<open>fs_meta/src\<close>, types from \<open>cyfs-lib/src/fsmeta_client.rs\<close>).
  \<^item> \<open>Fs_Meta_Types\<close>: records and their columns.  \<open>Fs_Meta_Db\<close>: the handlers of \<open>fs_meta_service.rs\<close> on the tables.  \<open>Fs_Meta_Inv\<close>: their
    invariant.  \<open>Fs_Meta_Steps\<close>: the transition system and the locale \<open>frame\<close> for what handlers leave alone.  \<open>Fs_Meta_Props\<close>: reachable
    states, optimistic concurrency, entries as a map.  \<open>Fs_Meta_Lease\<close>: write leases.  \<open>Fs_Meta_Stat\<close>: reference counts.
  \<^item> \<open>Path_Cache\<close>: \<open>path_resolve_cache.rs\<close>.  \<open>Path_Cache_Props\<close>: cached paths are those of the tree until something is evicted.  \<open>Path_Cache_Lru\<close>: the cache is bounded.
    \<open>List_Cache\<close>: \<open>list_cache.rs\<close>, paging.  \<open>Background_Mgr\<close>: \<open>background.rs\<close> over the locale \<open>dedup_queue\<close>; a run
    accounts for the calls of any executor.
  \<^item> \<open>Fs_Meta_Ops\<close>: transactions and path operations of \<open>fs_meta_service.rs\<close>.  \<open>Fs_Meta_View\<close>: what they do to the tree and that a failure
    changes nothing.  \<open>Fs_Meta_Listing\<close>: listings agree with look-ups.  \<open>Fs_Meta_Resolve\<close>: the locale \<open>resolve_cache\<close>, resolution through a
    valid cache is a walk of the tree.  \<open>Fs_Meta_Coherence\<close>: every history of operations in which nothing is evicted keeps the cache valid.

  \<^bold>\<open>Packages\<close> (\<open>package-lib/src\<close>).
  \<^item> \<open>Package_Id\<close>: \<open>package_id.rs\<close>.  \<open>Package_Id_Props\<close>: identifiers parse back, the integer form orders versions.
  \<^item> \<open>Package_Index\<close>: \<open>meta_index_db.rs\<close>, \<open>meta.rs\<close>.  \<open>Package_Index_Props\<close>: tables, the latest of the versions that a query searches, dependencies in order.

  \<^bold>\<open>Loops.\<close>  No fuel is used except where the code has a bound of its own (the number of symbolic links that a resolution follows).  A loop
  whose end follows from its data is a \<open>fun\<close> or a \<open>function\<close> with its measure: the batches of a collection, the search of
  a position, the dependencies of a package (measured by the packages that are not yet visited).  A loop that can run
  forever is a partial function with the value \<open>None\<close> for that: the Maglev rounds, the resolution of inner paths, the completeness check, the
  polling of readers, a sweep of the background manager.  For each of these a theorem says when it returns.

  \<^bold>\<open>Conditions.\<close>  Some properties hold under conditions that the code does not enforce; each is part of the statement and
  what goes wrong without it is a lemma or is described with the claim.  The path cache must not evict (\<open>eviction_leaves_stale_path\<close>);
  \<open>remove_object\<close> of a store database must not be called for a protected object (\<open>remove_object_loses_anchors\<close>); the messages of
  the cascade must arrive in order (\<open>retry_reorder_unprotects\<close>); \<open>set_inode\<close>, \<open>alloc_inode\<close> and \<open>remove_inode\<close> must respect \<open>ref_by\<close>; the
  text of a version must not be readable as an object identifier (\<open>hex_tag_becomes_objid\<close>).

  \<^bold>\<open>Not modelled.\<close>
  \<^item> The gateways, the HTTP backend and GC client, the RPC client and protocol of the metadata service, the toolkit and the HTTP
    client: they encode calls of the modelled operations as requests and decode the answers; there is no state of their own to verify.
  \<^item> The file buffers (\<open>fs_buffer\<close>), the named file manager (\<open>cyfs\<close>) and the FUSE daemon: files of the operating system and concurrent
    tasks.  With them, opening and closing file writers and finalising directories in the metadata service, which call the buffers.
  \<^item> The package environment (\<open>package-lib/src/env.rs\<close>): directories, lock files and downloads.
  \<^item> The limit reader wraps an adaptor of \<open>tokio\<close>; messages, relations, actions and base contents are plain serialised records.
  \<^item> Concurrency inside of one operation: the locks of a store and of a connection make every modelled method a single
    step; where the code releases them between steps (edges in the outbox, writers that compare revisions, leases) the
    theorems quantify over the interleavings of the steps.  Failures of SQLite and of the operating system other than missing and existing rows or files.
\<close>

end
